(* ===== verification/Prelude.thy ===== *)
theory Prelude
  imports Main "HOL-Library.Word"
begin

unbundle bit_operations_syntax

text \<open>
  What the component theories share: the names of the C integer and pointer types, the
  \<open>EFI_STATUS\<close> values the modelled code returns, the result type of code that may fail an
  \<open>ASSERT\<close> or not return, and generic lemmas on lists and words.  Pointers, \<open>UINTN\<close> and
  \<open>EFI_PHYSICAL_ADDRESS\<close> are 64-bit words: the modelled build is a 64-bit (X64) one.
\<close>

section \<open>Integer types, status codes\<close>

type_synonym u8 = "8 word"
type_synonym u16 = "16 word"
type_synonym u32 = "32 word"
type_synonym u64 = "64 word"
type_synonym ptr = "64 word"

abbreviation NULL :: ptr where "NULL \<equiv> 0"

text \<open>A GUID is its 16 bytes.\<close>

type_synonym EFI_GUID = "u8 list"

datatype efi_status =
    EFI_SUCCESS
  | EFI_INVALID_PARAMETER
  | EFI_UNSUPPORTED
  | EFI_BAD_BUFFER_SIZE
  | EFI_BUFFER_TOO_SMALL
  | EFI_NOT_READY
  | EFI_OUT_OF_RESOURCES
  | EFI_VOLUME_CORRUPTED
  | EFI_NOT_FOUND
  | EFI_ACCESS_DENIED
  | EFI_ALREADY_STARTED
  | EFI_SECURITY_VIOLATION
  | EFI_NOT_STARTED
  | EFI_ABORTED
  | EFI_PROTOCOL_ERROR
  | EFI_NOT_AVAILABLE_YET

definition EFI_ERROR :: "efi_status \<Rightarrow> bool" where
  "EFI_ERROR s \<longleftrightarrow> s \<noteq> EFI_SUCCESS"

lemma EFI_ERROR_simps [simp]:
  "\<not> EFI_ERROR EFI_SUCCESS"
  "EFI_ERROR EFI_INVALID_PARAMETER"
  "EFI_ERROR EFI_OUT_OF_RESOURCES"
  "EFI_ERROR EFI_NOT_FOUND"
  "EFI_ERROR EFI_ACCESS_DENIED"
  "EFI_ERROR EFI_SECURITY_VIOLATION"
  by (simp_all add: EFI_ERROR_def)

section \<open>Code that may fail an ASSERT or not return\<close>

text \<open>
  \<open>None\<close>: the code does not return.  \<open>Some (Inl f)\<close>: it stops in a fault (an \<open>ASSERT\<close>
  that fails in a build with assertions, a write through a NULL pointer in one without, an access to
  memory that was freed, or one past the end of a table).  \<open>Some (Inr x)\<close>: it returns \<open>x\<close>.
\<close>

datatype fault = AssertFailed | NullDeref | UseAfterFree | OutOfBounds

type_synonym 'a run = "(fault + 'a) option"

definition ret :: "'a \<Rightarrow> 'a run" where
  "ret x = Some (Inr x)"

definition bind_run :: "'a run \<Rightarrow> ('a \<Rightarrow> 'b run) \<Rightarrow> 'b run" where
  "bind_run m k = (case m of None \<Rightarrow> None | Some (Inl f) \<Rightarrow> Some (Inl f) | Some (Inr x) \<Rightarrow> k x)"

text \<open>
  \<open>ASSERT (e)\<close>: with assertions compiled in, \<open>e\<close> is evaluated and a false value stops the
  program; without, \<open>e\<close> is not evaluated at all.
\<close>

definition assert_run :: "bool \<Rightarrow> bool run \<Rightarrow> 'a run \<Rightarrow> 'a run" where
  "assert_run enabled e k =
     (if enabled then bind_run e (\<lambda>b. if b then k else Some (Inl AssertFailed)) else k)"

lemma bind_run_simps [simp]:
  "bind_run None k = None"
  "bind_run (Some (Inl f)) k = Some (Inl f)"
  "bind_run (Some (Inr x)) k = k x"
  "bind_run (ret x) k = k x"
  by (simp_all add: bind_run_def ret_def)

lemma ret_inject [simp]: "ret x = ret y \<longleftrightarrow> x = y"
  by (simp add: ret_def)

lemma ret_not_fault [simp]: "ret x \<noteq> None" "ret x \<noteq> Some (Inl f)" "ret x = Some (Inr y) \<longleftrightarrow> x = y"
  by (simp_all add: ret_def)

lemma fault_not_ret [simp]: "None \<noteq> ret x" "Some (Inl f) \<noteq> ret x" "Some (Inr y) = ret x \<longleftrightarrow> y = x"
  by (simp_all add: ret_def)

lemma bind_run_eq_ret:
  "bind_run m k = ret y \<longleftrightarrow> (\<exists>x. m = ret x \<and> k x = ret y)"
  by (auto simp: bind_run_def ret_def split: option.splits sum.splits)

lemma bind_run_eq_bind:
  "bind_run m k = Option.bind m (\<lambda>r. case r of Inl f \<Rightarrow> Some (Inl f) | Inr x \<Rightarrow> k x)"
  by (simp add: bind_run_def split: option.split sum.split)

text \<open>A condition the code ASSERTs without calling a function.\<close>

definition assert_if :: "bool \<Rightarrow> bool \<Rightarrow> 'a run \<Rightarrow> 'a run" where
  "assert_if enabled b k = (if enabled \<and> \<not> b then Some (Inl AssertFailed) else k)"

lemma assert_if_simps [simp]:
  "assert_if False b k = k"
  "assert_if enabled True k = k"
  "assert_if True False k = Some (Inl AssertFailed)"
  by (simp_all add: assert_if_def)

text \<open>Partial correctness: if the run returns, its result satisfies \<open>Q\<close>; if it faults, the fault is in \<open>F\<close>.\<close>

definition holds :: "fault set \<Rightarrow> 'a run \<Rightarrow> ('a \<Rightarrow> bool) \<Rightarrow> bool" where
  "holds F m Q \<longleftrightarrow> (case m of None \<Rightarrow> True | Some (Inl f) \<Rightarrow> f \<in> F | Some (Inr x) \<Rightarrow> Q x)"

lemma holds_simps [simp]:
  "holds F None Q"
  "holds F (Some (Inl f)) Q \<longleftrightarrow> f \<in> F"
  "holds F (Some (Inr x)) Q \<longleftrightarrow> Q x"
  "holds F (ret x) Q \<longleftrightarrow> Q x"
  by (simp_all add: holds_def ret_def)

lemma bind_run_cong [fundef_cong]:
  "m = m' \<Longrightarrow> (\<And>x. m' = ret x \<Longrightarrow> k x = k' x) \<Longrightarrow> bind_run m k = bind_run m' k'"
  by (auto simp: bind_run_def ret_def split: option.split sum.split)

lemma holds_bind:
  assumes "holds F m R" "\<And>x. R x \<Longrightarrow> holds F (k x) Q"
  shows "holds F (bind_run m k) Q"
proof (cases m)
  case (Some r) with assms show ?thesis by (cases r) auto
qed simp

lemma holds_weaken: "holds F m R \<Longrightarrow> (\<And>x. R x \<Longrightarrow> Q x) \<Longrightarrow> holds F m Q"
  by (auto simp: holds_def split: option.splits sum.splits)

lemma holds_assert_if:
  "AssertFailed \<in> F \<Longrightarrow> (\<not> enabled \<or> b \<Longrightarrow> holds F k Q) \<Longrightarrow> holds F (assert_if enabled b k) Q"
  by (auto simp: assert_if_def)

lemma holds_if: "(b \<Longrightarrow> holds F m Q) \<Longrightarrow> (\<not> b \<Longrightarrow> holds F n Q) \<Longrightarrow> holds F (if b then m else n) Q"
  by simp

lemma holds_ret: "holds F m Q \<Longrightarrow> m = ret x \<Longrightarrow> Q x"
  by simp

text \<open>A run that returns, or stops in a fault if \<open>a\<close>; it does not go on for ever.\<close>

definition ends_if :: "bool \<Rightarrow> 'a run \<Rightarrow> bool" where
  "ends_if a m \<longleftrightarrow> m \<noteq> None \<and> (\<not> a \<longrightarrow> (\<exists>r. m = ret r))"

lemma ends_ret [simp]: "ends_if a (ret r)"
  by (simp add: ends_if_def)

lemma ends_fault: "a \<Longrightarrow> ends_if a (Some (Inl f))"
  by (simp add: ends_if_def)

lemma ends_mono: "ends_if a m \<Longrightarrow> (a \<Longrightarrow> b) \<Longrightarrow> ends_if b m"
  by (auto simp: ends_if_def)

lemma ends_bind: "ends_if a m \<Longrightarrow> (\<And>r. m = ret r \<Longrightarrow> ends_if a (k r)) \<Longrightarrow> ends_if a (bind_run m k)"
  unfolding ends_if_def by (auto simp: bind_run_def ret_def split: option.splits sum.splits)

text \<open>So that \<open>partial_function (option)\<close> accepts recursive calls under \<open>bind_run\<close>.\<close>

lemma case_sum_mono [partial_function_mono]:
  assumes "\<And>x. mono_option (\<lambda>f. B x f)" and "\<And>y. mono_option (\<lambda>f. C y f)"
  shows "mono_option (\<lambda>f. case r of Inl x \<Rightarrow> B x f | Inr y \<Rightarrow> C y f)"
  using assms by (cases r) auto

lemma bind_run_mono [partial_function_mono]:
  assumes "mono_option B" and "\<And>y. mono_option (\<lambda>f. C y f)"
  shows "mono_option (\<lambda>f. bind_run (B f) (\<lambda>y. C y f))"
  unfolding bind_run_eq_bind using assms by (intro bind_mono case_sum_mono option.const_mono) auto

lemma assert_run_ret [simp]: "e = ret True \<Longrightarrow> assert_run enabled e k = k"
  by (simp add: assert_run_def)

lemma assert_run_off [simp]: "assert_run False e k = k"
  by (simp add: assert_run_def)

text \<open>Clearing the low bits of a word rounds it down.\<close>

lemma and_not_mask: "unat (w AND NOT (push_bit n 1 - 1)) = unat w div 2 ^ n * 2 ^ n" for w :: u64
proof -
  have w: "w AND NOT (push_bit n 1 - 1) = push_bit n (drop_bit n w)"
    by (rule bit_eqI) (auto simp: bit_simps simp flip: mask_eq_exp_minus_1 dest: bit_imp_le_length)
  have "unat w div 2 ^ n * 2 ^ n < 2 ^ 64"
    using unsigned_less [of w] le_less_trans [OF div_times_less_eq_dividend] by fastforce
  then have "take_bit 64 (unat w div 2 ^ n * 2 ^ n) = unat w div 2 ^ n * 2 ^ n" by (rule take_bit_nat_eq_self)
  moreover have "take_bit 64 (unat w) = unat w" using unsigned_less [of w] by (intro take_bit_nat_eq_self) simp
  ultimately show ?thesis unfolding w unsigned_push_bit_eq unsigned_drop_bit_eq
    by (simp add: push_bit_eq_mult drop_bit_eq_div take_bit_nat_eq_self)
qed

end
