(* ===== verification/LinkedList.thy ===== *)
theory LinkedList
  imports Prelude
begin

text \<open>
  The doubly linked list of BaseLib (MdePkg/Library/BaseLib/LinkedList.c), which every queue
  of the DXE core is made of: circular lists threaded through \<open>LIST_ENTRY\<close> fields, with a
  head node that is an entry like any other.  The heap is the two link fields as functions of
  the entry's address; every operation is the C function's sequence of field writes.  The
  abstraction \<open>dlist h L xs\<close> says that the ring at head \<open>L\<close> holds the entries \<open>xs\<close> in order.
\<close>

section \<open>The heap of list entries\<close>

record list_heap =
  ForwardLink :: "ptr \<Rightarrow> ptr"
  BackLink :: "ptr \<Rightarrow> ptr"

text \<open>The platform configuration the functions read: two PCDs, and whether ASSERTs are built in.\<close>

record list_pcd =
  PcdVerifyNodeInList :: bool
  PcdMaximumLinkedListLength :: u32
  AssertEnabled :: bool

definition set_fwd :: "ptr \<Rightarrow> ptr \<Rightarrow> list_heap \<Rightarrow> list_heap" where
  "set_fwd p v h = h\<lparr>ForwardLink := (ForwardLink h)(p := v)\<rparr>"

definition set_back :: "ptr \<Rightarrow> ptr \<Rightarrow> list_heap \<Rightarrow> list_heap" where
  "set_back p v h = h\<lparr>BackLink := (BackLink h)(p := v)\<rparr>"

section \<open>InternalBaseLibIsNodeInList\<close>

text \<open>
  How the membership loop is left: by an \<open>ASSERT\<close>, by the early \<open>return\<close>, or at its end with
  the values of \<open>Ptr\<close> and \<open>Count\<close>.  With no length limit the loop need not end on a list that
  is not a ring, hence \<open>partial_function (option)\<close>.
\<close>

datatype walk = WalkAssert | WalkReturn bool | WalkDone ptr nat

partial_function (option) member_loop ::
  "list_pcd \<Rightarrow> list_heap \<Rightarrow> ptr \<Rightarrow> ptr \<Rightarrow> ptr \<Rightarrow> nat \<Rightarrow> walk option" where
  "member_loop c h List Node Ptr Count =
     (let Ptr' = ForwardLink h Ptr; limit = unat (PcdMaximumLinkedListLength c);
          Count' = (if limit > 0 then Count + 1 else Count) in
      if limit > 0 \<and> Count' \<ge> limit
      then (if AssertEnabled c then Some WalkAssert else Some (WalkReturn (Ptr' = Node)))
      else if Ptr' \<noteq> List \<and> Ptr' \<noteq> Node then member_loop c h List Node Ptr' Count'
      else Some (WalkDone Ptr' Count'))"

function count_loop :: "list_heap \<Rightarrow> ptr \<Rightarrow> nat \<Rightarrow> ptr \<Rightarrow> nat \<Rightarrow> nat" where
  "count_loop h List limit Ptr Count =
     (let Ptr' = ForwardLink h Ptr; Count' = Count + 1 in
      if Ptr' \<noteq> List \<and> Count' < limit then count_loop h List limit Ptr' Count' else Count')"
  by pat_completeness auto
termination
  by (relation "measure (\<lambda>(h, List, limit, Ptr, Count). limit - Count)") auto

declare count_loop.simps [simp del]

definition InternalBaseLibIsNodeInList ::
  "list_pcd \<Rightarrow> list_heap \<Rightarrow> ptr \<Rightarrow> ptr \<Rightarrow> bool \<Rightarrow> bool run" where
  "InternalBaseLibIsNodeInList c h List Node VerifyNodeInList =
     (if AssertEnabled c \<and>
         (List = NULL \<or> ForwardLink h List = NULL \<or> BackLink h List = NULL \<or> Node = NULL)
      then Some (Inl AssertFailed)
      else case (if PcdVerifyNodeInList c \<and> VerifyNodeInList
                 then member_loop c h List Node List 0
                 else Some (WalkDone List 0)) of
        None \<Rightarrow> None
      | Some WalkAssert \<Rightarrow> Some (Inl AssertFailed)
      | Some (WalkReturn b) \<Rightarrow> ret b
      | Some (WalkDone Ptr Count) \<Rightarrow>
          if PcdVerifyNodeInList c \<and> VerifyNodeInList \<and> Ptr \<noteq> Node then ret False
          else if unat (PcdMaximumLinkedListLength c) > 0 then
            (let Count' = count_loop h List (unat (PcdMaximumLinkedListLength c)) Ptr Count in
             if AssertEnabled c \<and> \<not> Count' < unat (PcdMaximumLinkedListLength c)
             then Some (Inl AssertFailed) else ret True)
          else ret True)"

section \<open>The operations\<close>

definition InitializeListHead :: "list_pcd \<Rightarrow> list_heap \<Rightarrow> ptr \<Rightarrow> (list_heap \<times> ptr) run" where
  "InitializeListHead c h ListHead =
     (if AssertEnabled c \<and> ListHead = NULL then Some (Inl AssertFailed)
      else ret (set_back ListHead ListHead (set_fwd ListHead ListHead h), ListHead))"

definition InsertHeadList ::
  "list_pcd \<Rightarrow> list_heap \<Rightarrow> ptr \<Rightarrow> ptr \<Rightarrow> (list_heap \<times> ptr) run" where
  "InsertHeadList c h ListHead Entry =
     assert_run (AssertEnabled c) (InternalBaseLibIsNodeInList c h ListHead Entry False)
       (let h1 = set_fwd Entry (ForwardLink h ListHead) h;
            h2 = set_back Entry ListHead h1;
            h3 = set_back (ForwardLink h2 Entry) Entry h2;
            h4 = set_fwd ListHead Entry h3
        in ret (h4, ListHead))"

definition InsertTailList ::
  "list_pcd \<Rightarrow> list_heap \<Rightarrow> ptr \<Rightarrow> ptr \<Rightarrow> (list_heap \<times> ptr) run" where
  "InsertTailList c h ListHead Entry =
     assert_run (AssertEnabled c) (InternalBaseLibIsNodeInList c h ListHead Entry False)
       (let h1 = set_fwd Entry ListHead h;
            h2 = set_back Entry (BackLink h1 ListHead) h1;
            h3 = set_fwd (BackLink h2 Entry) Entry h2;
            h4 = set_back ListHead Entry h3
        in ret (h4, ListHead))"

definition GetFirstNode :: "list_pcd \<Rightarrow> list_heap \<Rightarrow> ptr \<Rightarrow> ptr run" where
  "GetFirstNode c h List =
     assert_run (AssertEnabled c) (InternalBaseLibIsNodeInList c h List List False)
       (ret (ForwardLink h List))"

definition GetNextNode :: "list_pcd \<Rightarrow> list_heap \<Rightarrow> ptr \<Rightarrow> ptr \<Rightarrow> ptr run" where
  "GetNextNode c h List Node =
     assert_run (AssertEnabled c) (InternalBaseLibIsNodeInList c h List Node True)
       (ret (ForwardLink h Node))"

definition GetPreviousNode :: "list_pcd \<Rightarrow> list_heap \<Rightarrow> ptr \<Rightarrow> ptr \<Rightarrow> ptr run" where
  "GetPreviousNode c h List Node =
     assert_run (AssertEnabled c) (InternalBaseLibIsNodeInList c h List Node True)
       (ret (BackLink h Node))"

definition IsListEmpty :: "list_pcd \<Rightarrow> list_heap \<Rightarrow> ptr \<Rightarrow> bool run" where
  "IsListEmpty c h ListHead =
     assert_run (AssertEnabled c) (InternalBaseLibIsNodeInList c h ListHead ListHead False)
       (ret (ForwardLink h ListHead = ListHead))"

definition IsNull :: "list_pcd \<Rightarrow> list_heap \<Rightarrow> ptr \<Rightarrow> ptr \<Rightarrow> bool run" where
  "IsNull c h List Node =
     assert_run (AssertEnabled c) (InternalBaseLibIsNodeInList c h List Node True)
       (ret (Node = List))"

definition IsNodeAtEnd :: "list_pcd \<Rightarrow> list_heap \<Rightarrow> ptr \<Rightarrow> ptr \<Rightarrow> bool run" where
  "IsNodeAtEnd c h List Node =
     assert_run (AssertEnabled c) (InternalBaseLibIsNodeInList c h List Node True)
       (bind_run (IsNull c h List Node) (\<lambda>n. ret (\<not> n \<and> BackLink h List = Node)))"

definition RemoveEntryList :: "list_pcd \<Rightarrow> list_heap \<Rightarrow> ptr \<Rightarrow> (list_heap \<times> ptr) run" where
  "RemoveEntryList c h Entry =
     assert_run (AssertEnabled c) (bind_run (IsListEmpty c h Entry) (\<lambda>e. ret (\<not> e)))
       (let h1 = set_back (ForwardLink h Entry) (BackLink h Entry) h;
            h2 = set_fwd (BackLink h1 Entry) (ForwardLink h1 Entry) h1
        in ret (h2, ForwardLink h2 Entry))"

definition SwapListEntries ::
  "list_pcd \<Rightarrow> list_heap \<Rightarrow> ptr \<Rightarrow> ptr \<Rightarrow> (list_heap \<times> ptr) run" where
  "SwapListEntries c h FirstEntry SecondEntry =
     (if FirstEntry = SecondEntry then ret (h, SecondEntry)
      else assert_run (AssertEnabled c)
        (InternalBaseLibIsNodeInList c h FirstEntry SecondEntry True)
        (bind_run (RemoveEntryList c h FirstEntry) (\<lambda>(h1, Ptr).
          if BackLink h1 Ptr = SecondEntry then InsertTailList c h1 SecondEntry FirstEntry
          else bind_run (InsertHeadList c h1 SecondEntry FirstEntry) (\<lambda>(h2, r).
            if Ptr = r then ret (h2, Ptr)
            else bind_run (RemoveEntryList c h2 SecondEntry) (\<lambda>(h3, _).
              bind_run (InsertTailList c h3 Ptr SecondEntry) (\<lambda>(h4, _).
                ret (h4, SecondEntry)))))))"

section \<open>The abstraction: a ring of entries\<close>


fun chain :: "list_heap \<Rightarrow> ptr list \<Rightarrow> bool" where
  "chain h (x # y # zs) \<longleftrightarrow> ForwardLink h x = y \<and> BackLink h y = x \<and> chain h (y # zs)"
| "chain h _ \<longleftrightarrow> True"

definition dlist :: "list_heap \<Rightarrow> ptr \<Rightarrow> ptr list \<Rightarrow> bool" where
  "dlist h L xs \<longleftrightarrow> chain h (L # xs @ [L]) \<and> distinct (L # xs) \<and> NULL \<notin> set (L # xs)"

definition fits :: "list_pcd \<Rightarrow> nat \<Rightarrow> bool" where
  "fits c n \<longleftrightarrow> unat (PcdMaximumLinkedListLength c) = 0 \<or> n < unat (PcdMaximumLinkedListLength c)"

definition frame :: "ptr set \<Rightarrow> list_heap \<Rightarrow> list_heap \<Rightarrow> bool" where
  "frame S h h' \<longleftrightarrow> (\<forall>p. p \<notin> S \<longrightarrow> ForwardLink h' p = ForwardLink h p \<and> BackLink h' p = BackLink h p)"

lemma link_sel [simp]:
  "ForwardLink (set_fwd p v h) = (ForwardLink h)(p := v)"
  "BackLink (set_fwd p v h) = BackLink h"
  "ForwardLink (set_back p v h) = ForwardLink h"
  "BackLink (set_back p v h) = (BackLink h)(p := v)"
  by (simp_all add: set_fwd_def set_back_def)

lemma chain_Cons: "chain h (x # y # zs) \<longleftrightarrow> ForwardLink h x = y \<and> BackLink h y = x \<and> chain h (y # zs)"
  by simp

lemma chain_append: "chain h (xs @ y # ys) \<longleftrightarrow> chain h (xs @ [y]) \<and> chain h (y # ys)"
proof (induction xs)
  case Nil then show ?case by simp
next
  case (Cons x xs) then show ?case by (cases xs) auto
qed

lemma chain_split2:
  "chain h (a # xs @ y # z # ys) \<longleftrightarrow> chain h (a # xs @ [y]) \<and> ForwardLink h y = z \<and> BackLink h z = y \<and> chain h (z # ys)"
  using chain_append [of h "a # xs" y "z # ys"] by auto

lemma chain_cong:
  assumes "\<And>p. p \<in> set (butlast xs) \<Longrightarrow> ForwardLink h' p = ForwardLink h p"
    and "\<And>p. p \<in> set (tl xs) \<Longrightarrow> BackLink h' p = BackLink h p"
  shows "chain h' xs = chain h xs"
  using assms by (induction h xs rule: chain.induct) auto

lemma chain_set_fwd [simp]: "p \<notin> set (butlast xs) \<Longrightarrow> chain (set_fwd p v h) xs = chain h xs"
  by (rule chain_cong) auto

lemma chain_set_back [simp]: "p \<notin> set (tl xs) \<Longrightarrow> chain (set_back p v h) xs = chain h xs"
  by (rule chain_cong) auto

lemma chain_frame: "frame S h h' \<Longrightarrow> set xs \<inter> S = {} \<Longrightarrow> chain h' xs = chain h xs"
  by (rule chain_cong; cases xs) (auto simp: frame_def dest!: in_set_butlastD split: if_splits)

lemma dlist_frame: "frame S h h' \<Longrightarrow> set (L # xs) \<inter> S = {} \<Longrightarrow> dlist h' L xs = dlist h L xs"
  using chain_frame [of S h h' "L # xs @ [L]"] by (auto simp: dlist_def)

lemma dlist_rotate: "dlist h L (xs @ n # ys) \<Longrightarrow> dlist h n (ys @ L # xs)"
  using chain_append [of h "L # xs" n "ys @ [L]"] chain_append [of h "n # ys" L "xs @ [n]"]
  by (auto simp: dlist_def)

lemma dlist_Nil: "dlist h L [] \<longleftrightarrow> ForwardLink h L = L \<and> BackLink h L = L \<and> L \<noteq> NULL"
  by (auto simp: dlist_def)

lemma chain_first: "chain h (p # ys @ [q]) \<Longrightarrow> ForwardLink h p = hd (ys @ [q])"
  by (cases ys) auto

lemma chain_last: "chain h (p # ys @ [q]) \<Longrightarrow> BackLink h q = last (p # ys)"
proof (induction ys arbitrary: p)
  case Nil then show ?case by simp
next
  case (Cons y ys)
  then have "BackLink h q = last (y # ys)" by simp
  then show ?case by simp
qed

lemma dlist_first: "dlist h L xs \<Longrightarrow> ForwardLink h L = hd (xs @ [L])"
  by (simp add: dlist_def chain_first)

lemma dlist_last: "dlist h L xs \<Longrightarrow> BackLink h L = last (L # xs)"
  by (metis dlist_def chain_last)

lemma dlist_links_nonnull:
  assumes "dlist h L xs" shows "L \<noteq> NULL" "ForwardLink h L \<noteq> NULL" "BackLink h L \<noteq> NULL"
  using assms dlist_first [OF assms] dlist_last [OF assms]
  by (cases xs; auto simp: dlist_def; metis last_in_set)+

lemma dlist_next:
  assumes "dlist h L (xs @ n # ys)" shows "ForwardLink h n = hd (ys @ [L])"
  using dlist_first [OF dlist_rotate [OF assms]] by (cases ys) auto

lemma dlist_prev:
  assumes "dlist h L (xs @ n # ys)" shows "BackLink h n = last (L # xs)"
  using dlist_last [OF dlist_rotate [OF assms]] by simp

lemma count_loop_chain:
  "chain h (p # ys @ [L]) \<Longrightarrow> L \<notin> set ys \<Longrightarrow> k + length ys + 1 < limit \<Longrightarrow>
    count_loop h L limit p k = k + length ys + 1"
proof (induction ys arbitrary: p k)
  case Nil then show ?case by (subst count_loop.simps) simp
next
  case (Cons y ys)
  have "count_loop h L limit y (k + 1) = k + 1 + length ys + 1"
    using Cons.prems by (intro Cons.IH) auto
  with Cons.prems show ?case by (subst count_loop.simps) (auto simp: Let_def)
qed

lemma member_loop_chain:
  assumes "chain h (p # ys @ [E])" "L \<notin> set ys" "N \<notin> set ys" "E = L \<or> E = N"
    and "fits c (k + length ys + 1)"
  shows "member_loop c h L N p k =
     Some (WalkDone E (if unat (PcdMaximumLinkedListLength c) = 0 then k else k + length ys + 1))"
  using assms
proof (induction ys arbitrary: p k)
  case Nil then show ?case by (subst member_loop.simps) (auto simp: Let_def fits_def)
next
  case (Cons y ys)
  let ?k = "if unat (PcdMaximumLinkedListLength c) = 0 then k else k + 1"
  have "member_loop c h L N y ?k =
     Some (WalkDone E (if unat (PcdMaximumLinkedListLength c) = 0 then ?k else ?k + length ys + 1))"
    using Cons.prems by (intro Cons.IH) (auto simp: fits_def)
  with Cons.prems show ?case
    by (subst member_loop.simps) (auto simp: Let_def fits_def)
qed


lemma is_node_no_check:
  assumes "dlist h L xs" "N \<noteq> NULL" "fits c (length xs + 1)"
  shows "InternalBaseLibIsNodeInList c h L N False = ret True"
proof -
  let ?max = "unat (PcdMaximumLinkedListLength c)"
  have "count_loop h L ?max L 0 = 0 + length xs + 1" if "0 < ?max"
    using assms that by (intro count_loop_chain) (auto simp: dlist_def fits_def)
  with assms(2,3) dlist_links_nonnull [OF assms(1)] show ?thesis
    by (auto simp: InternalBaseLibIsNodeInList_def Let_def fits_def)
qed

lemma is_node_member:
  assumes "dlist h L (xs @ N # ys)" "fits c (length (xs @ N # ys) + 1)"
  shows "InternalBaseLibIsNodeInList c h L N True = ret True"
proof -
  let ?max = "unat (PcdMaximumLinkedListLength c)"
  have c1: "chain h (L # xs @ [N])" and c2: "chain h (N # ys @ [L])"
    using assms(1) chain_append [of h "L # xs" N "ys @ [L]"] by (auto simp: dlist_def)
  have d: "L \<notin> set xs" "N \<notin> set xs" "L \<notin> set ys" "N \<noteq> NULL"
    using assms(1) by (auto simp: dlist_def)
  let ?k = "if unat (PcdMaximumLinkedListLength c) = 0 then 0 else length xs + 1"
  have "member_loop c h L N L 0 = Some (WalkDone N ?k)"
    using member_loop_chain [OF c1 d(1,2), of c 0] assms(2) by (auto simp: fits_def)
  moreover have "count_loop h L ?max N ?k = ?k + length ys + 1" if "0 < ?max"
    using c2 d assms(2) that by (intro count_loop_chain) (auto simp: fits_def)
  moreover have "count_loop h L ?max L 0 = 0 + length (xs @ N # ys) + 1" if "0 < ?max"
    using assms that by (intro count_loop_chain) (auto simp: dlist_def fits_def)
  ultimately show ?thesis
    using assms(2) d dlist_links_nonnull [OF assms(1)]
    by (auto simp: InternalBaseLibIsNodeInList_def Let_def fits_def)
qed

lemma is_node_head:
  assumes "dlist h L xs" "fits c (2 * (length xs + 1))"
  shows "InternalBaseLibIsNodeInList c h L L True = ret True"
proof -
  let ?max = "unat (PcdMaximumLinkedListLength c)"
  have c1: "chain h (L # xs @ [L])" and d: "L \<notin> set xs"
    using assms(1) by (auto simp: dlist_def)
  let ?k = "if unat (PcdMaximumLinkedListLength c) = 0 then 0 else length xs + 1"
  have "member_loop c h L L L 0 = Some (WalkDone L ?k)"
    using member_loop_chain [OF c1 d d, of c 0] assms(2) by (auto simp: fits_def)
  moreover have "count_loop h L ?max L ?k = ?k + length xs + 1" if "0 < ?max"
    using c1 d assms(2) that by (intro count_loop_chain) (auto simp: fits_def)
  moreover have "count_loop h L ?max L 0 = 0 + length xs + 1" if "0 < ?max"
    using assms that by (intro count_loop_chain) (auto simp: dlist_def fits_def)
  ultimately show ?thesis
    using assms(2) dlist_links_nonnull [OF assms(1)]
    by (auto simp: InternalBaseLibIsNodeInList_def Let_def fits_def)
qed

lemma IsListEmpty_dlist:
  assumes "dlist h L xs" "fits c (length xs + 1)"
  shows "IsListEmpty c h L = ret (xs = [])"
  using assms dlist_first [OF assms(1)] is_node_no_check [OF assms(1) dlist_links_nonnull(1) [OF assms(1)] assms(2)]
  by (cases xs) (auto simp: IsListEmpty_def dlist_def)

lemma InsertHeadList_dlist:
  assumes "dlist h L xs" "e \<notin> set (L # xs)" "e \<noteq> NULL" "fits c (length xs + 1)"
  shows "\<exists>h'. InsertHeadList c h L e = ret (h', L) \<and> dlist h' L (e # xs) \<and> frame (insert e (insert L (set xs))) h h'"
proof -
  let ?f = "ForwardLink h L"
  let ?h = "set_fwd L e (set_back ?f e (set_back e L (set_fwd e ?f h)))"
  have f: "?f = hd (xs @ [L])" by (rule dlist_first [OF assms(1)])
  have "InsertHeadList c h L e = ret (?h, L)"
    using is_node_no_check [OF assms(1) assms(3,4)] by (simp add: InsertHeadList_def Let_def)
  moreover have "dlist ?h L (e # xs)"
  proof (cases xs)
    case Nil with assms show ?thesis by (auto simp: dlist_def)
  next
    case (Cons x ys)
    with assms f show ?thesis by (auto simp: dlist_def)
  qed
  moreover have "frame (insert e (insert L (set xs))) h ?h"
    using f by (cases xs) (auto simp: frame_def)
  ultimately show ?thesis by blast
qed

lemma dlist_snoc_decomp: 
  "dlist h L (xs @ [z]) \<Longrightarrow> dlist h z (L # xs)"
  using dlist_rotate [of h L xs z "[]"] by simp

lemma InsertTailList_dlist:
  assumes "dlist h L xs" "e \<notin> set (L # xs)" "e \<noteq> NULL" "fits c (length xs + 1)"
  shows "\<exists>h'. InsertTailList c h L e = ret (h', L) \<and> dlist h' L (xs @ [e]) \<and> frame (insert e (insert L (set xs))) h h'"
proof -
  let ?b = "BackLink h L"
  let ?h = "set_back L e (set_fwd ?b e (set_back e ?b (set_fwd e L h)))"
  have b: "?b = last (L # xs)" by (rule dlist_last [OF assms(1)])
  have "InsertTailList c h L e = ret (?h, L)"
    using is_node_no_check [OF assms(1) assms(3,4)] assms(2) by (auto simp: InsertTailList_def Let_def)
  moreover have "dlist ?h L (xs @ [e])"
  proof (cases xs rule: rev_cases)
    case Nil with assms show ?thesis by (auto simp: dlist_def)
  next
    case (snoc ys z)
    with assms b chain_append [of h "L # ys" z "[L]"] chain_append [of ?h "L # ys" z "[e, L]"]
    show ?thesis by (auto simp: dlist_def)
  qed
  moreover have "frame (insert e (insert L (set xs))) h ?h"
    using b by (cases xs rule: rev_cases) (auto simp: frame_def)
  ultimately show ?thesis by blast
qed

text \<open>Insertion before an inner node.\<close>

lemma InsertTailList_before:
  assumes "dlist h L (xs @ n # ys)" "e \<notin> set (L # xs @ n # ys)" "e \<noteq> NULL" "fits c (length (xs @ n # ys) + 1)"
  shows "\<exists>h'. InsertTailList c h n e = ret (h', n) \<and> dlist h' L (xs @ e # n # ys)
     \<and> frame (insert e (insert L (set (xs @ n # ys)))) h h'"
proof -
  have f: "fits c (length (ys @ L # xs) + 1)" and e: "e \<notin> set (n # ys @ L # xs)"
    using assms(2,4) by (auto simp: add.commute)
  obtain h' where h': "InsertTailList c h n e = ret (h', n)" "dlist h' n (ys @ L # (xs @ [e]))"
    "frame (insert e (insert n (set (ys @ L # xs)))) h h'"
    using InsertTailList_dlist [OF dlist_rotate [OF assms(1)] e assms(3) f] by auto
  have "dlist h' L (xs @ e # n # ys)" using dlist_rotate [OF h'(2)] by simp
  moreover have "insert e (insert n (set (ys @ L # xs))) = insert e (insert L (set (xs @ n # ys)))" by auto
  ultimately show ?thesis using h'(1,3) by (intro exI [of _ h']) (simp only: simp_thms)
qed

lemma InsertHeadList_after:
  assumes "dlist h L (xs @ n # ys)" "e \<notin> set (L # xs @ n # ys)" "e \<noteq> NULL" "fits c (length (xs @ n # ys) + 1)"
  shows "\<exists>h'. InsertHeadList c h n e = ret (h', n) \<and> dlist h' L (xs @ n # e # ys)
     \<and> frame (insert e (insert L (set (xs @ n # ys)))) h h'"
proof -
  have f: "fits c (length (ys @ L # xs) + 1)" and e: "e \<notin> set (n # ys @ L # xs)"
    using assms(2,4) by (auto simp: add.commute)
  obtain h' where h': "InsertHeadList c h n e = ret (h', n)" "dlist h' n ((e # ys) @ L # xs)"
    "frame (insert e (insert n (set (ys @ L # xs)))) h h'"
    using InsertHeadList_dlist [OF dlist_rotate [OF assms(1)] e assms(3) f] by auto
  have "dlist h' L (xs @ n # e # ys)" using dlist_rotate [OF h'(2)] by simp
  moreover have "insert e (insert n (set (ys @ L # xs))) = insert e (insert L (set (xs @ n # ys)))" by auto
  ultimately show ?thesis using h'(1,3) by (intro exI [of _ h']) (simp only: simp_thms)
qed

lemma RemoveEntryList_dlist:
  assumes "dlist h L (xs @ e # ys)" "fits c (length (xs @ e # ys) + 1)"
  shows "\<exists>h'. RemoveEntryList c h e = ret (h', hd (ys @ [L])) \<and> dlist h' L (xs @ ys)
     \<and> frame (insert L (set (xs @ ys))) h h'"
proof -
  let ?f = "ForwardLink h e" and ?b = "BackLink h e"
  let ?h = "set_fwd ?b ?f (set_back ?f ?b h)"
  have f: "?f = hd (ys @ [L])" by (rule dlist_next [OF assms(1)])
  have b: "?b = last (L # xs)" by (rule dlist_prev [OF assms(1)])
  have ne: "?b \<noteq> e" using b assms(1) by (auto simp: dlist_def dest!: last_in_set split: if_splits)
  have "IsListEmpty c h e = ret False"
    using IsListEmpty_dlist [OF dlist_rotate [OF assms(1)], of c] assms(2) by (simp add: add.commute)
  then have "RemoveEntryList c h e = ret (?h, hd (ys @ [L]))"
    using f ne by (simp add: RemoveEntryList_def Let_def)
  moreover have "dlist ?h L (xs @ ys)"
    using assms(1) b f by (cases xs rule: rev_cases; cases ys)
      (auto simp: dlist_def chain_split2)
  moreover have "frame (insert L (set (xs @ ys))) h ?h"
    using b f by (cases xs rule: rev_cases; cases ys) (auto simp: frame_def)
  ultimately show ?thesis by blast
qed




lemma InsertTailList_at:
  assumes "dlist h L (xs @ ys)" "e \<notin> set (L # xs @ ys)" "e \<noteq> NULL" "fits c (length (xs @ ys) + 1)"
  shows "\<exists>h'. InsertTailList c h (hd (ys @ [L])) e = ret (h', hd (ys @ [L]))
     \<and> dlist h' L (xs @ e # ys) \<and> frame (insert e (insert L (set (xs @ ys)))) h h'"
proof (cases ys)
  case Nil
  with assms InsertTailList_dlist [of h L xs e c] show ?thesis by auto
next
  case (Cons n ns)
  with assms InsertTailList_before [of h L xs n ns e c] show ?thesis by auto
qed

definition swap_elem :: "'a \<Rightarrow> 'a \<Rightarrow> 'a \<Rightarrow> 'a" where
  "swap_elem a b x = (if x = a then b else if x = b then a else x)"

lemma map_swap_elem_other: "a \<notin> set xs \<Longrightarrow> b \<notin> set xs \<Longrightarrow> map (swap_elem a b) xs = xs"
  by (induction xs) (auto simp: swap_elem_def)

lemma swap_elem_same [simp]: "swap_elem a a = id"
  by (auto simp: swap_elem_def)

lemma is_node_other:
  assumes "dlist h L zs" "a \<in> set zs" "b \<in> set zs" "a \<noteq> b" "fits c (length zs + 1)"
  shows "InternalBaseLibIsNodeInList c h a b True = ret True"
proof -
  obtain xs ys where zs: "zs = xs @ a # ys" using assms(2) by (meson split_list)
  have r: "dlist h a (ys @ L # xs)" using assms(1) dlist_rotate zs by blast
  from assms(3,4) zs have "b \<in> set (ys @ L # xs)" by auto
  then obtain us vs where "ys @ L # xs = us @ b # vs" by (meson split_list)
  with r assms(5) zs is_node_member [of h a us b vs c] show ?thesis
    by (auto simp: add.commute dest!: arg_cong [of _ _ length])
qed

lemma SwapListEntries_forward:
  assumes d: "dlist h L (xs @ a # ys @ b # ws)" and f: "fits c (length (xs @ a # ys @ b # ws) + 1)"
  shows "\<exists>h'. SwapListEntries c h a b = ret (h', b) \<and> dlist h' L (xs @ b # ys @ a # ws)"
proof -
  let ?zs = "xs @ a # ys @ b # ws"
  have dist: "distinct (L # ?zs)" "NULL \<notin> set (L # ?zs)" using d by (auto simp: dlist_def)
  have m: "InternalBaseLibIsNodeInList c h a b True = ret True"
    using is_node_other [OF d] dist f by auto
  obtain h1 where h1: "RemoveEntryList c h a = ret (h1, hd (ys @ [b]))" "dlist h1 L (xs @ ys @ b # ws)"
    using RemoveEntryList_dlist [OF d f] by (cases ys) auto
  have "BackLink h1 (hd (ys @ [b])) = last (L # xs)"
    using h1(2) dlist_prev [of h1 L xs "hd (ys @ [b])" "tl (ys @ [b]) @ ws"] by (cases ys) auto
  then have bk: "BackLink h1 (hd (ys @ [b])) \<noteq> b" using dist last_in_set [of "L # xs"] by auto
  obtain h2 where h2: "InsertHeadList c h1 b a = ret (h2, b)" "dlist h2 L (xs @ ys @ b # a # ws)"
    using InsertHeadList_after [of h1 L "xs @ ys" b ws a c] h1(2) dist f by (auto simp: fits_def)
  show ?thesis
  proof (cases ys)
    case Nil
    with m h1 h2 bk dist show ?thesis by (auto simp: SwapListEntries_def)
  next
    case (Cons y ys')
    obtain h3 r where h3: "RemoveEntryList c h2 b = ret (h3, r)" "dlist h3 L (xs @ ys @ a # ws)"
      using RemoveEntryList_dlist [of h2 L "xs @ ys" b "a # ws" c] h2(2) f by (auto simp: add.commute)
    obtain h4 where h4: "InsertTailList c h3 y b = ret (h4, y)" "dlist h4 L (xs @ b # ys @ a # ws)"
      using InsertTailList_before [of h3 L xs y "ys' @ a # ws" b c] h3(2) Cons dist f
      by (auto simp: fits_def)
    from m h1 h2 h3 h4 bk dist Cons show ?thesis by (auto simp: SwapListEntries_def)
  qed
qed

lemma SwapListEntries_backward:
  assumes d: "dlist h L (xs @ b # ys @ a # ws)" and f: "fits c (length (xs @ b # ys @ a # ws) + 1)"
  shows "\<exists>h'. SwapListEntries c h a b = ret (h', b) \<and> dlist h' L (xs @ a # ys @ b # ws)"
proof -
  let ?zs = "xs @ b # ys @ a # ws" and ?p = "hd (ws @ [L])"
  have dist: "distinct (L # ?zs)" "NULL \<notin> set (L # ?zs)" using d by (auto simp: dlist_def)
  have m: "InternalBaseLibIsNodeInList c h a b True = ret True"
    using is_node_other [OF d] dist f by auto
  obtain h1 where h1: "RemoveEntryList c h a = ret (h1, ?p)" "dlist h1 L (xs @ b # ys @ ws)"
    using RemoveEntryList_dlist [of h L "xs @ b # ys" a ws c] d f by auto
  have "BackLink h1 ?p = last (b # ys)"
    using h1(2) dlist_prev [of h1 L "xs @ b # ys" ?p "tl ws"] dlist_last [OF h1(2)]
    by (cases ws) auto
  then have bk: "BackLink h1 ?p = b \<longleftrightarrow> ys = []" using dist last_in_set [of ys] by auto
  have pb: "?p \<noteq> b" using dist by (cases ws) auto
  show ?thesis
  proof (cases "ys = []")
    case True
    obtain h2 where "InsertTailList c h1 b a = ret (h2, b)" "dlist h2 L (xs @ a # b # ws)"
      using InsertTailList_before [of h1 L xs b ws a c] h1(2) True dist f by (auto simp: fits_def)
    with m h1 bk True dist show ?thesis by (auto simp: SwapListEntries_def)
  next
    case False
    obtain h2 where h2: "InsertHeadList c h1 b a = ret (h2, b)" "dlist h2 L (xs @ b # a # ys @ ws)"
      using InsertHeadList_after [of h1 L xs b "ys @ ws" a c] h1(2) dist f by (auto simp: fits_def)
    obtain h3 r where h3: "RemoveEntryList c h2 b = ret (h3, r)" "dlist h3 L (xs @ a # ys @ ws)"
      using RemoveEntryList_dlist [of h2 L xs b "a # ys @ ws" c] h2(2) f by (auto simp: add.commute)
    obtain h4 where h4: "InsertTailList c h3 ?p b = ret (h4, ?p)" "dlist h4 L (xs @ a # ys @ b # ws)"
      using InsertTailList_at [of h3 L "xs @ a # ys" ws b c] h3(2) dist f by (auto simp: fits_def)
    from m h1 h2 h3 h4 bk pb dist False show ?thesis by (auto simp: SwapListEntries_def)
  qed
qed

lemma SwapListEntries_dlist:
  assumes d: "dlist h L zs" and a: "a \<in> set zs" and b: "b \<in> set zs" and f: "fits c (length zs + 1)"
  shows "\<exists>h'. SwapListEntries c h a b = ret (h', b) \<and> dlist h' L (map (swap_elem a b) zs)"
proof (cases "a = b")
  case True
  with d show ?thesis by (auto simp: SwapListEntries_def)
next
  case False
  have dist: "distinct zs" using d by (simp add: dlist_def)
  obtain xs ws where zs: "zs = xs @ a # ws" using a by (meson split_list)
  from b False zs consider "b \<in> set ws" | "b \<in> set xs" by auto
  then show ?thesis
  proof cases
    case 1
    then obtain us vs where "ws = us @ b # vs" by (meson split_list)
    with zs dist d f SwapListEntries_forward [of h L xs a us b vs c] show ?thesis
      by (auto simp: map_swap_elem_other) (simp add: swap_elem_def)
  next
    case 2
    then obtain us vs where "xs = us @ b # vs" by (meson split_list)
    with zs dist d f SwapListEntries_backward [of h L us b vs a ws c] show ?thesis
      by (auto simp: map_swap_elem_other) (simp add: swap_elem_def)
  qed
qed

lemma is_node_not_member:
  assumes "dlist h L xs" "N \<notin> set (L # xs)" "N \<noteq> NULL" "PcdVerifyNodeInList c" "fits c (length xs + 1)"
  shows "InternalBaseLibIsNodeInList c h L N True = ret False"
proof -
  have "member_loop c h L N L 0 =
      Some (WalkDone L (if unat (PcdMaximumLinkedListLength c) = 0 then 0 else length xs + 1))"
    using member_loop_chain [of h L xs L L N c 0] assms by (auto simp: dlist_def)
  with assms dlist_links_nonnull [OF assms(1)] show ?thesis
    by (auto simp: InternalBaseLibIsNodeInList_def)
qed

lemma IsNull_entry:
  assumes "dlist h L xs" "n \<in> set xs" "fits c (length xs + 1)"
  shows "IsNull c h L n = ret False"
proof -
  obtain us vs where "xs = us @ n # vs" using assms(2) by (meson split_list)
  with assms is_node_member [of h L us n vs c] show ?thesis by (auto simp: IsNull_def dlist_def)
qed

lemma IsNodeAtEnd_entry:
  assumes "dlist h L xs" "n \<in> set xs" "fits c (length xs + 1)"
  shows "IsNodeAtEnd c h L n = ret (n = last xs)"
proof -
  obtain us vs where "xs = us @ n # vs" using assms(2) by (meson split_list)
  with assms is_node_member [of h L us n vs c] IsNull_entry [OF assms] dlist_last [OF assms(1)]
  show ?thesis by (auto simp: IsNodeAtEnd_def)
qed

lemma GetFirstNode_dlist:
  assumes "dlist h L xs" "fits c (length xs + 1)"
  shows "GetFirstNode c h L = ret (hd (xs @ [L]))"
  using is_node_no_check [OF assms(1) dlist_links_nonnull(1) [OF assms(1)] assms(2)] dlist_first [OF assms(1)]
  by (simp add: GetFirstNode_def)

lemma GetNextNode_dlist:
  assumes "dlist h L (xs @ n # ys)" "fits c (length (xs @ n # ys) + 1)"
  shows "GetNextNode c h L n = ret (hd (ys @ [L]))"
  using is_node_member [OF assms] dlist_next [OF assms(1)] by (simp add: GetNextNode_def)

lemma GetPreviousNode_dlist:
  assumes "dlist h L (xs @ n # ys)" "fits c (length (xs @ n # ys) + 1)"
  shows "GetPreviousNode c h L n = ret (last (L # xs))"
  using is_node_member [OF assms] dlist_prev [OF assms(1)] by (simp add: GetPreviousNode_def)

lemma InitializeListHead_dlist:
  assumes "L \<noteq> NULL"
  shows "\<exists>h'. InitializeListHead c h L = ret (h', L) \<and> dlist h' L []"
  using assms by (auto simp: InitializeListHead_def dlist_Nil)

section \<open>The queue interface\<close>

text \<open>
  What the event queues, the timer list and the dispatcher's scheduled queue rely on: entries
  are put at the tail, and the loop \<open>while (!IsListEmpty (Head)) { Entry = Head->ForwardLink;
  RemoveEntryList (Entry); ... }\<close> takes them from the head.  \<open>put_all\<close> and \<open>drain\<close> are the two
  client idioms over any operations; \<open>drain\<close> takes at most the given number of entries.
\<close>

fun put_all :: "('h \<Rightarrow> ptr \<Rightarrow> ptr \<Rightarrow> ('h \<times> ptr) run) \<Rightarrow> 'h \<Rightarrow> ptr \<Rightarrow> ptr list \<Rightarrow> 'h run" where
  "put_all put h L [] = ret h"
| "put_all put h L (e # es) = bind_run (put h L e) (\<lambda>(h', _). put_all put h' L es)"

fun drain :: "('h \<Rightarrow> ptr \<Rightarrow> bool run) \<Rightarrow> ('h \<Rightarrow> ptr \<Rightarrow> ptr run) \<Rightarrow> ('h \<Rightarrow> ptr \<Rightarrow> ('h \<times> ptr) run)
    \<Rightarrow> 'h \<Rightarrow> ptr \<Rightarrow> nat \<Rightarrow> ('h \<times> ptr list) run" where
  "drain emp first rem h L 0 = ret (h, [])"
| "drain emp first rem h L (Suc n) =
     bind_run (emp h L) (\<lambda>b. if b then ret (h, [])
       else bind_run (first h L) (\<lambda>e. bind_run (rem h e) (\<lambda>(h', _).
         bind_run (drain emp first rem h' L n) (\<lambda>(h'', es). ret (h'', e # es)))))"

locale entry_queue =
  fixes rep :: "'h \<Rightarrow> ptr \<Rightarrow> ptr list \<Rightarrow> bool"
    and room :: "nat \<Rightarrow> bool"
    and emp :: "'h \<Rightarrow> ptr \<Rightarrow> bool run"
    and fst_entry :: "'h \<Rightarrow> ptr \<Rightarrow> ptr run"
    and put :: "'h \<Rightarrow> ptr \<Rightarrow> ptr \<Rightarrow> ('h \<times> ptr) run"
    and rem :: "'h \<Rightarrow> ptr \<Rightarrow> ('h \<times> ptr) run"
  assumes room_less: "room m \<Longrightarrow> n \<le> m \<Longrightarrow> room n"
    and emp_law: "rep h L xs \<Longrightarrow> room (length xs + 1) \<Longrightarrow> emp h L = ret (xs = [])"
    and fst_law: "rep h L (x # xs) \<Longrightarrow> room (length xs + 2) \<Longrightarrow> fst_entry h L = ret x"
    and put_law: "rep h L xs \<Longrightarrow> e \<notin> set (L # xs) \<Longrightarrow> e \<noteq> NULL \<Longrightarrow> room (length xs + 1) \<Longrightarrow>
        \<exists>h'. put h L e = ret (h', L) \<and> rep h' L (xs @ [e])"
    and rem_law: "rep h L (x # xs) \<Longrightarrow> room (length xs + 2) \<Longrightarrow>
        \<exists>h' n. rem h x = ret (h', n) \<and> rep h' L xs"
begin

lemma put_all_rep:
  assumes "rep h L xs" "distinct (L # xs @ es)" "NULL \<notin> set es" "room (length xs + length es + 1)"
  shows "\<exists>h'. put_all put h L es = ret h' \<and> rep h' L (xs @ es)"
  using assms
proof (induction es arbitrary: h xs)
  case Nil
  then show ?case by simp
next
  case (Cons e es)
  have "room (length xs + 1)" using Cons.prems(4) by (rule room_less) simp
  then obtain h1 where h1: "put h L e = ret (h1, L)" "rep h1 L (xs @ [e])"
    using put_law [of h L xs e] Cons.prems by auto
  then have "\<exists>h'. put_all put h1 L es = ret h' \<and> rep h' L ((xs @ [e]) @ es)"
    using Cons.prems by (intro Cons.IH) auto
  with h1 show ?case by auto
qed

lemma drain_rep:
  assumes "rep h L xs" "length xs \<le> n" "room (length xs + 1)"
  shows "\<exists>h'. drain emp fst_entry rem h L n = ret (h', xs) \<and> rep h' L []"
  using assms
proof (induction n arbitrary: h xs)
  case 0
  then show ?case by simp
next
  case (Suc n)
  show ?case
  proof (cases xs)
    case Nil
    with Suc.prems emp_law [of h L xs] show ?thesis by simp
  next
    case (Cons x ys)
    then have r: "room (length ys + 2)" "room (length ys + 1)"
      using Suc.prems(3) by (auto elim: room_less)
    obtain h1 m where h1: "rem h x = ret (h1, m)" "rep h1 L ys"
      using rem_law [of h L x ys] Suc.prems Cons r by auto
    obtain h' where "drain emp fst_entry rem h1 L n = ret (h', ys)" "rep h' L []"
      using Suc.IH [OF h1(2) _ r(2)] Suc.prems(2) Cons by auto
    with h1 Suc.prems Cons emp_law [of h L xs] fst_law [of h L x ys] r show ?thesis by auto
  qed
qed

lemma fifo:
  assumes "rep h L []" "distinct (L # es)" "NULL \<notin> set es" "room (length es + 1)" "length es \<le> n"
  shows "\<exists>h1 h2. put_all put h L es = ret h1 \<and> drain emp fst_entry rem h1 L n = ret (h2, es)
    \<and> rep h2 L []"
proof -
  obtain h1 where h1: "put_all put h L es = ret h1" "rep h1 L es"
    using put_all_rep [of h L "[]" es] assms by auto
  moreover obtain h2 where "drain emp fst_entry rem h1 L n = ret (h2, es)" "rep h2 L []"
    using drain_rep [OF h1(2) assms(5,4)] by auto
  ultimately show ?thesis by blast
qed

end

interpretation ring: entry_queue dlist "fits c" "IsListEmpty c" "GetFirstNode c"
  "InsertTailList c" "RemoveEntryList c" for c
proof unfold_locales
  fix m n show "fits c m \<Longrightarrow> n \<le> m \<Longrightarrow> fits c n" by (auto simp: fits_def)
next
  fix h L xs show "dlist h L xs \<Longrightarrow> fits c (length xs + 1) \<Longrightarrow> IsListEmpty c h L = ret (xs = [])"
    by (rule IsListEmpty_dlist)
next
  fix h L x xs show "dlist h L (x # xs) \<Longrightarrow> fits c (length xs + 2) \<Longrightarrow> GetFirstNode c h L = ret x"
    using GetFirstNode_dlist [of h L "x # xs" c] by simp
next
  fix h L xs e
  show "dlist h L xs \<Longrightarrow> e \<notin> set (L # xs) \<Longrightarrow> e \<noteq> NULL \<Longrightarrow> fits c (length xs + 1) \<Longrightarrow>
      \<exists>h'. InsertTailList c h L e = ret (h', L) \<and> dlist h' L (xs @ [e])"
    using InsertTailList_dlist by blast
next
  fix h L x xs
  show "dlist h L (x # xs) \<Longrightarrow> fits c (length xs + 2) \<Longrightarrow>
      \<exists>h' n. RemoveEntryList c h x = ret (h', n) \<and> dlist h' L xs"
    using RemoveEntryList_dlist [of h L "[]" x xs c] by auto
qed

lemma count_loop_limit:
  "chain h (p # ys @ [L]) \<Longrightarrow> L \<notin> set ys \<Longrightarrow> k < limit \<Longrightarrow> limit \<le> k + length ys + 1 \<Longrightarrow>
    count_loop h L limit p k = limit"
proof (induction ys arbitrary: p k)
  case Nil then show ?case by (subst count_loop.simps) simp
next
  case (Cons y ys)
  show ?case
  proof (cases "k + 1 < limit")
    case True
    have "count_loop h L limit y (k + 1) = limit"
      using Cons.prems True by (intro Cons.IH) auto
    with True Cons.prems show ?thesis by (subst count_loop.simps) (auto simp: Let_def)
  next
    case False
    with Cons.prems show ?thesis by (subst count_loop.simps) (auto simp: Let_def)
  qed
qed

lemma IsNull_head_limit:
  assumes "dlist h L xs" "PcdVerifyNodeInList c" "AssertEnabled c"
    and "length xs + 1 < unat (PcdMaximumLinkedListLength c)" "unat (PcdMaximumLinkedListLength c) \<le> 2 * (length xs + 1)"
  shows "IsNull c h L L = Some (Inl AssertFailed)"
proof -
  let ?max = "unat (PcdMaximumLinkedListLength c)"
  have ch: "chain h (L # xs @ [L])" and d: "L \<notin> set xs" using assms(1) by (auto simp: dlist_def)
  have "member_loop c h L L L 0 = Some (WalkDone L (length xs + 1))"
    using member_loop_chain [OF ch d d, of c 0] assms(4) by (auto simp: fits_def)
  moreover have "count_loop h L ?max L (length xs + 1) = ?max"
    using ch d assms(4,5) by (intro count_loop_limit) auto
  ultimately have "InternalBaseLibIsNodeInList c h L L True = Some (Inl AssertFailed)"
    using assms dlist_links_nonnull [OF assms(1)] by (simp add: InternalBaseLibIsNodeInList_def)
  with assms(3) show ?thesis by (simp add: IsNull_def assert_run_def)
qed

section \<open>Properties\<close>

text \<open>A ring for the witnesses: the head 1 with the entries 2 and 3; entry 9 is a ring of its own.\<close>

definition demo_heap :: list_heap where
  "demo_heap = \<lparr>ForwardLink = (\<lambda>p. if p = 1 then 2 else if p = 2 then 3 else if p = 3 then 1 else p),
     BackLink = (\<lambda>p. if p = 1 then 3 else if p = 2 then 1 else if p = 3 then 2 else p)\<rparr>"

definition demo_pcd :: list_pcd where
  "demo_pcd = \<lparr>PcdVerifyNodeInList = True, PcdMaximumLinkedListLength = 6, AssertEnabled = True\<rparr>"

lemma demo_rings: "dlist demo_heap 1 [2, 3]" "dlist demo_heap 9 []" "dlist demo_heap 10 []"
  by (simp_all add: dlist_def demo_heap_def)

lemma demo_fits [simp]: "n < 6 \<Longrightarrow> fits demo_pcd n"
  "PcdVerifyNodeInList demo_pcd" "AssertEnabled demo_pcd" "unat (PcdMaximumLinkedListLength demo_pcd) = 6"
  by (simp_all add: fits_def demo_pcd_def)

text \<open>On a ring of entries, \<open>InsertHeadList\<close> puts an entry that is not in the ring at its front and
  \<open>InsertTailList\<close> at its end; \<open>RemoveEntryList\<close> takes any entry out and returns the one after it (or the
  head).  None of them changes the links of any other ring.  The list must be shorter than
  \<open>PcdMaximumLinkedListLength\<close>, or that limit 0; then no ASSERT fails.\<close>

theorem insert_remove_entries:
  assumes "dlist h L (xs @ ys)" "e \<notin> set (L # xs @ ys)" "e \<noteq> NULL" "fits c (length (xs @ ys) + 2)"
    and "dlist h M zs" "set (M # zs) \<inter> insert e (set (L # xs @ ys)) = {}"
  shows "(\<exists>h'. InsertHeadList c h L e = ret (h', L) \<and> dlist h' L (e # xs @ ys) \<and> dlist h' M zs) \<and>
    (\<exists>h'. InsertTailList c h L e = ret (h', L) \<and> dlist h' L ((xs @ ys) @ [e]) \<and> dlist h' M zs) \<and>
    (\<forall>y ys'. ys = y # ys' \<longrightarrow>
      (\<exists>h'. RemoveEntryList c h y = ret (h', hd (ys' @ [L])) \<and> dlist h' L (xs @ ys') \<and> dlist h' M zs))"
proof (intro conjI allI impI)
  have f: "fits c (length (xs @ ys) + 1)" using assms(4) by (auto simp: fits_def)
  have other: "dlist h' M zs" if "frame S h h'" "S \<subseteq> insert e (set (L # xs @ ys))" for S h'
    using dlist_frame [OF that(1), of M zs] that(2) assms(5,6) by blast
  show "\<exists>h'. InsertHeadList c h L e = ret (h', L) \<and> dlist h' L (e # xs @ ys) \<and> dlist h' M zs"
    using InsertHeadList_dlist [OF assms(1-3) f] other by fastforce
  show "\<exists>h'. InsertTailList c h L e = ret (h', L) \<and> dlist h' L ((xs @ ys) @ [e]) \<and> dlist h' M zs"
    using InsertTailList_dlist [OF assms(1-3) f] other by fastforce
  fix y ys' assume "ys = y # ys'"
  with RemoveEntryList_dlist [of h L xs y ys' c] assms(1) f other
  show "\<exists>h'. RemoveEntryList c h y = ret (h', hd (ys' @ [L])) \<and> dlist h' L (xs @ ys') \<and> dlist h' M zs"
    by fastforce
qed

theorem insert_remove_entries_witness:
  "\<exists>h'. RemoveEntryList demo_pcd demo_heap 2 = ret (h', 3) \<and> dlist h' 1 [3] \<and> dlist h' 10 []"
  using insert_remove_entries [of demo_heap 1 "[]" "[2, 3]" 9 demo_pcd 10 "[]"] demo_rings
  by simp

text \<open>C22: \<open>SwapListEntries\<close> on two entries of a ring exchanges their positions and leaves every other
  entry where it is, adjacent entries in either order and equal ones included, and returns its second argument.\<close>

theorem swap_exchanges_entries:
  assumes "dlist h L zs" "a \<in> set zs" "b \<in> set zs" "fits c (length zs + 1)"
  shows "\<exists>h'. SwapListEntries c h a b = ret (h', b) \<and>
    dlist h' L (map (\<lambda>x. if x = a then b else if x = b then a else x) zs)"
  using SwapListEntries_dlist [OF assms] unfolding swap_elem_def [abs_def] .

theorem swap_exchanges_entries_witness:
  "\<exists>h'. SwapListEntries demo_pcd demo_heap 2 3 = ret (h', 3) \<and> dlist h' 1 [3, 2]"
  using swap_exchanges_entries [of demo_heap 1 "[2, 3]" 2 3 demo_pcd] demo_rings by simp

text \<open>C23: A ring used as a queue is first-in first-out: entries put in with \<open>InsertTailList\<close> one after the other,
  then taken out by the loop \<open>while (!IsListEmpty) RemoveEntryList (GetFirstNode)\<close>, come out in the order
  they went in and leave the ring empty.\<close>

theorem ring_is_fifo:
  assumes "dlist h L []" "distinct (L # es)" "NULL \<notin> set es" "fits c (length es + 1)"
  shows "\<exists>h1 h2. put_all (InsertTailList c) h L es = ret h1 \<and>
    drain (IsListEmpty c) (GetFirstNode c) (RemoveEntryList c) h1 L (length es) = ret (h2, es) \<and> dlist h2 L []"
  using ring.fifo [OF assms order_refl] .

theorem ring_is_fifo_witness:
  "\<exists>h1 h2. put_all (InsertTailList demo_pcd) demo_heap 9 [5, 4] = ret h1 \<and>
    drain (IsListEmpty demo_pcd) (GetFirstNode demo_pcd) (RemoveEntryList demo_pcd) h1 9 2 = ret (h2, [5, 4]) \<and>
    dlist h2 9 []"
proof -
  have two: "length [5::ptr, 4] = 2" by simp
  show ?thesis
    using ring_is_fifo [of demo_heap 9 "[5, 4]" demo_pcd, unfolded two] demo_rings
    by (simp del: put_all.simps drain.simps)
qed

text \<open>With \<open>PcdVerifyNodeInList\<close> set, \<open>InternalBaseLibIsNodeInList\<close> decides membership of an entry other than the
  head exactly, so \<open>GetNextNode\<close> fails its ASSERT exactly for the entries that are not in the ring.\<close>

theorem node_check_decides_membership:
  assumes "dlist h L xs" "N \<noteq> L" "N \<noteq> NULL" "PcdVerifyNodeInList c" "fits c (length xs + 1)"
  shows "InternalBaseLibIsNodeInList c h L N True = ret (N \<in> set xs) \<and>
    (AssertEnabled c \<longrightarrow> GetNextNode c h L N = Some (Inl AssertFailed) \<longleftrightarrow> N \<notin> set xs)"
proof -
  have "InternalBaseLibIsNodeInList c h L N True = ret (N \<in> set xs)"
  proof (cases "N \<in> set xs")
    case True
    then obtain us vs where "xs = us @ N # vs" by (meson split_list)
    with assms is_node_member [of h L us N vs c] True show ?thesis by simp
  next
    case False
    with assms is_node_not_member [of h L xs N c] show ?thesis by simp
  qed
  then show ?thesis by (simp add: GetNextNode_def assert_run_def)
qed

theorem node_check_decides_membership_witness:
  "InternalBaseLibIsNodeInList demo_pcd demo_heap 1 9 True = ret False \<and>
   InternalBaseLibIsNodeInList demo_pcd demo_heap 1 3 True = ret True"
  using node_check_decides_membership [of demo_heap 1 "[2, 3]" 9 demo_pcd]
    node_check_decides_membership [of demo_heap 1 "[2, 3]" 3 demo_pcd] demo_rings
  by simp

text \<open>For the head itself the check goes round the ring twice and adds both rounds up: \<open>IsNull (List, List)\<close>,
  the end test of every list traversal, fails its ASSERT on a ring of more than half of
  \<open>PcdMaximumLinkedListLength\<close> nodes, although the ring is shorter than the documented limit.\<close>

theorem head_check_counts_twice:
  assumes "dlist h L xs" "PcdVerifyNodeInList c" "AssertEnabled c"
    and "length xs + 1 < unat (PcdMaximumLinkedListLength c)"
  shows "IsNull c h L L = (if 2 * (length xs + 1) < unat (PcdMaximumLinkedListLength c) then ret True
    else Some (Inl AssertFailed))"
  using IsNull_head_limit [OF assms] is_node_head [OF assms(1), of c] assms(3)
  by (auto simp: IsNull_def fits_def assert_run_def)

theorem head_check_counts_twice_witness:
  "IsNull demo_pcd demo_heap 1 1 = Some (Inl AssertFailed)"
  using head_check_counts_twice [of demo_heap 1 "[2, 3]" demo_pcd] demo_rings by simp

end
