(* ===== verification/Depex.thy ===== *)
theory Depex
  imports Prelude
begin

text \<open>
  Dependency expressions.  A driver carries a byte string in postfix notation; the DXE
  dispatcher (MdeModulePkg/Core/Dxe/Dispatcher/Dependency.c) and the PEI dispatcher
  (MdeModulePkg/Core/Pei/Dependency/Dependency.c) each evaluate it on a stack to decide whether
  the driver may run.  The DXE evaluator grows its stack on demand and patches the opcode of a
  GUID it has found into \<open>EFI_DEP_REPLACE_TRUE\<close>; the PEI evaluator has 64 stack entries and
  delays the database lookups.  The model keeps the expression as memory, a function from the
  offset to the byte, so that reads past \<open>DepexSize\<close> are visible.
\<close>

section \<open>Data\<close>

abbreviation EFI_DEP_BEFORE :: u8 where "EFI_DEP_BEFORE \<equiv> 0x00"
abbreviation EFI_DEP_AFTER :: u8 where "EFI_DEP_AFTER \<equiv> 0x01"
abbreviation EFI_DEP_PUSH :: u8 where "EFI_DEP_PUSH \<equiv> 0x02"
abbreviation EFI_DEP_AND :: u8 where "EFI_DEP_AND \<equiv> 0x03"
abbreviation EFI_DEP_OR :: u8 where "EFI_DEP_OR \<equiv> 0x04"
abbreviation EFI_DEP_NOT :: u8 where "EFI_DEP_NOT \<equiv> 0x05"
abbreviation EFI_DEP_TRUE :: u8 where "EFI_DEP_TRUE \<equiv> 0x06"
abbreviation EFI_DEP_FALSE :: u8 where "EFI_DEP_FALSE \<equiv> 0x07"
abbreviation EFI_DEP_END :: u8 where "EFI_DEP_END \<equiv> 0x08"
abbreviation EFI_DEP_SOR :: u8 where "EFI_DEP_SOR \<equiv> 0x09"
abbreviation EFI_DEP_REPLACE_TRUE :: u8 where "EFI_DEP_REPLACE_TRUE \<equiv> 0xff"

definition DEPEX_STACK_SIZE_INCREMENT :: nat where "DEPEX_STACK_SIZE_INCREMENT = 0x1000"

text \<open>The memory of a dependency expression: offset to byte.\<close>

type_synonym depex_mem = "nat \<Rightarrow> u8"

definition guid_at :: "depex_mem \<Rightarrow> nat \<Rightarrow> EFI_GUID" where
  "guid_at mem i = map mem [i ..< i + 16]"

record EFI_CORE_DRIVER_ENTRY =
  FvHandle :: u64
  FileName :: EFI_GUID
  Depex :: "depex_mem option"
  DepexSize :: nat
  Before :: bool
  After :: bool
  BeforeAfterGuid :: EFI_GUID
  Dependent :: bool
  Unrequested :: bool
  Scheduled :: bool
  Untrusted :: bool
  Initialized :: bool
  DepexProtocolError :: bool
  ImageHandle :: u64
  IsFvImage :: bool

text \<open>
  What the evaluator takes from the rest of the core: the protocol database
  (\<open>CoreLocateProtocol\<close> succeeds), the outcome of \<open>AllocatePool\<close> for a size and the bytes the
  new buffer happens to hold, the \<open>Present\<close> flags of the architectural protocols, and
  whether ASSERTs are built in.
\<close>

record depex_env =
  locate :: "EFI_GUID \<Rightarrow> bool"
  pool_ok :: "nat \<Rightarrow> bool"
  pool_junk :: "nat \<Rightarrow> bool"
  arch_present :: "bool list"
  asserts :: bool

section \<open>The DXE evaluation stack\<close>

text \<open>
  \<open>mDepexEvaluationStack\<close> as the list of its cells (empty for NULL);
  \<open>mDepexEvaluationStackEnd\<close> is its length and \<open>mDepexEvaluationStackPointer\<close> an index.
\<close>

record eval_stack =
  Cells :: "bool list"
  StackPointer :: nat

definition GrowDepexStack :: "depex_env \<Rightarrow> eval_stack \<Rightarrow> efi_status \<times> eval_stack" where
  "GrowDepexStack env st =
     (let Size = DEPEX_STACK_SIZE_INCREMENT +
                 (if Cells st \<noteq> [] then length (Cells st) else 0) in
      if \<not> pool_ok env Size then (EFI_OUT_OF_RESOURCES, st)
      else (EFI_SUCCESS,
            st\<lparr>Cells := Cells st @ map (pool_junk env) [length (Cells st) ..< Size]\<rparr>))"

definition PushBool :: "depex_env \<Rightarrow> bool \<Rightarrow> eval_stack \<Rightarrow> efi_status \<times> eval_stack" where
  "PushBool env Value st =
     (let (Status, st') = (if StackPointer st = length (Cells st) then GrowDepexStack env st
                           else (EFI_SUCCESS, st)) in
      if EFI_ERROR Status then (Status, st')
      else (EFI_SUCCESS,
            st'\<lparr>Cells := (Cells st')[StackPointer st' := Value],
                StackPointer := StackPointer st' + 1\<rparr>))"

text \<open>\<open>PopBool (&Value)\<close>: the old contents of \<open>Value\<close> stay when the stack underflows.\<close>

definition PopBool :: "bool \<Rightarrow> eval_stack \<Rightarrow> efi_status \<times> bool \<times> eval_stack" where
  "PopBool Value st =
     (if StackPointer st = 0 then (EFI_ACCESS_DENIED, Value, st)
      else let p = StackPointer st - 1 in (EFI_SUCCESS, Cells st ! p, st\<lparr>StackPointer := p\<rparr>))"

section \<open>The DXE evaluator\<close>

text \<open>Processing one opcode ends the evaluation, goes on at an offset, or fails an ASSERT.\<close>

datatype depex_step =
    Result bool depex_mem eval_stack
  | Continue depex_mem eval_stack nat
  | Asserted

definition push_step :: "depex_env \<Rightarrow> bool \<Rightarrow> depex_mem \<Rightarrow> eval_stack \<Rightarrow> nat \<Rightarrow> depex_step" where
  "push_step env Value mem st Next =
     (let (Status, st') = PushBool env Value st in
      if EFI_ERROR Status then Result False mem st' else Continue mem st' Next)"

text \<open>The \<open>EFI_DEP_AND\<close> and \<open>EFI_DEP_OR\<close> cases, which differ in the operator only.\<close>

definition binary_step ::
  "depex_env \<Rightarrow> (bool \<Rightarrow> bool \<Rightarrow> bool) \<Rightarrow> depex_mem \<Rightarrow> eval_stack \<Rightarrow> nat \<Rightarrow> depex_step" where
  "binary_step env f mem st Next =
     (let (Status, Operator, st1) = PopBool False st in
      if EFI_ERROR Status then Result False mem st1
      else let (Status, Operator2, st2) = PopBool False st1 in
      if EFI_ERROR Status then Result False mem st2
      else push_step env (f Operator Operator2) mem st2 Next)"

definition not_step :: "depex_env \<Rightarrow> depex_mem \<Rightarrow> eval_stack \<Rightarrow> nat \<Rightarrow> depex_step" where
  "not_step env mem st Next =
     (let (Status, Operator, st1) = PopBool False st in
      if EFI_ERROR Status then Result False mem st1
      else push_step env (\<not> Operator) mem st1 Next)"

text \<open>
  The \<open>switch\<close> at offset \<open>Iterator\<close>, with the \<open>Iterator++\<close> after it in \<open>Next\<close>.  Without
  ASSERTs, \<open>EFI_DEP_BEFORE\<close> and \<open>EFI_DEP_AFTER\<close> fall through to the \<open>EFI_DEP_SOR\<close> case.
\<close>

definition depex_switch :: "depex_env \<Rightarrow> depex_mem \<Rightarrow> eval_stack \<Rightarrow> nat \<Rightarrow> depex_step" where
  "depex_switch env mem st Iterator =
     (let op = mem Iterator; Next = Iterator + 1; NextGuid = Iterator + 16 + 1;
          sor = (if Iterator \<noteq> 0 then Result False mem st else Continue mem st Next) in
      if op = EFI_DEP_BEFORE \<or> op = EFI_DEP_AFTER then (if asserts env then Asserted else sor)
      else if op = EFI_DEP_SOR then sor
      else if op = EFI_DEP_PUSH then
        (let DriverGuid = guid_at mem (Iterator + 1) in
         if \<not> locate env DriverGuid then push_step env False mem st NextGuid
         else push_step env True (mem(Iterator := EFI_DEP_REPLACE_TRUE)) st NextGuid)
      else if op = EFI_DEP_AND then binary_step env (\<and>) mem st Next
      else if op = EFI_DEP_OR then binary_step env (\<or>) mem st Next
      else if op = EFI_DEP_NOT then not_step env mem st Next
      else if op = EFI_DEP_TRUE then push_step env True mem st Next
      else if op = EFI_DEP_FALSE then push_step env False mem st Next
      else if op = EFI_DEP_END then
        (let (Status, Operator, st') = PopBool False st in
         if EFI_ERROR Status then Result False mem st' else Result Operator mem st')
      else if op = EFI_DEP_REPLACE_TRUE then push_step env True mem st NextGuid
      else Result False mem st)"

lemma push_step_Continue: "push_step env v mem st n = Continue mem' st' i \<Longrightarrow> i = n \<and> mem' = mem"
  by (auto simp: push_step_def split: prod.splits if_splits)

lemma binary_step_Continue: "binary_step env f mem st n = Continue mem' st' i \<Longrightarrow> i = n \<and> mem' = mem"
  by (auto simp: binary_step_def dest: push_step_Continue split: prod.splits if_splits)

lemma not_step_Continue: "not_step env mem st n = Continue mem' st' i \<Longrightarrow> i = n \<and> mem' = mem"
  by (auto simp: not_step_def dest: push_step_Continue split: prod.splits if_splits)

lemma depex_switch_advances: "depex_switch env mem st it = Continue mem' st' i \<Longrightarrow> it < i"
  by (auto simp: depex_switch_def Let_def split: if_splits prod.splits
      dest!: push_step_Continue binary_step_Continue not_step_Continue)

function depex_loop ::
  "depex_env \<Rightarrow> nat \<Rightarrow> depex_mem \<Rightarrow> eval_stack \<Rightarrow> nat \<Rightarrow> (bool \<times> depex_mem \<times> eval_stack) run" where
  "depex_loop env sz mem st Iterator =
     (if sz \<le> Iterator then ret (False, mem, st)
      else case depex_switch env mem st Iterator of
        Result b mem' st' \<Rightarrow> ret (b, mem', st')
      | Continue mem' st' Next \<Rightarrow> depex_loop env sz mem' st' Next
      | Asserted \<Rightarrow> Some (Inl AssertFailed))"
  by pat_completeness auto
termination
  by (relation "measure (\<lambda>(env, sz, mem, st, it). sz - it)")
    (auto dest!: depex_switch_advances)

declare depex_loop.simps [simp del]

text \<open>\<open>mArchProtocols\<close> up to its NULL terminator is the list of its \<open>Present\<close> flags.\<close>

fun CoreAllEfiServicesAvailable :: "bool list \<Rightarrow> efi_status" where
  "CoreAllEfiServicesAvailable [] = EFI_SUCCESS"
| "CoreAllEfiServicesAvailable (Present # rest) =
     (if \<not> Present then EFI_NOT_FOUND else CoreAllEfiServicesAvailable rest)"

definition CoreIsSchedulable ::
  "depex_env \<Rightarrow> eval_stack \<Rightarrow> EFI_CORE_DRIVER_ENTRY \<Rightarrow>
     (bool \<times> EFI_CORE_DRIVER_ENTRY \<times> eval_stack) run" where
  "CoreIsSchedulable env st DriverEntry =
     (if After DriverEntry \<or> Before DriverEntry then ret (False, DriverEntry, st)
      else case Depex DriverEntry of
        None \<Rightarrow> ret (\<not> EFI_ERROR (CoreAllEfiServicesAvailable (arch_present env)), DriverEntry, st)
      | Some mem \<Rightarrow>
          bind_run (depex_loop env (DepexSize DriverEntry) mem (st\<lparr>StackPointer := 0\<rparr>) 0)
            (\<lambda>(b, mem', st'). ret (b, DriverEntry\<lparr>Depex := Some mem'\<rparr>, st')))"

text \<open>\<open>CorePreProcessDepex\<close> is called with a \<open>Depex\<close> that is not NULL.\<close>

definition CorePreProcessDepex :: "depex_mem \<Rightarrow> EFI_CORE_DRIVER_ENTRY \<Rightarrow> EFI_CORE_DRIVER_ENTRY" where
  "CorePreProcessDepex Iterator e =
     (let e1 = (if Iterator 0 = EFI_DEP_SOR then e\<lparr>Unrequested := True\<rparr> else e\<lparr>Dependent := True\<rparr>);
          e2 = (if Iterator 0 = EFI_DEP_BEFORE then e1\<lparr>Before := True\<rparr>
                else if Iterator 0 = EFI_DEP_AFTER then e1\<lparr>After := True\<rparr> else e1)
      in if Before e2 \<or> After e2 then e2\<lparr>BeforeAfterGuid := guid_at Iterator 1\<rparr> else e2)"

section \<open>The PEI evaluator\<close>

definition MAX_GRAMMAR_SIZE :: int where "MAX_GRAMMAR_SIZE = 64"

text \<open>An \<open>EVAL_STACK_ENTRY\<close>; \<open>Operator\<close> is the offset of the GUID, NULL is None.\<close>

record EVAL_STACK_ENTRY =
  EntryResult :: bool
  Operator :: "nat option"

definition IsPpiInstalled :: "(EFI_GUID \<Rightarrow> bool) \<Rightarrow> depex_mem \<Rightarrow> EVAL_STACK_ENTRY \<Rightarrow> bool" where
  "IsPpiInstalled ppi mem Stack =
     (case Operator Stack of None \<Rightarrow> EntryResult Stack | Some p \<Rightarrow> ppi (guid_at mem p))"

text \<open>
  \<open>EvalStack\<close> is indexed by the distance of \<open>StackPtr\<close> from \<open>EvalStack[0]\<close>, an int because
  \<open>EFI_DEP_END\<close> decrements the pointer before it is checked.  There is no bound on
  \<open>Iterator\<close>, so the loop is a \<open>partial_function\<close>.
\<close>

partial_function (option) PeimDispatchReadiness_loop ::
  "(EFI_GUID \<Rightarrow> bool) \<Rightarrow> depex_mem \<Rightarrow> (int \<Rightarrow> EVAL_STACK_ENTRY) \<Rightarrow> int \<Rightarrow> nat \<Rightarrow> bool option" where
  "PeimDispatchReadiness_loop ppi mem EvalStack StackPtr It =
     (let op = mem It; Iterator = It + 1 in
      if op = EFI_DEP_PUSH then
        (if StackPtr > MAX_GRAMMAR_SIZE - 1 then Some False
         else PeimDispatchReadiness_loop ppi mem
                (EvalStack(StackPtr := (EvalStack StackPtr)\<lparr>Operator := Some Iterator\<rparr>))
                (StackPtr + 1) (Iterator + 16))
      else if op = EFI_DEP_AND \<or> op = EFI_DEP_OR then
        (if StackPtr < 2 then Some False
         else let StackPtr' = StackPtr - 1; v = IsPpiInstalled ppi mem (EvalStack StackPtr') in
           PeimDispatchReadiness_loop ppi mem
             (if op = EFI_DEP_AND
              then (if \<not> v then EvalStack(StackPtr' - 1 := \<lparr>EntryResult = False, Operator = None\<rparr>)
                    else EvalStack)
              else (if v then EvalStack(StackPtr' - 1 := \<lparr>EntryResult = True, Operator = None\<rparr>)
                    else EvalStack))
             StackPtr' Iterator)
      else if op = EFI_DEP_END then
        (let StackPtr' = StackPtr - 1 in
         if StackPtr' \<noteq> 0 then Some False else Some (IsPpiInstalled ppi mem (EvalStack StackPtr')))
      else if op = EFI_DEP_NOT then
        (if StackPtr < 1 then Some False
         else PeimDispatchReadiness_loop ppi mem
                (EvalStack(StackPtr - 1 :=
                   \<lparr>EntryResult = (\<not> IsPpiInstalled ppi mem (EvalStack (StackPtr - 1))), Operator = None\<rparr>))
                StackPtr Iterator)
      else if op = EFI_DEP_TRUE \<or> op = EFI_DEP_FALSE then
        (if StackPtr > MAX_GRAMMAR_SIZE - 1 then Some False
         else PeimDispatchReadiness_loop ppi mem
                (EvalStack(StackPtr := \<lparr>EntryResult = (op = EFI_DEP_TRUE), Operator = None\<rparr>))
                (StackPtr + 1) Iterator)
      else Some False)"

definition PeimDispatchReadiness ::
  "(EFI_GUID \<Rightarrow> bool) \<Rightarrow> (int \<Rightarrow> EVAL_STACK_ENTRY) \<Rightarrow> depex_mem \<Rightarrow> bool option" where
  "PeimDispatchReadiness ppi EvalStack DependencyExpression =
     PeimDispatchReadiness_loop ppi DependencyExpression EvalStack 0 0"

section \<open>Boolean expressions over protocols, and their encodings\<close>

datatype dep_expr = DProt EFI_GUID | DTrue | DFalse | DNot dep_expr
  | DAnd dep_expr dep_expr | DOr dep_expr dep_expr

fun dep_val :: "(EFI_GUID \<Rightarrow> bool) \<Rightarrow> dep_expr \<Rightarrow> bool" where
  "dep_val l (DProt g) = l g"
| "dep_val l DTrue = True"
| "dep_val l DFalse = False"
| "dep_val l (DNot e) = (\<not> dep_val l e)"
| "dep_val l (DAnd a b) = (dep_val l a \<and> dep_val l b)"
| "dep_val l (DOr a b) = (dep_val l a \<or> dep_val l b)"

fun dep_size :: "dep_expr \<Rightarrow> nat" where
  "dep_size (DProt g) = 17"
| "dep_size DTrue = 1"
| "dep_size DFalse = 1"
| "dep_size (DNot e) = dep_size e + 1"
| "dep_size (DAnd a b) = dep_size a + dep_size b + 1"
| "dep_size (DOr a b) = dep_size a + dep_size b + 1"

text \<open>The number of stack entries the expression needs.\<close>

fun dep_depth :: "dep_expr \<Rightarrow> nat" where
  "dep_depth (DNot e) = dep_depth e"
| "dep_depth (DAnd a b) = max (dep_depth a) (dep_depth b + 1)"
| "dep_depth (DOr a b) = max (dep_depth a) (dep_depth b + 1)"
| "dep_depth _ = 1"

text \<open>
  \<open>encodes mem i e\<close>: the bytes from offset \<open>i\<close> are \<open>e\<close> in postfix notation, a GUID being
  pushed by either of its two opcodes.  \<open>mem_val\<close> is the value of the encoded expression, where
  a patched GUID counts as present; \<open>patch\<close> is what an evaluation does to the opcodes.
\<close>

fun encodes :: "depex_mem \<Rightarrow> nat \<Rightarrow> dep_expr \<Rightarrow> bool" where
  "encodes mem i (DProt g) \<longleftrightarrow>
     (mem i = EFI_DEP_PUSH \<or> mem i = EFI_DEP_REPLACE_TRUE) \<and> guid_at mem (i + 1) = g"
| "encodes mem i DTrue \<longleftrightarrow> mem i = EFI_DEP_TRUE"
| "encodes mem i DFalse \<longleftrightarrow> mem i = EFI_DEP_FALSE"
| "encodes mem i (DNot e) \<longleftrightarrow> encodes mem i e \<and> mem (i + dep_size e) = EFI_DEP_NOT"
| "encodes mem i (DAnd a b) \<longleftrightarrow> encodes mem i a \<and> encodes mem (i + dep_size a) b \<and>
     mem (i + dep_size a + dep_size b) = EFI_DEP_AND"
| "encodes mem i (DOr a b) \<longleftrightarrow> encodes mem i a \<and> encodes mem (i + dep_size a) b \<and>
     mem (i + dep_size a + dep_size b) = EFI_DEP_OR"

fun mem_val :: "(EFI_GUID \<Rightarrow> bool) \<Rightarrow> depex_mem \<Rightarrow> nat \<Rightarrow> dep_expr \<Rightarrow> bool" where
  "mem_val l mem i (DProt g) = (mem i = EFI_DEP_REPLACE_TRUE \<or> l g)"
| "mem_val l mem i DTrue = True"
| "mem_val l mem i DFalse = False"
| "mem_val l mem i (DNot e) = (\<not> mem_val l mem i e)"
| "mem_val l mem i (DAnd a b) = (mem_val l mem i a \<and> mem_val l mem (i + dep_size a) b)"
| "mem_val l mem i (DOr a b) = (mem_val l mem i a \<or> mem_val l mem (i + dep_size a) b)"

fun patch :: "(EFI_GUID \<Rightarrow> bool) \<Rightarrow> depex_mem \<Rightarrow> nat \<Rightarrow> dep_expr \<Rightarrow> depex_mem" where
  "patch l mem i (DProt g) = (if l g then mem(i := EFI_DEP_REPLACE_TRUE) else mem)"
| "patch l mem i DTrue = mem"
| "patch l mem i DFalse = mem"
| "patch l mem i (DNot e) = patch l mem i e"
| "patch l mem i (DAnd a b) = patch l (patch l mem i a) (i + dep_size a) b"
| "patch l mem i (DOr a b) = patch l (patch l mem i a) (i + dep_size a) b"

lemma dep_size_pos [simp]: "0 < dep_size e"
  by (cases e) auto

lemma guid_at_cong: "(\<And>k. i \<le> k \<Longrightarrow> k < i + 16 \<Longrightarrow> m' k = m k) \<Longrightarrow> guid_at m' i = guid_at m i"
  by (simp add: guid_at_def)

lemma encodes_cong:
  "(\<And>k. i \<le> k \<Longrightarrow> k < i + dep_size e \<Longrightarrow> m' k = m k) \<Longrightarrow> encodes m' i e = encodes m i e"
proof (induction e arbitrary: i)
  case (DProt g)
  then show ?case using guid_at_cong [of "i + 1" m' m] by auto
next
  case (DAnd a b)
  from DAnd.IH(1) [of i] DAnd.IH(2) [of "i + dep_size a"] DAnd.prems show ?case by auto
next
  case (DOr a b)
  from DOr.IH(1) [of i] DOr.IH(2) [of "i + dep_size a"] DOr.prems show ?case by auto
qed auto

lemma mem_val_cong:
  "(\<And>k. i \<le> k \<Longrightarrow> k < i + dep_size e \<Longrightarrow> m' k = m k) \<Longrightarrow> mem_val l m' i e = mem_val l m i e"
proof (induction e arbitrary: i)
  case (DAnd a b)
  from DAnd.IH(1) [of i] DAnd.IH(2) [of "i + dep_size a"] DAnd.prems show ?case by auto
next
  case (DOr a b)
  from DOr.IH(1) [of i] DOr.IH(2) [of "i + dep_size a"] DOr.prems show ?case by auto
qed auto

lemma patch_outside: "k < i \<or> i + dep_size e \<le> k \<Longrightarrow> patch l m i e k = m k"
  by (induction e arbitrary: i m) auto

lemma encodes_patch: "encodes m i e \<Longrightarrow> encodes (patch l m i e) i e"
proof (induction e arbitrary: i m)
  case (DProt g)
  then show ?case using guid_at_cong [of "i + 1" "m(i := EFI_DEP_REPLACE_TRUE)" m] by auto
next
  case (DNot e)
  then show ?case by (simp add: patch_outside)
next
  case (DAnd a b)
  let ?m1 = "patch l m i a" and ?j = "i + dep_size a"
  let ?m2 = "patch l ?m1 ?j b"
  have "encodes ?m1 i a" using DAnd by simp
  then have "encodes ?m2 i a" by (subst encodes_cong) (auto simp: patch_outside)
  moreover have "encodes ?m1 ?j b" using DAnd.prems by (subst encodes_cong) (auto simp: patch_outside)
  then have "encodes ?m2 ?j b" by (rule DAnd.IH(2))
  ultimately show ?case using DAnd.prems by (simp add: patch_outside)
next
  case (DOr a b)
  let ?m1 = "patch l m i a" and ?j = "i + dep_size a"
  let ?m2 = "patch l ?m1 ?j b"
  have "encodes ?m1 i a" using DOr by simp
  then have "encodes ?m2 i a" by (subst encodes_cong) (auto simp: patch_outside)
  moreover have "encodes ?m1 ?j b" using DOr.prems by (subst encodes_cong) (auto simp: patch_outside)
  then have "encodes ?m2 ?j b" by (rule DOr.IH(2))
  ultimately show ?case using DOr.prems by (simp add: patch_outside)
qed auto

text \<open>Patching under \<open>l\<close> and evaluating under \<open>l'\<close> is evaluating under either.\<close>

lemma mem_val_patch: "mem_val l' (patch l m i e) i e = mem_val (\<lambda>g. l g \<or> l' g) m i e"
proof (induction e arbitrary: i m)
  case (DAnd a b)
  let ?m1 = "patch l m i a" and ?j = "i + dep_size a"
  have "mem_val l' (patch l ?m1 ?j b) i a = mem_val l' ?m1 i a"
    by (rule mem_val_cong) (simp add: patch_outside)
  moreover have "mem_val (\<lambda>g. l g \<or> l' g) ?m1 ?j b = mem_val (\<lambda>g. l g \<or> l' g) m ?j b"
    by (rule mem_val_cong) (simp add: patch_outside)
  ultimately show ?case by (simp add: DAnd.IH)
next
  case (DOr a b)
  let ?m1 = "patch l m i a" and ?j = "i + dep_size a"
  have "mem_val l' (patch l ?m1 ?j b) i a = mem_val l' ?m1 i a"
    by (rule mem_val_cong) (simp add: patch_outside)
  moreover have "mem_val (\<lambda>g. l g \<or> l' g) ?m1 ?j b = mem_val (\<lambda>g. l g \<or> l' g) m ?j b"
    by (rule mem_val_cong) (simp add: patch_outside)
  ultimately show ?case by (simp add: DOr.IH)
qed auto

text \<open>A freshly read expression has no patched opcode.\<close>

fun unpatched :: "depex_mem \<Rightarrow> nat \<Rightarrow> dep_expr \<Rightarrow> bool" where
  "unpatched mem i (DProt g) \<longleftrightarrow> mem i = EFI_DEP_PUSH"
| "unpatched mem i (DNot e) \<longleftrightarrow> unpatched mem i e"
| "unpatched mem i (DAnd a b) \<longleftrightarrow> unpatched mem i a \<and> unpatched mem (i + dep_size a) b"
| "unpatched mem i (DOr a b) \<longleftrightarrow> unpatched mem i a \<and> unpatched mem (i + dep_size a) b"
| "unpatched mem i _ \<longleftrightarrow> True"

lemma mem_val_unpatched: "unpatched m i e \<Longrightarrow> mem_val l m i e = dep_val l e"
  by (induction e arbitrary: i) auto

section \<open>The stack as a list\<close>

definition stack_ok :: "eval_stack \<Rightarrow> bool" where
  "stack_ok st \<longleftrightarrow> StackPointer st \<le> length (Cells st)"

definition stack_list :: "eval_stack \<Rightarrow> bool list" where
  "stack_list st = take (StackPointer st) (Cells st)"

lemma GrowDepexStack_ok:
  assumes "stack_ok st" "\<And>n. pool_ok env n"
  shows "\<exists>st'. GrowDepexStack env st = (EFI_SUCCESS, st') \<and> StackPointer st' = StackPointer st \<and>
    length (Cells st) < length (Cells st') \<and> stack_list st' = stack_list st"
  using assms by (auto simp: GrowDepexStack_def Let_def stack_ok_def stack_list_def DEPEX_STACK_SIZE_INCREMENT_def)

lemma PushBool_ok:
  assumes "stack_ok st" "\<And>n. pool_ok env n"
  shows "\<exists>st'. PushBool env v st = (EFI_SUCCESS, st') \<and> stack_ok st' \<and> stack_list st' = stack_list st @ [v]"
proof -
  have push: "stack_list (s\<lparr>Cells := (Cells s)[StackPointer s := v], StackPointer := StackPointer s + 1\<rparr>)
      = stack_list s @ [v]" if "StackPointer s < length (Cells s)" for s :: eval_stack
    using that by (simp add: stack_list_def take_Suc_conv_app_nth)
  show ?thesis
  proof (cases "StackPointer st = length (Cells st)")
    case True
    obtain st' where "GrowDepexStack env st = (EFI_SUCCESS, st')" "StackPointer st' = StackPointer st"
      "length (Cells st) < length (Cells st')" "stack_list st' = stack_list st"
      using GrowDepexStack_ok [OF assms] by blast
    with True push [of st'] show ?thesis by (auto simp: PushBool_def stack_ok_def)
  next
    case False
    with assms(1) have "StackPointer st < length (Cells st)" by (auto simp: stack_ok_def)
    with push [of st] show ?thesis by (auto simp: PushBool_def stack_ok_def)
  qed
qed

lemma PopBool_ok:
  assumes "stack_ok st" "stack_list st = xs @ [v]"
  shows "\<exists>st'. PopBool w st = (EFI_SUCCESS, v, st') \<and> stack_ok st' \<and> stack_list st' = xs"
proof -
  from assms have p: "StackPointer st = Suc (length xs)" "length xs < length (Cells st)"
    by (auto simp: stack_ok_def stack_list_def dest: arg_cong [of _ _ length])
  then have "Cells st ! length xs = v" "take (length xs) (Cells st) = xs"
    using assms(2) by (auto simp: stack_list_def take_Suc_conv_app_nth)
  with p show ?thesis by (auto simp: PopBool_def stack_ok_def stack_list_def)
qed

lemma PopBool_empty: "stack_ok st \<Longrightarrow> stack_list st = [] \<Longrightarrow> PopBool w st = (EFI_ACCESS_DENIED, w, st)"
  by (auto simp: PopBool_def stack_ok_def stack_list_def)

section \<open>The DXE evaluator computes the expression\<close>

lemma depex_loop_step:
  "it < sz \<Longrightarrow> depex_switch env mem st it = Continue mem' st' n \<Longrightarrow>
    depex_loop env sz mem st it = depex_loop env sz mem' st' n"
  by (subst depex_loop.simps) simp

lemma binary_step_ok:
  assumes "stack_ok st" "\<And>n. pool_ok env n" "stack_list st = xs @ [a, b]"
  shows "\<exists>st'. binary_step env f mem st n = Continue mem st' n \<and> stack_ok st' \<and> stack_list st' = xs @ [f b a]"
proof -
  obtain s1 where s1: "PopBool False st = (EFI_SUCCESS, b, s1)" "stack_ok s1" "stack_list s1 = xs @ [a]"
    using PopBool_ok [of st "xs @ [a]" b] assms by auto
  obtain s2 where s2: "PopBool False s1 = (EFI_SUCCESS, a, s2)" "stack_ok s2" "stack_list s2 = xs"
    using PopBool_ok [OF s1(2,3)] by auto
  obtain s3 where "PushBool env (f b a) s2 = (EFI_SUCCESS, s3)" "stack_ok s3" "stack_list s3 = xs @ [f b a]"
    using PushBool_ok [OF s2(2) assms(2)] s2(3) by auto
  with s1 s2 show ?thesis by (auto simp: binary_step_def push_step_def)
qed

lemma not_step_ok:
  assumes "stack_ok st" "\<And>n. pool_ok env n" "stack_list st = xs @ [a]"
  shows "\<exists>st'. not_step env mem st n = Continue mem st' n \<and> stack_ok st' \<and> stack_list st' = xs @ [\<not> a]"
proof -
  obtain s1 where s1: "PopBool False st = (EFI_SUCCESS, a, s1)" "stack_ok s1" "stack_list s1 = xs"
    using PopBool_ok [of st xs a] assms by auto
  obtain s2 where "PushBool env (\<not> a) s1 = (EFI_SUCCESS, s2)" "stack_ok s2" "stack_list s2 = xs @ [\<not> a]"
    using PushBool_ok [OF s1(2) assms(2)] s1(3) by auto
  with s1 show ?thesis by (auto simp: not_step_def push_step_def)
qed

lemma push_step_ok:
  assumes "stack_ok st" "\<And>n. pool_ok env n"
  shows "\<exists>st'. push_step env v mem st n = Continue mem st' n \<and> stack_ok st' \<and> stack_list st' = stack_list st @ [v]"
  using PushBool_ok [OF assms, of v] by (auto simp: push_step_def)

text \<open>One whole subexpression: the loop goes past its bytes, rewrites the found protocols, and leaves the value on the stack.\<close>

definition pushes_value :: "depex_env \<Rightarrow> nat \<Rightarrow> dep_expr \<Rightarrow> bool" where
  "pushes_value env sz e \<longleftrightarrow> (\<forall>mem i st. encodes mem i e \<and> i + dep_size e \<le> sz \<and> stack_ok st \<longrightarrow>
    (\<exists>st'. depex_loop env sz mem st i = depex_loop env sz (patch (locate env) mem i e) st' (i + dep_size e)
      \<and> stack_ok st' \<and> stack_list st' = stack_list st @ [mem_val (locate env) mem i e]))"

lemma pushes_valueE:
  assumes "pushes_value env sz e" "encodes mem i e" "i + dep_size e \<le> sz" "stack_ok st"
  obtains st' where "depex_loop env sz mem st i = depex_loop env sz (patch (locate env) mem i e) st' (i + dep_size e)"
    "stack_ok st'" "stack_list st' = stack_list st @ [mem_val (locate env) mem i e]"
  using assms unfolding pushes_value_def by blast

lemma pushes_protocol:
  assumes "\<And>n. pool_ok env n"
  shows "pushes_value env sz (DProt g)"
  unfolding pushes_value_def
proof (intro allI impI)
  fix mem i st
  assume e: "encodes mem i (DProt g) \<and> i + dep_size (DProt g) \<le> sz \<and> stack_ok st"
  let ?v = "mem_val (locate env) mem i (DProt g)" and ?m = "patch (locate env) mem i (DProt g)"
  have idem: "mem i = EFI_DEP_REPLACE_TRUE \<Longrightarrow> mem(i := EFI_DEP_REPLACE_TRUE) = mem" by (metis fun_upd_triv)
  obtain st' where st': "push_step env ?v ?m st (i + 16 + 1) = Continue ?m st' (i + 16 + 1)" "stack_ok st'"
    "stack_list st' = stack_list st @ [?v]"
    using push_step_ok [OF _ assms, of st] e by blast
  have "mem i = EFI_DEP_PUSH \<or> mem i = EFI_DEP_REPLACE_TRUE" using e by simp
  then have "depex_switch env mem st i = push_step env ?v ?m st (i + 16 + 1)"
    using e idem by (elim disjE) (simp_all add: depex_switch_def Let_def)
  with st'(1) have "depex_loop env sz mem st i = depex_loop env sz ?m st' (i + 16 + 1)"
    using e by (intro depex_loop_step) auto
  with st'(2,3) show "\<exists>st'. depex_loop env sz mem st i = depex_loop env sz ?m st' (i + dep_size (DProt g))
      \<and> stack_ok st' \<and> stack_list st' = stack_list st @ [?v]"
    by (intro exI [of _ st']) (simp add: add.commute)
qed

lemma pushes_constant:
  assumes "\<And>n. pool_ok env n" "e = DTrue \<and> v \<or> e = DFalse \<and> \<not> v"
  shows "pushes_value env sz e"
  unfolding pushes_value_def
proof (intro allI impI)
  fix mem i st
  assume e: "encodes mem i e \<and> i + dep_size e \<le> sz \<and> stack_ok st"
  obtain st' where st': "push_step env v mem st (i + 1) = Continue mem st' (i + 1)" "stack_ok st'"
    "stack_list st' = stack_list st @ [v]"
    using push_step_ok [OF _ assms(1), of st] e by blast
  have "depex_switch env mem st i = Continue mem st' (i + 1)"
    using assms(2) st'(1) e by (elim disjE conjE) (simp_all add: depex_switch_def Let_def)
  then have "depex_loop env sz mem st i = depex_loop env sz mem st' (i + 1)"
    using e assms(2) by (intro depex_loop_step) auto
  with st'(2,3) assms(2)
  show "\<exists>st'. depex_loop env sz mem st i = depex_loop env sz (patch (locate env) mem i e) st' (i + dep_size e)
      \<and> stack_ok st' \<and> stack_list st' = stack_list st @ [mem_val (locate env) mem i e]"
    by (intro exI [of _ st']) auto
qed

lemma pushes_not:
  assumes "pushes_value env sz e" "\<And>n. pool_ok env n"
  shows "pushes_value env sz (DNot e)"
  unfolding pushes_value_def
proof (intro allI impI)
  fix mem i st
  assume e: "encodes mem i (DNot e) \<and> i + dep_size (DNot e) \<le> sz \<and> stack_ok st"
  let ?m = "patch (locate env) mem i e" and ?j = "i + dep_size e"
  obtain s1 where s1: "depex_loop env sz mem st i = depex_loop env sz ?m s1 ?j"
    "stack_ok s1" "stack_list s1 = stack_list st @ [mem_val (locate env) mem i e]"
    by (rule pushes_valueE [OF assms(1), of mem i st]) (use e in auto)
  obtain s2 where s2: "not_step env ?m s1 (?j + 1) = Continue ?m s2 (?j + 1)" "stack_ok s2"
    "stack_list s2 = stack_list st @ [\<not> mem_val (locate env) mem i e]"
    using not_step_ok [OF s1(2) assms(2) s1(3)] by blast
  have "?m ?j = EFI_DEP_NOT" using e by (simp add: patch_outside)
  then have "depex_switch env ?m s1 ?j = Continue ?m s2 (?j + 1)"
    using s2(1) by (simp add: depex_switch_def Let_def)
  then have "depex_loop env sz ?m s1 ?j = depex_loop env sz ?m s2 (?j + 1)"
    using e by (intro depex_loop_step) auto
  with s1 s2 show "\<exists>st'. depex_loop env sz mem st i = depex_loop env sz (patch (locate env) mem i (DNot e)) st' (i + dep_size (DNot e))
      \<and> stack_ok st' \<and> stack_list st' = stack_list st @ [mem_val (locate env) mem i (DNot e)]"
    by (auto simp: add.assoc)
qed

text \<open>The two binary operators differ in their opcode only.\<close>

lemma pushes_binary:
  assumes "pushes_value env sz a" "pushes_value env sz b" "\<And>n. pool_ok env n"
    and e: "encodes mem i a" "encodes mem (i + dep_size a) b" "i + dep_size a + dep_size b + 1 \<le> sz" "stack_ok st"
    and switch: "\<And>m' st'. m' (i + dep_size a + dep_size b) = mem (i + dep_size a + dep_size b) \<Longrightarrow>
      depex_switch env m' st' (i + dep_size a + dep_size b) = binary_step env f m' st' (i + dep_size a + dep_size b + 1)"
  shows "\<exists>st'. depex_loop env sz mem st i =
      depex_loop env sz (patch (locate env) (patch (locate env) mem i a) (i + dep_size a) b) st' (i + dep_size a + dep_size b + 1)
    \<and> stack_ok st' \<and> stack_list st' = stack_list st @ [f (mem_val (locate env) mem (i + dep_size a) b) (mem_val (locate env) mem i a)]"
proof -
  let ?m1 = "patch (locate env) mem i a" and ?j = "i + dep_size a"
  let ?m2 = "patch (locate env) ?m1 ?j b" and ?k = "i + dep_size a + dep_size b"
  obtain s1 where s1: "depex_loop env sz mem st i = depex_loop env sz ?m1 s1 ?j"
    "stack_ok s1" "stack_list s1 = stack_list st @ [mem_val (locate env) mem i a]"
    by (rule pushes_valueE [OF assms(1), of mem i st]) (use e in auto)
  have b: "encodes ?m1 ?j b" "mem_val (locate env) ?m1 ?j b = mem_val (locate env) mem ?j b"
    using e(2) encodes_cong [of ?j b ?m1 mem] mem_val_cong [of ?j b ?m1 mem] by (auto simp: patch_outside)
  obtain s2 where s2: "depex_loop env sz ?m1 s1 ?j = depex_loop env sz ?m2 s2 ?k"
    "stack_ok s2" "stack_list s2 = stack_list st @ [mem_val (locate env) mem i a, mem_val (locate env) mem ?j b]"
    by (rule pushes_valueE [OF assms(2) b(1) _ s1(2)]) (use e(3) s1(3) b(2) in auto)
  have "?m2 ?k = mem ?k" by (simp add: patch_outside)
  note switch [of ?m2 s2, OF this]
  moreover obtain s3 where s3: "binary_step env f ?m2 s2 (?k + 1) = Continue ?m2 s3 (?k + 1)"
    "stack_ok s3" "stack_list s3 = stack_list st @ [f (mem_val (locate env) mem ?j b) (mem_val (locate env) mem i a)]"
    using binary_step_ok [OF s2(2) assms(3) s2(3)] by blast
  ultimately have "depex_loop env sz ?m2 s2 ?k = depex_loop env sz ?m2 s3 (?k + 1)"
    using e(3) by (intro depex_loop_step) auto
  with s1(1) s2(1) s3(2,3) show ?thesis by auto
qed

lemma pushes_and:
  assumes "pushes_value env sz a" "pushes_value env sz b" "\<And>n. pool_ok env n"
  shows "pushes_value env sz (DAnd a b)"
  unfolding pushes_value_def
proof (intro allI impI)
  fix mem i st
  assume "encodes mem i (DAnd a b) \<and> i + dep_size (DAnd a b) \<le> sz \<and> stack_ok st"
  then show "\<exists>st'. depex_loop env sz mem st i = depex_loop env sz (patch (locate env) mem i (DAnd a b)) st' (i + dep_size (DAnd a b))
      \<and> stack_ok st' \<and> stack_list st' = stack_list st @ [mem_val (locate env) mem i (DAnd a b)]"
    using pushes_binary [OF assms, of mem i st "(\<and>)"] by (auto simp: depex_switch_def Let_def add.assoc conj_commute)
qed

lemma pushes_or:
  assumes "pushes_value env sz a" "pushes_value env sz b" "\<And>n. pool_ok env n"
  shows "pushes_value env sz (DOr a b)"
  unfolding pushes_value_def
proof (intro allI impI)
  fix mem i st
  assume "encodes mem i (DOr a b) \<and> i + dep_size (DOr a b) \<le> sz \<and> stack_ok st"
  then show "\<exists>st'. depex_loop env sz mem st i = depex_loop env sz (patch (locate env) mem i (DOr a b)) st' (i + dep_size (DOr a b))
      \<and> stack_ok st' \<and> stack_list st' = stack_list st @ [mem_val (locate env) mem i (DOr a b)]"
    using pushes_binary [OF assms, of mem i st "(\<or>)"] by (auto simp: depex_switch_def Let_def add.assoc disj_commute)
qed

lemma depex_loop_expr:
  assumes "encodes mem i e" "i + dep_size e \<le> sz" "stack_ok st" "\<And>n. pool_ok env n"
  shows "\<exists>st'. depex_loop env sz mem st i = depex_loop env sz (patch (locate env) mem i e) st' (i + dep_size e)
    \<and> stack_ok st' \<and> stack_list st' = stack_list st @ [mem_val (locate env) mem i e]"
proof -
  have "pushes_value env sz e"
    by (induction e) (auto intro: assms(4) pushes_protocol pushes_constant pushes_not pushes_and pushes_or)
  then show ?thesis using assms(1-3) by (simp add: pushes_value_def)
qed

text \<open>Whole expressions: an optional SOR, the expression, END.\<close>

definition well_formed_depex :: "depex_mem \<Rightarrow> nat \<Rightarrow> dep_expr \<Rightarrow> nat \<Rightarrow> bool" where
  "well_formed_depex mem i e sz \<longleftrightarrow>
     (i = 0 \<or> i = 1 \<and> mem 0 = EFI_DEP_SOR) \<and> encodes mem i e \<and>
     mem (i + dep_size e) = EFI_DEP_END \<and> i + dep_size e < sz"

lemma depex_loop_from:
  assumes "encodes mem i e" "mem (i + dep_size e) = EFI_DEP_END" "i + dep_size e < sz"
    "stack_ok st" "stack_list st = []" "\<And>n. pool_ok env n"
  shows "\<exists>st'. depex_loop env sz mem st i =
    ret (mem_val (locate env) mem i e, patch (locate env) mem i e, st')"
proof -
  let ?m = "patch (locate env) mem i e" and ?j = "i + dep_size e"
  obtain s1 where s1: "depex_loop env sz mem st i = depex_loop env sz ?m s1 ?j" "stack_ok s1"
    "stack_list s1 = [] @ [mem_val (locate env) mem i e]"
    using depex_loop_expr [of mem i e sz st env] assms by auto
  obtain s2 where "PopBool False s1 = (EFI_SUCCESS, mem_val (locate env) mem i e, s2)"
    using PopBool_ok [OF s1(2,3)] by blast
  moreover have "?m ?j = EFI_DEP_END" using assms(2) by (simp add: patch_outside)
  ultimately have "depex_switch env ?m s1 ?j = Result (mem_val (locate env) mem i e) ?m s2"
    by (simp add: depex_switch_def Let_def)
  with s1(1) assms(3) show ?thesis by (subst (asm) depex_loop.simps) auto
qed

lemma CoreIsSchedulable_wf:
  assumes "Depex d = Some mem" "\<not> Before d" "\<not> After d"
    and wf: "well_formed_depex mem i e (DepexSize d)" and "\<And>n. pool_ok env n"
  shows "\<exists>st'. CoreIsSchedulable env st d =
    ret (mem_val (locate env) mem i e, d\<lparr>Depex := Some (patch (locate env) mem i e)\<rparr>, st')"
proof -
  let ?st = "st\<lparr>StackPointer := 0\<rparr>"
  have st: "stack_ok ?st" "stack_list ?st = []" by (simp_all add: stack_ok_def stack_list_def)
  have "depex_loop env (DepexSize d) mem ?st 0 = depex_loop env (DepexSize d) mem ?st i"
  proof (cases "i = 0")
    case False
    with wf have "i = 1" "mem 0 = EFI_DEP_SOR" "0 < DepexSize d" by (auto simp: well_formed_depex_def)
    then show ?thesis by (subst depex_loop_step) (auto simp: depex_switch_def Let_def)
  qed simp
  moreover obtain st' where "depex_loop env (DepexSize d) mem ?st i =
      ret (mem_val (locate env) mem i e, patch (locate env) mem i e, st')"
    using depex_loop_from [OF _ _ _ st, of mem i e "DepexSize d" env] wf assms(5)
    by (auto simp: well_formed_depex_def)
  ultimately show ?thesis using assms by (simp add: CoreIsSchedulable_def)
qed

section \<open>Bytes past the end\<close>

definition same_below :: "nat \<Rightarrow> depex_mem \<Rightarrow> depex_mem \<Rightarrow> bool" where
  "same_below n m m' \<longleftrightarrow> (\<forall>k < n. m' k = m k)"

definition run_value :: "(bool \<times> depex_mem \<times> eval_stack) run \<Rightarrow> bool run" where
  "run_value r = bind_run r (\<lambda>(b, _, _). ret b)"

text \<open>Whatever the operand bytes past the end are, the loop stops with FALSE after them.\<close>

lemma loop_past_end: "sz \<le> n \<Longrightarrow> run_value (depex_loop env sz m st n) = ret False"
  by (subst depex_loop.simps) (simp add: run_value_def)

text \<open>Two steps that agree but for memory contents at or beyond \<open>sz\<close>.\<close>

fun step_rel :: "nat \<Rightarrow> depex_step \<Rightarrow> depex_step \<Rightarrow> bool" where
  "step_rel sz (Result b m st) (Result b' m' st') \<longleftrightarrow> b' = b \<and> st' = st"
| "step_rel sz (Continue m st k) (Continue m' st' k') \<longleftrightarrow> st' = st \<and> k' = k \<and> same_below sz m m'"
| "step_rel sz Asserted Asserted \<longleftrightarrow> True"
| "step_rel sz _ _ \<longleftrightarrow> False"

lemma push_step_rel:
  "same_below sz m m' \<Longrightarrow> step_rel sz (push_step env v m st n) (push_step env v m' st n)"
  by (auto simp: push_step_def split: prod.splits)

lemma binary_step_rel:
  "same_below sz m m' \<Longrightarrow> step_rel sz (binary_step env f m st n) (binary_step env f m' st n)"
  by (auto simp: binary_step_def push_step_rel split: prod.splits)

lemma not_step_rel:
  "same_below sz m m' \<Longrightarrow> step_rel sz (not_step env m st n) (not_step env m' st n)"
  by (auto simp: not_step_def push_step_rel split: prod.splits)

lemma depex_switch_rel:
  assumes "same_below sz m m'" "i < sz" "m i = EFI_DEP_PUSH \<Longrightarrow> i + 17 \<le> sz"
  shows "step_rel sz (depex_switch env m st i) (depex_switch env m' st i)"
proof -
  have op: "m' i = m i" using assms(1,2) by (simp add: same_below_def)
  have g: "guid_at m' (i + 1) = guid_at m (i + 1)" if "m i = EFI_DEP_PUSH"
    using assms(1) assms(3) [OF that] by (intro guid_at_cong) (auto simp: same_below_def)
  have upd: "same_below sz (m(i := v)) (m'(i := v))" for v
    using assms(1) by (auto simp: same_below_def)
  show ?thesis
  proof (cases "m i = EFI_DEP_PUSH")
    case True
    with g op upd push_step_rel [OF assms(1)] push_step_rel [OF upd]
    show ?thesis by (simp add: depex_switch_def Let_def)
  next
    case False
    with op assms(1) push_step_rel [OF assms(1)] binary_step_rel [OF assms(1)] not_step_rel [OF assms(1)]
    show ?thesis by (simp add: depex_switch_def Let_def split: prod.split)
  qed
qed

lemma depex_switch_truncated_push:
  assumes "m i = EFI_DEP_PUSH" "i < sz" "sz < i + 17"
  shows "run_value (depex_loop env sz m st i) = ret False"
proof -
  have "(\<exists>m1 st1. depex_switch env m st i = Continue m1 st1 (i + 16 + 1)) \<or>
      (\<exists>m1 st1. depex_switch env m st i = Result False m1 st1)"
    using assms(1) by (auto simp: depex_switch_def push_step_def Let_def split: prod.splits)
  then show ?thesis
  proof (elim disjE exE)
    fix m1 st1 assume "depex_switch env m st i = Continue m1 st1 (i + 16 + 1)"
    with assms(2) have "depex_loop env sz m st i = depex_loop env sz m1 st1 (i + 16 + 1)"
      by (intro depex_loop_step)
    with assms(3) loop_past_end [of sz "i + 16 + 1" env m1 st1] show ?thesis by simp
  next
    fix m1 st1 assume "depex_switch env m st i = Result False m1 st1"
    with assms(2) show ?thesis by (subst depex_loop.simps) (simp add: run_value_def)
  qed
qed

lemma depex_loop_same_below:
  "same_below sz m m' \<Longrightarrow> run_value (depex_loop env sz m' st i) = run_value (depex_loop env sz m st i)"
proof (induction env sz m st i arbitrary: m' rule: depex_loop.induct)
  case (1 env sz m st i)
  show ?case
  proof (cases "sz \<le> i")
    case True
    then show ?thesis by (simp add: loop_past_end)
  next
    case False
    have op: "m' i = m i" using 1(2) False by (simp add: same_below_def)
    show ?thesis
    proof (cases "m i = EFI_DEP_PUSH \<and> sz < i + 17")
      case True
      with False op show ?thesis by (simp add: depex_switch_truncated_push)
    next
      case no_trunc: False
      then have rel: "step_rel sz (depex_switch env m st i) (depex_switch env m' st i)"
        using 1(2) False by (intro depex_switch_rel) auto
      show ?thesis
      proof (cases "depex_switch env m st i")
        case (Result b m1 st1)
        with rel False show ?thesis
          by (cases "depex_switch env m' st i"; subst (1 2) depex_loop.simps) (auto simp: run_value_def)
      next
        case (Continue m1 st1 k)
        with rel obtain m1' where m1': "depex_switch env m' st i = Continue m1' st1 k" "same_below sz m1 m1'"
          by (cases "depex_switch env m' st i") auto
        have "run_value (depex_loop env sz m1' st1 k) = run_value (depex_loop env sz m1 st1 k)"
          by (rule 1(1) [OF False Continue m1'(2)])
        with Continue m1'(1) False show ?thesis by (simp add: depex_loop_step)
      next
        case Asserted
        with rel False show ?thesis
          by (cases "depex_switch env m' st i"; subst (1 2) depex_loop.simps) (auto simp: run_value_def)
      qed
    qed
  qed
qed

section \<open>The PEI evaluator on an encoded expression\<close>

lemma IsPpiInstalled_simps [simp]:
  "IsPpiInstalled ppi mem \<lparr>EntryResult = r, Operator = None\<rparr> = r"
  "IsPpiInstalled ppi mem (en\<lparr>Operator := Some p\<rparr>) = ppi (guid_at mem p)"
  by (simp_all add: IsPpiInstalled_def)

lemma pei_expr:
  assumes "encodes mem i e" "unpatched mem i e" "0 \<le> sp" "sp + int (dep_depth e) \<le> MAX_GRAMMAR_SIZE"
  shows "\<exists>S'. PeimDispatchReadiness_loop ppi mem S sp i =
       PeimDispatchReadiness_loop ppi mem S' (sp + 1) (i + dep_size e)
     \<and> IsPpiInstalled ppi mem (S' sp) = dep_val ppi e \<and> (\<forall>k < sp. S' k = S k)"
  using assms
proof (induction e arbitrary: i sp S)
  case (DProt g)
  then show ?case
    by (subst PeimDispatchReadiness_loop.simps) (auto simp: Let_def add.commute intro!: exI)
next
  case DTrue
  then show ?case
    by (subst PeimDispatchReadiness_loop.simps) (auto simp: Let_def intro!: exI)
next
  case DFalse
  then show ?case
    by (subst PeimDispatchReadiness_loop.simps) (auto simp: Let_def intro!: exI)
next
  case (DNot e)
  obtain S1 where S1: "PeimDispatchReadiness_loop ppi mem S sp i =
      PeimDispatchReadiness_loop ppi mem S1 (sp + 1) (i + dep_size e)"
    "IsPpiInstalled ppi mem (S1 sp) = dep_val ppi e" "\<forall>k < sp. S1 k = S k"
    using DNot.IH [of i sp S] DNot.prems by auto
  define S2 where "S2 = S1(sp := \<lparr>EntryResult = \<not> dep_val ppi e, Operator = None\<rparr>)"
  have "PeimDispatchReadiness_loop ppi mem S1 (sp + 1) (i + dep_size e) =
      PeimDispatchReadiness_loop ppi mem S2 (sp + 1) (i + dep_size (DNot e))"
    using DNot.prems S1(2) by (subst PeimDispatchReadiness_loop.simps) (simp add: Let_def S2_def)
  moreover have "IsPpiInstalled ppi mem (S2 sp) = dep_val ppi (DNot e)" "\<forall>k < sp. S2 k = S k"
    using S1(3) by (simp_all add: S2_def)
  ultimately show ?case using S1(1) by (intro exI [of _ S2]) simp
next
  case (DAnd a b)
  let ?j = "i + dep_size a" and ?k = "i + dep_size a + dep_size b"
  obtain S1 where S1: "PeimDispatchReadiness_loop ppi mem S sp i =
      PeimDispatchReadiness_loop ppi mem S1 (sp + 1) ?j"
    "IsPpiInstalled ppi mem (S1 sp) = dep_val ppi a" "\<forall>k < sp. S1 k = S k"
    using DAnd.IH(1) [of i sp S] DAnd.prems by (auto simp: max_def split: if_splits)
  obtain S2 where S2: "PeimDispatchReadiness_loop ppi mem S1 (sp + 1) ?j =
      PeimDispatchReadiness_loop ppi mem S2 (sp + 1 + 1) ?k"
    "IsPpiInstalled ppi mem (S2 (sp + 1)) = dep_val ppi b" "\<forall>k < sp + 1. S2 k = S1 k"
    using DAnd.IH(2) [of ?j "sp + 1" S1] DAnd.prems by (auto simp: max_def split: if_splits)
  let ?S = "if \<not> dep_val ppi b then S2(sp := \<lparr>EntryResult = False, Operator = None\<rparr>) else S2"
  have "PeimDispatchReadiness_loop ppi mem S2 (sp + 1 + 1) ?k =
      PeimDispatchReadiness_loop ppi mem ?S (sp + 1) (?k + 1)"
    using DAnd.prems S2(2) by (subst PeimDispatchReadiness_loop.simps) (simp add: Let_def add.commute [of sp 1])
  with S1 S2 show ?case
    by (intro exI [of _ ?S]) (simp add: add.assoc)
next
  case (DOr a b)
  let ?j = "i + dep_size a" and ?k = "i + dep_size a + dep_size b"
  obtain S1 where S1: "PeimDispatchReadiness_loop ppi mem S sp i =
      PeimDispatchReadiness_loop ppi mem S1 (sp + 1) ?j"
    "IsPpiInstalled ppi mem (S1 sp) = dep_val ppi a" "\<forall>k < sp. S1 k = S k"
    using DOr.IH(1) [of i sp S] DOr.prems by (auto simp: max_def split: if_splits)
  obtain S2 where S2: "PeimDispatchReadiness_loop ppi mem S1 (sp + 1) ?j =
      PeimDispatchReadiness_loop ppi mem S2 (sp + 1 + 1) ?k"
    "IsPpiInstalled ppi mem (S2 (sp + 1)) = dep_val ppi b" "\<forall>k < sp + 1. S2 k = S1 k"
    using DOr.IH(2) [of ?j "sp + 1" S1] DOr.prems by (auto simp: max_def split: if_splits)
  let ?S = "if dep_val ppi b then S2(sp := \<lparr>EntryResult = True, Operator = None\<rparr>) else S2"
  have "PeimDispatchReadiness_loop ppi mem S2 (sp + 1 + 1) ?k =
      PeimDispatchReadiness_loop ppi mem ?S (sp + 1) (?k + 1)"
    using DOr.prems S2(2) by (subst PeimDispatchReadiness_loop.simps) (simp add: Let_def add.commute [of sp 1])
  with S1 S2 show ?case
    by (intro exI [of _ ?S]) (simp add: add.assoc)
qed

lemma pei_overflow:
  assumes "encodes mem i e" "unpatched mem i e" "0 \<le> sp" "MAX_GRAMMAR_SIZE < sp + int (dep_depth e)"
  shows "PeimDispatchReadiness_loop ppi mem S sp i = Some False"
  using assms
proof (induction e arbitrary: i sp S)
  case (DAnd a b)
  show ?case
  proof (cases "MAX_GRAMMAR_SIZE < sp + int (dep_depth a)")
    case True
    with DAnd show ?thesis by simp
  next
    case False
    then obtain S1 where "PeimDispatchReadiness_loop ppi mem S sp i =
        PeimDispatchReadiness_loop ppi mem S1 (sp + 1) (i + dep_size a)"
      using pei_expr [of mem i a sp ppi S] DAnd.prems by auto
    with False DAnd.prems show ?thesis using DAnd.IH(2) [of "i + dep_size a" "sp + 1" S1] by (auto simp: max_def split: if_splits)
  qed
next
  case (DOr a b)
  show ?case
  proof (cases "MAX_GRAMMAR_SIZE < sp + int (dep_depth a)")
    case True
    with DOr show ?thesis by simp
  next
    case False
    then obtain S1 where "PeimDispatchReadiness_loop ppi mem S sp i =
        PeimDispatchReadiness_loop ppi mem S1 (sp + 1) (i + dep_size a)"
      using pei_expr [of mem i a sp ppi S] DOr.prems by auto
    with False DOr.prems show ?thesis using DOr.IH(2) [of "i + dep_size a" "sp + 1" S1] by (auto simp: max_def split: if_splits)
  qed
next
  case (DNot e)
  then show ?case by simp
qed (subst PeimDispatchReadiness_loop.simps, simp add: Let_def)+

lemma pei_eval:
  assumes "encodes mem 0 e" "unpatched mem 0 e" "mem (dep_size e) = EFI_DEP_END"
  shows "PeimDispatchReadiness ppi S mem = Some (dep_depth e \<le> 64 \<and> dep_val ppi e)"
proof (cases "dep_depth e \<le> 64")
  case True
  then obtain S' where S': "PeimDispatchReadiness_loop ppi mem S 0 0 =
      PeimDispatchReadiness_loop ppi mem S' 1 (dep_size e)" "IsPpiInstalled ppi mem (S' 0) = dep_val ppi e"
    using pei_expr [of mem 0 e 0 ppi S] assms by (auto simp: MAX_GRAMMAR_SIZE_def)
  moreover have "PeimDispatchReadiness_loop ppi mem S' 1 (dep_size e) = Some (dep_val ppi e)"
    using assms(3) S'(2) by (subst PeimDispatchReadiness_loop.simps) (simp add: Let_def)
  ultimately show ?thesis using True by (simp add: PeimDispatchReadiness_def)
next
  case False
  with pei_overflow [of mem 0 e 0 ppi S] assms show ?thesis
    by (simp add: PeimDispatchReadiness_def MAX_GRAMMAR_SIZE_def)
qed


section \<open>Properties\<close>

definition demo_mem :: depex_mem where
  "demo_mem k = (if k = 0 then EFI_DEP_PUSH else if k = 17 then EFI_DEP_END else 0)"

definition demo_env :: depex_env where
  "demo_env = \<lparr>locate = (\<lambda>g. g = replicate 16 0), pool_ok = (\<lambda>_. True), pool_junk = (\<lambda>_. False),
     arch_present = [], asserts = True\<rparr>"

definition demo_driver :: EFI_CORE_DRIVER_ENTRY where
  "demo_driver = \<lparr>FvHandle = 1, FileName = replicate 16 1, Depex = Some demo_mem, DepexSize = 18,
     Before = False, After = False, BeforeAfterGuid = [], Dependent = True, Unrequested = False,
     Scheduled = False, Untrusted = False, Initialized = False, DepexProtocolError = False,
     ImageHandle = 0, IsFvImage = False\<rparr>"

lemma demo_guid: "guid_at demo_mem 1 = replicate 16 0"
  by (simp add: guid_at_def demo_mem_def upt_rec numeral_eq_Suc)

lemma demo_encodes: "encodes demo_mem 0 (DProt (replicate 16 0))"
  using demo_guid by (simp add: demo_mem_def)

text \<open>C7: On a well-formed dependency expression (an optional SOR, an expression in postfix
  notation, END, all within \<open>DepexSize\<close>) whose driver is not Before or After, and with memory
  for the stack, \<open>CoreIsSchedulable\<close> returns exactly the value of the expression, a GUID
  counting as present when the database has it or its opcode was patched by an earlier
  evaluation; it patches exactly the opcodes of the GUIDs it found and changes nothing else of the
  driver entry.\<close>

theorem depex_evaluates_expression:
  assumes "Depex d = Some mem" "\<not> Before d" "\<not> After d"
    and "well_formed_depex mem i e (DepexSize d)" and "\<And>n. pool_ok env n"
  shows "\<exists>st'. CoreIsSchedulable env st d =
    ret (mem_val (locate env) mem i e, d\<lparr>Depex := Some (patch (locate env) mem i e)\<rparr>, st')"
  using assms by (rule CoreIsSchedulable_wf)

theorem depex_evaluates_expression_witness:
  "\<exists>st'. CoreIsSchedulable demo_env \<lparr>Cells = [], StackPointer = 0\<rparr> demo_driver =
    ret (True, demo_driver\<lparr>Depex := Some (demo_mem(0 := EFI_DEP_REPLACE_TRUE))\<rparr>, st')"
  using depex_evaluates_expression [of demo_driver demo_mem 0 "DProt (replicate 16 0)" demo_env
      "\<lparr>Cells = [], StackPointer = 0\<rparr>"] demo_encodes
  by (simp add: demo_driver_def demo_env_def well_formed_depex_def) (simp add: demo_mem_def)

text \<open>C24: The opcode patching is a sound cache.  When a freshly read well-formed expression has been
  evaluated under one protocol database, a second evaluation under a database in which the
  protocols found the first time are still installed gives the value of the
  expression in the second database.\<close>

theorem depex_cache_sound:
  assumes "Depex d = Some mem" "\<not> Before d" "\<not> After d"
    and wf: "well_formed_depex mem i e (DepexSize d)" and fresh: "unpatched mem i e"
    and "\<And>n. pool_ok env n" "\<And>n. pool_ok env' n"
    and mono: "\<And>g. locate env g \<Longrightarrow> locate env' g"
  shows "\<exists>d1 st1 d2 st2. CoreIsSchedulable env st d = ret (dep_val (locate env) e, d1, st1) \<and>
    CoreIsSchedulable env' st1 d1 = ret (dep_val (locate env') e, d2, st2)"
proof -
  let ?m = "patch (locate env) mem i e" and ?d = "d\<lparr>Depex := Some (patch (locate env) mem i e)\<rparr>"
  obtain st1 where "CoreIsSchedulable env st d = ret (mem_val (locate env) mem i e, ?d, st1)"
    using CoreIsSchedulable_wf [OF assms(1-4,6)] by blast
  moreover have "well_formed_depex ?m i e (DepexSize ?d)"
    using wf by (auto simp: well_formed_depex_def encodes_patch patch_outside)
  then obtain st2 d2 where "CoreIsSchedulable env' st1 ?d = ret (mem_val (locate env') ?m i e, d2, st2)"
    using CoreIsSchedulable_wf [of ?d ?m i e env' st1] assms(2,3,7) by auto
  moreover have "(\<lambda>g. locate env g \<or> locate env' g) = locate env'" using mono by auto
  ultimately show ?thesis
    using fresh by (auto simp: mem_val_patch mem_val_unpatched)
qed

theorem depex_cache_sound_witness:
  "\<exists>d1 st1 d2 st2. CoreIsSchedulable demo_env \<lparr>Cells = [], StackPointer = 0\<rparr> demo_driver = ret (True, d1, st1) \<and>
    CoreIsSchedulable demo_env st1 d1 = ret (True, d2, st2)"
  using depex_cache_sound [of demo_driver demo_mem 0 "DProt (replicate 16 0)" demo_env demo_env
      "\<lparr>Cells = [], StackPointer = 0\<rparr>"] demo_encodes
  by (simp add: demo_driver_def demo_env_def well_formed_depex_def) (simp add: demo_mem_def)

text \<open>C25: The result of \<open>CoreIsSchedulable\<close> on arbitrary bytes, well formed or not, does not depend on
  any byte at or past \<open>DepexSize\<close>, although the operand of a PUSH at the end is read from there:
  two drivers whose expressions agree below \<open>DepexSize\<close> get the same answer (or the same
  ASSERT).\<close>

theorem depex_ignores_bytes_past_end:
  assumes "same_below (DepexSize d) mem mem'"
  shows "bind_run (CoreIsSchedulable env st (d\<lparr>Depex := Some mem'\<rparr>)) (\<lambda>(b, _). ret b) =
    bind_run (CoreIsSchedulable env st (d\<lparr>Depex := Some mem\<rparr>)) (\<lambda>(b, _). ret b)"
proof -
  have "bind_run (CoreIsSchedulable env st (d\<lparr>Depex := Some m\<rparr>)) (\<lambda>(b, _). ret b) =
      (if After d \<or> Before d then ret False
       else run_value (depex_loop env (DepexSize d) m (st\<lparr>StackPointer := 0\<rparr>) 0))" for m
    by (auto simp: CoreIsSchedulable_def run_value_def bind_run_def ret_def split: option.splits sum.splits)
  with depex_loop_same_below [OF assms] show ?thesis by simp
qed

theorem depex_ignores_bytes_past_end_witness:
  "\<forall>st. bind_run (CoreIsSchedulable demo_env st (demo_driver\<lparr>Depex := Some (demo_mem(18 := 7))\<rparr>)) (\<lambda>(b, _). ret b) =
   bind_run (CoreIsSchedulable demo_env st (demo_driver\<lparr>Depex := Some demo_mem\<rparr>)) (\<lambda>(b, _). ret b)"
  by (intro allI depex_ignores_bytes_past_end) (simp add: same_below_def demo_driver_def)

text \<open>C21: The two evaluators agree as far as the PEI stack reaches.  On a freshly read well-formed expression
  without SOR, with memory for the stack of the DXE evaluator, the PEI evaluator returns (it has no size to stop at), and it returns TRUE exactly
  when the expression needs at most 64 stack entries and the DXE evaluator, with the same
  database, returns TRUE.\<close>

theorem pei_dxe_evaluators_agree:
  assumes "Depex d = Some mem" "\<not> Before d" "\<not> After d"
    and wf: "well_formed_depex mem 0 e (DepexSize d)" and fresh: "unpatched mem 0 e"
    and "\<And>n. pool_ok env n"
  shows "\<exists>b d' st'. CoreIsSchedulable env st d = ret (b, d', st') \<and>
    PeimDispatchReadiness (locate env) EvalStack mem = Some (dep_depth e \<le> 64 \<and> b)"
  using CoreIsSchedulable_wf [OF assms(1-4,6), of st] pei_eval [of mem e "locate env" EvalStack] wf fresh
  by (auto simp: well_formed_depex_def mem_val_unpatched)

theorem pei_dxe_evaluators_agree_witness:
  "\<forall>EvalStack. \<exists>b d' st'. CoreIsSchedulable demo_env \<lparr>Cells = [], StackPointer = 0\<rparr> demo_driver = ret (b, d', st') \<and>
    PeimDispatchReadiness (locate demo_env) EvalStack demo_mem = Some b"
proof
  fix EvalStack
  show "\<exists>b d' st'. CoreIsSchedulable demo_env \<lparr>Cells = [], StackPointer = 0\<rparr> demo_driver = ret (b, d', st') \<and>
    PeimDispatchReadiness (locate demo_env) EvalStack demo_mem = Some b"
    using pei_dxe_evaluators_agree [of demo_driver demo_mem "DProt (replicate 16 0)" demo_env
        "\<lparr>Cells = [], StackPointer = 0\<rparr>" EvalStack] demo_encodes
    by (simp add: demo_driver_def demo_env_def well_formed_depex_def) (simp add: demo_mem_def)
qed

end
