(* ===== verification/Dispatcher.thy ===== *)
theory Dispatcher
  imports Depex
begin

text \<open>
  The DXE dispatcher (MdeModulePkg/Core/Dxe/Dispatcher/Dispatcher.c): the list of discovered
  drivers, the queue of scheduled ones, and the loop that loads and starts drivers until a
  round schedules none.  A driver entry is named by its position in \<open>mDiscoveredList\<close>, from which
  nothing is ever removed.  What a started image, a firmware volume image, an event or the image loader
  does is a parameter (\<open>services\<close>) over the dispatcher's state and a \<open>world\<close>.  The dispatcher lock
  only raises the TPL and is not modelled.
\<close>

section \<open>State and services\<close>

record 'w dispatcher =
  mDiscoveredList :: "EFI_CORE_DRIVER_ENTRY list"
  mScheduledQueue :: "nat list"
  gDispatcherRunning :: bool
  DepexStack :: eval_stack
  world :: 'w

text \<open>\<open>Fv->ReadSection\<close> for the DEPEX section: an error, or the section and its size.\<close>

datatype section_read = ReadError efi_status | ReadOk depex_mem nat

record 'w services =
  depex_env_of :: "'w \<Rightarrow> depex_env"
  read_section :: "'w \<Rightarrow> EFI_CORE_DRIVER_ENTRY \<Rightarrow> section_read"
  alloc_entry :: "'w \<Rightarrow> bool"
  create_dispatch_event :: "'w \<Rightarrow> efi_status"
  signal_dispatch_event :: "'w dispatcher \<Rightarrow> 'w dispatcher"
  close_dispatch_event :: "'w dispatcher \<Rightarrow> 'w dispatcher"
  load_image :: "'w \<Rightarrow> EFI_CORE_DRIVER_ENTRY \<Rightarrow> efi_status \<times> u64 \<times> 'w"
  start_image :: "nat \<Rightarrow> 'w dispatcher \<Rightarrow> 'w dispatcher"
  process_fv_image :: "nat \<Rightarrow> 'w dispatcher \<Rightarrow> 'w dispatcher"

definition entry_of :: "('w, 'z) dispatcher_scheme \<Rightarrow> nat \<Rightarrow> EFI_CORE_DRIVER_ENTRY" where
  "entry_of s i = mDiscoveredList s ! i"

definition set_entry ::
  "nat \<Rightarrow> (EFI_CORE_DRIVER_ENTRY \<Rightarrow> EFI_CORE_DRIVER_ENTRY) \<Rightarrow> 'w dispatcher \<Rightarrow> 'w dispatcher" where
  "set_entry i f s = s\<lparr>mDiscoveredList := (mDiscoveredList s)[i := f (entry_of s i)]\<rparr>"

section \<open>Reading the dependency expression; the driver list\<close>

definition CoreGetDepexSectionAndPreProccess ::
  "section_read \<Rightarrow> EFI_CORE_DRIVER_ENTRY \<Rightarrow> EFI_CORE_DRIVER_ENTRY" where
  "CoreGetDepexSectionAndPreProccess r e =
     (case r of
        ReadError Status \<Rightarrow>
          if Status = EFI_PROTOCOL_ERROR then e\<lparr>DepexProtocolError := True\<rparr>
          else e\<lparr>Depex := None, Dependent := True, DepexProtocolError := False\<rparr>
      | ReadOk mem sz \<Rightarrow>
          (CorePreProcessDepex mem (e\<lparr>Depex := Some mem, DepexSize := sz\<rparr>))\<lparr>DepexProtocolError := False\<rparr>)"

definition CoreAddToDriverList ::
  "'w services \<Rightarrow> u64 \<Rightarrow> EFI_GUID \<Rightarrow> bool \<Rightarrow> 'w dispatcher \<Rightarrow> (efi_status \<times> 'w dispatcher) run" where
  "CoreAddToDriverList svc Fv DriverName TypeIsFvImage s =
     (if \<not> alloc_entry svc (world s)
      then Some (Inl (if asserts (depex_env_of svc (world s)) then AssertFailed else NullDeref))
      else let zero = \<lparr>FvHandle = 0, FileName = replicate 16 0, Depex = None, DepexSize = 0, Before = False,
                  After = False, BeforeAfterGuid = replicate 16 0, Dependent = False,
                  Unrequested = False, Scheduled = False, Untrusted = False, Initialized = False,
                  DepexProtocolError = False, ImageHandle = 0, IsFvImage = False\<rparr>;
               e = zero\<lparr>IsFvImage := TypeIsFvImage, FileName := DriverName, FvHandle := Fv\<rparr>;
               e' = CoreGetDepexSectionAndPreProccess (read_section svc (world s) e) e
           in ret (EFI_SUCCESS, s\<lparr>mDiscoveredList := mDiscoveredList s @ [e']\<rparr>))"

text \<open>The first driver of the list that satisfies the test of the loop.\<close>

definition find_driver :: "(EFI_CORE_DRIVER_ENTRY \<Rightarrow> bool) \<Rightarrow> 'w dispatcher \<Rightarrow> nat option" where
  "find_driver p s = find (\<lambda>i. p (entry_of s i)) [0 ..< length (mDiscoveredList s)]"

definition CoreSchedule :: "u64 \<Rightarrow> EFI_GUID \<Rightarrow> 'w dispatcher \<Rightarrow> efi_status \<times> 'w dispatcher" where
  "CoreSchedule FirmwareVolumeHandle DriverName s =
     (case find_driver (\<lambda>e. FvHandle e = FirmwareVolumeHandle \<and> Unrequested e \<and> DriverName = FileName e) s of
        Some i \<Rightarrow> (EFI_SUCCESS, set_entry i (\<lambda>e. e\<lparr>Unrequested := False, Dependent := True\<rparr>) s)
      | None \<Rightarrow> (EFI_NOT_FOUND, s))"

definition CoreTrust :: "u64 \<Rightarrow> EFI_GUID \<Rightarrow> 'w dispatcher \<Rightarrow> efi_status \<times> 'w dispatcher" where
  "CoreTrust FirmwareVolumeHandle DriverName s =
     (case find_driver (\<lambda>e. FvHandle e = FirmwareVolumeHandle \<and> Untrusted e \<and> DriverName = FileName e) s of
        Some i \<Rightarrow> (EFI_SUCCESS,
          (set_entry i (\<lambda>e. e\<lparr>Untrusted := False, Scheduled := True\<rparr>) s)
            \<lparr>mScheduledQueue := mScheduledQueue s @ [i]\<rparr>)
      | None \<Rightarrow> (EFI_NOT_FOUND, s))"

section \<open>CoreInsertOnScheduledQueueWhileProcessingBeforeAndAfter\<close>

text \<open>
  The recursive function and its two loops over the list as the jobs of one
  \<open>partial_function\<close>: \<open>Insert d\<close> is the whole function for driver \<open>d\<close>, \<open>Scan b d i\<close> is the
  rest, from list position \<open>i\<close>, of its Before loop (\<open>b\<close> true) or its After loop.  The
  recursion need not end: see the property on it.
\<close>

datatype sched_job = Insert nat | Scan bool nat nat

definition waits_for :: "bool \<Rightarrow> 'w dispatcher \<Rightarrow> nat \<Rightarrow> nat \<Rightarrow> bool" where
  "waits_for before s i d \<longleftrightarrow>
     (if before then Before (entry_of s i) else After (entry_of s i)) \<and> Dependent (entry_of s i) \<and>
     i \<noteq> d \<and> FileName (entry_of s d) = BeforeAfterGuid (entry_of s i)"

definition mark_scheduled :: "nat \<Rightarrow> 'w dispatcher \<Rightarrow> 'w dispatcher" where
  "mark_scheduled d s =
     (set_entry d (\<lambda>e. e\<lparr>Dependent := False, Scheduled := True\<rparr>) s)
       \<lparr>mScheduledQueue := mScheduledQueue s @ [d]\<rparr>"

partial_function (option) insert_scheduled :: "sched_job \<Rightarrow> 'w dispatcher \<Rightarrow> 'w dispatcher option" where
  "insert_scheduled job s =
     (case job of
        Insert d \<Rightarrow>
          Option.bind (insert_scheduled (Scan True d 0) s)
            (\<lambda>s1. insert_scheduled (Scan False d 0) (mark_scheduled d s1))
      | Scan before d i \<Rightarrow>
          if i < length (mDiscoveredList s)
          then Option.bind (if waits_for before s i d then insert_scheduled (Insert i) s else Some s)
                 (\<lambda>s1. insert_scheduled (Scan before d (Suc i)) s1)
          else Some s)"

section \<open>CoreDispatcher\<close>

definition dequeue :: "nat \<Rightarrow> 'w dispatcher \<Rightarrow> 'w dispatcher" where
  "dequeue i s = s\<lparr>mScheduledQueue := remove1 i (mScheduledQueue s)\<rparr>"

text \<open>One pass of the loop that drains the queue, for the driver at its head.\<close>

definition dispatch_head ::
  "'w services \<Rightarrow> nat \<Rightarrow> 'w dispatcher \<Rightarrow> efi_status \<Rightarrow> ('w dispatcher \<times> efi_status) run" where
  "dispatch_head svc i s ReturnStatus =
     (let e = entry_of s i;
          load = (ImageHandle e = 0 \<and> \<not> IsFvImage e);
          (Status, handle, w) = (if load then load_image svc (world s) e
                                 else (EFI_SUCCESS, ImageHandle e, world s));
          s1 = (if load then (set_entry i (\<lambda>e. e\<lparr>ImageHandle := handle\<rparr>) s)\<lparr>world := w\<rparr> else s) in
      if load \<and> EFI_ERROR Status then
        ret (dequeue i (set_entry i (\<lambda>e.
               (if Status = EFI_SECURITY_VIOLATION then e\<lparr>Untrusted := True\<rparr> else e\<lparr>Initialized := True\<rparr>)
                 \<lparr>Scheduled := False\<rparr>) s1), ReturnStatus)
      else
        let s2 = dequeue i (set_entry i (\<lambda>e. e\<lparr>Scheduled := False, Initialized := True\<rparr>) s1) in
        if IsFvImage e then ret (process_fv_image svc i s2, EFI_SUCCESS)
        else if asserts (depex_env_of svc (world s2)) \<and> ImageHandle (entry_of s2 i) = 0
        then Some (Inl AssertFailed)
        else ret (start_image svc i s2, EFI_SUCCESS))"

partial_function (option) drain_scheduled ::
  "'w services \<Rightarrow> 'w dispatcher \<Rightarrow> efi_status \<Rightarrow> ('w dispatcher \<times> efi_status) run" where
  "drain_scheduled svc s ReturnStatus =
     (case mScheduledQueue s of
        [] \<Rightarrow> ret (s, ReturnStatus)
      | i # _ \<Rightarrow> bind_run (dispatch_head svc i s ReturnStatus)
                  (\<lambda>r. drain_scheduled svc (fst r) (snd r)))"

text \<open>The search for schedulable drivers, at the list positions given.\<close>

definition search_entry :: "'w services \<Rightarrow> nat \<Rightarrow> 'w dispatcher \<Rightarrow> bool \<Rightarrow> ('w dispatcher \<times> bool) run" where
  "search_entry svc i s ReadyToRun =
     (let s1 = (if DepexProtocolError (entry_of s i)
                then set_entry i (\<lambda>e. CoreGetDepexSectionAndPreProccess (read_section svc (world s) e) e) s
                else s) in
      if Dependent (entry_of s1 i) then
        bind_run (CoreIsSchedulable (depex_env_of svc (world s1)) (DepexStack s1) (entry_of s1 i))
          (\<lambda>(b, e', st'). let s2 = (set_entry i (\<lambda>_. e') s1)\<lparr>DepexStack := st'\<rparr> in
             if b then (case insert_scheduled (Insert i) s2 of None \<Rightarrow> None | Some s3 \<Rightarrow> ret (s3, True))
             else ret (s2, ReadyToRun))
      else ret (s1, ReadyToRun))"

fun search_round :: "'w services \<Rightarrow> nat list \<Rightarrow> 'w dispatcher \<Rightarrow> bool \<Rightarrow> ('w dispatcher \<times> bool) run" where
  "search_round svc [] s ReadyToRun = ret (s, ReadyToRun)"
| "search_round svc (i # is) s ReadyToRun =
     bind_run (search_entry svc i s ReadyToRun) (\<lambda>(s', r'). search_round svc is s' r')"

partial_function (option) dispatch_rounds ::
  "'w services \<Rightarrow> 'w dispatcher \<Rightarrow> efi_status \<Rightarrow> ('w dispatcher \<times> efi_status) run" where
  "dispatch_rounds svc s ReturnStatus =
     bind_run (drain_scheduled svc s ReturnStatus) (\<lambda>r1.
       let s1 = (if \<not> EFI_ERROR (snd r1) then signal_dispatch_event svc (fst r1) else fst r1) in
       bind_run (search_round svc [0 ..< length (mDiscoveredList s1)] s1 False) (\<lambda>r2.
         if snd r2 then dispatch_rounds svc (fst r2) (snd r1) else ret (fst r2, snd r1)))"

definition CoreDispatcher :: "'w services \<Rightarrow> 'w dispatcher \<Rightarrow> (efi_status \<times> 'w dispatcher) run" where
  "CoreDispatcher svc s =
     (if gDispatcherRunning s then ret (EFI_ALREADY_STARTED, s)
      else let s1 = s\<lparr>gDispatcherRunning := True\<rparr>; Status = create_dispatch_event svc (world s1) in
        if EFI_ERROR Status then ret (Status, s1)
        else bind_run (dispatch_rounds svc s1 EFI_NOT_FOUND) (\<lambda>r.
          ret (snd r, (close_dispatch_event svc (fst r))\<lparr>gDispatcherRunning := False\<rparr>)))"

section \<open>Marking drivers scheduled\<close>

abbreviation ndrivers :: "'w dispatcher \<Rightarrow> nat" where
  "ndrivers s \<equiv> length (mDiscoveredList s)"

definition schedule_all :: "nat list \<Rightarrow> 'w dispatcher \<Rightarrow> 'w dispatcher" where
  "schedule_all xs s = fold mark_scheduled xs s"

lemma set_entry_simps [simp]:
  "ndrivers (set_entry i f s) = ndrivers s"
  "mScheduledQueue (set_entry i f s) = mScheduledQueue s"
  "gDispatcherRunning (set_entry i f s) = gDispatcherRunning s"
  "DepexStack (set_entry i f s) = DepexStack s"
  "world (set_entry i f s) = world s"
  by (simp_all add: set_entry_def)

lemma entry_of_upd [simp]:
  "entry_of (s\<lparr>mScheduledQueue := q\<rparr>) i = entry_of s i"
  "entry_of (s\<lparr>gDispatcherRunning := b\<rparr>) i = entry_of s i"
  "entry_of (s\<lparr>DepexStack := st\<rparr>) i = entry_of s i"
  "entry_of (s\<lparr>world := w\<rparr>) i = entry_of s i"
  by (simp_all add: entry_of_def)

lemma entry_of_set_entry:
  "entry_of (set_entry i f s) j = (if j = i \<and> i < ndrivers s then f (entry_of s i) else entry_of s j)"
  by (auto simp: entry_of_def set_entry_def nth_list_update list_update_beyond)

lemma mark_scheduled_simps [simp]:
  "ndrivers (mark_scheduled d s) = ndrivers s"
  "mScheduledQueue (mark_scheduled d s) = mScheduledQueue s @ [d]"
  "gDispatcherRunning (mark_scheduled d s) = gDispatcherRunning s"
  "DepexStack (mark_scheduled d s) = DepexStack s"
  "world (mark_scheduled d s) = world s"
  by (simp_all add: mark_scheduled_def)

lemma entry_of_mark_scheduled:
  "entry_of (mark_scheduled d s) i =
    (if i = d \<and> d < ndrivers s then (entry_of s d)\<lparr>Dependent := False, Scheduled := True\<rparr> else entry_of s i)"
  by (simp add: mark_scheduled_def entry_of_set_entry)

lemma schedule_all_Nil [simp]: "schedule_all [] s = s"
  and schedule_all_Cons: "schedule_all (x # xs) s = schedule_all xs (mark_scheduled x s)"
  and schedule_all_append [simp]: "schedule_all (xs @ ys) s = schedule_all ys (schedule_all xs s)"
  by (simp_all add: schedule_all_def)

lemma schedule_all_single: "schedule_all [d] s = mark_scheduled d s"
  by (simp add: schedule_all_Cons)

lemma schedule_all_simps [simp]:
  "ndrivers (schedule_all xs s) = ndrivers s"
  "mScheduledQueue (schedule_all xs s) = mScheduledQueue s @ xs"
  "gDispatcherRunning (schedule_all xs s) = gDispatcherRunning s"
  "DepexStack (schedule_all xs s) = DepexStack s"
  "world (schedule_all xs s) = world s"
  by (induction xs arbitrary: s) (auto simp: schedule_all_Cons)

lemma entry_of_schedule_all:
  "i < ndrivers s \<Longrightarrow> entry_of (schedule_all xs s) i =
    (if i \<in> set xs then (entry_of s i)\<lparr>Dependent := False, Scheduled := True\<rparr> else entry_of s i)"
  by (induction xs arbitrary: s) (auto simp: schedule_all_Cons entry_of_mark_scheduled)

section \<open>The Before/After forest\<close>

text \<open>\<open>link s t y\<close>: driver \<open>y\<close> is to be scheduled with \<open>t\<close>, which it names.\<close>

definition link :: "'w dispatcher \<Rightarrow> nat \<Rightarrow> nat \<Rightarrow> bool" where
  "link s t y \<longleftrightarrow> t < ndrivers s \<and> y < ndrivers s \<and> y \<noteq> t \<and>
     (Before (entry_of s y) \<or> After (entry_of s y)) \<and> BeforeAfterGuid (entry_of s y) = FileName (entry_of s t)"

definition unique_names :: "'w dispatcher \<Rightarrow> bool" where
  "unique_names s \<longleftrightarrow> distinct (map FileName (mDiscoveredList s))"

text \<open>The parts of the entries that scheduling does not change.\<close>

definition static :: "'w dispatcher \<Rightarrow> (EFI_GUID \<times> bool \<times> bool \<times> EFI_GUID) list" where
  "static s = map (\<lambda>e. (FileName e, Before e, After e, BeforeAfterGuid e)) (mDiscoveredList s)"

lemma static_length: "static s = static s0 \<Longrightarrow> ndrivers s = ndrivers s0"
  unfolding static_def by (drule arg_cong [of _ _ length]) simp

lemma static_entry:
  assumes "static s = static s0" "i < ndrivers s0"
  shows "FileName (entry_of s i) = FileName (entry_of s0 i)" "Before (entry_of s i) = Before (entry_of s0 i)"
    "After (entry_of s i) = After (entry_of s0 i)"
    "BeforeAfterGuid (entry_of s i) = BeforeAfterGuid (entry_of s0 i)"
proof -
  have "i < ndrivers s" using static_length [OF assms(1)] assms(2) by simp
  moreover have "static s ! i = static s0 ! i" by (simp only: assms(1))
  ultimately show "FileName (entry_of s i) = FileName (entry_of s0 i)"
    "Before (entry_of s i) = Before (entry_of s0 i)" "After (entry_of s i) = After (entry_of s0 i)"
    "BeforeAfterGuid (entry_of s i) = BeforeAfterGuid (entry_of s0 i)"
    using assms(2) by (auto simp: static_def entry_of_def)
qed

lemma static_schedule_all [simp]: "static (schedule_all xs s) = static s"
proof (rule nth_equalityI)
  show "length (static (schedule_all xs s)) = length (static s)" by (simp add: static_def)
next
  fix i assume "i < length (static (schedule_all xs s))"
  then have "i < ndrivers s" by (simp add: static_def)
  with entry_of_schedule_all [of i s xs] show "static (schedule_all xs s) ! i = static s ! i"
    by (auto simp: static_def entry_of_def)
qed

lemma link_static: "static s = static s0 \<Longrightarrow> link s = link s0"
  using static_entry [of s s0] static_length [of s s0] by (intro ext) (auto simp: link_def)

inductive level :: "'w dispatcher \<Rightarrow> nat \<Rightarrow> nat \<Rightarrow> nat \<Rightarrow> bool" for s r where
  root: "level s r 0 r"
| child: "level s r k t \<Longrightarrow> link s t y \<Longrightarrow> level s r (Suc k) y"

lemma link_target_unique:
  assumes "unique_names s" "link s t y" "link s t' y" shows "t = t'"
  using assms by (auto simp: unique_names_def link_def entry_of_def distinct_conv_nth)

lemma level_unique:
  assumes u: "unique_names s" and r: "\<not> Before (entry_of s r)" "\<not> After (entry_of s r)"
  shows "level s r k y \<Longrightarrow> level s r j y \<Longrightarrow> k = j"
proof (induction k y arbitrary: j rule: level.induct)
  case root
  then show ?case using r by (cases rule: level.cases) (auto simp: link_def)
next
  case (child k t y)
  from child.prems child.hyps(2) r show ?case
  proof (cases rule: level.cases)
    case root
    with child.hyps(2) r show ?thesis by (simp add: link_def)
  next
    case (child j' t')
    with link_target_unique [OF u \<open>link s t y\<close>] child.IH show ?thesis by auto
  qed
qed

lemma level_below: "level s r k y \<Longrightarrow> j \<le> k \<Longrightarrow> \<exists>z. level s r j z"
proof (induction k y rule: level.induct)
  case root then show ?case by (auto intro: level.root)
next
  case (child k t y) then show ?case by (cases "j = Suc k") (auto intro: level.child)
qed

lemma level_range: "level s r k y \<Longrightarrow> r < ndrivers s \<Longrightarrow> y < ndrivers s"
  by (induction rule: level.induct) (auto simp: link_def)

lemma level_bound:
  assumes u: "unique_names s" and r: "\<not> Before (entry_of s r)" "\<not> After (entry_of s r)" "r < ndrivers s"
    and l: "level s r k y"
  shows "k < ndrivers s"
proof -
  have "\<forall>j \<in> {..k}. \<exists>z. level s r j z" using level_below [OF l] by auto
  then obtain f where f: "\<And>j. j \<le> k \<Longrightarrow> level s r j (f j)" by (metis atMost_iff)
  have "inj_on f {..k}"
    using level_unique [OF u r(1,2)] f by (intro inj_onI) (metis atMost_iff)
  moreover have "f ` {..k} \<subseteq> {..< ndrivers s}" using f r(3) by (auto intro: level_range)
  ultimately have "card {..k} \<le> card {..< ndrivers s}" by (intro card_inj_on_le) auto
  then show ?thesis by simp
qed

section \<open>Scheduling a driver\<close>

definition precedes :: "'a list \<Rightarrow> 'a \<Rightarrow> 'a \<Rightarrow> bool" where
  "precedes xs a b \<longleftrightarrow> (\<exists>us vs ws. xs = us @ a # vs @ b # ws)"

lemma precedes_append1: "precedes xs a b \<Longrightarrow> precedes (xs @ ys) a b"
  unfolding precedes_def by (metis append.assoc append_Cons)

lemma precedes_append2: "precedes ys a b \<Longrightarrow> precedes (xs @ ys) a b"
  unfolding precedes_def by (metis append.assoc)

lemma precedes_split: "a \<in> set xs \<Longrightarrow> b \<in> set ys \<Longrightarrow> precedes (xs @ ys) a b"
  unfolding precedes_def by (metis append.assoc append_Cons split_list)

text \<open>\<open>y\<close> is placed before or after \<open>t\<close>, as it asks.\<close>

definition placed :: "'w dispatcher \<Rightarrow> nat list \<Rightarrow> nat \<Rightarrow> nat \<Rightarrow> bool" where
  "placed s xs t y \<longleftrightarrow> link s t y \<and> t \<in> set xs \<and>
     (if Before (entry_of s y) then precedes xs y t else precedes xs t y)"

lemma placed_append1: "placed s xs t y \<Longrightarrow> placed s (xs @ ys) t y"
  by (auto simp: placed_def precedes_append1)

lemma placed_append2: "placed s ys t y \<Longrightarrow> placed s (xs @ ys) t y"
  by (auto simp: placed_def precedes_append2)

text \<open>What a job schedules: distinct Dependent drivers, and with each one all Dependent drivers that name it.\<close>

definition schedulable_set :: "'w dispatcher \<Rightarrow> 'w dispatcher \<Rightarrow> nat list \<Rightarrow> bool" where
  "schedulable_set s0 s xs \<longleftrightarrow> distinct xs \<and>
     (\<forall>z \<in> set xs. z < ndrivers s0 \<and> Dependent (entry_of s z)) \<and>
     (\<forall>t \<in> set xs. \<forall>z. link s0 t z \<longrightarrow> Dependent (entry_of s z) \<longrightarrow> z \<in> set xs)"

definition insert_post :: "'w dispatcher \<Rightarrow> nat \<Rightarrow> nat \<Rightarrow> nat \<Rightarrow> 'w dispatcher \<Rightarrow> nat list \<Rightarrow> bool" where
  "insert_post s0 r k y s xs \<longleftrightarrow> schedulable_set s0 s xs \<and> y \<in> set xs \<and>
     (\<forall>z \<in> set xs. z = y \<or> (\<exists>j > k. level s0 r j z)) \<and>
     (\<forall>z \<in> set xs. z = y \<or> (\<exists>t. placed s0 xs t z))"

definition scan_post :: "'w dispatcher \<Rightarrow> nat \<Rightarrow> nat \<Rightarrow> bool \<Rightarrow> nat \<Rightarrow> nat \<Rightarrow> 'w dispatcher \<Rightarrow> nat list \<Rightarrow> bool" where
  "scan_post s0 r k b y i s xs \<longleftrightarrow> schedulable_set s0 s xs \<and>
     (\<forall>z \<in> set xs. \<exists>j > k. level s0 r j z) \<and>
     (\<forall>z \<in> set xs. (link s0 y z \<and> (if b then Before (entry_of s0 z) else After (entry_of s0 z)))
                   \<or> (\<exists>t. placed s0 xs t z)) \<and>
     (\<forall>z. i \<le> z \<longrightarrow> z < ndrivers s0 \<longrightarrow> waits_for b s z y \<longrightarrow> z \<in> set xs)"

lemma dependent_schedule_all:
  "z < ndrivers s \<Longrightarrow> Dependent (entry_of (schedule_all xs s) z) \<longleftrightarrow> z \<notin> set xs \<and> Dependent (entry_of s z)"
  by (simp add: entry_of_schedule_all)

lemma schedulable_set_append:
  assumes "schedulable_set s0 s xs" "schedulable_set s0 (schedule_all xs s) ys" "ndrivers s = ndrivers s0"
  shows "schedulable_set s0 s (xs @ ys)"
proof -
  have lt: "\<And>t z. link s0 t z \<Longrightarrow> z < ndrivers s" using assms(3) by (simp add: link_def)
  have "z < ndrivers s0 \<and> Dependent (entry_of s z) \<and> z \<notin> set xs" if "z \<in> set ys" for z
    using assms that dependent_schedule_all [of z s xs] by (auto simp: schedulable_set_def)
  moreover have "z \<in> set (xs @ ys)" if "t \<in> set (xs @ ys)" "link s0 t z" "Dependent (entry_of s z)" for t z
    using assms(1,2) that dependent_schedule_all [OF lt [OF that(2)], of xs] by (auto simp: schedulable_set_def)
  ultimately show ?thesis
    using assms(1,2) unfolding schedulable_set_def by auto
qed

lemma waits_for_static:
  assumes "static s = static s0" "i < ndrivers s0" "d < ndrivers s0"
  shows "waits_for b s i d \<longleftrightarrow> link s0 d i \<and> (if b then Before (entry_of s0 i) else After (entry_of s0 i)) \<and>
    Dependent (entry_of s i)"
  using static_entry [OF assms(1,2)] static_entry [OF assms(1,3)] assms(2,3) by (auto simp: waits_for_def link_def)


lemma insert_scheduled_Insert:
  "insert_scheduled (Insert d) s =
    Option.bind (insert_scheduled (Scan True d 0) s)
      (\<lambda>s1. insert_scheduled (Scan False d 0) (mark_scheduled d s1))"
  by (subst insert_scheduled.simps) simp

lemma insert_scheduled_Scan:
  "insert_scheduled (Scan b d i) s =
    (if i < ndrivers s
     then Option.bind (if waits_for b s i d then insert_scheduled (Insert i) s else Some s)
            (\<lambda>s1. insert_scheduled (Scan b d (Suc i)) s1)
     else Some s)"
  by (subst insert_scheduled.simps) simp

lemma scan_total:
  assumes y: "level s0 r k y" "y < ndrivers s0"
    and rec: "\<And>z s. link s0 y z \<Longrightarrow> static s = static s0 \<Longrightarrow> Dependent (entry_of s z) \<Longrightarrow>
      \<exists>xs. insert_scheduled (Insert z) s = Some (schedule_all xs s) \<and> insert_post s0 r (Suc k) z s xs"
  shows "static s = static s0 \<Longrightarrow>
    \<exists>xs. insert_scheduled (Scan b y i) s = Some (schedule_all xs s) \<and> scan_post s0 r k b y i s xs"
proof (induction "ndrivers s0 - i" arbitrary: i s rule: less_induct)
  case less
  have n: "ndrivers s = ndrivers s0" using static_length [OF less.prems] .
  have m: "ndrivers s0 - Suc i < ndrivers s0 - i" if "i < ndrivers s0" using that by simp
  show ?case
  proof (cases "i < ndrivers s0")
    case False
    with n show ?thesis
      by (intro exI [of _ "[]"]) (auto simp: insert_scheduled_Scan scan_post_def schedulable_set_def)
  next
    case i: True
    show ?thesis
    proof (cases "waits_for b s i y")
      case False
      obtain xs where xs: "insert_scheduled (Scan b y (Suc i)) s = Some (schedule_all xs s)"
        "scan_post s0 r k b y (Suc i) s xs"
        using less.hyps [OF m [OF i] less.prems] by blast
      have "scan_post s0 r k b y i s xs"
        using xs(2) False unfolding scan_post_def by (metis Suc_leI le_neq_implies_less)
      with xs(1) i n False show ?thesis by (intro exI [of _ xs]) (simp add: insert_scheduled_Scan)
    next
      case True
      then have l: "link s0 y i" "if b then Before (entry_of s0 i) else After (entry_of s0 i)"
        "Dependent (entry_of s i)"
        using waits_for_static [OF less.prems i y(2)] by auto
      obtain xs where xs: "insert_scheduled (Insert i) s = Some (schedule_all xs s)"
        "insert_post s0 r (Suc k) i s xs"
        using rec [OF l(1) less.prems l(3)] by blast
      let ?s1 = "schedule_all xs s"
      obtain ys where ys: "insert_scheduled (Scan b y (Suc i)) ?s1 = Some (schedule_all ys ?s1)"
        "scan_post s0 r k b y (Suc i) ?s1 ys"
        using less.hyps [OF m [OF i], of ?s1] less.prems by auto
      have "scan_post s0 r k b y i s (xs @ ys)"
        unfolding scan_post_def
      proof (intro conjI)
        show "schedulable_set s0 s (xs @ ys)"
          using xs(2) ys(2) n by (intro schedulable_set_append) (auto simp: insert_post_def scan_post_def)
        show "\<forall>z \<in> set (xs @ ys). \<exists>j > k. level s0 r j z"
        proof -
          have "\<forall>z \<in> set ys. \<exists>j > k. level s0 r j z" using ys(2) by (simp add: scan_post_def)
          moreover have "\<forall>z \<in> set xs. z = i \<or> (\<exists>j > Suc k. level s0 r j z)"
            using xs(2) by (simp add: insert_post_def)
          then have "\<forall>z \<in> set xs. \<exists>j > k. level s0 r j z"
            using level.child [OF y(1) l(1)] by (metis Suc_lessD lessI)
          ultimately show ?thesis by auto
        qed
        show "\<forall>z \<in> set (xs @ ys). (link s0 y z \<and> (if b then Before (entry_of s0 z) else After (entry_of s0 z)))
            \<or> (\<exists>t. placed s0 (xs @ ys) t z)"
          using xs(2) ys(2) l(1,2) unfolding insert_post_def scan_post_def set_append
          by (metis Un_iff placed_append1 placed_append2)
        show "\<forall>z. i \<le> z \<longrightarrow> z < ndrivers s0 \<longrightarrow> waits_for b s z y \<longrightarrow> z \<in> set (xs @ ys)"
        proof (intro allI impI)
          fix z assume z: "i \<le> z" "z < ndrivers s0" "waits_for b s z y"
          show "z \<in> set (xs @ ys)"
          proof (cases "z \<in> set xs")
            case False
            then have "z \<noteq> i" using xs(2) by (auto simp: insert_post_def)
            moreover have "waits_for b ?s1 z y"
              using z False n less.prems y(2) dependent_schedule_all [of z s xs]
              by (simp add: waits_for_static [of _ s0])
            ultimately show ?thesis using ys(2) z by (auto simp: scan_post_def)
          qed simp
        qed
      qed
      with xs(1) ys(1) i n True show ?thesis
        by (intro exI [of _ "xs @ ys"]) (simp add: insert_scheduled_Scan)
    qed
  qed
qed

text \<open>The Before loop, the driver itself, the After loop put together.\<close>

lemma insert_post_combine:
  assumes st: "static s = static s0" and y: "y < ndrivers s0" "Dependent (entry_of s y)"
    and lev: "\<And>j z. k < j \<Longrightarrow> level s0 r j z \<Longrightarrow> z \<noteq> y"
    and bs: "scan_post s0 r k True y 0 s bs"
    and as: "scan_post s0 r k False y 0 (schedule_all (bs @ [y]) s) as"
  shows "insert_post s0 r k y s ((bs @ [y]) @ as)"
proof -
  let ?s2 = "schedule_all (bs @ [y]) s" and ?xs = "(bs @ [y]) @ as"
  have n: "ndrivers s = ndrivers s0" and st2: "static ?s2 = static s0"
    using static_length [OF st] st by simp_all
  have "\<forall>z \<in> set bs. \<exists>j > k. level s0 r j z" using bs by (simp add: scan_post_def)
  then have ybs: "y \<notin> set bs" using lev by blast
  have dep2: "Dependent (entry_of ?s2 z) \<longleftrightarrow> z \<notin> set (bs @ [y]) \<and> Dependent (entry_of s z)" if "z < ndrivers s0" for z
    using dependent_schedule_all [of z s "bs @ [y]"] that n by simp
  have wait: "waits_for True s z y \<Longrightarrow> z < ndrivers s0 \<Longrightarrow> z \<in> set bs" for z
    using bs by (auto simp: scan_post_def)
  have setbs: "schedulable_set s0 s bs" and setas: "schedulable_set s0 ?s2 as"
    using bs as by (simp_all add: scan_post_def)
  have newas: "z < ndrivers s0 \<and> z \<notin> set bs \<and> z \<noteq> y \<and> Dependent (entry_of s z)" if "z \<in> set as" for z
    using setas that dep2 [of z] by (auto simp: schedulable_set_def)
  have linked: "z \<in> set ?xs" if l: "link s0 y z" "Dependent (entry_of s z)" for z
  proof (cases "z \<in> set bs")
    case False
    have z: "z < ndrivers s0" "z \<noteq> y" using l(1) by (auto simp: link_def)
    have "\<not> waits_for True s z y" using wait z False by auto
    then have "After (entry_of s0 z)"
      using l waits_for_static [OF st z(1) y(1)] by (auto simp: link_def)
    then have "waits_for False ?s2 z y"
      using l z False dep2 [OF z(1)] waits_for_static [OF st2 z(1) y(1)] by simp
    then show ?thesis using as z by (auto simp: scan_post_def)
  qed simp
  have set: "schedulable_set s0 s ?xs"
    unfolding schedulable_set_def
  proof (intro conjI ballI allI impI)
    show "distinct ?xs" using setbs setas ybs newas by (auto simp: schedulable_set_def)
    show "z < ndrivers s0" "Dependent (entry_of s z)" if "z \<in> set ?xs" for z
      using that setbs newas y by (auto simp: schedulable_set_def)
    show "z \<in> set ?xs" if "t \<in> set ?xs" "link s0 t z" "Dependent (entry_of s z)" for t z
    proof -
      have "z < ndrivers s0" using that(2) by (simp add: link_def)
      with that setbs setas dep2 [of z] linked [of z] show ?thesis
        unfolding schedulable_set_def by auto
    qed
  qed
  have placed_bs: "\<exists>t. placed s0 ?xs t z" if "z \<in> set bs" for z
  proof -
    have "link s0 y z \<and> Before (entry_of s0 z) \<or> (\<exists>t. placed s0 bs t z)"
      using bs that by (simp add: scan_post_def)
    moreover have "precedes ?xs z y" by (rule precedes_append1, rule precedes_split) (use that in auto)
    ultimately show ?thesis by (auto simp: placed_def precedes_append1)
  qed
  have placed_as: "\<exists>t. placed s0 ?xs t z" if "z \<in> set as" for z
  proof -
    have nb: "\<not> Before (entry_of s0 z)" if "link s0 y z"
      using wait [of z] newas [OF \<open>z \<in> set as\<close>] waits_for_static [OF st _ y(1), of z True] that by auto
    have "link s0 y z \<and> After (entry_of s0 z) \<or> (\<exists>t. placed s0 as t z)"
      using as that by (simp add: scan_post_def)
    moreover have "precedes ?xs y z" using precedes_split [of y "bs @ [y]" z as] that by simp
    ultimately show ?thesis using nb placed_append2 [of s0 as _ z "bs @ [y]"] by (auto simp: placed_def)
  qed
  show ?thesis
    using set placed_bs placed_as bs as by (auto simp: insert_post_def scan_post_def)
qed

lemma insert_total:
  assumes u: "unique_names s0" and r: "\<not> Before (entry_of s0 r)" "\<not> After (entry_of s0 r)" "r < ndrivers s0"
  shows "level s0 r k y \<Longrightarrow> static s = static s0 \<Longrightarrow> Dependent (entry_of s y) \<Longrightarrow>
    \<exists>xs. insert_scheduled (Insert y) s = Some (schedule_all xs s) \<and> insert_post s0 r k y s xs"
proof (induction "ndrivers s0 - k" arbitrary: k y s rule: less_induct)
  case less
  have k: "k < ndrivers s0" by (rule level_bound [OF u r less.prems(1)])
  have y: "y < ndrivers s0" using level_range [OF less.prems(1) r(3)] .
  have rec: "\<exists>xs. insert_scheduled (Insert z) s = Some (schedule_all xs s) \<and> insert_post s0 r (Suc k) z s xs"
    if "link s0 y z" "static s = static s0" "Dependent (entry_of s z)" for z s
    using less.hyps [OF _ level.child [OF less.prems(1) that(1)] that(2,3)] k by simp
  note scan = scan_total [OF less.prems(1) y rec]
  obtain bs where bs: "insert_scheduled (Scan True y 0) s = Some (schedule_all bs s)"
    "scan_post s0 r k True y 0 s bs"
    using scan [OF _ _ _ less.prems(2), of True 0] by blast
  let ?s2 = "schedule_all (bs @ [y]) s"
  have st2: "static ?s2 = static s0" using less.prems(2) by simp
  obtain as where as: "insert_scheduled (Scan False y 0) ?s2 = Some (schedule_all as ?s2)"
    "scan_post s0 r k False y 0 ?s2 as"
    using scan [OF _ _ _ st2, of False 0] by blast
  have "insert_post s0 r k y s ((bs @ [y]) @ as)"
    using level_unique [OF u r(1,2) less.prems(1)]
    by (intro insert_post_combine less.prems(2,3) y bs(2) as(2)) auto
  with bs(1) as(1) show ?case
    by (intro exI [of _ "(bs @ [y]) @ as"]) (simp add: insert_scheduled_Insert schedule_all_Cons)
qed

lemma insert_plain:
  assumes "unique_names s" "d < ndrivers s" "\<not> Before (entry_of s d)" "\<not> After (entry_of s d)" "Dependent (entry_of s d)"
  shows "\<exists>xs. insert_scheduled (Insert d) s = Some (schedule_all xs s) \<and> insert_post s d 0 d s xs"
  using insert_total [OF assms(1,3,4,2) level.root refl assms(5)] .

section \<open>The states of a driver\<close>

text \<open>
  A driver is in at most one of its states, and one whose DEPEX could not be read yet is in
  none; the scheduled queue holds exactly the Scheduled drivers, each once.
\<close>

definition one_state :: "EFI_CORE_DRIVER_ENTRY \<Rightarrow> bool" where
  "one_state e \<longleftrightarrow> length (filter id [Dependent e, Unrequested e, Scheduled e, Untrusted e,
     Initialized e, DepexProtocolError e]) \<le> 1"

definition dispatcher_inv :: "'w dispatcher \<Rightarrow> bool" where
  "dispatcher_inv s \<longleftrightarrow> (\<forall>i < ndrivers s. one_state (entry_of s i)) \<and> distinct (mScheduledQueue s) \<and>
     (\<forall>i. i \<in> set (mScheduledQueue s) \<longleftrightarrow> i < ndrivers s \<and> Scheduled (entry_of s i))"

lemma dispatcher_inv_upd [simp]:
  "dispatcher_inv (s\<lparr>gDispatcherRunning := b\<rparr>) = dispatcher_inv s"
  "dispatcher_inv (s\<lparr>DepexStack := st\<rparr>) = dispatcher_inv s"
  "dispatcher_inv (s\<lparr>world := w\<rparr>) = dispatcher_inv s"
  by (simp_all add: dispatcher_inv_def)

lemma dispatcher_inv_set_entry:
  assumes "dispatcher_inv s" "one_state (f (entry_of s i))" "Scheduled (f (entry_of s i)) = Scheduled (entry_of s i)"
  shows "dispatcher_inv (set_entry i f s)"
  using assms by (auto simp: dispatcher_inv_def entry_of_set_entry)

lemma one_state_upd [simp]:
  "one_state (e\<lparr>ImageHandle := h\<rparr>) = one_state e"
  "one_state (e\<lparr>Depex := d\<rparr>) = one_state e"
  "one_state (e\<lparr>DepexSize := n\<rparr>) = one_state e"
  by (simp_all add: one_state_def)

lemma one_state_move:
  "one_state e \<Longrightarrow> Unrequested e \<Longrightarrow> one_state (e\<lparr>Unrequested := False, Dependent := True\<rparr>)"
  "one_state e \<Longrightarrow> Untrusted e \<Longrightarrow> one_state (e\<lparr>Untrusted := False, Scheduled := True\<rparr>)"
  "one_state e \<Longrightarrow> Dependent e \<Longrightarrow> one_state (e\<lparr>Dependent := False, Scheduled := True\<rparr>)"
  "one_state e \<Longrightarrow> Scheduled e \<Longrightarrow> one_state (e\<lparr>Scheduled := False, Initialized := True\<rparr>)"
  "one_state e \<Longrightarrow> Scheduled e \<Longrightarrow> one_state (e\<lparr>Initialized := True, Scheduled := False\<rparr>)"
  "one_state e \<Longrightarrow> Scheduled e \<Longrightarrow> one_state (e\<lparr>Untrusted := True, Scheduled := False\<rparr>)"
  by (auto simp: one_state_def split: if_splits)

lemma depex_read_states:
  assumes "one_state e" "\<not> (Dependent e \<or> Unrequested e \<or> Scheduled e \<or> Untrusted e \<or> Initialized e)"
  shows "one_state (CoreGetDepexSectionAndPreProccess r e)"
    "Scheduled (CoreGetDepexSectionAndPreProccess r e) = Scheduled e"
  using assms by (auto simp: CoreGetDepexSectionAndPreProccess_def CorePreProcessDepex_def one_state_def Let_def
      split: section_read.splits if_splits)

lemma protocol_error_alone:
  "one_state e \<Longrightarrow> DepexProtocolError e \<Longrightarrow>
    \<not> (Dependent e \<or> Unrequested e \<or> Scheduled e \<or> Untrusted e \<or> Initialized e)"
  by (auto simp: one_state_def split: if_splits)

lemma find_driver_Some: "find_driver p s = Some i \<Longrightarrow> i < ndrivers s \<and> p (entry_of s i)"
  by (auto simp: find_driver_def find_Some_iff)

lemma CoreAddToDriverList_entry:
  assumes "CoreAddToDriverList svc fv n t s = ret (st, s')"
  obtains e where "one_state e" "\<not> Scheduled e" "s' = s\<lparr>mDiscoveredList := mDiscoveredList s @ [e]\<rparr>"
proof -
  define e where "e = \<lparr>FvHandle = fv, FileName = n, Depex = None, DepexSize = 0, Before = False,
                  After = False, BeforeAfterGuid = replicate 16 0, Dependent = False,
                  Unrequested = False, Scheduled = False, Untrusted = False, Initialized = False,
                  DepexProtocolError = False, ImageHandle = 0, IsFvImage = t\<rparr>"
  have e: "one_state e" "\<not> (Dependent e \<or> Unrequested e \<or> Scheduled e \<or> Untrusted e \<or> Initialized e)"
    by (simp_all add: e_def one_state_def)
  have "s' = s\<lparr>mDiscoveredList := mDiscoveredList s @
      [CoreGetDepexSectionAndPreProccess (read_section svc (world s) e) e]\<rparr>"
    using assms by (auto simp: CoreAddToDriverList_def Let_def e_def split: if_splits)
  with that [OF depex_read_states(1) [OF e]] depex_read_states(2) [OF e] e(2) show thesis by simp
qed

lemma CoreAddToDriverList_inv:
  assumes "dispatcher_inv s" "CoreAddToDriverList svc fv n t s = ret (st, s')"
  shows "dispatcher_inv s'"
proof -
  from assms(2) obtain e where e: "one_state e" "\<not> Scheduled e"
    "s' = s\<lparr>mDiscoveredList := mDiscoveredList s @ [e]\<rparr>"
    by (rule CoreAddToDriverList_entry)
  with assms(1) show ?thesis
    by (auto simp: dispatcher_inv_def entry_of_def nth_append less_Suc_eq)
qed

lemma CoreSchedule_inv:
  assumes "dispatcher_inv s" shows "dispatcher_inv (snd (CoreSchedule fv n s))"
proof (cases "find_driver (\<lambda>e. FvHandle e = fv \<and> Unrequested e \<and> n = FileName e) s")
  case (Some i)
  with assms find_driver_Some [OF Some] show ?thesis
    by (auto simp: CoreSchedule_def dispatcher_inv_def entry_of_set_entry one_state_move)
qed (use assms in \<open>simp add: CoreSchedule_def\<close>)

lemma CoreTrust_inv:
  assumes "dispatcher_inv s" shows "dispatcher_inv (snd (CoreTrust fv n s))"
proof (cases "find_driver (\<lambda>e. FvHandle e = fv \<and> Untrusted e \<and> n = FileName e) s")
  case (Some i)
  from find_driver_Some [OF Some] assms have "\<not> Scheduled (entry_of s i)"
    by (auto simp: dispatcher_inv_def one_state_def split: if_splits)
  with Some assms find_driver_Some [OF Some] show ?thesis
    by (auto simp: CoreTrust_def dispatcher_inv_def entry_of_set_entry one_state_move)
qed (use assms in \<open>simp add: CoreTrust_def\<close>)

lemma schedule_all_inv:
  assumes "dispatcher_inv s" "distinct xs" "\<And>x. x \<in> set xs \<Longrightarrow> x < ndrivers s \<and> Dependent (entry_of s x)"
  shows "dispatcher_inv (schedule_all xs s)"
proof -
  have ns: "\<not> Scheduled (entry_of s x)" if "x \<in> set xs" for x
    using assms(1) assms(3) [OF that] by (auto simp: dispatcher_inv_def one_state_def split: if_splits)
  show ?thesis
    unfolding dispatcher_inv_def
  proof (intro conjI allI impI)
    fix i assume "i < ndrivers (schedule_all xs s)"
    with assms(1,3) show "one_state (entry_of (schedule_all xs s) i)"
      by (auto simp: entry_of_schedule_all dispatcher_inv_def one_state_move)
  next
    show "distinct (mScheduledQueue (schedule_all xs s))"
      using assms(1,2) ns by (auto simp: dispatcher_inv_def)
  next
    fix i show "i \<in> set (mScheduledQueue (schedule_all xs s)) \<longleftrightarrow>
        i < ndrivers (schedule_all xs s) \<and> Scheduled (entry_of (schedule_all xs s) i)"
      using assms(1,3) entry_of_schedule_all [of i s xs] by (auto simp: dispatcher_inv_def)
  qed
qed

text \<open>A pass over the head of the queue, with services that keep the invariant.\<close>

definition services_inv :: "('w dispatcher \<Rightarrow> bool) \<Rightarrow> 'w services \<Rightarrow> bool" where
  "services_inv P svc \<longleftrightarrow> (\<forall>s i. P s \<longrightarrow>
     P (start_image svc i s) \<and> P (process_fv_image svc i s) \<and>
     P (signal_dispatch_event svc s) \<and> P (close_dispatch_event svc s))"

lemma dispatch_head_cases:
  assumes "dispatch_head svc i s rs = ret (s', rs')"
  obtains s1 f where "s' = dequeue i (set_entry i f s1)" "rs' = rs"
      "f = (\<lambda>e. e\<lparr>Untrusted := True, Scheduled := False\<rparr>) \<or> f = (\<lambda>e. e\<lparr>Initialized := True, Scheduled := False\<rparr>)"
      "\<exists>h w. s1 = (set_entry i (\<lambda>e. e\<lparr>ImageHandle := h\<rparr>) s)\<lparr>world := w\<rparr>"
  | s1 where "s' = start_image svc i (dequeue i (set_entry i (\<lambda>e. e\<lparr>Scheduled := False, Initialized := True\<rparr>) s1))
        \<or> s' = process_fv_image svc i (dequeue i (set_entry i (\<lambda>e. e\<lparr>Scheduled := False, Initialized := True\<rparr>) s1))"
      "rs' = EFI_SUCCESS" "s1 = s \<or> (\<exists>h w. s1 = (set_entry i (\<lambda>e. e\<lparr>ImageHandle := h\<rparr>) s)\<lparr>world := w\<rparr>)"
proof -
  obtain st h w where l: "load_image svc (world s) (entry_of s i) = (st, h, w)" by (metis prod_cases3)
  let ?s1 = "(set_entry i (\<lambda>e. e\<lparr>ImageHandle := h\<rparr>) s)\<lparr>world := w\<rparr>"
  show thesis
  proof (cases "ImageHandle (entry_of s i) = 0 \<and> \<not> IsFvImage (entry_of s i)")
    case load: True
    show thesis
    proof (cases "EFI_ERROR st")
      case True
      with load l assms have "s' = dequeue i (set_entry i (\<lambda>e.
               (if st = EFI_SECURITY_VIOLATION then e\<lparr>Untrusted := True\<rparr> else e\<lparr>Initialized := True\<rparr>)
                 \<lparr>Scheduled := False\<rparr>) ?s1)" "rs' = rs"
        by (auto simp: dispatch_head_def Let_def)
      then show thesis
        by (cases "st = EFI_SECURITY_VIOLATION") (auto intro!: that(1) [of "\<lambda>e. _ e" ?s1])
    next
      case False
      with load l assms that(2) [of ?s1] show thesis
        by (auto simp: dispatch_head_def Let_def split: if_splits)
    qed
  next
    case False
    with assms that(2) [of s] show thesis
      by (auto simp: dispatch_head_def Let_def split: if_splits)
  qed
qed

lemma dequeue_inv:
  assumes inv: "dispatcher_inv s" and i: "i \<in> set (mScheduledQueue s)"
    and f: "\<And>e. Scheduled e \<Longrightarrow> one_state e \<Longrightarrow> one_state (f e) \<and> \<not> Scheduled (f e)"
  shows "dispatcher_inv (dequeue i (set_entry i f s))"
proof -
  have "one_state (entry_of s i)" "Scheduled (entry_of s i)" "i < ndrivers s"
    using inv i by (auto simp: dispatcher_inv_def)
  with f [of "entry_of s i"] inv show ?thesis
    by (auto simp: dispatcher_inv_def dequeue_def entry_of_set_entry)
qed

lemma dispatch_head_inv:
  assumes "dispatcher_inv s" "i \<in> set (mScheduledQueue s)" "services_inv dispatcher_inv svc"
    "dispatch_head svc i s rs = ret (s', rs')"
  shows "dispatcher_inv s'"
proof -
  have load: "dispatcher_inv ((set_entry i (\<lambda>e. e\<lparr>ImageHandle := h\<rparr>) s)\<lparr>world := w\<rparr>)" for h w
    unfolding dispatcher_inv_upd
    by (rule dispatcher_inv_set_entry) (use assms(1,2) in \<open>auto simp: dispatcher_inv_def\<close>)
  from assms(4) show ?thesis
  proof (cases rule: dispatch_head_cases)
    case (1 s1 f)
    with load assms(2) have "dispatcher_inv s1" "i \<in> set (mScheduledQueue s1)" by auto
    with 1 show ?thesis by (auto intro!: dequeue_inv one_state_move)
  next
    case (2 s1)
    with load assms(1,2) have "dispatcher_inv s1" "i \<in> set (mScheduledQueue s1)" by auto
    then have "dispatcher_inv (dequeue i (set_entry i (\<lambda>e. e\<lparr>Scheduled := False, Initialized := True\<rparr>) s1))"
      by (auto intro!: dequeue_inv one_state_move)
    with 2 assms(3) show ?thesis by (auto simp: services_inv_def)
  qed
qed

text \<open>
  The queue is a list of entries, each linked once, as long as no entry is inserted twice.  That
  rests on the file names being different, so the invariant of the loops has both.
\<close>

definition dispatcher_ok :: "'w dispatcher \<Rightarrow> bool" where
  "dispatcher_ok s \<longleftrightarrow> dispatcher_inv s \<and> unique_names s"

lemma unique_names_static: "static s = static s' \<Longrightarrow> unique_names s = unique_names s'"
proof -
  assume "static s = static s'"
  then have "map fst (static s) = map fst (static s')" by (simp only:)
  then show ?thesis by (simp add: static_def unique_names_def comp_def)
qed

lemma file_names_set_entry:
  assumes "FileName (f (entry_of s i)) = FileName (entry_of s i)"
  shows "unique_names (set_entry i f s) = unique_names s"
proof -
  have "map FileName (mDiscoveredList (set_entry i f s)) = map FileName (mDiscoveredList s)"
    using assms by (cases "i < ndrivers s") (auto simp: set_entry_def map_update entry_of_def list_update_same_conv list_update_beyond)
  then show ?thesis by (simp add: unique_names_def)
qed

lemma unique_names_upd [simp]:
  "unique_names (s\<lparr>gDispatcherRunning := b\<rparr>) = unique_names s"
  "unique_names (s\<lparr>DepexStack := st\<rparr>) = unique_names s"
  "unique_names (s\<lparr>mScheduledQueue := q\<rparr>) = unique_names s"
  "unique_names (s\<lparr>world := w\<rparr>) = unique_names s"
  by (simp_all add: unique_names_def)

lemma depex_read_name [simp]: "FileName (CoreGetDepexSectionAndPreProccess r e) = FileName e"
  by (auto simp: CoreGetDepexSectionAndPreProccess_def CorePreProcessDepex_def Let_def split: section_read.split)

lemma dispatch_head_ok:
  assumes "dispatcher_ok s" "i \<in> set (mScheduledQueue s)" "services_inv dispatcher_ok svc"
    "dispatch_head svc i s rs = ret (s', rs')"
  shows "dispatcher_ok s'"
proof -
  have load: "dispatcher_ok ((set_entry i (\<lambda>e. e\<lparr>ImageHandle := h\<rparr>) s)\<lparr>world := w\<rparr>)" for h w
    unfolding dispatcher_ok_def dispatcher_inv_upd unique_names_upd
  proof
    show "dispatcher_inv (set_entry i (\<lambda>e. e\<lparr>ImageHandle := h\<rparr>) s)"
      by (rule dispatcher_inv_set_entry) (use assms(1,2) in \<open>auto simp: dispatcher_ok_def dispatcher_inv_def\<close>)
  qed (use assms(1) in \<open>simp add: file_names_set_entry dispatcher_ok_def\<close>)
  have deq: "dispatcher_ok (dequeue i (set_entry i f s1))"
    if "dispatcher_ok s1" "i \<in> set (mScheduledQueue s1)" "\<And>e. FileName (f e) = FileName e"
      "\<And>e. Scheduled e \<Longrightarrow> one_state e \<Longrightarrow> one_state (f e) \<and> \<not> Scheduled (f e)" for f s1
    using that dequeue_inv [OF _ that(2,4)] file_names_set_entry [of f s1 i]
    by (auto simp: dispatcher_ok_def dequeue_def)
  from assms(4) show ?thesis
  proof (cases rule: dispatch_head_cases)
    case (1 s1 f)
    with load assms(2) have "dispatcher_ok s1" "i \<in> set (mScheduledQueue s1)" by auto
    with 1 show ?thesis by (auto intro!: deq one_state_move)
  next
    case (2 s1)
    with load assms(1,2) have "dispatcher_ok s1" "i \<in> set (mScheduledQueue s1)" by auto
    then have "dispatcher_ok (dequeue i (set_entry i (\<lambda>e. e\<lparr>Scheduled := False, Initialized := True\<rparr>) s1))"
      by (auto intro!: deq one_state_move)
    with 2 assms(3) show ?thesis by (auto simp: services_inv_def)
  qed
qed

lemma drain_scheduled_ok:
  assumes "drain_scheduled svc s rs = Some r" "services_inv dispatcher_ok svc" "dispatcher_ok s" "r = Inr (s', rs')"
  shows "dispatcher_ok s' \<and> mScheduledQueue s' = []"
  using assms
proof (induction arbitrary: s' rs' rule: drain_scheduled.raw_induct [rotated, consumes 1])
  case (1 dr svc s rs r)
  show ?case
  proof (cases "mScheduledQueue s")
    case Nil
    with 1 show ?thesis by (auto simp: ret_def)
  next
    case (Cons i q)
    with 1(2-) obtain s1 rs1 where h: "dispatch_head svc i s rs = ret (s1, rs1)" "dr svc s1 rs1 = Some r"
      by (auto simp: bind_run_def ret_def split: option.splits sum.splits)
    have "dispatcher_ok s1" by (rule dispatch_head_ok [OF _ _ _ h(1)]) (use 1 Cons in auto)
    then show ?thesis using 1(1) [OF h(2) 1(3) _ 1(5)] by simp
  qed
qed

lemma CoreIsSchedulable_entry:
  assumes "CoreIsSchedulable env st e = ret (b, e', st')"
  shows "(\<exists>m. e' = e\<lparr>Depex := m\<rparr>) \<and> (b \<longrightarrow> \<not> Before e \<and> \<not> After e)"
proof -
  have "\<exists>m. e = e\<lparr>Depex := m\<rparr>" by (intro exI [of _ "Depex e"]) simp
  then show ?thesis
    using assms by (auto simp: CoreIsSchedulable_def bind_run_eq_ret split: if_splits option.splits)
qed

lemma schedule_all_ok:
  assumes "dispatcher_ok s" "insert_scheduled (Insert i) s = Some s'" "i < ndrivers s"
    "\<not> Before (entry_of s i)" "\<not> After (entry_of s i)" "Dependent (entry_of s i)"
  shows "dispatcher_ok s'"
proof -
  obtain xs where "s' = schedule_all xs s" "insert_post s i 0 i s xs"
    using insert_plain [of s i] assms by (auto simp: dispatcher_ok_def)
  with assms(1) schedule_all_inv [of s xs] show ?thesis
    by (auto simp: dispatcher_ok_def insert_post_def schedulable_set_def unique_names_static [OF static_schedule_all])
qed

lemma search_entry_ok:
  assumes ok: "dispatcher_ok s" and i: "i < ndrivers s" and r: "search_entry svc i s b = ret (s', b')"
  shows "dispatcher_ok s' \<and> ndrivers s' = ndrivers s"
proof -
  define s1 where "s1 = (if DepexProtocolError (entry_of s i)
                then set_entry i (\<lambda>e. CoreGetDepexSectionAndPreProccess (read_section svc (world s) e) e) s
                else s)"
  have "one_state (entry_of s i)" using ok i by (simp add: dispatcher_ok_def dispatcher_inv_def)
  then have s1: "dispatcher_ok s1" "ndrivers s1 = ndrivers s"
    using ok depex_read_states [OF _ protocol_error_alone]
    by (auto simp: s1_def dispatcher_ok_def file_names_set_entry intro!: dispatcher_inv_set_entry)
  show ?thesis
  proof (cases "Dependent (entry_of s1 i)")
    case False
    with r s1 show ?thesis by (auto simp: search_entry_def s1_def Let_def)
  next
    case True
    with r obtain c e' st' where e': "CoreIsSchedulable (depex_env_of svc (world s1)) (DepexStack s1) (entry_of s1 i) = ret (c, e', st')"
      "(if c then (case insert_scheduled (Insert i) ((set_entry i (\<lambda>_. e') s1)\<lparr>DepexStack := st'\<rparr>) of
          None \<Rightarrow> None | Some s3 \<Rightarrow> ret (s3, True)) else ret ((set_entry i (\<lambda>_. e') s1)\<lparr>DepexStack := st'\<rparr>, b)) = ret (s', b')"
      by (auto simp: search_entry_def s1_def [symmetric] Let_def bind_run_eq_ret)
    obtain m where m: "e' = (entry_of s1 i)\<lparr>Depex := m\<rparr>" and c: "c \<longrightarrow> \<not> Before e' \<and> \<not> After e'"
      using CoreIsSchedulable_entry [OF e'(1)] by auto
    define s2 where "s2 = (set_entry i (\<lambda>_. e') s1)\<lparr>DepexStack := st'\<rparr>"
    have s2: "dispatcher_ok s2" "ndrivers s2 = ndrivers s" "entry_of s2 i = e'"
      using s1 m i True by (auto simp: s2_def dispatcher_ok_def file_names_set_entry entry_of_set_entry dispatcher_inv_def)
    show ?thesis
    proof (cases c)
      case False
      with e'(2) s2 show ?thesis by (auto simp: s2_def)
    next
      case True': True
      then obtain s3 where s3: "insert_scheduled (Insert i) s2 = Some s3" "s' = s3"
        using e'(2) by (auto simp: s2_def split: option.splits)
      obtain xs where "s3 = schedule_all xs s2"
        using insert_plain [of s2 i] s2 i True True' c m s3 by (auto simp: dispatcher_ok_def)
      with schedule_all_ok [OF s2(1) s3(1)] s2 i True True' c m s3(2) show ?thesis by auto
    qed
  qed
qed

lemma search_round_ok:
  "search_round svc is s b = ret (s', b') \<Longrightarrow> dispatcher_ok s \<Longrightarrow> \<forall>i \<in> set is. i < ndrivers s \<Longrightarrow>
    dispatcher_ok s' \<and> ndrivers s' = ndrivers s"
proof (induction "is" arbitrary: s b)
  case (Cons i "is")
  obtain s1 b1 where r: "search_entry svc i s b = ret (s1, b1)" "search_round svc is s1 b1 = ret (s', b')"
    using Cons.prems(1) by (auto simp: bind_run_eq_ret)
  from search_entry_ok [OF Cons.prems(2) _ r(1)] Cons.prems(3) Cons.IH [OF r(2)] show ?case by auto
qed simp

lemma dispatch_rounds_ok:
  assumes "dispatch_rounds svc s rs = Some r" "services_inv dispatcher_ok svc" "dispatcher_ok s" "r = Inr (s', rs')"
  shows "dispatcher_ok s'"
  using assms
proof (induction arbitrary: s' rs' rule: dispatch_rounds.raw_induct [rotated, consumes 1])
  case (1 dr svc s rs r)
  from 1(2) obtain p where d: "drain_scheduled svc s rs = ret p"
    and rest: "(let s1 = (if \<not> EFI_ERROR (snd p) then signal_dispatch_event svc (fst p) else fst p) in
       bind_run (search_round svc [0 ..< ndrivers s1] s1 False) (\<lambda>r2.
         if snd r2 then dr svc (fst r2) (snd p) else ret (fst r2, snd p))) = ret (s', rs')"
    unfolding 1(5) ret_def [symmetric] bind_run_eq_ret by blast
  define t where "t = (if \<not> EFI_ERROR (snd p) then signal_dispatch_event svc (fst p) else fst p)"
  have "dispatcher_ok t"
    using drain_scheduled_ok [OF d [unfolded ret_def] 1(3,4), of "fst p" "snd p"] 1(3)
    by (auto simp: t_def services_inv_def)
  moreover obtain q where q: "search_round svc [0 ..< ndrivers t] t False = ret q"
    "(if snd q then dr svc (fst q) (snd p) else ret (fst q, snd p)) = ret (s', rs')"
    using rest unfolding t_def [symmetric] Let_def bind_run_eq_ret by blast
  ultimately have "dispatcher_ok (fst q)" using search_round_ok [of svc _ t False "fst q" "snd q"] by auto
  with 1(1) [of svc "fst q" "snd p" _ s' rs'] 1(3) q(2) show ?case by (cases "snd q") (auto simp: ret_def)
qed

lemma CoreDispatcher_ok:
  assumes "CoreDispatcher svc s = ret (st, s')" "services_inv dispatcher_ok svc" "dispatcher_ok s"
  shows "dispatcher_ok s'"
proof -
  have run: "dispatcher_ok (s\<lparr>gDispatcherRunning := True\<rparr>)" using assms(3) by (simp add: dispatcher_ok_def)
  have "dispatcher_ok ((close_dispatch_event svc t)\<lparr>gDispatcherRunning := False\<rparr>)" if "dispatcher_ok t" for t
    using assms(2) that by (simp add: services_inv_def dispatcher_ok_def)
  with assms run dispatch_rounds_ok [OF _ assms(2) run refl, folded ret_def] show ?thesis
    by (auto simp: CoreDispatcher_def Let_def bind_run_eq_ret split: if_splits)
qed

section \<open>What holds when the rounds end\<close>

text \<open>The last evaluation of the driver's DEPEX, which left the entry as it is now, answered FALSE.\<close>

definition not_schedulable :: "'w services \<Rightarrow> 'w dispatcher \<Rightarrow> nat \<Rightarrow> bool" where
  "not_schedulable svc s i \<longleftrightarrow>
     (\<exists>st e st'. CoreIsSchedulable (depex_env_of svc (world s)) st e = ret (False, entry_of s i, st'))"

lemma search_entry_False:
  assumes "search_entry svc i s b = ret (s', False)"
  shows "b = False \<and> world s' = world s \<and> mScheduledQueue s' = mScheduledQueue s \<and> ndrivers s' = ndrivers s \<and>
    (\<forall>j. j \<noteq> i \<longrightarrow> entry_of s' j = entry_of s j) \<and>
    (i < ndrivers s \<longrightarrow> Dependent (entry_of s' i) \<longrightarrow> not_schedulable svc s' i)"
proof -
  define s1 where "s1 = (if DepexProtocolError (entry_of s i)
                then set_entry i (\<lambda>e. CoreGetDepexSectionAndPreProccess (read_section svc (world s) e) e) s
                else s)"
  have s1: "world s1 = world s" "mScheduledQueue s1 = mScheduledQueue s" "ndrivers s1 = ndrivers s"
    "\<And>j. j \<noteq> i \<Longrightarrow> entry_of s1 j = entry_of s j"
    by (simp_all add: s1_def entry_of_set_entry)
  show ?thesis
  proof (cases "Dependent (entry_of s1 i)")
    case False
    with assms have "s' = s1" "b = False" by (auto simp: search_entry_def s1_def Let_def)
    with s1 False show ?thesis by simp
  next
    case True
    with assms obtain r where r: "CoreIsSchedulable (depex_env_of svc (world s1)) (DepexStack s1) (entry_of s1 i) = ret r"
      "(case r of (c, e', st') \<Rightarrow> if c then (case insert_scheduled (Insert i) ((set_entry i (\<lambda>_. e') s1)\<lparr>DepexStack := st'\<rparr>) of
          None \<Rightarrow> None | Some s3 \<Rightarrow> ret (s3, True)) else ret ((set_entry i (\<lambda>_. e') s1)\<lparr>DepexStack := st'\<rparr>, b)) = ret (s', False)"
      by (auto simp: search_entry_def s1_def [symmetric] Let_def bind_run_eq_ret)
    obtain c e' st' where c: "r = (c, e', st')" by (cases r)
    with r(2) have "\<not> c" by (auto split: if_splits option.splits)
    with r c have s': "s' = (set_entry i (\<lambda>_. e') s1)\<lparr>DepexStack := st'\<rparr>" "b = False"
      and e': "CoreIsSchedulable (depex_env_of svc (world s1)) (DepexStack s1) (entry_of s1 i) = ret (False, e', st')"
      by auto
    show ?thesis
    proof (intro conjI impI allI)
      assume "i < ndrivers s"
      with s' s1 have "entry_of s' i = e'" "world s' = world s1" by (simp_all add: entry_of_set_entry)
      with e' show "not_schedulable svc s' i" unfolding not_schedulable_def by auto
    qed (use s' s1 in \<open>simp_all add: entry_of_set_entry\<close>)
  qed
qed

lemma insert_scheduled_ndrivers:
  assumes "insert_scheduled job s = Some s'" shows "ndrivers s' = ndrivers s"
  using assms
proof (induction rule: insert_scheduled.raw_induct [rotated, consumes 1])
  case (1 ins job s s')
  note IH = 1(1) and eq = 1(2)
  show ?case
  proof (cases job)
    case (Insert d)
    with eq obtain s1 where "ins (Scan True d 0) s = Some s1" "ins (Scan False d 0) (mark_scheduled d s1) = Some s'"
      by (auto simp: bind_eq_Some_conv)
    with IH show ?thesis by fastforce
  next
    case (Scan b d i)
    with eq show ?thesis by (auto simp: bind_eq_Some_conv split: if_splits dest!: IH)
  qed
qed

lemma search_entry_ndrivers:
  assumes "search_entry svc i s b = ret p" shows "ndrivers (fst p) = ndrivers s"
  using assms insert_scheduled_ndrivers
  by (fastforce simp: search_entry_def Let_def bind_run_eq_ret split: if_splits option.splits)

lemma search_round_False:
  "search_round svc is s b = ret (s', False) \<Longrightarrow> distinct is \<Longrightarrow> \<forall>i \<in> set is. i < ndrivers s \<Longrightarrow>
    b = False \<and> world s' = world s \<and> mScheduledQueue s' = mScheduledQueue s \<and> ndrivers s' = ndrivers s \<and>
    (\<forall>j. j \<notin> set is \<longrightarrow> entry_of s' j = entry_of s j) \<and>
    (\<forall>i \<in> set is. Dependent (entry_of s' i) \<longrightarrow> not_schedulable svc s' i)"
proof (induction "is" arbitrary: s b)
  case (Cons i "is")
  from Cons.prems(1) obtain p where p: "search_entry svc i s b = ret p" "search_round svc is (fst p) (snd p) = ret (s', False)"
    by (auto simp: bind_run_eq_ret)
  have n: "ndrivers s = ndrivers (fst p) \<Longrightarrow> \<forall>j \<in> set is. j < ndrivers (fst p)" using Cons.prems(3) by simp
  show ?case
  proof (cases p)
    case (Pair s1 b1)
    have n: "ndrivers s1 = ndrivers s" using search_entry_ndrivers [OF p(1)] Pair by simp
    have rest: "b1 = False \<and> world s' = world s1 \<and> mScheduledQueue s' = mScheduledQueue s1 \<and>
        ndrivers s' = ndrivers s1 \<and> (\<forall>j. j \<notin> set is \<longrightarrow> entry_of s' j = entry_of s1 j) \<and>
        (\<forall>i \<in> set is. Dependent (entry_of s' i) \<longrightarrow> not_schedulable svc s' i)"
      using Cons.IH [of s1 b1] p(2) Cons.prems(2,3) Pair n by simp
    then have i: "entry_of s' i = entry_of s1 i" "world s' = world s1" using Cons.prems(2) by auto
    have ns: "not_schedulable svc s' i = not_schedulable svc s1 i" by (simp add: not_schedulable_def i)
    have "search_entry svc i s b = ret (s1, False)" using p(1) Pair rest by simp
    from search_entry_False [OF this] rest ns i Cons.prems(3) show ?thesis by auto
  qed
qed simp

lemma drain_scheduled_empty:
  assumes "drain_scheduled svc s rs = Some r" "r = Inr p"
  shows "mScheduledQueue (fst p) = []"
  using assms
proof (induction rule: drain_scheduled.raw_induct [rotated, consumes 1])
  case (1 dr svc s rs r)
  show ?case
  proof (cases "mScheduledQueue s")
    case Nil
    with 1 show ?thesis by (auto simp: ret_def)
  next
    case (Cons i q)
    with 1(2,3) obtain q where "dr svc (fst q) (snd q) = Some r"
      by (auto simp: bind_run_def split: option.splits sum.splits)
    with 1(1,3) show ?thesis by blast
  qed
qed

lemma dispatch_rounds_exit:
  assumes "dispatch_rounds svc s rs = Some r" "r = Inr p"
    "\<And>t. mScheduledQueue t = [] \<Longrightarrow> mScheduledQueue (signal_dispatch_event svc t) = []"
  shows "mScheduledQueue (fst p) = [] \<and>
    (\<forall>i < ndrivers (fst p). Dependent (entry_of (fst p) i) \<longrightarrow> not_schedulable svc (fst p) i)"
  using assms
proof (induction rule: dispatch_rounds.raw_induct [rotated, consumes 1])
  case (1 dr svc s rs r)
  from 1(2) obtain d where d: "drain_scheduled svc s rs = ret d"
    and rest: "(let s1 = (if \<not> EFI_ERROR (snd d) then signal_dispatch_event svc (fst d) else fst d) in
       bind_run (search_round svc [0 ..< ndrivers s1] s1 False) (\<lambda>r2.
         if snd r2 then dr svc (fst r2) (snd d) else ret (fst r2, snd d))) = ret p"
    unfolding 1(3) ret_def [symmetric] bind_run_eq_ret by blast
  define t where "t = (if \<not> EFI_ERROR (snd d) then signal_dispatch_event svc (fst d) else fst d)"
  have t: "mScheduledQueue t = []"
    using drain_scheduled_empty [OF d [unfolded ret_def] refl] 1(4) by (simp add: t_def)
  from rest obtain q where q: "search_round svc [0 ..< ndrivers t] t False = ret q"
    "(if snd q then dr svc (fst q) (snd d) else ret (fst q, snd d)) = ret p"
    unfolding t_def [symmetric] Let_def bind_run_eq_ret by blast
  show ?case
  proof (cases "snd q")
    case True
    with q 1(1) [of svc "fst q" "snd d" r] 1(3,4) show ?thesis by (simp add: ret_def)
  next
    case False
    with q(1) have "search_round svc [0 ..< ndrivers t] t False = ret (fst q, False)" by (metis prod.collapse)
    from search_round_False [OF this] t False q(2) show ?thesis by auto
  qed
qed

section \<open>The rounds end\<close>

text \<open>
  Each change of a driver's state lowers its rank, so only services that raise ranks (by adding
  drivers or trusting one again) could keep the dispatcher busy for ever.
\<close>

definition driver_rank :: "EFI_CORE_DRIVER_ENTRY \<Rightarrow> nat" where
  "driver_rank e = (if DepexProtocolError e then 4 else if Unrequested e then 3 else if Dependent e then 2
     else if Scheduled e then 1 else 0)"

definition potential :: "'w dispatcher \<Rightarrow> nat" where
  "potential s = sum_list (map driver_rank (mDiscoveredList s))"

definition services_calm :: "'w services \<Rightarrow> bool" where
  "services_calm svc \<longleftrightarrow> (\<forall>s i. potential (start_image svc i s) \<le> potential s \<and>
     potential (process_fv_image svc i s) \<le> potential s \<and> potential (signal_dispatch_event svc s) \<le> potential s)"

lemma potential_upd [simp]:
  "potential (s\<lparr>mScheduledQueue := q\<rparr>) = potential s"
  "potential (s\<lparr>DepexStack := st\<rparr>) = potential s"
  "potential (s\<lparr>gDispatcherRunning := b\<rparr>) = potential s"
  "potential (s\<lparr>world := w\<rparr>) = potential s"
  by (simp_all add: potential_def)

lemma potential_set_entry:
  assumes "i < ndrivers s"
  shows "potential (set_entry i f s) + driver_rank (entry_of s i) = potential s + driver_rank (f (entry_of s i))"
proof -
  have "driver_rank (entry_of s i) \<le> sum_list (map driver_rank (mDiscoveredList s))"
    using assms by (simp add: elem_le_sum_list [of i "map driver_rank (mDiscoveredList s)", simplified] entry_of_def)
  then show ?thesis
    using assms sum_list_update [of i "map driver_rank (mDiscoveredList s)" "driver_rank (f (entry_of s i))"]
    by (simp add: potential_def set_entry_def map_update entry_of_def)
qed

lemma potential_mark_scheduled:
  assumes "i < ndrivers s" shows "potential (mark_scheduled i s) \<le> potential s + driver_rank
     ((entry_of s i)\<lparr>Dependent := False, Scheduled := True\<rparr>) - driver_rank (entry_of s i)"
  using potential_set_entry [OF assms, of "\<lambda>e. e\<lparr>Dependent := False, Scheduled := True\<rparr>"]
  by (simp add: mark_scheduled_def)

lemma rank_scheduled:
  "one_state e \<Longrightarrow> Dependent e \<Longrightarrow> driver_rank (e\<lparr>Dependent := False, Scheduled := True\<rparr>) < driver_rank e"
  by (auto simp: driver_rank_def one_state_def split: if_splits)

lemma rank_scheduled_le:
  "Dependent e \<Longrightarrow> driver_rank (e\<lparr>Dependent := False, Scheduled := True\<rparr>) \<le> driver_rank e"
  by (auto simp: driver_rank_def)

lemma potential_schedule_all:
  assumes "distinct xs" "\<forall>z \<in> set xs. z < ndrivers s \<and> Dependent (entry_of s z) \<and> one_state (entry_of s z)"
  shows "potential (schedule_all xs s) + length xs \<le> potential s"
  using assms
proof (induction xs arbitrary: s)
  case (Cons x xs)
  have "potential (mark_scheduled x s) < potential s"
    using potential_set_entry [of x s "\<lambda>e. e\<lparr>Dependent := False, Scheduled := True\<rparr>"] rank_scheduled [of "entry_of s x"] Cons.prems
    by (simp add: mark_scheduled_def)
  moreover have "potential (schedule_all xs (mark_scheduled x s)) + length xs \<le> potential (mark_scheduled x s)"
    using Cons.prems by (intro Cons.IH) (auto simp: entry_of_mark_scheduled)
  ultimately show ?case by (simp add: schedule_all_Cons)
qed simp

text \<open>A pass over the head of the queue lowers the potential.\<close>

lemma dispatch_head_potential:
  assumes ok: "dispatcher_ok s" "i \<in> set (mScheduledQueue s)" and calm: "services_calm svc"
    and r: "dispatch_head svc i s rs = ret (s', rs')"
  shows "potential s' < potential s"
proof -
  have i: "i < ndrivers s" "one_state (entry_of s i)" "Scheduled (entry_of s i)"
    using ok by (auto simp: dispatcher_ok_def dispatcher_inv_def)
  have img: "driver_rank (e\<lparr>ImageHandle := h\<rparr>) = driver_rank e" for e h by (simp add: driver_rank_def)
  have load: "potential ((set_entry i (\<lambda>e. e\<lparr>ImageHandle := h\<rparr>) s)\<lparr>world := w\<rparr>) = potential s" for h w
    using potential_set_entry [OF i(1), of "\<lambda>e. e\<lparr>ImageHandle := h\<rparr>"] by (simp add: img)
  have down: "potential (dequeue i (set_entry i f s1)) < potential s"
    if s1: "s1 = s \<or> (\<exists>h w. s1 = (set_entry i (\<lambda>e. e\<lparr>ImageHandle := h\<rparr>) s)\<lparr>world := w\<rparr>)"
      and f: "f = (\<lambda>e. e\<lparr>Untrusted := True, Scheduled := False\<rparr>) \<or> f = (\<lambda>e. e\<lparr>Initialized := True, Scheduled := False\<rparr>)
        \<or> f = (\<lambda>e. e\<lparr>Scheduled := False, Initialized := True\<rparr>)" for s1 f
  proof -
    have pot: "potential s1 = potential s" and e1: "i < ndrivers s1" "one_state (entry_of s1 i)" "Scheduled (entry_of s1 i)"
      using s1 i load by (auto simp: entry_of_set_entry)
    then have "driver_rank (f (entry_of s1 i)) < driver_rank (entry_of s1 i)"
      using f by (auto simp: driver_rank_def one_state_def split: if_splits)
    with potential_set_entry [OF e1(1), of f] pot show ?thesis by (simp add: dequeue_def)
  qed
  from r show ?thesis
  proof (cases rule: dispatch_head_cases)
    case (1 s1 f) then show ?thesis using down by blast
  next
    case (2 s1)
    have "potential (dequeue i (set_entry i (\<lambda>e. e\<lparr>Scheduled := False, Initialized := True\<rparr>) s1)) < potential s"
      using down [of s1] 2(3) by blast
    with 2(1) calm show ?thesis unfolding services_calm_def by (metis le_less_trans)
  qed
qed

abbreviation ends :: "'w services \<Rightarrow> 'a run \<Rightarrow> bool" where
  "ends svc m \<equiv> ends_if (\<exists>w. asserts (depex_env_of svc w)) m"

lemma depex_loop_ends: "ends_if (asserts env) (depex_loop env sz mem st it)"
proof (induction env sz mem st it rule: depex_loop.induct)
  case (1 env sz mem st it)
  have a: "\<not> asserts env \<Longrightarrow> depex_switch env mem st it \<noteq> Asserted"
    by (auto simp: depex_switch_def push_step_def binary_step_def not_step_def Let_def split: prod.splits)
  show ?case using 1 a by (subst depex_loop.simps) (auto intro: ends_fault split: depex_step.splits)
qed

lemma CoreIsSchedulable_ends: "ends_if (asserts env) (CoreIsSchedulable env st e)"
  by (auto simp: CoreIsSchedulable_def intro!: ends_bind depex_loop_ends split: option.split)

lemma dispatch_head_ends: "ends svc (dispatch_head svc i s rs)"
  by (auto simp: dispatch_head_def Let_def intro!: ends_fault split: prod.split)

lemma drain_scheduled_ends:
  assumes svc: "services_inv dispatcher_ok svc" "services_calm svc"
  shows "dispatcher_ok s \<Longrightarrow> ends svc (drain_scheduled svc s rs) \<and>
    (\<forall>p. drain_scheduled svc s rs = ret p \<longrightarrow> potential (fst p) \<le> potential s)"
proof (induction "potential s" arbitrary: s rs rule: less_induct)
  case less
  show ?case
  proof (cases "mScheduledQueue s")
    case Nil then show ?thesis by (subst (1 2) drain_scheduled.simps) auto
  next
    case (Cons i q)
    then have i: "i \<in> set (mScheduledQueue s)" by simp
    have step: "dispatcher_ok (fst p) \<and> potential (fst p) < potential s" if "dispatch_head svc i s rs = ret p" for p
      using dispatch_head_ok [OF less.prems i svc(1)] dispatch_head_potential [OF less.prems i svc(2)] that
      by (metis prod.collapse)
    have eq: "drain_scheduled svc s rs =
        bind_run (dispatch_head svc i s rs) (\<lambda>r. drain_scheduled svc (fst r) (snd r))"
      by (subst drain_scheduled.simps) (simp add: Cons)
    have "ends svc (drain_scheduled svc s rs)" unfolding eq
      by (rule ends_bind) (use dispatch_head_ends step less.hyps in auto)
    moreover have "potential (fst p) \<le> potential s" if "drain_scheduled svc s rs = ret p" for p
      using that less.hyps step unfolding eq bind_run_eq_ret by (meson le_trans less_imp_le)
    ultimately show ?thesis by blast
  qed
qed

lemma search_entry_ends:
  assumes ok: "dispatcher_ok s" and i: "i < ndrivers s"
  shows "ends svc (search_entry svc i s b) \<and>
    (\<forall>p. search_entry svc i s b = ret p \<longrightarrow>
       potential (fst p) \<le> potential s \<and> (snd p \<and> \<not> b \<longrightarrow> potential (fst p) < potential s))"
proof -
  define s1 where "s1 = (if DepexProtocolError (entry_of s i)
                then set_entry i (\<lambda>e. CoreGetDepexSectionAndPreProccess (read_section svc (world s) e) e) s
                else s)"
  have one: "one_state (entry_of s i)" using ok i by (simp add: dispatcher_ok_def dispatcher_inv_def)
  then have s1: "dispatcher_ok s1" "ndrivers s1 = ndrivers s"
    using ok depex_read_states [OF _ protocol_error_alone]
    by (auto simp: s1_def dispatcher_ok_def file_names_set_entry intro!: dispatcher_inv_set_entry)
  have p1: "potential s1 \<le> potential s"
  proof (cases "DepexProtocolError (entry_of s i)")
    case True
    let ?f = "\<lambda>e. CoreGetDepexSectionAndPreProccess (read_section svc (world s) e) e"
    have "driver_rank (entry_of s i) = 4" "driver_rank (?f (entry_of s i)) \<le> 4"
      using True by (simp_all add: driver_rank_def)
    moreover have "s1 = set_entry i ?f s" using True by (simp add: s1_def)
    ultimately show ?thesis using potential_set_entry [OF i, of ?f] by simp
  qed (simp add: s1_def)
  show ?thesis
  proof (cases "Dependent (entry_of s1 i)")
    case False
    with p1 show ?thesis by (auto simp: search_entry_def s1_def [symmetric] Let_def)
  next
    case True
    let ?k = "\<lambda>(c, e', st'). if c then (case insert_scheduled (Insert i) ((set_entry i (\<lambda>_. e') s1)\<lparr>DepexStack := st'\<rparr>) of
          None \<Rightarrow> None | Some s3 \<Rightarrow> ret (s3, True)) else ret ((set_entry i (\<lambda>_. e') s1)\<lparr>DepexStack := st'\<rparr>, b)"
    let ?c = "CoreIsSchedulable (depex_env_of svc (world s1)) (DepexStack s1) (entry_of s1 i)"
    have eq: "search_entry svc i s b = bind_run ?c ?k"
      using True by (auto simp: search_entry_def s1_def [symmetric] Let_def)
    have k: "\<exists>p. ?k r = ret p \<and> potential (fst p) \<le> potential s \<and> (snd p \<and> \<not> b \<longrightarrow> potential (fst p) < potential s)"
      if run: "?c = ret r" for r
    proof -
      obtain c e' st' where r: "r = (c, e', st')" by (cases r)
      obtain m where m: "e' = (entry_of s1 i)\<lparr>Depex := m\<rparr>" and c: "c \<longrightarrow> \<not> Before e' \<and> \<not> After e'"
        using CoreIsSchedulable_entry [OF run [unfolded r]] by auto
      define s2 where "s2 = (set_entry i (\<lambda>_. e') s1)\<lparr>DepexStack := st'\<rparr>"
      have s2: "dispatcher_ok s2" "ndrivers s2 = ndrivers s" "entry_of s2 i = e'"
        using s1 m i True by (auto simp: s2_def dispatcher_ok_def file_names_set_entry entry_of_set_entry dispatcher_inv_def)
      have "driver_rank e' = driver_rank (entry_of s1 i)" by (simp add: m driver_rank_def)
      then have p2: "potential s2 \<le> potential s"
        using potential_set_entry [of i s1 "\<lambda>_. e'"] i s1 p1 by (simp add: s2_def)
      show ?thesis
      proof (cases c)
        case False with r p2 show ?thesis by (simp add: s2_def)
      next
        case True': True
        obtain xs where xs: "insert_scheduled (Insert i) s2 = Some (schedule_all xs s2)" "insert_post s2 i 0 i s2 xs"
          using insert_plain [of s2 i] s2 i True True' c m by (auto simp: dispatcher_ok_def)
        then have "potential (schedule_all xs s2) + length xs \<le> potential s2" "xs \<noteq> []"
          using s2(1) by (auto intro!: potential_schedule_all
              simp: insert_post_def schedulable_set_def dispatcher_ok_def dispatcher_inv_def)
        then have "potential (schedule_all xs s2) < potential s" using p2 by (cases xs) auto
        with xs(1) r True' show ?thesis by (simp add: s2_def)
      qed
    qed
    have "ends svc (bind_run ?c ?k)"
    proof (rule ends_bind)
      show "ends svc ?c" by (rule ends_mono [OF CoreIsSchedulable_ends]) blast
    next
      fix r assume "?c = ret r"
      from k [OF this] show "ends svc (?k r)" by (metis ends_ret)
    qed
    moreover have "potential (fst p) \<le> potential s \<and> (snd p \<and> \<not> b \<longrightarrow> potential (fst p) < potential s)"
      if "bind_run ?c ?k = ret p" for p
    proof -
      obtain r where "?c = ret r" "?k r = ret p" using \<open>bind_run ?c ?k = ret p\<close> unfolding bind_run_eq_ret by blast
      with k [of r] show ?thesis by auto
    qed
    ultimately show ?thesis unfolding eq by blast
  qed
qed

lemma search_round_ends:
  "dispatcher_ok s \<Longrightarrow> \<forall>i \<in> set is. i < ndrivers s \<Longrightarrow>
    ends svc (search_round svc is s b) \<and> (\<forall>p. search_round svc is s b = ret p \<longrightarrow>
       potential (fst p) \<le> potential s \<and> (snd p \<and> \<not> b \<longrightarrow> potential (fst p) < potential s))"
proof (induction "is" arbitrary: s b)
  case (Cons i "is")
  have i: "i < ndrivers s" using Cons.prems(2) by simp
  note e = search_entry_ends [OF Cons.prems(1) i, of svc b]
  have step: "dispatcher_ok (fst p) \<and> (\<forall>j \<in> set is. j < ndrivers (fst p))" if "search_entry svc i s b = ret p" for p
    using search_entry_ok [OF Cons.prems(1) i, of svc b "fst p" "snd p"] that Cons.prems(2) by auto
  have "ends svc (search_round svc (i # is) s b)"
    using e Cons.IH step by (auto intro!: ends_bind)
  moreover have "potential (fst p) \<le> potential s \<and> (snd p \<and> \<not> b \<longrightarrow> potential (fst p) < potential s)"
    if run: "search_round svc (i # is) s b = ret p" for p
  proof -
    obtain q where q: "search_entry svc i s b = ret q" "search_round svc is (fst q) (snd q) = ret p"
      using run by (auto simp: bind_run_eq_ret)
    with e Cons.IH [of "fst q" "snd q"] step [OF q(1)] show ?thesis
      by (cases "snd q") fastforce+
  qed
  ultimately show ?case by blast
qed simp

lemma dispatch_rounds_ends:
  assumes svc: "services_inv dispatcher_ok svc" "services_calm svc"
  shows "dispatcher_ok s \<Longrightarrow> ends svc (dispatch_rounds svc s rs)"
proof (induction "potential s" arbitrary: s rs rule: less_induct)
  case less
  note d = drain_scheduled_ends [OF svc less.prems, of rs]
  show ?case
  proof (subst dispatch_rounds.simps, rule ends_bind, use d in blast)
    fix p assume p: "drain_scheduled svc s rs = ret p"
    define t where "t = (if \<not> EFI_ERROR (snd p) then signal_dispatch_event svc (fst p) else fst p)"
    have "dispatcher_ok (fst p)"
      using drain_scheduled_ok [OF p [unfolded ret_def] svc(1) less.prems, of "fst p" "snd p"] by simp
    then have t: "dispatcher_ok t" "potential t \<le> potential s"
      using svc d p unfolding t_def services_inv_def services_calm_def by (auto intro: le_trans [OF _ _, of _ "potential (fst p)"])
    have all: "\<forall>i \<in> set [0 ..< ndrivers t]. i < ndrivers t" by simp
    note r = search_round_ends [OF t(1) all, of svc False]
    have "ends svc (bind_run (search_round svc [0 ..< ndrivers t] t False) (\<lambda>r2.
         if snd r2 then dispatch_rounds svc (fst r2) (snd p) else ret (fst r2, snd p)))"
    proof (rule ends_bind, use r in blast)
      fix q assume q: "search_round svc [0 ..< ndrivers t] t False = ret q"
      then have "dispatcher_ok (fst q)" using search_round_ok [OF _ t(1) all, of svc False "fst q" "snd q"] by simp
      moreover have "snd q \<Longrightarrow> potential (fst q) < potential s" using r q t(2) by auto
      ultimately show "ends svc (if snd q then dispatch_rounds svc (fst q) (snd p) else ret (fst q, snd p))"
        using less.hyps by simp
    qed
    then show "ends svc (let s1 = if \<not> EFI_ERROR (snd p) then signal_dispatch_event svc (fst p) else fst p
        in bind_run (search_round svc [0 ..< ndrivers s1] s1 False)
            (\<lambda>r2. if snd r2 then dispatch_rounds svc (fst r2) (snd p) else ret (fst r2, snd p)))"
      by (simp add: t_def Let_def)
  qed
qed

section \<open>Properties\<close>

text \<open>A small system for the witnesses: services that change nothing, drivers by name and position.\<close>

definition demo_services :: "unit services" where
  "demo_services = \<lparr>depex_env_of = (\<lambda>_. demo_env), read_section = (\<lambda>_ _. ReadError EFI_NOT_FOUND),
     alloc_entry = (\<lambda>_. True), create_dispatch_event = (\<lambda>_. EFI_SUCCESS), signal_dispatch_event = (\<lambda>s. s),
     close_dispatch_event = (\<lambda>s. s), load_image = (\<lambda>_ _. (EFI_SUCCESS, 1, ())), start_image = (\<lambda>_ s. s),
     process_fv_image = (\<lambda>_ s. s)\<rparr>"

definition demo_entry :: "u8 \<Rightarrow> bool \<Rightarrow> bool \<Rightarrow> u8 \<Rightarrow> EFI_CORE_DRIVER_ENTRY" where
  "demo_entry n b a t = demo_driver\<lparr>FileName := replicate 16 n, Depex := None, Before := b, After := a,
     BeforeAfterGuid := replicate 16 t\<rparr>"

definition demo_state :: "EFI_CORE_DRIVER_ENTRY list \<Rightarrow> unit dispatcher" where
  "demo_state es = \<lparr>mDiscoveredList = es, mScheduledQueue = [], gDispatcherRunning = False,
     DepexStack = \<lparr>Cells = [], StackPointer = 0\<rparr>, world = ()\<rparr>"

abbreviation demo_three :: "unit dispatcher" where
  "demo_three \<equiv> demo_state [demo_entry 1 False False 0, demo_entry 2 True False 1, demo_entry 3 False True 2]"

lemma demo_entry_simps [simp]:
  "FileName (demo_entry n b a t) = replicate 16 n" "Before (demo_entry n b a t) = b"
  "After (demo_entry n b a t) = a" "BeforeAfterGuid (demo_entry n b a t) = replicate 16 t"
  "Dependent (demo_entry n b a t)" "\<not> Scheduled (demo_entry n b a t)" "Depex (demo_entry n b a t) = None"
  "\<not> DepexProtocolError (demo_entry n b a t)" "one_state (demo_entry n b a t)"
  by (simp_all add: demo_entry_def demo_driver_def one_state_def)

lemma demo_state_simps [simp]:
  "mDiscoveredList (demo_state es) = es" "mScheduledQueue (demo_state es) = []"
  "gDispatcherRunning (demo_state es) = False"
  "entry_of (demo_state es) i = es ! i"
  by (simp_all add: demo_state_def entry_of_def)

lemma demo_three_ok: "dispatcher_ok demo_three"
  by (auto simp: dispatcher_ok_def dispatcher_inv_def unique_names_def less_Suc_eq nth_Cons' replicate_eq_replicate)

lemma demo_services_ok: "services_inv dispatcher_ok demo_services" "services_calm demo_services"
  by (simp_all add: services_inv_def services_calm_def demo_services_def)

text \<open>C4: \<open>CoreInsertOnScheduledQueueWhileProcessingBeforeAndAfter\<close>, for a Dependent driver that is
  neither Before nor After, and with file names all different, returns: it appends to the scheduled
  queue, each once and marked Scheduled, the driver and exactly the Dependent drivers that name it
  directly or through others, and every one but the driver itself is placed before or after
  the one it names, as its DEPEX asks.\<close>

theorem schedule_places_dependants:
  assumes "unique_names s" "d < ndrivers s" "Dependent (entry_of s d)"
    and "\<not> Before (entry_of s d)" "\<not> After (entry_of s d)"
  shows "\<exists>xs. insert_scheduled (Insert d) s = Some (schedule_all xs s) \<and>
    mScheduledQueue (schedule_all xs s) = mScheduledQueue s @ xs \<and> distinct xs \<and> d \<in> set xs \<and>
    (\<forall>z \<in> set xs. Dependent (entry_of s z) \<and> (\<exists>k. level s d k z)) \<and>
    (\<forall>t \<in> set xs. \<forall>z. link s t z \<longrightarrow> Dependent (entry_of s z) \<longrightarrow> z \<in> set xs) \<and>
    (\<forall>z \<in> set xs. z \<noteq> d \<longrightarrow> (\<exists>t. placed s xs t z))"
proof -
  obtain xs where xs: "insert_scheduled (Insert d) s = Some (schedule_all xs s)" "insert_post s d 0 d s xs"
    using insert_plain assms by blast
  have "\<exists>k. level s d k z" if "z \<in> set xs" for z
    using xs(2) that level.root [of s d] unfolding insert_post_def by (cases "z = d") blast+
  with xs show ?thesis by (auto simp: insert_post_def schedulable_set_def)
qed

theorem schedule_places_dependants_witness:
  "\<exists>xs. insert_scheduled (Insert 0) demo_three = Some (schedule_all xs demo_three) \<and>
     set xs = {0, 1, 2} \<and> precedes xs 1 0 \<and> precedes xs 1 2"
proof -
  have p: "unique_names demo_three" "0 < ndrivers demo_three" "Dependent (entry_of demo_three 0)"
     "\<not> Before (entry_of demo_three 0)" "\<not> After (entry_of demo_three 0)"
    using demo_three_ok by (simp_all add: dispatcher_ok_def)
  have links: "link demo_three t z \<longleftrightarrow> (t, z) \<in> {(0, 1), (1, 2)}" for t z
    by (auto simp: link_def less_Suc_eq nth_Cons' replicate_eq_replicate split: if_splits)
  obtain xs where xs: "insert_scheduled (Insert 0) demo_three = Some (schedule_all xs demo_three)" "0 \<in> set xs"
    "\<forall>z \<in> set xs. \<exists>k. level demo_three 0 k z"
    "\<forall>t \<in> set xs. \<forall>z. link demo_three t z \<longrightarrow> Dependent (entry_of demo_three z) \<longrightarrow> z \<in> set xs"
    "\<forall>z \<in> set xs. z \<noteq> 0 \<longrightarrow> (\<exists>t. placed demo_three xs t z)"
    using schedule_places_dependants [OF p] by blast
  have one: "1 \<in> set xs" using xs(2,4) links by auto
  then have two: "2 \<in> set xs" using xs(4) links by auto
  have "level demo_three 0 k z \<Longrightarrow> z \<in> {0, 1, 2}" for k z
    by (induction rule: level.induct) (auto simp: links)
  then have "set xs \<subseteq> {0, 1, 2}" using xs(3) by blast
  then have "set xs = {0, 1, 2}" using xs(2) one two by auto
  moreover have "precedes xs 1 0" "precedes xs 1 2"
    using bspec [OF xs(5) one] bspec [OF xs(5) two] by (auto simp: placed_def links)
  ultimately show ?thesis using xs(1) by blast
qed

text \<open>C26: The driver-list operations \<open>CoreAddToDriverList\<close>, \<open>CoreSchedule\<close> and \<open>CoreTrust\<close> keep the
  dispatcher's invariant: every driver is in at most one of the states Dependent, Unrequested,
  Scheduled, Untrusted, Initialized or unread DEPEX, and the scheduled queue holds exactly the
  Scheduled drivers, each once.\<close>

theorem driver_list_operations_keep_invariant:
  assumes "dispatcher_inv s"
  shows "(\<forall>st s'. CoreAddToDriverList svc fv n t s = ret (st, s') \<longrightarrow>
      st = EFI_SUCCESS \<and> ndrivers s' = Suc (ndrivers s) \<and> dispatcher_inv s') \<and>
    dispatcher_inv (snd (CoreSchedule fv n s)) \<and> dispatcher_inv (snd (CoreTrust fv n s))"
proof -
  have "st = EFI_SUCCESS \<and> ndrivers s' = Suc (ndrivers s)" if "CoreAddToDriverList svc fv n t s = ret (st, s')" for st s'
    using that by (auto simp: CoreAddToDriverList_def Let_def split: if_splits)
  with CoreAddToDriverList_inv [OF assms] CoreSchedule_inv [OF assms] CoreTrust_inv [OF assms]
  show ?thesis by blast
qed

theorem driver_list_operations_keep_invariant_witness:
  "dispatcher_inv (snd (CoreSchedule 1 (replicate 16 1)
     (demo_state [(demo_entry 1 False False 0)\<lparr>Dependent := False, Unrequested := True\<rparr>])))"
proof -
  have "dispatcher_inv (demo_state [(demo_entry 1 False False 0)\<lparr>Dependent := False, Unrequested := True\<rparr>])"
    by (auto simp: dispatcher_inv_def one_state_def demo_entry_def demo_driver_def less_Suc_eq)
  from driver_list_operations_keep_invariant [OF this] show ?thesis by blast
qed

text \<open>C11: A whole run of \<open>CoreDispatcher\<close> keeps the invariant and the difference of the file names,
  provided the started images, the processed firmware volumes and the notified events do.\<close>

theorem dispatcher_keeps_invariant:
  assumes "services_inv dispatcher_ok svc" "dispatcher_ok s" "CoreDispatcher svc s = ret (st, s')"
  shows "dispatcher_ok s'"
  using CoreDispatcher_ok [OF assms(3,1,2)] .

text \<open>C19: When the dispatch loop returns, the scheduled queue is empty and every driver still
  Dependent is one whose last DEPEX evaluation, in the protocol database the loop ended with, was
  FALSE: no driver that could run is left behind.  The notification of the dispatch event is
  assumed not to queue drivers itself.\<close>

theorem dispatcher_leaves_nothing_schedulable:
  assumes "\<And>t. mScheduledQueue t = [] \<Longrightarrow> mScheduledQueue (signal_dispatch_event svc t) = []"
    and "dispatch_rounds svc s rs = ret (s', rs')"
  shows "mScheduledQueue s' = [] \<and> (\<forall>i < ndrivers s'. Dependent (entry_of s' i) \<longrightarrow>
    (\<exists>st e st'. CoreIsSchedulable (depex_env_of svc (world s')) st e = ret (False, entry_of s' i, st')))"
  using dispatch_rounds_exit [OF assms(2) [unfolded ret_def] refl assms(1)] by (simp add: not_schedulable_def)

text \<open>C20: The dispatcher ends.  If the services keep the invariant and do not raise the potential
  (they may schedule Unrequested drivers and install protocols, but not add drivers or trust one again),
  \<open>CoreDispatcher\<close> returns, or stops at an ASSERT in a build that has them.\<close>

theorem dispatcher_terminates:
  assumes "services_inv dispatcher_ok svc" "services_calm svc" "dispatcher_ok s"
  shows "CoreDispatcher svc s \<noteq> None \<and>
    ((\<forall>w. \<not> asserts (depex_env_of svc w)) \<longrightarrow> (\<exists>st s'. CoreDispatcher svc s = ret (st, s')))"
proof -
  have "dispatcher_ok (s\<lparr>gDispatcherRunning := True\<rparr>)" using assms(3) by (simp add: dispatcher_ok_def)
  from dispatch_rounds_ends [OF assms(1,2) this]
  have "ends svc (CoreDispatcher svc s)"
    by (auto simp: CoreDispatcher_def Let_def intro!: ends_bind)
  then show ?thesis
    by (auto simp: ends_if_def)
qed

theorem dispatcher_terminates_witness:
  "CoreDispatcher demo_services demo_three \<noteq> None"
  using dispatcher_terminates [OF demo_services_ok demo_three_ok] by blast

text \<open>\<open>gDispatcherRunning\<close> after a call of \<open>CoreDispatcher\<close> that returns: it is set exactly if it was
  set before or the dispatch event could not be created.  So one failure of \<open>CoreCreateEventEx\<close>
  leaves it set with no dispatcher running, and every later call answers EFI_ALREADY_STARTED.\<close>

theorem running_flag_after_dispatch:
  assumes "CoreDispatcher svc s = ret (st, s')"
  shows "(gDispatcherRunning s' \<longleftrightarrow> gDispatcherRunning s \<or> EFI_ERROR (create_dispatch_event svc (world s))) \<and>
    (gDispatcherRunning s' \<longrightarrow> CoreDispatcher svc s' = ret (EFI_ALREADY_STARTED, s'))"
  using assms by (auto simp: CoreDispatcher_def Let_def bind_run_eq_ret split: if_splits)

theorem running_flag_after_dispatch_witness:
  "CoreDispatcher (demo_services\<lparr>create_dispatch_event := \<lambda>_. EFI_OUT_OF_RESOURCES\<rparr>) (demo_three\<lparr>gDispatcherRunning := True\<rparr>) =
     ret (EFI_ALREADY_STARTED, demo_three\<lparr>gDispatcherRunning := True\<rparr>)"
  using running_flag_after_dispatch [of "demo_services\<lparr>create_dispatch_event := \<lambda>_. EFI_OUT_OF_RESOURCES\<rparr>"
      demo_three EFI_OUT_OF_RESOURCES "demo_three\<lparr>gDispatcherRunning := True\<rparr>"]
  by (simp add: CoreDispatcher_def Let_def)


text \<open>For the other witnesses: one driver whose DEPEX is the constant FALSE, and a run that starts one driver.\<close>

definition demo_false :: EFI_CORE_DRIVER_ENTRY where
  "demo_false = demo_driver\<lparr>Depex := Some (\<lambda>k. if k = 0 then EFI_DEP_FALSE else EFI_DEP_END), DepexSize := 2\<rparr>"

lemma demo_false_not_schedulable:
  "CoreIsSchedulable demo_env \<lparr>Cells = [True], StackPointer = 0\<rparr> demo_false =
     ret (False, demo_false, \<lparr>Cells = [False], StackPointer = 0\<rparr>)"
  by (simp add: CoreIsSchedulable_def demo_false_def demo_driver_def depex_loop.simps depex_switch_def push_step_def
      PushBool_def PopBool_def)

abbreviation demo_run :: "bool \<Rightarrow> bool \<Rightarrow> unit dispatcher" where
  "demo_run c r \<equiv> (demo_state [demo_false])\<lparr>DepexStack := \<lparr>Cells = [c], StackPointer = 0\<rparr>, gDispatcherRunning := r\<rparr>"

lemma demo_false_simps:
  "Dependent demo_false" "\<not> DepexProtocolError demo_false" "one_state demo_false" "\<not> Scheduled demo_false"
  "depex_env_of demo_services w = demo_env" "world (demo_state es) = ()" "DepexStack (demo_run True r) = \<lparr>Cells = [True], StackPointer = 0\<rparr>"
  by (simp_all add: demo_false_def demo_driver_def one_state_def demo_services_def demo_state_def)

lemma demo_signal: "signal_dispatch_event demo_services s = s" "close_dispatch_event demo_services s = s"
  "create_dispatch_event demo_services w = EFI_SUCCESS"
  by (simp_all add: demo_services_def)

lemma demo_one_rounds: "dispatch_rounds demo_services (demo_run True r) rs = ret ((demo_run False r), rs)"
proof -
  have e: "entry_of (demo_run True r) 0 = demo_false" by simp
  have s: "search_entry demo_services 0 (demo_run True r) False = ret ((demo_run False r), False)"
    using demo_false_not_schedulable
    by (simp add: search_entry_def Let_def demo_false_simps) (simp add: set_entry_def demo_state_def)
  have d: "drain_scheduled demo_services (demo_run True r) rs = ret (demo_run True r, rs)"
    by (subst drain_scheduled.simps) simp
  show ?thesis
    by (subst dispatch_rounds.simps) (simp add: d Let_def s demo_signal)
qed

theorem dispatcher_leaves_nothing_schedulable_witness:
  "\<exists>st e st'. CoreIsSchedulable demo_env st e = ret (False, demo_false, st')"
proof -
  have "mScheduledQueue t = [] \<Longrightarrow> mScheduledQueue (signal_dispatch_event demo_services t) = []" for t
    by (simp add: demo_services_def)
  from dispatcher_leaves_nothing_schedulable [OF this demo_one_rounds [of False]]
  show ?thesis by (simp add: demo_false_simps)
qed

theorem dispatcher_keeps_invariant_witness:
  "dispatcher_ok (demo_run False False)"
proof -
  have "dispatcher_ok (demo_run True False)"
    by (auto simp: dispatcher_ok_def dispatcher_inv_def unique_names_def less_Suc_eq demo_false_simps)
  moreover have "CoreDispatcher demo_services (demo_run True False) = ret (EFI_NOT_FOUND, demo_run False False)"
    using demo_one_rounds [of True EFI_NOT_FOUND] by (simp add: CoreDispatcher_def demo_signal Let_def)
  ultimately show ?thesis using dispatcher_keeps_invariant [OF demo_services_ok(1)] by blast
qed

text \<open>
  Different file names are needed.  Three drivers: 0 and 2 share the name 1; driver 1, of name 2, is Before name 1,
  and driver 2 is Before name 2.
\<close>

abbreviation demo_dup :: "unit dispatcher" where
  "demo_dup \<equiv> demo_state [demo_entry 1 False False 0, demo_entry 2 True False 1, demo_entry 1 True False 2]"

definition dup_jobs :: "sched_job set" where
  "dup_jobs = {Insert 0, Insert 1, Insert 2, Scan True 0 0, Scan True 0 1, Scan True 1 0, Scan True 1 1,
     Scan True 1 2, Scan True 2 0, Scan True 2 1}"

lemma dup_waits: "waits_for True (demo_dup\<lparr>gDispatcherRunning := True\<rparr>) i d \<longleftrightarrow> (i, d) \<in> {(1, 0), (1, 2), (2, 1)}" if "i < 3" "d < 3"
  using that by (auto simp: waits_for_def less_Suc_eq numeral_eq_Suc replicate_eq_replicate)

lemma dup_never:
  assumes "insert_scheduled job s = Some r" "s = demo_dup\<lparr>gDispatcherRunning := True\<rparr>" "job \<in> dup_jobs" shows False
  using assms
proof (induction rule: insert_scheduled.raw_induct [rotated, consumes 1])
  case (1 ins job s r)
  have no: "ins j (demo_dup\<lparr>gDispatcherRunning := True\<rparr>) = None" if "j \<in> dup_jobs" for j
    using 1(1) [OF _ refl that] by (cases "ins j (demo_dup\<lparr>gDispatcherRunning := True\<rparr>)") auto
  from 1(2,3,4) show ?case
    by (auto simp: dup_jobs_def dup_waits no [unfolded dup_jobs_def] bind_eq_Some_conv split: if_splits)
qed

text \<open>With two drivers of one file name the recursion of
  \<open>CoreInsertOnScheduledQueueWhileProcessingBeforeAndAfter\<close> need not end: with drivers 0 and 2
  named 1, driver 1 (named 2) Before 1 and driver 2 Before 2, a run of \<open>CoreDispatcher\<close> that finds driver 0
  schedulable inserts 1 on account of 0, 2 on account of 1, 1 on account of 2 and so on, for ever.\<close>

theorem duplicate_names_never_return: "CoreDispatcher demo_services demo_dup = None"
proof -
  let ?s = "demo_dup\<lparr>gDispatcherRunning := True\<rparr>"
  have "insert_scheduled (Insert 0) ?s = None"
    using dup_never [of "Insert 0" ?s] by (cases "insert_scheduled (Insert 0) ?s") (auto simp: dup_jobs_def)
  moreover have "CoreIsSchedulable demo_env st (demo_entry 1 False False 0) = ret (True, demo_entry 1 False False 0, st)" for st
    by (simp add: CoreIsSchedulable_def demo_env_def)
  moreover have "set_entry 0 (\<lambda>_. demo_entry 1 False False 0) ?s = ?s"
    by (simp add: set_entry_def demo_state_def)
  ultimately have "search_entry demo_services 0 ?s False = None"
    by (simp add: search_entry_def Let_def demo_false_simps)
  moreover have "drain_scheduled demo_services ?s rs = ret (?s, rs)" for rs
    by (subst drain_scheduled.simps) simp
  ultimately have "dispatch_rounds demo_services ?s EFI_NOT_FOUND = None"
    by (subst dispatch_rounds.simps) (simp add: upt_rec)
  then show ?thesis by (simp add: CoreDispatcher_def demo_signal)
qed

end
