(* ===== verification/Bits.thy ===== *)
theory Bits
  imports Prelude
begin

text \<open>
  The bit scans of BaseLib (MdePkg/Library/BaseLib/HighBitSet32.c, HighBitSet64.c), which the
  core uses to find the highest pending priority, over 32 and 64-bit words.
\<close>

section \<open>HighBitSet32, HighBitSet64\<close>

lemma sint_pos_bit: "0 < sint (w :: u32) \<longleftrightarrow> w \<noteq> 0 \<and> \<not> bit w 31"
  using bit_last_iff [of w] signed_eq_0_iff [of w] by (auto simp: order_less_le)

lemma u32_bit_less: "bit (w :: u32) n \<Longrightarrow> n < 32"
  by (drule bit_imp_le_length) simp

lemma unat_double:
  assumes "\<not> bit (w :: u32) 31" shows "unat (push_bit 1 w) = 2 * unat w"
proof -
  have "unat w < 2 ^ 31"
  proof -
    have "take_bit 31 w = w"
    proof (rule bit_word_eqI)
      fix n assume "n < LENGTH(32)"
      then show "bit (take_bit 31 w) n = bit w n"
        using assms by (cases "n = 31") (auto simp: bit_take_bit_iff)
    qed
    then have "take_bit 31 (unat w) = unat w"
      by (metis unsigned_take_bit_eq)
    then show ?thesis by (simp add: take_bit_nat_eq_self_iff)
  qed
  then show ?thesis
    by (simp add: push_bit_eq_mult unat_word_ariths mult.commute)
qed

function high_bit_loop :: "u32 \<Rightarrow> int \<Rightarrow> int" where
  "high_bit_loop Operand BitIndex =
     (if sint Operand > 0 then high_bit_loop (push_bit 1 Operand) (BitIndex - 1) else BitIndex)"
  by pat_completeness auto

termination
proof (relation "measure (\<lambda>(op, i). 2 ^ 32 - unat op)")
  fix op :: u32 and i :: int
  assume "0 < sint op"
  then have op: "op \<noteq> 0" "\<not> bit op 31" by (simp_all add: sint_pos_bit)
  then have "0 < unat op" by (simp add: unat_gt_0)
  moreover have "unat (push_bit 1 op) < 2 ^ 32" using unsigned_less [of "push_bit 1 op", where ?'a = nat] by simp
  ultimately show "((push_bit 1 op, i - 1), op, i) \<in> measure (\<lambda>(op, i). 2 ^ 32 - unat op)"
    using unat_double [OF op(2)] by simp
qed simp

declare high_bit_loop.simps [simp del]

definition HighBitSet32 :: "u32 \<Rightarrow> int" where
  "HighBitSet32 Operand = (if Operand = 0 then - 1 else high_bit_loop Operand 31)"

definition HighBitSet64 :: "u64 \<Rightarrow> int" where
  "HighBitSet64 Operand =
     (if Operand = ucast (ucast Operand :: u32) then HighBitSet32 (ucast Operand)
      else HighBitSet32 (ucast (drop_bit 32 Operand)) + 32)"

definition highest_bit :: "('a::len) word \<Rightarrow> nat \<Rightarrow> bool" where
  "highest_bit w h \<longleftrightarrow> bit w h \<and> (\<forall>j > h. \<not> bit w j)"

lemma high_bit_loop_highest:
  "Operand \<noteq> 0 \<Longrightarrow> \<exists>h. highest_bit Operand h \<and> high_bit_loop Operand i = i - 31 + int h"
proof (induction Operand i rule: high_bit_loop.induct)
  case (1 op i)
  show ?case
  proof (cases "bit op 31")
    case True
    then have "highest_bit op 31"
      by (auto simp: highest_bit_def dest: u32_bit_less)
    moreover have "high_bit_loop op i = i" using True by (subst high_bit_loop.simps) (simp add: sint_pos_bit)
    ultimately show ?thesis by (intro exI [of _ 31]) simp
  next
    case False
    with 1(2) have pos: "0 < sint op" by (simp add: sint_pos_bit)
    have "push_bit 1 op \<noteq> 0"
      using unat_double [OF False] 1(2) by (metis mult_eq_0_iff unat_eq_zero zero_neq_numeral)
    with 1(1) [OF pos] obtain h where h: "highest_bit (push_bit 1 op) h"
      "high_bit_loop (push_bit 1 op) (i - 1) = i - 1 - 31 + int h" by blast
    have "\<not> bit (push_bit 1 op) 0" by (simp only: bit_push_bit_iff) simp
    with h(1) obtain k where k: "h = Suc k" by (cases h) (simp_all add: highest_bit_def)
    have up: "bit (push_bit 1 op) (Suc j) = bit op j" if "j < 31" for j
      using that by (simp only: bit_push_bit_iff) simp
    have high: "\<not> bit op j" if "31 \<le> j" for j
      using that False u32_bit_less [of op j] by (cases "j = 31") auto
    have "k < 31" using h(1) k u32_bit_less [of "push_bit 1 op" h] by (simp add: highest_bit_def)
    have "bit op k" using h(1) k up [OF \<open>k < 31\<close>] by (simp add: highest_bit_def)
    moreover have "\<not> bit op j" if "k < j" for j
      using h(1) k up [of j] high [of j] that by (cases "j < 31") (auto simp: highest_bit_def)
    ultimately have "highest_bit op k" by (simp add: highest_bit_def)
    moreover have "high_bit_loop op i = i - 31 + int k"
      using h(2) k pos by (subst high_bit_loop.simps) simp
    ultimately show ?thesis by blast
  qed
qed

lemma HighBitSet32_highest:
  "w \<noteq> 0 \<Longrightarrow> \<exists>h. highest_bit w h \<and> HighBitSet32 w = int h"
  using high_bit_loop_highest [of w 31] by (simp add: HighBitSet32_def)

lemma HighBitSet64_highest:
  assumes "w \<noteq> 0" shows "\<exists>h. highest_bit w h \<and> HighBitSet64 w = int h"
proof (cases "w = ucast (ucast w :: u32)")
  case True
  have low: "bit w j \<longleftrightarrow> bit (ucast w :: u32) j" for j
    by (subst True) (auto simp: bit_unsigned_iff dest: u32_bit_less bit_imp_le_length)
  have "(ucast w :: u32) \<noteq> 0" using assms True by auto
  from HighBitSet32_highest [OF this] low True show ?thesis by (auto simp: HighBitSet64_def highest_bit_def)
next
  case False
  let ?d = "ucast (drop_bit 32 w) :: u32"
  have high: "bit w (32 + j) \<longleftrightarrow> bit ?d j" for j
    by (auto simp: bit_unsigned_iff bit_drop_bit_eq dest: bit_imp_le_length)
  have "?d \<noteq> 0"
  proof
    assume "?d = 0"
    with high have z: "\<not> bit w (32 + j)" for j by simp
    have "w = ucast (ucast w :: u32)"
    proof (rule bit_word_eqI)
      fix n assume "n < LENGTH(64)"
      show "bit w n = bit (ucast (ucast w :: u32) :: u64) n"
        using z [of "n - 32"] by (cases "n < 32") (auto simp: bit_unsigned_iff dest: bit_imp_le_length)
    qed
    with False show False by simp
  qed
  from HighBitSet32_highest [OF this] obtain h where h: "highest_bit ?d h" "HighBitSet32 ?d = int h" by blast
  have "highest_bit w (32 + h)"
    unfolding highest_bit_def
  proof (intro conjI allI impI)
    show "bit w (32 + h)" using h(1) high by (simp add: highest_bit_def)
    fix j assume "32 + h < j"
    then obtain k where "j = 32 + k" "h < k" by (metis add_less_cancel_left le_Suc_ex less_imp_le add_lessD1)
    with h(1) high show "\<not> bit w j" by (simp add: highest_bit_def)
  qed
  with h(2) False show ?thesis by (intro exI [of _ "32 + h"]) (simp add: HighBitSet64_def)
qed

lemma HighBitSet64_unique: "highest_bit w h \<Longrightarrow> HighBitSet64 w = int h"
proof -
  assume h: "highest_bit w h"
  then have "w \<noteq> 0" by (auto simp: highest_bit_def)
  then obtain k where "highest_bit w k" "HighBitSet64 w = int k" using HighBitSet64_highest by blast
  with h show ?thesis by (metis highest_bit_def linorder_neqE_nat)
qed

text \<open>C30: \<open>HighBitSet64\<close> finds the highest bit: for a word that is not 0 it returns the index of the highest bit
  that is set, whether that is in the upper or the lower half, and for 0 it returns -1.\<close>

theorem high_bit_set_is_highest:
  "HighBitSet64 0 = - 1 \<and> (w \<noteq> 0 \<longrightarrow> (\<exists>h. bit w h \<and> (\<forall>j > h. \<not> bit w j) \<and> HighBitSet64 w = int h))"
proof
  show "HighBitSet64 0 = - 1" by (simp add: HighBitSet64_def HighBitSet32_def)
  show "w \<noteq> 0 \<longrightarrow> (\<exists>h. bit w h \<and> (\<forall>j > h. \<not> bit w j) \<and> HighBitSet64 w = int h)"
    using HighBitSet64_highest [of w] by (simp add: highest_bit_def conj_assoc)
qed

theorem high_bit_set_is_highest_witness:
  "\<exists>h. bit (0x123456789 :: u64) h \<and> HighBitSet64 0x123456789 = int h"
proof -
  have "(0x123456789 :: u64) \<noteq> 0" by simp
  with high_bit_set_is_highest [of "0x123456789"] show ?thesis by blast
qed

end
