(* ===== verification/Events.thy ===== *)
theory Events
  imports Bits
begin

text \<open>
  Task priorities, events and timers of the DXE core (MdeModulePkg/Core/Dxe: Event/Tpl.c,
  Event/Event.c, Event/Timer.c, and the locks of Library/Library.c).  The queues are the lists the rings of
  \<open>LIST_ENTRY\<close> stand for, an event is named by its address, and \<open>XxxLinked\<close> is the test
  \<open>Xxx.ForwardLink != NULL\<close>.  Notification functions are programs over the event services
  themselves.  The mutual recursion RestoreTPL, notification function, SignalEvent, ReleaseLock,
  RestoreTPL is cut open: every definition takes the \<open>CoreRestoreTpl\<close> it calls as the argument
  \<open>rt\<close>, and the knot is tied at the end with the nesting depth as fuel, which also bounds
  the loops.
\<close>

section \<open>Constants\<close>

abbreviation TPL_APPLICATION :: u64 where "TPL_APPLICATION \<equiv> 4"
abbreviation TPL_CALLBACK :: u64 where "TPL_CALLBACK \<equiv> 8"
abbreviation TPL_NOTIFY :: u64 where "TPL_NOTIFY \<equiv> 16"
abbreviation TPL_HIGH_LEVEL :: u64 where "TPL_HIGH_LEVEL \<equiv> 31"

abbreviation EVT_TIMER :: u32 where "EVT_TIMER \<equiv> 0x80000000"
abbreviation EVT_RUNTIME :: u32 where "EVT_RUNTIME \<equiv> 0x40000000"
abbreviation EVT_NOTIFY_WAIT :: u32 where "EVT_NOTIFY_WAIT \<equiv> 0x00000100"
abbreviation EVT_NOTIFY_SIGNAL :: u32 where "EVT_NOTIFY_SIGNAL \<equiv> 0x00000200"
abbreviation EVT_SIGNAL_EXIT_BOOT_SERVICES :: u32 where "EVT_SIGNAL_EXIT_BOOT_SERVICES \<equiv> 0x00000201"
abbreviation EVT_SIGNAL_VIRTUAL_ADDRESS_CHANGE :: u32 where
  "EVT_SIGNAL_VIRTUAL_ADDRESS_CHANGE \<equiv> 0x60000202"

definition mEventTable :: "u32 list" where
  "mEventTable = [EVT_TIMER OR EVT_NOTIFY_SIGNAL, EVT_TIMER, EVT_NOTIFY_WAIT, EVT_NOTIFY_SIGNAL,
     EVT_SIGNAL_EXIT_BOOT_SERVICES, EVT_SIGNAL_VIRTUAL_ADDRESS_CHANGE, 0, EVT_TIMER OR EVT_NOTIFY_WAIT]"

text \<open>The two GUIDs as the 16 bytes they have in memory.\<close>

definition gEfiEventExitBootServicesGuid :: EFI_GUID where
  "gEfiEventExitBootServicesGuid = [0x55, 0xf0, 0xab, 0x27, 0xb8, 0xb1, 0x26, 0x4c,
     0x80, 0x48, 0x74, 0x8f, 0x37, 0xba, 0xa2, 0xdf]"

definition gEfiEventVirtualAddressChangeGuid :: EFI_GUID where
  "gEfiEventVirtualAddressChangeGuid = [0x98, 0x76, 0xfa, 0x13, 0x31, 0xc8, 0xc7, 0x49,
     0x87, 0xea, 0x8f, 0x43, 0xfc, 0xc2, 0x51, 0x96]"

section \<open>State\<close>

datatype lock_name = EventQueueLock | TimerLock | SystemTimeLock

record EFI_LOCK =
  LockTpl :: u64
  OwnerTpl :: u64
  Acquired :: bool

text \<open>Notification functions: NULL, the two of the core itself, and others by address.\<close>

datatype EFI_EVENT_NOTIFY = NoNotify | CoreCheckTimersNotify | CoreEmptyCallback | UserNotify u64

record IEVENT =
  EventType :: u32
  SignalCount :: u32
  NotifyTpl :: u64
  NotifyFunction :: EFI_EVENT_NOTIFY
  NotifyContext :: u64
  EventGroup :: EFI_GUID
  ExFlag :: bool
  NotifyLinked :: bool
  SignalLinked :: bool
  RuntimeLinked :: bool
  TimerLinked :: bool
  TriggerTime :: u64
  Period :: u64

record 'w event_state =
  gEfiCurrentTpl :: u64
  gEventPending :: u64
  gEventQueue :: "nat \<Rightarrow> ptr list"
  gEventSignalQueue :: "ptr list"
  gRuntimeEvents :: "ptr list"
  mEfiTimerList :: "ptr list"
  mEfiSystemTime :: u64
  mEfiCheckTimerEvent :: ptr
  gIdleLoopEvent :: ptr
  events :: "ptr \<Rightarrow> IEVENT option"
  closed_events :: "ptr set"
  locks :: "lock_name \<Rightarrow> EFI_LOCK"
  gCpu :: bool
  gSmmBase2 :: bool
  interrupts :: bool
  eworld :: 'w

text \<open>
  The calls a program makes, and what they answer.  The last argument of \<open>CreateEventEx\<close> tells whether the
  OUT pointer for the new event is NULL.
\<close>

datatype event_call =
    CreateEventEx u32 u64 EFI_EVENT_NOTIFY u64 "EFI_GUID option" bool
  | SignalEvent ptr
  | CheckEvent ptr
  | WaitForEvent nat "(nat \<Rightarrow> ptr) option"
  | CloseEvent ptr
  | SetTimer ptr u32 u64
  | TimerTick u64

datatype event_answer = Answered efi_status | Created efi_status ptr | Waited efi_status "nat option"

text \<open>
  A program over the event services: it ends, makes a call, or runs a part of itself
  at a raised TPL (\<open>OldTpl = RaiseTPL (n); ...; RestoreTPL (OldTpl)\<close>, the only use of the two the UEFI
  specification allows).  \<open>'w\<close> is whatever else the program reads and writes.
\<close>

datatype 'w prog =
    Done 'w
  | Call 'w event_call "event_answer \<Rightarrow> 'w \<Rightarrow> 'w prog"
  | AtTpl u64 "'w prog" "'w \<Rightarrow> 'w prog"

record 'w event_env =
  asserts_on :: bool
  in_smm :: "'w \<Rightarrow> efi_status \<times> bool"
  alloc_event :: "'w event_state \<Rightarrow> ptr"
  user_notify :: "u64 \<Rightarrow> ptr \<Rightarrow> u64 \<Rightarrow> 'w \<Rightarrow> 'w prog"
  unregister_notify :: "ptr \<Rightarrow> 'w \<Rightarrow> 'w"
  timer_period :: "'w \<Rightarrow> u64"

definition with_event :: "'w event_state \<Rightarrow> ptr \<Rightarrow> (IEVENT \<Rightarrow> 'a run) \<Rightarrow> 'a run" where
  "with_event s e k = (case events s e of None \<Rightarrow> Some (Inl UseAfterFree) | Some ev \<Rightarrow> k ev)"

text \<open>
  The two checks a service starts with, \<open>Event == NULL\<close> and \<open>Event->Signature != EVENT_SIGNATURE\<close>.  The
  pointer is to a live event and passes them, or it is NULL or to memory that never was an event and
  fails them, or it is to an event that was closed: then the signature is read from freed memory, which nobody has
  cleared, and that is a fault.
\<close>

definition check_signature :: "'w event_state \<Rightarrow> ptr \<Rightarrow> 'a run \<Rightarrow> (IEVENT \<Rightarrow> 'a run) \<Rightarrow> 'a run" where
  "check_signature s e bad k =
     (if e = NULL then bad
      else case events s e of
        Some ev \<Rightarrow> k ev
      | None \<Rightarrow> if e \<in> closed_events s then Some (Inl UseAfterFree) else bad)"

definition upd_event :: "ptr \<Rightarrow> (IEVENT \<Rightarrow> IEVENT) \<Rightarrow> 'w event_state \<Rightarrow> 'w event_state" where
  "upd_event e f s = s\<lparr>events := (events s)(e := map_option f (events s e))\<rparr>"

definition set_lock :: "lock_name \<Rightarrow> (EFI_LOCK \<Rightarrow> EFI_LOCK) \<Rightarrow> 'w event_state \<Rightarrow> 'w event_state" where
  "set_lock L f s = s\<lparr>locks := (locks s)(L := f (locks s L))\<rparr>"

section \<open>Task priorities and locks\<close>

definition CoreSetInterruptState :: "'w event_env \<Rightarrow> bool \<Rightarrow> 'w event_state \<Rightarrow> 'w event_state" where
  "CoreSetInterruptState env Enable s =
     (if \<not> gCpu s then s
      else if \<not> Enable then s\<lparr>interrupts := False\<rparr>
      else if \<not> gSmmBase2 s then s\<lparr>interrupts := True\<rparr>
      else let (Status, InSmm) = in_smm env (eworld s) in
        if \<not> EFI_ERROR Status \<and> \<not> InSmm then s\<lparr>interrupts := True\<rparr> else s)"

definition CoreRaiseTpl :: "'w event_env \<Rightarrow> u64 \<Rightarrow> 'w event_state \<Rightarrow> (u64 \<times> 'w event_state) run" where
  "CoreRaiseTpl env NewTpl s =
     (let OldTpl = gEfiCurrentTpl s in
      assert_if (asserts_on env) (\<not> NewTpl < OldTpl)
        (assert_if (asserts_on env) (NewTpl \<le> TPL_HIGH_LEVEL)
          (let s1 = (if TPL_HIGH_LEVEL \<le> NewTpl \<and> OldTpl < TPL_HIGH_LEVEL
                     then CoreSetInterruptState env False s else s)
           in ret (OldTpl, s1\<lparr>gEfiCurrentTpl := NewTpl\<rparr>))))"

definition CoreAcquireLock :: "'w event_env \<Rightarrow> lock_name \<Rightarrow> 'w event_state \<Rightarrow> 'w event_state run" where
  "CoreAcquireLock env L s =
     assert_if (asserts_on env) (\<not> Acquired (locks s L))
       (bind_run (CoreRaiseTpl env (LockTpl (locks s L)) s) (\<lambda>(t, s1).
         ret (set_lock L (\<lambda>l. l\<lparr>OwnerTpl := t, Acquired := True\<rparr>) s1)))"

definition CoreAcquireLockOrFail ::
  "'w event_env \<Rightarrow> lock_name \<Rightarrow> 'w event_state \<Rightarrow> (efi_status \<times> 'w event_state) run" where
  "CoreAcquireLockOrFail env L s =
     (if Acquired (locks s L) then ret (EFI_ACCESS_DENIED, s)
      else bind_run (CoreRaiseTpl env (LockTpl (locks s L)) s) (\<lambda>(t, s1).
        ret (EFI_SUCCESS, set_lock L (\<lambda>l. l\<lparr>OwnerTpl := t, Acquired := True\<rparr>) s1)))"

type_synonym 'w restore = "u64 \<Rightarrow> 'w event_state \<Rightarrow> 'w event_state run"

definition CoreReleaseLock ::
  "'w restore \<Rightarrow> 'w event_env \<Rightarrow> lock_name \<Rightarrow> 'w event_state \<Rightarrow> 'w event_state run" where
  "CoreReleaseLock rt env L s =
     assert_if (asserts_on env) (Acquired (locks s L))
       (rt (OwnerTpl (locks s L)) (set_lock L (\<lambda>l. l\<lparr>Acquired := False\<rparr>) s))"

section \<open>Signalling\<close>

text \<open>\<open>(UINTN) (1 << p)\<close>: the shift is done on a 32-bit int and sign-extended.\<close>

definition tpl_bit :: "nat \<Rightarrow> u64" where
  "tpl_bit p = scast (push_bit p (1 :: u32))"

text \<open>\<open>RemoveEntryList\<close> takes the entry out of whichever ring it is in.\<close>

definition unlink_notify :: "ptr \<Rightarrow> 'w event_state \<Rightarrow> 'w event_state" where
  "unlink_notify e s = s\<lparr>gEventQueue := \<lambda>p. remove1 e (gEventQueue s p)\<rparr>"

definition CoreNotifyEvent :: "'w event_env \<Rightarrow> ptr \<Rightarrow> 'w event_state \<Rightarrow> 'w event_state run" where
  "CoreNotifyEvent env e s =
     assert_if (asserts_on env) (Acquired (locks s EventQueueLock))
       (with_event s e (\<lambda>ev.
         let s1 = (if NotifyLinked ev then unlink_notify e s else s);
             p = unat (NotifyTpl ev)
         in ret (upd_event e (\<lambda>v. v\<lparr>NotifyLinked := True\<rparr>)
              (s1\<lparr>gEventQueue := (gEventQueue s1)(p := gEventQueue s1 p @ [e]),
                  gEventPending := gEventPending s1 OR tpl_bit p\<rparr>))))"

text \<open>The walk over \<open>gEventSignalQueue\<close>, which does not change while it is walked.\<close>

fun notify_group :: "'w event_env \<Rightarrow> EFI_GUID \<Rightarrow> ptr list \<Rightarrow> 'w event_state \<Rightarrow> 'w event_state run" where
  "notify_group env g [] s = ret s"
| "notify_group env g (e # es) s =
     with_event s e (\<lambda>ev.
       bind_run (if EventGroup ev = g then CoreNotifyEvent env e s else ret s) (notify_group env g es))"

definition CoreNotifySignalList ::
  "'w restore \<Rightarrow> 'w event_env \<Rightarrow> EFI_GUID \<Rightarrow> 'w event_state \<Rightarrow> 'w event_state run" where
  "CoreNotifySignalList rt env g s =
     bind_run (CoreAcquireLock env EventQueueLock s) (\<lambda>s1.
       bind_run (notify_group env g (gEventSignalQueue s1) s1) (CoreReleaseLock rt env EventQueueLock))"

text \<open>What \<open>CoreSignalEvent\<close> does, under the lock, to an event whose SignalCount is 0.\<close>

definition signal_first ::
  "'w restore \<Rightarrow> 'w event_env \<Rightarrow> ptr \<Rightarrow> IEVENT \<Rightarrow> 'w event_state \<Rightarrow> 'w event_state run" where
  "signal_first rt env e ev s1 =
     (let s2 = upd_event e (\<lambda>v. v\<lparr>SignalCount := SignalCount v + 1\<rparr>) s1 in
      if EventType ev AND EVT_NOTIFY_SIGNAL \<noteq> 0 then
        if ExFlag ev then
          bind_run (CoreReleaseLock rt env EventQueueLock s2) (\<lambda>s3. with_event s3 e (\<lambda>ev3.
            bind_run (CoreNotifySignalList rt env (EventGroup ev3) s3)
              (CoreAcquireLock env EventQueueLock)))
        else CoreNotifyEvent env e s2
      else ret s2)"

definition CoreSignalEvent ::
  "'w restore \<Rightarrow> 'w event_env \<Rightarrow> ptr \<Rightarrow> 'w event_state \<Rightarrow> (efi_status \<times> 'w event_state) run" where
  "CoreSignalEvent rt env e s =
     check_signature s e (ret (EFI_INVALID_PARAMETER, s)) (\<lambda>_.
       bind_run (CoreAcquireLock env EventQueueLock s) (\<lambda>s1. with_event s1 e (\<lambda>ev.
         bind_run (if SignalCount ev = 0 then signal_first rt env e ev s1 else ret s1)
           (\<lambda>s4. bind_run (CoreReleaseLock rt env EventQueueLock s4) (\<lambda>s5. ret (EFI_SUCCESS, s5))))))"

text \<open>The two halves of \<open>CoreCheckEvent\<close>: queueing the wait notification, and taking the signal.\<close>

definition queue_wait_notify ::
  "'w restore \<Rightarrow> 'w event_env \<Rightarrow> ptr \<Rightarrow> 'w event_state \<Rightarrow> 'w event_state run" where
  "queue_wait_notify rt env e s =
     bind_run (CoreAcquireLock env EventQueueLock s) (\<lambda>s1. with_event s1 e (\<lambda>ev.
       bind_run (if SignalCount ev = 0 then CoreNotifyEvent env e s1 else ret s1)
         (CoreReleaseLock rt env EventQueueLock)))"

definition take_signal ::
  "'w restore \<Rightarrow> 'w event_env \<Rightarrow> ptr \<Rightarrow> 'w event_state \<Rightarrow> (efi_status \<times> 'w event_state) run" where
  "take_signal rt env e s = with_event s e (\<lambda>ev.
     if SignalCount ev \<noteq> 0 then
       bind_run (CoreAcquireLock env EventQueueLock s) (\<lambda>s1. with_event s1 e (\<lambda>ev1.
         if SignalCount ev1 \<noteq> 0 then
           bind_run (CoreReleaseLock rt env EventQueueLock (upd_event e (\<lambda>v. v\<lparr>SignalCount := 0\<rparr>) s1))
             (\<lambda>s2. ret (EFI_SUCCESS, s2))
         else bind_run (CoreReleaseLock rt env EventQueueLock s1) (\<lambda>s2. ret (EFI_NOT_READY, s2))))
     else ret (EFI_NOT_READY, s))"

definition CoreCheckEvent ::
  "'w restore \<Rightarrow> 'w event_env \<Rightarrow> ptr \<Rightarrow> 'w event_state \<Rightarrow> (efi_status \<times> 'w event_state) run" where
  "CoreCheckEvent rt env e s =
     check_signature s e (ret (EFI_INVALID_PARAMETER, s)) (\<lambda>ev.
       if EventType ev AND EVT_NOTIFY_SIGNAL \<noteq> 0 then ret (EFI_INVALID_PARAMETER, s)
       else bind_run
         (if SignalCount ev = 0 \<and> EventType ev AND EVT_NOTIFY_WAIT \<noteq> 0 then queue_wait_notify rt env e s
          else ret s)
         (take_signal rt env e))"

section \<open>Timers\<close>

definition unlink_timer :: "ptr \<Rightarrow> 'w event_state \<Rightarrow> 'w event_state" where
  "unlink_timer e s = upd_event e (\<lambda>v. v\<lparr>TimerLinked := False\<rparr>)
     (s\<lparr>mEfiTimerList := remove1 e (mEfiTimerList s)\<rparr>)"

text \<open>
  The search for the first timer that triggers later, and the insertion before it.  The walk reads
  the trigger time of every event it passes.
\<close>

fun insert_timer_at :: "'w event_state \<Rightarrow> u64 \<Rightarrow> ptr \<Rightarrow> ptr list \<Rightarrow> ptr list run" where
  "insert_timer_at s t e [] = ret [e]"
| "insert_timer_at s t e (x # xs) = with_event s x (\<lambda>ev.
     if TriggerTime ev > t then ret (e # x # xs)
     else bind_run (insert_timer_at s t e xs) (\<lambda>ys. ret (x # ys)))"

definition CoreInsertEventTimer :: "'w event_env \<Rightarrow> ptr \<Rightarrow> 'w event_state \<Rightarrow> 'w event_state run" where
  "CoreInsertEventTimer env e s =
     assert_if (asserts_on env) (Acquired (locks s TimerLock))
       (with_event s e (\<lambda>ev.
         bind_run (insert_timer_at s (TriggerTime ev) e (mEfiTimerList s)) (\<lambda>l.
           ret (upd_event e (\<lambda>v. v\<lparr>TimerLinked := True\<rparr>) (s\<lparr>mEfiTimerList := l\<rparr>)))))"

definition CoreCurrentSystemTime ::
  "'w restore \<Rightarrow> 'w event_env \<Rightarrow> 'w event_state \<Rightarrow> (u64 \<times> 'w event_state) run" where
  "CoreCurrentSystemTime rt env s =
     bind_run (CoreAcquireLock env SystemTimeLock s) (\<lambda>s1.
       bind_run (CoreReleaseLock rt env SystemTimeLock s1) (\<lambda>s2. ret (mEfiSystemTime s1, s2)))"

text \<open>One pass of the loop of \<open>CoreCheckTimers\<close>, for the expired event at the head of the list.\<close>

definition check_timer ::
  "'w restore \<Rightarrow> 'w event_env \<Rightarrow> u64 \<Rightarrow> ptr \<Rightarrow> 'w event_state \<Rightarrow> 'w event_state run" where
  "check_timer rt env SystemTime e s =
     bind_run (CoreSignalEvent rt env e (unlink_timer e s)) (\<lambda>(_, s2). with_event s2 e (\<lambda>ev.
       if Period ev \<noteq> 0 then
         let t = TriggerTime ev + Period ev; s3 = upd_event e (\<lambda>v. v\<lparr>TriggerTime := t\<rparr>) s2 in
         bind_run
           (if t \<le> SystemTime then
              bind_run (CoreSignalEvent rt env (mEfiCheckTimerEvent s3)
                (upd_event e (\<lambda>v. v\<lparr>TriggerTime := SystemTime\<rparr>) s3)) (\<lambda>(_, s4). ret s4)
            else ret s3)
           (CoreInsertEventTimer env e)
       else ret s2))"

fun check_timers_loop ::
  "'w restore \<Rightarrow> nat \<Rightarrow> 'w event_env \<Rightarrow> u64 \<Rightarrow> 'w event_state \<Rightarrow> 'w event_state run" where
  "check_timers_loop rt 0 env SystemTime s = None"
| "check_timers_loop rt (Suc k) env SystemTime s =
     (case mEfiTimerList s of
        [] \<Rightarrow> ret s
      | e # _ \<Rightarrow> with_event s e (\<lambda>ev.
          if TriggerTime ev > SystemTime then ret s
          else bind_run (check_timer rt env SystemTime e s) (check_timers_loop rt k env SystemTime)))"

definition CoreCheckTimers ::
  "'w restore \<Rightarrow> nat \<Rightarrow> 'w event_env \<Rightarrow> 'w event_state \<Rightarrow> 'w event_state run" where
  "CoreCheckTimers rt k env s =
     bind_run (CoreAcquireLock env TimerLock s) (\<lambda>s1.
       bind_run (CoreCurrentSystemTime rt env s1) (\<lambda>(SystemTime, s2).
         bind_run (check_timers_loop rt k env SystemTime s2) (CoreReleaseLock rt env TimerLock)))"

definition CoreTimerTick ::
  "'w restore \<Rightarrow> 'w event_env \<Rightarrow> u64 \<Rightarrow> 'w event_state \<Rightarrow> 'w event_state run" where
  "CoreTimerTick rt env Duration s =
     bind_run (CoreAcquireLock env SystemTimeLock s) (\<lambda>s1.
       let s2 = s1\<lparr>mEfiSystemTime := mEfiSystemTime s1 + Duration\<rparr> in
       bind_run
         (case mEfiTimerList s2 of
            [] \<Rightarrow> ret s2
          | e # _ \<Rightarrow> with_event s2 e (\<lambda>ev.
              if TriggerTime ev \<le> mEfiSystemTime s2 then
                bind_run (CoreSignalEvent rt env (mEfiCheckTimerEvent s2) s2) (\<lambda>(_, s3). ret s3)
              else ret s2))
         (CoreReleaseLock rt env SystemTimeLock))"

abbreviation TimerCancel :: u32 where "TimerCancel \<equiv> 0"
abbreviation TimerPeriodic :: u32 where "TimerPeriodic \<equiv> 1"
abbreviation TimerRelative :: u32 where "TimerRelative \<equiv> 2"

text \<open>The branch of \<open>CoreSetTimer\<close> that does not cancel.\<close>

definition arm_timer ::
  "'w restore \<Rightarrow> 'w event_env \<Rightarrow> ptr \<Rightarrow> u32 \<Rightarrow> u64 \<Rightarrow> 'w event_state \<Rightarrow> 'w event_state run" where
  "arm_timer rt env e Type TriggerTime' s =
     (let t = (if Type = TimerPeriodic \<and> TriggerTime' = 0 then timer_period env (eworld s) else TriggerTime');
          s1 = (if Type = TimerPeriodic then upd_event e (\<lambda>v. v\<lparr>Period := t\<rparr>) s else s) in
      bind_run (CoreCurrentSystemTime rt env s1) (\<lambda>(now, s2).
        bind_run (CoreInsertEventTimer env e (upd_event e (\<lambda>v. v\<lparr>TriggerTime := now + t\<rparr>) s2)) (\<lambda>s3.
          if t = 0 then bind_run (CoreSignalEvent rt env (mEfiCheckTimerEvent s3) s3) (\<lambda>(_, s4). ret s4)
          else ret s3)))"

definition CoreSetTimer ::
  "'w restore \<Rightarrow> 'w event_env \<Rightarrow> ptr \<Rightarrow> u32 \<Rightarrow> u64 \<Rightarrow> 'w event_state \<Rightarrow> (efi_status \<times> 'w event_state) run" where
  "CoreSetTimer rt env e Type TriggerTime' s =
     check_signature s e (ret (EFI_INVALID_PARAMETER, s)) (\<lambda>ev.
       if Type > TimerRelative \<or> EventType ev AND EVT_TIMER = 0 then ret (EFI_INVALID_PARAMETER, s)
       else bind_run (CoreAcquireLock env TimerLock s) (\<lambda>s1. with_event s1 e (\<lambda>ev1.
         let s2 = (if TimerLinked ev1 then unlink_timer e s1 else s1);
             s3 = upd_event e (\<lambda>v. v\<lparr>TriggerTime := 0, Period := 0\<rparr>) s2 in
         bind_run (if Type \<noteq> TimerCancel then arm_timer rt env e Type TriggerTime' s3 else ret s3)
           (\<lambda>s4. bind_run (CoreReleaseLock rt env TimerLock s4) (\<lambda>s5. ret (EFI_SUCCESS, s5))))))"

section \<open>Waiting, creating and closing\<close>

text \<open>The inner loop of \<open>CoreWaitForEvent\<close>: the index and status of the first event that is not EFI_NOT_READY.\<close>

fun wait_scan ::
  "'w restore \<Rightarrow> 'w event_env \<Rightarrow> (nat \<Rightarrow> ptr) \<Rightarrow> nat list \<Rightarrow> 'w event_state \<Rightarrow>
     ((nat \<times> efi_status) option \<times> 'w event_state) run" where
  "wait_scan rt env UserEvents [] s = ret (None, s)"
| "wait_scan rt env UserEvents (i # is) s =
     bind_run (CoreCheckEvent rt env (UserEvents i) s) (\<lambda>(Status, s1).
       if Status \<noteq> EFI_NOT_READY then ret (Some (i, Status), s1) else wait_scan rt env UserEvents is s1)"

fun wait_loop ::
  "'w restore \<Rightarrow> nat \<Rightarrow> 'w event_env \<Rightarrow> nat \<Rightarrow> (nat \<Rightarrow> ptr) \<Rightarrow> 'w event_state \<Rightarrow>
     (efi_status \<times> nat option \<times> 'w event_state) run" where
  "wait_loop rt 0 env n UserEvents s = None"
| "wait_loop rt (Suc k) env n UserEvents s =
     bind_run (wait_scan rt env UserEvents [0 ..< n] s) (\<lambda>(r, s1).
       case r of
         Some (i, Status) \<Rightarrow> ret (Status, Some i, s1)
       | None \<Rightarrow> bind_run (CoreSignalEvent rt env (gIdleLoopEvent s1) s1) (\<lambda>(_, s2).
           wait_loop rt k env n UserEvents s2))"

definition CoreWaitForEvent ::
  "'w restore \<Rightarrow> nat \<Rightarrow> 'w event_env \<Rightarrow> nat \<Rightarrow> (nat \<Rightarrow> ptr) option \<Rightarrow> 'w event_state \<Rightarrow>
     (efi_status \<times> nat option \<times> 'w event_state) run" where
  "CoreWaitForEvent rt k env NumberOfEvents UserEvents s =
     (if gEfiCurrentTpl s \<noteq> TPL_APPLICATION then ret (EFI_UNSUPPORTED, None, s)
      else if NumberOfEvents = 0 then ret (EFI_INVALID_PARAMETER, None, s)
      else case UserEvents of
        None \<Rightarrow> ret (EFI_INVALID_PARAMETER, None, s)
      | Some evs \<Rightarrow> wait_loop rt k env NumberOfEvents evs s)"

text \<open>The Type and EventGroup that the conversion of pre-defined groups leaves; None for the combination it rejects.\<close>

definition convert_group :: "u32 \<Rightarrow> EFI_GUID option \<Rightarrow> (u32 \<times> EFI_GUID option) option" where
  "convert_group Type Group =
     (case Group of
        Some g \<Rightarrow>
          if Type = EVT_SIGNAL_EXIT_BOOT_SERVICES \<or> Type = EVT_SIGNAL_VIRTUAL_ADDRESS_CHANGE then None
          else if g = gEfiEventExitBootServicesGuid then Some (EVT_SIGNAL_EXIT_BOOT_SERVICES, Group)
          else if g = gEfiEventVirtualAddressChangeGuid then Some (EVT_SIGNAL_VIRTUAL_ADDRESS_CHANGE, Group)
          else Some (Type, Group)
      | None \<Rightarrow>
          if Type = EVT_SIGNAL_EXIT_BOOT_SERVICES then Some (Type, Some gEfiEventExitBootServicesGuid)
          else if Type = EVT_SIGNAL_VIRTUAL_ADDRESS_CHANGE
          then Some (Type, Some gEfiEventVirtualAddressChangeGuid)
          else Some (Type, None))"

text \<open>
  \<open>AllocateZeroPool\<close> of an event structure.  That the allocator does not hand out memory in use is built
  in: an answer that names a live event counts as NULL.
\<close>

definition allocate_event :: "'w event_env \<Rightarrow> 'w event_state \<Rightarrow> ptr" where
  "allocate_event env s = (let e = alloc_event env s in if events s e = None then e else NULL)"

text \<open>The initialised structure, and its registration in the lists.\<close>

definition make_event :: "u32 \<Rightarrow> u64 \<Rightarrow> EFI_EVENT_NOTIFY \<Rightarrow> u64 \<Rightarrow> EFI_GUID option \<Rightarrow> IEVENT" where
  "make_event Type NotifyTpl0 Function0 Context0 Group =
     (let notify = (Type AND (EVT_NOTIFY_WAIT OR EVT_NOTIFY_SIGNAL) \<noteq> 0) in
      \<lparr>EventType = Type, SignalCount = 0, NotifyTpl = (if notify then NotifyTpl0 else 0),
       NotifyFunction = (if notify then Function0 else NoNotify),
       NotifyContext = (if notify then Context0 else 0),
       EventGroup = (case Group of None \<Rightarrow> replicate 16 0 | Some g \<Rightarrow> g),
       ExFlag = (Group \<noteq> None), NotifyLinked = False, SignalLinked = False,
       RuntimeLinked = (Type AND EVT_RUNTIME \<noteq> 0), TimerLinked = False, TriggerTime = 0, Period = 0\<rparr>)"

definition register_event ::
  "'w restore \<Rightarrow> 'w event_env \<Rightarrow> ptr \<Rightarrow> IEVENT \<Rightarrow> 'w event_state \<Rightarrow> 'w event_state run" where
  "register_event rt env e ev s =
     (let s1 = s\<lparr>events := (events s)(e \<mapsto> ev), closed_events := closed_events s - {e}\<rparr>;
          s2 = (if RuntimeLinked ev then s1\<lparr>gRuntimeEvents := gRuntimeEvents s1 @ [e]\<rparr> else s1) in
      bind_run (CoreAcquireLock env EventQueueLock s2) (\<lambda>s3.
        CoreReleaseLock rt env EventQueueLock
          (if EventType ev AND EVT_NOTIFY_SIGNAL \<noteq> 0
           then upd_event e (\<lambda>v. v\<lparr>SignalLinked := True\<rparr>)
             (s3\<lparr>gEventSignalQueue := e # gEventSignalQueue s3\<rparr>)
           else s3)))"

text \<open>\<open>EventNull\<close>: the OUT pointer is NULL.\<close>

definition CoreCreateEventInternal ::
  "'w restore \<Rightarrow> 'w event_env \<Rightarrow> u32 \<Rightarrow> u64 \<Rightarrow> EFI_EVENT_NOTIFY \<Rightarrow> u64 \<Rightarrow> EFI_GUID option \<Rightarrow> bool \<Rightarrow>
     'w event_state \<Rightarrow> (efi_status \<times> ptr \<times> 'w event_state) run" where
  "CoreCreateEventInternal rt env Type0 NotifyTpl0 Function0 Context0 Group0 EventNull s =
     (if EventNull then ret (EFI_INVALID_PARAMETER, NULL, s)
      else if Type0 \<notin> set mEventTable then ret (EFI_INVALID_PARAMETER, NULL, s)
      else case convert_group Type0 Group0 of
        None \<Rightarrow> ret (EFI_INVALID_PARAMETER, NULL, s)
      | Some (Type, Group) \<Rightarrow>
          if Type AND (EVT_NOTIFY_WAIT OR EVT_NOTIFY_SIGNAL) \<noteq> 0 \<and>
             (Function0 = NoNotify \<or> NotifyTpl0 \<le> TPL_APPLICATION \<or> NotifyTpl0 \<ge> TPL_HIGH_LEVEL)
          then ret (EFI_INVALID_PARAMETER, NULL, s)
          else if allocate_event env s = NULL then ret (EFI_OUT_OF_RESOURCES, NULL, s)
          else
            bind_run (register_event rt env (allocate_event env s) (make_event Type NotifyTpl0 Function0 Context0 Group) s)
              (\<lambda>s1. ret (EFI_SUCCESS, allocate_event env s, s1)))"

definition CoreCreateEventEx ::
  "'w restore \<Rightarrow> 'w event_env \<Rightarrow> u32 \<Rightarrow> u64 \<Rightarrow> EFI_EVENT_NOTIFY \<Rightarrow> u64 \<Rightarrow> EFI_GUID option \<Rightarrow> bool \<Rightarrow>
     'w event_state \<Rightarrow> (efi_status \<times> ptr \<times> 'w event_state) run" where
  "CoreCreateEventEx rt env Type NotifyTpl' Function Context Group EventNull s =
     (if Type AND (EVT_NOTIFY_WAIT OR EVT_NOTIFY_SIGNAL) \<noteq> 0 \<and>
         NotifyTpl' \<noteq> TPL_APPLICATION \<and> NotifyTpl' \<noteq> TPL_CALLBACK \<and> NotifyTpl' \<noteq> TPL_NOTIFY
      then ret (EFI_INVALID_PARAMETER, NULL, s)
      else CoreCreateEventInternal rt env Type NotifyTpl' Function Context Group EventNull s)"

definition CoreCreateEvent ::
  "'w restore \<Rightarrow> 'w event_env \<Rightarrow> u32 \<Rightarrow> u64 \<Rightarrow> EFI_EVENT_NOTIFY \<Rightarrow> u64 \<Rightarrow> bool \<Rightarrow>
     'w event_state \<Rightarrow> (efi_status \<times> ptr \<times> 'w event_state) run" where
  "CoreCreateEvent rt env Type NotifyTpl' Function Context EventNull s =
     CoreCreateEventEx rt env Type NotifyTpl' Function Context None EventNull s"

text \<open>
  The part of \<open>CoreCloseEvent\<close> that takes the event off the lists and frees it.  The memory counts
  as a closed event until an event is created in it again.
\<close>

definition unregister_event ::
  "'w restore \<Rightarrow> 'w event_env \<Rightarrow> ptr \<Rightarrow> 'w event_state \<Rightarrow> (efi_status \<times> 'w event_state) run" where
  "unregister_event rt env e s1 =
     bind_run (CoreAcquireLock env EventQueueLock s1) (\<lambda>s2. with_event s2 e (\<lambda>ev2.
       let s3 = (if RuntimeLinked ev2 then s2\<lparr>gRuntimeEvents := remove1 e (gRuntimeEvents s2)\<rparr> else s2);
           s4 = (if NotifyLinked ev2 then unlink_notify e s3 else s3);
           s5 = (if SignalLinked ev2 then s4\<lparr>gEventSignalQueue := remove1 e (gEventSignalQueue s4)\<rparr> else s4) in
       bind_run (CoreReleaseLock rt env EventQueueLock s5) (\<lambda>s6.
         ret (EFI_SUCCESS, s6\<lparr>eworld := unregister_notify env e (eworld s6),
                               events := (events s6)(e := None),
                               closed_events := insert e (closed_events s6)\<rparr>))))"

definition CoreCloseEvent ::
  "'w restore \<Rightarrow> 'w event_env \<Rightarrow> ptr \<Rightarrow> 'w event_state \<Rightarrow> (efi_status \<times> 'w event_state) run" where
  "CoreCloseEvent rt env e s =
     check_signature s e (ret (EFI_INVALID_PARAMETER, s)) (\<lambda>ev.
       bind_run (if EventType ev AND EVT_TIMER \<noteq> 0 then
                   bind_run (CoreSetTimer rt env e TimerCancel 0 s) (\<lambda>(_, s1). ret s1)
                 else ret s) (unregister_event rt env e))"

section \<open>Programs, dispatching, RestoreTPL\<close>

definition do_call ::
  "'w restore \<Rightarrow> nat \<Rightarrow> 'w event_env \<Rightarrow> event_call \<Rightarrow> 'w event_state \<Rightarrow> (event_answer \<times> 'w event_state) run" where
  "do_call rt k env c s =
     (case c of
        CreateEventEx Type t f ctx g EventNull \<Rightarrow>
          bind_run (CoreCreateEventEx rt env Type t f ctx g EventNull s) (\<lambda>(st, e, s'). ret (Created st e, s'))
      | SignalEvent e \<Rightarrow> bind_run (CoreSignalEvent rt env e s) (\<lambda>(st, s'). ret (Answered st, s'))
      | CheckEvent e \<Rightarrow> bind_run (CoreCheckEvent rt env e s) (\<lambda>(st, s'). ret (Answered st, s'))
      | WaitForEvent n evs \<Rightarrow>
          bind_run (CoreWaitForEvent rt k env n evs s) (\<lambda>(st, i, s'). ret (Waited st i, s'))
      | CloseEvent e \<Rightarrow> bind_run (CoreCloseEvent rt env e s) (\<lambda>(st, s'). ret (Answered st, s'))
      | SetTimer e Type t \<Rightarrow> bind_run (CoreSetTimer rt env e Type t s) (\<lambda>(st, s'). ret (Answered st, s'))
      | TimerTick d \<Rightarrow> bind_run (CoreTimerTick rt env d s) (\<lambda>s'. ret (Answered EFI_SUCCESS, s')))"

primrec run_prog ::
  "'w prog \<Rightarrow> 'w restore \<Rightarrow> nat \<Rightarrow> 'w event_env \<Rightarrow> 'w event_state \<Rightarrow> 'w event_state run" where
  "run_prog (Done w) rt k env s = ret (s\<lparr>eworld := w\<rparr>)"
| "run_prog (Call w c cont) rt k env s =
     bind_run (do_call rt k env c (s\<lparr>eworld := w\<rparr>)) (\<lambda>(a, s'). run_prog (cont a (eworld s')) rt k env s')"
| "run_prog (AtTpl n body cont) rt k env s =
     bind_run (CoreRaiseTpl env n s) (\<lambda>(t, s1).
       bind_run (run_prog body rt k env s1) (\<lambda>s2.
         bind_run (rt t s2) (\<lambda>s3. run_prog (cont (eworld s3)) rt k env s3)))"

definition call_notify ::
  "'w restore \<Rightarrow> nat \<Rightarrow> 'w event_env \<Rightarrow> ptr \<Rightarrow> IEVENT \<Rightarrow> 'w event_state \<Rightarrow> 'w event_state run" where
  "call_notify rt k env e ev s =
     (case NotifyFunction ev of
        NoNotify \<Rightarrow> Some (Inl NullDeref)
      | CoreCheckTimersNotify \<Rightarrow> CoreCheckTimers rt k env s
      | CoreEmptyCallback \<Rightarrow> ret s
      | UserNotify f \<Rightarrow> run_prog (user_notify env f e (NotifyContext ev) (eworld s)) rt k env s)"

fun notify_loop ::
  "'w restore \<Rightarrow> nat \<Rightarrow> 'w event_env \<Rightarrow> nat \<Rightarrow> 'w event_state \<Rightarrow> 'w event_state run" where
  "notify_loop rt 0 env p s = None"
| "notify_loop rt (Suc k) env p s =
     (case gEventQueue s p of
        [] \<Rightarrow> ret s
      | e # _ \<Rightarrow> with_event s e (\<lambda>ev.
          let s1 = upd_event e (\<lambda>v. v\<lparr>NotifyLinked := False,
                     SignalCount := (if EventType v AND EVT_NOTIFY_SIGNAL \<noteq> 0 then 0 else SignalCount v)\<rparr>)
                   (unlink_notify e s) in
          bind_run (CoreReleaseLock rt env EventQueueLock s1) (\<lambda>s2. with_event s2 e (\<lambda>ev2.
            assert_if (asserts_on env) (NotifyFunction ev2 \<noteq> NoNotify)
              (bind_run (call_notify rt k env e ev2 s2) (\<lambda>s3.
                bind_run (CoreAcquireLock env EventQueueLock s3) (notify_loop rt k env p)))))))"

definition CoreDispatchEventNotifies ::
  "'w restore \<Rightarrow> nat \<Rightarrow> 'w event_env \<Rightarrow> u64 \<Rightarrow> 'w event_state \<Rightarrow> 'w event_state run" where
  "CoreDispatchEventNotifies rt k env Priority s =
     bind_run (CoreAcquireLock env EventQueueLock s) (\<lambda>s1.
       assert_if (asserts_on env) (OwnerTpl (locks s1 EventQueueLock) = Priority)
         (bind_run (notify_loop rt k env (unat Priority) s1) (\<lambda>s2.
           CoreReleaseLock rt env EventQueueLock
             (s2\<lparr>gEventPending := gEventPending s2 AND NOT (tpl_bit (unat Priority))\<rparr>))))"

text \<open>\<open>(-2 << NewTpl) & gEventPending\<close>\<close>

definition above_mask :: "nat \<Rightarrow> u64" where
  "above_mask n = scast (push_bit n (- 2 :: u32))"

definition pending_above :: "u64 \<Rightarrow> 'w event_state \<Rightarrow> u64" where
  "pending_above NewTpl s = above_mask (unat NewTpl) AND gEventPending s"

fun pending_loop ::
  "'w restore \<Rightarrow> nat \<Rightarrow> 'w event_env \<Rightarrow> u64 \<Rightarrow> 'w event_state \<Rightarrow> 'w event_state run" where
  "pending_loop rt 0 env NewTpl s = None"
| "pending_loop rt (Suc k) env NewTpl s =
     (if pending_above NewTpl s \<noteq> 0 then
        let s1 = s\<lparr>gEfiCurrentTpl := word_of_int (HighBitSet64 (gEventPending s))\<rparr>;
            s2 = (if gEfiCurrentTpl s1 < TPL_HIGH_LEVEL then CoreSetInterruptState env True s1 else s1) in
        bind_run (CoreDispatchEventNotifies rt k env (gEfiCurrentTpl s2) s2) (pending_loop rt k env NewTpl)
      else ret s)"

definition restore_body ::
  "'w restore \<Rightarrow> nat \<Rightarrow> 'w event_env \<Rightarrow> u64 \<Rightarrow> 'w event_state \<Rightarrow> 'w event_state run" where
  "restore_body rt k env NewTpl s =
     (let OldTpl = gEfiCurrentTpl s in
      assert_if (asserts_on env) (\<not> OldTpl < NewTpl)
        (assert_if (asserts_on env) (NewTpl \<le> TPL_HIGH_LEVEL)
          (let s1 = (if TPL_HIGH_LEVEL \<le> OldTpl \<and> NewTpl < TPL_HIGH_LEVEL
                     then s\<lparr>gEfiCurrentTpl := TPL_HIGH_LEVEL\<rparr> else s) in
           bind_run (pending_loop rt k env NewTpl s1) (\<lambda>s2.
             let s3 = s2\<lparr>gEfiCurrentTpl := NewTpl\<rparr> in
             ret (if gEfiCurrentTpl s3 < TPL_HIGH_LEVEL then CoreSetInterruptState env True s3 else s3)))))"

primrec CoreRestoreTpl :: "nat \<Rightarrow> 'w event_env \<Rightarrow> 'w restore" where
  "CoreRestoreTpl 0 env = (\<lambda>_ _. None)"
| "CoreRestoreTpl (Suc k) env = restore_body (CoreRestoreTpl k env) k env"

text \<open>The state before \<open>CoreInitializeEventServices\<close> is that of the initialised globals.\<close>

definition initial_locks :: "lock_name \<Rightarrow> EFI_LOCK" where
  "initial_locks L = \<lparr>LockTpl = (case L of TimerLock \<Rightarrow> TPL_HIGH_LEVEL - 1 | _ \<Rightarrow> TPL_HIGH_LEVEL),
     OwnerTpl = 0, Acquired = False\<rparr>"

definition boot_state :: "'w \<Rightarrow> 'w event_state" where
  "boot_state w = \<lparr>gEfiCurrentTpl = TPL_APPLICATION, gEventPending = 0, gEventQueue = \<lambda>_. [],
     gEventSignalQueue = [], gRuntimeEvents = [], mEfiTimerList = [], mEfiSystemTime = 0,
     mEfiCheckTimerEvent = NULL, gIdleLoopEvent = NULL, events = \<lambda>_. None, closed_events = {}, locks = initial_locks,
     gCpu = False, gSmmBase2 = False, interrupts = False, eworld = w\<rparr>"

definition CoreInitializeTimer :: "'w restore \<Rightarrow> 'w event_env \<Rightarrow> 'w event_state \<Rightarrow> 'w event_state run" where
  "CoreInitializeTimer rt env s =
     bind_run (CoreCreateEventInternal rt env EVT_NOTIFY_SIGNAL (TPL_HIGH_LEVEL - 1) CoreCheckTimersNotify 0 None False s)
       (\<lambda>(Status, e, s1). assert_if (asserts_on env) (\<not> EFI_ERROR Status)
          (ret (if EFI_ERROR Status then s1 else s1\<lparr>mEfiCheckTimerEvent := e\<rparr>)))"

definition gIdleLoopEventGuid :: EFI_GUID where
  "gIdleLoopEventGuid = [0x4c, 0x29, 0x8d, 0x3c, 0xc3, 0x5f, 0x51, 0x44,
     0xbb, 0x31, 0xc4, 0xc0, 0x32, 0x29, 0x5e, 0x6c]"

definition CoreInitializeEventServices ::
  "'w restore \<Rightarrow> 'w event_env \<Rightarrow> 'w event_state \<Rightarrow> (efi_status \<times> 'w event_state) run" where
  "CoreInitializeEventServices rt env s =
     (let s1 = s\<lparr>gEventQueue := \<lambda>p. if p \<le> 31 then [] else gEventQueue s p\<rparr> in
      bind_run (CoreInitializeTimer rt env s1) (\<lambda>s2.
        bind_run (CoreCreateEventEx rt env EVT_NOTIFY_SIGNAL TPL_NOTIFY CoreEmptyCallback 0 (Some gIdleLoopEventGuid) False s2)
          (\<lambda>(Status, e, s3). ret (EFI_SUCCESS, if EFI_ERROR Status then s3 else s3\<lparr>gIdleLoopEvent := e\<rparr>))))"

end
