(* ===== verification/EventInvariant.thy ===== *)
theory EventInvariant
  imports Events
begin

text \<open>
  The invariant of the event database and its proof.  A client of the event services is any code that runs with
  some \<open>CoreRestoreTpl\<close>; locale \<open>restore_service\<close> holds what it may assume of
  that, and inside it every service and every program over the services is shown to keep the invariant.
  One level of \<open>restore_body\<close> turns a restore service into a restore service, so \<open>CoreRestoreTpl\<close> of
  every nesting depth is one.
\<close>

section \<open>The invariant of the event database\<close>

type_synonym event_map = "ptr \<Rightarrow> IEVENT option"

text \<open>Every queued event is live, queued once, at its own TPL, and that TPL is marked pending.\<close>

definition notify_inv :: "(nat \<Rightarrow> ptr list) \<Rightarrow> u64 \<Rightarrow> event_map \<Rightarrow> bool" where
  "notify_inv q pend evs \<longleftrightarrow>
     (\<forall>p. distinct (q p)) \<and>
     (\<forall>p e. e \<in> set (q p) \<longleftrightarrow> (\<exists>ev. evs e = Some ev \<and> NotifyLinked ev \<and> unat (NotifyTpl ev) = p)) \<and>
     (\<forall>e ev. evs e = Some ev \<longrightarrow> NotifyLinked ev \<longrightarrow> bit pend (unat (NotifyTpl ev))) \<and>
     (\<forall>p. bit pend p \<longrightarrow> p < 31)"

definition signal_inv :: "ptr list \<Rightarrow> ptr list \<Rightarrow> event_map \<Rightarrow> bool" where
  "signal_inv sq rl evs \<longleftrightarrow> distinct sq \<and> distinct rl \<and>
     (\<forall>e. e \<in> set sq \<longleftrightarrow> (\<exists>ev. evs e = Some ev \<and> SignalLinked ev)) \<and>
     (\<forall>e. e \<in> set rl \<longleftrightarrow> (\<exists>ev. evs e = Some ev \<and> RuntimeLinked ev))"

definition trigger :: "event_map \<Rightarrow> ptr \<Rightarrow> u64" where
  "trigger evs e = (case evs e of None \<Rightarrow> 0 | Some ev \<Rightarrow> TriggerTime ev)"

definition timer_inv :: "ptr list \<Rightarrow> event_map \<Rightarrow> bool" where
  "timer_inv ts evs \<longleftrightarrow> distinct ts \<and> sorted (map (trigger evs) ts) \<and>
     (\<forall>e. e \<in> set ts \<longleftrightarrow> (\<exists>ev. evs e = Some ev \<and> TimerLinked ev))"

definition notify_type :: "IEVENT \<Rightarrow> bool" where
  "notify_type ev \<longleftrightarrow> EventType ev AND (EVT_NOTIFY_WAIT OR EVT_NOTIFY_SIGNAL) \<noteq> 0"

definition event_ok :: "IEVENT \<Rightarrow> bool" where
  "event_ok ev \<longleftrightarrow>
     (SignalLinked ev \<longleftrightarrow> EventType ev AND EVT_NOTIFY_SIGNAL \<noteq> 0) \<and> (NotifyLinked ev \<longrightarrow> notify_type ev) \<and>
     (TimerLinked ev \<longrightarrow> EventType ev AND EVT_TIMER \<noteq> 0) \<and>
     (notify_type ev \<longrightarrow> NotifyFunction ev \<noteq> NoNotify \<and> 4 < NotifyTpl ev \<and> NotifyTpl ev < 31)"

definition types_inv :: "event_map \<Rightarrow> bool" where
  "types_inv evs \<longleftrightarrow> evs NULL = None \<and> (\<forall>e ev. evs e = Some ev \<longrightarrow> event_ok ev)"

definition lock_inv :: "(lock_name \<Rightarrow> EFI_LOCK) \<Rightarrow> bool" where
  "lock_inv lk \<longleftrightarrow> LockTpl (lk EventQueueLock) = 31 \<and> LockTpl (lk SystemTimeLock) = 31 \<and> LockTpl (lk TimerLock) = 30"

definition event_inv :: "'w event_state \<Rightarrow> bool" where
  "event_inv s \<longleftrightarrow> notify_inv (gEventQueue s) (gEventPending s) (events s) \<and>
     signal_inv (gEventSignalQueue s) (gRuntimeEvents s) (events s) \<and>
     timer_inv (mEfiTimerList s) (events s) \<and> types_inv (events s) \<and> lock_inv (locks s)"

text \<open>Nothing pending above the given TPL.\<close>

definition calm :: "u64 \<Rightarrow> 'w event_state \<Rightarrow> bool" where
  "calm t s \<longleftrightarrow> (\<forall>p. bit (gEventPending s) p \<longrightarrow> p \<le> unat t)"

text \<open>Locks that are held stay as they are, the others stay free.\<close>

definition held_same :: "'w event_state \<Rightarrow> 'w event_state \<Rightarrow> bool" where
  "held_same s s' \<longleftrightarrow> (\<forall>L. LockTpl (locks s' L) = LockTpl (locks s L) \<and>
     (if Acquired (locks s L) then locks s' L = locks s L else \<not> Acquired (locks s' L)))"

lemma held_same_refl [simp]: "held_same s s"
  by (simp add: held_same_def)

lemma held_same_trans: "held_same s s' \<Longrightarrow> held_same s' s'' \<Longrightarrow> held_same s s''"
  unfolding held_same_def by metis

subsection \<open>Changing one event\<close>

definition chg :: "event_map \<Rightarrow> ptr \<Rightarrow> (IEVENT \<Rightarrow> IEVENT) \<Rightarrow> event_map" where
  "chg evs e f = evs(e := map_option f (evs e))"

lemma upd_event_events [simp]: "events (upd_event e f s) = chg (events s) e f"
  by (simp add: upd_event_def chg_def)

lemma upd_event_simps [simp]:
  "gEfiCurrentTpl (upd_event e f s) = gEfiCurrentTpl s"
  "gEventPending (upd_event e f s) = gEventPending s"
  "gEventQueue (upd_event e f s) = gEventQueue s"
  "gEventSignalQueue (upd_event e f s) = gEventSignalQueue s"
  "gRuntimeEvents (upd_event e f s) = gRuntimeEvents s"
  "mEfiTimerList (upd_event e f s) = mEfiTimerList s"
  "mEfiSystemTime (upd_event e f s) = mEfiSystemTime s"
  "mEfiCheckTimerEvent (upd_event e f s) = mEfiCheckTimerEvent s"
  "gIdleLoopEvent (upd_event e f s) = gIdleLoopEvent s"
  "closed_events (upd_event e f s) = closed_events s"
  "locks (upd_event e f s) = locks s"
  "eworld (upd_event e f s) = eworld s"
  by (simp_all add: upd_event_def)

lemma chg_eq: "chg evs e f x = (if x = e then map_option f (evs e) else evs x)"
  by (simp add: chg_def)

lemma notify_inv_chg:
  assumes "notify_inv q pend evs"
    and "\<And>ev. evs e = Some ev \<Longrightarrow> NotifyLinked (f ev) = NotifyLinked ev \<and> NotifyTpl (f ev) = NotifyTpl ev"
  shows "notify_inv q pend (chg evs e f)"
  using assms unfolding notify_inv_def chg_eq by (cases "evs e") auto

lemma signal_inv_chg:
  assumes "signal_inv sq rl evs"
    and "\<And>ev. evs e = Some ev \<Longrightarrow> SignalLinked (f ev) = SignalLinked ev \<and> RuntimeLinked (f ev) = RuntimeLinked ev"
  shows "signal_inv sq rl (chg evs e f)"
  using assms unfolding signal_inv_def chg_eq by (cases "evs e") auto

lemma trigger_chg: "trigger (chg evs e f) x = (if x = e then (case evs e of None \<Rightarrow> 0 | Some ev \<Rightarrow> TriggerTime (f ev)) else trigger evs x)"
  by (simp add: trigger_def chg_eq split: option.split)

lemma timer_inv_chg:
  assumes "timer_inv ts evs"
    and "\<And>ev. evs e = Some ev \<Longrightarrow> TimerLinked (f ev) = TimerLinked ev"
    and "\<And>ev. evs e = Some ev \<Longrightarrow> TimerLinked ev \<Longrightarrow> TriggerTime (f ev) = TriggerTime ev"
  shows "timer_inv ts (chg evs e f)"
proof -
  have "map (trigger (chg evs e f)) ts = map (trigger evs) ts"
  proof (rule map_cong)
    fix x assume "x \<in> set ts"
    then obtain ev where "evs x = Some ev" "TimerLinked ev" using assms(1) by (auto simp: timer_inv_def)
    with assms(3) show "trigger (chg evs e f) x = trigger evs x" by (simp add: trigger_chg) (auto simp: trigger_def)
  qed simp
  then have "sorted (map (trigger (chg evs e f)) ts)" using assms(1) by (simp only: timer_inv_def)
  with assms(1,2) show ?thesis unfolding timer_inv_def by (cases "evs e") (simp_all add: chg_eq)
qed

lemma event_ok_chg:
  assumes "event_ok ev" "EventType ev' = EventType ev" "SignalLinked ev' = SignalLinked ev"
    "NotifyFunction ev' = NotifyFunction ev" "NotifyTpl ev' = NotifyTpl ev"
    "NotifyLinked ev' \<longrightarrow> NotifyLinked ev \<or> notify_type ev"
    "TimerLinked ev' \<longrightarrow> TimerLinked ev \<or> EventType ev AND EVT_TIMER \<noteq> 0"
  shows "event_ok ev'"
  using assms by (auto simp: event_ok_def notify_type_def)

lemma types_inv_chg:
  assumes "types_inv evs" and "\<And>ev. evs e = Some ev \<Longrightarrow> event_ok ev \<Longrightarrow> event_ok (f ev)"
  shows "types_inv (chg evs e f)"
  using assms unfolding types_inv_def chg_eq by auto

lemma event_inv_chg:
  assumes "event_inv s"
    and "\<And>ev. events s e = Some ev \<Longrightarrow> NotifyLinked (f ev) = NotifyLinked ev \<and> NotifyTpl (f ev) = NotifyTpl ev \<and>
      SignalLinked (f ev) = SignalLinked ev \<and> RuntimeLinked (f ev) = RuntimeLinked ev \<and>
      TimerLinked (f ev) = TimerLinked ev \<and> EventType (f ev) = EventType ev \<and> NotifyFunction (f ev) = NotifyFunction ev \<and>
      (TimerLinked ev \<longrightarrow> TriggerTime (f ev) = TriggerTime ev)"
  shows "event_inv (upd_event e f s)"
  unfolding event_inv_def
proof (intro conjI)
  show "types_inv (events (upd_event e f s))"
    unfolding upd_event_events by (rule types_inv_chg) (use assms in \<open>auto simp: event_inv_def intro: event_ok_chg\<close>)
qed (use assms in \<open>auto simp: event_inv_def intro!: notify_inv_chg signal_inv_chg timer_inv_chg\<close>)

lemma event_inv_other [simp]:
  "event_inv (s\<lparr>gEfiCurrentTpl := t\<rparr>) = event_inv s"
  "event_inv (s\<lparr>interrupts := i\<rparr>) = event_inv s"
  "event_inv (s\<lparr>mEfiSystemTime := y\<rparr>) = event_inv s"
  "event_inv (s\<lparr>mEfiCheckTimerEvent := e\<rparr>) = event_inv s"
  "event_inv (s\<lparr>gIdleLoopEvent := e\<rparr>) = event_inv s"
  "event_inv (s\<lparr>eworld := w\<rparr>) = event_inv s"
  "event_inv (s\<lparr>closed_events := C\<rparr>) = event_inv s"
  by (simp_all add: event_inv_def)

lemma calm_other [simp]:
  "calm t (s\<lparr>gEfiCurrentTpl := t'\<rparr>) = calm t s"
  "calm t (s\<lparr>interrupts := i\<rparr>) = calm t s"
  "calm t (s\<lparr>mEfiSystemTime := y\<rparr>) = calm t s"
  "calm t (s\<lparr>eworld := w\<rparr>) = calm t s"
  "calm t (s\<lparr>events := evs\<rparr>) = calm t s"
  "calm t (s\<lparr>closed_events := C\<rparr>) = calm t s"
  "calm t (upd_event e f s) = calm t s"
  by (simp_all add: calm_def)

lemma set_lock_simps [simp]:
  "gEfiCurrentTpl (set_lock L f s) = gEfiCurrentTpl s"
  "gEventPending (set_lock L f s) = gEventPending s"
  "gEventQueue (set_lock L f s) = gEventQueue s"
  "gEventSignalQueue (set_lock L f s) = gEventSignalQueue s"
  "gRuntimeEvents (set_lock L f s) = gRuntimeEvents s"
  "mEfiTimerList (set_lock L f s) = mEfiTimerList s"
  "mEfiSystemTime (set_lock L f s) = mEfiSystemTime s"
  "mEfiCheckTimerEvent (set_lock L f s) = mEfiCheckTimerEvent s"
  "gIdleLoopEvent (set_lock L f s) = gIdleLoopEvent s"
  "closed_events (set_lock L f s) = closed_events s"
  "events (set_lock L f s) = events s"
  "eworld (set_lock L f s) = eworld s"
  "locks (set_lock L f s) = (locks s)(L := f (locks s L))"
  "calm t (set_lock L f s) = calm t s"
  by (simp_all add: set_lock_def calm_def)

lemma event_inv_lock: "event_inv s \<Longrightarrow> LockTpl (f (locks s L)) = LockTpl (locks s L) \<Longrightarrow> event_inv (set_lock L f s)"
  by (auto simp: event_inv_def lock_inv_def)

subsection \<open>The pending mask\<close>

lemma bit_tpl_bit: "p < 31 \<Longrightarrow> bit (tpl_bit p) j \<longleftrightarrow> j = p"
  by (auto simp: tpl_bit_def bit_signed_iff bit_exp_iff min_def)

lemma bit_clear_tpl_bit: "p < 31 \<Longrightarrow> bit (x AND NOT (tpl_bit p)) j \<longleftrightarrow> bit x j \<and> j \<noteq> p"
  by (auto simp: bit_and_iff bit_not_iff bit_tpl_bit dest: bit_imp_le_length)

lemma bit_minus_two: "bit (- 2 :: u32) i \<longleftrightarrow> 1 \<le> i \<and> i < 32"
proof -
  have "(- 2 :: u32) = NOT 1" by simp
  then show ?thesis by (simp only: bit_not_iff) (auto simp: bit_1_iff)
qed

lemma bit_above_mask: "n < 31 \<Longrightarrow> bit (above_mask n) j \<longleftrightarrow> n < j \<and> j < 64"
  by (auto simp: above_mask_def bit_signed_iff bit_push_bit_iff min_def bit_minus_two)

lemma above_mask_31: "above_mask 31 = 0"
proof -
  have "push_bit 31 (- 2 :: u32) = 0"
    by (rule bit_word_eqI) (simp only: bit_push_bit_iff bit_minus_two, simp)
  then show ?thesis by (simp only: above_mask_def signed_0)
qed

lemma pending_above_zero:
  assumes "unat n \<le> 31" "\<And>p. bit (gEventPending s) p \<Longrightarrow> p < 31"
  shows "pending_above n s = 0 \<longleftrightarrow> calm n s"
proof (cases "unat n = 31")
  case True
  then have "pending_above n s = 0" by (simp add: pending_above_def above_mask_31)
  with True assms(2) show ?thesis by (auto simp: calm_def dest: less_imp_le)
next
  case False
  then have n: "unat n < 31" using assms(1) by simp
  have "bit (pending_above n s) j \<longleftrightarrow> unat n < j \<and> bit (gEventPending s) j" for j
    using assms(2) [of j] by (auto simp: pending_above_def bit_and_iff bit_above_mask [OF n])
  then show ?thesis unfolding calm_def by (metis bit_0_eq bot_apply bot_bool_def bit_eqI not_le)
qed

subsection \<open>Queueing a notification\<close>

lemma notify_inv_unqueued: "notify_inv q pend evs \<Longrightarrow> evs e = Some ev \<Longrightarrow> \<not> NotifyLinked ev \<Longrightarrow> (\<lambda>p. remove1 e (q p)) = q"
  by (rule ext) (auto simp: notify_inv_def intro!: remove1_idem)

lemma notify_inv_notify:
  assumes inv: "notify_inv q pend evs" and e: "evs e = Some ev" "unat (NotifyTpl ev) = p" "p < 31"
  shows "notify_inv ((\<lambda>p. remove1 e (q p))(p := remove1 e (q p) @ [e])) (pend OR tpl_bit p)
    (chg evs e (\<lambda>v. v\<lparr>NotifyLinked := True\<rparr>))"
  using inv e unfolding notify_inv_def chg_eq
  by (auto simp: bit_or_iff bit_tpl_bit)

lemma notify_inv_unlink:
  assumes "notify_inv q pend evs"
  shows "notify_inv (\<lambda>p. remove1 e (q p)) pend (chg evs e (\<lambda>v. v\<lparr>NotifyLinked := False, SignalCount := g v\<rparr>))"
  using assms unfolding notify_inv_def chg_eq by (auto split: if_splits)

text \<open>Signalling changes nothing of an event but its SignalCount and NotifyLinked.\<close>

definition strip :: "IEVENT \<Rightarrow> IEVENT" where
  "strip v = v\<lparr>SignalCount := 0, NotifyLinked := False\<rparr>"

definition quiet :: "'w event_state \<Rightarrow> 'w event_state \<Rightarrow> bool" where
  "quiet s s' \<longleftrightarrow> gEfiCurrentTpl s' = gEfiCurrentTpl s \<and> mEfiTimerList s' = mEfiTimerList s \<and>
     gEventSignalQueue s' = gEventSignalQueue s \<and> mEfiSystemTime s' = mEfiSystemTime s \<and>
     mEfiCheckTimerEvent s' = mEfiCheckTimerEvent s \<and> closed_events s' = closed_events s \<and> eworld s' = eworld s \<and>
     (\<forall>x. map_option strip (events s' x) = map_option strip (events s x))"

lemma quiet_refl [simp]: "quiet s s"
  by (simp add: quiet_def)

lemma quiet_trans: "quiet s s' \<Longrightarrow> quiet s' s'' \<Longrightarrow> quiet s s''"
  by (simp add: quiet_def)

lemma quiet_Some: "quiet s s' \<Longrightarrow> events s e = Some ev \<Longrightarrow> \<exists>ev'. events s' e = Some ev' \<and> strip ev' = strip ev"
  unfolding quiet_def by (metis map_option_eq_Some)

lemma strip_eqD:
  assumes "strip a = strip b"
  shows "EventType a = EventType b" "NotifyTpl a = NotifyTpl b" "NotifyFunction a = NotifyFunction b"
    "EventGroup a = EventGroup b" "ExFlag a = ExFlag b" "TimerLinked a = TimerLinked b" "TriggerTime a = TriggerTime b"
    "Period a = Period b" "SignalLinked a = SignalLinked b" "RuntimeLinked a = RuntimeLinked b"
  using assms by (cases a; cases b; simp add: strip_def)+

lemma quiet_upd: "(\<And>ev. events s e = Some ev \<Longrightarrow> strip (f ev) = strip ev) \<Longrightarrow> quiet s (upd_event e f s)"
  by (auto simp: quiet_def chg_eq option.map_comp intro!: option.map_cong)

lemma CoreNotifyEvent_eq:
  assumes "event_inv s" "events s e = Some ev" "notify_type ev" "AssertFailed \<in> F"
  shows "holds F (CoreNotifyEvent env e s) (\<lambda>s'. event_inv s' \<and> quiet s s' \<and> locks s' = locks s \<and>
    (\<forall>j. bit (gEventPending s') j \<longleftrightarrow> bit (gEventPending s) j \<or> j = unat (NotifyTpl ev)) \<and>
    gEventQueue s' = (\<lambda>p. remove1 e (gEventQueue s p))
      (unat (NotifyTpl ev) := remove1 e (gEventQueue s (unat (NotifyTpl ev))) @ [e]))"
proof (cases "asserts_on env \<and> \<not> Acquired (locks s EventQueueLock)")
  case True
  then show ?thesis using assms(4) by (simp add: CoreNotifyEvent_def assert_if_def)
next
  case False
  let ?p = "unat (NotifyTpl ev)"
  have inv: "notify_inv (gEventQueue s) (gEventPending s) (events s)" and ok: "event_ok ev"
    using assms by (auto simp: event_inv_def types_inv_def)
  then have p: "?p < 31" using assms(3) by (simp add: event_ok_def word_less_nat_alt)
  define s' where "s' = upd_event e (\<lambda>v. v\<lparr>NotifyLinked := True\<rparr>)
    (s\<lparr>gEventQueue := (\<lambda>p. remove1 e (gEventQueue s p))(?p := remove1 e (gEventQueue s ?p) @ [e]),
       gEventPending := gEventPending s OR tpl_bit ?p\<rparr>)"
  have "CoreNotifyEvent env e s = ret s'"
    using False assms(2) notify_inv_unqueued [OF inv assms(2)]
    by (auto simp: CoreNotifyEvent_def assert_if_def with_event_def unlink_notify_def s'_def Let_def fun_eq_iff)
  moreover have "event_inv s'"
  proof -
    have sg: "signal_inv (gEventSignalQueue s) (gRuntimeEvents s) (chg (events s) e (\<lambda>v. v\<lparr>NotifyLinked := True\<rparr>))"
      by (rule signal_inv_chg) (use assms(1) in \<open>simp_all add: event_inv_def\<close>)
    have tm: "timer_inv (mEfiTimerList s) (chg (events s) e (\<lambda>v. v\<lparr>NotifyLinked := True\<rparr>))"
      by (rule timer_inv_chg) (use assms(1) in \<open>simp_all add: event_inv_def\<close>)
    have ty: "types_inv (chg (events s) e (\<lambda>v. v\<lparr>NotifyLinked := True\<rparr>))"
      by (rule types_inv_chg, use assms(1) in \<open>simp add: event_inv_def\<close>, erule event_ok_chg)
        (use assms(2,3) in \<open>simp_all add: notify_type_def\<close>)
    from sg tm ty notify_inv_notify [OF inv assms(2) refl p] assms(1) show ?thesis
      by (simp add: event_inv_def s'_def)
  qed
  moreover have "quiet s s'"
    by (simp add: quiet_def s'_def chg_eq option.map_comp comp_def strip_def [abs_def])
  ultimately show ?thesis
    using p by (auto simp: s'_def bit_or_iff bit_tpl_bit)
qed

subsection \<open>Acquiring a lock\<close>

lemma CoreSetInterruptState_eq: "\<exists>i. CoreSetInterruptState env b s = s\<lparr>interrupts := i\<rparr>"
proof -
  have "\<exists>i. s = s\<lparr>interrupts := i\<rparr>" by (intro exI [of _ "interrupts s"]) simp
  then show ?thesis by (auto simp: CoreSetInterruptState_def Let_def split: prod.split)
qed

lemma interrupt_state_if: "\<exists>i. (if c then CoreSetInterruptState env b s else s) = s\<lparr>interrupts := i\<rparr>"
proof (cases c)
  case True then show ?thesis using CoreSetInterruptState_eq by simp
next
  case False then show ?thesis by (intro exI [of _ "interrupts s"]) simp
qed

lemma CoreRaiseTpl_eq:
  assumes "asserts_on env" "AssertFailed \<in> F"
  shows "holds F (CoreRaiseTpl env n s) (\<lambda>(t, s'). t = gEfiCurrentTpl s \<and> t \<le> n \<and> n \<le> 31 \<and>
    (\<exists>i. s' = s\<lparr>interrupts := i, gEfiCurrentTpl := n\<rparr>))"
proof -
  define X where "X = (if TPL_HIGH_LEVEL \<le> n \<and> gEfiCurrentTpl s < TPL_HIGH_LEVEL
      then CoreSetInterruptState env False s else s)"
  obtain i where "X = s\<lparr>interrupts := i\<rparr>"
    using interrupt_state_if unfolding X_def by blast
  then show ?thesis
    unfolding CoreRaiseTpl_def Let_def X_def [symmetric] using assms by (auto simp: assert_if_def not_less)
qed

definition locked :: "lock_name \<Rightarrow> 'w event_state \<Rightarrow> 'w event_state \<Rightarrow> bool" where
  "locked L s s' \<longleftrightarrow> \<not> Acquired (locks s L) \<and> gEfiCurrentTpl s \<le> LockTpl (locks s L) \<and>
     (\<exists>i. s' = set_lock L (\<lambda>l. l\<lparr>OwnerTpl := gEfiCurrentTpl s, Acquired := True\<rparr>)
        (s\<lparr>interrupts := i, gEfiCurrentTpl := LockTpl (locks s L)\<rparr>))"

lemma CoreAcquireLock_locked:
  assumes "asserts_on env" "AssertFailed \<in> F"
  shows "holds F (CoreAcquireLock env L s) (locked L s)"
  unfolding CoreAcquireLock_def
  by (rule holds_assert_if [OF assms(2)], rule holds_bind [OF CoreRaiseTpl_eq [OF assms]])
    (use assms in \<open>auto simp: locked_def\<close>)

lemma locked_event_inv: "locked L s s' \<Longrightarrow> event_inv s \<Longrightarrow> event_inv s'"
  by (auto simp: locked_def intro!: event_inv_lock)

lemma locked_simps:
  assumes "locked L s s'"
  shows "gEventPending s' = gEventPending s" "gEventQueue s' = gEventQueue s" "gEventSignalQueue s' = gEventSignalQueue s"
    "gRuntimeEvents s' = gRuntimeEvents s" "mEfiTimerList s' = mEfiTimerList s" "mEfiSystemTime s' = mEfiSystemTime s"
    "mEfiCheckTimerEvent s' = mEfiCheckTimerEvent s" "gIdleLoopEvent s' = gIdleLoopEvent s" "events s' = events s" "eworld s' = eworld s"
    "gEfiCurrentTpl s' = LockTpl (locks s L)" "OwnerTpl (locks s' L) = gEfiCurrentTpl s" "Acquired (locks s' L)"
    "\<And>K. LockTpl (locks s' K) = LockTpl (locks s K)" "\<And>K. K \<noteq> L \<Longrightarrow> locks s' K = locks s K"
    "\<not> Acquired (locks s L)" "gEfiCurrentTpl s \<le> LockTpl (locks s L)" "closed_events s' = closed_events s"
  using assms by (auto simp: locked_def)

lemma locked_calm: "locked L s s' \<Longrightarrow> calm t s' = calm t s"
  by (auto simp: locked_def)

text \<open>What the client sees when it holds a lock \<open>L\<close> it took in state \<open>s\<close>: every other lock as before.\<close>

definition held_but :: "lock_name \<Rightarrow> 'w event_state \<Rightarrow> 'w event_state \<Rightarrow> bool" where
  "held_but L s s' \<longleftrightarrow> \<not> Acquired (locks s L) \<and> (\<forall>K. LockTpl (locks s' K) = LockTpl (locks s K)) \<and>
     Acquired (locks s' L) \<and> OwnerTpl (locks s' L) = gEfiCurrentTpl s \<and>
     (\<forall>K. K \<noteq> L \<longrightarrow> (if Acquired (locks s K) then locks s' K = locks s K else \<not> Acquired (locks s' K)))"

lemma locked_held_but: "locked L s s' \<Longrightarrow> held_but L s s'"
  by (auto simp: locked_def held_but_def)

lemma held_but_same: "held_but L s s' \<Longrightarrow> held_same s' s'' \<Longrightarrow> held_but L s s''"
  unfolding held_but_def held_same_def by metis

lemma held_but_release: "held_but L s s' \<Longrightarrow> held_same s (set_lock L (\<lambda>l. l\<lparr>Acquired := False\<rparr>) s')"
  by (auto simp: held_but_def held_same_def)

lemma held_locks_cong: "locks s2 = locks s1 \<Longrightarrow> held_but L s s2 = held_but L s s1"
  by (simp add: held_but_def)

lemma held_same_cong: "locks s2 = locks s1 \<Longrightarrow> held_same s s2 = held_same s s1"
  by (simp add: held_same_def)

section \<open>The contract of RestoreTPL and its clients\<close>

definition good_from :: "'w event_state \<Rightarrow> 'w event_state \<Rightarrow> bool" where
  "good_from s s' \<longleftrightarrow> event_inv s' \<and> gEfiCurrentTpl s' = gEfiCurrentTpl s \<and> calm (gEfiCurrentTpl s) s' \<and> held_same s s'"

lemma good_from_refl: "event_inv s \<Longrightarrow> calm (gEfiCurrentTpl s) s \<Longrightarrow> good_from s s"
  by (simp add: good_from_def)

lemma good_from_trans: "good_from s s' \<Longrightarrow> good_from s' s'' \<Longrightarrow> good_from s s''"
  by (auto simp: good_from_def elim: held_same_trans)

text \<open>What holding a lock looks like from inside: the state it was taken in, and the invariant.\<close>

definition inside :: "lock_name \<Rightarrow> 'w event_state \<Rightarrow> 'w event_state \<Rightarrow> bool" where
  "inside L s0 s \<longleftrightarrow> event_inv s \<and> held_but L s0 s \<and> gEfiCurrentTpl s0 \<le> LockTpl (locks s0 L) \<and>
     gEfiCurrentTpl s = LockTpl (locks s0 L)"

lemma locked_inside: "locked L s s' \<Longrightarrow> event_inv s \<Longrightarrow> inside L s s'"
  using locked_simps [of L s s'] by (simp add: inside_def locked_event_inv locked_held_but)

lemma inside_same:
  "inside L s0 s \<Longrightarrow> event_inv s' \<Longrightarrow> locks s' = locks s \<Longrightarrow> gEfiCurrentTpl s' = gEfiCurrentTpl s \<Longrightarrow> inside L s0 s'"
  by (simp add: inside_def held_but_def)

lemma inside_upd:
  "inside L s0 s \<Longrightarrow> event_inv (upd_event e f s) \<Longrightarrow> inside L s0 (upd_event e f s)"
  by (rule inside_same) simp_all

definition released :: "lock_name \<Rightarrow> 'w event_state \<Rightarrow> 'w event_state \<Rightarrow> 'w event_state \<Rightarrow> bool" where
  "released L s0 s s' \<longleftrightarrow> (\<exists>i. s' = (set_lock L (\<lambda>l. l\<lparr>Acquired := False\<rparr>) s)\<lparr>gEfiCurrentTpl := gEfiCurrentTpl s0, interrupts := i\<rparr>)"

lemma released_simps:
  assumes "released L s0 s s'"
  shows "gEventPending s' = gEventPending s" "gEventQueue s' = gEventQueue s" "gEventSignalQueue s' = gEventSignalQueue s"
    "gRuntimeEvents s' = gRuntimeEvents s" "mEfiTimerList s' = mEfiTimerList s" "mEfiSystemTime s' = mEfiSystemTime s"
    "mEfiCheckTimerEvent s' = mEfiCheckTimerEvent s" "gIdleLoopEvent s' = gIdleLoopEvent s" "events s' = events s" "eworld s' = eworld s"
    "gEfiCurrentTpl s' = gEfiCurrentTpl s0" "closed_events s' = closed_events s"
  using assms by (auto simp: released_def)

lemma locked_released_quiet: "locked L s0 s1 \<Longrightarrow> quiet s1 s2 \<Longrightarrow> released L s0 s2 s3 \<Longrightarrow> quiet s0 s3"
  using locked_simps [of L s0 s1] released_simps [of L s0 s2 s3] by (simp add: quiet_def)

lemma holds_with_event:
  "(\<And>ev. events s e = Some ev \<Longrightarrow> holds F (k ev) Q) \<Longrightarrow> UseAfterFree \<in> F \<Longrightarrow> holds F (with_event s e k) Q"
  by (simp add: with_event_def split: option.split)

lemma check_signature_simps [simp]:
  "check_signature s NULL bad k = bad"
  "events s e = Some ev \<Longrightarrow> e \<noteq> NULL \<Longrightarrow> check_signature s e bad k = k ev"
  "events s e = None \<Longrightarrow> e \<notin> closed_events s \<Longrightarrow> check_signature s e bad k = bad"
  by (simp_all add: check_signature_def)

lemma holds_check_signature:
  assumes "holds F bad Q" "\<And>ev. events s e = Some ev \<Longrightarrow> e \<noteq> NULL \<Longrightarrow> holds F (k ev) Q" "UseAfterFree \<in> F"
  shows "holds F (check_signature s e bad k) Q"
  using assms by (simp add: check_signature_def split: option.split)

lemma live_event: "event_inv s \<Longrightarrow> events s e = Some ev \<Longrightarrow> e \<noteq> NULL \<and> event_ok ev"
  by (auto simp: event_inv_def types_inv_def)

lemma signal_notify_type: "EventType ev AND EVT_NOTIFY_SIGNAL \<noteq> 0 \<Longrightarrow> notify_type ev"
proof -
  have "EventType ev AND EVT_NOTIFY_SIGNAL = (EventType ev AND (EVT_NOTIFY_WAIT OR EVT_NOTIFY_SIGNAL)) AND EVT_NOTIFY_SIGNAL"
    by (simp add: and.assoc)
  then show "EventType ev AND EVT_NOTIFY_SIGNAL \<noteq> 0 \<Longrightarrow> notify_type ev" by (auto simp: notify_type_def)
qed

lemma wait_notify_type: "EventType ev AND EVT_NOTIFY_WAIT \<noteq> 0 \<Longrightarrow> notify_type ev"
proof -
  have "EventType ev AND EVT_NOTIFY_WAIT = (EventType ev AND (EVT_NOTIFY_WAIT OR EVT_NOTIFY_SIGNAL)) AND EVT_NOTIFY_WAIT"
    by (simp add: and.assoc)
  then show "EventType ev AND EVT_NOTIFY_WAIT \<noteq> 0 \<Longrightarrow> notify_type ev" by (auto simp: notify_type_def)
qed

locale restore_service =
  fixes rt :: "'w restore" and env :: "'w event_env"
  assumes asserts: "asserts_on env"
    and restore_ok: "event_inv s \<Longrightarrow> holds UNIV (rt n s) (\<lambda>s'. event_inv s' \<and> gEfiCurrentTpl s' = n \<and> calm n s' \<and> held_same s s')"
    and restore_idle: "(\<And>p. bit (gEventPending s) p \<Longrightarrow> p < 31) \<Longrightarrow> calm n s \<Longrightarrow>
      holds UNIV (rt n s) (\<lambda>s'. \<exists>i. s' = s\<lparr>gEfiCurrentTpl := n, interrupts := i\<rparr>)"
begin

lemma release_ok:
  assumes "inside L s0 s"
  shows "holds UNIV (CoreReleaseLock rt env L s) (good_from s0)"
proof -
  have inv: "event_inv (set_lock L (\<lambda>l. l\<lparr>Acquired := False\<rparr>) s)"
    using assms by (intro event_inv_lock) (auto simp: inside_def)
  have own: "OwnerTpl (locks s L) = gEfiCurrentTpl s0"
    and hs: "held_same s0 (set_lock L (\<lambda>l. l\<lparr>Acquired := False\<rparr>) s)"
    using assms by (auto simp: inside_def held_but_release) (simp add: held_but_def)
  show ?thesis
    unfolding CoreReleaseLock_def own
    by (rule holds_assert_if, simp, rule holds_weaken [OF restore_ok [OF inv]])
      (auto simp: good_from_def intro: held_same_trans [OF hs])
qed

lemma release_calm:
  assumes "held_but L s0 s" "\<And>p. bit (gEventPending s) p \<Longrightarrow> p < 31" "calm (gEfiCurrentTpl s0) s"
  shows "holds UNIV (CoreReleaseLock rt env L s) (released L s0 s)"
proof -
  have own: "OwnerTpl (locks s L) = gEfiCurrentTpl s0" using assms(1) by (simp add: held_but_def)
  have p: "\<And>p. bit (gEventPending (set_lock L (\<lambda>l. l\<lparr>Acquired := False\<rparr>) s)) p \<Longrightarrow> p < 31"
    and c: "calm (gEfiCurrentTpl s0) (set_lock L (\<lambda>l. l\<lparr>Acquired := False\<rparr>) s)" using assms(2,3) by simp_all
  show ?thesis
    unfolding CoreReleaseLock_def own
    by (intro holds_assert_if holds_weaken [OF restore_idle [OF p c]]) (auto simp: released_def)
qed

lemma release_idle:
  assumes "inside L s0 s" "calm (gEfiCurrentTpl s0) s"
  shows "holds UNIV (CoreReleaseLock rt env L s) (\<lambda>s'. released L s0 s s' \<and> good_from s0 s')"
proof -
  have inv: "event_inv (set_lock L (\<lambda>l. l\<lparr>Acquired := False\<rparr>) s)"
    using assms by (intro event_inv_lock) (auto simp: inside_def)
  have hb: "held_but L s0 s" and p: "\<And>p. bit (gEventPending s) p \<Longrightarrow> p < 31"
    using assms(1) by (auto simp: inside_def event_inv_def notify_inv_def)
  have "good_from s0 s'" if "released L s0 s s'" for s'
    using that inv assms(2) held_same_cong [of s' "set_lock L (\<lambda>l. l\<lparr>Acquired := False\<rparr>) s" s0] held_but_release [OF hb]
    by (auto simp: good_from_def released_def)
  then show ?thesis by (intro holds_weaken [OF release_calm [OF hb p assms(2)]]) auto
qed

lemma acquire_ok: "holds UNIV (CoreAcquireLock env L s) (locked L s)"
  by (rule CoreAcquireLock_locked [OF asserts]) simp

lemma notify_group_ok:
  "event_inv s \<Longrightarrow> set es \<subseteq> set (gEventSignalQueue s) \<Longrightarrow>
    holds UNIV (notify_group env g es s) (\<lambda>s'. event_inv s' \<and> quiet s s' \<and> locks s' = locks s)"
proof (induction es arbitrary: s)
  case (Cons e es)
  show ?case
    unfolding notify_group.simps
  proof (rule holds_with_event, rule holds_bind)
    fix ev assume ev: "events s e = Some ev"
    then have "SignalLinked ev" "event_ok ev"
      using Cons.prems by (auto simp: event_inv_def signal_inv_def types_inv_def)
    then have nt: "notify_type ev" by (simp add: event_ok_def signal_notify_type)
    show "holds UNIV (if EventGroup ev = g then CoreNotifyEvent env e s else ret s)
        (\<lambda>s1. event_inv s1 \<and> quiet s s1 \<and> locks s1 = locks s)"
      using Cons.prems(1) holds_weaken [OF CoreNotifyEvent_eq [OF Cons.prems(1) ev nt, of UNIV env]] by auto
  next
    fix ev s1 assume s1: "event_inv s1 \<and> quiet s s1 \<and> locks s1 = locks s"
    then have "set es \<subseteq> set (gEventSignalQueue s1)" using Cons.prems(2) by (simp add: quiet_def)
    with s1 show "holds UNIV (notify_group env g es s1) (\<lambda>s'. event_inv s' \<and> quiet s s' \<and> locks s' = locks s)"
      by (intro holds_weaken [OF Cons.IH]) (auto intro: quiet_trans)
  qed simp
qed simp

text \<open>The end of a critical section that only signalled; at the two highest TPLs nothing is dispatched.\<close>

lemma release_quiet:
  assumes s1: "locked L s s1" and inv: "event_inv s" and s2: "event_inv s2" "quiet s1 s2" "locks s2 = locks s1"
  shows "holds UNIV (CoreReleaseLock rt env L s2) (\<lambda>s'. good_from s s' \<and> (30 \<le> gEfiCurrentTpl s \<longrightarrow> quiet s s'))"
proof -
  have ins: "inside L s s2"
    using inside_same [OF locked_inside [OF s1 inv]] s2 by (simp add: quiet_def)
  show ?thesis
  proof (cases "30 \<le> gEfiCurrentTpl s")
    case True
    then have "30 \<le> unat (gEfiCurrentTpl s)" by (simp add: word_le_nat_alt)
    moreover have "bit (gEventPending s2) p \<Longrightarrow> p < 31" for p
      using s2 by (auto simp: event_inv_def notify_inv_def)
    ultimately have "calm (gEfiCurrentTpl s) s2" by (fastforce simp: calm_def)
    from release_idle [OF ins this] show ?thesis
      by (rule holds_weaken) (use s1 s2 locked_released_quiet in blast)
  next
    case False
    then show ?thesis using holds_weaken [OF release_ok [OF ins]] by auto
  qed
qed

lemma CoreNotifySignalList_ok:
  assumes "event_inv s"
  shows "holds UNIV (CoreNotifySignalList rt env g s)
    (\<lambda>s'. good_from s s' \<and> (30 \<le> gEfiCurrentTpl s \<longrightarrow> quiet s s'))"
  unfolding CoreNotifySignalList_def
proof (rule holds_bind [OF acquire_ok], rule holds_bind)
  fix s1 assume s1: "locked EventQueueLock s s1"
  show "holds UNIV (notify_group env g (gEventSignalQueue s1) s1) (\<lambda>s2. event_inv s2 \<and> quiet s1 s2 \<and> locks s2 = locks s1)"
    by (rule notify_group_ok) (use locked_event_inv [OF s1 assms] in auto)
  fix s2 assume "event_inv s2 \<and> quiet s1 s2 \<and> locks s2 = locks s1"
  then show "holds UNIV (CoreReleaseLock rt env EventQueueLock s2)
      (\<lambda>s'. good_from s s' \<and> (30 \<le> gEfiCurrentTpl s \<longrightarrow> quiet s s'))"
    by (intro release_quiet [OF s1 assms]) auto
qed

lemma event_inv_SignalCount: "event_inv s \<Longrightarrow> event_inv (upd_event e (\<lambda>v. v\<lparr>SignalCount := g v\<rparr>) s)"
  by (rule event_inv_chg) auto

lemma quiet_SignalCount: "quiet s (upd_event e (\<lambda>v. v\<lparr>SignalCount := g v\<rparr>) s)"
  by (rule quiet_upd) (simp add: strip_def)

lemma CoreSignalEvent_ok:
  assumes inv: "event_inv s" and calm: "calm (gEfiCurrentTpl s) s"
  shows "holds UNIV (CoreSignalEvent rt env e s)
    (\<lambda>(st, s'). good_from s s' \<and> (30 \<le> gEfiCurrentTpl s \<longrightarrow> quiet s s'))"
proof -
  define R where "R x \<longleftrightarrow> (\<exists>s0 y. good_from s s0 \<and> (30 \<le> gEfiCurrentTpl s \<longrightarrow> quiet s s0) \<and>
      locked EventQueueLock s0 y \<and> event_inv x \<and> quiet y x \<and> locks x = locks y)" for x
  have final: "holds UNIV (CoreReleaseLock rt env EventQueueLock x)
      (\<lambda>s'. good_from s s' \<and> (30 \<le> gEfiCurrentTpl s \<longrightarrow> quiet s s'))" if "R x" for x
  proof -
    obtain s0 y where y: "good_from s s0" "30 \<le> gEfiCurrentTpl s \<longrightarrow> quiet s s0" "locked EventQueueLock s0 y"
      "event_inv x" "quiet y x" "locks x = locks y" using \<open>R x\<close> by (auto simp: R_def)
    have i0: "event_inv s0" "gEfiCurrentTpl s0 = gEfiCurrentTpl s" using y(1) by (simp_all add: good_from_def)
    show ?thesis
      by (rule holds_weaken [OF release_quiet [OF y(3) i0(1) y(4,5,6)]])
        (use y(1,2) i0 in \<open>auto intro: good_from_trans quiet_trans\<close>)
  qed
  have body: "holds UNIV (if SignalCount ev = 0 then signal_first rt env e ev s1 else ret s1) R" if s1: "locked EventQueueLock s s1" and ev: "events s1 e = Some ev" for s1 ev
  proof -
    let ?s2 = "upd_event e (\<lambda>v. v\<lparr>SignalCount := SignalCount v + 1\<rparr>) s1"
    have i1: "event_inv s1" by (rule locked_event_inv [OF s1 inv])
    have i2: "event_inv ?s2" by (rule event_inv_SignalCount [OF i1])
    have q2: "quiet s1 ?s2" by (rule quiet_SignalCount)
    have R0: "R x" if "event_inv x" "quiet s1 x" "locks x = locks s1" for x
      unfolding R_def using good_from_refl [OF inv calm] s1 that by (intro exI [of _ s] exI [of _ s1]) simp
    have notify: "holds UNIV (CoreNotifyEvent env e ?s2) R" if sig: "EventType ev AND EVT_NOTIFY_SIGNAL \<noteq> 0"
    proof -
      have e2: "events ?s2 e = Some (ev\<lparr>SignalCount := SignalCount ev + 1\<rparr>)" using ev by (simp add: chg_eq)
      have "notify_type (ev\<lparr>SignalCount := SignalCount ev + 1\<rparr>)"
        using signal_notify_type [OF sig] by (simp add: notify_type_def)
      from CoreNotifyEvent_eq [OF i2 e2 this] show ?thesis
        by (rule holds_weaken) (auto intro!: R0 intro: quiet_trans [OF q2])
    qed
    have group: "holds UNIV (bind_run (CoreReleaseLock rt env EventQueueLock ?s2) (\<lambda>s3. with_event s3 e (\<lambda>ev3.
        bind_run (CoreNotifySignalList rt env (EventGroup ev3) s3) (CoreAcquireLock env EventQueueLock)))) R"
    proof (rule holds_bind [OF release_quiet [OF s1 inv i2 q2]])
      show "locks ?s2 = locks s1" by simp
      fix s3 assume s3: "good_from s s3 \<and> (30 \<le> gEfiCurrentTpl s \<longrightarrow> quiet s s3)"
      then have i3: "event_inv s3" "gEfiCurrentTpl s3 = gEfiCurrentTpl s" by (simp_all add: good_from_def)
      show "holds UNIV (with_event s3 e (\<lambda>ev3. bind_run (CoreNotifySignalList rt env (EventGroup ev3) s3)
          (CoreAcquireLock env EventQueueLock))) R"
      proof (rule holds_with_event, rule holds_bind [OF CoreNotifySignalList_ok [OF i3(1)]])
        fix s4 assume s4: "good_from s3 s4 \<and> (30 \<le> gEfiCurrentTpl s3 \<longrightarrow> quiet s3 s4)"
        show "holds UNIV (CoreAcquireLock env EventQueueLock s4) R"
        proof (rule holds_weaken [OF acquire_ok])
          fix x assume x: "locked EventQueueLock s4 x"
          have "event_inv s4" using s4 by (simp add: good_from_def)
          moreover have "good_from s s4" "30 \<le> gEfiCurrentTpl s \<longrightarrow> quiet s s4"
            using s3 s4 i3(2) by (auto intro: good_from_trans quiet_trans)
          ultimately show "R x" unfolding R_def
            using x locked_event_inv [OF x] by (intro exI [of _ s4] exI [of _ x]) simp
        qed
      qed simp
    qed
    show ?thesis using notify group R0 i1 i2 q2 by (auto simp: signal_first_def Let_def)
  qed
  show ?thesis
    unfolding CoreSignalEvent_def
    by (rule holds_check_signature, use good_from_refl [OF inv calm] in simp,
        rule holds_bind [OF acquire_ok], rule holds_with_event, rule holds_bind [OF body], assumption+,
        rule holds_bind [OF final], assumption, auto)
qed

lemma queue_wait_notify_ok:
  assumes inv: "event_inv s" and ev: "events s e = Some ev" "notify_type ev"
  shows "holds UNIV (queue_wait_notify rt env e s) (good_from s)"
  unfolding queue_wait_notify_def
proof (rule holds_bind [OF acquire_ok], rule holds_with_event, rule holds_bind)
  fix s1 ev1 assume s1: "locked EventQueueLock s s1" and ev1: "events s1 e = Some ev1"
  note i1 = locked_event_inv [OF s1 inv]
  have nt: "notify_type ev1" using ev ev1 locked_simps [OF s1] by simp
  show "holds UNIV (if SignalCount ev1 = 0 then CoreNotifyEvent env e s1 else ret s1)
      (\<lambda>x. event_inv x \<and> quiet s1 x \<and> locks x = locks s1)"
    using i1 holds_weaken [OF CoreNotifyEvent_eq [OF i1 ev1 nt, of UNIV env]] by auto
  fix x assume "event_inv x \<and> quiet s1 x \<and> locks x = locks s1"
  then show "holds UNIV (CoreReleaseLock rt env EventQueueLock x) (good_from s)"
    by (intro holds_weaken [OF release_quiet [OF s1 inv]]) auto
qed simp

lemma take_signal_ok:
  assumes inv: "event_inv s" and calm: "calm (gEfiCurrentTpl s) s"
  shows "holds UNIV (take_signal rt env e s) (\<lambda>(st, s'). good_from s s')"
proof -
  have rel: "holds UNIV (bind_run (CoreReleaseLock rt env EventQueueLock x) (\<lambda>s2. ret (st, s2))) (\<lambda>(st, s'). good_from s s')"
    if "locked EventQueueLock s s1" "event_inv x" "quiet s1 x" "locks x = locks s1" for s1 x st
    by (rule holds_bind [OF release_quiet [OF that(1) inv that(2-4)]]) simp
  have taken: "holds UNIV (if c then bind_run (CoreReleaseLock rt env EventQueueLock (upd_event e (\<lambda>v. v\<lparr>SignalCount := 0\<rparr>) s1))
             (\<lambda>s2. ret (EFI_SUCCESS, s2))
         else bind_run (CoreReleaseLock rt env EventQueueLock s1) (\<lambda>s2. ret (EFI_NOT_READY, s2)))
      (\<lambda>(st, s'). good_from s s')" if s1: "locked EventQueueLock s s1" for s1 c
  proof -
    note i1 = locked_event_inv [OF s1 inv]
    show ?thesis
      by (rule holds_if, rule rel [OF s1 event_inv_SignalCount [OF i1] quiet_SignalCount], simp,
          rule rel [OF s1 i1 quiet_refl refl])
  qed
  have "holds UNIV (bind_run (CoreAcquireLock env EventQueueLock s) (\<lambda>s1. with_event s1 e (\<lambda>ev1.
      if SignalCount ev1 \<noteq> 0 then bind_run (CoreReleaseLock rt env EventQueueLock (upd_event e (\<lambda>v. v\<lparr>SignalCount := 0\<rparr>) s1))
             (\<lambda>s2. ret (EFI_SUCCESS, s2))
         else bind_run (CoreReleaseLock rt env EventQueueLock s1) (\<lambda>s2. ret (EFI_NOT_READY, s2)))))
      (\<lambda>(st, s'). good_from s s')"
    by (rule holds_bind [OF acquire_ok], rule holds_with_event, rule taken) simp_all
  then show ?thesis
    unfolding take_signal_def using good_from_refl [OF inv calm] by (intro holds_with_event) auto
qed

lemma CoreCheckEvent_ok:
  assumes inv: "event_inv s" and calm: "calm (gEfiCurrentTpl s) s"
  shows "holds UNIV (CoreCheckEvent rt env e s) (\<lambda>(st, s'). good_from s s')"
proof -
  have first: "holds UNIV (if SignalCount ev = 0 \<and> EventType ev AND EVT_NOTIFY_WAIT \<noteq> 0
      then queue_wait_notify rt env e s else ret s) (good_from s)" if "events s e = Some ev" for ev
    using queue_wait_notify_ok [OF inv that wait_notify_type] good_from_refl [OF inv calm] by auto
  have second: "holds UNIV (take_signal rt env e s') (\<lambda>(st, s''). good_from s s'')" if s': "good_from s s'" for s'
    by (rule holds_weaken [OF take_signal_ok]) (use s' in \<open>auto simp: good_from_def elim: held_same_trans\<close>)
  show ?thesis
    unfolding CoreCheckEvent_def
    using good_from_refl [OF inv calm] holds_bind [OF first second]
    by (auto intro!: holds_check_signature)
qed

end

section \<open>The timer list\<close>

lemma insert_timer_at_eq:
  "\<forall>x \<in> set xs. events s x \<noteq> None \<Longrightarrow> insert_timer_at s t e xs =
    ret (takeWhile (\<lambda>x. trigger (events s) x \<le> t) xs @ e # dropWhile (\<lambda>x. trigger (events s) x \<le> t) xs)"
proof (induction xs)
  case (Cons x xs)
  then obtain ev where "events s x = Some ev" by auto
  with Cons show ?case by (auto simp: with_event_def trigger_def not_less)
qed simp

lemma timer_inv_insert:
  assumes inv: "timer_inv ts evs" and e: "evs e = Some ev" "\<not> TimerLinked ev"
  defines "P \<equiv> \<lambda>x. trigger evs x \<le> TriggerTime ev"
  shows "timer_inv (takeWhile P ts @ e # dropWhile P ts) (chg evs e (\<lambda>v. v\<lparr>TimerLinked := True\<rparr>))"
proof -
  let ?evs = "chg evs e (\<lambda>v. v\<lparr>TimerLinked := True\<rparr>)" and ?f = "trigger evs"
  have f: "trigger ?evs = ?f" by (rule ext) (simp add: trigger_chg, auto simp: trigger_def e)
  have ni: "e \<notin> set ts" using inv e by (auto simp: timer_inv_def)
  have s: "sorted (map ?f ts)" and d: "distinct ts" using inv by (simp_all add: timer_inv_def)
  have s2: "sorted (map ?f (takeWhile P ts @ dropWhile P ts))" using s by simp
  have fe: "?f e = TriggerTime ev" by (simp add: trigger_def e)
  have gt: "TriggerTime ev \<le> ?f x" if x: "x \<in> set (dropWhile P ts)" for x
  proof -
    obtain y ys where y: "dropWhile P ts = y # ys" using x by (cases "dropWhile P ts") auto
    then have "\<not> P y" using hd_dropWhile [of P ts] by simp
    moreover have "?f y \<le> ?f x" using s2 x y by (auto simp: sorted_append)
    ultimately show ?thesis by (auto simp: P_def)
  qed
  have "sorted (map ?f (takeWhile P ts @ e # dropWhile P ts))"
    using s2 gt fe unfolding map_append sorted_append by (auto simp: P_def dest!: set_takeWhileD intro: order_trans)
  moreover have "distinct (takeWhile P ts @ e # dropWhile P ts)"
  proof -
    have "distinct (takeWhile P ts @ dropWhile P ts)" "e \<notin> set (takeWhile P ts @ dropWhile P ts)" using d ni by simp_all
    then show ?thesis unfolding distinct_append set_append by auto
  qed
  moreover have "x \<in> set (takeWhile P ts @ e # dropWhile P ts) \<longleftrightarrow> x = e \<or> x \<in> set ts" for x
    by (metis Un_iff set_append takeWhile_dropWhile_id set_ConsD list.set_intros)
  ultimately show ?thesis
    using inv e unfolding timer_inv_def f by (auto simp: chg_eq)
qed

lemma timer_inv_unlink:
  assumes "timer_inv ts evs"
  shows "timer_inv (remove1 e ts) (chg evs e (\<lambda>v. v\<lparr>TimerLinked := False\<rparr>))"
proof -
  let ?evs = "chg evs e (\<lambda>v. v\<lparr>TimerLinked := False\<rparr>)"
  have f: "trigger ?evs = trigger evs" by (rule ext) (simp add: trigger_chg, simp add: trigger_def split: option.split)
  show ?thesis
    using assms unfolding timer_inv_def f by (auto simp: chg_eq sorted_map_remove1)
qed

lemma event_inv_unlink_timer:
  assumes "event_inv s" shows "event_inv (unlink_timer e s)"
proof -
  let ?f = "\<lambda>v. v\<lparr>TimerLinked := False\<rparr>"
  have "notify_inv (gEventQueue s) (gEventPending s) (chg (events s) e ?f)"
    by (rule notify_inv_chg) (use assms in \<open>simp_all add: event_inv_def\<close>)
  moreover have "signal_inv (gEventSignalQueue s) (gRuntimeEvents s) (chg (events s) e ?f)"
    by (rule signal_inv_chg) (use assms in \<open>simp_all add: event_inv_def\<close>)
  moreover have "types_inv (chg (events s) e ?f)"
    by (rule types_inv_chg, use assms in \<open>simp add: event_inv_def\<close>, erule event_ok_chg) simp_all
  ultimately show ?thesis
    using assms timer_inv_unlink [of "mEfiTimerList s" "events s" e] by (simp add: event_inv_def unlink_timer_def)
qed

lemma unlink_timer_simps [simp]:
  "locks (unlink_timer e s) = locks s" "gEfiCurrentTpl (unlink_timer e s) = gEfiCurrentTpl s"
  "gEventPending (unlink_timer e s) = gEventPending s"
  "events (unlink_timer e s) = chg (events s) e (\<lambda>v. v\<lparr>TimerLinked := False\<rparr>)"
  "mEfiTimerList (unlink_timer e s) = remove1 e (mEfiTimerList s)"
  "mEfiSystemTime (unlink_timer e s) = mEfiSystemTime s"
  "mEfiCheckTimerEvent (unlink_timer e s) = mEfiCheckTimerEvent s"
  by (simp_all add: unlink_timer_def)

text \<open>What the insertion of a timer leaves alone.\<close>

lemma CoreInsertEventTimer_ok:
  assumes inv: "event_inv s" and e: "events s e = Some ev" "\<not> TimerLinked ev" "EventType ev AND EVT_TIMER \<noteq> 0"
    and F: "AssertFailed \<in> F"
  shows "holds F (CoreInsertEventTimer env e s) (\<lambda>s'. event_inv s' \<and>
    s' = upd_event e (\<lambda>v. v\<lparr>TimerLinked := True\<rparr>) (s\<lparr>mEfiTimerList :=
      takeWhile (\<lambda>x. trigger (events s) x \<le> TriggerTime ev) (mEfiTimerList s) @ e #
      dropWhile (\<lambda>x. trigger (events s) x \<le> TriggerTime ev) (mEfiTimerList s)\<rparr>))"
proof -
  let ?l = "takeWhile (\<lambda>x. trigger (events s) x \<le> TriggerTime ev) (mEfiTimerList s) @ e #
      dropWhile (\<lambda>x. trigger (events s) x \<le> TriggerTime ev) (mEfiTimerList s)"
  let ?f = "\<lambda>v. v\<lparr>TimerLinked := True\<rparr>"
  have tm: "timer_inv (mEfiTimerList s) (events s)" using inv by (simp add: event_inv_def)
  then have live: "\<forall>x \<in> set (mEfiTimerList s). events s x \<noteq> None" by (auto simp: timer_inv_def)
  have "notify_inv (gEventQueue s) (gEventPending s) (chg (events s) e ?f)"
    by (rule notify_inv_chg) (use inv in \<open>simp_all add: event_inv_def\<close>)
  moreover have "signal_inv (gEventSignalQueue s) (gRuntimeEvents s) (chg (events s) e ?f)"
    by (rule signal_inv_chg) (use inv in \<open>simp_all add: event_inv_def\<close>)
  moreover have "types_inv (chg (events s) e ?f)"
    by (rule types_inv_chg, use inv in \<open>simp add: event_inv_def\<close>, erule event_ok_chg) (use e in simp_all)
  ultimately have "event_inv (upd_event e ?f (s\<lparr>mEfiTimerList := ?l\<rparr>))"
    using inv timer_inv_insert [OF tm e(1,2)] by (simp add: event_inv_def)
  then show ?thesis
    using F by (simp add: CoreInsertEventTimer_def assert_if_def with_event_def e(1) insert_timer_at_eq [OF live])
qed

lemma calm_high: "event_inv s \<Longrightarrow> 30 \<le> gEfiCurrentTpl s \<Longrightarrow> calm (gEfiCurrentTpl s) s"
  by (fastforce simp: calm_def event_inv_def notify_inv_def word_le_nat_alt)

lemma inside_good: "inside L s0 s1 \<Longrightarrow> good_from s1 s2 \<Longrightarrow> inside L s0 s2"
  by (auto simp: inside_def good_from_def intro: held_but_same)

lemma inside_inv: "inside L s0 s \<Longrightarrow> event_inv s"
  by (simp add: inside_def)

text \<open>Under the timer lock or the system time lock nothing is dispatched.\<close>

lemma inside_high:
  assumes "inside L s0 s" "event_inv s0" shows "30 \<le> gEfiCurrentTpl s" "calm (gEfiCurrentTpl s) s"
proof -
  show "30 \<le> gEfiCurrentTpl s"
    using assms by (cases L) (auto simp: inside_def event_inv_def lock_inv_def)
  with calm_high inside_inv [OF assms(1)] show "calm (gEfiCurrentTpl s) s" by blast
qed

definition idle_timer :: "ptr \<Rightarrow> 'w event_state \<Rightarrow> bool" where
  "idle_timer e s \<longleftrightarrow> (\<forall>v. events s e = Some v \<longrightarrow> \<not> TimerLinked v \<and> EventType v AND EVT_TIMER \<noteq> 0)"

lemma idle_timer_quiet:
  assumes "quiet s s'" "idle_timer e s" shows "idle_timer e s'"
  unfolding idle_timer_def
proof (intro allI impI)
  fix v assume v: "events s' e = Some v"
  have "map_option strip (events s' e) = map_option strip (events s e)" using assms(1) by (simp add: quiet_def)
  then obtain u where "events s e = Some u" "strip v = strip u" using v by (cases "events s e") auto
  with strip_eqD [OF this(2)] assms(2) show "\<not> TimerLinked v \<and> EventType v AND EVT_TIMER \<noteq> 0"
    by (simp add: idle_timer_def)
qed

lemma idle_timer_unlink:
  assumes "event_inv s" "e \<in> set (mEfiTimerList s)" shows "idle_timer e (unlink_timer e s)"
proof -
  obtain ev where "events s e = Some ev" "TimerLinked ev" "event_ok ev"
    using assms by (auto simp: event_inv_def timer_inv_def types_inv_def)
  then show ?thesis by (simp add: idle_timer_def chg_eq event_ok_def)
qed

context restore_service
begin

lemma CoreCurrentSystemTime_ok:
  assumes inv: "event_inv s" and calm: "calm (gEfiCurrentTpl s) s"
  shows "holds UNIV (CoreCurrentSystemTime rt env s)
    (\<lambda>(t, s'). t = mEfiSystemTime s \<and> good_from s s' \<and> quiet s s' \<and> events s' = events s)"
  unfolding CoreCurrentSystemTime_def
proof (rule holds_bind [OF acquire_ok])
  fix s1 assume s1: "locked SystemTimeLock s s1"
  note ins = locked_inside [OF s1 inv]
  have c: "calm (gEfiCurrentTpl s) s1" using calm locked_calm [OF s1] by simp
  show "holds UNIV (bind_run (CoreReleaseLock rt env SystemTimeLock s1) (\<lambda>s2. ret (mEfiSystemTime s1, s2)))
      (\<lambda>(t, s'). t = mEfiSystemTime s \<and> good_from s s' \<and> quiet s s' \<and> events s' = events s)"
  proof (rule holds_bind [OF release_idle [OF ins c]])
    fix s2 assume s2: "released SystemTimeLock s s1 s2 \<and> good_from s s2"
    then have "quiet s s2" using locked_released_quiet [OF s1 quiet_refl] by blast
    with s2 show "holds UNIV (ret (mEfiSystemTime s1, s2))
        (\<lambda>(t, s'). t = mEfiSystemTime s \<and> good_from s s' \<and> quiet s s' \<and> events s' = events s)"
      using released_simps [of SystemTimeLock s s1 s2] locked_simps [OF s1] by simp
  qed
qed

lemma SignalEvent_inside:
  assumes "inside L s0 s" "event_inv s0"
  shows "holds UNIV (CoreSignalEvent rt env e s) (\<lambda>(st, s'). inside L s0 s' \<and> good_from s s' \<and> quiet s s')"
  by (rule holds_weaken [OF CoreSignalEvent_ok [OF inside_inv [OF assms(1)] inside_high(2) [OF assms]]])
    (use assms inside_high(1) [OF assms] in \<open>auto intro: inside_good\<close>)

text \<open>A timer event outside the timer list, whose timer fields may be changed.\<close>

lemma inside_timer_fields:
  assumes "inside L s0 s" "idle_timer e s" and "\<And>v. \<exists>t p. f v = v\<lparr>TriggerTime := t, Period := p\<rparr>"
  shows "inside L s0 (upd_event e f s)" "idle_timer e (upd_event e f s)"
proof -
  show "inside L s0 (upd_event e f s)"
  proof (rule inside_upd [OF assms(1)], rule event_inv_chg [OF inside_inv [OF assms(1)]])
    fix ev assume "events s e = Some ev"
    with assms(2) have n: "\<not> TimerLinked ev" by (simp add: idle_timer_def)
    obtain t p where "f ev = ev\<lparr>TriggerTime := t, Period := p\<rparr>" using assms(3) by blast
    with n show "NotifyLinked (f ev) = NotifyLinked ev \<and> NotifyTpl (f ev) = NotifyTpl ev \<and>
        SignalLinked (f ev) = SignalLinked ev \<and> RuntimeLinked (f ev) = RuntimeLinked ev \<and>
        TimerLinked (f ev) = TimerLinked ev \<and> EventType (f ev) = EventType ev \<and> NotifyFunction (f ev) = NotifyFunction ev \<and>
        (TimerLinked ev \<longrightarrow> TriggerTime (f ev) = TriggerTime ev)" by simp
  qed
  show "idle_timer e (upd_event e f s)"
    unfolding idle_timer_def
  proof (intro allI impI)
    fix v assume "events (upd_event e f s) e = Some v"
    then obtain u where u: "events s e = Some u" "v = f u" by (cases "events s e") (auto simp: chg_eq)
    obtain t p where "f u = u\<lparr>TriggerTime := t, Period := p\<rparr>" using assms(3) by blast
    with u assms(2) show "\<not> TimerLinked v \<and> EventType v AND EVT_TIMER \<noteq> 0" by (simp add: idle_timer_def)
  qed
qed

lemma timer_fields_ex:
  "\<exists>t p. v\<lparr>TriggerTime := a\<rparr> = v\<lparr>TriggerTime := t, Period := p\<rparr>"
  "\<exists>t p. v\<lparr>Period := b\<rparr> = v\<lparr>TriggerTime := t, Period := p\<rparr>"
  "\<exists>t p. v\<lparr>TriggerTime := a, Period := b\<rparr> = v\<lparr>TriggerTime := t, Period := p\<rparr>"
  by (intro exI [of _ a] exI [of _ "Period v"], simp) (intro exI [of _ "TriggerTime v"] exI [of _ b], simp, blast)

lemma insert_inside:
  assumes ins: "inside L s0 s" and e: "idle_timer e s"
  shows "holds UNIV (CoreInsertEventTimer env e s) (inside L s0)"
proof (cases "events s e")
  case None
  then show ?thesis by (simp add: CoreInsertEventTimer_def assert_if_def with_event_def)
next
  case (Some ev)
  then have "\<not> TimerLinked ev" "EventType ev AND EVT_TIMER \<noteq> 0" using e by (auto simp: idle_timer_def)
  from CoreInsertEventTimer_ok [OF inside_inv [OF ins] Some this UNIV_I] show ?thesis
    by (rule holds_weaken) (auto intro!: inside_same [OF ins])
qed

lemma signal_idle_timer:
  assumes "inside L s0 s" "event_inv s0" "idle_timer e s"
  shows "holds UNIV (bind_run (CoreSignalEvent rt env x s) (\<lambda>(_, s'). ret s'))
    (\<lambda>s'. inside L s0 s' \<and> idle_timer e s')"
  by (rule holds_bind [OF SignalEvent_inside [OF assms(1,2)]]) (auto intro: idle_timer_quiet [OF _ assms(3)])

lemma check_timer_ok:
  assumes ins: "inside TimerLock s0 s" and inv: "event_inv s0" and e: "e \<in> set (mEfiTimerList s)"
  shows "holds UNIV (check_timer rt env SystemTime e s) (inside TimerLock s0)"
proof -
  have i1: "inside TimerLock s0 (unlink_timer e s)"
    using inside_same [OF ins event_inv_unlink_timer [OF inside_inv [OF ins]]] by simp
  have d1: "idle_timer e (unlink_timer e s)" by (rule idle_timer_unlink [OF inside_inv [OF ins] e])
  show ?thesis
    unfolding check_timer_def
  proof (rule holds_bind [OF SignalEvent_inside [OF i1 inv]], clarify, rule holds_with_event)
    fix s2 ev
    assume s2: "inside TimerLock s0 s2" "quiet (unlink_timer e s) s2" and ev: "events s2 e = Some ev"
    note d2 = idle_timer_quiet [OF s2(2) d1]
    define t where "t = TriggerTime ev + Period ev"
    define s3 where "s3 = upd_event e (\<lambda>v. v\<lparr>TriggerTime := t\<rparr>) s2"
    have i3: "inside TimerLock s0 s3" "idle_timer e s3"
      unfolding s3_def by (rule inside_timer_fields [OF s2(1) d2 timer_fields_ex(1)])+
    note i4 = inside_timer_fields [OF i3, of "\<lambda>v. v\<lparr>TriggerTime := SystemTime\<rparr>", OF timer_fields_ex(1)]
    have "holds UNIV (bind_run (if t \<le> SystemTime then
              bind_run (CoreSignalEvent rt env (mEfiCheckTimerEvent s3)
                (upd_event e (\<lambda>v. v\<lparr>TriggerTime := SystemTime\<rparr>) s3)) (\<lambda>(_, s4). ret s4)
            else ret s3) (CoreInsertEventTimer env e)) (inside TimerLock s0)"
    proof (rule holds_bind [OF holds_if])
      show "holds UNIV (ret s3) (\<lambda>s4. inside TimerLock s0 s4 \<and> idle_timer e s4)" using i3 by simp
      show "holds UNIV (bind_run (CoreSignalEvent rt env (mEfiCheckTimerEvent s3)
                (upd_event e (\<lambda>v. v\<lparr>TriggerTime := SystemTime\<rparr>) s3)) (\<lambda>(_, s4). ret s4))
        (\<lambda>s4. inside TimerLock s0 s4 \<and> idle_timer e s4)" by (rule signal_idle_timer [OF i4(1) inv i4(2)])
    qed (use insert_inside in auto)
    then show "holds UNIV (if Period ev \<noteq> 0 then
         let t = TriggerTime ev + Period ev; s3 = upd_event e (\<lambda>v. v\<lparr>TriggerTime := t\<rparr>) s2 in
         bind_run
           (if t \<le> SystemTime then
              bind_run (CoreSignalEvent rt env (mEfiCheckTimerEvent s3)
                (upd_event e (\<lambda>v. v\<lparr>TriggerTime := SystemTime\<rparr>) s3)) (\<lambda>(_, s4). ret s4)
            else ret s3)
           (CoreInsertEventTimer env e)
       else ret s2) (inside TimerLock s0)"
      unfolding Let_def t_def [symmetric] s3_def [symmetric] by (rule holds_if) (simp add: s2(1))
  qed simp
qed

lemma check_timers_loop_ok:
  "inside TimerLock s0 s \<Longrightarrow> event_inv s0 \<Longrightarrow> holds UNIV (check_timers_loop rt k env SystemTime s) (inside TimerLock s0)"
proof (induction k arbitrary: s)
  case (Suc k)
  then show ?case
    by (auto split: list.split intro!: holds_with_event holds_bind [OF check_timer_ok])
qed simp

lemma CoreCheckTimers_ok:
  assumes inv: "event_inv s" and calm: "calm (gEfiCurrentTpl s) s"
  shows "holds UNIV (CoreCheckTimers rt k env s) (good_from s)"
  unfolding CoreCheckTimers_def
proof (rule holds_bind [OF acquire_ok])
  fix s1 assume s1: "locked TimerLock s s1"
  note ins = locked_inside [OF s1 inv]
  show "holds UNIV (bind_run (CoreCurrentSystemTime rt env s1) (\<lambda>(SystemTime, s2).
         bind_run (check_timers_loop rt k env SystemTime s2) (CoreReleaseLock rt env TimerLock))) (good_from s)"
    by (rule holds_bind [OF CoreCurrentSystemTime_ok [OF inside_inv [OF ins] inside_high(2) [OF ins inv]]])
      (clarsimp, rule holds_bind [OF check_timers_loop_ok [OF inside_good [OF ins] inv]], assumption, rule release_ok)
qed

lemma CoreTimerTick_ok:
  assumes inv: "event_inv s" and calm: "calm (gEfiCurrentTpl s) s"
  shows "holds UNIV (CoreTimerTick rt env d s) (good_from s)"
  unfolding CoreTimerTick_def
proof (rule holds_bind [OF acquire_ok])
  fix s1 assume s1: "locked SystemTimeLock s s1"
  define s2 where "s2 = s1\<lparr>mEfiSystemTime := mEfiSystemTime s1 + d\<rparr>"
  have ins: "inside SystemTimeLock s s2" unfolding s2_def
    using locked_inside [OF s1 inv] by (auto intro: inside_same simp: inside_inv)
  have "holds UNIV (bind_run
         (case mEfiTimerList s2 of
            [] \<Rightarrow> ret s2
          | e # _ \<Rightarrow> with_event s2 e (\<lambda>ev.
              if TriggerTime ev \<le> mEfiSystemTime s2 then
                bind_run (CoreSignalEvent rt env (mEfiCheckTimerEvent s2) s2) (\<lambda>(_, s3). ret s3)
              else ret s2))
         (CoreReleaseLock rt env SystemTimeLock)) (good_from s)"
  proof (rule holds_bind)
    show "holds UNIV (case mEfiTimerList s2 of
            [] \<Rightarrow> ret s2
          | e # _ \<Rightarrow> with_event s2 e (\<lambda>ev.
              if TriggerTime ev \<le> mEfiSystemTime s2 then
                bind_run (CoreSignalEvent rt env (mEfiCheckTimerEvent s2) s2) (\<lambda>(_, s3). ret s3)
              else ret s2)) (inside SystemTimeLock s)"
      using ins by (auto split: list.split intro!: holds_with_event holds_bind [OF SignalEvent_inside [OF ins inv]])
  qed (rule release_ok)
  then show "holds UNIV (let s2 = s1\<lparr>mEfiSystemTime := mEfiSystemTime s1 + d\<rparr> in
       bind_run
         (case mEfiTimerList s2 of
            [] \<Rightarrow> ret s2
          | e # _ \<Rightarrow> with_event s2 e (\<lambda>ev.
              if TriggerTime ev \<le> mEfiSystemTime s2 then
                bind_run (CoreSignalEvent rt env (mEfiCheckTimerEvent s2) s2) (\<lambda>(_, s3). ret s3)
              else ret s2))
         (CoreReleaseLock rt env SystemTimeLock)) (good_from s)"
    unfolding Let_def s2_def [symmetric] .
qed

end

context restore_service
begin

lemma arm_timer_ok:
  assumes ins: "inside TimerLock s0 s" and inv: "event_inv s0" and idle: "idle_timer e s"
  shows "holds UNIV (arm_timer rt env e Type T s) (inside TimerLock s0)"
proof -
  define t where "t = (if Type = TimerPeriodic \<and> T = 0 then timer_period env (eworld s) else T)"
  define s1 where "s1 = (if Type = TimerPeriodic then upd_event e (\<lambda>v. v\<lparr>Period := t\<rparr>) s else s)"
  have i1: "inside TimerLock s0 s1" "idle_timer e s1"
    using inside_timer_fields [OF ins idle timer_fields_ex(2)] ins idle by (auto simp: s1_def)
  have tail: "holds UNIV (bind_run (CoreInsertEventTimer env e (upd_event e (\<lambda>v. v\<lparr>TriggerTime := now + t\<rparr>) s2)) (\<lambda>s3.
          if t = 0 then bind_run (CoreSignalEvent rt env (mEfiCheckTimerEvent s3) s3) (\<lambda>(_, s4). ret s4)
          else ret s3)) (inside TimerLock s0)"
    if s2: "good_from s1 s2" "quiet s1 s2" for s2 now
  proof -
    note i3 = inside_timer_fields [OF inside_good [OF i1(1) s2(1)] idle_timer_quiet [OF s2(2) i1(2)],
      of "\<lambda>v. v\<lparr>TriggerTime := now + t\<rparr>", OF timer_fields_ex(1)]
    show ?thesis
      by (rule holds_bind [OF insert_inside [OF i3]], rule holds_if)
        (auto intro!: holds_bind [OF SignalEvent_inside [OF _ inv]])
  qed
  show ?thesis
    unfolding arm_timer_def Let_def t_def [symmetric] s1_def [symmetric]
    by (rule holds_bind [OF CoreCurrentSystemTime_ok [OF inside_inv [OF i1(1)] inside_high(2) [OF i1(1) inv]]])
      (auto intro!: tail)
qed

text \<open>The event taken out of the timer list under the timer lock, its timer fields cleared.\<close>

lemma disarmed:
  assumes s1: "locked TimerLock s s1" and inv: "event_inv s" and e: "events s e = Some ev" "EventType ev AND EVT_TIMER \<noteq> 0"
  defines "s3 \<equiv> upd_event e (\<lambda>v. v\<lparr>TriggerTime := 0, Period := 0\<rparr>) (if TimerLinked ev then unlink_timer e s1 else s1)"
  shows "inside TimerLock s s3" "idle_timer e s3" "gEventPending s3 = gEventPending s"
proof -
  define s2 where "s2 = (if TimerLinked ev then unlink_timer e s1 else s1)"
  note i1 = locked_inside [OF s1 inv]
  have i2: "inside TimerLock s s2"
    using i1 inside_same [OF i1 event_inv_unlink_timer [OF inside_inv [OF i1]], of e] by (auto simp: s2_def)
  have idle: "idle_timer e s2"
    using e locked_simps [OF s1] by (auto simp: s2_def idle_timer_def chg_eq)
  show "inside TimerLock s s3" "idle_timer e s3"
    unfolding s3_def s2_def [symmetric] by (rule inside_timer_fields [OF i2 idle timer_fields_ex(3)])+
  show "gEventPending s3 = gEventPending s" using locked_simps [OF s1] by (simp add: s3_def)
qed

lemma CoreSetTimer_ok:
  assumes inv: "event_inv s" and calm: "calm (gEfiCurrentTpl s) s"
  shows "holds UNIV (CoreSetTimer rt env e Type T s) (\<lambda>(st, s'). good_from s s')"
proof -
  have body: "holds UNIV (bind_run (CoreAcquireLock env TimerLock s) (\<lambda>s1. with_event s1 e (\<lambda>ev1.
          let s2 = (if TimerLinked ev1 then unlink_timer e s1 else s1);
              s3 = upd_event e (\<lambda>v. v\<lparr>TriggerTime := 0, Period := 0\<rparr>) s2 in
          bind_run (if Type \<noteq> TimerCancel then arm_timer rt env e Type T s3 else ret s3)
            (\<lambda>s4. bind_run (CoreReleaseLock rt env TimerLock s4) (\<lambda>s5. ret (EFI_SUCCESS, s5))))))
       (\<lambda>(st, s'). good_from s s')" if ev: "events s e = Some ev" "EventType ev AND EVT_TIMER \<noteq> 0" for ev
  proof (rule holds_bind [OF acquire_ok], rule holds_with_event)
    fix s1 ev1 assume s1: "locked TimerLock s s1" and ev1: "events s1 e = Some ev1"
    then have ev1': "events s e = Some ev1" "EventType ev1 AND EVT_TIMER \<noteq> 0"
      using ev locked_simps [OF s1] by auto
    note d = disarmed [OF s1 inv ev1']
    show "holds UNIV (let s2 = (if TimerLinked ev1 then unlink_timer e s1 else s1);
              s3 = upd_event e (\<lambda>v. v\<lparr>TriggerTime := 0, Period := 0\<rparr>) s2 in
          bind_run (if Type \<noteq> TimerCancel then arm_timer rt env e Type T s3 else ret s3)
            (\<lambda>s4. bind_run (CoreReleaseLock rt env TimerLock s4) (\<lambda>s5. ret (EFI_SUCCESS, s5))))
       (\<lambda>(st, s'). good_from s s')"
      unfolding Let_def
    proof (rule holds_bind [OF holds_if])
      fix s4 assume "inside TimerLock s s4"
      then show "holds UNIV (bind_run (CoreReleaseLock rt env TimerLock s4) (\<lambda>s5. ret (EFI_SUCCESS, s5))) (\<lambda>(st, s'). good_from s s')"
        by (intro holds_bind [OF release_ok]) auto
    qed (use arm_timer_ok [OF d(1) inv d(2)] d(1) in simp_all)
  qed simp
  show ?thesis
    unfolding CoreSetTimer_def
    by (intro holds_if holds_check_signature body) (use good_from_refl [OF inv calm] in auto)
qed

lemma wait_scan_ok:
  "good_from s0 s \<Longrightarrow> holds UNIV (wait_scan rt env evs is s) (\<lambda>(r, s'). good_from s0 s')"
proof (induction "is" arbitrary: s)
  case (Cons i "is")
  have "event_inv s" "calm (gEfiCurrentTpl s) s" using Cons.prems by (auto simp: good_from_def)
  from CoreCheckEvent_ok [OF this] show ?case
    unfolding wait_scan.simps
    by (rule holds_bind) (use Cons good_from_trans [OF Cons.prems] in auto)
qed simp

lemma wait_loop_ok:
  "good_from s0 s \<Longrightarrow> holds UNIV (wait_loop rt k env n evs s) (\<lambda>(st, i, s'). good_from s0 s')"
proof (induction k arbitrary: s)
  case (Suc k)
  show ?case
    unfolding wait_loop.simps
  proof (rule holds_bind [OF wait_scan_ok [OF Suc.prems]], clarify)
    fix r s1 assume s1: "good_from s0 s1"
    then have "event_inv s1" "calm (gEfiCurrentTpl s1) s1" by (auto simp: good_from_def)
    from CoreSignalEvent_ok [OF this]
    have "holds UNIV (bind_run (CoreSignalEvent rt env (gIdleLoopEvent s1) s1) (\<lambda>(_, s2). wait_loop rt k env n evs s2))
        (\<lambda>(st, i, s'). good_from s0 s')"
      by (rule holds_bind) (use Suc.IH good_from_trans [OF s1] in auto)
    with s1 show "holds UNIV (case r of Some (i, Status) \<Rightarrow> ret (Status, Some i, s1)
       | None \<Rightarrow> bind_run (CoreSignalEvent rt env (gIdleLoopEvent s1) s1) (\<lambda>(_, s2).
           wait_loop rt k env n evs s2)) (\<lambda>(st, i, s'). good_from s0 s')"
      by (auto split: option.split)
  qed
qed simp

lemma CoreWaitForEvent_ok:
  assumes "event_inv s" "calm (gEfiCurrentTpl s) s"
  shows "holds UNIV (CoreWaitForEvent rt k env n evs s) (\<lambda>(st, i, s'). good_from s s')"
  using good_from_refl [OF assms] wait_loop_ok [OF good_from_refl [OF assms]]
  by (auto simp: CoreWaitForEvent_def split: option.split)

end

section \<open>Creating and closing events\<close>

lemma trigger_new: "evs e = None \<Longrightarrow> TriggerTime ev = 0 \<Longrightarrow> trigger (evs(e \<mapsto> ev)) = trigger evs"
  by (rule ext) (auto simp: trigger_def)

lemma event_inv_new:
  assumes inv: "event_inv s" and e: "events s e = None" "e \<noteq> NULL"
    and ev: "event_ok ev" "\<not> NotifyLinked ev" "\<not> TimerLinked ev" "TriggerTime ev = 0"
    and s': "gEventQueue s' = gEventQueue s" "gEventPending s' = gEventPending s" "mEfiTimerList s' = mEfiTimerList s"
      "events s' = (events s)(e \<mapsto> ev)" "lock_inv (locks s')"
      "gEventSignalQueue s' = (if SignalLinked ev then e # gEventSignalQueue s else gEventSignalQueue s)"
      "gRuntimeEvents s' = (if RuntimeLinked ev then gRuntimeEvents s @ [e] else gRuntimeEvents s)"
  shows "event_inv s'"
proof -
  have nt: "e \<notin> set (mEfiTimerList s)" and nq: "\<And>p. e \<notin> set (gEventQueue s p)"
    and ns: "e \<notin> set (gEventSignalQueue s)" "e \<notin> set (gRuntimeEvents s)"
    using inv e(1) by (auto simp: event_inv_def timer_inv_def notify_inv_def signal_inv_def)
  have "notify_inv (gEventQueue s) (gEventPending s) ((events s)(e \<mapsto> ev))"
    using inv ev(2) e(1) unfolding event_inv_def notify_inv_def by auto
  moreover have "signal_inv (gEventSignalQueue s') (gRuntimeEvents s') ((events s)(e \<mapsto> ev))"
    using inv ns e(1) unfolding event_inv_def signal_inv_def s' by auto
  moreover have "timer_inv (mEfiTimerList s) ((events s)(e \<mapsto> ev))"
    using inv nt e(1) ev(3) unfolding event_inv_def timer_inv_def trigger_new [of "events s" e ev, OF e(1) ev(4)] by auto
  moreover have "types_inv ((events s)(e \<mapsto> ev))"
    using inv e ev(1) by (auto simp: event_inv_def types_inv_def)
  ultimately show ?thesis using s' by (simp add: event_inv_def)
qed

text \<open>Closing: the event leaves every list.\<close>

lemma event_inv_closed:
  assumes inv: "event_inv s" and e: "events s e = Some ev" "\<not> TimerLinked ev"
    and s': "gEventQueue s' = (if NotifyLinked ev then (\<lambda>p. remove1 e (gEventQueue s p)) else gEventQueue s)"
      "gEventPending s' = gEventPending s" "mEfiTimerList s' = mEfiTimerList s"
      "events s' = (events s)(e := None)" "lock_inv (locks s')"
      "gEventSignalQueue s' = (if SignalLinked ev then remove1 e (gEventSignalQueue s) else gEventSignalQueue s)"
      "gRuntimeEvents s' = (if RuntimeLinked ev then remove1 e (gRuntimeEvents s) else gRuntimeEvents s)"
  shows "event_inv s'"
proof -
  have ni: "notify_inv (gEventQueue s) (gEventPending s) (events s)" using inv by (simp add: event_inv_def)
  have q: "gEventQueue s' = (\<lambda>p. remove1 e (gEventQueue s p))"
    using s'(1) notify_inv_unqueued [OF ni e(1)] by auto
  have nt: "e \<notin> set (mEfiTimerList s)" using inv e by (auto simp: event_inv_def timer_inv_def)
  have "notify_inv (gEventQueue s') (gEventPending s) ((events s)(e := None))"
    using ni unfolding notify_inv_def q by auto
  moreover have "signal_inv (gEventSignalQueue s') (gRuntimeEvents s') ((events s)(e := None))"
    using inv e(1) unfolding event_inv_def signal_inv_def s' by (auto split: if_splits)
  moreover have "timer_inv (mEfiTimerList s) ((events s)(e := None))"
  proof -
    have "map (trigger ((events s)(e := None))) (mEfiTimerList s) = map (trigger (events s)) (mEfiTimerList s)"
      using nt by (intro map_cong) (auto simp: trigger_def)
    then have "sorted (map (trigger ((events s)(e := None))) (mEfiTimerList s))"
      using inv by (simp only: event_inv_def timer_inv_def)
    then show ?thesis using inv nt e(1) unfolding event_inv_def timer_inv_def by auto
  qed
  moreover have "types_inv ((events s)(e := None))" using inv by (auto simp: event_inv_def types_inv_def)
  ultimately show ?thesis using s' by (simp add: event_inv_def)
qed

text \<open>The event taken off the runtime, notify and signal lists, under the event lock.\<close>

definition unlinked :: "ptr \<Rightarrow> IEVENT \<Rightarrow> 'w event_state \<Rightarrow> 'w event_state" where
  "unlinked e ev s2 =
     (let s3 = (if RuntimeLinked ev then s2\<lparr>gRuntimeEvents := remove1 e (gRuntimeEvents s2)\<rparr> else s2);
          s4 = (if NotifyLinked ev then unlink_notify e s3 else s3) in
      if SignalLinked ev then s4\<lparr>gEventSignalQueue := remove1 e (gEventSignalQueue s4)\<rparr> else s4)"

lemma unlinked_simps:
  "gEventQueue (unlinked e ev s) = (if NotifyLinked ev then (\<lambda>p. remove1 e (gEventQueue s p)) else gEventQueue s)"
  "gEventPending (unlinked e ev s) = gEventPending s" "mEfiTimerList (unlinked e ev s) = mEfiTimerList s"
  "events (unlinked e ev s) = events s" "locks (unlinked e ev s) = locks s"
  "gEventSignalQueue (unlinked e ev s) = (if SignalLinked ev then remove1 e (gEventSignalQueue s) else gEventSignalQueue s)"
  "gRuntimeEvents (unlinked e ev s) = (if RuntimeLinked ev then remove1 e (gRuntimeEvents s) else gRuntimeEvents s)"
  by (simp_all add: unlinked_def unlink_notify_def Let_def)

text \<open>The two states of the registration: the event made live, and, under the event lock, in the signal list.\<close>

definition entered :: "ptr \<Rightarrow> IEVENT \<Rightarrow> 'w event_state \<Rightarrow> 'w event_state" where
  "entered e ev s = (let s1 = s\<lparr>events := (events s)(e \<mapsto> ev), closed_events := closed_events s - {e}\<rparr> in
     if RuntimeLinked ev then s1\<lparr>gRuntimeEvents := gRuntimeEvents s1 @ [e]\<rparr> else s1)"

definition registered :: "ptr \<Rightarrow> IEVENT \<Rightarrow> 'w event_state \<Rightarrow> 'w event_state" where
  "registered e ev s3 = (if EventType ev AND EVT_NOTIFY_SIGNAL \<noteq> 0
     then upd_event e (\<lambda>v. v\<lparr>SignalLinked := True\<rparr>) (s3\<lparr>gEventSignalQueue := e # gEventSignalQueue s3\<rparr>) else s3)"

lemma register_event_eq:
  "register_event rt env e ev s = bind_run (CoreAcquireLock env EventQueueLock (entered e ev s)) (\<lambda>s3.
     CoreReleaseLock rt env EventQueueLock (registered e ev s3))"
  by (simp add: register_event_def entered_def registered_def Let_def)

lemma entered_simps:
  "gEventQueue (entered e ev s) = gEventQueue s" "gEventPending (entered e ev s) = gEventPending s"
  "mEfiTimerList (entered e ev s) = mEfiTimerList s" "events (entered e ev s) = (events s)(e \<mapsto> ev)"
  "locks (entered e ev s) = locks s" "gEventSignalQueue (entered e ev s) = gEventSignalQueue s"
  "gEfiCurrentTpl (entered e ev s) = gEfiCurrentTpl s"
  "gRuntimeEvents (entered e ev s) = (if RuntimeLinked ev then gRuntimeEvents s @ [e] else gRuntimeEvents s)"
  by (simp_all add: entered_def Let_def)

lemma registered_inside:
  assumes inv: "event_inv s" and e: "events s e = None" "e \<noteq> NULL"
    and ev: "\<not> NotifyLinked ev" "\<not> TimerLinked ev" "TriggerTime ev = 0" "\<not> SignalLinked ev"
      "notify_type ev \<longrightarrow> NotifyFunction ev \<noteq> NoNotify \<and> 4 < NotifyTpl ev \<and> NotifyTpl ev < 31"
    and s3: "locked EventQueueLock (entered e ev s) s3"
  shows "inside EventQueueLock s (registered e ev s3)" "gEventPending (registered e ev s3) = gEventPending s"
    "events (registered e ev s3) = (events s)(e \<mapsto> ev\<lparr>SignalLinked := EventType ev AND EVT_NOTIFY_SIGNAL \<noteq> 0\<rparr>)"
proof -
  let ?s4 = "registered e ev s3"
  define ev4 where "ev4 = ev\<lparr>SignalLinked := EventType ev AND EVT_NOTIFY_SIGNAL \<noteq> 0\<rparr>"
  note s2 = entered_simps [of e ev s] and l = locked_simps [OF s3]
  have ok4: "event_ok ev4"
    using ev signal_notify_type [of ev] by (auto simp: ev4_def event_ok_def notify_type_def)
  have ev4: "\<not> NotifyLinked ev4" "\<not> TimerLinked ev4" "TriggerTime ev4 = 0" "RuntimeLinked ev4 = RuntimeLinked ev"
    "SignalLinked ev4 = (EventType ev AND EVT_NOTIFY_SIGNAL \<noteq> 0)"
    using ev by (simp_all add: ev4_def)
  have "ev\<lparr>SignalLinked := False\<rparr> = ev" using ev(4) by simp
  then have evs4: "events ?s4 = (events s)(e \<mapsto> ev4)"
    using s2 l by (auto simp: registered_def ev4_def chg_def)
  have lk: "lock_inv (locks ?s4)"
    using inv l s2 by (auto simp: registered_def event_inv_def lock_inv_def)
  have "event_inv ?s4"
    by (rule event_inv_new [OF inv e ok4 ev4(1-3) _ _ _ evs4 lk])
      (use s2 l ev ev4 in \<open>auto simp: registered_def\<close>)
  moreover have "held_but EventQueueLock s ?s4"
    using locked_held_but [OF s3] s2 by (auto simp: registered_def held_but_def)
  ultimately show "inside EventQueueLock s ?s4"
    using l s2 by (auto simp: inside_def registered_def)
  show "gEventPending ?s4 = gEventPending s" using l s2 by (simp add: registered_def)
  show "events ?s4 = (events s)(e \<mapsto> ev\<lparr>SignalLinked := EventType ev AND EVT_NOTIFY_SIGNAL \<noteq> 0\<rparr>)"
    using evs4 by (simp add: ev4_def)
qed

context restore_service
begin

lemma register_event_ok:
  assumes inv: "event_inv s" and e: "events s e = None" "e \<noteq> NULL"
    and ev: "\<not> NotifyLinked ev" "\<not> TimerLinked ev" "TriggerTime ev = 0" "\<not> SignalLinked ev"
      "notify_type ev \<longrightarrow> NotifyFunction ev \<noteq> NoNotify \<and> 4 < NotifyTpl ev \<and> NotifyTpl ev < 31"
  shows "holds UNIV (register_event rt env e ev s) (good_from s)"
  unfolding register_event_eq
  by (rule holds_bind [OF acquire_ok], rule release_ok, rule registered_inside [OF inv e ev])

lemma CoreCreateEventInternal_ok:
  assumes inv: "event_inv s" and calm: "calm (gEfiCurrentTpl s) s"
  shows "holds UNIV (CoreCreateEventInternal rt env Type t f ctx g n s) (\<lambda>(st, e, s'). good_from s s')"
proof -
  note same = good_from_refl [OF inv calm]
  have reg: "holds UNIV (register_event rt env (allocate_event env s) (make_event Type' t f ctx g') s) (good_from s)"
    if "allocate_event env s \<noteq> NULL"
      "\<not> (Type' AND (EVT_NOTIFY_WAIT OR EVT_NOTIFY_SIGNAL) \<noteq> 0 \<and> (f = NoNotify \<or> t \<le> TPL_APPLICATION \<or> TPL_HIGH_LEVEL \<le> t))"
    for Type' g'
    by (rule register_event_ok [OF inv])
      (use that in \<open>auto simp: allocate_event_def make_event_def notify_type_def Let_def not_le split: if_splits\<close>)
  show ?thesis
    unfolding CoreCreateEventInternal_def
    using same by (auto split: option.split prod.split intro!: holds_if holds_bind [OF reg])
qed

lemma CoreCreateEventEx_ok:
  assumes "event_inv s" "calm (gEfiCurrentTpl s) s"
  shows "holds UNIV (CoreCreateEventEx rt env Type t f ctx g n s) (\<lambda>(st, e, s'). good_from s s')"
  unfolding CoreCreateEventEx_def
  using CoreCreateEventInternal_ok [OF assms] good_from_refl [OF assms] by simp

lemma cancel_unlinks:
  assumes inv: "event_inv s" and calm: "calm (gEfiCurrentTpl s) s"
    and e: "events s e = Some ev" "EventType ev AND EVT_TIMER \<noteq> 0"
  shows "holds UNIV (CoreSetTimer rt env e TimerCancel 0 s)
    (\<lambda>(st, s'). good_from s s' \<and> (\<forall>v. events s' e = Some v \<longrightarrow> \<not> TimerLinked v))"
proof -
  have nz: "e \<noteq> NULL" using inv e(1) by (auto simp: event_inv_def types_inv_def)
  have "holds UNIV (bind_run (CoreAcquireLock env TimerLock s) (\<lambda>s1. with_event s1 e (\<lambda>ev1.
      bind_run (CoreReleaseLock rt env TimerLock (upd_event e (\<lambda>v. v\<lparr>TriggerTime := 0, Period := 0\<rparr>)
          (if TimerLinked ev1 then unlink_timer e s1 else s1))) (\<lambda>s5. ret (EFI_SUCCESS, s5)))))
     (\<lambda>(st, s'). good_from s s' \<and> (\<forall>v. events s' e = Some v \<longrightarrow> \<not> TimerLinked v))"
  proof (rule holds_bind [OF acquire_ok], rule holds_with_event)
    fix s1 ev1 assume s1: "locked TimerLock s s1" and ev1: "events s1 e = Some ev1"
    define s3 where "s3 = upd_event e (\<lambda>v. v\<lparr>TriggerTime := 0, Period := 0\<rparr>)
      (if TimerLinked ev1 then unlink_timer e s1 else s1)"
    have "events s e = Some ev1" "EventType ev1 AND EVT_TIMER \<noteq> 0" using e ev1 locked_simps [OF s1] by auto
    note d = disarmed [OF s1 inv this, folded s3_def]
    have c: "calm (gEfiCurrentTpl s) s3" using calm d(3) by (simp add: calm_def)
    show "holds UNIV (bind_run (CoreReleaseLock rt env TimerLock (upd_event e (\<lambda>v. v\<lparr>TriggerTime := 0, Period := 0\<rparr>)
          (if TimerLinked ev1 then unlink_timer e s1 else s1))) (\<lambda>s5. ret (EFI_SUCCESS, s5)))
      (\<lambda>(st, s'). good_from s s' \<and> (\<forall>v. events s' e = Some v \<longrightarrow> \<not> TimerLinked v))"
      unfolding s3_def [symmetric]
      by (rule holds_bind [OF release_idle [OF d(1) c]]) (use d(2) in \<open>auto simp: released_simps idle_timer_def\<close>)
  qed simp
  then show ?thesis
    unfolding CoreSetTimer_def using nz e by (simp add: Let_def)
qed

lemma unregister_event_ok:
  assumes inv: "event_inv s" and calm: "calm (gEfiCurrentTpl s) s"
    and off: "\<forall>v. events s e = Some v \<longrightarrow> \<not> TimerLinked v"
  shows "holds UNIV (unregister_event rt env e s) (\<lambda>(st, s'). good_from s s' \<and> events s' e = None)"
  unfolding unregister_event_def
proof (rule holds_bind [OF acquire_ok], rule holds_with_event)
  fix s2 ev assume s2: "locked EventQueueLock s s2" and ev: "events s2 e = Some ev"
  note l = locked_simps [OF s2]
  have ev': "events s e = Some ev" "\<not> TimerLinked ev" using ev off l by auto
  have hb: "held_but EventQueueLock s (unlinked e ev s2)"
    using locked_held_but [OF s2] by (simp add: held_but_def unlinked_simps)
  have p: "\<And>p. bit (gEventPending (unlinked e ev s2)) p \<Longrightarrow> p < 31"
    using inv l by (auto simp: event_inv_def notify_inv_def unlinked_simps)
  have c: "calm (gEfiCurrentTpl s) (unlinked e ev s2)" using calm l by (simp add: calm_def unlinked_simps)
  have "holds UNIV (bind_run (CoreReleaseLock rt env EventQueueLock (unlinked e ev s2)) (\<lambda>s6.
         ret (EFI_SUCCESS, s6\<lparr>eworld := unregister_notify env e (eworld s6), events := (events s6)(e := None),
           closed_events := insert e (closed_events s6)\<rparr>)))
     (\<lambda>(st, s'). good_from s s' \<and> events s' e = None)"
  proof (rule holds_bind [OF release_calm [OF hb p c]], assumption)
    fix s6 assume s6: "released EventQueueLock s (unlinked e ev s2) s6"
    define s7 where "s7 = s6\<lparr>eworld := unregister_notify env e (eworld s6), events := (events s6)(e := None),
      closed_events := insert e (closed_events s6)\<rparr>"
    note r = released_simps [OF s6]
    have lk: "locks s7 = locks (set_lock EventQueueLock (\<lambda>l. l\<lparr>Acquired := False\<rparr>) (unlinked e ev s2))"
      using s6 by (auto simp: s7_def released_def)
    have same: "held_same s s7" using held_same_cong [OF lk, of s] held_but_release [OF hb] by simp
    have "event_inv s7"
    proof (rule event_inv_closed [OF inv ev'])
      show "lock_inv (locks s7)" using inv same by (simp add: event_inv_def lock_inv_def held_same_def)
    qed (use r l in \<open>simp_all add: s7_def unlinked_simps\<close>)
    moreover have "gEfiCurrentTpl s7 = gEfiCurrentTpl s" "calm (gEfiCurrentTpl s) s7"
      using r c by (simp_all add: s7_def calm_def)
    ultimately have "good_from s s7 \<and> events s7 e = None" using same by (simp add: good_from_def s7_def)
    then show "holds UNIV (ret (EFI_SUCCESS, s6\<lparr>eworld := unregister_notify env e (eworld s6),
        events := (events s6)(e := None), closed_events := insert e (closed_events s6)\<rparr>)) (\<lambda>(st, s'). good_from s s' \<and> events s' e = None)"
      unfolding s7_def [symmetric] by simp
  qed
  then show "holds UNIV (let s3 = (if RuntimeLinked ev then s2\<lparr>gRuntimeEvents := remove1 e (gRuntimeEvents s2)\<rparr> else s2);
           s4 = (if NotifyLinked ev then unlink_notify e s3 else s3);
           s5 = (if SignalLinked ev then s4\<lparr>gEventSignalQueue := remove1 e (gEventSignalQueue s4)\<rparr> else s4) in
       bind_run (CoreReleaseLock rt env EventQueueLock s5) (\<lambda>s6.
         ret (EFI_SUCCESS, s6\<lparr>eworld := unregister_notify env e (eworld s6),
                               events := (events s6)(e := None),
           closed_events := insert e (closed_events s6)\<rparr>)))
     (\<lambda>(st, s'). good_from s s' \<and> events s' e = None)"
    by (simp only: Let_def unlinked_def)
qed simp

lemma CoreCloseEvent_ok:
  assumes inv: "event_inv s" and calm: "calm (gEfiCurrentTpl s) s"
  shows "holds UNIV (CoreCloseEvent rt env e s) (\<lambda>(st, s'). good_from s s' \<and> events s' e = None)"
proof (cases "events s e")
  case None
  then show ?thesis
    using good_from_refl [OF inv calm] unfolding CoreCloseEvent_def by (intro holds_check_signature) simp_all
next
  case (Some ev)
  then have nz: "e \<noteq> NULL" and ok: "event_ok ev" using inv by (auto simp: event_inv_def types_inv_def)
  have "holds UNIV (if EventType ev AND EVT_TIMER \<noteq> 0 then
             bind_run (CoreSetTimer rt env e TimerCancel 0 s) (\<lambda>(_, s1). ret s1) else ret s)
     (\<lambda>s'. good_from s s' \<and> (\<forall>v. events s' e = Some v \<longrightarrow> \<not> TimerLinked v))"
    using Some ok good_from_refl [OF inv calm]
    by (intro holds_if holds_bind [OF cancel_unlinks [OF inv calm Some]]) (auto simp: event_ok_def)
  then have "holds UNIV (bind_run (if EventType ev AND EVT_TIMER \<noteq> 0 then
             bind_run (CoreSetTimer rt env e TimerCancel 0 s) (\<lambda>(_, s1). ret s1) else ret s) (unregister_event rt env e))
     (\<lambda>(st, s'). good_from s s' \<and> events s' e = None)"
    by (rule holds_bind)
      (rule holds_weaken [OF unregister_event_ok], auto simp: good_from_def elim: held_same_trans)
  then show ?thesis using Some nz by (simp add: CoreCloseEvent_def)
qed

end

section \<open>Programs and dispatching\<close>

context restore_service
begin

lemma do_call_ok:
  assumes "event_inv s" "calm (gEfiCurrentTpl s) s"
  shows "holds UNIV (do_call rt k env c s) (\<lambda>(a, s'). good_from s s')"
proof (cases c)
  case (CreateEventEx Type t f ctx g n)
  then show ?thesis unfolding do_call_def by (auto intro!: holds_bind [OF CoreCreateEventEx_ok [OF assms]])
next
  case (SignalEvent e)
  then show ?thesis unfolding do_call_def by (auto intro!: holds_bind [OF CoreSignalEvent_ok [OF assms]])
next
  case (CheckEvent e)
  then show ?thesis unfolding do_call_def by (auto intro!: holds_bind [OF CoreCheckEvent_ok [OF assms]])
next
  case (WaitForEvent n evs)
  then show ?thesis unfolding do_call_def by (auto intro!: holds_bind [OF CoreWaitForEvent_ok [OF assms]])
next
  case (CloseEvent e)
  then show ?thesis unfolding do_call_def by (auto intro!: holds_bind [OF CoreCloseEvent_ok [OF assms]])
next
  case (SetTimer e Type t)
  then show ?thesis unfolding do_call_def by (auto intro!: holds_bind [OF CoreSetTimer_ok [OF assms]])
next
  case (TimerTick d)
  then show ?thesis unfolding do_call_def by (auto intro!: holds_bind [OF CoreTimerTick_ok [OF assms]])
qed

lemma good_from_world [simp]: "good_from (s\<lparr>eworld := w\<rparr>) s' = good_from s s'"
  "good_from s (s'\<lparr>eworld := w\<rparr>) = good_from s s'"
  by (simp_all add: good_from_def held_same_def)

lemma raised_good:
  assumes "event_inv s" "calm (gEfiCurrentTpl s) s" "gEfiCurrentTpl s \<le> n"
  shows "event_inv (s\<lparr>interrupts := i, gEfiCurrentTpl := n\<rparr>)" "calm n (s\<lparr>interrupts := i, gEfiCurrentTpl := n\<rparr>)"
    "held_same s (s\<lparr>interrupts := i, gEfiCurrentTpl := n\<rparr>)"
  using assms by (auto simp: calm_def held_same_def word_le_nat_alt intro: order_trans)

lemma run_prog_ok:
  "event_inv s \<Longrightarrow> calm (gEfiCurrentTpl s) s \<Longrightarrow> holds UNIV (run_prog p rt k env s) (good_from s)"
proof (induction p arbitrary: s)
  case (Done w)
  then show ?case by (simp add: good_from_refl)
next
  case (Call w c cont)
  have "holds UNIV (do_call rt k env c (s\<lparr>eworld := w\<rparr>)) (\<lambda>(a, s'). good_from s s')"
    using do_call_ok [of "s\<lparr>eworld := w\<rparr>" k c] Call.prems by simp
  then show ?case
    unfolding run_prog.simps
  proof (rule holds_bind, clarify)
    fix a s' assume g: "good_from s s'"
    then have "event_inv s'" "calm (gEfiCurrentTpl s') s'" by (auto simp: good_from_def)
    from Call.IH [OF rangeI rangeI this] show "holds UNIV (run_prog (cont a (eworld s')) rt k env s') (good_from s)"
      by (rule holds_weaken) (use g in \<open>blast intro: good_from_trans\<close>)
  qed
next
  case (AtTpl n body cont)
  show ?case
    unfolding run_prog.simps
  proof (rule holds_bind [OF CoreRaiseTpl_eq [OF asserts UNIV_I]], clarify)
    fix i assume n: "gEfiCurrentTpl s \<le> n"
    let ?s1 = "s\<lparr>interrupts := i, gEfiCurrentTpl := n\<rparr>"
    note r = raised_good [OF AtTpl.prems n, of i]
    have "holds UNIV (run_prog body rt k env ?s1) (good_from ?s1)" using r by (intro AtTpl.IH(1)) simp_all
    then show "holds UNIV (bind_run (run_prog body rt k env ?s1) (\<lambda>s2. bind_run (rt (gEfiCurrentTpl s) s2)
        (\<lambda>s3. run_prog (cont (eworld s3)) rt k env s3))) (good_from s)"
    proof (rule holds_bind)
      fix s2 assume s2: "good_from ?s1 s2"
      show "holds UNIV (bind_run (rt (gEfiCurrentTpl s) s2) (\<lambda>s3. run_prog (cont (eworld s3)) rt k env s3)) (good_from s)"
      proof (rule holds_bind [OF restore_ok])
        show "event_inv s2" using s2 by (simp add: good_from_def)
        fix s3 assume s3: "event_inv s3 \<and> gEfiCurrentTpl s3 = gEfiCurrentTpl s \<and> calm (gEfiCurrentTpl s) s3 \<and> held_same s2 s3"
        have g: "good_from s s3"
          using s2 s3 r(3) by (auto simp: good_from_def intro: held_same_trans)
        have "holds UNIV (run_prog (cont (eworld s3)) rt k env s3) (good_from s3)"
          using s3 by (intro AtTpl.IH(2)) auto
        then show "holds UNIV (run_prog (cont (eworld s3)) rt k env s3) (good_from s)"
          by (rule holds_weaken) (use g in \<open>blast intro: good_from_trans\<close>)
      qed
    qed
  qed
qed

lemma call_notify_ok:
  assumes "event_inv s" "calm (gEfiCurrentTpl s) s"
  shows "holds UNIV (call_notify rt k env e ev s) (good_from s)"
  using CoreCheckTimers_ok [OF assms] run_prog_ok [OF assms] good_from_refl [OF assms]
  by (auto simp: call_notify_def split: EFI_EVENT_NOTIFY.split)

end

section \<open>RestoreTPL\<close>

lemma event_inv_notified:
  assumes "event_inv s"
  shows "event_inv (upd_event e (\<lambda>v. v\<lparr>NotifyLinked := False, SignalCount := g v\<rparr>) (unlink_notify e s))"
proof -
  let ?f = "\<lambda>v. v\<lparr>NotifyLinked := False, SignalCount := g v\<rparr>"
  have "signal_inv (gEventSignalQueue s) (gRuntimeEvents s) (chg (events s) e ?f)"
    by (rule signal_inv_chg) (use assms in \<open>simp_all add: event_inv_def\<close>)
  moreover have "timer_inv (mEfiTimerList s) (chg (events s) e ?f)"
    by (rule timer_inv_chg) (use assms in \<open>simp_all add: event_inv_def\<close>)
  moreover have "types_inv (chg (events s) e ?f)"
    by (rule types_inv_chg, use assms in \<open>simp add: event_inv_def\<close>, erule event_ok_chg) simp_all
  ultimately show ?thesis
    using assms notify_inv_unlink [of "gEventQueue s" "gEventPending s" "events s" e g]
    by (simp add: event_inv_def unlink_notify_def)
qed

lemma event_inv_no_pending:
  assumes "event_inv s" "gEventQueue s p = []" "p < 31"
  shows "event_inv (s\<lparr>gEventPending := gEventPending s AND NOT (tpl_bit p)\<rparr>)"
proof -
  have "unat (NotifyTpl ev) \<noteq> p" if "events s e = Some ev" "NotifyLinked ev" for e ev
  proof
    assume "unat (NotifyTpl ev) = p"
    then have "e \<in> set (gEventQueue s p)" using assms(1) that unfolding event_inv_def notify_inv_def by blast
    with assms(2) show False by simp
  qed
  then show ?thesis
    using assms unfolding event_inv_def notify_inv_def by (auto simp: bit_clear_tpl_bit)
qed

lemma unlink_notify_simps [simp]:
  "gEfiCurrentTpl (unlink_notify e s) = gEfiCurrentTpl s" "locks (unlink_notify e s) = locks s"
  "gEventPending (unlink_notify e s) = gEventPending s" "events (unlink_notify e s) = events s"
  "gEventQueue (unlink_notify e s) = (\<lambda>p. remove1 e (gEventQueue s p))"
  "calm t (unlink_notify e s) = calm t s"
  by (simp_all add: unlink_notify_def calm_def)

context restore_service
begin

lemma notify_loop_ok:
  "inside EventQueueLock s0 s \<Longrightarrow> calm (gEfiCurrentTpl s0) s \<Longrightarrow>
    holds UNIV (notify_loop rt k env p s) (\<lambda>s'. inside EventQueueLock s0 s' \<and> calm (gEfiCurrentTpl s0) s' \<and> gEventQueue s' p = [])"
proof (induction k arbitrary: s)
  case (Suc k)
  note ins = Suc.prems(1)
  show ?case
  proof (cases "gEventQueue s p")
    case (Cons e es)
    define s1 where "s1 = upd_event e (\<lambda>v. v\<lparr>NotifyLinked := False,
        SignalCount := (if EventType v AND EVT_NOTIFY_SIGNAL \<noteq> 0 then 0 else SignalCount v)\<rparr>) (unlink_notify e s)"
    have i1: "inside EventQueueLock s0 s1"
      unfolding s1_def using inside_same [OF ins event_inv_notified [OF inside_inv [OF ins]]] by simp
    have "holds UNIV (bind_run (CoreReleaseLock rt env EventQueueLock s1) (\<lambda>s2. with_event s2 e (\<lambda>ev2.
            assert_if (asserts_on env) (NotifyFunction ev2 \<noteq> NoNotify)
              (bind_run (call_notify rt k env e ev2 s2) (\<lambda>s3.
                bind_run (CoreAcquireLock env EventQueueLock s3) (notify_loop rt k env p))))))
       (\<lambda>s'. inside EventQueueLock s0 s' \<and> calm (gEfiCurrentTpl s0) s' \<and> gEventQueue s' p = [])"
    proof (rule holds_bind [OF release_ok [OF i1]], rule holds_with_event, rule holds_assert_if, simp, rule holds_bind)
      fix s2 ev2 assume s2: "good_from s0 s2"
      then show "holds UNIV (call_notify rt k env e ev2 s2) (good_from s2)"
        by (intro call_notify_ok) (auto simp: good_from_def)
      fix s3 assume s3: "good_from s2 s3"
      have g: "good_from s0 s3" by (rule good_from_trans [OF s2 s3])
      show "holds UNIV (bind_run (CoreAcquireLock env EventQueueLock s3) (notify_loop rt k env p))
          (\<lambda>s'. inside EventQueueLock s0 s' \<and> calm (gEfiCurrentTpl s0) s' \<and> gEventQueue s' p = [])"
      proof (rule holds_bind [OF acquire_ok], rule Suc.IH)
        fix s4 assume s4: "locked EventQueueLock s3 s4"
        have "held_but EventQueueLock s0 s4"
          using locked_held_but [OF s4] g unfolding held_but_def good_from_def held_same_def by metis
        then show "inside EventQueueLock s0 s4"
          using locked_inside [OF s4] g by (auto simp: inside_def good_from_def held_same_def)
        show "calm (gEfiCurrentTpl s0) s4" using locked_calm [OF s4] g by (simp add: good_from_def)
      qed
    qed simp
    then show ?thesis using Cons by (auto simp: s1_def Let_def intro!: holds_with_event)
  qed (use Suc.prems in simp)
qed simp

lemma CoreDispatchEventNotifies_ok:
  assumes inv: "event_inv s" and calm: "calm (gEfiCurrentTpl s) s" and p: "gEfiCurrentTpl s = p" "p < 31"
  shows "holds UNIV (CoreDispatchEventNotifies rt k env p s) (good_from s)"
  unfolding CoreDispatchEventNotifies_def
proof (rule holds_bind [OF acquire_ok], rule holds_assert_if, simp, rule holds_bind [OF notify_loop_ok])
  fix s1 assume s1: "locked EventQueueLock s s1"
  show "inside EventQueueLock s s1" by (rule locked_inside [OF s1 inv])
  show "calm (gEfiCurrentTpl s) s1" using calm locked_calm [OF s1] by simp
  fix s2 assume s2: "inside EventQueueLock s s2 \<and> calm (gEfiCurrentTpl s) s2 \<and> gEventQueue s2 (unat p) = []"
  have "event_inv (s2\<lparr>gEventPending := gEventPending s2 AND NOT (tpl_bit (unat p))\<rparr>)"
    using s2 p by (intro event_inv_no_pending) (auto simp: inside_inv word_less_nat_alt)
  then show "holds UNIV (CoreReleaseLock rt env EventQueueLock
      (s2\<lparr>gEventPending := gEventPending s2 AND NOT (tpl_bit (unat p))\<rparr>)) (good_from s)"
    using s2 by (intro release_ok) (auto intro: inside_same)
qed

lemma pending_loop_ok:
  assumes "event_inv s" "unat n \<le> 31"
  shows "holds UNIV (pending_loop rt k env n s) (\<lambda>s'. event_inv s' \<and> calm n s' \<and> held_same s s')"
  using assms(1)
proof (induction k arbitrary: s)
  case (Suc k)
  have p31: "\<And>p. bit (gEventPending s) p \<Longrightarrow> p < 31" using Suc.prems by (simp add: event_inv_def notify_inv_def)
  show ?case
  proof (cases "pending_above n s = 0")
    case True
    then show ?thesis using Suc.prems pending_above_zero [OF assms(2), of s] p31 by simp
  next
    case False
    then have "gEventPending s \<noteq> 0" by (auto simp: pending_above_def)
    then obtain h where h: "highest_bit (gEventPending s) h" "HighBitSet64 (gEventPending s) = int h"
      using HighBitSet64_highest by blast
    have h31: "h < 31" using p31 h(1) by (simp add: highest_bit_def)
    define p :: u64 where "p = word_of_int (HighBitSet64 (gEventPending s))"
    have up: "unat p = h" using h31 by (simp add: p_def h(2) unsigned_of_nat take_bit_nat_eq_self)
    then have p: "p < 31" using h31 by (simp add: word_less_nat_alt)
    define s1 where "s1 = s\<lparr>gEfiCurrentTpl := p\<rparr>"
    obtain i where i: "(if gEfiCurrentTpl s1 < TPL_HIGH_LEVEL then CoreSetInterruptState env True s1 else s1) = s1\<lparr>interrupts := i\<rparr>"
      using interrupt_state_if by blast
    let ?s2 = "s1\<lparr>interrupts := i\<rparr>"
    have c: "calm p s" using h(1) up by (auto simp: calm_def highest_bit_def not_less)
    have disp: "holds UNIV (CoreDispatchEventNotifies rt k env (gEfiCurrentTpl ?s2) ?s2) (good_from ?s2)"
      by (rule CoreDispatchEventNotifies_ok) (use Suc.prems c p in \<open>simp_all add: s1_def\<close>)
    have hs: "held_same s s'" if "held_same ?s2 s'" for s'
      using that by (simp add: held_same_def s1_def)
    have "holds UNIV (bind_run (CoreDispatchEventNotifies rt k env (gEfiCurrentTpl ?s2) ?s2) (pending_loop rt k env n))
        (\<lambda>s'. event_inv s' \<and> calm n s' \<and> held_same s s')"
    proof (rule holds_bind [OF disp])
      fix s3 assume s3: "good_from ?s2 s3"
      then have "event_inv s3" "held_same s s3" using hs by (auto simp: good_from_def)
      with Suc.IH [of s3] show "holds UNIV (pending_loop rt k env n s3) (\<lambda>s'. event_inv s' \<and> calm n s' \<and> held_same s s')"
        by (auto elim: holds_weaken intro: held_same_trans)
    qed
    then show ?thesis
      unfolding pending_loop.simps if_P [OF False] Let_def p_def [symmetric] s1_def [symmetric] i .
  qed
qed simp

lemma pending_loop_calm:
  assumes "\<And>p. bit (gEventPending s) p \<Longrightarrow> p < 31" "calm n s" "unat n \<le> 31"
  shows "pending_loop rt (Suc k) env n s = ret s"
proof -
  have "pending_above n s = 0" using pending_above_zero [OF assms(3), of s] assms(1,2) by blast
  then show ?thesis by simp
qed

end

text \<open>One level of RestoreTPL satisfies the contract its callees were proved under.\<close>

lemma held_same_fields [simp]:
  "held_same s (s'\<lparr>gEfiCurrentTpl := n\<rparr>) = held_same s s'" "held_same s (s'\<lparr>interrupts := i\<rparr>) = held_same s s'"
  "held_same (s\<lparr>gEfiCurrentTpl := n\<rparr>) s' = held_same s s'"
  by (simp_all add: held_same_def)

context restore_service
begin

lemma restore_body_ok:
  assumes inv: "event_inv s"
  shows "holds UNIV (restore_body rt k env n s) (\<lambda>s'. event_inv s' \<and> gEfiCurrentTpl s' = n \<and> calm n s' \<and> held_same s s')"
proof -
  define s1 where "s1 = (if TPL_HIGH_LEVEL \<le> gEfiCurrentTpl s \<and> n < TPL_HIGH_LEVEL then s\<lparr>gEfiCurrentTpl := TPL_HIGH_LEVEL\<rparr> else s)"
  have s1: "event_inv s1" "held_same s1 = held_same s" using inv by (auto simp: s1_def fun_eq_iff)
  have "holds UNIV (bind_run (pending_loop rt k env n s1) (\<lambda>s2.
             let s3 = s2\<lparr>gEfiCurrentTpl := n\<rparr> in
             ret (if gEfiCurrentTpl s3 < TPL_HIGH_LEVEL then CoreSetInterruptState env True s3 else s3)))
     (\<lambda>s'. event_inv s' \<and> gEfiCurrentTpl s' = n \<and> calm n s' \<and> held_same s s')" if "n \<le> TPL_HIGH_LEVEL"
  proof (rule holds_bind [OF pending_loop_ok [OF s1(1)]])
    show "unat n \<le> 31" using that by (simp add: word_le_nat_alt)
    fix s2 assume s2: "event_inv s2 \<and> calm n s2 \<and> held_same s1 s2"
    obtain i where i: "(if gEfiCurrentTpl (s2\<lparr>gEfiCurrentTpl := n\<rparr>) < TPL_HIGH_LEVEL
        then CoreSetInterruptState env True (s2\<lparr>gEfiCurrentTpl := n\<rparr>) else s2\<lparr>gEfiCurrentTpl := n\<rparr>)
      = s2\<lparr>gEfiCurrentTpl := n\<rparr>\<lparr>interrupts := i\<rparr>" using interrupt_state_if by blast
    show "holds UNIV (let s3 = s2\<lparr>gEfiCurrentTpl := n\<rparr> in
             ret (if gEfiCurrentTpl s3 < TPL_HIGH_LEVEL then CoreSetInterruptState env True s3 else s3))
      (\<lambda>s'. event_inv s' \<and> gEfiCurrentTpl s' = n \<and> calm n s' \<and> held_same s s')"
      unfolding Let_def i using s2 s1(2) by simp
  qed
  then show ?thesis
    unfolding restore_body_def Let_def s1_def [symmetric] using asserts by (auto simp: assert_if_def)
qed

lemma restore_body_idle:
  assumes "\<And>p. bit (gEventPending s) p \<Longrightarrow> p < 31" "calm n s"
  shows "holds UNIV (restore_body rt k env n s) (\<lambda>s'. \<exists>i. s' = s\<lparr>gEfiCurrentTpl := n, interrupts := i\<rparr>)"
proof (cases k)
  case 0
  then show ?thesis by (simp add: restore_body_def assert_if_def Let_def)
next
  case (Suc k')
  define s1 where "s1 = (if TPL_HIGH_LEVEL \<le> gEfiCurrentTpl s \<and> n < TPL_HIGH_LEVEL then s\<lparr>gEfiCurrentTpl := TPL_HIGH_LEVEL\<rparr> else s)"
  have p1: "\<And>p. bit (gEventPending s1) p \<Longrightarrow> p < 31" "calm n s1"
    using assms by (auto simp: s1_def split: if_splits)
  obtain i where i: "(if gEfiCurrentTpl (s1\<lparr>gEfiCurrentTpl := n\<rparr>) < TPL_HIGH_LEVEL
      then CoreSetInterruptState env True (s1\<lparr>gEfiCurrentTpl := n\<rparr>) else s1\<lparr>gEfiCurrentTpl := n\<rparr>)
    = s1\<lparr>gEfiCurrentTpl := n\<rparr>\<lparr>interrupts := i\<rparr>" using interrupt_state_if by blast
  have "holds UNIV (bind_run (pending_loop rt k env n s1) (\<lambda>s2.
             let s3 = s2\<lparr>gEfiCurrentTpl := n\<rparr> in
             ret (if gEfiCurrentTpl s3 < TPL_HIGH_LEVEL then CoreSetInterruptState env True s3 else s3)))
     (\<lambda>s'. \<exists>i. s' = s\<lparr>gEfiCurrentTpl := n, interrupts := i\<rparr>)" if "n \<le> TPL_HIGH_LEVEL"
  proof -
    have "unat n \<le> 31" using that by (simp add: word_le_nat_alt)
    then have e: "pending_loop rt k env n s1 = ret s1"
      using pending_loop_calm [OF p1] Suc by simp
    show ?thesis unfolding e bind_run_simps Let_def i by (auto simp: s1_def)
  qed
  then show ?thesis
    unfolding restore_body_def Let_def s1_def [symmetric] using asserts by (auto simp: assert_if_def)
qed

end

theorem CoreRestoreTpl_contract:
  assumes "asserts_on env"
  shows "restore_service (CoreRestoreTpl k env) env"
proof (induction k)
  case 0
  show ?case by unfold_locales (use assms in simp_all)
next
  case (Suc k)
  show ?case
    by unfold_locales
      (use assms restore_service.restore_body_ok [OF Suc] restore_service.restore_body_idle [OF Suc] in simp_all)
qed

interpretation core: restore_service "CoreRestoreTpl k (env\<lparr>asserts_on := True\<rparr>)" "env\<lparr>asserts_on := True\<rparr>" for k env
  by (rule CoreRestoreTpl_contract) simp

end
