(* ===== verification/EventBuilds.thy ===== *)
theory EventBuilds
  imports Events
begin

text \<open>
  Builds with and without assertions.  A service that returns in a build with assertions compiled in (a debug build)
  returns the same without them: every operation of the event services is shown to respect the order \<open>run_le\<close> of
  runs, given that the \<open>CoreRestoreTpl\<close> it calls does (locale \<open>two_builds\<close>), and the nesting depth ties the knot.
  What is proved of the debug build and says that an operation returns thus holds of every build.
\<close>

section \<open>The order of runs\<close>

definition run_le :: "'a run \<Rightarrow> 'a run \<Rightarrow> bool" where
  "run_le m m' \<longleftrightarrow> (\<forall>x. m = ret x \<longrightarrow> m' = ret x)"

lemma run_leD: "run_le m m' \<Longrightarrow> m = ret x \<Longrightarrow> m' = ret x"
  by (simp add: run_le_def)

lemma ex_run_le: "run_le m m' \<Longrightarrow> \<exists>s. m = ret (f s) \<and> P s \<Longrightarrow> \<exists>s. m' = ret (f s) \<and> P s"
  by (auto simp: run_le_def)

lemma run_le_refl: "run_le m m"
  by (simp add: run_le_def)

named_theorems run_le_intros

lemma run_le_ret [run_le_intros]: "run_le (ret x) (ret x)"
  by (rule run_le_refl)

lemma run_le_none [run_le_intros]: "run_le None m"
  by (simp add: run_le_def)

lemma run_le_fault [run_le_intros]: "run_le (Some (Inl f)) m"
  by (simp add: run_le_def)

lemma run_le_bind [run_le_intros]:
  "run_le m m' \<Longrightarrow> (\<And>x. run_le (k x) (k' x)) \<Longrightarrow> run_le (bind_run m k) (bind_run m' k')"
  by (auto simp: run_le_def bind_run_eq_ret)

lemma run_le_if [run_le_intros]:
  "run_le m m' \<Longrightarrow> run_le n n' \<Longrightarrow> run_le (if b then m else n) (if b then m' else n')"
  by simp

lemma run_le_assert [run_le_intros]:
  "run_le m m' \<Longrightarrow> run_le (assert_if True b m) (assert_if c b m')"
  by (simp add: run_le_def assert_if_def)

lemma run_le_with_event [run_le_intros]:
  "(\<And>ev. run_le (k ev) (k' ev)) \<Longrightarrow> run_le (with_event s e k) (with_event s e k')"
  by (simp add: with_event_def run_le_refl split: option.split)

lemma run_le_check_signature [run_le_intros]:
  "run_le m m' \<Longrightarrow> (\<And>ev. run_le (k ev) (k' ev)) \<Longrightarrow> run_le (check_signature s e m k) (check_signature s e m' k')"
  by (simp add: check_signature_def run_le_refl split: option.split)

lemma run_le_prod [run_le_intros]:
  "(\<And>x y. run_le (f x y) (g x y)) \<Longrightarrow> run_le (case p of (x, y) \<Rightarrow> f x y) (case p of (x, y) \<Rightarrow> g x y)"
  by (cases p) simp

lemma run_le_option [run_le_intros]:
  "run_le m m' \<Longrightarrow> (\<And>x. run_le (f x) (g x)) \<Longrightarrow>
    run_le (case r of None \<Rightarrow> m | Some x \<Rightarrow> f x) (case r of None \<Rightarrow> m' | Some x \<Rightarrow> g x)"
  by (cases r) simp_all

lemma run_le_list [run_le_intros]:
  "run_le m m' \<Longrightarrow> (\<And>x xs. run_le (f x xs) (g x xs)) \<Longrightarrow>
    run_le (case l of [] \<Rightarrow> m | x # xs \<Rightarrow> f x xs) (case l of [] \<Rightarrow> m' | x # xs \<Rightarrow> g x xs)"
  by (cases l) simp_all

section \<open>The operations\<close>

abbreviation debug_build :: "'w event_env \<Rightarrow> 'w event_env" where
  "debug_build env \<equiv> env\<lparr>asserts_on := True\<rparr>"

lemma debug_fields:
  "asserts_on (debug_build env) = True" "in_smm (debug_build env) = in_smm env"
  "alloc_event (debug_build env) = alloc_event env" "user_notify (debug_build env) = user_notify env"
  "unregister_notify (debug_build env) = unregister_notify env" "timer_period (debug_build env) = timer_period env"
  "CoreSetInterruptState (debug_build env) = CoreSetInterruptState env"
  "allocate_event (debug_build env) = allocate_event env"
  by (simp_all add: CoreSetInterruptState_def allocate_event_def fun_eq_iff)

lemma raise_le [run_le_intros]: "run_le (CoreRaiseTpl (debug_build env) n s) (CoreRaiseTpl env n s)"
  unfolding CoreRaiseTpl_def Let_def debug_fields by (intro run_le_intros)

lemma acquire_le [run_le_intros]: "run_le (CoreAcquireLock (debug_build env) L s) (CoreAcquireLock env L s)"
  unfolding CoreAcquireLock_def Let_def debug_fields by (intro run_le_intros)

lemma notify_le [run_le_intros]: "run_le (CoreNotifyEvent (debug_build env) e s) (CoreNotifyEvent env e s)"
  unfolding CoreNotifyEvent_def Let_def debug_fields by (intro run_le_intros)

lemma notify_group_le [run_le_intros]: "run_le (notify_group (debug_build env) g es s) (notify_group env g es s)"
  by (induction es arbitrary: s) (simp_all add: run_le_refl, intro run_le_intros)

lemma insert_timer_le [run_le_intros]: "run_le (CoreInsertEventTimer (debug_build env) e s) (CoreInsertEventTimer env e s)"
  unfolding CoreInsertEventTimer_def Let_def debug_fields by (intro run_le_intros run_le_refl)

text \<open>Two restore services, the one of the debug build and the one of the build.\<close>

locale two_builds =
  fixes rt rt' :: "'w restore" and env :: "'w event_env"
  assumes restore_le: "run_le (rt n s) (rt' n s)"
begin

abbreviation dbg :: "'w event_env" where "dbg \<equiv> debug_build env"

lemma release_le [run_le_intros]: "run_le (CoreReleaseLock rt dbg L s) (CoreReleaseLock rt' env L s)"
  unfolding CoreReleaseLock_def Let_def debug_fields by (intro run_le_intros restore_le)

lemma signal_list_le [run_le_intros]: "run_le (CoreNotifySignalList rt dbg g s) (CoreNotifySignalList rt' env g s)"
  unfolding CoreNotifySignalList_def by (intro run_le_intros)

lemma signal_first_le [run_le_intros]: "run_le (signal_first rt dbg e ev s) (signal_first rt' env e ev s)"
  unfolding signal_first_def Let_def by (intro run_le_intros)

lemma signal_le [run_le_intros]: "run_le (CoreSignalEvent rt dbg e s) (CoreSignalEvent rt' env e s)"
  unfolding CoreSignalEvent_def by (intro run_le_intros)

lemma queue_wait_le [run_le_intros]: "run_le (queue_wait_notify rt dbg e s) (queue_wait_notify rt' env e s)"
  unfolding queue_wait_notify_def by (intro run_le_intros)

lemma take_signal_le [run_le_intros]: "run_le (take_signal rt dbg e s) (take_signal rt' env e s)"
  unfolding take_signal_def by (intro run_le_intros)

lemma check_le [run_le_intros]: "run_le (CoreCheckEvent rt dbg e s) (CoreCheckEvent rt' env e s)"
  unfolding CoreCheckEvent_def by (intro run_le_intros)

lemma system_time_le [run_le_intros]: "run_le (CoreCurrentSystemTime rt dbg s) (CoreCurrentSystemTime rt' env s)"
  unfolding CoreCurrentSystemTime_def by (intro run_le_intros)

lemma check_timer_le [run_le_intros]: "run_le (check_timer rt dbg T e s) (check_timer rt' env T e s)"
  unfolding check_timer_def Let_def by (intro run_le_intros)

lemma check_timers_loop_le [run_le_intros]: "run_le (check_timers_loop rt k dbg T s) (check_timers_loop rt' k env T s)"
proof (induction k arbitrary: s)
  case (Suc k)
  show ?case unfolding check_timers_loop.simps by (intro run_le_intros Suc.IH)
qed (simp add: run_le_none)

lemma check_timers_le [run_le_intros]: "run_le (CoreCheckTimers rt k dbg s) (CoreCheckTimers rt' k env s)"
  unfolding CoreCheckTimers_def by (intro run_le_intros)

lemma timer_tick_le [run_le_intros]: "run_le (CoreTimerTick rt dbg d s) (CoreTimerTick rt' env d s)"
  unfolding CoreTimerTick_def Let_def by (intro run_le_intros)

lemma arm_timer_le [run_le_intros]: "run_le (arm_timer rt dbg e T t s) (arm_timer rt' env e T t s)"
  unfolding arm_timer_def Let_def debug_fields by (intro run_le_intros)

lemma set_timer_le [run_le_intros]: "run_le (CoreSetTimer rt dbg e T t s) (CoreSetTimer rt' env e T t s)"
  unfolding CoreSetTimer_def Let_def by (intro run_le_intros)

lemma wait_scan_le [run_le_intros]: "run_le (wait_scan rt dbg evs is s) (wait_scan rt' env evs is s)"
proof (induction "is" arbitrary: s)
  case (Cons i "is")
  show ?case unfolding wait_scan.simps by (intro run_le_intros Cons.IH)
qed (simp add: run_le_refl)

lemma wait_loop_le [run_le_intros]: "run_le (wait_loop rt k dbg n evs s) (wait_loop rt' k env n evs s)"
proof (induction k arbitrary: s)
  case (Suc k)
  show ?case unfolding wait_loop.simps by (intro run_le_intros Suc.IH)
qed (simp add: run_le_none)

lemma wait_le [run_le_intros]: "run_le (CoreWaitForEvent rt k dbg n evs s) (CoreWaitForEvent rt' k env n evs s)"
  unfolding CoreWaitForEvent_def by (intro run_le_intros)

lemma register_le [run_le_intros]: "run_le (register_event rt dbg e ev s) (register_event rt' env e ev s)"
  unfolding register_event_def Let_def by (intro run_le_intros)

lemma create_internal_le [run_le_intros]:
  "run_le (CoreCreateEventInternal rt dbg T t f ctx g n s) (CoreCreateEventInternal rt' env T t f ctx g n s)"
  unfolding CoreCreateEventInternal_def Let_def debug_fields by (intro run_le_intros impI conjI)

lemma create_le [run_le_intros]: "run_le (CoreCreateEventEx rt dbg T t f ctx g n s) (CoreCreateEventEx rt' env T t f ctx g n s)"
  unfolding CoreCreateEventEx_def by (intro run_le_intros)

lemma unregister_le [run_le_intros]: "run_le (unregister_event rt dbg e s) (unregister_event rt' env e s)"
  unfolding unregister_event_def Let_def debug_fields by (intro run_le_intros)

lemma close_le [run_le_intros]: "run_le (CoreCloseEvent rt dbg e s) (CoreCloseEvent rt' env e s)"
  unfolding CoreCloseEvent_def by (intro run_le_intros)

lemma do_call_le [run_le_intros]: "run_le (do_call rt k dbg c s) (do_call rt' k env c s)"
  by (cases c; simp only: do_call_def event_call.case; intro run_le_intros)

lemma run_prog_le [run_le_intros]: "run_le (run_prog p rt k dbg s) (run_prog p rt' k env s)"
proof (induction p arbitrary: s)
  case (Call w c cont)
  show ?case unfolding run_prog.simps by (intro run_le_intros Call.IH [OF rangeI rangeI])
next
  case (AtTpl n body cont)
  show ?case unfolding run_prog.simps by (intro run_le_intros AtTpl.IH(1) AtTpl.IH(2) [OF rangeI] restore_le)
qed (simp add: run_le_refl)

lemma call_notify_le [run_le_intros]: "run_le (call_notify rt k dbg e ev s) (call_notify rt' k env e ev s)"
  by (cases "NotifyFunction ev"; simp only: call_notify_def debug_fields EFI_EVENT_NOTIFY.case; intro run_le_intros)

lemma notify_loop_le [run_le_intros]: "run_le (notify_loop rt k dbg p s) (notify_loop rt' k env p s)"
proof (induction k arbitrary: s)
  case (Suc k)
  show ?case unfolding notify_loop.simps Let_def debug_fields by (intro run_le_intros Suc.IH)
qed (simp add: run_le_none)

lemma dispatch_le [run_le_intros]:
  "run_le (CoreDispatchEventNotifies rt k dbg p s) (CoreDispatchEventNotifies rt' k env p s)"
  unfolding CoreDispatchEventNotifies_def Let_def debug_fields by (intro run_le_intros)

lemma pending_loop_le [run_le_intros]: "run_le (pending_loop rt k dbg n s) (pending_loop rt' k env n s)"
proof (induction k arbitrary: s)
  case (Suc k)
  show ?case unfolding pending_loop.simps Let_def debug_fields by (intro run_le_intros Suc.IH impI conjI)
qed (simp add: run_le_none)

lemma restore_body_le: "run_le (restore_body rt k dbg n s) (restore_body rt' k env n s)"
  unfolding restore_body_def Let_def debug_fields by (intro run_le_intros)

end

section \<open>The event services\<close>

theorem CoreRestoreTpl_builds: "two_builds (CoreRestoreTpl k (debug_build env)) (CoreRestoreTpl k env)"
proof (induction k)
  case 0
  show ?case by unfold_locales (simp add: run_le_none)
next
  case (Suc k)
  show ?case by unfold_locales (simp add: two_builds.restore_body_le [OF Suc])
qed

interpretation builds: two_builds "CoreRestoreTpl k (debug_build env)" "CoreRestoreTpl k env" env for k env
  by (rule CoreRestoreTpl_builds)

end
