(* ===== verification/EventRuns.thy ===== *)
theory EventRuns
  imports EventInvariant EventBuilds
begin

text \<open>
  Runs of the event services that return: locale \<open>idle_service\<close> adds to the contract of RestoreTPL
  that it returns when nothing is to be dispatched.  What is shown inside it: signalling at the two highest TPLs,
  the pass of the timer check over the timer list and its result; and the properties of the event services.
  A run that returns is found in the debug build, where the contracts hold, and carried to every build by \<open>builds\<close>.
\<close>

section \<open>Runs that return\<close>

text \<open>A restore service that also returns when there is nothing to dispatch.\<close>

locale idle_service = restore_service +
  assumes restore_total: "gEfiCurrentTpl s \<ge> n \<Longrightarrow> n \<le> 31 \<Longrightarrow> (\<And>p. bit (gEventPending s) p \<Longrightarrow> p < 31) \<Longrightarrow> calm n s \<Longrightarrow>
    \<exists>s'. rt n s = ret s'"
begin

lemma acquire_total:
  assumes "\<not> Acquired (locks s L)" "gEfiCurrentTpl s \<le> LockTpl (locks s L)" "LockTpl (locks s L) \<le> 31"
  shows "\<exists>s'. CoreAcquireLock env L s = ret s' \<and> locked L s s'"
proof -
  have "\<exists>s'. CoreAcquireLock env L s = ret s'"
    using assms by (simp add: CoreAcquireLock_def CoreRaiseTpl_def Let_def not_less)
  with acquire_ok [of L s] show ?thesis by auto
qed

lemma release_calm_total:
  assumes hb: "held_but L s0 s" and p: "\<And>p. bit (gEventPending s) p \<Longrightarrow> p < 31" and c: "calm (gEfiCurrentTpl s0) s"
    and tpl: "gEfiCurrentTpl s0 \<le> gEfiCurrentTpl s" "gEfiCurrentTpl s0 \<le> 31"
  shows "\<exists>s'. CoreReleaseLock rt env L s = ret s' \<and> released L s0 s s'"
proof -
  have "OwnerTpl (locks s L) = gEfiCurrentTpl s0" "Acquired (locks s L)" using hb by (simp_all add: held_but_def)
  then have "\<exists>s'. CoreReleaseLock rt env L s = ret s'"
    using restore_total [of "gEfiCurrentTpl s0" "set_lock L (\<lambda>l. l\<lparr>Acquired := False\<rparr>) s"] c p tpl
    by (simp add: CoreReleaseLock_def)
  with release_calm [OF hb p c] show ?thesis by auto
qed

lemma release_total:
  assumes "inside L s0 s" "calm (gEfiCurrentTpl s0) s" "event_inv s0"
  shows "\<exists>s'. CoreReleaseLock rt env L s = ret s' \<and> released L s0 s s' \<and> good_from s0 s'"
proof -
  have hb: "held_but L s0 s" and p: "\<And>p. bit (gEventPending s) p \<Longrightarrow> p < 31"
    using assms(1) by (auto simp: inside_def event_inv_def notify_inv_def)
  have "LockTpl (locks s0 L) \<le> 31" using assms(3) by (cases L) (simp_all add: event_inv_def lock_inv_def)
  then have "gEfiCurrentTpl s0 \<le> gEfiCurrentTpl s" "gEfiCurrentTpl s0 \<le> 31"
    using assms(1) by (auto simp: inside_def)
  with release_calm_total [OF hb p assms(2)] release_idle [OF assms(1,2)] show ?thesis by auto
qed

lemma CoreNotifyEvent_total:
  assumes "events s e \<noteq> None" "Acquired (locks s EventQueueLock)"
  shows "\<exists>s'. CoreNotifyEvent env e s = ret s'"
  using assms by (auto simp: CoreNotifyEvent_def with_event_def Let_def)

lemma notify_group_total:
  "event_inv s \<Longrightarrow> set es \<subseteq> set (gEventSignalQueue s) \<Longrightarrow> Acquired (locks s EventQueueLock) \<Longrightarrow>
    \<exists>s'. notify_group env g es s = ret s'"
proof (induction es arbitrary: s)
  case (Cons e es)
  then obtain ev where ev: "events s e = Some ev" "SignalLinked ev" "event_ok ev"
    by (auto simp: event_inv_def signal_inv_def types_inv_def)
  then have nt: "notify_type ev" by (simp add: event_ok_def signal_notify_type)
  have "\<exists>s1. (if EventGroup ev = g then CoreNotifyEvent env e s else ret s) = ret s1"
    using CoreNotifyEvent_total [of s e] ev Cons.prems by auto
  then obtain s1 where s1: "(if EventGroup ev = g then CoreNotifyEvent env e s else ret s) = ret s1" by blast
  have "event_inv s1 \<and> quiet s s1 \<and> locks s1 = locks s"
    by (rule holds_ret [of UNIV, OF _ s1])
      (use Cons.prems(1) holds_weaken [OF CoreNotifyEvent_eq [OF Cons.prems(1) ev(1) nt, of UNIV env]] in auto)
  then have "\<exists>s'. notify_group env g es s1 = ret s'" using Cons by (auto simp: quiet_def)
  then show ?case using ev s1 by (simp add: with_event_def)
qed simp

end

text \<open>At the two highest TPLs, with the event lock free.\<close>

definition free_high :: "'w event_state \<Rightarrow> bool" where
  "free_high s \<longleftrightarrow> event_inv s \<and> 30 \<le> gEfiCurrentTpl s \<and> gEfiCurrentTpl s \<le> 31 \<and> \<not> Acquired (locks s EventQueueLock)"

lemma free_high_good: "free_high s \<Longrightarrow> good_from s s' \<Longrightarrow> free_high s'"
  by (auto simp: free_high_def good_from_def held_same_def)

lemma free_high_calm: "free_high s \<Longrightarrow> event_inv s \<and> calm (gEfiCurrentTpl s) s"
  by (simp add: free_high_def calm_high)

text \<open>An event pointer that does not dangle: it may be NULL or to memory that was never an event.\<close>

definition not_closed :: "ptr \<Rightarrow> 'w event_state \<Rightarrow> bool" where
  "not_closed e s \<longleftrightarrow> (events s e = None \<longrightarrow> e \<notin> closed_events s)"

definition check_event_kept :: "'w event_state \<Rightarrow> bool" where
  "check_event_kept s \<longleftrightarrow> not_closed (mEfiCheckTimerEvent s) s"

lemma not_closed_live [simp]: "events s e = Some ev \<Longrightarrow> not_closed e s"
  by (simp add: not_closed_def)

lemma quiet_None: "quiet s s' \<Longrightarrow> events s' x = None \<longleftrightarrow> events s x = None"
  unfolding quiet_def by (metis option.map_disc_iff)

lemma check_event_quiet: "quiet s s' \<Longrightarrow> check_event_kept s' = check_event_kept s"
  using quiet_None [of s s'] by (simp add: check_event_kept_def not_closed_def quiet_def)

lemma check_event_upd [simp]: "check_event_kept (upd_event e f s) = check_event_kept s"
  "check_event_kept (unlink_timer e s) = check_event_kept s"
  "check_event_kept (s\<lparr>mEfiTimerList := l\<rparr>) = check_event_kept s"
  by (simp_all add: check_event_kept_def not_closed_def chg_eq unlink_timer_def)

context idle_service
begin

lemma acquire_free:
  "free_high s \<Longrightarrow> \<exists>s'. CoreAcquireLock env EventQueueLock s = ret s' \<and> locked EventQueueLock s s'"
  by (rule acquire_total) (auto simp: free_high_def event_inv_def lock_inv_def)

text \<open>A critical section of the event lock that returns a state which differs by signals.\<close>

lemma release_signals:
  assumes "free_high s" "locked EventQueueLock s s1" "event_inv s2" "quiet s1 s2" "locks s2 = locks s1"
  shows "\<exists>s'. CoreReleaseLock rt env EventQueueLock s2 = ret s' \<and> good_from s s' \<and> quiet s s'"
proof -
  have inv: "event_inv s" and hi: "30 \<le> gEfiCurrentTpl s" using assms(1) by (simp_all add: free_high_def)
  have ins: "inside EventQueueLock s s2"
    using inside_same [OF locked_inside [OF assms(2) inv]] assms by (simp add: quiet_def)
  have c: "calm (gEfiCurrentTpl s) s2"
    using calm_high [of "s2\<lparr>gEfiCurrentTpl := gEfiCurrentTpl s\<rparr>"] hi assms(3) by simp
  from release_total [OF ins c inv] obtain s' where
    "CoreReleaseLock rt env EventQueueLock s2 = ret s'" "released EventQueueLock s s2 s'" "good_from s s'" by blast
  with locked_released_quiet [OF assms(2,4)] show ?thesis by blast
qed

lemma CoreNotifySignalList_total:
  assumes "free_high s"
  shows "\<exists>s'. CoreNotifySignalList rt env g s = ret s'"
proof -
  obtain s1 where s1: "CoreAcquireLock env EventQueueLock s = ret s1" "locked EventQueueLock s s1"
    using acquire_free [OF assms] by blast
  have i1: "event_inv s1" using locked_event_inv [OF s1(2)] assms by (simp add: free_high_def)
  obtain s2 where s2: "notify_group env g (gEventSignalQueue s1) s1 = ret s2"
    using notify_group_total [OF i1 subset_refl locked_simps(13) [OF s1(2)]] by blast
  have "event_inv s2 \<and> quiet s1 s2 \<and> locks s2 = locks s1" using notify_group_ok [OF i1, of "gEventSignalQueue s1" g] s2 by simp
  with release_signals [OF assms s1(2)] show ?thesis by (auto simp: CoreNotifySignalList_def s1 s2)
qed

lemma signal_first_total:
  assumes hi: "free_high s" and s1: "locked EventQueueLock s s1" and ev: "events s1 e = Some ev"
  shows "\<exists>s0 y x. signal_first rt env e ev s1 = ret x \<and> free_high s0 \<and> locked EventQueueLock s0 y \<and>
    event_inv x \<and> quiet y x \<and> locks x = locks y"
proof -
  have i1: "event_inv s1" using locked_event_inv [OF s1] hi by (simp add: free_high_def)
  define s2 where "s2 = upd_event e (\<lambda>v. v\<lparr>SignalCount := SignalCount v + 1\<rparr>) s1"
  have i2: "event_inv s2" "quiet s1 s2" "locks s2 = locks s1"
    unfolding s2_def by (rule event_inv_SignalCount [OF i1], rule quiet_SignalCount, simp)
  have e2: "events s2 e = Some (ev\<lparr>SignalCount := SignalCount ev + 1\<rparr>)" using ev by (simp add: s2_def chg_eq)
  consider (none) "EventType ev AND EVT_NOTIFY_SIGNAL = 0" | (one) "EventType ev AND EVT_NOTIFY_SIGNAL \<noteq> 0" "\<not> ExFlag ev"
    | (group) "EventType ev AND EVT_NOTIFY_SIGNAL \<noteq> 0" "ExFlag ev" by blast
  then show ?thesis
  proof cases
    case none
    then have "signal_first rt env e ev s1 = ret s2" by (simp add: signal_first_def s2_def)
    then show ?thesis using hi s1 i2 by blast
  next
    case one
    have nt: "notify_type (ev\<lparr>SignalCount := SignalCount ev + 1\<rparr>)"
      using signal_notify_type [OF one(1)] by (simp add: notify_type_def)
    obtain x where x: "CoreNotifyEvent env e s2 = ret x"
      using CoreNotifyEvent_total [of s2 e] e2 i2(3) locked_simps [OF s1] by auto
    then have "event_inv x \<and> quiet s2 x \<and> locks x = locks s2"
      using CoreNotifyEvent_eq [OF i2(1) e2 nt, of UNIV env] by simp
    moreover have "signal_first rt env e ev s1 = ret x" using one x by (simp add: signal_first_def s2_def)
    ultimately show ?thesis using hi s1 i2 by (metis quiet_trans)
  next
    case group
    obtain s3 where s3: "CoreReleaseLock rt env EventQueueLock s2 = ret s3" "good_from s s3" "quiet s s3"
      using release_signals [OF hi s1 i2] by blast
    have h3: "free_high s3" by (rule free_high_good [OF hi s3(2)])
    have "map_option strip (events s3 e) = map_option strip (events s e)" using s3(3) by (simp add: quiet_def)
    then obtain ev3 where ev3: "events s3 e = Some ev3" using ev locked_simps [OF s1] by auto
    obtain s4 where s4: "CoreNotifySignalList rt env (EventGroup ev3) s3 = ret s4"
      using CoreNotifySignalList_total [OF h3] by blast
    then have "good_from s3 s4"
      using CoreNotifySignalList_ok [of s3 "EventGroup ev3"] h3 by (simp add: free_high_def)
    then have h4: "free_high s4" by (rule free_high_good [OF h3])
    obtain x where x: "CoreAcquireLock env EventQueueLock s4 = ret x" "locked EventQueueLock s4 x"
      using acquire_free [OF h4] by blast
    moreover have "event_inv x" using locked_event_inv [OF x(2)] h4 by (simp add: free_high_def)
    moreover have "signal_first rt env e ev s1 = ret x"
      using group s3(1) s4 ev3 x(1) by (simp add: signal_first_def s2_def [symmetric] with_event_def)
    ultimately show ?thesis using h4 quiet_refl by blast
  qed
qed

lemma CoreSignalEvent_total:
  assumes hi: "free_high s" and nc: "not_closed e s"
  shows "\<exists>st s'. CoreSignalEvent rt env e s = ret (st, s') \<and> good_from s s' \<and> quiet s s'"
proof (cases "e = NULL \<or> events s e = None")
  case True
  then have "CoreSignalEvent rt env e s = ret (EFI_INVALID_PARAMETER, s)"
    using nc by (auto simp: CoreSignalEvent_def not_closed_def)
  then show ?thesis using free_high_calm [OF hi] good_from_refl by auto
next
  case False
  obtain s1 where s1: "CoreAcquireLock env EventQueueLock s = ret s1" "locked EventQueueLock s s1"
    using acquire_free [OF hi] by blast
  obtain ev where ev: "events s1 e = Some ev" using False locked_simps [OF s1(2)] by auto
  have i1: "event_inv s1" using locked_event_inv [OF s1(2)] hi by (simp add: free_high_def)
  have "\<exists>s0 y x. (if SignalCount ev = 0 then signal_first rt env e ev s1 else ret s1) = ret x \<and> free_high s0 \<and>
      locked EventQueueLock s0 y \<and> event_inv x \<and> quiet y x \<and> locks x = locks y"
  proof (cases "SignalCount ev = 0")
    case True
    then show ?thesis using signal_first_total [OF hi s1(2) ev] by simp
  next
    case False
    then show ?thesis using hi s1(2) i1 quiet_refl by (intro exI [of _ s] exI [of _ s1]) simp
  qed
  then obtain s0 y x where x: "(if SignalCount ev = 0 then signal_first rt env e ev s1 else ret s1) = ret x"
    "free_high s0" "locked EventQueueLock s0 y" "event_inv x" "quiet y x" "locks x = locks y" by blast
  obtain s' where s': "CoreReleaseLock rt env EventQueueLock x = ret s'" using release_signals [OF x(2-6)] by blast
  have "CoreSignalEvent rt env e s = ret (EFI_SUCCESS, s')"
    using False ev x(1) s' by (auto simp: CoreSignalEvent_def check_signature_def s1 with_event_def)
  moreover have "good_from s s' \<and> quiet s s'"
    using CoreSignalEvent_ok [of s e] free_high_calm [OF hi] hi calculation by (simp add: free_high_def)
  ultimately show ?thesis by blast
qed

end

text \<open>The timer check under the timer lock.\<close>

definition period :: "event_map \<Rightarrow> ptr \<Rightarrow> u64" where
  "period evs e = (case evs e of None \<Rightarrow> 0 | Some ev \<Rightarrow> Period ev)"

lemma quiet_timers:
  assumes "quiet s s'"
  shows "trigger (events s') = trigger (events s)" "period (events s') = period (events s)"
    "events s' x = None \<longleftrightarrow> events s x = None"
proof -
  have e: "map_option strip (events s' y) = map_option strip (events s y)" for y using assms by (simp add: quiet_def)
  then show "events s' x = None \<longleftrightarrow> events s x = None" by (metis option.map_disc_iff)
  have "trigger (events s') y = trigger (events s) y \<and> period (events s') y = period (events s) y" for y
  proof (cases "events s y")
    case None
    then show ?thesis using e [of y] by (simp add: trigger_def period_def)
  next
    case (Some v)
    then obtain v' where "events s' y = Some v'" "strip v' = strip v" using e [of y] by auto
    with Some strip_eqD(7,8) [OF this(2)] show ?thesis by (simp add: trigger_def period_def)
  qed
  then show "trigger (events s') = trigger (events s)" "period (events s') = period (events s)" by auto
qed

lemma period_chg: "(\<And>v. Period (f v) = Period v) \<Longrightarrow> period (chg evs e f) = period evs"
  by (rule ext) (simp add: period_def chg_eq split: option.split)

lemma trigger_unlink: "trigger (events (unlink_timer e s)) = trigger (events s)" "period (events (unlink_timer e s)) = period (events s)"
  by (rule ext, simp add: trigger_chg, simp add: trigger_def split: option.split) (simp add: period_chg)

text \<open>The trigger time a timer has when the check for the time \<open>T\<close> is over.\<close>

definition settled :: "u64 \<Rightarrow> u64 \<Rightarrow> u64 \<Rightarrow> u64" where
  "settled T t p = (if T < t then t else if T < t + p then t + p else T + p)"

definition passes :: "u64 \<Rightarrow> u64 \<Rightarrow> u64 \<Rightarrow> nat" where
  "passes T t p = (if T < t then 0 else if p = 0 \<or> T < t + p then 1 else 2)"

definition all_passes :: "u64 \<Rightarrow> 'w event_state \<Rightarrow> nat" where
  "all_passes T s = (\<Sum>x \<in> set (mEfiTimerList s). passes T (trigger (events s) x) (period (events s) x))"

lemma all_passes_le: "all_passes T s \<le> 2 * length (mEfiTimerList s)"
proof -
  have "all_passes T s \<le> (\<Sum>x \<in> set (mEfiTimerList s). 2)"
    unfolding all_passes_def by (rule sum_mono) (simp add: passes_def)
  also have "\<dots> \<le> 2 * length (mEfiTimerList s)" using card_length [of "mEfiTimerList s"] by simp
  finally show ?thesis .
qed

definition next_trigger :: "u64 \<Rightarrow> u64 \<Rightarrow> u64 \<Rightarrow> u64" where
  "next_trigger T t p = (if t + p \<le> T then T else t + p)"

definition no_wrap :: "u64 \<Rightarrow> 'w event_state \<Rightarrow> bool" where
  "no_wrap T s \<longleftrightarrow> (\<forall>x \<in> set (mEfiTimerList s). period (events s) x \<noteq> 0 \<longrightarrow> T < T + period (events s) x)"

context idle_service
begin

lemma inside_free_high:
  "inside TimerLock s0 s \<Longrightarrow> event_inv s0 \<Longrightarrow> \<not> Acquired (locks s0 EventQueueLock) \<Longrightarrow> free_high s"
  by (auto simp: inside_def free_high_def event_inv_def lock_inv_def held_but_def)

lemma CoreCurrentSystemTime_total:
  assumes "event_inv s" "30 \<le> gEfiCurrentTpl s" "gEfiCurrentTpl s \<le> 31" "\<not> Acquired (locks s SystemTimeLock)"
  shows "\<exists>s'. CoreCurrentSystemTime rt env s = ret (mEfiSystemTime s, s')"
proof -
  have c: "calm (gEfiCurrentTpl s) s" by (rule calm_high [OF assms(1,2)])
  obtain s1 where s1: "CoreAcquireLock env SystemTimeLock s = ret s1" "locked SystemTimeLock s s1"
    using acquire_total [of s SystemTimeLock] assms by (auto simp: event_inv_def lock_inv_def)
  have "\<exists>s2. CoreReleaseLock rt env SystemTimeLock s1 = ret s2"
    using release_total [OF locked_inside [OF s1(2) assms(1)] _ assms(1)] c locked_calm [OF s1(2)] by blast
  then show ?thesis
    using locked_simps(6) [OF s1(2)] by (auto simp: CoreCurrentSystemTime_def s1(1))
qed

lemma insert_timer_total:
  assumes ins: "inside TimerLock s0 s" and e: "events s e = Some ev" "\<not> TimerLinked ev" "EventType ev AND EVT_TIMER \<noteq> 0"
  shows "\<exists>s'. CoreInsertEventTimer env e s = ret s' \<and> inside TimerLock s0 s' \<and> trigger (events s') = trigger (events s) \<and>
    period (events s') = period (events s) \<and> set (mEfiTimerList s') = insert e (set (mEfiTimerList s)) \<and>
    mEfiSystemTime s' = mEfiSystemTime s \<and> (check_event_kept s \<longrightarrow> check_event_kept s')"
proof -
  note inv = inside_inv [OF ins]
  have live: "\<forall>x \<in> set (mEfiTimerList s). events s x \<noteq> None" using inv by (auto simp: event_inv_def timer_inv_def)
  have "Acquired (locks s TimerLock)" using ins by (simp add: inside_def held_but_def)
  then obtain s' where s': "CoreInsertEventTimer env e s = ret s'"
    using e live by (auto simp: CoreInsertEventTimer_def with_event_def insert_timer_at_eq)
  have q: "event_inv s'" "s' = upd_event e (\<lambda>v. v\<lparr>TimerLinked := True\<rparr>) (s\<lparr>mEfiTimerList :=
      takeWhile (\<lambda>x. trigger (events s) x \<le> TriggerTime ev) (mEfiTimerList s) @ e #
      dropWhile (\<lambda>x. trigger (events s) x \<le> TriggerTime ev) (mEfiTimerList s)\<rparr>)"
    using holds_ret [OF CoreInsertEventTimer_ok [OF inv e UNIV_I] s'] by blast+
  have "trigger (events s') = trigger (events s)"
    by (rule ext) (simp add: q(2) trigger_chg, simp add: trigger_def e)
  moreover have "period (events s') = period (events s)" by (simp add: q(2) period_chg)
  moreover have "set (mEfiTimerList s') = insert e (set (mEfiTimerList s))"
    unfolding q(2) by simp (metis set_append takeWhile_dropWhile_id)
  moreover have "mEfiSystemTime s' = mEfiSystemTime s" "check_event_kept s' = check_event_kept s" unfolding q(2) by simp_all
  moreover have "inside TimerLock s0 s'" by (rule inside_same [OF ins q(1)]) (simp_all add: q(2))
  ultimately show ?thesis using s' by blast
qed

text \<open>A periodic timer is armed again: one period on, or at once when that time has passed too.\<close>

lemma rearm_timer_total:
  assumes i2: "inside TimerLock s0 s2" and d2: "idle_timer e s2" and s0: "event_inv s0" "\<not> Acquired (locks s0 EventQueueLock)"
    and ck: "check_event_kept s2" and ev: "events s2 e = Some ev" and t: "t = TriggerTime ev + Period ev"
    and s3: "s3 = upd_event e (\<lambda>v. v\<lparr>TriggerTime := t\<rparr>) s2" and s4: "s4 = upd_event e (\<lambda>v. v\<lparr>TriggerTime := T\<rparr>) s3"
  obtains s6 where
    "(if t \<le> T then bind_run (CoreSignalEvent rt env (mEfiCheckTimerEvent s3) s4) (\<lambda>(_, s4). ret s4) else ret s3) = ret s6"
    "inside TimerLock s0 s6" "idle_timer e s6" "mEfiTimerList s6 = mEfiTimerList s2" "events s6 e \<noteq> None"
    "trigger (events s6) = (trigger (events s2))(e := next_trigger T (TriggerTime ev) (Period ev))"
    "period (events s6) = period (events s2)" "check_event_kept s6"
proof -
  have i3: "inside TimerLock s0 s3" "idle_timer e s3"
    unfolding s3 by (rule inside_timer_fields [OF i2 d2 timer_fields_ex(1)])+
  have i4: "inside TimerLock s0 s4" "idle_timer e s4"
    unfolding s4 by (rule inside_timer_fields [OF i3 timer_fields_ex(1)])+
  have ck34: "check_event_kept s3" "not_closed (mEfiCheckTimerEvent s3) s4" "check_event_kept s4"
    using ck by (simp_all add: s3 s4) (auto simp: check_event_kept_def not_closed_def chg_eq)
  obtain st' s5 where s5: "CoreSignalEvent rt env (mEfiCheckTimerEvent s3) s4 = ret (st', s5)" "good_from s4 s5" "quiet s4 s5"
    using CoreSignalEvent_total [OF inside_free_high [OF i4(1) s0]] ck34 by blast
  note t5 = quiet_timers [OF s5(3)]
  have e3: "events s3 e \<noteq> None" using ev by (simp add: s3 chg_eq)
  have tr3: "trigger (events s3) = (trigger (events s2))(e := t)" using ev by (auto simp: s3 trigger_chg fun_eq_iff)
  have tr4: "trigger (events s4) = (trigger (events s2))(e := T)" using tr3 e3 by (auto simp: s4 trigger_chg fun_eq_iff)
  have p34: "period (events s3) = period (events s2)" "period (events s4) = period (events s2)"
    by (simp_all add: s3 s4 period_chg)
  define s6 where "s6 = (if t \<le> T then s5 else s3)"
  show thesis
  proof (rule that [of s6])
    show "(if t \<le> T then bind_run (CoreSignalEvent rt env (mEfiCheckTimerEvent s3) s4) (\<lambda>(_, s4). ret s4) else ret s3) = ret s6"
      using s5(1) by (simp add: s6_def)
    show "inside TimerLock s0 s6" "idle_timer e s6"
      using i3 inside_good [OF i4(1) s5(2)] idle_timer_quiet [OF s5(3) i4(2)] by (simp_all add: s6_def)
    show "mEfiTimerList s6 = mEfiTimerList s2" using s5(3) by (simp add: s6_def s3 s4 quiet_def)
    show "events s6 e \<noteq> None" using e3 t5(3) [of e] by (cases "t \<le> T") (simp_all add: s6_def s4 chg_eq)
    show "trigger (events s6) = (trigger (events s2))(e := next_trigger T (TriggerTime ev) (Period ev))"
      using tr3 tr4 t5(1) by (simp add: s6_def t next_trigger_def)
    show "period (events s6) = period (events s2)" using p34 t5(2) by (simp add: s6_def)
    show "check_event_kept s6" using ck34 check_event_quiet [OF s5(3)] by (simp add: s6_def)
  qed
qed

lemma check_timer_total:
  assumes ins: "inside TimerLock s0 s" and s0: "event_inv s0" "\<not> Acquired (locks s0 EventQueueLock)"
    and ck: "check_event_kept s" and e: "mEfiTimerList s = e # ts"
  shows "\<exists>s'. check_timer rt env T e s = ret s' \<and> inside TimerLock s0 s' \<and> check_event_kept s' \<and> period (events s') = period (events s) \<and>
    trigger (events s') = (trigger (events s))(e := if period (events s) e = 0 then trigger (events s) e
      else next_trigger T (trigger (events s) e) (period (events s) e)) \<and>
    set (mEfiTimerList s') = (if period (events s) e = 0 then set ts else insert e (set ts))"
proof -
  note inv = inside_inv [OF ins]
  define s1 where "s1 = unlink_timer e s"
  have i1: "inside TimerLock s0 s1"
    unfolding s1_def using inside_same [OF ins event_inv_unlink_timer [OF inv]] by simp
  have d1: "idle_timer e s1" unfolding s1_def by (rule idle_timer_unlink [OF inv]) (simp add: e)
  have t1: "trigger (events s1) = trigger (events s)" "period (events s1) = period (events s)" "mEfiTimerList s1 = ts"
    using e by (simp_all only: s1_def trigger_unlink) simp
  have "e \<in> set (mEfiTimerList s)" using e by simp
  then obtain ev0 where "events s e = Some ev0" using inv by (auto simp: event_inv_def timer_inv_def)
  then have live: "events s1 e \<noteq> None" by (simp add: s1_def chg_eq)
  then have "not_closed e s1" by (auto simp: not_closed_def)
  then obtain st s2 where s2: "CoreSignalEvent rt env e s1 = ret (st, s2)" "good_from s1 s2" "quiet s1 s2"
    using CoreSignalEvent_total [OF inside_free_high [OF i1 s0]] by blast
  have ck2: "check_event_kept s2" using ck check_event_quiet [OF s2(3)] by (simp add: s1_def)
  have i2: "inside TimerLock s0 s2" by (rule inside_good [OF i1 s2(2)])
  have d2: "idle_timer e s2" by (rule idle_timer_quiet [OF s2(3) d1])
  have l2: "mEfiTimerList s2 = ts" using s2(3) t1 by (simp add: quiet_def)
  note t2 = quiet_timers [OF s2(3)]
  obtain ev where ev: "events s2 e = Some ev" using live t2(3) [of e] by auto
  have tp: "TriggerTime ev = trigger (events s) e" "Period ev = period (events s) e"
    using ev t1 t2 by (metis option.simps(5) trigger_def, metis option.simps(5) period_def)
  show ?thesis
  proof (cases "Period ev = 0")
    case True
    then have "check_timer rt env T e s = ret s2"
      by (simp add: check_timer_def s1_def [symmetric] s2(1) with_event_def ev)
    moreover have "period (events s) e = 0" using True tp by simp
    ultimately show ?thesis using i2 t1 t2 l2 ck2 by (intro exI [of _ s2]) (simp add: fun_upd_idem)
  next
    case False
    define t where "t = TriggerTime ev + Period ev"
    define s3 where "s3 = upd_event e (\<lambda>v. v\<lparr>TriggerTime := t\<rparr>) s2"
    define s4 where "s4 = upd_event e (\<lambda>v. v\<lparr>TriggerTime := T\<rparr>) s3"
    obtain s6 where s6:
      "(if t \<le> T then bind_run (CoreSignalEvent rt env (mEfiCheckTimerEvent s3) s4) (\<lambda>(_, s4). ret s4) else ret s3) = ret s6"
      "inside TimerLock s0 s6" "idle_timer e s6" "mEfiTimerList s6 = mEfiTimerList s2" "events s6 e \<noteq> None"
      "trigger (events s6) = (trigger (events s2))(e := next_trigger T (TriggerTime ev) (Period ev))"
      "period (events s6) = period (events s2)" "check_event_kept s6"
      by (rule rearm_timer_total [OF i2 d2 s0 ck2 ev t_def s3_def s4_def])
    obtain ev6 where ev6: "events s6 e = Some ev6" using s6(5) by blast
    with s6(3) have "\<not> TimerLinked ev6" "EventType ev6 AND EVT_TIMER \<noteq> 0" by (simp_all add: idle_timer_def)
    then obtain s7 where s7: "CoreInsertEventTimer env e s6 = ret s7" "inside TimerLock s0 s7"
      "trigger (events s7) = trigger (events s6)" "period (events s7) = period (events s6)"
      "set (mEfiTimerList s7) = insert e (set (mEfiTimerList s6))" "check_event_kept s7"
      using insert_timer_total [OF s6(2) ev6] s6(8) by blast
    have "check_timer rt env T e s = ret s7"
      unfolding check_timer_def s1_def [symmetric] s2(1) bind_run_simps prod.case with_event_def ev option.case
      using False s7(1) s6(1) by (simp only: if_True not_False_eq_True Let_def t_def [symmetric] s3_def [symmetric] s4_def [symmetric] bind_run_simps)
    then show ?thesis using s7 s6 l2 t1 t2 tp False by (intro exI [of _ s7]) simp
  qed
qed

end

lemma settled_idem: "T < settled T t p \<Longrightarrow> settled T (settled T t p) p = settled T t p"
  by (simp add: settled_def)

lemma settled_late: "p \<noteq> 0 \<longrightarrow> T < T + p \<Longrightarrow> T < t \<or> p \<noteq> 0 \<Longrightarrow> T < settled T t p"
  by (auto simp: settled_def)

lemma settled_next: "T < T + p \<Longrightarrow> t \<le> T \<Longrightarrow> settled T (next_trigger T t p) p = settled T t p"
  by (auto simp: settled_def next_trigger_def not_le)

lemma passes_next: "T < T + p \<Longrightarrow> t \<le> T \<Longrightarrow> p \<noteq> 0 \<Longrightarrow> passes T (next_trigger T t p) p < passes T t p"
  by (auto simp: passes_def next_trigger_def not_le)

lemma trigger_sorted_head:
  assumes "event_inv s" "mEfiTimerList s = e # ts" "x \<in> set (e # ts)"
  shows "trigger (events s) e \<le> trigger (events s) x"
  using assms by (auto simp: event_inv_def timer_inv_def)

context idle_service
begin

text \<open>One timer that is due: the passes still to make decrease, and what the settled list will be stays the same.\<close>

abbreviation stays :: "u64 \<Rightarrow> 'w event_state \<Rightarrow> ptr set" where
  "stays T s \<equiv> {x \<in> set (mEfiTimerList s). T < trigger (events s) x \<or> period (events s) x \<noteq> 0}"

lemma due_timer_total:
  assumes s0: "event_inv s0" "\<not> Acquired (locks s0 EventQueueLock)" and ins: "inside TimerLock s0 s"
    and ck: "check_event_kept s" and Cons: "mEfiTimerList s = e # ts" and tT: "trigger (events s) e \<le> T" and wrap: "no_wrap T s"
  obtains s1 where "check_timer rt env T e s = ret s1" "inside TimerLock s0 s1" "check_event_kept s1" "no_wrap T s1" "all_passes T s1 < all_passes T s"
    "stays T s1 = stays T s"
    "\<And>x. x \<in> stays T s \<Longrightarrow> settled T (trigger (events s1) x) (period (events s1) x) = settled T (trigger (events s) x) (period (events s) x)"
proof -
  let ?p = "period (events s) e" and ?t = "trigger (events s) e"
  obtain s1 where s1: "check_timer rt env T e s = ret s1" "inside TimerLock s0 s1" "check_event_kept s1" "period (events s1) = period (events s)"
    "trigger (events s1) = (trigger (events s))(e := if ?p = 0 then ?t else next_trigger T ?t ?p)"
    "set (mEfiTimerList s1) = (if ?p = 0 then set ts else insert e (set ts))"
    using check_timer_total [OF ins s0 ck Cons] by blast
  have dist: "e \<notin> set ts" using inside_inv [OF ins] Cons by (simp add: event_inv_def timer_inv_def)
  have nw: "?p \<noteq> 0 \<Longrightarrow> T < T + ?p" using wrap Cons by (auto simp: no_wrap_def)
  show thesis
  proof (rule that [OF s1(1-3)])
    show "no_wrap T s1" using wrap s1(4,6) Cons by (auto simp: no_wrap_def split: if_splits)
    have rest: "(\<Sum>x \<in> set ts. passes T (trigger (events s1) x) (period (events s1) x)) =
        (\<Sum>x \<in> set ts. passes T (trigger (events s) x) (period (events s) x))"
      using dist s1(4,5) by (intro sum.cong) auto
    show "all_passes T s1 < all_passes T s"
    proof (cases "?p = 0")
      case True
      then have "0 < passes T ?t ?p" using tT by (simp add: passes_def)
      then show ?thesis using True dist Cons rest s1(6) by (simp add: all_passes_def)
    next
      case False
      then show ?thesis using dist Cons rest s1(4-6) passes_next [OF nw [OF False] tT False] by (simp add: all_passes_def)
    qed
    show "stays T s1 = stays T s"
    proof (rule set_eqI)
      fix x
      have "x \<in> set (mEfiTimerList s1) \<longleftrightarrow> x \<in> set (mEfiTimerList s) \<and> (x = e \<longrightarrow> ?p \<noteq> 0)"
        unfolding s1(6) Cons using dist by (cases "?p = 0") auto
      then show "x \<in> stays T s1 \<longleftrightarrow> x \<in> stays T s" using s1(4,5) tT by (cases "x = e") auto
    qed
    fix x assume "x \<in> stays T s"
    then have "x = e \<Longrightarrow> ?p \<noteq> 0" using tT by auto
    then show "settled T (trigger (events s1) x) (period (events s1) x) = settled T (trigger (events s) x) (period (events s) x)"
      using s1(4,5) settled_next [OF nw tT] by (cases "x = e") auto
  qed
qed

lemma check_timers_loop_total:
  assumes s0: "event_inv s0" "\<not> Acquired (locks s0 EventQueueLock)"
  shows "inside TimerLock s0 s \<Longrightarrow> check_event_kept s \<Longrightarrow> no_wrap T s \<Longrightarrow> all_passes T s < k \<Longrightarrow>
    \<exists>s'. check_timers_loop rt k env T s = ret s' \<and>
      set (mEfiTimerList s') = {x \<in> set (mEfiTimerList s). T < trigger (events s) x \<or> period (events s) x \<noteq> 0} \<and>
      (\<forall>x \<in> set (mEfiTimerList s'). trigger (events s') x = settled T (trigger (events s) x) (period (events s) x))"
proof (induction k arbitrary: s)
  case (Suc k)
  note inv = inside_inv [OF Suc.prems(1)]
  show ?case
  proof (cases "mEfiTimerList s")
    case (Cons e ts)
    obtain ev where ev: "events s e = Some ev" using inv Cons by (force simp: event_inv_def timer_inv_def)
    then have tr: "trigger (events s) e = TriggerTime ev" by (simp add: trigger_def)
    show ?thesis
    proof (cases "T < TriggerTime ev")
      case True
      have late: "T < trigger (events s) x" if "x \<in> set (mEfiTimerList s)" for x
        using True trigger_sorted_head [OF inv Cons, of x] that Cons tr by (simp add: order_less_le_trans)
      have "check_timers_loop rt (Suc k) env T s = ret s" using True Cons ev by (simp add: with_event_def)
      moreover have "set (mEfiTimerList s) = stays T s" using late by blast
      ultimately show ?thesis using late by (intro exI [of _ s]) (simp add: settled_def)
    next
      case False
      then have "trigger (events s) e \<le> T" using tr by simp
      then obtain s1 where s1: "check_timer rt env T e s = ret s1" "inside TimerLock s0 s1" "check_event_kept s1" "no_wrap T s1" "all_passes T s1 < all_passes T s"
        "stays T s1 = stays T s"
        "\<And>x. x \<in> stays T s \<Longrightarrow> settled T (trigger (events s1) x) (period (events s1) x) = settled T (trigger (events s) x) (period (events s) x)"
        using due_timer_total [OF s0 Suc.prems(1,2) Cons _ Suc.prems(3)] by blast
      obtain s' where s': "check_timers_loop rt k env T s1 = ret s'" "set (mEfiTimerList s') = stays T s1"
        "\<forall>x \<in> set (mEfiTimerList s'). trigger (events s') x = settled T (trigger (events s1) x) (period (events s1) x)"
        using Suc.IH [OF s1(2-4)] Suc.prems(4) s1(5) by auto
      have "check_timers_loop rt (Suc k) env T s = ret s'"
        using Cons ev False s1(1) s'(1) by (simp add: with_event_def)
      moreover have "\<forall>x \<in> set (mEfiTimerList s'). trigger (events s') x = settled T (trigger (events s) x) (period (events s) x)"
        using s'(2,3) s1(6,7) by auto
      ultimately show ?thesis using s'(2) s1(6) by blast
    qed
  qed simp
qed simp

end

text \<open>A periodic timer whose period wraps the clock is found expired again in every pass.\<close>

definition stuck :: "u64 \<Rightarrow> ptr \<Rightarrow> 'w event_state \<Rightarrow> bool" where
  "stuck T e s \<longleftrightarrow> e \<in> set (mEfiTimerList s) \<and> period (events s) e \<noteq> 0 \<and> T + period (events s) e \<le> T \<and>
     trigger (events s) e \<le> T \<and> trigger (events s) e + period (events s) e \<le> T"

context idle_service
begin

lemma check_timers_loop_stuck:
  assumes s0: "event_inv s0" "\<not> Acquired (locks s0 EventQueueLock)"
  shows "inside TimerLock s0 s \<Longrightarrow> check_event_kept s \<Longrightarrow> stuck T e s \<Longrightarrow> check_timers_loop rt k env T s = None"
proof (induction k arbitrary: s)
  case (Suc k)
  note inv = inside_inv [OF Suc.prems(1)]
  obtain y ts where y: "mEfiTimerList s = y # ts" using Suc.prems(3) by (cases "mEfiTimerList s") (auto simp: stuck_def)
  obtain ev where ev: "events s y = Some ev" using inv y by (force simp: event_inv_def timer_inv_def)
  have "trigger (events s) y \<le> trigger (events s) e"
    using trigger_sorted_head [OF inv y] Suc.prems(3) y by (simp add: stuck_def)
  then have le: "\<not> T < TriggerTime ev" using ev Suc.prems(3) by (auto simp: stuck_def trigger_def not_less)
  obtain s1 where s1: "check_timer rt env T y s = ret s1" "inside TimerLock s0 s1" "check_event_kept s1" "period (events s1) = period (events s)"
    "trigger (events s1) = (trigger (events s))(y := if period (events s) y = 0 then trigger (events s) y
      else next_trigger T (trigger (events s) y) (period (events s) y))"
    "set (mEfiTimerList s1) = (if period (events s) y = 0 then set ts else insert y (set ts))"
    using check_timer_total [OF Suc.prems(1) s0 Suc.prems(2) y] by blast
  have "stuck T e s1"
    using Suc.prems(3) s1(4-6) y by (cases "e = y") (auto simp: stuck_def next_trigger_def)
  from Suc.IH [OF s1(2,3) this] show ?case using y ev le s1(1) by (simp add: with_event_def)
qed simp

end

lemma CoreRestoreTpl_total:
  assumes "asserts_on env" "gEfiCurrentTpl s \<ge> n" "n \<le> 31" "\<And>p. bit (gEventPending s) p \<Longrightarrow> p < 31" "calm n s"
  shows "\<exists>s'. CoreRestoreTpl (Suc (Suc k)) env n s = ret s'"
proof -
  define s1 where "s1 = (if TPL_HIGH_LEVEL \<le> gEfiCurrentTpl s \<and> n < TPL_HIGH_LEVEL then s\<lparr>gEfiCurrentTpl := TPL_HIGH_LEVEL\<rparr> else s)"
  have "unat n \<le> 31" using assms(3) by (simp add: word_le_nat_alt)
  moreover have "bit (gEventPending s1) p \<Longrightarrow> p < 31" "calm n s1" for p using assms(4,5) by (auto simp: s1_def split: if_splits)
  ultimately have "pending_above n s1 = 0" using pending_above_zero [of n s1] by blast
  then have "pending_loop (CoreRestoreTpl (Suc k) env) (Suc k) env n s1 = ret s1" by simp
  then show ?thesis
    using assms by (simp only: CoreRestoreTpl.simps(2) [of "Suc k"] restore_body_def Let_def s1_def [symmetric]) (simp add: not_less)
qed

lemma CoreRestoreTpl_idle:
  assumes "asserts_on env"
  shows "idle_service (CoreRestoreTpl (Suc (Suc k)) env) env"
  by (intro idle_service.intro CoreRestoreTpl_contract idle_service_axioms.intro CoreRestoreTpl_total assms)

interpretation core_idle: idle_service "CoreRestoreTpl (Suc (Suc k)) (env\<lparr>asserts_on := True\<rparr>)" "env\<lparr>asserts_on := True\<rparr>" for k env
  by (rule CoreRestoreTpl_idle) simp

section \<open>Properties\<close>

text \<open>The initial state of the event globals satisfies the invariant.\<close>

lemma event_inv_boot: "event_inv (boot_state w)"
  by (simp add: boot_state_def event_inv_def notify_inv_def signal_inv_def timer_inv_def types_inv_def lock_inv_def initial_locks_def)

lemma calm_boot: "calm t (boot_state w)"
  by (simp add: boot_state_def calm_def)

section \<open>The order of notifications\<close>

text \<open>Notification functions that call no event service: what they do to the rest of the world.\<close>

definition pure_handlers :: "'w event_env \<Rightarrow> (u64 \<Rightarrow> ptr \<Rightarrow> u64 \<Rightarrow> 'w \<Rightarrow> 'w) \<Rightarrow> bool" where
  "pure_handlers env h \<longleftrightarrow> (\<forall>f e c w. user_notify env f e c w = Done (h f e c w))"

definition invoke :: "(u64 \<Rightarrow> ptr \<Rightarrow> u64 \<Rightarrow> 'w \<Rightarrow> 'w) \<Rightarrow> event_map \<Rightarrow> ptr \<Rightarrow> 'w \<Rightarrow> 'w" where
  "invoke h evs e w = (case evs e of None \<Rightarrow> w | Some ev \<Rightarrow>
     (case NotifyFunction ev of UserNotify f \<Rightarrow> h f e (NotifyContext ev) w | _ \<Rightarrow> w))"

definition handler :: "IEVENT \<Rightarrow> EFI_EVENT_NOTIFY \<times> u64" where
  "handler ev = (NotifyFunction ev, NotifyContext ev)"

definition same_handlers :: "event_map \<Rightarrow> event_map \<Rightarrow> bool" where
  "same_handlers evs evs' \<longleftrightarrow> (\<forall>x. map_option handler (evs' x) = map_option handler (evs x))"

text \<open>No event of the list is the timer check's.\<close>

definition no_timer_check :: "event_map \<Rightarrow> ptr list \<Rightarrow> bool" where
  "no_timer_check evs es \<longleftrightarrow> (\<forall>e \<in> set es. \<forall>ev. evs e = Some ev \<longrightarrow> NotifyFunction ev \<noteq> CoreCheckTimersNotify)"

lemma no_timer_check_Cons: "no_timer_check evs (e # es) \<Longrightarrow> no_timer_check evs es"
  by (simp add: no_timer_check_def)

lemma no_timer_check_append: "no_timer_check evs (es @ es') \<longleftrightarrow> no_timer_check evs es \<and> no_timer_check evs es'"
  by (auto simp: no_timer_check_def)

lemma same_handlers_refl [simp]: "same_handlers evs evs"
  by (simp add: same_handlers_def)

lemma same_handlers_trans: "same_handlers a b \<Longrightarrow> same_handlers b c \<Longrightarrow> same_handlers a c"
  by (simp add: same_handlers_def)

lemma same_handlers_chg: "(\<And>v. handler (f v) = handler v) \<Longrightarrow> same_handlers evs (chg evs e f)"
  by (simp add: same_handlers_def chg_eq option.map_comp comp_def)

lemma same_handlersD:
  assumes "same_handlers evs evs'"
  shows "invoke h evs' = invoke h evs" "no_timer_check evs' es \<longleftrightarrow> no_timer_check evs es"
proof -
  have e: "map_option handler (evs' x) = map_option handler (evs x)" for x using assms by (simp add: same_handlers_def)
  have "invoke h evs' x w = invoke h evs x w" for x w
    using e [of x] by (cases "evs x"; cases "evs' x") (auto simp: invoke_def handler_def split: EFI_EVENT_NOTIFY.split)
  then show "invoke h evs' = invoke h evs" by (intro ext)
  have "(\<exists>ev. evs' x = Some ev \<and> NotifyFunction ev = CoreCheckTimersNotify) \<longleftrightarrow>
      (\<exists>ev. evs x = Some ev \<and> NotifyFunction ev = CoreCheckTimersNotify)" for x
    using e [of x] by (cases "evs x"; cases "evs' x") (simp_all add: handler_def)
  then show "no_timer_check evs' es \<longleftrightarrow> no_timer_check evs es" unfolding no_timer_check_def by metis
qed

lemma call_notify_pure:
  assumes "pure_handlers env h" "events s e = Some ev" "NotifyFunction ev \<noteq> NoNotify" "NotifyFunction ev \<noteq> CoreCheckTimersNotify"
  shows "call_notify rt k env e ev s = ret (s\<lparr>eworld := invoke h (events s) e (eworld s)\<rparr>)"
  using assms by (auto simp: call_notify_def invoke_def pure_handlers_def split: EFI_EVENT_NOTIFY.split)

context idle_service
begin

lemma queue_after_head:
  assumes inv: "event_inv s" and q: "gEventQueue s p = e # es" and ev: "events s e = Some ev" "unat (NotifyTpl ev) = p"
  shows "gEventQueue (unlink_notify e s) = (gEventQueue s)(p := es)"
proof -
  have "remove1 e (gEventQueue s x) = gEventQueue s x" if "x \<noteq> p" for x
  proof -
    have "e \<notin> set (gEventQueue s x)" using inv ev that unfolding event_inv_def notify_inv_def by auto
    then show ?thesis by (simp add: remove1_idem)
  qed
  then show ?thesis using q by (auto simp: unlink_notify_def fun_eq_iff)
qed

text \<open>After the handler the queue lock is taken again.\<close>

lemma reacquire_queue_total:
  assumes ins: "inside EventQueueLock s0 s" and s0: "event_inv s0" and g: "good_from s0 s3" and free: "\<not> Acquired (locks s3 EventQueueLock)"
  obtains s4 where "CoreAcquireLock env EventQueueLock s3 = ret s4" "locked EventQueueLock s3 s4"
    "inside EventQueueLock s0 s4" "calm (gEfiCurrentTpl s0) s4"
proof -
  have "gEfiCurrentTpl s0 \<le> 31" "LockTpl (locks s3 EventQueueLock) = 31"
    using ins s0 g by (auto simp: inside_def good_from_def event_inv_def lock_inv_def)
  then obtain s4 where s4: "CoreAcquireLock env EventQueueLock s3 = ret s4" "locked EventQueueLock s3 s4"
    using acquire_total [OF free] g by (auto simp: good_from_def)
  have "held_but EventQueueLock s0 s4"
    using locked_held_but [OF s4(2)] g unfolding held_but_def good_from_def held_same_def by metis
  then have "inside EventQueueLock s0 s4"
    using locked_inside [OF s4(2)] g by (auto simp: inside_def good_from_def held_same_def)
  moreover have "calm (gEfiCurrentTpl s0) s4" using locked_calm [OF s4(2)] g by (simp add: good_from_def)
  ultimately show thesis using that s4 by blast
qed

text \<open>One pass of the loop: the head of the queue is unlinked and its handler runs.\<close>

lemma notify_step_total:
  assumes pure: "pure_handlers env h" and s0: "event_inv s0"
    and ins: "inside EventQueueLock s0 s" and calm: "calm (gEfiCurrentTpl s0) s" and nt: "no_timer_check (events s) (gEventQueue s p)"
    and q: "gEventQueue s p = e # es"
  obtains s4 where "notify_loop rt (Suc k) env p s = notify_loop rt k env p s4"
    "inside EventQueueLock s0 s4" "calm (gEfiCurrentTpl s0) s4" "gEventPending s4 = gEventPending s"
    "gEventQueue s4 = (gEventQueue s)(p := es)" "same_handlers (events s) (events s4)"
    "eworld s4 = invoke h (events s) e (eworld s)"
proof -
  note inv = inside_inv [OF ins]
  have "e \<in> set (gEventQueue s p)" by (simp add: q)
  then obtain ev where ev: "events s e = Some ev" "NotifyLinked ev" "unat (NotifyTpl ev) = p"
    using inv unfolding event_inv_def notify_inv_def by blast
  have fn: "NotifyFunction ev \<noteq> NoNotify" "NotifyFunction ev \<noteq> CoreCheckTimersNotify"
    using inv ev(1,2) nt q by (auto simp: event_inv_def types_inv_def event_ok_def no_timer_check_def)
  define f :: "IEVENT \<Rightarrow> IEVENT" where "f = (\<lambda>v. v\<lparr>NotifyLinked := False,
      SignalCount := (if EventType v AND EVT_NOTIFY_SIGNAL \<noteq> 0 then 0 else SignalCount v)\<rparr>)"
  have f: "handler (f v) = handler v" "NotifyFunction (f v) = NotifyFunction v" for v by (simp_all add: f_def handler_def)
  define s1 where "s1 = upd_event e f (unlink_notify e s)"
  have i1: "inside EventQueueLock s0 s1"
    unfolding s1_def f_def using inside_same [OF ins event_inv_notified [OF inv]] by simp
  have c1: "calm (gEfiCurrentTpl s0) s1" using calm by (simp add: s1_def)
  obtain s2 where s2: "CoreReleaseLock rt env EventQueueLock s1 = ret s2" "released EventQueueLock s0 s1 s2" "good_from s0 s2"
    using release_total [OF i1 c1 s0] by blast
  note r = released_simps [OF s2(2)]
  have ev2: "events s2 e = Some (f ev)" using ev r by (simp add: s1_def chg_eq)
  have h2: "same_handlers (events s) (events s2)" using r by (simp add: s1_def same_handlers_chg f)
  define s3 where "s3 = s2\<lparr>eworld := invoke h (events s2) e (eworld s2)\<rparr>"
  have call: "call_notify rt k env e (f ev) s2 = ret s3"
    unfolding s3_def by (rule call_notify_pure [OF pure ev2]) (simp_all add: f fn)
  have g3: "good_from s0 s3" using s2(3) by (simp add: s3_def)
  have "\<not> Acquired (locks s3 EventQueueLock)" using s2(2) by (auto simp: s3_def released_def)
  then obtain s4 where s4: "CoreAcquireLock env EventQueueLock s3 = ret s4" "locked EventQueueLock s3 s4"
    "inside EventQueueLock s0 s4" "calm (gEfiCurrentTpl s0) s4"
    by (rule reacquire_queue_total [OF ins s0 g3])
  note l = locked_simps [OF s4(2)]
  have ew: "eworld s2 = eworld s" "gEventPending s2 = gEventPending s" "gEventQueue s2 = (gEventQueue s)(p := es)"
    using r queue_after_head [OF inv q ev(1,3)] by (simp_all add: s1_def) (simp add: unlink_notify_def)
  have "eworld s3 = invoke h (events s) e (eworld s)"
    by (simp only: s3_def same_handlersD(1) [OF h2] ew) simp
  then have st4: "gEventPending s4 = gEventPending s" "gEventQueue s4 = (gEventQueue s)(p := es)" "same_handlers (events s) (events s4)"
    "eworld s4 = invoke h (events s) e (eworld s)"
    using l(1,2,9,10) ew h2 by (simp_all add: s3_def)
  have "notify_loop rt (Suc k) env p s = notify_loop rt k env p s4"
    using q ev ev2 s2(1) call s4(1) fn
    by (simp add: with_event_def Let_def f_def [symmetric] s1_def [symmetric] f assert_if_def)
  then show thesis using that s4(3,4) st4 by blast
qed

lemma notify_loop_total:
  assumes pure: "pure_handlers env h" and s0: "event_inv s0"
  shows "inside EventQueueLock s0 s \<Longrightarrow> calm (gEfiCurrentTpl s0) s \<Longrightarrow> no_timer_check (events s) (gEventQueue s p) \<Longrightarrow>
    length (gEventQueue s p) < k \<Longrightarrow>
    \<exists>s'. notify_loop rt k env p s = ret s' \<and> inside EventQueueLock s0 s' \<and> calm (gEfiCurrentTpl s0) s' \<and>
      gEventPending s' = gEventPending s \<and> gEventQueue s' = (gEventQueue s)(p := []) \<and>
      same_handlers (events s) (events s') \<and> eworld s' = fold (invoke h (events s)) (gEventQueue s p) (eworld s)"
proof (induction k arbitrary: s)
  case (Suc k)
  show ?case
  proof (cases "gEventQueue s p")
    case Nil
    then show ?thesis using Suc.prems by (intro exI [of _ s]) (auto simp: fun_eq_iff)
  next
    case (Cons e es)
    obtain s4 where s4: "notify_loop rt (Suc k) env p s = notify_loop rt k env p s4"
      "inside EventQueueLock s0 s4" "calm (gEfiCurrentTpl s0) s4" "gEventPending s4 = gEventPending s"
      "gEventQueue s4 = (gEventQueue s)(p := es)" "same_handlers (events s) (events s4)"
      "eworld s4 = invoke h (events s) e (eworld s)"
      by (rule notify_step_total [OF pure s0 Suc.prems(1-3) Cons])
    have "no_timer_check (events s4) (gEventQueue s4 p)" "length (gEventQueue s4 p) < k"
      using s4(5) same_handlersD(2) [OF s4(6)] Suc.prems(3,4) Cons by (simp_all add: no_timer_check_Cons)
    from Suc.IH [OF s4(2,3) this] obtain s' where s': "notify_loop rt k env p s4 = ret s'" "inside EventQueueLock s0 s'"
      "calm (gEfiCurrentTpl s0) s'" "gEventPending s' = gEventPending s4" "gEventQueue s' = (gEventQueue s4)(p := [])"
      "same_handlers (events s4) (events s')" "eworld s' = fold (invoke h (events s4)) (gEventQueue s4 p) (eworld s4)" by blast
    have "same_handlers (events s) (events s')" using s'(6) s4(6) by (auto intro: same_handlers_trans)
    then show ?thesis
      using s' s4(1,4,5,7) Cons same_handlersD(1) [OF s4(6), of h] by (intro exI [of _ s']) simp
  qed
qed simp

end

text \<open>What is waiting above TPL \<open>n\<close>, in the order of its notification.\<close>

definition waiting :: "nat \<Rightarrow> 'w event_state \<Rightarrow> ptr list" where
  "waiting n s = concat (map (gEventQueue s) (rev [Suc n ..< 31]))"

definition levels_above :: "nat \<Rightarrow> 'w event_state \<Rightarrow> nat set" where
  "levels_above n s = {p. bit (gEventPending s) p \<and> n < p}"

lemma upt_split: "i \<le> j \<Longrightarrow> j \<le> k \<Longrightarrow> [i ..< k] = [i ..< j] @ [j ..< k]"
  using upt_add_eq_append [of i j "k - j"] by simp

lemma queue_pending:
  assumes "event_inv s" "\<not> bit (gEventPending s) q" shows "gEventQueue s q = []"
proof (rule ccontr)
  assume "gEventQueue s q \<noteq> []"
  then obtain x where "x \<in> set (gEventQueue s q)" by (cases "gEventQueue s q") auto
  then obtain ev where "events s x = Some ev" "NotifyLinked ev" "unat (NotifyTpl ev) = q"
    using assms(1) unfolding event_inv_def notify_inv_def by blast
  with assms show False unfolding event_inv_def notify_inv_def by blast
qed

lemma waiting_split:
  assumes inv: "event_inv s" and h: "highest_bit (gEventPending s) h" "n < h"
  shows "waiting n s = gEventQueue s h @ concat (map (gEventQueue s) (rev [Suc n ..< h]))"
proof -
  have h31: "h < 31" using inv h(1) by (auto simp: event_inv_def notify_inv_def highest_bit_def)
  have empty: "gEventQueue s q = []" if "h < q" for q
    using queue_pending [OF inv] h(1) that by (simp add: highest_bit_def)
  have "[Suc n ..< 31] = [Suc n ..< h] @ [h ..< 31]" using h h31 by (intro upt_split) auto
  also have "[h ..< 31] = h # [Suc h ..< 31]" using h31 by (simp add: upt_conv_Cons)
  finally show ?thesis using empty by (auto simp: waiting_def)
qed

lemma calm_levels: "unat n' = n \<Longrightarrow> calm n' s \<longleftrightarrow> levels_above n s = {}"
  by (auto simp: calm_def levels_above_def not_less [symmetric])

lemma waiting_calm: "event_inv s \<Longrightarrow> levels_above n s = {} \<Longrightarrow> waiting n s = []"
proof -
  assume a: "event_inv s" "levels_above n s = {}"
  have "gEventQueue s q = []" if "n < q" for q
    using queue_pending [OF a(1)] a(2) that by (auto simp: levels_above_def)
  then show ?thesis by (simp add: waiting_def)
qed

lemma finite_levels: "finite (levels_above n s)"
  unfolding levels_above_def by (rule finite_subset [of _ "{..<64}"]) (auto dest: bit_imp_le_length)

context idle_service
begin

lemma CoreDispatchEventNotifies_total:
  assumes pure: "pure_handlers env h" and inv: "event_inv s" and calm: "calm (gEfiCurrentTpl s) s"
    and p: "gEfiCurrentTpl s = p" "p < 31" and free: "\<not> Acquired (locks s EventQueueLock)"
    and nt: "no_timer_check (events s) (gEventQueue s (unat p))" and k: "length (gEventQueue s (unat p)) < k"
  shows "\<exists>s'. CoreDispatchEventNotifies rt k env p s = ret s' \<and> good_from s s' \<and>
    gEventPending s' = gEventPending s AND NOT (tpl_bit (unat p)) \<and> gEventQueue s' = (gEventQueue s)(unat p := []) \<and>
    same_handlers (events s) (events s') \<and> eworld s' = fold (invoke h (events s)) (gEventQueue s (unat p)) (eworld s)"
proof -
  have "gEfiCurrentTpl s \<le> LockTpl (locks s EventQueueLock)" "LockTpl (locks s EventQueueLock) = 31"
    using p inv by (auto simp: event_inv_def lock_inv_def)
  then obtain s1 where s1: "CoreAcquireLock env EventQueueLock s = ret s1" "locked EventQueueLock s s1"
    using acquire_total [OF free] by auto
  note l = locked_simps [OF s1(2)]
  have i1: "inside EventQueueLock s s1" by (rule locked_inside [OF s1(2) inv])
  have c1: "calm (gEfiCurrentTpl s) s1" using calm locked_calm [OF s1(2)] by simp
  have "no_timer_check (events s1) (gEventQueue s1 (unat p))" "length (gEventQueue s1 (unat p)) < k" using nt k l by simp_all
  from notify_loop_total [OF pure inv i1 c1 this] obtain s2 where s2: "notify_loop rt k env (unat p) s1 = ret s2"
    "inside EventQueueLock s s2" "calm (gEfiCurrentTpl s) s2" "gEventPending s2 = gEventPending s1"
    "gEventQueue s2 = (gEventQueue s1)(unat p := [])" "same_handlers (events s1) (events s2)"
    "eworld s2 = fold (invoke h (events s1)) (gEventQueue s1 (unat p)) (eworld s1)" by blast
  define s3 where "s3 = s2\<lparr>gEventPending := gEventPending s2 AND NOT (tpl_bit (unat p))\<rparr>"
  have p31: "unat p < 31" using p(2) by (simp add: word_less_nat_alt)
  have "event_inv s3" unfolding s3_def
    by (rule event_inv_no_pending) (use s2 p31 in \<open>simp_all add: inside_inv\<close>)
  then have i3: "inside EventQueueLock s s3" using s2(2) by (auto simp: s3_def intro: inside_same)
  have c3: "calm (gEfiCurrentTpl s) s3" using s2(3) p31 by (simp add: s3_def calm_def bit_clear_tpl_bit)
  obtain s4 where s4: "CoreReleaseLock rt env EventQueueLock s3 = ret s4" "released EventQueueLock s s3 s4" "good_from s s4"
    using release_total [OF i3 c3 inv] by blast
  note r = released_simps [OF s4(2)]
  have "OwnerTpl (locks s1 EventQueueLock) = p" using l(12) p(1) by simp
  then have "CoreDispatchEventNotifies rt k env p s = ret s4"
    using s1(1) s2(1) s4(1) by (simp add: CoreDispatchEventNotifies_def s3_def)
  then show ?thesis using s4(3) r l s2 by (intro exI [of _ s4]) (simp add: s3_def)
qed

text \<open>The level the loop serves is the highest pending one.\<close>

lemma highest_level_served:
  assumes n: "unat n \<le> 31" and inv: "event_inv s" and some: "levels_above (unat n) s \<noteq> {}"
  obtains hb where "highest_bit (gEventPending s) hb" "unat n < hb" "hb < 31"
    "unat (word_of_int (HighBitSet64 (gEventPending s)) :: u64) = hb"
proof -
  obtain q where q: "bit (gEventPending s) q" "unat n < q" using some by (auto simp: levels_above_def)
  then have "gEventPending s \<noteq> 0" by auto
  then obtain hb where hb: "highest_bit (gEventPending s) hb" "HighBitSet64 (gEventPending s) = int hb"
    using HighBitSet64_highest by blast
  have h31: "hb < 31" using inv hb(1) by (simp add: highest_bit_def event_inv_def notify_inv_def)
  have "unat n < hb" using hb(1) q by (metis highest_bit_def not_less order_less_le_trans)
  then show thesis using that [OF hb(1)] h31 hb(2) by (simp add: unsigned_of_nat take_bit_nat_eq_self)
qed

lemma waiting_after_level:
  assumes inv: "event_inv s" and hb: "highest_bit (gEventPending s) hb" "n < hb" "hb < 31"
    and q: "gEventQueue s3 = (gEventQueue s)(hb := [])"
  shows "waiting n s3 = concat (map (gEventQueue s) (rev [Suc n ..< hb]))"
proof -
  have e: "gEventQueue s3 q = []" if "hb \<le> q" for q
  proof (cases "q = hb")
    case False
    then have "\<not> bit (gEventPending s) q" using hb(1) that by (simp add: highest_bit_def)
    then show ?thesis using False q queue_pending [OF inv] by simp
  qed (simp add: q)
  have "[Suc n ..< 31] = [Suc n ..< hb] @ [hb ..< 31]" using hb by (intro upt_split) auto
  then have "waiting n s3 = concat (map (gEventQueue s3) (rev [hb ..< 31])) @
      concat (map (gEventQueue s3) (rev [Suc n ..< hb]))" by (simp add: waiting_def)
  moreover have "concat (map (gEventQueue s3) (rev [hb ..< 31])) = []" using e by simp
  moreover have "map (gEventQueue s3) (rev [Suc n ..< hb]) = map (gEventQueue s) (rev [Suc n ..< hb])"
    by (rule map_cong) (auto simp: q)
  ultimately show ?thesis by simp
qed

lemma levels_after_level:
  assumes "highest_bit (gEventPending s) hb" "n < hb" "hb < 31" "gEventPending s3 = gEventPending s AND NOT (tpl_bit hb)"
  shows "card (levels_above n s3) < card (levels_above n s)"
proof -
  have "levels_above n s3 = levels_above n s - {hb}"
    using assms(3) by (auto simp: levels_above_def assms(4) bit_clear_tpl_bit)
  moreover have "hb \<in> levels_above n s" using assms(1,2) by (simp add: levels_above_def highest_bit_def)
  ultimately show ?thesis using card_Diff1_less [OF finite_levels] by metis
qed

text \<open>One pass of the loop: the TPL goes to that level and its queue is served.\<close>

lemma pending_step_total:
  assumes pure: "pure_handlers env h" and n: "unat n \<le> 31" and inv: "event_inv s"
    and free: "\<not> Acquired (locks s EventQueueLock)" and nt: "no_timer_check (events s) (waiting (unat n) s)"
    and some: "pending_above n s \<noteq> 0" "levels_above (unat n) s \<noteq> {}" and k: "length (waiting (unat n) s) < k"
  obtains s3 hb where "pending_loop rt (Suc k) env n s = pending_loop rt k env n s3" "event_inv s3"
    "\<not> Acquired (locks s3 EventQueueLock)" "highest_bit (gEventPending s) hb" "unat n < hb" "hb < 31"
    "gEventPending s3 = gEventPending s AND NOT (tpl_bit hb)" "gEventQueue s3 = (gEventQueue s)(hb := [])"
    "same_handlers (events s) (events s3)" "eworld s3 = fold (invoke h (events s)) (gEventQueue s hb) (eworld s)"
proof -
  define p :: u64 where "p = word_of_int (HighBitSet64 (gEventPending s))"
  obtain hb where hb: "highest_bit (gEventPending s) hb" "unat n < hb" "hb < 31" and up: "unat p = hb"
    unfolding p_def by (rule highest_level_served [OF n inv some(2)])
  then have p: "p < 31" by (simp add: word_less_nat_alt)
  define s1 where "s1 = s\<lparr>gEfiCurrentTpl := p\<rparr>"
  obtain i where i: "(if gEfiCurrentTpl s1 < TPL_HIGH_LEVEL then CoreSetInterruptState env True s1 else s1) = s1\<lparr>interrupts := i\<rparr>"
    using interrupt_state_if by blast
  define s2 where "s2 = s1\<lparr>interrupts := i\<rparr>"
  have s2: "event_inv s2" "gEfiCurrentTpl s2 = p" "gEventPending s2 = gEventPending s" "gEventQueue s2 = gEventQueue s"
    "events s2 = events s" "locks s2 = locks s" "eworld s2 = eworld s"
    using inv by (simp_all add: s2_def s1_def)
  have c: "calm (gEfiCurrentTpl s2) s2" using hb(1) up s2 by (auto simp: calm_def highest_bit_def not_less)
  have "length (gEventQueue s2 (unat p)) < k" "no_timer_check (events s2) (gEventQueue s2 (unat p))"
    using k nt waiting_split [OF inv hb(1,2)] by (simp_all add: s2 up no_timer_check_append)
  then obtain s3 where s3: "CoreDispatchEventNotifies rt k env p s2 = ret s3" "good_from s2 s3"
    "gEventPending s3 = gEventPending s AND NOT (tpl_bit hb)" "gEventQueue s3 = (gEventQueue s)(hb := [])"
    "same_handlers (events s) (events s3)" "eworld s3 = fold (invoke h (events s)) (gEventQueue s hb) (eworld s)"
    using CoreDispatchEventNotifies_total [OF pure s2(1) c s2(2) p] free s2 up by auto
  have "event_inv s3" "\<not> Acquired (locks s3 EventQueueLock)"
    using s3(2) free s2(6) by (auto simp: good_from_def held_same_def)
  moreover have "pending_loop rt (Suc k) env n s = bind_run (CoreDispatchEventNotifies rt k env (gEfiCurrentTpl s2) s2) (pending_loop rt k env n)"
    unfolding pending_loop.simps if_P [OF some(1)] Let_def p_def [symmetric] s1_def [symmetric] i s2_def ..
  ultimately show thesis using that [OF _ _ _ hb s3(3-6)] s2(2) s3(1) by simp
qed

lemma pending_loop_total:
  assumes pure: "pure_handlers env h" and n: "unat n \<le> 31"
  shows "event_inv s \<Longrightarrow> \<not> Acquired (locks s EventQueueLock) \<Longrightarrow> no_timer_check (events s) (waiting (unat n) s) \<Longrightarrow>
    length (waiting (unat n) s) + card (levels_above (unat n) s) < k \<Longrightarrow>
    \<exists>s'. pending_loop rt k env n s = ret s' \<and> eworld s' = fold (invoke h (events s)) (waiting (unat n) s) (eworld s)"
proof (induction k arbitrary: s)
  case (Suc k)
  note inv = Suc.prems(1)
  have z: "pending_above n s = 0 \<longleftrightarrow> levels_above (unat n) s = {}"
    using inv pending_above_zero [OF n, of s] calm_levels [OF refl, of n s] by (simp add: event_inv_def notify_inv_def)
  show ?case
  proof (cases "pending_above n s = 0")
    case True
    then show ?thesis using z waiting_calm [OF inv] by simp
  next
    case False
    then have some: "levels_above (unat n) s \<noteq> {}" using z by simp
    then have "0 < card (levels_above (unat n) s)" using finite_levels by (simp add: card_gt_0_iff)
    then have "length (waiting (unat n) s) < k" using Suc.prems(4) by linarith
    then obtain s3 hb where s3: "pending_loop rt (Suc k) env n s = pending_loop rt k env n s3" "event_inv s3"
      "\<not> Acquired (locks s3 EventQueueLock)" and hb: "highest_bit (gEventPending s) hb" "unat n < hb" "hb < 31"
      and e3: "gEventPending s3 = gEventPending s AND NOT (tpl_bit hb)" "gEventQueue s3 = (gEventQueue s)(hb := [])"
      "same_handlers (events s) (events s3)" "eworld s3 = fold (invoke h (events s)) (gEventQueue s hb) (eworld s)"
      by (rule pending_step_total [OF pure n Suc.prems(1-3) False some])
    note w = waiting_split [OF inv hb(1,2)] and w3 = waiting_after_level [OF inv hb e3(2)]
    have nt3: "no_timer_check (events s3) (waiting (unat n) s3)"
      using Suc.prems(3) by (simp add: same_handlersD(2) [OF e3(3)] w w3 no_timer_check_append)
    have "length (waiting (unat n) s3) + card (levels_above (unat n) s3) < k"
      using Suc.prems(4) w w3 levels_after_level [OF hb e3(1)] by simp
    from Suc.IH [OF s3(2,3) nt3 this] obtain s' where s': "pending_loop rt k env n s3 = ret s'"
      "eworld s' = fold (invoke h (events s3)) (waiting (unat n) s3) (eworld s3)" by blast
    have "eworld s' = fold (invoke h (events s)) (waiting (unat n) s) (eworld s)"
      by (simp add: s'(2) same_handlersD(1) [OF e3(3)] e3(4) w w3)
    then show ?thesis using s3(1) s'(1) by simp
  qed
qed simp

end

section \<open>Properties\<close>

lemma pure_debug: "pure_handlers env h \<Longrightarrow> pure_handlers (debug_build env) h"
  by (simp add: pure_handlers_def)

lemma card_levels_le: "event_inv s \<Longrightarrow> card (levels_above n s) \<le> 31"
proof -
  assume "event_inv s"
  then have "levels_above n s \<subseteq> {..<31}" by (auto simp: levels_above_def event_inv_def notify_inv_def)
  from card_mono [OF _ this] show ?thesis by simp
qed

text \<open>In a debug build.\<close>

lemma restore_runs_debug:
  assumes pure: "pure_handlers env h" and inv: "event_inv s" and nt: "no_timer_check (events s) (waiting (unat NewTpl) s)"
    and free: "\<not> Acquired (locks s EventQueueLock)" and le: "NewTpl \<le> gEfiCurrentTpl s" "gEfiCurrentTpl s \<le> 31"
    and k: "length (waiting (unat NewTpl) s) + 32 \<le> k"
  shows "\<exists>s'. CoreRestoreTpl (Suc k) (debug_build env) NewTpl s = ret s' \<and>
    eworld s' = fold (invoke h (events s)) (waiting (unat NewTpl) s) (eworld s) \<and>
    waiting (unat NewTpl) s' = [] \<and> gEfiCurrentTpl s' = NewTpl \<and> event_inv s'"
proof -
  define s1 where "s1 = (if TPL_HIGH_LEVEL \<le> gEfiCurrentTpl s \<and> NewTpl < TPL_HIGH_LEVEL then s\<lparr>gEfiCurrentTpl := TPL_HIGH_LEVEL\<rparr> else s)"
  have s1: "event_inv s1" "events s1 = events s" "eworld s1 = eworld s" "locks s1 = locks s"
    "waiting (unat NewTpl) s1 = waiting (unat NewTpl) s"
    using inv by (simp_all add: s1_def waiting_def)
  have le31: "unat NewTpl \<le> 31" using le by (auto simp: word_le_nat_alt)
  obtain k' where k': "k = Suc (Suc k')" using k by (intro that [of "k - 2"]) simp
  have "length (waiting (unat NewTpl) s1) + card (levels_above (unat NewTpl) s1) < k"
    using card_levels_le [OF s1(1), of "unat NewTpl"] k s1(5) by simp
  then obtain s2 where s2: "pending_loop (CoreRestoreTpl k (debug_build env)) k (debug_build env) NewTpl s1 = ret s2"
    "eworld s2 = fold (invoke h (events s)) (waiting (unat NewTpl) s) (eworld s)"
    using core_idle.pending_loop_total [OF pure_debug [OF pure] le31 s1(1), of k k'] free nt s1 k' by auto
  obtain i where i: "(if gEfiCurrentTpl (s2\<lparr>gEfiCurrentTpl := NewTpl\<rparr>) < TPL_HIGH_LEVEL
      then CoreSetInterruptState (debug_build env) True (s2\<lparr>gEfiCurrentTpl := NewTpl\<rparr>) else s2\<lparr>gEfiCurrentTpl := NewTpl\<rparr>)
    = s2\<lparr>gEfiCurrentTpl := NewTpl\<rparr>\<lparr>interrupts := i\<rparr>" using interrupt_state_if by blast
  let ?s' = "s2\<lparr>gEfiCurrentTpl := NewTpl\<rparr>\<lparr>interrupts := i\<rparr>"
  have e: "CoreRestoreTpl (Suc k) (debug_build env) NewTpl s = ret ?s'"
    unfolding CoreRestoreTpl.simps restore_body_def Let_def s1_def [symmetric] s2(1) bind_run_simps i
    using le order_trans [OF le] by (simp add: not_less)
  have "event_inv ?s' \<and> calm NewTpl ?s'"
    using core.restore_ok [OF inv, of "Suc k" env NewTpl] unfolding e by simp
  then have "event_inv ?s'" "levels_above (unat NewTpl) ?s' = {}"
    using calm_levels [OF refl, of NewTpl ?s'] by blast+
  with e s2(2) waiting_calm [OF this] show ?thesis by (intro exI [of _ ?s']) simp
qed

text \<open>C5: Lowering the TPL runs every notification that waits above the new TPL: from any state of the database
  invariant with the event lock free, with notification functions that call no event service and the timer check not
  among the waiting ones, \<open>CoreRestoreTpl\<close> returns, with or without assertions compiled in, the functions have run in
  order of falling TPL and first-in-first-out within a TPL, each once, nothing waits above the new TPL any more, and
  the invariant holds.  The nesting depth needed is the number of waiting events plus 32.\<close>

theorem restore_runs_waiting_in_order:
  assumes pure: "pure_handlers env h" and inv: "event_inv s" and nt: "no_timer_check (events s) (waiting (unat NewTpl) s)"
    and free: "\<not> Acquired (locks s EventQueueLock)" and le: "NewTpl \<le> gEfiCurrentTpl s" "gEfiCurrentTpl s \<le> 31"
    and k: "length (waiting (unat NewTpl) s) + 32 \<le> k"
  shows "\<exists>s'. CoreRestoreTpl (Suc k) env NewTpl s = ret s' \<and>
    eworld s' = fold (invoke h (events s)) (waiting (unat NewTpl) s) (eworld s) \<and>
    waiting (unat NewTpl) s' = [] \<and> gEfiCurrentTpl s' = NewTpl \<and> event_inv s'"
  by (rule ex_run_le [OF builds.restore_le restore_runs_debug [OF assms]])

text \<open>Two queued events, the one of the lower TPL queued first.\<close>

definition queued_event :: "u64 \<Rightarrow> u64 \<Rightarrow> IEVENT" where
  "queued_event f tpl = \<lparr>EventType = EVT_NOTIFY_SIGNAL, SignalCount = 1, NotifyTpl = tpl, NotifyFunction = UserNotify f,
     NotifyContext = 0, EventGroup = replicate 16 0, ExFlag = False, NotifyLinked = True, SignalLinked = True,
     RuntimeLinked = False, TimerLinked = False, TriggerTime = 0, Period = 0\<rparr>"

definition two_queued :: "u64 list event_state" where
  "two_queued = (boot_state [])\<lparr>gEfiCurrentTpl := 31, gEventPending := tpl_bit 8 OR tpl_bit 16,
     gEventQueue := (\<lambda>_. [])(8 := [16], 16 := [32]), gEventSignalQueue := [32, 16],
     events := (\<lambda>_. None)(16 \<mapsto> queued_event 1 8, 32 \<mapsto> queued_event 2 16)\<rparr>"

definition logging_env :: "u64 list event_env" where
  "logging_env = \<lparr>asserts_on = True, in_smm = \<lambda>_. (EFI_SUCCESS, False), alloc_event = \<lambda>_. NULL,
     user_notify = \<lambda>f e c w. Done (w @ [f]), unregister_notify = \<lambda>_ w. w, timer_period = \<lambda>_. 10\<rparr>"

lemma event_inv_two_queued: "event_inv two_queued"
  unfolding event_inv_def
proof (intro conjI)
  show "notify_inv (gEventQueue two_queued) (gEventPending two_queued) (events two_queued)"
    unfolding notify_inv_def two_queued_def by (auto simp: bit_or_iff bit_tpl_bit queued_event_def boot_state_def)
  show "signal_inv (gEventSignalQueue two_queued) (gRuntimeEvents two_queued) (events two_queued)"
    by (auto simp: signal_inv_def two_queued_def boot_state_def queued_event_def)
  show "timer_inv (mEfiTimerList two_queued) (events two_queued)"
    by (auto simp: timer_inv_def two_queued_def boot_state_def queued_event_def)
  show "types_inv (events two_queued)"
    by (auto simp: types_inv_def event_ok_def notify_type_def two_queued_def boot_state_def queued_event_def)
  show "lock_inv (locks two_queued)"
    by (simp add: lock_inv_def two_queued_def boot_state_def initial_locks_def)
qed

theorem restore_runs_waiting_in_order_witness:
  "\<exists>s'. CoreRestoreTpl 35 logging_env 4 two_queued = ret s' \<and> eworld s' = [2, 1] \<and> waiting 4 s' = []"
proof -
  have p: "pure_handlers logging_env (\<lambda>f e c w. w @ [f])" by (simp add: pure_handlers_def logging_env_def)
  have w: "waiting (unat (4 :: u64)) two_queued = [32, 16]" by (simp add: waiting_def two_queued_def boot_state_def upt_rec)
  have "\<exists>s'. CoreRestoreTpl (Suc 34) logging_env 4 two_queued = ret s' \<and>
      eworld s' = fold (invoke (\<lambda>f e c w. w @ [f]) (events two_queued)) (waiting (unat (4 :: u64)) two_queued) (eworld two_queued) \<and>
      waiting (unat (4 :: u64)) s' = [] \<and> gEfiCurrentTpl s' = 4 \<and> event_inv s'"
    by (rule restore_runs_waiting_in_order [OF p event_inv_two_queued])
      (simp_all only: w, auto simp: no_timer_check_def two_queued_def boot_state_def queued_event_def initial_locks_def)
  moreover have "fold (invoke (\<lambda>f e c w. w @ [f]) (events two_queued)) [32, 16] (eworld two_queued) = [2, 1]"
    by (simp add: invoke_def two_queued_def boot_state_def queued_event_def)
  ultimately show ?thesis unfolding w by auto
qed

text \<open>C9: No use of the event services breaks the event database: in a build with assertions compiled in, from a state
  of the invariant with nothing pending above the TPL, whatever calls a program makes
  (creating, signalling, checking, waiting for, closing events, setting timers, timer ticks, parts run at raised TPL), and
  whatever calls the notification functions it sets off make, if it comes to its end then every list holds exactly
  the live events marked as being in it, once each, the timer list is sorted, the TPL is the one the program started
  at with nothing pending above it, and every lock that was free is free.  Not covered are the programs that do not come to
  their end: that do not return, fail an assertion, or use an event they have closed, which the code does not
  detect (it reads the signature from freed memory) and the model counts as a fault.\<close>

theorem event_programs_keep_invariant:
  assumes "event_inv s" "calm (gEfiCurrentTpl s) s"
  shows "holds UNIV (run_prog p (CoreRestoreTpl k (debug_build env)) j (debug_build env) s)
    (\<lambda>s'. event_inv s' \<and> gEfiCurrentTpl s' = gEfiCurrentTpl s \<and> calm (gEfiCurrentTpl s) s' \<and> held_same s s')"
  by (rule holds_weaken [OF core.run_prog_ok [OF assms]]) (simp add: good_from_def)

theorem event_programs_keep_invariant_witness:
  "\<forall>p. holds UNIV (run_prog p (CoreRestoreTpl 40 (debug_build logging_env)) 40 (debug_build logging_env) (boot_state []))
    (\<lambda>s'. event_inv s' \<and> gEfiCurrentTpl s' = gEfiCurrentTpl (boot_state [] :: u64 list event_state) \<and>
      calm (gEfiCurrentTpl (boot_state [] :: u64 list event_state)) s' \<and> held_same (boot_state [] :: u64 list event_state) s')"
  by (rule allI, rule event_programs_keep_invariant [OF event_inv_boot calm_boot])

text \<open>Closing: cancelling the timer, then leaving the other lists.\<close>

context idle_service
begin

lemma cancel_timer_total:
  assumes inv: "event_inv s" and calm: "calm (gEfiCurrentTpl s) s" and free: "\<not> Acquired (locks s TimerLock)"
    and tpl: "gEfiCurrentTpl s \<le> 30" and e: "events s e = Some ev" "EventType ev AND EVT_TIMER \<noteq> 0"
  obtains s' v where "CoreSetTimer rt env e TimerCancel 0 s = ret (EFI_SUCCESS, s')" "good_from s s'"
    "events s' = (events s)(e \<mapsto> v)" "\<not> TimerLinked v" "mEfiTimerList s' = remove1 e (mEfiTimerList s)"
    "gEventQueue s' = gEventQueue s" "gEventSignalQueue s' = gEventSignalQueue s" "gRuntimeEvents s' = gRuntimeEvents s"
proof -
  have "LockTpl (locks s TimerLock) = 30" using inv by (simp add: event_inv_def lock_inv_def)
  then obtain s1 where s1: "CoreAcquireLock env TimerLock s = ret s1" "locked TimerLock s s1"
    using acquire_total [OF free] tpl by auto
  note l = locked_simps [OF s1(2)]
  define s3 where "s3 = upd_event e (\<lambda>v. v\<lparr>TriggerTime := 0, Period := 0\<rparr>) (if TimerLinked ev then unlink_timer e s1 else s1)"
  note d = disarmed [OF s1(2) inv e, folded s3_def]
  have c: "calm (gEfiCurrentTpl s) s3" using calm d(3) by (simp add: calm_def)
  obtain s4 where s4: "CoreReleaseLock rt env TimerLock s3 = ret s4" "released TimerLock s s3 s4" "good_from s s4"
    using release_total [OF d(1) c inv] by blast
  note r = released_simps [OF s4(2)]
  show thesis
  proof (rule that [of s4 "ev\<lparr>TimerLinked := False, TriggerTime := 0, Period := 0\<rparr>"])
    show "CoreSetTimer rt env e TimerCancel 0 s = ret (EFI_SUCCESS, s4)"
      using live_event [OF inv e(1)] e l(9) s1(1) s4(1) by (simp add: CoreSetTimer_def with_event_def Let_def s3_def [symmetric])
    have "ev\<lparr>TimerLinked := False\<rparr> = ev" if "\<not> TimerLinked ev" using that by simp
    then show "events s4 = (events s)(e \<mapsto> ev\<lparr>TimerLinked := False, TriggerTime := 0, Period := 0\<rparr>)"
      using e(1) by (auto simp: r(9) s3_def l(9) chg_def fun_eq_iff)
    show "mEfiTimerList s4 = remove1 e (mEfiTimerList s)"
    proof (cases "TimerLinked ev")
      case False
      then have "e \<notin> set (mEfiTimerList s)" using inv e(1) by (auto simp: event_inv_def timer_inv_def)
      then show ?thesis using False by (simp add: r(5) s3_def l(5) remove1_idem)
    qed (simp add: r(5) s3_def l(5))
  qed (use s4(3) in \<open>simp_all add: r(2-4) s3_def l(2-4) unlink_timer_def\<close>)
qed

lemma unregister_event_total:
  assumes inv: "event_inv s" and calm: "calm (gEfiCurrentTpl s) s" and free: "\<not> Acquired (locks s EventQueueLock)"
    and tpl: "gEfiCurrentTpl s \<le> 31" and e: "events s e = Some ev" "\<not> TimerLinked ev"
  obtains s' where "unregister_event rt env e s = ret (EFI_SUCCESS, s')" "good_from s s'"
    "events s' = (events s)(e := None)" "closed_events s' = insert e (closed_events s)" "mEfiTimerList s' = mEfiTimerList s"
    "gEventQueue s' = (\<lambda>p. remove1 e (gEventQueue s p))" "gEventSignalQueue s' = remove1 e (gEventSignalQueue s)"
    "gRuntimeEvents s' = remove1 e (gRuntimeEvents s)"
proof -
  have t31: "LockTpl (locks s EventQueueLock) = 31" using inv by (simp add: event_inv_def lock_inv_def)
  then obtain s2 where s2: "CoreAcquireLock env EventQueueLock s = ret s2" "locked EventQueueLock s s2"
    using acquire_total [OF free] tpl by auto
  note l = locked_simps [OF s2(2)]
  define u where "u = unlinked e ev s2"
  note us = unlinked_simps [of e ev s2, folded u_def]
  have hb: "held_but EventQueueLock s u" using locked_held_but [OF s2(2)] by (simp add: held_but_def us)
  have p: "\<And>p. bit (gEventPending u) p \<Longrightarrow> p < 31" using inv l by (auto simp: event_inv_def notify_inv_def us)
  have c: "calm (gEfiCurrentTpl s) u" using calm l by (simp add: calm_def us)
  have "gEfiCurrentTpl u = gEfiCurrentTpl s2" by (simp add: u_def unlinked_def unlink_notify_def Let_def)
  then have "gEfiCurrentTpl s \<le> gEfiCurrentTpl u" using l(11) t31 tpl by simp
  then obtain s6 where s6: "CoreReleaseLock rt env EventQueueLock u = ret s6" "released EventQueueLock s u s6"
    using release_calm_total [OF hb p c _ tpl] by blast
  note r = released_simps [OF s6(2)]
  define s7 where "s7 = s6\<lparr>eworld := unregister_notify env e (eworld s6), events := (events s6)(e := None),
    closed_events := insert e (closed_events s6)\<rparr>"
  have ret: "unregister_event rt env e s = ret (EFI_SUCCESS, s7)"
  proof -
    have "bind_run (CoreReleaseLock rt env EventQueueLock u) (\<lambda>s6. ret (EFI_SUCCESS,
        s6\<lparr>eworld := unregister_notify env e (eworld s6), events := (events s6)(e := None),
          closed_events := insert e (closed_events s6)\<rparr>)) = ret (EFI_SUCCESS, s7)" by (simp add: s6(1) s7_def)
    then show ?thesis
      unfolding unregister_event_def s2(1) bind_run_simps with_event_def l(9) e(1) option.case u_def unlinked_def Let_def .
  qed
  have "\<forall>v. events s e = Some v \<longrightarrow> \<not> TimerLinked v" using e by simp
  with holds_ret [OF unregister_event_ok [OF inv calm] ret] have g: "good_from s s7" by simp
  have no: "\<not> NotifyLinked ev \<Longrightarrow> remove1 e (gEventQueue s p) = gEventQueue s p"
    "\<not> SignalLinked ev \<Longrightarrow> remove1 e (gEventSignalQueue s) = gEventSignalQueue s"
    "\<not> RuntimeLinked ev \<Longrightarrow> remove1 e (gRuntimeEvents s) = gRuntimeEvents s" for p
    using inv e(1) by (auto simp: event_inv_def notify_inv_def signal_inv_def intro!: remove1_idem)
  have "closed_events u = closed_events s" by (simp add: u_def unlinked_def unlink_notify_def Let_def l(18))
  then show thesis
    using no r l us by (intro that [OF ret g]) (auto simp: s7_def fun_eq_iff)
qed

end

lemma close_event_debug:
  assumes inv: "event_inv s" and calm: "calm (gEfiCurrentTpl s) s" and free: "\<forall>L. \<not> Acquired (locks s L)"
    and tpl: "gEfiCurrentTpl s \<le> 30" and live: "events s e \<noteq> None"
  shows "\<exists>s'. CoreCloseEvent (CoreRestoreTpl (Suc (Suc k)) (debug_build env)) (debug_build env) e s = ret (EFI_SUCCESS, s') \<and>
    event_inv s' \<and> events s' = (events s)(e := None) \<and> e \<in> closed_events s' \<and>
    (\<forall>p. gEventQueue s' p = filter (\<lambda>x. x \<noteq> e) (gEventQueue s p)) \<and>
    gEventSignalQueue s' = filter (\<lambda>x. x \<noteq> e) (gEventSignalQueue s) \<and>
    gRuntimeEvents s' = filter (\<lambda>x. x \<noteq> e) (gRuntimeEvents s) \<and> mEfiTimerList s' = filter (\<lambda>x. x \<noteq> e) (mEfiTimerList s)"
proof -
  let ?env = "debug_build env" and ?rt = "CoreRestoreTpl (Suc (Suc k)) (debug_build env)"
  obtain ev where ev: "events s e = Some ev" using live by blast
  note ok = live_event [OF inv ev]
  obtain s1 v where s1: "(if EventType ev AND EVT_TIMER \<noteq> 0 then bind_run (CoreSetTimer ?rt ?env e TimerCancel 0 s) (\<lambda>(_, s1). ret s1)
      else ret s) = ret s1" "good_from s s1" "events s1 = (events s)(e \<mapsto> v)" "\<not> TimerLinked v"
    "mEfiTimerList s1 = remove1 e (mEfiTimerList s)" "gEventQueue s1 = gEventQueue s"
    "gEventSignalQueue s1 = gEventSignalQueue s" "gRuntimeEvents s1 = gRuntimeEvents s"
  proof (cases "EventType ev AND EVT_TIMER \<noteq> 0")
    case True
    have "\<not> Acquired (locks s TimerLock)" using free by blast
    from core_idle.cancel_timer_total [OF inv calm this tpl ev True, of k env] obtain s1 v where
      "CoreSetTimer ?rt ?env e TimerCancel 0 s = ret (EFI_SUCCESS, s1)" "good_from s s1"
      "events s1 = (events s)(e \<mapsto> v)" "\<not> TimerLinked v" "mEfiTimerList s1 = remove1 e (mEfiTimerList s)"
      "gEventQueue s1 = gEventQueue s" "gEventSignalQueue s1 = gEventSignalQueue s" "gRuntimeEvents s1 = gRuntimeEvents s" .
    then show thesis using True by (intro that [of s1 v]) (simp_all del: CoreRestoreTpl.simps)
  next
    case False
    then have "\<not> TimerLinked ev" using ok by (auto simp: event_ok_def)
    moreover from this have "e \<notin> set (mEfiTimerList s)" using inv ev by (auto simp: event_inv_def timer_inv_def)
    ultimately show thesis
      using False ev good_from_refl [OF inv calm] by (intro that [of s ev]) (auto simp: remove1_idem fun_upd_idem)
  qed
  have i1: "event_inv s1" "calm (gEfiCurrentTpl s1) s1" "\<not> Acquired (locks s1 EventQueueLock)" "gEfiCurrentTpl s1 \<le> 31"
    using s1(2) free order_trans [OF tpl, of 31] by (auto simp: good_from_def held_same_def)
  obtain s' where s': "unregister_event ?rt ?env e s1 = ret (EFI_SUCCESS, s')" "good_from s1 s'"
    "events s' = (events s1)(e := None)" "closed_events s' = insert e (closed_events s1)" "mEfiTimerList s' = mEfiTimerList s1"
    "gEventQueue s' = (\<lambda>p. remove1 e (gEventQueue s1 p))" "gEventSignalQueue s' = remove1 e (gEventSignalQueue s1)"
    "gRuntimeEvents s' = remove1 e (gRuntimeEvents s1)"
    using core_idle.unregister_event_total [OF i1 _ s1(4), of e k env] s1(3) by auto
  have "CoreCloseEvent ?rt ?env e s = ret (EFI_SUCCESS, s')"
    unfolding CoreCloseEvent_def check_signature_simps(2) [OF ev conjunct1 [OF ok]] s1(1) bind_run_simps s'(1) ..
  moreover have "distinct (gEventQueue s p)" "distinct (gEventSignalQueue s)" "distinct (gRuntimeEvents s)" "distinct (mEfiTimerList s)" for p
    using inv by (simp_all add: event_inv_def notify_inv_def signal_inv_def timer_inv_def)
  moreover have "event_inv s'" using s'(2) by (simp add: good_from_def)
  ultimately show ?thesis
    using s'(3-8) s1(3,5-8) by (intro exI [of _ s']) (simp add: distinct_remove1_removeAll removeAll_filter_not_eq eq_commute [of _ e])
qed

text \<open>C29: Closing an event takes it out of every list and leaves everything else as it is: with the database invariant,
  every lock free, a TPL up to 30 and nothing pending above it (as it is whenever a program runs, C9),
  \<open>CoreCloseEvent\<close> of a live event returns \<open>EFI_SUCCESS\<close>, with or without assertions compiled in, the event is not live any more
  but closed, each notification queue, the signal list, the runtime list and the timer list are what they were without
  the event, in the same order, all other events are unchanged and the invariant holds.  Notification functions do not
  run in such a call; timer interrupts between the release of the lock and \<open>CoreFreePool\<close> are not modelled.\<close>

theorem close_event_removes_everywhere:
  assumes inv: "event_inv s" and calm: "calm (gEfiCurrentTpl s) s" and free: "\<forall>L. \<not> Acquired (locks s L)"
    and tpl: "gEfiCurrentTpl s \<le> 30" and live: "events s e \<noteq> None"
  shows "\<exists>s'. CoreCloseEvent (CoreRestoreTpl (Suc (Suc k)) env) env e s = ret (EFI_SUCCESS, s') \<and>
    event_inv s' \<and> events s' = (events s)(e := None) \<and> e \<in> closed_events s' \<and>
    (\<forall>p. gEventQueue s' p = filter (\<lambda>x. x \<noteq> e) (gEventQueue s p)) \<and>
    gEventSignalQueue s' = filter (\<lambda>x. x \<noteq> e) (gEventSignalQueue s) \<and>
    gRuntimeEvents s' = filter (\<lambda>x. x \<noteq> e) (gRuntimeEvents s) \<and> mEfiTimerList s' = filter (\<lambda>x. x \<noteq> e) (mEfiTimerList s)"
  by (rule ex_run_le [OF builds.close_le close_event_debug [OF assms]])

lemma calm_two_queued: "calm 16 two_queued"
  by (auto simp: calm_def two_queued_def bit_or_iff bit_tpl_bit)

theorem close_event_removes_everywhere_witness:
  "\<exists>s'. CoreCloseEvent (CoreRestoreTpl 2 logging_env) logging_env 16
      (two_queued\<lparr>gEfiCurrentTpl := 16\<rparr>) = ret (EFI_SUCCESS, s') \<and>
    events s' 16 = None \<and> gEventQueue s' 8 = [] \<and> gEventQueue s' 16 = [32] \<and> gEventSignalQueue s' = [32]"
proof -
  let ?s = "two_queued\<lparr>gEfiCurrentTpl := 16\<rparr>"
  have c: "calm (gEfiCurrentTpl ?s) ?s" using calm_two_queued by simp
  have f: "event_inv ?s" "\<forall>L. \<not> Acquired (locks ?s L)" "gEfiCurrentTpl ?s \<le> 30" "events ?s 16 \<noteq> None"
    using event_inv_two_queued by simp_all (simp_all add: two_queued_def boot_state_def initial_locks_def)
  have two: "Suc (Suc 0) = 2" by simp
  from close_event_removes_everywhere [OF f(1) c f(2-4), of 0 logging_env] obtain s' where
    s': "CoreCloseEvent (CoreRestoreTpl 2 logging_env) logging_env 16 ?s = ret (EFI_SUCCESS, s')"
    "events s' = (events ?s)(16 := None)" "\<forall>p. gEventQueue s' p = filter (\<lambda>x. x \<noteq> 16) (gEventQueue ?s p)"
    "gEventSignalQueue s' = filter (\<lambda>x. x \<noteq> 16) (gEventSignalQueue ?s)" unfolding two by blast
  from s'(2-4) show ?thesis by (intro exI [of _ s'] conjI s'(1)) (simp_all add: two_queued_def boot_state_def)
qed

text \<open>The timer check up to its loop.\<close>

lemma timer_check_entered:
  fixes s :: "'w event_state"
  assumes inv: "event_inv s" and tpl: "gEfiCurrentTpl s = 30" and free: "\<forall>L. \<not> Acquired (locks s L)"
  shows "\<exists>s2. (\<forall>j. CoreCheckTimers (CoreRestoreTpl (Suc (Suc k)) (debug_build env)) j (debug_build env) s =
      bind_run (check_timers_loop (CoreRestoreTpl (Suc (Suc k)) (debug_build env)) j (debug_build env) (mEfiSystemTime s) s2)
        (CoreReleaseLock (CoreRestoreTpl (Suc (Suc k)) (debug_build env)) (debug_build env) TimerLock)) \<and>
    inside TimerLock s s2 \<and> events s2 = events s \<and> mEfiTimerList s2 = mEfiTimerList s \<and> check_event_kept s2 = check_event_kept s"
proof -
  let ?env = "debug_build env" and ?rt = "CoreRestoreTpl (Suc (Suc k)) (debug_build env)" and ?T = "mEfiSystemTime s"
  obtain s1 where s1: "CoreAcquireLock ?env TimerLock s = ret s1" "locked TimerLock s s1"
    using core_idle.acquire_total [of s TimerLock env] inv tpl free by (auto simp: event_inv_def lock_inv_def)
  note l = locked_simps [OF s1(2)]
  have i1: "inside TimerLock s s1" by (rule locked_inside [OF s1(2) inv])
  note h1 = inside_high [OF i1 inv]
  have "gEfiCurrentTpl s1 = 30" using l(11) inv by (simp add: event_inv_def lock_inv_def)
  moreover have "\<not> Acquired (locks s1 SystemTimeLock)" using free l(15) by simp
  ultimately obtain s2 where s2: "CoreCurrentSystemTime ?rt ?env s1 = ret (?T, s2)"
    using core_idle.CoreCurrentSystemTime_total [OF inside_inv [OF i1], of k env] l(6) by auto
  have g2: "good_from s1 s2" "quiet s1 s2" "events s2 = events s1"
    using core.CoreCurrentSystemTime_ok [OF inside_inv [OF i1] h1(2), of "Suc (Suc k)" env] s2 by simp_all
  have i2: "inside TimerLock s s2" by (rule inside_good [OF i1 g2(1)])
  moreover have "events s2 = events s" "mEfiTimerList s2 = mEfiTimerList s" "check_event_kept s2 = check_event_kept s"
    using g2 l by (simp_all add: quiet_def check_event_kept_def not_closed_def)
  ultimately show ?thesis using s1(1) s2 by (intro exI [of _ s2]) (simp add: CoreCheckTimers_def)
qed

lemma check_timers_debug:
  assumes inv: "event_inv s" and tpl: "gEfiCurrentTpl s = 30" and free: "\<forall>L. \<not> Acquired (locks s L)"
    and ck: "check_event_kept s" and nw: "no_wrap (mEfiSystemTime s) s" and j: "2 * length (mEfiTimerList s) < j"
  shows "\<exists>s'. CoreCheckTimers (CoreRestoreTpl (Suc (Suc k)) (debug_build env)) j (debug_build env) s = ret s' \<and> event_inv s' \<and>
    set (mEfiTimerList s') = {x \<in> set (mEfiTimerList s). mEfiSystemTime s < trigger (events s) x \<or> period (events s) x \<noteq> 0} \<and>
    (\<forall>x \<in> set (mEfiTimerList s'). mEfiSystemTime s < trigger (events s') x \<and>
      trigger (events s') x = settled (mEfiSystemTime s) (trigger (events s) x) (period (events s) x))"
proof -
  let ?env = "debug_build env" and ?rt = "CoreRestoreTpl (Suc (Suc k)) (debug_build env)" and ?T = "mEfiSystemTime s"
  obtain s2 where enter: "\<And>j. CoreCheckTimers ?rt j ?env s =
      bind_run (check_timers_loop ?rt j ?env ?T s2) (CoreReleaseLock ?rt ?env TimerLock)"
    and i2: "inside TimerLock s s2" and e2: "events s2 = events s" "mEfiTimerList s2 = mEfiTimerList s" "check_event_kept s2"
    using timer_check_entered [OF inv tpl free] ck by blast
  have nw2: "no_wrap ?T s2" using nw by (simp add: no_wrap_def e2)
  have "all_passes ?T s2 < j" using all_passes_le [of ?T s2] j e2 by simp
  from core_idle.check_timers_loop_total [OF inv _ i2 e2(3) nw2 this] free obtain s3 where
    s3: "check_timers_loop ?rt j ?env ?T s2 = ret s3"
    "set (mEfiTimerList s3) = {x \<in> set (mEfiTimerList s). ?T < trigger (events s) x \<or> period (events s) x \<noteq> 0}"
    "\<forall>x \<in> set (mEfiTimerList s3). trigger (events s3) x = settled ?T (trigger (events s) x) (period (events s) x)"
    unfolding e2(1,2) by blast
  have i3: "inside TimerLock s s3" by (rule holds_ret [OF core.check_timers_loop_ok [OF i2 inv] s3(1)])
  have "calm (gEfiCurrentTpl s) s3"
    using calm_high [of "s3\<lparr>gEfiCurrentTpl := gEfiCurrentTpl s\<rparr>"] inside_inv [OF i3] tpl by simp
  from core_idle.release_total [OF i3 this inv, of k env] obtain s4 where
    s4: "CoreReleaseLock ?rt ?env TimerLock s3 = ret s4" "released TimerLock s s3 s4" "good_from s s4" by blast
  note r = released_simps [OF s4(2)]
  have "CoreCheckTimers ?rt j ?env s = ret s4" using enter [of j] s3(1) s4(1) by simp
  moreover have "event_inv s4" using s4(3) by (simp add: good_from_def)
  moreover have "?T < settled ?T (trigger (events s) x) (period (events s) x)" if "x \<in> set (mEfiTimerList s3)" for x
    using that nw s3(2) by (intro settled_late) (auto simp: no_wrap_def)
  ultimately show ?thesis using s3(2,3) r by (intro exI [of _ s4]) simp
qed

text \<open>C27: The timer check settles: run at the TPL its event has, with every lock free, all periods small enough not to
  wrap the clock and the event that triggers the check not closed, \<open>CoreCheckTimers\<close> returns, with or without assertions compiled
  in, and when it returns the expired one-shot timers are gone, the expired periodic ones
  have moved to their next time, every timer in the list is later than the clock and the list is still sorted.
  A loop bound of twice the number of timers plus one is enough, since no timer is visited more than twice.\<close>

theorem check_timers_settles:
  assumes inv: "event_inv s" and tpl: "gEfiCurrentTpl s = 30" and free: "\<forall>L. \<not> Acquired (locks s L)"
    and ck: "check_event_kept s" and nw: "no_wrap (mEfiSystemTime s) s" and j: "2 * length (mEfiTimerList s) < j"
  shows "\<exists>s'. CoreCheckTimers (CoreRestoreTpl (Suc (Suc k)) env) j env s = ret s' \<and> event_inv s' \<and>
    set (mEfiTimerList s') = {x \<in> set (mEfiTimerList s). mEfiSystemTime s < trigger (events s) x \<or> period (events s) x \<noteq> 0} \<and>
    (\<forall>x \<in> set (mEfiTimerList s'). mEfiSystemTime s < trigger (events s') x \<and>
      trigger (events s') x = settled (mEfiSystemTime s) (trigger (events s) x) (period (events s) x))"
  by (rule ex_run_le [OF builds.check_timers_le check_timers_debug [OF assms]])

text \<open>A one-shot timer at 50, a periodic one at 60 that is 70 apart, at time 100.\<close>

definition timer_event :: "u64 \<Rightarrow> u64 \<Rightarrow> IEVENT" where
  "timer_event t p = \<lparr>EventType = EVT_TIMER, SignalCount = 0, NotifyTpl = 0, NotifyFunction = NoNotify,
     NotifyContext = 0, EventGroup = replicate 16 0, ExFlag = False, NotifyLinked = False, SignalLinked = False,
     RuntimeLinked = False, TimerLinked = True, TriggerTime = t, Period = p\<rparr>"

definition timer_state :: "(ptr \<times> IEVENT) list \<Rightarrow> u64 list event_state" where
  "timer_state l = (boot_state [])\<lparr>gEfiCurrentTpl := 30, mEfiSystemTime := 100, mEfiTimerList := map fst l, events := map_of l\<rparr>"

lemma event_inv_timer_state:
  assumes l: "distinct (map fst l)" "\<forall>(e, ev) \<in> set l. e \<noteq> 0 \<and> (\<exists>t p. ev = timer_event t p)"
    "sorted (map (TriggerTime \<circ> snd) l)"
  shows "event_inv (timer_state l)"
proof -
  let ?s = "timer_state l"
  have ev: "\<exists>t p. ev = timer_event t p" "e \<noteq> 0" if "map_of l e = Some ev" for e ev
    using l(2) map_of_SomeD [OF that] by auto
  have m: "e \<in> set (map fst l) \<longleftrightarrow> (\<exists>ev. map_of l e = Some ev)" for e
    by (metis domIff dom_map_of_conv_image_fst not_None_eq set_map)
  have tr: "map (trigger (map_of l)) (map fst l) = map (TriggerTime \<circ> snd) l"
    using l(1) by (auto simp: trigger_def)
  have srt: "sorted (map (trigger (map_of l)) (map fst l))" unfolding tr by (rule l(3))
  have "notify_inv (gEventQueue ?s) (gEventPending ?s) (events ?s)"
    using ev(1) by (fastforce simp: notify_inv_def timer_state_def boot_state_def timer_event_def)
  moreover have "signal_inv (gEventSignalQueue ?s) (gRuntimeEvents ?s) (events ?s)"
    using ev(1) by (fastforce simp: signal_inv_def timer_state_def boot_state_def timer_event_def)
  moreover have "timer_inv (mEfiTimerList ?s) (events ?s)"
  proof -
    have "(\<exists>ev. map_of l e = Some ev \<and> TimerLinked ev) \<longleftrightarrow> (\<exists>ev. map_of l e = Some ev)" for e
      using ev(1) by (fastforce simp: timer_event_def)
    then show ?thesis using l(1) m srt unfolding timer_inv_def by (simp only: timer_state_def boot_state_def event_state.simps) simp
  qed
  moreover have "types_inv (events ?s)"
    using ev by (fastforce simp: types_inv_def event_ok_def notify_type_def timer_state_def boot_state_def timer_event_def)
  moreover have "lock_inv (locks ?s)"
    by (simp add: lock_inv_def timer_state_def boot_state_def initial_locks_def)
  ultimately show ?thesis by (simp add: event_inv_def)
qed

lemma timer_state_free: "gEfiCurrentTpl (timer_state l) = 30 \<and> (\<forall>L. \<not> Acquired (locks (timer_state l) L))"
  by (simp add: timer_state_def boot_state_def initial_locks_def)

lemma timer_state_kept: "check_event_kept (timer_state l)"
  by (simp add: check_event_kept_def not_closed_def timer_state_def boot_state_def)

theorem check_timers_settles_witness:
  "\<exists>s'. CoreCheckTimers (CoreRestoreTpl 2 logging_env) 5 logging_env
      (timer_state [(16, timer_event 50 0), (32, timer_event 60 70)]) = ret s' \<and>
    set (mEfiTimerList s') = {32} \<and> trigger (events s') 32 = 130"
proof -
  let ?s = "timer_state [(16, timer_event 50 0), (32, timer_event 60 70)]"
  have inv: "event_inv ?s" by (rule event_inv_timer_state) (auto simp: timer_event_def)
  have nw: "no_wrap (mEfiSystemTime ?s) ?s"
    by (simp add: no_wrap_def period_def timer_state_def boot_state_def timer_event_def)
  have f: "gEfiCurrentTpl ?s = 30" "\<forall>L. \<not> Acquired (locks ?s L)" using timer_state_free by blast+
  have "2 * length (mEfiTimerList ?s) < 5" by (simp add: timer_state_def)
  from check_timers_settles [OF inv f timer_state_kept nw this, of 0 logging_env] obtain s' where
    s': "CoreCheckTimers (CoreRestoreTpl (Suc (Suc 0)) logging_env) 5 logging_env ?s = ret s'"
    "set (mEfiTimerList s') = {x \<in> set (mEfiTimerList ?s). mEfiSystemTime ?s < trigger (events ?s) x \<or> period (events ?s) x \<noteq> 0}"
    "\<forall>x \<in> set (mEfiTimerList s'). trigger (events s') x = settled (mEfiSystemTime ?s) (trigger (events ?s) x) (period (events ?s) x)"
    by blast
  have "{x \<in> set (mEfiTimerList ?s). mEfiSystemTime ?s < trigger (events ?s) x \<or> period (events ?s) x \<noteq> 0} = {32}"
    by (auto simp: timer_state_def boot_state_def trigger_def period_def timer_event_def)
  moreover have "settled (mEfiSystemTime ?s) (trigger (events ?s) 32) (period (events ?s) 32) = 130"
    by (simp add: settled_def timer_state_def boot_state_def trigger_def period_def timer_event_def)
  ultimately show ?thesis using s' by (simp add: numeral_2_eq_2)
qed

text \<open>A period that wraps the clock hangs the system: if the timer list holds a periodic timer that has expired
  and whose trigger time and the present time plus its period both wrap to a time that is not later than now (a period of
  \<open>MAX_UINT64\<close>, for one, as \<open>SetTimer\<close> accepts it), then \<open>CoreCheckTimers\<close>, which runs at TPL 30, never
  returns, whatever the loop bound.\<close>

theorem wrapping_period_never_returns:
  assumes inv: "event_inv s" and tpl: "gEfiCurrentTpl s = 30" and free: "\<forall>L. \<not> Acquired (locks s L)"
    and ck: "check_event_kept s" and stuck: "stuck (mEfiSystemTime s) e s"
  shows "CoreCheckTimers (CoreRestoreTpl (Suc (Suc k)) (debug_build env)) j (debug_build env) s = None"
proof -
  let ?env = "debug_build env" and ?rt = "CoreRestoreTpl (Suc (Suc k)) (debug_build env)" and ?T = "mEfiSystemTime s"
  obtain s2 where enter: "\<And>j. CoreCheckTimers ?rt j ?env s =
      bind_run (check_timers_loop ?rt j ?env ?T s2) (CoreReleaseLock ?rt ?env TimerLock)"
    and i2: "inside TimerLock s s2" and e2: "events s2 = events s" "mEfiTimerList s2 = mEfiTimerList s" "check_event_kept s2"
    using timer_check_entered [OF inv tpl free] ck by blast
  have st2: "stuck ?T e s2" using stuck by (simp add: stuck_def e2)
  have "\<not> Acquired (locks s EventQueueLock)" using free by blast
  from core_idle.check_timers_loop_stuck [OF inv this i2 e2(3) st2] show ?thesis unfolding enter by (simp only: bind_run_simps)
qed

theorem wrapping_period_never_returns_witness:
  "CoreCheckTimers (CoreRestoreTpl 2 (debug_build logging_env)) 1000 (debug_build logging_env)
     (timer_state [(16, timer_event 99 (- 1))]) = None"
proof -
  let ?s = "timer_state [(16, timer_event 99 (- 1))]"
  have inv: "event_inv ?s" by (rule event_inv_timer_state) (auto simp: timer_event_def)
  have f: "gEfiCurrentTpl ?s = 30" "\<forall>L. \<not> Acquired (locks ?s L)" using timer_state_free by blast+
  have "stuck (mEfiSystemTime ?s) 16 ?s"
    by (simp add: stuck_def timer_state_def boot_state_def trigger_def period_def timer_event_def)
  from wrapping_period_never_returns [OF inv f timer_state_kept this, of 0 logging_env 1000] show ?thesis by (simp add: numeral_2_eq_2)
qed

lemma signal_queues_debug:
  assumes hi: "free_high s" and ev: "events s e = Some ev" "EventType ev AND EVT_NOTIFY_SIGNAL \<noteq> 0" "\<not> ExFlag ev"
    and q: "NotifyLinked ev \<longrightarrow> SignalCount ev \<noteq> 0"
  shows "\<exists>s'. CoreSignalEvent (CoreRestoreTpl (Suc (Suc k)) (debug_build env)) (debug_build env) e s = ret (EFI_SUCCESS, s') \<and>
    event_inv s' \<and> quiet s s' \<and>
    gEventQueue s' = (if SignalCount ev = 0 then (gEventQueue s)(unat (NotifyTpl ev) := gEventQueue s (unat (NotifyTpl ev)) @ [e])
      else gEventQueue s) \<and>
    (\<forall>j. bit (gEventPending s') j \<longleftrightarrow> bit (gEventPending s) j \<or> SignalCount ev = 0 \<and> j = unat (NotifyTpl ev))"
proof -
  let ?env = "debug_build env" and ?rt = "CoreRestoreTpl (Suc (Suc k)) (debug_build env)" and ?p = "unat (NotifyTpl ev)"
  have inv: "event_inv s" using hi by (simp add: free_high_def)
  have nz: "e \<noteq> NULL" using live_event [OF inv ev(1)] by simp
  obtain s1 where s1: "CoreAcquireLock ?env EventQueueLock s = ret s1" "locked EventQueueLock s s1"
    using core_idle.acquire_free [OF hi] by blast
  note l = locked_simps [OF s1(2)]
  have i1: "event_inv s1" by (rule locked_event_inv [OF s1(2) inv])
  have ev1: "events s1 e = Some ev" using ev(1) l by simp
  have "\<exists>x. (if SignalCount ev = 0 then signal_first ?rt ?env e ev s1 else ret s1) = ret x \<and> event_inv x \<and> quiet s1 x \<and> locks x = locks s1 \<and>
    gEventQueue x = (if SignalCount ev = 0 then (gEventQueue s)(?p := gEventQueue s ?p @ [e]) else gEventQueue s) \<and>
    (\<forall>j. bit (gEventPending x) j \<longleftrightarrow> bit (gEventPending s) j \<or> SignalCount ev = 0 \<and> j = ?p)"
  proof (cases "SignalCount ev = 0")
    case False
    then show ?thesis using i1 l by (intro exI [of _ s1]) simp
  next
    case True
    define s2 where "s2 = upd_event e (\<lambda>v. v\<lparr>SignalCount := SignalCount v + 1\<rparr>) s1"
    have i2: "event_inv s2" "quiet s1 s2" "locks s2 = locks s1" "gEventQueue s2 = gEventQueue s" "gEventPending s2 = gEventPending s"
      using core.event_inv_SignalCount [OF i1] core.quiet_SignalCount l by (simp_all add: s2_def)
    have e2: "events s2 e = Some (ev\<lparr>SignalCount := SignalCount ev + 1\<rparr>)" using ev1 by (simp add: s2_def chg_eq)
    have nt: "notify_type (ev\<lparr>SignalCount := SignalCount ev + 1\<rparr>)" using signal_notify_type [OF ev(2)] by (simp add: notify_type_def)
    have off: "\<not> NotifyLinked ev" using True q by blast
    have rm: "remove1 e (gEventQueue s r) = gEventQueue s r" for r
      using notify_inv_unqueued [of "gEventQueue s" "gEventPending s" "events s", OF _ ev(1) off] inv
      by (auto simp: event_inv_def dest: fun_cong [of _ _ r])
    obtain x where x: "CoreNotifyEvent ?env e s2 = ret x"
    proof -
      have "events s2 e \<noteq> None" "Acquired (locks s2 EventQueueLock)" using e2 i2(3) l(13) by simp_all
      from core_idle.CoreNotifyEvent_total [OF this] that show ?thesis by blast
    qed
    from holds_ret [OF CoreNotifyEvent_eq [OF i2(1) e2 nt UNIV_I] x]
    have "event_inv x" "quiet s2 x" "locks x = locks s2" "\<forall>j. bit (gEventPending x) j \<longleftrightarrow> bit (gEventPending s) j \<or> j = ?p"
      "gEventQueue x = (gEventQueue s)(?p := gEventQueue s ?p @ [e])" by (simp_all add: i2 rm)
    moreover have "signal_first ?rt ?env e ev s1 = ret x" using ev x by (simp add: signal_first_def s2_def)
    ultimately show ?thesis using True i2 by (intro exI [of _ x]) (simp add: quiet_trans [OF i2(2)])
  qed
  then obtain x where x: "(if SignalCount ev = 0 then signal_first ?rt ?env e ev s1 else ret s1) = ret x" "event_inv x" "quiet s1 x"
    "locks x = locks s1" "gEventQueue x = (if SignalCount ev = 0 then (gEventQueue s)(?p := gEventQueue s ?p @ [e]) else gEventQueue s)"
    "\<forall>j. bit (gEventPending x) j \<longleftrightarrow> bit (gEventPending s) j \<or> SignalCount ev = 0 \<and> j = ?p" by blast
  have ins: "inside EventQueueLock s x"
    using inside_same [OF locked_inside [OF s1(2) inv] x(2)] x by (simp add: quiet_def)
  have "calm (gEfiCurrentTpl s) x"
    using calm_high [of "x\<lparr>gEfiCurrentTpl := gEfiCurrentTpl s\<rparr>"] hi x(2) by (simp add: free_high_def)
  from core_idle.release_total [OF ins this inv] obtain s' where
    s': "CoreReleaseLock ?rt ?env EventQueueLock x = ret s'" "released EventQueueLock s x s'" "good_from s s'" by blast
  have "CoreSignalEvent ?rt ?env e s = ret (EFI_SUCCESS, s')"
    unfolding CoreSignalEvent_def check_signature_simps(2) [OF ev(1) nz] s1(1) bind_run_simps with_event_def ev1 option.case x(1) s'(1)
    by simp
  moreover have "quiet s s'" by (rule locked_released_quiet [OF s1(2) x(3) s'(2)])
  moreover have "event_inv s'" using s'(3) by (simp add: good_from_def)
  ultimately show ?thesis using released_simps(1,2) [OF s'(2)] x(5,6) by (intro exI [of _ s']) simp
qed

text \<open>Signalling queues the notification once: \<open>CoreSignalEvent\<close> on a live signal event that is in no group, at a
  TPL where nothing is dispatched and with the event lock free, returns \<open>EFI_SUCCESS\<close>.  If the event was not signalled it is put
  at the end of the queue of its TPL, that TPL is marked pending and the event counts as signalled; if it was signalled
  already nothing is queued.  No other queue and nothing else of any event changes.\<close>

theorem signal_queues_once:
  assumes hi: "free_high s" and ev: "events s e = Some ev" "EventType ev AND EVT_NOTIFY_SIGNAL \<noteq> 0" "\<not> ExFlag ev"
    and q: "NotifyLinked ev \<longrightarrow> SignalCount ev \<noteq> 0"
  shows "\<exists>s'. CoreSignalEvent (CoreRestoreTpl (Suc (Suc k)) env) env e s = ret (EFI_SUCCESS, s') \<and>
    event_inv s' \<and> quiet s s' \<and>
    gEventQueue s' = (if SignalCount ev = 0 then (gEventQueue s)(unat (NotifyTpl ev) := gEventQueue s (unat (NotifyTpl ev)) @ [e])
      else gEventQueue s) \<and>
    (\<forall>j. bit (gEventPending s') j \<longleftrightarrow> bit (gEventPending s) j \<or> SignalCount ev = 0 \<and> j = unat (NotifyTpl ev))"
  by (rule ex_run_le [OF builds.signal_le signal_queues_debug [OF assms]])

definition fresh_event :: IEVENT where
  "fresh_event = (queued_event 1 8)\<lparr>SignalCount := 0, NotifyLinked := False\<rparr>"

definition one_event :: "u64 list event_state" where
  "one_event = (boot_state [])\<lparr>gEfiCurrentTpl := 31, gEventSignalQueue := [16], events := (\<lambda>_. None)(16 \<mapsto> fresh_event)\<rparr>"

theorem signal_queues_once_witness:
  "\<exists>s'. CoreSignalEvent (CoreRestoreTpl (Suc (Suc 0)) logging_env) logging_env 16 one_event = ret (EFI_SUCCESS, s') \<and>
    gEventQueue s' 8 = [16]"
proof -
  have "event_inv one_event"
    by (auto simp: event_inv_def notify_inv_def signal_inv_def timer_inv_def types_inv_def lock_inv_def one_event_def
      boot_state_def fresh_event_def queued_event_def initial_locks_def event_ok_def notify_type_def)
  then have hi: "free_high one_event"
    by (simp add: free_high_def one_event_def boot_state_def initial_locks_def)
  have ev: "events one_event 16 = Some fresh_event" "EventType fresh_event AND EVT_NOTIFY_SIGNAL \<noteq> 0" "\<not> ExFlag fresh_event"
    "NotifyLinked fresh_event \<longrightarrow> SignalCount fresh_event \<noteq> 0"
    by (simp_all add: one_event_def fresh_event_def queued_event_def)
  from signal_queues_once [OF hi ev, of 0 logging_env] show ?thesis
    by (auto simp del: CoreRestoreTpl.simps simp add: one_event_def boot_state_def fresh_event_def queued_event_def)
qed

text \<open>What \<open>CreateEvent\<close> accepts: a type of the table, not a pre-defined group by type and by GUID at once, and for
  types with a notification a function and a TPL strictly between TPL_APPLICATION and TPL_HIGH_LEVEL.\<close>

definition final_type :: "u32 \<Rightarrow> EFI_GUID option \<Rightarrow> u32" where
  "final_type T g = (if g = Some gEfiEventExitBootServicesGuid then EVT_SIGNAL_EXIT_BOOT_SERVICES
     else if g = Some gEfiEventVirtualAddressChangeGuid then EVT_SIGNAL_VIRTUAL_ADDRESS_CHANGE else T)"

definition acceptable :: "u32 \<Rightarrow> u64 \<Rightarrow> EFI_EVENT_NOTIFY \<Rightarrow> EFI_GUID option \<Rightarrow> bool" where
  "acceptable T tpl f g \<longleftrightarrow> T \<in> set mEventTable \<and>
     \<not> (g \<noteq> None \<and> T \<in> {EVT_SIGNAL_EXIT_BOOT_SERVICES, EVT_SIGNAL_VIRTUAL_ADDRESS_CHANGE}) \<and>
     (final_type T g AND (EVT_NOTIFY_WAIT OR EVT_NOTIFY_SIGNAL) \<noteq> 0 \<longrightarrow>
       f \<noteq> NoNotify \<and> TPL_APPLICATION < tpl \<and> tpl < TPL_HIGH_LEVEL)"

lemma two_groups: "gEfiEventExitBootServicesGuid \<noteq> gEfiEventVirtualAddressChangeGuid"
  by (simp add: gEfiEventExitBootServicesGuid_def gEfiEventVirtualAddressChangeGuid_def)

lemma create_shape:
  "CoreCreateEventInternal rt env T tpl f ctx g EventNull s =
    (if EventNull \<or> \<not> acceptable T tpl f g then ret (EFI_INVALID_PARAMETER, NULL, s)
     else if allocate_event env s = NULL then ret (EFI_OUT_OF_RESOURCES, NULL, s)
     else bind_run (register_event rt env (allocate_event env s) (make_event (final_type T g) tpl f ctx (snd (the (convert_group T g)))) s)
       (\<lambda>s1. ret (EFI_SUCCESS, allocate_event env s, s1)))"
proof (cases g)
  case None
  then show ?thesis
    by (cases "T = EVT_SIGNAL_EXIT_BOOT_SERVICES"; cases "T = EVT_SIGNAL_VIRTUAL_ADDRESS_CHANGE")
      (auto simp: CoreCreateEventInternal_def convert_group_def acceptable_def final_type_def not_less not_le)
next
  case (Some a)
  then show ?thesis
    using two_groups
    by (cases "a = gEfiEventExitBootServicesGuid"; cases "a = gEfiEventVirtualAddressChangeGuid")
      (auto simp: CoreCreateEventInternal_def convert_group_def acceptable_def final_type_def not_less not_le)
qed

lemma create_event_debug:
  fixes s :: "'w event_state"
  assumes inv: "event_inv s" and calm: "calm (gEfiCurrentTpl s) s" and free: "\<not> Acquired (locks s EventQueueLock)"
    and tpl: "gEfiCurrentTpl s \<le> 31"
  shows "\<exists>st e s'. CoreCreateEventInternal (CoreRestoreTpl (Suc (Suc k)) (debug_build env)) (debug_build env) T t f ctx g EventNull s = ret (st, e, s') \<and>
    st = (if EventNull \<or> \<not> acceptable T t f g then EFI_INVALID_PARAMETER
          else if allocate_event (debug_build env) s = NULL then EFI_OUT_OF_RESOURCES else EFI_SUCCESS) \<and>
    (st \<noteq> EFI_SUCCESS \<longrightarrow> e = NULL \<and> s' = s) \<and>
    (st = EFI_SUCCESS \<longrightarrow> events s e = None \<and> event_inv s' \<and> (\<exists>ev. events s' = (events s)(e \<mapsto> ev) \<and>
       EventType ev = final_type T g \<and> SignalCount ev = 0 \<and> SignalLinked ev = (final_type T g AND EVT_NOTIFY_SIGNAL \<noteq> 0)))"
proof (cases "\<not> EventNull \<and> acceptable T t f g \<and> allocate_event (debug_build env) s \<noteq> NULL")
  case False
  then show ?thesis by (auto simp: create_shape)
next
  case True
  let ?env = "debug_build env" and ?rt = "CoreRestoreTpl (Suc (Suc k)) (debug_build env)"
  define e where "e = allocate_event ?env s"
  define ev where "ev = make_event (final_type T g) t f ctx (snd (the (convert_group T g)))"
  have e: "events s e = None" "e \<noteq> NULL" using True by (auto simp: e_def allocate_event_def Let_def split: if_splits)
  have ev: "\<not> NotifyLinked ev" "\<not> TimerLinked ev" "TriggerTime ev = 0" "\<not> SignalLinked ev"
    "notify_type ev \<longrightarrow> NotifyFunction ev \<noteq> NoNotify \<and> 4 < NotifyTpl ev \<and> NotifyTpl ev < 31"
    and ev': "EventType ev = final_type T g" "SignalCount ev = 0"
    using True by (auto simp: ev_def make_event_def Let_def acceptable_def notify_type_def)
  have "gEfiCurrentTpl (entered e ev s) \<le> LockTpl (locks (entered e ev s) EventQueueLock)"
    using inv tpl by (simp add: entered_simps event_inv_def lock_inv_def)
  moreover have "LockTpl (locks (entered e ev s) EventQueueLock) \<le> 31"
    using inv by (simp add: entered_simps event_inv_def lock_inv_def)
  moreover have "\<not> Acquired (locks (entered e ev s) EventQueueLock)" using free by (simp add: entered_simps)
  ultimately obtain s3 where s3: "CoreAcquireLock ?env EventQueueLock (entered e ev s) = ret s3" "locked EventQueueLock (entered e ev s) s3"
    using core_idle.acquire_total by blast
  note r = registered_inside [OF inv e ev s3(2)]
  have c: "calm (gEfiCurrentTpl s) (registered e ev s3)" using calm r(2) by (simp add: calm_def)
  obtain s4 where s4: "CoreReleaseLock ?rt ?env EventQueueLock (registered e ev s3) = ret s4"
    "released EventQueueLock s (registered e ev s3) s4" "good_from s s4"
    using core_idle.release_total [OF r(1) c inv] by blast
  have "CoreCreateEventInternal ?rt ?env T t f ctx g EventNull s = ret (EFI_SUCCESS, e, s4)"
    using True s3(1) s4(1) by (simp add: create_shape register_event_eq e_def [symmetric] ev_def [symmetric] del: CoreRestoreTpl.simps)
  moreover have "events s4 = (events s)(e \<mapsto> ev\<lparr>SignalLinked := EventType ev AND EVT_NOTIFY_SIGNAL \<noteq> 0\<rparr>)"
    using released_simps(9) [OF s4(2)] r(3) by simp
  moreover have "event_inv s4" using s4(3) by (simp add: good_from_def)
  ultimately show ?thesis using True e ev' by (auto simp del: CoreRestoreTpl.simps)
qed

text \<open>C28: Creating an event: with the invariant, a TPL up to 31 with nothing pending above it and the event lock free,
  \<open>CoreCreateEventInternal\<close> returns, with or without assertions compiled in.  It answers \<open>EFI_INVALID_PARAMETER\<close>
  exactly when the OUT pointer is NULL or the parameters are not acceptable, \<open>EFI_OUT_OF_RESOURCES\<close> when they are but
  the pool is exhausted, and changes nothing then; otherwise it answers
  \<open>EFI_SUCCESS\<close> and the new event, which was not live before, is live, unsignalled, of the type its group makes it, in the signal list exactly
  if it is a signal event, and no other event has changed.\<close>

theorem create_event_result:
  fixes s :: "'w event_state"
  assumes inv: "event_inv s" and calm: "calm (gEfiCurrentTpl s) s" and free: "\<not> Acquired (locks s EventQueueLock)"
    and tpl: "gEfiCurrentTpl s \<le> 31"
  shows "\<exists>st e s'. CoreCreateEventInternal (CoreRestoreTpl (Suc (Suc k)) env) env T t f ctx g EventNull s = ret (st, e, s') \<and>
    st = (if EventNull \<or> \<not> acceptable T t f g then EFI_INVALID_PARAMETER
          else if allocate_event env s = NULL then EFI_OUT_OF_RESOURCES else EFI_SUCCESS) \<and>
    (st \<noteq> EFI_SUCCESS \<longrightarrow> e = NULL \<and> s' = s) \<and>
    (st = EFI_SUCCESS \<longrightarrow> events s e = None \<and> event_inv s' \<and> (\<exists>ev. events s' = (events s)(e \<mapsto> ev) \<and>
       EventType ev = final_type T g \<and> SignalCount ev = 0 \<and> SignalLinked ev = (final_type T g AND EVT_NOTIFY_SIGNAL \<noteq> 0)))"
proof -
  obtain st e s' where "CoreCreateEventInternal (CoreRestoreTpl (Suc (Suc k)) (debug_build env)) (debug_build env) T t f ctx g EventNull s = ret (st, e, s')"
    and r: "st = (if EventNull \<or> \<not> acceptable T t f g then EFI_INVALID_PARAMETER
        else if allocate_event env s = NULL then EFI_OUT_OF_RESOURCES else EFI_SUCCESS)"
      "st \<noteq> EFI_SUCCESS \<longrightarrow> e = NULL \<and> s' = s"
      "st = EFI_SUCCESS \<longrightarrow> events s e = None \<and> event_inv s' \<and> (\<exists>ev. events s' = (events s)(e \<mapsto> ev) \<and>
         EventType ev = final_type T g \<and> SignalCount ev = 0 \<and> SignalLinked ev = (final_type T g AND EVT_NOTIFY_SIGNAL \<noteq> 0))"
    using create_event_debug [OF assms, of k env T t f ctx g EventNull] unfolding debug_fields by blast
  from run_leD [OF builds.create_internal_le this(1)] r show ?thesis by blast
qed

definition allocating_env :: "u64 list event_env" where
  "allocating_env = logging_env\<lparr>alloc_event := \<lambda>_. 64\<rparr>"

theorem create_event_result_witness:
  "\<exists>s'. CoreCreateEventInternal (CoreRestoreTpl (Suc (Suc 0)) allocating_env) allocating_env
     EVT_NOTIFY_SIGNAL TPL_CALLBACK (UserNotify 1) 0 None False (boot_state []) = ret (EFI_SUCCESS, 64, s') \<and> event_inv s'"
proof -
  let ?s = "boot_state [] :: u64 list event_state"
  have "\<not> Acquired (locks ?s EventQueueLock)" "gEfiCurrentTpl ?s \<le> 31"
    by (simp_all add: boot_state_def initial_locks_def)
  note r = create_event_result [OF event_inv_boot calm_boot this, of 0 allocating_env EVT_NOTIFY_SIGNAL TPL_CALLBACK "UserNotify 1" 0 None False]
  have a: "allocate_event allocating_env ?s = 64"
    by (simp add: allocate_event_def allocating_env_def logging_env_def boot_state_def)
  have "acceptable EVT_NOTIFY_SIGNAL TPL_CALLBACK (UserNotify 1) None"
    by (simp add: acceptable_def mEventTable_def)
  with r a obtain e s' where "CoreCreateEventInternal (CoreRestoreTpl (Suc (Suc 0)) allocating_env) allocating_env
      EVT_NOTIFY_SIGNAL TPL_CALLBACK (UserNotify 1) 0 None False ?s = ret (EFI_SUCCESS, e, s')" "event_inv s'"
    by (auto simp del: CoreRestoreTpl.simps)
  moreover from this(1) have "e = 64" using a by (auto simp: create_shape bind_run_eq_ret split: if_splits simp del: CoreRestoreTpl.simps)
  ultimately show ?thesis by blast
qed

end
