(* ===== verification/Gcd.thy ===== *)
theory Gcd
  imports Prelude
begin

text \<open>
  The Global Coherency Domain maps of the DXE core (MdeModulePkg/Core/Dxe/Gcd/Gcd.c): the map of the memory space and
  the map of the I/O space, each a list of entries in address order, and the services that
  add, allocate, free and remove ranges and change their attributes.  A map is the list its ring of \<open>LIST_ENTRY\<close>
  stands for, a link is a position in it; a range of links is carried as the part before \<open>StartLink\<close>, the part
  from \<open>StartLink\<close> to \<open>EndLink\<close>, and the part after.  One service runs at a time: the
  two locks are left out.  The pool, the CPU protocol and the memory services that the code calls are
  arguments of the model.  ASSERTs are those of a build that has them.
\<close>

section \<open>Constants and types\<close>

abbreviation EfiGcdMemoryTypeNonExistent :: u32 where "EfiGcdMemoryTypeNonExistent \<equiv> 0"
abbreviation EfiGcdMemoryTypeSystemMemory :: u32 where "EfiGcdMemoryTypeSystemMemory \<equiv> 2"
abbreviation EfiGcdMemoryTypeMemoryMappedIo :: u32 where "EfiGcdMemoryTypeMemoryMappedIo \<equiv> 3"
abbreviation EfiGcdMemoryTypeMoreReliable :: u32 where "EfiGcdMemoryTypeMoreReliable \<equiv> 5"
abbreviation EfiGcdMemoryTypeMaximum :: u32 where "EfiGcdMemoryTypeMaximum \<equiv> 6"

abbreviation EfiGcdIoTypeNonExistent :: u32 where "EfiGcdIoTypeNonExistent \<equiv> 0"
abbreviation EfiGcdIoTypeMaximum :: u32 where "EfiGcdIoTypeMaximum \<equiv> 3"

abbreviation EfiGcdAllocateMaxAddressSearchBottomUp :: u32 where "EfiGcdAllocateMaxAddressSearchBottomUp \<equiv> 1"
abbreviation EfiGcdAllocateAddress :: u32 where "EfiGcdAllocateAddress \<equiv> 2"
abbreviation EfiGcdAllocateAnySearchTopDown :: u32 where "EfiGcdAllocateAnySearchTopDown \<equiv> 3"
abbreviation EfiGcdAllocateMaxAddressSearchTopDown :: u32 where "EfiGcdAllocateMaxAddressSearchTopDown \<equiv> 4"
abbreviation EfiGcdMaxAllocateType :: u32 where "EfiGcdMaxAllocateType \<equiv> 5"

abbreviation GCD_MEMORY_SPACE_OPERATION :: u64 where "GCD_MEMORY_SPACE_OPERATION \<equiv> 0x20"
abbreviation GCD_IO_SPACE_OPERATION :: u64 where "GCD_IO_SPACE_OPERATION \<equiv> 0x40"
abbreviation GCD_ADD_MEMORY_OPERATION :: u64 where "GCD_ADD_MEMORY_OPERATION \<equiv> 0x20"
abbreviation GCD_ALLOCATE_MEMORY_OPERATION :: u64 where "GCD_ALLOCATE_MEMORY_OPERATION \<equiv> 0x21"
abbreviation GCD_FREE_MEMORY_OPERATION :: u64 where "GCD_FREE_MEMORY_OPERATION \<equiv> 0x22"
abbreviation GCD_REMOVE_MEMORY_OPERATION :: u64 where "GCD_REMOVE_MEMORY_OPERATION \<equiv> 0x23"
abbreviation GCD_SET_ATTRIBUTES_MEMORY_OPERATION :: u64 where "GCD_SET_ATTRIBUTES_MEMORY_OPERATION \<equiv> 0x24"
abbreviation GCD_SET_CAPABILITIES_MEMORY_OPERATION :: u64 where "GCD_SET_CAPABILITIES_MEMORY_OPERATION \<equiv> 0x25"
abbreviation GCD_ADD_IO_OPERATION :: u64 where "GCD_ADD_IO_OPERATION \<equiv> 0x40"
abbreviation GCD_ALLOCATE_IO_OPERATION :: u64 where "GCD_ALLOCATE_IO_OPERATION \<equiv> 0x41"
abbreviation GCD_FREE_IO_OPERATION :: u64 where "GCD_FREE_IO_OPERATION \<equiv> 0x42"
abbreviation GCD_REMOVE_IO_OPERATION :: u64 where "GCD_REMOVE_IO_OPERATION \<equiv> 0x43"

abbreviation EFI_MEMORY_UC :: u64 where "EFI_MEMORY_UC \<equiv> 1"
abbreviation EFI_MEMORY_WC :: u64 where "EFI_MEMORY_WC \<equiv> 2"
abbreviation EFI_MEMORY_WT :: u64 where "EFI_MEMORY_WT \<equiv> 4"
abbreviation EFI_MEMORY_WB :: u64 where "EFI_MEMORY_WB \<equiv> 8"
abbreviation EFI_MEMORY_WP :: u64 where "EFI_MEMORY_WP \<equiv> 0x1000"
abbreviation EFI_MEMORY_RUNTIME :: u64 where "EFI_MEMORY_RUNTIME \<equiv> 0x8000000000000000"
abbreviation EFI_MEMORY_PORT_IO :: u64 where "EFI_MEMORY_PORT_IO \<equiv> 0x4000000000000000"
abbreviation EFI_PAGE_MASK :: u64 where "EFI_PAGE_MASK \<equiv> 0xFFF"
abbreviation EFI_PAGE_SIZE :: u64 where "EFI_PAGE_SIZE \<equiv> 0x1000"
abbreviation EFI_PAGE_SHIFT :: nat where "EFI_PAGE_SHIFT \<equiv> 12"
abbreviation INVALID_CPU_ARCH_ATTRIBUTES :: u64 where "INVALID_CPU_ARCH_ATTRIBUTES \<equiv> 0xffffffff"

record EFI_GCD_MAP_ENTRY =
  BaseAddress :: u64
  EndAddress :: u64
  Capabilities :: u64
  Attributes :: u64
  GcdMemoryType :: u32
  GcdIoType :: u32
  ImageHandle :: u64
  DeviceHandle :: u64

type_synonym gcd_map = "EFI_GCD_MAP_ENTRY list"

record 'w gcd_state =
  mGcdMemorySpaceMap :: gcd_map
  mGcdIoSpaceMap :: gcd_map
  gworld :: 'w

text \<open>
  What the services call: the pool (does an allocation succeed?), \<open>gCpu->SetMemoryAttributes\<close> (None while
  there is no CPU protocol), and the page services.  \<open>debug_gcd\<close>: are the DEBUG messages of the services compiled in?
\<close>

record 'w gcd_env =
  AllocatePool :: "'w \<Rightarrow> bool \<times> 'w"
  SetMemoryAttributes :: "(u64 \<Rightarrow> u64 \<Rightarrow> u64 \<Rightarrow> 'w \<Rightarrow> efi_status \<times> 'w) option"
  CoreAddMemoryDescriptor :: "u64 \<Rightarrow> u64 \<Rightarrow> u64 \<Rightarrow> 'w \<Rightarrow> 'w"
  CoreUpdateMemoryAttributes :: "u64 \<Rightarrow> u64 \<Rightarrow> u64 \<Rightarrow> 'w \<Rightarrow> 'w"
  gDxeCoreImageHandle :: u64
  debug_gcd :: bool

section \<open>Worker functions\<close>

definition AlignValue :: "u64 \<Rightarrow> nat \<Rightarrow> bool \<Rightarrow> u64" where
  "AlignValue v Alignment RoundUp =
     (let AlignmentMask = push_bit Alignment 1 - 1 in
      (if RoundUp then v + AlignmentMask else v) AND NOT AlignmentMask)"

definition PageAlignAddress :: "u64 \<Rightarrow> u64" where
  "PageAlignAddress v = AlignValue v EFI_PAGE_SHIFT True"

definition PageAlignLength :: "u64 \<Rightarrow> u64" where
  "PageAlignLength v = AlignValue v EFI_PAGE_SHIFT False"

text \<open>Two allocations; the first is freed if the second fails.\<close>

definition CoreAllocateGcdMapEntry :: "'w gcd_env \<Rightarrow> 'w \<Rightarrow> efi_status \<times> 'w" where
  "CoreAllocateGcdMapEntry env w =
     (let (ok, w1) = AllocatePool env w in
      if \<not> ok then (EFI_OUT_OF_RESOURCES, w1)
      else let (ok2, w2) = AllocatePool env w1 in (if \<not> ok2 then EFI_OUT_OF_RESOURCES else EFI_SUCCESS, w2))"

text \<open>
  The entries put before the link, the entry itself, the entries put after it, and whether
  \<open>TopEntry\<close> and \<open>BottomEntry\<close> are in use now (that is the test of their Signature).
\<close>

definition CoreInsertGcdMapEntry ::
  "u64 \<Rightarrow> u64 \<Rightarrow> bool \<Rightarrow> bool \<Rightarrow> EFI_GCD_MAP_ENTRY \<Rightarrow>
     (gcd_map \<times> EFI_GCD_MAP_ENTRY \<times> gcd_map \<times> bool \<times> bool) run" where
  "CoreInsertGcdMapEntry b l topUsed bottomUsed Entry =
     assert_if True (l \<noteq> 0)
       (bind_run
         (if b > BaseAddress Entry then
            assert_if True (\<not> bottomUsed)
              (ret ([Entry\<lparr>EndAddress := b - 1\<rparr>], Entry\<lparr>BaseAddress := b\<rparr>, True))
          else ret ([], Entry, bottomUsed))
         (\<lambda>(bottoms, Entry1, bottomUsed1).
           if b + l - 1 < EndAddress Entry1 then
             assert_if True (\<not> topUsed)
               (ret (bottoms, Entry1\<lparr>EndAddress := b + l - 1\<rparr>, [Entry1\<lparr>BaseAddress := b + l\<rparr>], True, bottomUsed1))
           else ret (bottoms, Entry1, [], topUsed, bottomUsed1)))"

text \<open>All that \<open>CoreMergeGcdMapEntry\<close> compares.\<close>

definition same_kind :: "EFI_GCD_MAP_ENTRY \<Rightarrow> EFI_GCD_MAP_ENTRY \<Rightarrow> bool" where
  "same_kind Entry AdjacentEntry \<longleftrightarrow>
     Capabilities Entry = Capabilities AdjacentEntry \<and> Attributes Entry = Attributes AdjacentEntry \<and>
     GcdMemoryType Entry = GcdMemoryType AdjacentEntry \<and> GcdIoType Entry = GcdIoType AdjacentEntry \<and>
     ImageHandle Entry = ImageHandle AdjacentEntry \<and> DeviceHandle Entry = DeviceHandle AdjacentEntry"

text \<open>The link with what is before and after it in the map.\<close>

definition CoreMergeGcdMapEntry ::
  "bool \<Rightarrow> gcd_map \<times> EFI_GCD_MAP_ENTRY \<times> gcd_map \<Rightarrow> efi_status \<times> gcd_map \<times> EFI_GCD_MAP_ENTRY \<times> gcd_map" where
  "CoreMergeGcdMapEntry Forward = (\<lambda>(before, Entry, after).
     if Forward then
       (case after of
          [] \<Rightarrow> (EFI_SUCCESS, before, Entry, after)
        | AdjacentEntry # rest \<Rightarrow>
            if \<not> same_kind Entry AdjacentEntry then (EFI_UNSUPPORTED, before, Entry, after)
            else (EFI_SUCCESS, before, Entry\<lparr>EndAddress := EndAddress AdjacentEntry\<rparr>, rest))
     else if before = [] then (EFI_SUCCESS, before, Entry, after)
     else if \<not> same_kind Entry (last before) then (EFI_UNSUPPORTED, before, Entry, after)
     else (EFI_SUCCESS, butlast before, Entry\<lparr>BaseAddress := BaseAddress (last before)\<rparr>, after))"

text \<open>
  The merges of \<open>CoreCleanupGcdMapEntry\<close>: each link from StartLink to EndLink with the one before it, and EndLink with the
  one after it.  A TopEntry or BottomEntry not in use is freed, which leaves no trace here.
\<close>

fun CoreCleanupGcdMapEntry :: "gcd_map \<Rightarrow> gcd_map \<Rightarrow> gcd_map \<Rightarrow> gcd_map" where
  "CoreCleanupGcdMapEntry before [] after = before @ after"
| "CoreCleanupGcdMapEntry before (Entry # es) after =
     (let (_, before1, Entry1, _) = CoreMergeGcdMapEntry False (before, Entry, es @ after) in
      if es = [] then
        let (_, before2, Entry2, after2) = CoreMergeGcdMapEntry True (before1, Entry1, after) in before2 @ Entry2 # after2
      else CoreCleanupGcdMapEntry (before1 @ [Entry1]) es after)"

text \<open>The positions of StartLink and EndLink; None is \<open>EFI_NOT_FOUND\<close>.\<close>

fun search_loop :: "u64 \<Rightarrow> u64 \<Rightarrow> nat \<Rightarrow> nat option \<Rightarrow> gcd_map \<Rightarrow> (nat \<times> nat) option" where
  "search_loop b l i StartLink [] = None"
| "search_loop b l i StartLink (Entry # es) =
     (let StartLink1 = (if b \<ge> BaseAddress Entry \<and> b \<le> EndAddress Entry then Some i else StartLink) in
      case StartLink1 of
        None \<Rightarrow> search_loop b l (Suc i) StartLink1 es
      | Some j \<Rightarrow>
          if b + l - 1 \<ge> BaseAddress Entry \<and> b + l - 1 \<le> EndAddress Entry then Some (j, i)
          else search_loop b l (Suc i) StartLink1 es)"

definition CoreSearchGcdMapEntry :: "u64 \<Rightarrow> u64 \<Rightarrow> gcd_map \<Rightarrow> (nat \<times> nat) option run" where
  "CoreSearchGcdMapEntry b l Map = assert_if True (l \<noteq> 0) (ret (search_loop b l 0 None Map))"

fun CoreCountGcdMapEntry :: "gcd_map \<Rightarrow> nat" where
  "CoreCountGcdMapEntry [] = 0"
| "CoreCountGcdMapEntry (_ # es) = Suc (CoreCountGcdMapEntry es)"

definition ConverToCpuArchAttributes :: "u64 \<Rightarrow> u64" where
  "ConverToCpuArchAttributes a =
     (if a AND EFI_MEMORY_UC = EFI_MEMORY_UC then EFI_MEMORY_UC
      else if a AND EFI_MEMORY_WC = EFI_MEMORY_WC then EFI_MEMORY_WC
      else if a AND EFI_MEMORY_WT = EFI_MEMORY_WT then EFI_MEMORY_WT
      else if a AND EFI_MEMORY_WB = EFI_MEMORY_WB then EFI_MEMORY_WB
      else if a AND EFI_MEMORY_WP = EFI_MEMORY_WP then EFI_MEMORY_WP
      else INVALID_CPU_ARCH_ATTRIBUTES)"

section \<open>CoreConvertSpace\<close>

text \<open>Which of the two maps an operation works on; None if it is neither, which the code ASSERTs it is not.\<close>

definition operation_map :: "u64 \<Rightarrow> 'w gcd_state \<Rightarrow> gcd_map option" where
  "operation_map Operation s =
     (if Operation AND GCD_MEMORY_SPACE_OPERATION \<noteq> 0 then Some (mGcdMemorySpaceMap s)
      else if Operation AND GCD_IO_SPACE_OPERATION \<noteq> 0 then Some (mGcdIoSpaceMap s)
      else None)"

definition set_operation_map :: "u64 \<Rightarrow> gcd_map \<Rightarrow> 'w gcd_state \<Rightarrow> 'w gcd_state" where
  "set_operation_map Operation Map s =
     (if Operation AND GCD_MEMORY_SPACE_OPERATION \<noteq> 0 then s\<lparr>mGcdMemorySpaceMap := Map\<rparr> else s\<lparr>mGcdIoSpaceMap := Map\<rparr>)"

text \<open>The check of one entry of the range.\<close>

definition convert_check :: "u64 \<Rightarrow> u64 \<Rightarrow> u64 \<Rightarrow> u64 \<Rightarrow> u64 \<Rightarrow> EFI_GCD_MAP_ENTRY \<Rightarrow> efi_status" where
  "convert_check Operation b l Capabilities' Attributes' Entry =
     (if Operation = GCD_ADD_MEMORY_OPERATION then
        (if GcdMemoryType Entry \<noteq> EfiGcdMemoryTypeNonExistent \<or> ImageHandle Entry \<noteq> NULL then EFI_ACCESS_DENIED
         else EFI_SUCCESS)
      else if Operation = GCD_ADD_IO_OPERATION then
        (if GcdIoType Entry \<noteq> EfiGcdIoTypeNonExistent \<or> ImageHandle Entry \<noteq> NULL then EFI_ACCESS_DENIED
         else EFI_SUCCESS)
      else if Operation = GCD_FREE_MEMORY_OPERATION \<or> Operation = GCD_FREE_IO_OPERATION then
        (if ImageHandle Entry = NULL then EFI_NOT_FOUND else EFI_SUCCESS)
      else if Operation = GCD_REMOVE_MEMORY_OPERATION then
        (if GcdMemoryType Entry = EfiGcdMemoryTypeNonExistent then EFI_NOT_FOUND
         else if ImageHandle Entry \<noteq> NULL then EFI_ACCESS_DENIED else EFI_SUCCESS)
      else if Operation = GCD_REMOVE_IO_OPERATION then
        (if GcdIoType Entry = EfiGcdIoTypeNonExistent then EFI_NOT_FOUND
         else if ImageHandle Entry \<noteq> NULL then EFI_ACCESS_DENIED else EFI_SUCCESS)
      else if Operation = GCD_SET_ATTRIBUTES_MEMORY_OPERATION then
        (if Attributes' AND EFI_MEMORY_RUNTIME \<noteq> 0 \<and> (b AND EFI_PAGE_MASK \<noteq> 0 \<or> l AND EFI_PAGE_MASK \<noteq> 0)
         then EFI_INVALID_PARAMETER
         else if Capabilities Entry AND Attributes' \<noteq> Attributes' then EFI_UNSUPPORTED else EFI_SUCCESS)
      else if Operation = GCD_SET_CAPABILITIES_MEMORY_OPERATION then
        (if b AND EFI_PAGE_MASK \<noteq> 0 \<or> l AND EFI_PAGE_MASK \<noteq> 0 then EFI_INVALID_PARAMETER
         else if Capabilities' AND Attributes Entry \<noteq> Attributes Entry then EFI_UNSUPPORTED else EFI_SUCCESS)
      else EFI_SUCCESS)"

text \<open>The first error in the range, \<open>EFI_SUCCESS\<close> if there is none.\<close>

fun check_entries :: "(EFI_GCD_MAP_ENTRY \<Rightarrow> efi_status) \<Rightarrow> gcd_map \<Rightarrow> efi_status" where
  "check_entries check [] = EFI_SUCCESS"
| "check_entries check (Entry # es) = (if EFI_ERROR (check Entry) then check Entry else check_entries check es)"

text \<open>What the operation writes into an entry.\<close>

definition convert_entry :: "u64 \<Rightarrow> u32 \<Rightarrow> u32 \<Rightarrow> u64 \<Rightarrow> u64 \<Rightarrow> EFI_GCD_MAP_ENTRY \<Rightarrow> EFI_GCD_MAP_ENTRY" where
  "convert_entry Operation GcdMemoryType' GcdIoType' Capabilities' Attributes' Entry =
     (if Operation = GCD_ADD_MEMORY_OPERATION then
        Entry\<lparr>GcdMemoryType := GcdMemoryType',
          Capabilities := (if GcdMemoryType' = EfiGcdMemoryTypeMemoryMappedIo
                           then Capabilities' OR EFI_MEMORY_RUNTIME OR EFI_MEMORY_PORT_IO
                           else Capabilities' OR EFI_MEMORY_RUNTIME)\<rparr>
      else if Operation = GCD_ADD_IO_OPERATION then Entry\<lparr>GcdIoType := GcdIoType'\<rparr>
      else if Operation = GCD_FREE_MEMORY_OPERATION \<or> Operation = GCD_FREE_IO_OPERATION then
        Entry\<lparr>ImageHandle := NULL, DeviceHandle := NULL\<rparr>
      else if Operation = GCD_REMOVE_MEMORY_OPERATION then
        Entry\<lparr>GcdMemoryType := EfiGcdMemoryTypeNonExistent, Capabilities := 0\<rparr>
      else if Operation = GCD_REMOVE_IO_OPERATION then Entry\<lparr>GcdIoType := EfiGcdIoTypeNonExistent\<rparr>
      else if Operation = GCD_SET_ATTRIBUTES_MEMORY_OPERATION then Entry\<lparr>Attributes := Attributes'\<rparr>
      else if Operation = GCD_SET_CAPABILITIES_MEMORY_OPERATION then Entry\<lparr>Capabilities := Capabilities'\<rparr>
      else Entry)"

text \<open>
  The loop from StartLink to EndLink, \<open>write\<close> being what is written into each entry.  The result is what has come before
  StartLink, the links from StartLink to EndLink, and what has come after EndLink.  A TopEntry put
  after a link that is not EndLink would be the next link.
\<close>

function convert_loop ::
  "(EFI_GCD_MAP_ENTRY \<Rightarrow> EFI_GCD_MAP_ENTRY) \<Rightarrow> u64 \<Rightarrow> u64 \<Rightarrow> bool \<Rightarrow> bool \<Rightarrow> gcd_map \<Rightarrow> (gcd_map \<times> gcd_map \<times> gcd_map) run" where
  "convert_loop write b l topUsed bottomUsed [] = ret ([], [], [])"
| "convert_loop write b l topUsed bottomUsed (Entry # es) =
     bind_run (CoreInsertGcdMapEntry b l topUsed bottomUsed Entry) (\<lambda>(bottoms, Entry1, tops, topUsed1, bottomUsed1).
       if es = [] then ret (bottoms, [write Entry1], tops)
       else bind_run (convert_loop write b l topUsed1 bottomUsed1 (tops @ es)) (\<lambda>(before, mid, after).
         ret (bottoms, write Entry1 # before @ mid, after)))"
  by pat_completeness auto
termination
  by (relation "measure (\<lambda>(_, _, _, topUsed, _, es). length es + (if topUsed then 0 else 1))")
    (auto simp: CoreInsertGcdMapEntry_def bind_run_eq_ret assert_if_def split: if_splits)

text \<open>The map after the conversion and the clean-up.\<close>

definition convert_range ::
  "(EFI_GCD_MAP_ENTRY \<Rightarrow> EFI_GCD_MAP_ENTRY) \<Rightarrow> u64 \<Rightarrow> u64 \<Rightarrow> nat \<times> nat \<Rightarrow> gcd_map \<Rightarrow> gcd_map run" where
  "convert_range write b l = (\<lambda>(StartLink, EndLink) Map.
     bind_run (convert_loop write b l False False (drop StartLink (take (Suc EndLink) Map))) (\<lambda>(bottoms, mid, tops).
       ret (CoreCleanupGcdMapEntry (take StartLink Map @ bottoms) mid (tops @ drop (Suc EndLink) Map))))"

text \<open>The call of the CPU protocol.\<close>

definition set_cpu_attributes :: "'w gcd_env \<Rightarrow> u64 \<Rightarrow> u64 \<Rightarrow> u64 \<Rightarrow> u64 \<Rightarrow> 'w \<Rightarrow> efi_status \<times> 'w" where
  "set_cpu_attributes env Operation b l Attributes' w =
     (let CpuArchAttributes = ConverToCpuArchAttributes Attributes' in
      if Operation = GCD_SET_ATTRIBUTES_MEMORY_OPERATION \<and> CpuArchAttributes \<noteq> INVALID_CPU_ARCH_ATTRIBUTES then
        (case SetMemoryAttributes env of
           None \<Rightarrow> (EFI_NOT_AVAILABLE_YET, w)
         | Some f \<Rightarrow> f b l CpuArchAttributes w)
      else (EFI_SUCCESS, w))"

definition CoreConvertSpace ::
  "'w gcd_env \<Rightarrow> u64 \<Rightarrow> u32 \<Rightarrow> u32 \<Rightarrow> u64 \<Rightarrow> u64 \<Rightarrow> u64 \<Rightarrow> u64 \<Rightarrow> 'w gcd_state \<Rightarrow>
     (efi_status \<times> 'w gcd_state) run" where
  "CoreConvertSpace env Operation GcdMemoryType' GcdIoType' b l Capabilities' Attributes' s =
     (if l = 0 then ret (EFI_INVALID_PARAMETER, s)
      else case operation_map Operation s of
        None \<Rightarrow> Some (Inl AssertFailed)
      | Some Map \<Rightarrow>
          bind_run (CoreSearchGcdMapEntry b l Map) (\<lambda>found.
            case found of
              None \<Rightarrow> ret (EFI_UNSUPPORTED, s)
            | Some (StartLink, EndLink) \<Rightarrow>
                let Status = check_entries (convert_check Operation b l Capabilities' Attributes')
                      (drop StartLink (take (Suc EndLink) Map)) in
                if EFI_ERROR Status then ret (Status, s)
                else let (Status1, w1) = CoreAllocateGcdMapEntry env (gworld s) in
                if EFI_ERROR Status1 then ret (EFI_OUT_OF_RESOURCES, s\<lparr>gworld := w1\<rparr>)
                else let (Status2, w2) = set_cpu_attributes env Operation b l Attributes' w1 in
                if EFI_ERROR Status2 then ret (Status2, s\<lparr>gworld := w2\<rparr>)
                else bind_run
                  (convert_range (convert_entry Operation GcdMemoryType' GcdIoType' Capabilities' Attributes') b l
                    (StartLink, EndLink) Map)
                  (\<lambda>Map'. ret (EFI_SUCCESS, set_operation_map Operation Map' (s\<lparr>gworld := w2\<rparr>)))))"

section \<open>CoreAllocateSpace\<close>

definition CoreAllocateSpaceCheckEntry :: "u64 \<Rightarrow> EFI_GCD_MAP_ENTRY \<Rightarrow> u32 \<Rightarrow> u32 \<Rightarrow> efi_status" where
  "CoreAllocateSpaceCheckEntry Operation Entry GcdMemoryType' GcdIoType' =
     (if ImageHandle Entry \<noteq> NULL then EFI_NOT_FOUND
      else if Operation = GCD_ALLOCATE_MEMORY_OPERATION then
        (if GcdMemoryType Entry \<noteq> GcdMemoryType' then EFI_NOT_FOUND else EFI_SUCCESS)
      else if Operation = GCD_ALLOCATE_IO_OPERATION then
        (if GcdIoType Entry \<noteq> GcdIoType' then EFI_NOT_FOUND else EFI_SUCCESS)
      else EFI_UNSUPPORTED)"

definition top_down :: "u32 \<Rightarrow> bool" where
  "top_down GcdAllocateType \<longleftrightarrow>
     GcdAllocateType = EfiGcdAllocateMaxAddressSearchTopDown \<or> GcdAllocateType = EfiGcdAllocateAnySearchTopDown"

definition max_address :: "u32 \<Rightarrow> u64 \<Rightarrow> gcd_map \<Rightarrow> u64" where
  "max_address GcdAllocateType b Map =
     (if GcdAllocateType = EfiGcdAllocateMaxAddressSearchBottomUp \<or> GcdAllocateType = EfiGcdAllocateMaxAddressSearchTopDown
      then b else EndAddress (last Map))"

text \<open>
  What one usable entry gives: the search goes on with the next entry, it stops, or there is a
  base address to try.  \<open>StopSearch\<close> holds the value left in \<open>*BaseAddress\<close>.
\<close>

datatype candidate = SkipEntry | StopSearch u64 | TryBase u64

definition alloc_candidate :: "u32 \<Rightarrow> u64 \<Rightarrow> u64 \<Rightarrow> u64 \<Rightarrow> u64 \<Rightarrow> EFI_GCD_MAP_ENTRY \<Rightarrow> candidate" where
  "alloc_candidate GcdAllocateType l AlignmentMask MaxAddress b Entry =
     (if top_down GcdAllocateType then
        (if BaseAddress Entry + l > MaxAddress then SkipEntry
         else if l > EndAddress Entry + 1 then StopSearch b
         else let b1 = (if EndAddress Entry > MaxAddress then MaxAddress else EndAddress Entry) in
           TryBase ((b1 + 1 - l) AND NOT AlignmentMask))
      else
        let b1 = (BaseAddress Entry + AlignmentMask) AND NOT AlignmentMask in
        if b1 + l - 1 > MaxAddress then StopSearch b1 else TryBase b1)"

text \<open>The link after \<open>Link\<close> in the direction of the search; None is the head of the map.\<close>

definition next_link :: "u32 \<Rightarrow> gcd_map \<Rightarrow> nat \<Rightarrow> nat option" where
  "next_link GcdAllocateType Map i =
     (if top_down GcdAllocateType then (if i = 0 then None else Some (i - 1))
      else (if Suc i < length Map then Some (Suc i) else None))"

definition first_link :: "u32 \<Rightarrow> gcd_map \<Rightarrow> nat option" where
  "first_link GcdAllocateType Map = (if Map = [] then None else if top_down GcdAllocateType then Some (length Map - 1) else Some 0)"

text \<open>The first entry of a range that the check refuses.\<close>

fun first_refused :: "(EFI_GCD_MAP_ENTRY \<Rightarrow> efi_status) \<Rightarrow> gcd_map \<Rightarrow> nat option" where
  "first_refused check [] = None"
| "first_refused check (Entry # es) = (if EFI_ERROR (check Entry) then Some 0 else map_option Suc (first_refused check es))"

text \<open>
  The search over the map: the range of links found (None: \<open>EFI_NOT_FOUND\<close>) and the value of
  \<open>*BaseAddress\<close>.  It goes on at the entry that blocked an attempt.
\<close>

partial_function (option) alloc_search ::
  "(EFI_GCD_MAP_ENTRY \<Rightarrow> efi_status) \<Rightarrow> u32 \<Rightarrow> u64 \<Rightarrow> u64 \<Rightarrow> u64 \<Rightarrow> gcd_map \<Rightarrow> nat option \<Rightarrow> u64 \<Rightarrow>
     ((nat \<times> nat) option \<times> u64) run" where
  "alloc_search check GcdAllocateType l AlignmentMask MaxAddress Map Link b =
     (case Link of
        None \<Rightarrow> ret (None, b)
      | Some i \<Rightarrow>
          if EFI_ERROR (check (Map ! i)) then
            alloc_search check GcdAllocateType l AlignmentMask MaxAddress Map (next_link GcdAllocateType Map i) b
          else (case alloc_candidate GcdAllocateType l AlignmentMask MaxAddress b (Map ! i) of
            SkipEntry \<Rightarrow>
              alloc_search check GcdAllocateType l AlignmentMask MaxAddress Map (next_link GcdAllocateType Map i) b
          | StopSearch b1 \<Rightarrow> ret (None, b1)
          | TryBase b1 \<Rightarrow>
              bind_run (CoreSearchGcdMapEntry b1 l Map) (\<lambda>found.
                case found of
                  None \<Rightarrow> ret (None, b1)
                | Some r \<Rightarrow>
                    (case first_refused check (drop (fst r) (take (Suc (snd r)) Map)) of
                       None \<Rightarrow> ret (Some r, b1)
                     | Some k \<Rightarrow>
                         alloc_search check GcdAllocateType l AlignmentMask MaxAddress Map (Some (fst r + k)) b1))))"

declare alloc_search.simps [code]

text \<open>The range of links to allocate, or an error; with the value of \<open>*BaseAddress\<close>.\<close>

definition alloc_find ::
  "(EFI_GCD_MAP_ENTRY \<Rightarrow> efi_status) \<Rightarrow> u32 \<Rightarrow> nat \<Rightarrow> u64 \<Rightarrow> gcd_map \<Rightarrow> u64 \<Rightarrow> ((efi_status + nat \<times> nat) \<times> u64) run" where
  "alloc_find check GcdAllocateType Alignment l Map b =
     (let AlignmentMask = push_bit Alignment 1 - 1 in
      if GcdAllocateType = EfiGcdAllocateAddress then
        (if b AND AlignmentMask \<noteq> 0 then ret (Inl EFI_NOT_FOUND, b)
         else bind_run (CoreSearchGcdMapEntry b l Map) (\<lambda>found.
           case found of
             None \<Rightarrow> ret (Inl EFI_NOT_FOUND, b)
           | Some (StartLink, EndLink) \<Rightarrow>
               let Status = check_entries check (drop StartLink (take (Suc EndLink) Map)) in
               if EFI_ERROR Status then ret (Inl Status, b) else ret (Inr (StartLink, EndLink), b)))
      else assert_if True (Map \<noteq> [])
        (bind_run
          (alloc_search check GcdAllocateType l AlignmentMask (max_address GcdAllocateType b Map) Map
            (first_link GcdAllocateType Map) b)
          (\<lambda>(found, b1). ret (case found of None \<Rightarrow> Inl EFI_NOT_FOUND | Some r \<Rightarrow> Inr r, b1))))"

text \<open>\<open>*BaseAddress\<close> is None where the pointer is NULL; its value after the call is returned.\<close>

definition CoreAllocateSpace ::
  "'w gcd_env \<Rightarrow> u64 \<Rightarrow> u32 \<Rightarrow> u32 \<Rightarrow> u32 \<Rightarrow> u64 \<Rightarrow> u64 \<Rightarrow> u64 option \<Rightarrow> u64 \<Rightarrow> u64 \<Rightarrow> 'w gcd_state \<Rightarrow>
     (efi_status \<times> u64 option \<times> 'w gcd_state) run" where
  "CoreAllocateSpace env Operation GcdAllocateType GcdMemoryType' GcdIoType' Alignment l Base ImageHandle' DeviceHandle' s =
     (if GcdAllocateType \<ge> EfiGcdMaxAllocateType then ret (EFI_INVALID_PARAMETER, Base, s)
      else if GcdMemoryType' \<ge> EfiGcdMemoryTypeMaximum then ret (EFI_INVALID_PARAMETER, Base, s)
      else if GcdIoType' \<ge> EfiGcdIoTypeMaximum then ret (EFI_INVALID_PARAMETER, Base, s)
      else (case Base of
        None \<Rightarrow> ret (EFI_INVALID_PARAMETER, Base, s)
      | Some b \<Rightarrow>
          if ImageHandle' = NULL then ret (EFI_INVALID_PARAMETER, Base, s)
          else if Alignment \<ge> 64 then ret (EFI_NOT_FOUND, Base, s)
          else if l = 0 then ret (EFI_INVALID_PARAMETER, Base, s)
          else (case operation_map Operation s of
            None \<Rightarrow> Some (Inl AssertFailed)
          | Some Map \<Rightarrow>
              bind_run
                (alloc_find (\<lambda>Entry. CoreAllocateSpaceCheckEntry Operation Entry GcdMemoryType' GcdIoType')
                  GcdAllocateType (unat Alignment) l Map b)
                (\<lambda>(found, b1).
                  case found of
                    Inl Status \<Rightarrow> ret (Status, Some b1, s)
                  | Inr r \<Rightarrow>
                      let (Status1, w1) = CoreAllocateGcdMapEntry env (gworld s) in
                      if EFI_ERROR Status1 then ret (EFI_OUT_OF_RESOURCES, Some b1, s\<lparr>gworld := w1\<rparr>)
                      else bind_run
                        (convert_range (\<lambda>Entry. Entry\<lparr>ImageHandle := ImageHandle', DeviceHandle := DeviceHandle'\<rparr>) b1 l r Map)
                        (\<lambda>Map'. ret (EFI_SUCCESS, Some b1, set_operation_map Operation Map' (s\<lparr>gworld := w1\<rparr>)))))))"

section \<open>The services of the memory space\<close>

text \<open>
  The enumerations are unsigned, so \<open>\<le> EfiGcdMemoryTypeNonExistent\<close> is a test for 0.
\<close>

definition CoreInternalAddMemorySpace ::
  "'w gcd_env \<Rightarrow> u32 \<Rightarrow> u64 \<Rightarrow> u64 \<Rightarrow> u64 \<Rightarrow> 'w gcd_state \<Rightarrow> (efi_status \<times> 'w gcd_state) run" where
  "CoreInternalAddMemorySpace env GcdMemoryType' b l Capabilities' s =
     (if GcdMemoryType' \<le> EfiGcdMemoryTypeNonExistent \<or> GcdMemoryType' \<ge> EfiGcdMemoryTypeMaximum
      then ret (EFI_INVALID_PARAMETER, s)
      else CoreConvertSpace env GCD_ADD_MEMORY_OPERATION GcdMemoryType' 0 b l Capabilities' 0 s)"

text \<open>
  What the DEBUG messages at the start of the two allocation services evaluate: \<open>*BaseAddress\<close> and
  \<open>LShiftU64 (1, Alignment)\<close>, which ASSERTs that the count is less than 64.
\<close>

definition debug_allocate :: "'w gcd_env \<Rightarrow> u64 \<Rightarrow> u64 option \<Rightarrow> 'a run \<Rightarrow> 'a run" where
  "debug_allocate env Alignment Base k =
     (if \<not> debug_gcd env then k
      else case Base of None \<Rightarrow> Some (Inl NullDeref) | Some _ \<Rightarrow> assert_if True (Alignment < 64) k)"

definition CoreAllocateMemorySpace ::
  "'w gcd_env \<Rightarrow> u32 \<Rightarrow> u32 \<Rightarrow> u64 \<Rightarrow> u64 \<Rightarrow> u64 option \<Rightarrow> u64 \<Rightarrow> u64 \<Rightarrow> 'w gcd_state \<Rightarrow>
     (efi_status \<times> u64 option \<times> 'w gcd_state) run" where
  "CoreAllocateMemorySpace env GcdAllocateType GcdMemoryType' Alignment l Base ImageHandle' DeviceHandle' s =
     debug_allocate env Alignment Base
       (CoreAllocateSpace env GCD_ALLOCATE_MEMORY_OPERATION GcdAllocateType GcdMemoryType' 0 Alignment l Base
         ImageHandle' DeviceHandle' s)"

definition add_descriptor :: "'w gcd_env \<Rightarrow> u64 \<Rightarrow> u64 \<Rightarrow> u64 \<Rightarrow> 'w gcd_state \<Rightarrow> 'w gcd_state" where
  "add_descriptor env b n Capabilities' s = s\<lparr>gworld := CoreAddMemoryDescriptor env b n Capabilities' (gworld s)\<rparr>"

text \<open>
  The loop that gives the pages to the page services one at a time.  \<open>PageLength\<close> is a multiple of the page size,
  so the loop runs once for each of its pages.
\<close>

primrec add_pages ::
  "'w gcd_env \<Rightarrow> u32 \<Rightarrow> u64 \<Rightarrow> nat \<Rightarrow> u64 \<Rightarrow> efi_status \<Rightarrow> 'w gcd_state \<Rightarrow> (efi_status \<times> 'w gcd_state) run" where
  "add_pages env GcdMemoryType' Capabilities' 0 PageBaseAddress Status s = ret (Status, s)"
| "add_pages env GcdMemoryType' Capabilities' (Suc n) PageBaseAddress Status s =
     bind_run
       (CoreAllocateMemorySpace env EfiGcdAllocateAddress GcdMemoryType' (word_of_nat EFI_PAGE_SHIFT) EFI_PAGE_SIZE
         (Some PageBaseAddress) (gDxeCoreImageHandle env) NULL s)
       (\<lambda>(Status1, _, s1).
         add_pages env GcdMemoryType' Capabilities' n (PageBaseAddress + EFI_PAGE_SIZE) Status1
           (if \<not> EFI_ERROR Status1 then add_descriptor env PageBaseAddress 1 Capabilities' s1 else s1))"

definition CoreAddMemorySpace ::
  "'w gcd_env \<Rightarrow> u32 \<Rightarrow> u64 \<Rightarrow> u64 \<Rightarrow> u64 \<Rightarrow> 'w gcd_state \<Rightarrow> (efi_status \<times> 'w gcd_state) run" where
  "CoreAddMemorySpace env GcdMemoryType' b l Capabilities' s =
     bind_run (CoreInternalAddMemorySpace env GcdMemoryType' b l Capabilities' s) (\<lambda>(Status, s1).
       if EFI_ERROR Status \<or>
          \<not> (GcdMemoryType' = EfiGcdMemoryTypeSystemMemory \<or> GcdMemoryType' = EfiGcdMemoryTypeMoreReliable)
       then ret (Status, s1)
       else
         let PageBaseAddress = PageAlignAddress b; PageLength = PageAlignLength (b + l - PageBaseAddress) in
         bind_run
           (CoreAllocateMemorySpace env EfiGcdAllocateAddress GcdMemoryType' (word_of_nat EFI_PAGE_SHIFT) PageLength
             (Some PageBaseAddress) (gDxeCoreImageHandle env) NULL s1)
           (\<lambda>(Status1, _, s2).
             if \<not> EFI_ERROR Status1
             then ret (Status1, add_descriptor env PageBaseAddress (drop_bit EFI_PAGE_SHIFT PageLength) Capabilities' s2)
             else add_pages env GcdMemoryType' Capabilities' (unat (drop_bit EFI_PAGE_SHIFT PageLength)) PageBaseAddress
               Status1 s2))"

definition CoreFreeMemorySpace :: "'w gcd_env \<Rightarrow> u64 \<Rightarrow> u64 \<Rightarrow> 'w gcd_state \<Rightarrow> (efi_status \<times> 'w gcd_state) run" where
  "CoreFreeMemorySpace env b l s = CoreConvertSpace env GCD_FREE_MEMORY_OPERATION 0 0 b l 0 0 s"

definition CoreRemoveMemorySpace :: "'w gcd_env \<Rightarrow> u64 \<Rightarrow> u64 \<Rightarrow> 'w gcd_state \<Rightarrow> (efi_status \<times> 'w gcd_state) run" where
  "CoreRemoveMemorySpace env b l s = CoreConvertSpace env GCD_REMOVE_MEMORY_OPERATION 0 0 b l 0 0 s"

record EFI_GCD_MEMORY_SPACE_DESCRIPTOR =
  md_BaseAddress :: u64
  md_Length :: u64
  md_Capabilities :: u64
  md_Attributes :: u64
  md_GcdMemoryType :: u32
  md_ImageHandle :: u64
  md_DeviceHandle :: u64

definition BuildMemoryDescriptor :: "EFI_GCD_MAP_ENTRY \<Rightarrow> EFI_GCD_MEMORY_SPACE_DESCRIPTOR" where
  "BuildMemoryDescriptor Entry =
     \<lparr>md_BaseAddress = BaseAddress Entry, md_Length = EndAddress Entry - BaseAddress Entry + 1,
      md_Capabilities = Capabilities Entry, md_Attributes = Attributes Entry, md_GcdMemoryType = GcdMemoryType Entry,
      md_ImageHandle = ImageHandle Entry, md_DeviceHandle = DeviceHandle Entry\<rparr>"

text \<open>The descriptor written to a non-NULL \<open>Descriptor\<close>, or the error.\<close>

definition CoreGetMemorySpaceDescriptor ::
  "u64 \<Rightarrow> bool \<Rightarrow> 'w gcd_state \<Rightarrow> (efi_status + EFI_GCD_MEMORY_SPACE_DESCRIPTOR) run" where
  "CoreGetMemorySpaceDescriptor b DescriptorIsNull s =
     (if DescriptorIsNull then ret (Inl EFI_INVALID_PARAMETER)
      else bind_run (CoreSearchGcdMapEntry b 1 (mGcdMemorySpaceMap s)) (\<lambda>found.
        case found of
          None \<Rightarrow> ret (Inl EFI_NOT_FOUND)
        | Some (StartLink, EndLink) \<Rightarrow> ret (Inr (BuildMemoryDescriptor (mGcdMemorySpaceMap s ! StartLink)))))"

definition CoreSetMemorySpaceAttributes ::
  "'w gcd_env \<Rightarrow> u64 \<Rightarrow> u64 \<Rightarrow> u64 \<Rightarrow> 'w gcd_state \<Rightarrow> (efi_status \<times> 'w gcd_state) run" where
  "CoreSetMemorySpaceAttributes env b l Attributes' s =
     CoreConvertSpace env GCD_SET_ATTRIBUTES_MEMORY_OPERATION 0 0 b l 0 Attributes' s"

definition CoreSetMemorySpaceCapabilities ::
  "'w gcd_env \<Rightarrow> u64 \<Rightarrow> u64 \<Rightarrow> u64 \<Rightarrow> 'w gcd_state \<Rightarrow> (efi_status \<times> 'w gcd_state) run" where
  "CoreSetMemorySpaceCapabilities env b l Capabilities' s =
     bind_run (CoreConvertSpace env GCD_SET_CAPABILITIES_MEMORY_OPERATION 0 0 b l Capabilities' 0 s) (\<lambda>(Status, s1).
       ret (Status,
         if \<not> EFI_ERROR Status
         then s1\<lparr>gworld := CoreUpdateMemoryAttributes env b (drop_bit EFI_PAGE_SHIFT l) Capabilities' (gworld s1)\<rparr>
         else s1))"

text \<open>
  The loop that writes the descriptors.  The number of descriptors is written even when there is no
  pool for them.
\<close>

fun build_descriptors :: "(EFI_GCD_MAP_ENTRY \<Rightarrow> 'd) \<Rightarrow> gcd_map \<Rightarrow> 'd list" where
  "build_descriptors build [] = []"
| "build_descriptors build (Entry # es) = build Entry # build_descriptors build es"

definition CoreGetMemorySpaceMap ::
  "'w gcd_env \<Rightarrow> bool \<Rightarrow> bool \<Rightarrow> 'w gcd_state \<Rightarrow>
     efi_status \<times> nat option \<times> EFI_GCD_MEMORY_SPACE_DESCRIPTOR list option \<times> 'w gcd_state" where
  "CoreGetMemorySpaceMap env NumberIsNull MapIsNull s =
     (if NumberIsNull then (EFI_INVALID_PARAMETER, None, None, s)
      else if MapIsNull then (EFI_INVALID_PARAMETER, None, None, s)
      else
        let n = CoreCountGcdMapEntry (mGcdMemorySpaceMap s); (ok, w1) = AllocatePool env (gworld s) in
        if \<not> ok then (EFI_OUT_OF_RESOURCES, Some n, None, s\<lparr>gworld := w1\<rparr>)
        else (EFI_SUCCESS, Some n, Some (build_descriptors BuildMemoryDescriptor (mGcdMemorySpaceMap s)), s\<lparr>gworld := w1\<rparr>))"

section \<open>The services of the I/O space\<close>

definition CoreAddIoSpace ::
  "'w gcd_env \<Rightarrow> u32 \<Rightarrow> u64 \<Rightarrow> u64 \<Rightarrow> 'w gcd_state \<Rightarrow> (efi_status \<times> 'w gcd_state) run" where
  "CoreAddIoSpace env GcdIoType' b l s =
     (if GcdIoType' \<le> EfiGcdIoTypeNonExistent \<or> GcdIoType' \<ge> EfiGcdIoTypeMaximum then ret (EFI_INVALID_PARAMETER, s)
      else CoreConvertSpace env GCD_ADD_IO_OPERATION 0 GcdIoType' b l 0 0 s)"

definition CoreAllocateIoSpace ::
  "'w gcd_env \<Rightarrow> u32 \<Rightarrow> u32 \<Rightarrow> u64 \<Rightarrow> u64 \<Rightarrow> u64 option \<Rightarrow> u64 \<Rightarrow> u64 \<Rightarrow> 'w gcd_state \<Rightarrow>
     (efi_status \<times> u64 option \<times> 'w gcd_state) run" where
  "CoreAllocateIoSpace env GcdAllocateType GcdIoType' Alignment l Base ImageHandle' DeviceHandle' s =
     debug_allocate env Alignment Base
       (CoreAllocateSpace env GCD_ALLOCATE_IO_OPERATION GcdAllocateType 0 GcdIoType' Alignment l Base
         ImageHandle' DeviceHandle' s)"

definition CoreFreeIoSpace :: "'w gcd_env \<Rightarrow> u64 \<Rightarrow> u64 \<Rightarrow> 'w gcd_state \<Rightarrow> (efi_status \<times> 'w gcd_state) run" where
  "CoreFreeIoSpace env b l s = CoreConvertSpace env GCD_FREE_IO_OPERATION 0 0 b l 0 0 s"

definition CoreRemoveIoSpace :: "'w gcd_env \<Rightarrow> u64 \<Rightarrow> u64 \<Rightarrow> 'w gcd_state \<Rightarrow> (efi_status \<times> 'w gcd_state) run" where
  "CoreRemoveIoSpace env b l s = CoreConvertSpace env GCD_REMOVE_IO_OPERATION 0 0 b l 0 0 s"

record EFI_GCD_IO_SPACE_DESCRIPTOR =
  iod_BaseAddress :: u64
  iod_Length :: u64
  iod_GcdIoType :: u32
  iod_ImageHandle :: u64
  iod_DeviceHandle :: u64

definition BuildIoDescriptor :: "EFI_GCD_MAP_ENTRY \<Rightarrow> EFI_GCD_IO_SPACE_DESCRIPTOR" where
  "BuildIoDescriptor Entry =
     \<lparr>iod_BaseAddress = BaseAddress Entry, iod_Length = EndAddress Entry - BaseAddress Entry + 1,
      iod_GcdIoType = GcdIoType Entry, iod_ImageHandle = ImageHandle Entry, iod_DeviceHandle = DeviceHandle Entry\<rparr>"

definition CoreGetIoSpaceDescriptor ::
  "u64 \<Rightarrow> bool \<Rightarrow> 'w gcd_state \<Rightarrow> (efi_status + EFI_GCD_IO_SPACE_DESCRIPTOR) run" where
  "CoreGetIoSpaceDescriptor b DescriptorIsNull s =
     (if DescriptorIsNull then ret (Inl EFI_INVALID_PARAMETER)
      else bind_run (CoreSearchGcdMapEntry b 1 (mGcdIoSpaceMap s)) (\<lambda>found.
        case found of
          None \<Rightarrow> ret (Inl EFI_NOT_FOUND)
        | Some (StartLink, EndLink) \<Rightarrow> ret (Inr (BuildIoDescriptor (mGcdIoSpaceMap s ! StartLink)))))"

definition CoreGetIoSpaceMap ::
  "'w gcd_env \<Rightarrow> bool \<Rightarrow> bool \<Rightarrow> 'w gcd_state \<Rightarrow>
     efi_status \<times> nat option \<times> EFI_GCD_IO_SPACE_DESCRIPTOR list option \<times> 'w gcd_state" where
  "CoreGetIoSpaceMap env NumberIsNull MapIsNull s =
     (if NumberIsNull then (EFI_INVALID_PARAMETER, None, None, s)
      else if MapIsNull then (EFI_INVALID_PARAMETER, None, None, s)
      else
        let n = CoreCountGcdMapEntry (mGcdIoSpaceMap s); (ok, w1) = AllocatePool env (gworld s) in
        if \<not> ok then (EFI_OUT_OF_RESOURCES, Some n, None, s\<lparr>gworld := w1\<rparr>)
        else (EFI_SUCCESS, Some n, Some (build_descriptors BuildIoDescriptor (mGcdIoSpaceMap s)), s\<lparr>gworld := w1\<rparr>))"

section \<open>The maps at start\<close>

text \<open>
  What \<open>CoreInitializeGcdServices\<close> puts into the two maps before it walks the HOB list: one entry, made from the
  template, for each space.  The arguments are the address lines that the CPU HOB gives; they
  are less than 64 by the ASSERT of \<open>LShiftU64\<close>.
\<close>

definition mGcdMemorySpaceMapEntryTemplate :: EFI_GCD_MAP_ENTRY where
  "mGcdMemorySpaceMapEntryTemplate =
     \<lparr>BaseAddress = 0, EndAddress = 0, Capabilities = 0, Attributes = 0, GcdMemoryType = EfiGcdMemoryTypeNonExistent,
      GcdIoType = 0, ImageHandle = NULL, DeviceHandle = NULL\<rparr>"

definition mGcdIoSpaceMapEntryTemplate :: EFI_GCD_MAP_ENTRY where
  "mGcdIoSpaceMapEntryTemplate =
     \<lparr>BaseAddress = 0, EndAddress = 0, Capabilities = 0, Attributes = 0, GcdMemoryType = 0,
      GcdIoType = EfiGcdIoTypeNonExistent, ImageHandle = NULL, DeviceHandle = NULL\<rparr>"

definition initial_maps :: "nat \<Rightarrow> nat \<Rightarrow> 'w \<Rightarrow> 'w gcd_state" where
  "initial_maps SizeOfMemorySpace SizeOfIoSpace w =
     \<lparr>mGcdMemorySpaceMap = [mGcdMemorySpaceMapEntryTemplate\<lparr>EndAddress := push_bit SizeOfMemorySpace 1 - 1\<rparr>],
      mGcdIoSpaceMap = [mGcdIoSpaceMapEntryTemplate\<lparr>EndAddress := push_bit SizeOfIoSpace 1 - 1\<rparr>],
      gworld = w\<rparr>"

end
