(* ===== verification/GcdSpace.thy ===== *)
theory GcdSpace
  imports Gcd
begin

text \<open>
  What the GCD maps stand for: a partial function from addresses to the attributes of the entry that covers
  them.  The entries of a good map tile the space without a gap or an overlap, and neighbours differ.  The conversion of
  a range of entries is an update of that function on the range.
\<close>

section \<open>The space a map stands for\<close>

definition ebase :: "EFI_GCD_MAP_ENTRY \<Rightarrow> nat" where
  "ebase e = unat (BaseAddress e)"

definition elimit :: "EFI_GCD_MAP_ENTRY \<Rightarrow> nat" where
  "elimit e = Suc (unat (EndAddress e))"

text \<open>All of an entry but its range.\<close>

definition attrs_of :: "EFI_GCD_MAP_ENTRY \<Rightarrow> EFI_GCD_MAP_ENTRY" where
  "attrs_of e = e\<lparr>BaseAddress := 0, EndAddress := 0\<rparr>"

text \<open>The entries cover the addresses from \<open>lo\<close> up to \<open>hi\<close>, in order.\<close>

fun tiles :: "nat \<Rightarrow> gcd_map \<Rightarrow> nat \<Rightarrow> bool" where
  "tiles lo [] hi \<longleftrightarrow> lo = hi"
| "tiles lo (e # es) hi \<longleftrightarrow> ebase e = lo \<and> lo < elimit e \<and> tiles (elimit e) es hi"

fun kind_at :: "gcd_map \<Rightarrow> nat \<Rightarrow> EFI_GCD_MAP_ENTRY option" where
  "kind_at [] a = None"
| "kind_at (e # es) a = (if ebase e \<le> a \<and> a < elimit e then Some (attrs_of e) else kind_at es a)"

definition space_ok :: "nat \<Rightarrow> gcd_map \<Rightarrow> bool" where
  "space_ok hi m \<longleftrightarrow> tiles 0 m hi \<and> distinct_adj (map attrs_of m)"

lemma entry_range_simps [simp]:
  "ebase (e\<lparr>BaseAddress := b\<rparr>) = unat b" "elimit (e\<lparr>BaseAddress := b\<rparr>) = elimit e"
  "ebase (e\<lparr>EndAddress := b\<rparr>) = ebase e" "elimit (e\<lparr>EndAddress := b\<rparr>) = Suc (unat b)"
  "attrs_of (e\<lparr>BaseAddress := b\<rparr>) = attrs_of e" "attrs_of (e\<lparr>EndAddress := b\<rparr>) = attrs_of e"
  "attrs_of (attrs_of e) = attrs_of e"
  by (simp_all add: ebase_def elimit_def attrs_of_def)

lemma attrs_of_fields [simp]:
  "Capabilities (attrs_of e) = Capabilities e" "Attributes (attrs_of e) = Attributes e"
  "GcdMemoryType (attrs_of e) = GcdMemoryType e" "GcdIoType (attrs_of e) = GcdIoType e"
  "ImageHandle (attrs_of e) = ImageHandle e" "DeviceHandle (attrs_of e) = DeviceHandle e"
  by (simp_all add: attrs_of_def)

lemma same_kind_attrs: "same_kind e f \<longleftrightarrow> attrs_of e = attrs_of f"
  by (cases e; cases f) (auto simp: same_kind_def attrs_of_def)

lemma entry_eqI: "attrs_of e = attrs_of f \<Longrightarrow> ebase e = ebase f \<Longrightarrow> elimit e = elimit f \<Longrightarrow> e = f"
  by (cases e; cases f) (simp add: attrs_of_def ebase_def elimit_def word_unat_eq_iff)

lemma elimit_le: "elimit e \<le> 2 ^ 64"
  using unsigned_less [of "EndAddress e"] by (auto simp: elimit_def Suc_le_eq)

lemma tiles_le: "tiles lo es hi \<Longrightarrow> lo \<le> hi"
  by (induction es arbitrary: lo) (auto dest: less_imp_le intro: order_trans)

lemma tiles_append: "tiles lo (xs @ ys) hi \<longleftrightarrow> (\<exists>mi. tiles lo xs mi \<and> tiles mi ys hi)"
  by (induction xs arbitrary: lo) auto

lemma tiles_appendI: "tiles lo xs mi \<Longrightarrow> tiles mi ys hi \<Longrightarrow> tiles lo (xs @ ys) hi"
  using tiles_append by blast

lemma tiles_appendE:
  assumes "tiles lo (xs @ ys) hi"
  obtains mi where "tiles lo xs mi" "tiles mi ys hi" "lo \<le> mi" "mi \<le> hi"
  using assms tiles_le unfolding tiles_append by blast

lemma kind_at_outside: "tiles lo es hi \<Longrightarrow> a < lo \<or> hi \<le> a \<Longrightarrow> kind_at es a = None"
proof (induction es arbitrary: lo)
  case (Cons e es)
  with tiles_le [of "elimit e" es hi] show ?case by (auto 0 4)
qed simp

lemma kind_at_inside: "tiles lo es hi \<Longrightarrow> lo \<le> a \<Longrightarrow> a < hi \<Longrightarrow> \<exists>k. kind_at es a = Some k"
  by (induction es arbitrary: lo) auto

lemma kind_at_None_iff: "tiles lo es hi \<Longrightarrow> kind_at es a = None \<longleftrightarrow> a < lo \<or> hi \<le> a"
  using kind_at_inside [of lo es hi a] kind_at_outside [of lo es hi a] by fastforce

lemma kind_at_append: "kind_at (xs @ ys) a = (case kind_at xs a of None \<Rightarrow> kind_at ys a | Some k \<Rightarrow> Some k)"
  by (induction xs) auto

text \<open>The parts of a map, by address.\<close>

lemma kind_at_append_tiles:
  "tiles lo xs mi \<Longrightarrow> tiles mi ys hi \<Longrightarrow> kind_at (xs @ ys) a = (if a < mi then kind_at xs a else kind_at ys a)"
  by (auto simp: kind_at_append kind_at_outside split: option.split)

lemma kind_at_member: "kind_at es a = Some k \<Longrightarrow> \<exists>e \<in> set es. k = attrs_of e \<and> ebase e \<le> a \<and> a < elimit e"
  by (induction es) (auto split: if_splits)

lemma kind_at_attrs: "kind_at es a = Some k \<Longrightarrow> attrs_of k = k"
  by (auto dest: kind_at_member)

lemma member_range: "tiles lo es hi \<Longrightarrow> e \<in> set es \<Longrightarrow> lo \<le> ebase e \<and> ebase e < elimit e \<and> elimit e \<le> hi"
proof (induction es arbitrary: lo)
  case (Cons f es)
  then show ?case using tiles_le [of "elimit f" es hi] by (force dest: tiles_le)
qed simp

lemma kind_at_entry: "tiles lo es hi \<Longrightarrow> e \<in> set es \<Longrightarrow> ebase e \<le> a \<Longrightarrow> a < elimit e \<Longrightarrow> kind_at es a = Some (attrs_of e)"
proof (induction es arbitrary: lo)
  case (Cons f es)
  then show ?case using member_range [of "elimit f" es hi e] by auto
qed simp

text \<open>Two good maps of a space that stand for the same function are the same map.\<close>

lemma tiles_unique:
  assumes "tiles lo xs hi" "tiles lo ys hi"
    and "distinct_adj (map attrs_of xs)" "distinct_adj (map attrs_of ys)"
    and "\<And>a. lo \<le> a \<Longrightarrow> a < hi \<Longrightarrow> kind_at xs a = kind_at ys a"
  shows "xs = ys"
  using assms
proof (induction xs arbitrary: lo ys)
  case Nil
  then show ?case by (cases ys) (auto dest: tiles_le)
next
  case (Cons x xs)
  then obtain y ys' where ys: "ys = y # ys'" by (cases ys) (auto dest: tiles_le)
  have tx: "ebase x = lo" "lo < elimit x" "tiles (elimit x) xs hi"
    and ty: "ebase y = lo" "lo < elimit y" "tiles (elimit y) ys' hi"
    using Cons.prems ys by auto
  have le: "elimit x \<le> hi" "elimit y \<le> hi" using tx ty tiles_le by auto
  have attrs: "attrs_of x = attrs_of y"
    using Cons.prems(5) [of lo] tx ty ys le by simp
  have "elimit x = elimit y"
  proof (rule linorder_cases)
    assume less: "elimit x < elimit y"
    then obtain z zs where xs: "xs = z # zs" using le tx by (cases xs) auto
    have "kind_at (x # xs) (elimit x) = kind_at ys (elimit x)" using less le tx by (intro Cons.prems(5)) auto
    then have "attrs_of z = attrs_of y" using less tx ty xs ys by (simp split: if_splits)
    then show ?thesis using attrs xs Cons.prems(3) by simp
  next
    assume less: "elimit y < elimit x"
    then obtain z zs where ys': "ys' = z # zs" using le ty by (cases ys') auto
    have "kind_at (x # xs) (elimit y) = kind_at ys (elimit y)" using less le ty by (intro Cons.prems(5)) auto
    then have "attrs_of z = attrs_of x" using less tx ty ys ys' by (simp split: if_splits)
    then show ?thesis using attrs ys ys' Cons.prems(4) by simp
  qed
  then have "x = y" using attrs tx ty by (simp add: entry_eqI)
  moreover have "xs = ys'"
  proof (rule Cons.IH [of "elimit x"])
    show "tiles (elimit x) xs hi" "tiles (elimit x) ys' hi" using tx ty \<open>x = y\<close> by auto
    show "distinct_adj (map attrs_of xs)" "distinct_adj (map attrs_of ys')"
      using Cons.prems ys by (auto simp: distinct_adj_Cons)
    fix a assume "elimit x \<le> a" "a < hi"
    then show "kind_at xs a = kind_at ys' a"
      using Cons.prems(5) [of a] tx ty ys \<open>x = y\<close> by simp
  qed
  ultimately show ?case using ys by simp
qed

lemma space_unique: "space_ok hi m \<Longrightarrow> space_ok hi m' \<Longrightarrow> kind_at m = kind_at m' \<Longrightarrow> m = m'"
  unfolding space_ok_def by (rule tiles_unique [of 0]) auto

section \<open>The conversion of a range\<close>

text \<open>A range of a 64-bit space: not empty, and its last byte is an address.\<close>

definition range_ok :: "u64 \<Rightarrow> u64 \<Rightarrow> bool" where
  "range_ok b l \<longleftrightarrow> l \<noteq> 0 \<and> unat b + unat l \<le> 2 ^ 64"

lemma range_pos: "range_ok b l \<Longrightarrow> 0 < unat l"
  by (simp add: range_ok_def unat_gt_0)

lemma range_last: "range_ok b l \<Longrightarrow> Suc (unat (b + l - 1)) = unat b + unat l"
proof -
  assume ok: "range_ok b l"
  then have "l \<noteq> 0" "0 < unat l" by (auto simp: range_ok_def unat_gt_0)
  then have l1: "unat (l - 1) = unat l - 1" by (intro unat_minus_one)
  then have "unat b + unat (l - 1) < 2 ^ 64" using ok \<open>0 < unat l\<close> by (simp add: range_ok_def) arith
  then have "unat (b + (l - 1)) = unat b + unat (l - 1)" using unat_add_lem [of b "l - 1"] by simp
  then show ?thesis using l1 \<open>0 < unat l\<close> by (simp add: algebra_simps)
qed

lemma range_next: "unat b + unat l < 2 ^ 64 \<Longrightarrow> unat (b + l) = unat b + unat l" for b l :: u64
  using unat_add_lem [of b l] by simp

lemma range_prev: "b \<noteq> 0 \<Longrightarrow> Suc (unat (b - 1)) = unat b" for b :: u64
  by (simp add: unat_minus_one unat_gt_0)

text \<open>How the code's comparisons of words read as comparisons of the ranges.\<close>

lemma base_less: "b > BaseAddress e \<longleftrightarrow> ebase e < unat b"
  and base_le: "BaseAddress e \<le> b \<longleftrightarrow> ebase e \<le> unat b"
  and end_le: "b \<le> EndAddress e \<longleftrightarrow> unat b < elimit e"
  and end_less: "b < EndAddress e \<longleftrightarrow> Suc (unat b) < elimit e"
  by (simp_all add: ebase_def elimit_def word_less_nat_alt word_le_nat_alt less_Suc_eq_le Suc_le_eq)

text \<open>What is written into an entry does not touch its range, and reads only the rest.\<close>

definition attr_write :: "(EFI_GCD_MAP_ENTRY \<Rightarrow> EFI_GCD_MAP_ENTRY) \<Rightarrow> bool" where
  "attr_write w \<longleftrightarrow>
     (\<forall>e. ebase (w e) = ebase e \<and> elimit (w e) = elimit e \<and> attrs_of (w e) = w (attrs_of e))"

lemma attr_writeD [simp]:
  "attr_write w \<Longrightarrow> ebase (w e) = ebase e"
  "attr_write w \<Longrightarrow> elimit (w e) = elimit e"
  "attr_write w \<Longrightarrow> attrs_of (w e) = w (attrs_of e)"
  by (auto simp: attr_write_def)

text \<open>The two cuts of \<open>CoreInsertGcdMapEntry\<close>.\<close>

lemma insert_above:
  assumes "range_ok b l" "unat b \<le> ebase e"
  shows "CoreInsertGcdMapEntry b l False bu e = (
    if unat b + unat l < elimit e then ret ([], e\<lparr>EndAddress := b + l - 1\<rparr>, [e\<lparr>BaseAddress := b + l\<rparr>], True, bu)
    else ret ([], e, [], False, bu))"
  using assms range_last [of b l]
  by (simp add: CoreInsertGcdMapEntry_def base_less end_less range_ok_def)

lemma insert_below:
  assumes "range_ok b l" "ebase e < unat b" 
  shows "CoreInsertGcdMapEntry b l False False e = (
    if unat b + unat l < elimit e
    then ret ([e\<lparr>EndAddress := b - 1\<rparr>], e\<lparr>BaseAddress := b, EndAddress := b + l - 1\<rparr>, [e\<lparr>BaseAddress := b + l\<rparr>], True, True)
    else ret ([e\<lparr>EndAddress := b - 1\<rparr>], e\<lparr>BaseAddress := b\<rparr>, [], False, True))"
  using assms range_last [of b l]
  by (simp add: CoreInsertGcdMapEntry_def base_less end_less range_ok_def)

text \<open>The loop over links that start in the range.\<close>

lemma convert_loop_above:
  assumes "range_ok b l" "attr_write w"
    and "tiles lo mid hi" "mid \<noteq> []" "unat b \<le> lo" "ebase (last mid) < unat b + unat l" "unat b + unat l \<le> hi"
  shows "\<exists>mid' tops. convert_loop w b l False bu mid = ret ([], mid', tops) \<and>
    tiles lo mid' (unat b + unat l) \<and> tiles (unat b + unat l) tops hi \<and> mid' \<noteq> [] \<and>
    (\<forall>a. kind_at mid' a = (if a < unat b + unat l then map_option w (kind_at mid a) else None)) \<and>
    (\<forall>a. kind_at tops a = (if a < unat b + unat l then None else kind_at mid a)) \<and>
    (tops = [] \<or> (\<exists>t. tops = [t] \<and> attrs_of t = attrs_of (last mid)))"
  using assms(3-7)
proof (induction mid arbitrary: lo)
  case (Cons e es)
  let ?E = "unat b + unat l"
  have t: "ebase e = lo" "lo < elimit e" "tiles (elimit e) es hi" using Cons.prems by auto
  have ins: "CoreInsertGcdMapEntry b l False bu e = (
    if ?E < elimit e then ret ([], e\<lparr>EndAddress := b + l - 1\<rparr>, [e\<lparr>BaseAddress := b + l\<rparr>], True, bu)
    else ret ([], e, [], False, bu))"
    using assms(1) t(1) Cons.prems(3) by (simp add: insert_above)
  show ?case
  proof (cases "es = []")
    case True
    then have hi: "elimit e = hi" "lo < ?E" using t Cons.prems by auto
    show ?thesis
    proof (cases "?E < elimit e")
      case cut: True
      then have E: "unat (b + l) = ?E" using elimit_le [of e] by (intro range_next) simp
      let ?m = "[w (e\<lparr>EndAddress := b + l - 1\<rparr>)]" and ?t = "[e\<lparr>BaseAddress := b + l\<rparr>]"
      have "convert_loop w b l False bu (e # es) = ret ([], ?m, ?t)"
        using ins True cut by simp
      moreover have "tiles lo ?m ?E" "tiles ?E ?t hi"
        using t hi cut E assms(1,2) range_last [of b l] by simp_all
      moreover have "kind_at ?m a = (if a < ?E then map_option w (kind_at (e # es) a) else None)" for a
        using t hi cut E assms(1,2) range_last [of b l] True by auto
      moreover have "kind_at ?t a = (if a < ?E then None else kind_at (e # es) a)" for a
        using t hi cut E True by auto
      ultimately show ?thesis using True by (intro exI [of _ ?m] exI [of _ ?t]) simp
    next
      case False
      then have "elimit e = ?E" using hi Cons.prems by simp
      then show ?thesis using ins True t hi assms(2) False
        by (intro exI [of _ "[w e]"] exI [of _ "[]"]) auto
    qed
  next
    case False
    then have last: "last (e # es) = last es" by simp
    have "elimit e \<le> ebase (last es)" using member_range [OF t(3)] False by simp
    then have le: "elimit e < ?E" using Cons.prems last by simp
    obtain mid' tops where rec: "convert_loop w b l False bu es = ret ([], mid', tops)"
      "tiles (elimit e) mid' ?E" "tiles ?E tops hi" "mid' \<noteq> []"
      "\<And>a. kind_at mid' a = (if a < ?E then map_option w (kind_at es a) else None)"
      "\<And>a. kind_at tops a = (if a < ?E then None else kind_at es a)"
      "tops = [] \<or> (\<exists>t. tops = [t] \<and> attrs_of t = attrs_of (last es))"
      using Cons.IH [of "elimit e"] t False Cons.prems last by auto
    have "convert_loop w b l False bu (e # es) = ret ([], w e # mid', tops)"
      using ins le False rec(1) by simp
    moreover have "tiles lo (w e # mid') ?E" using t rec(2) assms(2) by simp
    moreover have "kind_at (w e # mid') a = (if a < ?E then map_option w (kind_at (e # es) a) else None)" for a
      using t le rec(5) assms(2) by auto
    moreover have "kind_at tops a = (if a < ?E then None else kind_at (e # es) a)" for a
      using t le rec(6) by auto
    ultimately show ?thesis using rec(3,7) last by (intro exI [of _ "w e # mid'"] exI [of _ tops]) simp
  qed
qed simp

text \<open>What cutting the links of a range leaves: links below it, the changed links, links above it.\<close>

definition cuts_range ::
  "(EFI_GCD_MAP_ENTRY \<Rightarrow> EFI_GCD_MAP_ENTRY) \<Rightarrow> nat \<Rightarrow> nat \<Rightarrow> nat \<Rightarrow> nat \<Rightarrow> EFI_GCD_MAP_ENTRY list \<Rightarrow>
    EFI_GCD_MAP_ENTRY list \<times> EFI_GCD_MAP_ENTRY list \<times> EFI_GCD_MAP_ENTRY list \<Rightarrow> bool" where
  "cuts_range w B E lo hi mid = (\<lambda>(bots, mid', tops).
    tiles lo bots B \<and> tiles B mid' E \<and> tiles E tops hi \<and> mid' \<noteq> [] \<and>
    (\<forall>a. kind_at bots a = (if a < B then kind_at mid a else None)) \<and>
    (\<forall>a. kind_at mid' a = (if B \<le> a \<and> a < E then map_option w (kind_at mid a) else None)) \<and>
    (\<forall>a. kind_at tops a = (if a < E then None else kind_at mid a)) \<and>
    (bots = [] \<or> (\<exists>t. bots = [t] \<and> attrs_of t = attrs_of (hd mid))) \<and>
    (tops = [] \<or> (\<exists>t. tops = [t] \<and> attrs_of t = attrs_of (last mid))))"

text \<open>The range starts inside the first link.\<close>

lemma low_cut:
  assumes "range_ok b l" "tiles lo (e # es) hi" "lo < unat b" "unat b < elimit e"
  shows "CoreInsertGcdMapEntry b l False False e = (
      if unat b + unat l < elimit e
      then ret ([e\<lparr>EndAddress := b - 1\<rparr>], e\<lparr>BaseAddress := b, EndAddress := b + l - 1\<rparr>, [e\<lparr>BaseAddress := b + l\<rparr>], True, True)
      else ret ([e\<lparr>EndAddress := b - 1\<rparr>], e\<lparr>BaseAddress := b\<rparr>, [], False, True))"
    and "tiles lo [e\<lparr>EndAddress := b - 1\<rparr>] (unat b)"
    and "kind_at [e\<lparr>EndAddress := b - 1\<rparr>] a = (if a < unat b then kind_at (e # es) a else None)"
proof -
  have t: "ebase e = lo" "tiles (elimit e) es hi" using assms(2) by auto
  have "b \<noteq> 0" using assms(3) by (auto simp: unat_gt_0)
  then have prev: "Suc (unat (b - 1)) = unat b" by (rule range_prev)
  show "CoreInsertGcdMapEntry b l False False e = (
      if unat b + unat l < elimit e
      then ret ([e\<lparr>EndAddress := b - 1\<rparr>], e\<lparr>BaseAddress := b, EndAddress := b + l - 1\<rparr>, [e\<lparr>BaseAddress := b + l\<rparr>], True, True)
      else ret ([e\<lparr>EndAddress := b - 1\<rparr>], e\<lparr>BaseAddress := b\<rparr>, [], False, True))"
    using assms t by (simp add: insert_below)
  show "tiles lo [e\<lparr>EndAddress := b - 1\<rparr>] (unat b)" using t assms(3) prev by auto
  show "kind_at [e\<lparr>EndAddress := b - 1\<rparr>] a = (if a < unat b then kind_at (e # es) a else None)"
    using t assms(4) prev kind_at_outside [OF t(2), of a] by auto
qed

lemma cut_inside_link:
  assumes "range_ok b l" "attr_write w" "tiles lo [e] hi" "lo < unat b" "unat b < elimit e" "unat b + unat l < elimit e"
  shows "\<exists>r. convert_loop w b l False False [e] = ret r \<and> cuts_range w (unat b) (unat b + unat l) lo hi [e] r"
proof -
  let ?B = "unat b" and ?E = "unat b + unat l"
  let ?bot = "[e\<lparr>EndAddress := b - 1\<rparr>]" and ?m = "[w (e\<lparr>BaseAddress := b, EndAddress := b + l - 1\<rparr>)]" and ?t = "[e\<lparr>BaseAddress := b + l\<rparr>]"
  note low = low_cut [OF assms(1,3-5)]
  have t: "ebase e = lo" "elimit e = hi" using assms(3) by auto
  have pos: "?B < ?E" using range_pos [OF assms(1)] by simp
  have E: "unat (b + l) = ?E" using assms(6) elimit_le [of e] by (intro range_next) simp
  have "convert_loop w b l False False [e] = ret (?bot, ?m, ?t)" using low(1) assms(6) by simp
  moreover have "tiles ?B ?m ?E" "tiles ?E ?t hi"
    using t assms E pos range_last [of b l] by simp_all
  moreover have "kind_at ?m a = (if ?B \<le> a \<and> a < ?E then map_option w (kind_at [e] a) else None)" for a
    using t assms E range_last [of b l] by auto
  moreover have "kind_at ?t a = (if a < ?E then None else kind_at [e] a)" for a
    using t assms E by auto
  ultimately show ?thesis using low(2,3)
    by (intro exI [of _ "(?bot, ?m, ?t)"]) (simp add: cuts_range_def)
qed

lemma cut_to_link_end:
  assumes "range_ok b l" "attr_write w" "tiles lo [e] hi" "lo < unat b" "unat b < elimit e" "unat b + unat l = elimit e"
  shows "\<exists>r. convert_loop w b l False False [e] = ret r \<and> cuts_range w (unat b) (unat b + unat l) lo hi [e] r"
proof -
  let ?B = "unat b" and ?E = "unat b + unat l"
  let ?bot = "[e\<lparr>EndAddress := b - 1\<rparr>]" and ?m = "[w (e\<lparr>BaseAddress := b\<rparr>)]"
  note low = low_cut [OF assms(1,3-5)]
  have t: "ebase e = lo" "elimit e = hi" using assms(3) by auto
  have hi: "hi = ?E" "elimit e = ?E" using t assms(6) by simp_all
  have "convert_loop w b l False False [e] = ret (?bot, ?m, [])" using low(1) hi by simp
  moreover have "tiles ?B ?m ?E" "tiles ?E [] hi" using t hi assms(2,5) by simp_all
  moreover have "kind_at ?m a = (if ?B \<le> a \<and> a < ?E then map_option w (kind_at [e] a) else None)" for a
    using t(1) hi(2) assms(2,4,5) by auto
  moreover have "kind_at [] a = (if a < ?E then None else kind_at [e] a)" for a using t hi by auto
  ultimately show ?thesis using low(2,3)
    by (intro exI [of _ "(?bot, ?m, [])"]) (simp add: cuts_range_def)
qed

lemma cut_past_link:
  assumes "range_ok b l" "attr_write w" "tiles lo (e # es) hi" "lo < unat b" "unat b < elimit e" "es \<noteq> []"
    and "ebase (last es) < unat b + unat l" "unat b + unat l \<le> hi"
  shows "\<exists>r. convert_loop w b l False False (e # es) = ret r \<and> cuts_range w (unat b) (unat b + unat l) lo hi (e # es) r"
proof -
  let ?B = "unat b" and ?E = "unat b + unat l" and ?bot = "[e\<lparr>EndAddress := b - 1\<rparr>]"
  note low = low_cut [OF assms(1,3-5)]
  have t: "ebase e = lo" "tiles (elimit e) es hi" using assms(3) by auto
  have "elimit e \<le> ebase (last es)" using member_range [OF t(2)] assms(6) by simp
  then have le: "elimit e < ?E" using assms(7) by simp
  obtain mid' tops where rec: "convert_loop w b l False True es = ret ([], mid', tops)"
    "tiles (elimit e) mid' ?E" "tiles ?E tops hi" "mid' \<noteq> []"
    "\<And>a. kind_at mid' a = (if a < ?E then map_option w (kind_at es a) else None)"
    "\<And>a. kind_at tops a = (if a < ?E then None else kind_at es a)"
    "tops = [] \<or> (\<exists>t. tops = [t] \<and> attrs_of t = attrs_of (last es))"
    using convert_loop_above [OF assms(1,2) t(2) assms(6) _ assms(7,8), of True] assms(5) by auto
  let ?m = "w (e\<lparr>BaseAddress := b\<rparr>) # mid'"
  have "convert_loop w b l False False (e # es) = ret (?bot, ?m, tops)" using low(1) le assms(6) rec(1) by simp
  moreover have "tiles ?B ?m ?E" using t assms(2,5) rec(2) by simp
  moreover have "kind_at ?m a = (if ?B \<le> a \<and> a < ?E then map_option w (kind_at (e # es) a) else None)" for a
    using t le assms(2,4,5) rec(5) [of a] kind_at_outside [OF t(2), of a] by auto
  moreover have "kind_at tops a = (if a < ?E then None else kind_at (e # es) a)" for a
    using t le rec(6) by auto
  ultimately show ?thesis using low(2,3) rec(3,7) assms(6)
    by (intro exI [of _ "(?bot, ?m, tops)"]) (simp add: cuts_range_def)
qed

lemma convert_loop_range:
  assumes "range_ok b l" "attr_write w"
    and "tiles lo mid hi" "mid \<noteq> []" "unat b < elimit (hd mid)" "lo \<le> unat b"
    and "ebase (last mid) < unat b + unat l" "unat b + unat l \<le> hi"
  shows "\<exists>bots mid' tops. convert_loop w b l False False mid = ret (bots, mid', tops) \<and>
    tiles lo bots (unat b) \<and> tiles (unat b) mid' (unat b + unat l) \<and> tiles (unat b + unat l) tops hi \<and> mid' \<noteq> [] \<and>
    (\<forall>a. kind_at bots a = (if a < unat b then kind_at mid a else None)) \<and>
    (\<forall>a. kind_at mid' a =
      (if unat b \<le> a \<and> a < unat b + unat l then map_option w (kind_at mid a) else None)) \<and>
    (\<forall>a. kind_at tops a = (if a < unat b + unat l then None else kind_at mid a)) \<and>
    (bots = [] \<or> (\<exists>t. bots = [t] \<and> attrs_of t = attrs_of (hd mid))) \<and>
    (tops = [] \<or> (\<exists>t. tops = [t] \<and> attrs_of t = attrs_of (last mid)))"
proof (cases "lo = unat b")
  case True
  obtain mid' tops where rec: "convert_loop w b l False False mid = ret ([], mid', tops)"
      "tiles lo mid' (unat b + unat l)" "tiles (unat b + unat l) tops hi" "mid' \<noteq> []"
      "\<And>a. kind_at mid' a = (if a < unat b + unat l then map_option w (kind_at mid a) else None)"
      "\<And>a. kind_at tops a = (if a < unat b + unat l then None else kind_at mid a)"
      "tops = [] \<or> (\<exists>t. tops = [t] \<and> attrs_of t = attrs_of (last mid))"
    using convert_loop_above [OF assms(1-4) _ assms(7,8), of False] True by auto
  moreover have "kind_at mid a = None" if "a < lo" for a
    using kind_at_outside [OF assms(3)] that by simp
  ultimately show ?thesis using True by (intro exI [of _ "[]"] exI [of _ mid'] exI [of _ tops]) auto
next
  case False
  obtain e es where mid: "mid = e # es" using assms(4) by (cases mid) auto
  have low: "tiles lo (e # es) hi" "lo < unat b" "unat b < elimit e" using assms False mid by auto
  have "\<exists>r. convert_loop w b l False False mid = ret r \<and> cuts_range w (unat b) (unat b + unat l) lo hi mid r"
  proof (cases "es = []")
    case True
    have "unat b + unat l \<le> elimit e" using True low assms(8) by simp
    then consider "unat b + unat l < elimit e" | "unat b + unat l = elimit e" by linarith
    then show ?thesis unfolding mid True
      using cut_inside_link [OF assms(1,2) _ low(2,3)] cut_to_link_end [OF assms(1,2) _ low(2,3)] low(1) [unfolded True] by cases blast+
  next
    case es: False
    then show ?thesis using cut_past_link [OF assms(1,2) low es] assms(7,8) mid by simp
  qed
  then show ?thesis by (auto simp: cuts_range_def)
qed

subsection \<open>The clean-up\<close>

lemma merge_back:
  assumes "CoreMergeGcdMapEntry False (before, e, after) = (st, before', e', after')"
    and "tiles lo (before @ e # after) hi" "distinct_adj (map attrs_of before)"
  shows "after' = after" "tiles lo (before' @ e' # after) hi"
    "kind_at (before' @ e' # after) = kind_at (before @ e # after)" 
    "distinct_adj (map attrs_of (before' @ [e']))" "attrs_of e' = attrs_of e"
proof -
  consider "before = []" "before' = []" "e' = e" "after' = after"
    | xs f where "before = xs @ [f]" "attrs_of e \<noteq> attrs_of f" "before' = before" "e' = e" "after' = after"
    | xs f where "before = xs @ [f]" "attrs_of e = attrs_of f" "before' = xs" "e' = e\<lparr>BaseAddress := BaseAddress f\<rparr>"
        "after' = after"
    using assms(1) by (cases before rule: rev_cases) (auto simp: CoreMergeGcdMapEntry_def same_kind_attrs split: if_splits)
  then have "after' = after \<and> tiles lo (before' @ e' # after) hi \<and>
    kind_at (before' @ e' # after) = kind_at (before @ e # after) \<and>
    distinct_adj (map attrs_of (before' @ [e'])) \<and> attrs_of e' = attrs_of e"
  proof cases
    case 3
    have range: "ebase e' = ebase f" "elimit e' = elimit e" using 3 by (simp_all add: ebase_def elimit_def)
    obtain mi where t: "tiles lo xs mi" "ebase f = mi" "mi < elimit f" "ebase e = elimit f" "elimit f < elimit e"
      "tiles (elimit e) after hi"
      using assms(2) 3 by (auto simp: tiles_append)
    have "tiles lo (before' @ e' # after) hi" using t 3 range by (auto simp: tiles_append)
    moreover have "kind_at (before' @ e' # after) = kind_at (before @ e # after)"
      using t 3 range by (auto simp: kind_at_append fun_eq_iff split: option.split)
    moreover have "distinct_adj (map attrs_of (before' @ [e']))" using assms(3) 3 by simp
    ultimately show ?thesis using 3 by simp
  next
    case 2
    then show ?thesis using assms(2,3) by (auto simp: distinct_adj_append_iff)
  qed (use assms in auto)
  then show "after' = after" "tiles lo (before' @ e' # after) hi"
    "kind_at (before' @ e' # after) = kind_at (before @ e # after)" 
    "distinct_adj (map attrs_of (before' @ [e']))" "attrs_of e' = attrs_of e" by auto
qed

lemma merge_forward:
  assumes "CoreMergeGcdMapEntry True (before, e, after) = (st, before', e', after')"
    and "tiles lo (before @ e # after) hi"
    and "distinct_adj (map attrs_of (before @ [e]))" "distinct_adj (map attrs_of after)"
  shows "tiles lo (before' @ e' # after') hi" "kind_at (before' @ e' # after') = kind_at (before @ e # after)" 
    "distinct_adj (map attrs_of (before' @ e' # after'))"
proof -
  consider "after = []" "before' = before" "e' = e" "after' = after"
    | xs f where "after = f # xs" "attrs_of e \<noteq> attrs_of f" "before' = before" "e' = e" "after' = after"
    | xs f where "after = f # xs" "attrs_of e = attrs_of f" "before' = before" "e' = e\<lparr>EndAddress := EndAddress f\<rparr>"
        "after' = xs"
    using assms(1) by (cases after) (auto simp: CoreMergeGcdMapEntry_def same_kind_attrs split: if_splits)
  then have "tiles lo (before' @ e' # after') hi \<and> kind_at (before' @ e' # after') = kind_at (before @ e # after) \<and>
    distinct_adj (map attrs_of (before' @ e' # after'))"
  proof cases
    case 3
    have range: "ebase e' = ebase e" "elimit e' = elimit f" using 3 by (simp_all add: ebase_def elimit_def)
    obtain mi where t: "tiles lo before mi" "ebase e = mi" "mi < elimit e" "ebase f = elimit e" "elimit e < elimit f"
      "tiles (elimit f) xs hi"
      using assms(2) 3 by (auto simp: tiles_append)
    have "tiles lo (before' @ e' # after') hi" using t 3 range by (auto simp: tiles_append)
    moreover have "kind_at (before' @ e' # after') = kind_at (before @ e # after)"
      using t 3 range by (auto simp: kind_at_append fun_eq_iff split: option.split)
    moreover have "distinct_adj (map attrs_of (before' @ e' # after'))"
      using assms(3,4) 3 by (auto simp: distinct_adj_append_iff distinct_adj_Cons)
    ultimately show ?thesis by simp
  next
    case 2
    then show ?thesis using assms by (auto simp: distinct_adj_append_iff)
  qed (use assms in auto)
  then show "tiles lo (before' @ e' # after') hi" "kind_at (before' @ e' # after') = kind_at (before @ e # after)" 
    "distinct_adj (map attrs_of (before' @ e' # after'))" by auto
qed

lemma cleanup_ok:
  assumes "mid \<noteq> []" "tiles lo (before @ mid @ after) hi"
    and "distinct_adj (map attrs_of before)" "distinct_adj (map attrs_of after)"
  shows "tiles lo (CoreCleanupGcdMapEntry before mid after) hi \<and>
    kind_at (CoreCleanupGcdMapEntry before mid after) = kind_at (before @ mid @ after) \<and>
    distinct_adj (map attrs_of (CoreCleanupGcdMapEntry before mid after))"
  using assms
proof (induction mid arbitrary: before)
  case (Cons e es)
  obtain st before1 e1 after1 where bk: "CoreMergeGcdMapEntry False (before, e, es @ after) = (st, before1, e1, after1)"
    by (metis prod_cases4)
  note b = merge_back [OF bk, of lo hi]
  show ?case
  proof (cases "es = []")
    case True
    obtain st2 before2 e2 after2 where fwd: "CoreMergeGcdMapEntry True (before1, e1, after) = (st2, before2, e2, after2)"
      by (metis prod_cases4)
    show ?thesis
      using bk fwd True b merge_forward [OF fwd, of lo hi] Cons.prems by simp
  next
    case False
    then show ?thesis
      using bk b Cons.IH [of "before1 @ [e1]"] Cons.prems by simp
  qed
qed simp

subsection \<open>The search for a range\<close>

lemma search_end:
  assumes "range_ok b l" "tiles lo es hi" "unat b < lo" "lo < unat b + unat l"
  shows "if unat b + unat l \<le> hi
    then \<exists>ms e post. es = ms @ e # post \<and> search_loop b l i (Some j) es = Some (j, i + length ms) \<and>
      ebase e < unat b + unat l \<and> unat b + unat l \<le> elimit e
    else search_loop b l i (Some j) es = None"
  using assms(2-4)
proof (induction es arbitrary: lo i)
  case (Cons e es)
  let ?E = "unat b + unat l"
  have t: "ebase e = lo" "lo < elimit e" "tiles (elimit e) es hi" using Cons.prems by auto
  have step: "search_loop b l i (Some j) (e # es) =
    (if ?E \<le> elimit e then Some (j, i) else search_loop b l (Suc i) (Some j) es)"
    using t Cons.prems range_last [OF assms(1)] by (simp add: base_le end_le less_eq_Suc_le)
  show ?case
  proof (cases "?E \<le> elimit e")
    case True
    then have "?E \<le> hi" using tiles_le [OF t(3)] by simp
    then show ?thesis using step True t Cons.prems
      by (simp only: if_True) (rule exI [of _ "[]"], simp)
  next
    case False
    note IH = Cons.IH [OF t(3), of "Suc i"]
    show ?thesis
    proof (cases "?E \<le> hi")
      case True
      then obtain ms f post where "es = ms @ f # post" "search_loop b l (Suc i) (Some j) es = Some (j, Suc i + length ms)"
        "ebase f < ?E" "?E \<le> elimit f"
        using IH False Cons.prems t by auto
      then show ?thesis using step True False
        by (simp only: if_True) (rule exI [of _ "e # ms"], simp)
    next
      case F: False
      then show ?thesis using IH step False Cons.prems t by simp
    qed
  qed
qed simp

lemma search_loop_tiles:
  assumes "range_ok b l" "tiles lo es hi"
  shows "if lo \<le> unat b \<and> unat b + unat l \<le> hi
    then \<exists>pre mid post. es = pre @ mid @ post \<and> mid \<noteq> [] \<and>
      search_loop b l i None es = Some (i + length pre, i + length pre + length mid - 1) \<and>
      ebase (hd mid) \<le> unat b \<and> unat b < elimit (hd mid) \<and>
      ebase (last mid) < unat b + unat l \<and> unat b + unat l \<le> elimit (last mid)
    else search_loop b l i None es = None"
  using assms(2)
proof (induction es arbitrary: lo i)
  case Nil
  then show ?case using range_pos [OF assms(1)] by auto
next
  case (Cons e es)
  let ?B = "unat b" and ?E = "unat b + unat l"
  have t: "ebase e = lo" "lo < elimit e" "tiles (elimit e) es hi" using Cons.prems by auto
  have hi: "elimit e \<le> hi" using tiles_le [OF t(3)] .
  have pos: "?B < ?E" using range_pos [OF assms(1)] by simp
  note last = range_last [OF assms(1)]
  consider "?B < lo" | "lo \<le> ?B" "elimit e \<le> ?B" | "lo \<le> ?B" "?B < elimit e" "?E \<le> elimit e"
    | "lo \<le> ?B" "?B < elimit e" "elimit e < ?E" by linarith
  then show ?case
  proof cases
    case 1
    have "search_loop b l i None (e # es) = search_loop b l (Suc i) None es"
      using 1 t by (simp add: base_le)
    then show ?thesis using Cons.IH [OF t(3), of "Suc i"] 1 t by auto
  next
    case 2
    have step: "search_loop b l i None (e # es) = search_loop b l (Suc i) None es"
      using 2 t by (simp add: base_le end_le)
    note IH = Cons.IH [OF t(3), of "Suc i"]
    show ?thesis
    proof (cases "?E \<le> hi")
      case True
      then obtain pre mid post where "es = pre @ mid @ post" "mid \<noteq> []"
        "search_loop b l (Suc i) None es = Some (Suc i + length pre, Suc i + length pre + length mid - 1)"
        "ebase (hd mid) \<le> ?B" "?B < elimit (hd mid)" "ebase (last mid) < ?E" "?E \<le> elimit (last mid)"
        using IH 2 by auto
      then show ?thesis unfolding step using True 2
        by (intro iffD2 [OF if_P] conjI exI [of _ "e # pre"] exI [of _ mid] exI [of _ post]) simp_all
    next
      case False
      then show ?thesis using step IH by simp
    qed
  next
    case 3
    have "search_loop b l i None (e # es) = Some (i, i)"
      using 3 t pos last by (simp add: base_le end_le less_eq_Suc_le)
    then show ?thesis using 3 hi t pos
      by (intro iffD2 [OF if_P] conjI exI [of _ "[]"] exI [of _ "[e]"] exI [of _ es]) simp_all
  next
    case 4
    have step: "search_loop b l i None (e # es) = search_loop b l (Suc i) (Some i) es"
      using 4 t pos last by (simp add: base_le end_le less_eq_Suc_le)
    note IH = search_end [OF assms(1) t(3) 4(2,3), of "Suc i" i]
    show ?thesis
    proof (cases "?E \<le> hi")
      case True
      then obtain ms f post where "es = ms @ f # post" "search_loop b l (Suc i) (Some i) es = Some (i, Suc i + length ms)"
        "ebase f < ?E" "?E \<le> elimit f" using IH by auto
      then show ?thesis unfolding step using True 4 t
        by (intro iffD2 [OF if_P] conjI exI [of _ "[]"] exI [of _ "e # ms @ [f]"] exI [of _ post]) simp_all
    next
      case False
      then show ?thesis using step IH by simp
    qed
  qed
qed

subsection \<open>A range of links as an update of the space\<close>

abbreviation links :: "nat \<times> nat \<Rightarrow> gcd_map \<Rightarrow> gcd_map" where
  "links r m \<equiv> drop (fst r) (take (Suc (snd r)) m)"

text \<open>The function on addresses that is \<open>w\<close> on the range and the identity elsewhere.\<close>

definition space_update ::
  "('k \<Rightarrow> 'k) \<Rightarrow> u64 \<Rightarrow> u64 \<Rightarrow> (nat \<Rightarrow> 'k option) \<Rightarrow> nat \<Rightarrow> 'k option" where
  "space_update w b l f a = (if unat b \<le> a \<and> a < unat b + unat l then map_option w (f a) else f a)"

definition kinds_in :: "u64 \<Rightarrow> u64 \<Rightarrow> gcd_map \<Rightarrow> EFI_GCD_MAP_ENTRY set" where
  "kinds_in b l m = {k. \<exists>a. unat b \<le> a \<and> a < unat b + unat l \<and> kind_at m a = Some k}"

lemma search_outside:
  assumes "range_ok b l" "space_ok hi m" "hi < unat b + unat l"
  shows "CoreSearchGcdMapEntry b l m = ret None"
  using search_loop_tiles [OF assms(1), of 0 m hi 0] assms
  by (simp add: CoreSearchGcdMapEntry_def space_ok_def range_ok_def)

lemma search_inside:
  assumes "range_ok b l" "space_ok hi m" "unat b + unat l \<le> hi"
  obtains r pre mid post where "CoreSearchGcdMapEntry b l m = ret (Some r)"
    "m = pre @ mid @ post" "links r m = mid" "take (fst r) m = pre" "drop (Suc (snd r)) m = post" "mid \<noteq> []"
    "ebase (hd mid) \<le> unat b" "unat b < elimit (hd mid)" "ebase (last mid) < unat b + unat l"
    "unat b + unat l \<le> elimit (last mid)" "fst r = length pre"
proof -
  obtain pre mid post where m: "m = pre @ mid @ post" "mid \<noteq> []"
    "search_loop b l 0 None m = Some (length pre, length pre + length mid - 1)"
    "ebase (hd mid) \<le> unat b" "unat b < elimit (hd mid)" "ebase (last mid) < unat b + unat l"
    "unat b + unat l \<le> elimit (last mid)"
    using search_loop_tiles [OF assms(1), of 0 m hi 0] assms by (auto simp: space_ok_def)
  moreover have "Suc (length pre + length mid - 1) = length pre + length mid" using m(2) by (cases mid) auto
  ultimately show ?thesis using assms(1)
    by (intro that [of "(length pre, length pre + length mid - 1)" pre mid post])
      (simp_all add: CoreSearchGcdMapEntry_def range_ok_def)
qed

lemma last_tiles: "tiles lo es hi \<Longrightarrow> es \<noteq> [] \<Longrightarrow> elimit (last es) = hi"
  by (induction es arbitrary: lo) auto

lemma kinds_in_mid:
  assumes "space_ok hi m" "m = pre @ mid @ post" "mid \<noteq> []"
    and "ebase (hd mid) \<le> unat b" "unat b < elimit (hd mid)" "ebase (last mid) < unat b + unat l"
    "unat b + unat l \<le> elimit (last mid)" "range_ok b l"
  shows "attrs_of ` set mid = kinds_in b l m"
proof
  have t: "tiles 0 (pre @ mid @ post) hi" using assms(1,2) by (simp add: space_ok_def)
  then obtain lo hi1 where mid: "tiles 0 pre lo" "tiles lo mid hi1" "tiles hi1 post hi" unfolding tiles_append by blast
  have lo: "ebase (hd mid) = lo" using mid(2) assms(3) by (cases mid) auto
  have last: "elimit (last mid) = hi1" by (rule last_tiles [OF mid(2) assms(3)])
  have at: "kind_at m a = kind_at mid a" if "lo \<le> a" "a < hi1" for a
    using kind_at_append_tiles [OF mid(1), of "mid @ post" hi a] kind_at_append_tiles [OF mid(2,3), of a]
      mid that assms(2) by (auto simp: tiles_append)
  show "kinds_in b l m \<subseteq> attrs_of ` set mid"
  proof
    fix k assume "k \<in> kinds_in b l m"
    then obtain a where a: "unat b \<le> a" "a < unat b + unat l" "kind_at m a = Some k" by (auto simp: kinds_in_def)
    then have "kind_at mid a = Some k" using at [of a] lo last assms(4,7) by simp
    then show "k \<in> attrs_of ` set mid" using kind_at_member by blast
  qed
  show "attrs_of ` set mid \<subseteq> kinds_in b l m"
  proof
    fix k assume "k \<in> attrs_of ` set mid"
    then obtain e where e: "e \<in> set mid" "k = attrs_of e" by blast
    then have r: "lo \<le> ebase e" "ebase e < elimit e" "elimit e \<le> hi1" using member_range [OF mid(2)] by auto
    have hd: "unat b < elimit e" using e(1) mid(2) assms(3,5) member_range
      by (cases mid) (auto dest: member_range)
    have last': "ebase e < unat b + unat l"
    proof -
      obtain ms where ms: "mid = ms @ [last mid]" using assms(3) by (metis append_butlast_last_id)
      then obtain mi where "tiles lo ms mi" "ebase (last mid) = mi" using mid(2) by (metis tiles.simps(2) tiles_append)
      then show ?thesis using e(1) ms assms(6) member_range [of lo ms mi e] by (metis Un_iff empty_iff insert_iff le_less_trans less_le_trans list.set nat_less_le set_append)
    qed
    let ?a = "max (unat b) (ebase e)"
    have "kind_at mid ?a = Some k" using kind_at_entry [OF mid(2) e(1), of ?a] r hd e(2) by simp
    moreover have "lo \<le> ?a" "?a < hi1" using r hd lo assms(4) by auto
    ultimately have "kind_at m ?a = Some k" using at by simp
    moreover have "?a < unat b + unat l" 
      using last' range_pos [OF assms(8)] by simp
    ultimately show "k \<in> kinds_in b l m" unfolding kinds_in_def by (intro CollectI exI [of _ ?a]) simp
  qed
qed

lemma convert_range_update:
  assumes "range_ok b l" "attr_write w" "space_ok hi m" "unat b + unat l \<le> hi"
  obtains r m' where "CoreSearchGcdMapEntry b l m = ret (Some r)" "attrs_of ` set (links r m) = kinds_in b l m"
    "convert_range w b l r m = ret m'" "space_ok hi m'" "kind_at m' = space_update w b l (kind_at m)"
    "links r m \<noteq> []" "ebase (hd (links r m)) \<le> unat b" "fst r < length m" "m ! fst r = hd (links r m)"
    "unat b < elimit (hd (links r m))"
proof -
  obtain r pre mid post where r: "CoreSearchGcdMapEntry b l m = ret (Some r)"
    "m = pre @ mid @ post" "links r m = mid" "take (fst r) m = pre" "drop (Suc (snd r)) m = post" "mid \<noteq> []"
    "ebase (hd mid) \<le> unat b" "unat b < elimit (hd mid)" "ebase (last mid) < unat b + unat l"
    "unat b + unat l \<le> elimit (last mid)" "fst r = length pre"
    using search_inside [OF assms(1,3,4)] by blast
  have t: "tiles 0 (pre @ mid @ post) hi" and adj: "distinct_adj (map attrs_of (pre @ mid @ post))"
    using assms(3) r(2) by (simp_all add: space_ok_def)
  obtain lo hi1 where mid: "tiles 0 pre lo" "tiles lo mid hi1" "tiles hi1 post hi" 
    using t unfolding tiles_append by blast
  have lo: "lo \<le> unat b" using mid(2) r(6,7) by (cases mid) auto
  have hi1: "unat b + unat l \<le> hi1" using last_tiles [OF mid(2) r(6)] r(10) by simp
  obtain bots mid' tops where c: "convert_loop w b l False False mid = ret (bots, mid', tops)"
    "tiles lo bots (unat b)" "tiles (unat b) mid' (unat b + unat l)" "tiles (unat b + unat l) tops hi1" "mid' \<noteq> []"
    "\<And>a. kind_at bots a = (if a < unat b then kind_at mid a else None)"
    "\<And>a. kind_at mid' a = (if unat b \<le> a \<and> a < unat b + unat l then map_option w (kind_at mid a) else None)"
    "\<And>a. kind_at tops a = (if a < unat b + unat l then None else kind_at mid a)"
    "bots = [] \<or> (\<exists>t. bots = [t] \<and> attrs_of t = attrs_of (hd mid))"
    "tops = [] \<or> (\<exists>t. tops = [t] \<and> attrs_of t = attrs_of (last mid))"
    using convert_loop_range [OF assms(1,2) mid(2) r(6,8) lo r(9) hi1] by blast
  let ?before = "pre @ bots" and ?after = "tops @ post"
  let ?m = "CoreCleanupGcdMapEntry ?before mid' ?after"
  have "tiles 0 ((pre @ bots) @ mid' @ tops @ post) hi"
    using mid c(2-4) by (intro tiles_appendI [of _ _ "unat b"] tiles_appendI [of _ pre lo]
      tiles_appendI [of _ mid' "unat b + unat l"] tiles_appendI [of _ tops hi1])
  moreover have "distinct_adj (map attrs_of ?before)"
    using adj c(9) r(6) by (cases mid) (auto simp: distinct_adj_append_iff)
  moreover have "distinct_adj (map attrs_of ?after)"
    using adj c(10) r(6) by (cases mid rule: rev_cases) (auto simp: distinct_adj_append_iff distinct_adj_Cons)
  ultimately have m: "tiles 0 ?m hi" "kind_at ?m = kind_at (?before @ mid' @ ?after)" "distinct_adj (map attrs_of ?m)"
    using cleanup_ok [OF c(5), of 0 ?before ?after hi] by auto
  have "kind_at (pre @ bots @ mid' @ tops @ post) a = space_update w b l (kind_at (pre @ mid @ post)) a" for a
    using kind_at_outside [OF mid(1), of a] kind_at_outside [OF mid(2), of a] kind_at_outside [OF mid(3), of a] lo hi1
    by (auto simp: kind_at_append c(6-8) space_update_def split: option.split)
  then have "kind_at ?m = space_update w b l (kind_at m)" using m(2) r(2) by (simp add: fun_eq_iff)
  moreover have "space_ok hi ?m" using m by (simp add: space_ok_def)
  moreover have "convert_range w b l r m = ret ?m"
    using c(1) r(3-5) by (cases r) (simp add: convert_range_def)
  moreover have "attrs_of ` set (links r m) = kinds_in b l m"
    using kinds_in_mid [OF assms(3) r(2,6-10) assms(1)] r(3) by simp
  moreover have "fst r < length m" "m ! fst r = hd mid" using r(2,6,11) by (simp_all add: nth_append hd_conv_nth)
  ultimately show ?thesis using that [of r ?m] r(1,3,6,7,8) by simp
qed

section \<open>A map of a space, as an interface\<close>

text \<open>
  What the services need of a map: a good map is determined by the function it stands for, and an update of a range
  that it covers succeeds, keeps it good, and updates the function.
\<close>

locale space_map =
  fixes ok :: "'m \<Rightarrow> bool"
    and at :: "'m \<Rightarrow> nat \<Rightarrow> 'k option"
    and covers :: "u64 \<Rightarrow> u64 \<Rightarrow> bool"
    and writes :: "('k \<Rightarrow> 'k) \<Rightarrow> bool"
    and upd :: "('k \<Rightarrow> 'k) \<Rightarrow> u64 \<Rightarrow> u64 \<Rightarrow> 'm \<Rightarrow> 'm run"
  assumes upd_update: "ok m \<Longrightarrow> covers b l \<Longrightarrow> writes w \<Longrightarrow>
      \<exists>m'. upd w b l m = ret m' \<and> ok m' \<and> at m' = space_update w b l (at m)"
    and same_function: "ok m \<Longrightarrow> ok m' \<Longrightarrow> at m = at m' \<Longrightarrow> m = m'"
begin

lemma upd_restores:
  assumes "ok m" "covers b l" "writes v" "writes w"
    and "\<And>a k. unat b \<le> a \<Longrightarrow> a < unat b + unat l \<Longrightarrow> at m a = Some k \<Longrightarrow> w (v k) = k"
  shows "bind_run (upd v b l m) (upd w b l) = ret m"
proof -
  obtain m1 where m1: "upd v b l m = ret m1" "ok m1" "at m1 = space_update v b l (at m)"
    using upd_update [OF assms(1-3)] by blast
  obtain m2 where m2: "upd w b l m1 = ret m2" "ok m2" "at m2 = space_update w b l (at m1)"
    using upd_update [OF m1(2) assms(2,4)] by blast
  have "at m2 a = at m a" for a
    using assms(5) [of a] m1(3) m2(3) by (cases "at m a") (auto simp: space_update_def)
  then have "m2 = m" using same_function [OF m2(2) assms(1)] by blast
  then show ?thesis using m1 m2 by simp
qed

lemma upd_commute:
  assumes "ok m" "covers b l" "covers c n" "writes v" "writes w"
    and "unat b + unat l \<le> unat c \<or> unat c + unat n \<le> unat b"
  shows "bind_run (upd v b l m) (upd w c n) = bind_run (upd w c n m) (upd v b l)"
proof -
  obtain m1 where m1: "upd v b l m = ret m1" "ok m1" "at m1 = space_update v b l (at m)"
    using upd_update [OF assms(1,2,4)] by blast
  obtain m2 where m2: "upd w c n m1 = ret m2" "ok m2" "at m2 = space_update w c n (at m1)"
    using upd_update [OF m1(2) assms(3,5)] by blast
  obtain n1 where n1: "upd w c n m = ret n1" "ok n1" "at n1 = space_update w c n (at m)"
    using upd_update [OF assms(1,3,5)] by blast
  obtain n2 where n2: "upd v b l n1 = ret n2" "ok n2" "at n2 = space_update v b l (at n1)"
    using upd_update [OF n1(2) assms(2,4)] by blast
  have "at m2 = at n2" unfolding m2(3) n2(3) m1(3) n1(3) using assms(6)
    by (auto simp: space_update_def fun_eq_iff)
  then show ?thesis using same_function [OF m2(2) n2(2)] m1 m2 n1 n2 by simp
qed

end

text \<open>The search and the conversion of what it finds: what \<open>CoreConvertSpace\<close> and \<open>CoreAllocateSpace\<close> do to a map.\<close>

definition update_range :: "(EFI_GCD_MAP_ENTRY \<Rightarrow> EFI_GCD_MAP_ENTRY) \<Rightarrow> u64 \<Rightarrow> u64 \<Rightarrow> gcd_map \<Rightarrow> gcd_map run" where
  "update_range w b l m =
     bind_run (CoreSearchGcdMapEntry b l m) (\<lambda>found. case found of None \<Rightarrow> ret m | Some r \<Rightarrow> convert_range w b l r m)"

definition space_covers :: "nat \<Rightarrow> u64 \<Rightarrow> u64 \<Rightarrow> bool" where
  "space_covers hi b l \<longleftrightarrow> range_ok b l \<and> unat b + unat l \<le> hi"

interpretation gcd: space_map "space_ok hi" kind_at "space_covers hi" attr_write update_range for hi
proof unfold_locales
  fix m b l w assume "space_ok hi m" "space_covers hi b l" "attr_write w"
  then show "\<exists>m'. update_range w b l m = ret m' \<and> space_ok hi m' \<and> kind_at m' = space_update w b l (kind_at m)"
    unfolding space_covers_def by (elim conjE) (erule (3) convert_range_update, auto simp: update_range_def)
qed (rule space_unique)

section \<open>The conversion of a space\<close>

lemma check_entries_success: "check_entries c es = EFI_SUCCESS \<longleftrightarrow> (\<forall>e \<in> set es. c e = EFI_SUCCESS)"
  by (induction es) (auto simp: EFI_ERROR_def)

lemma check_entries_error: "check_entries c es \<noteq> EFI_SUCCESS \<Longrightarrow> check_entries c es \<in> c ` set es"
  by (induction es) (auto simp: EFI_ERROR_def)

lemma check_entries_attrs:
  assumes "\<And>e. c (attrs_of e) = c e" "attrs_of ` set es = K"
  shows "check_entries c es = EFI_SUCCESS \<longleftrightarrow> (\<forall>k \<in> K. c k = EFI_SUCCESS)"
    and "check_entries c es \<noteq> EFI_SUCCESS \<Longrightarrow> check_entries c es \<in> c ` K"
proof -
  have "c ` K = c ` set es" using assms by (auto simp: image_iff)
  then show "check_entries c es \<noteq> EFI_SUCCESS \<Longrightarrow> check_entries c es \<in> c ` K"
    using check_entries_error by metis
  show "check_entries c es = EFI_SUCCESS \<longleftrightarrow> (\<forall>k \<in> K. c k = EFI_SUCCESS)"
    using assms by (auto simp: check_entries_success)
qed

lemma convert_check_attrs: "convert_check op b l c a (attrs_of e) = convert_check op b l c a e"
  by (simp add: convert_check_def)

lemma attr_write_convert_entry: "attr_write (convert_entry op mt it c a)"
  by (auto simp: attr_write_def convert_entry_def attrs_of_def ebase_def elimit_def)

lemma attr_write_handles: "attr_write (\<lambda>e. e\<lparr>ImageHandle := ih, DeviceHandle := dh\<rparr>)"
  by (auto simp: attr_write_def attrs_of_def ebase_def elimit_def)

lemma operation_map_set [simp]:
  "operation_map op s = Some m \<Longrightarrow> operation_map op (set_operation_map op m' (s\<lparr>gworld := w\<rparr>)) = Some m'"
  by (auto simp: operation_map_def set_operation_map_def split: if_splits)

lemma operation_map_gworld [simp]: "operation_map op (s\<lparr>gworld := w\<rparr>) = operation_map op s"
  by (simp add: operation_map_def)

text \<open>The outcome of \<open>CoreConvertSpace\<close> on a good map, case by case.\<close>

lemma convert_space_cases:
  assumes "operation_map op s = Some m" "space_ok hi m" "range_ok b l"
  obtains
    (outside) "hi < unat b + unat l" "CoreConvertSpace env op mt it b l c a s = ret (EFI_UNSUPPORTED, s)"
  | (refused) st where "unat b + unat l \<le> hi" "st \<noteq> EFI_SUCCESS" "st \<in> convert_check op b l c a ` kinds_in b l m"
      "CoreConvertSpace env op mt it b l c a s = ret (st, s)"
  | (no_pool) "unat b + unat l \<le> hi" "\<forall>k \<in> kinds_in b l m. convert_check op b l c a k = EFI_SUCCESS"
      "fst (CoreAllocateGcdMapEntry env (gworld s)) \<noteq> EFI_SUCCESS"
      "CoreConvertSpace env op mt it b l c a s =
         ret (EFI_OUT_OF_RESOURCES, s\<lparr>gworld := snd (CoreAllocateGcdMapEntry env (gworld s))\<rparr>)"
  | (cpu) st w where "unat b + unat l \<le> hi" "\<forall>k \<in> kinds_in b l m. convert_check op b l c a k = EFI_SUCCESS"
      "fst (CoreAllocateGcdMapEntry env (gworld s)) = EFI_SUCCESS"
      "set_cpu_attributes env op b l a (snd (CoreAllocateGcdMapEntry env (gworld s))) = (st, w)" "st \<noteq> EFI_SUCCESS"
      "CoreConvertSpace env op mt it b l c a s = ret (st, s\<lparr>gworld := w\<rparr>)"
  | (converted) w m' where "unat b + unat l \<le> hi" "\<forall>k \<in> kinds_in b l m. convert_check op b l c a k = EFI_SUCCESS"
      "fst (CoreAllocateGcdMapEntry env (gworld s)) = EFI_SUCCESS"
      "set_cpu_attributes env op b l a (snd (CoreAllocateGcdMapEntry env (gworld s))) = (EFI_SUCCESS, w)"
      "CoreConvertSpace env op mt it b l c a s = ret (EFI_SUCCESS, set_operation_map op m' (s\<lparr>gworld := w\<rparr>))"
      "update_range (convert_entry op mt it c a) b l m = ret m'" "space_ok hi m'"
      "kind_at m' = space_update (convert_entry op mt it c a) b l (kind_at m)"
proof (cases "hi < unat b + unat l")
  case True
  then show ?thesis using outside search_outside [OF assms(3,2)] assms(1,3)
    by (simp add: CoreConvertSpace_def range_ok_def)
next
  case False
  then have in_hi: "unat b + unat l \<le> hi" by simp
  let ?w = "convert_entry op mt it c a" and ?check = "convert_check op b l c a"
  obtain r m' where r: "CoreSearchGcdMapEntry b l m = ret (Some r)" "attrs_of ` set (links r m) = kinds_in b l m"
    "convert_range ?w b l r m = ret m'" "space_ok hi m'" "kind_at m' = space_update ?w b l (kind_at m)"
    using convert_range_update [OF assms(3) attr_write_convert_entry assms(2) in_hi] by metis
  obtain i j where ij: "r = (i, j)" by (cases r)
  note check = check_entries_attrs [of ?check, OF convert_check_attrs r(2)]
  obtain st1 w1 where pool: "CoreAllocateGcdMapEntry env (gworld s) = (st1, w1)" by (cases "CoreAllocateGcdMapEntry env (gworld s)")
  obtain st2 w2 where cpu': "set_cpu_attributes env op b l a w1 = (st2, w2)" by (cases "set_cpu_attributes env op b l a w1")
  have upd: "update_range ?w b l m = ret m'" using r(1,3) by (simp add: update_range_def)
  have "CoreConvertSpace env op mt it b l c a s =
    (let st = check_entries ?check (links r m) in
     if EFI_ERROR st then ret (st, s)
     else if EFI_ERROR st1 then ret (EFI_OUT_OF_RESOURCES, s\<lparr>gworld := w1\<rparr>)
     else if EFI_ERROR st2 then ret (st2, s\<lparr>gworld := w2\<rparr>)
     else ret (EFI_SUCCESS, set_operation_map op m' (s\<lparr>gworld := w2\<rparr>)))"
    using assms(1,3) r(1,3) pool cpu' by (simp add: CoreConvertSpace_def range_ok_def ij Let_def)
  note conv = this [unfolded Let_def EFI_ERROR_def]
  consider "check_entries ?check (links r m) \<noteq> EFI_SUCCESS" | "check_entries ?check (links r m) = EFI_SUCCESS" "st1 \<noteq> EFI_SUCCESS"
    | "check_entries ?check (links r m) = EFI_SUCCESS" "st1 = EFI_SUCCESS" "st2 \<noteq> EFI_SUCCESS"
    | "check_entries ?check (links r m) = EFI_SUCCESS" "st1 = EFI_SUCCESS" "st2 = EFI_SUCCESS" by blast
  then show ?thesis
  proof cases
    case 1
    then show ?thesis using refused [OF in_hi 1 check(2)] conv by simp
  next
    case 2
    then show ?thesis using no_pool [OF in_hi] check(1) conv pool by simp
  next
    case 3
    then show ?thesis using cpu [OF in_hi, of st2 w2] check(1) conv pool cpu' by simp
  next
    case 4
    then show ?thesis using converted [OF in_hi, of w2 m'] check(1) conv pool cpu' upd r(4,5) by simp
  qed
qed

end
