(* ===== verification/GcdServices.thy ===== *)
theory GcdServices
  imports GcdSpace
begin

text \<open>
  The properties of the GCD services: the conversion of a range refines the update of the function a map stands
  for, its statuses, the allocation of a range, the descriptors, and what happens outside the bounds that
  the code does not check.
\<close>

section \<open>CoreConvertSpace\<close>

text \<open>The maps at start are good, and there is a build to run the services in.\<close>

lemma unat_mask: "n < 64 \<Longrightarrow> Suc (unat (push_bit n 1 - 1 :: u64)) = 2 ^ n"
proof -
  assume n: "n < 64"
  have "unat (word_of_nat (2 ^ n) :: u64) = 2 ^ n"
    using n by (simp add: unsigned_of_nat take_bit_nat_eq_self del: of_nat_power)
  then have "unat (push_bit n 1 :: u64) = 2 ^ n" using n by (simp add: push_bit_eq_mult)
  moreover from this have "push_bit n 1 \<noteq> (0 :: u64)" by (metis unat_gt_0 zero_less_numeral zero_less_power)
  ultimately show ?thesis using unat_minus_one [of "push_bit n 1 :: u64"] by (simp del: push_bit_of_1)
qed

lemma initial_maps_ok:
  assumes "n < 64" "k < 64"
  shows "space_ok (2 ^ n) (mGcdMemorySpaceMap (initial_maps n k w))" "space_ok (2 ^ k) (mGcdIoSpaceMap (initial_maps n k w))"
  using unat_mask [OF assms(1)] unat_mask [OF assms(2)]
  by (simp_all add: space_ok_def initial_maps_def ebase_def elimit_def
    mGcdMemorySpaceMapEntryTemplate_def mGcdIoSpaceMapEntryTemplate_def del: push_bit_of_1)

lemmas sample_maps_ok = initial_maps_ok [of 36 16 "()", simplified]

definition sample_env :: "unit gcd_env" where
  "sample_env = \<lparr>AllocatePool = (\<lambda>w. (True, w)), SetMemoryAttributes = Some (\<lambda>_ _ _ w. (EFI_SUCCESS, w)),
     CoreAddMemoryDescriptor = (\<lambda>_ _ _ w. w), CoreUpdateMemoryAttributes = (\<lambda>_ _ _ w. w), gDxeCoreImageHandle = 7,
     debug_gcd = True\<rparr>"

text \<open>C6: (refinement) A GCD map stands for a partial function from addresses to attributes.  On a good map (entries that
  tile the space \<open>0..hi\<close> in order, neighbours that differ), for every operation and every range that does not wrap,
  \<open>CoreConvertSpace\<close> returns.  If the status is success, the range was inside the space, each of its addresses passed the check
  of the operation, the map is good again, and the function it stands for is the old one with the operation applied at the
  addresses of the range and nowhere else; the other map is as it was.  If the status is an error, both maps are as they were.\<close>

theorem convert_space_updates_range:
  assumes "operation_map op s = Some m" "space_ok hi m" "range_ok b l"
  shows "\<exists>st s'. CoreConvertSpace env op mt it b l c a s = ret (st, s') \<and>
    (if st = EFI_SUCCESS
     then unat b + unat l \<le> hi \<and> (\<forall>k \<in> kinds_in b l m. convert_check op b l c a k = EFI_SUCCESS) \<and>
       (\<exists>m' w. s' = set_operation_map op m' (s\<lparr>gworld := w\<rparr>) \<and> space_ok hi m' \<and>
         kind_at m' = space_update (convert_entry op mt it c a) b l (kind_at m))
     else \<exists>w. s' = s\<lparr>gworld := w\<rparr>)"
  using assms
proof (cases rule: convert_space_cases [where env = env and mt = mt and it = it and c = c and a = a])
  case outside
  then show ?thesis by (intro exI [of _ EFI_UNSUPPORTED] exI [of _ s]) (auto intro: exI [of _ "gworld s"])
next
  case (refused st)
  then show ?thesis by (intro exI [of _ st] exI [of _ s]) (auto intro: exI [of _ "gworld s"])
next
  case (cpu st w)
  then show ?thesis by auto
next
  case (converted w m')
  then show ?thesis by auto
qed auto

theorem convert_space_updates_range_witness:
  "\<exists>st s'. CoreConvertSpace sample_env GCD_ADD_MEMORY_OPERATION 2 0 0x100000 0x200000 0xF 0 (initial_maps 36 16 ()) = ret (st, s') \<and>
    (if st = EFI_SUCCESS
     then unat (0x100000 :: u64) + unat (0x200000 :: u64) \<le> 2 ^ 36 \<and>
       (\<forall>k \<in> kinds_in 0x100000 0x200000 (mGcdMemorySpaceMap (initial_maps 36 16 ())).
          convert_check GCD_ADD_MEMORY_OPERATION 0x100000 0x200000 0xF 0 k = EFI_SUCCESS) \<and>
       (\<exists>m' w. s' = set_operation_map GCD_ADD_MEMORY_OPERATION m' (initial_maps 36 16 ()\<lparr>gworld := w\<rparr>) \<and> space_ok (2 ^ 36) m' \<and>
         kind_at m' = space_update (convert_entry GCD_ADD_MEMORY_OPERATION 2 0 0xF 0) 0x100000 0x200000
           (kind_at (mGcdMemorySpaceMap (initial_maps 36 16 ()))))
     else \<exists>w. s' = initial_maps 36 16 ()\<lparr>gworld := w\<rparr>)"
  by (rule convert_space_updates_range)
    (simp_all add: sample_maps_ok operation_map_def range_ok_def)

text \<open>C31: (errors) Which status \<open>CoreConvertSpace\<close> returns on a good map for a range that does not wrap: \<open>EFI_UNSUPPORTED\<close> if
  the range is not all inside the space; otherwise an error that the check of the operation gives for an address of the range, if there
  is one; otherwise \<open>EFI_OUT_OF_RESOURCES\<close> if the two spare entries cannot be allocated; otherwise the status of
  the CPU protocol, which is \<open>EFI_SUCCESS\<close> for every operation but the setting of attributes.\<close>

theorem convert_space_status:
  assumes "operation_map op s = Some m" "space_ok hi m" "range_ok b l"
    and "CoreConvertSpace env op mt it b l c a s = ret (st, s')"
  shows "if hi < unat b + unat l then st = EFI_UNSUPPORTED
    else if \<exists>k \<in> kinds_in b l m. convert_check op b l c a k \<noteq> EFI_SUCCESS
      then st \<noteq> EFI_SUCCESS \<and> st \<in> convert_check op b l c a ` kinds_in b l m
    else if fst (CoreAllocateGcdMapEntry env (gworld s)) \<noteq> EFI_SUCCESS then st = EFI_OUT_OF_RESOURCES
    else st = fst (set_cpu_attributes env op b l a (snd (CoreAllocateGcdMapEntry env (gworld s))))"
  using assms(1-3)
proof (cases rule: convert_space_cases [where env = env and mt = mt and it = it and c = c and a = a])
  case (refused st)
  then show ?thesis using assms(4) by (auto intro!: bexI)
qed (use assms(4) in auto)

theorem convert_space_status_witness:
  "let s = initial_maps 36 16 () in
   EFI_NOT_FOUND \<noteq> EFI_SUCCESS \<and>
   EFI_NOT_FOUND \<in> convert_check GCD_REMOVE_MEMORY_OPERATION 0 0x1000 0 0 ` kinds_in 0 0x1000 (mGcdMemorySpaceMap s)"
proof -
  let ?s = "initial_maps 36 16 ()"
  have m: "operation_map GCD_REMOVE_MEMORY_OPERATION ?s = Some (mGcdMemorySpaceMap ?s)" by (simp add: operation_map_def)
  have run: "CoreConvertSpace sample_env GCD_REMOVE_MEMORY_OPERATION 0 0 0 0x1000 0 0 ?s = ret (EFI_NOT_FOUND, ?s)"
    by code_simp
  have ok: "space_ok (2 ^ 36) (mGcdMemorySpaceMap ?s)" by (simp add: sample_maps_ok)
  have "mGcdMemorySpaceMapEntryTemplate \<in> kinds_in 0 0x1000 (mGcdMemorySpaceMap ?s)"
    unfolding kinds_in_def by (rule CollectI, rule exI [of _ 0])
      (simp add: initial_maps_def mGcdMemorySpaceMapEntryTemplate_def attrs_of_def ebase_def elimit_def)
  moreover have "convert_check GCD_REMOVE_MEMORY_OPERATION 0 0x1000 0 0 mGcdMemorySpaceMapEntryTemplate \<noteq> EFI_SUCCESS"
    by (simp add: convert_check_def mGcdMemorySpaceMapEntryTemplate_def)
  ultimately have "\<exists>k \<in> kinds_in 0 0x1000 (mGcdMemorySpaceMap ?s).
      convert_check GCD_REMOVE_MEMORY_OPERATION 0 0x1000 0 0 k \<noteq> EFI_SUCCESS" by blast
  then show ?thesis using convert_space_status [OF m ok _ run] by (simp add: range_ok_def Let_def)
qed

text \<open>\<open>CoreConvertSpace\<close> does not check that \<open>BaseAddress + Length\<close> stays below \<open>2^64\<close>.  In the map at start, of 36
  address lines, the request to add \<open>2^64 - 16\<close> bytes of reserved memory at address 0x1000, of which almost all is outside the space,
  succeeds, and the map it leaves does not tile any space.\<close>

theorem add_memory_wraps:
  "\<exists>s'. CoreAddMemorySpace sample_env 1 0x1000 (- 0x10) 0 (initial_maps 36 16 ()) = ret (EFI_SUCCESS, s') \<and>
    (\<nexists>hi. tiles 0 (mGcdMemorySpaceMap s') hi)"
proof -
  have "(case CoreAddMemorySpace sample_env 1 0x1000 (- 0x10) 0 (initial_maps 36 16 ()) of
      Some (Inr (EFI_SUCCESS, s')) \<Rightarrow> map (\<lambda>e. (BaseAddress e, EndAddress e)) (mGcdMemorySpaceMap s') =
        [(0, 0xFFF), (0x1000, 0xFEF), (0xFF0, 0xFFFFFFFFF)]
    | _ \<Rightarrow> False)"
    by code_simp
  then obtain s' where s': "CoreAddMemorySpace sample_env 1 0x1000 (- 0x10) 0 (initial_maps 36 16 ()) = ret (EFI_SUCCESS, s')"
    "map (\<lambda>e. (BaseAddress e, EndAddress e)) (mGcdMemorySpaceMap s') = [(0, 0xFFF), (0x1000, 0xFEF), (0xFF0, 0xFFFFFFFFF)]"
    unfolding ret_def by (auto split: option.splits sum.splits prod.splits efi_status.splits)
  then obtain e f g where "mGcdMemorySpaceMap s' = [e, f, g]" "BaseAddress f = 0x1000" "EndAddress f = 0xFEF"
    by (auto simp: map_eq_Cons_conv)
  then have "\<nexists>hi. tiles 0 (mGcdMemorySpaceMap s') hi" by (auto simp: ebase_def elimit_def)
  then show ?thesis using s'(1) by blast
qed

end
