(* ===== verification/GcdAllocate.thy ===== *)
theory GcdAllocate
  imports GcdServices
begin

text \<open>
  The allocation of a range of a GCD map (\<open>CoreAllocateSpace\<close>): the search finds a range of
  free addresses, from the bottom up the lowest there is, and what is allocated can be freed.  At the end, the
  descriptors of the services that read the map.
\<close>

section \<open>Alignment\<close>

lemma align_up:
  assumes "n < 64" "unat x + 2 ^ n \<le> 2 ^ 64"
  defines "y \<equiv> unat ((x + (push_bit n 1 - 1)) AND NOT (push_bit n 1 - 1) :: u64)"
  shows "2 ^ n dvd y" "unat x \<le> y" "y < unat x + 2 ^ n" "\<And>z. 2 ^ n dvd z \<Longrightarrow> unat x \<le> z \<Longrightarrow> y \<le> z"
proof -
  have m: "Suc (unat (push_bit n 1 - 1 :: u64)) = 2 ^ n" by (rule unat_mask [OF assms(1)])
  then have "unat (x + (push_bit n 1 - 1)) = unat x + (2 ^ n - 1)"
    using unat_add_lem [of x "push_bit n 1 - 1"] assms(2) by (simp del: push_bit_of_1)
  then have y: "y = (unat x + (2 ^ n - 1)) div 2 ^ n * 2 ^ n" unfolding y_def and_not_mask by simp
  show "2 ^ n dvd y" by (simp add: y)
  have "unat x + (2 ^ n - 1) < y + 2 ^ n"
    using dividend_less_div_times [of "2 ^ n" "unat x + (2 ^ n - 1)"] unfolding y by simp
  then show "unat x \<le> y" by simp
  have "y \<le> unat x + (2 ^ n - 1)" unfolding y by (rule div_times_less_eq_dividend)
  moreover have "(0 :: nat) < 2 ^ n" by simp
  ultimately show "y < unat x + 2 ^ n" by linarith
  fix z assume z: "2 ^ n dvd z" "unat x \<le> z"
  then obtain k where k: "z = k * 2 ^ n" by (auto simp: dvd_def mult.commute)
  have "(unat x + (2 ^ n - 1)) div 2 ^ n \<le> (k * 2 ^ n + (2 ^ n - 1)) div 2 ^ n"
    using z k by (intro div_le_mono) simp
  also have "\<dots> = k" using div_mult_self3 [of "2 ^ n" k "2 ^ n - 1 :: nat"] by (simp only: div_less) simp
  finally show "y \<le> z" using y k by simp
qed

section \<open>Entries by position\<close>

lemma tiles_nth: "tiles lo m hi \<Longrightarrow> i < length m \<Longrightarrow> lo \<le> ebase (m ! i) \<and> ebase (m ! i) < elimit (m ! i) \<and> elimit (m ! i) \<le> hi"
  using member_range nth_mem by blast

lemma tiles_nth_mono: "tiles lo m hi \<Longrightarrow> i < j \<Longrightarrow> j < length m \<Longrightarrow> elimit (m ! i) \<le> ebase (m ! j)"
proof (induction m arbitrary: lo i j)
  case (Cons e es)
  then obtain j' where j: "j = Suc j'" by (cases j) auto
  show ?case
  proof (cases i)
    case 0
    then show ?thesis using Cons.prems j tiles_nth [of "elimit e" es hi j'] by simp
  next
    case (Suc i')
    then show ?thesis using Cons.prems j Cons.IH [of "elimit e" i' j'] by simp
  qed
qed simp

lemma tiles_nth_next: "tiles lo m hi \<Longrightarrow> Suc i < length m \<Longrightarrow> ebase (m ! Suc i) = elimit (m ! i)"
proof (induction m arbitrary: lo i)
  case (Cons e es)
  then show ?case by (cases i; cases es) auto
qed simp

lemma tiles_nth_last: "tiles lo m hi \<Longrightarrow> i < length m \<Longrightarrow> \<not> Suc i < length m \<Longrightarrow> elimit (m ! i) = hi"
  using last_tiles [of lo m hi] by (cases m rule: rev_cases) (auto simp: nth_append)

lemma first_refused_None: "first_refused c es = None \<longleftrightarrow> (\<forall>e \<in> set es. c e = EFI_SUCCESS)"
  by (induction es) (auto simp: EFI_ERROR_def)

lemma first_refused_Some: "first_refused c es = Some k \<Longrightarrow> k < length es \<and> c (es ! k) \<noteq> EFI_SUCCESS"
  by (induction es arbitrary: k) (auto simp: EFI_ERROR_def split: if_splits)

section \<open>The search\<close>

text \<open>Addresses that \<open>c\<close> accepts, and a range of them.\<close>

definition usable :: "(EFI_GCD_MAP_ENTRY \<Rightarrow> efi_status) \<Rightarrow> gcd_map \<Rightarrow> nat \<Rightarrow> bool" where
  "usable c m a \<longleftrightarrow> (\<exists>k. kind_at m a = Some k \<and> c k = EFI_SUCCESS)"

definition usable_range :: "(EFI_GCD_MAP_ENTRY \<Rightarrow> efi_status) \<Rightarrow> gcd_map \<Rightarrow> nat \<Rightarrow> nat \<Rightarrow> bool" where
  "usable_range c m x n \<longleftrightarrow> (\<forall>a. x \<le> a \<and> a < x + n \<longrightarrow> usable c m a)"

lemma usable_range_inside:
  "usable_range c m x n \<Longrightarrow> tiles lo m hi \<Longrightarrow> 0 < n \<Longrightarrow> x + n \<le> hi"
proof (rule ccontr)
  assume *: "usable_range c m x n" "tiles lo m hi" "0 < n" "\<not> x + n \<le> hi"
  then have "kind_at m (x + n - 1) = None" by (intro kind_at_outside [OF *(2)]) auto
  moreover have "usable c m (x + n - 1)" using * by (simp add: usable_range_def)
  ultimately show False by (simp add: usable_def)
qed

lemma try_range:
  assumes "space_ok hi m" "range_ok b l" "unat b + unat l \<le> hi" "\<And>e. c (attrs_of e) = c e"
  obtains r where "CoreSearchGcdMapEntry b l m = ret (Some r)"
    "first_refused c (links r m) = None \<Longrightarrow> usable_range c m (unat b) (unat l)"
    "\<And>k. first_refused c (links r m) = Some k \<Longrightarrow> fst r + k < length m \<and> c (m ! (fst r + k)) \<noteq> EFI_SUCCESS \<and>
      ebase (m ! (fst r + k)) < unat b + unat l \<and> unat b < elimit (m ! (fst r + k))"
proof -
  obtain r pre mid post where r: "CoreSearchGcdMapEntry b l m = ret (Some r)"
    "m = pre @ mid @ post" "links r m = mid" "mid \<noteq> []"
    "ebase (hd mid) \<le> unat b" "unat b < elimit (hd mid)" "ebase (last mid) < unat b + unat l"
    "unat b + unat l \<le> elimit (last mid)" "fst r = length pre"
    using search_inside [OF assms(2,1,3)] by metis
  have t: "tiles 0 m hi" using assms(1) by (simp add: space_ok_def)
  have kinds: "attrs_of ` set mid = kinds_in b l m"
    using kinds_in_mid [OF assms(1) r(2,4-8) assms(2)] .
  have nth: "mid ! k = m ! (length pre + k)" if "k < length mid" for k
    using that r(2) by (simp add: nth_append)
  have pos: "ebase (mid ! k) < unat b + unat l \<and> unat b < elimit (mid ! k)" if k: "k < length mid" for k
  proof
    have len: "length pre + length mid \<le> length m" "0 < length mid" using r(2,4) by auto
    have hd: "hd mid = m ! length pre" using nth [of 0] len r(4) by (simp add: hd_conv_nth)
    have last: "last mid = m ! (length pre + (length mid - 1))" 
      using nth [of "length mid - 1"] len(2) by (metis diff_less last_conv_nth r(4) zero_less_one)
    show "ebase (mid ! k) < unat b + unat l"
    proof (cases "k = length mid - 1")
      case False
      then have "elimit (mid ! k) \<le> ebase (last mid)"
        unfolding nth [OF k] last using k len by (intro tiles_nth_mono [OF t]) auto
      then show ?thesis using tiles_nth [OF t, of "length pre + k"] k len nth [OF k] r(7) by simp
    qed (use last nth [OF k] r(7) in simp)
    show "unat b < elimit (mid ! k)"
    proof (cases "k = 0")
      case False
      then have "elimit (hd mid) \<le> ebase (mid ! k)"
        unfolding nth [OF k] hd using k len by (intro tiles_nth_mono [OF t]) auto
      then show ?thesis using tiles_nth [OF t, of "length pre + k"] k len nth [OF k] r(6) by simp
    qed (use hd nth [OF k] r(6) in simp)
  qed
  show ?thesis
  proof (rule that [OF r(1)])
    assume "first_refused c (links r m) = None"
    then have ok: "c k = EFI_SUCCESS" if "k \<in> kinds_in b l m" for k
      using that assms(4) unfolding kinds [symmetric] r(3) first_refused_None by auto
    show "usable_range c m (unat b) (unat l)"
      unfolding usable_range_def usable_def
    proof (intro allI impI)
      fix a assume a: "unat b \<le> a \<and> a < unat b + unat l"
      then obtain k where k: "kind_at m a = Some k" using kind_at_inside [OF t, of a] assms(3) by auto
      then have "k \<in> kinds_in b l m" using a by (auto simp: kinds_in_def)
      then show "\<exists>k. kind_at m a = Some k \<and> c k = EFI_SUCCESS" using k ok by blast
    qed
  next
    fix k assume "first_refused c (links r m) = Some k"
    then have "k < length mid" "c (mid ! k) \<noteq> EFI_SUCCESS" using first_refused_Some r(3) by blast+
    then show "fst r + k < length m \<and> c (m ! (fst r + k)) \<noteq> EFI_SUCCESS \<and>
      ebase (m ! (fst r + k)) < unat b + unat l \<and> unat b < elimit (m ! (fst r + k))"
      using pos [of k] nth [of k] r(2,9) by simp
  qed
qed

text \<open>A place for \<open>l\<close> bytes: aligned, not above \<open>mx\<close>, and every address accepted.\<close>

definition fit :: "(EFI_GCD_MAP_ENTRY \<Rightarrow> efi_status) \<Rightarrow> nat \<Rightarrow> u64 \<Rightarrow> u64 \<Rightarrow> gcd_map \<Rightarrow> nat \<Rightarrow> bool" where
  "fit c n l mx m x \<longleftrightarrow> 2 ^ n dvd x \<and> x + unat l \<le> Suc (unat mx) \<and> usable_range c m x (unat l)"

text \<open>No wrap-around: the space, the alignment and the length leave room below \<open>2^64\<close>.\<close>

definition room :: "nat \<Rightarrow> nat \<Rightarrow> u64 \<Rightarrow> bool" where
  "room hi n l \<longleftrightarrow> l \<noteq> 0 \<and> n < 64 \<and> hi + 2 ^ n + unat l \<le> 2 ^ 64"

lemma fit_refused:
  assumes "tiles lo m hi" "i < length m" "c (m ! i) \<noteq> EFI_SUCCESS" "\<And>e. c (attrs_of e) = c e" "fit c n l mx m x"
    and "0 < unat l" "ebase (m ! i) < x + unat l"
  shows "elimit (m ! i) \<le> x"
proof (rule ccontr)
  assume less: "\<not> elimit (m ! i) \<le> x"
  let ?a = "max x (ebase (m ! i))"
  have "kind_at m ?a = Some (attrs_of (m ! i))"
    using less assms(2) tiles_nth [OF assms(1,2)] by (intro kind_at_entry [OF assms(1)]) auto
  moreover have "usable c m ?a" using assms(5-7) by (auto simp: fit_def usable_range_def)
  ultimately show False using assms(3,4) by (auto simp: usable_def)
qed

lemma alloc_candidate_up:
  assumes "\<not> top_down t" "room hi n l" "elimit e \<le> hi" "ebase e < elimit e"
  shows "\<exists>y. unat y + unat l \<le> 2 ^ 64 \<and> 2 ^ n dvd unat y \<and> ebase e \<le> unat y \<and>
    (\<forall>z. 2 ^ n dvd z \<longrightarrow> ebase e \<le> z \<longrightarrow> unat y \<le> z) \<and>
    alloc_candidate t l (push_bit n 1 - 1) mx b e = (if unat y + unat l \<le> Suc (unat mx) then TryBase y else StopSearch y)"
proof -
  let ?y = "(BaseAddress e + (push_bit n 1 - 1)) AND NOT (push_bit n 1 - 1)"
  have n: "n < 64" "ebase e + 2 ^ n \<le> 2 ^ 64" using assms(2-4) by (simp_all add: room_def)
  note up = align_up [OF n(1), of "BaseAddress e"]
  have y: "2 ^ n dvd unat ?y" "ebase e \<le> unat ?y" "unat ?y < ebase e + 2 ^ n"
    "\<And>z. 2 ^ n dvd z \<Longrightarrow> ebase e \<le> z \<Longrightarrow> unat ?y \<le> z"
    using up n(2) unfolding ebase_def by blast+
  then have ok: "range_ok ?y l" using assms(2-4) by (simp add: range_ok_def room_def)
  have "alloc_candidate t l (push_bit n 1 - 1) mx b e = (if unat ?y + unat l \<le> Suc (unat mx) then TryBase ?y else StopSearch ?y)"
    using assms(1) range_last [OF ok] by (simp add: alloc_candidate_def Let_def word_less_nat_alt not_less del: push_bit_of_1)
  then show ?thesis using y ok by (intro exI [of _ ?y]) (auto simp: range_ok_def)
qed

lemma search_bottom_up:
  assumes "space_ok hi m" "\<And>e. c (attrs_of e) = c e" "\<not> top_down t" "room hi n l"
    and "i < length m" "\<And>x. fit c n l mx m x \<Longrightarrow> ebase (m ! i) \<le> x"
  shows "\<exists>found b'. alloc_search c t l (push_bit n 1 - 1) mx m (Some i) b = ret (found, b') \<and>
    (case found of None \<Rightarrow> \<forall>x. \<not> fit c n l mx m x
     | Some r \<Rightarrow> fit c n l mx m (unat b') \<and> (\<forall>x. fit c n l mx m x \<longrightarrow> unat b' \<le> x) \<and>
         CoreSearchGcdMapEntry b' l m = ret (Some r) \<and> space_covers hi b' l)"
  using assms(5,6)
proof (induction "length m - i" arbitrary: i b rule: less_induct)
  case less
  note step = alloc_search.simps [of c t l "push_bit n 1 - 1" mx m "Some i" b, simplified option.case]
  have t: "tiles 0 m hi" using assms(1) by (simp add: space_ok_def)
  have pos: "0 < unat l" using assms(4) by (simp add: room_def unat_gt_0)
  have e: "ebase (m ! i) < elimit (m ! i)" "elimit (m ! i) \<le> hi" using tiles_nth [OF t less.prems(1)] by auto
  have nx: "next_link t m i = (if Suc i < length m then Some (Suc i) else None)" using assms(3) by (simp add: next_link_def)
  show ?case
  proof (cases "c (m ! i) = EFI_SUCCESS")
    case False
    have past: "elimit (m ! i) \<le> x" if "fit c n l mx m x" for x
      using fit_refused [OF t less.prems(1) False assms(2) that pos] less.prems(2) [OF that] pos by simp
    show ?thesis
    proof (cases "Suc i < length m")
      case True
      have "\<And>x. fit c n l mx m x \<Longrightarrow> ebase (m ! Suc i) \<le> x" using past tiles_nth_next [OF t True] by simp
      then show ?thesis using less.hyps [of "Suc i" b] True False step nx by (simp add: EFI_ERROR_def)
    next
      case last: False
      have "\<not> fit c n l mx m x" for x
        using past [of x] tiles_nth_last [OF t less.prems(1) last] usable_range_inside [OF _ t pos, of c x] pos
        by (auto simp: fit_def)
      then show ?thesis using False step nx last alloc_search.simps [of c t l "push_bit n 1 - 1" mx m None b]
        by (simp add: EFI_ERROR_def)
    qed
  next
    case True
    obtain y where y: "unat y + unat l \<le> 2 ^ 64" "2 ^ n dvd unat y" "ebase (m ! i) \<le> unat y"
      "\<And>z. 2 ^ n dvd z \<Longrightarrow> ebase (m ! i) \<le> z \<Longrightarrow> unat y \<le> z"
      "alloc_candidate t l (push_bit n 1 - 1) mx b (m ! i) = (if unat y + unat l \<le> Suc (unat mx) then TryBase y else StopSearch y)"
      using alloc_candidate_up [OF assms(3,4) e(2,1), of mx b] by blast
    have least: "unat y \<le> x" if "fit c n l mx m x" for x
      using y(4) [of x] less.prems(2) [OF that] that by (simp add: fit_def)
    have ok: "range_ok y l" using y(1) assms(4) by (simp add: range_ok_def room_def)
    consider "Suc (unat mx) < unat y + unat l" | "unat y + unat l \<le> Suc (unat mx)" "hi < unat y + unat l"
      | "unat y + unat l \<le> Suc (unat mx)" "unat y + unat l \<le> hi" by linarith
    then show ?thesis
    proof cases
      case 1
      then have "\<not> fit c n l mx m x" for x using least [of x] by (auto simp: fit_def)
      then show ?thesis using step True y(5) 1 by simp
    next
      case 2
      have "\<not> fit c n l mx m x" for x using least [of x] usable_range_inside [OF _ t pos, of c x] 2 by (auto simp: fit_def)
      then show ?thesis using step True y(5) 2 search_outside [OF ok assms(1) 2(2)] by simp
    next
      case 3
      obtain r where r: "CoreSearchGcdMapEntry y l m = ret (Some r)"
        "first_refused c (links r m) = None \<Longrightarrow> usable_range c m (unat y) (unat l)"
        "\<And>k. first_refused c (links r m) = Some k \<Longrightarrow> fst r + k < length m \<and> c (m ! (fst r + k)) \<noteq> EFI_SUCCESS \<and>
          ebase (m ! (fst r + k)) < unat y + unat l \<and> unat y < elimit (m ! (fst r + k))"
        using try_range [OF assms(1) ok 3(2), of c] assms(2) by metis
      show ?thesis
      proof (cases "first_refused c (links r m)")
        case None
        then have "fit c n l mx m (unat y)" using r(2) y(2) 3 by (simp add: fit_def)
        then show ?thesis using step True y(5) 3 r(1) None least ok by (simp add: space_covers_def)
      next
        case (Some k)
        let ?j = "fst r + k"
        have j: "?j < length m" "c (m ! ?j) \<noteq> EFI_SUCCESS" "ebase (m ! ?j) < unat y + unat l" "unat y < elimit (m ! ?j)"
          using r(3) [OF Some] by auto
        have "i < ?j"
        proof (rule ccontr)
          assume "\<not> i < ?j"
          moreover have "?j \<noteq> i" using j(2) True by auto
          ultimately have "elimit (m ! ?j) \<le> ebase (m ! i)" using less.prems(1) by (intro tiles_nth_mono [OF t]) auto
          then show False using j(4) y(3) by simp
        qed
        have "ebase (m ! ?j) \<le> x" if f: "fit c n l mx m x" for x
          using fit_refused [OF t j(1,2) assms(2) f pos] least [OF f] j tiles_nth [OF t j(1)] by simp
        then show ?thesis using less.hyps [of ?j y] \<open>i < ?j\<close> j(1) step True y(5) 3 r(1) Some by simp
      qed
    qed
  qed
qed

lemma align_down:
  "2 ^ n dvd unat (w AND NOT (push_bit n 1 - 1))" "unat (w AND NOT (push_bit n 1 - 1)) \<le> unat w" for w :: u64
  unfolding and_not_mask by (simp_all add: div_times_less_eq_dividend)

lemma alloc_candidate_down:
  assumes "top_down t" "room hi n l" "elimit e \<le> hi" "ebase e < elimit e"
  shows "alloc_candidate t l (push_bit n 1 - 1) mx b e = SkipEntry \<or>
    alloc_candidate t l (push_bit n 1 - 1) mx b e = StopSearch b \<or>
    (\<exists>y. alloc_candidate t l (push_bit n 1 - 1) mx b e = TryBase y \<and> 2 ^ n dvd unat y \<and>
      unat y + unat l \<le> elimit e \<and> unat y + unat l \<le> Suc (unat mx) \<and> range_ok y l)"
proof -
  have room: "l \<noteq> 0" "elimit e + unat l < 2 ^ 64" "0 < unat l"
    using assms(2,3) zero_less_power [of "2 :: nat" n] unfolding room_def unat_gt_0 by linarith+
  have sum: "unat (BaseAddress e + l) = ebase e + unat l"
    using room assms(4) unat_add_lem [of "BaseAddress e" l] by (simp add: ebase_def)
  have suc: "unat (EndAddress e + 1) = elimit e"
    using room(2) unat_add_lem [of "EndAddress e" 1] by (simp add: elimit_def)
  let ?b = "if EndAddress e > mx then mx else EndAddress e"
  have b: "Suc (unat ?b) = min (elimit e) (Suc (unat mx))"
    by (auto simp: elimit_def word_less_nat_alt)
  let ?y = "(?b + 1 - l) AND NOT (push_bit n 1 - 1)"
  show ?thesis
  proof (cases "BaseAddress e + l > mx \<or> l > EndAddress e + 1")
    case True
    then show ?thesis using assms(1) by (auto simp: alloc_candidate_def)
  next
    case False
    then have cand: "alloc_candidate t l (push_bit n 1 - 1) mx b e = TryBase ?y"
      using assms(1) by (simp add: alloc_candidate_def Let_def)
    have fits: "ebase e + unat l \<le> unat mx" "unat l \<le> elimit e"
      using False sum suc by (simp_all add: word_less_nat_alt not_less)
    have "unat ?b + unat (1 :: u64) < 2 ^ 64" using room(2) b by (simp split del: if_split)
    then have "unat (?b + 1) = Suc (unat ?b)" using unat_add_lem [of ?b 1] by (simp split del: if_split)
    moreover have "unat l \<le> Suc (unat ?b)" using b fits by simp
    ultimately have "unat (?b + 1 - l) = Suc (unat ?b) - unat l"
      using unat_sub [of l "?b + 1"] by (simp add: word_le_nat_alt)
    then have "unat ?y + unat l \<le> Suc (unat ?b)" using align_down(2) [of "?b + 1 - l" n] \<open>unat l \<le> Suc (unat ?b)\<close> by linarith
    then have y: "unat ?y + unat l \<le> elimit e" "unat ?y + unat l \<le> Suc (unat mx)" using b by simp_all
    then have "range_ok ?y l" using room by (simp add: range_ok_def)
    then show ?thesis using cand y align_down(1) [of n "?b + 1 - l"] by blast
  qed
qed

lemma search_top_down:
  assumes "space_ok hi m" "\<And>e. c (attrs_of e) = c e" "top_down t" "room hi n l"
    and "i < length m"
  shows "\<exists>found b'. alloc_search c t l (push_bit n 1 - 1) mx m (Some i) b = ret (found, b') \<and>
    (case found of None \<Rightarrow> True
     | Some r \<Rightarrow> fit c n l mx m (unat b') \<and> CoreSearchGcdMapEntry b' l m = ret (Some r) \<and> space_covers hi b' l)"
  using assms(5)
proof (induction i arbitrary: b rule: less_induct)
  case (less i)
  note step = alloc_search.simps [of c t l "push_bit n 1 - 1" mx m "Some i" b, simplified option.case]
  have t: "tiles 0 m hi" using assms(1) by (simp add: space_ok_def)
  have e: "ebase (m ! i) < elimit (m ! i)" "elimit (m ! i) \<le> hi" using tiles_nth [OF t less.prems(1)] by auto
  have next': "\<exists>found b'. alloc_search c t l (push_bit n 1 - 1) mx m (next_link t m i) b = ret (found, b') \<and>
    (case found of None \<Rightarrow> True
     | Some r \<Rightarrow> fit c n l mx m (unat b') \<and> CoreSearchGcdMapEntry b' l m = ret (Some r) \<and> space_covers hi b' l)"
  proof (cases i)
    case 0
    then show ?thesis using assms(3) alloc_search.simps [of c t l "push_bit n 1 - 1" mx m None b]
      by (simp add: next_link_def)
  next
    case (Suc j)
    then show ?thesis using less.IH [of j b] less.prems assms(3) by (simp add: next_link_def)
  qed
  show ?case
  proof (cases "c (m ! i) = EFI_SUCCESS")
    case False
    then show ?thesis using step next' by (simp add: EFI_ERROR_def)
  next
    case True
    consider "alloc_candidate t l (push_bit n 1 - 1) mx b (m ! i) = SkipEntry"
      | "alloc_candidate t l (push_bit n 1 - 1) mx b (m ! i) = StopSearch b"
      | y where "alloc_candidate t l (push_bit n 1 - 1) mx b (m ! i) = TryBase y" "2 ^ n dvd unat y"
          "unat y + unat l \<le> elimit (m ! i)" "unat y + unat l \<le> Suc (unat mx)" "range_ok y l"
      using alloc_candidate_down [OF assms(3,4) e(2,1), of mx b] by blast
    then show ?thesis
    proof cases
      case 1
      then show ?thesis using step True next' by simp
    next
      case 2
      then show ?thesis using step True by simp
    next
      case 3
      have in_hi: "unat y + unat l \<le> hi" using 3(3) e(2) by simp
      obtain r where r: "CoreSearchGcdMapEntry y l m = ret (Some r)"
        "first_refused c (links r m) = None \<Longrightarrow> usable_range c m (unat y) (unat l)"
        "\<And>k. first_refused c (links r m) = Some k \<Longrightarrow> fst r + k < length m \<and> c (m ! (fst r + k)) \<noteq> EFI_SUCCESS \<and>
          ebase (m ! (fst r + k)) < unat y + unat l \<and> unat y < elimit (m ! (fst r + k))"
        using try_range [OF assms(1) 3(5) in_hi, of c] assms(2) by metis
      show ?thesis
      proof (cases "first_refused c (links r m)")
        case None
        then have "fit c n l mx m (unat y)" using r(2) 3 by (simp add: fit_def)
        then show ?thesis using step True 3 in_hi r(1) None by (simp add: space_covers_def)
      next
        case (Some k)
        let ?j = "fst r + k"
        have j: "?j < length m" "c (m ! ?j) \<noteq> EFI_SUCCESS" "ebase (m ! ?j) < unat y + unat l"
          using r(3) [OF Some] by auto
        have "?j < i"
        proof (rule ccontr)
          assume "\<not> ?j < i"
          moreover have "?j \<noteq> i" using j(2) True by auto
          ultimately have "elimit (m ! i) \<le> ebase (m ! ?j)" using j(1) by (intro tiles_nth_mono [OF t]) auto
          then show False using j(3) 3(3) by simp
        qed
        then show ?thesis using less.IH [of ?j y] j(1) step True 3(1) r(1) Some by simp
      qed
    qed
  qed
qed

section \<open>CoreAllocateSpace\<close>

abbreviation "bottom_up t \<equiv> t \<noteq> EfiGcdAllocateAddress \<and> \<not> top_down t"

text \<open>The highest address the caller allows the last byte to have.\<close>

abbreviation "limited t \<equiv> t = EfiGcdAllocateMaxAddressSearchBottomUp \<or> t = EfiGcdAllocateMaxAddressSearchTopDown"

definition free_entry :: "u64 \<Rightarrow> u32 \<Rightarrow> u32 \<Rightarrow> EFI_GCD_MAP_ENTRY \<Rightarrow> efi_status" where
  "free_entry op mt it e = CoreAllocateSpaceCheckEntry op e mt it"

lemma free_entry_attrs: "free_entry op mt it (attrs_of e) = free_entry op mt it e"
  by (simp add: free_entry_def CoreAllocateSpaceCheckEntry_def)

lemma search_above:
  assumes "tiles lo es hi" "hi \<le> unat b"
  shows "search_loop b l i None es = None"
  using assms
proof (induction es arbitrary: lo i)
  case (Cons e es)
  then have "search_loop b l (Suc i) None es = None" by (intro Cons.IH [of "elimit e"]) auto
  then show ?case using Cons.prems tiles_le [of "elimit e" es hi] by (simp add: end_le)
qed simp

text \<open>The search of each allocation type on a good map.\<close>

lemma find_at_address:
  assumes "space_ok hi m" "\<And>e. c (attrs_of e) = c e" "room hi n l"
  shows "(\<exists>st. alloc_find c EfiGcdAllocateAddress n l m b = ret (Inl st, b) \<and> st \<noteq> EFI_SUCCESS) \<or>
    (\<exists>r. alloc_find c EfiGcdAllocateAddress n l m b = ret (Inr r, b) \<and> 2 ^ n dvd unat b \<and>
      usable_range c m (unat b) (unat l) \<and> CoreSearchGcdMapEntry b l m = ret (Some r) \<and> space_covers hi b l)"
proof (cases "b AND (push_bit n 1 - 1) = 0")
  case False
  then show ?thesis by (simp add: alloc_find_def del: push_bit_of_1)
next
  case True
  have "b AND NOT (push_bit n 1 - 1) = b"
  proof (rule bit_eqI)
    fix k assume "possible_bit TYPE(u64) k"
    then have k: "k < 64" by simp
    have "bit (b AND (push_bit n 1 - 1)) k = False" using True by simp
    then show "bit (b AND NOT (push_bit n 1 - 1)) k = bit b k"
      using k by (auto simp: bit_simps simp del: push_bit_of_1)
  qed
  then have dvd: "2 ^ n dvd unat b" using align_down(1) [of n b] by simp
  show ?thesis
  proof (cases "range_ok b l \<and> unat b + unat l \<le> hi")
    case False
    have "search_loop b l 0 None m = None"
    proof (cases "hi \<le> unat b")
      case True
      then show ?thesis using assms(1) search_above [of 0 m hi b l 0] by (simp add: space_ok_def)
    next
      case inside: False
      then have "range_ok b l" using assms(3) by (simp add: range_ok_def room_def)
      then show ?thesis using search_outside [OF _ assms(1)] False
        by (simp add: CoreSearchGcdMapEntry_def range_ok_def)
    qed
    then show ?thesis using True assms(3)
      by (simp add: alloc_find_def CoreSearchGcdMapEntry_def room_def del: push_bit_of_1)
  next
    case inside: True
    obtain r where r: "CoreSearchGcdMapEntry b l m = ret (Some r)"
      "first_refused c (links r m) = None \<Longrightarrow> usable_range c m (unat b) (unat l)"
      using try_range [of hi m b l c] assms(1,2) inside by metis
    have "check_entries c (links r m) = EFI_SUCCESS \<longleftrightarrow> first_refused c (links r m) = None"
      by (simp add: check_entries_success first_refused_None)
    then show ?thesis using True r inside dvd
      by (cases r) (auto simp: alloc_find_def Let_def EFI_ERROR_def space_covers_def simp del: push_bit_of_1)
  qed
qed

lemma find_by_search:
  assumes "space_ok hi m" "m \<noteq> []" "\<And>e. c (attrs_of e) = c e" "room hi n l" "t \<noteq> EfiGcdAllocateAddress"
  shows "(\<exists>b'. alloc_find c t n l m b = ret (Inl EFI_NOT_FOUND, b') \<and>
      (bottom_up t \<longrightarrow> (\<forall>x. \<not> fit c n l (max_address t b m) m x))) \<or>
    (\<exists>r b'. alloc_find c t n l m b = ret (Inr r, b') \<and> fit c n l (max_address t b m) m (unat b') \<and>
      (bottom_up t \<longrightarrow> (\<forall>x. fit c n l (max_address t b m) m x \<longrightarrow> unat b' \<le> x)) \<and>
      CoreSearchGcdMapEntry b' l m = ret (Some r) \<and> space_covers hi b' l)"
proof -
  let ?mx = "max_address t b m"
  have find: "alloc_find c t n l m b =
    bind_run (alloc_search c t l (push_bit n 1 - 1) ?mx m (first_link t m) b)
      (\<lambda>(found, b1). ret (case found of None \<Rightarrow> Inl EFI_NOT_FOUND | Some r \<Rightarrow> Inr r, b1))"
    using assms(2,5) by (simp add: alloc_find_def Let_def del: push_bit_of_1)
  show ?thesis
  proof (cases "top_down t")
    case True
    then have "first_link t m = Some (length m - 1)" "length m - 1 < length m"
      using assms(2) by (simp_all add: first_link_def)
    moreover from this obtain found b' where
      "alloc_search c t l (push_bit n 1 - 1) ?mx m (Some (length m - 1)) b = ret (found, b')"
      "case found of None \<Rightarrow> True
       | Some r \<Rightarrow> fit c n l ?mx m (unat b') \<and> CoreSearchGcdMapEntry b' l m = ret (Some r) \<and> space_covers hi b' l"
      using search_top_down [of hi m c t n l "length m - 1" ?mx b] assms(1,3,4) True by metis
    ultimately show ?thesis using find True by (cases found) (auto simp del: push_bit_of_1)
  next
    case False
    then have first: "first_link t m = Some 0" "0 < length m" using assms(2) by (simp_all add: first_link_def)
    have base: "ebase (m ! 0) \<le> x" for x
      using assms(1,2) by (cases m) (auto simp: space_ok_def)
    obtain found b' where
      "alloc_search c t l (push_bit n 1 - 1) ?mx m (first_link t m) b = ret (found, b')"
      "case found of None \<Rightarrow> \<forall>x. \<not> fit c n l ?mx m x
       | Some r \<Rightarrow> fit c n l ?mx m (unat b') \<and> (\<forall>x. fit c n l ?mx m x \<longrightarrow> unat b' \<le> x) \<and>
           CoreSearchGcdMapEntry b' l m = ret (Some r) \<and> space_covers hi b' l"
      using search_bottom_up [of hi m c t n l 0 ?mx b, OF assms(1,3) False assms(4) first(2) base] unfolding first(1) by blast
    then show ?thesis using find by (cases found) (auto simp del: push_bit_of_1)
  qed
qed

text \<open>Parameters that pass the checks at the start of \<open>CoreAllocateSpace\<close>.\<close>

definition alloc_params :: "u32 \<Rightarrow> u32 \<Rightarrow> u32 \<Rightarrow> u64 \<Rightarrow> bool" where
  "alloc_params t mt it ih \<longleftrightarrow>
     t < EfiGcdMaxAllocateType \<and> mt < EfiGcdMemoryTypeMaximum \<and> it < EfiGcdIoTypeMaximum \<and> ih \<noteq> NULL"

lemma allocate_space_cases:
  assumes "operation_map op s = Some m" "space_ok hi m" "m \<noteq> []" "room hi (unat al) l" "alloc_params t mt it ih"
  defines "c \<equiv> free_entry op mt it"
  obtains
    (not_found) st b' where "CoreAllocateSpace env op t mt it al l (Some b) ih dh s = ret (st, Some b', s)" "st \<noteq> EFI_SUCCESS"
      "bottom_up t \<Longrightarrow> st = EFI_NOT_FOUND" "\<And>x. bottom_up t \<Longrightarrow> \<not> fit c (unat al) l (max_address t b m) m x"
  | (no_pool) b' where "fst (CoreAllocateGcdMapEntry env (gworld s)) \<noteq> EFI_SUCCESS"
      "CoreAllocateSpace env op t mt it al l (Some b) ih dh s =
         ret (EFI_OUT_OF_RESOURCES, Some b', s\<lparr>gworld := snd (CoreAllocateGcdMapEntry env (gworld s))\<rparr>)"
  | (allocated) b' m' where "fst (CoreAllocateGcdMapEntry env (gworld s)) = EFI_SUCCESS"
      "CoreAllocateSpace env op t mt it al l (Some b) ih dh s =
         ret (EFI_SUCCESS, Some b',
           set_operation_map op m' (s\<lparr>gworld := snd (CoreAllocateGcdMapEntry env (gworld s))\<rparr>))"
      "2 ^ unat al dvd unat b'" "usable_range c m (unat b') (unat l)" "t = EfiGcdAllocateAddress \<Longrightarrow> b' = b"
      "limited t \<Longrightarrow> unat b' + unat l \<le> Suc (unat b)"
      "\<And>x. bottom_up t \<Longrightarrow> fit c (unat al) l (max_address t b m) m x \<Longrightarrow> unat b' \<le> x"
      "space_covers hi b' l" "update_range (\<lambda>e. e\<lparr>ImageHandle := ih, DeviceHandle := dh\<rparr>) b' l m = ret m'" "space_ok hi m'"
      "kind_at m' = space_update (\<lambda>e. e\<lparr>ImageHandle := ih, DeviceHandle := dh\<rparr>) b' l (kind_at m)"
proof -
  have c: "c (attrs_of e) = c e" for e unfolding c_def by (rule free_entry_attrs)
  let ?w = "\<lambda>e. e\<lparr>ImageHandle := ih, DeviceHandle := dh\<rparr>"
  have params: "\<not> t \<ge> EfiGcdMaxAllocateType" "\<not> mt \<ge> EfiGcdMemoryTypeMaximum" "\<not> it \<ge> EfiGcdIoTypeMaximum" "ih \<noteq> NULL"
    "\<not> al \<ge> 64" "l \<noteq> 0"
    using assms(4,5) by (auto simp: alloc_params_def room_def word_le_nat_alt word_less_nat_alt)
  obtain st1 w1 where pool: "CoreAllocateGcdMapEntry env (gworld s) = (st1, w1)" by (cases "CoreAllocateGcdMapEntry env (gworld s)")
  have run: "CoreAllocateSpace env op t mt it al l (Some b) ih dh s =
    bind_run (alloc_find c t (unat al) l m b) (\<lambda>(found, b1).
      case found of
        Inl Status \<Rightarrow> ret (Status, Some b1, s)
      | Inr r \<Rightarrow>
          if EFI_ERROR st1 then ret (EFI_OUT_OF_RESOURCES, Some b1, s\<lparr>gworld := w1\<rparr>)
          else bind_run (convert_range ?w b1 l r m)
            (\<lambda>Map'. ret (EFI_SUCCESS, Some b1, set_operation_map op Map' (s\<lparr>gworld := w1\<rparr>))))"
    unfolding CoreAllocateSpace_def option.case c_def free_entry_def [abs_def] pool Let_def prod.case
    using params assms(1) by simp
  have found: thesis if find: "alloc_find c t (unat al) l m b = ret (Inr r, b')" "CoreSearchGcdMapEntry b' l m = ret (Some r)"
      "2 ^ unat al dvd unat b'" "usable_range c m (unat b') (unat l)" "t = EfiGcdAllocateAddress \<Longrightarrow> b' = b"
      "limited t \<Longrightarrow> unat b' + unat l \<le> Suc (unat b)"
      "\<And>x. bottom_up t \<Longrightarrow> fit c (unat al) l (max_address t b m) m x \<Longrightarrow> unat b' \<le> x" "space_covers hi b' l"
    for r b'
  proof (cases "st1 = EFI_SUCCESS")
    case False
    then show thesis using run no_pool [of b'] find(1) pool by (simp add: EFI_ERROR_def)
  next
    case True
    have cov: "range_ok b' l" "unat b' + unat l \<le> hi" using find(8) by (simp_all add: space_covers_def)
    obtain r' m' where m': "CoreSearchGcdMapEntry b' l m = ret (Some r')" "convert_range ?w b' l r' m = ret m'"
      "space_ok hi m'" "kind_at m' = space_update ?w b' l (kind_at m)"
      using convert_range_update [OF cov(1) attr_write_handles assms(2) cov(2)] by metis
    then have "r' = r" using find(2) by simp
    then have "CoreAllocateSpace env op t mt it al l (Some b) ih dh s = 
      ret (EFI_SUCCESS, Some b', set_operation_map op m' (s\<lparr>gworld := w1\<rparr>))"
      using run find(1) True m'(2) by simp
    moreover have "update_range ?w b' l m = ret m'" using m'(1,2) by (simp add: update_range_def)
    ultimately show thesis using allocated [of b' m', OF _ _ find(3-8)] pool True m'(3,4) by simp
  qed
  show thesis
  proof (cases "t = EfiGcdAllocateAddress")
    case True
    consider st where "alloc_find c t (unat al) l m b = ret (Inl st, b)" "st \<noteq> EFI_SUCCESS"
      | r where "alloc_find c t (unat al) l m b = ret (Inr r, b)" "2 ^ unat al dvd unat b"
        "usable_range c m (unat b) (unat l)" "CoreSearchGcdMapEntry b l m = ret (Some r)" "space_covers hi b l"
      using find_at_address [of hi m c "unat al" l b, OF assms(2) c assms(4)] unfolding True by blast
    then show thesis
    proof cases
      case 1
      show thesis by (rule not_found [of st b]) (use 1 run True in simp_all)
    next
      case 2
      show thesis by (rule found [OF 2(1,4,2,3) _ _ _ 2(5)]) (use True in simp_all)
    qed
  next
    case False
    consider b' where "alloc_find c t (unat al) l m b = ret (Inl EFI_NOT_FOUND, b')"
        "bottom_up t \<longrightarrow> (\<forall>x. \<not> fit c (unat al) l (max_address t b m) m x)"
      | r b' where "alloc_find c t (unat al) l m b = ret (Inr r, b')" "fit c (unat al) l (max_address t b m) m (unat b')"
        "bottom_up t \<longrightarrow> (\<forall>x. fit c (unat al) l (max_address t b m) m x \<longrightarrow> unat b' \<le> x)"
        "CoreSearchGcdMapEntry b' l m = ret (Some r)" "space_covers hi b' l"
      using find_by_search [of hi m c "unat al" l t b, OF assms(2,3) c assms(4) False] by blast
    then show thesis
    proof cases
      case 1
      show thesis by (rule not_found [of EFI_NOT_FOUND b']) (use 1 run in auto)
    next
      case 2
      show thesis by (rule found [OF 2(1,4) _ _ _ _ _ 2(5)])
        (use 2 False in \<open>auto simp: fit_def max_address_def\<close>)
    qed
  qed
qed

text \<open>
  What it means that an address is free, apart from the code that looks for it: no image owns it, and it is of the type asked for in
  the space the operation is about.  A place for an allocation is an aligned base below the limit, if there is one, with free addresses only.
\<close>

definition free_address :: "u64 \<Rightarrow> u32 \<Rightarrow> u32 \<Rightarrow> gcd_map \<Rightarrow> nat \<Rightarrow> bool" where
  "free_address op mt it m a \<longleftrightarrow> (\<exists>k. kind_at m a = Some k \<and> ImageHandle k = NULL \<and>
     (op = GCD_ALLOCATE_MEMORY_OPERATION \<and> GcdMemoryType k = mt \<or> op = GCD_ALLOCATE_IO_OPERATION \<and> GcdIoType k = it))"

definition free_place :: "u64 \<Rightarrow> u32 \<Rightarrow> u32 \<Rightarrow> u32 \<Rightarrow> nat \<Rightarrow> u64 \<Rightarrow> u64 \<Rightarrow> gcd_map \<Rightarrow> nat \<Rightarrow> bool" where
  "free_place op mt it t n l b m x \<longleftrightarrow> 2 ^ n dvd x \<and> (limited t \<longrightarrow> x + unat l \<le> Suc (unat b)) \<and>
     (\<forall>a. x \<le> a \<and> a < x + unat l \<longrightarrow> free_address op mt it m a)"

lemma free_entry_iff:
  "free_entry op mt it k = EFI_SUCCESS \<longleftrightarrow> ImageHandle k = NULL \<and>
     (op = GCD_ALLOCATE_MEMORY_OPERATION \<and> GcdMemoryType k = mt \<or> op = GCD_ALLOCATE_IO_OPERATION \<and> GcdIoType k = it)"
  by (simp add: free_entry_def CoreAllocateSpaceCheckEntry_def)

lemma free_address_usable: "free_address op mt it m a \<longleftrightarrow> usable (free_entry op mt it) m a"
  by (simp only: free_address_def usable_def free_entry_iff)

lemma fit_free_place:
  assumes "space_ok hi m" "m \<noteq> []" "l \<noteq> 0"
  shows "fit (free_entry op mt it) n l (max_address t b m) m x \<longleftrightarrow> free_place op mt it t n l b m x"
proof -
  have t: "tiles 0 m hi" using assms(1) by (simp add: space_ok_def)
  have "elimit (last m) = hi" using last_tiles [OF t assms(2)] by simp
  then have "x + unat l \<le> Suc (unat (max_address t b m)) \<longleftrightarrow> (limited t \<longrightarrow> x + unat l \<le> Suc (unat b))"
    if "usable_range (free_entry op mt it) m x (unat l)"
    using usable_range_inside [OF that t] assms(3) by (auto simp: max_address_def elimit_def unat_gt_0)
  then show ?thesis by (auto simp: fit_def free_place_def free_address_usable usable_range_def)
qed

text \<open>C10: (safety) The allocation services on a good map, for parameters that pass the checks (the types are in range and there is an
  image handle), a length that is not 0, an alignment below 2^64, and a space, an alignment and a length whose sum leaves
  room below \<open>2^64\<close>: \<open>CoreAllocateSpace\<close> returns, whatever the allocation type.  If it succeeds, the
  base address it gives is aligned, it is the caller's own for an allocation at an address, the range does not go above
  the caller's limit if there is one, none of its addresses belonged to an image and each was of the type asked for, the new map is
  good, and in it these addresses and no others have the caller's handles.  If it does not succeed, both maps are as they were.\<close>

theorem allocate_space_gives_free_range:
  assumes "operation_map op s = Some m" "space_ok hi m" "m \<noteq> []" "room hi (unat al) l" "alloc_params t mt it ih"
  shows "\<exists>st b' s'. CoreAllocateSpace env op t mt it al l (Some b) ih dh s = ret (st, Some b', s') \<and>
    (if st = EFI_SUCCESS
     then 2 ^ unat al dvd unat b' \<and> (t = EfiGcdAllocateAddress \<longrightarrow> b' = b) \<and>
       (limited t \<longrightarrow> unat b' + unat l \<le> Suc (unat b)) \<and> unat b' + unat l \<le> hi \<and>
       (\<forall>a. unat b' \<le> a \<and> a < unat b' + unat l \<longrightarrow>
         (\<exists>k. kind_at m a = Some k \<and> ImageHandle k = NULL \<and>
           (op = GCD_ALLOCATE_MEMORY_OPERATION \<and> GcdMemoryType k = mt \<or> op = GCD_ALLOCATE_IO_OPERATION \<and> GcdIoType k = it))) \<and>
       (\<exists>m' w. s' = set_operation_map op m' (s\<lparr>gworld := w\<rparr>) \<and> space_ok hi m' \<and>
         kind_at m' = space_update (\<lambda>e. e\<lparr>ImageHandle := ih, DeviceHandle := dh\<rparr>) b' l (kind_at m))
     else \<exists>w. s' = s\<lparr>gworld := w\<rparr>)"
proof (rule allocate_space_cases [OF assms, of env b dh])
  fix st b' assume "CoreAllocateSpace env op t mt it al l (Some b) ih dh s = ret (st, Some b', s)" "st \<noteq> EFI_SUCCESS"
  then show ?thesis by (intro exI [of _ st] exI [of _ b'] exI [of _ s]) (auto intro: exI [of _ "gworld s"])
next
  fix b' assume "CoreAllocateSpace env op t mt it al l (Some b) ih dh s =
    ret (EFI_OUT_OF_RESOURCES, Some b', s\<lparr>gworld := snd (CoreAllocateGcdMapEntry env (gworld s))\<rparr>)"
  then show ?thesis by auto
next
  fix b' m'
  let ?w = "\<lambda>e. e\<lparr>ImageHandle := ih, DeviceHandle := dh\<rparr>" and ?g = "snd (CoreAllocateGcdMapEntry env (gworld s))"
  assume run: "CoreAllocateSpace env op t mt it al l (Some b) ih dh s =
      ret (EFI_SUCCESS, Some b', set_operation_map op m' (s\<lparr>gworld := ?g\<rparr>))"
    and r: "2 ^ unat al dvd unat b'" "usable_range (free_entry op mt it) m (unat b') (unat l)"
      "t = EfiGcdAllocateAddress \<Longrightarrow> b' = b" "limited t \<Longrightarrow> unat b' + unat l \<le> Suc (unat b)" "space_covers hi b' l"
      "space_ok hi m'" "kind_at m' = space_update ?w b' l (kind_at m)"
  have "\<exists>k. kind_at m a = Some k \<and> ImageHandle k = NULL \<and>
      (op = GCD_ALLOCATE_MEMORY_OPERATION \<and> GcdMemoryType k = mt \<or> op = GCD_ALLOCATE_IO_OPERATION \<and> GcdIoType k = it)"
    if "unat b' \<le> a \<and> a < unat b' + unat l" for a
    using r(2) that free_address_usable [of op mt it m a] by (simp add: usable_range_def free_address_def)
  then show ?thesis using run r
    by (intro exI [of _ EFI_SUCCESS] exI [of _ b'] exI [of _ "set_operation_map op m' (s\<lparr>gworld := ?g\<rparr>)"])
      (auto simp: space_covers_def)
qed

lemma sample_alloc_params: "alloc_params t 0 0 5 \<longleftrightarrow> t < EfiGcdMaxAllocateType" "room (2 ^ 36) (unat (12 :: u64)) 0x1000"
  by (simp_all add: alloc_params_def room_def)

lemma sample_memory_map: "mGcdMemorySpaceMap (initial_maps 36 16 ()) \<noteq> []"
  by (simp add: initial_maps_def)

theorem allocate_space_gives_free_range_witness:
  "\<exists>st b' s'. CoreAllocateSpace sample_env GCD_ALLOCATE_MEMORY_OPERATION 4 0 0 12 0x1000 (Some 0x80000000) 5 0 (initial_maps 36 16 ()) =
      ret (st, Some b', s') \<and>
    (if st = EFI_SUCCESS then 2 ^ unat (12 :: u64) dvd unat b' \<and> unat b' + unat (0x1000 :: u64) \<le> Suc (unat (0x80000000 :: u64))
     else \<exists>w. s' = initial_maps 36 16 ()\<lparr>gworld := w\<rparr>)"
proof -
  have m: "operation_map GCD_ALLOCATE_MEMORY_OPERATION (initial_maps 36 16 ()) = Some (mGcdMemorySpaceMap (initial_maps 36 16 ()))"
    by (simp add: operation_map_def)
  have "alloc_params 4 0 0 5" by (rule iffD2 [OF sample_alloc_params(1)]) simp
  from allocate_space_gives_free_range [OF m _ sample_memory_map sample_alloc_params(2) this, of sample_env "0x80000000" 0]
  obtain st b' s' where "CoreAllocateSpace sample_env GCD_ALLOCATE_MEMORY_OPERATION 4 0 0 12 0x1000 (Some 0x80000000) 5 0
      (initial_maps 36 16 ()) = ret (st, Some b', s')"
    "if st = EFI_SUCCESS then 2 ^ unat (12 :: u64) dvd unat b' \<and> unat b' + unat (0x1000 :: u64) \<le> Suc (unat (0x80000000 :: u64))
     else \<exists>w. s' = initial_maps 36 16 ()\<lparr>gworld := w\<rparr>"
    using sample_maps_ok by (auto split: if_splits)
  then show ?thesis by blast
qed

text \<open>C8: (functional) The search from the bottom up is a first fit.  Let the map be good, the parameters pass the checks (the types are in range
  and there is an image handle), the length not be 0, the alignment be below 2^64, and the sum of the size of the space, the alignment and the length not exceed
  2^64.  Then what \<open>CoreAllocateSpace\<close> gives is the lowest aligned base address of a range of that length in which no address
  belongs to an image and all are of the type asked for, that ends at or below the caller's limit if there is one, whatever entries the range spans; it
  returns \<open>EFI_NOT_FOUND\<close> only if there is no such address; and the only other outcome is that the pool is empty.\<close>

theorem bottom_up_is_first_fit:
  assumes "operation_map op s = Some m" "space_ok hi m" "m \<noteq> []" "room hi (unat al) l" "alloc_params t mt it ih"
    and "t \<noteq> EfiGcdAllocateAddress" "\<not> top_down t"
    and "CoreAllocateSpace env op t mt it al l (Some b) ih dh s = ret (st, Some b', s')"
  shows "st = EFI_SUCCESS \<and> free_place op mt it t (unat al) l b m (unat b') \<and>
        (\<forall>x. free_place op mt it t (unat al) l b m x \<longrightarrow> unat b' \<le> x)
    \<or> st = EFI_NOT_FOUND \<and> (\<nexists>x. free_place op mt it t (unat al) l b m x)
    \<or> st = EFI_OUT_OF_RESOURCES \<and> fst (CoreAllocateGcdMapEntry env (gworld s)) \<noteq> EFI_SUCCESS"
proof -
  have fp: "fit (free_entry op mt it) (unat al) l (max_address t b m) m x \<longleftrightarrow> free_place op mt it t (unat al) l b m x" for x
    using fit_free_place [OF assms(2,3)] assms(4) by (simp add: room_def)
  show ?thesis
  proof (rule allocate_space_cases [OF assms(1-5), of env b dh])
    fix b'' m'
    let ?g = "snd (CoreAllocateGcdMapEntry env (gworld s))"
    assume run: "CoreAllocateSpace env op t mt it al l (Some b) ih dh s =
        ret (EFI_SUCCESS, Some b'', set_operation_map op m' (s\<lparr>gworld := ?g\<rparr>))"
      and r: "2 ^ unat al dvd unat b''" "usable_range (free_entry op mt it) m (unat b'') (unat l)"
        "limited t \<Longrightarrow> unat b'' + unat l \<le> Suc (unat b)"
        "\<And>x. bottom_up t \<Longrightarrow> fit (free_entry op mt it) (unat al) l (max_address t b m) m x \<Longrightarrow> unat b'' \<le> x"
    have "free_place op mt it t (unat al) l b m (unat b'')"
      using r(1-3) by (simp add: free_place_def free_address_usable usable_range_def)
    then show ?thesis using run r(4) assms(6-8) by (auto simp: fp)
  qed (use assms(6-8) in \<open>auto simp: fp\<close>)
qed

theorem bottom_up_is_first_fit_witness:
  "free_place GCD_ALLOCATE_MEMORY_OPERATION 0 0 0 (unat (12 :: u64)) 0x1000 0 (mGcdMemorySpaceMap (initial_maps 36 16 ())) 0"
proof -
  let ?s = "initial_maps 36 16 ()"
  have m: "operation_map GCD_ALLOCATE_MEMORY_OPERATION ?s = Some (mGcdMemorySpaceMap ?s)"
    by (simp add: operation_map_def)
  have "(case CoreAllocateSpace sample_env GCD_ALLOCATE_MEMORY_OPERATION 0 0 0 12 0x1000 (Some 0) 5 0 ?s of
      Some (Inr (EFI_SUCCESS, Some b', s')) \<Rightarrow> b' = 0 | _ \<Rightarrow> False)"
    by code_simp
  then obtain s' where run: "CoreAllocateSpace sample_env GCD_ALLOCATE_MEMORY_OPERATION 0 0 0 12 0x1000 (Some 0) 5 0 ?s =
      ret (EFI_SUCCESS, Some 0, s')"
    unfolding ret_def by (auto split: option.splits sum.splits prod.splits efi_status.splits)
  have "alloc_params 0 0 0 5" by (rule iffD2 [OF sample_alloc_params(1)]) simp
  from bottom_up_is_first_fit [OF m _ sample_memory_map sample_alloc_params(2) this _ _ run]
  show ?thesis using sample_maps_ok by (simp add: top_down_def)
qed

section \<open>Allocation and release\<close>

lemma debug_allocate_ret: "debug_allocate env al (Some b) k = ret x \<Longrightarrow> k = ret x"
  by (auto simp: debug_allocate_def assert_if_def split: if_splits)

lemma pool_ok: "(\<And>w. fst (AllocatePool env w)) \<Longrightarrow> fst (CoreAllocateGcdMapEntry env w) = EFI_SUCCESS"
  by (auto simp: CoreAllocateGcdMapEntry_def split: prod.split)
    (metis fst_conv)+

lemma kinds_in_update:
  "k \<in> kinds_in b l m' \<Longrightarrow> kind_at m' = space_update w b l (kind_at m) \<Longrightarrow> \<exists>k0 \<in> kinds_in b l m. k = w k0"
  unfolding kinds_in_def space_update_def by fastforce

text \<open>C15: (roundtrip) What \<open>CoreAllocateMemorySpace\<close> allocates, \<open>CoreFreeMemorySpace\<close> gives back.  On a good map
  in which an entry without an image handle has no device handle, for parameters that pass the checks, a length that is not 0, an alignment below 2^64, and a space,
  an alignment and a length whose sum does not exceed 2^64 (beyond that the computation of the base address can wrap): freeing the range that an allocation returned succeeds (if the
  pool has room for the spare entries) and leaves the map entry for entry as it was before the allocation.\<close>

theorem allocate_then_free:
  assumes "space_ok hi (mGcdMemorySpaceMap s)" "mGcdMemorySpaceMap s \<noteq> []" "room hi (unat al) l" "alloc_params t mt 0 ih"
    and "\<And>e. e \<in> set (mGcdMemorySpaceMap s) \<Longrightarrow> ImageHandle e = NULL \<Longrightarrow> DeviceHandle e = NULL"
    and "\<And>w. fst (AllocatePool env w)"
    and "CoreAllocateMemorySpace env t mt al l (Some b) ih dh s = ret (EFI_SUCCESS, Some b', s1)"
  shows "\<exists>w. CoreFreeMemorySpace env b' l s1 = ret (EFI_SUCCESS, s\<lparr>gworld := w\<rparr>)"
proof -
  let ?op = "GCD_ALLOCATE_MEMORY_OPERATION" and ?free = "GCD_FREE_MEMORY_OPERATION" and ?m = "mGcdMemorySpaceMap s"
  let ?w = "\<lambda>e. e\<lparr>ImageHandle := ih, DeviceHandle := dh\<rparr>" and ?v = "convert_entry ?free 0 0 0 0"
  have op: "operation_map ?op s = Some ?m" by (simp add: operation_map_def)
  have run: "CoreAllocateSpace env ?op t mt 0 al l (Some b) ih dh s = ret (EFI_SUCCESS, Some b', s1)"
    using assms(7) unfolding CoreAllocateMemorySpace_def by (rule debug_allocate_ret)
  obtain m' g where s1: "s1 = set_operation_map ?op m' (s\<lparr>gworld := g\<rparr>)"
    and free: "usable_range (free_entry ?op mt 0) ?m (unat b') (unat l)" and cov: "space_covers hi b' l"
    and upd: "update_range ?w b' l ?m = ret m'" and ok': "space_ok hi m'" and at: "kind_at m' = space_update ?w b' l (kind_at ?m)"
    by (rule allocate_space_cases [OF op assms(1-4), of env b dh]) (use run in auto)
  have op': "operation_map ?free s1 = Some m'" unfolding s1 by (simp add: operation_map_def set_operation_map_def)
  have range: "range_ok b' l" and in_hi: "unat b' + unat l \<le> hi" using cov by (simp_all add: space_covers_def)
  have restore: "bind_run (update_range ?w b' l ?m) (update_range ?v b' l) = ret ?m"
  proof (rule gcd.upd_restores [OF assms(1) cov attr_write_handles attr_write_convert_entry])
    fix a k assume a: "unat b' \<le> a" "a < unat b' + unat l" "kind_at ?m a = Some k"
    then obtain e where "e \<in> set ?m" "k = attrs_of e" using kind_at_member by blast
    moreover have "ImageHandle k = NULL"
      using free a by (auto simp: usable_range_def usable_def free_entry_def CoreAllocateSpaceCheckEntry_def split: if_splits)
    ultimately have "ImageHandle k = NULL" "DeviceHandle k = NULL" using assms(5) by auto
    then show "?v (?w k) = k" by (simp add: convert_entry_def)
  qed
  have checks: "convert_check ?free b' l 0 0 k = EFI_SUCCESS" if "k \<in> kinds_in b' l m'" for k
    using kinds_in_update [OF that at] assms(4) by (auto simp: convert_check_def alloc_params_def)
  show ?thesis unfolding CoreFreeMemorySpace_def
  proof (rule convert_space_cases [OF op' ok' range, of env 0 0 0 0])
    fix w m'' assume conv: "CoreConvertSpace env ?free 0 0 b' l 0 0 s1 = ret (EFI_SUCCESS, set_operation_map ?free m'' (s1\<lparr>gworld := w\<rparr>))"
      and "update_range ?v b' l m' = ret m''"
    then have "m'' = ?m" using restore upd by simp
    then have "set_operation_map ?free m'' (s1\<lparr>gworld := w\<rparr>) = s\<lparr>gworld := w\<rparr>"
      unfolding s1 by (simp add: set_operation_map_def)
    then show "\<exists>w. CoreConvertSpace env ?free 0 0 b' l 0 0 s1 = ret (EFI_SUCCESS, s\<lparr>gworld := w\<rparr>)" using conv by auto
  qed (use in_hi checks pool_ok [OF assms(6)] in \<open>auto simp: set_cpu_attributes_def\<close>)
qed

theorem allocate_then_free_witness:
  "\<exists>s1 w. CoreAllocateMemorySpace sample_env 0 0 12 0x1000 (Some 0) 5 9 (initial_maps 36 16 ()) = ret (EFI_SUCCESS, Some 0, s1) \<and>
    CoreFreeMemorySpace sample_env 0 0x1000 s1 = ret (EFI_SUCCESS, initial_maps 36 16 ()\<lparr>gworld := w\<rparr>)"
proof -
  let ?s = "initial_maps 36 16 ()"
  have "(case CoreAllocateMemorySpace sample_env 0 0 12 0x1000 (Some 0) 5 9 ?s of
      Some (Inr (EFI_SUCCESS, Some b', s')) \<Rightarrow> b' = 0 | _ \<Rightarrow> False)"
    by code_simp
  then obtain s1 where run: "CoreAllocateMemorySpace sample_env 0 0 12 0x1000 (Some 0) 5 9 ?s = ret (EFI_SUCCESS, Some 0, s1)"
    unfolding ret_def by (auto split: option.splits sum.splits prod.splits efi_status.splits)
  have "space_ok (2 ^ 36) (mGcdMemorySpaceMap ?s)" using sample_maps_ok by simp
  moreover have "alloc_params 0 0 0 5" by (rule iffD2 [OF sample_alloc_params(1)]) simp
  ultimately have "\<exists>w. CoreFreeMemorySpace sample_env 0 0x1000 s1 = ret (EFI_SUCCESS, ?s\<lparr>gworld := w\<rparr>)"
    by (rule allocate_then_free [OF _ sample_memory_map sample_alloc_params(2) _ _ _ run])
      (auto simp: initial_maps_def mGcdMemorySpaceMapEntryTemplate_def sample_env_def)
  then show ?thesis using run by blast
qed

section \<open>Limits of the search\<close>

text \<open>The search from the top down misses ranges that the search from the bottom up finds.  It skips an entry whose
  base plus the length is above the highest address, where it should be above the address after it: in the map at start, of 36 address lines, all
  free, a request for the whole space is refused from the top down and granted from the bottom up.\<close>

theorem top_down_misses_exact_fit:
  "\<exists>s'. CoreAllocateMemorySpace sample_env EfiGcdAllocateAnySearchTopDown 0 12 0x1000000000 (Some 0) 5 0 (initial_maps 36 16 ()) =
      ret (EFI_NOT_FOUND, Some 0, initial_maps 36 16 ()) \<and>
    CoreAllocateMemorySpace sample_env 0 0 12 0x1000000000 (Some 0) 5 0 (initial_maps 36 16 ()) = ret (EFI_SUCCESS, Some 0, s')"
proof -
  let ?run = "\<lambda>t. CoreAllocateMemorySpace sample_env t 0 12 0x1000000000 (Some 0) 5 0 (initial_maps 36 16 ())"
  have "?run EfiGcdAllocateAnySearchTopDown = ret (EFI_NOT_FOUND, Some 0, initial_maps 36 16 ())"
    by code_simp
  moreover have "(case ?run 0 of Some (Inr (EFI_SUCCESS, Some b', s')) \<Rightarrow> b' = 0 | _ \<Rightarrow> False)"
    by code_simp
  ultimately show ?thesis
    unfolding ret_def by (auto split: option.splits sum.splits prod.splits efi_status.splits)
qed

section \<open>Descriptors\<close>




section \<open>Segments smaller than a page\<close>

text \<open>\<open>CoreAddMemorySpace\<close> computes the length of the whole pages of a segment of system memory as if there were one.
  For 16 bytes at address 16, in a space of 36 address lines, the segment is added to the map, and then the
  subtraction wraps: the loop that allocates page by page runs \<open>2^52 - 1\<close> times, from address 0x1000.\<close>

theorem add_memory_below_a_page:
  "\<exists>s1 st. CoreInternalAddMemorySpace sample_env EfiGcdMemoryTypeSystemMemory 0x10 0x10 0 (initial_maps 36 16 ()) = ret (EFI_SUCCESS, s1) \<and>
    CoreAddMemorySpace sample_env EfiGcdMemoryTypeSystemMemory 0x10 0x10 0 (initial_maps 36 16 ()) =
      add_pages sample_env EfiGcdMemoryTypeSystemMemory 0 (2 ^ 52 - 1) 0x1000 st s1"
proof -
  let ?s = "initial_maps 36 16 ()"
  let ?add = "CoreInternalAddMemorySpace sample_env EfiGcdMemoryTypeSystemMemory 0x10 0x10 0 ?s"
  let ?alloc = "CoreAllocateMemorySpace sample_env EfiGcdAllocateAddress EfiGcdMemoryTypeSystemMemory 12 (- 0x1000) (Some 0x1000) 7 0"
  have "(case ?add of Some (Inr (EFI_SUCCESS, s1)) \<Rightarrow> ?alloc s1 = ret (EFI_NOT_FOUND, Some 0x1000, s1) | _ \<Rightarrow> False)"
    by code_simp
  then obtain s1 where s1: "?add = ret (EFI_SUCCESS, s1)" "?alloc s1 = ret (EFI_NOT_FOUND, Some 0x1000, s1)"
    unfolding ret_def by (auto split: option.splits sum.splits prod.splits efi_status.splits)
  have page: "PageAlignAddress 0x10 = 0x1000" "PageAlignLength (0x10 + 0x10 - 0x1000) = - 0x1000"
    "word_of_nat EFI_PAGE_SHIFT = (12 :: u64)"
    by code_simp+
  have pages: "unat (drop_bit EFI_PAGE_SHIFT (- 0x1000 :: u64)) = 2 ^ 52 - 1"
    by (simp add: drop_bit_eq_div unat_div)
  have "gDxeCoreImageHandle sample_env = 7" by (simp add: sample_env_def)
  then have "CoreAddMemorySpace sample_env EfiGcdMemoryTypeSystemMemory 0x10 0x10 0 ?s =
      add_pages sample_env EfiGcdMemoryTypeSystemMemory 0 (2 ^ 52 - 1) 0x1000 EFI_NOT_FOUND s1"
    unfolding CoreAddMemorySpace_def s1(1) Let_def page pages using s1(2) by simp
  then show ?thesis using s1(1) by blast
qed

end
