(* ===== verification/HandleDb.thy ===== *)
theory HandleDb
  imports Prelude
begin

text \<open>
  The handle database of the DXE core (MdeModulePkg/Core/Dxe/Hand: Handle.c, Notify.c, Locate.c): handles, the protocol
  interfaces installed on them, who has opened which, and who is told of new ones.  A handle, an interface and a
  registration are named by their addresses; freed memory is an address with nothing at it.  The entry of
  a protocol in the protocol database is named by its GUID.  The rings of \<open>LIST_ENTRY\<close> are lists.

  \<open>CoreDisconnectController\<close> and \<open>CoreConnectController\<close> run code of drivers, which calls the services of the
  database again.  Every definition here takes the two as the arguments \<open>dc\<close> and \<open>cn\<close>; the
  knot is tied at the end, where drivers are programs over the services and the nesting depth is the fuel.
  The lock of the database is left out: one service runs at a time, and what an event that is signalled runs, runs
  after the service.  ASSERTs are those of a build that has them.
\<close>

section \<open>Constants and types\<close>

abbreviation EFI_OPEN_PROTOCOL_BY_HANDLE_PROTOCOL :: u32 where "EFI_OPEN_PROTOCOL_BY_HANDLE_PROTOCOL \<equiv> 0x01"
abbreviation EFI_OPEN_PROTOCOL_GET_PROTOCOL :: u32 where "EFI_OPEN_PROTOCOL_GET_PROTOCOL \<equiv> 0x02"
abbreviation EFI_OPEN_PROTOCOL_TEST_PROTOCOL :: u32 where "EFI_OPEN_PROTOCOL_TEST_PROTOCOL \<equiv> 0x04"
abbreviation EFI_OPEN_PROTOCOL_BY_CHILD_CONTROLLER :: u32 where "EFI_OPEN_PROTOCOL_BY_CHILD_CONTROLLER \<equiv> 0x08"
abbreviation EFI_OPEN_PROTOCOL_BY_DRIVER :: u32 where "EFI_OPEN_PROTOCOL_BY_DRIVER \<equiv> 0x10"
abbreviation EFI_OPEN_PROTOCOL_EXCLUSIVE :: u32 where "EFI_OPEN_PROTOCOL_EXCLUSIVE \<equiv> 0x20"

abbreviation EFI_NATIVE_INTERFACE :: u32 where "EFI_NATIVE_INTERFACE \<equiv> 0"

abbreviation AllHandles :: u32 where "AllHandles \<equiv> 0"
abbreviation ByRegisterNotify :: u32 where "ByRegisterNotify \<equiv> 1"
abbreviation ByProtocol :: u32 where "ByProtocol \<equiv> 2"

record OPEN_PROTOCOL_DATA =
  AgentHandle :: ptr
  ControllerHandle :: ptr
  OpenAttributes :: u32
  OpenCount :: u32

record PROTOCOL_INTERFACE =
  ifHandle :: ptr
  ifProtocol :: EFI_GUID
  Interface :: ptr
  OpenList :: "OPEN_PROTOCOL_DATA list"
  OpenListCount :: u64

record IHANDLE =
  Protocols :: "ptr list"
  LocateRequest :: u64
  Key :: u64

text \<open>\<open>Position\<close> is the interface the registration has come to, NULL for the head of the list.\<close>

record PROTOCOL_NOTIFY =
  nfProtocol :: EFI_GUID
  Event :: ptr
  Position :: ptr

record PROTOCOL_ENTRY =
  ProtocolID :: EFI_GUID
  Interfaces :: "ptr list"
  Notify :: "ptr list"

record 'w hdb =
  mProtocolDatabase :: "PROTOCOL_ENTRY list"
  gHandleList :: "ptr list"
  gHandleDatabaseKey :: u64
  mEfiLocateHandleRequest :: u64
  handles :: "ptr \<Rightarrow> IHANDLE option"
  interfaces :: "ptr \<Rightarrow> PROTOCOL_INTERFACE option"
  notifies :: "ptr \<Rightarrow> PROTOCOL_NOTIFY option"
  hworld :: 'w

text \<open>The pool (the address it gives, NULL if there is none), the event service, and the handle of the core.\<close>

record 'w hdb_env =
  pool :: "'w \<Rightarrow> ptr \<times> 'w"
  CoreSignalEvent :: "ptr \<Rightarrow> 'w \<Rightarrow> 'w"
  gDxeCoreImageHandle :: ptr

text \<open>What a driver does: \<open>DisconnectController (controller, agent, NULL)\<close> and \<open>ConnectController (controller, NULL, NULL, TRUE)\<close>.\<close>

type_synonym 'w disconnect = "ptr \<Rightarrow> ptr \<Rightarrow> 'w hdb \<Rightarrow> (efi_status \<times> 'w hdb) run"
type_synonym 'w connect = "ptr \<Rightarrow> 'w hdb \<Rightarrow> (efi_status \<times> 'w hdb) run"

section \<open>Access\<close>

definition with_handle :: "'w hdb \<Rightarrow> ptr \<Rightarrow> (IHANDLE \<Rightarrow> 'a run) \<Rightarrow> 'a run" where
  "with_handle s h k = (case handles s h of None \<Rightarrow> Some (Inl UseAfterFree) | Some H \<Rightarrow> k H)"

definition with_interface :: "'w hdb \<Rightarrow> ptr \<Rightarrow> (PROTOCOL_INTERFACE \<Rightarrow> 'a run) \<Rightarrow> 'a run" where
  "with_interface s p k = (case interfaces s p of None \<Rightarrow> Some (Inl UseAfterFree) | Some P \<Rightarrow> k P)"

definition with_notify :: "'w hdb \<Rightarrow> ptr \<Rightarrow> (PROTOCOL_NOTIFY \<Rightarrow> 'a run) \<Rightarrow> 'a run" where
  "with_notify s n k = (case notifies s n of None \<Rightarrow> Some (Inl UseAfterFree) | Some N \<Rightarrow> k N)"

definition upd_handle :: "ptr \<Rightarrow> (IHANDLE \<Rightarrow> IHANDLE) \<Rightarrow> 'w hdb \<Rightarrow> 'w hdb" where
  "upd_handle h f s = s\<lparr>handles := (handles s)(h := map_option f (handles s h))\<rparr>"

definition upd_interface :: "ptr \<Rightarrow> (PROTOCOL_INTERFACE \<Rightarrow> PROTOCOL_INTERFACE) \<Rightarrow> 'w hdb \<Rightarrow> 'w hdb" where
  "upd_interface p f s = s\<lparr>interfaces := (interfaces s)(p := map_option f (interfaces s p))\<rparr>"

definition upd_notify :: "ptr \<Rightarrow> (PROTOCOL_NOTIFY \<Rightarrow> PROTOCOL_NOTIFY) \<Rightarrow> 'w hdb \<Rightarrow> 'w hdb" where
  "upd_notify n f s = s\<lparr>notifies := (notifies s)(n := map_option f (notifies s n))\<rparr>"

definition upd_entry :: "EFI_GUID \<Rightarrow> (PROTOCOL_ENTRY \<Rightarrow> PROTOCOL_ENTRY) \<Rightarrow> 'w hdb \<Rightarrow> 'w hdb" where
  "upd_entry g f s = s\<lparr>mProtocolDatabase := map (\<lambda>e. if ProtocolID e = g then f e else e) (mProtocolDatabase s)\<rparr>"

text \<open>
  The allocations of this component.  That the pool does not hand out memory in use is built in: an address
  with something at it counts as a failed allocation.
\<close>

definition alloc :: "'w hdb_env \<Rightarrow> ('w hdb \<Rightarrow> ptr \<Rightarrow> bool) \<Rightarrow> 'w hdb \<Rightarrow> ptr \<times> 'w hdb" where
  "alloc env used s = (let (a, w) = pool env (hworld s) in (if used s a then NULL else a, s\<lparr>hworld := w\<rparr>))"

section \<open>Worker functions\<close>

text \<open>A freed handle has its Signature cleared.\<close>

definition CoreValidateHandle :: "ptr \<Rightarrow> 'w hdb \<Rightarrow> efi_status" where
  "CoreValidateHandle h s =
     (if h = NULL then EFI_INVALID_PARAMETER else if handles s h = None then EFI_INVALID_PARAMETER else EFI_SUCCESS)"

fun find_entry :: "EFI_GUID \<Rightarrow> PROTOCOL_ENTRY list \<Rightarrow> PROTOCOL_ENTRY option" where
  "find_entry g [] = None"
| "find_entry g (Item # es) = (if ProtocolID Item = g then Some Item else find_entry g es)"

text \<open>Whether there is an entry, with the entry created if \<open>Create\<close> says so and the pool has room.\<close>

definition CoreFindProtocolEntry :: "'w hdb_env \<Rightarrow> EFI_GUID \<Rightarrow> bool \<Rightarrow> 'w hdb \<Rightarrow> bool \<times> 'w hdb" where
  "CoreFindProtocolEntry env g Create s =
     (case find_entry g (mProtocolDatabase s) of
        Some _ \<Rightarrow> (True, s)
      | None \<Rightarrow>
          if Create then
            (let (a, s1) = alloc env (\<lambda>_ _. False) s in
             if a \<noteq> NULL
             then (True, s1\<lparr>mProtocolDatabase := mProtocolDatabase s1 @ [\<lparr>ProtocolID = g, Interfaces = [], Notify = []\<rparr>]\<rparr>)
             else (False, s1))
          else (False, s))"

fun find_interface :: "'w hdb \<Rightarrow> (PROTOCOL_INTERFACE \<Rightarrow> bool) \<Rightarrow> ptr list \<Rightarrow> ptr run" where
  "find_interface s test [] = ret NULL"
| "find_interface s test (Link # ps) =
     with_interface s Link (\<lambda>Prot. if test Prot then ret Link else find_interface s test ps)"

definition CoreFindProtocolInterface :: "ptr \<Rightarrow> EFI_GUID \<Rightarrow> ptr \<Rightarrow> 'w hdb \<Rightarrow> ptr run" where
  "CoreFindProtocolInterface h g i s =
     (if find_entry g (mProtocolDatabase s) = None then ret NULL
      else with_handle s h (\<lambda>Handle. find_interface s (\<lambda>Prot. Interface Prot = i \<and> ifProtocol Prot = g) (Protocols Handle)))"

definition CoreGetProtocolInterface :: "ptr \<Rightarrow> EFI_GUID \<Rightarrow> 'w hdb \<Rightarrow> ptr run" where
  "CoreGetProtocolInterface h g s =
     (if EFI_ERROR (CoreValidateHandle h s) then ret NULL
      else with_handle s h (\<lambda>Handle. find_interface s (\<lambda>Prot. ifProtocol Prot = g) (Protocols Handle)))"

text \<open>The notifications of one protocol.\<close>

fun signal_notifies :: "'w hdb_env \<Rightarrow> ptr list \<Rightarrow> 'w hdb \<Rightarrow> 'w hdb run" where
  "signal_notifies env [] s = ret s"
| "signal_notifies env (Link # ns) s =
     with_notify s Link (\<lambda>ProtNotify.
       signal_notifies env ns (s\<lparr>hworld := CoreSignalEvent env (Event ProtNotify) (hworld s)\<rparr>))"

definition entry_notifies :: "EFI_GUID \<Rightarrow> 'w hdb \<Rightarrow> ptr list" where
  "entry_notifies g s = (case find_entry g (mProtocolDatabase s) of None \<Rightarrow> [] | Some e \<Rightarrow> Notify e)"

definition entry_interfaces :: "EFI_GUID \<Rightarrow> 'w hdb \<Rightarrow> ptr list" where
  "entry_interfaces g s = (case find_entry g (mProtocolDatabase s) of None \<Rightarrow> [] | Some e \<Rightarrow> Interfaces e)"

definition CoreNotifyProtocolEntry :: "'w hdb_env \<Rightarrow> EFI_GUID \<Rightarrow> 'w hdb \<Rightarrow> 'w hdb run" where
  "CoreNotifyProtocolEntry env g s = signal_notifies env (entry_notifies g s) s"

text \<open>The interface before \<open>p\<close> in the list of its protocol, NULL if that is the head.\<close>

fun back_link :: "ptr \<Rightarrow> ptr \<Rightarrow> ptr list \<Rightarrow> ptr" where
  "back_link p prev [] = NULL"
| "back_link p prev (q # qs) = (if q = p then prev else back_link p q qs)"

fun forward_link :: "ptr \<Rightarrow> ptr list \<Rightarrow> ptr" where
  "forward_link p [] = NULL"
| "forward_link p (q # qs) = (if p = NULL then q else if q = p then (case qs of [] \<Rightarrow> NULL | r # _ \<Rightarrow> r) else forward_link p qs)"

fun move_positions :: "ptr \<Rightarrow> ptr \<Rightarrow> ptr list \<Rightarrow> 'w hdb \<Rightarrow> 'w hdb run" where
  "move_positions p prev [] s = ret s"
| "move_positions p prev (Link # ns) s =
     with_notify s Link (\<lambda>ProtNotify.
       move_positions p prev ns (if Position ProtNotify = p then upd_notify Link (\<lambda>n. n\<lparr>Position := prev\<rparr>) s else s))"

definition CoreRemoveInterfaceFromProtocol :: "ptr \<Rightarrow> EFI_GUID \<Rightarrow> ptr \<Rightarrow> 'w hdb \<Rightarrow> (ptr \<times> 'w hdb) run" where
  "CoreRemoveInterfaceFromProtocol h g i s =
     bind_run (CoreFindProtocolInterface h g i s) (\<lambda>p.
       if p = NULL then ret (NULL, s)
       else bind_run (move_positions p (back_link p NULL (entry_interfaces g s)) (entry_notifies g s) s) (\<lambda>s1.
         ret (p, upd_entry g (\<lambda>e. e\<lparr>Interfaces := remove1 p (Interfaces e)\<rparr>) s1)))"

section \<open>Opening and closing protocols\<close>

text \<open>The checks of the handles, by the way of opening.\<close>

definition open_check :: "ptr \<Rightarrow> ptr \<Rightarrow> ptr \<Rightarrow> u32 \<Rightarrow> 'w hdb \<Rightarrow> efi_status" where
  "open_check h ImageHandle ctrl attrs s =
     (if attrs = EFI_OPEN_PROTOCOL_BY_CHILD_CONTROLLER then
        (if EFI_ERROR (CoreValidateHandle ImageHandle s) then CoreValidateHandle ImageHandle s
         else if EFI_ERROR (CoreValidateHandle ctrl s) then CoreValidateHandle ctrl s
         else if h = ctrl then EFI_INVALID_PARAMETER else EFI_SUCCESS)
      else if attrs = EFI_OPEN_PROTOCOL_BY_DRIVER \<or> attrs = EFI_OPEN_PROTOCOL_BY_DRIVER OR EFI_OPEN_PROTOCOL_EXCLUSIVE then
        (if EFI_ERROR (CoreValidateHandle ImageHandle s) then CoreValidateHandle ImageHandle s
         else CoreValidateHandle ctrl s)
      else if attrs = EFI_OPEN_PROTOCOL_EXCLUSIVE then CoreValidateHandle ImageHandle s
      else if attrs = EFI_OPEN_PROTOCOL_BY_HANDLE_PROTOCOL \<or> attrs = EFI_OPEN_PROTOCOL_GET_PROTOCOL \<or>
              attrs = EFI_OPEN_PROTOCOL_TEST_PROTOCOL then EFI_SUCCESS
      else EFI_INVALID_PARAMETER)"

text \<open>
  The scan of the opens: an exact match by driver, an exact match whose count goes up (its position), or neither,
  with the two flags.
\<close>

datatype open_scan = AlreadyOpen | CountUp nat | Scanned bool bool

fun scan_opens :: "ptr \<Rightarrow> ptr \<Rightarrow> u32 \<Rightarrow> nat \<Rightarrow> bool \<Rightarrow> bool \<Rightarrow> OPEN_PROTOCOL_DATA list \<Rightarrow> open_scan" where
  "scan_opens ImageHandle ctrl attrs i ByDriver Exclusive [] = Scanned ByDriver Exclusive"
| "scan_opens ImageHandle ctrl attrs i ByDriver Exclusive (OpenData # ods) =
     (let ExactMatch = (AgentHandle OpenData = ImageHandle \<and> OpenAttributes OpenData = attrs \<and> ControllerHandle OpenData = ctrl);
          Driver = (OpenAttributes OpenData AND EFI_OPEN_PROTOCOL_BY_DRIVER \<noteq> 0) in
      if Driver \<and> ExactMatch then AlreadyOpen
      else if OpenAttributes OpenData AND EFI_OPEN_PROTOCOL_EXCLUSIVE \<noteq> 0
        then scan_opens ImageHandle ctrl attrs (Suc i) (ByDriver \<or> Driver) True ods
      else if ExactMatch then CountUp i
      else scan_opens ImageHandle ctrl attrs (Suc i) (ByDriver \<or> Driver) Exclusive ods)"

fun find_by_driver :: "OPEN_PROTOCOL_DATA list \<Rightarrow> OPEN_PROTOCOL_DATA option" where
  "find_by_driver [] = None"
| "find_by_driver (OpenData # ods) =
     (if OpenAttributes OpenData AND EFI_OPEN_PROTOCOL_BY_DRIVER \<noteq> 0 then Some OpenData else find_by_driver ods)"

text \<open>
  The loop that disconnects the drivers that have an interface open, until there is none or one does not
  let go.  It may go on for ever, and the interface may be gone after a driver has run, which is a fault here.
  The increment of the for loop still reads the ForwardLink of the record that was found, although the driver's
  CloseProtocol has freed it by then as a rule; the loop ends before the value is used (its condition has
  \<open>!ItemFound\<close>, \<open>!Disconnect\<close>), so that this read, and the one after \<open>CoreFreePool (OpenData)\<close> in
  \<open>CoreDisconnectControllersUsingProtocolInterface\<close>, have no effect and are not faults of the model.
\<close>

partial_function (option) disconnect_drivers :: "'w disconnect \<Rightarrow> ptr \<Rightarrow> ptr \<Rightarrow> 'w hdb \<Rightarrow> (efi_status \<times> 'w hdb) run" where
  "disconnect_drivers dc h p s =
     (case interfaces s p of
        None \<Rightarrow> Some (Inl UseAfterFree)
      | Some Prot \<Rightarrow>
          (case find_by_driver (OpenList Prot) of
             None \<Rightarrow> ret (EFI_SUCCESS, s)
           | Some OpenData \<Rightarrow>
               bind_run (dc h (AgentHandle OpenData) s) (\<lambda>r.
                 if EFI_ERROR (fst r) then ret r else disconnect_drivers dc h p (snd r))))"

declare disconnect_drivers.simps [code]

definition add_open :: "'w hdb_env \<Rightarrow> ptr \<Rightarrow> ptr \<Rightarrow> ptr \<Rightarrow> u32 \<Rightarrow> 'w hdb \<Rightarrow> efi_status \<times> 'w hdb" where
  "add_open env p ImageHandle ctrl attrs s =
     (if ImageHandle = NULL then (EFI_SUCCESS, s)
      else let (a, s1) = alloc env (\<lambda>_ _. False) s in
        if a = NULL then (EFI_OUT_OF_RESOURCES, s1)
        else (EFI_SUCCESS, upd_interface p (\<lambda>P. P\<lparr>
          OpenList := OpenList P @ [\<lparr>AgentHandle = ImageHandle, ControllerHandle = ctrl, OpenAttributes = attrs, OpenCount = 1\<rparr>],
          OpenListCount := OpenListCount P + 1\<rparr>) s1))"

text \<open>From the interface on.\<close>

definition open_interface ::
  "'w disconnect \<Rightarrow> 'w hdb_env \<Rightarrow> ptr \<Rightarrow> ptr \<Rightarrow> ptr \<Rightarrow> ptr \<Rightarrow> u32 \<Rightarrow> 'w hdb \<Rightarrow> (efi_status \<times> 'w hdb) run" where
  "open_interface dc env h p ImageHandle ctrl attrs s =
     with_interface s p (\<lambda>Prot.
       case scan_opens ImageHandle ctrl attrs 0 False False (OpenList Prot) of
         AlreadyOpen \<Rightarrow> ret (EFI_ALREADY_STARTED, s)
       | CountUp i \<Rightarrow>
           ret (EFI_SUCCESS, upd_interface p (\<lambda>P. P\<lparr>
             OpenList := (OpenList P)[i := (OpenList P ! i)\<lparr>OpenCount := OpenCount (OpenList P ! i) + 1\<rparr>]\<rparr>) s)
       | Scanned ByDriver Exclusive \<Rightarrow>
           if attrs = EFI_OPEN_PROTOCOL_BY_DRIVER then
             (if Exclusive \<or> ByDriver then ret (EFI_ACCESS_DENIED, s) else ret (add_open env p ImageHandle ctrl attrs s))
           else if attrs = EFI_OPEN_PROTOCOL_BY_DRIVER OR EFI_OPEN_PROTOCOL_EXCLUSIVE \<or> attrs = EFI_OPEN_PROTOCOL_EXCLUSIVE then
             (if Exclusive then ret (EFI_ACCESS_DENIED, s)
              else if ByDriver then
                bind_run (disconnect_drivers dc h p s) (\<lambda>(Status, s1).
                  if EFI_ERROR Status then ret (EFI_ACCESS_DENIED, s1) else ret (add_open env p ImageHandle ctrl attrs s1))
              else ret (add_open env p ImageHandle ctrl attrs s))
           else ret (add_open env p ImageHandle ctrl attrs s))"

text \<open>The second component of the result is what is written to \<open>*Interface\<close>, None if nothing is.\<close>

definition CoreOpenProtocol ::
  "'w disconnect \<Rightarrow> 'w hdb_env \<Rightarrow> ptr \<Rightarrow> EFI_GUID option \<Rightarrow> bool \<Rightarrow> ptr \<Rightarrow> ptr \<Rightarrow> u32 \<Rightarrow> 'w hdb \<Rightarrow>
     (efi_status \<times> ptr option \<times> 'w hdb) run" where
  "CoreOpenProtocol dc env h Protocol InterfaceIsNull ImageHandle ctrl attrs s =
     (case Protocol of
        None \<Rightarrow> ret (EFI_INVALID_PARAMETER, None, s)
      | Some g \<Rightarrow>
          if attrs \<noteq> EFI_OPEN_PROTOCOL_TEST_PROTOCOL \<and> InterfaceIsNull then ret (EFI_INVALID_PARAMETER, None, s)
          else
            let out = (\<lambda>i. if attrs \<noteq> EFI_OPEN_PROTOCOL_TEST_PROTOCOL then Some i else None) in
            if EFI_ERROR (CoreValidateHandle h s) then ret (CoreValidateHandle h s, out NULL, s)
            else if EFI_ERROR (open_check h ImageHandle ctrl attrs s) then ret (open_check h ImageHandle ctrl attrs s, out NULL, s)
            else bind_run (CoreGetProtocolInterface h g s) (\<lambda>p.
              if p = NULL then ret (EFI_UNSUPPORTED, out NULL, s)
              else with_interface s p (\<lambda>Prot.
                bind_run (open_interface dc env h p ImageHandle ctrl attrs s) (\<lambda>(Status, s1).
                  ret (Status, out (Interface Prot), s1)))))"

definition CoreHandleProtocol ::
  "'w disconnect \<Rightarrow> 'w hdb_env \<Rightarrow> ptr \<Rightarrow> EFI_GUID option \<Rightarrow> bool \<Rightarrow> 'w hdb \<Rightarrow> (efi_status \<times> ptr option \<times> 'w hdb) run" where
  "CoreHandleProtocol dc env h Protocol InterfaceIsNull s =
     CoreOpenProtocol dc env h Protocol InterfaceIsNull (gDxeCoreImageHandle env) NULL EFI_OPEN_PROTOCOL_BY_HANDLE_PROTOCOL s"

fun close_opens :: "ptr \<Rightarrow> ptr \<Rightarrow> OPEN_PROTOCOL_DATA list \<Rightarrow> OPEN_PROTOCOL_DATA list" where
  "close_opens agent ctrl [] = []"
| "close_opens agent ctrl (OpenData # ods) =
     (if AgentHandle OpenData = agent \<and> ControllerHandle OpenData = ctrl then close_opens agent ctrl ods
      else OpenData # close_opens agent ctrl ods)"

text \<open>The count goes down by one for each open that is removed.\<close>

definition set_opens :: "OPEN_PROTOCOL_DATA list \<Rightarrow> PROTOCOL_INTERFACE \<Rightarrow> PROTOCOL_INTERFACE" where
  "set_opens ods P = P\<lparr>OpenList := ods, OpenListCount := OpenListCount P - word_of_nat (length (OpenList P) - length ods)\<rparr>"

definition CoreCloseProtocol ::
  "ptr \<Rightarrow> EFI_GUID option \<Rightarrow> ptr \<Rightarrow> ptr \<Rightarrow> 'w hdb \<Rightarrow> (efi_status \<times> 'w hdb) run" where
  "CoreCloseProtocol h Protocol agent ctrl s =
     (if EFI_ERROR (CoreValidateHandle h s) then ret (CoreValidateHandle h s, s)
      else if EFI_ERROR (CoreValidateHandle agent s) then ret (CoreValidateHandle agent s, s)
      else if ctrl \<noteq> NULL \<and> EFI_ERROR (CoreValidateHandle ctrl s) then ret (CoreValidateHandle ctrl s, s)
      else (case Protocol of
        None \<Rightarrow> ret (EFI_INVALID_PARAMETER, s)
      | Some g \<Rightarrow>
          bind_run (CoreGetProtocolInterface h g s) (\<lambda>p.
            if p = NULL then ret (EFI_NOT_FOUND, s)
            else with_interface s p (\<lambda>Prot.
              let ods = close_opens agent ctrl (OpenList Prot) in
              ret (if length ods < length (OpenList Prot) then EFI_SUCCESS else EFI_NOT_FOUND,
                   upd_interface p (set_opens ods) s)))))"

text \<open>The copies of the opens; the caller gets no others on an error.\<close>

definition CoreOpenProtocolInformation ::
  "'w hdb_env \<Rightarrow> ptr \<Rightarrow> EFI_GUID \<Rightarrow> 'w hdb \<Rightarrow> (efi_status \<times> OPEN_PROTOCOL_DATA list \<times> 'w hdb) run" where
  "CoreOpenProtocolInformation env h g s =
     bind_run (CoreGetProtocolInterface h g s) (\<lambda>p.
       if p = NULL then ret (EFI_NOT_FOUND, [], s)
       else with_interface s p (\<lambda>Prot.
         assert_if True (word_of_nat (length (OpenList Prot)) = OpenListCount Prot)
           (let (a, s1) = alloc env (\<lambda>_ _. False) s in
            if a = NULL then ret (EFI_OUT_OF_RESOURCES, [], s1) else ret (EFI_SUCCESS, OpenList Prot, s1))))"

section \<open>Installing and uninstalling\<close>

text \<open>
  What is kept of a signature: who opened it only in the ways that need no closing is
  forgotten; if anyone else has it open, the uninstalling fails and the drivers are connected again.
\<close>

definition handle_protocol_opens :: "OPEN_PROTOCOL_DATA list \<Rightarrow> OPEN_PROTOCOL_DATA list" where
  "handle_protocol_opens ods = filter (\<lambda>OpenData. OpenAttributes OpenData AND
     (EFI_OPEN_PROTOCOL_BY_HANDLE_PROTOCOL OR EFI_OPEN_PROTOCOL_GET_PROTOCOL OR EFI_OPEN_PROTOCOL_TEST_PROTOCOL) = 0) ods"

definition CoreDisconnectControllersUsingProtocolInterface ::
  "'w disconnect \<Rightarrow> 'w connect \<Rightarrow> ptr \<Rightarrow> ptr \<Rightarrow> 'w hdb \<Rightarrow> (efi_status \<times> 'w hdb) run" where
  "CoreDisconnectControllersUsingProtocolInterface dc cn h p s =
     bind_run (disconnect_drivers dc h p s) (\<lambda>(Status, s1).
       if EFI_ERROR Status then bind_run (cn h s1) (\<lambda>(_, s2). ret (EFI_ACCESS_DENIED, s2))
       else with_interface s1 p (\<lambda>Prot.
         let Prot1 = set_opens (handle_protocol_opens (OpenList Prot)) Prot; s2 = upd_interface p (\<lambda>_. Prot1) s1 in
         if OpenListCount Prot1 > 0 then bind_run (cn h s2) (\<lambda>(_, s3). ret (EFI_ACCESS_DENIED, s3))
         else ret (Status, s2)))"

definition put_interface :: "ptr \<Rightarrow> ptr \<Rightarrow> EFI_GUID \<Rightarrow> ptr \<Rightarrow> 'w hdb \<Rightarrow> 'w hdb" where
  "put_interface p h g i s =
     upd_entry g (\<lambda>e. e\<lparr>Interfaces := Interfaces e @ [p]\<rparr>)
       (upd_handle h (\<lambda>H. H\<lparr>Protocols := p # Protocols H\<rparr>)
         (s\<lparr>interfaces := (interfaces s)(p \<mapsto>
            \<lparr>ifHandle = h, ifProtocol = g, Interface = i, OpenList = [], OpenListCount = 0\<rparr>)\<rparr>))"

definition new_handle :: "ptr \<Rightarrow> 'w hdb \<Rightarrow> 'w hdb" where
  "new_handle h s =
     s\<lparr>gHandleDatabaseKey := gHandleDatabaseKey s + 1,
       handles := (handles s)(h \<mapsto> \<lparr>Protocols = [], LocateRequest = 0, Key = gHandleDatabaseKey s + 1\<rparr>),
       gHandleList := gHandleList s @ [h]\<rparr>"

text \<open>With the interface allocated at \<open>p\<close>: the handle, the checks, the insertion.\<close>

definition install_at ::
  "'w hdb_env \<Rightarrow> ptr \<Rightarrow> ptr \<Rightarrow> EFI_GUID \<Rightarrow> ptr \<Rightarrow> bool \<Rightarrow> 'w hdb \<Rightarrow> (efi_status \<times> ptr \<times> 'w hdb) run" where
  "install_at env p UserHandle g i Notify' s =
     (let (h, s1) =
        (if UserHandle \<noteq> NULL then (UserHandle, s)
         else let (h, s1) = alloc env (\<lambda>s a. handles s a \<noteq> None) s in (h, if h = NULL then s1 else new_handle h s1)) in
      if h = NULL then ret (EFI_OUT_OF_RESOURCES, UserHandle, s1)
      else if EFI_ERROR (CoreValidateHandle h s1) then ret (CoreValidateHandle h s1, UserHandle, s1)
      else bind_run (CoreFindProtocolInterface h g i s1) (\<lambda>q.
        assert_if True (q = NULL)
          (let s2 = put_interface p h g i s1 in
           bind_run (if Notify' then CoreNotifyProtocolEntry env g s2 else ret s2) (\<lambda>s3. ret (EFI_SUCCESS, h, s3)))))"

text \<open>
  \<open>UserHandle\<close> is None where the pointer to it is NULL; the second component of the result is its new
  value.  \<open>Status\<close> is what the code has in it when the entry of the protocol is looked up.
\<close>

definition CoreInstallProtocolInterfaceNotify ::
  "'w disconnect \<Rightarrow> 'w hdb_env \<Rightarrow> ptr option \<Rightarrow> EFI_GUID option \<Rightarrow> u32 \<Rightarrow> ptr \<Rightarrow> bool \<Rightarrow> 'w hdb \<Rightarrow>
     (efi_status \<times> ptr option \<times> 'w hdb) run" where
  "CoreInstallProtocolInterfaceNotify dc env UserHandle Protocol InterfaceType i Notify' s =
     (case (UserHandle, Protocol) of
        (Some h, Some g) \<Rightarrow>
          if InterfaceType \<noteq> EFI_NATIVE_INTERFACE then ret (EFI_INVALID_PARAMETER, UserHandle, s)
          else bind_run
            (if h \<noteq> NULL
             then bind_run (CoreHandleProtocol dc env h (Some g) False s) (\<lambda>(Status, _, s1). ret (Status, s1))
             else ret (EFI_OUT_OF_RESOURCES, s))
            (\<lambda>(Status, s1).
              if \<not> EFI_ERROR Status then ret (EFI_INVALID_PARAMETER, UserHandle, s1)
              else let (found, s2) = CoreFindProtocolEntry env g True s1 in
                if \<not> found then ret (Status, UserHandle, s2)
                else let (p, s3) = alloc env (\<lambda>s a. interfaces s a \<noteq> None) s2 in
                  if p = NULL then ret (EFI_OUT_OF_RESOURCES, UserHandle, s3)
                  else bind_run (install_at env p h g i Notify' s3) (\<lambda>(Status1, h1, s4). ret (Status1, Some h1, s4)))
      | _ \<Rightarrow> ret (EFI_INVALID_PARAMETER, UserHandle, s))"

definition CoreInstallProtocolInterface ::
  "'w disconnect \<Rightarrow> 'w hdb_env \<Rightarrow> ptr option \<Rightarrow> EFI_GUID option \<Rightarrow> u32 \<Rightarrow> ptr \<Rightarrow> 'w hdb \<Rightarrow>
     (efi_status \<times> ptr option \<times> 'w hdb) run" where
  "CoreInstallProtocolInterface dc env UserHandle Protocol InterfaceType i s =
     CoreInstallProtocolInterfaceNotify dc env UserHandle Protocol InterfaceType i True s"

text \<open>The interface leaves the handle; a handle without protocols is freed.\<close>

definition drop_interface :: "ptr \<Rightarrow> ptr \<Rightarrow> 'w hdb \<Rightarrow> 'w hdb" where
  "drop_interface h p s =
     (let s1 = s\<lparr>gHandleDatabaseKey := gHandleDatabaseKey s + 1\<rparr> in
      upd_handle h (\<lambda>H. H\<lparr>Key := gHandleDatabaseKey s1, Protocols := remove1 p (Protocols H)\<rparr>)
        (s1\<lparr>interfaces := (interfaces s1)(p := None)\<rparr>))"

definition drop_empty_handle :: "ptr \<Rightarrow> 'w hdb \<Rightarrow> 'w hdb run" where
  "drop_empty_handle h s =
     with_handle s h (\<lambda>Handle.
       if Protocols Handle = [] then ret (s\<lparr>handles := (handles s)(h := None), gHandleList := remove1 h (gHandleList s)\<rparr>)
       else ret s)"

definition CoreUninstallProtocolInterface ::
  "'w disconnect \<Rightarrow> 'w connect \<Rightarrow> ptr \<Rightarrow> EFI_GUID option \<Rightarrow> ptr \<Rightarrow> 'w hdb \<Rightarrow> (efi_status \<times> 'w hdb) run" where
  "CoreUninstallProtocolInterface dc cn h Protocol i s =
     (case Protocol of
        None \<Rightarrow> ret (EFI_INVALID_PARAMETER, s)
      | Some g \<Rightarrow>
          if EFI_ERROR (CoreValidateHandle h s) then ret (CoreValidateHandle h s, s)
          else bind_run (CoreFindProtocolInterface h g i s) (\<lambda>p.
            if p = NULL then ret (EFI_NOT_FOUND, s)
            else bind_run (CoreDisconnectControllersUsingProtocolInterface dc cn h p s) (\<lambda>(Status, s1).
              if EFI_ERROR Status then ret (Status, s1)
              else bind_run (CoreRemoveInterfaceFromProtocol h g i s1) (\<lambda>(q, s2).
                let s3 = (if q \<noteq> NULL then drop_interface h q s2 else s2) in
                bind_run (drop_empty_handle h s3) (\<lambda>s4.
                  ret (if q \<noteq> NULL then EFI_SUCCESS else EFI_NOT_FOUND, s4))))))"

definition CoreReinstallProtocolInterface ::
  "'w disconnect \<Rightarrow> 'w connect \<Rightarrow> 'w hdb_env \<Rightarrow> ptr \<Rightarrow> EFI_GUID option \<Rightarrow> ptr \<Rightarrow> ptr \<Rightarrow> 'w hdb \<Rightarrow> (efi_status \<times> 'w hdb) run" where
  "CoreReinstallProtocolInterface dc cn env h Protocol OldInterface NewInterface s =
     (if EFI_ERROR (CoreValidateHandle h s) then ret (CoreValidateHandle h s, s)
      else (case Protocol of
        None \<Rightarrow> ret (EFI_INVALID_PARAMETER, s)
      | Some g \<Rightarrow>
          bind_run (CoreFindProtocolInterface h g OldInterface s) (\<lambda>p.
            if p = NULL then ret (EFI_NOT_FOUND, s)
            else bind_run (CoreDisconnectControllersUsingProtocolInterface dc cn h p s) (\<lambda>(Status, s1).
              if EFI_ERROR Status then ret (Status, s1)
              else bind_run (CoreRemoveInterfaceFromProtocol h g OldInterface s1) (\<lambda>(q, s2).
                if q = NULL then ret (EFI_NOT_FOUND, s2)
                else
                  let s3 = upd_entry g (\<lambda>e. e\<lparr>Interfaces := Interfaces e @ [q]\<rparr>)
                        (upd_interface q (\<lambda>P. P\<lparr>Interface := NewInterface\<rparr>) s2);
                      s4 = s3\<lparr>gHandleDatabaseKey := gHandleDatabaseKey s3 + 1\<rparr> in
                  with_handle s4 h (\<lambda>_.
                    bind_run (cn h (upd_handle h (\<lambda>H. H\<lparr>Key := gHandleDatabaseKey s4\<rparr>) s4)) (\<lambda>(_, s5).
                      bind_run (CoreNotifyProtocolEntry env g s5) (\<lambda>s6. ret (EFI_SUCCESS, s6)))))))))"

text \<open>The buffer of GUIDs, in the order of the handle's list.\<close>

fun protocol_guids :: "'w hdb \<Rightarrow> ptr list \<Rightarrow> EFI_GUID list run" where
  "protocol_guids s [] = ret []"
| "protocol_guids s (Link # ps) =
     with_interface s Link (\<lambda>Prot. bind_run (protocol_guids s ps) (\<lambda>gs. ret (ifProtocol Prot # gs)))"

definition CoreProtocolsPerHandle ::
  "'w hdb_env \<Rightarrow> ptr \<Rightarrow> bool \<Rightarrow> bool \<Rightarrow> 'w hdb \<Rightarrow> (efi_status \<times> EFI_GUID list \<times> 'w hdb) run" where
  "CoreProtocolsPerHandle env h BufferIsNull CountIsNull s =
     (if EFI_ERROR (CoreValidateHandle h s) then ret (CoreValidateHandle h s, [], s)
      else if BufferIsNull then ret (EFI_INVALID_PARAMETER, [], s)
      else if CountIsNull then ret (EFI_INVALID_PARAMETER, [], s)
      else with_handle s h (\<lambda>Handle.
        if Protocols Handle = [] then ret (EFI_INVALID_PARAMETER, [], s)
        else let (a, s1) = alloc env (\<lambda>_ _. False) s in
          if a = NULL then ret (EFI_OUT_OF_RESOURCES, [], s1)
          else bind_run (protocol_guids s1 (Protocols Handle)) (\<lambda>gs. ret (EFI_SUCCESS, gs, s1))))"

definition CoreGetHandleDatabaseKey :: "'w hdb \<Rightarrow> u64" where
  "CoreGetHandleDatabaseKey s = gHandleDatabaseKey s"

fun handles_by_key :: "'w hdb \<Rightarrow> u64 \<Rightarrow> ptr list \<Rightarrow> ptr list run" where
  "handles_by_key s k [] = ret []"
| "handles_by_key s k (Link # hs) =
     with_handle s Link (\<lambda>Handle. bind_run (handles_by_key s k hs) (\<lambda>r. ret (if Key Handle > k then Link # r else r)))"

fun connect_all :: "'w connect \<Rightarrow> ptr list \<Rightarrow> 'w hdb \<Rightarrow> 'w hdb run" where
  "connect_all cn [] s = ret s"
| "connect_all cn (h # hs) s = bind_run (cn h s) (\<lambda>(_, s1). connect_all cn hs s1)"

definition CoreConnectHandlesByKey :: "'w connect \<Rightarrow> 'w hdb_env \<Rightarrow> u64 \<Rightarrow> 'w hdb \<Rightarrow> 'w hdb run" where
  "CoreConnectHandlesByKey cn env k s =
     bind_run (handles_by_key s k (gHandleList s)) (\<lambda>hs.
       let (a, s1) = alloc env (\<lambda>_ _. False) s in
       if a = NULL then ret s1 else connect_all cn hs s1)"

section \<open>Notification of new interfaces\<close>

fun find_event :: "'w hdb \<Rightarrow> ptr \<Rightarrow> ptr list \<Rightarrow> ptr run" where
  "find_event s e [] = ret NULL"
| "find_event s e (NotifyLink # ns) =
     with_notify s NotifyLink (\<lambda>ProtNotify. if Event ProtNotify = e then ret NotifyLink else find_event s e ns)"

fun find_registered :: "'w hdb \<Rightarrow> ptr \<Rightarrow> PROTOCOL_ENTRY list \<Rightarrow> (EFI_GUID \<times> ptr) run" where
  "find_registered s e [] = ret ([], NULL)"
| "find_registered s e (ProtEntry # es) =
     bind_run (find_event s e (Notify ProtEntry)) (\<lambda>n.
       if n \<noteq> NULL then ret (ProtocolID ProtEntry, n) else find_registered s e es)"

definition remove_notify :: "EFI_GUID \<Rightarrow> ptr \<Rightarrow> 'w hdb \<Rightarrow> 'w hdb" where
  "remove_notify g n s =
     upd_entry g (\<lambda>en. en\<lparr>Notify := remove1 n (Notify en)\<rparr>) (s\<lparr>notifies := (notifies s)(n := None)\<rparr>)"

definition CoreUnregisterProtocolNotifyEvent :: "ptr \<Rightarrow> 'w hdb \<Rightarrow> (efi_status \<times> 'w hdb) run" where
  "CoreUnregisterProtocolNotifyEvent e s =
     bind_run (find_registered s e (mProtocolDatabase s)) (\<lambda>(g, n).
       if n = NULL then ret (EFI_NOT_FOUND, s) else ret (EFI_SUCCESS, remove_notify g n s))"

text \<open>The number of registrations goes down, so the loop ends.\<close>

definition notify_count :: "'w hdb \<Rightarrow> nat" where
  "notify_count s = sum_list (map (\<lambda>e. length (Notify e)) (mProtocolDatabase s))"

lemma find_event_member: "find_event s e ns = ret n \<Longrightarrow> n \<noteq> NULL \<Longrightarrow> n \<in> set ns"
  by (induction ns) (auto simp: with_notify_def split: option.splits if_splits)

lemma find_registered_member:
  "find_registered s e es = ret (g, n) \<Longrightarrow> n \<noteq> NULL \<Longrightarrow> \<exists>en \<in> set es. ProtocolID en = g \<and> n \<in> set (Notify en)"
  by (induction es) (auto simp: bind_run_eq_ret dest: find_event_member split: if_splits)

lemma sum_list_less: "(\<And>x. x \<in> set xs \<Longrightarrow> f x \<le> g x) \<Longrightarrow> y \<in> set xs \<Longrightarrow> f y < g y \<Longrightarrow>
    sum_list (map f xs) < (sum_list (map g xs) :: nat)"
  by (induction xs) (auto intro: add_less_le_mono add_le_less_mono sum_list_mono)

lemma remove_notify_less:
  "en \<in> set (mProtocolDatabase s) \<Longrightarrow> n \<in> set (Notify en) \<Longrightarrow> notify_count (remove_notify (ProtocolID en) n s) < notify_count s"
  unfolding notify_count_def remove_notify_def upd_entry_def
  using length_pos_if_in_set [of n "Notify en"]
  by (auto simp: o_def length_remove1 intro!: sum_list_less [where y = en])

function CoreUnregisterProtocolNotify :: "ptr \<Rightarrow> 'w hdb \<Rightarrow> (efi_status \<times> 'w hdb) run" where
  "CoreUnregisterProtocolNotify e s =
     bind_run (CoreUnregisterProtocolNotifyEvent e s) (\<lambda>r.
       if \<not> EFI_ERROR (fst r) then CoreUnregisterProtocolNotify e (snd r) else ret (EFI_SUCCESS, snd r))"
  by pat_completeness auto
termination
  by (relation "measure (\<lambda>(e, s). notify_count s)")
    (auto simp: CoreUnregisterProtocolNotifyEvent_def bind_run_eq_ret split: if_splits
      dest!: find_registered_member intro: remove_notify_less)

text \<open>The registration is None where the code writes none.\<close>

definition CoreRegisterProtocolNotify ::
  "'w hdb_env \<Rightarrow> EFI_GUID option \<Rightarrow> ptr \<Rightarrow> bool \<Rightarrow> 'w hdb \<Rightarrow> efi_status \<times> ptr option \<times> 'w hdb" where
  "CoreRegisterProtocolNotify env Protocol e RegistrationIsNull s =
     (case Protocol of
        None \<Rightarrow> (EFI_INVALID_PARAMETER, None, s)
      | Some g \<Rightarrow>
          if e = NULL \<or> RegistrationIsNull then (EFI_INVALID_PARAMETER, None, s)
          else let (found, s1) = CoreFindProtocolEntry env g True s in
            if \<not> found then (EFI_OUT_OF_RESOURCES, None, s1)
            else let (n, s2) = alloc env (\<lambda>s a. notifies s a \<noteq> None) s1 in
              if n = NULL then (EFI_OUT_OF_RESOURCES, None, s2)
              else (EFI_SUCCESS, Some n,
                upd_entry g (\<lambda>en. en\<lparr>Notify := Notify en @ [n]\<rparr>)
                  (s2\<lparr>notifies := (notifies s2)(n \<mapsto> \<lparr>nfProtocol = g, Event = e, Position = NULL\<rparr>)\<rparr>)))"

section \<open>Locating handles\<close>

text \<open>
  \<open>LOCATE_POSITION\<close> with the function that moves it: what is left of the list of handles, the registration still
  to look at, or what is left of the list of a protocol.
\<close>

datatype locate_position = HandlesFrom "ptr list" | RegisterNotify ptr | ProtocolFrom "ptr list"

definition CoreGetNextLocateByRegisterNotify :: "ptr \<Rightarrow> 'w hdb \<Rightarrow> (ptr \<times> ptr) run" where
  "CoreGetNextLocateByRegisterNotify n s =
     (if n = NULL then ret (NULL, NULL)
      else with_notify s n (\<lambda>ProtNotify.
        let Link = forward_link (Position ProtNotify) (entry_interfaces (nfProtocol ProtNotify) s) in
        if Link = NULL then ret (NULL, NULL)
        else with_interface s Link (\<lambda>Prot. ret (ifHandle Prot, Interface Prot))))"

text \<open>Skips the interfaces of handles that this search has already met; \<open>i\<close> is what is in \<open>*Interface\<close>.\<close>

fun CoreGetNextLocateByProtocol :: "ptr \<Rightarrow> ptr list \<Rightarrow> 'w hdb \<Rightarrow> (ptr \<times> ptr \<times> ptr list \<times> 'w hdb) run" where
  "CoreGetNextLocateByProtocol i [] s = ret (NULL, i, [], s)"
| "CoreGetNextLocateByProtocol i (Link # ps) s =
     with_interface s Link (\<lambda>Prot. with_handle s (ifHandle Prot) (\<lambda>Handle.
       if LocateRequest Handle \<noteq> mEfiLocateHandleRequest s
       then ret (ifHandle Prot, Interface Prot, ps,
         upd_handle (ifHandle Prot) (\<lambda>H. H\<lparr>LocateRequest := mEfiLocateHandleRequest s\<rparr>) s)
       else CoreGetNextLocateByProtocol (Interface Prot) ps s))"

definition get_next :: "locate_position \<Rightarrow> 'w hdb \<Rightarrow> (ptr \<times> locate_position \<times> 'w hdb) run" where
  "get_next pos s =
     (case pos of
        HandlesFrom [] \<Rightarrow> ret (NULL, pos, s)
      | HandlesFrom (h # hs) \<Rightarrow> ret (h, HandlesFrom hs, s)
      | RegisterNotify n \<Rightarrow> bind_run (CoreGetNextLocateByRegisterNotify n s) (\<lambda>(h, _). ret (h, RegisterNotify NULL, s))
      | ProtocolFrom ps \<Rightarrow> bind_run (CoreGetNextLocateByProtocol NULL ps s) (\<lambda>(h, _, ps1, s1). ret (h, ProtocolFrom ps1, s1)))"

fun position_size :: "locate_position \<Rightarrow> nat" where
  "position_size (HandlesFrom hs) = length hs"
| "position_size (RegisterNotify n) = (if n = NULL then 0 else 1)"
| "position_size (ProtocolFrom ps) = length ps"

lemma locate_by_protocol_less:
  "CoreGetNextLocateByProtocol j ps s = ret (h, i, ps1, s1) \<Longrightarrow> h \<noteq> NULL \<Longrightarrow> length ps1 < length ps"
  by (induction ps arbitrary: j) (auto simp: with_interface_def with_handle_def less_Suc_eq split: option.splits if_splits)

lemma get_next_less: "get_next pos s = ret (h, pos1, s1) \<Longrightarrow> h \<noteq> NULL \<Longrightarrow> position_size pos1 < position_size pos"
  unfolding get_next_def CoreGetNextLocateByRegisterNotify_def
  by (auto simp: bind_run_eq_ret split: locate_position.splits list.splits if_splits dest: locate_by_protocol_less)

text \<open>All the handles the search meets.\<close>

function locate_loop :: "locate_position \<Rightarrow> 'w hdb \<Rightarrow> (ptr list \<times> 'w hdb) run" where
  "locate_loop pos s =
     bind_run (get_next pos s) (\<lambda>(h, pos1, s1).
       if h = NULL then ret ([], s1)
       else bind_run (locate_loop pos1 s1) (\<lambda>(hs, s2). ret (h # hs, s2)))"
  by pat_completeness auto
termination
  by (relation "measure (\<lambda>(pos, s). position_size pos)") (auto dest: get_next_less)

text \<open>The registration moves on to the interface it has been given.\<close>

definition advance_notify :: "ptr \<Rightarrow> 'w hdb \<Rightarrow> 'w hdb run" where
  "advance_notify n s =
     with_notify s n (\<lambda>ProtNotify.
       ret (upd_notify n (\<lambda>N. N\<lparr>Position := forward_link (Position N) (entry_interfaces (nfProtocol N) s)\<rparr>) s))"

definition locate_start :: "u32 \<Rightarrow> EFI_GUID option \<Rightarrow> ptr \<Rightarrow> 'w hdb \<Rightarrow> efi_status + locate_position" where
  "locate_start SearchType Protocol SearchKey s =
     (if SearchType = AllHandles then Inr (HandlesFrom (gHandleList s))
      else if SearchType = ByRegisterNotify then
        (if SearchKey = NULL then Inl EFI_INVALID_PARAMETER else Inr (RegisterNotify SearchKey))
      else if SearchType = ByProtocol then
        (case Protocol of
           None \<Rightarrow> Inl EFI_INVALID_PARAMETER
         | Some g \<Rightarrow>
             if find_entry g (mProtocolDatabase s) = None then Inl EFI_NOT_FOUND
             else Inr (ProtocolFrom (entry_interfaces g s)))
      else Inl EFI_INVALID_PARAMETER)"

text \<open>
  The status, the new \<open>*BufferSize\<close>, what is written to the buffer (the handles there is room for), the state.
\<close>

definition CoreLocateHandle ::
  "u32 \<Rightarrow> EFI_GUID option \<Rightarrow> ptr \<Rightarrow> nat option \<Rightarrow> bool \<Rightarrow> 'w hdb \<Rightarrow> (efi_status \<times> nat option \<times> ptr list \<times> 'w hdb) run" where
  "CoreLocateHandle SearchType Protocol SearchKey BufferSize BufferIsNull s =
     (case BufferSize of
        None \<Rightarrow> ret (EFI_INVALID_PARAMETER, None, [], s)
      | Some size' \<Rightarrow>
          if size' > 0 \<and> BufferIsNull then ret (EFI_INVALID_PARAMETER, BufferSize, [], s)
          else (case locate_start SearchType Protocol SearchKey s of
            Inl Status \<Rightarrow> ret (Status, BufferSize, [], s)
          | Inr pos \<Rightarrow>
              bind_run (locate_loop pos (s\<lparr>mEfiLocateHandleRequest := mEfiLocateHandleRequest s + 1\<rparr>)) (\<lambda>(hs, s1).
                let ResultSize = 8 * length hs; out = take (size' div 8) hs in
                if ResultSize = 0 then ret (EFI_NOT_FOUND, BufferSize, out, s1)
                else if ResultSize > size' then ret (EFI_BUFFER_TOO_SMALL, Some ResultSize, out, s1)
                else if SearchType = ByRegisterNotify
                  then bind_run (advance_notify SearchKey s1) (\<lambda>s2. ret (EFI_SUCCESS, Some ResultSize, out, s2))
                else ret (EFI_SUCCESS, Some ResultSize, out, s1))))"

definition CoreLocateProtocol ::
  "EFI_GUID option \<Rightarrow> ptr \<Rightarrow> bool \<Rightarrow> 'w hdb \<Rightarrow> (efi_status \<times> ptr option \<times> 'w hdb) run" where
  "CoreLocateProtocol Protocol Registration InterfaceIsNull s =
     (if InterfaceIsNull then ret (EFI_INVALID_PARAMETER, None, s)
      else case Protocol of
        None \<Rightarrow> ret (EFI_NOT_FOUND, None, s)
      | Some g \<Rightarrow>
          let s1 = s\<lparr>mEfiLocateHandleRequest := mEfiLocateHandleRequest s + 1\<rparr> in
          if Registration = NULL then
            (if find_entry g (mProtocolDatabase s1) = None then ret (EFI_NOT_FOUND, Some NULL, s1)
             else bind_run (CoreGetNextLocateByProtocol NULL (entry_interfaces g s1) s1) (\<lambda>(h, i, _, s2).
               ret (if h = NULL then EFI_NOT_FOUND else EFI_SUCCESS, Some i, s2)))
          else bind_run (CoreGetNextLocateByRegisterNotify Registration s1) (\<lambda>(h, i).
            if h = NULL then ret (EFI_NOT_FOUND, Some i, s1)
            else bind_run (advance_notify Registration s1) (\<lambda>s2. ret (EFI_SUCCESS, Some i, s2))))"

text \<open>The result is the status, the number of handles (None where it is not written) and the buffer.\<close>

definition CoreLocateHandleBuffer ::
  "'w hdb_env \<Rightarrow> u32 \<Rightarrow> EFI_GUID option \<Rightarrow> ptr \<Rightarrow> bool \<Rightarrow> bool \<Rightarrow> 'w hdb \<Rightarrow>
     (efi_status \<times> nat option \<times> ptr list \<times> 'w hdb) run" where
  "CoreLocateHandleBuffer env SearchType Protocol SearchKey NumberIsNull BufferIsNull s =
     (if NumberIsNull then ret (EFI_INVALID_PARAMETER, None, [], s)
      else if BufferIsNull then ret (EFI_INVALID_PARAMETER, None, [], s)
      else bind_run (CoreLocateHandle SearchType Protocol SearchKey (Some 0) True s) (\<lambda>(Status, size', _, s1).
        if EFI_ERROR Status \<and> Status \<noteq> EFI_BUFFER_TOO_SMALL
        then ret (if Status \<noteq> EFI_INVALID_PARAMETER then EFI_NOT_FOUND else Status, Some 0, [], s1)
        else let (a, s2) = alloc env (\<lambda>_ _. False) s1 in
          if a = NULL then ret (EFI_OUT_OF_RESOURCES, Some 0, [], s2)
          else bind_run (CoreLocateHandle SearchType Protocol SearchKey size' False s2) (\<lambda>(Status1, size1, hs, s3).
            ret (Status1, Some (if EFI_ERROR Status1 then 0 else the size1 div 8), hs, s3))))"

declare CoreUnregisterProtocolNotify.simps [simp del] locate_loop.simps [simp del]

section \<open>Drivers as programs\<close>

text \<open>The calls of a driver and their answers.\<close>

datatype hdb_call =
    InstallProtocol "ptr option" "EFI_GUID option" u32 ptr
  | UninstallProtocol ptr "EFI_GUID option" ptr
  | ReinstallProtocol ptr "EFI_GUID option" ptr ptr
  | OpenProtocol ptr "EFI_GUID option" bool ptr ptr u32
  | CloseProtocol ptr "EFI_GUID option" ptr ptr
  | OpenProtocolInformation ptr EFI_GUID
  | ProtocolsPerHandle ptr bool bool
  | RegisterProtocolNotify "EFI_GUID option" ptr bool
  | UnregisterProtocolNotify ptr
  | LocateHandle u32 "EFI_GUID option" ptr "nat option" bool
  | LocateHandleBuffer u32 "EFI_GUID option" ptr bool bool
  | LocateProtocol "EFI_GUID option" ptr bool
  | ConnectHandlesByKey u64
  | DisconnectController ptr ptr
  | ConnectController ptr

datatype hdb_answer =
    Status efi_status
  | Pointer efi_status "ptr option"
  | Handles efi_status "nat option" "ptr list"
  | Opens efi_status "OPEN_PROTOCOL_DATA list"
  | Guids efi_status "EFI_GUID list"

text \<open>
  A program over the services.  It sees the database between its calls, as \<open>CoreDisconnectController\<close> and
  \<open>CoreConnectController\<close> do, and changes it by its calls alone.
\<close>

datatype 'w driver_program =
    Finish efi_status 'w
  | Call 'w hdb_call "hdb_answer \<Rightarrow> 'w hdb \<Rightarrow> 'w driver_program"

record 'w drivers =
  disconnect_program :: "ptr \<Rightarrow> ptr \<Rightarrow> 'w hdb \<Rightarrow> 'w driver_program"
  connect_program :: "ptr \<Rightarrow> 'w hdb \<Rightarrow> 'w driver_program"

definition do_hdb_call ::
  "'w disconnect \<Rightarrow> 'w connect \<Rightarrow> 'w hdb_env \<Rightarrow> hdb_call \<Rightarrow> 'w hdb \<Rightarrow> (hdb_answer \<times> 'w hdb) run" where
  "do_hdb_call dc cn env c s =
     (case c of
        InstallProtocol h g t i \<Rightarrow>
          bind_run (CoreInstallProtocolInterface dc env h g t i s) (\<lambda>(st, h1, s1). ret (Pointer st h1, s1))
      | UninstallProtocol h g i \<Rightarrow>
          bind_run (CoreUninstallProtocolInterface dc cn h g i s) (\<lambda>(st, s1). ret (Status st, s1))
      | ReinstallProtocol h g i j \<Rightarrow>
          bind_run (CoreReinstallProtocolInterface dc cn env h g i j s) (\<lambda>(st, s1). ret (Status st, s1))
      | OpenProtocol h g n a c t \<Rightarrow>
          bind_run (CoreOpenProtocol dc env h g n a c t s) (\<lambda>(st, i, s1). ret (Pointer st i, s1))
      | CloseProtocol h g a c \<Rightarrow> bind_run (CoreCloseProtocol h g a c s) (\<lambda>(st, s1). ret (Status st, s1))
      | OpenProtocolInformation h g \<Rightarrow>
          bind_run (CoreOpenProtocolInformation env h g s) (\<lambda>(st, ods, s1). ret (Opens st ods, s1))
      | ProtocolsPerHandle h b n \<Rightarrow>
          bind_run (CoreProtocolsPerHandle env h b n s) (\<lambda>(st, gs, s1). ret (Guids st gs, s1))
      | RegisterProtocolNotify g e n \<Rightarrow>
          (case CoreRegisterProtocolNotify env g e n s of (st, r, s1) \<Rightarrow> ret (Pointer st r, s1))
      | UnregisterProtocolNotify e \<Rightarrow>
          bind_run (CoreUnregisterProtocolNotify e s) (\<lambda>(st, s1). ret (Status st, s1))
      | LocateHandle t g k n b \<Rightarrow>
          bind_run (CoreLocateHandle t g k n b s) (\<lambda>(st, m, hs, s1). ret (Handles st m hs, s1))
      | LocateHandleBuffer t g k n b \<Rightarrow>
          bind_run (CoreLocateHandleBuffer env t g k n b s) (\<lambda>(st, m, hs, s1). ret (Handles st m hs, s1))
      | LocateProtocol g r n \<Rightarrow>
          bind_run (CoreLocateProtocol g r n s) (\<lambda>(st, i, s1). ret (Pointer st i, s1))
      | ConnectHandlesByKey k \<Rightarrow>
          bind_run (CoreConnectHandlesByKey cn env k s) (\<lambda>s1. ret (Status EFI_SUCCESS, s1))
      | DisconnectController h a \<Rightarrow> bind_run (dc h a s) (\<lambda>(st, s1). ret (Status st, s1))
      | ConnectController h \<Rightarrow> bind_run (cn h s) (\<lambda>(st, s1). ret (Status st, s1)))"

primrec run_driver ::
  "(hdb_call \<Rightarrow> 'w hdb \<Rightarrow> (hdb_answer \<times> 'w hdb) run) \<Rightarrow> 'w driver_program \<Rightarrow> 'w hdb \<Rightarrow> (efi_status \<times> 'w hdb) run" where
  "run_driver call (Finish st w) s = ret (st, s\<lparr>hworld := w\<rparr>)"
| "run_driver call (Call w c k) s = bind_run (call c (s\<lparr>hworld := w\<rparr>)) (\<lambda>r. run_driver call (k (fst r) (snd r)) (snd r))"

text \<open>The two functions that run drivers, \<open>k\<close> levels deep.\<close>

primrec driver_calls :: "nat \<Rightarrow> 'w hdb_env \<Rightarrow> 'w drivers \<Rightarrow> 'w disconnect \<times> 'w connect" where
  "driver_calls 0 env d = (\<lambda>h a s. None, \<lambda>h s. None)"
| "driver_calls (Suc k) env d =
     (let call = do_hdb_call (fst (driver_calls k env d)) (snd (driver_calls k env d)) env in
      (\<lambda>h a s. run_driver call (disconnect_program d h a s) s, \<lambda>h s. run_driver call (connect_program d h s) s))"

definition start_hdb :: "'w \<Rightarrow> 'w hdb" where
  "start_hdb w = \<lparr>mProtocolDatabase = [], gHandleList = [], gHandleDatabaseKey = 0, mEfiLocateHandleRequest = 0,
     handles = (\<lambda>_. None), interfaces = (\<lambda>_. None), notifies = (\<lambda>_. None), hworld = w\<rparr>"

end
