(* ===== verification/HandleInvariant.thy ===== *)
theory HandleInvariant
  imports HandleDb
begin

text \<open>
  The invariant of the handle database: what its lists say of each other.  Every service keeps it, if the two functions
  that run drivers do, and so every nest of drivers does.
\<close>

section \<open>The invariant\<close>

text \<open>
  \<open>X\<close>: interfaces that are out of the list of their protocol just now.  \<open>Y\<close>: handles that may have no
  protocol just now.
\<close>

definition handles_ok :: "ptr set \<Rightarrow> 'w hdb \<Rightarrow> bool" where
  "handles_ok Y s \<longleftrightarrow> handles s NULL = None \<and> distinct (gHandleList s) \<and>
     (\<forall>h. h \<in> set (gHandleList s) \<longleftrightarrow> handles s h \<noteq> None) \<and>
     (\<forall>h H. handles s h = Some H \<longrightarrow> (h \<notin> Y \<longrightarrow> Protocols H \<noteq> []) \<and> distinct (Protocols H) \<and>
       (\<forall>p \<in> set (Protocols H). \<exists>P. interfaces s p = Some P \<and> ifHandle P = h))"

definition count_ok :: "PROTOCOL_INTERFACE \<Rightarrow> bool" where
  "count_ok P \<longleftrightarrow> OpenListCount P = word_of_nat (length (OpenList P))"

definition interfaces_ok :: "ptr set \<Rightarrow> 'w hdb \<Rightarrow> bool" where
  "interfaces_ok X s \<longleftrightarrow> interfaces s NULL = None \<and>
     (\<forall>p P. interfaces s p = Some P \<longrightarrow>
       (\<exists>H. handles s (ifHandle P) = Some H \<and> p \<in> set (Protocols H)) \<and>
       (p \<in> set (entry_interfaces (ifProtocol P) s) \<longleftrightarrow> p \<notin> X) \<and> count_ok P)"

definition entries_ok :: "'w hdb \<Rightarrow> bool" where
  "entries_ok s \<longleftrightarrow> distinct (map ProtocolID (mProtocolDatabase s)) \<and>
     (\<forall>g. distinct (entry_interfaces g s) \<and>
       (\<forall>p \<in> set (entry_interfaces g s). \<exists>P. interfaces s p = Some P \<and> ifProtocol P = g))"

definition notifies_ok :: "'w hdb \<Rightarrow> bool" where
  "notifies_ok s \<longleftrightarrow> notifies s NULL = None \<and>
     (\<forall>g. distinct (entry_notifies g s) \<and>
       (\<forall>n \<in> set (entry_notifies g s). \<exists>N. notifies s n = Some N \<and> nfProtocol N = g)) \<and>
     (\<forall>n N. notifies s n = Some N \<longrightarrow> n \<in> set (entry_notifies (nfProtocol N) s) \<and>
       (Position N = NULL \<or> Position N \<in> set (entry_interfaces (nfProtocol N) s)))"

definition hdb_inv :: "ptr set \<Rightarrow> ptr set \<Rightarrow> 'w hdb \<Rightarrow> bool" where
  "hdb_inv X Y s \<longleftrightarrow> handles_ok Y s \<and> interfaces_ok X s \<and> entries_ok s \<and> notifies_ok s"

abbreviation hdb_ok :: "'w hdb \<Rightarrow> bool" where
  "hdb_ok \<equiv> hdb_inv {} {}"

lemma start_hdb_ok: "hdb_ok (start_hdb w)"
  by (simp add: start_hdb_def hdb_inv_def handles_ok_def interfaces_ok_def entries_ok_def notifies_ok_def
    entry_interfaces_def entry_notifies_def)

section \<open>Entries of the protocol database\<close>

lemma find_entry_ID: "find_entry g es = Some e \<Longrightarrow> ProtocolID e = g"
  by (induction es) (auto split: if_splits)

lemma find_entry_None: "find_entry g es = None \<longleftrightarrow> g \<notin> ProtocolID ` set es"
  by (induction es) auto

lemma find_entry_append: "find_entry g (es @ fs) = (case find_entry g es of None \<Rightarrow> find_entry g fs | Some e \<Rightarrow> Some e)"
  by (induction es) auto

lemma find_entry_map:
  assumes "\<And>e. ProtocolID (f e) = ProtocolID e"
  shows "find_entry k (map (\<lambda>e. if ProtocolID e = g then f e else e) es) =
    (if k = g then map_option f (find_entry k es) else find_entry k es)"
  using assms by (induction es) auto

lemma entry_upd [simp]:
  assumes "\<And>e. ProtocolID (f e) = ProtocolID e"
  shows "entry_interfaces k (upd_entry g f s) =
      (if k = g \<and> find_entry g (mProtocolDatabase s) \<noteq> None
       then Interfaces (f (the (find_entry g (mProtocolDatabase s)))) else entry_interfaces k s)"
    and "entry_notifies k (upd_entry g f s) =
      (if k = g \<and> find_entry g (mProtocolDatabase s) \<noteq> None
       then Notify (f (the (find_entry g (mProtocolDatabase s)))) else entry_notifies k s)"
    and "map ProtocolID (mProtocolDatabase (upd_entry g f s)) = map ProtocolID (mProtocolDatabase s)"
    and "(find_entry k (mProtocolDatabase (upd_entry g f s)) = None) = (find_entry k (mProtocolDatabase s) = None)"
  using find_entry_map [of f k g "mProtocolDatabase s"] assms
  by (auto simp: entry_interfaces_def entry_notifies_def upd_entry_def o_def split: option.split)

lemma upd_entry_fields [simp]:
  "handles (upd_entry g f s) = handles s" "interfaces (upd_entry g f s) = interfaces s"
  "notifies (upd_entry g f s) = notifies s" "gHandleList (upd_entry g f s) = gHandleList s"
  "gHandleDatabaseKey (upd_entry g f s) = gHandleDatabaseKey s" "hworld (upd_entry g f s) = hworld s"
  "mEfiLocateHandleRequest (upd_entry g f s) = mEfiLocateHandleRequest s"
  by (simp_all add: upd_entry_def)

lemma entry_the:
  "find_entry g (mProtocolDatabase s) \<noteq> None \<Longrightarrow> Interfaces (the (find_entry g (mProtocolDatabase s))) = entry_interfaces g s"
  "find_entry g (mProtocolDatabase s) \<noteq> None \<Longrightarrow> Notify (the (find_entry g (mProtocolDatabase s))) = entry_notifies g s"
  by (auto simp: entry_interfaces_def entry_notifies_def)

text \<open>The lists of the protocols depend on nothing but the protocol database.\<close>

lemma entry_cong:
  "mProtocolDatabase s = mProtocolDatabase s' \<Longrightarrow> entry_interfaces g s = entry_interfaces g s'"
  "mProtocolDatabase s = mProtocolDatabase s' \<Longrightarrow> entry_notifies g s = entry_notifies g s'"
  by (simp_all add: entry_interfaces_def entry_notifies_def)

lemma upd_fields [simp]:
  "mProtocolDatabase (upd_handle h f1 s) = mProtocolDatabase s" "interfaces (upd_handle h f1 s) = interfaces s"
  "notifies (upd_handle h f1 s) = notifies s" "gHandleList (upd_handle h f1 s) = gHandleList s"
  "handles (upd_handle h f1 s) = (handles s)(h := map_option f1 (handles s h))"
  "mProtocolDatabase (upd_interface p f2 s) = mProtocolDatabase s" "handles (upd_interface p f2 s) = handles s"
  "notifies (upd_interface p f2 s) = notifies s" "gHandleList (upd_interface p f2 s) = gHandleList s"
  "interfaces (upd_interface p f2 s) = (interfaces s)(p := map_option f2 (interfaces s p))"
  "mProtocolDatabase (upd_notify n f3 s) = mProtocolDatabase s" "handles (upd_notify n f3 s) = handles s"
  "interfaces (upd_notify n f3 s) = interfaces s" "gHandleList (upd_notify n f3 s) = gHandleList s"
  "notifies (upd_notify n f3 s) = (notifies s)(n := map_option f3 (notifies s n))"
  by (simp_all add: upd_handle_def upd_interface_def upd_notify_def)

lemma entry_upd_others [simp]:
  "entry_interfaces g (upd_handle h f1 s) = entry_interfaces g s" "entry_notifies g (upd_handle h f1 s) = entry_notifies g s"
  "entry_interfaces g (upd_interface p f2 s) = entry_interfaces g s" "entry_notifies g (upd_interface p f2 s) = entry_notifies g s"
  "entry_interfaces g (upd_notify n f3 s) = entry_interfaces g s" "entry_notifies g (upd_notify n f3 s) = entry_notifies g s"
  "entry_interfaces g (s\<lparr>hworld := w\<rparr>) = entry_interfaces g s" "entry_notifies g (s\<lparr>hworld := w\<rparr>) = entry_notifies g s"
  "entry_interfaces g (s\<lparr>gHandleDatabaseKey := k\<rparr>) = entry_interfaces g s"
  "entry_notifies g (s\<lparr>gHandleDatabaseKey := k\<rparr>) = entry_notifies g s"
  "entry_interfaces g (s\<lparr>mEfiLocateHandleRequest := k\<rparr>) = entry_interfaces g s"
  "entry_notifies g (s\<lparr>mEfiLocateHandleRequest := k\<rparr>) = entry_notifies g s"
  "entry_interfaces g (s\<lparr>handles := hs\<rparr>) = entry_interfaces g s" "entry_notifies g (s\<lparr>handles := hs\<rparr>) = entry_notifies g s"
  "entry_interfaces g (s\<lparr>interfaces := is\<rparr>) = entry_interfaces g s" "entry_notifies g (s\<lparr>interfaces := is\<rparr>) = entry_notifies g s"
  "entry_interfaces g (s\<lparr>notifies := ns\<rparr>) = entry_interfaces g s" "entry_notifies g (s\<lparr>notifies := ns\<rparr>) = entry_notifies g s"
  "entry_interfaces g (s\<lparr>gHandleList := l\<rparr>) = entry_interfaces g s" "entry_notifies g (s\<lparr>gHandleList := l\<rparr>) = entry_notifies g s"
  by (simp_all add: entry_interfaces_def entry_notifies_def)

lemmas inv_defs = hdb_inv_def handles_ok_def interfaces_ok_def entries_ok_def notifies_ok_def

section \<open>What leaves the invariant as it is\<close>

lemma inv_simps [simp]:
  "hdb_inv X Y (s\<lparr>hworld := w\<rparr>) = hdb_inv X Y s"
  "hdb_inv X Y (s\<lparr>gHandleDatabaseKey := k\<rparr>) = hdb_inv X Y s"
  "hdb_inv X Y (s\<lparr>mEfiLocateHandleRequest := k\<rparr>) = hdb_inv X Y s"
  by (simp_all add: inv_defs)

lemma inv_upd_handle:
  assumes "hdb_inv X Y s" "\<And>H. Protocols (f H) = Protocols H"
  shows "hdb_inv X Y (upd_handle h f s)"
proof (cases "handles s h")
  case None
  then have "upd_handle h f s = s" by (simp add: upd_handle_def fun_upd_idem)
  then show ?thesis using assms(1) by simp
next
  case (Some H)
  have "handles_ok Y (upd_handle h f s)" using assms Some by (auto simp: hdb_inv_def handles_ok_def)
  moreover have "interfaces_ok X (upd_handle h f s)"
    using assms Some unfolding hdb_inv_def interfaces_ok_def by fastforce
  ultimately show ?thesis using assms(1) by (simp add: hdb_inv_def entries_ok_def notifies_ok_def)
qed

lemma inv_upd_interface:
  assumes "hdb_inv X Y s" "\<And>P. interfaces s p = Some P \<Longrightarrow> count_ok P \<Longrightarrow>
      ifHandle (f P) = ifHandle P \<and> ifProtocol (f P) = ifProtocol P \<and> count_ok (f P)"
  shows "hdb_inv X Y (upd_interface p f s)"
proof (cases "interfaces s p")
  case None
  then have "upd_interface p f s = s" by (simp add: upd_interface_def fun_upd_idem)
  then show ?thesis using assms(1) by simp
next
  case (Some P)
  have f: "ifHandle (f P) = ifHandle P" "ifProtocol (f P) = ifProtocol P" "count_ok (f P)"
    using assms Some by (auto simp: hdb_inv_def interfaces_ok_def)
  have "handles_ok Y (upd_interface p f s)"
    using assms(1) Some f unfolding hdb_inv_def handles_ok_def by fastforce
  moreover have "interfaces_ok X (upd_interface p f s)"
    using assms(1) Some f unfolding hdb_inv_def interfaces_ok_def by auto
  moreover have "entries_ok (upd_interface p f s)"
    using assms(1) Some f unfolding hdb_inv_def entries_ok_def by fastforce
  ultimately show ?thesis using assms(1) by (simp add: hdb_inv_def notifies_ok_def)
qed

text \<open>The invariant clause by clause.\<close>

lemma hdb_invD:
  assumes "hdb_inv X Y s"
  shows "handles s NULL = None" and "distinct (gHandleList s)" and "\<And>h. h \<in> set (gHandleList s) \<longleftrightarrow> handles s h \<noteq> None"
    and "\<And>h H. handles s h = Some H \<Longrightarrow> h \<notin> Y \<Longrightarrow> Protocols H \<noteq> []"
    and "\<And>h H. handles s h = Some H \<Longrightarrow> distinct (Protocols H)"
    and "\<And>h H p. handles s h = Some H \<Longrightarrow> p \<in> set (Protocols H) \<Longrightarrow> \<exists>P. interfaces s p = Some P \<and> ifHandle P = h"
    and "interfaces s NULL = None"
    and "\<And>p P. interfaces s p = Some P \<Longrightarrow> \<exists>H. handles s (ifHandle P) = Some H \<and> p \<in> set (Protocols H)"
    and "\<And>p P. interfaces s p = Some P \<Longrightarrow> p \<in> set (entry_interfaces (ifProtocol P) s) \<longleftrightarrow> p \<notin> X"
    and "\<And>p P. interfaces s p = Some P \<Longrightarrow> count_ok P"
    and "distinct (map ProtocolID (mProtocolDatabase s))" and "\<And>g. distinct (entry_interfaces g s)"
    and "\<And>g p. p \<in> set (entry_interfaces g s) \<Longrightarrow> \<exists>P. interfaces s p = Some P \<and> ifProtocol P = g"
    and "notifies s NULL = None" and "\<And>g. distinct (entry_notifies g s)"
    and "\<And>g n. n \<in> set (entry_notifies g s) \<Longrightarrow> \<exists>N. notifies s n = Some N \<and> nfProtocol N = g"
    and "\<And>n N. notifies s n = Some N \<Longrightarrow> n \<in> set (entry_notifies (nfProtocol N) s)"
    and "\<And>n N. notifies s n = Some N \<Longrightarrow> Position N = NULL \<or> Position N \<in> set (entry_interfaces (nfProtocol N) s)"
  using assms by (auto simp: inv_defs)

lemma hdb_invI:
  assumes "handles s NULL = None" and "distinct (gHandleList s)" and "\<And>h. h \<in> set (gHandleList s) \<longleftrightarrow> handles s h \<noteq> None"
    and "\<And>h H. handles s h = Some H \<Longrightarrow> h \<notin> Y \<Longrightarrow> Protocols H \<noteq> []"
    and "\<And>h H. handles s h = Some H \<Longrightarrow> distinct (Protocols H)"
    and "\<And>h H p. handles s h = Some H \<Longrightarrow> p \<in> set (Protocols H) \<Longrightarrow> \<exists>P. interfaces s p = Some P \<and> ifHandle P = h"
    and "interfaces s NULL = None"
    and "\<And>p P. interfaces s p = Some P \<Longrightarrow> \<exists>H. handles s (ifHandle P) = Some H \<and> p \<in> set (Protocols H)"
    and "\<And>p P. interfaces s p = Some P \<Longrightarrow> p \<in> set (entry_interfaces (ifProtocol P) s) \<longleftrightarrow> p \<notin> X"
    and "\<And>p P. interfaces s p = Some P \<Longrightarrow> count_ok P"
    and "distinct (map ProtocolID (mProtocolDatabase s))" and "\<And>g. distinct (entry_interfaces g s)"
    and "\<And>g p. p \<in> set (entry_interfaces g s) \<Longrightarrow> \<exists>P. interfaces s p = Some P \<and> ifProtocol P = g"
    and "notifies s NULL = None" and "\<And>g. distinct (entry_notifies g s)"
    and "\<And>g n. n \<in> set (entry_notifies g s) \<Longrightarrow> \<exists>N. notifies s n = Some N \<and> nfProtocol N = g"
    and "\<And>n N. notifies s n = Some N \<Longrightarrow> n \<in> set (entry_notifies (nfProtocol N) s)"
    and "\<And>n N. notifies s n = Some N \<Longrightarrow> Position N = NULL \<or> Position N \<in> set (entry_interfaces (nfProtocol N) s)"
  shows "hdb_inv X Y s"
  using assms by (simp add: inv_defs)

section \<open>Steps\<close>

lemma entry_Some:
  "find_entry g (mProtocolDatabase s) = Some e \<Longrightarrow> entry_interfaces g s = Interfaces e"
  "find_entry g (mProtocolDatabase s) = Some e \<Longrightarrow> entry_notifies g s = Notify e"
  by (simp_all add: entry_interfaces_def entry_notifies_def)

lemma entry_upd_lists:
  "entry_interfaces k (upd_entry g (\<lambda>e. e\<lparr>Interfaces := F (Interfaces e)\<rparr>) s) =
     (if k = g \<and> find_entry g (mProtocolDatabase s) \<noteq> None then F (entry_interfaces k s) else entry_interfaces k s)"
  "entry_notifies k (upd_entry g (\<lambda>e. e\<lparr>Interfaces := F (Interfaces e)\<rparr>) s) = entry_notifies k s"
  "entry_interfaces k (upd_entry g (\<lambda>e. e\<lparr>Notify := F (Notify e)\<rparr>) s) = entry_interfaces k s"
  "entry_notifies k (upd_entry g (\<lambda>e. e\<lparr>Notify := F (Notify e)\<rparr>) s) =
     (if k = g \<and> find_entry g (mProtocolDatabase s) \<noteq> None then F (entry_notifies k s) else entry_notifies k s)"
  by (cases "find_entry g (mProtocolDatabase s)"; simp add: entry_Some)+

declare entry_upd(1,2) [simp del]

lemmas entry_upd_simps [simp] = entry_upd_lists [where F = "\<lambda>l. l @ [p]" for p] entry_upd_lists [where F = "remove1 p" for p]

lemma inv_alloc: "hdb_inv X Y s \<Longrightarrow> hdb_inv X Y (snd (alloc env used s))"
  by (simp add: alloc_def split: prod.split)

lemma alloc_used: "alloc env used s = (a, s1) \<Longrightarrow> a \<noteq> NULL \<Longrightarrow> \<not> used s a"
  by (auto simp: alloc_def split: prod.splits if_splits)

lemma alloc_state: "alloc env used s = (a, s1) \<Longrightarrow> \<exists>w. s1 = s\<lparr>hworld := w\<rparr>"
  by (auto simp: alloc_def split: prod.splits)

lemma inv_append_entry:
  assumes "hdb_inv X Y s" "find_entry g (mProtocolDatabase s) = None"
  shows "hdb_inv X Y (s\<lparr>mProtocolDatabase := mProtocolDatabase s @ [\<lparr>ProtocolID = g, Interfaces = [], Notify = []\<rparr>]\<rparr>)"
proof -
  let ?s = "s\<lparr>mProtocolDatabase := mProtocolDatabase s @ [\<lparr>ProtocolID = g, Interfaces = [], Notify = []\<rparr>]\<rparr>"
  have same: "entry_interfaces k ?s = entry_interfaces k s" "entry_notifies k ?s = entry_notifies k s" for k
    by (auto simp: entry_interfaces_def entry_notifies_def find_entry_append split: option.split)
  have "g \<notin> ProtocolID ` set (mProtocolDatabase s)" using assms(2) by (simp add: find_entry_None)
  then show ?thesis using assms(1) by (simp add: hdb_inv_def handles_ok_def interfaces_ok_def entries_ok_def notifies_ok_def same)
qed

lemma find_protocol_entry:
  assumes "CoreFindProtocolEntry env g c s = (found, s1)"
  shows "hdb_inv X Y s \<Longrightarrow> hdb_inv X Y s1" "found \<Longrightarrow> find_entry g (mProtocolDatabase s1) \<noteq> None"
    "handles s1 = handles s" "interfaces s1 = interfaces s" "notifies s1 = notifies s" "gHandleList s1 = gHandleList s"
    "entry_interfaces k s1 = entry_interfaces k s" "entry_notifies k s1 = entry_notifies k s"
proof -
  obtain a w where a: "alloc env (\<lambda>_ _. False) s = (a, s\<lparr>hworld := w\<rparr>)"
    using alloc_state by (metis surj_pair)
  have "(found \<longrightarrow> find_entry g (mProtocolDatabase s1) \<noteq> None) \<and> (s1 = s \<or> s1 = s\<lparr>hworld := w\<rparr> \<or>
    find_entry g (mProtocolDatabase s) = None \<and>
    s1 = s\<lparr>hworld := w, mProtocolDatabase := mProtocolDatabase s @ [\<lparr>ProtocolID = g, Interfaces = [], Notify = []\<rparr>]\<rparr>)"
    using assms a by (auto simp: CoreFindProtocolEntry_def find_entry_append split: option.splits if_splits)
  moreover have "hdb_inv X Y s \<Longrightarrow> find_entry g (mProtocolDatabase s) = None \<Longrightarrow>
    hdb_inv X Y (s\<lparr>hworld := w, mProtocolDatabase := mProtocolDatabase s @ [\<lparr>ProtocolID = g, Interfaces = [], Notify = []\<rparr>]\<rparr>)"
    using inv_append_entry [of X Y "s\<lparr>hworld := w\<rparr>" g] by simp
  moreover have "entry_interfaces k (s\<lparr>hworld := w, mProtocolDatabase := mProtocolDatabase s @ [\<lparr>ProtocolID = g, Interfaces = [], Notify = []\<rparr>]\<rparr>) =
      entry_interfaces k s"
    "entry_notifies k (s\<lparr>hworld := w, mProtocolDatabase := mProtocolDatabase s @ [\<lparr>ProtocolID = g, Interfaces = [], Notify = []\<rparr>]\<rparr>) =
      entry_notifies k s"
    by (auto simp: entry_interfaces_def entry_notifies_def find_entry_append split: option.split)
  ultimately show "hdb_inv X Y s \<Longrightarrow> hdb_inv X Y s1" "found \<Longrightarrow> find_entry g (mProtocolDatabase s1) \<noteq> None"
    "handles s1 = handles s" "interfaces s1 = interfaces s" "notifies s1 = notifies s" "gHandleList s1 = gHandleList s"
    "entry_interfaces k s1 = entry_interfaces k s" "entry_notifies k s1 = entry_notifies k s"
    by auto
qed

text \<open>A handle with no protocol may be added, an interface may be put on a handle.\<close>

lemma inv_new_handle:
  assumes "hdb_inv X Y s" "handles s h = None" "h \<noteq> NULL"
  shows "hdb_inv X (insert h Y) (new_handle h s)"
proof -
  have "handles_ok (insert h Y) (new_handle h s)"
    using assms unfolding hdb_inv_def handles_ok_def new_handle_def by auto
  moreover have "interfaces_ok X (new_handle h s)"
    using assms unfolding hdb_inv_def interfaces_ok_def new_handle_def entry_interfaces_def by fastforce
  ultimately show ?thesis using assms(1)
    by (simp add: hdb_inv_def entries_ok_def notifies_ok_def new_handle_def entry_interfaces_def entry_notifies_def)
qed

lemma inv_put_interface:
  assumes "hdb_inv X Y s" "interfaces s p = None" "p \<noteq> NULL" "handles s h \<noteq> None" "find_entry g (mProtocolDatabase s) \<noteq> None"
    "p \<notin> X"
  shows "hdb_inv X (Y - {h}) (put_interface p h g i s)"
proof -
  let ?s = "put_interface p h g i s"
  obtain H where H: "handles s h = Some H" using assms(4) by blast
  have fields: "handles ?s = (handles s)(h \<mapsto> H\<lparr>Protocols := p # Protocols H\<rparr>)"
    "interfaces ?s = (interfaces s)(p \<mapsto> \<lparr>ifHandle = h, ifProtocol = g, Interface = i, OpenList = [], OpenListCount = 0\<rparr>)"
    "notifies ?s = notifies s" "gHandleList ?s = gHandleList s"
    "map ProtocolID (mProtocolDatabase ?s) = map ProtocolID (mProtocolDatabase s)"
    "entry_notifies k ?s = entry_notifies k s"
    "entry_interfaces k ?s = (if k = g then entry_interfaces k s @ [p] else entry_interfaces k s)" for k
    using H assms(5) by (simp_all add: put_interface_def)
  note D = hdb_invD [OF assms(1)]
  have fresh: "p \<notin> set (Protocols K)" if "handles s k = Some K" for k K using D(6) [OF that] assms(2) by force
  have fresh': "p \<notin> set (entry_interfaces k s)" for k using D(13) assms(2) by force
  show ?thesis
  proof (rule hdb_invI; unfold fields)
    fix k K q assume K: "((handles s)(h \<mapsto> H\<lparr>Protocols := p # Protocols H\<rparr>)) k = Some K"
    show "distinct (Protocols K)" using K D(5) H fresh by (auto split: if_splits)
    show "k \<notin> Y - {h} \<Longrightarrow> Protocols K \<noteq> []" using K D(4) by (auto split: if_splits)
    show "q \<in> set (Protocols K) \<Longrightarrow> \<exists>P. ((interfaces s)(p \<mapsto> \<lparr>ifHandle = h, ifProtocol = g, Interface = i,
        OpenList = [], OpenListCount = 0\<rparr>)) q = Some P \<and> ifHandle P = k"
      using K D(6) H fresh by (auto split: if_splits)
  next
    fix q P assume P: "((interfaces s)(p \<mapsto> \<lparr>ifHandle = h, ifProtocol = g, Interface = i, OpenList = [], OpenListCount = 0\<rparr>)) q = Some P"
    show "\<exists>K. ((handles s)(h \<mapsto> H\<lparr>Protocols := p # Protocols H\<rparr>)) (ifHandle P) = Some K \<and> q \<in> set (Protocols K)"
      using P D(8) [of q] H by (auto split: if_splits)
    show "(q \<in> set (if ifProtocol P = g then entry_interfaces (ifProtocol P) s @ [p] else entry_interfaces (ifProtocol P) s)) = (q \<notin> X)"
      using P D(9) [of q] assms(6) fresh' by (auto split: if_splits)
    show "count_ok P" using P D(10) by (auto simp: count_ok_def split: if_splits)
  next
    fix n N assume "notifies s n = Some N"
    then show "Position N = NULL \<or> Position N \<in> set (if nfProtocol N = g then entry_interfaces (nfProtocol N) s @ [p]
        else entry_interfaces (nfProtocol N) s)" using D(18) [of n N] by auto
  qed (use D assms H fresh' in \<open>auto split: if_splits\<close>)
qed

section \<open>Finding and removing an interface\<close>

lemma find_interface_Some:
  "find_interface s t ps = ret q \<Longrightarrow> q \<noteq> NULL \<Longrightarrow> q \<in> set ps \<and> (\<exists>P. interfaces s q = Some P \<and> t P)"
  by (induction ps) (auto simp: with_interface_def split: option.splits if_splits)

lemma find_protocol_interface:
  "CoreFindProtocolInterface h g i s = ret q \<Longrightarrow> q \<noteq> NULL \<Longrightarrow>
    \<exists>H P. handles s h = Some H \<and> q \<in> set (Protocols H) \<and> interfaces s q = Some P \<and> Interface P = i \<and> ifProtocol P = g \<and>
      find_entry g (mProtocolDatabase s) \<noteq> None"
  by (auto simp: CoreFindProtocolInterface_def with_handle_def split: if_splits option.splits dest!: find_interface_Some)

lemma get_protocol_interface:
  "CoreGetProtocolInterface h g s = ret q \<Longrightarrow> q \<noteq> NULL \<Longrightarrow>
    \<exists>H P. handles s h = Some H \<and> q \<in> set (Protocols H) \<and> interfaces s q = Some P \<and> ifProtocol P = g"
  by (auto simp: CoreGetProtocolInterface_def with_handle_def split: if_splits option.splits dest!: find_interface_Some)

lemma back_link_member: "back_link p b l = b \<or> back_link p b l \<in> set l \<or> back_link p b l = NULL"
  by (induction l arbitrary: b) auto

lemma back_link_remove:
  "distinct l \<Longrightarrow> p \<in> set l \<Longrightarrow> b \<notin> set l \<Longrightarrow> back_link p b l = b \<or> back_link p b l \<in> set (remove1 p l)"
proof (induction l arbitrary: b)
  case (Cons q qs)
  then show ?case using Cons.IH [of q] by auto
qed simp

definition moved :: "ptr \<Rightarrow> ptr \<Rightarrow> PROTOCOL_NOTIFY \<Rightarrow> PROTOCOL_NOTIFY" where
  "moved p b N = (if Position N = p then N\<lparr>Position := b\<rparr> else N)"

lemma moved_fields [simp]: "nfProtocol (moved p b N) = nfProtocol N" "Event (moved p b N) = Event N"
  "Position (moved p b N) = (if Position N = p then b else Position N)" "moved p b (moved p b N) = moved p b N"
  by (simp_all add: moved_def)

lemma move_positions_result:
  "move_positions p b ns s = ret s1 \<Longrightarrow>
    s1 = s\<lparr>notifies := (\<lambda>n. if n \<in> set ns then map_option (moved p b) (notifies s n) else notifies s n)\<rparr>"
proof (induction ns arbitrary: s)
  case (Cons n ns)
  then obtain N where N: "notifies s n = Some N" by (auto simp: with_notify_def split: option.splits)
  let ?s = "if Position N = p then upd_notify n (\<lambda>n. n\<lparr>Position := b\<rparr>) s else s"
  have s: "?s = s\<lparr>notifies := (notifies s)(n := map_option (moved p b) (notifies s n))\<rparr>"
    using N by (auto simp: upd_notify_def moved_def fun_upd_idem)
  have "move_positions p b ns ?s = ret s1" using Cons.prems N by (simp add: with_notify_def)
  from Cons.IH [OF this] show ?case unfolding s using N by (auto simp: fun_eq_iff option.map_comp o_def)
qed simp

lemma remove_interface:
  assumes "hdb_inv {} Y s" "CoreRemoveInterfaceFromProtocol h g i s = ret (p, s1)" "p \<noteq> NULL"
  shows "hdb_inv {p} Y s1"
    and "\<exists>H P. handles s h = Some H \<and> p \<in> set (Protocols H) \<and> interfaces s p = Some P \<and> ifHandle P = h \<and> ifProtocol P = g \<and> Interface P = i"
    and "handles s1 = handles s" "interfaces s1 = interfaces s" "gHandleList s1 = gHandleList s"
    and "\<And>k. entry_interfaces k s1 = (if k = g then remove1 p (entry_interfaces g s) else entry_interfaces k s)"
    and "\<And>k. entry_notifies k s1 = entry_notifies k s"
    and "mProtocolDatabase s1 = mProtocolDatabase (upd_entry g (\<lambda>e. e\<lparr>Interfaces := remove1 p (Interfaces e)\<rparr>) s)"
    and "hworld s1 = hworld s" and "find_entry g (mProtocolDatabase s1) \<noteq> None"
    and "\<And>n N. notifies s1 n = Some N \<Longrightarrow> \<exists>M. notifies s n = Some M \<and> nfProtocol N = nfProtocol M \<and> Event N = Event M"
proof -
  note D = hdb_invD [OF assms(1)]
  let ?b = "back_link p NULL (entry_interfaces g s)"
  obtain s' where s': "CoreFindProtocolInterface h g i s = ret p" "move_positions p ?b (entry_notifies g s) s = ret s'"
    "s1 = upd_entry g (\<lambda>e. e\<lparr>Interfaces := remove1 p (Interfaces e)\<rparr>) s'"
    using assms(2,3) by (auto simp: CoreRemoveInterfaceFromProtocol_def bind_run_eq_ret split: if_splits)
  obtain H P where P: "handles s h = Some H" "p \<in> set (Protocols H)" "interfaces s p = Some P" "Interface P = i" "ifProtocol P = g"
    "find_entry g (mProtocolDatabase s) \<noteq> None"
    using find_protocol_interface [OF s'(1) assms(3)] by blast
  have h: "ifHandle P = h" using D(6) [OF P(1,2)] P(3) by simp
  have s'': "s' = s\<lparr>notifies := (\<lambda>n. if n \<in> set (entry_notifies g s) then map_option (moved p ?b) (notifies s n) else notifies s n)\<rparr>"
    by (rule move_positions_result [OF s'(2)])
  show fields: "handles s1 = handles s" "interfaces s1 = interfaces s" "gHandleList s1 = gHandleList s" "hworld s1 = hworld s"
    "\<And>k. entry_interfaces k s1 = (if k = g then remove1 p (entry_interfaces g s) else entry_interfaces k s)"
    "\<And>k. entry_notifies k s1 = entry_notifies k s" "find_entry g (mProtocolDatabase s1) \<noteq> None"
    using P(6) unfolding s'(3) s'' by simp_all
  show db: "mProtocolDatabase s1 = mProtocolDatabase (upd_entry g (\<lambda>e. e\<lparr>Interfaces := remove1 p (Interfaces e)\<rparr>) s)"
    unfolding s'(3) s'' by (simp add: upd_entry_def)
  show nf: "\<exists>M. notifies s n = Some M \<and> nfProtocol N = nfProtocol M \<and> Event N = Event M" if "notifies s1 n = Some N" for n N
    using that unfolding s'(3) s'' by (auto split: if_splits)
  show "\<exists>H P. handles s h = Some H \<and> p \<in> set (Protocols H) \<and> interfaces s p = Some P \<and> ifHandle P = h \<and> ifProtocol P = g \<and> Interface P = i"
    using P h by blast
  have p_in: "p \<in> set (entry_interfaces g s)" using D(9) [OF P(3)] P(5) by simp
  have null: "NULL \<notin> set (entry_interfaces g s)" using D(7,13) by force
  have notin: "p \<notin> set (entry_interfaces k s1)" for k
    using D(12) [of g] D(13) [of p k] P(3,5) unfolding fields by auto
  show "hdb_inv {p} Y s1"
  proof (rule hdb_invI)
    show "distinct (map ProtocolID (mProtocolDatabase s1))"
      using D(11) unfolding db by simp
    fix q Q assume Q: "interfaces s1 q = Some Q"
    show "(q \<in> set (entry_interfaces (ifProtocol Q) s1)) = (q \<notin> {p})"
      using D(9) [of q Q] Q notin [of "ifProtocol Q"] P(3,5) unfolding fields by (cases "q = p") auto
  next
    fix n N assume N: "notifies s1 n = Some N"
    then obtain M where M: "notifies s n = Some M" "nfProtocol N = nfProtocol M"
      "N = M \<or> Position M = p \<and> Position N = ?b \<and> nfProtocol M = g" "nfProtocol M = g \<longrightarrow> N = moved p ?b M"
      using D(16) [of n g] D(17) unfolding s'(3) s'' by (auto simp: moved_def split: if_splits)
    show "n \<in> set (entry_notifies (nfProtocol N) s1)" using D(17) [OF M(1)] M(2) unfolding fields by simp
    show "Position N = NULL \<or> Position N \<in> set (entry_interfaces (nfProtocol N) s1)"
    proof (cases "nfProtocol M = g")
      case True
      then show ?thesis using M D(18) [OF M(1)] back_link_remove [OF D(12) [of g] p_in null] D(12) [of g] unfolding fields
        by (auto simp: set_remove1_eq)
    next
      case False
      then show ?thesis using M D(18) [OF M(1)] unfolding fields by auto
    qed
  next
    fix g' n assume "n \<in> set (entry_notifies g' s1)"
    then have "n \<in> set (entry_notifies g' s)" by (simp add: fields)
    then obtain N where "notifies s n = Some N" "nfProtocol N = g'" using D(16) by blast
    then show "\<exists>N. notifies s1 n = Some N \<and> nfProtocol N = g'" unfolding s'(3) s'' by auto
  next
    show "notifies s1 NULL = None" using D(14) unfolding s'(3) s'' by simp
    fix k show "distinct (entry_interfaces k s1)" using D(12) unfolding fields by (simp add: distinct_remove1)
    show "distinct (entry_notifies k s1)" using D(15) unfolding fields by simp
    fix q assume "q \<in> set (entry_interfaces k s1)"
    then show "\<exists>P. interfaces s1 q = Some P \<and> ifProtocol P = k"
      using D(13) [of q k] set_remove1_subset [of p "entry_interfaces g s"] unfolding fields by (auto split: if_splits)
  qed (use D in \<open>simp_all only: fields, blast+\<close>)
qed

lemma inv_drop_interface:
  assumes "hdb_inv {p} Y s" "interfaces s p = Some P" "ifHandle P = h"
  shows "hdb_inv {} (insert h Y) (drop_interface h p s)"
proof -
  note D = hdb_invD [OF assms(1)]
  obtain H where H: "handles s h = Some H" "p \<in> set (Protocols H)" using D(8) [OF assms(2)] assms(3) by blast
  let ?H = "H\<lparr>Key := gHandleDatabaseKey s + 1, Protocols := remove1 p (Protocols H)\<rparr>"
  have fields: "handles (drop_interface h p s) = (handles s)(h \<mapsto> ?H)" "interfaces (drop_interface h p s) = (interfaces s)(p := None)"
    "notifies (drop_interface h p s) = notifies s" "gHandleList (drop_interface h p s) = gHandleList s"
    "mProtocolDatabase (drop_interface h p s) = mProtocolDatabase s"
    "entry_interfaces k (drop_interface h p s) = entry_interfaces k s" "entry_notifies k (drop_interface h p s) = entry_notifies k s" for k
    using H by (simp_all add: drop_interface_def Let_def)
  have notin: "p \<notin> set (entry_interfaces k s)" for k using D(9) [OF assms(2)] D(13) [of p k] assms(2) by auto
  have other: "q \<noteq> p" if "handles s k = Some K" "q \<in> set (Protocols K)" "k \<noteq> h" for k K q
    using D(6) [OF that(1,2)] assms(2,3) that(3) by auto
  show ?thesis
  proof (rule hdb_invI; unfold fields)
    fix k K assume K: "((handles s)(h \<mapsto> ?H)) k = Some K"
    show "k \<notin> insert h Y \<Longrightarrow> Protocols K \<noteq> []" using K D(4) [of k] by auto
    show "distinct (Protocols K)" using K D(5) [of k] D(5) [OF H(1)] by (auto split: if_splits)
    fix q assume q: "q \<in> set (Protocols K)"
    show "\<exists>P. ((interfaces s)(p := None)) q = Some P \<and> ifHandle P = k"
    proof (cases "k = h")
      case True
      then have "q \<in> set (Protocols H)" "q \<noteq> p" using K q D(5) [OF H(1)] by (auto simp: set_remove1_eq)
      then show ?thesis using D(6) [OF H(1)] True by simp
    next
      case False
      then show ?thesis using K q D(6) [of k K q] other [of k K q] by simp
    qed
  next
    fix q Q assume Q: "((interfaces s)(p := None)) q = Some Q"
    then have q: "interfaces s q = Some Q" "q \<noteq> p" by (auto split: if_splits)
    obtain K where "handles s (ifHandle Q) = Some K" "q \<in> set (Protocols K)" using D(8) [OF q(1)] by blast
    then show "\<exists>K. ((handles s)(h \<mapsto> ?H)) (ifHandle Q) = Some K \<and> q \<in> set (Protocols K)"
      using q H(1) by auto
    show "(q \<in> set (entry_interfaces (ifProtocol Q) s)) = (q \<notin> {})" using D(9) [OF q(1)] q(2) by simp
    show "count_ok Q" using D(10) [OF q(1)] .
  next
    fix g q assume "q \<in> set (entry_interfaces g s)"
    then show "\<exists>P. ((interfaces s)(p := None)) q = Some P \<and> ifProtocol P = g" using D(13) [of q g] notin [of g] by auto
  next
    fix k show "(k \<in> set (gHandleList s)) = (((handles s)(h \<mapsto> ?H)) k \<noteq> None)" using D(3) H(1) by auto
    show "((handles s)(h \<mapsto> ?H)) NULL = None" using D(1) H(1) by auto
  qed (use D in \<open>auto\<close>)
qed

lemma inv_drop_empty_handle:
  assumes "hdb_inv X (insert h Y) s" "drop_empty_handle h s = ret s1" "h \<notin> Y"
  shows "hdb_inv X Y s1"
proof -
  note D = hdb_invD [OF assms(1)]
  obtain H where H: "handles s h = Some H" using assms(2) by (auto simp: drop_empty_handle_def with_handle_def split: option.splits)
  show ?thesis
  proof (cases "Protocols H = []")
    case True
    then have s1: "s1 = s\<lparr>handles := (handles s)(h := None), gHandleList := remove1 h (gHandleList s)\<rparr>"
      using assms(2) H by (simp add: drop_empty_handle_def with_handle_def)
    have not: "ifHandle P \<noteq> h" if "interfaces s p = Some P" for p P using D(8) [OF that] H True by auto
    show ?thesis unfolding s1
    proof (rule hdb_invI)
      fix p P assume "interfaces (s\<lparr>handles := (handles s)(h := None), gHandleList := remove1 h (gHandleList s)\<rparr>) p = Some P"
      then have p: "interfaces s p = Some P" by simp
      show "\<exists>H'. handles (s\<lparr>handles := (handles s)(h := None), gHandleList := remove1 h (gHandleList s)\<rparr>) (ifHandle P) = Some H' \<and> p \<in> set (Protocols H')"
        using D(8) [OF p] not [OF p] by simp
    next
      fix k show "(k \<in> set (gHandleList (s\<lparr>handles := (handles s)(h := None), gHandleList := remove1 h (gHandleList s)\<rparr>))) =
          (handles (s\<lparr>handles := (handles s)(h := None), gHandleList := remove1 h (gHandleList s)\<rparr>) k \<noteq> None)"
        using D(2,3) by (auto simp: set_remove1_eq)
    qed (use D not in \<open>auto simp: distinct_remove1 split: if_splits\<close>)
  next
    case False
    then have "s1 = s" using assms(2) H by (simp add: drop_empty_handle_def with_handle_def)
    moreover have "hdb_inv X Y s"
    proof (rule hdb_invI)
      fix k K assume "handles s k = Some K" "k \<notin> Y"
      then show "Protocols K \<noteq> []" using D(4) [of k K] H False by (cases "k = h") auto
    qed (use D in auto)
    ultimately show ?thesis by simp
  qed
qed

lemma inv_put_back:
  assumes "hdb_inv {p} Y s" "interfaces s p = Some P" "ifProtocol P = g" "find_entry g (mProtocolDatabase s) \<noteq> None"
  shows "hdb_inv {} Y (upd_entry g (\<lambda>e. e\<lparr>Interfaces := Interfaces e @ [p]\<rparr>) s)" (is "hdb_inv {} Y ?s")
proof -
  note D = hdb_invD [OF assms(1)]
  have fields: "entry_interfaces k ?s = (if k = g then entry_interfaces k s @ [p] else entry_interfaces k s)"
    "entry_notifies k ?s = entry_notifies k s" for k using assms(4) by simp_all
  have notin: "p \<notin> set (entry_interfaces k s)" for k using D(9) [OF assms(2)] D(13) [of p k] assms(2) by auto
  show ?thesis
  proof (rule hdb_invI; (unfold fields upd_entry_fields)?)
    fix q Q assume Q: "interfaces s q = Some Q"
    show "(q \<in> set (if ifProtocol Q = g then entry_interfaces (ifProtocol Q) s @ [p] else entry_interfaces (ifProtocol Q) s)) = (q \<notin> {})"
      using D(9) [OF Q] Q assms(2,3) by auto
  next
    fix n N assume "notifies s n = Some N"
    then show "Position N = NULL \<or> Position N \<in> set (if nfProtocol N = g then entry_interfaces (nfProtocol N) s @ [p] else entry_interfaces (nfProtocol N) s)"
      using D(18) [of n N] by auto
  next
    fix k show "distinct (if k = g then entry_interfaces k s @ [p] else entry_interfaces k s)" using D(12) notin by simp
    fix q assume "q \<in> set (if k = g then entry_interfaces k s @ [p] else entry_interfaces k s)"
    then show "\<exists>P. interfaces s q = Some P \<and> ifProtocol P = k" using D(13) [of q k] assms(2,3) by (auto split: if_splits)
  qed (use D in \<open>auto simp: entry_upd\<close>)
qed

lemma inv_remove_notify:
  assumes "hdb_inv X Y s" "n \<in> set (entry_notifies g s)"
  shows "hdb_inv X Y (remove_notify g n s)"
proof -
  note D = hdb_invD [OF assms(1)]
  let ?s = "remove_notify g n s"
  have g: "find_entry g (mProtocolDatabase s) \<noteq> None" using assms(2) by (cases "find_entry g (mProtocolDatabase s)") (simp_all add: entry_notifies_def)
  have fields: "entry_interfaces k ?s = entry_interfaces k s" "handles ?s = handles s" "interfaces ?s = interfaces s"
    "gHandleList ?s = gHandleList s" "notifies ?s = (notifies s)(n := None)"
    "entry_notifies k ?s = (if k = g then remove1 n (entry_notifies k s) else entry_notifies k s)" 
    "map ProtocolID (mProtocolDatabase ?s) = map ProtocolID (mProtocolDatabase s)" for k
    using g by (simp_all add: remove_notify_def)
  have only: "n \<notin> set (entry_notifies k s)" if "k \<noteq> g" for k using D(16) [of n k] D(16) [OF assms(2)] that by auto
  show ?thesis
  proof (rule hdb_invI; unfold fields)
    fix k m assume "m \<in> set (if k = g then remove1 n (entry_notifies k s) else entry_notifies k s)"
    then have "m \<in> set (entry_notifies k s)" "m \<noteq> n" using D(15) [of k] only [of k] by (auto simp: set_remove1_eq split: if_splits)
    then show "\<exists>N. ((notifies s)(n := None)) m = Some N \<and> nfProtocol N = k" using D(16) by simp
  next
    fix m N assume "((notifies s)(n := None)) m = Some N"
    then have m: "notifies s m = Some N" "m \<noteq> n" by (auto split: if_splits)
    then show "m \<in> set (if nfProtocol N = g then remove1 n (entry_notifies (nfProtocol N) s) else entry_notifies (nfProtocol N) s)"
      using D(17) [OF m(1)] D(15) m(2) by (auto simp: set_remove1_eq)
    show "Position N = NULL \<or> Position N \<in> set (entry_interfaces (nfProtocol N) s)" using D(18) [OF m(1)] .
  next
    fix k show "distinct (if k = g then remove1 n (entry_notifies k s) else entry_notifies k s)" using D(15) by (simp add: distinct_remove1)
  qed (use D in auto)
qed

lemma inv_add_notify:
  assumes "hdb_inv X Y s" "notifies s n = None" "n \<noteq> NULL" "find_entry g (mProtocolDatabase s) \<noteq> None"
  shows "hdb_inv X Y (upd_entry g (\<lambda>en. en\<lparr>Notify := Notify en @ [n]\<rparr>)
    (s\<lparr>notifies := (notifies s)(n \<mapsto> \<lparr>nfProtocol = g, Event = e, Position = NULL\<rparr>)\<rparr>))" (is "hdb_inv X Y ?s")
proof -
  note D = hdb_invD [OF assms(1)]
  let ?N = "(notifies s)(n \<mapsto> \<lparr>nfProtocol = g, Event = e, Position = NULL\<rparr>)"
  have fields: "entry_interfaces k ?s = entry_interfaces k s" "handles ?s = handles s" "interfaces ?s = interfaces s"
    "gHandleList ?s = gHandleList s" "notifies ?s = ?N"
    "entry_notifies k ?s = (if k = g then entry_notifies k s @ [n] else entry_notifies k s)" 
    "map ProtocolID (mProtocolDatabase ?s) = map ProtocolID (mProtocolDatabase s)" for k
    using assms(4) by simp_all
  have fresh: "n \<notin> set (entry_notifies k s)" for k using D(16) [of n k] assms(2) by auto
  show ?thesis
  proof (rule hdb_invI; unfold fields)
    fix k m assume "m \<in> set (if k = g then entry_notifies k s @ [n] else entry_notifies k s)"
    then show "\<exists>N. ?N m = Some N \<and> nfProtocol N = k" using D(16) [of m k] fresh [of k] by (auto split: if_splits)
  next
    fix m N assume "?N m = Some N"
    then show "m \<in> set (if nfProtocol N = g then entry_notifies (nfProtocol N) s @ [n] else entry_notifies (nfProtocol N) s)"
      "Position N = NULL \<or> Position N \<in> set (entry_interfaces (nfProtocol N) s)"
      using D(17) [of m N] D(18) [of m N] by (auto split: if_splits)
  next
    fix k show "distinct (if k = g then entry_notifies k s @ [n] else entry_notifies k s)" using D(15) fresh by simp
  qed (use D assms(3) in auto)
qed

section \<open>The services\<close>

lemma with_ret:
  "with_handle s h k1 = ret r \<longleftrightarrow> (\<exists>H. handles s h = Some H \<and> k1 H = ret r)"
  "with_interface s p k2 = ret r \<longleftrightarrow> (\<exists>P. interfaces s p = Some P \<and> k2 P = ret r)"
  "with_notify s n k3 = ret r \<longleftrightarrow> (\<exists>N. notifies s n = Some N \<and> k3 N = ret r)"
  by (auto simp: with_handle_def with_interface_def with_notify_def split: option.splits)

lemma assert_if_ret: "assert_if e b k = ret r \<longleftrightarrow> (e \<longrightarrow> b) \<and> k = ret r"
  by (auto simp: assert_if_def)

lemmas run_simps = bind_run_eq_ret with_ret assert_if_ret

lemma signal_notifies_state:
  "signal_notifies env ns s = ret s1 \<Longrightarrow> \<exists>w. s1 = s\<lparr>hworld := w\<rparr>"
proof (induction ns arbitrary: s)
  case Nil
  then show ?case by (auto intro: exI [of _ "hworld s1"])
next
  case (Cons n ns)
  then obtain N where "notifies s n = Some N" "signal_notifies env ns (s\<lparr>hworld := CoreSignalEvent env (Event N) (hworld s)\<rparr>) = ret s1"
    by (auto simp: run_simps)
  from Cons.IH [OF this(2)] show ?case by auto
qed

lemma notify_entry_state: "CoreNotifyProtocolEntry env g s = ret s1 \<Longrightarrow> \<exists>w. s1 = s\<lparr>hworld := w\<rparr>"
  by (auto simp: CoreNotifyProtocolEntry_def dest: signal_notifies_state)

lemma notify_entry_ok: "hdb_inv X Y s \<Longrightarrow> CoreNotifyProtocolEntry env g s = ret s1 \<Longrightarrow> hdb_inv X Y s1"
  by (auto dest: notify_entry_state)

text \<open>The opens of an interface may change, if the count goes with them.\<close>

lemma close_opens_filter:
  "close_opens a c ods = filter (\<lambda>od. \<not> (AgentHandle od = a \<and> ControllerHandle od = c)) ods"
  by (induction ods) auto

lemma count_ok_set_opens: "count_ok P \<Longrightarrow> count_ok (set_opens (filter t (OpenList P)) P)"
  by (simp add: count_ok_def set_opens_def of_nat_diff)

lemma set_opens_fields [simp]: "ifHandle (set_opens ods P) = ifHandle P" "ifProtocol (set_opens ods P) = ifProtocol P"
  "Interface (set_opens ods P) = Interface P" "OpenList (set_opens ods P) = ods"
  by (simp_all add: set_opens_def)

lemma add_open_ok: "hdb_ok s \<Longrightarrow> hdb_ok (snd (add_open env p a c t s))"
  by (auto simp: add_open_def count_ok_def split: prod.split dest!: alloc_state intro!: inv_upd_interface)

lemma disconnect_drivers_keeps:
  assumes "disconnect_drivers dc h p s = ret r" "hdb_ok s" "\<And>h a s r. dc h a s = ret r \<Longrightarrow> hdb_ok s \<Longrightarrow> hdb_ok (snd r)"
  shows "hdb_ok (snd r)"
proof -
  have "disconnect_drivers dc h p s = Some y \<Longrightarrow> (\<forall>h a s r. dc h a s = ret r \<longrightarrow> hdb_ok s \<longrightarrow> hdb_ok (snd r)) \<longrightarrow>
      hdb_ok s \<longrightarrow> (\<forall>r. y = Inr r \<longrightarrow> hdb_ok (snd r))" for y
  proof (induction rule: disconnect_drivers.raw_induct [rotated, consumes 1])
    case (1 f dc h p s y)
    show ?case
    proof (intro impI allI)
      fix r assume dc: "\<forall>h a s r. dc h a s = ret r \<longrightarrow> hdb_ok s \<longrightarrow> hdb_ok (snd r)" and ok: "hdb_ok s" and y: "y = Inr r"
      obtain P where P: "interfaces s p = Some P" using 1(2) y by (auto split: option.splits)
      show "hdb_ok (snd r)"
      proof (cases "find_by_driver (OpenList P)")
        case None
        then show ?thesis using 1(2) P ok y by auto
      next
        case (Some od)
        let ?k = "\<lambda>q. if EFI_ERROR (fst q) then ret q else f dc h p (snd q)"
        have "bind_run (dc h (AgentHandle od) s) ?k = ret r" using 1(2) P Some y by (simp add: ret_def)
        then obtain q where q: "dc h (AgentHandle od) s = ret q" "?k q = ret r" by (auto simp: bind_run_eq_ret)
        then have "hdb_ok (snd q)" using dc ok by blast
        then show ?thesis using q(2) 1(1) [of dc h p "snd q" "Inr r"] dc by (auto simp: ret_def split: if_splits)
      qed
    qed
  qed
  then show ?thesis using assms by (cases r) (simp add: ret_def)
qed

lemma count_up_ok:
  "hdb_ok s \<Longrightarrow> hdb_ok (upd_interface p (\<lambda>P. P\<lparr>OpenList := (OpenList P)[i := F P]\<rparr>) s)"
  by (rule inv_upd_interface) (simp_all add: count_ok_def)

lemma new_handle_simps [simp]:
  "interfaces (new_handle h s) = interfaces s" "mProtocolDatabase (new_handle h s) = mProtocolDatabase s"
  "handles (new_handle h s) h \<noteq> None"
  by (simp_all add: new_handle_def)

lemma install_at_ok:
  assumes "install_at env p U g i n s = ret r" "hdb_ok s" "interfaces s p = None" "p \<noteq> NULL"
    "find_entry g (mProtocolDatabase s) \<noteq> None"
  shows "hdb_ok (snd (snd r))"
proof -
  obtain h s1 where hs: "(if U \<noteq> NULL then (U, s)
      else let (h, s1) = alloc env (\<lambda>s a. handles s a \<noteq> None) s in (h, if h = NULL then s1 else new_handle h s1)) = (h, s1)"
    by (rule prod.exhaust)
  have "hdb_inv {} (if U = NULL \<and> h \<noteq> NULL then {h} else {}) s1 \<and> interfaces s1 p = None \<and>
      find_entry g (mProtocolDatabase s1) \<noteq> None"
  proof (cases "U = NULL")
      case False
      then have "h = U" "s1 = s" using hs by simp_all
      then show "hdb_inv {} (if U = NULL \<and> h \<noteq> NULL then {h} else {}) s1 \<and> interfaces s1 p = None \<and>
          find_entry g (mProtocolDatabase s1) \<noteq> None" using assms False by simp
    next
      case True
      obtain a s2 where a: "alloc env (\<lambda>s a. handles s a \<noteq> None) s = (a, s2)" by (metis surj_pair)
      obtain w where w: "s2 = s\<lparr>hworld := w\<rparr>" using alloc_state [OF a] by blast
      have h: "h = a" "s1 = (if a = NULL then s2 else new_handle a s2)"
        using hs True unfolding a by (auto split: if_splits)
      have "a \<noteq> NULL \<Longrightarrow> handles s2 a = None" using alloc_used [OF a] w by simp
      then show "hdb_inv {} (if U = NULL \<and> h \<noteq> NULL then {h} else {}) s1 \<and> interfaces s1 p = None \<and>
          find_entry g (mProtocolDatabase s1) \<noteq> None"
        unfolding h using assms(2,3,5) w True inv_new_handle [of "{}" "{}" s2 a] by simp
  qed
  then have s1: "hdb_inv {} (if U = NULL \<and> h \<noteq> NULL then {h} else {}) s1" "interfaces s1 p = None"
    "find_entry g (mProtocolDatabase s1) \<noteq> None" by blast+
  show ?thesis
  proof (cases "h = NULL \<or> EFI_ERROR (CoreValidateHandle h s1)")
    case True
    have "\<not> (U = NULL \<and> h \<noteq> NULL)" 
      using True hs by (auto simp: CoreValidateHandle_def split: if_splits prod.splits)
    then have "hdb_ok s1" using s1(1) by auto
    then show ?thesis using assms(1) hs True unfolding install_at_def by (auto split: if_splits)
  next
    case False
    then have h: "handles s1 h \<noteq> None" by (auto simp: CoreValidateHandle_def split: if_splits)
    have put: "hdb_ok (put_interface p h g i s1)"
      using inv_put_interface [OF s1(1,2) assms(4) h s1(3), of i] by (auto split: if_splits)
    obtain s3 where "(if n then CoreNotifyProtocolEntry env g (put_interface p h g i s1) else ret (put_interface p h g i s1)) = ret s3"
      "r = (EFI_SUCCESS, h, s3)"
      using assms(1) False unfolding install_at_def hs by (auto simp: run_simps Let_def)
    then show ?thesis using put notify_entry_ok by (auto split: if_splits)
  qed
qed

text \<open>
  What a database that runs drivers needs of them: the two functions that do keep the invariant.
\<close>

locale driver_services =
  fixes dc :: "'w disconnect" and cn :: "'w connect"
  assumes disconnect_ok: "dc h a s = ret r \<Longrightarrow> hdb_ok s \<Longrightarrow> hdb_ok (snd r)"
    and connect_ok: "cn h s = ret r \<Longrightarrow> hdb_ok s \<Longrightarrow> hdb_ok (snd r)"
begin

lemma disconnect_drivers_ok: "disconnect_drivers dc h p s = ret r \<Longrightarrow> hdb_ok s \<Longrightarrow> hdb_ok (snd r)"
  using disconnect_drivers_keeps disconnect_ok by blast

lemma open_interface_ok:
  assumes "open_interface dc env h p a c t s = ret r" "hdb_ok s"
  shows "hdb_ok (snd r)"
proof -
  have exclusive: "hdb_ok (snd r)" if "bind_run (disconnect_drivers dc h p s) (\<lambda>(Status, s1).
      if EFI_ERROR Status then ret (EFI_ACCESS_DENIED, s1) else ret (add_open env p a c t s1)) = ret r"
    using that disconnect_drivers_ok [OF _ assms(2), of h p] add_open_ok
    by (auto simp: bind_run_eq_ret split: if_splits)
  obtain P where P: "interfaces s p = Some P" using assms(1) by (auto simp: open_interface_def run_simps)
  show ?thesis
  proof (cases "scan_opens a c t 0 False False (OpenList P)")
    case AlreadyOpen
    then show ?thesis using assms P by (auto simp: open_interface_def run_simps)
  next
    case (CountUp i)
    then show ?thesis using assms P by (auto simp: open_interface_def run_simps intro: count_up_ok)
  next
    case (Scanned d e)
    then show ?thesis using assms P exclusive add_open_ok [OF assms(2)]
      by (auto simp: open_interface_def with_ret split: if_splits)
  qed
qed

lemma open_protocol_ok: "CoreOpenProtocol dc env h g n a c t s = ret r \<Longrightarrow> hdb_ok s \<Longrightarrow> hdb_ok (snd (snd r))"
  unfolding CoreOpenProtocol_def Let_def
  by (auto simp: run_simps dest!: open_interface_ok split: option.splits if_splits)

lemma install_ok:
  assumes "CoreInstallProtocolInterfaceNotify dc env UserHandle Protocol t i n s = ret r" "hdb_ok s"
  shows "hdb_ok (snd (snd r))"
proof (cases "UserHandle = None \<or> Protocol = None \<or> t \<noteq> EFI_NATIVE_INTERFACE")
  case True
  then show ?thesis using assms by (auto simp: CoreInstallProtocolInterfaceNotify_def split: option.splits)
next
  case False
  then obtain h g where hg: "UserHandle = Some h" "Protocol = Some g" "t = EFI_NATIVE_INTERFACE" by auto
  obtain st s1 where s1: "(if h \<noteq> NULL then bind_run (CoreHandleProtocol dc env h (Some g) False s) (\<lambda>(Status, _, s1). ret (Status, s1))
      else ret (EFI_OUT_OF_RESOURCES, s)) = ret (st, s1)"
    using assms(1) unfolding CoreInstallProtocolInterfaceNotify_def hg by (auto simp: bind_run_eq_ret)
  have ok1: "hdb_ok s1"
    using s1 assms(2) by (auto simp: CoreHandleProtocol_def bind_run_eq_ret dest!: open_protocol_ok split: if_splits)
  obtain found s2 where s2: "CoreFindProtocolEntry env g True s1 = (found, s2)" by (metis surj_pair)
  note e = find_protocol_entry [OF s2]
  obtain p s3 where s3: "alloc env (\<lambda>s a. interfaces s a \<noteq> None) s2 = (p, s3)" by (metis surj_pair)
  obtain w where w: "s3 = s2\<lparr>hworld := w\<rparr>" using alloc_state [OF s3] by blast
  have ok: "hdb_ok s2" "hdb_ok s3" using e(1) [OF ok1] w by simp_all
  have run: "(if \<not> EFI_ERROR st then ret (EFI_INVALID_PARAMETER, UserHandle, s1)
      else if \<not> found then ret (st, UserHandle, s2)
      else if p = NULL then ret (EFI_OUT_OF_RESOURCES, UserHandle, s3)
      else bind_run (install_at env p h g i n s3) (\<lambda>(Status1, h1, s4). ret (Status1, Some h1, s4))) = ret r"
    using assms(1) unfolding CoreInstallProtocolInterfaceNotify_def hg prod.case option.case simp_thms if_False s1 bind_run_simps
      s2 Let_def s3 .
  have "p \<noteq> NULL \<Longrightarrow> interfaces s3 p = None" using alloc_used [OF s3] w by simp
  then show ?thesis using run ok1 ok e(2) w
    by (auto simp: bind_run_eq_ret dest: install_at_ok split: if_splits)
qed

end

lemma handle_protocol_opens_ok: "count_ok P \<Longrightarrow> count_ok (set_opens (handle_protocol_opens (OpenList P)) P)"
  by (simp add: handle_protocol_opens_def count_ok_set_opens)

lemma close_ok: "CoreCloseProtocol h g a c s = ret r \<Longrightarrow> hdb_ok s \<Longrightarrow> hdb_ok (snd r)"
  unfolding CoreCloseProtocol_def Let_def close_opens_filter
  by (auto simp: run_simps intro!: inv_upd_interface count_ok_set_opens split: option.splits if_splits)

lemma information_ok: "CoreOpenProtocolInformation env h g s = ret r \<Longrightarrow> hdb_ok s \<Longrightarrow> hdb_ok (snd (snd r))"
  using alloc_state [of env "\<lambda>_ _. False" s] unfolding CoreOpenProtocolInformation_def
  by (cases "alloc env (\<lambda>_ _. False) s") (auto simp: run_simps split: if_splits)

lemma per_handle_ok: "CoreProtocolsPerHandle env h b n s = ret r \<Longrightarrow> hdb_ok s \<Longrightarrow> hdb_ok (snd (snd r))"
  using alloc_state [of env "\<lambda>_ _. False" s] unfolding CoreProtocolsPerHandle_def
  by (cases "alloc env (\<lambda>_ _. False) s") (auto simp: run_simps split: if_splits)

lemma register_ok: "hdb_ok s \<Longrightarrow> hdb_ok (snd (snd (CoreRegisterProtocolNotify env g e n s)))"
proof (cases "g = None \<or> e = NULL \<or> n")
  case True
  then show "hdb_ok s \<Longrightarrow> ?thesis" by (auto simp: CoreRegisterProtocolNotify_def split: option.splits)
next
  case False
  then obtain k where g: "g = Some k" by auto
  assume ok: "hdb_ok s"
  obtain found s1 where s1: "CoreFindProtocolEntry env k True s = (found, s1)" by (rule prod.exhaust)
  obtain a s2 where a: "alloc env (\<lambda>s a. notifies s a \<noteq> None) s1 = (a, s2)" by (rule prod.exhaust)
  obtain w where w: "s2 = s1\<lparr>hworld := w\<rparr>" using alloc_state [OF a] by blast
  have ok1: "hdb_ok s1" and ok2: "hdb_ok s2" using find_protocol_entry(1) [OF s1 ok] w by simp_all
  have "found \<Longrightarrow> find_entry k (mProtocolDatabase s2) \<noteq> None" using find_protocol_entry(2) [OF s1] w by simp
  moreover have "a \<noteq> NULL \<Longrightarrow> notifies s2 a = None" using alloc_used [OF a] w by simp
  ultimately have "found \<Longrightarrow> a \<noteq> NULL \<Longrightarrow> hdb_ok (upd_entry k (\<lambda>en. en\<lparr>Notify := Notify en @ [a]\<rparr>)
      (s2\<lparr>notifies := (notifies s2)(a \<mapsto> \<lparr>nfProtocol = k, Event = e, Position = NULL\<rparr>)\<rparr>))"
    using inv_add_notify [OF ok2] by blast
  then show ?thesis using ok1 ok2 False unfolding CoreRegisterProtocolNotify_def g option.case s1 prod.case Let_def a by simp
qed

lemma find_entry_mem: "distinct (map ProtocolID es) \<Longrightarrow> en \<in> set es \<Longrightarrow> find_entry (ProtocolID en) es = Some en"
  by (induction es) (auto simp: rev_image_eqI)

lemma unregister_notify_event_ok:
  assumes "CoreUnregisterProtocolNotifyEvent e s = ret r" "hdb_inv X Y s"
  shows "hdb_inv X Y (snd r)"
proof -
  obtain g n where n: "find_registered s e (mProtocolDatabase s) = ret (g, n)"
    "r = (if n = NULL then (EFI_NOT_FOUND, s) else (EFI_SUCCESS, remove_notify g n s))"
    using assms(1) by (auto simp: CoreUnregisterProtocolNotifyEvent_def bind_run_eq_ret split: if_splits)
  show ?thesis
  proof (cases "n = NULL")
    case False
    then obtain en where en: "en \<in> set (mProtocolDatabase s)" "ProtocolID en = g" "n \<in> set (Notify en)"
      using find_registered_member [OF n(1)] by blast
    then have "entry_notifies g s = Notify en" 
      using find_entry_mem [OF hdb_invD(11) [OF assms(2)] en(1)] by (simp add: entry_Some)
    then show ?thesis using n(2) False inv_remove_notify [OF assms(2), of n g] en(3) by simp
  qed (use n assms in simp)
qed

lemma unregister_ok: "CoreUnregisterProtocolNotify e s = ret r \<Longrightarrow> hdb_inv X Y s \<Longrightarrow> hdb_inv X Y (snd r)"
proof (induction e s arbitrary: r rule: CoreUnregisterProtocolNotify.induct)
  case (1 e s)
  from 1(2) obtain q where q: "CoreUnregisterProtocolNotifyEvent e s = ret q"
    "(if \<not> EFI_ERROR (fst q) then CoreUnregisterProtocolNotify e (snd q) else ret (EFI_SUCCESS, snd q)) = ret r"
    by (subst (asm) CoreUnregisterProtocolNotify.simps) (auto simp: bind_run_eq_ret)
  show ?case using 1(1) [OF q(1)] q(2) unregister_notify_event_ok [OF q(1) 1(3)] by (auto split: if_splits)
qed

text \<open>A search writes the number of the search into the handles it meets, and moves its registration.\<close>

lemma locate_by_protocol_ok:
  "CoreGetNextLocateByProtocol i ps s = ret r \<Longrightarrow> hdb_inv X Y s \<Longrightarrow> hdb_inv X Y (snd (snd (snd r)))"
  by (induction ps arbitrary: i) (auto simp: run_simps inv_upd_handle split: if_splits)

lemma get_next_ok: "get_next pos s = ret r \<Longrightarrow> hdb_inv X Y s \<Longrightarrow> hdb_inv X Y (snd (snd r))"
  unfolding get_next_def
  by (auto simp: run_simps dest: locate_by_protocol_ok split: locate_position.splits list.splits)

lemma locate_loop_ok: "locate_loop pos s = ret r \<Longrightarrow> hdb_inv X Y s \<Longrightarrow> hdb_inv X Y (snd r)"
proof (induction pos s arbitrary: r rule: locate_loop.induct)
  case (1 pos s)
  from 1(2) obtain h pos1 s1 where n: "get_next pos s = ret (h, pos1, s1)"
    "(if h = NULL then ret ([], s1) else bind_run (locate_loop pos1 s1) (\<lambda>(hs, s2). ret (h # hs, s2))) = ret r"
    by (subst (asm) locate_loop.simps) (auto simp: bind_run_eq_ret)
  have "hdb_inv X Y s1" using get_next_ok [OF n(1) 1(3)] by simp
  then show ?case using 1(1) [OF n(1) refl refl] n(2) by (auto simp: bind_run_eq_ret split: if_splits)
qed

lemma forward_link_out: "forward_link p l \<notin> set l \<Longrightarrow> forward_link p l = NULL"
proof (induction l)
  case (Cons q qs)
  then show ?case by (cases qs) (simp_all split: if_splits)
qed simp

lemma inv_upd_notify:
  assumes "hdb_inv X Y s" "\<And>N. notifies s n = Some N \<Longrightarrow> nfProtocol (f N) = nfProtocol N \<and>
      (Position (f N) = NULL \<or> Position (f N) \<in> set (entry_interfaces (nfProtocol N) s))"
  shows "hdb_inv X Y (upd_notify n f s)"
proof (rule hdb_invI; (unfold upd_fields entry_upd_others)?)
  note D = hdb_invD [OF assms(1)]
  show "((notifies s)(n := map_option f (notifies s n))) NULL = None" using D(14) by auto
  fix g m assume "m \<in> set (entry_notifies g s)"
  then show "\<exists>N. ((notifies s)(n := map_option f (notifies s n))) m = Some N \<and> nfProtocol N = g"
    using D(16) [of m g] assms(2) by auto
next
  note D = hdb_invD [OF assms(1)]
  fix m N assume "((notifies s)(n := map_option f (notifies s n))) m = Some N"
  then show "m \<in> set (entry_notifies (nfProtocol N) s)" "Position N = NULL \<or> Position N \<in> set (entry_interfaces (nfProtocol N) s)"
    using D(17,18) assms(2) by (auto split: if_splits)
qed (use hdb_invD [OF assms(1)] in auto)

lemma advance_notify_ok: "advance_notify n s = ret s1 \<Longrightarrow> hdb_inv X Y s \<Longrightarrow> hdb_inv X Y s1"
  unfolding advance_notify_def by (auto simp: run_simps intro!: inv_upd_notify intro: forward_link_out)

lemma locate_handle_ok: "CoreLocateHandle t g k n b s = ret r \<Longrightarrow> hdb_inv X Y s \<Longrightarrow> hdb_inv X Y (snd (snd (snd r)))"
  unfolding CoreLocateHandle_def Let_def
  by (auto simp: bind_run_eq_ret dest!: locate_loop_ok advance_notify_ok split: option.splits sum.splits if_splits)

lemma locate_protocol_ok: "CoreLocateProtocol g r n s = ret q \<Longrightarrow> hdb_inv X Y s \<Longrightarrow> hdb_inv X Y (snd (snd q))"
  unfolding CoreLocateProtocol_def Let_def
  by (auto simp: bind_run_eq_ret dest!: locate_by_protocol_ok advance_notify_ok split: option.splits if_splits)

lemma locate_buffer_ok:
  assumes "CoreLocateHandleBuffer env t g k n b s = ret r" "hdb_inv X Y s"
  shows "hdb_inv X Y (snd (snd (snd r)))"
proof (cases "n \<or> b")
  case True
  then show ?thesis using assms by (auto simp: CoreLocateHandleBuffer_def split: if_splits)
next
  case False
  then obtain st m hs s1 where l: "CoreLocateHandle t g k (Some 0) True s = ret (st, m, hs, s1)"
    using assms(1) by (auto simp: CoreLocateHandleBuffer_def bind_run_eq_ret)
  obtain a s2 where a: "alloc env (\<lambda>_ _. False) s1 = (a, s2)" by (rule prod.exhaust)
  obtain w where w: "s2 = s1\<lparr>hworld := w\<rparr>" using alloc_state [OF a] by blast
  have ok: "hdb_inv X Y s1" "hdb_inv X Y s2" using locate_handle_ok [OF l assms(2)] w by simp_all
  show ?thesis using assms(1) False ok locate_handle_ok [OF _ ok(2)] unfolding CoreLocateHandleBuffer_def l
    by (auto simp: bind_run_eq_ret a split: if_splits)
qed

lemma inv_mono: "hdb_inv X Y s \<Longrightarrow> Y \<subseteq> Z \<Longrightarrow> hdb_inv X Z s"
  unfolding hdb_inv_def handles_ok_def by blast

lemma remove_none: "CoreRemoveInterfaceFromProtocol h g i s = ret (NULL, s1) \<Longrightarrow> hdb_inv {} {} s \<Longrightarrow> s1 = s"
  by (auto simp: CoreRemoveInterfaceFromProtocol_def bind_run_eq_ret split: if_splits)

context driver_services
begin

lemma disconnect_controllers_ok:
  assumes "CoreDisconnectControllersUsingProtocolInterface dc cn h p s = ret r" "hdb_ok s"
  shows "hdb_ok (snd r)"
proof -
  obtain st s1 where d: "disconnect_drivers dc h p s = ret (st, s1)"
    using assms(1) by (auto simp: CoreDisconnectControllersUsingProtocolInterface_def bind_run_eq_ret)
  have ok: "hdb_ok s1" using disconnect_drivers_ok [OF d assms(2)] by simp
  have upd: "hdb_ok (upd_interface p (\<lambda>_. set_opens (handle_protocol_opens (OpenList P)) P) s1)" if "interfaces s1 p = Some P" for P
    using that by (auto intro!: inv_upd_interface [OF ok] handle_protocol_opens_ok)
  show ?thesis using assms(1) ok upd unfolding CoreDisconnectControllersUsingProtocolInterface_def d
    by (auto simp: run_simps Let_def split: if_splits dest!: connect_ok)
qed

lemma uninstall_ok:
  assumes "CoreUninstallProtocolInterface dc cn h Protocol i s = ret r" "hdb_ok s"
  shows "hdb_ok (snd r)"
proof -
  have removed: "hdb_ok s4" if "CoreRemoveInterfaceFromProtocol h g i s1 = ret (q, s2)" "hdb_ok s1"
    "drop_empty_handle h (if q \<noteq> NULL then drop_interface h q s2 else s2) = ret s4" for g q s1 s2 s4
  proof (cases "q = NULL")
    case True
    then have "s2 = s1" using that remove_none by blast
    then have "hdb_inv {} {h} s2" using that(2) inv_mono [of "{}" "{}" s2 "{h}"] by simp
    then show ?thesis using that(3) True inv_drop_empty_handle [of "{}" h "{}" s2 s4] by simp
  next
    case False
    note x = remove_interface [OF that(2,1) False]
    obtain P where P: "interfaces s2 q = Some P" "ifHandle P = h" using x(2,4) by auto
    show ?thesis using inv_drop_interface [OF x(1) P] that(3) False inv_drop_empty_handle [of "{}" h "{}"] by simp
  qed
  show ?thesis using assms unfolding CoreUninstallProtocolInterface_def Let_def
    by (auto simp: bind_run_eq_ret split: option.splits if_splits dest!: disconnect_controllers_ok dest: removed)
qed

lemma reinstall_ok:
  assumes "CoreReinstallProtocolInterface dc cn env h Protocol i j s = ret r" "hdb_ok s"
  shows "hdb_ok (snd r)"
proof -
  have put: "hdb_ok (upd_entry g (\<lambda>e. e\<lparr>Interfaces := Interfaces e @ [q]\<rparr>) (upd_interface q (\<lambda>P. P\<lparr>Interface := j\<rparr>) s2))"
    if "CoreRemoveInterfaceFromProtocol h g i s1 = ret (q, s2)" "hdb_ok s1" "q \<noteq> NULL" for g q s1 s2
  proof -
    note x = remove_interface [OF that(2,1,3)]
    obtain P where P: "interfaces s2 q = Some P" "ifProtocol P = g" using x(2,4) by auto
    have "hdb_inv {q} {} (upd_interface q (\<lambda>P. P\<lparr>Interface := j\<rparr>) s2)"
      by (rule inv_upd_interface [OF x(1)]) (simp add: count_ok_def)
    then show ?thesis using inv_put_back [of q "{}" "upd_interface q (\<lambda>P. P\<lparr>Interface := j\<rparr>) s2" "P\<lparr>Interface := j\<rparr>" g] P x(10) by simp
  qed
  show ?thesis using assms unfolding CoreReinstallProtocolInterface_def Let_def
    by (auto simp: run_simps inv_upd_handle split: option.splits if_splits dest!: disconnect_controllers_ok notify_entry_state connect_ok
      dest: put remove_none)
qed

lemma connect_all_ok: "connect_all cn hs s = ret s1 \<Longrightarrow> hdb_ok s \<Longrightarrow> hdb_ok s1"
  by (induction hs arbitrary: s) (auto simp: bind_run_eq_ret dest!: connect_ok)

lemma connect_by_key_ok: "CoreConnectHandlesByKey cn env k s = ret s1 \<Longrightarrow> hdb_ok s \<Longrightarrow> hdb_ok s1"
  using alloc_state [of env "\<lambda>_ _. False" s] unfolding CoreConnectHandlesByKey_def
  by (cases "alloc env (\<lambda>_ _. False) s") (auto simp: bind_run_eq_ret split: if_splits dest: connect_all_ok)

end

context driver_services
begin

lemma call_ok:
  assumes "do_hdb_call dc cn env c s = ret r" "hdb_ok s"
  shows "hdb_ok (snd r)"
proof (cases c)
  case (RegisterProtocolNotify g e n)
  then show ?thesis using assms register_ok [OF assms(2), of env g e n] by (auto simp: do_hdb_call_def split: prod.splits)
qed (use assms in \<open>auto simp: do_hdb_call_def bind_run_eq_ret CoreInstallProtocolInterface_def
    dest!: install_ok uninstall_ok reinstall_ok open_protocol_ok close_ok information_ok per_handle_ok unregister_ok
      locate_handle_ok locate_buffer_ok locate_protocol_ok connect_by_key_ok disconnect_ok connect_ok\<close>)

lemma program_ok: "run_driver (do_hdb_call dc cn env) m s = ret r \<Longrightarrow> hdb_ok s \<Longrightarrow> hdb_ok (snd r)"
proof (induction m arbitrary: s)
  case (Call w c k)
  then obtain q where q: "do_hdb_call dc cn env c (s\<lparr>hworld := w\<rparr>) = ret q"
    "run_driver (do_hdb_call dc cn env) (k (fst q) (snd q)) (snd q) = ret r"
    by (auto simp: bind_run_eq_ret)
  have "hdb_ok (snd q)" using call_ok [OF q(1)] Call.prems(2) by simp
  then show ?case using Call.IH [OF rangeI rangeI q(2)] by simp
qed auto

end

text \<open>The drivers of the model, however deep they nest.\<close>

lemma driver_calls_ok:
  "driver_services (fst (driver_calls k env d)) (snd (driver_calls k env d))"
proof (induction k)
  case 0
  then show ?case by unfold_locales simp_all
next
  case (Suc k)
  show ?case by unfold_locales (auto simp: Let_def dest: driver_services.program_ok [OF Suc])
qed

interpretation drivers: driver_services "fst (driver_calls k env d)" "snd (driver_calls k env d)" for k env d
  by (rule driver_calls_ok)

end
