(* ===== verification/HandleServices.thy ===== *)
theory HandleServices
  imports HandleInvariant
begin

text \<open>
  What the services of the handle database do, against an abstract database: for a handle, the list of the
  protocols on it with their interfaces, the newest first.
\<close>

section \<open>The abstract database\<close>

definition protocol_at :: "'w hdb \<Rightarrow> ptr \<Rightarrow> EFI_GUID \<times> ptr" where
  "protocol_at s p = (case interfaces s p of None \<Rightarrow> ([], NULL) | Some P \<Rightarrow> (ifProtocol P, Interface P))"

definition protocols_of :: "'w hdb \<Rightarrow> ptr \<Rightarrow> (EFI_GUID \<times> ptr) list option" where
  "protocols_of s h = map_option (\<lambda>H. map (protocol_at s) (Protocols H)) (handles s h)"

definition has_protocol :: "'w hdb \<Rightarrow> ptr \<Rightarrow> EFI_GUID \<Rightarrow> bool" where
  "has_protocol s h g = (case protocols_of s h of None \<Rightarrow> False | Some ps \<Rightarrow> g \<in> fst ` set ps)"

lemma protocols_None [simp]: "protocols_of s h = None \<longleftrightarrow> handles s h = None"
  by (simp add: protocols_of_def)

lemma protocol_at_cong: "interfaces s1 = interfaces s \<Longrightarrow> protocol_at s1 = protocol_at s"
  by (simp add: protocol_at_def fun_eq_iff)

lemma protocols_eq: "handles s1 = handles s \<Longrightarrow> protocol_at s1 = protocol_at s \<Longrightarrow> protocols_of s1 = protocols_of s"
  by (rule ext) (simp add: protocols_of_def)

lemmas protocols_cong = protocols_eq [OF _ protocol_at_cong]

lemma protocols_simps [simp]:
  "protocols_of (s\<lparr>hworld := w\<rparr>) = protocols_of s"
  "protocols_of (s\<lparr>gHandleDatabaseKey := k\<rparr>) = protocols_of s"
  "protocols_of (s\<lparr>mEfiLocateHandleRequest := k\<rparr>) = protocols_of s"
  "protocols_of (s\<lparr>mProtocolDatabase := db\<rparr>) = protocols_of s"
  "protocols_of (s\<lparr>notifies := ns\<rparr>) = protocols_of s"
  "protocols_of (upd_entry g f s) = protocols_of s"
  by (rule protocols_cong; simp)+

lemma protocols_upd_interface:
  assumes "\<And>P. interfaces s p = Some P \<Longrightarrow> ifProtocol (f P) = ifProtocol P \<and> Interface (f P) = Interface P"
  shows "protocols_of (upd_interface p f s) = protocols_of s"
  by (rule protocols_eq) (use assms in \<open>auto simp: protocol_at_def fun_eq_iff split: option.split\<close>)

section \<open>Looking up never faults\<close>

lemma find_interface_total:
  "\<forall>p \<in> set ps. interfaces s p \<noteq> None \<Longrightarrow>
    find_interface s t ps = ret (case List.find (\<lambda>p. t (the (interfaces s p))) ps of None \<Rightarrow> NULL | Some p \<Rightarrow> p)"
  by (induction ps) (auto simp: with_interface_def)

lemma signal_notifies_total:
  "\<forall>n \<in> set ns. notifies s n \<noteq> None \<Longrightarrow> \<exists>w. signal_notifies env ns s = ret (s\<lparr>hworld := w\<rparr>)"
proof (induction ns arbitrary: s)
  case Nil
  have "signal_notifies env [] s = ret (s\<lparr>hworld := hworld s\<rparr>)" by simp
  then show ?case by blast
next
  case (Cons n ns)
  then obtain N where N: "notifies s n = Some N" by auto
  obtain w where "signal_notifies env ns (s\<lparr>hworld := CoreSignalEvent env (Event N) (hworld s)\<rparr>) = ret (s\<lparr>hworld := w\<rparr>)"
    using Cons.IH [of "s\<lparr>hworld := CoreSignalEvent env (Event N) (hworld s)\<rparr>"] Cons.prems by auto
  then have "signal_notifies env (n # ns) s = ret (s\<lparr>hworld := w\<rparr>)" using N by (simp add: with_notify_def)
  then show ?case by blast
qed

lemma notify_total: "hdb_inv X Y s \<Longrightarrow> \<exists>w. CoreNotifyProtocolEntry env g s = ret (s\<lparr>hworld := w\<rparr>)"
  unfolding CoreNotifyProtocolEntry_def by (rule signal_notifies_total) (use hdb_invD(16) in fastforce)

lemma handle_interfaces: "hdb_inv X Y s \<Longrightarrow> handles s h = Some H \<Longrightarrow> \<forall>p \<in> set (Protocols H). interfaces s p \<noteq> None \<and> p \<noteq> NULL"
  using hdb_invD(6,7) by fastforce

text \<open>Which interface a search finds, in terms of the abstract database.\<close>

lemma find_none:
  assumes "hdb_inv X Y s" "CoreValidateHandle h s = EFI_SUCCESS" "find_entry g (mProtocolDatabase s) \<noteq> None"
    "(g, i) \<notin> set (the (protocols_of s h))"
  shows "CoreFindProtocolInterface h g i s = ret NULL"
proof -
  obtain H where H: "handles s h = Some H" using assms(2) by (auto simp: CoreValidateHandle_def split: if_splits)
  have "List.find (\<lambda>p. Interface (the (interfaces s p)) = i \<and> ifProtocol (the (interfaces s p)) = g) (Protocols H) = None"
    using assms(4) handle_interfaces [OF assms(1) H] H
    by (force simp: find_None_iff protocols_of_def protocol_at_def)
  then show ?thesis using assms(3) H handle_interfaces [OF assms(1) H]
    by (simp add: CoreFindProtocolInterface_def with_handle_def find_interface_total)
qed

lemma get_none:
  assumes "hdb_inv X Y s" "\<not> has_protocol s h g"
  shows "CoreGetProtocolInterface h g s = ret NULL"
proof (cases "EFI_ERROR (CoreValidateHandle h s)")
  case False
  then obtain H where H: "handles s h = Some H" by (auto simp: CoreValidateHandle_def split: if_splits)
  have "List.find (\<lambda>p. ifProtocol (the (interfaces s p)) = g) (Protocols H) = None"
    using assms(2) handle_interfaces [OF assms(1) H] H
    by (force simp: find_None_iff protocols_of_def protocol_at_def has_protocol_def)
  then show ?thesis using False H handle_interfaces [OF assms(1) H]
    by (simp add: CoreGetProtocolInterface_def with_handle_def find_interface_total)
qed (simp add: CoreGetProtocolInterface_def)

section \<open>Installing\<close>

lemma protocols_put:
  assumes "hdb_inv X Y s" "handles s h = Some H" "interfaces s p = None"
  shows "protocols_of (put_interface p h g i s) = (protocols_of s)(h \<mapsto> (g, i) # the (protocols_of s h))"
proof -
  have "p \<notin> set (Protocols K)" if "handles s k = Some K" for k K
    using handle_interfaces [OF assms(1) that] assms(3) by auto
  then have "map (protocol_at (put_interface p h g i s)) (Protocols K) = map (protocol_at s) (Protocols K)"
    if "handles s k = Some K" for k K
    using that by (auto simp: put_interface_def protocol_at_def)
  moreover have "protocol_at (put_interface p h g i s) p = (g, i)" by (simp add: put_interface_def protocol_at_def)
  moreover have "handles (put_interface p h g i s) = (handles s)(h \<mapsto> H\<lparr>Protocols := p # Protocols H\<rparr>)"
    using assms(2) by (simp add: put_interface_def)
  ultimately show ?thesis using assms(2) by (auto simp: protocols_of_def fun_eq_iff intro!: option.map_cong)
qed

lemma handles_new_handle:
  "handles (new_handle h s) = (handles s)(h \<mapsto> \<lparr>Protocols = [], LocateRequest = 0, Key = gHandleDatabaseKey s + 1\<rparr>)"
  by (simp add: new_handle_def)

lemma protocols_new_handle: "handles s h = None \<Longrightarrow> protocols_of (new_handle h s) = (protocols_of s)(h \<mapsto> [])"
  by (rule ext) (simp add: protocols_of_def handles_new_handle protocol_at_cong [OF new_handle_simps(1)])

text \<open>Once the interface has its memory.\<close>

lemma install_at_old:
  assumes "hdb_ok s" "interfaces s p = None" "p \<noteq> NULL" "find_entry g (mProtocolDatabase s) \<noteq> None" "U \<noteq> NULL"
    "handles s U \<noteq> None" "(g, i) \<notin> set (the (protocols_of s U))"
  shows "\<exists>w. install_at env p U g i True s = ret (EFI_SUCCESS, U, (put_interface p U g i s)\<lparr>hworld := w\<rparr>)"
proof -
  have ok: "hdb_inv {} {} (put_interface p U g i s)"
    using inv_put_interface [OF assms(1-3,6,4), of i] by simp
  obtain w where w: "CoreNotifyProtocolEntry env g (put_interface p U g i s) = ret ((put_interface p U g i s)\<lparr>hworld := w\<rparr>)"
    using notify_total [OF ok] by blast
  have v: "CoreValidateHandle U s = EFI_SUCCESS" using assms(5,6) by (simp add: CoreValidateHandle_def)
  have "install_at env p U g i True s = ret (EFI_SUCCESS, U, (put_interface p U g i s)\<lparr>hworld := w\<rparr>)"
    using assms(5) v find_none [OF assms(1) v assms(4,7)] by (simp add: install_at_def w)
  then show ?thesis by blast
qed

lemma install_at_new:
  assumes "hdb_ok s" "interfaces s p = None" "p \<noteq> NULL" "find_entry g (mProtocolDatabase s) \<noteq> None"
    "alloc env (\<lambda>s a. handles s a \<noteq> None) s = (h, s1)" "h \<noteq> NULL"
  shows "\<exists>w. install_at env p NULL g i True s = ret (EFI_SUCCESS, h, (put_interface p h g i (new_handle h s1))\<lparr>hworld := w\<rparr>)"
proof -
  obtain w1 where s1: "s1 = s\<lparr>hworld := w1\<rparr>" using alloc_state [OF assms(5)] by blast
  have fresh: "handles s1 h = None" using alloc_used [OF assms(5,6)] s1 by simp
  have new: "hdb_inv {} {h} (new_handle h s1)" using inv_new_handle [of "{}" "{}" s1 h] assms(1,6) fresh s1 by simp
  have v: "CoreValidateHandle h (new_handle h s1) = EFI_SUCCESS" using assms(6) by (simp add: CoreValidateHandle_def)
  have e: "find_entry g (mProtocolDatabase (new_handle h s1)) \<noteq> None" "interfaces (new_handle h s1) p = None"
    using assms(2,4) s1 by simp_all
  have none: "CoreFindProtocolInterface h g i (new_handle h s1) = ret NULL"
    by (rule find_none [OF new v e(1)]) (simp add: protocols_new_handle fresh)
  have "hdb_inv {} {} (put_interface p h g i (new_handle h s1))"
    using inv_put_interface [OF new e(2) assms(3) new_handle_simps(3) e(1), of i] by simp
  then obtain w where w: "CoreNotifyProtocolEntry env g (put_interface p h g i (new_handle h s1)) =
      ret ((put_interface p h g i (new_handle h s1))\<lparr>hworld := w\<rparr>)" using notify_total by blast
  have "install_at env p NULL g i True s = ret (EFI_SUCCESS, h, (put_interface p h g i (new_handle h s1))\<lparr>hworld := w\<rparr>)"
    using assms(6) v none unfolding install_at_def assms(5) by (simp add: w Let_def)
  then show ?thesis by blast
qed

lemma open_check_by_handle [simp]: "open_check h a c EFI_OPEN_PROTOCOL_BY_HANDLE_PROTOCOL s = EFI_SUCCESS"
  by (simp add: open_check_def)

lemma handle_protocol_absent:
  assumes "hdb_ok s" "\<not> has_protocol s h g"
  shows "CoreHandleProtocol dc env h (Some g) False s =
    ret (if EFI_ERROR (CoreValidateHandle h s) then CoreValidateHandle h s else EFI_UNSUPPORTED, Some NULL, s)"
  using get_none [OF assms] by (simp add: CoreHandleProtocol_def CoreOpenProtocol_def)

text \<open>Where there is no assertion to fail, the whole of the service; its result by cases.\<close>

lemma install_run:
  assumes "hdb_ok s" "\<not> has_protocol s h g"
    "CoreFindProtocolEntry env g True s = (found, s2)" "alloc env (\<lambda>s a. interfaces s a \<noteq> None) s2 = (p, s3)"
  shows "CoreInstallProtocolInterface dc env (Some h) (Some g) EFI_NATIVE_INTERFACE i s =
    (if \<not> found then ret (if h = NULL then EFI_OUT_OF_RESOURCES
        else if handles s h = None then EFI_INVALID_PARAMETER else EFI_UNSUPPORTED, Some h, s2)
     else if p = NULL then ret (EFI_OUT_OF_RESOURCES, Some h, s3)
     else bind_run (install_at env p h g i True s3) (\<lambda>(Status1, h1, s4). ret (Status1, Some h1, s4)))"
proof (cases "h = NULL")
  case True
  then show ?thesis
    unfolding CoreInstallProtocolInterface_def CoreInstallProtocolInterfaceNotify_def
    by (simp add: assms(3) Let_def assms(4) del: not_None_eq)
next
  case False
  then show ?thesis
    unfolding CoreInstallProtocolInterface_def CoreInstallProtocolInterfaceNotify_def
    by (simp add: handle_protocol_absent [OF assms(1,2)] assms(3) Let_def assms(4) CoreValidateHandle_def EFI_ERROR_def del: not_None_eq)
qed

lemma find_entry_protocols: "CoreFindProtocolEntry env g c s = (found, s1) \<Longrightarrow> protocols_of s1 = protocols_of s"
  using find_protocol_entry(3,4) by (intro protocols_cong) blast+

lemma find_entry_distinct:
  "CoreFindProtocolEntry env g c s = (found, s1) \<Longrightarrow> handles s1 = handles s \<and> interfaces s1 = interfaces s"
  using find_protocol_entry(3,4) by blast

text \<open>The numbers in the handles are those of searches of the past, so the next search meets every handle.\<close>

definition requests_past :: "'w hdb \<Rightarrow> bool" where
  "requests_past s \<longleftrightarrow> (\<forall>h H. handles s h = Some H \<longrightarrow> unat (LocateRequest H) \<le> unat (mEfiLocateHandleRequest s))"

lemma find_entry_request: "CoreFindProtocolEntry env g c s = (found, s1) \<Longrightarrow> mEfiLocateHandleRequest s1 = mEfiLocateHandleRequest s"
  by (auto simp: CoreFindProtocolEntry_def split: option.splits if_splits prod.splits dest!: alloc_state)

lemma requests_past_cong:
  "handles s1 = handles s \<Longrightarrow> mEfiLocateHandleRequest s1 = mEfiLocateHandleRequest s \<Longrightarrow> requests_past s1 = requests_past s"
  by (simp add: requests_past_def)

lemma requests_past_new: "requests_past s \<Longrightarrow> requests_past (new_handle h s)"
  by (auto simp: requests_past_def new_handle_def)

lemma requests_past_put: "requests_past s \<Longrightarrow> requests_past ((put_interface p h g i s)\<lparr>hworld := w\<rparr>)"
  by (auto simp: requests_past_def put_interface_def upd_handle_def)

text \<open>\<open>s1\<close> is \<open>s\<close> with a new interface on \<open>h1\<close>, which is a new handle if \<open>h\<close> is NULL.\<close>

definition put_result :: "ptr \<Rightarrow> ptr \<Rightarrow> EFI_GUID \<Rightarrow> ptr \<Rightarrow> 'w hdb \<Rightarrow> 'w hdb \<Rightarrow> bool" where
  "put_result h h1 g i s s1 \<longleftrightarrow>
     (\<exists>p s2 w. s1 = (put_interface p h1 g i s2)\<lparr>hworld := w\<rparr> \<and> p \<noteq> NULL \<and> hdb_inv {} (if h = NULL then {h1} else {}) s2 \<and>
       interfaces s2 p = None \<and> handles s2 h1 \<noteq> None \<and> find_entry g (mProtocolDatabase s2) \<noteq> None \<and>
       mEfiLocateHandleRequest s2 = mEfiLocateHandleRequest s \<and> (requests_past s \<longrightarrow> requests_past s2) \<and>
       protocols_of s2 = (protocols_of s)(h1 \<mapsto> (if h = NULL then [] else the (protocols_of s h1))))"

lemma put_resultI:
  "p \<noteq> NULL \<Longrightarrow> hdb_inv {} (if h = NULL then {h1} else {}) s2 \<Longrightarrow> interfaces s2 p = None \<Longrightarrow> handles s2 h1 \<noteq> None \<Longrightarrow>
    find_entry g (mProtocolDatabase s2) \<noteq> None \<Longrightarrow>
    mEfiLocateHandleRequest s2 = mEfiLocateHandleRequest s \<Longrightarrow> (requests_past s \<longrightarrow> requests_past s2) \<Longrightarrow>
    protocols_of s2 = (protocols_of s)(h1 \<mapsto> (if h = NULL then [] else the (protocols_of s h1))) \<Longrightarrow>
    put_result h h1 g i s ((put_interface p h1 g i s2)\<lparr>hworld := w\<rparr>)"
  unfolding put_result_def by blast

lemma install_effect:
  assumes "hdb_ok s" "\<not> has_protocol s h g"
  shows "\<exists>st h1 s1. CoreInstallProtocolInterface dc env (Some h) (Some g) EFI_NATIVE_INTERFACE i s = ret (st, Some h1, s1) \<and>
    (st = EFI_SUCCESS \<longrightarrow> (if h = NULL then protocols_of s h1 = None \<and> h1 \<noteq> NULL else h1 = h \<and> protocols_of s h \<noteq> None) \<and>
       put_result h h1 g i s s1) \<and>
    (st \<noteq> EFI_SUCCESS \<longrightarrow> h1 = h \<and> protocols_of s1 = protocols_of s)"
proof -
  obtain found s2 where e: "CoreFindProtocolEntry env g True s = (found, s2)" by (rule prod.exhaust)
  obtain p s3 where a: "alloc env (\<lambda>s a. interfaces s a \<noteq> None) s2 = (p, s3)" by (rule prod.exhaust)
  note run = install_run [OF assms e a]
  note e' = find_protocol_entry [OF e] find_entry_protocols [OF e]
  obtain w where w: "s3 = s2\<lparr>hworld := w\<rparr>" using alloc_state [OF a] by blast
  show ?thesis
  proof (cases "\<not> found \<or> p = NULL")
    case True
    then show ?thesis unfolding run using e' w by (cases found) auto
  next
    case False
    have ok: "hdb_ok s3" "interfaces s3 p = None" "p \<noteq> NULL" "find_entry g (mProtocolDatabase s3) \<noteq> None"
      using False e'(1) [OF assms(1)] e'(2) w alloc_used [OF a] by auto
    have ps: "protocols_of s3 = protocols_of s" "handles s3 = handles s" using e' w by simp_all
    have rq: "mEfiLocateHandleRequest s3 = mEfiLocateHandleRequest s" using find_entry_request [OF e] w by simp
    then have rp: "requests_past s3 = requests_past s" using ps by (intro requests_past_cong) simp_all
    consider "h \<noteq> NULL" "handles s h \<noteq> None" | "h \<noteq> NULL" "handles s h = None" | "h = NULL" by blast
    then show ?thesis
    proof cases
      case 1
      have no: "(g, i) \<notin> set (the (protocols_of s3 h))" using assms(2) ps 1(2) by (cases "protocols_of s h") (auto simp: has_protocol_def image_iff)
      obtain w1 where "install_at env p h g i True s3 = ret (EFI_SUCCESS, h, (put_interface p h g i s3)\<lparr>hworld := w1\<rparr>)"
        using install_at_old [OF ok 1(1) _ no, of env] 1(2) ps by auto
      moreover have "put_result h h g i s ((put_interface p h g i s3)\<lparr>hworld := w1\<rparr>)"
        using 1 ok ps rq rp by (intro put_resultI) (auto simp: fun_upd_idem protocols_of_def)
      ultimately show ?thesis unfolding run using False 1 by (auto simp: protocols_of_def)
    next
      case 2
      then show ?thesis unfolding run using False ps by (simp add: install_at_def CoreValidateHandle_def)
    next
      case 3
      obtain h1 s4 where al: "alloc env (\<lambda>s a. handles s a \<noteq> None) s3 = (h1, s4)" by (rule prod.exhaust)
      obtain w4 where w4: "s4 = s3\<lparr>hworld := w4\<rparr>" using alloc_state [OF al] by blast
      show ?thesis
      proof (cases "h1 = NULL")
        case True
        then show ?thesis unfolding run unfolding 3 using False ps w4 by (simp add: install_at_def al del: not_None_eq)
      next
        case False': False
        have fresh: "handles s4 h1 = None" using alloc_used [OF al False'] w4 by simp
        obtain w1 where run1: "install_at env p NULL g i True s3 =
            ret (EFI_SUCCESS, h1, (put_interface p h1 g i (new_handle h1 s4))\<lparr>hworld := w1\<rparr>)"
          using install_at_new [OF ok al False'] by blast
        have "hdb_inv {} {h1} (new_handle h1 s4)" using inv_new_handle [of "{}" "{}" s4 h1] ok(1) fresh False' w4 by simp
        moreover have rn: "mEfiLocateHandleRequest (new_handle h1 s4) = mEfiLocateHandleRequest s"
          "requests_past s \<longrightarrow> requests_past (new_handle h1 s4)"
          using rq rp requests_past_new [of s4 h1] w4 requests_past_cong [of s4 s3] by (simp_all add: new_handle_def)
        moreover have "protocols_of (new_handle h1 s4) = (protocols_of s)(h1 \<mapsto> [])"
          using protocols_new_handle [OF fresh] w4 ps by simp
        ultimately have "put_result NULL h1 g i s ((put_interface p h1 g i (new_handle h1 s4))\<lparr>hworld := w1\<rparr>)"
          using ok w4 rq rp rn by (intro put_resultI) auto
        then show ?thesis unfolding run unfolding 3 using False False' fresh w4 ps run1 by auto
      qed
    qed
  qed
qed

section \<open>Uninstalling\<close>

lemma move_positions_total:
  "\<forall>n \<in> set ns. notifies s n \<noteq> None \<Longrightarrow> \<exists>s1. move_positions p b ns s = ret s1"
proof (induction ns arbitrary: s)
  case (Cons n ns)
  then obtain N where N: "notifies s n = Some N" by auto
  let ?s = "if Position N = p then upd_notify n (\<lambda>n. n\<lparr>Position := b\<rparr>) s else s"
  have "\<forall>n \<in> set ns. notifies ?s n \<noteq> None" using Cons.prems by (auto simp: upd_notify_def)
  then show ?case using Cons.IH [of ?s] N by (simp add: with_notify_def)
qed simp

text \<open>The interface that was put in last is the first that is found.\<close>

lemma put_fields:
  assumes "handles s h = Some H"
  shows "handles (put_interface p h g i s) = (handles s)(h \<mapsto> H\<lparr>Protocols := p # Protocols H\<rparr>)"
    "interfaces (put_interface p h g i s) = (interfaces s)(p \<mapsto> \<lparr>ifHandle = h, ifProtocol = g, Interface = i, OpenList = [], OpenListCount = 0\<rparr>)"
    "find_entry k (mProtocolDatabase (put_interface p h g i s)) = None \<longleftrightarrow> find_entry k (mProtocolDatabase s) = None"
  using assms by (simp_all add: put_interface_def)

lemma disconnect_nothing:
  assumes "interfaces s p = Some P" "OpenList P = []" "OpenListCount P = 0"
  shows "CoreDisconnectControllersUsingProtocolInterface dc cn h p s = ret (EFI_SUCCESS, s)"
proof -
  have "set_opens [] P = P" using assms(2) by (simp add: set_opens_def)
  then have "upd_interface p (\<lambda>_. set_opens [] P) s = s" using assms(1) by (simp add: upd_interface_def fun_upd_idem)
  moreover have "disconnect_drivers dc h p s = ret (EFI_SUCCESS, s)"
    using assms by (subst disconnect_drivers.simps) simp
  ultimately show ?thesis using assms
    by (simp add: CoreDisconnectControllersUsingProtocolInterface_def with_interface_def handle_protocol_opens_def Let_def set_opens_def)
qed

lemma protocols_drop:
  assumes "handles s h = Some H" "\<And>k K. k \<noteq> h \<Longrightarrow> handles s k = Some K \<Longrightarrow> p \<notin> set (Protocols K)" "distinct (Protocols H)"
  shows "protocols_of (drop_interface h p s) = (protocols_of s)(h \<mapsto> map (protocol_at s) (remove1 p (Protocols H)))"
proof -
  have at: "protocol_at (drop_interface h p s) q = protocol_at s q" if "q \<noteq> p" for q
    using that by (simp add: drop_interface_def Let_def protocol_at_def)
  have "p \<notin> set (remove1 p (Protocols H))" using assms(3) by (simp add: set_remove1_eq)
  moreover have "handles (drop_interface h p s) = (handles s)(h \<mapsto> H\<lparr>Key := gHandleDatabaseKey s + 1, Protocols := remove1 p (Protocols H)\<rparr>)"
    using assms(1) by (simp add: drop_interface_def Let_def)
  ultimately show ?thesis using at assms(1,2)
    by (force simp: protocols_of_def fun_eq_iff intro!: option.map_cong)
qed

lemma protocols_drop_empty:
  "drop_empty_handle h s = ret s1 \<Longrightarrow>
    protocols_of s1 = (if protocols_of s h = Some [] then (protocols_of s)(h := None) else protocols_of s)"
  using protocol_at_cong [of "s\<lparr>handles := (handles s)(h := None), gHandleList := remove1 h (gHandleList s)\<rparr>" s]
  by (auto simp: drop_empty_handle_def with_handle_def protocols_of_def split: option.splits if_splits intro!: ext)

lemma drop_empty_total: "handles s h \<noteq> None \<Longrightarrow> \<exists>s1. drop_empty_handle h s = ret s1"
  by (cases "handles s h") (auto simp: drop_empty_handle_def with_handle_def)

lemma uninstall_put:
  assumes "put_result h h1 g i s s1" "hdb_ok s" "h \<noteq> NULL \<Longrightarrow> h1 = h \<and> protocols_of s h \<noteq> None"
    "h = NULL \<Longrightarrow> protocols_of s h1 = None"
  shows "hdb_ok s1 \<and> protocols_of s1 = (protocols_of s)(h1 \<mapsto> (g, i) # (if h = NULL then [] else the (protocols_of s h1))) \<and>
    (\<exists>s4. CoreUninstallProtocolInterface dc cn h1 (Some g) i s1 = ret (EFI_SUCCESS, s4) \<and> protocols_of s4 = protocols_of s)"
proof -
  obtain p s2 w where s1: "s1 = (put_interface p h1 g i s2)\<lparr>hworld := w\<rparr>" and p: "p \<noteq> NULL" "interfaces s2 p = None"
    and inv: "hdb_inv {} (if h = NULL then {h1} else {}) s2" and h1: "handles s2 h1 \<noteq> None"
    and e: "find_entry g (mProtocolDatabase s2) \<noteq> None"
    and ps: "protocols_of s2 = (protocols_of s)(h1 \<mapsto> (if h = NULL then [] else the (protocols_of s h1)))"
    using assms(1) unfolding put_result_def by blast
  obtain H where H: "handles s2 h1 = Some H" using h1 by blast
  note f = put_fields [OF H, where p = p and g = g and i = i]
  have ok: "hdb_ok s1" using inv_put_interface [OF inv p(2,1) h1 e, of i] s1 by (simp split: if_splits)
  have abs1: "protocols_of s1 = (protocols_of s)(h1 \<mapsto> (g, i) # (if h = NULL then [] else the (protocols_of s h1)))"
    using protocols_put [OF inv H p(2), of g i] s1 ps by simp
  have nz: "h1 \<noteq> NULL" using hdb_invD(1) [OF inv] H by auto
  have P: "interfaces s1 p = Some \<lparr>ifHandle = h1, ifProtocol = g, Interface = i, OpenList = [], OpenListCount = 0\<rparr>"
    and H1: "handles s1 h1 = Some (H\<lparr>Protocols := p # Protocols H\<rparr>)" using s1 f by simp_all
  have found: "CoreFindProtocolInterface h1 g i s1 = ret p"
    using e f(3) [where k = g] P H1 s1 by (auto simp: CoreFindProtocolInterface_def with_handle_def with_interface_def)
  obtain s' where mv: "move_positions p (back_link p NULL (entry_interfaces g s1)) (entry_notifies g s1) s1 = ret s'"
    using move_positions_total [of "entry_notifies g s1" s1] hdb_invD(16) [OF ok] by fastforce
  obtain s3 where rm: "CoreRemoveInterfaceFromProtocol h1 g i s1 = ret (p, s3)"
    using found mv p(1) by (simp add: CoreRemoveInterfaceFromProtocol_def)
  note r = remove_interface [OF ok rm p(1)]
  have fresh: "p \<notin> set (Protocols K)" if "handles s2 k = Some K" for k K
    using handle_interfaces [OF inv that] p(2) by auto
  have "distinct (p # Protocols H)" using hdb_invD(5) [OF ok H1] by simp
  then have drop: "protocols_of (drop_interface h1 p s3) = (protocols_of s1)(h1 \<mapsto> map (protocol_at s1) (Protocols H))"
    using protocols_drop [of s3 h1 "H\<lparr>Protocols := p # Protocols H\<rparr>" p] H1 fresh s1 f(1)
    unfolding protocols_cong [OF r(3,4)] protocol_at_cong [OF r(4)] r(3) by (simp split: if_splits)
  have at: "map (protocol_at s1) (Protocols H) = map (protocol_at s2) (Protocols H)"
    using fresh [OF H] s1 f(2) by (auto simp: protocol_at_def)
  have "protocols_of s2 h1 = Some (map (protocol_at s2) (Protocols H))" using H by (simp add: protocols_of_def)
  then have "(if h = NULL then [] else the (protocols_of s h1)) = map (protocol_at s2) (Protocols H)" using ps by simp
  then have drop': "protocols_of (drop_interface h1 p s3) = protocols_of s2"
    unfolding drop abs1 ps at fun_upd_upd by simp
  obtain s4 where s4: "drop_empty_handle h1 (drop_interface h1 p s3) = ret s4"
    using drop_empty_total [of "drop_interface h1 p s3" h1] r(3) H1 by (auto simp: drop_interface_def Let_def)
  have "protocols_of s4 = protocols_of s"
  proof (cases "h = NULL")
    case True
    then show ?thesis using protocols_drop_empty [OF s4] drop' ps assms(4) by (simp add: fun_upd_idem)
  next
    case False
    then obtain K where K: "handles s h1 = Some K" using assms(3) by auto
    then have "Protocols K \<noteq> []" using hdb_invD(4) [OF assms(2) K] by simp
    then show ?thesis using protocols_drop_empty [OF s4] drop' ps False K by (simp add: fun_upd_idem protocols_of_def)
  qed
  moreover have "CoreUninstallProtocolInterface dc cn h1 (Some g) i s1 = ret (EFI_SUCCESS, s4)"
    using found disconnect_nothing [OF P] rm s4 p(1) nz H1
    by (simp add: CoreUninstallProtocolInterface_def CoreValidateHandle_def)
  ultimately show ?thesis using ok abs1 by blast
qed

section \<open>Opening\<close>

lemma find_map_of:
  "(case List.find (\<lambda>p. fst (f p) = g) ps of None \<Rightarrow> None | Some p \<Rightarrow> Some (snd (f p))) = map_of (map f ps) g"
  by (induction ps) (auto split: prod.split)

lemma get_protocol_map_of:
  assumes "hdb_inv X Y s" "CoreValidateHandle h s = EFI_SUCCESS"
  shows "\<exists>p. CoreGetProtocolInterface h g s = ret p \<and>
    (case map_of (the (protocols_of s h)) g of None \<Rightarrow> p = NULL
     | Some i \<Rightarrow> \<exists>P. interfaces s p = Some P \<and> Interface P = i \<and> ifProtocol P = g)"
proof -
  obtain H where H: "handles s h = Some H" using assms(2) by (auto simp: CoreValidateHandle_def split: if_splits)
  note all = handle_interfaces [OF assms(1) H]
  let ?f = "List.find (\<lambda>p. ifProtocol (the (interfaces s p)) = g) (Protocols H)"
  have run: "CoreGetProtocolInterface h g s = ret (case ?f of None \<Rightarrow> NULL | Some p \<Rightarrow> p)"
    using assms(2) H all by (simp add: CoreGetProtocolInterface_def with_handle_def find_interface_total)
  have "?f = List.find (\<lambda>p. fst (protocol_at s p) = g) (Protocols H)"
    using all by (auto intro!: find_cong simp: protocol_at_def)
  then have lookup: "map_of (the (protocols_of s h)) g = (case ?f of None \<Rightarrow> None | Some p \<Rightarrow> Some (snd (protocol_at s p)))"
    using find_map_of [of "protocol_at s" g "Protocols H"] H by (simp add: protocols_of_def)
  show ?thesis
  proof (cases ?f)
    case (Some p)
    then have "p \<in> set (Protocols H)" "ifProtocol (the (interfaces s p)) = g" by (auto simp: find_Some_iff)
    then show ?thesis using run lookup Some all by (auto simp: protocol_at_def)
  qed (use run lookup in simp)
qed

lemma scan_by_handle:
  "scan_opens a c EFI_OPEN_PROTOCOL_BY_HANDLE_PROTOCOL i d e ods \<noteq> AlreadyOpen"
  by (induction ods arbitrary: i d e) (auto simp: Let_def)

lemma open_by_handle:
  assumes "interfaces s p = Some P"
  shows "\<exists>st s1. open_interface dc env h p a NULL EFI_OPEN_PROTOCOL_BY_HANDLE_PROTOCOL s = ret (st, s1) \<and>
    st \<in> {EFI_SUCCESS, EFI_OUT_OF_RESOURCES} \<and> (fst (pool env (hworld s)) \<noteq> NULL \<longrightarrow> st = EFI_SUCCESS) \<and>
    protocols_of s1 = protocols_of s"
proof (cases "scan_opens a NULL EFI_OPEN_PROTOCOL_BY_HANDLE_PROTOCOL 0 False False (OpenList P)")
  case AlreadyOpen
  then show ?thesis using scan_by_handle by blast
next
  case (CountUp i)
  then show ?thesis using assms by (simp add: open_interface_def with_interface_def protocols_upd_interface)
next
  case (Scanned d e)
  obtain x s1 where "add_open env p a NULL EFI_OPEN_PROTOCOL_BY_HANDLE_PROTOCOL s = (x, s1)" by (rule prod.exhaust)
  moreover obtain b s2 where al: "alloc env (\<lambda>_ _. False) s = (b, s2)" by (rule prod.exhaust)
  ultimately show ?thesis using assms Scanned alloc_state [OF al]
    by (auto simp: open_interface_def with_interface_def add_open_def protocols_upd_interface alloc_def split: if_splits prod.splits)
qed

text \<open>C18: (equivalence) \<open>CoreHandleProtocol\<close> is the lookup of the protocol in the list of a handle.  In a good
  database and for a valid handle it returns, whatever the drivers do; if the protocol is not on the handle the answer is
  \<open>EFI_UNSUPPORTED\<close> with NULL and nothing is changed; if it is, the interface is the one of the newest
  installation, no matter whether the record of the opening could be allocated, the status is \<open>EFI_SUCCESS\<close> unless the pool
  is empty, and else that or \<open>EFI_OUT_OF_RESOURCES\<close>, and no list of protocols changes.\<close>

theorem handle_protocol_is_lookup:
  assumes "hdb_ok s" "CoreValidateHandle h s = EFI_SUCCESS"
  shows "case map_of (the (protocols_of s h)) g of
      None \<Rightarrow> CoreHandleProtocol dc env h (Some g) False s = ret (EFI_UNSUPPORTED, Some NULL, s)
    | Some i \<Rightarrow> \<exists>st s1. CoreHandleProtocol dc env h (Some g) False s = ret (st, Some i, s1) \<and>
        st \<in> {EFI_SUCCESS, EFI_OUT_OF_RESOURCES} \<and> (fst (pool env (hworld s)) \<noteq> NULL \<longrightarrow> st = EFI_SUCCESS) \<and>
        protocols_of s1 = protocols_of s"
proof -
  obtain p where p: "CoreGetProtocolInterface h g s = ret p" "case map_of (the (protocols_of s h)) g of None \<Rightarrow> p = NULL
     | Some i \<Rightarrow> \<exists>P. interfaces s p = Some P \<and> Interface P = i \<and> ifProtocol P = g"
    using get_protocol_map_of [OF assms] by blast
  show ?thesis
  proof (cases "map_of (the (protocols_of s h)) g")
    case None
    then show ?thesis using p assms(2) by (simp add: CoreHandleProtocol_def CoreOpenProtocol_def)
  next
    case (Some i)
    then obtain P where P: "interfaces s p = Some P" "Interface P = i" using p(2) by auto
    have "p \<noteq> NULL" using hdb_invD(7) [OF assms(1)] P by auto
    then show ?thesis using open_by_handle [OF P(1), of dc env h "gDxeCoreImageHandle env"] Some p(1) P assms(2)
      by (auto simp: CoreHandleProtocol_def CoreOpenProtocol_def with_interface_def)
  qed
qed

section \<open>The services on the abstract database\<close>

text \<open>C12: (refinement) \<open>CoreInstallProtocolInterface\<close> of a protocol the handle does not have, in a good database and for any
  drivers, is an insertion into the abstract database.  It always returns.  With \<open>EFI_SUCCESS\<close> the protocol
  and its interface are the first of the list of the handle, which is the handle that was given or, for NULL, a new one whose list
  was not there; no other handle changes.  With any other status the handle of the caller and
  all the lists are as before.  The database stays good.\<close>

theorem install_puts_interface:
  assumes "hdb_ok s" "\<not> has_protocol s h g"
  shows "\<exists>st h1 s1. CoreInstallProtocolInterface (fst (driver_calls k env d)) env (Some h) (Some g) EFI_NATIVE_INTERFACE i s = ret (st, Some h1, s1) \<and>
    hdb_ok s1 \<and>
    (st = EFI_SUCCESS \<longrightarrow>
       (if h = NULL then h1 \<noteq> NULL \<and> protocols_of s h1 = None else h1 = h \<and> protocols_of s h \<noteq> None) \<and>
       protocols_of s1 = (protocols_of s)(h1 \<mapsto> (g, i) # (if h = NULL then [] else the (protocols_of s h)))) \<and>
    (st \<noteq> EFI_SUCCESS \<longrightarrow> h1 = h \<and> protocols_of s1 = protocols_of s)"
proof -
  obtain st h1 s1 where run: "CoreInstallProtocolInterface (fst (driver_calls k env d)) env (Some h) (Some g) EFI_NATIVE_INTERFACE i s = ret (st, Some h1, s1)"
    and ok: "st = EFI_SUCCESS \<longrightarrow> (if h = NULL then protocols_of s h1 = None \<and> h1 \<noteq> NULL else h1 = h \<and> protocols_of s h \<noteq> None) \<and> put_result h h1 g i s s1"
    and bad: "st \<noteq> EFI_SUCCESS \<longrightarrow> h1 = h \<and> protocols_of s1 = protocols_of s"
    using install_effect [OF assms, of "fst (driver_calls k env d)" env i] by blast
  have "hdb_ok s1" using drivers.install_ok run assms(1) unfolding CoreInstallProtocolInterface_def by fastforce
  then show ?thesis using run ok bad uninstall_put [of h h1 g i s s1, OF _ assms(1)] by (auto split: if_splits)
qed

text \<open>C14: (roundtrip) What \<open>CoreInstallProtocolInterface\<close> has installed, \<open>CoreUninstallProtocolInterface\<close> takes away again.  In a good
  database, for a protocol the handle does not have and any drivers, an installation that succeeds and the uninstallation of the same interface
  from the handle it returned give \<open>EFI_SUCCESS\<close> and the abstract database of the start; so a handle that was
  new is gone.\<close>

theorem install_then_uninstall:
  assumes "hdb_ok s" "\<not> has_protocol s h g"
    "CoreInstallProtocolInterface dc env (Some h) (Some g) EFI_NATIVE_INTERFACE i s = ret (EFI_SUCCESS, Some h1, s1)"
  shows "\<exists>s2. CoreUninstallProtocolInterface dc cn h1 (Some g) i s1 = ret (EFI_SUCCESS, s2) \<and> protocols_of s2 = protocols_of s"
proof -
  have "(if h = NULL then protocols_of s h1 = None \<and> h1 \<noteq> NULL else h1 = h \<and> protocols_of s h \<noteq> None) \<and> put_result h h1 g i s s1"
    using install_effect [OF assms(1,2), of dc env i] assms(3) by auto
  then show ?thesis using uninstall_put [of h h1 g i s s1 dc cn] assms(1) by (auto split: if_splits)
qed

text \<open>C13: (invariant) Every driver program over the services of the handle database keeps the database good, however deep the calls of
  \<open>ConnectController\<close> and \<open>DisconnectController\<close> nest and whatever the drivers do: handles, interfaces,
  protocols and registrations refer to each other both ways, nothing refers to freed memory, no handle is without a protocol, every count of
  opens is the number of opens, and every registration stands at the head of its list or at an interface of its protocol.\<close>

theorem driver_programs_keep_database:
  assumes "hdb_ok s" "run_driver (do_hdb_call (fst (driver_calls k env d)) (snd (driver_calls k env d)) env) m s = ret (st, s1)"
  shows "hdb_ok s1"
  using drivers.program_ok [OF assms(2,1)] by simp

section \<open>Searching by protocol\<close>

text \<open>The handles of a list that are not marked, each once.\<close>

fun new_handles :: "ptr set \<Rightarrow> ptr list \<Rightarrow> ptr list" where
  "new_handles M [] = []"
| "new_handles M (h # hs) = (if h \<in> M then new_handles M hs else h # new_handles (insert h M) hs)"

lemma new_handles_set: "set (new_handles M hs) = set hs - M"
  by (induction hs arbitrary: M) auto

lemma new_handles_distinct: "distinct (new_handles M hs)"
  by (induction hs arbitrary: M) (auto simp: new_handles_set)

definition marked :: "'w hdb \<Rightarrow> ptr set" where
  "marked s = {h. \<exists>H. handles s h = Some H \<and> LocateRequest H = mEfiLocateHandleRequest s}"

definition handle_of :: "'w hdb \<Rightarrow> ptr \<Rightarrow> ptr" where
  "handle_of s p = ifHandle (the (interfaces s p))"

text \<open>A state that a search has left: the numbers of the searches in the handles have changed, no more.\<close>

definition searched :: "'w hdb \<Rightarrow> 'w hdb \<Rightarrow> bool" where
  "searched s s1 \<longleftrightarrow> (\<exists>f. s1 = s\<lparr>handles := f\<rparr> \<and> (\<forall>h. map_option Protocols (f h) = map_option Protocols (handles s h)) \<and>
     (\<forall>h H. f h = Some H \<longrightarrow> LocateRequest H = mEfiLocateHandleRequest s \<or> handles s h = Some H))"

lemma searched_refl: "searched s s"
  by (auto simp: searched_def intro: exI [of _ "handles s"])

lemma searched_trans: "searched s s1 \<Longrightarrow> searched s1 s2 \<Longrightarrow> searched s s2"
proof -
  assume a: "searched s s1" and b: "searched s1 s2"
  obtain f where f: "s1 = s\<lparr>handles := f\<rparr>" "\<forall>h. map_option Protocols (f h) = map_option Protocols (handles s h)"
    "\<forall>h H. f h = Some H \<longrightarrow> LocateRequest H = mEfiLocateHandleRequest s \<or> handles s h = Some H"
    using a unfolding searched_def by blast
  obtain k where k: "s2 = s1\<lparr>handles := k\<rparr>" "\<forall>h. map_option Protocols (k h) = map_option Protocols (handles s1 h)"
    "\<forall>h H. k h = Some H \<longrightarrow> LocateRequest H = mEfiLocateHandleRequest s1 \<or> handles s1 h = Some H"
    using b unfolding searched_def by blast
  have "s2 = s\<lparr>handles := k\<rparr>" using f(1) k(1) by simp
  moreover have "\<forall>h. map_option Protocols (k h) = map_option Protocols (handles s h)" using f k(2) by simp
  moreover have "\<forall>h H. k h = Some H \<longrightarrow> LocateRequest H = mEfiLocateHandleRequest s \<or> handles s h = Some H" using f(3) k(3) unfolding f(1) by simp blast
  ultimately show ?thesis unfolding searched_def by blast
qed

lemma searched_mark: "searched s (upd_handle h (\<lambda>H. H\<lparr>LocateRequest := mEfiLocateHandleRequest s\<rparr>) s)"
  unfolding searched_def upd_handle_def by (rule exI, rule conjI, rule refl) (auto simp: option.map_comp o_def)

lemma searched_fields:
  assumes "searched s s1"
  shows "interfaces s1 = interfaces s" "mProtocolDatabase s1 = mProtocolDatabase s"
    "mEfiLocateHandleRequest s1 = mEfiLocateHandleRequest s" "handles s1 h = None \<longleftrightarrow> handles s h = None"
    "protocols_of s1 = protocols_of s" "notifies s1 = notifies s" "hworld s1 = hworld s"
proof -
  obtain f where f: "s1 = s\<lparr>handles := f\<rparr>" "\<And>h. map_option Protocols (f h) = map_option Protocols (handles s h)"
    using assms unfolding searched_def by blast
  have "protocols_of s1 h = protocols_of s h" for h
    using f(2) [of h] protocol_at_cong [of s1 s] unfolding f(1)
    by (cases "f h"; cases "handles s h") (simp_all add: protocols_of_def)
  then show "protocols_of s1 = protocols_of s" by blast
  show "handles s1 h = None \<longleftrightarrow> handles s h = None" using f(2) [of h] unfolding f(1) by (metis hdb.select_convs(5) hdb.surjective hdb.update_convs(5) option.map_disc_iff)
qed (use assms in \<open>auto simp: searched_def\<close>)

lemma marked_mark:
  "handles s h \<noteq> None \<Longrightarrow> marked (upd_handle h (\<lambda>H. H\<lparr>LocateRequest := mEfiLocateHandleRequest s\<rparr>) s) = insert h (marked s)"
  by (auto simp: marked_def upd_handle_def)

text \<open>One step, and the whole search.\<close>

lemma next_by_protocol:
  assumes "\<forall>p \<in> set ps. \<exists>P. interfaces s p = Some P \<and> handles s (ifHandle P) \<noteq> None"
  shows "\<exists>h i ps1 s1. CoreGetNextLocateByProtocol j ps s = ret (h, i, ps1, s1) \<and> searched s s1 \<and> set ps1 \<subseteq> set ps \<and>
    (if set (map (handle_of s) ps) \<subseteq> marked s then h = NULL \<and> new_handles (marked s) (map (handle_of s) ps) = []
     else h \<in> set (map (handle_of s) ps) \<and>
       new_handles (marked s) (map (handle_of s) ps) = h # new_handles (marked s1) (map (handle_of s1) ps1))"
  using assms
proof (induction ps arbitrary: j)
  case Nil
  then show ?case by (simp add: searched_refl)
next
  case (Cons p ps)
  then obtain P H where P: "interfaces s p = Some P" "handles s (ifHandle P) = Some H" by auto
  have p: "handle_of s p = ifHandle P" using P by (simp add: handle_of_def)
  show ?case
  proof (cases "LocateRequest H = mEfiLocateHandleRequest s")
    case True
    then have "ifHandle P \<in> marked s" using P by (simp add: marked_def)
    then have "set (map (handle_of s) (p # ps)) \<subseteq> marked s \<longleftrightarrow> set (map (handle_of s) ps) \<subseteq> marked s"
      "new_handles (marked s) (map (handle_of s) (p # ps)) = new_handles (marked s) (map (handle_of s) ps)" by (simp_all add: p)
    moreover have "CoreGetNextLocateByProtocol j (p # ps) s = CoreGetNextLocateByProtocol (Interface P) ps s"
      using P True by (simp add: with_interface_def with_handle_def)
    moreover have "handle_of s ` set ps \<subseteq> handle_of s ` set (p # ps)" "set ps \<subseteq> set (p # ps)" by auto
    moreover obtain h i ps1 s1 where "CoreGetNextLocateByProtocol (Interface P) ps s = ret (h, i, ps1, s1)" "searched s s1" "set ps1 \<subseteq> set ps"
      "if set (map (handle_of s) ps) \<subseteq> marked s then h = NULL \<and> new_handles (marked s) (map (handle_of s) ps) = []
       else h \<in> set (map (handle_of s) ps) \<and>
         new_handles (marked s) (map (handle_of s) ps) = h # new_handles (marked s1) (map (handle_of s1) ps1)"
      using Cons.IH [of "Interface P"] Cons.prems by auto
    ultimately show ?thesis by (intro exI [of _ h] exI [of _ i] exI [of _ ps1] exI [of _ s1]) (auto split: if_splits)
  next
    case False
    let ?s = "upd_handle (ifHandle P) (\<lambda>H. H\<lparr>LocateRequest := mEfiLocateHandleRequest s\<rparr>) s"
    have "ifHandle P \<notin> marked s" using P False by (simp add: marked_def)
    moreover have "handle_of ?s = handle_of s" by (simp add: handle_of_def fun_eq_iff)
    ultimately show ?thesis using P False p marked_mark [of s "ifHandle P"] searched_mark [of s "ifHandle P"]
      by (auto simp: with_interface_def with_handle_def)
  qed
qed

lemma locate_loop_by_protocol:
  assumes "\<forall>p \<in> set ps. \<exists>P. interfaces s p = Some P \<and> handles s (ifHandle P) \<noteq> None" "handles s NULL = None"
  shows "\<exists>s1. locate_loop (ProtocolFrom ps) s = ret (new_handles (marked s) (map (handle_of s) ps), s1) \<and> searched s s1"
  using assms
proof (induction "length ps" arbitrary: ps s rule: less_induct)
  case less
  obtain h i ps1 s1 where n: "CoreGetNextLocateByProtocol NULL ps s = ret (h, i, ps1, s1)" "searched s s1" "set ps1 \<subseteq> set ps"
    "if set (map (handle_of s) ps) \<subseteq> marked s then h = NULL \<and> new_handles (marked s) (map (handle_of s) ps) = []
     else h \<in> set (map (handle_of s) ps) \<and>
       new_handles (marked s) (map (handle_of s) ps) = h # new_handles (marked s1) (map (handle_of s1) ps1)"
    using next_by_protocol [OF less.prems(1)] by blast
  note f = searched_fields [OF n(2)]
  show ?case
  proof (cases "set (map (handle_of s) ps) \<subseteq> marked s")
    case True
    then show ?thesis using n by (subst locate_loop.simps) (simp add: get_next_def)
  next
    case False
    then have "h \<in> set (map (handle_of s) ps)" and next_: "new_handles (marked s) (map (handle_of s) ps) =
        h # new_handles (marked s1) (map (handle_of s1) ps1)" using n(4) by auto
    then have "handles s h \<noteq> None" using less.prems(1) by (fastforce simp: handle_of_def)
    then have h: "h \<noteq> NULL" using less.prems(2) by metis
    have "\<forall>p \<in> set ps1. \<exists>P. interfaces s1 p = Some P \<and> handles s1 (ifHandle P) \<noteq> None" "handles s1 NULL = None"
      using less.prems n(3) f(1,4) by (blast | simp)+
    then obtain s2 where s2: "locate_loop (ProtocolFrom ps1) s1 = ret (new_handles (marked s1) (map (handle_of s1) ps1), s2)" "searched s1 s2"
      using less.hyps [of ps1 s1] locate_by_protocol_less [OF n(1) h] by blast
    then show ?thesis using n(1) h searched_trans [OF n(2)] next_ by (subst locate_loop.simps) (simp add: get_next_def)
  qed
qed

text \<open>The handles with the protocol \<open>g\<close>, in the order of the list of \<open>g\<close>.\<close>

definition handles_with :: "EFI_GUID \<Rightarrow> 'w hdb \<Rightarrow> ptr list" where
  "handles_with g s = new_handles {} (map (handle_of s) (entry_interfaces g s))"

lemma handles_with_set:
  assumes "hdb_ok s"
  shows "set (handles_with g s) = {h. has_protocol s h g}"
proof -
  note D = hdb_invD [OF assms]
  have "h \<in> handle_of s ` set (entry_interfaces g s) \<longleftrightarrow> has_protocol s h g" for h
  proof
    assume "h \<in> handle_of s ` set (entry_interfaces g s)"
    then obtain p P where P: "interfaces s p = Some P" "ifProtocol P = g" "h = ifHandle P"
      using D(13) by (fastforce simp: handle_of_def)
    then obtain H where "handles s h = Some H" "p \<in> set (Protocols H)" using D(8) by blast
    then show "has_protocol s h g" using P
      by (auto simp: has_protocol_def protocols_of_def protocol_at_def image_iff intro!: bexI [of _ p])
  next
    assume "has_protocol s h g"
    then obtain H p where H: "handles s h = Some H" "p \<in> set (Protocols H)" "fst (protocol_at s p) = g"
      by (auto simp: has_protocol_def protocols_of_def split: option.splits)
    then obtain P where P: "interfaces s p = Some P" "ifHandle P = h" using D(6) by blast
    then show "h \<in> handle_of s ` set (entry_interfaces g s)" using D(9) [OF P(1)] H(3)
      by (auto simp: handle_of_def protocol_at_def image_iff intro!: bexI [of _ p])
  qed
  then show ?thesis by (auto simp: handles_with_def new_handles_set)
qed

lemma request_next:
  assumes "unat (r :: u64) + 1 < 2 ^ 64"
  shows "unat (r + 1) = unat r + 1"
  using assms unat_add_lem [of r 1] by simp

lemma locate_by_protocol:
  assumes "hdb_ok s" "requests_past s" "unat (mEfiLocateHandleRequest s) + 1 < 2 ^ 64"
    "find_entry g (mProtocolDatabase s) \<noteq> None"
  shows "\<exists>s1. locate_loop (ProtocolFrom (entry_interfaces g s)) (s\<lparr>mEfiLocateHandleRequest := mEfiLocateHandleRequest s + 1\<rparr>) =
      ret (handles_with g s, s1) \<and> hdb_ok s1 \<and> requests_past s1 \<and> mEfiLocateHandleRequest s1 = mEfiLocateHandleRequest s + 1 \<and>
      mProtocolDatabase s1 = mProtocolDatabase s \<and> interfaces s1 = interfaces s \<and> protocols_of s1 = protocols_of s \<and>
      hworld s1 = hworld s"
proof -
  let ?s = "s\<lparr>mEfiLocateHandleRequest := mEfiLocateHandleRequest s + 1\<rparr>"
  note D = hdb_invD [OF assms(1)]
  have "marked ?s = {}"
    using assms(2) request_next [OF assms(3)] unfolding requests_past_def marked_def by fastforce
  moreover have "\<forall>p \<in> set (entry_interfaces g s). \<exists>P. interfaces ?s p = Some P \<and> handles ?s (ifHandle P) \<noteq> None"
    using D(8,13) by fastforce
  moreover have "handle_of ?s = handle_of s" by (simp add: handle_of_def fun_eq_iff)
  ultimately obtain s1 where s1: "locate_loop (ProtocolFrom (entry_interfaces g s)) ?s = ret (handles_with g s, s1)" "searched ?s s1"
    using locate_loop_by_protocol [of "entry_interfaces g s" ?s] D(1) by (auto simp: handles_with_def)
  have "requests_past s1"
    using assms(2) request_next [OF assms(3)] s1(2) unfolding requests_past_def searched_def by fastforce
  then show ?thesis using s1 searched_fields [OF s1(2)] locate_loop_ok [OF s1(1), of "{}" "{}"] assms(1) by auto
qed

lemma handles_with_cong:
  "mProtocolDatabase s1 = mProtocolDatabase s \<Longrightarrow> interfaces s1 = interfaces s \<Longrightarrow> handles_with g s1 = handles_with g s"
proof -
  assume "mProtocolDatabase s1 = mProtocolDatabase s" "interfaces s1 = interfaces s"
  then have "entry_interfaces g s1 = entry_interfaces g s" "handle_of s1 = handle_of s"
    by (simp_all add: entry_interfaces_def handle_of_def fun_eq_iff)
  then show ?thesis by (simp add: handles_with_def)
qed

text \<open>C17: (functional) \<open>CoreLocateHandleBuffer\<close> by protocol.  In a good database whose handles carry numbers of past searches, while
  the 64-bit number of the search does not wrap, it always returns: \<open>EFI_NOT_FOUND\<close> exactly when no handle has the protocol;
  else, exactly when the pool has nothing to give in the state of the call, \<open>EFI_OUT_OF_RESOURCES\<close>; else \<open>EFI_SUCCESS\<close> with every handle that has the
  protocol and no other, each once although it may have the protocol several times, and their number.  The lists of protocols
  stay as they are.\<close>

theorem locate_buffer_by_protocol:
  assumes "hdb_ok s" "requests_past s" "unat (mEfiLocateHandleRequest s) + 2 < 2 ^ 64"
  shows "\<exists>st n hs s1. CoreLocateHandleBuffer env ByProtocol (Some g) key False False s = ret (st, Some n, hs, s1) \<and>
    protocols_of s1 = protocols_of s \<and>
    (if \<forall>h. \<not> has_protocol s h g then st = EFI_NOT_FOUND \<and> n = 0 \<and> hs = []
     else if fst (pool env (hworld s)) = NULL then st = EFI_OUT_OF_RESOURCES \<and> n = 0 \<and> hs = []
     else st = EFI_SUCCESS \<and> n = length hs \<and> distinct hs \<and> set hs = {h. has_protocol s h g})"
proof (cases "find_entry g (mProtocolDatabase s) = None")
  case True
  then have "set (handles_with g s) = {}" by (simp add: handles_with_def new_handles_set entry_interfaces_def)
  then show ?thesis using handles_with_set [OF assms(1), of g] True
    by (simp add: CoreLocateHandleBuffer_def CoreLocateHandle_def locate_start_def EFI_ERROR_def)
next
  case False
  have w1: "unat (mEfiLocateHandleRequest s) + 1 < 2 ^ 64" using assms(3) by simp
  obtain s1 where s1: "locate_loop (ProtocolFrom (entry_interfaces g s)) (s\<lparr>mEfiLocateHandleRequest := mEfiLocateHandleRequest s + 1\<rparr>) =
      ret (handles_with g s, s1)" "hdb_ok s1" "requests_past s1" "mEfiLocateHandleRequest s1 = mEfiLocateHandleRequest s + 1"
      "mProtocolDatabase s1 = mProtocolDatabase s" "interfaces s1 = interfaces s" "protocols_of s1 = protocols_of s"
      "hworld s1 = hworld s"
    using locate_by_protocol [OF assms(1,2) w1 False] by blast
  have first: "CoreLocateHandle ByProtocol (Some g) key (Some 0) True s =
      ret (if handles_with g s = [] then EFI_NOT_FOUND else EFI_BUFFER_TOO_SMALL,
        Some (8 * length (handles_with g s)), [], s1)"
    using s1(1) False by (auto simp: CoreLocateHandle_def locate_start_def Let_def)
  show ?thesis
  proof (cases "handles_with g s = []")
    case True
    then show ?thesis using first handles_with_set [OF assms(1), of g] s1(7)
      by (simp add: CoreLocateHandleBuffer_def EFI_ERROR_def)
  next
    case some: False
    then have ex: "\<not> (\<forall>h. \<not> has_protocol s h g)" using handles_with_set [OF assms(1), of g] by (cases "handles_with g s") auto
    obtain a s2 where al: "alloc env (\<lambda>_ _. False) s1 = (a, s2)" by (rule prod.exhaust)
    obtain w where w: "s2 = s1\<lparr>hworld := w\<rparr>" using alloc_state [OF al] by blast
    have a: "a = fst (pool env (hworld s))" using al s1(8) by (auto simp: alloc_def split: prod.splits)
    have s2: "hdb_ok s2" "requests_past s2" "unat (mEfiLocateHandleRequest s2) + 1 < 2 ^ 64" "find_entry g (mProtocolDatabase s2) \<noteq> None"
      "entry_interfaces g s2 = entry_interfaces g s" "handles_with g s2 = handles_with g s" "protocols_of s2 = protocols_of s"
      using s1 w assms(3) request_next [OF w1] False
      by (auto simp: requests_past_def entry_interfaces_def handles_with_cong [OF s1(5,6)] intro!: handles_with_cong)
    obtain s3 where s3: "locate_loop (ProtocolFrom (entry_interfaces g s)) (s2\<lparr>mEfiLocateHandleRequest := mEfiLocateHandleRequest s2 + 1\<rparr>) =
      ret (handles_with g s, s3)" "protocols_of s3 = protocols_of s"
      using locate_by_protocol [OF s2(1-4)] s2(5-7) by auto
    have second: "CoreLocateHandle ByProtocol (Some g) key (Some (8 * length (handles_with g s))) False s2 =
      ret (EFI_SUCCESS, Some (8 * length (handles_with g s)), handles_with g s, s3)"
      using s3(1) s2(4,5) some by (simp add: CoreLocateHandle_def locate_start_def Let_def)
    have d: "distinct (handles_with g s)" by (simp add: handles_with_def new_handles_distinct)
    show ?thesis unfolding CoreLocateHandleBuffer_def first using second some al s2(7) s3(2) ex d handles_with_set [OF assms(1), of g]
      by (cases "a = NULL") (auto simp: EFI_ERROR_def a [symmetric])
  qed
qed

section \<open>A second interface of a protocol\<close>

lemma scan_others:
  "\<forall>od \<in> set ods. AgentHandle od \<noteq> a \<Longrightarrow> \<exists>d1 e1. scan_opens a c t i d e ods = Scanned d1 e1"
  by (induction ods arbitrary: i d e) (auto simp: Let_def)

lemma protocol_has_entry:
  assumes "hdb_inv {} Y s" "interfaces s p = Some P" "ifProtocol P = g"
  shows "find_entry g (mProtocolDatabase s) \<noteq> None"
  using hdb_invD(9) [OF assms(1,2)] assms(3) by (cases "find_entry g (mProtocolDatabase s)") (auto simp: entry_interfaces_def)

text \<open>The check of \<open>CoreInstallProtocolInterfaceNotify\<close> that the handle does not have the protocol yet is the status of
  \<open>CoreHandleProtocol\<close>, which also fails when the record of its own opening cannot be allocated.  In a good database, for a handle that
  has the protocol, with a pool that refuses the first allocation and grants the second, and the core not yet among the openers,
  a second interface of the protocol is installed on the handle with \<open>EFI_SUCCESS\<close>, where the specified answer is
  \<open>EFI_INVALID_PARAMETER\<close>; it hides the first one.\<close>

theorem failed_open_installs_duplicate:
  assumes "hdb_ok s" "CoreValidateHandle h s = EFI_SUCCESS" "has_protocol s h g" "(g, i) \<notin> set (the (protocols_of s h))"
    "gDxeCoreImageHandle env \<noteq> NULL"
    "\<And>q P. interfaces s q = Some P \<Longrightarrow> \<forall>od \<in> set (OpenList P). AgentHandle od \<noteq> gDxeCoreImageHandle env"
    "pool env (hworld s) = (NULL, w1)" "pool env w1 = (p, w2)" "p \<noteq> NULL" "interfaces s p = None"
  shows "\<exists>s1. CoreInstallProtocolInterface dc env (Some h) (Some g) EFI_NATIVE_INTERFACE i s = ret (EFI_SUCCESS, Some h, s1) \<and>
    protocols_of s1 = (protocols_of s)(h \<mapsto> (g, i) # the (protocols_of s h))"
proof -
  have h: "h \<noteq> NULL" "handles s h \<noteq> None" using assms(2) by (auto simp: CoreValidateHandle_def split: if_splits)
  then obtain H where H: "handles s h = Some H" by auto
  obtain q where q: "CoreGetProtocolInterface h g s = ret q" "case map_of (the (protocols_of s h)) g of None \<Rightarrow> q = NULL
     | Some i \<Rightarrow> \<exists>P. interfaces s q = Some P \<and> Interface P = i \<and> ifProtocol P = g"
    using get_protocol_map_of [OF assms(1,2)] by blast
  have "map_of (the (protocols_of s h)) g \<noteq> None"
    using assms(3) h by (auto simp: has_protocol_def map_of_eq_None_iff split: option.splits)
  then obtain P where P: "interfaces s q = Some P" "ifProtocol P = g" using q(2) by auto
  have qn: "q \<noteq> NULL" using hdb_invD(7) [OF assms(1)] P by auto
  obtain d e where scan: "scan_opens (gDxeCoreImageHandle env) NULL EFI_OPEN_PROTOCOL_BY_HANDLE_PROTOCOL 0 False False (OpenList P) = Scanned d e"
    using scan_others assms(6) [OF P(1)] by blast
  let ?s = "s\<lparr>hworld := w1\<rparr>"
  have open': "CoreHandleProtocol dc env h (Some g) False s = ret (EFI_OUT_OF_RESOURCES, Some (Interface P), ?s)"
    using assms(2,5,7) q(1) qn P(1) scan
    by (simp add: CoreHandleProtocol_def CoreOpenProtocol_def with_interface_def open_interface_def add_open_def alloc_def)
  have e: "find_entry g (mProtocolDatabase ?s) \<noteq> None" using protocol_has_entry [OF assms(1) P] by simp
  then have found: "CoreFindProtocolEntry env g True ?s = (True, ?s)" by (auto simp: CoreFindProtocolEntry_def)
  let ?s2 = "s\<lparr>hworld := w2\<rparr>"
  have al: "alloc env (\<lambda>s a. interfaces s a \<noteq> None) ?s = (p, ?s2)" using assms(8,10) by (simp add: alloc_def)
  obtain w where w: "install_at env p h g i True ?s2 = ret (EFI_SUCCESS, h, (put_interface p h g i ?s2)\<lparr>hworld := w\<rparr>)"
    using install_at_old [of ?s2 p g h i env] assms(1,4,9,10) e h by auto
  have "CoreInstallProtocolInterface dc env (Some h) (Some g) EFI_NATIVE_INTERFACE i s =
      ret (EFI_SUCCESS, Some h, (put_interface p h g i ?s2)\<lparr>hworld := w\<rparr>)"
    unfolding CoreInstallProtocolInterface_def CoreInstallProtocolInterfaceNotify_def prod.case option.case
    using h(1) assms(9) by (simp add: open' found Let_def al w del: not_None_eq)
  moreover have "protocols_of ((put_interface p h g i ?s2)\<lparr>hworld := w\<rparr>) = (protocols_of s)(h \<mapsto> (g, i) # the (protocols_of s h))"
    using protocols_put [of "{}" "{}" ?s2 h H p g i] assms(1,10) H by simp
  ultimately show ?thesis by blast
qed

section \<open>An example system\<close>

text \<open>
  A pool that gives fresh addresses from the world, which is a number, and fails once at \<open>0x5000\<close>; a driver that opens the protocol
  \<open>[1]\<close> of a controller when it is connected and closes it when it is disconnected.
\<close>

definition example_env :: "u64 hdb_env" where
  "example_env = \<lparr>pool = (\<lambda>w. (if w = 0x5000 then NULL else w, w + 16)), CoreSignalEvent = (\<lambda>e w. w), gDxeCoreImageHandle = 0x1000\<rparr>"

definition example_drivers :: "u64 drivers" where
  "example_drivers = \<lparr>
     disconnect_program = (\<lambda>h a s. Call (hworld s) (CloseProtocol h (Some [1]) a h) (\<lambda>_ s. Finish EFI_SUCCESS (hworld s))),
     connect_program = (\<lambda>h s. Call (hworld s) (OpenProtocol h (Some [1]) False h h EFI_OPEN_PROTOCOL_BY_DRIVER)
       (\<lambda>_ s. Finish EFI_SUCCESS (hworld s)))\<rparr>"

text \<open>Install on a new handle, connect it, and uninstall, which disconnects the driver.\<close>

definition example_program :: "u64 driver_program" where
  "example_program =
     Call 0x2000 (InstallProtocol (Some NULL) (Some [1]) EFI_NATIVE_INTERFACE 7) (\<lambda>a s.
       let h = (case a of Pointer st (Some h) \<Rightarrow> h | _ \<Rightarrow> NULL) in
       Call (hworld s) (ConnectController h) (\<lambda>_ s.
         Call (hworld s) (UninstallProtocol h (Some [1]) 7) (\<lambda>a s.
           Finish (case a of Status st \<Rightarrow> st | _ \<Rightarrow> EFI_ABORTED) (hworld s))))"

abbreviation example_dc :: "u64 disconnect" where "example_dc \<equiv> fst (driver_calls 2 example_env example_drivers)"
abbreviation example_cn :: "u64 connect" where "example_cn \<equiv> snd (driver_calls 2 example_env example_drivers)"

lemma example_run:
  "case run_driver (do_hdb_call example_dc example_cn example_env) example_program (start_hdb 0x2000) of
     Some (Inr (st, s)) \<Rightarrow> st = EFI_SUCCESS \<and> gHandleList s = [] | _ \<Rightarrow> False"
  by code_simp

text \<open>A database with one handle that has the protocol \<open>[1]\<close> once.\<close>

lemma no_protocol_at_start: "\<not> has_protocol (start_hdb w) h g"
  by (simp add: has_protocol_def protocols_of_def start_hdb_def)

lemma example_install:
  "case CoreInstallProtocolInterface example_dc example_env (Some NULL) (Some [1]) EFI_NATIVE_INTERFACE 7 (start_hdb 0x4FD0) of
     Some (Inr (st, h, s)) \<Rightarrow> st = EFI_SUCCESS \<and> h = Some 0x4FF0 \<and> hworld s = 0x5000 \<and> gHandleList s = [0x4FF0] \<and>
       handles s 0x4FF0 = Some \<lparr>Protocols = [0x4FE0], LocateRequest = 0, Key = 1\<rparr> \<and>
       interfaces s 0x4FE0 = Some \<lparr>ifHandle = 0x4FF0, ifProtocol = [1], Interface = 7, OpenList = [], OpenListCount = 0\<rparr> \<and>
       interfaces s 0x5010 = None \<and> mEfiLocateHandleRequest s = 0
   | _ \<Rightarrow> False"
  by code_simp

lemma example_database:
  "\<exists>s. hdb_ok s \<and> CoreInstallProtocolInterface example_dc example_env (Some NULL) (Some [1]) EFI_NATIVE_INTERFACE 7 (start_hdb 0x4FD0) =
      ret (EFI_SUCCESS, Some 0x4FF0, s) \<and> hworld s = 0x5000 \<and> CoreValidateHandle 0x4FF0 s = EFI_SUCCESS \<and>
      protocols_of s 0x4FF0 = Some [([1], 7)] \<and> interfaces s 0x5010 = None \<and> requests_past s \<and> mEfiLocateHandleRequest s = 0 \<and>
      (\<forall>q P. interfaces s q = Some P \<longrightarrow> OpenList P = [])"
proof -
  obtain s where s: "CoreInstallProtocolInterface example_dc example_env (Some NULL) (Some [1]) EFI_NATIVE_INTERFACE 7 (start_hdb 0x4FD0) =
      ret (EFI_SUCCESS, Some 0x4FF0, s)" "hworld s = 0x5000" "gHandleList s = [0x4FF0]"
    "handles s 0x4FF0 = Some \<lparr>Protocols = [0x4FE0], LocateRequest = 0, Key = 1\<rparr>"
    "interfaces s 0x4FE0 = Some \<lparr>ifHandle = 0x4FF0, ifProtocol = [1], Interface = 7, OpenList = [], OpenListCount = 0\<rparr>"
    "interfaces s 0x5010 = None" "mEfiLocateHandleRequest s = 0"
    using example_install by (auto simp: ret_def split: option.splits sum.splits prod.splits)
  have ok: "hdb_ok s"
    using drivers.install_ok [of 2 example_env example_drivers] s(1) start_hdb_ok unfolding CoreInstallProtocolInterface_def by fastforce
  note D = hdb_invD [OF ok]
  have only: "h = 0x4FF0" if "handles s h \<noteq> None" for h using D(3) [of h] that s(3) by simp
  have "OpenList P = []" if P: "interfaces s q = Some P" for q P
  proof -
    obtain H where H: "handles s (ifHandle P) = Some H" "q \<in> set (Protocols H)" using D(8) [OF P] by blast
    then have "q = 0x4FE0" using only [of "ifHandle P"] s(4) by auto
    then show ?thesis using P s(5) by auto
  qed
  moreover have "requests_past s" unfolding requests_past_def using only s(4) by fastforce
  moreover have "CoreValidateHandle 0x4FF0 s = EFI_SUCCESS" "protocols_of s 0x4FF0 = Some [([1], 7)]"
    using s(4,5) by (simp_all add: CoreValidateHandle_def protocols_of_def protocol_at_def)
  ultimately show ?thesis using ok s by blast
qed

theorem handle_protocol_is_lookup_witness:
  "\<exists>s st s1. hdb_ok s \<and> CoreHandleProtocol example_dc example_env 0x4FF0 (Some [1]) False s = ret (st, Some 7, s1)"
proof -
  obtain s where s: "hdb_ok (s :: u64 hdb)" "CoreValidateHandle 0x4FF0 s = EFI_SUCCESS" "protocols_of s 0x4FF0 = Some [([1], 7)]"
    using example_database by blast
  show ?thesis using handle_protocol_is_lookup [OF s(1,2), where g = "[1]" and dc = example_dc and env = example_env] s by auto
qed

theorem install_puts_interface_witness:
  "\<exists>st h1 s1. CoreInstallProtocolInterface example_dc example_env (Some NULL) (Some [1]) EFI_NATIVE_INTERFACE 7 (start_hdb 0x4FD0) = ret (st, Some h1, s1) \<and>
    hdb_ok s1 \<and> st = EFI_SUCCESS \<and> protocols_of s1 h1 = Some [([1], 7)]"
  using install_puts_interface [OF start_hdb_ok no_protocol_at_start, of 2 example_env example_drivers NULL "[1]" 7 "0x4FD0"] example_database
  by auto

theorem install_then_uninstall_witness:
  "\<exists>s1 s2. CoreInstallProtocolInterface example_dc example_env (Some NULL) (Some [1]) EFI_NATIVE_INTERFACE 7 (start_hdb 0x4FD0) = ret (EFI_SUCCESS, Some 0x4FF0, s1) \<and>
    CoreUninstallProtocolInterface example_dc example_cn 0x4FF0 (Some [1]) 7 s1 = ret (EFI_SUCCESS, s2) \<and> protocols_of s2 = (\<lambda>_. None)"
proof -
  obtain s where s: "CoreInstallProtocolInterface example_dc example_env (Some NULL) (Some [1]) EFI_NATIVE_INTERFACE 7 (start_hdb 0x4FD0) =
      ret (EFI_SUCCESS, Some 0x4FF0, s)" using example_database by blast
  have "protocols_of (start_hdb (0x4FD0 :: u64)) = (\<lambda>_. None)" by (simp add: protocols_of_def start_hdb_def fun_eq_iff)
  then show ?thesis using install_then_uninstall [OF start_hdb_ok no_protocol_at_start s, of example_cn] s by auto
qed

theorem driver_programs_keep_database_witness:
  "\<exists>st s1. run_driver (do_hdb_call example_dc example_cn example_env) example_program (start_hdb 0x2000) = ret (st, s1) \<and>
    st = EFI_SUCCESS \<and> hdb_ok s1"
proof -
  obtain st s1 where run: "run_driver (do_hdb_call example_dc example_cn example_env) example_program (start_hdb 0x2000) = ret (st, s1)" "st = EFI_SUCCESS"
    using example_run by (auto simp: ret_def split: option.splits sum.splits prod.splits)
  show ?thesis using driver_programs_keep_database [OF start_hdb_ok run(1)] run by blast
qed

definition ample_env :: "u64 hdb_env" where
  "ample_env = example_env\<lparr>pool := (\<lambda>w. (w, w + 16))\<rparr>"

theorem locate_buffer_by_protocol_witness:
  "\<exists>s hs s1. hdb_ok (s :: u64 hdb) \<and> has_protocol s 0x4FF0 [1] \<and>
    CoreLocateHandleBuffer ample_env ByProtocol (Some [1]) NULL False False s = ret (EFI_SUCCESS, Some (length hs), hs, s1) \<and>
    set hs = {h. has_protocol s h [1]}"
proof -
  obtain s where s: "hdb_ok (s :: u64 hdb)" "requests_past s" "mEfiLocateHandleRequest s = 0" "protocols_of s 0x4FF0 = Some [([1], 7)]"
    "hworld s = 0x5000" using example_database by blast
  have "has_protocol s 0x4FF0 [1]" "fst (pool ample_env (hworld s)) \<noteq> NULL"
    using s(4,5) by (simp_all add: has_protocol_def ample_env_def)
  then show ?thesis using locate_buffer_by_protocol [OF s(1,2), of ample_env "[1]" NULL] s(1,3)
    by (fastforce split: if_splits)
qed

theorem failed_open_installs_duplicate_witness:
  "\<exists>s s1. hdb_ok s \<and> CoreInstallProtocolInterface example_dc example_env (Some 0x4FF0) (Some [1]) EFI_NATIVE_INTERFACE 8 s = ret (EFI_SUCCESS, Some 0x4FF0, s1) \<and>
    protocols_of s1 0x4FF0 = Some [([1], 8), ([1], 7)]"
proof -
  obtain s where s: "hdb_ok (s :: u64 hdb)" "CoreValidateHandle 0x4FF0 s = EFI_SUCCESS" "protocols_of s 0x4FF0 = Some [([1], 7)]"
    "hworld s = 0x5000" "interfaces s 0x5010 = None" "\<And>q P. interfaces s q = Some P \<Longrightarrow> OpenList P = []"
    using example_database by blast
  have "has_protocol s 0x4FF0 [1]" "([1], 8) \<notin> set (the (protocols_of s 0x4FF0))" using s(3) by (simp_all add: has_protocol_def)
  then show ?thesis
    using failed_open_installs_duplicate [OF s(1,2), of "[1]" 8 example_env "0x5010" "0x5010" "0x5020" example_dc] s
    by (auto simp: example_env_def)
qed

lemma locate_protocol_first:
  assumes "hdb_ok s" "requests_past s" "unat (mEfiLocateHandleRequest s) + 1 < 2 ^ 64"
  shows "\<exists>st i s1. CoreLocateProtocol (Some g) NULL False s = ret (st, Some i, s1) \<and>
    st = (if \<exists>h. has_protocol s h g then EFI_SUCCESS else EFI_NOT_FOUND)"
proof -
  let ?s = "s\<lparr>mEfiLocateHandleRequest := mEfiLocateHandleRequest s + 1\<rparr>"
  note D = hdb_invD [OF assms(1)]
  have some: "(\<exists>h. has_protocol s h g) \<longleftrightarrow> entry_interfaces g s \<noteq> []"
    using handles_with_set [OF assms(1), of g]
    by (cases "entry_interfaces g s") (auto simp: handles_with_def new_handles_set set_eq_iff)
  show ?thesis
  proof (cases "entry_interfaces g s")
    case Nil
    then show ?thesis using some by (cases "find_entry g (mProtocolDatabase s)") (simp_all add: CoreLocateProtocol_def)
  next
    case (Cons p ps)
    then have entry: "find_entry g (mProtocolDatabase s) \<noteq> None" by (auto simp: entry_interfaces_def split: option.splits)
    obtain P where P: "interfaces s p = Some P" using D(13) [of p g] Cons by auto
    then obtain H where H: "handles s (ifHandle P) = Some H" using D(8) by blast
    have "unat (LocateRequest H) < unat (mEfiLocateHandleRequest s + 1)"
      using assms(2) H request_next [OF assms(3)] unfolding requests_past_def by fastforce
    then have "LocateRequest H \<noteq> mEfiLocateHandleRequest s + 1" by auto
    moreover have "ifHandle P \<noteq> NULL" using D(1) H by auto
    ultimately show ?thesis using entry some Cons P H
      by (auto simp: CoreLocateProtocol_def with_interface_def with_handle_def)
  qed
qed

lemma install_success:
  assumes "hdb_ok s" "\<not> has_protocol s h g"
    "CoreInstallProtocolInterface dc env (Some h) (Some g) EFI_NATIVE_INTERFACE i s = ret (EFI_SUCCESS, Some h1, s1)"
  shows "hdb_ok s1" "protocols_of s1 = (protocols_of s)(h1 \<mapsto> (g, i) # (if h = NULL then [] else the (protocols_of s h1)))"
    "if h = NULL then protocols_of s h1 = None else protocols_of s h1 \<noteq> None"
    "mEfiLocateHandleRequest s1 = mEfiLocateHandleRequest s" "requests_past s \<Longrightarrow> requests_past s1"
proof -
  have r: "(if h = NULL then protocols_of s h1 = None \<and> h1 \<noteq> NULL else h1 = h \<and> protocols_of s h \<noteq> None) \<and> put_result h h1 g i s s1"
    using install_effect [OF assms(1,2), of dc env i] assms(3) by auto
  then show "hdb_ok s1" "protocols_of s1 = (protocols_of s)(h1 \<mapsto> (g, i) # (if h = NULL then [] else the (protocols_of s h1)))"
    using uninstall_put [of h h1 g i s s1] assms(1) by (auto split: if_splits)
  show "if h = NULL then protocols_of s h1 = None else protocols_of s h1 \<noteq> None" using r by (auto split: if_splits)
  show "mEfiLocateHandleRequest s1 = mEfiLocateHandleRequest s" using r by (auto simp: put_result_def put_interface_def upd_handle_def)
  show "requests_past s \<Longrightarrow> requests_past s1" using r requests_past_put by (auto simp: put_result_def)
qed

lemma install_adds_protocol:
  assumes "hdb_ok s" "\<not> has_protocol s h g"
    "CoreInstallProtocolInterface dc env (Some h) (Some g) EFI_NATIVE_INTERFACE i s = ret (EFI_SUCCESS, Some h1, s1)"
  shows "has_protocol s1 x k \<longleftrightarrow> has_protocol s x k \<or> x = h1 \<and> k = g"
  using install_success(2,3) [OF assms] by (auto simp: has_protocol_def split: option.splits if_splits)

end
