(* ===== verification/Pages.thy ===== *)
theory Pages
  imports Gcd
begin

text \<open>
  The page allocator of the DXE core (MdeModulePkg/Core/Dxe/Mem/Page.c): the map of the memory that the core manages, a
  list of descriptors in the order of its ring of \<open>LIST_ENTRY\<close>, and the operations that add memory to it, cut a
  range out of a descriptor and give it another type or other attributes, find free pages, and move the descriptors
  made on the stack \<open>mMapStack\<close> to pages of their own.  A descriptor is in a slot of that stack (\<open>Slot\<close>
  gives the index) or in such a page (\<open>FromPages\<close>); its \<open>VirtualStart\<close> is always 0.  The free descriptors of
  the pages are interchangeable: \<open>mFreeMemoryMapEntryList\<close> is the length of their list.  The task priorities that go
  with the two locks are left out.  ASSERTs are those of a build that has them.
\<close>

section \<open>Constants and types\<close>

abbreviation MAX_ADDRESS :: u64 where "MAX_ADDRESS \<equiv> 0xFFFFFFFFFFFFFFFF"
abbreviation MAX_MAP_DEPTH :: nat where "MAX_MAP_DEPTH \<equiv> 6"
abbreviation EFI_DEFAULT_PAGE_ALLOCATION_ALIGNMENT :: u64 where "EFI_DEFAULT_PAGE_ALLOCATION_ALIGNMENT \<equiv> EFI_PAGE_SIZE"
abbreviation EFI_ACPI_RUNTIME_PAGE_ALLOCATION_ALIGNMENT :: u64 where
  "EFI_ACPI_RUNTIME_PAGE_ALLOCATION_ALIGNMENT \<equiv> EFI_PAGE_SIZE"
abbreviation DEFAULT_PAGE_ALLOCATION :: u64 where "DEFAULT_PAGE_ALLOCATION \<equiv> EFI_PAGE_SIZE"
abbreviation sizeof_MEMORY_MAP :: nat where "sizeof_MEMORY_MAP \<equiv> 64"

abbreviation EfiReservedMemoryType :: u32 where "EfiReservedMemoryType \<equiv> 0"
abbreviation EfiBootServicesCode :: u32 where "EfiBootServicesCode \<equiv> 3"
abbreviation EfiBootServicesData :: u32 where "EfiBootServicesData \<equiv> 4"
abbreviation EfiRuntimeServicesCode :: u32 where "EfiRuntimeServicesCode \<equiv> 5"
abbreviation EfiRuntimeServicesData :: u32 where "EfiRuntimeServicesData \<equiv> 6"
abbreviation EfiConventionalMemory :: u32 where "EfiConventionalMemory \<equiv> 7"
abbreviation EfiACPIReclaimMemory :: u32 where "EfiACPIReclaimMemory \<equiv> 9"
abbreviation EfiACPIMemoryNVS :: u32 where "EfiACPIMemoryNVS \<equiv> 10"
abbreviation EfiMemoryMappedIO :: u32 where "EfiMemoryMappedIO \<equiv> 11"
abbreviation EfiMemoryMappedIOPortSpace :: u32 where "EfiMemoryMappedIOPortSpace \<equiv> 12"
abbreviation EfiPersistentMemory :: u32 where "EfiPersistentMemory \<equiv> 14"
abbreviation EfiMaxMemoryType :: u32 where "EfiMaxMemoryType \<equiv> 15"
abbreviation MEMORY_TYPE_OEM_RESERVED_MIN :: u32 where "MEMORY_TYPE_OEM_RESERVED_MIN \<equiv> 0x70000000"

abbreviation AllocateAnyPages :: u32 where "AllocateAnyPages \<equiv> 0"
abbreviation AllocateMaxAddress :: u32 where "AllocateMaxAddress \<equiv> 1"
abbreviation AllocateAddress :: u32 where "AllocateAddress \<equiv> 2"
abbreviation MaxAllocateType :: u32 where "MaxAllocateType \<equiv> 3"

abbreviation EfiGcdMemoryTypeReserved :: u32 where "EfiGcdMemoryTypeReserved \<equiv> 1"
abbreviation EfiGcdMemoryTypePersistentMemory :: u32 where "EfiGcdMemoryTypePersistentMemory \<equiv> 4"
abbreviation EFI_MEMORY_PRESENT :: u64 where "EFI_MEMORY_PRESENT \<equiv> 0x0100000000000000"
abbreviation EFI_MEMORY_INITIALIZED :: u64 where "EFI_MEMORY_INITIALIZED \<equiv> 0x0200000000000000"
abbreviation EFI_MEMORY_TESTED :: u64 where "EFI_MEMORY_TESTED \<equiv> 0x0400000000000000"
abbreviation EFI_MEMORY_MORE_RELIABLE :: u64 where "EFI_MEMORY_MORE_RELIABLE \<equiv> 0x10000"

definition EFI_SIZE_TO_PAGES :: "u64 \<Rightarrow> u64" where
  "EFI_SIZE_TO_PAGES Size = drop_bit EFI_PAGE_SHIFT Size + (if Size AND EFI_PAGE_MASK \<noteq> 0 then 1 else 0)"

definition EFI_PAGES_TO_SIZE :: "u64 \<Rightarrow> u64" where
  "EFI_PAGES_TO_SIZE Pages = push_bit EFI_PAGE_SHIFT Pages"

record MEMORY_MAP =
  Slot :: "nat option"
  Type :: u32
  Start :: u64
  End :: u64
  Attribute :: u64

definition FromPages :: "MEMORY_MAP \<Rightarrow> bool" where
  "FromPages Entry \<longleftrightarrow> Slot Entry = None"

record EFI_MEMORY_TYPE_STATISTICS =
  stat_BaseAddress :: u64
  stat_MaximumAddress :: u64
  CurrentNumberOfPages :: u64
  stat_NumberOfPages :: u64
  InformationIndex :: nat
  Special :: bool
  Runtime :: bool

record EFI_MEMORY_TYPE_INFORMATION =
  info_Type :: u32
  info_NumberOfPages :: u32

text \<open>
  The state: the globals of Page.c, the map of the memory space, which \<open>PromoteMemoryResource\<close> reads and
  changes, whether the two locks are held, and what the code outside sees (\<open>pworld\<close>).
\<close>

record 'w page_state =
  gMemoryMap :: "MEMORY_MAP list"
  mMapDepth :: nat
  mFreeMapStack :: nat
  mFreeMemoryMapEntryList :: nat
  mMemoryMapKey :: u64
  mMemoryTypeStatistics :: "EFI_MEMORY_TYPE_STATISTICS list"
  gMemoryTypeInformation :: "EFI_MEMORY_TYPE_INFORMATION list"
  mMemoryTypeInformationInitialized :: bool
  mDefaultMaximumAddress :: u64
  mDefaultBaseAddress :: u64
  gLoadFixedAddressCodeMemoryReady :: bool
  memory_space :: gcd_map
  gMemoryLock :: bool
  mGcdMemorySpaceLock :: bool
  pworld :: 'w

text \<open>
  What the page services call: \<open>CoreNotifySignalList\<close> on the group of map changes, \<open>SetMem\<close>,
  \<open>DEBUG_CLEAR_MEMORY\<close> and \<open>CoreUpdateProfile\<close> (action, memory type, size, address).  Then the PCDs of loading at
  fixed addresses and the top address of the configuration table.
\<close>

record 'w page_env =
  SignalMemoryMapChange :: "'w \<Rightarrow> 'w"
  SetMem :: "u64 \<Rightarrow> u64 \<Rightarrow> u8 \<Rightarrow> 'w \<Rightarrow> 'w"
  DEBUG_CLEAR_MEMORY :: "u64 \<Rightarrow> u64 \<Rightarrow> 'w \<Rightarrow> 'w"
  CoreUpdateProfile :: "string \<Rightarrow> u32 \<Rightarrow> u64 \<Rightarrow> u64 \<Rightarrow> 'w \<Rightarrow> 'w"
  PcdLoadModuleAtFixAddressEnable :: u64
  PcdLoadFixAddressRuntimeCodePageNumber :: u32
  PcdLoadFixAddressBootTimeCodePageNumber :: u32
  DxeCodeTopAddress :: u64
  DxeCoreImageHandle :: u64

section \<open>The tables at start\<close>

definition initial_statistics :: "EFI_MEMORY_TYPE_STATISTICS list" where
  "initial_statistics =
     map (\<lambda>(special, runtime).
            \<lparr>stat_BaseAddress = 0, stat_MaximumAddress = MAX_ADDRESS, CurrentNumberOfPages = 0, stat_NumberOfPages = 0,
             InformationIndex = 15, Special = special, Runtime = runtime\<rparr>)
       [(True, False), (False, False), (False, False), (False, False), (False, False), (True, True), (True, True),
        (False, False), (False, False), (True, False), (True, False), (False, False), (False, False), (True, True),
        (False, False), (False, False)]"

definition initial_information :: "EFI_MEMORY_TYPE_INFORMATION list" where
  "initial_information = map (\<lambda>T. \<lparr>info_Type = word_of_nat T, info_NumberOfPages = 0\<rparr>) [0..<16]"

definition initial_pages :: "gcd_map \<Rightarrow> 'w \<Rightarrow> 'w page_state" where
  "initial_pages space w =
     \<lparr>gMemoryMap = [], mMapDepth = 0, mFreeMapStack = 0, mFreeMemoryMapEntryList = 0, mMemoryMapKey = 0,
      mMemoryTypeStatistics = initial_statistics, gMemoryTypeInformation = initial_information,
      mMemoryTypeInformationInitialized = False, mDefaultMaximumAddress = MAX_ADDRESS, mDefaultBaseAddress = MAX_ADDRESS,
      gLoadFixedAddressCodeMemoryReady = False, memory_space = space, gMemoryLock = False, mGcdMemorySpaceLock = False,
      pworld = w\<rparr>"

section \<open>The locks\<close>

definition CoreAcquireMemoryLock :: "'w page_state \<Rightarrow> 'w page_state run" where
  "CoreAcquireMemoryLock s = assert_if True (\<not> gMemoryLock s) (ret (s\<lparr>gMemoryLock := True\<rparr>))"

definition CoreReleaseMemoryLock :: "'w page_state \<Rightarrow> 'w page_state run" where
  "CoreReleaseMemoryLock s = assert_if True (gMemoryLock s) (ret (s\<lparr>gMemoryLock := False\<rparr>))"

definition CoreAcquireGcdMemoryLock :: "'w page_state \<Rightarrow> 'w page_state run" where
  "CoreAcquireGcdMemoryLock s = assert_if True (\<not> mGcdMemorySpaceLock s) (ret (s\<lparr>mGcdMemorySpaceLock := True\<rparr>))"

definition CoreReleaseGcdMemoryLock :: "'w page_state \<Rightarrow> 'w page_state run" where
  "CoreReleaseGcdMemoryLock s = assert_if True (mGcdMemorySpaceLock s) (ret (s\<lparr>mGcdMemorySpaceLock := False\<rparr>))"

section \<open>Adding a range\<close>

text \<open>
  The loop of \<open>CoreAddRange\<close>: the range grows by each descriptor of the same kind that adjoins it, and the descriptor
  goes.  The result: the descriptors left, the range, and how many descriptors went to the list of free
  ones (\<open>RemoveMemoryMapEntry\<close> puts there those that are from pages).
\<close>

fun join_range :: "u32 \<Rightarrow> u64 \<Rightarrow> MEMORY_MAP list \<Rightarrow> u64 \<Rightarrow> u64 \<Rightarrow> MEMORY_MAP list \<times> u64 \<times> u64 \<times> nat" where
  "join_range T A [] S E = ([], S, E, 0)"
| "join_range T A (Entry # es) S E =
     (if Type Entry \<noteq> T \<or> Attribute Entry \<noteq> A then
        let (es', S', E', n) = join_range T A es S E in (Entry # es', S', E', n)
      else if End Entry + 1 = S then
        let (es', S', E', n) = join_range T A es (Start Entry) E
        in (es', S', E', if FromPages Entry then Suc n else n)
      else if Start Entry = E + 1 then
        let (es', S', E', n) = join_range T A es S (End Entry)
        in (es', S', E', if FromPages Entry then Suc n else n)
      else let (es', S', E', n) = join_range T A es S E in (Entry # es', S', E', n))"

definition RemoveMemoryMapEntry :: "MEMORY_MAP list \<Rightarrow> MEMORY_MAP \<Rightarrow> MEMORY_MAP list \<Rightarrow> 'w page_state \<Rightarrow> 'w page_state" where
  "RemoveMemoryMapEntry ps Entry qs s =
     s\<lparr>gMemoryMap := ps @ qs,
       mFreeMemoryMapEntryList := (if FromPages Entry then Suc (mFreeMemoryMapEntryList s) else mFreeMemoryMapEntryList s)\<rparr>"

definition CoreAddRange :: "'w page_env \<Rightarrow> u32 \<Rightarrow> u64 \<Rightarrow> u64 \<Rightarrow> u64 \<Rightarrow> 'w page_state \<Rightarrow> 'w page_state run" where
  "CoreAddRange env T S E A s =
     assert_if True (S AND EFI_PAGE_MASK = 0) (assert_if True (E > S) (assert_if True (gMemoryLock s)
       (let w = (if T = EfiConventionalMemory \<and> S = 0 \<and> E \<ge> EFI_PAGE_SIZE - 1
                 then SetMem env S EFI_PAGE_SIZE 0 (pworld s) else pworld s);
            (es, S', E', n) = join_range T A (gMemoryMap s) S E;
            New = \<lparr>Slot = Some (mMapDepth s), Type = T, Start = S', End = E', Attribute = A\<rparr>
        in assert_if True (mMapDepth s + 1 < MAX_MAP_DEPTH)
             (ret (s\<lparr>gMemoryMap := es @ [New],
                     mMapDepth := mMapDepth s + 1,
                     mFreeMemoryMapEntryList := mFreeMemoryMapEntryList s + n,
                     mMemoryMapKey := mMemoryMapKey s + 1,
                     pworld := SignalMemoryMapChange env w\<rparr>)))))"

section \<open>Moving descriptors from the stack to pages\<close>

text \<open>The descriptor of slot \<open>d\<close>, if it is linked, and the others.\<close>

primrec take_slot :: "nat \<Rightarrow> MEMORY_MAP list \<Rightarrow> (MEMORY_MAP \<times> MEMORY_MAP list) option" where
  "take_slot d [] = None"
| "take_slot d (Entry # es) =
     (if Slot Entry = Some d then Some (Entry, es)
      else map_option (\<lambda>(x, es'). (x, Entry # es')) (take_slot d es))"

primrec insert_by_start :: "MEMORY_MAP \<Rightarrow> MEMORY_MAP list \<Rightarrow> MEMORY_MAP list" where
  "insert_by_start Entry [] = [Entry]"
| "insert_by_start Entry (Entry2 # es) =
     (if FromPages Entry2 \<and> Start Entry2 > Start Entry then Entry # Entry2 # es
      else Entry2 # insert_by_start Entry es)"

definition pop_map_stack :: "'w page_state \<Rightarrow> 'w page_state" where
  "pop_map_stack s =
     (let d = mMapDepth s - 1 in
      case take_slot d (gMemoryMap s) of
        Some (Entry, es) \<Rightarrow> s\<lparr>mMapDepth := d, gMemoryMap := insert_by_start (Entry\<lparr>Slot := None\<rparr>) es\<rparr>
      | None \<Rightarrow> s\<lparr>mMapDepth := d, mFreeMemoryMapEntryList := Suc (mFreeMemoryMapEntryList s)\<rparr>)"

text \<open>
  The loop of \<open>CoreFreeMemoryMapStack\<close>; \<open>alloc\<close> is \<open>AllocateMemoryMapEntry\<close>, which takes one descriptor off the
  list of free ones.
\<close>

partial_function (option) free_stack_loop ::
  "('w page_state \<Rightarrow> (bool \<times> 'w page_state) run) \<Rightarrow> 'w page_state \<Rightarrow> 'w page_state run" where
  "free_stack_loop alloc s =
     (if mMapDepth s = 0 then ret s
      else bind_run (alloc s) (\<lambda>(ok, s1). if \<not> ok then Some (Inl AssertFailed) else free_stack_loop alloc (pop_map_stack s1)))"

declare free_stack_loop.simps [code]

section \<open>Untested memory\<close>

definition promotable :: "EFI_GCD_MAP_ENTRY \<Rightarrow> bool" where
  "promotable Entry \<longleftrightarrow>
     GcdMemoryType Entry = EfiGcdMemoryTypeReserved \<and> EndAddress Entry < MAX_ADDRESS \<and>
     Capabilities Entry AND (EFI_MEMORY_PRESENT OR EFI_MEMORY_INITIALIZED OR EFI_MEMORY_TESTED) =
       EFI_MEMORY_PRESENT OR EFI_MEMORY_INITIALIZED"

definition promote_entry :: "'w page_env \<Rightarrow> EFI_GCD_MAP_ENTRY \<Rightarrow> EFI_GCD_MAP_ENTRY" where
  "promote_entry env Entry =
     Entry\<lparr>GcdMemoryType :=
             (if Capabilities Entry AND EFI_MEMORY_MORE_RELIABLE = EFI_MEMORY_MORE_RELIABLE
              then EfiGcdMemoryTypeMoreReliable else EfiGcdMemoryTypeSystemMemory),
           Capabilities := Capabilities Entry OR EFI_MEMORY_TESTED,
           ImageHandle := DxeCoreImageHandle env, DeviceHandle := NULL\<rparr>"

text \<open>
  The walk over the map of the memory space, from position \<open>i\<close>, with \<open>n\<close> entries to go.  Here and below,
  \<open>free\<close> is the \<open>CoreFreeMemoryMapStack\<close> that the code calls.
\<close>

primrec promote_loop ::
  "'w page_env \<Rightarrow> ('w page_state \<Rightarrow> 'w page_state run) \<Rightarrow> nat \<Rightarrow> nat \<Rightarrow> bool \<Rightarrow> 'w page_state \<Rightarrow>
     (bool \<times> 'w page_state) run" where
  "promote_loop env free 0 i Promoted s = ret (Promoted, s)"
| "promote_loop env free (Suc n) i Promoted s =
     (let Entry = memory_space s ! i in
      if promotable Entry then
        let Entry' = promote_entry env Entry in
        bind_run
          (CoreAddRange env EfiConventionalMemory (BaseAddress Entry') (EndAddress Entry')
            (Capabilities Entry' AND
              NOT (EFI_MEMORY_PRESENT OR EFI_MEMORY_INITIALIZED OR EFI_MEMORY_TESTED OR EFI_MEMORY_RUNTIME))
            (s\<lparr>memory_space := (memory_space s)[i := Entry']\<rparr>))
          (\<lambda>s1. bind_run (free s1) (promote_loop env free n (Suc i) True))
      else promote_loop env free n (Suc i) Promoted s)"

definition PromoteMemoryResource ::
  "'w page_env \<Rightarrow> ('w page_state \<Rightarrow> 'w page_state run) \<Rightarrow> 'w page_state \<Rightarrow> (bool \<times> 'w page_state) run" where
  "PromoteMemoryResource env free s =
     bind_run (CoreAcquireGcdMemoryLock s) (\<lambda>s1.
     bind_run (promote_loop env free (length (memory_space s1)) 0 False s1) (\<lambda>(Promoted, s2).
     bind_run (CoreReleaseGcdMemoryLock s2) (\<lambda>s3. ret (Promoted, s3))))"

section \<open>Converting a range\<close>

text \<open>The first descriptor that covers \<open>a\<close> (and ends after it), with those in front of it and after it.\<close>

primrec find_covering :: "u64 \<Rightarrow> MEMORY_MAP list \<Rightarrow> (MEMORY_MAP list \<times> MEMORY_MAP \<times> MEMORY_MAP list) option" where
  "find_covering a [] = None"
| "find_covering a (Entry # es) =
     (if Start Entry \<le> a \<and> End Entry > a then Some ([], Entry, es)
      else map_option (\<lambda>(ps, x, qs). (Entry # ps, x, qs)) (find_covering a es))"

definition in_bin :: "'w page_state \<Rightarrow> u32 \<Rightarrow> u64 \<Rightarrow> bool" where
  "in_bin s T a \<longleftrightarrow>
     (a \<ge> stat_BaseAddress (mMemoryTypeStatistics s ! unat T) \<and> a \<le> stat_MaximumAddress (mMemoryTypeStatistics s ! unat T)) \<or>
     (a \<ge> mDefaultBaseAddress s \<and> a \<le> mDefaultMaximumAddress s)"

definition set_current_pages :: "u32 \<Rightarrow> u64 \<Rightarrow> 'w page_state \<Rightarrow> 'w page_state" where
  "set_current_pages T n s =
     s\<lparr>mMemoryTypeStatistics :=
         (mMemoryTypeStatistics s)[unat T := (mMemoryTypeStatistics s ! unat T)\<lparr>CurrentNumberOfPages := n\<rparr>]\<rparr>"

definition count_old_type :: "u32 \<Rightarrow> u64 \<Rightarrow> u64 \<Rightarrow> 'w page_state \<Rightarrow> 'w page_state" where
  "count_old_type T S n s =
     (if T < EfiMaxMemoryType \<and> in_bin s T S then
        let c = CurrentNumberOfPages (mMemoryTypeStatistics s ! unat T)
        in set_current_pages T (if n > c then 0 else c - n) s
      else s)"

definition count_new_type :: "u32 \<Rightarrow> u64 \<Rightarrow> u64 \<Rightarrow> 'w page_state \<Rightarrow> 'w page_state" where
  "count_new_type T S n s =
     (if T < EfiMaxMemoryType \<and> in_bin s T S then
        let c = CurrentNumberOfPages (mMemoryTypeStatistics s ! unat T) + n;
            i = InformationIndex (mMemoryTypeStatistics s ! unat T);
            s1 = set_current_pages T c s
        in if c > ucast (info_NumberOfPages (gMemoryTypeInformation s1 ! i)) then
             s1\<lparr>gMemoryTypeInformation :=
                 (gMemoryTypeInformation s1)[i := (gMemoryTypeInformation s1 ! i)\<lparr>info_NumberOfPages := ucast c\<rparr>]\<rparr>
           else s1
      else s)"

text \<open>
  Cutting \<open>[S, R]\<close> out of the descriptor: what is in front of the variable \<open>Entry\<close> of the code after the
  cut, that descriptor, and what is after it.  A cut in the middle takes a slot of the stack for the upper part,
  and \<open>Entry\<close> is that part.
\<close>

definition pull_range ::
  "u64 \<Rightarrow> u64 \<Rightarrow> MEMORY_MAP list \<Rightarrow> MEMORY_MAP \<Rightarrow> MEMORY_MAP list \<Rightarrow> 'w page_state \<Rightarrow>
     (MEMORY_MAP list \<times> MEMORY_MAP \<times> MEMORY_MAP list \<times> 'w page_state) run" where
  "pull_range S R ps Entry qs s =
     (if Start Entry = S then ret (ps, Entry\<lparr>Start := R + 1\<rparr>, qs, s)
      else if End Entry = R then ret (ps, Entry\<lparr>End := S - 1\<rparr>, qs, s)
      else
        let New = \<lparr>Slot = Some (mMapDepth s), Type = Type Entry, Start = R + 1, End = End Entry, Attribute = Attribute Entry\<rparr>;
            Entry' = Entry\<lparr>End := S - 1\<rparr>
        in assert_if True (Start Entry' < End Entry') (assert_if True (mMapDepth s + 1 < MAX_MAP_DEPTH)
             (ret (ps @ Entry' # qs, New, [], s\<lparr>mMapDepth := mMapDepth s + 1\<rparr>))))"

text \<open>
  One pass of the loop of \<open>CoreConvertPagesEx\<close>, from the end of the search on, without the clearing of the memory
  and the moving of descriptors.
\<close>

definition convert_piece ::
  "'w page_env \<Rightarrow> u64 \<Rightarrow> bool \<Rightarrow> u32 \<Rightarrow> u64 \<Rightarrow> u64 \<Rightarrow> u64 \<Rightarrow> MEMORY_MAP list \<Rightarrow> MEMORY_MAP \<Rightarrow> MEMORY_MAP list \<Rightarrow>
     'w page_state \<Rightarrow> (u32 \<times> 'w page_state) run" where
  "convert_piece env NumberOfPages ChangingType NewType NewAttributes S R ps Entry qs s =
     (let s1 = (if ChangingType
                then count_new_type NewType S NumberOfPages (count_old_type (Type Entry) S NumberOfPages s) else s)
      in bind_run (pull_range S R ps Entry qs s1) (\<lambda>(ps', Entry', qs', s2).
           let A = (if ChangingType then Attribute Entry' else NewAttributes);
               MemType = (if ChangingType then NewType else Type Entry');
               s3 = (if Start Entry' = End Entry' + 1 then RemoveMemoryMapEntry ps' Entry' qs' s2
                     else s2\<lparr>gMemoryMap := ps' @ Entry' # qs'\<rparr>)
           in bind_run (CoreAddRange env MemType S R A s3) (\<lambda>s4. ret (MemType, s4))))"

definition clear_piece :: "'w page_env \<Rightarrow> u64 \<Rightarrow> u64 \<Rightarrow> 'w page_state \<Rightarrow> 'w page_state" where
  "clear_piece env S R s =
     (if S = 0 then
        if R > EFI_PAGE_SIZE then s\<lparr>pworld := DEBUG_CLEAR_MEMORY env EFI_PAGE_SIZE (R - EFI_PAGE_SIZE + 1) (pworld s)\<rparr> else s
      else s\<lparr>pworld := DEBUG_CLEAR_MEMORY env S (R - S + 1) (pworld s)\<rparr>)"

text \<open>
  The test of the code, \<open>!(NewType == Conventional ? 1 : 0) ^ (Entry->Type == Conventional ? 1 : 0)\<close>: the conversion
  is refused when it is not exactly one of the two types that is free memory.
\<close>

definition incompatible_types :: "u32 \<Rightarrow> u32 \<Rightarrow> bool" where
  "incompatible_types NewType EntryType \<longleftrightarrow> (NewType \<noteq> EfiConventionalMemory) \<noteq> (EntryType = EfiConventionalMemory)"

partial_function (option) convert_pages_loop ::
  "'w page_env \<Rightarrow> ('w page_state \<Rightarrow> 'w page_state run) \<Rightarrow> u64 \<Rightarrow> bool \<Rightarrow> u32 \<Rightarrow> u64 \<Rightarrow> u64 \<Rightarrow> u64 \<Rightarrow> 'w page_state \<Rightarrow>
     (efi_status \<times> 'w page_state) run" where
  "convert_pages_loop env free NumberOfPages ChangingType NewType NewAttributes E S s =
     (if \<not> S < E then ret (EFI_SUCCESS, s)
      else (case find_covering S (gMemoryMap s) of
        None \<Rightarrow> ret (EFI_NOT_FOUND, s)
      | Some (ps, Entry, qs) \<Rightarrow>
          let R = (if End Entry < E then End Entry else E) in
          if ChangingType \<and> incompatible_types NewType (Type Entry) then ret (EFI_NOT_FOUND, s)
          else bind_run (convert_piece env NumberOfPages ChangingType NewType NewAttributes S R ps Entry qs s)
            (\<lambda>(MemType, s1).
              bind_run (free (if ChangingType \<and> MemType = EfiConventionalMemory then clear_piece env S R s1 else s1))
                (\<lambda>s2. convert_pages_loop env free NumberOfPages ChangingType NewType NewAttributes E (R + 1) s2))))"

declare convert_pages_loop.simps [code]

definition CoreConvertPagesEx ::
  "'w page_env \<Rightarrow> ('w page_state \<Rightarrow> 'w page_state run) \<Rightarrow> u64 \<Rightarrow> u64 \<Rightarrow> bool \<Rightarrow> u32 \<Rightarrow> bool \<Rightarrow> u64 \<Rightarrow> 'w page_state \<Rightarrow>
     (efi_status \<times> 'w page_state) run" where
  "CoreConvertPagesEx env free S NumberOfPages ChangingType NewType ChangingAttributes NewAttributes s =
     (let NumberOfBytes = push_bit EFI_PAGE_SHIFT NumberOfPages; E = S + NumberOfBytes - 1 in
      assert_if True (NumberOfPages \<noteq> 0) (assert_if True (S AND EFI_PAGE_MASK = 0) (assert_if True (E > S)
        (assert_if True (gMemoryLock s) (assert_if True (\<not> ChangingType \<or> \<not> ChangingAttributes)
          (if NumberOfPages = 0 \<or> S AND EFI_PAGE_MASK \<noteq> 0 \<or> S > S + NumberOfBytes then ret (EFI_INVALID_PARAMETER, s)
           else convert_pages_loop env free NumberOfPages ChangingType NewType NewAttributes E S s))))))"

definition CoreConvertPages ::
  "'w page_env \<Rightarrow> ('w page_state \<Rightarrow> 'w page_state run) \<Rightarrow> u64 \<Rightarrow> u64 \<Rightarrow> u32 \<Rightarrow> 'w page_state \<Rightarrow>
     (efi_status \<times> 'w page_state) run" where
  "CoreConvertPages env free S NumberOfPages NewType = CoreConvertPagesEx env free S NumberOfPages True NewType False 0"

section \<open>Finding free pages\<close>

text \<open>The loop of \<open>CoreFindFreePagesI\<close> over the descriptors: the highest end of a range that fits, in \<open>Target\<close>.\<close>

primrec find_target :: "u64 \<Rightarrow> u64 \<Rightarrow> u64 \<Rightarrow> u64 \<Rightarrow> MEMORY_MAP list \<Rightarrow> u64 \<Rightarrow> u64" where
  "find_target MaxAddress MinAddress NumberOfBytes Alignment [] Target = Target"
| "find_target MaxAddress MinAddress NumberOfBytes Alignment (Entry # es) Target =
     find_target MaxAddress MinAddress NumberOfBytes Alignment es
       (if Type Entry \<noteq> EfiConventionalMemory then Target
        else if Start Entry \<ge> MaxAddress \<or> End Entry < MinAddress then Target
        else
          let DescStart = Start Entry;
              DescEnd0 = (if End Entry \<ge> MaxAddress then MaxAddress else End Entry);
              DescEnd = ((DescEnd0 + 1) AND NOT (Alignment - 1)) - 1
          in if DescEnd < DescStart then Target
             else if DescEnd - DescStart + 1 \<ge> NumberOfBytes then
               if DescEnd - NumberOfBytes + 1 < MinAddress then Target
               else if DescEnd > Target then DescEnd else Target
             else Target)"

definition clip_max :: "u64 \<Rightarrow> u64" where
  "clip_max MaxAddress =
     (if MaxAddress AND EFI_PAGE_MASK \<noteq> EFI_PAGE_MASK
      then ((MaxAddress - (EFI_PAGE_MASK + 1)) AND NOT EFI_PAGE_MASK) OR EFI_PAGE_MASK else MaxAddress)"

definition CoreFindFreePagesI :: "u64 \<Rightarrow> u64 \<Rightarrow> u64 \<Rightarrow> u64 \<Rightarrow> MEMORY_MAP list \<Rightarrow> u64" where
  "CoreFindFreePagesI MaxAddress MinAddress NumberOfPages Alignment es =
     (if MaxAddress < EFI_PAGE_MASK \<or> NumberOfPages = 0 then 0
      else
        let NumberOfBytes = push_bit EFI_PAGE_SHIFT NumberOfPages;
            Target = find_target (clip_max MaxAddress) MinAddress NumberOfBytes Alignment es 0 - (NumberOfBytes - 1)
        in if Target AND EFI_PAGE_MASK \<noteq> 0 then 0 else Target)"

partial_function (option) FindFreePages ::
  "'w page_env \<Rightarrow> ('w page_state \<Rightarrow> 'w page_state run) \<Rightarrow> u64 \<Rightarrow> u64 \<Rightarrow> u32 \<Rightarrow> u64 \<Rightarrow> 'w page_state \<Rightarrow>
     (u64 \<times> 'w page_state) run" where
  "FindFreePages env free MaxAddress NoPages NewType Alignment s =
     (let stat = mMemoryTypeStatistics s ! unat NewType;
          bin = (if NewType < EfiMaxMemoryType \<and> MaxAddress \<ge> stat_MaximumAddress stat
                 then CoreFindFreePagesI (stat_MaximumAddress stat) (stat_BaseAddress stat) NoPages Alignment (gMemoryMap s)
                 else 0)
      in if bin \<noteq> 0 then ret (bin, s)
         else
           let default = (if MaxAddress \<ge> mDefaultMaximumAddress s
                          then CoreFindFreePagesI (mDefaultMaximumAddress s) 0 NoPages Alignment (gMemoryMap s) else 0)
           in if default \<noteq> 0 then
                ret (default, if default < mDefaultBaseAddress s then s\<lparr>mDefaultBaseAddress := default\<rparr> else s)
              else
                let S = CoreFindFreePagesI MaxAddress 0 NoPages Alignment (gMemoryMap s) in
                if S \<noteq> 0 then ret (S, s)
                else bind_run (PromoteMemoryResource env free s) (\<lambda>(Promoted, s1).
                  if \<not> Promoted then ret (0, s1)
                  else FindFreePages env free MaxAddress NoPages NewType Alignment s1))"

declare FindFreePages.simps [code]

definition CoreAllocatePoolPages ::
  "'w page_env \<Rightarrow> ('w page_state \<Rightarrow> 'w page_state run) \<Rightarrow> u32 \<Rightarrow> u64 \<Rightarrow> u64 \<Rightarrow> 'w page_state \<Rightarrow> (u64 \<times> 'w page_state) run" where
  "CoreAllocatePoolPages env free PoolType NumberOfPages Alignment s =
     bind_run (FindFreePages env free MAX_ADDRESS NumberOfPages PoolType Alignment s) (\<lambda>(S, s1).
       if S = 0 then ret (S, s1)
       else bind_run (CoreConvertPages env free S NumberOfPages PoolType s1) (\<lambda>(Status, s2). ret (S, s2)))"

definition CoreFreePoolPages ::
  "'w page_env \<Rightarrow> ('w page_state \<Rightarrow> 'w page_state run) \<Rightarrow> u64 \<Rightarrow> u64 \<Rightarrow> 'w page_state \<Rightarrow> 'w page_state run" where
  "CoreFreePoolPages env free Memory NumberOfPages s =
     bind_run (CoreConvertPages env free Memory NumberOfPages EfiConventionalMemory s) (\<lambda>(Status, s1). ret s1)"

section \<open>Free descriptors\<close>

text \<open>
  The page that refuels the list gives one descriptor for each \<open>sizeof (MEMORY_MAP)\<close> bytes.  The result tells whether a
  descriptor was taken off the list.
\<close>

definition AllocateMemoryMapEntry ::
  "'w page_env \<Rightarrow> ('w page_state \<Rightarrow> 'w page_state run) \<Rightarrow> 'w page_state \<Rightarrow> (bool \<times> 'w page_state) run" where
  "AllocateMemoryMapEntry env free s =
     bind_run
       (if mFreeMemoryMapEntryList s = 0 then
          bind_run
            (CoreAllocatePoolPages env free EfiBootServicesData (EFI_SIZE_TO_PAGES DEFAULT_PAGE_ALLOCATION)
              DEFAULT_PAGE_ALLOCATION s)
            (\<lambda>(FreeDescriptorEntries, s1).
              if FreeDescriptorEntries \<noteq> NULL then
                ret (True, s1\<lparr>mFreeMemoryMapEntryList :=
                              mFreeMemoryMapEntryList s1 + unat DEFAULT_PAGE_ALLOCATION div sizeof_MEMORY_MAP\<rparr>)
              else ret (False, s1))
        else ret (True, s))
       (\<lambda>(ok, s1). ret (ok, if ok then s1\<lparr>mFreeMemoryMapEntryList := mFreeMemoryMapEntryList s1 - 1\<rparr> else s1))"

text \<open>
  \<open>CoreFreeMemoryMapStack\<close>, \<open>AllocateMemoryMapEntry\<close>, \<open>CoreAllocatePoolPages\<close>, \<open>FindFreePages\<close>,
  \<open>PromoteMemoryResource\<close> and \<open>CoreConvertPages\<close> call one another.  The counter \<open>mFreeMapStack\<close> ends
  that: while it is not 0, a call of \<open>CoreFreeMemoryMapStack\<close> returns at once.  So the calls that \<open>CoreFreeMemoryMapStack\<close>
  makes get a \<open>free\<close> that does just this, and does not return when the counter is 0; \<open>free_map_stack_recursive\<close> below
  proves that the definition satisfies the equation of the code, where they get \<open>CoreFreeMemoryMapStack\<close> itself.
\<close>

definition free_when_busy :: "'w page_state \<Rightarrow> 'w page_state run" where
  "free_when_busy s = assert_if True (gMemoryLock s) (if mFreeMapStack s \<noteq> 0 then ret s else None)"

definition free_stack_with ::
  "('w page_state \<Rightarrow> (bool \<times> 'w page_state) run) \<Rightarrow> 'w page_state \<Rightarrow> 'w page_state run" where
  "free_stack_with alloc s =
     assert_if True (gMemoryLock s)
       (if mFreeMapStack s \<noteq> 0 then ret s
        else bind_run (free_stack_loop alloc (s\<lparr>mFreeMapStack := mFreeMapStack s + 1\<rparr>))
          (\<lambda>s1. ret (s1\<lparr>mFreeMapStack := mFreeMapStack s1 - 1\<rparr>)))"

definition CoreFreeMemoryMapStack :: "'w page_env \<Rightarrow> 'w page_state \<Rightarrow> 'w page_state run" where
  "CoreFreeMemoryMapStack env = free_stack_with (AllocateMemoryMapEntry env free_when_busy)"

section \<open>The page services\<close>

definition CoreUpdateMemoryAttributes ::
  "'w page_env \<Rightarrow> u64 \<Rightarrow> u64 \<Rightarrow> u64 \<Rightarrow> 'w page_state \<Rightarrow> 'w page_state run" where
  "CoreUpdateMemoryAttributes env S NumberOfPages NewAttributes s =
     bind_run (CoreAcquireMemoryLock s) (\<lambda>s1.
     bind_run (CoreConvertPagesEx env (CoreFreeMemoryMapStack env) S NumberOfPages False 0 True NewAttributes s1)
       (\<lambda>(Status, s2). CoreReleaseMemoryLock s2))"

definition page_alignment :: "u32 \<Rightarrow> u64" where
  "page_alignment T =
     (if T = EfiACPIReclaimMemory \<or> T = EfiACPIMemoryNVS \<or> T = EfiRuntimeServicesCode \<or> T = EfiRuntimeServicesData
      then EFI_ACPI_RUNTIME_PAGE_ALLOCATION_ALIGNMENT else EFI_DEFAULT_PAGE_ALLOCATION_ALIGNMENT)"

definition round_pages :: "u64 \<Rightarrow> u64 \<Rightarrow> u64" where
  "round_pages Alignment n = (n + (EFI_SIZE_TO_PAGES Alignment - 1)) AND NOT (EFI_SIZE_TO_PAGES Alignment - 1)"

text \<open>\<open>Memory\<close> is None for a NULL pointer, and else the address it points to.\<close>

definition CoreInternalAllocatePages ::
  "'w page_env \<Rightarrow> u32 \<Rightarrow> u32 \<Rightarrow> u64 \<Rightarrow> u64 option \<Rightarrow> 'w page_state \<Rightarrow>
     (efi_status \<times> u64 option \<times> 'w page_state) run" where
  "CoreInternalAllocatePages env AllocateType MemoryType NumberOfPages Memory s =
     (if AllocateType \<ge> MaxAllocateType then ret (EFI_INVALID_PARAMETER, Memory, s)
      else if (MemoryType \<ge> EfiMaxMemoryType \<and> MemoryType < MEMORY_TYPE_OEM_RESERVED_MIN) \<or>
              MemoryType = EfiConventionalMemory \<or> MemoryType = EfiPersistentMemory
      then ret (EFI_INVALID_PARAMETER, Memory, s)
      else (case Memory of None \<Rightarrow> ret (EFI_INVALID_PARAMETER, Memory, s) | Some m \<Rightarrow>
        let Alignment = page_alignment MemoryType in
        if AllocateType = AllocateAddress \<and> m AND (Alignment - 1) \<noteq> 0 then ret (EFI_NOT_FOUND, Memory, s)
        else
          let n = round_pages Alignment NumberOfPages;
              MaxAddress = (if AllocateType = AllocateMaxAddress then m else MAX_ADDRESS)
          in bind_run (CoreAcquireMemoryLock s) (\<lambda>s1.
             bind_run
               (if AllocateType \<noteq> AllocateAddress
                then FindFreePages env (CoreFreeMemoryMapStack env) MaxAddress n MemoryType Alignment s1
                else ret (m, s1)) (\<lambda>(S, s2).
             bind_run
               (if AllocateType \<noteq> AllocateAddress \<and> S = 0 then ret (EFI_OUT_OF_RESOURCES, s2)
                else CoreConvertPages env (CoreFreeMemoryMapStack env) S n MemoryType s2) (\<lambda>(Status, s3).
             bind_run (CoreReleaseMemoryLock s3) (\<lambda>s4.
               ret (Status, if \<not> EFI_ERROR Status then Some S else Memory, s4)))))))"

definition update_profile :: "'w page_env \<Rightarrow> string \<Rightarrow> u32 \<Rightarrow> u64 \<Rightarrow> u64 \<Rightarrow> 'w page_state \<Rightarrow> 'w page_state" where
  "update_profile env Action T Size Buffer s = s\<lparr>pworld := CoreUpdateProfile env Action T Size Buffer (pworld s)\<rparr>"

definition CoreAllocatePages ::
  "'w page_env \<Rightarrow> u32 \<Rightarrow> u32 \<Rightarrow> u64 \<Rightarrow> u64 option \<Rightarrow> 'w page_state \<Rightarrow>
     (efi_status \<times> u64 option \<times> 'w page_state) run" where
  "CoreAllocatePages env AllocateType MemoryType NumberOfPages Memory s =
     bind_run (CoreInternalAllocatePages env AllocateType MemoryType NumberOfPages Memory s) (\<lambda>(Status, Memory', s1).
       ret (Status, Memory',
         if \<not> EFI_ERROR Status
         then update_profile env ''MemoryProfileActionAllocatePages'' MemoryType (EFI_PAGES_TO_SIZE NumberOfPages)
                (case Memory' of None \<Rightarrow> NULL | Some m \<Rightarrow> m) s1
         else s1))"

definition CoreInternalFreePages ::
  "'w page_env \<Rightarrow> u64 \<Rightarrow> u64 \<Rightarrow> 'w page_state \<Rightarrow> (efi_status \<times> 'w page_state) run" where
  "CoreInternalFreePages env Memory NumberOfPages s =
     bind_run (CoreAcquireMemoryLock s) (\<lambda>s1.
     bind_run
       (case find_covering Memory (gMemoryMap s1) of
         None \<Rightarrow> ret (EFI_NOT_FOUND, s1)
       | Some (ps, Entry, qs) \<Rightarrow>
           let Alignment = page_alignment (Type Entry) in
           if Memory AND (Alignment - 1) \<noteq> 0 then ret (EFI_INVALID_PARAMETER, s1)
           else CoreConvertPages env (CoreFreeMemoryMapStack env) Memory (round_pages Alignment NumberOfPages)
                  EfiConventionalMemory s1) (\<lambda>(Status, s2).
     bind_run (CoreReleaseMemoryLock s2) (\<lambda>s3. ret (Status, s3))))"

definition CoreFreePages :: "'w page_env \<Rightarrow> u64 \<Rightarrow> u64 \<Rightarrow> 'w page_state \<Rightarrow> (efi_status \<times> 'w page_state) run" where
  "CoreFreePages env Memory NumberOfPages s =
     bind_run (CoreInternalFreePages env Memory NumberOfPages s) (\<lambda>(Status, s1).
       ret (Status,
         if \<not> EFI_ERROR Status
         then update_profile env ''MemoryProfileActionFreePages'' 0 (EFI_PAGES_TO_SIZE NumberOfPages) Memory s1
         else s1))"

section \<open>Adding memory\<close>

text \<open>\<open>EFI_PAGES_TO_SIZE\<close> of a \<open>UINT32\<close> shifts in 32 bits.\<close>

definition CoreLoadingFixedAddressHook :: "'w page_env \<Rightarrow> 'w page_state \<Rightarrow> 'w page_state run" where
  "CoreLoadingFixedAddressHook env s =
     (if gLoadFixedAddressCodeMemoryReady s then ret s
      else
        let RuntimeCodePageNumber = PcdLoadFixAddressRuntimeCodePageNumber env;
            BootTimeCodePageNumber = PcdLoadFixAddressBootTimeCodePageNumber env;
            RuntimeCodeBase = DxeCodeTopAddress env - ucast (push_bit EFI_PAGE_SHIFT RuntimeCodePageNumber :: u32);
            BootTimeCodeBase = RuntimeCodeBase - ucast (push_bit EFI_PAGE_SHIFT BootTimeCodePageNumber :: u32)
        in bind_run (CoreAllocatePages env AllocateAddress EfiRuntimeServicesCode (ucast RuntimeCodePageNumber)
             (Some RuntimeCodeBase) s) (\<lambda>(Status, _, s1).
           if EFI_ERROR Status then ret s1
           else bind_run (CoreAllocatePages env AllocateAddress EfiBootServicesCode (ucast BootTimeCodePageNumber)
             (Some BootTimeCodeBase) s1) (\<lambda>(Status1, _, s2).
             if EFI_ERROR Status1 then
               bind_run (CoreFreePages env RuntimeCodeBase (ucast RuntimeCodePageNumber) s2) (\<lambda>(_, s3). ret s3)
             else ret (s2\<lparr>gLoadFixedAddressCodeMemoryReady := True\<rparr>))))"

text \<open>
  The loops over \<open>gMemoryTypeInformation\<close>, from entry \<open>i\<close> on, end at the entry of type \<open>EfiMaxMemoryType\<close>; \<open>n\<close> entries of the
  table are left.
\<close>

primrec over_types ::
  "nat \<Rightarrow> nat \<Rightarrow> (nat \<Rightarrow> u32 \<Rightarrow> 'w page_state \<Rightarrow> (bool \<times> 'w page_state) run) \<Rightarrow> 'w page_state \<Rightarrow> (bool \<times> 'w page_state) run" where
  "over_types 0 i body s = Some (Inl OutOfBounds)"
| "over_types (Suc n) i body s =
     (let T = info_Type (gMemoryTypeInformation s ! i) in
      if T = EfiMaxMemoryType then ret (True, s)
      else if T > EfiMaxMemoryType then over_types n (Suc i) body s
      else bind_run (body i T s) (\<lambda>(continue, s1). if continue then over_types n (Suc i) body s1 else ret (False, s1)))"

definition set_bin :: "u32 \<Rightarrow> u64 \<Rightarrow> u64 \<Rightarrow> 'w page_state \<Rightarrow> 'w page_state" where
  "set_bin T b m s =
     s\<lparr>mMemoryTypeStatistics :=
         (mMemoryTypeStatistics s)[unat T :=
           (mMemoryTypeStatistics s ! unat T)\<lparr>stat_BaseAddress := b, stat_MaximumAddress := m\<rparr>]\<rparr>"

text \<open>A failed bin: the pages of the bins before it are freed.\<close>

definition free_bin :: "'w page_env \<Rightarrow> nat \<Rightarrow> nat \<Rightarrow> u32 \<Rightarrow> 'w page_state \<Rightarrow> (bool \<times> 'w page_state) run" where
  "free_bin env Index FreeIndex T s =
     (if FreeIndex \<ge> Index then ret (False, s)
      else
        let n = ucast (info_NumberOfPages (gMemoryTypeInformation s ! FreeIndex)) in
        if n \<noteq> 0 then
          bind_run (CoreFreePages env (stat_BaseAddress (mMemoryTypeStatistics s ! unat T)) n s) (\<lambda>(_, s1).
            ret (True, set_bin T 0 MAX_ADDRESS s1))
        else ret (True, s))"

text \<open>The body of the loop that allocates the bins; False: it failed, and the code returns.\<close>

definition allocate_bin :: "'w page_env \<Rightarrow> nat \<Rightarrow> u32 \<Rightarrow> 'w page_state \<Rightarrow> (bool \<times> 'w page_state) run" where
  "allocate_bin env Index T s =
     (let n = ucast (info_NumberOfPages (gMemoryTypeInformation s ! Index)) in
      if n = 0 then ret (True, s)
      else
        bind_run (CoreAllocatePages env AllocateAnyPages T n (Some (stat_BaseAddress (mMemoryTypeStatistics s ! unat T))) s)
          (\<lambda>(Status, Memory, s1).
            if EFI_ERROR Status then
              bind_run (over_types (length (gMemoryTypeInformation s1)) 0 (free_bin env Index) s1) (\<lambda>(_, s2). ret (False, s2))
            else
              let b = (case Memory of None \<Rightarrow> 0 | Some m \<Rightarrow> m);
                  k = ucast (info_NumberOfPages (gMemoryTypeInformation s1 ! Index));
                  s2 = set_bin T b (b + push_bit EFI_PAGE_SHIFT k - 1) s1
              in ret (True, if b < mDefaultMaximumAddress s2 then s2\<lparr>mDefaultMaximumAddress := b - 1\<rparr> else s2)))"

definition release_bin :: "'w page_env \<Rightarrow> nat \<Rightarrow> u32 \<Rightarrow> 'w page_state \<Rightarrow> (bool \<times> 'w page_state) run" where
  "release_bin env Index T s =
     (let n = ucast (info_NumberOfPages (gMemoryTypeInformation s ! Index)) in
      if n = 0 then ret (True, s)
      else bind_run (CoreFreePages env (stat_BaseAddress (mMemoryTypeStatistics s ! unat T)) n s) (\<lambda>(_, s1).
        let i = gMemoryTypeInformation s1 ! Index in
        ret (True,
          s1\<lparr>mMemoryTypeStatistics :=
               (mMemoryTypeStatistics s1)[unat T :=
                 (mMemoryTypeStatistics s1 ! unat T)\<lparr>stat_NumberOfPages := ucast (info_NumberOfPages i)\<rparr>],
             gMemoryTypeInformation := (gMemoryTypeInformation s1)[Index := i\<lparr>info_NumberOfPages := 0\<rparr>]\<rparr>)))"

text \<open>The inner loop of the last step: the last entry of the table that names the type.\<close>

primrec information_index :: "u32 \<Rightarrow> EFI_MEMORY_TYPE_INFORMATION list \<Rightarrow> nat \<Rightarrow> nat \<Rightarrow> nat" where
  "information_index T [] i found = found"
| "information_index T (x # xs) i found =
     (if info_Type x = EfiMaxMemoryType then found
      else information_index T xs (Suc i) (if T = info_Type x then i else found))"

definition finish_bin :: "u32 \<Rightarrow> 'w page_state \<Rightarrow> 'w page_state" where
  "finish_bin T s =
     (let st = mMemoryTypeStatistics s ! unat T in
      s\<lparr>mMemoryTypeStatistics :=
          (mMemoryTypeStatistics s)[unat T :=
            st\<lparr>InformationIndex := information_index T (gMemoryTypeInformation s) 0 (InformationIndex st),
               CurrentNumberOfPages := 0,
               stat_MaximumAddress :=
                 (if stat_MaximumAddress st = MAX_ADDRESS then mDefaultMaximumAddress s else stat_MaximumAddress st)\<rparr>]\<rparr>)"

definition CoreAddMemoryDescriptor ::
  "'w page_env \<Rightarrow> u32 \<Rightarrow> u64 \<Rightarrow> u64 \<Rightarrow> u64 \<Rightarrow> 'w page_state \<Rightarrow> 'w page_state run" where
  "CoreAddMemoryDescriptor env T S NumberOfPages A s =
     (if S AND EFI_PAGE_MASK \<noteq> 0 then ret s
      else if T \<ge> EfiMaxMemoryType \<and> T < MEMORY_TYPE_OEM_RESERVED_MIN then ret s
      else
        bind_run (CoreAcquireMemoryLock s) (\<lambda>s1.
        bind_run (CoreAddRange env T S (S + push_bit EFI_PAGE_SHIFT NumberOfPages - 1) A s1) (\<lambda>s2.
        bind_run (CoreFreeMemoryMapStack env s2) (\<lambda>s3.
        bind_run (CoreReleaseMemoryLock s3) (\<lambda>s4.
        bind_run (if PcdLoadModuleAtFixAddressEnable env \<noteq> 0 then CoreLoadingFixedAddressHook env s4 else ret s4) (\<lambda>s5.
          if mMemoryTypeInformationInitialized s5 then ret s5
          else
            bind_run (over_types (length (gMemoryTypeInformation s5)) 0 (allocate_bin env) s5) (\<lambda>(ok, s6).
              if \<not> ok then ret s6
              else
                bind_run (over_types (length (gMemoryTypeInformation s6)) 0 (release_bin env) s6) (\<lambda>(_, s7).
                  ret ((fold finish_bin (map word_of_nat [0..<15]) s7)\<lparr>mMemoryTypeInformationInitialized := True\<rparr>)))))))))"

section \<open>The memory map for the caller\<close>

abbreviation EFI_MEMORY_UCE :: u64 where "EFI_MEMORY_UCE \<equiv> 0x10"
abbreviation EFI_MEMORY_RP :: u64 where "EFI_MEMORY_RP \<equiv> 0x2000"
abbreviation EFI_MEMORY_XP :: u64 where "EFI_MEMORY_XP \<equiv> 0x4000"
abbreviation EFI_MEMORY_RO :: u64 where "EFI_MEMORY_RO \<equiv> 0x20000"
abbreviation EFI_MEMORY_NV :: u64 where "EFI_MEMORY_NV \<equiv> 0x8000"
abbreviation sizeof_EFI_MEMORY_DESCRIPTOR :: u64 where "sizeof_EFI_MEMORY_DESCRIPTOR \<equiv> 40"
abbreviation EFI_MEMORY_DESCRIPTOR_VERSION :: u32 where "EFI_MEMORY_DESCRIPTOR_VERSION \<equiv> 1"

record EFI_MEMORY_DESCRIPTOR =
  desc_Type :: u32
  PhysicalStart :: u64
  VirtualStart :: u64
  NumberOfPages :: u64
  desc_Attribute :: u64

text \<open>
  The new descriptor is merged into the first one it adjoins, or stays as the last of the array.
\<close>

primrec MergeMemoryMapDescriptor :: "EFI_MEMORY_DESCRIPTOR list \<Rightarrow> EFI_MEMORY_DESCRIPTOR \<Rightarrow> EFI_MEMORY_DESCRIPTOR list" where
  "MergeMemoryMapDescriptor [] d = [d]"
| "MergeMemoryMapDescriptor (m # ms) d =
     (if desc_Type m \<noteq> desc_Type d then m # MergeMemoryMapDescriptor ms d
      else if desc_Attribute m \<noteq> desc_Attribute d then m # MergeMemoryMapDescriptor ms d
      else if PhysicalStart m + EFI_PAGES_TO_SIZE (NumberOfPages m) = PhysicalStart d
      then m\<lparr>NumberOfPages := NumberOfPages m + NumberOfPages d\<rparr> # ms
      else if PhysicalStart m - EFI_PAGES_TO_SIZE (NumberOfPages d) = PhysicalStart d
      then m\<lparr>PhysicalStart := PhysicalStart d, VirtualStart := VirtualStart d,
             NumberOfPages := NumberOfPages m + NumberOfPages d\<rparr> # ms
      else m # MergeMemoryMapDescriptor ms d)"

text \<open>A descriptor is written behind those of the array, in a buffer with room for \<open>cap\<close> of them, and merged.\<close>

definition put_descriptor ::
  "nat \<Rightarrow> EFI_MEMORY_DESCRIPTOR \<Rightarrow> EFI_MEMORY_DESCRIPTOR list \<Rightarrow> EFI_MEMORY_DESCRIPTOR list run" where
  "put_descriptor cap d ds =
     (if length ds < cap then ret (MergeMemoryMapDescriptor ds d) else Some (Inl OutOfBounds))"

definition descriptor_size :: u64 where
  "descriptor_size = sizeof_EFI_MEMORY_DESCRIPTOR + (8 - sizeof_EFI_MEMORY_DESCRIPTOR mod 8)"

definition counted_entry :: "EFI_GCD_MAP_ENTRY \<Rightarrow> bool" where
  "counted_entry g \<longleftrightarrow>
     GcdMemoryType g = EfiGcdMemoryTypePersistentMemory \<or> GcdMemoryType g = EfiGcdMemoryTypeReserved \<or>
     (GcdMemoryType g = EfiGcdMemoryTypeMemoryMappedIo \<and> Attributes g AND EFI_MEMORY_RUNTIME = EFI_MEMORY_RUNTIME)"

text \<open>The type of the bin that a descriptor of free memory lies in: the last such type.\<close>

definition bin_type :: "EFI_MEMORY_TYPE_STATISTICS list \<Rightarrow> MEMORY_MAP \<Rightarrow> u32" where
  "bin_type stats Entry =
     (if Type Entry = EfiConventionalMemory then
        fold (\<lambda>i t. let st = stats ! i in
               if Special st \<and> stat_NumberOfPages st > 0 \<and> Start Entry \<ge> stat_BaseAddress st \<and>
                  End Entry \<le> stat_MaximumAddress st then word_of_nat i else t)
          [0..<15] (Type Entry)
      else Type Entry)"

definition map_descriptor :: "EFI_MEMORY_TYPE_STATISTICS list \<Rightarrow> MEMORY_MAP \<Rightarrow> EFI_MEMORY_DESCRIPTOR" where
  "map_descriptor stats Entry =
     (let T = bin_type stats Entry in
      \<lparr>desc_Type = T, PhysicalStart = Start Entry, VirtualStart = 0,
       NumberOfPages = drop_bit EFI_PAGE_SHIFT (End Entry - Start Entry + 1),
       desc_Attribute =
         (if T < EfiMaxMemoryType \<and> Runtime (stats ! unat T) then Attribute Entry OR EFI_MEMORY_RUNTIME
          else Attribute Entry)\<rparr>)"

primrec put_entries ::
  "nat \<Rightarrow> EFI_MEMORY_TYPE_STATISTICS list \<Rightarrow> MEMORY_MAP list \<Rightarrow> EFI_MEMORY_DESCRIPTOR list \<Rightarrow>
     EFI_MEMORY_DESCRIPTOR list run" where
  "put_entries cap stats [] ds = ret ds"
| "put_entries cap stats (Entry # es) ds =
     bind_run (put_descriptor cap (map_descriptor stats Entry) ds) (put_entries cap stats es)"

text \<open>What is written for a merged entry of the map of the memory space, if it is of a kind that is written.\<close>

definition gcd_descriptor :: "u32 \<Rightarrow> u64 \<Rightarrow> EFI_GCD_MAP_ENTRY \<Rightarrow> EFI_MEMORY_DESCRIPTOR" where
  "gcd_descriptor T A g =
     \<lparr>desc_Type = T, PhysicalStart = BaseAddress g, VirtualStart = 0,
      NumberOfPages = drop_bit EFI_PAGE_SHIFT (EndAddress g - BaseAddress g + 1),
      desc_Attribute =
        A OR (Capabilities g AND
          (EFI_MEMORY_RP OR EFI_MEMORY_WP OR EFI_MEMORY_XP OR EFI_MEMORY_RO OR EFI_MEMORY_UC OR EFI_MEMORY_UCE OR
           EFI_MEMORY_WC OR EFI_MEMORY_WT OR EFI_MEMORY_WB))\<rparr>"

definition put_gcd_entry ::
  "nat \<Rightarrow> EFI_GCD_MAP_ENTRY \<Rightarrow> EFI_MEMORY_DESCRIPTOR list \<Rightarrow> EFI_MEMORY_DESCRIPTOR list run" where
  "put_gcd_entry cap g ds =
     bind_run
       (if GcdMemoryType g = EfiGcdMemoryTypeReserved \<or>
           (GcdMemoryType g = EfiGcdMemoryTypeMemoryMappedIo \<and> Attributes g AND EFI_MEMORY_RUNTIME = EFI_MEMORY_RUNTIME)
        then
          assert_if True (BaseAddress g AND EFI_PAGE_MASK = 0)
            (assert_if True ((EndAddress g - BaseAddress g + 1) AND EFI_PAGE_MASK = 0)
              (put_descriptor cap
                (gcd_descriptor
                  (if GcdMemoryType g = EfiGcdMemoryTypeReserved then EfiReservedMemoryType
                   else if Attributes g AND EFI_MEMORY_PORT_IO = EFI_MEMORY_PORT_IO then EfiMemoryMappedIOPortSpace
                   else EfiMemoryMappedIO)
                  (Attributes g AND NOT EFI_MEMORY_PORT_IO) g) ds))
        else ret ds)
       (\<lambda>ds1.
         if GcdMemoryType g = EfiGcdMemoryTypePersistentMemory then
           assert_if True (BaseAddress g AND EFI_PAGE_MASK = 0)
             (assert_if True ((EndAddress g - BaseAddress g + 1) AND EFI_PAGE_MASK = 0)
               (put_descriptor cap (gcd_descriptor EfiPersistentMemory (Attributes g OR EFI_MEMORY_NV) g) ds1))
         else ret ds1)"

definition same_gcd_kind :: "EFI_GCD_MAP_ENTRY \<Rightarrow> EFI_GCD_MAP_ENTRY \<Rightarrow> bool" where
  "same_gcd_kind m g \<longleftrightarrow>
     Capabilities m = Capabilities g \<and> Attributes m = Attributes g \<and> GcdMemoryType m = GcdMemoryType g \<and>
     GcdIoType m = GcdIoType g"

primrec put_gcd_entries ::
  "nat \<Rightarrow> EFI_GCD_MAP_ENTRY \<Rightarrow> gcd_map \<Rightarrow> EFI_MEMORY_DESCRIPTOR list \<Rightarrow> EFI_MEMORY_DESCRIPTOR list run" where
  "put_gcd_entries cap m [] ds = put_gcd_entry cap m ds"
| "put_gcd_entries cap m (g # gs) ds =
     (if same_gcd_kind m g then put_gcd_entries cap (m\<lparr>EndAddress := EndAddress g\<rparr>) gs ds
      else bind_run (put_gcd_entry cap m ds) (put_gcd_entries cap g gs))"

definition zero_gcd_entry :: EFI_GCD_MAP_ENTRY where
  "zero_gcd_entry =
     \<lparr>BaseAddress = 0, EndAddress = 0, Capabilities = 0, Attributes = 0, GcdMemoryType = 0, GcdIoType = 0,
      ImageHandle = NULL, DeviceHandle = NULL\<rparr>"

text \<open>
  The arguments: \<open>*MemoryMapSize\<close> (None for a NULL pointer), which is the size of the buffer \<open>MemoryMap\<close>, and whether
  \<open>MemoryMap\<close> is NULL.  The result: the status; then, when the code gets past its first test, the new \<open>*MemoryMapSize\<close>
  and what is written through \<open>MapKey\<close>, \<open>DescriptorSize\<close> and \<open>DescriptorVersion\<close> if they are not NULL;
  and the descriptors, when the buffer is written.
\<close>

record memory_map_result =
  out_MemoryMapSize :: u64
  out_MapKey :: u64
  out_DescriptorSize :: u64
  out_DescriptorVersion :: u32
  out_MemoryMap :: "EFI_MEMORY_DESCRIPTOR list option"

definition CoreGetMemoryMap ::
  "u64 option \<Rightarrow> bool \<Rightarrow> 'w page_state \<Rightarrow> (efi_status \<times> memory_map_result option \<times> 'w page_state) run" where
  "CoreGetMemoryMap MemoryMapSize MemoryMapIsNull s =
     (case MemoryMapSize of None \<Rightarrow> ret (EFI_INVALID_PARAMETER, None, s) | Some bytes \<Rightarrow>
      bind_run (CoreAcquireGcdMemoryLock s) (\<lambda>s1.
        let NumberOfEntries = word_of_nat (length (filter counted_entry (memory_space s1))) in
        bind_run (CoreAcquireMemoryLock s1) (\<lambda>s2.
          let BufferSize = descriptor_size * NumberOfEntries + word_of_nat (length (gMemoryMap s2)) * descriptor_size in
          bind_run
            (if bytes < BufferSize then ret (EFI_BUFFER_TOO_SMALL, BufferSize, None)
             else if MemoryMapIsNull then ret (EFI_INVALID_PARAMETER, BufferSize, None)
             else
               let cap = unat bytes div unat descriptor_size in
               bind_run (put_entries cap (mMemoryTypeStatistics s2) (gMemoryMap s2) []) (\<lambda>ds.
               bind_run (put_gcd_entries cap zero_gcd_entry (memory_space s2) ds) (\<lambda>ds1.
                 ret (EFI_SUCCESS, word_of_nat (length ds1) * descriptor_size, Some ds1))))
            (\<lambda>(Status, bytes', written).
              bind_run (CoreReleaseMemoryLock s2) (\<lambda>s3.
              bind_run (CoreReleaseGcdMemoryLock s3) (\<lambda>s4.
                ret (Status,
                  Some \<lparr>out_MemoryMapSize = bytes', out_MapKey = mMemoryMapKey s2, out_DescriptorSize = descriptor_size,
                        out_DescriptorVersion = EFI_MEMORY_DESCRIPTOR_VERSION, out_MemoryMap = written\<rparr>, s4)))))))"

section \<open>The last check\<close>

text \<open>The loop of \<open>CoreTerminateMemoryMap\<close>.\<close>

primrec terminate_loop :: "EFI_MEMORY_TYPE_STATISTICS list \<Rightarrow> MEMORY_MAP list \<Rightarrow> efi_status run" where
  "terminate_loop stats [] = ret EFI_SUCCESS"
| "terminate_loop stats (Entry # es) =
     (if Type Entry < EfiMaxMemoryType \<and> Runtime (stats ! unat (Type Entry)) then
        assert_if True (Type Entry \<noteq> EfiACPIReclaimMemory) (assert_if True (Type Entry \<noteq> EfiACPIMemoryNVS)
          (if Start Entry AND (EFI_ACPI_RUNTIME_PAGE_ALLOCATION_ALIGNMENT - 1) \<noteq> 0 then ret EFI_INVALID_PARAMETER
           else if (End Entry + 1) AND (EFI_ACPI_RUNTIME_PAGE_ALLOCATION_ALIGNMENT - 1) \<noteq> 0 then ret EFI_INVALID_PARAMETER
           else terminate_loop stats es))
      else terminate_loop stats es)"

definition CoreTerminateMemoryMap :: "u64 \<Rightarrow> 'w page_state \<Rightarrow> (efi_status \<times> 'w page_state) run" where
  "CoreTerminateMemoryMap MapKey s =
     bind_run (CoreAcquireMemoryLock s) (\<lambda>s1.
     bind_run
       (if MapKey = mMemoryMapKey s1 then terminate_loop (mMemoryTypeStatistics s1) (gMemoryMap s1)
        else ret EFI_INVALID_PARAMETER) (\<lambda>Status.
     bind_run (CoreReleaseMemoryLock s1) (\<lambda>s2. ret (Status, s2))))"

end
