(* ===== verification/PageMap.thy ===== *)
theory PageMap
  imports Pages "HOL-Library.Multiset"
begin

text \<open>
  What the operations of the page allocator do to the memory: for each address, the kinds (type and attributes) of
  the descriptors that cover it.  The order of the map, the merging of descriptors and their place on the
  stack or in pages do not show there.  The invariant says that at most one descriptor or one entry of
  untested memory covers an address, that descriptors are whole pages, and that the slots of the stack are used once.
\<close>

section \<open>Ranges of pages\<close>

definition range_ok :: "u64 \<Rightarrow> u64 \<Rightarrow> bool" where
  "range_ok S E \<longleftrightarrow> unat S mod 4096 = 0 \<and> (unat E + 1) mod 4096 = 0 \<and> S < E \<and> E < MAX_ADDRESS"

definition covers :: "u64 \<Rightarrow> MEMORY_MAP \<Rightarrow> bool" where
  "covers a e \<longleftrightarrow> Start e \<le> a \<and> a \<le> End e"

definition entry_ok :: "MEMORY_MAP \<Rightarrow> bool" where
  "entry_ok e \<longleftrightarrow> range_ok (Start e) (End e)"

definition kind :: "MEMORY_MAP \<Rightarrow> u32 \<times> u64" where
  "kind e = (Type e, Attribute e)"

text \<open>The kinds of the descriptors that cover an address.\<close>

definition owners :: "u64 \<Rightarrow> MEMORY_MAP list \<Rightarrow> (u32 \<times> u64) multiset" where
  "owners a es = mset (map kind (filter (covers a) es))"

definition owner_in :: "u64 \<Rightarrow> u64 \<Rightarrow> u32 \<times> u64 \<Rightarrow> u64 \<Rightarrow> (u32 \<times> u64) multiset" where
  "owner_in S E k a = (if S \<le> a \<and> a \<le> E then {#k#} else {#})"

lemma owners_Nil [simp]: "owners a [] = {#}"
  by (simp add: owners_def)

lemma owners_Cons [simp]: "owners a (e # es) = owner_in (Start e) (End e) (kind e) a + owners a es"
  by (simp add: owners_def owner_in_def covers_def)

lemma owners_append [simp]: "owners a (es @ fs) = owners a es + owners a fs"
  by (simp add: owners_def)

lemma page_mask: "unat (x AND EFI_PAGE_MASK) = unat x mod 4096"
proof -
  have "(EFI_PAGE_MASK :: u64) = mask 12" by (simp add: mask_eq_exp_minus_1)
  then have "x AND EFI_PAGE_MASK = take_bit 12 x" by (metis take_bit_eq_mask)
  then show ?thesis by (simp add: take_bit_eq_mod unat_mod_distrib)
qed

lemma page_mask_0: "x AND EFI_PAGE_MASK = 0 \<longleftrightarrow> unat x mod 4096 = 0"
  by (metis page_mask unat_eq_zero)

lemma range_ok_less: "range_ok S E \<Longrightarrow> S < E"
  by (simp add: range_ok_def)

lemma unat_Suc_less: "E < (F :: u64) \<Longrightarrow> unat (E + 1) = unat E + 1"
  using unsigned_less [where 'a = nat, of F] by (simp add: unat_word_ariths word_less_nat_alt)

lemma range_ok_Suc: "range_ok S E \<Longrightarrow> unat (E + 1) = unat E + 1"
  by (rule unat_Suc_less [of _ MAX_ADDRESS]) (simp add: range_ok_def)

lemma range_ok_join:
  assumes "range_ok S E" "range_ok S' E'" "E + 1 = S'"
  shows "range_ok S E'" and "owner_in S E' k a = owner_in S E k a + owner_in S' E' k a"
proof -
  have *: "unat S' = unat E + 1" using range_ok_Suc [OF assms(1)] assms(3) by simp
  show "range_ok S E'" using assms(1,2) * unfolding range_ok_def word_less_nat_alt by simp
  show "owner_in S E' k a = owner_in S E k a + owner_in S' E' k a"
    using assms(1,2) * unfolding range_ok_def owner_in_def word_le_nat_alt word_less_nat_alt by auto
qed

text \<open>Joining ranges changes no owner of an address.\<close>

lemma join_range_owners:
  assumes "join_range T A es S E = (es', S', E', n)" "\<forall>e\<in>set es. entry_ok e" "range_ok S E"
  shows "range_ok S' E' \<and> (\<forall>a. owners a es' + owner_in S' E' (T, A) a = owners a es + owner_in S E (T, A) a) \<and>
    set es' \<subseteq> set es"
  using assms
proof (induction T A es S E arbitrary: es' n rule: join_range.induct)
  case (2 T A Entry es S E)
  have oks: "entry_ok Entry" "\<forall>e\<in>set es. entry_ok e" using "2.prems"(2) by auto
  consider (no) es1 n1 where "join_range T A es S E = (es1, S', E', n1)" "es' = Entry # es1"
      "Type Entry \<noteq> T \<or> Attribute Entry \<noteq> A \<or> (End Entry + 1 \<noteq> S \<and> Start Entry \<noteq> E + 1)"
    | (low) n1 where "join_range T A es (Start Entry) E = (es', S', E', n1)" "kind Entry = (T, A)" "End Entry + 1 = S"
        "\<not> (Type Entry \<noteq> T \<or> Attribute Entry \<noteq> A)"
    | (high) n1 where "join_range T A es S (End Entry) = (es', S', E', n1)" "kind Entry = (T, A)" "E + 1 = Start Entry"
        "\<not> (Type Entry \<noteq> T \<or> Attribute Entry \<noteq> A)" "End Entry + 1 \<noteq> S"
    using "2.prems"(1) by (auto simp: kind_def split: if_splits prod.splits)
  then show ?case
  proof cases
    case no
    have "range_ok S' E' \<and> (\<forall>a. owners a es1 + owner_in S' E' (T, A) a = owners a es + owner_in S E (T, A) a) \<and>
      set es1 \<subseteq> set es"
      using no(3) "2.IH"(1) [OF _ no(1) oks(2) "2.prems"(3)] "2.IH"(4) [OF _ _ _ no(1) oks(2) "2.prems"(3)] by blast
    with no(2) show ?thesis by (auto simp: ac_simps)
  next
    case low
    note j = range_ok_join [of "Start Entry" "End Entry" S E, OF _ "2.prems"(3) low(3)]
    have "range_ok (Start Entry) E" using j(1) oks(1) by (simp add: entry_ok_def)
    with "2.IH"(2) [OF low(4,3,1) oks(2)] j(2) oks(1) low(2) show ?thesis by (auto simp: entry_ok_def ac_simps)
  next
    case high
    note j = range_ok_join [of S E "Start Entry" "End Entry", OF "2.prems"(3) _ high(3)]
    have "range_ok S (End Entry)" using j(1) oks(1) by (simp add: entry_ok_def)
    with "2.IH"(3) [OF high(4,5) high(3)[symmetric] high(1) oks(2)] j(2) oks(1) high(2) show ?thesis
      by (auto simp: entry_ok_def ac_simps)
  qed
qed auto

text \<open>The slots of the stack that are linked into the map.\<close>

definition slots :: "MEMORY_MAP list \<Rightarrow> nat list" where
  "slots es = List.map_filter Slot es"

lemma slots_simps [simp]:
  "slots [] = []"
  "slots (e # es) = (case Slot e of None \<Rightarrow> slots es | Some d \<Rightarrow> d # slots es)"
  "slots (es @ fs) = slots es @ slots fs"
  by (auto simp: slots_def List.map_filter_def split: option.split)

definition slots_ok :: "nat \<Rightarrow> MEMORY_MAP list \<Rightarrow> bool" where
  "slots_ok d es \<longleftrightarrow> distinct (slots es) \<and> (\<forall>i\<in>set (slots es). i < d)"

lemma join_range_slots:
  "join_range T A es S E = (es', S', E', n) \<Longrightarrow> slots_ok d es \<Longrightarrow> slots_ok d es' \<and> set (slots es') \<subseteq> set (slots es)"
  unfolding slots_ok_def
  by (induction T A es S E arbitrary: es' n rule: join_range.induct) (auto split: if_splits prod.splits option.splits)

section \<open>The invariant\<close>

definition untested :: "u64 \<Rightarrow> gcd_map \<Rightarrow> nat" where
  "untested a space = length (filter (\<lambda>g. promotable g \<and> BaseAddress g \<le> a \<and> a \<le> EndAddress g) space)"

text \<open>The tables have an entry for each memory type, and name entries of one another.\<close>

definition tables_ok :: "'w page_state \<Rightarrow> bool" where
  "tables_ok s \<longleftrightarrow>
     length (mMemoryTypeStatistics s) = 16 \<and> length (gMemoryTypeInformation s) = 16 \<and>
     info_Type (gMemoryTypeInformation s ! 15) = EfiMaxMemoryType \<and>
     (\<forall>i<16. InformationIndex (mMemoryTypeStatistics s ! i) < 16)"

abbreviation owner :: "'w page_state \<Rightarrow> u64 \<Rightarrow> (u32 \<times> u64) multiset" where
  "owner s a \<equiv> owners a (gMemoryMap s)"

definition page_inv :: "'w page_state \<Rightarrow> bool" where
  "page_inv s \<longleftrightarrow>
     (\<forall>e\<in>set (gMemoryMap s). entry_ok e) \<and>
     slots_ok (mMapDepth s) (gMemoryMap s) \<and> mMapDepth s < MAX_MAP_DEPTH \<and>
     (\<forall>g\<in>set (memory_space s). promotable g \<longrightarrow> range_ok (BaseAddress g) (EndAddress g)) \<and>
     (\<forall>a. size (owner s a) + untested a (memory_space s) \<le> 1) \<and>
     tables_ok s"

definition unclaimed :: "'w page_state \<Rightarrow> u64 \<Rightarrow> bool" where
  "unclaimed s a \<longleftrightarrow> owner s a = {#} \<and> untested a (memory_space s) = 0"

text \<open>What only the services and \<open>CoreFreeMemoryMapStack\<close> change.\<close>

definition same_context :: "'w page_state \<Rightarrow> 'w page_state \<Rightarrow> bool" where
  "same_context s s' \<longleftrightarrow>
     mFreeMapStack s' = mFreeMapStack s \<and> gMemoryLock s' = gMemoryLock s \<and>
     mGcdMemorySpaceLock s' = mGcdMemorySpaceLock s \<and> length (memory_space s') = length (memory_space s) \<and>
     mMemoryTypeInformationInitialized s' = mMemoryTypeInformationInitialized s"

lemma same_context_refl [simp]: "same_context s s"
  by (simp add: same_context_def)

lemma same_context_trans: "same_context s s1 \<Longrightarrow> same_context s1 s2 \<Longrightarrow> same_context s s2"
  by (simp add: same_context_def)

lemma slots_ok_mono: "slots_ok d es \<Longrightarrow> d \<le> d' \<Longrightarrow> slots_ok d' es"
  by (auto simp: slots_ok_def)

lemma slots_ok_snoc: "slots_ok d es \<Longrightarrow> Slot e = Some d \<Longrightarrow> slots_ok (Suc d) (es @ [e])"
  by (auto simp: slots_ok_def)

text \<open>The descriptors in pages of descriptors: the free ones and those in the map.\<close>

definition stock :: "'w page_state \<Rightarrow> nat" where
  "stock s = mFreeMemoryMapEntryList s + length (filter FromPages (gMemoryMap s))"

lemma join_range_stock:
  "join_range T A es S E = (es', S', E', n) \<Longrightarrow> length (filter FromPages es') + n = length (filter FromPages es)"
  by (induction T A es S E arbitrary: es' n rule: join_range.induct) (auto split: if_splits prod.splits)

text \<open>What \<open>CoreAddRange\<close> does when it returns.\<close>

lemma CoreAddRange_owner:
  assumes inv: "page_inv s" and r: "range_ok S E" and u: "\<And>a. S \<le> a \<Longrightarrow> a \<le> E \<Longrightarrow> unclaimed s a"
  shows "holds {AssertFailed} (CoreAddRange env T S E A s)
    (\<lambda>s'. page_inv s' \<and> (\<forall>a. owner s' a = owner s a + owner_in S E (T, A) a) \<and> memory_space s' = memory_space s \<and>
          same_context s s' \<and> mMapDepth s' = Suc (mMapDepth s) \<and>
          mFreeMemoryMapEntryList s \<le> mFreeMemoryMapEntryList s' \<and> stock s' = stock s)"
proof -
  obtain es S' E' n where j: "join_range T A (gMemoryMap s) S E = (es, S', E', n)" by (metis prod_cases4)
  have ok: "\<forall>e\<in>set (gMemoryMap s). entry_ok e" using inv by (simp add: page_inv_def)
  note jo = join_range_owners [OF j ok r]
  have own: "owners a es + owner_in S' E' (T, A) a = owner s a + owner_in S E (T, A) a" for a using jo by blast
  have oks: "\<forall>e\<in>set es. range_ok (Start e) (End e)" using jo ok by (auto simp: entry_ok_def)
  have "size (owner s a + owner_in S E (T, A) a) + untested a (memory_space s) \<le> 1" for a
    using inv u [of a] unfolding page_inv_def unclaimed_def owner_in_def by (cases "S \<le> a \<and> a \<le> E") auto
  moreover have "slots_ok (Suc (mMapDepth s)) (es @ [\<lparr>Slot = Some (mMapDepth s), Type = T, Start = S', End = E', Attribute = A\<rparr>])"
    by (rule slots_ok_snoc) (use inv join_range_slots [OF j] in \<open>auto simp: page_inv_def\<close>)
  moreover have "kind \<lparr>Slot = Some (mMapDepth s), Type = T, Start = S', End = E', Attribute = A\<rparr> = (T, A)"
    by (simp add: kind_def)
  ultimately show ?thesis
    using inv jo own oks join_range_stock [OF j] unfolding CoreAddRange_def page_inv_def tables_ok_def
    by (auto simp: j entry_ok_def same_context_def stock_def FromPages_def intro!: holds_assert_if)
qed

section \<open>Converting a piece of one descriptor\<close>

lemma find_covering_Some:
  "find_covering a es = Some (ps, e, qs) \<Longrightarrow> es = ps @ e # qs \<and> Start e \<le> a \<and> a < End e"
  by (induction es arbitrary: ps) (auto split: if_splits)

lemma find_covering_None: "find_covering a es = None \<Longrightarrow> e \<in> set es \<Longrightarrow> \<not> (Start e \<le> a \<and> a < End e)"
  by (induction es) (auto split: if_splits)

text \<open>Changes of the statistics and of the world outside.\<close>

definition same_memory :: "'w page_state \<Rightarrow> 'w page_state \<Rightarrow> bool" where
  "same_memory s s' \<longleftrightarrow>
     gMemoryMap s' = gMemoryMap s \<and> memory_space s' = memory_space s \<and> mMapDepth s' = mMapDepth s \<and>
     mFreeMemoryMapEntryList s' = mFreeMemoryMapEntryList s \<and> same_context s s' \<and> (tables_ok s \<longrightarrow> tables_ok s')"

lemma same_memory_refl [simp]: "same_memory s s"
  by (simp add: same_memory_def)

lemma same_memory_trans: "same_memory s s1 \<Longrightarrow> same_memory s1 s2 \<Longrightarrow> same_memory s s2"
  by (auto simp: same_memory_def same_context_def)

lemma same_memory_inv: "same_memory s s' \<Longrightarrow> page_inv s \<Longrightarrow> page_inv s'"
  by (auto simp: same_memory_def page_inv_def)

lemma nth_update_field: "f y = f (xs ! i) \<Longrightarrow> f (xs[i := y] ! j) = f (xs ! j)"
  by (cases "i = j"; cases "i < length xs") (auto simp: list_update_beyond)

lemma set_current_pages_same: "same_memory s (set_current_pages T n s)"
  by (auto simp: same_memory_def same_context_def set_current_pages_def tables_ok_def
    nth_update_field [where f = InformationIndex])

lemma count_old_type_same: "same_memory s (count_old_type T S n s)"
  using set_current_pages_same by (auto simp: count_old_type_def Let_def same_memory_def)

lemma count_new_type_same: "same_memory s (count_new_type T S n s)"
proof -
  have "same_memory s1 (s1\<lparr>gMemoryTypeInformation :=
      (gMemoryTypeInformation s1)[i := (gMemoryTypeInformation s1 ! i)\<lparr>info_NumberOfPages := c\<rparr>]\<rparr>)"
    for s1 :: "'a page_state" and i c
    by (auto simp: same_memory_def same_context_def tables_ok_def nth_update_field [where f = info_Type])
  with same_memory_trans [OF set_current_pages_same]
  have "same_memory s ((set_current_pages T c s)\<lparr>gMemoryTypeInformation := (gMemoryTypeInformation (set_current_pages T c s))
      [i := (gMemoryTypeInformation (set_current_pages T c s) ! i)\<lparr>info_NumberOfPages := d\<rparr>]\<rparr>)" for c i d
    by blast
  with set_current_pages_same [of s] show ?thesis
    by (simp add: count_new_type_def Let_def)
qed

lemma clear_piece_same: "same_memory s (clear_piece env S R s)"
  by (auto simp: clear_piece_def same_memory_def same_context_def tables_ok_def)

text \<open>The state after the cut, an empty rest removed.\<close>

definition pulled :: "MEMORY_MAP list \<Rightarrow> MEMORY_MAP \<Rightarrow> MEMORY_MAP list \<Rightarrow> 'w page_state \<Rightarrow> 'w page_state" where
  "pulled ps e qs s =
     (if Start e = End e + 1 then RemoveMemoryMapEntry ps e qs s else s\<lparr>gMemoryMap := ps @ e # qs\<rparr>)"

lemma dvd_step: "4096 dvd x \<Longrightarrow> 4096 dvd y \<Longrightarrow> x < y \<Longrightarrow> x + 4096 \<le> (y :: nat)"
  by (auto elim!: dvdE)

text \<open>Cutting \<open>[S, R]\<close> out of a range leaves the parts on its two sides.\<close>

lemma range_cut:
  assumes "range_ok S0 E0" "range_ok S R" "S0 \<le> S" "R \<le> E0"
  shows "R + 1 \<noteq> E0 + 1 \<longleftrightarrow> R < E0"
    and "R < E0 \<Longrightarrow> range_ok (R + 1) E0"
    and "S0 < S \<Longrightarrow> range_ok S0 (S - 1)"
    and "R + 1 \<noteq> 0" and "S0 < S \<Longrightarrow> S0 < S - 1"
    and "S0 < S \<Longrightarrow> R < E0 \<Longrightarrow>
      owner_in S0 (S - 1) k a + owner_in (R + 1) E0 k a + owner_in S R k a = owner_in S0 E0 k a"
    and "S0 < S \<Longrightarrow> R = E0 \<Longrightarrow> owner_in S0 (S - 1) k a + owner_in S R k a = owner_in S0 E0 k a"
    and "S0 = S \<Longrightarrow> R < E0 \<Longrightarrow> owner_in (R + 1) E0 k a + owner_in S R k a = owner_in S0 E0 k a"
proof -
  have R: "unat (R + 1) = unat R + 1" by (rule range_ok_Suc [OF assms(2)])
  have S: "S0 < S \<Longrightarrow> unat (S - 1) = unat S - 1"
    by (metis unat_minus_one word_not_simps(1))
  note w = range_ok_def word_less_nat_alt word_le_nat_alt owner_in_def
  have lt: "S0 < S - 1" if "S0 < S"
  proof -
    have "unat S0 + 4096 \<le> unat S" using assms that by (intro dvd_step) (auto simp: w)
    with S [OF that] show ?thesis by (simp add: w)
  qed
  show "R + 1 \<noteq> E0 + 1 \<longleftrightarrow> R < E0" using assms(4) by auto
  show "R < E0 \<Longrightarrow> range_ok (R + 1) E0"
    using assms R dvd_step [of "Suc (unat R)" "Suc (unat E0)"] unfolding w by auto
  show "S0 < S \<Longrightarrow> range_ok S0 (S - 1)" using assms S lt unfolding w by auto
  show "R + 1 \<noteq> 0" using R by auto
  show "S0 < S \<Longrightarrow> S0 < S - 1" by (rule lt)
  show "S0 < S \<Longrightarrow> R < E0 \<Longrightarrow>
      owner_in S0 (S - 1) k a + owner_in (R + 1) E0 k a + owner_in S R k a = owner_in S0 E0 k a"
    using assms R S unfolding w by auto
  show "S0 < S \<Longrightarrow> R = E0 \<Longrightarrow> owner_in S0 (S - 1) k a + owner_in S R k a = owner_in S0 E0 k a"
    using assms S unfolding w by auto
  show "S0 = S \<Longrightarrow> R < E0 \<Longrightarrow> owner_in (R + 1) E0 k a + owner_in S R k a = owner_in S0 E0 k a"
    using assms R unfolding w by auto
qed

text \<open>The map with the descriptor in the middle changed, removed or split.\<close>

lemma page_inv_cut:
  assumes inv: "page_inv s" and m: "gMemoryMap s = ps @ e # qs" and es: "\<forall>x\<in>set fs. entry_ok x"
    and sl: "slots_ok d (gMemoryMap s')" and d: "mMapDepth s' = d" "d < MAX_MAP_DEPTH"
    and m': "mset (gMemoryMap s') = mset ps + mset fs + mset qs"
    and o: "\<And>a. owners a fs + owner_in S R (kind e) a = owner_in (Start e) (End e) (kind e) a"
    and s': "memory_space s' = memory_space s" "tables_ok s'"
  shows "page_inv s' \<and> (\<forall>a. owner s' a + owner_in S R (kind e) a = owner s a)"
proof -
  have "owner s' a = owners a ps + owners a fs + owners a qs" for a
    using m' unfolding owners_def by (metis mset_filter mset_map mset_append filter_append map_append)
  then have eq: "owner s' a + owner_in S R (kind e) a = owner s a" for a
    unfolding m by (simp add: o [symmetric] ac_simps)
  have le: "size (owner s' a) \<le> size (owner s a)" for a
    by (metis eq le_add1 size_union)
  have "size (owner s' a) + untested a (memory_space s') \<le> 1" for a
    using inv le [of a] unfolding page_inv_def s'(1) by (meson add_right_mono order_trans)
  moreover have "set (gMemoryMap s') = set ps \<union> set fs \<union> set qs" using m' by (metis set_mset_mset set_mset_union)
  ultimately show ?thesis
    using inv es sl d s' eq m unfolding page_inv_def by auto
qed

lemma slots_ok_cong: "slots es = slots fs \<Longrightarrow> slots_ok d es = slots_ok d fs"
  by (simp add: slots_ok_def)

lemma pull_range_owner:
  assumes inv: "page_inv s" and m: "gMemoryMap s = ps @ e # qs"
    and r: "Start e \<le> S" "R \<le> End e" "range_ok S R"
  shows "holds {AssertFailed} (pull_range S R ps e qs s) (\<lambda>(ps', c, qs', s2).
    page_inv (pulled ps' c qs' s2) \<and> (\<forall>a. owner (pulled ps' c qs' s2) a + owner_in S R (kind e) a = owner s a) \<and>
    memory_space (pulled ps' c qs' s2) = memory_space s \<and> same_context s (pulled ps' c qs' s2) \<and>
    mMapDepth (pulled ps' c qs' s2) \<le> Suc (mMapDepth s) \<and>
    mFreeMemoryMapEntryList s \<le> mFreeMemoryMapEntryList (pulled ps' c qs' s2) \<and>
    stock (pulled ps' c qs' s2) = stock s \<and> kind c = kind e)"
proof -
  have ok: "range_ok (Start e) (End e)" using inv m by (auto simp: page_inv_def entry_ok_def)
  note cut = range_cut [OF ok r(3,1,2)]
  have sl: "slots_ok (mMapDepth s) (ps @ e # qs)" and dep: "mMapDepth s < MAX_MAP_DEPTH" and tab: "tables_ok s"
    using inv m by (auto simp: page_inv_def)
  note pi = page_inv_cut [OF inv m, where S = S and R = R]
  note sims = pulled_def RemoveMemoryMapEntry_def same_context_def kind_def
  have st: "length (filter FromPages (gMemoryMap s)) = length (filter FromPages ps) + (if FromPages e then 1 else 0) + length (filter FromPages qs)"
    by (simp add: m)
  consider (all) "Start e = S" "R = End e" | (low) "Start e = S" "R < End e" | (high) "Start e < S" "R = End e"
    | (mid) "Start e < S" "R < End e"
    using r by fastforce
  then show ?thesis
  proof cases
    case all
    let ?t = "pulled ps (e\<lparr>Start := R + 1\<rparr>) qs s"
    have "page_inv ?t \<and> (\<forall>a. owner ?t a + owner_in S R (kind e) a = owner s a)"
      by (rule pi [where fs = "[]" and d = "mMapDepth s"])
        (use all sl dep tab in \<open>auto simp: sims tables_ok_def slots_ok_def split: option.splits\<close>)
    with all st show ?thesis by (auto simp: pull_range_def sims stock_def FromPages_def)
  next
    case low
    let ?t = "pulled ps (e\<lparr>Start := R + 1\<rparr>) qs s"
    have "page_inv ?t \<and> (\<forall>a. owner ?t a + owner_in S R (kind e) a = owner s a)"
      by (rule pi [where fs = "[e\<lparr>Start := R + 1\<rparr>]" and d = "mMapDepth s"])
        (use low cut sl dep tab in \<open>auto simp: sims tables_ok_def entry_ok_def slots_ok_def split: option.splits\<close>)
    with low st show ?thesis by (auto simp: pull_range_def sims stock_def FromPages_def)
  next
    case high
    let ?t = "pulled ps (e\<lparr>End := S - 1\<rparr>) qs s"
    have "page_inv ?t \<and> (\<forall>a. owner ?t a + owner_in S R (kind e) a = owner s a)"
      by (rule pi [where fs = "[e\<lparr>End := S - 1\<rparr>]" and d = "mMapDepth s"])
        (use high cut sl dep tab in \<open>auto simp: sims tables_ok_def entry_ok_def slots_ok_def split: option.splits\<close>)
    with high st show ?thesis by (auto simp: pull_range_def sims stock_def FromPages_def)
  next
    case mid
    let ?n = "\<lparr>Slot = Some (mMapDepth s), Type = Type e, Start = R + 1, End = End e, Attribute = Attribute e\<rparr>"
    let ?t = "pulled (ps @ (e\<lparr>End := S - 1\<rparr>) # qs) ?n [] (s\<lparr>mMapDepth := mMapDepth s + 1\<rparr>)"
    have sl': "slots_ok (Suc (mMapDepth s)) ((ps @ (e\<lparr>End := S - 1\<rparr>) # qs) @ [?n])"
      by (rule slots_ok_snoc) (use sl in \<open>simp_all add: slots_ok_def\<close>)
    have "page_inv ?t \<and> (\<forall>a. owner ?t a + owner_in S R (kind e) a = owner s a)" if "mMapDepth s + 1 < MAX_MAP_DEPTH"
      by (rule pi [where fs = "[e\<lparr>End := S - 1\<rparr>, ?n]" and d = "mMapDepth s + 1"])
        (use sl' mid cut that tab in \<open>auto simp: sims tables_ok_def entry_ok_def ac_simps\<close>)
    with mid cut st show ?thesis
      by (auto simp: pull_range_def Let_def sims ac_simps stock_def FromPages_def intro!: holds_assert_if)
  qed
qed

text \<open>One pass of the loop of \<open>CoreConvertPagesEx\<close>: the piece gets its new kind, nothing else changes.\<close>

lemma convert_piece_owner:
  assumes inv: "page_inv s" and f: "find_covering S (gMemoryMap s) = Some (ps, e, qs)"
    and r: "range_ok S R" "R \<le> End e"
  shows "holds {AssertFailed} (convert_piece env n ct NT NA S R ps e qs s) (\<lambda>(T, s').
    T = (if ct then NT else Type e) \<and> page_inv s' \<and>
    (\<forall>a. owner s' a = (if S \<le> a \<and> a \<le> R then {#(T, if ct then Attribute e else NA)#} else owner s a)) \<and>
    (\<forall>a. S \<le> a \<and> a \<le> R \<longrightarrow> owner s a = {#kind e#}) \<and>
    memory_space s' = memory_space s \<and> same_context s s' \<and> mMapDepth s' \<le> Suc (Suc (mMapDepth s)) \<and>
    mFreeMemoryMapEntryList s \<le> mFreeMemoryMapEntryList s' \<and> stock s' = stock s)"
proof -
  have m: "gMemoryMap s = ps @ e # qs" and st: "Start e \<le> S" using find_covering_Some [OF f] by auto
  define s1 where "s1 = (if ct then count_new_type NT S n (count_old_type (Type e) S n s) else s)"
  have sm: "same_memory s s1"
    unfolding s1_def using same_memory_trans [OF count_old_type_same count_new_type_same] by auto
  have inv1: "page_inv s1" and m1: "gMemoryMap s1 = ps @ e # qs" and own1: "\<And>a. owner s1 a = owner s a"
    using sm same_memory_inv [OF sm inv] m by (auto simp: same_memory_def)
  have one: "owner s a = {#kind e#} \<and> untested a (memory_space s) = 0" if "S \<le> a" "a \<le> R" for a
  proof -
    have "owner_in (Start e) (End e) (kind e) a = {#kind e#}"
      using that st r(2) by (auto simp: owner_in_def)
    moreover have "size (owner s a) + untested a (memory_space s) \<le> 1" using inv by (simp add: page_inv_def)
    ultimately show ?thesis unfolding m by auto
  qed
  have add: "holds {AssertFailed} (CoreAddRange env (if ct then NT else Type c) S R (if ct then Attribute c else NA) s3)
      (\<lambda>s'. page_inv s' \<and>
        (\<forall>a. owner s' a = (if S \<le> a \<and> a \<le> R then {#(if ct then NT else Type e, if ct then Attribute e else NA)#} else owner s a)) \<and>
        memory_space s' = memory_space s \<and> same_context s s' \<and> mMapDepth s' \<le> Suc (Suc (mMapDepth s)) \<and>
        mFreeMemoryMapEntryList s \<le> mFreeMemoryMapEntryList s' \<and> stock s' = stock s)"
    if p: "page_inv s3" "\<forall>a. owner s3 a + owner_in S R (kind e) a = owner s a" "memory_space s3 = memory_space s"
      "same_context s s3" "mMapDepth s3 \<le> Suc (mMapDepth s)" "mFreeMemoryMapEntryList s \<le> mFreeMemoryMapEntryList s3"
      "kind c = kind e" "stock s3 = stock s" for s3 c
  proof -
    have un: "unclaimed s3 a" if "S \<le> a" "a \<le> R" for a
      using p(2) [rule_format, of a] one [OF that] that p(3) by (auto simp: owner_in_def unclaimed_def)
    have out: "owner s3 a = owner s a" if "\<not> (S \<le> a \<and> a \<le> R)" for a
      using p(2) [rule_format, of a] that by (auto simp: owner_in_def)
    have c: "Type c = Type e" "Attribute c = Attribute e" using p(7) by (auto simp: kind_def)
    show ?thesis unfolding c
      by (rule holds_weaken [OF CoreAddRange_owner [OF p(1) r(1) un]])
        (use p out un in \<open>auto simp: owner_in_def unclaimed_def elim: same_context_trans\<close>)
  qed
  show ?thesis
    unfolding convert_piece_def s1_def [symmetric] Let_def pulled_def [symmetric]
  proof (rule holds_bind [OF pull_range_owner [OF inv1 m1 st r(2,1)]], goal_cases)
    case (1 x)
    obtain ps' c qs' s2 where x: "x = (ps', c, qs', s2)" by (rule prod_cases4)
    note p = 1 [unfolded x prod.case]
    have "kind c = kind e" using p by blast
    then have c: "Type c = Type e" by (simp add: kind_def)
    show ?case
      unfolding x prod.case
      by (rule holds_bind [OF add [of "pulled ps' c qs' s2" c]])
        (use p sm own1 one c in \<open>auto simp: same_memory_def stock_def elim: same_context_trans\<close>)
  qed
qed

section \<open>Finding free pages\<close>

lemma unat_and_not_page_mask: "unat (x AND NOT EFI_PAGE_MASK) = unat x div 4096 * 4096"
  using and_not_mask [of x 12] by simp

lemma unat_or_page_mask:
  assumes "unat y mod 4096 = 0" shows "unat (y OR EFI_PAGE_MASK) = unat y + 4095"
proof -
  have "y AND EFI_PAGE_MASK = 0" using assms by (rule page_mask_0 [THEN iffD2])
  from word_plus_and_or [of y EFI_PAGE_MASK, unfolded this add_0]
  have "y OR EFI_PAGE_MASK = y + EFI_PAGE_MASK" .
  moreover have "unat y + 4096 \<le> 2 ^ 64"
    using assms unsigned_less [where 'a = nat, of y] dvd_step [of "unat y" "2 ^ 64"] by (simp add: mod_eq_0_iff_dvd)
  ultimately show ?thesis by (simp add: unat_word_ariths)
qed

text \<open>\<open>clip_max\<close> gives the end of the last whole page that ends at or below the limit.\<close>

lemma unat_clip_max:
  assumes "\<not> Mx < EFI_PAGE_MASK"
  shows "unat (clip_max Mx) + 1 = unat Mx + 1 - (unat Mx + 1) mod 4096"
proof (cases "Mx AND EFI_PAGE_MASK = EFI_PAGE_MASK")
  case True
  then have "unat Mx mod 4096 = 4095" using page_mask [of Mx] by simp
  then show ?thesis using True by (simp add: clip_max_def mod_Suc)
next
  case False
  then have ne: "unat Mx mod 4096 \<noteq> 4095" using page_mask [of Mx] by (simp add: word_unat_eq_iff)
  then have "unat Mx \<noteq> 4095" by (rule contrapos_nn) simp
  moreover have "\<not> unat Mx < 4095" using assms by (simp add: word_less_nat_alt)
  ultimately have ge: "4096 \<le> unat Mx" by linarith
  have sub: "unat (Mx - 4096) = unat Mx - 4096"
    using ge by (subst unat_sub) (simp_all add: word_le_nat_alt)
  have "unat (((Mx - 4096) AND NOT EFI_PAGE_MASK) OR EFI_PAGE_MASK) = (unat Mx - 4096) div 4096 * 4096 + 4095"
    by (subst unat_or_page_mask) (simp_all only: unat_and_not_page_mask sub mod_mult_self2_is_0)
  also have "\<dots> + 1 = unat Mx + 1 - (unat Mx + 1) mod 4096"
  proof -
    define q r where "q = unat Mx div 4096 - 1" and "r = unat Mx mod 4096"
    have "unat Mx div 4096 \<noteq> 0" using ge by (simp add: div_eq_0_iff)
    then have "Suc q = unat Mx div 4096" by (simp add: q_def)
    then have qr: "unat Mx = 4096 * Suc q + r" by (simp only: r_def mult_div_mod_eq)
    have "r < 4096" unfolding r_def by (rule mod_less_divisor) simp
    with ne have qr2: "r < 4095" unfolding r_def [symmetric] by linarith
    have "4096 * Suc q + r - 4096 = r + 4096 * q" "4096 * Suc q + r + 1 = (r + 1) + 4096 * Suc q" by simp_all
    then have "(4096 * Suc q + r - 4096) div 4096 = q" "(4096 * Suc q + r + 1) mod 4096 = r + 1"
      using qr2 by (simp_all only: div_mult_self1 mod_mult_self2) simp_all
    then show ?thesis unfolding qr by simp
  qed
  finally show ?thesis using False by (simp add: clip_max_def)
qed

text \<open>
  A descriptor that the search accepts, and the end of the range it gives there.  The bound \<open>M\<close> is the end of a page.
\<close>

definition candidate :: "u64 \<Rightarrow> u64 \<Rightarrow> u64 \<Rightarrow> MEMORY_MAP \<Rightarrow> u64 \<Rightarrow> bool" where
  "candidate M Mn B e d \<longleftrightarrow>
     Type e = EfiConventionalMemory \<and> unat (Start e) < unat M \<and> unat Mn \<le> unat (End e) \<and>
     unat d = min (unat M) (unat (End e)) \<and> unat (Start e) \<le> unat d \<and> unat B + unat (Start e) \<le> unat d + 1 \<and>
     unat Mn + unat B \<le> unat d + 1"

lemma find_target_step:
  assumes e: "entry_ok e" and M: "(unat M + 1) mod 4096 = 0"
  shows "find_target M Mn B EFI_PAGE_SIZE (e # es) t =
    find_target M Mn B EFI_PAGE_SIZE es
      (if (\<exists>d. candidate M Mn B e d) then max t (if End e \<ge> M then M else End e) else t)"
proof -
  let ?d = "if End e \<ge> M then M else End e"
  have ok: "unat (Start e) mod 4096 = 0" "(unat (End e) + 1) mod 4096 = 0" "unat (End e) < unat (MAX_ADDRESS)"
    "unat (Start e) < unat (End e)"
    using e by (auto simp: entry_ok_def range_ok_def word_less_nat_alt)
  have d: "?d < MAX_ADDRESS" "(unat ?d + 1) mod 4096 = 0" "unat ?d = min (unat M) (unat (End e))"
    using ok M by (auto simp: word_le_nat_alt word_less_nat_alt min_def)
  have S1: "unat (?d + 1) = unat ?d + 1" by (rule unat_Suc_less [OF d(1)])
  have "(?d + 1) AND NOT EFI_PAGE_MASK = ?d + 1"
    unfolding word_unat_eq_iff unat_and_not_page_mask S1 using d(2) by (metis dvd_div_mult_self mod_eq_0_iff_dvd)
  then have al: "((?d + 1) AND NOT (EFI_PAGE_SIZE - 1)) - 1 = ?d" by simp
  have cand: "(\<exists>x. candidate M Mn B e x) \<longleftrightarrow>
      Type e = EfiConventionalMemory \<and> \<not> (Start e \<ge> M \<or> End e < Mn) \<and> \<not> ?d < Start e \<and>
      ?d - Start e + 1 \<ge> B \<and> \<not> ?d - B + 1 < Mn"
  proof (cases "Type e = EfiConventionalMemory \<and> \<not> (Start e \<ge> M \<or> End e < Mn)")
    case True
    then have le: "unat (Start e) \<le> unat ?d" using d(3) ok by (auto simp: word_le_nat_alt not_le)
    have "unat (?d - Start e) = unat ?d - unat (Start e)" by (rule unat_sub) (use le in \<open>simp add: word_le_nat_alt\<close>)
    moreover have "?d - Start e < MAX_ADDRESS" using d(1) calculation by (simp add: word_less_nat_alt)
    ultimately have len: "unat (?d - Start e + 1) = unat ?d - unat (Start e) + 1" using unat_Suc_less by metis
    have b: "unat (?d - B + 1) = unat ?d + 1 - unat B" if "B \<le> ?d - Start e + 1"
    proof -
      have "?d - B + 1 = (?d + 1) - B" by simp
      moreover have "B \<le> ?d + 1" using that len S1 by (simp add: word_le_nat_alt)
      ultimately show ?thesis using S1 unat_sub by metis
    qed
    have "B \<le> ?d - Start e + 1 \<longleftrightarrow> unat B + unat (Start e) \<le> unat ?d + 1"
      using len le by (simp only: word_le_nat_alt) linarith
    moreover have "\<not> ?d - B + 1 < Mn \<longleftrightarrow> unat Mn + unat B \<le> unat ?d + 1" if "B \<le> ?d - Start e + 1"
    proof -
      have "unat B \<le> unat ?d + 1" using that len by (simp only: word_le_nat_alt)
      then show ?thesis using b [OF that] by (simp only: word_less_nat_alt not_less) linarith
    qed
    moreover have "candidate M Mn B e x \<longleftrightarrow>
        x = ?d \<and> unat B + unat (Start e) \<le> unat ?d + 1 \<and> unat Mn + unat B \<le> unat ?d + 1" for x
      unfolding candidate_def d(3) [symmetric] using True le
      by (auto simp: word_le_nat_alt word_less_nat_alt word_unat_eq_iff)
    moreover have "\<not> ?d < Start e" using le by (simp add: word_less_nat_alt)
    ultimately show ?thesis using True by blast
  next
    case False
    then show ?thesis by (auto simp: candidate_def word_le_nat_alt word_less_nat_alt)
  qed
  show ?thesis unfolding find_target.simps Let_def al cand by (auto simp: max_def)
qed

lemma find_target_max:
  assumes "\<forall>e\<in>set es. entry_ok e" and M: "(unat M + 1) mod 4096 = 0"
  shows "(\<forall>e\<in>set es. \<forall>d. candidate M Mn B e d \<longrightarrow> d \<le> find_target M Mn B EFI_PAGE_SIZE es t) \<and>
    t \<le> find_target M Mn B EFI_PAGE_SIZE es t \<and>
    (find_target M Mn B EFI_PAGE_SIZE es t = t \<or>
      (\<exists>e\<in>set es. candidate M Mn B e (find_target M Mn B EFI_PAGE_SIZE es t)))"
  using assms(1)
proof (induction es arbitrary: t)
  case (Cons e es)
  let ?d = "if End e \<ge> M then M else End e"
  have d: "candidate M Mn B e d \<Longrightarrow> d = ?d" for d
    by (auto simp: candidate_def min_def word_unat_eq_iff word_le_nat_alt split: if_splits)
  have d': "(\<exists>d. candidate M Mn B e d) \<Longrightarrow> candidate M Mn B e ?d" using d by metis
  let ?t = "if \<exists>d. candidate M Mn B e d then max t ?d else t"
  have e: "entry_ok e" and es: "\<forall>e\<in>set es. entry_ok e" using Cons.prems by auto
  define F where "F = find_target M Mn B EFI_PAGE_SIZE (e # es) t"
  note ih = Cons.IH [OF es, of ?t, folded find_target_step [OF e M], folded F_def]
  have "t \<le> ?t" "\<And>d. candidate M Mn B e d \<Longrightarrow> d \<le> ?t" "?t = t \<or> candidate M Mn B e ?t"
    using d d' by (auto simp: max_def)
  with ih show ?case unfolding F_def [symmetric] by (auto intro: order_trans)
qed simp

text \<open>
  The pages from \<open>S\<close> on, \<open>B\<close> bytes, are free, in one descriptor, and between the two limits.
\<close>

definition fits :: "u64 \<Rightarrow> u64 \<Rightarrow> nat \<Rightarrow> MEMORY_MAP list \<Rightarrow> u64 \<Rightarrow> bool" where
  "fits Mx Mn B es S \<longleftrightarrow>
     unat S mod 4096 = 0 \<and> Mn \<le> S \<and> unat S + B \<le> unat Mx + 1 \<and>
     (\<exists>e\<in>set es. Type e = EfiConventionalMemory \<and> Start e \<le> S \<and> unat S + B \<le> unat (End e) + 1)"

lemma unat_bytes: "unat n < 2 ^ 52 \<Longrightarrow> unat (push_bit EFI_PAGE_SHIFT n :: u64) = 4096 * unat n"
  by (simp add: push_bit_eq_mult unat_word_ariths)

text \<open>
  \<open>CoreFindFreePagesI\<close> gives the highest place that fits, and 0 when there is none, or none but address 0.
\<close>

lemma CoreFindFreePagesI_highest:
  assumes es: "\<forall>e\<in>set es. entry_ok e" and n: "n \<noteq> 0" "unat n < 2 ^ 52"
    and S_def: "S = CoreFindFreePagesI Mx Mn n EFI_PAGE_SIZE es"
  shows "S \<noteq> 0 \<Longrightarrow> fits Mx Mn (4096 * unat n) es S"
    and "fits Mx Mn (4096 * unat n) es S' \<Longrightarrow> S' \<le> S"
proof -
  let ?B = "push_bit EFI_PAGE_SHIFT n :: u64"
  let ?t = "find_target (clip_max Mx) Mn ?B EFI_PAGE_SIZE es 0"
  have B: "unat ?B = 4096 * unat n" using n by (simp add: unat_bytes)
  have npos: "unat n \<ge> 1" using n(1) by (simp add: unat_gt_0 Suc_le_eq)
  have S: "S = (if Mx < EFI_PAGE_MASK then 0 else if (?t - (?B - 1)) AND EFI_PAGE_MASK \<noteq> 0 then 0 else ?t - (?B - 1))"
    using n(1) by (simp add: S_def CoreFindFreePagesI_def Let_def)
  have "(S \<noteq> 0 \<longrightarrow> fits Mx Mn (4096 * unat n) es S) \<and> (fits Mx Mn (4096 * unat n) es S' \<longrightarrow> S' \<le> S)"
  proof (cases "Mx < EFI_PAGE_MASK")
    case True
    then have "\<not> fits Mx Mn (4096 * unat n) es S'" using npos by (auto simp: fits_def word_less_nat_alt)
    with True S show ?thesis by simp
  next
    case False
    define M where "M = clip_max Mx"
    define q where "q = (unat Mx + 1) div 4096"
    have M: "unat M + 1 = 4096 * q" using unat_clip_max [OF False] by (simp only: M_def q_def minus_mod_eq_mult_div)
    have qle: "4096 * q \<le> unat Mx + 1" "unat Mx + 1 < 4096 * q + 4096"
      unfolding q_def by (simp_all add: mult_div_mod_eq [symmetric] dividend_less_times_div)
    have Mp: "(unat M + 1) mod 4096 = 0" unfolding M by simp
    let ?t = "find_target M Mn ?B EFI_PAGE_SIZE es 0"
    note S = S [folded M_def]
    note mx = find_target_max [OF es Mp, of Mn ?B 0]
    have upper: "unat S' + 4096 * unat n \<le> unat ?t + 1" if f: "fits Mx Mn (4096 * unat n) es S'" for S'
    proof -
      obtain e where e: "e \<in> set es" "Type e = EfiConventionalMemory" "Start e \<le> S'"
          "unat S' + 4096 * unat n \<le> unat (End e) + 1"
        and S': "unat S' mod 4096 = 0" "Mn \<le> S'" "unat S' + 4096 * unat n \<le> unat Mx + 1"
        using f by (auto simp: fits_def)
      obtain k where k: "unat S' = 4096 * k" using S'(1) by (auto elim!: dvdE)
      have "4096 * (k + unat n) < 4096 * (q + 1)" using le_less_trans [OF S'(3) qle(2)] unfolding k by (simp add: distrib_left)
      then have "k + unat n \<le> q" by simp
      then have le: "unat S' + 4096 * unat n \<le> unat M + 1" unfolding M k by simp
      let ?d = "if End e \<ge> M then M else End e"
      have d: "unat ?d = min (unat M) (unat (End e))" by (auto simp: word_le_nat_alt min_def)
      have "candidate M Mn ?B e ?d"
        unfolding candidate_def d B using e S'(2) le npos by (auto simp: word_le_nat_alt min_def)
      then have "?d \<le> ?t" using mx e(1) by blast
      then have "unat ?d \<le> unat ?t" by (simp only: word_le_nat_alt)
      moreover have "unat S' + 4096 * unat n \<le> unat ?d + 1" unfolding d using e(4) le by simp
      ultimately show ?thesis by linarith
    qed
    show ?thesis
    proof (cases "\<exists>e\<in>set es. candidate M Mn ?B e ?t")
      case True
      then obtain e where e: "e \<in> set es" and c: "candidate M Mn ?B e ?t" by blast
      have c': "Type e = EfiConventionalMemory" "unat ?t \<le> unat M" "unat ?t \<le> unat (End e)"
          "4096 * unat n + unat (Start e) \<le> unat ?t + 1" "unat Mn + 4096 * unat n \<le> unat ?t + 1"
        using c unfolding candidate_def B by auto
      have "unat ?t = unat M \<or> unat ?t = unat (End e)" using c unfolding candidate_def by linarith
      then have al: "(unat ?t + 1) mod 4096 = 0" using Mp es e by (auto simp: entry_ok_def range_ok_def)
      have B1: "unat (?B - 1) = 4096 * unat n - 1" using B npos by (metis mult_is_0 not_one_le_zero unat_0 unat_minus_one zero_neq_numeral)
      have "unat (?t - (?B - 1)) = unat ?t - unat (?B - 1)"
        by (rule unat_sub) (use c' npos in \<open>simp add: word_le_nat_alt B1\<close>)
      then have tS: "unat (?t - (?B - 1)) = unat ?t + 1 - 4096 * unat n" using B1 npos by linarith
      have "unat (?t - (?B - 1)) mod 4096 = 0" unfolding tS using al c'(4) by (auto simp: mod_eq_0_iff_dvd dvd_diff_nat)
      then have "(?t - (?B - 1)) AND EFI_PAGE_MASK = 0" by (rule page_mask_0 [THEN iffD2])
      then have St: "S = ?t - (?B - 1)" using S False by simp
      have "fits Mx Mn (4096 * unat n) es S"
        unfolding fits_def St tS using c' e \<open>unat (?t - (?B - 1)) mod 4096 = 0\<close> [unfolded tS] M qle(1)
        by (auto simp: word_le_nat_alt tS intro!: bexI [of _ e])
      moreover have "S' \<le> S" if "fits Mx Mn (4096 * unat n) es S'"
        using upper [OF that] unfolding word_le_nat_alt St tS by linarith
      ultimately show ?thesis by blast
    next
      case False2: False
      then have t0: "?t = 0" using mx by blast
      have "\<not> fits Mx Mn (4096 * unat n) es S'" using upper [of S'] npos unfolding t0 by auto
      moreover have "S = 0"
      proof -
        have "unat (?t - (?B - 1)) = unat (1 - ?B)" unfolding t0 by simp
        also have "unat (1 - ?B) = 2 ^ 64 + 1 - 4096 * unat n"
          unfolding unat_sub_if' B using npos by (simp add: word_le_nat_alt B)
        also have "\<dots> = 4096 * (2 ^ 52 - unat n) + 1" using n(2) by simp
        finally have "unat (?t - (?B - 1)) mod 4096 = 1" by (simp only: mod_mult_self4) simp
        then show ?thesis using S page_mask_0 [of "?t - (?B - 1)"] by simp
      qed
      ultimately show ?thesis by blast
    qed
  qed
  then show "S \<noteq> 0 \<Longrightarrow> fits Mx Mn (4096 * unat n) es S" "fits Mx Mn (4096 * unat n) es S' \<Longrightarrow> S' \<le> S"
    by blast+
qed

section \<open>What may happen to memory that no operation names\<close>

text \<open>
  An address is available when it is free or untested memory.  On the way to its own work an
  operation may take available pages for descriptors and may make untested memory free; what is in use stays.
\<close>

definition available :: "'w page_state \<Rightarrow> u64 \<Rightarrow> bool" where
  "available s a \<longleftrightarrow> (\<exists>A. owner s a = {#(EfiConventionalMemory, A)#}) \<or> 0 < untested a (memory_space s)"

definition refuelled :: "(u32 \<times> u64) multiset \<Rightarrow> bool" where
  "refuelled k \<longleftrightarrow> (\<exists>A. k = {#(EfiConventionalMemory, A)#} \<or> k = {#(EfiBootServicesData, A)#})"

definition grows_at :: "'w page_state \<Rightarrow> 'w page_state \<Rightarrow> u64 \<Rightarrow> bool" where
  "grows_at s s' a \<longleftrightarrow>
     untested a (memory_space s') \<le> untested a (memory_space s) \<and>
     (owner s' a = owner s a \<or> available s a \<and> refuelled (owner s' a))"

definition grows :: "'w page_state \<Rightarrow> 'w page_state \<Rightarrow> bool" where
  "grows s s' \<longleftrightarrow> (\<forall>a. grows_at s s' a)"

lemma grows_refl [simp]: "grows s s"
  by (simp add: grows_def grows_at_def)

lemma grows_available: "grows_at s s1 a \<Longrightarrow> available s1 a \<Longrightarrow> available s a"
  by (auto simp: grows_at_def available_def)

lemma grows_at_trans: "grows_at s s1 a \<Longrightarrow> grows_at s1 s2 a \<Longrightarrow> grows_at s s2 a"
  using grows_available [of s s1 a] by (auto simp: grows_at_def)

lemma grows_trans: "grows s s1 \<Longrightarrow> grows s1 s2 \<Longrightarrow> grows s s2"
  unfolding grows_def by (blast intro: grows_at_trans)

lemma in_use_not_available:
  assumes "page_inv s" "owner s a = {#(T, A)#}" "T \<noteq> EfiConventionalMemory" shows "\<not> available s a"
  using assms by (auto simp: page_inv_def available_def dest: spec [of _ a])

text \<open>What is in use keeps its kind.\<close>

lemma grows_in_use:
  assumes "page_inv s" "grows_at s s' a" "owner s a = {#(T, A)#}" "T \<noteq> EfiConventionalMemory"
  shows "owner s' a = {#(T, A)#}"
  using in_use_not_available [OF assms(1,3,4)] assms(2,3) by (auto simp: grows_at_def)

lemma same_memory_grows: "same_memory s s' \<Longrightarrow> grows s s'"
  by (simp add: grows_def grows_at_def same_memory_def)

text \<open>
  Pages of descriptors are boot services data.  Of the addresses \<open>X\<close>, no more have become boot services data than the
  new descriptors take, 64 bytes each.
\<close>

definition boot_data :: "'w page_state \<Rightarrow> u64 \<Rightarrow> bool" where
  "boot_data s a \<longleftrightarrow> (\<exists>A. owner s a = {#(EfiBootServicesData, A)#})"

definition fuelled :: "(u64 \<Rightarrow> bool) \<Rightarrow> 'w page_state \<Rightarrow> 'w page_state \<Rightarrow> bool" where
  "fuelled X s s' \<longleftrightarrow> card {a. X a \<and> boot_data s' a} + 64 * stock s \<le> 64 * stock s'"

lemma fuelled_trans:
  assumes "fuelled X s s1" "fuelled Y s1 s2" "\<And>a. Z a \<Longrightarrow> boot_data s2 a \<Longrightarrow> Y a \<or> X a \<and> boot_data s1 a"
  shows "fuelled Z s s2"
proof -
  have "card {a. Z a \<and> boot_data s2 a} \<le> card ({a. Y a \<and> boot_data s2 a} \<union> {a. X a \<and> boot_data s1 a})"
    by (rule card_mono) (use assms(3) in auto)
  also have "\<dots> \<le> card {a. Y a \<and> boot_data s2 a} + card {a. X a \<and> boot_data s1 a}" by (rule card_Un_le)
  finally show ?thesis using assms(1,2) by (simp add: fuelled_def)
qed

lemma fuelled_none:
  assumes "stock s \<le> stock s'" "\<And>a. X a \<Longrightarrow> \<not> boot_data s' a" shows "fuelled X s s'"
proof -
  have "{a. X a \<and> boot_data s' a} = {}" using assms(2) by blast
  then show ?thesis using assms(1) by (simp only: fuelled_def card.empty)
qed

lemma available_not_boot: "page_inv s \<Longrightarrow> available s a \<Longrightarrow> \<not> boot_data s a"
  using in_use_not_available [of s a EfiBootServicesData] by (auto simp: boot_data_def)

lemma grows_boot: "grows_at s s' a \<Longrightarrow> boot_data s' a \<Longrightarrow> available s a \<or> boot_data s a"
  by (auto simp: grows_at_def boot_data_def)

definition keeps :: "'w page_state \<Rightarrow> 'w page_state \<Rightarrow> bool" where
  "keeps s s' \<longleftrightarrow> page_inv s' \<and> grows s s' \<and> same_context s s' \<and> fuelled (available s) s s'"

lemma keeps_trans: "keeps s s1 \<Longrightarrow> keeps s1 s2 \<Longrightarrow> keeps s s2"
proof -
  assume k: "keeps s s1" "keeps s1 s2"
  then have "fuelled (available s) s s2"
    using grows_boot [of s1 s2] by (intro fuelled_trans [of "available s" s s1 "available s1" s2]) (auto simp: keeps_def grows_def)
  with k show ?thesis unfolding keeps_def by (blast intro: grows_trans same_context_trans)
qed

lemma keeps_same_owners:
  assumes "page_inv s" "page_inv s'" "owner s' = owner s" "memory_space s' = memory_space s" "same_context s s'" "stock s \<le> stock s'"
  shows "keeps s s'"
proof -
  have "owner s' a = owner s a" for a using fun_cong [OF assms(3)] .
  note own = this
  then have "boot_data s' = boot_data s" by (simp only: boot_data_def fun_eq_iff) simp
  then have "fuelled (available s) s s'" using available_not_boot [OF assms(1)] assms(6) by (intro fuelled_none) simp_all
  moreover have "grows s s'" unfolding grows_def grows_at_def own assms(4) by simp
  ultimately show ?thesis using assms(2,5) by (simp add: keeps_def)
qed

lemma keeps_refl: "page_inv s \<Longrightarrow> keeps s s"
  by (rule keeps_same_owners) simp_all

lemma same_memory_keeps: "same_memory s s' \<Longrightarrow> page_inv s \<Longrightarrow> keeps s s'"
  using same_memory_inv by (intro keeps_same_owners) (auto simp: same_memory_def stock_def)

text \<open>A way of freeing the stack that does no harm.\<close>

definition good_free :: "('w page_state \<Rightarrow> 'w page_state run) \<Rightarrow> bool" where
  "good_free free \<longleftrightarrow> (\<forall>s. page_inv s \<longrightarrow> holds {AssertFailed} (free s) (keeps s))"

lemma good_free_holds: "good_free free \<Longrightarrow> page_inv s \<Longrightarrow> holds {AssertFailed} (free s) (keeps s)"
  by (simp add: good_free_def)

lemma good_free_when_busy: "good_free free_when_busy"
  by (simp add: good_free_def free_when_busy_def assert_if_def keeps_refl)

section \<open>Untested memory becomes free\<close>

lemma untested_update:
  assumes "i < length gs" "promotable (gs ! i)" "\<not> promotable g'"
  shows "untested a gs = untested a (gs[i := g']) + (if BaseAddress (gs ! i) \<le> a \<and> a \<le> EndAddress (gs ! i) then 1 else 0)"
proof -
  have u: "untested a (xs @ y # ys) = untested a xs + untested a ys +
      (if promotable y \<and> BaseAddress y \<le> a \<and> a \<le> EndAddress y then 1 else 0)" for xs y ys
    by (simp add: untested_def)
  have "untested a gs = untested a (take i gs @ gs ! i # drop (Suc i) gs)"
    using assms(1) by (simp add: id_take_nth_drop [symmetric])
  moreover have "untested a (gs[i := g']) = untested a (take i gs @ g' # drop (Suc i) gs)"
    using assms(1) by (simp add: upd_conv_take_nth_drop)
  ultimately show ?thesis using assms(2,3) by (simp only: u) simp
qed

lemma promote_entry_not_promotable: "\<not> promotable (promote_entry env g)"
  by (simp add: promote_entry_def promotable_def)

definition tested_more :: "'w page_state \<Rightarrow> 'w page_state \<Rightarrow> bool" where
  "tested_more s s' \<longleftrightarrow> (\<exists>a. 0 < untested a (memory_space s) \<and> untested a (memory_space s') = 0)"

lemma tested_more_keeps: "tested_more s s1 \<Longrightarrow> keeps s1 s2 \<Longrightarrow> tested_more s s2"
  unfolding tested_more_def keeps_def grows_def grows_at_def by (metis le_zero_eq)

text \<open>Adding one entry of untested memory to the map.\<close>

lemma promote_step:
  assumes inv: "page_inv s" and i: "i < length (memory_space s)" and p: "promotable (memory_space s ! i)"
  shows "holds {AssertFailed}
    (CoreAddRange env EfiConventionalMemory (BaseAddress (promote_entry env (memory_space s ! i)))
      (EndAddress (promote_entry env (memory_space s ! i))) A
      (s\<lparr>memory_space := (memory_space s)[i := promote_entry env (memory_space s ! i)]\<rparr>))
    (\<lambda>s1. keeps s s1 \<and> tested_more s s1)"
proof -
  let ?g = "memory_space s ! i"
  let ?g' = "promote_entry env ?g"
  let ?s = "s\<lparr>memory_space := (memory_space s)[i := ?g']\<rparr>"
  have range: "BaseAddress ?g' = BaseAddress ?g" "EndAddress ?g' = EndAddress ?g" by (simp_all add: promote_entry_def)
  note up = untested_update [OF i p promote_entry_not_promotable [of env ?g]]
  have le: "untested a (memory_space ?s) \<le> untested a (memory_space s)" for a using up [of a] by simp
  have r: "range_ok (BaseAddress ?g) (EndAddress ?g)" using inv i p by (simp add: page_inv_def)
  have "size (owner s a) + untested a (memory_space ?s) \<le> 1" for a
    using inv le [of a] unfolding page_inv_def by (meson add_left_mono order_trans)
  then have inv': "page_inv ?s"
    using inv promote_entry_not_promotable [of env ?g]
    unfolding page_inv_def by (auto simp: tables_ok_def dest!: set_update_subset_insert [THEN subsetD])
  have un: "unclaimed ?s a" "0 < untested a (memory_space s)" if "BaseAddress ?g \<le> a" "a \<le> EndAddress ?g" for a
    using that inv up [of a] by (auto simp: unclaimed_def page_inv_def dest!: spec [of _ a])
  have step: "keeps s s1" if "page_inv s1" "\<forall>a. owner s1 a = owner s a + owner_in (BaseAddress ?g) (EndAddress ?g) (EfiConventionalMemory, A) a"
    "memory_space s1 = (memory_space s)[i := ?g']" "same_context ?s s1" "stock s1 = stock s" for s1
  proof -
    have "\<not> boot_data s1 a" if "available s a" for a
      using available_not_boot [OF inv that] un [of a] \<open>\<forall>a. owner s1 a = _ a\<close> by (auto simp: boot_data_def owner_in_def unclaimed_def)
    then have "fuelled (available s) s s1" using \<open>stock s1 = stock s\<close> by (intro fuelled_none) simp_all
    then show ?thesis
      using that un le unfolding keeps_def grows_def grows_at_def available_def
      by (auto simp: same_context_def owner_in_def refuelled_def unclaimed_def)
  qed
  have more: "tested_more s s1" if "page_inv s1"
    "\<forall>a. owner s1 a = owner s a + owner_in (BaseAddress ?g) (EndAddress ?g) (EfiConventionalMemory, A) a" for s1
  proof -
    have le: "BaseAddress ?g \<le> EndAddress ?g" using range_ok_less [OF r] by simp
    have "owner s (BaseAddress ?g) = {#}" using un(1) le by (simp add: unclaimed_def)
    then have "owner s1 (BaseAddress ?g) = {#(EfiConventionalMemory, A)#}" using that(2) le by (simp add: owner_in_def)
    then have "untested (BaseAddress ?g) (memory_space s1) = 0"
      using that(1) by (auto simp: page_inv_def dest: spec [of _ "BaseAddress ?g"])
    then show ?thesis unfolding tested_more_def using un(2) [OF order_refl le] by blast
  qed
  show ?thesis
    unfolding range
    by (rule holds_weaken [OF CoreAddRange_owner [OF inv' r un(1)]], assumption, assumption)
      (auto simp: stock_def intro!: step more)
qed

lemma promote_loop_keeps:
  assumes free: "good_free free"
  shows "page_inv s \<Longrightarrow> i + n = length (memory_space s) \<Longrightarrow>
    holds {AssertFailed} (promote_loop env free n i p s) (\<lambda>(q, s'). keeps s s' \<and> (q \<longrightarrow> p \<or> tested_more s s'))"
proof (induction n arbitrary: i p s)
  case 0
  then show ?case by (simp add: keeps_refl)
next
  case (Suc n)
  show ?case
  proof (cases "promotable (memory_space s ! i)")
    case True
    have i: "i < length (memory_space s)" using Suc.prems(2) by simp
    show ?thesis
      unfolding promote_loop.simps Let_def if_P [OF True]
    proof (rule holds_bind [OF promote_step [OF Suc.prems(1) i True]])
      fix s1
      assume s1: "keeps s s1 \<and> tested_more s s1"
      then have inv1: "page_inv s1" by (simp add: keeps_def)
      show "holds {AssertFailed} (bind_run (free s1) (promote_loop env free n (Suc i) True))
          (\<lambda>(q, s'). keeps s s' \<and> (q \<longrightarrow> p \<or> tested_more s s'))"
      proof (rule holds_bind [OF good_free_holds [OF free inv1]])
        fix s2
        assume "keeps s1 s2"
        then have k2: "keeps s s2" and m2: "tested_more s s2" using s1 keeps_trans tested_more_keeps by blast+
        then have inv2: "page_inv s2" "Suc i + n = length (memory_space s2)"
          using Suc.prems(2) by (auto simp: keeps_def same_context_def)
        show "holds {AssertFailed} (promote_loop env free n (Suc i) True s2)
            (\<lambda>(q, s'). keeps s s' \<and> (q \<longrightarrow> p \<or> tested_more s s'))"
          by (rule holds_weaken [OF Suc.IH [OF inv2]]) (use keeps_trans [OF k2] tested_more_keeps [OF m2] in auto)
      qed
    qed
  next
    case False
    then show ?thesis using Suc.prems by (auto intro: Suc.IH)
  qed
qed

lemma PromoteMemoryResource_keeps:
  assumes free: "good_free free" and inv: "page_inv s"
  shows "holds {AssertFailed} (PromoteMemoryResource env free s) (\<lambda>(q, s'). keeps s s' \<and> (q \<longrightarrow> tested_more s s'))"
proof -
  let ?s = "s\<lparr>mGcdMemorySpaceLock := True\<rparr>"
  have inv': "page_inv ?s" using inv by (simp add: page_inv_def tables_ok_def)
  have rest: "keeps s (s2\<lparr>mGcdMemorySpaceLock := False\<rparr>)" if "keeps ?s s2" "\<not> mGcdMemorySpaceLock s" for s2
    using that by (auto simp: keeps_def page_inv_def tables_ok_def grows_def grows_at_def available_def same_context_def
      fuelled_def boot_data_def stock_def)
  have more: "tested_more ?s s2 = tested_more s (s2\<lparr>mGcdMemorySpaceLock := False\<rparr>)" for s2
    by (simp add: tested_more_def)
  show ?thesis
    unfolding PromoteMemoryResource_def CoreAcquireGcdMemoryLock_def CoreReleaseGcdMemoryLock_def
    by (auto simp: assert_if_def rest more intro!: holds_bind [OF promote_loop_keeps [OF free inv']])
qed

text \<open>The search with a number of pages whose size in bytes wraps around.\<close>

lemma CoreFindFreePagesI_fits:
  assumes es: "\<forall>e\<in>set es. entry_ok e" and S: "S = CoreFindFreePagesI Mx Mn n EFI_PAGE_SIZE es" "S \<noteq> 0"
    and B: "push_bit EFI_PAGE_SHIFT n \<noteq> (0 :: u64)"
  shows "fits Mx Mn (unat (push_bit EFI_PAGE_SHIFT n :: u64)) es S"
proof -
  let ?n = "take_bit 52 n"
  have b: "push_bit EFI_PAGE_SHIFT ?n = push_bit EFI_PAGE_SHIFT n"
    by (rule bit_word_eqI) (auto simp: bit_simps)
  have n: "?n \<noteq> 0" using B b by (metis push_bit_of_0)
  have lt: "unat ?n < 2 ^ 52" using take_bit_nat_less_exp [of 52 "unat n"] by (simp only: unsigned_take_bit_eq)
  have "n \<noteq> 0" using B by auto
  with n b have "CoreFindFreePagesI Mx Mn ?n EFI_PAGE_SIZE es = CoreFindFreePagesI Mx Mn n EFI_PAGE_SIZE es"
    by (simp add: CoreFindFreePagesI_def)
  with CoreFindFreePagesI_highest(1) [OF es n lt, of S Mx Mn] S show ?thesis
    by (simp add: unat_bytes [OF lt, symmetric] b)
qed

lemma fits_mono: "fits Mx Mn B es S \<Longrightarrow> Mx \<le> Mx' \<Longrightarrow> Mn' \<le> Mn \<Longrightarrow> fits Mx' Mn' B es S"
  by (fastforce simp: fits_def word_le_nat_alt)

abbreviation bytes :: "u64 \<Rightarrow> u64" where "bytes n \<equiv> push_bit EFI_PAGE_SHIFT n"

definition found_at :: "u64 \<Rightarrow> u64 \<Rightarrow> u64 \<Rightarrow> 'w page_state \<Rightarrow> bool" where
  "found_at Mx n S s \<longleftrightarrow> (S \<noteq> 0 \<and> bytes n \<noteq> 0 \<longrightarrow> fits Mx 0 (unat (bytes n)) (gMemoryMap s) S)"

text \<open>A search that returns a place gives free pages, with the memory in use as it was.\<close>

lemma FindFreePages_some:
  assumes "FindFreePages env free Mx n T Al s = Some r" "good_free free" "Al = EFI_PAGE_SIZE" "page_inv s"
  shows "holds {AssertFailed} (Some r) (\<lambda>(S, s'). keeps s s' \<and> found_at Mx n S s')"
  using assms(2-4)
proof (induction rule: FindFreePages.raw_induct [OF _ assms(1)])
  case (1 FFP env free Mx n T Al s y)
  have es: "\<forall>e\<in>set (gMemoryMap s). entry_ok e" using "1.prems" by (simp add: page_inv_def)
  have fnd: "found_at Mx n (CoreFindFreePagesI m m0 n EFI_PAGE_SIZE (gMemoryMap s)) s" if "m \<le> Mx" for m m0
    using fits_mono [OF CoreFindFreePagesI_fits [OF es refl] that] by (auto simp: found_at_def)
  have def: "keeps s (s\<lparr>mDefaultBaseAddress := b\<rparr>)" "found_at Mx n S (s\<lparr>mDefaultBaseAddress := b\<rparr>) = found_at Mx n S s" for b S
    using "1.prems" by (auto simp: found_at_def intro!: same_memory_keeps simp: same_memory_def same_context_def tables_ok_def)
  have rec: "holds {AssertFailed} (FFP env free Mx n T EFI_PAGE_SIZE s1) (\<lambda>(S, s'). keeps s s' \<and> found_at Mx n S s')"
    if "keeps s s1" for s1
  proof (cases "FFP env free Mx n T EFI_PAGE_SIZE s1")
    case (Some r)
    have "holds {AssertFailed} (Some r) (\<lambda>(S, s'). keeps s1 s' \<and> found_at Mx n S s')"
      by (rule "1.IH" [OF _ _ refl]) (use that Some "1.prems" in \<open>auto simp: keeps_def\<close>)
    then show ?thesis unfolding Some by (rule holds_weaken) (use that in \<open>auto intro: keeps_trans\<close>)
  qed simp
  have last: "holds {AssertFailed} (bind_run (PromoteMemoryResource env free s) (\<lambda>(Promoted, s1).
      if \<not> Promoted then ret (0, s1) else FFP env free Mx n T EFI_PAGE_SIZE s1)) (\<lambda>(S, s'). keeps s s' \<and> found_at Mx n S s')"
    by (rule holds_bind [OF PromoteMemoryResource_keeps]) (use "1.prems" rec in \<open>auto simp: found_at_def\<close>)
  show ?case
    unfolding "1.hyps" [symmetric] "1.prems"
    using fnd def last keeps_refl [OF "1.prems"(3)] by (auto simp: Let_def)
qed

lemma FindFreePages_keeps:
  assumes "good_free free" "page_inv s"
  shows "holds {AssertFailed} (FindFreePages env free Mx n T EFI_PAGE_SIZE s)
    (\<lambda>(S, s'). keeps s s' \<and> found_at Mx n S s')"
  using FindFreePages_some [OF _ assms(1) refl assms(2)] by (cases "FindFreePages env free Mx n T EFI_PAGE_SIZE s") auto

section \<open>Converting a range\<close>

text \<open>What a conversion to type \<open>NT\<close> (\<open>ct\<close>), or to attributes \<open>NA\<close>, does at an address.\<close>

definition changed_at :: "bool \<Rightarrow> u32 \<Rightarrow> u64 \<Rightarrow> 'w page_state \<Rightarrow> 'w page_state \<Rightarrow> u64 \<Rightarrow> bool" where
  "changed_at ct NT NA s s' a \<longleftrightarrow>
     untested a (memory_space s') \<le> untested a (memory_space s) \<and>
     (if ct then
        if NT = EfiConventionalMemory then refuelled (owner s' a)
        else available s a \<and> (\<exists>A. owner s' a = {#(NT, A)#})
      else if available s a then refuelled (owner s' a)
      else \<exists>T A. owner s a = {#(T, A)#} \<and> owner s' a = {#(T, NA)#})"

lemma available_no_owner: "page_inv s \<Longrightarrow> available s a \<Longrightarrow> owner s a = {#(T, A)#} \<Longrightarrow> T = EfiConventionalMemory"
  using in_use_not_available by blast

lemma owner_tested: "page_inv s \<Longrightarrow> owner s a = {#k#} \<Longrightarrow> untested a (memory_space s) = 0"
  by (auto simp: page_inv_def dest: spec [of _ a])

lemma changed_after_grows:
  assumes inv: "page_inv s" and g: "grows_at s s1 a" and c: "changed_at ct NT NA s1 s2 a"
  shows "changed_at ct NT NA s s2 a"
proof (cases "ct \<or> available s a")
  case True
  with g c grows_available [OF g] owner_tested [OF inv, of a] show ?thesis
    by (auto simp: changed_at_def grows_at_def refuelled_def available_def split: if_splits)
next
  case False
  with g have "owner s1 a = owner s a" "\<not> available s1 a" using grows_available [OF g] by (auto simp: grows_at_def)
  with False g c show ?thesis by (auto simp: changed_at_def grows_at_def)
qed

lemma changed_before_grows:
  assumes inv: "page_inv s1" and c: "changed_at ct NT NA s s1 a" and g: "grows_at s1 s2 a"
  shows "changed_at ct NT NA s s2 a"
proof -
  have u: "untested a (memory_space s2) \<le> untested a (memory_space s)" using c g by (auto simp: changed_at_def grows_at_def)
  have r: "refuelled (owner s1 a) \<Longrightarrow> refuelled (owner s2 a)" using g by (auto simp: grows_at_def)
  have k: "owner s1 a = {#(T, A)#} \<Longrightarrow> T \<noteq> EfiConventionalMemory \<Longrightarrow> owner s2 a = {#(T, A)#}" for T A
    by (rule grows_in_use [OF inv g])
  show ?thesis
    using c u r k by (auto simp: changed_at_def available_def split: if_splits)
qed

lemma piece_changed:
  assumes inv: "page_inv s" and comp: "\<not> (ct \<and> incompatible_types NT (Type e))" and o: "owner s a = {#kind e#}"
    and o': "owner s' a = {#(if ct then NT else Type e, if ct then Attribute e else NA)#}"
    and m: "memory_space s' = memory_space s"
  shows "changed_at ct NT NA s s' a"
  using comp o o' available_no_owner [OF inv, of a "Type e" "Attribute e"]
  by (auto simp: changed_at_def m incompatible_types_def refuelled_def kind_def available_def)

definition touched :: "bool \<Rightarrow> u32 \<Rightarrow> u64 \<Rightarrow> u64 \<Rightarrow> 'w page_state \<Rightarrow> u64 \<Rightarrow> bool" where
  "touched ct NT S E s a \<longleftrightarrow> (if S \<le> a \<and> a \<le> E then ct \<and> NT = EfiConventionalMemory else available s a)"

definition converted :: "bool \<Rightarrow> u32 \<Rightarrow> u64 \<Rightarrow> u64 \<Rightarrow> u64 \<Rightarrow> 'w page_state \<Rightarrow> efi_status \<times> 'w page_state \<Rightarrow> bool" where
  "converted ct NT NA S E s r \<longleftrightarrow>
     (case r of (Status, s') \<Rightarrow>
        page_inv s' \<and> same_context s s' \<and> Status \<in> {EFI_SUCCESS, EFI_NOT_FOUND} \<and>
        (\<forall>a. \<not> (S \<le> a \<and> a \<le> E) \<longrightarrow> grows_at s s' a) \<and>
        (\<forall>a. S \<le> a \<and> a \<le> E \<longrightarrow> changed_at ct NT NA s s' a \<or> Status \<noteq> EFI_SUCCESS \<and> grows_at s s' a) \<and>
        (Status = EFI_SUCCESS \<longrightarrow> fuelled (touched ct NT S E s) s s'))"

lemma converted_step:
  assumes inv: "page_inv s" "page_inv s1" and R: "S \<le> R" "R \<le> E" "R < MAX_ADDRESS"
    and p: "\<forall>a. \<not> (S \<le> a \<and> a \<le> R) \<longrightarrow> grows_at s s1 a" "\<forall>a. S \<le> a \<and> a \<le> R \<longrightarrow> changed_at ct NT NA s s1 a"
    and sc: "same_context s s1" and f: "fuelled (touched ct NT S R s) s s1" and c: "converted ct NT NA (R + 1) E s1 r"
  shows "converted ct NT NA S E s r"
proof -
  obtain Status s' where r: "r = (Status, s')" by (cases r)
  have R1: "R + 1 \<le> a \<longleftrightarrow> R < a" for a
    using unat_Suc_less [OF R(3)] by (auto simp: word_le_nat_alt word_less_nat_alt)
  have c': "\<And>a. \<not> (R < a \<and> a \<le> E) \<Longrightarrow> grows_at s1 s' a"
      "\<And>a. R < a \<Longrightarrow> a \<le> E \<Longrightarrow> changed_at ct NT NA s1 s' a \<or> Status \<noteq> EFI_SUCCESS \<and> grows_at s1 s' a"
    using c by (auto simp: converted_def r R1)
  have out: "grows_at s s' a" if "\<not> (S \<le> a \<and> a \<le> E)" for a
  proof (rule grows_at_trans)
    show "grows_at s s1 a" using that R by (intro p(1) [rule_format]) auto
    show "grows_at s1 s' a" using that R by (intro c'(1)) auto
  qed
  have inside: "changed_at ct NT NA s s' a \<or> Status \<noteq> EFI_SUCCESS \<and> grows_at s s' a" if a: "S \<le> a" "a \<le> E" for a
  proof (cases "a \<le> R")
    case True
    then show ?thesis using p(2) a c'(1) changed_before_grows [OF inv(2)] by (metis not_le)
  next
    case False
    then have "grows_at s s1 a" using p(1) by blast
    then show ?thesis using c'(2) [of a] False a changed_after_grows [OF inv(1)] grows_at_trans by (metis not_le)
  qed
  have "fuelled (touched ct NT S E s) s s'" if st: "Status = EFI_SUCCESS"
  proof (rule fuelled_trans [OF f, of "touched ct NT (R + 1) E s1"])
    show "fuelled (touched ct NT (R + 1) E s1) s1 s'" using c st by (simp add: converted_def r)
    fix a assume a: "touched ct NT S E s a" "boot_data s' a"
    show "touched ct NT (R + 1) E s1 a \<or> touched ct NT S R s a \<and> boot_data s1 a"
    proof (cases "R < a \<and> a \<le> E")
      case True
      then have "S \<le> a" using R(1) by auto
      with True show ?thesis using a(1) by (simp add: touched_def R1)
    next
      case False
      then have "available s1 a \<or> boot_data s1 a" using grows_boot [OF c'(1) a(2)] by blast
      moreover have "touched ct NT S R s a" using a(1) False R by (auto simp: touched_def)
      ultimately show ?thesis using False by (auto simp: touched_def R1)
    qed
  qed
  then show ?thesis using c sc out inside by (auto simp: converted_def r elim: same_context_trans)
qed

lemma keeps_converted_step:
  assumes "page_inv s" "keeps s1 s2" "\<forall>a. \<not> (S \<le> a \<and> a \<le> R) \<longrightarrow> grows_at s s1 a"
    "\<forall>a. S \<le> a \<and> a \<le> R \<longrightarrow> changed_at ct NT NA s s1 a" "page_inv s1" "same_context s s1" "fuelled (touched ct NT S R s) s s1"
  shows "\<forall>a. \<not> (S \<le> a \<and> a \<le> R) \<longrightarrow> grows_at s s2 a"
    and "\<forall>a. S \<le> a \<and> a \<le> R \<longrightarrow> changed_at ct NT NA s s2 a"
    and "same_context s s2" and "page_inv s2" and "fuelled (touched ct NT S R s) s s2"
  using assms changed_before_grows [of s1] grows_at_trans [of s s1] grows_boot [of s1 s2]
    fuelled_trans [of "touched ct NT S R s" s s1 "available s1" s2]
  by (auto simp: keeps_def grows_def elim: same_context_trans)

definition whole_pages :: "u64 \<Rightarrow> u64 \<Rightarrow> bool" where
  "whole_pages S E \<longleftrightarrow> unat S mod 4096 = 0 \<and> (unat E + 1) mod 4096 = 0 \<and> S < E"

lemma whole_pages_rest:
  assumes "whole_pages S E" "range_ok S R" "R < E" shows "whole_pages (R + 1) E"
proof -
  have "Suc (unat R) + 4096 \<le> Suc (unat E)"
    using assms by (intro dvd_step) (auto simp: whole_pages_def range_ok_def word_less_nat_alt)
  then show ?thesis using assms range_ok_Suc [OF assms(2)]
    by (auto simp: whole_pages_def range_ok_def word_less_nat_alt)
qed

lemma convert_pages_some:
  assumes "convert_pages_loop env free n ct NT NA E S s = Some r" "good_free free" "page_inv s" "S \<le> E \<longrightarrow> whole_pages S E"
  shows "holds {AssertFailed} (Some r) (converted ct NT NA S E s)"
  using assms(2-4)
proof (induction rule: convert_pages_loop.raw_induct [OF _ assms(1)])
  case (1 loop env free n ct NT NA E S s y)
  note inv = "1.prems"(2)
  have failed: "converted c NT NA S E s (EFI_NOT_FOUND, s)" for c
    using inv by (simp add: converted_def grows_at_def)
  have fin: "converted ct NT NA S E s (EFI_SUCCESS, s)" if "\<not> S < E"
  proof -
    have "\<not> S \<le> E" using that "1.prems"(3) by (auto simp: whole_pages_def)
    then have "\<not> (S \<le> a \<and> a \<le> E)" for a by (metis order_trans)
    moreover from this have "fuelled (touched ct NT S E s) s s"
      using available_not_boot [OF inv] by (intro fuelled_none) (auto simp: touched_def)
    ultimately show ?thesis using inv unfolding converted_def by (auto simp: grows_at_def)
  qed
  have go: "holds {AssertFailed} (bind_run (convert_piece env n ct NT NA S (if End e < E then End e else E) ps e qs s)
      (\<lambda>(MemType, s1). bind_run (free (if ct \<and> MemType = EfiConventionalMemory
          then clear_piece env S (if End e < E then End e else E) s1 else s1))
        (loop env free n ct NT NA E ((if End e < E then End e else E) + 1)))) (converted ct NT NA S E s)"
    if lt: "S < E" and f: "find_covering S (gMemoryMap s) = Some (ps, e, qs)"
      and comp: "\<not> (ct \<and> incompatible_types NT (Type e))" for ps e qs
  proof -
    let ?R = "if End e < E then End e else E"
    have e: "entry_ok e" "S < End e" using find_covering_Some [OF f] inv by (auto simp: page_inv_def)
    have rE: "whole_pages S E" using lt "1.prems"(3) by auto
    have r: "range_ok S ?R" "?R \<le> End e" "S \<le> ?R" "?R \<le> E" "?R < MAX_ADDRESS"
      using e rE lt by (auto simp: entry_ok_def range_ok_def whole_pages_def)
    have nxt: "?R + 1 \<le> E \<longrightarrow> whole_pages (?R + 1) E"
    proof
      assume "?R + 1 \<le> E"
      then have "?R < E" using unat_Suc_less [OF r(5)] by (simp only: word_le_nat_alt word_less_nat_alt)
      then show "whole_pages (?R + 1) E" by (rule whole_pages_rest [OF rE r(1)])
    qed
    show ?thesis
    proof (rule holds_bind [OF convert_piece_owner [OF inv f r(1,2)]], goal_cases)
      case (1 x)
      obtain T s1 where x: "x = (T, s1)" by (cases x)
      note p = 1 [unfolded x prod.case]
      let ?s1 = "if ct \<and> T = EfiConventionalMemory then clear_piece env S ?R s1 else s1"
      have inv1: "page_inv s1" and sc: "same_context s s1" using p by blast+
      have g1: "\<forall>a. \<not> (S \<le> a \<and> a \<le> ?R) \<longrightarrow> grows_at s s1 a" using p by (simp add: grows_at_def)
      have c1: "\<forall>a. S \<le> a \<and> a \<le> ?R \<longrightarrow> changed_at ct NT NA s s1 a"
        using p by (auto intro!: piece_changed [OF inv comp])
      have f1: "fuelled (touched ct NT S ?R s) s s1"
        using p available_not_boot [OF inv] by (intro fuelled_none) (auto simp: touched_def boot_data_def)
      have k: "keeps s1 ?s1" using same_memory_keeps [OF clear_piece_same inv1] keeps_refl [OF inv1] by simp
      then have inv1': "page_inv ?s1" by (simp add: keeps_def)
      show ?case
        unfolding x prod.case
      proof (rule holds_bind [OF good_free_holds [OF "1.prems"(1) inv1']])
        fix s2
        assume "keeps ?s1 s2"
        note k2 = keeps_converted_step [OF inv keeps_trans [OF k this] g1 c1 inv1 sc f1]
        show "holds {AssertFailed} (loop env free n ct NT NA E (?R + 1) s2) (converted ct NT NA S E s)"
        proof (cases "loop env free n ct NT NA E (?R + 1) s2")
          case (Some r')
          have "holds {AssertFailed} (Some r') (converted ct NT NA (?R + 1) E s2)"
            by (rule "1.IH" [OF Some "1.prems"(1) k2(4) nxt])
          then show ?thesis unfolding Some
            by (rule holds_weaken) (rule converted_step [OF inv k2(4) r(3,4,5) k2(1,2,3,5)])
        qed simp
      qed
    qed
  qed
  show ?case
    unfolding "1.hyps" [symmetric] Let_def
    by (intro holds_if; cases "find_covering S (gMemoryMap s)")
      (auto simp del: if_split simp: failed fin intro!: holds_if go)
qed

lemma unat_end_of_pages:
  assumes "unat S mod 4096 = 0" shows "(unat (S + bytes n - 1) + 1) mod 4096 = 0"
proof -
  have "unat (S + bytes n) = (unat S + unat n * 4096) mod 2 ^ 64"
    by (simp add: unat_word_ariths push_bit_eq_mult mod_add_right_eq)
  then have "unat (S + bytes n) mod 4096 = (unat S + unat n * 4096) mod 4096"
    by (simp add: mod_mod_cancel)
  also have "\<dots> = 0" using assms by simp
  finally have al: "unat (S + bytes n) mod 4096 = 0" .
  show ?thesis
  proof (cases "S + bytes n = 0")
    case True
    then have "S + bytes n - 1 = MAX_ADDRESS" by simp
    then show ?thesis by (simp only:) simp
  next
    case False
    then have "unat (S + bytes n - 1) + 1 = unat (S + bytes n)" by (simp add: unat_minus_one unat_gt_0 Suc_le_eq)
    with al show ?thesis by simp
  qed
qed

lemma CoreConvertPagesEx_owner:
  assumes "good_free free" "page_inv s"
  shows "holds {AssertFailed} (CoreConvertPagesEx env free S n ct NT ca NA s) (\<lambda>r.
    (fst r = EFI_INVALID_PARAMETER \<and> snd r = s \<or> converted ct NT NA S (S + bytes n - 1) s r) \<and>
    whole_pages S (S + bytes n - 1))"
proof -
  let ?E = "S + bytes n - 1"
  have w: "whole_pages S ?E" if "S AND EFI_PAGE_MASK = 0" "?E > S"
    unfolding whole_pages_def using that page_mask_0 [of S] unat_end_of_pages [of S n] by simp
  have l: "holds {AssertFailed} (convert_pages_loop env free n ct NT NA ?E S s) (\<lambda>r.
      converted ct NT NA S ?E s r \<and> whole_pages S ?E)" if "whole_pages S ?E"
    using convert_pages_some [OF _ assms, of env n ct NT NA ?E S] that
    by (cases "convert_pages_loop env free n ct NT NA ?E S s") (auto elim: holds_weaken)
  show ?thesis
    unfolding CoreConvertPagesEx_def Let_def
    by (intro holds_assert_if holds_if singletonI)
      (use w l in \<open>auto elim: holds_weaken\<close>)
qed

lemma covering_unique:
  assumes inv: "page_inv s" and m: "e \<in> set (gMemoryMap s)" "e' \<in> set (gMemoryMap s)" "covers a e" "covers a e'"
  shows "e = e'"
proof (rule ccontr)
  assume ne: "e \<noteq> e'"
  obtain ps qs where s: "gMemoryMap s = ps @ e # qs" using m(1) by (meson split_list)
  have in2: "e' \<in> set (filter (covers a) (ps @ qs))" using m(2,4) s ne by auto
  have "size (owner s a) \<le> 1" using inv by (auto simp: page_inv_def intro: order_trans [OF le_add1])
  then have "length (filter (covers a) (ps @ qs)) = 0" using m(3) unfolding s owners_def by (auto simp: filter_empty_conv)
  with in2 show False by (auto simp: filter_empty_conv)
qed

lemma holds_any: "holds UNIV m (\<lambda>_. True)"
  by (auto simp: holds_def split: option.split sum.split)

text \<open>A range of free pages inside one descriptor is converted in one pass, and the conversion succeeds.\<close>

lemma convert_found_succeeds:
  assumes inv: "page_inv s" and lt: "S < E" "(unat E + 1) = unat S + B" and f: "fits Mx Mn B (gMemoryMap s) S"
    and NT: "ct \<longrightarrow> NT \<noteq> EfiConventionalMemory"
  shows "holds UNIV (convert_pages_loop env free n ct NT NA E S s) (\<lambda>r. fst r = EFI_SUCCESS)"
proof -
  obtain e where e: "e \<in> set (gMemoryMap s)" "Type e = EfiConventionalMemory" "Start e \<le> S" "E \<le> End e"
    using f lt(2) by (fastforce simp: fits_def word_le_nat_alt)
  have cov: "covers S e" using e lt(1) by (auto simp: covers_def)
  obtain ps e' qs where fc: "find_covering S (gMemoryMap s) = Some (ps, e', qs)"
    using find_covering_None [of S "gMemoryMap s" e] e lt(1) by (cases "find_covering S (gMemoryMap s)") auto
  have "e' \<in> set (gMemoryMap s)" "covers S e'"
    using find_covering_Some [OF fc] by (auto simp: covers_def)
  with covering_unique [OF inv e(1) _ cov] have e': "e' = e" by simp
  have R: "(if End e < E then End e else E) = E" using e(4) by (auto simp: not_less)
  have stop: "convert_pages_loop env free n c NT NA E (E + 1) s2 = ret (EFI_SUCCESS, s2)" for c s2
  proof -
    have "\<not> E + 1 < E"
      using e(4) inv e(1) unat_Suc_less [of E MAX_ADDRESS]
      by (auto simp: page_inv_def entry_ok_def range_ok_def word_less_nat_alt word_le_nat_alt dest!: bspec [of _ _ e])
    then show ?thesis by (subst convert_pages_loop.simps) simp
  qed
  have ok: "\<not> (ct \<and> incompatible_types NT (Type e))" using NT e(2) by (simp add: incompatible_types_def)
  show ?thesis
    unfolding convert_pages_loop.simps [of env free n ct NT NA E S s] fc e' option.case prod.case Let_def R
    using lt(1) ok by (auto simp: stop intro!: holds_if holds_bind [OF holds_any])
qed


lemma holds_conj: "holds F m P \<Longrightarrow> holds G m Q \<Longrightarrow> holds F m (\<lambda>x. P x \<and> Q x)"
  by (auto simp: holds_def split: option.splits sum.splits)

text \<open>A conversion of free pages that the search found.\<close>

definition taken :: "u32 \<Rightarrow> u64 \<Rightarrow> u64 \<Rightarrow> 'w page_state \<Rightarrow> 'w page_state \<Rightarrow> bool" where
  "taken T S E s s' \<longleftrightarrow>
     page_inv s' \<and> same_context s s' \<and> (\<forall>a. \<not> (S \<le> a \<and> a \<le> E) \<longrightarrow> grows_at s s' a) \<and>
     (\<forall>a. S \<le> a \<and> a \<le> E \<longrightarrow> available s a \<and> (\<exists>A. owner s' a = {#(T, A)#})) \<and>
     fuelled (\<lambda>a. \<not> (S \<le> a \<and> a \<le> E) \<and> available s a) s s'"

lemma CoreConvertPages_found:
  assumes free: "good_free free" and inv: "page_inv s" and T: "T \<noteq> EfiConventionalMemory"
    and S: "S \<noteq> 0" "found_at Mx n S s"
  shows "holds {AssertFailed} (CoreConvertPages env free S n T s)
    (\<lambda>(Status, s'). Status = EFI_SUCCESS \<and> bytes n \<noteq> 0 \<and> taken T S (S + bytes n - 1) s s')"
proof -
  let ?E = "S + bytes n - 1"
  have single: "holds UNIV (CoreConvertPages env free S n T s) (\<lambda>r. fst r = EFI_SUCCESS \<and> bytes n \<noteq> 0)"
  proof (cases "?E > S \<and> bytes n \<noteq> 0")
    case True
    then have f: "fits Mx 0 (unat (bytes n)) (gMemoryMap s) S" using S by (simp add: found_at_def)
    then obtain e where e: "e \<in> set (gMemoryMap s)" "unat S + unat (bytes n) \<le> unat (End e) + 1" by (auto simp: fits_def)
    moreover have "unat (End e) < unat MAX_ADDRESS"
      using inv e(1) by (auto simp: page_inv_def entry_ok_def range_ok_def word_less_nat_alt)
    ultimately have sum: "unat (S + bytes n) = unat S + unat (bytes n)"
      by (subst unat_add_lem [symmetric]) simp
    then have nz: "S + bytes n \<noteq> 0" using True by (auto simp: unat_eq_0)
    have E: "unat ?E + 1 = unat S + unat (bytes n)"
      using sum unat_minus_one [OF nz] True by (simp add: unat_gt_0 Suc_le_eq)
    have "\<not> S > S + bytes n" using sum by (simp add: word_less_nat_alt)
    moreover have "n \<noteq> 0" using True by auto
    ultimately show ?thesis
      using convert_found_succeeds [OF inv _ E f] True T
      by (auto simp: CoreConvertPages_def CoreConvertPagesEx_def Let_def assert_if_def intro: holds_weaken)
  next
    case False
    have "\<not> S < S - 1" using unat_minus_one [OF S(1)] by (simp add: word_less_nat_alt)
    with False have "\<not> ?E > S" by auto
    then show ?thesis by (simp add: CoreConvertPages_def CoreConvertPagesEx_def Let_def assert_if_def)
  qed
  have touch: "touched True T S ?E s = (\<lambda>a. \<not> (S \<le> a \<and> a \<le> ?E) \<and> available s a)"
    using T by (auto simp: touched_def fun_eq_iff)
  show ?thesis
    unfolding CoreConvertPages_def
    by (rule holds_weaken [OF holds_conj [OF CoreConvertPagesEx_owner [OF free inv] single [unfolded CoreConvertPages_def]]])
      (use T in \<open>auto simp: converted_def taken_def changed_at_def touch\<close>)
qed

section \<open>The pages for pools and descriptors\<close>

lemma taken_after_keeps:
  assumes "page_inv s" "keeps s s1" "taken T S E s1 s2" shows "taken T S E s s2"
proof -
  have "fuelled (\<lambda>a. \<not> (S \<le> a \<and> a \<le> E) \<and> available s a) s s2"
    by (rule fuelled_trans [of "available s" s s1 "\<lambda>a. \<not> (S \<le> a \<and> a \<le> E) \<and> available s1 a"])
      (use assms grows_boot in \<open>auto simp: taken_def keeps_def\<close>)
  then show ?thesis
    using assms grows_available [of s s1] grows_at_trans [of s s1]
    by (auto simp: taken_def keeps_def grows_def elim: same_context_trans)
qed

lemma CoreAllocatePoolPages_owner:
  assumes free: "good_free free" and inv: "page_inv s" and T: "T \<noteq> EfiConventionalMemory"
  shows "holds {AssertFailed} (CoreAllocatePoolPages env free T n EFI_PAGE_SIZE s) (\<lambda>(S, s').
    if S = 0 then keeps s s' else bytes n \<noteq> 0 \<and> taken T S (S + bytes n - 1) s s')"
  unfolding CoreAllocatePoolPages_def
proof (rule holds_bind [OF FindFreePages_keeps [OF free inv]], goal_cases)
  case (1 x)
  obtain S s1 where x: "x = (S, s1)" by (cases x)
  have k: "keeps s s1" "found_at MAX_ADDRESS n S s1" using 1 x by auto
  then have inv1: "page_inv s1" by (simp add: keeps_def)
  show ?case
  proof (cases "S = 0")
    case False
    show ?thesis
      unfolding x prod.case if_not_P [OF False]
      by (rule holds_bind [OF CoreConvertPages_found [OF free inv1 T False k(2)]])
        (use False taken_after_keeps [OF inv k(1)] in auto)
  qed (simp add: x k)
qed

text \<open>The free descriptor that \<open>AllocateMemoryMapEntry\<close> has taken, put back.\<close>

definition give_back :: "'w page_state \<Rightarrow> 'w page_state" where
  "give_back s = s\<lparr>mFreeMemoryMapEntryList := Suc (mFreeMemoryMapEntryList s)\<rparr>"

lemma card_range: "card {a :: u64. S \<le> a \<and> a \<le> S + B - 1} \<le> unat B" if "B \<noteq> 0"
proof -
  have "unat (S + (B - 1)) \<le> unat S + unat (B - 1)" by (simp add: unat_word_ariths)
  then have "unat a - unat S < unat B" if "S \<le> a" "a \<le> S + B - 1" for a
    using that unat_minus_one [OF \<open>B \<noteq> 0\<close>] \<open>B \<noteq> 0\<close> unat_gt_0 [of B] by (simp add: word_le_nat_alt algebra_simps)
  then have "(\<lambda>a. unat a - unat S) ` {a. S \<le> a \<and> a \<le> S + B - 1} \<subseteq> {..<unat B}" by auto
  moreover have "inj_on (\<lambda>a. unat a - unat S) {a. S \<le> a \<and> a \<le> S + B - 1}"
    by (auto simp: inj_on_def word_le_nat_alt word_unat_eq_iff)
  ultimately show ?thesis using card_inj_on_le [of _ _ "{..<unat B}"] by fastforce
qed

text \<open>A page that is taken for descriptors pays for 64 of them.\<close>

lemma taken_descriptors_keeps:
  assumes t: "taken EfiBootServicesData S (S + 4096 - 1) s s'"
  shows "keeps s (s'\<lparr>mFreeMemoryMapEntryList := mFreeMemoryMapEntryList s' + 64\<rparr>)" (is "keeps s ?s'")
proof -
  let ?R = "\<lambda>a. S \<le> a \<and> a \<le> S + 4096 - 1"
  have "grows_at s s' a" for a
  proof (cases "?R a")
    case True
    with t have "available s a" "page_inv s'" and "\<exists>A. owner s' a = {#(EfiBootServicesData, A)#}" by (auto simp: taken_def)
    moreover from this have "untested a (memory_space s') = 0" using owner_tested by blast
    ultimately show ?thesis by (auto simp: grows_at_def refuelled_def)
  qed (use t in \<open>auto simp: taken_def\<close>)
  then have g: "grows s ?s'" by (simp add: grows_def grows_at_def)
  have "card {a. available s a \<and> boot_data s' a} \<le> card ({a. ?R a} \<union> {a. (\<not> ?R a \<and> available s a) \<and> boot_data s' a})"
    by (rule card_mono) auto
  also have "\<dots> \<le> card {a. ?R a} + card {a. (\<not> ?R a \<and> available s a) \<and> boot_data s' a}" by (rule card_Un_le)
  finally have "card {a. available s a \<and> boot_data s' a} \<le> 4096 + card {a. (\<not> ?R a \<and> available s a) \<and> boot_data s' a}"
    using card_range [of 4096 S] by simp
  moreover have "boot_data ?s' = boot_data s'" "stock ?s' = stock s' + 64"
    by (simp_all add: boot_data_def fun_eq_iff stock_def)
  ultimately have "fuelled (available s) s ?s'" using t by (simp add: taken_def fuelled_def)
  then show ?thesis using t g by (simp add: keeps_def taken_def page_inv_def tables_ok_def same_context_def)
qed

lemma AllocateMemoryMapEntry_keeps:
  assumes free: "good_free free" and inv: "page_inv s"
  shows "holds {AssertFailed} (AllocateMemoryMapEntry env free s) (\<lambda>(ok, s'). keeps s (if ok then give_back s' else s'))"
proof -
  have "EFI_SIZE_TO_PAGES DEFAULT_PAGE_ALLOCATION = (1 :: u64)" by code_simp
  moreover have "bytes 1 = 4096" by simp
  moreover have "keeps s (if S \<noteq> NULL then s'\<lparr>mFreeMemoryMapEntryList := mFreeMemoryMapEntryList s' + 64\<rparr> else s')"
    if "if S = 0 then keeps s s' else (4096 :: u64) \<noteq> 0 \<and> taken EfiBootServicesData S (S + 4096 - 1) s s'" for S and s' :: "'a page_state"
    using that taken_descriptors_keeps [of S s s'] by (cases "S = 0") simp_all
  ultimately have pool: "holds {AssertFailed} (CoreAllocatePoolPages env free EfiBootServicesData
      (EFI_SIZE_TO_PAGES DEFAULT_PAGE_ALLOCATION) DEFAULT_PAGE_ALLOCATION s)
      (\<lambda>(S, s'). keeps s (if S \<noteq> NULL then s'\<lparr>mFreeMemoryMapEntryList := mFreeMemoryMapEntryList s' + 64\<rparr> else s'))"
    by (intro holds_weaken [OF CoreAllocatePoolPages_owner [OF free inv]]) (simp, auto simp only: prod.case split: prod.splits)
  have "unat DEFAULT_PAGE_ALLOCATION div sizeof_MEMORY_MAP = 64" by simp
  then show ?thesis
    unfolding AllocateMemoryMapEntry_def
    by (intro holds_bind [where R = "\<lambda>(ok, s'). keeps s s' \<and> (ok \<longrightarrow> 0 < mFreeMemoryMapEntryList s')"])
      (auto simp: give_back_def keeps_refl [OF inv] intro!: holds_bind [OF pool])
qed

lemma take_slot_Some: "take_slot d es = Some (e, fs) \<Longrightarrow> mset es = add_mset e (mset fs) \<and> Slot e = Some d"
  by (induction es arbitrary: fs) (auto split: if_splits)

lemma owners_mset: "owners a es = image_mset kind (filter_mset (covers a) (mset es))"
  by (simp add: owners_def)

lemma slots_mset: "mset es = mset fs \<Longrightarrow> mset (slots es) = mset (slots fs)"
proof -
  have "mset (slots es) = image_mset (the \<circ> Slot) (filter_mset (\<lambda>e. Slot e \<noteq> None) (mset es))" for es
    by (simp add: slots_def List.map_filter_def)
  then show "mset es = mset fs \<Longrightarrow> mset (slots es) = mset (slots fs)" by simp
qed

lemma slots_ok_mset: "mset (slots es) = mset (slots fs) \<Longrightarrow> slots_ok d es \<longleftrightarrow> slots_ok d fs"
  unfolding slots_ok_def by (metis mset_eq_imp_distinct_iff mset_eq_setD)

lemma take_slot_slots:
  assumes "take_slot d es = Some (e, fs)" "slots_ok (Suc d) es" shows "slots_ok d fs"
proof -
  have "mset es = mset (e # fs)" "Slot e = Some d" using take_slot_Some [OF assms(1)] by auto
  then have "slots_ok (Suc d) (e # fs)" using assms(2) slots_ok_mset [OF slots_mset] by metis
  with \<open>Slot e = Some d\<close> show ?thesis by (auto simp: slots_ok_def less_Suc_eq)
qed

lemma take_slot_None: "take_slot d es = None \<Longrightarrow> d \<notin> set (slots es)"
  by (induction es) (auto split: if_splits option.splits)

lemma mset_insert_by_start: "mset (insert_by_start e es) = add_mset e (mset es)"
  by (induction es) auto

lemma pop_stock: "stock (pop_map_stack s) = stock (give_back s)"
proof (cases "take_slot (mMapDepth s - 1) (gMemoryMap s)")
  case None
  then show ?thesis by (simp add: pop_map_stack_def Let_def stock_def give_back_def)
next
  case (Some x)
  obtain e fs where x: "x = (e, fs)" by (cases x)
  have f: "length (filter FromPages es) = size (filter_mset FromPages (mset es))" for es by (metis mset_filter size_mset)
  have "mset (gMemoryMap s) = add_mset e (mset fs)" "Slot e = Some (mMapDepth s - 1)" using take_slot_Some Some x by blast+
  then have "length (filter FromPages (gMemoryMap s)) = length (filter FromPages fs)"
    unfolding f by (simp add: FromPages_def)
  moreover have "length (filter FromPages (insert_by_start (e\<lparr>Slot := None\<rparr>) fs)) = Suc (length (filter FromPages fs))"
    unfolding f mset_insert_by_start by (simp add: FromPages_def)
  ultimately show ?thesis using Some x by (simp add: pop_map_stack_def stock_def give_back_def)
qed

text \<open>Moving the top of the stack to a page changes no owner.\<close>

lemma pop_map_stack_keeps:
  assumes inv: "page_inv s" and d: "mMapDepth s \<noteq> 0"
  shows "keeps s (pop_map_stack s) \<and> owner (pop_map_stack s) = owner s"
proof -
  let ?d = "mMapDepth s - 1"
  have sl: "slots_ok (Suc ?d) (gMemoryMap s)" using inv d by (simp add: page_inv_def)
  have o: "owner (pop_map_stack s) a = owner s a \<and> (\<forall>e\<in>set (gMemoryMap (pop_map_stack s)). entry_ok e) \<and>
      slots_ok ?d (gMemoryMap (pop_map_stack s))" for a
  proof (cases "take_slot ?d (gMemoryMap s)")
    case None
    have "slots_ok ?d (gMemoryMap s)"
      using sl take_slot_None [OF None] unfolding slots_ok_def by (metis less_Suc_eq)
    then show ?thesis using None inv by (simp add: pop_map_stack_def Let_def page_inv_def)
  next
    case (Some x)
    obtain e fs where x: "x = (e, fs)" by (cases x)
    let ?e = "e\<lparr>Slot := None\<rparr>"
    have m: "mset (gMemoryMap s) = add_mset e (mset fs)" using take_slot_Some Some x by blast
    have map: "gMemoryMap (pop_map_stack s) = insert_by_start ?e fs" using Some x by (simp add: pop_map_stack_def)
    have same: "kind ?e = kind e" "covers a ?e = covers a e" "entry_ok ?e = entry_ok e"
      by (simp_all add: kind_def covers_def entry_ok_def)
    have "owner (pop_map_stack s) a = owner s a"
      unfolding map owners_mset m mset_insert_by_start using same by simp
    moreover have "set (gMemoryMap s) = insert e (set fs)" using m by (metis set_mset_add_mset_insert set_mset_mset)
    moreover have "set (insert_by_start ?e fs) = insert ?e (set fs)"
      using mset_insert_by_start by (metis set_mset_add_mset_insert set_mset_mset)
    moreover have "slots_ok ?d (insert_by_start ?e fs)"
    proof (rule slots_ok_mset [THEN iffD2])
      show "mset (slots (insert_by_start ?e fs)) = mset (slots (?e # fs))"
        by (rule slots_mset) (simp add: mset_insert_by_start)
      show "slots_ok ?d (?e # fs)" using take_slot_slots [OF Some [unfolded x] sl] by (simp add: slots_ok_def)
    qed
    ultimately show ?thesis using inv same unfolding map page_inv_def by simp
  qed
  have rest: "memory_space (pop_map_stack s) = memory_space s" "mMapDepth (pop_map_stack s) = ?d"
    "same_context s (pop_map_stack s)" "tables_ok (pop_map_stack s) = tables_ok s"
    by (auto simp: pop_map_stack_def Let_def same_context_def tables_ok_def split: option.split)
  have eq: "owner (pop_map_stack s) a = owner s a" for a using o by blast
  have "page_inv (pop_map_stack s)"
    unfolding page_inv_def rest eq using o inv unfolding page_inv_def by (auto intro: le_less_trans [OF diff_le_self])
  moreover have "owner (pop_map_stack s) = owner s" by (rule ext) (rule eq)
  ultimately show ?thesis using rest inv pop_stock [of s] by (auto simp: stock_def give_back_def intro!: keeps_same_owners)
qed

lemma pop_after_alloc:
  assumes k: "keeps s (give_back s1)" shows "keeps s (pop_map_stack s1)"
proof -
  have inv: "page_inv (give_back s1)" using k by (simp add: keeps_def)
  then have inv1: "page_inv s1" by (simp add: page_inv_def give_back_def tables_ok_def)
  have "keeps (give_back s1) (pop_map_stack s1)"
  proof (cases "mMapDepth s1 = 0")
    case True
    have "take_slot 0 (gMemoryMap s1) = None"
      using inv1 True take_slot_Some [of 0 "gMemoryMap s1"]
      by (cases "take_slot 0 (gMemoryMap s1)")
        (auto simp: page_inv_def slots_ok_def slots_def List.map_filter_def dest!: union_single_eq_member [OF sym])
    then have "same_memory (give_back s1) (pop_map_stack s1)"
      using True by (auto simp: pop_map_stack_def same_memory_def same_context_def tables_ok_def give_back_def)
    then show ?thesis using inv by (rule same_memory_keeps)
  next
    case False
    have "owner (give_back s1) = owner s1" "memory_space (give_back s1) = memory_space s1" by (simp_all add: give_back_def)
    moreover have "same_context (give_back s1) = same_context s1" by (simp add: same_context_def give_back_def fun_eq_iff)
    ultimately show ?thesis
      using pop_map_stack_keeps [OF inv1 False] pop_stock [of s1] inv
      by (intro keeps_same_owners) (auto simp: keeps_def pop_map_stack_def Let_def split: option.splits)
  qed
  with k show ?thesis by (rule keeps_trans)
qed

section \<open>Freeing the stack\<close>

text \<open>A way of getting a descriptor that does no harm.\<close>

definition good_alloc :: "('w page_state \<Rightarrow> (bool \<times> 'w page_state) run) \<Rightarrow> bool" where
  "good_alloc alloc \<longleftrightarrow> (\<forall>s. page_inv s \<longrightarrow> holds {AssertFailed} (alloc s)
    (\<lambda>(ok, s'). keeps s (if ok then give_back s' else s')))"

lemma good_alloc_entry: "good_free free \<Longrightarrow> good_alloc (AllocateMemoryMapEntry env free)"
  by (simp add: good_alloc_def AllocateMemoryMapEntry_keeps)

lemma free_stack_some:
  assumes "free_stack_loop alloc s = Some r" "good_alloc alloc" "page_inv s"
  shows "holds {AssertFailed} (Some r) (\<lambda>s'. keeps s s' \<and> mMapDepth s' = 0)"
  using assms(2,3)
proof (induction rule: free_stack_loop.raw_induct [OF _ assms(1)])
  case (1 loop alloc s y)
  show ?case
  proof (cases "mMapDepth s = 0")
    case True
    then show ?thesis using "1.hyps" keeps_refl [OF "1.prems"(2)] by (auto simp: ret_def)
  next
    case False
    have rec: "holds {AssertFailed} (loop alloc s2) (\<lambda>s'. keeps s s' \<and> mMapDepth s' = 0)" if k: "keeps s s2" for s2
    proof (cases "loop alloc s2")
      case (Some r')
      have "holds {AssertFailed} (Some r') (\<lambda>s'. keeps s2 s' \<and> mMapDepth s' = 0)"
        by (rule "1.IH" [OF Some "1.prems"(1)]) (use k in \<open>simp add: keeps_def\<close>)
      then show ?thesis unfolding Some by (rule holds_weaken) (use k in \<open>auto intro: keeps_trans\<close>)
    qed simp
    have "holds {AssertFailed} (bind_run (alloc s) (\<lambda>(ok, s1).
        if \<not> ok then Some (Inl AssertFailed) else loop alloc (pop_map_stack s1))) (\<lambda>s'. keeps s s' \<and> mMapDepth s' = 0)"
    proof (rule holds_bind)
      show "holds {AssertFailed} (alloc s) (\<lambda>(ok, s'). keeps s (if ok then give_back s' else s'))"
        using "1.prems" by (simp add: good_alloc_def)
      fix x
      assume "case x of (ok :: bool, s') \<Rightarrow> keeps s (if ok then give_back s' else s')"
      then obtain ok s1 where x: "x = (ok, s1)" and k: "ok \<Longrightarrow> keeps s (give_back s1)"
        by (cases x) (auto split: if_splits)
      show "holds {AssertFailed} ((\<lambda>(ok, s1). if \<not> ok then Some (Inl AssertFailed) else loop alloc (pop_map_stack s1)) x)
          (\<lambda>s'. keeps s s' \<and> mMapDepth s' = 0)"
        using rec pop_after_alloc [OF k] by (simp add: x)
    qed
    then show ?thesis using "1.hyps" False by simp
  qed
qed

lemma free_stack_with_keeps:
  assumes "good_alloc alloc" "page_inv s"
  shows "holds {AssertFailed} (free_stack_with alloc s) (\<lambda>s'. keeps s s' \<and> (mFreeMapStack s = 0 \<longrightarrow> mMapDepth s' = 0))"
proof -
  let ?s = "s\<lparr>mFreeMapStack := mFreeMapStack s + 1\<rparr>"
  have inv: "page_inv ?s" using assms(2) by (simp add: page_inv_def tables_ok_def)
  have l: "holds {AssertFailed} (free_stack_loop alloc ?s) (\<lambda>s'. keeps ?s s' \<and> mMapDepth s' = 0)"
    using free_stack_some [OF _ assms(1) inv] by (cases "free_stack_loop alloc ?s") auto
  have "keeps s (s'\<lparr>mFreeMapStack := mFreeMapStack s' - 1\<rparr>)" if "keeps ?s s'" for s'
    using that by (auto simp: keeps_def page_inv_def tables_ok_def grows_def grows_at_def available_def same_context_def
      fuelled_def boot_data_def stock_def)
  then show ?thesis
    unfolding free_stack_with_def
    by (intro holds_assert_if holds_if singletonI holds_bind [OF l]) (simp_all add: keeps_refl [OF assms(2)])
qed

lemma CoreFreeMemoryMapStack_keeps:
  "page_inv s \<Longrightarrow> holds {AssertFailed} (CoreFreeMemoryMapStack env s)
     (\<lambda>s'. keeps s s' \<and> (mFreeMapStack s = 0 \<longrightarrow> mMapDepth s' = 0))"
  unfolding CoreFreeMemoryMapStack_def by (rule free_stack_with_keeps [OF good_alloc_entry [OF good_free_when_busy]])

lemma good_free_stack: "good_free (CoreFreeMemoryMapStack env)"
  unfolding good_free_def by (auto intro: holds_weaken [OF CoreFreeMemoryMapStack_keeps])

end
