(* ===== verification/PageStack.thy ===== *)
theory PageStack
  imports PageMap
begin

text \<open>
  The stack of descriptors and the recursion it takes part in.  While \<open>CoreFreeMemoryMapStack\<close> moves the stack to
  pages, the calls it makes leave its counter as it is, so that the calls back to it return at once: the
  definition, which cuts the recursion there, satisfies the equation of the code.  Outside, every operation leaves the stack
  empty.
\<close>

section \<open>The counter and the depth of the stack\<close>

definition idle :: "'w page_state \<Rightarrow> bool" where
  "idle s \<longleftrightarrow> (mFreeMapStack s = 0 \<longrightarrow> mMapDepth s = 0)"

definition settles :: "'w page_state \<Rightarrow> 'w page_state \<Rightarrow> bool" where
  "settles s s' \<longleftrightarrow> mFreeMapStack s' = mFreeMapStack s \<and> (idle s \<longrightarrow> idle s')"

definition settling :: "('w page_state \<Rightarrow> 'w page_state run) \<Rightarrow> bool" where
  "settling free \<longleftrightarrow> (\<forall>s. holds UNIV (free s) (\<lambda>s'. mFreeMapStack s' = mFreeMapStack s \<and> idle s'))"

lemma settles_refl [simp]: "settles s s"
  by (simp add: settles_def)

lemma settles_trans: "settles s s1 \<Longrightarrow> settles s1 s2 \<Longrightarrow> settles s s2"
  by (auto simp: settles_def)

lemma settling_when_busy: "settling free_when_busy"
  by (simp add: settling_def free_when_busy_def assert_if_def idle_def)

lemma CoreAddRange_counter: "holds UNIV (CoreAddRange env T S E A s) (\<lambda>s'. mFreeMapStack s' = mFreeMapStack s)"
  by (auto simp: CoreAddRange_def assert_if_def Let_def split: prod.split)

text \<open>An addition to the map, then the freeing of the stack.\<close>

lemma settling_after:
  assumes "settling free" "holds UNIV m (\<lambda>s1. mFreeMapStack s1 = mFreeMapStack s)"
    "\<And>s2. settles s s2 \<Longrightarrow> holds UNIV (k s2) Q"
  shows "holds UNIV (bind_run m (\<lambda>s1. bind_run (free s1) k)) Q"
proof (rule holds_bind [OF assms(2)])
  fix s1 :: "'a page_state"
  assume "mFreeMapStack s1 = mFreeMapStack s"
  then show "holds UNIV (bind_run (free s1) k) Q"
    by (intro holds_bind [OF assms(1) [unfolded settling_def, rule_format]]) (auto simp: settles_def intro: assms(3))
qed

lemma settles_fields [simp]:
  "settles (s\<lparr>memory_space := g\<rparr>) s2 = settles s s2"
  "settles (s\<lparr>mGcdMemorySpaceLock := b\<rparr>) s2 = settles s s2"
  "settles s (s2\<lparr>mGcdMemorySpaceLock := b\<rparr>) = settles s s2"
  "settles s (s2\<lparr>mDefaultBaseAddress := a\<rparr>) = settles s s2"
  by (simp_all add: settles_def idle_def)

lemma promote_loop_settles:
  "settling free \<Longrightarrow> holds UNIV (promote_loop env free n i p s) (\<lambda>(_, s'). settles s s')"
proof (induction n arbitrary: i p s)
  case (Suc n)
  have *: "settles s s2 \<Longrightarrow> holds UNIV (promote_loop env free n (Suc i) q s2) (\<lambda>(_, s'). settles s s')" for q s2
    by (rule holds_weaken [OF Suc.IH [OF Suc.prems]]) (auto intro: settles_trans)
  show ?case
    by (auto simp: Let_def intro!: holds_if settling_after [OF Suc.prems] * holds_weaken [OF CoreAddRange_counter])
qed simp

lemma PromoteMemoryResource_settles:
  assumes "settling free"
  shows "holds UNIV (PromoteMemoryResource env free s) (\<lambda>(_, s'). settles s s')"
  unfolding PromoteMemoryResource_def CoreAcquireGcdMemoryLock_def CoreReleaseGcdMemoryLock_def
  by (auto simp: assert_if_def intro!: holds_bind [OF promote_loop_settles [OF assms]])

lemma FindFreePages_settles:
  assumes "settling free"
  shows "holds UNIV (FindFreePages env free Mx n T Al s) (\<lambda>(_, s'). settles s s')"
proof -
  have "holds UNIV (Some r) (\<lambda>(_, s'). settles s s')" if "FindFreePages env free Mx n T Al s = Some r" for r
    using assms
  proof (induction rule: FindFreePages.raw_induct [OF _ that])
    case (1 FFP env free Mx n T Al s y)
    have rec: "holds UNIV (FFP env free Mx n T Al s1) (\<lambda>(_, s'). settles s s')" if "settles s s1" for s1
    proof (cases "FFP env free Mx n T Al s1")
      case (Some r')
      from "1.IH" [OF Some "1.prems"] show ?thesis
        unfolding Some by (rule holds_weaken) (use that in \<open>auto intro: settles_trans\<close>)
    qed simp
    show ?case
      unfolding "1.hyps" [symmetric]
      by (auto simp: Let_def intro!: holds_bind [OF PromoteMemoryResource_settles [OF "1.prems"]] rec)
  qed
  then show ?thesis by (cases "FindFreePages env free Mx n T Al s") auto
qed

lemma pull_range_counter:
  "holds UNIV (pull_range S R ps e qs s) (\<lambda>(ps', c, qs', s2). mFreeMapStack s2 = mFreeMapStack s)"
  by (auto simp: pull_range_def assert_if_def Let_def)

lemma convert_piece_counter:
  "holds UNIV (convert_piece env n ct NT NA S R ps e qs s) (\<lambda>(T, s'). mFreeMapStack s' = mFreeMapStack s)"
proof -
  define s1 where "s1 = (if ct then count_new_type NT S n (count_old_type (Type e) S n s) else s)"
  have c: "mFreeMapStack s1 = mFreeMapStack s"
  proof -
    have "same_memory s s1" unfolding s1_def by (simp add: same_memory_trans [OF count_old_type_same count_new_type_same])
    then show ?thesis by (simp add: same_memory_def same_context_def)
  qed
  show ?thesis
    unfolding convert_piece_def s1_def [symmetric] Let_def
    by (rule holds_bind [OF pull_range_counter])
      (auto simp: c RemoveMemoryMapEntry_def intro!: holds_bind [OF CoreAddRange_counter])
qed

lemma convert_pages_settles:
  assumes "settling free"
  shows "holds UNIV (convert_pages_loop env free n ct NT NA E S s) (\<lambda>(_, s'). settles s s')"
proof -
  have "holds UNIV (Some r) (\<lambda>(_, s'). settles s s')" if "convert_pages_loop env free n ct NT NA E S s = Some r" for r
    using assms
  proof (induction rule: convert_pages_loop.raw_induct [OF _ that])
    case (1 loop env free n ct NT NA E S s y)
    have rec: "holds UNIV (loop env free n ct NT NA E S' s1) (\<lambda>(_, s'). settles s s')"
      if "mFreeMapStack s1 = mFreeMapStack s" "idle s1" for S' s1
    proof (cases "loop env free n ct NT NA E S' s1")
      case (Some r')
      from "1.IH" [OF Some "1.prems"] show ?thesis
        unfolding Some by (rule holds_weaken) (use that in \<open>auto simp: settles_def\<close>)
    qed simp
    have cl: "mFreeMapStack (if b then clear_piece env S R s1 else s1) = mFreeMapStack s1" for R s1 b
      by (simp add: clear_piece_def)
    have free: "holds UNIV (free s1) (\<lambda>s'. mFreeMapStack s' = mFreeMapStack s1 \<and> idle s')" for s1
      using "1.prems" by (simp add: settling_def)
    show ?case
      unfolding "1.hyps" [symmetric]
      by (cases "find_covering S (gMemoryMap s)")
        (auto simp: Let_def simp del: if_split intro!: holds_if holds_bind [OF convert_piece_counter] holds_bind [OF free] rec
          simp: cl)
  qed
  then show ?thesis by (cases "convert_pages_loop env free n ct NT NA E S s") auto
qed

lemma CoreConvertPagesEx_settles:
  assumes "settling free"
  shows "holds UNIV (CoreConvertPagesEx env free S n ct NT ca NA s) (\<lambda>(_, s'). settles s s')"
  using convert_pages_settles [OF assms] by (auto simp: CoreConvertPagesEx_def assert_if_def Let_def)

lemma CoreAllocatePoolPages_settles:
  assumes "settling free"
  shows "holds UNIV (CoreAllocatePoolPages env free T n Al s) (\<lambda>(_, s'). settles s s')"
  unfolding CoreAllocatePoolPages_def CoreConvertPages_def
  by (rule holds_bind [OF FindFreePages_settles [OF assms]])
    (auto simp: settles_def intro!: holds_bind [OF CoreConvertPagesEx_settles [OF assms]])

lemma AllocateMemoryMapEntry_settles:
  assumes "settling free"
  shows "holds UNIV (AllocateMemoryMapEntry env free s) (\<lambda>(_, s'). settles s s')"
proof -
  have "settles s (s'\<lparr>mFreeMemoryMapEntryList := k\<rparr>) = settles s s'" for s' k by (simp add: settles_def idle_def)
  then show ?thesis
    unfolding AllocateMemoryMapEntry_def
    by (intro holds_bind [where R = "\<lambda>(_, s'). settles s s'"])
      (auto intro!: holds_if holds_bind [OF CoreAllocatePoolPages_settles [OF assms]])
qed

lemma free_stack_loop_counter:
  assumes "\<And>s. holds UNIV (alloc s) (\<lambda>(_, s'). mFreeMapStack s' = mFreeMapStack s)"
  shows "holds UNIV (free_stack_loop alloc s) (\<lambda>s'. mFreeMapStack s' = mFreeMapStack s \<and> mMapDepth s' = 0)"
proof -
  have "holds UNIV (Some r) (\<lambda>s'. mFreeMapStack s' = mFreeMapStack s \<and> mMapDepth s' = 0)"
    if "free_stack_loop alloc s = Some r" for r
    using assms
  proof (induction rule: free_stack_loop.raw_induct [OF _ that])
    case (1 loop alloc s y)
    have rec: "holds UNIV (loop alloc (pop_map_stack s1)) (\<lambda>s'. mFreeMapStack s' = mFreeMapStack s \<and> mMapDepth s' = 0)"
      if "mFreeMapStack s1 = mFreeMapStack s" for s1
    proof (cases "loop alloc (pop_map_stack s1)")
      case (Some r')
      have "mFreeMapStack (pop_map_stack s1) = mFreeMapStack s1"
        by (auto simp: pop_map_stack_def Let_def split: option.split)
      then show ?thesis using "1.IH" [OF Some "1.prems"] that unfolding Some by (auto elim: holds_weaken)
    qed simp
    show ?case
      unfolding "1.hyps" [symmetric] by (auto intro!: holds_bind [OF "1.prems"] rec)
  qed
  then show ?thesis by (cases "free_stack_loop alloc s") auto
qed

lemma settling_stack: "settling (CoreFreeMemoryMapStack env)"
proof -
  have "holds UNIV (AllocateMemoryMapEntry env free_when_busy s) (\<lambda>(_, s'). mFreeMapStack s' = mFreeMapStack s)" for s :: "'a page_state"
    by (rule holds_weaken [OF AllocateMemoryMapEntry_settles [OF settling_when_busy]]) (auto simp: settles_def)
  note l = free_stack_loop_counter [of "AllocateMemoryMapEntry env free_when_busy", OF this]
  show ?thesis
    unfolding settling_def CoreFreeMemoryMapStack_def free_stack_with_def
    by (auto simp: assert_if_def idle_def intro!: holds_bind [OF l])
qed

section \<open>The recursion of the code\<close>

text \<open>Two ways of freeing the stack that do the same while the counter is not 0.\<close>

definition agree :: "('w page_state \<Rightarrow> 'w page_state run) \<Rightarrow> ('w page_state \<Rightarrow> 'w page_state run) \<Rightarrow> bool" where
  "agree f g \<longleftrightarrow> settling f \<and> settling g \<and> (\<forall>s. mFreeMapStack s \<noteq> 0 \<longrightarrow> f s = g s)"

lemma agree_sym: "agree f g \<Longrightarrow> agree g f"
  by (simp add: agree_def)

lemma agree_bind:
  assumes "agree f g" "mFreeMapStack s \<noteq> 0" "holds UNIV m (\<lambda>x. mFreeMapStack (st x) = mFreeMapStack s)"
    "\<And>x s2. mFreeMapStack s2 = mFreeMapStack s \<Longrightarrow> k x s2 = k' x s2"
  shows "bind_run m (\<lambda>x. bind_run (f (st x)) (k x)) = bind_run m (\<lambda>x. bind_run (g (st x)) (k' x))"
proof (rule bind_run_cong [OF refl])
  fix x
  assume "m = ret x"
  then have x: "mFreeMapStack (st x) = mFreeMapStack s" using holds_ret [OF assms(3)] by blast
  then have eq: "f (st x) = g (st x)" using assms(1,2) by (simp add: agree_def)
  show "bind_run (f (st x)) (k x) = bind_run (g (st x)) (k' x)"
  proof (rule bind_run_cong [OF eq])
    fix s2
    assume "g (st x) = ret s2"
    moreover have "holds UNIV (g (st x)) (\<lambda>s'. mFreeMapStack s' = mFreeMapStack (st x) \<and> idle s')"
      using assms(1) by (simp add: agree_def settling_def)
    ultimately show "k x s2 = k' x s2" using x by (intro assms(4)) simp
  qed
qed

lemma promote_loop_agree:
  "agree f g \<Longrightarrow> mFreeMapStack s \<noteq> 0 \<Longrightarrow> promote_loop env f n i p s = promote_loop env g n i p s"
proof (induction n arbitrary: i p s)
  case (Suc n)
  show ?case
    unfolding promote_loop.simps Let_def
    using Suc.prems
    by (intro if_cong refl Suc.IH agree_bind [OF Suc.prems(1), where st = id and s = s, simplified]
        holds_weaken [OF CoreAddRange_counter]) simp_all
qed simp

lemma PromoteMemoryResource_agree:
  "agree f g \<Longrightarrow> mFreeMapStack s \<noteq> 0 \<Longrightarrow> PromoteMemoryResource env f s = PromoteMemoryResource env g s"
  by (simp add: PromoteMemoryResource_def CoreAcquireGcdMemoryLock_def assert_if_def promote_loop_agree)

lemma FindFreePages_agree:
  assumes ag: "agree f g" and s: "mFreeMapStack s \<noteq> 0"
  shows "FindFreePages env f Mx n T Al s = FindFreePages env g Mx n T Al s"
proof -
  have one: "FindFreePages env g Mx n T Al s = Some r"
    if "FindFreePages env f Mx n T Al s = Some r" "agree f g" for r and f g :: "'a page_state \<Rightarrow> 'a page_state run"
    using that(2) s
  proof (induction rule: FindFreePages.raw_induct [OF _ that(1)])
    case (1 FFP env f Mx n T Al s y)
    note pr = PromoteMemoryResource_agree [OF "1.prems"(1,2)]
    have set: "mFreeMapStack s1 \<noteq> 0" if "PromoteMemoryResource env g s = ret (p, s1)" for p s1
      using PromoteMemoryResource_settles [of g env s] "1.prems" that by (auto simp: agree_def settles_def)
    have last: "bind_run (PromoteMemoryResource env g s) (\<lambda>(Promoted, s1).
        if \<not> Promoted then ret (0, s1) else FindFreePages env g Mx n T Al s1) = Some y"
      if "bind_run (PromoteMemoryResource env f s) (\<lambda>(Promoted, s1).
        if \<not> Promoted then ret (0, s1) else FFP env f Mx n T Al s1) = Some y"
      using that "1.IH" [OF _ "1.prems"(1) set]
      by (auto simp: pr bind_run_def ret_def split: option.splits sum.splits if_splits)
    show ?case
      using "1.hyps" last unfolding FindFreePages.simps [of env g Mx n T Al s] by (auto simp: Let_def split: if_splits)
  qed
  show ?thesis
  proof (cases "FindFreePages env f Mx n T Al s")
    case (Some r)
    then show ?thesis using one [OF Some ag] by simp
  next
    case None
    then show ?thesis using one [OF _ agree_sym [OF ag]] by (cases "FindFreePages env g Mx n T Al s") auto
  qed
qed

lemma settling_ret:
  assumes "settling g" "g s = ret s2" shows "mFreeMapStack s2 = mFreeMapStack s"
  using assms(1) [unfolded settling_def, rule_format, of s] unfolding assms(2) by simp

lemma bind_run_Some_mono:
  "bind_run m k = Some y \<Longrightarrow> (\<And>x. k x = Some y \<Longrightarrow> m = ret x \<Longrightarrow> k' x = Some y) \<Longrightarrow> bind_run m k' = Some y"
  by (auto simp: bind_run_def ret_def split: option.splits sum.splits)

lemma convert_pages_agree:
  assumes ag: "agree f g" and s: "mFreeMapStack s \<noteq> 0"
  shows "convert_pages_loop env f n ct NT NA E S s = convert_pages_loop env g n ct NT NA E S s"
proof -
  have one: "convert_pages_loop env g n ct NT NA E S s = Some r"
    if "convert_pages_loop env f n ct NT NA E S s = Some r" "agree f g" for r and f g :: "'a page_state \<Rightarrow> 'a page_state run"
    using that(2) s
  proof (induction rule: convert_pages_loop.raw_induct [OF _ that(1)])
    case (1 loop env f n ct NT NA E S s y)
    have cl: "mFreeMapStack (if b then clear_piece env S R s1 else s1) = mFreeMapStack s1" for R s1 b
      by (simp add: clear_piece_def)
    have step: "bind_run (convert_piece env n ct NT NA S R ps e qs s) (\<lambda>(T, s1).
        bind_run (g (if ct \<and> T = EfiConventionalMemory then clear_piece env S R s1 else s1))
          (convert_pages_loop env g n ct NT NA E (R + 1))) = Some y"
      if "bind_run (convert_piece env n ct NT NA S R ps e qs s) (\<lambda>(T, s1).
        bind_run (f (if ct \<and> T = EfiConventionalMemory then clear_piece env S R s1 else s1))
          (loop env f n ct NT NA E (R + 1))) = Some y" for R ps e qs
    proof (cases "convert_piece env n ct NT NA S R ps e qs s")
      case (Some x)
      show ?thesis
      proof (cases x)
        case (Inl u)
        with that Some show ?thesis by simp
      next
        case (Inr p)
        obtain T s1 where p: "p = (T, s1)" by (cases p)
        let ?s1 = "if ct \<and> T = EfiConventionalMemory then clear_piece env S R s1 else s1"
        have "holds UNIV (ret (T, s1)) (\<lambda>(T, s'). mFreeMapStack s' = mFreeMapStack s)"
          using convert_piece_counter [of env n ct NT NA S R ps e qs s] Some Inr p by (simp add: ret_def)
        then have b: "mFreeMapStack ?s1 \<noteq> 0" using "1.prems"(2) cl by simp
        have sg: "settling g" using "1.prems"(1) by (simp add: agree_def)
        have fg: "f ?s1 = g ?s1" using "1.prems"(1) b unfolding agree_def by blast
        have c: "mFreeMapStack s2 \<noteq> 0" if "g ?s1 = ret s2" for s2
          unfolding settling_ret [OF sg that] by (rule b)
        have "bind_run (g ?s1) (loop env f n ct NT NA E (R + 1)) = Some y"
          using that unfolding Some Inr p fg [symmetric] by simp
        then have "bind_run (g ?s1) (convert_pages_loop env g n ct NT NA E (R + 1)) = Some y"
          by (rule bind_run_Some_mono) (rule "1.IH" [OF _ "1.prems"(1) c])
        then show ?thesis unfolding Some Inr p by simp
      qed
    qed (use that in simp)
    show ?case
      unfolding convert_pages_loop.simps [of env g n ct NT NA E S s]
      using "1.hyps"
      by (cases "find_covering S (gMemoryMap s)") (auto simp: Let_def simp del: if_split split: if_split_asm intro: step)
  qed
  show ?thesis
  proof (cases "convert_pages_loop env f n ct NT NA E S s")
    case (Some r)
    then show ?thesis using one [OF Some ag] by simp
  next
    case None
    then show ?thesis using one [OF _ agree_sym [OF ag]] by (cases "convert_pages_loop env g n ct NT NA E S s") auto
  qed
qed

lemma AllocateMemoryMapEntry_agree:
  assumes ag: "agree f g" and s: "mFreeMapStack s \<noteq> 0"
  shows "AllocateMemoryMapEntry env f s = AllocateMemoryMapEntry env g s"
proof -
  have conv: "CoreConvertPages env f S n T s1 = CoreConvertPages env g S n T s1" if "mFreeMapStack s1 \<noteq> 0" for S n T s1
    unfolding CoreConvertPages_def CoreConvertPagesEx_def Let_def convert_pages_agree [OF ag that] by simp
  have "CoreAllocatePoolPages env f T n Al s = CoreAllocatePoolPages env g T n Al s" for T n Al
    unfolding CoreAllocatePoolPages_def FindFreePages_agree [OF ag s]
  proof (rule bind_run_cong [OF refl])
    fix x
    assume "FindFreePages env g MAX_ADDRESS n T Al s = ret x"
    moreover have "settling g" using ag by (simp add: agree_def)
    ultimately have "mFreeMapStack (snd x) = mFreeMapStack s"
      using FindFreePages_settles [of g env MAX_ADDRESS n T Al s] by (auto simp: settles_def)
    then show "(\<lambda>(S, s1). if S = 0 then ret (S, s1) else bind_run (CoreConvertPages env f S n T s1) (\<lambda>(Status, s2). ret (S, s2))) x =
        (\<lambda>(S, s1). if S = 0 then ret (S, s1) else bind_run (CoreConvertPages env g S n T s1) (\<lambda>(Status, s2). ret (S, s2))) x"
      using s by (auto simp: conv split: prod.split)
  qed
  then show ?thesis by (simp add: AllocateMemoryMapEntry_def)
qed

lemma free_stack_loop_agree:
  assumes ab: "\<And>s. mFreeMapStack s \<noteq> 0 \<Longrightarrow> a s = b s"
    and b: "\<And>s. holds UNIV (b s) (\<lambda>(_, s'). mFreeMapStack s' = mFreeMapStack s)" and s: "mFreeMapStack s \<noteq> 0"
  shows "free_stack_loop a s = free_stack_loop b s"
proof -
  have pop: "mFreeMapStack (pop_map_stack s1) = mFreeMapStack s1" for s1 :: "'a page_state"
    by (auto simp: pop_map_stack_def Let_def split: option.split)
  have one: "free_stack_loop y s = Some r"
    if "free_stack_loop x s = Some r" "\<And>s. mFreeMapStack s \<noteq> 0 \<Longrightarrow> x s = b s" "\<And>s. mFreeMapStack s \<noteq> 0 \<Longrightarrow> y s = b s"
    for r and x y :: "'a page_state \<Rightarrow> (bool \<times> 'a page_state) run"
    using that(2,3) s
  proof (induction rule: free_stack_loop.raw_induct [OF _ that(1)])
    case (1 loop x s r)
    have n: "mFreeMapStack s1 \<noteq> 0" if "b s = ret (ok, s1)" for ok s1
      using b [of s] "1.prems"(3) unfolding that by simp
    show ?case
      unfolding free_stack_loop.simps [of y s]
      using "1.hyps" n "1.IH" [OF _ "1.prems"(1,2)] "1.prems"(1,2) [OF "1.prems"(3)]
      by (auto simp: pop bind_run_def ret_def split: if_splits option.splits sum.splits)
  qed
  show ?thesis
  proof (cases "free_stack_loop a s")
    case (Some r)
    then show ?thesis using one [OF Some ab] by simp
  next
    case None
    then show ?thesis using one [OF _ _ ab] by (cases "free_stack_loop b s") auto
  qed
qed

text \<open>The functions that free the stack of descriptors, take a free descriptor, find and convert pages, and make
  untested memory free call one another.  The model cuts the recursion at a second entry to
  CoreFreeMemoryMapStack, which the counter makes return at once.  The result satisfies the recursive equation of the
  code: CoreFreeMemoryMapStack is its own body, in which AllocateMemoryMapEntry calls
  CoreFreeMemoryMapStack again.\<close>

theorem free_map_stack_recursive:
  "CoreFreeMemoryMapStack env s =
     assert_if True (gMemoryLock s)
       (if mFreeMapStack s \<noteq> 0 then ret s
        else bind_run
          (free_stack_loop (AllocateMemoryMapEntry env (CoreFreeMemoryMapStack env)) (s\<lparr>mFreeMapStack := mFreeMapStack s + 1\<rparr>))
          (\<lambda>s1. ret (s1\<lparr>mFreeMapStack := mFreeMapStack s1 - 1\<rparr>)))"
proof -
  have ag: "agree free_when_busy (CoreFreeMemoryMapStack env)"
    using settling_when_busy settling_stack
    by (auto simp: agree_def CoreFreeMemoryMapStack_def free_stack_with_def free_when_busy_def)
  have "free_stack_loop (AllocateMemoryMapEntry env free_when_busy) s1 =
      free_stack_loop (AllocateMemoryMapEntry env (CoreFreeMemoryMapStack env)) s1" if "mFreeMapStack s1 \<noteq> 0" for s1
    by (rule free_stack_loop_agree [OF AllocateMemoryMapEntry_agree [OF ag] _ that])
      (auto intro: holds_weaken [OF AllocateMemoryMapEntry_settles [OF settling_stack]] simp: settles_def)
  then show ?thesis by (simp add: CoreFreeMemoryMapStack_def free_stack_with_def)
qed

section \<open>Termination\<close>

definition untested_size :: "'w page_state \<Rightarrow> nat" where
  "untested_size s = card {a. 0 < untested a (memory_space s)}"

lemma keeps_untested_size: "keeps s s' \<Longrightarrow> untested_size s' \<le> untested_size s"
  unfolding untested_size_def keeps_def grows_def grows_at_def
  by (rule card_mono) (auto intro: less_le_trans)

lemma tested_more_size:
  assumes k: "keeps s s'" and t: "tested_more s s'" shows "untested_size s' < untested_size s"
proof -
  have "{a. 0 < untested a (memory_space s')} \<subseteq> {a. 0 < untested a (memory_space s)}"
    using k by (auto simp: keeps_def grows_def grows_at_def intro: less_le_trans)
  moreover obtain a where "0 < untested a (memory_space s)" "untested a (memory_space s') = 0"
    using t by (auto simp: tested_more_def)
  ultimately have "{a. 0 < untested a (memory_space s')} \<subset> {a. 0 < untested a (memory_space s)}"
    by (metis (mono_tags, lifting) less_irrefl mem_Collect_eq psubsetI)
  then show ?thesis unfolding untested_size_def by (intro psubset_card_mono) simp_all
qed

text \<open>A way of freeing the stack that comes to an end, when the counter satisfies \<open>P\<close>.\<close>

definition ending :: "(nat \<Rightarrow> bool) \<Rightarrow> ('w page_state \<Rightarrow> 'w page_state run) \<Rightarrow> bool" where
  "ending P free \<longleftrightarrow> good_free free \<and> (\<forall>s. page_inv s \<longrightarrow> P (mFreeMapStack s) \<longrightarrow> ends_if True (free s))"

lemma CoreAddRange_ends: "ends_if True (CoreAddRange env T S E A s)"
  by (auto simp: CoreAddRange_def assert_if_def Let_def intro: ends_fault split: prod.split)

lemma keeps_counter: "keeps s s' \<Longrightarrow> page_inv s' \<and> mFreeMapStack s' = mFreeMapStack s"
  by (simp add: keeps_def same_context_def)

lemma free_ret_keeps: "ending P free \<Longrightarrow> page_inv s \<Longrightarrow> free s = ret s' \<Longrightarrow> keeps s s'"
  unfolding ending_def good_free_def by (auto dest!: spec [of _ s])

lemma promote_loop_ends:
  assumes free: "ending P free"
  shows "page_inv s \<Longrightarrow> P (mFreeMapStack s) \<Longrightarrow> i + n = length (memory_space s) \<Longrightarrow> ends_if True (promote_loop env free n i p s)"
proof (induction n arbitrary: i p s)
  case (Suc n)
  have i: "i < length (memory_space s)" using Suc.prems(3) by simp
  show ?case
  proof (cases "promotable (memory_space s ! i)")
    case True
    show ?thesis
      unfolding promote_loop.simps Let_def if_P [OF True]
    proof (rule ends_bind [OF CoreAddRange_ends])
      fix s1
      assume "CoreAddRange env EfiConventionalMemory (BaseAddress (promote_entry env (memory_space s ! i)))
        (EndAddress (promote_entry env (memory_space s ! i)))
        (Capabilities (promote_entry env (memory_space s ! i)) AND
          NOT (EFI_MEMORY_PRESENT OR EFI_MEMORY_INITIALIZED OR EFI_MEMORY_TESTED OR EFI_MEMORY_RUNTIME))
        (s\<lparr>memory_space := (memory_space s)[i := promote_entry env (memory_space s ! i)]\<rparr>) = ret s1"
      from holds_ret [OF promote_step [OF Suc.prems(1) i True] this] have k: "keeps s s1" by simp
      show "ends_if True (bind_run (free s1) (promote_loop env free n (Suc i) True))"
      proof (rule ends_bind)
        show "ends_if True (free s1)" using free keeps_counter [OF k] Suc.prems(2) by (simp add: ending_def)
        fix s2
        assume "free s1 = ret s2"
        then have k2: "keeps s s2" using free_ret_keeps [OF free] keeps_counter [OF k] keeps_trans [OF k] by blast
        show "ends_if True (promote_loop env free n (Suc i) True s2)"
          by (rule Suc.IH) (use keeps_counter [OF k2] k2 Suc.prems in \<open>auto simp: keeps_def same_context_def\<close>)
      qed
    qed
  next
    case False
    then show ?thesis using Suc.prems by (auto intro!: Suc.IH)
  qed
qed simp

lemma PromoteMemoryResource_ends:
  assumes "ending P free" "page_inv s" "P (mFreeMapStack s)"
  shows "ends_if True (PromoteMemoryResource env free s)"
proof -
  let ?s = "s\<lparr>mGcdMemorySpaceLock := True\<rparr>"
  have "page_inv ?s" using assms(2) by (simp add: page_inv_def tables_ok_def)
  then have "ends_if True (promote_loop env free (length (memory_space ?s)) 0 False ?s)"
    by (rule promote_loop_ends [OF assms(1)]) (use assms(3) in simp_all)
  then show ?thesis
    unfolding PromoteMemoryResource_def CoreAcquireGcdMemoryLock_def CoreReleaseGcdMemoryLock_def
    by (auto simp: assert_if_def intro: ends_fault intro!: ends_bind)
qed

lemma FindFreePages_ends:
  assumes free: "ending P free"
  shows "page_inv s \<Longrightarrow> P (mFreeMapStack s) \<Longrightarrow> ends_if True (FindFreePages env free Mx n T Al s)"
proof (induction "untested_size s" arbitrary: s rule: less_induct)
  case less
  have last: "ends_if True (bind_run (PromoteMemoryResource env free s) (\<lambda>(Promoted, s1).
      if \<not> Promoted then ret (0, s1) else FindFreePages env free Mx n T Al s1))"
  proof (rule ends_bind [OF PromoteMemoryResource_ends [OF free less.prems]])
    fix x
    assume x: "PromoteMemoryResource env free s = ret x"
    have "good_free free" using free by (simp add: ending_def)
    from holds_ret [OF PromoteMemoryResource_keeps [OF this less.prems(1)] x]
    have k: "keeps s (snd x) \<and> (fst x \<longrightarrow> tested_more s (snd x))" by (simp add: split_beta)
    then show "ends_if True ((\<lambda>(Promoted, s1). if \<not> Promoted then ret (0, s1) else FindFreePages env free Mx n T Al s1) x)"
      using less.hyps [of "snd x"] tested_more_size [of s "snd x"] keeps_counter [of s "snd x"] less.prems(2)
      by (auto simp: split_beta)
  qed
  show ?case
    unfolding FindFreePages.simps [of env free Mx n T Al s] using last by (auto simp: Let_def)
qed

lemma ends_ite: "(b \<Longrightarrow> ends_if a m) \<Longrightarrow> (\<not> b \<Longrightarrow> ends_if a n) \<Longrightarrow> ends_if a (if b then m else n)"
  by simp

lemma pull_range_ends: "ends_if True (pull_range S R ps e qs s)"
  by (auto simp: pull_range_def assert_if_def Let_def intro: ends_fault)

lemma convert_piece_ends: "ends_if True (convert_piece env n ct NT NA S R ps e qs s)"
  unfolding convert_piece_def Let_def
  by (intro ends_bind [OF pull_range_ends]) (auto intro!: ends_bind [OF CoreAddRange_ends] simp: split_beta)

lemma convert_pages_ends:
  assumes free: "ending P free"
  shows "page_inv s \<Longrightarrow> P (mFreeMapStack s) \<Longrightarrow> S \<le> E \<longrightarrow> whole_pages S E \<Longrightarrow>
    ends_if True (convert_pages_loop env free n ct NT NA E S s)"
proof (induction "unat E + 1 - unat S" arbitrary: S s rule: less_induct)
  case less
  show ?case
  proof (cases "S < E \<and> find_covering S (gMemoryMap s) \<noteq> None")
    case False
    then show ?thesis
      unfolding convert_pages_loop.simps [of env free n ct NT NA E S s] by (auto split: option.split)
  next
    case True
    then obtain ps e qs where lt: "S < E" and f: "find_covering S (gMemoryMap s) = Some (ps, e, qs)" by auto
    let ?R = "if End e < E then End e else E"
    have e: "entry_ok e" "S < End e" using find_covering_Some [OF f] less.prems(1) by (auto simp: page_inv_def)
    have rE: "whole_pages S E" using lt less.prems(3) by auto
    have r: "range_ok S ?R" "?R \<le> End e" "S < ?R" "?R \<le> E" "?R < MAX_ADDRESS"
      using e rE lt by (auto simp: entry_ok_def range_ok_def whole_pages_def)
    have R1: "unat (?R + 1) = unat ?R + 1" by (rule unat_Suc_less [OF r(5)])
    have nxt: "?R + 1 \<le> E \<longrightarrow> whole_pages (?R + 1) E"
    proof
      assume "?R + 1 \<le> E"
      then have "?R < E" using R1 by (simp only: word_le_nat_alt word_less_nat_alt)
      then show "whole_pages (?R + 1) E" by (rule whole_pages_rest [OF rE r(1)])
    qed
    have smaller: "unat E + 1 - unat (?R + 1) < unat E + 1 - unat S"
      unfolding R1 using r(3,4) lt by (simp only: word_le_nat_alt word_less_nat_alt)
    have go: "ends_if True (bind_run (convert_piece env n ct NT NA S ?R ps e qs s) (\<lambda>(T, s1).
        bind_run (free (if ct \<and> T = EfiConventionalMemory then clear_piece env S ?R s1 else s1))
          (convert_pages_loop env free n ct NT NA E (?R + 1))))"
    proof (rule ends_bind [OF convert_piece_ends])
      fix x
      assume x: "convert_piece env n ct NT NA S ?R ps e qs s = ret x"
      obtain T s1 where x': "x = (T, s1)" by (cases x)
      let ?s1 = "if ct \<and> T = EfiConventionalMemory then clear_piece env S ?R s1 else s1"
      from holds_ret [OF convert_piece_owner [OF less.prems(1) f r(1,2)] x]
      have "page_inv s1" "mFreeMapStack s1 = mFreeMapStack s" by (auto simp: x' same_context_def)
      then have s1: "page_inv ?s1" "mFreeMapStack ?s1 = mFreeMapStack s"
        using same_memory_inv [OF clear_piece_same] clear_piece_same [of s1 env S ?R]
        by (auto simp: same_memory_def same_context_def)
      show "ends_if True ((\<lambda>(T, s1).
          bind_run (free (if ct \<and> T = EfiConventionalMemory then clear_piece env S ?R s1 else s1))
            (convert_pages_loop env free n ct NT NA E (?R + 1))) x)"
        unfolding x' prod.case
      proof (rule ends_bind)
        show "ends_if True (free ?s1)" using free s1 less.prems(2) unfolding ending_def by metis
        fix s2
        assume "free ?s1 = ret s2"
        from keeps_counter [OF free_ret_keeps [OF free s1(1) this]]
        have s2: "page_inv s2" "P (mFreeMapStack s2)" using s1(2) less.prems(2) by auto
        show "ends_if True (convert_pages_loop env free n ct NT NA E (?R + 1) s2)"
          by (rule less.hyps [OF smaller s2 nxt])
      qed
    qed
    show ?thesis
      unfolding convert_pages_loop.simps [of env free n ct NT NA E S s] f option.case prod.case Let_def
      by (intro ends_ite go) simp_all
  qed
qed

lemma CoreConvertPagesEx_ends:
  assumes "ending P free" "page_inv s" "P (mFreeMapStack s)"
  shows "ends_if True (CoreConvertPagesEx env free S n ct NT ca NA s)"
proof -
  have "ends_if True (convert_pages_loop env free n ct NT NA (S + bytes n - 1) S s)"
    if "S AND EFI_PAGE_MASK = 0" "S < S + bytes n - 1"
    using convert_pages_ends [OF assms] that page_mask_0 [of S] unat_end_of_pages [of S n] by (auto simp: whole_pages_def)
  then show ?thesis
    by (auto simp: CoreConvertPagesEx_def Let_def assert_if_def intro: ends_fault)
qed

lemma CoreAllocatePoolPages_ends:
  assumes free: "ending P free" and s: "page_inv s" "P (mFreeMapStack s)"
  shows "ends_if True (CoreAllocatePoolPages env free T n EFI_PAGE_SIZE s)"
  unfolding CoreAllocatePoolPages_def
proof (rule ends_bind [OF FindFreePages_ends [OF free s]])
  fix x
  assume x: "FindFreePages env free MAX_ADDRESS n T EFI_PAGE_SIZE s = ret x"
  have "good_free free" using free by (simp add: ending_def)
  from holds_ret [OF FindFreePages_keeps [OF this s(1)] x] have "keeps s (snd x)" by (simp add: split_beta)
  then have "page_inv (snd x)" "P (mFreeMapStack (snd x))" using keeps_counter [of s "snd x"] s(2) by auto
  then show "ends_if True ((\<lambda>(S, s1). if S = 0 then ret (S, s1)
      else bind_run (CoreConvertPages env free S n T s1) (\<lambda>(Status, s2). ret (S, s2))) x)"
    unfolding CoreConvertPages_def
    by (auto simp: split_beta intro!: ends_bind [OF CoreConvertPagesEx_ends [OF free]])
qed

lemma AllocateMemoryMapEntry_ends:
  assumes free: "ending P free" and s: "page_inv s" "P (mFreeMapStack s)"
  shows "ends_if True (AllocateMemoryMapEntry env free s)"
  unfolding AllocateMemoryMapEntry_def
  by (auto simp: split_beta intro!: ends_bind [OF CoreAllocatePoolPages_ends [OF free s]] ends_bind)

text \<open>What the list of free descriptors holds after one was taken.\<close>

lemma AllocateMemoryMapEntry_list:
  "mFreeMemoryMapEntryList s \<noteq> 0 \<Longrightarrow>
     AllocateMemoryMapEntry env free s = ret (True, s\<lparr>mFreeMemoryMapEntryList := mFreeMemoryMapEntryList s - 1\<rparr>)"
  "mFreeMemoryMapEntryList s = 0 \<Longrightarrow> AllocateMemoryMapEntry env free s = ret (True, s1) \<Longrightarrow>
     63 \<le> mFreeMemoryMapEntryList s1"
  by (auto simp: AllocateMemoryMapEntry_def bind_run_eq_ret split_beta split: if_splits)

lemma free_stack_loop_ends:
  assumes good: "good_alloc alloc" and P: "\<And>s. page_inv s \<Longrightarrow> P (mFreeMapStack s) \<Longrightarrow> ends_if True (alloc s)"
    and l1: "\<And>s. mFreeMemoryMapEntryList s \<noteq> 0 \<Longrightarrow>
      alloc s = ret (True, s\<lparr>mFreeMemoryMapEntryList := mFreeMemoryMapEntryList s - 1\<rparr>)"
    and l2: "\<And>s s1. mFreeMemoryMapEntryList s = 0 \<Longrightarrow> alloc s = ret (True, s1) \<Longrightarrow> 63 \<le> mFreeMemoryMapEntryList s1"
  shows "page_inv s \<Longrightarrow> P (mFreeMapStack s) \<Longrightarrow> ends_if True (free_stack_loop alloc s)"
proof -
  have pop: "mMapDepth (pop_map_stack s) = mMapDepth s - 1" "mFreeMapStack (pop_map_stack s) = mFreeMapStack s"
    "mFreeMemoryMapEntryList s \<le> mFreeMemoryMapEntryList (pop_map_stack s)" for s :: "'a page_state"
    by (auto simp: pop_map_stack_def Let_def split: option.split)
  have enough: "ends_if True (free_stack_loop alloc s)" if "mMapDepth s \<le> mFreeMemoryMapEntryList s" for s
    using that
  proof (induction "mMapDepth s" arbitrary: s)
    case 0
    then show ?case by (subst free_stack_loop.simps) simp
  next
    case (Suc d)
    have "ends_if True (free_stack_loop alloc (pop_map_stack (s\<lparr>mFreeMemoryMapEntryList := mFreeMemoryMapEntryList s - 1\<rparr>)))"
      by (rule Suc.hyps(1)) (use Suc.hyps(2) Suc.prems pop [of "s\<lparr>mFreeMemoryMapEntryList := mFreeMemoryMapEntryList s - 1\<rparr>"] in auto)
    with Suc.hyps(2) Suc.prems l1 [of s] show ?case by (subst free_stack_loop.simps) simp
  qed
  show "page_inv s \<Longrightarrow> P (mFreeMapStack s) \<Longrightarrow> ends_if True (free_stack_loop alloc s)"
  proof (induction "mMapDepth s" arbitrary: s)
    case 0
    then show ?case by (subst free_stack_loop.simps) simp
  next
    case (Suc d)
    have "ends_if True (bind_run (alloc s) (\<lambda>(ok, s1). if \<not> ok then Some (Inl AssertFailed) else free_stack_loop alloc (pop_map_stack s1)))"
    proof (rule ends_bind [OF P [OF Suc.prems]])
      fix x
      assume x: "alloc s = ret x"
      obtain ok s1 where x': "x = (ok, s1)" by (cases x)
      have "keeps s (if ok then give_back s1 else s1)"
        using good Suc.prems(1) x unfolding good_alloc_def by (auto simp: x' dest!: spec [of _ s])
      then have k: "page_inv s1"
        by (cases ok) (simp_all add: keeps_def page_inv_def give_back_def tables_ok_def)
      have "ends_if True (free_stack_loop alloc (pop_map_stack s1))" if ok
      proof (cases "mFreeMemoryMapEntryList s = 0")
        case True
        then have "63 \<le> mFreeMemoryMapEntryList s1" using l2 [of s s1] x x' that by simp
        moreover have "mMapDepth s1 < 6" using k by (simp add: page_inv_def)
        ultimately show ?thesis using pop [of s1] by (intro enough) linarith
      next
        case False
        then have s1: "s1 = s\<lparr>mFreeMemoryMapEntryList := mFreeMemoryMapEntryList s - 1\<rparr>" using l1 [OF False] x x' by simp
        have "mMapDepth s1 \<noteq> 0" using Suc.hyps(2) s1 by simp
        with pop_map_stack_keeps [OF k] have "keeps s1 (pop_map_stack s1)" by simp
        then show ?thesis
          using pop [of s1] s1 Suc.hyps(2) Suc.prems(2) keeps_counter [of s1 "pop_map_stack s1"] by (intro Suc.hyps(1)) auto
      qed
      then show "ends_if True ((\<lambda>(ok, s1). if \<not> ok then Some (Inl AssertFailed) else free_stack_loop alloc (pop_map_stack s1)) x)"
        by (auto simp: x' intro: ends_fault)
    qed
    with Suc.hyps(2) show ?case by (subst free_stack_loop.simps) simp
  qed
qed

lemma ending_when_busy: "ending (\<lambda>n. n \<noteq> 0) free_when_busy"
  using good_free_when_busy by (auto simp: ending_def free_when_busy_def assert_if_def intro: ends_fault)

lemma ending_stack: "ending (\<lambda>_. True) (CoreFreeMemoryMapStack env)"
proof -
  have "ends_if True (CoreFreeMemoryMapStack env s)" if "page_inv s" for s
  proof -
    let ?s = "s\<lparr>mFreeMapStack := mFreeMapStack s + 1\<rparr>"
    have "page_inv ?s" using that by (simp add: page_inv_def tables_ok_def)
    then have "ends_if True (free_stack_loop (AllocateMemoryMapEntry env free_when_busy) ?s)"
      by (intro free_stack_loop_ends [where P = "\<lambda>n. n \<noteq> 0", OF good_alloc_entry [OF good_free_when_busy]
            AllocateMemoryMapEntry_ends [OF ending_when_busy] AllocateMemoryMapEntry_list]) simp_all
    then show ?thesis
      unfolding CoreFreeMemoryMapStack_def free_stack_with_def
      by (auto simp: assert_if_def intro: ends_fault intro!: ends_bind)
  qed
  then show ?thesis using good_free_stack by (auto simp: ending_def)
qed

end
