(* ===== verification/PageServices.thy ===== *)
theory PageServices
  imports PageStack
begin

text \<open>
  The page services of the DXE core: what \<open>CoreAllocatePages\<close>, \<open>CoreFreePages\<close>, \<open>CoreUpdateMemoryAttributes\<close> and
  \<open>CoreAddMemoryDescriptor\<close> do to the memory, that they come to an end and keep the invariant, and what
  \<open>CoreGetMemoryMap\<close> tells of it.
\<close>

section \<open>Between two services\<close>

definition page_idle :: "'w page_state \<Rightarrow> bool" where
  "page_idle s \<longleftrightarrow>
     page_inv s \<and> mMapDepth s = 0 \<and> mFreeMapStack s = 0 \<and> \<not> gMemoryLock s \<and> \<not> mGcdMemorySpaceLock s"

text \<open>Between two services no descriptor is on the stack.\<close>

lemma page_idle_from_pages: "page_idle s \<Longrightarrow> e \<in> set (gMemoryMap s) \<Longrightarrow> FromPages e"
  by (auto simp: page_idle_def page_inv_def slots_ok_def slots_def List.map_filter_def FromPages_def)

text \<open>What is in use stays in use, as it was.\<close>

definition keeps_in_use :: "(u64 \<Rightarrow> bool) \<Rightarrow> 'w page_state \<Rightarrow> 'w page_state \<Rightarrow> bool" where
  "keeps_in_use P s s' \<longleftrightarrow>
     mMemoryTypeInformationInitialized s' = mMemoryTypeInformationInitialized s \<and>
     (\<forall>a T A. P a \<and> T \<noteq> EfiConventionalMemory \<and> owner s a = {#(T, A)#} \<longrightarrow> owner s' a = {#(T, A)#})"

lemma keeps_in_use_trans: "keeps_in_use P s s1 \<Longrightarrow> keeps_in_use P s1 s2 \<Longrightarrow> keeps_in_use P s s2"
  by (simp add: keeps_in_use_def)

lemma keeps_keeps_in_use: "page_inv s \<Longrightarrow> keeps s s' \<Longrightarrow> keeps_in_use P s s'"
  unfolding keeps_def grows_def keeps_in_use_def same_context_def using grows_in_use by blast

lemma round_pages_id [simp]: "round_pages EFI_PAGE_SIZE n = n"
  by (simp add: round_pages_def EFI_SIZE_TO_PAGES_def)

lemma page_alignment_id [simp]: "page_alignment T = EFI_PAGE_SIZE"
  by (simp add: page_alignment_def)

definition fully_idle :: "'w page_state \<Rightarrow> bool" where
  "fully_idle s \<longleftrightarrow> page_inv s \<and> mMapDepth s = 0 \<and> mFreeMapStack s = 0 \<and> gMemoryLock s \<and> \<not> mGcdMemorySpaceLock s"

lemma CoreConvertPagesEx_service:
  assumes "fully_idle s"
  shows "holds {AssertFailed} (CoreConvertPagesEx env (CoreFreeMemoryMapStack env) S n ct NT ca NA s) (\<lambda>r.
    (fst r = EFI_INVALID_PARAMETER \<and> snd r = s \<or> converted ct NT NA S (S + bytes n - 1) s r) \<and>
    whole_pages S (S + bytes n - 1) \<and> fully_idle (snd r))"
proof -
  have inv: "page_inv s" using assms by (simp add: fully_idle_def)
  have "holds {AssertFailed} (CoreConvertPagesEx env (CoreFreeMemoryMapStack env) S n ct NT ca NA s) (\<lambda>r.
      ((fst r = EFI_INVALID_PARAMETER \<and> snd r = s \<or> converted ct NT NA S (S + bytes n - 1) s r) \<and>
       whole_pages S (S + bytes n - 1)) \<and> settles s (snd r))"
    by (rule holds_conj [OF CoreConvertPagesEx_owner [OF good_free_stack inv],
          where G = UNIV, OF CoreConvertPagesEx_settles [OF settling_stack, unfolded split_beta]])
  then show ?thesis
    by (rule holds_weaken) (use assms in \<open>auto simp: converted_def fully_idle_def settles_def idle_def same_context_def\<close>)
qed

lemma FindFreePages_service:
  assumes "fully_idle s"
  shows "holds {AssertFailed} (FindFreePages env (CoreFreeMemoryMapStack env) Mx n T EFI_PAGE_SIZE s) (\<lambda>(S, s').
    keeps s s' \<and> found_at Mx n S s' \<and> fully_idle s')"
proof -
  have inv: "page_inv s" using assms by (simp add: fully_idle_def)
  show ?thesis
    by (rule holds_weaken [OF holds_conj [OF FindFreePages_keeps [OF good_free_stack inv],
          where G = UNIV, OF FindFreePages_settles [OF settling_stack]]])
      (use assms in \<open>auto simp: fully_idle_def settles_def idle_def same_context_def keeps_def\<close>)
qed

section \<open>Allocation\<close>

lemma lock_idle: "page_idle s \<Longrightarrow> fully_idle (s\<lparr>gMemoryLock := True\<rparr>)"
  "fully_idle s1 \<Longrightarrow> page_idle (s1\<lparr>gMemoryLock := False\<rparr>)"
  by (auto simp: page_idle_def fully_idle_def page_inv_def tables_ok_def)

lemma lock_memory [simp]:
  "owner (s\<lparr>gMemoryLock := b\<rparr>) = owner s" "memory_space (s\<lparr>gMemoryLock := b\<rparr>) = memory_space s"
  "available (s\<lparr>gMemoryLock := b\<rparr>) = available s"
  by (auto simp: available_def fun_eq_iff)

lemma lock_grows [simp]:
  "grows_at (s\<lparr>gMemoryLock := b\<rparr>) s' a = grows_at s s' a" "grows_at s (s'\<lparr>gMemoryLock := b\<rparr>) a = grows_at s s' a"
  "changed_at ct NT NA (s\<lparr>gMemoryLock := b\<rparr>) s' a = changed_at ct NT NA s s' a"
  "changed_at ct NT NA s (s'\<lparr>gMemoryLock := b\<rparr>) a = changed_at ct NT NA s s' a"
  by (simp_all add: grows_at_def changed_at_def available_def)

text \<open>What an allocation of \<open>n\<close> pages for type \<open>T\<close> with result \<open>(Status, m, s')\<close> has done.\<close>

definition allocated :: "u32 \<Rightarrow> u64 \<Rightarrow> 'w page_state \<Rightarrow> efi_status \<times> u64 option \<times> 'w page_state \<Rightarrow> bool" where
  "allocated T n s r \<longleftrightarrow>
     (case r of (Status, m, s') \<Rightarrow>
        page_idle s' \<and> keeps_in_use (\<lambda>_. True) s s' \<and>
        (Status = EFI_SUCCESS \<longrightarrow> (\<exists>S. m = Some S \<and> whole_pages S (S + bytes n - 1) \<and>
           (\<forall>a. S \<le> a \<and> a \<le> S + bytes n - 1 \<longrightarrow> available s a \<and> (\<exists>A. owner s' a = {#(T, A)#})))))"

lemma converted_keeps_in_use:
  assumes inv: "page_inv s" and NT: "NT \<noteq> EfiConventionalMemory" and c: "converted True NT NA S E s (Status, s')"
  shows "keeps_in_use (\<lambda>_. True) s s'"
proof -
  have "owner s' a = {#(T, A)#}" if o: "T \<noteq> EfiConventionalMemory" "owner s a = {#(T, A)#}" for a T A
  proof -
    have na: "\<not> available s a" using in_use_not_available [OF inv o(2,1)] .
    then have "\<not> changed_at True NT NA s s' a" using NT by (simp add: changed_at_def)
    then have "grows_at s s' a" using c by (cases "S \<le> a \<and> a \<le> E") (auto simp: converted_def)
    then show ?thesis by (rule grows_in_use [OF inv _ o(2,1)])
  qed
  then show ?thesis using c by (simp add: keeps_in_use_def converted_def same_context_def)
qed

lemma CoreInternalAllocatePages_allocated:
  assumes s: "page_idle s"
  shows "holds {AssertFailed} (CoreInternalAllocatePages env AT T n Mem s) (allocated T n s)"
proof -
  let ?s = "s\<lparr>gMemoryLock := True\<rparr>"
  note s1 = lock_idle(1) [OF s]
  have inv: "page_inv ?s" using s1 by (simp add: fully_idle_def)
  have same: "allocated T n s (Status, m, s)" if "Status \<noteq> EFI_SUCCESS" for Status m
    using that s by (simp add: allocated_def keeps_in_use_def)
  have conv: "holds {AssertFailed} (bind_run (CoreConvertPages env (CoreFreeMemoryMapStack env) S n T s2) (\<lambda>(Status, s3).
      bind_run (CoreReleaseMemoryLock s3) (\<lambda>s4. ret (Status, if \<not> EFI_ERROR Status then Some S else Mem, s4)))) (allocated T n s)"
    if s2: "fully_idle s2" "keeps ?s s2" and T: "T \<noteq> EfiConventionalMemory" for S s2
    unfolding CoreConvertPages_def
  proof (rule holds_bind [OF CoreConvertPagesEx_service [OF s2(1)]], goal_cases)
    case (1 x)
    obtain Status s3 where x: "x = (Status, s3)" by (cases x)
    have idle: "page_idle (s3\<lparr>gMemoryLock := False\<rparr>)" "gMemoryLock s3" and w: "whole_pages S (S + bytes n - 1)"
      using 1 lock_idle(2) by (auto simp: x fully_idle_def)
    have inv2: "page_inv s2" using s2(1) by (simp add: fully_idle_def)
    have k0: "keeps_in_use (\<lambda>_. True) s s2"
      using keeps_keeps_in_use [OF inv s2(2), of "\<lambda>_. True"] by (simp add: keeps_in_use_def)
    have k: "keeps_in_use (\<lambda>_. True) s2 s3"
      using 1 converted_keeps_in_use [OF inv2 T] by (auto simp: x keeps_in_use_def)
    have av: "available s a" if "available s2 a" for a
      using grows_available [of ?s s2 a] that s2(2) by (auto simp: keeps_def grows_def)
    have "available s a \<and> (\<exists>A. owner s3 a = {#(T, A)#})" if "Status = EFI_SUCCESS" "S \<le> a" "a \<le> S + bytes n - 1" for a
      using 1 that T av by (auto simp: x converted_def changed_at_def)
    moreover have "keeps_in_use (\<lambda>_. True) s (s3\<lparr>gMemoryLock := False\<rparr>)"
      using keeps_in_use_trans [OF k0 k] by (simp add: keeps_in_use_def)
    ultimately show ?case
      using idle w by (auto simp: x CoreReleaseMemoryLock_def allocated_def EFI_ERROR_def)
  qed
  have find: "holds {AssertFailed} (FindFreePages env (CoreFreeMemoryMapStack env) Mx n T EFI_PAGE_SIZE ?s) (\<lambda>(S, s').
      fully_idle s' \<and> keeps ?s s')" for Mx
    by (rule holds_weaken [OF FindFreePages_service [OF s1]]) auto
  have none: "holds {AssertFailed} (bind_run (CoreReleaseMemoryLock s2) (\<lambda>s4. ret (EFI_OUT_OF_RESOURCES, Mem, s4))) (allocated T n s)"
    if "fully_idle s2" "keeps ?s s2" for s2
    using lock_idle(2) [OF that(1)] that keeps_keeps_in_use [OF inv that(2), of "\<lambda>_. True"]
    by (auto simp: CoreReleaseMemoryLock_def allocated_def fully_idle_def keeps_in_use_def)
  have T: "T \<noteq> EfiConventionalMemory" if "\<not> (P \<or> T = EfiConventionalMemory \<or> Q)" for P Q using that by blast
  have lock: "CoreAcquireMemoryLock s = ret ?s" using s by (simp add: CoreAcquireMemoryLock_def page_idle_def)
  show ?thesis
    unfolding CoreInternalAllocatePages_def page_alignment_id round_pages_id Let_def
  proof (intro holds_if, goal_cases)
    case (3)
    show ?case
    proof (cases Mem)
      case None
      then show ?thesis by (simp add: same)
    next
      case (Some m)
      show ?thesis
        unfolding Some option.case lock bind_run_simps
      proof (intro holds_if, goal_cases)
        case 1
        show ?case by (simp add: same)
      next
        case 2
        note conv = conv [unfolded Some, OF _ _ T [OF 3(2)]]
        show ?case
        proof (cases "AT = AllocateAddress")
          case True
          then show ?thesis using conv [OF s1 keeps_refl [OF inv], of m] by simp
        next
          case False
          show ?thesis
            by (simp only: False not_False_eq_True if_True, rule holds_bind [OF find])
              (use conv none [unfolded Some] in \<open>auto simp: split_beta\<close>)
        qed
      qed
    qed
  qed (simp_all add: same)
qed

text \<open>The world outside is no part of the memory.\<close>

lemma profile_memory [simp]:
  "gMemoryMap (update_profile env act T n b s) = gMemoryMap s"
  "mFreeMemoryMapEntryList (update_profile env act T n b s) = mFreeMemoryMapEntryList s"
  "mMemoryTypeInformationInitialized (update_profile env act T n b s) = mMemoryTypeInformationInitialized s" "page_idle (update_profile env act T n b s) = page_idle s"
  by (auto simp: update_profile_def page_idle_def page_inv_def tables_ok_def fun_eq_iff)

lemma profile_keeps_in_use [simp]:
  "keeps_in_use P s (update_profile env act T n b s') = keeps_in_use P s s'"
  by (simp add: keeps_in_use_def)

lemma CoreAllocatePages_allocated:
  assumes s: "page_idle s"
  shows "holds {AssertFailed} (CoreAllocatePages env AT T n Mem s) (allocated T n s)"
  unfolding CoreAllocatePages_def
  by (rule holds_bind [OF CoreInternalAllocatePages_allocated [OF s]]) (auto simp: allocated_def split_beta)

section \<open>Freeing\<close>

text \<open>
  What freeing \<open>n\<close> pages at \<open>S\<close> has done: with success, each page of the range is free, or part of a page of
  descriptors that the operation made of it, of which there are no more than the new descriptors take; and what is in use
  outside the range is untouched.
\<close>

definition freed :: "u64 \<Rightarrow> u64 \<Rightarrow> 'w page_state \<Rightarrow> efi_status \<times> 'w page_state \<Rightarrow> bool" where
  "freed S n s r \<longleftrightarrow>
     (case r of (Status, s') \<Rightarrow>
        page_idle s' \<and> keeps_in_use (\<lambda>a. \<not> (S \<le> a \<and> a \<le> S + bytes n - 1)) s s' \<and>
        (Status = EFI_SUCCESS \<longrightarrow> whole_pages S (S + bytes n - 1) \<and>
           (\<forall>a. S \<le> a \<and> a \<le> S + bytes n - 1 \<longrightarrow> refuelled (owner s' a)) \<and>
           fuelled (\<lambda>a. S \<le> a \<and> a \<le> S + bytes n - 1) s s'))"

lemma fuelled_mono: "fuelled X s s' \<Longrightarrow> (\<And>a. Y a \<Longrightarrow> X a) \<Longrightarrow> fuelled Y s s'"
  by (rule fuelled_trans [of X s s' "\<lambda>_. False" s']) (auto intro: fuelled_none)

lemma CoreInternalFreePages_freed:
  assumes s: "page_idle s"
  shows "holds {AssertFailed} (CoreInternalFreePages env S n s) (freed S n s)"
proof -
  let ?s = "s\<lparr>gMemoryLock := True\<rparr>"
  note s1 = lock_idle(1) [OF s]
  have inv: "page_inv ?s" using s1 by (simp add: fully_idle_def)
  have lock: "CoreAcquireMemoryLock s = ret ?s" using s by (simp add: CoreAcquireMemoryLock_def page_idle_def)
  have same: "s\<lparr>gMemoryLock := False\<rparr> = s" using s by (simp add: page_idle_def)
  have none: "holds {AssertFailed} (bind_run (CoreReleaseMemoryLock ?s) (\<lambda>s3. ret (Status, s3))) (freed S n s)"
    if "Status \<noteq> EFI_SUCCESS" for Status
    using that s by (simp add: CoreReleaseMemoryLock_def same freed_def keeps_in_use_def)
  have conv: "holds {AssertFailed} (bind_run (CoreConvertPages env (CoreFreeMemoryMapStack env) S n EfiConventionalMemory ?s)
      (\<lambda>(Status, s2). bind_run (CoreReleaseMemoryLock s2) (\<lambda>s3. ret (Status, s3)))) (freed S n s)"
    unfolding CoreConvertPages_def
  proof (rule holds_bind [OF CoreConvertPagesEx_service [OF s1]], goal_cases)
    case (1 x)
    obtain Status s2 where x: "x = (Status, s2)" by (cases x)
    have idle: "page_idle (s2\<lparr>gMemoryLock := False\<rparr>)" "gMemoryLock s2" and w: "whole_pages S (S + bytes n - 1)"
      using 1 lock_idle(2) by (auto simp: x fully_idle_def)
    have "owner s2 a = {#(T, A)#}"
      if "\<not> (S \<le> a \<and> a \<le> S + bytes n - 1)" "T \<noteq> EfiConventionalMemory" "owner s a = {#(T, A)#}" for a T A
      using 1 that grows_in_use [OF inv, of s2 a T A] by (auto simp: x converted_def)
    then have "keeps_in_use (\<lambda>a. \<not> (S \<le> a \<and> a \<le> S + bytes n - 1)) s (s2\<lparr>gMemoryLock := False\<rparr>)"
      using 1 by (auto simp: x keeps_in_use_def converted_def same_context_def)
    moreover have "refuelled (owner s2 a)" if "Status = EFI_SUCCESS" "S \<le> a" "a \<le> S + bytes n - 1" for a
      using 1 that by (auto simp: x converted_def changed_at_def)
    moreover have "fuelled (\<lambda>a. S \<le> a \<and> a \<le> S + bytes n - 1) ?s s2" if "Status = EFI_SUCCESS"
      using 1 that fuelled_mono [of "touched True EfiConventionalMemory S (S + bytes n - 1) ?s" ?s s2]
      by (auto simp: x converted_def touched_def)
    ultimately show ?case using idle w by (simp add: x CoreReleaseMemoryLock_def freed_def fuelled_def boot_data_def stock_def)
  qed
  show ?thesis
    unfolding CoreInternalFreePages_def lock bind_run_simps page_alignment_id round_pages_id Let_def
    using conv none by (simp split: option.split prod.split)
qed

lemma CoreFreePages_freed:
  assumes s: "page_idle s"
  shows "holds {AssertFailed} (CoreFreePages env S n s) (freed S n s)"
  unfolding CoreFreePages_def
  by (rule holds_bind [OF CoreInternalFreePages_freed [OF s]]) (auto simp: freed_def split_beta fuelled_def boot_data_def stock_def)

section \<open>Attributes\<close>

text \<open>A change of attributes changes no type; outside the range it changes nothing that is in use.\<close>

definition recoloured :: "u64 \<Rightarrow> u64 \<Rightarrow> u64 \<Rightarrow> 'w page_state \<Rightarrow> 'w page_state \<Rightarrow> bool" where
  "recoloured S n NA s s' \<longleftrightarrow>
     page_idle s' \<and> keeps_in_use (\<lambda>a. \<not> (S \<le> a \<and> a \<le> S + bytes n - 1)) s s' \<and>
     (\<forall>a T A. S \<le> a \<and> a \<le> S + bytes n - 1 \<and> T \<noteq> EfiConventionalMemory \<and> owner s a = {#(T, A)#} \<longrightarrow>
        owner s' a \<in> {{#(T, A)#}, {#(T, NA)#}})"

lemma CoreUpdateMemoryAttributes_recoloured:
  assumes s: "page_idle s"
  shows "holds {AssertFailed} (CoreUpdateMemoryAttributes env S n NA s) (recoloured S n NA s)"
proof -
  let ?s = "s\<lparr>gMemoryLock := True\<rparr>"
  note s1 = lock_idle(1) [OF s]
  have inv: "page_inv ?s" using s1 by (simp add: fully_idle_def)
  have lock: "CoreAcquireMemoryLock s = ret ?s" using s by (simp add: CoreAcquireMemoryLock_def page_idle_def)
  show ?thesis
    unfolding CoreUpdateMemoryAttributes_def lock bind_run_simps
  proof (rule holds_bind [OF CoreConvertPagesEx_service [OF s1]], goal_cases)
    case (1 x)
    obtain Status s2 where x: "x = (Status, s2)" by (cases x)
    have idle: "page_idle (s2\<lparr>gMemoryLock := False\<rparr>)" "gMemoryLock s2"
      using 1 lock_idle(2) by (auto simp: x fully_idle_def)
    have out: "owner s2 a = {#(T, A)#}"
      if "\<not> (S \<le> a \<and> a \<le> S + bytes n - 1)" "T \<noteq> EfiConventionalMemory" "owner s a = {#(T, A)#}" for a T A
      using 1 that grows_in_use [OF inv, of s2 a T A] by (auto simp: x converted_def)
    have ins: "owner s2 a \<in> {{#(T, A)#}, {#(T, NA)#}}"
      if a: "S \<le> a" "a \<le> S + bytes n - 1" and o: "T \<noteq> EfiConventionalMemory" "owner s a = {#(T, A)#}" for a T A
    proof (cases "Status = EFI_INVALID_PARAMETER \<and> s2 = ?s")
      case True
      then show ?thesis using o by simp
    next
      case False
      with 1 a have "changed_at False 0 NA ?s s2 a \<or> grows_at ?s s2 a" by (auto simp: x converted_def)
      moreover have "\<not> available ?s a" using in_use_not_available [OF inv _ o(1)] o(2) by simp
      moreover have "grows_at ?s s2 a \<Longrightarrow> owner s2 a = {#(T, A)#}" using grows_in_use [OF inv _ _ o(1)] o(2) by simp
      ultimately show ?thesis using o by (auto simp: changed_at_def)
    qed
    have "mMemoryTypeInformationInitialized s2 = mMemoryTypeInformationInitialized s"
      using 1 by (auto simp: x converted_def same_context_def)
    with idle out ins show ?case by (simp add: x CoreReleaseMemoryLock_def recoloured_def keeps_in_use_def)
  qed
qed

section \<open>The theorems\<close>

text \<open>For concrete runs: an environment, and a map with one free range and one in use.\<close>

definition quiet_env :: "unit page_env" where
  "quiet_env =
     \<lparr>SignalMemoryMapChange = id, SetMem = (\<lambda>_ _ _. id), DEBUG_CLEAR_MEMORY = (\<lambda>_ _. id),
      CoreUpdateProfile = (\<lambda>_ _ _ _. id), PcdLoadModuleAtFixAddressEnable = 0,
      PcdLoadFixAddressRuntimeCodePageNumber = 0, PcdLoadFixAddressBootTimeCodePageNumber = 0, DxeCodeTopAddress = 0,
      DxeCoreImageHandle = 1\<rparr>"

definition sample_pages :: "unit page_state" where
  "sample_pages = (initial_pages [] ())\<lparr>
     gMemoryMap := [\<lparr>Slot = None, Type = EfiConventionalMemory, Start = 0x100000, End = 0x10FFFF, Attribute = 0xF\<rparr>,
                    \<lparr>Slot = None, Type = EfiBootServicesData, Start = 0x110000, End = 0x11FFFF, Attribute = 0xF\<rparr>],
     mFreeMemoryMapEntryList := 5\<rparr>"

lemma initial_tables_ok: "tables_ok (initial_pages space w)"
  unfolding tables_ok_def by (auto simp: initial_pages_def initial_statistics_def initial_information_def less_Suc_eq eval_nat_numeral)

lemma sample_pages_idle: "page_idle sample_pages"
proof -
  have "tables_ok sample_pages"
    using initial_tables_ok [of "[]" "()"] by (simp add: tables_ok_def sample_pages_def)
  then show ?thesis
    by (auto simp: page_idle_def page_inv_def sample_pages_def initial_pages_def entry_ok_def range_ok_def slots_ok_def
      untested_def owner_in_def dest: order_trans [where y = a and x = "0x110000 :: u64" and z = "0x10FFFF" for a])
qed

text \<open>C2: (safety) Allocated pages are exclusive: when \<open>CoreAllocatePages\<close> returns \<open>EFI_SUCCESS\<close>, whatever the type of
  the request, it returns whole pages of which every byte was free memory (of the map, or memory of the GCD map not yet
  tested) and now belongs to exactly one descriptor, of the type asked for; every address that was in use is still in
  use with the type and the attributes that it had, although the operation may itself have made pages of descriptors.
  The size is the 64-bit value of the shifted page count.\<close>

theorem allocated_pages_are_exclusive:
  assumes "page_idle s" and "CoreAllocatePages env AllocateType T n Memory s = ret (EFI_SUCCESS, m, s')"
  shows "page_idle s' \<and>
    (\<exists>S. m = Some S \<and> whole_pages S (S + bytes n - 1) \<and>
       (\<forall>a. S \<le> a \<and> a \<le> S + bytes n - 1 \<longrightarrow> available s a \<and> (\<exists>A. owner s' a = {#(T, A)#}))) \<and>
    (\<forall>a T' A. T' \<noteq> EfiConventionalMemory \<and> owner s a = {#(T', A)#} \<longrightarrow> owner s' a = {#(T', A)#})"
  using CoreAllocatePages_allocated [OF assms(1), of env AllocateType T n Memory] assms(2)
  by (auto dest!: holds_ret simp: allocated_def keeps_in_use_def)

lemma allocate_sample:
  "case CoreAllocatePages quiet_env AllocateAnyPages EfiBootServicesData 2 (Some 0) sample_pages of
     Some (Inr (Status, m, s')) \<Rightarrow> Status = EFI_SUCCESS \<and> m = Some 0x10E000 | _ \<Rightarrow> False"
  by code_simp

lemma case_run_ret: "(case m of Some (Inr x) \<Rightarrow> P x | _ \<Rightarrow> False) \<longleftrightarrow> (\<exists>x. m = ret x \<and> P x)"
  by (auto simp: ret_def split: option.splits sum.splits)

lemma allocated_pages_are_exclusive_witness:
  "\<exists>m s'. CoreAllocatePages quiet_env AllocateAnyPages EfiBootServicesData 2 (Some 0) sample_pages = ret (EFI_SUCCESS, m, s')
     \<and> owner s' 0x10E000 \<noteq> {#}"
proof -
  obtain s' where run: "CoreAllocatePages quiet_env AllocateAnyPages EfiBootServicesData 2 (Some 0) sample_pages =
      ret (EFI_SUCCESS, Some 0x10E000, s')"
    using allocate_sample unfolding case_run_ret by auto
  have "owner s' 0x10E000 \<noteq> {#}"
    using allocated_pages_are_exclusive [OF sample_pages_idle run] by force
  with run show ?thesis by blast
qed

lemma page_idle_stock: "page_idle s \<Longrightarrow> stock s = mFreeMemoryMapEntryList s + length (gMemoryMap s)"
  using page_idle_from_pages [of s] by (simp add: stock_def filter_True)

text \<open>C35: (functional) \<open>CoreFreePages\<close>: when it returns \<open>EFI_SUCCESS\<close>, the range is whole pages and each address of it belongs to
  exactly one descriptor, of free memory, except where the operation made a page of descriptors (boot services data) out of
  memory it had freed: the addresses of the range that are boot services data are no more than the bytes of the descriptors
  that there are now and were not before, so that without new descriptors there are none.  On every path, whatever the status, what is in
  use outside the range stays as it is and the allocator is left with its locks free, nothing on its stack of descriptors and
  its invariant intact.\<close>

theorem freed_pages_are_free:
  assumes "page_idle s" and "CoreFreePages env S n s = ret (Status, s')"
  shows "page_idle s' \<and>
    (\<forall>a T A. \<not> (S \<le> a \<and> a \<le> S + bytes n - 1) \<and> T \<noteq> EfiConventionalMemory \<and> owner s a = {#(T, A)#} \<longrightarrow>
       owner s' a = {#(T, A)#}) \<and>
    (Status = EFI_SUCCESS \<longrightarrow> whole_pages S (S + bytes n - 1) \<and>
       (\<forall>a. S \<le> a \<and> a \<le> S + bytes n - 1 \<longrightarrow>
          (\<exists>A. owner s' a = {#(EfiConventionalMemory, A)#} \<or> owner s' a = {#(EfiBootServicesData, A)#})) \<and>
       card {a. (S \<le> a \<and> a \<le> S + bytes n - 1) \<and> (\<exists>A. owner s' a = {#(EfiBootServicesData, A)#})} +
         64 * (mFreeMemoryMapEntryList s + length (gMemoryMap s)) \<le> 64 * (mFreeMemoryMapEntryList s' + length (gMemoryMap s')))"
proof -
  have "freed S n s (Status, s')" using CoreFreePages_freed [OF assms(1), of env S n] assms(2) by simp
  then have f: "page_idle s'" "keeps_in_use (\<lambda>a. \<not> (S \<le> a \<and> a \<le> S + bytes n - 1)) s s'"
    "Status = EFI_SUCCESS \<Longrightarrow> whole_pages S (S + bytes n - 1) \<and> (\<forall>a. S \<le> a \<and> a \<le> S + bytes n - 1 \<longrightarrow> refuelled (owner s' a)) \<and>
      fuelled (\<lambda>a. S \<le> a \<and> a \<le> S + bytes n - 1) s s'"
    by (auto simp: freed_def)
  from f(2,3) show ?thesis
    unfolding fuelled_def boot_data_def page_idle_stock [OF assms(1)] page_idle_stock [OF f(1)] refuelled_def
    using f(1) by (auto simp: keeps_in_use_def)
qed

lemma free_sample:
  "case CoreFreePages quiet_env 0x112000 3 sample_pages of
     Some (Inr (Status, s')) \<Rightarrow> Status = EFI_SUCCESS | _ \<Rightarrow> False"
  by code_simp

lemma freed_pages_are_free_witness:
  "\<exists>s'. CoreFreePages quiet_env 0x112000 3 sample_pages = ret (EFI_SUCCESS, s') \<and> page_idle s'"
proof -
  obtain s' where run: "CoreFreePages quiet_env 0x112000 3 sample_pages = ret (EFI_SUCCESS, s')"
    using free_sample unfolding case_run_ret by auto
  with freed_pages_are_free [OF sample_pages_idle run] show ?thesis by blast
qed

section \<open>Adding memory keeps the allocator idle\<close>

lemma allocated_idle: "allocated T n s r \<Longrightarrow> page_idle (snd (snd r))"
  by (auto simp: allocated_def split: prod.splits)

lemma freed_idle: "freed S n s r \<Longrightarrow> page_idle (snd r)"
  by (auto simp: freed_def split: prod.splits)

lemma CoreAllocatePages_idle:
  "page_idle s \<Longrightarrow> holds {AssertFailed} (CoreAllocatePages env AT T n Mem s) (\<lambda>(Status, m, s'). page_idle s')"
  by (rule holds_weaken [OF CoreAllocatePages_allocated]) (auto dest: allocated_idle)

lemma CoreFreePages_idle:
  "page_idle s \<Longrightarrow> holds {AssertFailed} (CoreFreePages env S n s) (\<lambda>(Status, s'). page_idle s')"
  by (rule holds_weaken [OF CoreFreePages_freed]) (auto dest: freed_idle)

text \<open>Changes of the tables.\<close>

lemma same_memory_idle:
  "same_memory s s' \<Longrightarrow> mFreeMapStack s' = mFreeMapStack s \<Longrightarrow> gMemoryLock s' = gMemoryLock s \<Longrightarrow>
     mGcdMemorySpaceLock s' = mGcdMemorySpaceLock s \<Longrightarrow> page_idle s \<Longrightarrow> page_idle s'"
  by (auto simp: page_idle_def same_memory_inv) (simp add: same_memory_def)

lemma nth_update_if: "xs[i := x] ! j = (if i = j \<and> i < length xs then x else xs ! j)"
  by (cases "i < length xs") (auto simp: list_update_beyond)

lemma statistics_idle:
  assumes "page_idle s" "InformationIndex st < 16"
  shows "page_idle (s\<lparr>mMemoryTypeStatistics := (mMemoryTypeStatistics s)[i := st]\<rparr>)"
  using assms by (auto simp: page_idle_def page_inv_def tables_ok_def nth_update_if)

lemma information_idle:
  assumes "page_idle s" "info_Type x = info_Type (gMemoryTypeInformation s ! i)"
  shows "page_idle (s\<lparr>gMemoryTypeInformation := (gMemoryTypeInformation s)[i := x]\<rparr>)"
  using assms by (auto simp: page_idle_def page_inv_def tables_ok_def nth_update_if)

lemma default_idle: "page_idle (s\<lparr>mDefaultMaximumAddress := m\<rparr>) = page_idle s"
  "page_idle (s\<lparr>gLoadFixedAddressCodeMemoryReady := b\<rparr>) = page_idle s"
  "page_idle (s\<lparr>mMemoryTypeInformationInitialized := b\<rparr>) = page_idle s"
  by (auto simp: page_idle_def page_inv_def tables_ok_def)

lemma idle_tables: "page_idle s \<Longrightarrow> tables_ok s"
  by (simp add: page_idle_def page_inv_def)

lemma idle_index: "page_idle s \<Longrightarrow> i < 16 \<Longrightarrow> InformationIndex (mMemoryTypeStatistics s ! i) < 16"
  by (simp add: page_idle_def page_inv_def tables_ok_def)

lemma set_bin_idle: "page_idle s \<Longrightarrow> unat T < 16 \<Longrightarrow> page_idle (set_bin T b m s)"
  unfolding set_bin_def by (rule statistics_idle) (simp_all add: idle_index)

lemma information_index_less: "found < 16 \<Longrightarrow> i + length xs \<le> 16 \<Longrightarrow> information_index T xs i found < 16"
  by (induction xs arbitrary: i found) auto

lemma finish_bin_idle:
  assumes s: "page_idle s" and T: "unat T < 16" shows "page_idle (finish_bin T s)"
  unfolding finish_bin_def Let_def
proof (rule statistics_idle [OF s])
  have "length (gMemoryTypeInformation s) = 16" using idle_tables [OF s] by (simp add: tables_ok_def)
  then show "InformationIndex ((mMemoryTypeStatistics s ! unat T)\<lparr>
      InformationIndex := information_index T (gMemoryTypeInformation s) 0 (InformationIndex (mMemoryTypeStatistics s ! unat T)),
      CurrentNumberOfPages := 0, stat_MaximumAddress := M\<rparr>) < 16" for M
    using information_index_less [OF idle_index [OF s T], of 0] by simp
qed

text \<open>The loops over the table of types stay in it.\<close>

lemma over_types_idle:
  assumes body: "\<And>i T s. i < 16 \<Longrightarrow> unat T < 15 \<Longrightarrow> page_idle s \<Longrightarrow> holds {AssertFailed} (body i T s) (\<lambda>(c, s'). page_idle s')"
  shows "page_idle s \<Longrightarrow> i + n = 16 \<Longrightarrow> n \<noteq> 0 \<Longrightarrow> holds {AssertFailed} (over_types n i body s) (\<lambda>(c, s'). page_idle s')"
proof (induction n arbitrary: i s)
  case (Suc n)
  let ?T = "info_Type (gMemoryTypeInformation s ! i)"
  have last: "?T = EfiMaxMemoryType" if "n = 0"
    using idle_tables [OF Suc.prems(1)] Suc.prems(2) that by (simp add: tables_ok_def)
  have small: "unat ?T < 15" if "?T \<noteq> EfiMaxMemoryType" "\<not> ?T > EfiMaxMemoryType"
  proof -
    have "?T < 15" using that by (meson not_less_iff_gr_or_eq)
    then show ?thesis by (simp add: word_less_nat_alt)
  qed
  show ?case
    unfolding over_types.simps Let_def
  proof (intro holds_if, goal_cases)
    case 1
    then show ?case using Suc.prems by simp
  next
    case 2
    then show ?case using Suc.IH [of s "Suc i"] Suc.prems last by fastforce
  next
    case 3
    show ?case
    proof (rule holds_bind [OF body], goal_cases)
      case (4 x)
      then show ?case using Suc.IH [of "snd x" "Suc i"] Suc.prems last 3 by (cases x) auto
    qed (use 3 Suc.prems small in auto)
  qed
qed simp

lemma free_bin_idle:
  assumes "page_idle s" "unat T < 15" shows "holds {AssertFailed} (free_bin env k i T s) (\<lambda>(c, s'). page_idle s')"
proof -
  have "holds {AssertFailed} (bind_run (CoreFreePages env S n s) (\<lambda>(_, s1). ret (True, set_bin T 0 MAX_ADDRESS s1)))
      (\<lambda>(c, s'). page_idle s')" for S n
    by (rule holds_bind [OF CoreFreePages_idle [OF assms(1)]]) (use assms(2) in \<open>auto simp: set_bin_idle\<close>)
  then show ?thesis using assms(1) by (simp add: free_bin_def Let_def)
qed

lemma over_table_idle:
  assumes "\<And>i T s. i < 16 \<Longrightarrow> unat T < 15 \<Longrightarrow> page_idle s \<Longrightarrow> holds {AssertFailed} (body i T s) (\<lambda>(c, s'). page_idle s')"
    and s: "page_idle s"
  shows "holds {AssertFailed} (over_types (length (gMemoryTypeInformation s)) 0 body s) (\<lambda>(c, s'). page_idle s')"
proof -
  have "length (gMemoryTypeInformation s) = 16" using idle_tables [OF s] by (simp add: tables_ok_def)
  then show ?thesis using over_types_idle [of body s 0 16, OF assms(1) s] by simp
qed

lemma allocate_bin_idle:
  assumes s: "page_idle s" and T: "unat T < 15"
  shows "holds {AssertFailed} (allocate_bin env i T s) (\<lambda>(c, s'). page_idle s')"
  unfolding allocate_bin_def Let_def
proof (intro holds_if, goal_cases)
  case 2
  show ?case
  proof (rule holds_bind [OF CoreAllocatePages_idle [OF s]], goal_cases)
    case (1 x)
    obtain Status m s1 where x: "x = (Status, m, s1)" by (cases x)
    have s1: "page_idle s1" using 1 by (simp add: x)
    show ?case
      unfolding x prod.case
    proof (intro holds_if, goal_cases)
      case 1
      show ?case
        by (rule holds_bind [OF over_table_idle [OF free_bin_idle s1]]) auto
    next
      case 2
      show ?case using s1 T by (simp add: default_idle set_bin_idle)
    qed
  qed
qed (use s in simp)

lemma release_bin_idle:
  assumes s: "page_idle s" and i: "i < 16" and T: "unat T < 15"
  shows "holds {AssertFailed} (release_bin env i T s) (\<lambda>(c, s'). page_idle s')"
  unfolding release_bin_def Let_def
proof (intro holds_if, goal_cases)
  case 2
  show ?case
  proof (rule holds_bind [OF CoreFreePages_idle [OF s]], goal_cases)
    case (1 x)
    obtain Status s1 where x: "x = (Status, s1)" by (cases x)
    have s1: "page_idle s1" using 1 by (simp add: x)
    have st: "page_idle (s1\<lparr>mMemoryTypeStatistics := (mMemoryTypeStatistics s1)[unat T :=
        (mMemoryTypeStatistics s1 ! unat T)\<lparr>stat_NumberOfPages := k\<rparr>]\<rparr>)" for k
      by (rule statistics_idle [OF s1]) (use idle_index [OF s1, of "unat T"] T in simp)
    have "page_idle (s1\<lparr>mMemoryTypeStatistics := (mMemoryTypeStatistics s1)[unat T :=
        (mMemoryTypeStatistics s1 ! unat T)\<lparr>stat_NumberOfPages := k\<rparr>],
        gMemoryTypeInformation := (gMemoryTypeInformation s1)[i := (gMemoryTypeInformation s1 ! i)\<lparr>info_NumberOfPages := 0\<rparr>]\<rparr>)" for k
      using information_idle [OF st [of k], of "(gMemoryTypeInformation s1 ! i)\<lparr>info_NumberOfPages := 0\<rparr>" i] by simp
    then show ?case unfolding x by simp
  qed
qed (use s in simp)

lemma CoreLoadingFixedAddressHook_idle:
  assumes s: "page_idle s" shows "holds {AssertFailed} (CoreLoadingFixedAddressHook env s) page_idle"
  unfolding CoreLoadingFixedAddressHook_def Let_def
proof (intro holds_if, goal_cases)
  case 2
  show ?case
  proof (rule holds_bind [OF CoreAllocatePages_idle [OF s]], goal_cases)
    case (1 x)
    obtain Status m s1 where x: "x = (Status, m, s1)" by (cases x)
    have s1: "page_idle s1" using 1 by (simp add: x)
    show ?case
      unfolding x prod.case
    proof (intro holds_if, goal_cases)
      case 2
      show ?case
      proof (rule holds_bind [OF CoreAllocatePages_idle [OF s1]], goal_cases)
        case (1 y)
        obtain Status1 m1 s2 where y: "y = (Status1, m1, s2)" by (cases y)
        have s2: "page_idle s2" using 1 by (simp add: y)
        show ?case
          unfolding y prod.case
        proof (intro holds_if, goal_cases)
          case 1
          show ?case by (rule holds_bind [OF CoreFreePages_idle [OF s2]]) auto
        qed (use s2 in \<open>simp add: default_idle\<close>)
      qed
    qed (use s1 in simp)
  qed
qed (use s in simp)

text \<open>
  The ranges that may be added: whole pages below the top of the address space that no descriptor and no untested
  memory covers.
\<close>

definition addable :: "u64 \<Rightarrow> u64 \<Rightarrow> 'w page_state \<Rightarrow> bool" where
  "addable S n s \<longleftrightarrow>
     n \<noteq> 0 \<and> unat S + 4096 * unat n < 2 ^ 64 \<and> (\<forall>a. S \<le> a \<and> a \<le> S + bytes n - 1 \<longrightarrow> unclaimed s a)"

lemma addable_range:
  assumes a: "addable S n s" and S: "S AND EFI_PAGE_MASK = 0" shows "range_ok S (S + bytes n - 1)"
proof -
  have n: "n \<noteq> 0" "unat S + 4096 * unat n < 2 ^ 64" using a by (auto simp: addable_def)
  then have b: "unat (bytes n) = 4096 * unat n" by (intro unat_bytes) simp
  then have sum: "unat (S + bytes n) = unat S + 4096 * unat n" using n by (simp add: unat_word_ariths)
  have pos: "0 < unat n" using n by (simp add: unat_gt_0)
  have m: "unat S mod 4096 = 0" using S by (rule page_mask_0 [THEN iffD1])
  have nz: "S + bytes n \<noteq> 0" using sum pos by (metis add_is_0 mult_is_0 not_less_zero unat_0 zero_neq_numeral)
  have e: "unat (S + bytes n - 1) + 1 = unat S + 4096 * unat n"
    using sum pos unat_minus_one [OF nz] by linarith
  have "unat S < unat (S + bytes n - 1)" "unat (S + bytes n - 1) < 2 ^ 64 - 1" using e n(2) pos by linarith+
  moreover have "unat (MAX_ADDRESS :: u64) = 2 ^ 64 - 1" by simp
  ultimately show ?thesis
    using m unat_end_of_pages [OF m, of n] unfolding range_ok_def word_less_nat_alt by metis
qed

text \<open>What adding a range has done to the memory, before the bins are made.\<close>

lemma add_range_keeps:
  assumes s: "fully_idle s" and u: "addable S n s" and S: "S AND EFI_PAGE_MASK = 0"
  shows "holds {AssertFailed}
    (bind_run (CoreAddRange env T S (S + bytes n - 1) A s) (CoreFreeMemoryMapStack env))
    (\<lambda>s'. fully_idle s' \<and> mMemoryTypeInformationInitialized s' = mMemoryTypeInformationInitialized s \<and>
       (\<exists>s1. page_inv s1 \<and> (\<forall>a. owner s1 a = owner s a + owner_in S (S + bytes n - 1) (T, A) a) \<and> grows s1 s'))"
proof (rule holds_bind, rule CoreAddRange_owner [OF _ addable_range [OF u S]])
  show "page_inv s" using s by (simp add: fully_idle_def)
  show "unclaimed s a" if "S \<le> a" "a \<le> S + bytes n - 1" for a using u that by (simp add: addable_def)
next
  fix s1
  assume s1: "page_inv s1 \<and> (\<forall>a. owner s1 a = owner s a + owner_in S (S + bytes n - 1) (T, A) a) \<and>
      memory_space s1 = memory_space s \<and> same_context s s1 \<and> mMapDepth s1 = Suc (mMapDepth s) \<and>
      mFreeMemoryMapEntryList s \<le> mFreeMemoryMapEntryList s1 \<and> stock s1 = stock s"
  show "holds {AssertFailed} (CoreFreeMemoryMapStack env s1) (\<lambda>s'. fully_idle s' \<and>
      mMemoryTypeInformationInitialized s' = mMemoryTypeInformationInitialized s \<and> (\<exists>s1. page_inv s1 \<and> (\<forall>a. owner s1 a = owner s a + owner_in S (S + bytes n - 1) (T, A) a) \<and> grows s1 s'))"
    by (rule holds_weaken [OF CoreFreeMemoryMapStack_keeps])
      (use s s1 in \<open>auto simp: fully_idle_def keeps_def same_context_def\<close>)
qed

text \<open>
  Added memory that is not free memory is in use with the type and the attributes given; what was in use is
  untouched.
\<close>

definition added :: "u32 \<Rightarrow> u64 \<Rightarrow> u64 \<Rightarrow> u64 \<Rightarrow> 'w page_state \<Rightarrow> 'w page_state \<Rightarrow> bool" where
  "added T A S n s s' \<longleftrightarrow>
     keeps_in_use (\<lambda>_. True) s s' \<and>
     (\<forall>a. S \<le> a \<and> a \<le> S + bytes n - 1 \<longrightarrow>
        (if T = EfiConventionalMemory then refuelled (owner s' a) else owner s' a = {#(T, A)#}))"

lemma add_range_added:
  assumes inv: "page_inv s1" and o: "\<forall>a. owner s1 a = owner s a + owner_in S (S + bytes n - 1) (T, A) a"
    and g: "grows s1 s'" and u: "addable S n s" and i: "mMemoryTypeInformationInitialized s' = mMemoryTypeInformationInitialized s"
  shows "added T A S n s s'"
  unfolding added_def keeps_in_use_def
proof (intro conjI allI impI, goal_cases)
  case 1
  show ?case by (rule i)
next
  case (2 a T' A')
  have "\<not> (S \<le> a \<and> a \<le> S + bytes n - 1)" using 2 u by (auto simp: addable_def unclaimed_def)
  then have "owner s1 a = {#(T', A')#}" using o 2 by (simp add: owner_in_def)
  then show ?case using grows_in_use [OF inv] g 2 by (auto simp: grows_def)
next
  case (3 a)
  have o1: "owner s1 a = {#(T, A)#}" using o u 3 by (simp add: owner_in_def addable_def unclaimed_def)
  have g1: "grows_at s1 s' a" using g by (simp add: grows_def)
  show ?case
  proof (cases "T = EfiConventionalMemory")
    case True
    then show ?thesis using g1 o1 by (auto simp: grows_at_def refuelled_def)
  next
    case False
    then show ?thesis using grows_in_use [OF inv g1 o1] by simp
  qed
qed

lemma CoreAddMemoryDescriptor_added:
  assumes s: "page_idle s" and u: "addable S n s"
  shows "holds {AssertFailed} (CoreAddMemoryDescriptor env T S n A s) (\<lambda>s'. page_idle s' \<and>
    (mMemoryTypeInformationInitialized s \<and> PcdLoadModuleAtFixAddressEnable env = 0 \<and> S AND EFI_PAGE_MASK = 0 \<and>
       \<not> (T \<ge> EfiMaxMemoryType \<and> T < MEMORY_TYPE_OEM_RESERVED_MIN) \<longrightarrow> added T A S n s s'))"
proof -
  let ?s = "s\<lparr>gMemoryLock := True\<rparr>"
  let ?Q = "\<lambda>s'. page_idle s' \<and> (mMemoryTypeInformationInitialized s \<and> PcdLoadModuleAtFixAddressEnable env = 0 \<longrightarrow> added T A S n s s')"
  have u1: "addable S n ?s" using u by (simp add: addable_def unclaimed_def)
  have lock: "CoreAcquireMemoryLock s = ret ?s" using s by (simp add: CoreAcquireMemoryLock_def page_idle_def)
  have bins: "holds {AssertFailed}
      (bind_run (over_types (length (gMemoryTypeInformation s5)) 0 (allocate_bin env) s5) (\<lambda>(ok, s6).
        if \<not> ok then ret s6
        else bind_run (over_types (length (gMemoryTypeInformation s6)) 0 (release_bin env) s6) (\<lambda>(_, s7).
          ret ((fold finish_bin (map word_of_nat [0..<15]) s7)\<lparr>mMemoryTypeInformationInitialized := True\<rparr>)))) page_idle"
    if s5: "page_idle s5" for s5
  proof (rule holds_bind [OF over_table_idle [OF allocate_bin_idle s5]], assumption+, goal_cases)
    case (1 x)
    obtain ok s6 where x: "x = (ok, s6)" by (cases x)
    have s6: "page_idle s6" using 1 by (simp add: x)
    have fin: "page_idle (fold finish_bin (map word_of_nat xs) s7)" if "page_idle s7" "\<forall>i\<in>set xs. i < 15" for xs s7
      using that by (induction xs arbitrary: s7) (auto simp: finish_bin_idle unat_of_nat)
    have "page_idle (fold finish_bin (map word_of_nat [0..<15]) s7)" if "page_idle s7" for s7 using that by (rule fin) simp
    then show ?case
      unfolding x prod.case using s6
      by (auto simp: default_idle simp del: upt_Suc intro!: holds_bind [OF over_table_idle [OF release_bin_idle s6]])
  qed
  have rest: "holds {AssertFailed}
      (bind_run (CoreReleaseMemoryLock s3) (\<lambda>s4.
        bind_run (if PcdLoadModuleAtFixAddressEnable env \<noteq> 0 then CoreLoadingFixedAddressHook env s4 else ret s4) (\<lambda>s5.
          if mMemoryTypeInformationInitialized s5 then ret s5
          else
            bind_run (over_types (length (gMemoryTypeInformation s5)) 0 (allocate_bin env) s5) (\<lambda>(ok, s6).
              if \<not> ok then ret s6
              else
                bind_run (over_types (length (gMemoryTypeInformation s6)) 0 (release_bin env) s6) (\<lambda>(_, s7).
                  ret ((fold finish_bin (map word_of_nat [0..<15]) s7)\<lparr>mMemoryTypeInformationInitialized := True\<rparr>)))))) ?Q"
    if s3: "fully_idle s3" and i: "mMemoryTypeInformationInitialized s3 = mMemoryTypeInformationInitialized s"
      and a: "added T A S n s s3" for s3
  proof -
    have lock: "CoreReleaseMemoryLock s3 = ret (s3\<lparr>gMemoryLock := False\<rparr>)"
      using s3 by (simp add: CoreReleaseMemoryLock_def fully_idle_def)
    have s4: "page_idle (s3\<lparr>gMemoryLock := False\<rparr>)" using s3 by (rule lock_idle(2))
    have hook: "holds {AssertFailed} (if PcdLoadModuleAtFixAddressEnable env \<noteq> 0
        then CoreLoadingFixedAddressHook env (s3\<lparr>gMemoryLock := False\<rparr>) else ret (s3\<lparr>gMemoryLock := False\<rparr>))
        (\<lambda>s5. page_idle s5 \<and> (PcdLoadModuleAtFixAddressEnable env = 0 \<longrightarrow> s5 = s3\<lparr>gMemoryLock := False\<rparr>))"
      using s4 by (auto intro: holds_weaken [OF CoreLoadingFixedAddressHook_idle [OF s4]])
    have a': "added T A S n s (s3\<lparr>gMemoryLock := False\<rparr>)" using a by (simp add: added_def keeps_in_use_def)
    show ?thesis
      unfolding lock bind_run_simps
    proof (rule holds_bind [OF hook], rule holds_if, goal_cases)
      case (1 s5)
      then show ?case using a' by auto
    next
      case (2 s5)
      then show ?case using i by (auto intro!: holds_weaken [OF bins])
    qed
  qed
  have add: "holds {AssertFailed} (bind_run (CoreAddRange env T S (S + bytes n - 1) A ?s) (CoreFreeMemoryMapStack env))
      (\<lambda>s3. fully_idle s3 \<and> mMemoryTypeInformationInitialized s3 = mMemoryTypeInformationInitialized s \<and> added T A S n s s3)"
    if S: "S AND EFI_PAGE_MASK = 0"
  proof (rule holds_weaken [OF add_range_keeps [OF lock_idle(1) [OF s] u1 S]], goal_cases)
    case (1 s3)
    then show ?case using add_range_added [OF _ _ _ u1, of _ T A s3] by (auto simp: added_def keeps_in_use_def)
  qed
  have bind_bind: "bind_run m (\<lambda>x. bind_run (k x) l) = bind_run (bind_run m k) l" for m :: "'a page_state run" and k and l :: "'a page_state \<Rightarrow> 'a page_state run"
    by (simp add: bind_run_def split: option.split sum.split)
  show ?thesis
    unfolding CoreAddMemoryDescriptor_def lock bind_run_simps
  proof (intro holds_if, goal_cases)
    case 3
    show ?case
      by (subst bind_bind, rule holds_bind [OF add]) (use 3 in \<open>auto intro!: holds_weaken [OF rest]\<close>)
  qed (use s in auto)
qed

section \<open>Sequences of calls\<close>

datatype page_call =
    AllocatePages u32 u32 u64 "u64 option"
  | FreePages u64 u64
  | UpdateMemoryAttributes u64 u64 u64
  | AddMemory u32 u64 u64 u64
  | GetMemoryMap "u64 option" bool
  | TerminateMemoryMap u64

text \<open>
  A call of a page service that returns.  \<open>CoreAddMemoryDescriptor\<close> is called by the initialisation of memory and
  by the GCD services; its callers own the range that they add.
\<close>

inductive page_step :: "'w page_env \<Rightarrow> page_call \<Rightarrow> 'w page_state \<Rightarrow> 'w page_state \<Rightarrow> bool" for env where
  step_allocate: "CoreAllocatePages env AT T n Mem s = ret (Status, m, s') \<Longrightarrow> page_step env (AllocatePages AT T n Mem) s s'"
| step_free: "CoreFreePages env S n s = ret (Status, s') \<Longrightarrow> page_step env (FreePages S n) s s'"
| step_update: "CoreUpdateMemoryAttributes env S n NA s = ret s' \<Longrightarrow> page_step env (UpdateMemoryAttributes S n NA) s s'"
| step_add: "addable S n s \<Longrightarrow> CoreAddMemoryDescriptor env T S n A s = ret s' \<Longrightarrow> page_step env (AddMemory T S n A) s s'"
| step_map: "CoreGetMemoryMap sz null s = ret (Status, out, s') \<Longrightarrow> page_step env (GetMemoryMap sz null) s s'"
| step_terminate: "CoreTerminateMemoryMap k s = ret (Status, s') \<Longrightarrow> page_step env (TerminateMemoryMap k) s s'"

inductive page_run :: "'w page_env \<Rightarrow> page_call list \<Rightarrow> 'w page_state \<Rightarrow> 'w page_state \<Rightarrow> bool" for env where
  run_nil: "page_run env [] s s"
| run_call: "page_step env c s s1 \<Longrightarrow> page_run env cs s1 s' \<Longrightarrow> page_run env (c # cs) s s'"

inductive_simps page_run_simps: "page_run env [] s s'" "page_run env (c # cs) s s'"

text \<open>Reading the map changes nothing.\<close>

lemma CoreGetMemoryMap_state:
  assumes s: "page_idle s" shows "holds UNIV (CoreGetMemoryMap sz null s) (\<lambda>(Status, out, s'). s' = s)"
proof (cases sz)
  case (Some b)
  have same: "s\<lparr>mGcdMemorySpaceLock := False, gMemoryLock := False\<rparr> = s" using s by (simp add: page_idle_def)
  have any: "holds UNIV m (\<lambda>_. True)" for m :: "(efi_status \<times> u64 \<times> EFI_MEMORY_DESCRIPTOR list option) run"
    by (rule holds_any)
  show ?thesis
    using s same
    by (auto simp: CoreGetMemoryMap_def Some CoreAcquireGcdMemoryLock_def CoreAcquireMemoryLock_def
        CoreReleaseGcdMemoryLock_def CoreReleaseMemoryLock_def page_idle_def Let_def split_beta
        intro!: holds_bind [OF any])
qed (simp add: CoreGetMemoryMap_def)

lemma CoreTerminateMemoryMap_state:
  assumes s: "page_idle s" shows "holds UNIV (CoreTerminateMemoryMap k s) (\<lambda>(Status, s'). s' = s)"
proof -
  have same: "s\<lparr>gMemoryLock := False\<rparr> = s" using s by (simp add: page_idle_def)
  have any: "holds UNIV m (\<lambda>_. True)" for m :: "efi_status run" by (rule holds_any)
  show ?thesis
    using s same
    by (auto simp: CoreTerminateMemoryMap_def CoreAcquireMemoryLock_def CoreReleaseMemoryLock_def page_idle_def
        intro!: holds_bind [OF any])
qed

text \<open>Each call keeps the allocator idle.\<close>

lemma page_step_idle: "page_step env c s s' \<Longrightarrow> page_idle s \<Longrightarrow> page_idle s'"
proof (induction rule: page_step.induct)
  case (step_allocate AT T n Mem s Status m s')
  with CoreAllocatePages_idle [of s env AT T n Mem] show ?case by simp
next
  case (step_free S n s Status s')
  with CoreFreePages_idle [of s env S n] show ?case by simp
next
  case (step_update S n NA s s')
  with CoreUpdateMemoryAttributes_recoloured [of s env S n NA] show ?case by (simp add: recoloured_def)
next
  case (step_add S n s T A s')
  with CoreAddMemoryDescriptor_added [of s S n env T A] show ?case by simp
next
  case (step_map sz null s Status out s')
  with CoreGetMemoryMap_state [of s sz null] show ?case by simp
next
  case (step_terminate k s Status s')
  with CoreTerminateMemoryMap_state [of s k] show ?case by simp
qed

lemma page_run_idle: "page_run env cs s s' \<Longrightarrow> page_idle s \<Longrightarrow> page_idle s'"
  by (induction rule: page_run.induct) (auto dest: page_step_idle)

text \<open>The calls that may change what is in use at an address.\<close>

fun touches :: "u64 \<Rightarrow> page_call \<Rightarrow> bool" where
  "touches a (FreePages S n) = (S \<le> a \<and> a \<le> S + bytes n - 1)"
| "touches a (UpdateMemoryAttributes S n NA) = (S \<le> a \<and> a \<le> S + bytes n - 1)"
| "touches a c = False"

lemma CoreAddMemoryDescriptor_in_use:
  assumes s: "page_idle s" and u: "addable S n s" and i: "mMemoryTypeInformationInitialized s" "PcdLoadModuleAtFixAddressEnable env = 0"
  shows "holds {AssertFailed} (CoreAddMemoryDescriptor env T S n A s) (keeps_in_use (\<lambda>_. True) s)"
proof (cases "S AND EFI_PAGE_MASK = 0 \<and> \<not> (T \<ge> EfiMaxMemoryType \<and> T < MEMORY_TYPE_OEM_RESERVED_MIN)")
  case True
  then show ?thesis using i by (intro holds_weaken [OF CoreAddMemoryDescriptor_added [OF s u]]) (auto simp: added_def)
next
  case False
  then show ?thesis by (auto simp: CoreAddMemoryDescriptor_def keeps_in_use_def)
qed

lemma page_step_in_use:
  "page_step env c s s' \<Longrightarrow> page_idle s \<Longrightarrow> PcdLoadModuleAtFixAddressEnable env = 0 \<Longrightarrow>
    mMemoryTypeInformationInitialized s \<Longrightarrow> keeps_in_use (\<lambda>a. \<not> touches a c) s s'"
proof (induction rule: page_step.induct)
  case (step_allocate AT T n Mem s Status m s')
  with CoreAllocatePages_allocated [of s env AT T n Mem] show ?case by (simp add: allocated_def)
next
  case (step_free S n s Status s')
  with CoreFreePages_freed [of s env S n] show ?case by (simp add: freed_def)
next
  case (step_update S n NA s s')
  with CoreUpdateMemoryAttributes_recoloured [of s env S n NA] show ?case by (simp add: recoloured_def)
next
  case (step_add S n s T A s')
  with CoreAddMemoryDescriptor_in_use [of s S n env T A] show ?case by simp
next
  case (step_map sz null s Status out s')
  with CoreGetMemoryMap_state [of s sz null] show ?case by (simp add: keeps_in_use_def)
next
  case (step_terminate k s Status s')
  with CoreTerminateMemoryMap_state [of s k] show ?case by (simp add: keeps_in_use_def)
qed

lemma page_run_in_use:
  "page_run env cs s s' \<Longrightarrow> page_idle s \<Longrightarrow> PcdLoadModuleAtFixAddressEnable env = 0 \<Longrightarrow>
    mMemoryTypeInformationInitialized s \<Longrightarrow> keeps_in_use (\<lambda>a. \<forall>c\<in>set cs. \<not> touches a c) s s'"
proof (induction rule: page_run.induct)
  case (run_call c s s1 cs s')
  have "keeps_in_use (\<lambda>a. \<not> touches a c) s s1" using page_step_in_use run_call by blast
  moreover from this have "keeps_in_use (\<lambda>a. \<forall>c\<in>set cs. \<not> touches a c) s1 s'"
    using run_call page_step_idle by (auto simp: keeps_in_use_def)
  ultimately show ?case by (auto simp: keeps_in_use_def)
qed (simp add: keeps_in_use_def)

section \<open>The services come to an end\<close>

lemma ends_holds: "ends_if True m \<Longrightarrow> holds F m R \<Longrightarrow> (\<And>x. R x \<Longrightarrow> ends_if True (k x)) \<Longrightarrow> ends_if True (bind_run m k)"
  by (rule ends_bind) auto

lemma ends_lock [simp]:
  "ends_if True (CoreAcquireMemoryLock s)" "ends_if True (CoreReleaseMemoryLock s)"
  "ends_if True (CoreAcquireGcdMemoryLock s)" "ends_if True (CoreReleaseGcdMemoryLock s)"
  by (auto simp: CoreAcquireMemoryLock_def CoreReleaseMemoryLock_def CoreAcquireGcdMemoryLock_def
    CoreReleaseGcdMemoryLock_def assert_if_def intro: ends_fault)

lemma CoreConvertPagesEx_stops:
  "page_inv s \<Longrightarrow> ends_if True (CoreConvertPagesEx env (CoreFreeMemoryMapStack env) S n ct NT ca NA s)"
  by (rule CoreConvertPagesEx_ends [OF ending_stack]) simp_all

lemma ends_after_lock:
  "(\<And>s1. fully_idle s1 \<Longrightarrow> ends_if True (k s1)) \<Longrightarrow> page_idle s \<Longrightarrow> ends_if True (bind_run (CoreAcquireMemoryLock s) k)"
  using lock_idle(1) [of s] by (simp add: CoreAcquireMemoryLock_def page_idle_def)

lemma CoreInternalAllocatePages_ends:
  assumes s: "page_idle s" shows "ends_if True (CoreInternalAllocatePages env AT T n Mem s)"
proof -
  have conv: "ends_if True (bind_run (CoreConvertPages env (CoreFreeMemoryMapStack env) S n T s2) (\<lambda>(Status, s3).
      bind_run (CoreReleaseMemoryLock s3) (\<lambda>s4. ret (Status, if \<not> EFI_ERROR Status then Some S else Mem, s4))))"
    if "page_inv s2" for S s2 Mem
    unfolding CoreConvertPages_def
    by (rule ends_bind [OF CoreConvertPagesEx_stops [OF that]]) (auto simp: split_beta intro!: ends_bind)
  have find: "ends_if True (bind_run (FindFreePages env (CoreFreeMemoryMapStack env) Mx n T EFI_PAGE_SIZE s1) k)"
    if "fully_idle s1" "\<And>x. fully_idle (snd x) \<Longrightarrow> ends_if True (k x)" for s1 Mx and k :: "_ \<Rightarrow> 'b run"
    by (rule ends_holds [OF FindFreePages_ends [OF ending_stack] FindFreePages_service [OF that(1)]])
      (use that in \<open>auto simp: fully_idle_def split_beta\<close>)
  have "ends_if True
      (bind_run
         (if AT \<noteq> AllocateAddress then FindFreePages env (CoreFreeMemoryMapStack env) Mx n T EFI_PAGE_SIZE s1
          else ret (m, s1)) (\<lambda>(S, s2).
       bind_run
         (if AT \<noteq> AllocateAddress \<and> S = 0 then ret (EFI_OUT_OF_RESOURCES, s2)
          else CoreConvertPages env (CoreFreeMemoryMapStack env) S n T s2) (\<lambda>(Status, s3).
       bind_run (CoreReleaseMemoryLock s3) (\<lambda>s4. ret (Status, if \<not> EFI_ERROR Status then Some S else Mem, s4)))))"
    if "fully_idle s1" for s1 Mx m
  proof (cases "AT = AllocateAddress")
    case True
    then show ?thesis using that conv by (simp add: fully_idle_def)
  next
    case False
    have "ends_if True (bind_run (ret (EFI_OUT_OF_RESOURCES, s2)) (\<lambda>(Status, s3).
       bind_run (CoreReleaseMemoryLock s3) (\<lambda>s4. ret (Status, if \<not> EFI_ERROR Status then Some S else Mem, s4))))"
      for S and s2 :: "'a page_state" by (auto intro!: ends_bind)
    then show ?thesis using False conv
      by (auto simp: fully_idle_def split_beta intro!: find [OF that])
  qed
  note body = this
  show ?thesis
    unfolding CoreInternalAllocatePages_def page_alignment_id round_pages_id Let_def
  proof (intro ends_ite ends_ret)
    show "ends_if True (case Mem of None \<Rightarrow> ret (EFI_INVALID_PARAMETER, Mem, s) | Some m \<Rightarrow>
       if AT = AllocateAddress \<and> m AND (EFI_PAGE_SIZE - 1) \<noteq> 0 then ret (EFI_NOT_FOUND, Mem, s)
       else bind_run (CoreAcquireMemoryLock s) (\<lambda>s1.
         bind_run
           (if AT \<noteq> AllocateAddress
            then FindFreePages env (CoreFreeMemoryMapStack env) (if AT = AllocateMaxAddress then m else MAX_ADDRESS) n T EFI_PAGE_SIZE s1
            else ret (m, s1)) (\<lambda>(S, s2).
         bind_run
           (if AT \<noteq> AllocateAddress \<and> S = 0 then ret (EFI_OUT_OF_RESOURCES, s2)
            else CoreConvertPages env (CoreFreeMemoryMapStack env) S n T s2) (\<lambda>(Status, s3).
         bind_run (CoreReleaseMemoryLock s3) (\<lambda>s4. ret (Status, if \<not> EFI_ERROR Status then Some S else Mem, s4))))))"
    proof (cases Mem)
      case (Some m)
      show ?thesis unfolding Some option.case by (intro ends_ite ends_ret ends_after_lock [OF body [unfolded Some] s])
    qed simp
  qed
qed

lemma CoreAllocatePages_ends: "page_idle s \<Longrightarrow> ends_if True (CoreAllocatePages env AT T n Mem s)"
  unfolding CoreAllocatePages_def by (rule ends_bind [OF CoreInternalAllocatePages_ends]) (auto simp: split_beta)

lemma CoreFreePages_ends:
  assumes s: "page_idle s" shows "ends_if True (CoreFreePages env S n s)"
proof -
  have "ends_if True
      (bind_run
         (case find_covering S (gMemoryMap s1) of None \<Rightarrow> ret (EFI_NOT_FOUND, s1)
          | Some (ps, Entry, qs) \<Rightarrow>
              if S AND (EFI_PAGE_SIZE - 1) \<noteq> 0 then ret (EFI_INVALID_PARAMETER, s1)
              else CoreConvertPages env (CoreFreeMemoryMapStack env) S n EfiConventionalMemory s1) (\<lambda>(Status, s2).
       bind_run (CoreReleaseMemoryLock s2) (\<lambda>s3. ret (Status, s3))))" if "fully_idle s1" for s1
    unfolding CoreConvertPages_def using CoreConvertPagesEx_stops [of s1] that
    by (intro ends_bind) (auto simp: fully_idle_def split_beta split: option.split intro!: ends_bind)
  then show ?thesis
    unfolding CoreFreePages_def CoreInternalFreePages_def page_alignment_id round_pages_id Let_def
    by (intro ends_bind [OF ends_after_lock [OF _ s]]) (auto simp: split_beta)
qed

lemma CoreUpdateMemoryAttributes_ends:
  "page_idle s \<Longrightarrow> ends_if True (CoreUpdateMemoryAttributes env S n NA s)"
  unfolding CoreUpdateMemoryAttributes_def
  by (rule ends_after_lock, rule ends_bind [OF CoreConvertPagesEx_stops]) (auto simp: split_beta fully_idle_def)

text \<open>The loops over the types.\<close>

lemma over_types_ends:
  assumes ends: "\<And>i T s. unat T < 15 \<Longrightarrow> page_idle s \<Longrightarrow> ends_if True (body i T s)"
    and body: "\<And>i T s. i < 16 \<Longrightarrow> unat T < 15 \<Longrightarrow> page_idle s \<Longrightarrow> holds {AssertFailed} (body i T s) (\<lambda>(c, s'). page_idle s')"
  shows "page_idle s \<Longrightarrow> i + n = 16 \<Longrightarrow> ends_if True (over_types n i body s)"
proof (induction n arbitrary: i s)
  case 0
  then show ?case by (simp add: ends_fault)
next
  case (Suc n)
  let ?T = "info_Type (gMemoryTypeInformation s ! i)"
  have small: "unat ?T < 15" if "?T \<noteq> EfiMaxMemoryType" "\<not> ?T > EfiMaxMemoryType"
  proof -
    have "?T < 15" using that by (meson not_less_iff_gr_or_eq)
    then show ?thesis by (simp add: word_less_nat_alt)
  qed
  show ?case
    unfolding over_types.simps Let_def
  proof (intro ends_ite ends_ret, goal_cases)
    case 1
    then show ?case using Suc.IH [of s "Suc i"] Suc.prems by simp
  next
    case 2
    show ?case
      by (rule ends_holds [OF ends [OF small] body [OF _ small]])
        (use Suc 2 in \<open>auto simp: split_beta\<close>)
  qed
qed

lemma over_table_ends:
  assumes "\<And>i T s. unat T < 15 \<Longrightarrow> page_idle s \<Longrightarrow> ends_if True (body i T s)"
    and "\<And>i T s. i < 16 \<Longrightarrow> unat T < 15 \<Longrightarrow> page_idle s \<Longrightarrow> holds {AssertFailed} (body i T s) (\<lambda>(c, s'). page_idle s')"
    and s: "page_idle s"
  shows "ends_if True (over_types (length (gMemoryTypeInformation s)) 0 body s)"
  using over_types_ends [of body s 0 16, OF assms] idle_tables [OF s] by (simp add: tables_ok_def)

lemma free_bin_ends: "page_idle s \<Longrightarrow> ends_if True (free_bin env k i T s)"
  by (auto simp: free_bin_def Let_def split_beta intro!: ends_bind [OF CoreFreePages_ends])

lemma release_bin_ends: "page_idle s \<Longrightarrow> ends_if True (release_bin env i T s)"
  by (auto simp: release_bin_def Let_def split_beta intro!: ends_bind [OF CoreFreePages_ends])

lemma allocate_bin_ends: "page_idle s \<Longrightarrow> ends_if True (allocate_bin env i T s)"
  unfolding allocate_bin_def Let_def
  by (intro ends_ite ends_ret ends_holds [OF CoreAllocatePages_ends CoreAllocatePages_idle])
    (auto simp: split_beta intro!: ends_bind [OF over_table_ends [OF free_bin_ends free_bin_idle]])

lemma CoreLoadingFixedAddressHook_ends: "page_idle s \<Longrightarrow> ends_if True (CoreLoadingFixedAddressHook env s)"
  unfolding CoreLoadingFixedAddressHook_def Let_def
  by (intro ends_ite ends_ret ends_holds [OF CoreAllocatePages_ends CoreAllocatePages_idle])
    (auto simp: split_beta intro!: ends_holds [OF CoreAllocatePages_ends CoreAllocatePages_idle] ends_bind [OF CoreFreePages_ends])

lemma CoreAddMemoryDescriptor_ends:
  assumes s: "page_idle s" and u: "addable S n s" shows "ends_if True (CoreAddMemoryDescriptor env T S n A s)"
proof -
  let ?s = "s\<lparr>gMemoryLock := True\<rparr>"
  have u1: "addable S n ?s" using u by (simp add: addable_def unclaimed_def)
  have lock: "CoreAcquireMemoryLock s = ret ?s" using s by (simp add: CoreAcquireMemoryLock_def page_idle_def)
  have inv: "page_inv ?s" using lock_idle(1) [OF s] by (simp add: fully_idle_def)
  have add: "ends_if True (bind_run (CoreAddRange env T S (S + bytes n - 1) A ?s) (CoreFreeMemoryMapStack env))"
    if S: "S AND EFI_PAGE_MASK = 0"
  proof (rule ends_holds [OF CoreAddRange_ends CoreAddRange_owner [OF inv addable_range [OF u1 S]]])
    show "unclaimed ?s a" if "S \<le> a" "a \<le> S + bytes n - 1" for a using u1 that by (simp add: addable_def)
  qed (use ending_stack in \<open>auto simp: ending_def\<close>)
  have bins: "ends_if True
      (bind_run (over_types (length (gMemoryTypeInformation s5)) 0 (allocate_bin env) s5) (\<lambda>(ok, s6).
        if \<not> ok then ret s6
        else bind_run (over_types (length (gMemoryTypeInformation s6)) 0 (release_bin env) s6) (\<lambda>(_, s7).
          ret ((fold finish_bin (map word_of_nat [0..<15]) s7)\<lparr>mMemoryTypeInformationInitialized := True\<rparr>))))"
    if s5: "page_idle s5" for s5
    by (rule ends_holds [OF over_table_ends [OF allocate_bin_ends allocate_bin_idle s5] over_table_idle [OF allocate_bin_idle s5]])
      (auto simp: split_beta intro!: ends_bind [OF over_table_ends [OF release_bin_ends release_bin_idle]])
  have rest: "ends_if True
      (bind_run (CoreReleaseMemoryLock s3) (\<lambda>s4.
        bind_run (if PcdLoadModuleAtFixAddressEnable env \<noteq> 0 then CoreLoadingFixedAddressHook env s4 else ret s4) (\<lambda>s5.
          if mMemoryTypeInformationInitialized s5 then ret s5
          else
            bind_run (over_types (length (gMemoryTypeInformation s5)) 0 (allocate_bin env) s5) (\<lambda>(ok, s6).
              if \<not> ok then ret s6
              else
                bind_run (over_types (length (gMemoryTypeInformation s6)) 0 (release_bin env) s6) (\<lambda>(_, s7).
                  ret ((fold finish_bin (map word_of_nat [0..<15]) s7)\<lparr>mMemoryTypeInformationInitialized := True\<rparr>))))))"
    if s3: "fully_idle s3" for s3
  proof -
    have lock: "CoreReleaseMemoryLock s3 = ret (s3\<lparr>gMemoryLock := False\<rparr>)"
      using s3 by (simp add: CoreReleaseMemoryLock_def fully_idle_def)
    have s4: "page_idle (s3\<lparr>gMemoryLock := False\<rparr>)" using s3 by (rule lock_idle(2))
    have hook: "holds {AssertFailed} (if PcdLoadModuleAtFixAddressEnable env \<noteq> 0
        then CoreLoadingFixedAddressHook env (s3\<lparr>gMemoryLock := False\<rparr>) else ret (s3\<lparr>gMemoryLock := False\<rparr>)) page_idle"
      using s4 CoreLoadingFixedAddressHook_idle [OF s4] by auto
    show ?thesis
      unfolding lock bind_run_simps
      by (rule ends_holds [OF _ hook]) (auto intro!: ends_ite bins CoreLoadingFixedAddressHook_ends s4)
  qed
  have bind_bind: "bind_run m (\<lambda>x. bind_run (k x) l) = bind_run (bind_run m k) l" for m :: "'a page_state run" and k and l :: "'a page_state \<Rightarrow> 'a page_state run"
    by (simp add: bind_run_def split: option.split sum.split)
  show ?thesis
    unfolding CoreAddMemoryDescriptor_def lock bind_run_simps
  proof (intro ends_ite ends_ret, goal_cases)
    case 1
    then have S: "S AND EFI_PAGE_MASK = 0" by simp
    show ?case
      by (subst bind_bind, rule ends_holds [OF add [OF S] add_range_keeps [OF lock_idle(1) [OF s] u1 S]])
        (auto intro!: rest)
  qed
qed

lemma put_entries_ends: "ends_if True (put_entries cap stats es ds)"
  by (induction es arbitrary: ds) (auto simp: put_descriptor_def intro!: ends_bind ends_fault)

lemma put_gcd_entry_ends: "ends_if True (put_gcd_entry cap g ds)"
  unfolding put_gcd_entry_def
  by (intro ends_bind) (auto simp: put_descriptor_def assert_if_def intro!: ends_fault)

lemma put_gcd_entries_ends: "ends_if True (put_gcd_entries cap m gs ds)"
  by (induction gs arbitrary: m ds) (auto intro!: ends_bind put_gcd_entry_ends)

lemma CoreGetMemoryMap_ends: "ends_if True (CoreGetMemoryMap sz null s)"
  by (auto simp: CoreGetMemoryMap_def Let_def split_beta split: option.split
    intro!: ends_bind put_entries_ends put_gcd_entries_ends)

lemma terminate_loop_ends: "ends_if True (terminate_loop stats es)"
  by (induction es) (auto simp: assert_if_def intro!: ends_fault)

lemma CoreTerminateMemoryMap_ends: "ends_if True (CoreTerminateMemoryMap k s)"
  by (auto simp: CoreTerminateMemoryMap_def intro!: ends_bind terminate_loop_ends)

end
