(* ===== verification/PageRuns.thy ===== *)
theory PageRuns
  imports PageServices
begin

text \<open>
  Properties of the page services: of sequences of calls, of the search for free pages, of termination and of the size of the
  memory map.
\<close>

section \<open>What sequences of calls keep\<close>

text \<open>C34: (type) The page services keep the data of the allocator well formed.  After any sequence of calls that return, in
  which CoreAddMemoryDescriptor is called only for ranges that are not empty, end below 2^64 and have no address in a descriptor or in
  untested memory (it is the one service that does not check what it is given), from the state at start, with a map of the memory space whose untested entries are whole pages and do not overlap: every
  descriptor is in a page of descriptors and covers whole pages below the top of the address space; no address is in
  two descriptors, or in a descriptor and in untested memory; the tables have their 16 entries, the one of types ends with
  EfiMaxMemoryType, and every InformationIndex is an index of it; the stack of descriptors is empty, its counter 0,
  and the locks are free.\<close>

theorem page_calls_keep_data_well_formed:
  assumes "page_run env calls (initial_pages space w) s"
    and "\<forall>g\<in>set space. promotable g \<longrightarrow> range_ok (BaseAddress g) (EndAddress g)" and "\<forall>a. untested a space \<le> 1"
  shows "(\<forall>e\<in>set (gMemoryMap s). FromPages e \<and> range_ok (Start e) (End e)) \<and>
    (\<forall>a. size (owner s a) + untested a (memory_space s) \<le> 1) \<and>
    length (mMemoryTypeStatistics s) = 16 \<and> length (gMemoryTypeInformation s) = 16 \<and>
    info_Type (gMemoryTypeInformation s ! 15) = EfiMaxMemoryType \<and>
    (\<forall>i<16. InformationIndex (mMemoryTypeStatistics s ! i) < 16) \<and>
    mMapDepth s = 0 \<and> mFreeMapStack s = 0 \<and> \<not> gMemoryLock s \<and> \<not> mGcdMemorySpaceLock s"
proof -
  have "page_idle (initial_pages space w)"
    using assms(2,3) initial_tables_ok [of space w]
    by (auto simp: page_idle_def page_inv_def initial_pages_def slots_ok_def)
  with page_run_idle [OF assms(1)] have s: "page_idle s" by blast
  show ?thesis
    using s page_idle_from_pages [OF s] by (auto simp: page_idle_def page_inv_def entry_ok_def tables_ok_def)
qed

text \<open>Memory not yet tested, which the first allocation makes free.\<close>

definition sample_space :: gcd_map where
  "sample_space =
     [\<lparr>BaseAddress = 0x100000, EndAddress = 0x10FFFF, Capabilities = EFI_MEMORY_PRESENT OR EFI_MEMORY_INITIALIZED OR 0xF,
       Attributes = 0, GcdMemoryType = EfiGcdMemoryTypeReserved, GcdIoType = 0, ImageHandle = NULL, DeviceHandle = NULL\<rparr>]"

lemma allocate_untested:
  "case CoreAllocatePages quiet_env AllocateAnyPages EfiBootServicesCode 3 (Some 0) (initial_pages sample_space ()) of
     Some (Inr (Status, m, s)) \<Rightarrow> Status = EFI_SUCCESS \<and> m = Some 0x10C000 \<and> length (gMemoryMap s) = 3 | _ \<Rightarrow> False"
  by code_simp

lemma untested_sample: "untested a sample_space \<le> 1"
  by (simp add: untested_def sample_space_def)

lemma page_calls_keep_data_well_formed_witness:
  "\<exists>s. page_run quiet_env [AllocatePages AllocateAnyPages EfiBootServicesCode 3 (Some 0)] (initial_pages sample_space ()) s \<and>
     length (gMemoryMap s) = 3 \<and> (\<forall>e\<in>set (gMemoryMap s). FromPages e)"
proof -
  obtain s where s: "CoreAllocatePages quiet_env AllocateAnyPages EfiBootServicesCode 3 (Some 0) (initial_pages sample_space ()) =
      ret (EFI_SUCCESS, Some 0x10C000, s)" "length (gMemoryMap s) = 3"
    using allocate_untested unfolding case_run_ret by auto
  have run: "page_run quiet_env [AllocatePages AllocateAnyPages EfiBootServicesCode 3 (Some 0)] (initial_pages sample_space ()) s"
    using step_allocate [OF s(1)] by (auto simp: page_run_simps)
  have "\<forall>g\<in>set sample_space. promotable g \<longrightarrow> range_ok (BaseAddress g) (EndAddress g)"
    by (simp add: sample_space_def range_ok_def)
  from page_calls_keep_data_well_formed [OF run this] untested_sample run s(2) show ?thesis by blast
qed

text \<open>C33: (safety) What is in use stays in use until it is freed.  When the bins have been made and no modules are loaded at
  fixed addresses, take any address that belongs to a descriptor that is not free memory.  After any sequence of calls of
  the page services that return, with whatever status, in which no call of CoreFreePages and of
  CoreUpdateMemoryAttributes covers the address, and CoreAddMemoryDescriptor is called only for ranges that are not empty, end
  below 2^64 and have no address in a descriptor or in untested memory, it belongs to exactly one descriptor, of the same type and
  attributes.\<close>

theorem memory_in_use_survives:
  assumes "page_run env calls s s'" and "page_idle s" and "mMemoryTypeInformationInitialized s"
    and "PcdLoadModuleAtFixAddressEnable env = 0"
    and "T \<noteq> EfiConventionalMemory" and "owner s a = {#(T, A)#}" and "\<forall>c\<in>set calls. \<not> touches a c"
  shows "owner s' a = {#(T, A)#}"
  using page_run_in_use [OF assms(1,2,4,3)] assms(5-7) by (simp add: keeps_in_use_def)

lemma free_then_allocate_sample:
  "case CoreFreePages quiet_env 0x118000 8 (sample_pages\<lparr>mMemoryTypeInformationInitialized := True\<rparr>) of
     Some (Inr (Status, s1)) \<Rightarrow> Status = EFI_SUCCESS \<and>
       (case CoreAllocatePages quiet_env AllocateAddress EfiRuntimeServicesData 2 (Some 0x118000) s1 of
          Some (Inr (Status, m, s2)) \<Rightarrow> Status = EFI_SUCCESS | _ \<Rightarrow> False)
   | _ \<Rightarrow> False"
  by code_simp

lemma memory_in_use_survives_witness:
  "\<exists>s'. page_run quiet_env [FreePages 0x118000 8, AllocatePages AllocateAddress EfiRuntimeServicesData 2 (Some 0x118000)]
          (sample_pages\<lparr>mMemoryTypeInformationInitialized := True\<rparr>) s' \<and>
        owner s' 0x117FFF = {#(EfiBootServicesData, 0xF)#}"
proof -
  let ?s = "sample_pages\<lparr>mMemoryTypeInformationInitialized := True\<rparr>"
  let ?calls = "[FreePages 0x118000 8, AllocatePages AllocateAddress EfiRuntimeServicesData 2 (Some 0x118000)]"
  obtain s1 m s' where run: "CoreFreePages quiet_env 0x118000 8 ?s = ret (EFI_SUCCESS, s1)"
    "CoreAllocatePages quiet_env AllocateAddress EfiRuntimeServicesData 2 (Some 0x118000) s1 = ret (EFI_SUCCESS, m, s')"
    using free_then_allocate_sample unfolding case_run_ret by auto
  then have r: "page_run quiet_env ?calls ?s s'"
    by (auto simp: page_run_simps intro: step_free step_allocate)
  have idle: "page_idle ?s" using sample_pages_idle by (simp add: default_idle)
  have o: "owner ?s 0x117FFF = {#(EfiBootServicesData, 0xF)#}"
    by (simp add: sample_pages_def owner_in_def kind_def)
  have "owner s' 0x117FFF = {#(EfiBootServicesData, 0xF)#}"
    by (rule memory_in_use_survives [OF r idle _ _ _ o]) (simp_all add: quiet_env_def)
  with r show ?thesis by blast
qed

section \<open>The search for free pages\<close>

text \<open>C36: (functional) CoreFindFreePagesI finds the highest place.  In a map of descriptors of whole pages, for a number of
  pages from 1 to below 2^52 and any bounds, aligned or not: an address that it returns is the start of a range of
  that many pages, inside one descriptor of free memory, not below MinAddress and not past MaxAddress; and no such range starts
  higher.  So when it returns 0 there is none, except one at address 0.\<close>

theorem find_free_pages_is_highest:
  assumes "\<forall>e\<in>set es. range_ok (Start e) (End e)" and "n \<noteq> 0" and "unat n < 2 ^ 52"
  shows "let S = CoreFindFreePagesI MaxAddress MinAddress n EFI_PAGE_SIZE es;
             place = (\<lambda>S. unat S mod 4096 = 0 \<and> MinAddress \<le> S \<and> unat S + 4096 * unat n \<le> unat MaxAddress + 1 \<and>
               (\<exists>e\<in>set es. Type e = EfiConventionalMemory \<and> Start e \<le> S \<and> unat S + 4096 * unat n \<le> unat (End e) + 1))
         in (S \<noteq> 0 \<longrightarrow> place S) \<and> (\<forall>S'. place S' \<longrightarrow> S' \<le> S)"
proof -
  have "\<forall>e\<in>set es. entry_ok e" using assms(1) by (simp add: entry_ok_def)
  note highest = CoreFindFreePagesI_highest [OF this assms(2,3) refl, of MaxAddress MinAddress]
  show ?thesis unfolding Let_def fits_def [symmetric] using highest by blast
qed

lemma find_free_pages_is_highest_witness:
  "CoreFindFreePagesI 0x10E000 0x100000 3 EFI_PAGE_SIZE (gMemoryMap sample_pages) = 0x10B000 \<and>
   (\<exists>e\<in>set (gMemoryMap sample_pages). Type e = EfiConventionalMemory \<and> Start e \<le> 0x10B000 \<and> unat (0x10B000 :: u64) + 12288 \<le> unat (End e) + 1)"
proof -
  have run: "CoreFindFreePagesI 0x10E000 0x100000 3 EFI_PAGE_SIZE (gMemoryMap sample_pages) = 0x10B000"
    by code_simp
  have ok: "\<forall>e\<in>set (gMemoryMap sample_pages). range_ok (Start e) (End e)"
    by (simp add: sample_pages_def range_ok_def)
  show ?thesis
    using find_free_pages_is_highest [OF ok, of 3 "0x10E000" "0x100000"] run by (simp add: Let_def)
qed

text \<open>C37: (termination) The page services come to an end: called between two services, none of them runs for ever, however the
  search for free pages, the making of free memory out of untested memory, the conversion of a range over many descriptors
  and the moving of descriptors off the stack call one another, and whatever the tables of the bins say.  For CoreAddMemoryDescriptor
  this is shown of ranges that are not empty, end below 2^64 and have no address in a descriptor or in untested memory.  (The services
  may stop at an ASSERT.)\<close>

theorem page_services_end:
  assumes "page_idle s"
  shows "CoreAllocatePages env AllocateType MemoryType n Memory s \<noteq> None \<and> CoreFreePages env S n s \<noteq> None \<and>
    CoreUpdateMemoryAttributes env S n A s \<noteq> None \<and>
    (addable S n s \<longrightarrow> CoreAddMemoryDescriptor env T S n A s \<noteq> None) \<and>
    CoreGetMemoryMap Size isNull s \<noteq> None \<and> CoreTerminateMemoryMap Key s \<noteq> None"
  using CoreAllocatePages_ends [OF assms, of env AllocateType MemoryType n Memory] CoreFreePages_ends [OF assms, of env S n]
    CoreUpdateMemoryAttributes_ends [OF assms, of env S n A] CoreAddMemoryDescriptor_ends [OF assms, of S n env T A]
    CoreGetMemoryMap_ends [of Size isNull s] CoreTerminateMemoryMap_ends [of Key s]
  by (simp add: ends_if_def)

lemma page_services_end_witness:
  "CoreUpdateMemoryAttributes quiet_env 0x108000 16 0x4000F sample_pages \<noteq> None \<and>
   CoreAddMemoryDescriptor quiet_env EfiConventionalMemory 0x120000 16 0xF sample_pages \<noteq> None"
proof -
  have "addable 0x120000 16 sample_pages"
    by (auto simp: addable_def unclaimed_def untested_def sample_pages_def initial_pages_def owner_in_def
      dest: order_trans [where x = "0x120000 :: u64" and z = "0x11FFFF :: u64"] order_trans [where x = "0x120000 :: u64" and z = "0x10FFFF :: u64"])
  then show ?thesis
    using page_services_end [OF sample_pages_idle, of quiet_env _ _ 16 _ "0x120000"]
      page_services_end [OF sample_pages_idle, of quiet_env _ _ 16 _ "0x108000"] by blast
qed

section \<open>The buffer for the memory map\<close>

lemma length_merge: "length (MergeMemoryMapDescriptor ds d) \<le> Suc (length ds)"
  by (induction ds) auto

lemma put_descriptor_room:
  "length ds < cap \<Longrightarrow> holds {AssertFailed} (put_descriptor cap d ds) (\<lambda>ds'. length ds' \<le> Suc (length ds))"
  by (simp add: put_descriptor_def length_merge)

lemma put_entries_room:
  "length ds + length es \<le> cap \<Longrightarrow>
     holds {AssertFailed} (put_entries cap stats es ds) (\<lambda>ds'. length ds' \<le> length ds + length es)"
proof (induction es arbitrary: ds)
  case (Cons e es)
  show ?case
    unfolding put_entries.simps
  proof (rule holds_bind [OF put_descriptor_room])
    fix ds1 :: "EFI_MEMORY_DESCRIPTOR list"
    assume d: "length ds1 \<le> Suc (length ds)"
    have "holds {AssertFailed} (put_entries cap stats es ds1) (\<lambda>ds'. length ds' \<le> length ds1 + length es)"
      using d Cons.prems by (intro Cons.IH) simp
    then show "holds {AssertFailed} (put_entries cap stats es ds1) (\<lambda>ds'. length ds' \<le> length ds + length (e # es))"
      by (rule holds_weaken) (use d in simp)
  qed (use Cons.prems in simp)
qed simp

abbreviation counted :: "EFI_GCD_MAP_ENTRY \<Rightarrow> nat" where "counted g \<equiv> if counted_entry g then 1 else 0"

lemma put_gcd_entry_room:
  assumes "length ds + counted g \<le> cap"
  shows "holds {AssertFailed} (put_gcd_entry cap g ds) (\<lambda>ds'. length ds' \<le> length ds + counted g)"
proof -
  have put: "holds {AssertFailed} (assert_if True a (assert_if True b (put_descriptor cap d ds))) (\<lambda>ds'. length ds' \<le> length ds + counted g)"
    if "counted_entry g" for a b d
    using that assms put_descriptor_room [of ds cap d] by (simp add: assert_if_def)
  have bind_ret: "bind_run m ret = m" for m :: "EFI_MEMORY_DESCRIPTOR list run"
    by (simp add: bind_run_def ret_def split: option.split sum.split)
  show ?thesis
    using put assms unfolding put_gcd_entry_def counted_entry_def
    by (cases "GcdMemoryType g = EfiGcdMemoryTypePersistentMemory") (auto simp: bind_ret)
qed

lemma counted_same: "same_gcd_kind m g \<Longrightarrow> counted_entry (m\<lparr>EndAddress := e\<rparr>) = counted_entry g"
  by (simp add: same_gcd_kind_def counted_entry_def)

lemma put_gcd_entries_room:
  "length ds + counted m + length (filter counted_entry gs) \<le> cap \<Longrightarrow>
     holds {AssertFailed} (put_gcd_entries cap m gs ds) (\<lambda>ds'. length ds' \<le> length ds + counted m + length (filter counted_entry gs))"
proof (induction gs arbitrary: m ds)
  case Nil
  then show ?case using put_gcd_entry_room [of ds m cap] by simp
next
  case (Cons g gs)
  show ?case
  proof (cases "same_gcd_kind m g")
    case True
    have c: "counted_entry (m\<lparr>EndAddress := EndAddress g\<rparr>) = counted_entry m" by (simp add: counted_entry_def)
    have rest: "holds {AssertFailed} (put_gcd_entries cap (m\<lparr>EndAddress := EndAddress g\<rparr>) gs ds)
        (\<lambda>ds'. length ds' \<le> length ds + counted (m\<lparr>EndAddress := EndAddress g\<rparr>) + length (filter counted_entry gs))"
      using Cons.prems c by (intro Cons.IH) (simp split: if_splits)
    have "put_gcd_entries cap m (g # gs) ds = put_gcd_entries cap (m\<lparr>EndAddress := EndAddress g\<rparr>) gs ds"
      using True by simp
    then show ?thesis by (simp only:) (rule holds_weaken [OF rest [unfolded c]], auto)
  next
    case False
    have "holds {AssertFailed} (bind_run (put_gcd_entry cap m ds) (put_gcd_entries cap g gs))
        (\<lambda>ds'. length ds' \<le> length ds + counted m + length (filter counted_entry (g # gs)))"
    proof (rule holds_bind [OF put_gcd_entry_room])
      fix ds1 :: "EFI_MEMORY_DESCRIPTOR list"
      assume d: "length ds1 \<le> length ds + counted m"
      have "holds {AssertFailed} (put_gcd_entries cap g gs ds1)
          (\<lambda>ds'. length ds' \<le> length ds1 + counted g + length (filter counted_entry gs))"
        using d Cons.prems by (intro Cons.IH) (simp split: if_splits)
      then show "holds {AssertFailed} (put_gcd_entries cap g gs ds1)
          (\<lambda>ds'. length ds' \<le> length ds + counted m + length (filter counted_entry (g # gs)))"
        by (rule holds_weaken) (use d in \<open>simp split: if_splits\<close>)
    qed (use Cons.prems in simp)
    then show ?thesis using False by simp
  qed
qed

text \<open>The number of descriptors that the code makes room for.\<close>

definition needed :: "'w page_state \<Rightarrow> nat" where
  "needed s = length (gMemoryMap s) + length (filter counted_entry (memory_space s))"

lemma descriptor_size_48: "descriptor_size = 48"
  by code_simp

lemma BufferSize_needed:
  "descriptor_size * word_of_nat (length (filter counted_entry (memory_space s))) + word_of_nat (length (gMemoryMap s)) * descriptor_size =
     word_of_nat (48 * needed s)"
  by (simp add: descriptor_size_48 needed_def algebra_simps)

lemma map_fills_buffer:
  assumes "needed s \<le> cap"
  shows "holds {AssertFailed} (bind_run (put_entries cap stats (gMemoryMap s) []) (put_gcd_entries cap zero_gcd_entry (memory_space s)))
    (\<lambda>ds. length ds \<le> needed s)"
proof (rule holds_bind [OF put_entries_room])
  fix ds :: "EFI_MEMORY_DESCRIPTOR list"
  assume "length ds \<le> length [] + length (gMemoryMap s)"
  moreover have "\<not> counted_entry zero_gcd_entry" by (simp add: counted_entry_def zero_gcd_entry_def)
  ultimately show "holds {AssertFailed} (put_gcd_entries cap zero_gcd_entry (memory_space s) ds) (\<lambda>ds. length ds \<le> needed s)"
    using assms by (intro holds_weaken [OF put_gcd_entries_room]) (auto simp: needed_def)
qed (use assms in \<open>simp add: needed_def\<close>)

text \<open>The call as its loops see it: with the locks free, it depends on the size given and the bytes needed.\<close>

abbreviation map_result :: "u64 \<Rightarrow> EFI_MEMORY_DESCRIPTOR list option \<Rightarrow> 'w page_state \<Rightarrow> memory_map_result" where
  "map_result out written s \<equiv> \<lparr>out_MemoryMapSize = out, out_MapKey = mMemoryMapKey s, out_DescriptorSize = descriptor_size,
     out_DescriptorVersion = EFI_MEMORY_DESCRIPTOR_VERSION, out_MemoryMap = written\<rparr>"

abbreviation written_map :: "u64 \<Rightarrow> 'w page_state \<Rightarrow> EFI_MEMORY_DESCRIPTOR list run" where
  "written_map Size s \<equiv> bind_run (put_entries (unat Size div 48) (mMemoryTypeStatistics s) (gMemoryMap s) [])
     (put_gcd_entries (unat Size div 48) zero_gcd_entry (memory_space s))"

lemma bind_run_assoc: "bind_run (bind_run m k) l = bind_run m (\<lambda>x. bind_run (k x) l)"
  by (simp add: bind_run_def split: option.split sum.split)

lemma CoreGetMemoryMap_run:
  assumes "page_idle s"
  shows "CoreGetMemoryMap (Some Size) isNull s =
      (let N = word_of_nat (48 * needed s) in
       if Size < N then ret (EFI_BUFFER_TOO_SMALL, Some (map_result N None s), s)
       else if isNull then ret (EFI_INVALID_PARAMETER, Some (map_result N None s), s)
       else bind_run (written_map Size s)
         (\<lambda>ds. ret (EFI_SUCCESS, Some (map_result (word_of_nat (length ds) * 48) (Some ds) s), s)))"
proof -
  have same: "s\<lparr>gMemoryLock := False, mGcdMemorySpaceLock := False\<rparr> = s" using assms by (simp add: page_idle_def)
  show ?thesis
    using assms
    unfolding CoreGetMemoryMap_def option.case Let_def CoreAcquireGcdMemoryLock_def CoreAcquireMemoryLock_def
      CoreReleaseGcdMemoryLock_def CoreReleaseMemoryLock_def
    by (simp add: page_idle_def BufferSize_needed [unfolded descriptor_size_48] descriptor_size_48 bind_run_assoc same)
qed

lemma unat_word_of_nat_u64: "k < 2 ^ 64 \<Longrightarrow> unat (word_of_nat k :: u64) = k"
  by (simp add: unat_of_nat)

lemma bytes_of_descriptors:
  assumes "48 * n < 2 ^ 64" "k \<le> n"
  shows "unat (word_of_nat k * 48 :: u64) = 48 * k"
proof -
  have "word_of_nat k * 48 = (word_of_nat (48 * k) :: u64)" by (simp add: algebra_simps)
  moreover have "48 * k < 2 ^ 64" using assms by simp
  ultimately show ?thesis by (simp only: unat_word_of_nat_u64)
qed

lemma written_map_fits:
  assumes "48 * needed s < 2 ^ 64" "\<not> Size < word_of_nat (48 * needed s)"
  obtains f where "written_map Size s = Some (Inl f)" "f = AssertFailed"
    | ds where "written_map Size s = Some (Inr ds)" "unat (word_of_nat (length ds) * 48 :: u64) = 48 * length ds"
        "(word_of_nat (length ds) * 48 :: u64) \<le> Size"
proof -
  have "48 * needed s \<le> unat Size"
    using assms(2) unfolding word_less_nat_alt not_less unat_word_of_nat_u64 [OF assms(1)] .
  then have cap: "needed s \<le> unat Size div 48" by simp
  have "ends_if True (written_map Size s)" by (intro ends_bind put_entries_ends put_gcd_entries_ends)
  then obtain r where r: "written_map Size s = Some r" by (auto simp: ends_if_def)
  have h: "holds {AssertFailed} (written_map Size s) (\<lambda>ds. length ds \<le> needed s)" by (rule map_fills_buffer [OF cap])
  show thesis
  proof (cases r)
    case (Inl f)
    then show thesis using that(1) h r by simp
  next
    case (Inr ds)
    then have len: "length ds \<le> needed s" using h r by simp
    note bytes = bytes_of_descriptors [OF assms(1) this]
    show thesis using that(2) [of ds] r Inr bytes len cap by (simp add: word_le_nat_alt)
  qed
qed

text \<open>C39: (bounds) CoreGetMemoryMap stays in the buffer and tells the truth about its size.  When the maps have few enough entries that
  their descriptors take less than 2^64 bytes: no descriptor is written past the end of the buffer (the merging never
  needs more room than was counted), an EFI_SUCCESS comes with the number of bytes written, at most the size of the
  buffer, and an EFI_BUFFER_TOO_SMALL comes with a size, larger than the one given, with which the next call is not
  refused for that reason.\<close>

theorem memory_map_stays_in_buffer:
  assumes "page_idle s" and "48 * (length (gMemoryMap s) + length (memory_space s)) < 2 ^ 64"
  shows "case CoreGetMemoryMap (Some Size) isNull s of
      Some (Inr (Status, Some out, s')) \<Rightarrow> s' = s \<and>
        (Status = EFI_SUCCESS \<longrightarrow> out_MemoryMapSize out \<le> Size \<and>
           (\<exists>ds. out_MemoryMap out = Some ds \<and> unat (out_MemoryMapSize out) = 48 * length ds)) \<and>
        (Status = EFI_BUFFER_TOO_SMALL \<longrightarrow> Size < out_MemoryMapSize out \<and>
           (case CoreGetMemoryMap (Some (out_MemoryMapSize out)) isNull s of
              Some (Inr (Status', _)) \<Rightarrow> Status' \<noteq> EFI_BUFFER_TOO_SMALL | Some (Inl f) \<Rightarrow> f = AssertFailed | None \<Rightarrow> False))
    | Some (Inl f) \<Rightarrow> f = AssertFailed
    | _ \<Rightarrow> False"
proof -
  have "needed s \<le> length (gMemoryMap s) + length (memory_space s)" by (simp add: needed_def)
  then have n: "48 * needed s < 2 ^ 64" by (intro le_less_trans [OF mult_le_mono2 assms(2)])
  let ?N = "word_of_nat (48 * needed s) :: u64"
  note run = CoreGetMemoryMap_run [OF assms(1), unfolded Let_def]
  have again: "case CoreGetMemoryMap (Some ?N) isNull s of
      Some (Inr (Status', _)) \<Rightarrow> Status' \<noteq> EFI_BUFFER_TOO_SMALL | Some (Inl f) \<Rightarrow> f = AssertFailed | None \<Rightarrow> False"
    unfolding run by (rule written_map_fits [OF n, of ?N]) (cases isNull; simp add: ret_def)+
  show ?thesis
  proof (cases "Size < ?N")
    case True
    show ?thesis
      unfolding run [of Size] using True again by (simp only: if_True ret_def option.case sum.case prod.case memory_map_result.simps) simp
  next
    case False
    show ?thesis
      unfolding run [of Size] by (rule written_map_fits [OF n False]) (cases isNull; use False in \<open>simp add: ret_def\<close>)+
  qed
qed

lemma memory_map_stays_in_buffer_witness:
  "\<exists>out. CoreGetMemoryMap (Some 95) False sample_pages = ret (EFI_BUFFER_TOO_SMALL, Some out, sample_pages) \<and> 95 < out_MemoryMapSize out"
proof -
  have "48 * (length (gMemoryMap sample_pages) + length (memory_space sample_pages)) < 2 ^ 64"
    by (simp add: sample_pages_def initial_pages_def)
  note t = memory_map_stays_in_buffer [OF sample_pages_idle this, of 95 False]
  have "case CoreGetMemoryMap (Some 95) False sample_pages of
      Some (Inr (Status, Some out, s')) \<Rightarrow> Status = EFI_BUFFER_TOO_SMALL | _ \<Rightarrow> False"
    by code_simp
  then obtain out s' where "CoreGetMemoryMap (Some 95) False sample_pages = ret (EFI_BUFFER_TOO_SMALL, Some out, s')"
    by (auto simp: ret_def split: option.splits sum.splits)
  with t show ?thesis by (simp add: ret_def)
qed

end
