(* ===== verification/PageRoundTrip.thy ===== *)
theory PageRoundTrip
  imports PageRuns
begin

text \<open>
  When the allocator has free descriptors at hand, its operations do exactly what was asked: a request that fits
  succeeds, and freeing what was allocated gives back the memory as it was.
\<close>

section \<open>With free descriptors at hand\<close>

definition in_one :: "u32 \<times> u64 \<Rightarrow> u64 \<Rightarrow> u64 \<Rightarrow> MEMORY_MAP list \<Rightarrow> bool" where
  "in_one k S E es \<longleftrightarrow> (\<exists>e\<in>set es. kind e = k \<and> Start e \<le> S \<and> E \<le> End e)"

text \<open>Descriptors move off the stack, nothing else changes.\<close>

definition moved :: "nat \<Rightarrow> 'w page_state \<Rightarrow> 'w page_state \<Rightarrow> bool" where
  "moved n s s' \<longleftrightarrow>
     page_inv s' \<and> owner s' = owner s \<and> memory_space s' = memory_space s \<and> same_context s s' \<and> mMapDepth s' = 0 \<and>
     mFreeMemoryMapEntryList s \<le> mFreeMemoryMapEntryList s' + n \<and>
     (\<forall>k S E. in_one k S E (gMemoryMap s) \<longrightarrow> in_one k S E (gMemoryMap s'))"

lemma pop_in_one: "in_one k S E (gMemoryMap s) \<Longrightarrow> in_one k S E (gMemoryMap (pop_map_stack s))"
proof -
  assume a: "in_one k S E (gMemoryMap s)"
  show ?thesis
  proof (cases "take_slot (mMapDepth s - 1) (gMemoryMap s)")
    case None
    with a show ?thesis by (simp add: pop_map_stack_def Let_def)
  next
    case (Some r)
    obtain e es where r: "r = (e, es)" by (cases r)
    have m: "mset (gMemoryMap s) = add_mset e (mset es)" using take_slot_Some Some r by blast
    have "set (gMemoryMap s) = insert e (set es)" by (metis m set_mset_add_mset_insert set_mset_mset)
    moreover have "set (insert_by_start (e\<lparr>Slot := None\<rparr>) es) = insert (e\<lparr>Slot := None\<rparr>) (set es)"
      by (metis mset_insert_by_start set_mset_add_mset_insert set_mset_mset)
    moreover have "gMemoryMap (pop_map_stack s) = insert_by_start (e\<lparr>Slot := None\<rparr>) es"
      using Some by (simp add: pop_map_stack_def Let_def r)
    ultimately show ?thesis using a by (auto simp: in_one_def kind_def)
  qed
qed

lemma free_stack_loop_exact:
  "mMapDepth s = d \<Longrightarrow> d \<le> mFreeMemoryMapEntryList s \<Longrightarrow> page_inv s \<Longrightarrow>
     \<exists>s'. free_stack_loop (AllocateMemoryMapEntry env free) s = ret s' \<and> moved d s s'"
proof (induction d arbitrary: s)
  case 0
  then show ?case by (subst free_stack_loop.simps) (simp add: moved_def)
next
  case (Suc d)
  let ?s1 = "s\<lparr>mFreeMemoryMapEntryList := mFreeMemoryMapEntryList s - 1\<rparr>"
  let ?s2 = "pop_map_stack ?s1"
  have inv: "page_inv ?s1" using Suc.prems by (simp add: page_inv_def tables_ok_def)
  have k: "keeps ?s1 ?s2" "owner ?s2 = owner ?s1" using pop_map_stack_keeps [OF inv] Suc.prems by auto
  have p: "mMapDepth ?s2 = d" "mFreeMemoryMapEntryList ?s1 \<le> mFreeMemoryMapEntryList ?s2" "memory_space ?s2 = memory_space s"
    using Suc.prems by (auto simp: pop_map_stack_def Let_def split: option.split)
  have "d \<le> mFreeMemoryMapEntryList ?s2" "page_inv ?s2" using p(2) Suc.prems k(1) by (simp_all add: keeps_def)
  then obtain s' where s': "free_stack_loop (AllocateMemoryMapEntry env free) ?s2 = ret s'" "moved d ?s2 s'"
    using Suc.IH p(1) by blast
  have "free_stack_loop (AllocateMemoryMapEntry env free) s = ret s'"
    using Suc.prems s'(1) AllocateMemoryMapEntry_list(1) [of s env free] by (subst free_stack_loop.simps) simp
  moreover have "moved (Suc d) s s'"
    using s'(2) p k pop_in_one [of _ _ _ ?s1] Suc.prems by (auto simp: moved_def keeps_def same_context_def)
  ultimately show ?case by blast
qed

lemma free_stack_exact:
  assumes "page_inv s" "gMemoryLock s" "mFreeMapStack s = 0" "mMapDepth s \<le> mFreeMemoryMapEntryList s"
  shows "\<exists>s'. CoreFreeMemoryMapStack env s = ret s' \<and> moved (mMapDepth s) s s'"
proof -
  let ?s = "s\<lparr>mFreeMapStack := mFreeMapStack s + 1\<rparr>"
  have "page_inv ?s" using assms by (simp add: page_inv_def tables_ok_def)
  with free_stack_loop_exact [of ?s "mMapDepth s" env free_when_busy] assms
  obtain s1 where s1: "free_stack_loop (AllocateMemoryMapEntry env free_when_busy) ?s = ret s1" "moved (mMapDepth s) ?s s1"
    by auto
  have "moved (mMapDepth s) s (s1\<lparr>mFreeMapStack := mFreeMapStack s1 - 1\<rparr>)"
    using s1(2) by (auto simp: moved_def page_inv_def tables_ok_def same_context_def)
  then show ?thesis
    using s1(1) assms by (auto simp: CoreFreeMemoryMapStack_def free_stack_with_def)
qed

section \<open>A conversion inside one descriptor\<close>

lemma join_range_grows:
  assumes "join_range T A es S E = (es', S', E', n)" "\<forall>e\<in>set es. entry_ok e" "range_ok S E"
  shows "S' \<le> S \<and> E \<le> E'"
  using assms
proof (induction T A es S E arbitrary: es' n rule: join_range.induct)
  case (2 T A Entry es S E)
  have e: "range_ok (Start Entry) (End Entry)" using "2.prems" by (auto simp: entry_ok_def)
  have lo: "range_ok (Start Entry) E" "Start Entry \<le> S" if "End Entry + 1 = S"
    using range_ok_join(1) [OF e "2.prems"(3) that] range_ok_Suc [OF e] range_ok_less [OF e] that
    by (auto simp: word_le_nat_alt word_less_nat_alt)
  have hi: "range_ok S (End Entry)" "E \<le> End Entry" if "Start Entry = E + 1"
    using range_ok_join(1) [OF "2.prems"(3) e] range_ok_Suc [OF "2.prems"(3)] range_ok_less [OF e] that
    by (auto simp: word_le_nat_alt word_less_nat_alt)
  show ?case
    using "2.IH" "2.prems" lo hi by (auto split: if_splits prod.splits intro: order_trans)
qed auto

lemma CoreAddRange_returns:
  assumes inv: "page_inv s" and r: "range_ok S E" and "gMemoryLock s" "mMapDepth s + 1 < MAX_MAP_DEPTH"
  shows "\<exists>s'. CoreAddRange env T S E A s = ret s' \<and> in_one (T, A) S E (gMemoryMap s')"
proof -
  obtain es S' E' n where j: "join_range T A (gMemoryMap s) S E = (es, S', E', n)" by (metis prod_cases4)
  have "S' \<le> S \<and> E \<le> E'" using inv by (intro join_range_grows [OF j _ r]) (simp add: page_inv_def)
  moreover have "S AND EFI_PAGE_MASK = 0" using r by (intro page_mask_0 [THEN iffD2]) (simp add: range_ok_def)
  ultimately show ?thesis
    using assms(3,4) range_ok_less [OF r] by (auto simp: CoreAddRange_def Let_def j in_one_def kind_def)
qed

lemma pull_range_returns:
  assumes inv: "page_inv s" and m: "gMemoryMap s = ps @ e # qs"
    and r: "Start e \<le> S" "R \<le> End e" "range_ok S R" and d: "mMapDepth s + 1 < MAX_MAP_DEPTH"
  shows "\<exists>r. pull_range S R ps e qs s = ret r"
proof -
  have ok: "range_ok (Start e) (End e)" using inv m by (auto simp: page_inv_def entry_ok_def)
  have "Start e < S - 1" if "Start e \<noteq> S"
    using range_cut [OF ok r(3,1,2)] range_ok_less [of "Start e" "S - 1"] that r(1) by auto
  then show ?thesis using d by (auto simp: pull_range_def Let_def)
qed

lemma convert_piece_returns:
  assumes inv: "page_inv s" and f: "find_covering S (gMemoryMap s) = Some (ps, e, qs)" and r: "range_ok S R" "R \<le> End e"
    and l: "gMemoryLock s" and d: "mMapDepth s + 2 < MAX_MAP_DEPTH"
  shows "\<exists>T s'. convert_piece env n ct NT NA S R ps e qs s = ret (T, s') \<and>
    in_one (if ct then NT else Type e, if ct then Attribute e else NA) S R (gMemoryMap s')"
proof -
  have m: "gMemoryMap s = ps @ e # qs" and st: "Start e \<le> S" using find_covering_Some [OF f] by auto
  define s1 where "s1 = (if ct then count_new_type NT S n (count_old_type (Type e) S n s) else s)"
  have sm: "same_memory s s1"
    unfolding s1_def using same_memory_trans [OF count_old_type_same count_new_type_same] by auto
  have inv1: "page_inv s1" and m1: "gMemoryMap s1 = ps @ e # qs" and d1: "mMapDepth s1 = mMapDepth s" and l1: "gMemoryLock s1"
    using sm same_memory_inv [OF sm inv] m l by (auto simp: same_memory_def same_context_def)
  have "mMapDepth s1 + 1 < MAX_MAP_DEPTH" using d d1 by simp
  with pull_range_returns [OF inv1 m1 st r(2,1)] obtain x where x: "pull_range S R ps e qs s1 = ret x" by blast
  obtain ps' c qs' s2 where x': "x = (ps', c, qs', s2)" by (rule prod_cases4)
  have p: "page_inv (pulled ps' c qs' s2)" "same_context s1 (pulled ps' c qs' s2)"
      "mMapDepth (pulled ps' c qs' s2) \<le> Suc (mMapDepth s1)" "kind c = kind e"
    using holds_ret [OF pull_range_owner [OF inv1 m1 st r(2,1)] x] unfolding x' prod.case by blast+
  have c: "Type c = Type e" "Attribute c = Attribute e" using p(4) by (auto simp: kind_def)
  have "gMemoryLock (pulled ps' c qs' s2)" "mMapDepth (pulled ps' c qs' s2) + 1 < MAX_MAP_DEPTH"
    using p d d1 l1 by (auto simp: same_context_def)
  from CoreAddRange_returns [OF p(1) r(1) this]
  obtain s3 where "CoreAddRange env (if ct then NT else Type c) S R (if ct then Attribute c else NA) (pulled ps' c qs' s2) = ret s3"
      "in_one (if ct then NT else Type e, if ct then Attribute e else NA) S R (gMemoryMap s3)"
    unfolding c by blast
  then show ?thesis
    unfolding convert_piece_def s1_def [symmetric] Let_def x x' bind_run_simps prod.case pulled_def [symmetric] by auto
qed

text \<open>The exact effect of a conversion: the range gets the new kind, and lies in one descriptor again.\<close>

definition exactly :: "u32 \<times> u64 \<Rightarrow> u64 \<Rightarrow> u64 \<Rightarrow> 'w page_state \<Rightarrow> 'w page_state \<Rightarrow> bool" where
  "exactly k S E s s' \<longleftrightarrow>
     fully_idle s' \<and> (\<forall>a. owner s' a = (if S \<le> a \<and> a \<le> E then {#k#} else owner s a)) \<and>
     in_one k S E (gMemoryMap s') \<and> memory_space s' = memory_space s \<and>
     mFreeMemoryMapEntryList s \<le> mFreeMemoryMapEntryList s' + 2"

lemma convert_exact:
  assumes s: "fully_idle s" and list: "2 \<le> mFreeMemoryMapEntryList s" and r: "range_ok S E" and one: "in_one k S E (gMemoryMap s)"
    and comp: "\<not> (ct \<and> incompatible_types NT (fst k))"
  shows "\<exists>s'. convert_pages_loop env (CoreFreeMemoryMapStack env) n ct NT NA E S s = ret (EFI_SUCCESS, s') \<and>
    exactly (if ct then NT else fst k, if ct then snd k else NA) S E s s'"
proof -
  let ?free = "CoreFreeMemoryMapStack env"
  let ?k = "(if ct then NT else fst k, if ct then snd k else NA)"
  have inv: "page_inv s" and l: "gMemoryLock s" and d: "mMapDepth s = 0" and c: "mFreeMapStack s = 0"
    using s by (auto simp: fully_idle_def)
  note lt = range_ok_less [OF r]
  obtain e where e: "e \<in> set (gMemoryMap s)" "kind e = k" "Start e \<le> S" "E \<le> End e" using one by (auto simp: in_one_def)
  have cov: "covers S e" using e lt by (auto simp: covers_def)
  obtain ps e' qs where fc: "find_covering S (gMemoryMap s) = Some (ps, e', qs)"
    using find_covering_None [of S "gMemoryMap s" e] e lt by (cases "find_covering S (gMemoryMap s)") auto
  have "e' \<in> set (gMemoryMap s)" "covers S e'"
    using find_covering_Some [OF fc] by (auto simp: covers_def)
  with covering_unique [OF inv e(1) _ cov] have e': "e' = e" by simp
  have R: "(if End e < E then End e else E) = E" using e(4) by (auto simp: not_less)
  have k: "(if ct then NT else Type e, if ct then Attribute e else NA) = ?k" using e(2) by (auto simp: kind_def)
  obtain T s1 where p: "convert_piece env n ct NT NA S E ps e qs s = ret (T, s1)" "in_one ?k S E (gMemoryMap s1)"
    using convert_piece_returns [OF inv fc [unfolded e'] r e(4) l, of env n ct NT NA] d unfolding k by auto
  have q: "T = (if ct then NT else Type e)" "page_inv s1"
      "\<forall>a. owner s1 a = (if S \<le> a \<and> a \<le> E then {#?k#} else owner s a)" "memory_space s1 = memory_space s" "same_context s s1"
      "mMapDepth s1 \<le> 2" "mFreeMemoryMapEntryList s \<le> mFreeMemoryMapEntryList s1"
    using holds_ret [OF convert_piece_owner [OF inv fc [unfolded e'] r e(4)] p(1)] d e(2) by (auto simp: kind_def)
  let ?s1 = "if ct \<and> T = EfiConventionalMemory then clear_piece env S E s1 else s1"
  have sm: "same_memory s1 ?s1" using clear_piece_same by auto
  have f1: "page_inv ?s1" "gMemoryLock ?s1" "mFreeMapStack ?s1 = 0" "mMapDepth ?s1 \<le> mFreeMemoryMapEntryList ?s1"
    using sm q l c list same_memory_inv [OF sm] by (auto simp: same_memory_def same_context_def)
  obtain s2 where s2: "?free ?s1 = ret s2" "moved (mMapDepth ?s1) ?s1 s2" using free_stack_exact [OF f1] by blast
  have stop: "convert_pages_loop env ?free n ct NT NA E (E + 1) s2 = ret (EFI_SUCCESS, s2)"
  proof -
    have "\<not> E + 1 < E" using range_ok_Suc [OF r] by (auto simp: word_less_nat_alt)
    then show ?thesis by (subst convert_pages_loop.simps) simp
  qed
  have "Type e = fst k" using e(2) by (auto simp: kind_def)
  then have run: "convert_pages_loop env ?free n ct NT NA E S s = ret (EFI_SUCCESS, s2)"
    unfolding convert_pages_loop.simps [of env ?free n ct NT NA E S s] fc e' option.case prod.case Let_def R
    using lt comp p(1) s2(1) stop by simp
  have own: "owner s2 = owner s1" "in_one ?k S E (gMemoryMap s2)" "memory_space s2 = memory_space s"
      "page_inv s2" "mMapDepth s2 = 0" "same_context s s2"
    using s2(2) sm p(2) q unfolding moved_def same_memory_def by (auto elim!: same_context_trans)
  have "mFreeMemoryMapEntryList s \<le> mFreeMemoryMapEntryList s2 + 2"
    using s2(2) sm q(6,7) unfolding moved_def same_memory_def by auto
  with own q(3) s have "exactly ?k S E s s2" by (auto simp: exactly_def fully_idle_def same_context_def fun_eq_iff)
  with run show ?thesis by blast
qed

lemma CoreConvertPagesEx_exact:
  assumes s: "fully_idle s" and list: "2 \<le> mFreeMemoryMapEntryList s" and n: "n \<noteq> 0"
    and r: "range_ok S (S + bytes n - 1)" "\<not> S > S + bytes n" and one: "in_one k S (S + bytes n - 1) (gMemoryMap s)"
    and comp: "\<not> (ct \<and> incompatible_types NT (fst k))" and ca: "\<not> ct \<or> \<not> ca"
  shows "\<exists>s'. CoreConvertPagesEx env (CoreFreeMemoryMapStack env) S n ct NT ca NA s = ret (EFI_SUCCESS, s') \<and>
    exactly (if ct then NT else fst k, if ct then snd k else NA) S (S + bytes n - 1) s s'"
proof -
  have "S AND EFI_PAGE_MASK = 0" using r(1) by (intro page_mask_0 [THEN iffD2]) (simp add: range_ok_def)
  then show ?thesis
    using convert_exact [OF s list r(1) one comp, of env n] range_ok_less [OF r(1)] r(2) n ca s
    by (auto simp: CoreConvertPagesEx_def Let_def fully_idle_def)
qed

section \<open>A request that fits succeeds\<close>

lemma fits_range:
  assumes inv: "page_inv s" and f: "fits Mx Mn (unat (bytes n)) (gMemoryMap s) S" and n: "bytes n \<noteq> 0"
  shows "range_ok S (S + bytes n - 1)" "\<not> S > S + bytes n" "unat (S + bytes n - 1) + 1 = unat S + unat (bytes n)"
    "\<exists>A. in_one (EfiConventionalMemory, A) S (S + bytes n - 1) (gMemoryMap s)"
proof -
  let ?E = "S + bytes n - 1"
  obtain e where e: "e \<in> set (gMemoryMap s)" "Type e = EfiConventionalMemory" "Start e \<le> S"
      "unat S + unat (bytes n) \<le> unat (End e) + 1" and m: "unat S mod 4096 = 0"
    using f by (auto simp: fits_def)
  have top: "unat (End e) < unat MAX_ADDRESS"
    using inv e(1) by (auto simp: page_inv_def entry_ok_def range_ok_def word_less_nat_alt)
  with e(4) have sum: "unat (S + bytes n) = unat S + unat (bytes n)"
    by (subst unat_add_lem [symmetric]) simp
  have pos: "0 < unat (bytes n)" using n by (simp add: unat_gt_0)
  with sum have nz: "S + bytes n \<noteq> 0" by (auto simp: unat_eq_0)
  show E: "unat ?E + 1 = unat S + unat (bytes n)"
    using sum unat_minus_one [OF nz] pos by linarith
  have al: "unat (bytes n) mod 4096 = 0"
    using unat_end_of_pages [OF m, of n] E m by (metis add_diff_cancel_left' mod_0_imp_dvd dvd_diff_nat dvd_imp_mod_0)
  then have "4096 \<le> unat (bytes n)" using pos by (meson dvd_imp_le mod_0_imp_dvd)
  then have "S < ?E" using E by (simp add: word_less_nat_alt)
  moreover have "?E < MAX_ADDRESS" using E e(4) top by (simp add: word_less_nat_alt)
  ultimately show "range_ok S ?E" using m unat_end_of_pages [OF m, of n] by (simp add: range_ok_def)
  show "\<not> S > S + bytes n" using sum by (simp add: word_less_nat_alt)
  have "?E \<le> End e" using E e(4) by (simp add: word_le_nat_alt)
  then show "\<exists>A. in_one (EfiConventionalMemory, A) S ?E (gMemoryMap s)"
    using e by (auto simp: in_one_def kind_def)
qed

lemma first_place:
  assumes "bin \<noteq> 0 \<Longrightarrow> P bin" "dflt \<noteq> 0 \<Longrightarrow> P dflt" "third \<noteq> 0" "P third"
  shows "\<exists>S b. (if bin \<noteq> 0 then ret (bin, s)
      else if dflt \<noteq> 0 then ret (dflt, if dflt < mDefaultBaseAddress s then s\<lparr>mDefaultBaseAddress := dflt\<rparr> else s)
      else if third \<noteq> 0 then ret (third, s) else otherwise) = ret (S, s\<lparr>mDefaultBaseAddress := b\<rparr>) \<and> S \<noteq> 0 \<and> P S"
proof -
  have same: "s\<lparr>mDefaultBaseAddress := mDefaultBaseAddress s\<rparr> = s" by simp
  consider "bin \<noteq> 0" | "bin = 0" "dflt \<noteq> 0" | "bin = 0" "dflt = 0" by blast
  then show ?thesis
  proof cases
    case 2
    then show ?thesis using assms(2)
      by (intro exI [of _ dflt] exI [of _ "min dflt (mDefaultBaseAddress s)"]) (auto simp: min_def)
  qed (use assms same in \<open>metis+\<close>)
qed

lemma FindFreePages_returns:
  assumes inv: "page_inv s" and n: "n \<noteq> 0" "unat n < 2 ^ 52" and f: "fits Mx 0 (unat (bytes n)) (gMemoryMap s) S0" "S0 \<noteq> 0"
  shows "\<exists>S b. FindFreePages env free Mx n T EFI_PAGE_SIZE s = ret (S, s\<lparr>mDefaultBaseAddress := b\<rparr>) \<and>
    S \<noteq> 0 \<and> fits Mx 0 (unat (bytes n)) (gMemoryMap s) S"
proof -
  have es: "\<forall>e\<in>set (gMemoryMap s). entry_ok e" using inv by (simp add: page_inv_def)
  note B = unat_bytes [OF n(2)]
  have bz: "bytes n \<noteq> 0" using B n by (metis mult_eq_0_iff unat_0 unat_eq_zero zero_neq_numeral)
  note high = CoreFindFreePagesI_highest [OF es n refl, folded B]
  let ?stat = "mMemoryTypeStatistics s ! unat T"
  let ?bin = "if T < EfiMaxMemoryType \<and> Mx \<ge> stat_MaximumAddress ?stat
      then CoreFindFreePagesI (stat_MaximumAddress ?stat) (stat_BaseAddress ?stat) n EFI_PAGE_SIZE (gMemoryMap s) else 0"
  let ?default = "if Mx \<ge> mDefaultMaximumAddress s
      then CoreFindFreePagesI (mDefaultMaximumAddress s) 0 n EFI_PAGE_SIZE (gMemoryMap s) else 0"
  let ?last = "CoreFindFreePagesI Mx 0 n EFI_PAGE_SIZE (gMemoryMap s)"
  have bin: "?bin \<noteq> 0 \<Longrightarrow> fits Mx 0 (unat (bytes n)) (gMemoryMap s) ?bin"
    using high(1) [of "stat_MaximumAddress ?stat" "stat_BaseAddress ?stat"] by (auto intro: fits_mono split: if_splits)
  have default: "?default \<noteq> 0 \<Longrightarrow> fits Mx 0 (unat (bytes n)) (gMemoryMap s) ?default"
    using high(1) [of "mDefaultMaximumAddress s" 0] by (auto intro: fits_mono split: if_splits)
  have last: "?last \<noteq> 0" using high(2) [OF f(1)] f(2) by auto
  then have last': "fits Mx 0 (unat (bytes n)) (gMemoryMap s) ?last" by (rule high(1))
  show ?thesis
    unfolding FindFreePages.simps [of env free Mx n T EFI_PAGE_SIZE s] Let_def
    by (rule first_place [OF bin default last last'])
qed

definition valid_type :: "u32 \<Rightarrow> bool" where
  "valid_type T \<longleftrightarrow>
     \<not> (T \<ge> EfiMaxMemoryType \<and> T < MEMORY_TYPE_OEM_RESERVED_MIN) \<and> T \<noteq> EfiConventionalMemory \<and> T \<noteq> EfiPersistentMemory"

definition upper_bound :: "u32 \<Rightarrow> u64 \<Rightarrow> u64" where
  "upper_bound AT m = (if AT = AllocateMaxAddress then m else MAX_ADDRESS)"

definition serviceable :: "u32 \<Rightarrow> u64 \<Rightarrow> u64 \<Rightarrow> 'w page_state \<Rightarrow> bool" where
  "serviceable AT n m s \<longleftrightarrow>
     AT < MaxAllocateType \<and> n \<noteq> 0 \<and> unat n < 2 ^ 52 \<and>
     (if AT = AllocateAddress then fits MAX_ADDRESS 0 (unat (bytes n)) (gMemoryMap s) m
      else \<exists>S. S \<noteq> 0 \<and> fits (upper_bound AT m) 0 (unat (bytes n)) (gMemoryMap s) S)"

lemma exactly_unlock:
  "exactly k S E s s' \<Longrightarrow>
     page_idle (s'\<lparr>gMemoryLock := False\<rparr>) \<and> CoreReleaseMemoryLock s' = ret (s'\<lparr>gMemoryLock := False\<rparr>)"
  using lock_idle(2) by (auto simp: exactly_def CoreReleaseMemoryLock_def fully_idle_def)

text \<open>The exact effect between two services.\<close>

definition exactly_idle :: "u32 \<times> u64 \<Rightarrow> u64 \<Rightarrow> u64 \<Rightarrow> 'w page_state \<Rightarrow> 'w page_state \<Rightarrow> bool" where
  "exactly_idle k S E s s' \<longleftrightarrow>
     page_idle s' \<and> (\<forall>a. owner s' a = (if S \<le> a \<and> a \<le> E then {#k#} else owner s a)) \<and>
     in_one k S E (gMemoryMap s') \<and> memory_space s' = memory_space s \<and>
     mFreeMemoryMapEntryList s \<le> mFreeMemoryMapEntryList s' + 2"

lemma exactly_idle_intro:
  "exactly k S E (s\<lparr>gMemoryLock := True, mDefaultBaseAddress := b\<rparr>) s' \<Longrightarrow> exactly_idle k S E s (s'\<lparr>gMemoryLock := False\<rparr>)"
  "exactly k S E (s\<lparr>gMemoryLock := True\<rparr>) s' \<Longrightarrow> exactly_idle k S E s (s'\<lparr>gMemoryLock := False\<rparr>)"
  using lock_idle(2) by (auto simp: exactly_def exactly_idle_def)

lemma profile_exactly [simp]:
  "exactly_idle k S E s (update_profile env act T n b s') = exactly_idle k S E s s'"
  by (simp add: exactly_idle_def) (simp add: update_profile_def)

lemma CoreInternalAllocatePages_exact:
  assumes s: "page_idle s" and list: "2 \<le> mFreeMemoryMapEntryList s" and T: "valid_type T" and r: "serviceable AT n m s"
  shows "\<exists>S A s'. CoreInternalAllocatePages env AT T n (Some m) s = ret (EFI_SUCCESS, Some S, s') \<and>
    (AT = AllocateAddress \<longrightarrow> S = m) \<and> fits (upper_bound AT m) 0 (unat (bytes n)) (gMemoryMap s) S \<and>
    in_one (EfiConventionalMemory, A) S (S + bytes n - 1) (gMemoryMap s) \<and>
    exactly_idle (T, A) S (S + bytes n - 1) s s'"
proof -
  let ?s = "s\<lparr>gMemoryLock := True\<rparr>"
  have n: "n \<noteq> 0" "unat n < 2 ^ 52" and AT: "\<not> AT \<ge> MaxAllocateType" using r by (auto simp: serviceable_def)
  have bz: "bytes n \<noteq> 0" using unat_bytes [OF n(2)] n by (metis mult_eq_0_iff unat_0 unat_eq_zero zero_neq_numeral)
  have Tn: "T \<noteq> EfiConventionalMemory"
    "\<not> ((T \<ge> EfiMaxMemoryType \<and> T < MEMORY_TYPE_OEM_RESERVED_MIN) \<or> T = EfiConventionalMemory \<or> T = EfiPersistentMemory)"
    using T by (auto simp: valid_type_def)
  have lock: "CoreAcquireMemoryLock s = ret ?s" using s by (simp add: CoreAcquireMemoryLock_def page_idle_def)
  have conv: "\<exists>A s'. CoreConvertPages env (CoreFreeMemoryMapStack env) S n T s2 = ret (EFI_SUCCESS, s') \<and>
      in_one (EfiConventionalMemory, A) S (S + bytes n - 1) (gMemoryMap s) \<and> exactly (T, A) S (S + bytes n - 1) s2 s'"
    if s2: "fully_idle s2" "gMemoryMap s2 = gMemoryMap s" "2 \<le> mFreeMemoryMapEntryList s2"
      and f: "fits Mx 0 (unat (bytes n)) (gMemoryMap s) S" for S Mx s2
  proof -
    have inv: "page_inv s2" using s2 by (simp add: fully_idle_def)
    note fr = fits_range [OF inv f [folded s2(2)] bz]
    obtain A where A: "in_one (EfiConventionalMemory, A) S (S + bytes n - 1) (gMemoryMap s2)" using fr(4) by blast
    have "\<not> (True \<and> incompatible_types T (fst (EfiConventionalMemory, A)))" using Tn(1) by (simp add: incompatible_types_def)
    from CoreConvertPagesEx_exact [OF s2(1,3) n(1) fr(1,2) A this, of False env 0] A s2(2) show ?thesis
      unfolding CoreConvertPages_def by auto
  qed
  show ?thesis
  proof (cases "AT = AllocateAddress")
    case True
    have f: "fits MAX_ADDRESS 0 (unat (bytes n)) (gMemoryMap s) m" using r True by (simp add: serviceable_def)
    have al: "m AND EFI_PAGE_MASK = 0" using f by (intro page_mask_0 [THEN iffD2]) (simp add: fits_def)
    obtain A s' where c: "CoreConvertPages env (CoreFreeMemoryMapStack env) m n T ?s = ret (EFI_SUCCESS, s')"
        "in_one (EfiConventionalMemory, A) m (m + bytes n - 1) (gMemoryMap s)" "exactly (T, A) m (m + bytes n - 1) ?s s'"
      using conv [OF lock_idle(1) [OF s] _ _ f] list by auto
    have "CoreInternalAllocatePages env AT T n (Some m) s = ret (EFI_SUCCESS, Some m, s'\<lparr>gMemoryLock := False\<rparr>)"
      using AT Tn(2) True al lock c(1) exactly_unlock [OF c(3)]
      by (simp add: CoreInternalAllocatePages_def Let_def)
    with c(2) f True exactly_idle_intro(2) [OF c(3)] show ?thesis by (auto simp: upper_bound_def)
  next
    case False
    obtain S0 where S0: "S0 \<noteq> 0" "fits (upper_bound AT m) 0 (unat (bytes n)) (gMemoryMap s) S0"
      using r False by (auto simp: serviceable_def)
    have inv: "page_inv ?s" using lock_idle(1) [OF s] by (simp add: fully_idle_def)
    obtain S b where S: "FindFreePages env (CoreFreeMemoryMapStack env) (upper_bound AT m) n T EFI_PAGE_SIZE ?s =
        ret (S, s\<lparr>gMemoryLock := True, mDefaultBaseAddress := b\<rparr>)" "S \<noteq> 0"
        "fits (upper_bound AT m) 0 (unat (bytes n)) (gMemoryMap s) S"
      using FindFreePages_returns [OF inv n, of "upper_bound AT m" S0 env "CoreFreeMemoryMapStack env" T] S0 by auto
    let ?s2 = "s\<lparr>gMemoryLock := True, mDefaultBaseAddress := b\<rparr>"
    have s2: "fully_idle ?s2" using lock_idle(1) [OF s] by (auto simp: fully_idle_def page_inv_def tables_ok_def)
    obtain A s' where c: "CoreConvertPages env (CoreFreeMemoryMapStack env) S n T ?s2 = ret (EFI_SUCCESS, s')"
        "in_one (EfiConventionalMemory, A) S (S + bytes n - 1) (gMemoryMap s)" "exactly (T, A) S (S + bytes n - 1) ?s2 s'"
      using conv [OF s2 _ _ S(3)] list by auto
    have "CoreInternalAllocatePages env AT T n (Some m) s = ret (EFI_SUCCESS, Some S, s'\<lparr>gMemoryLock := False\<rparr>)"
      using AT Tn(2) False S(1,2) lock c(1) exactly_unlock [OF c(3)]
      by (simp add: CoreInternalAllocatePages_def Let_def upper_bound_def)
    with c(2) S(3) False exactly_idle_intro(1) [OF c(3)] show ?thesis by blast
  qed
qed

lemma CoreInternalFreePages_exact:
  assumes s: "page_idle s" and list: "2 \<le> mFreeMemoryMapEntryList s" and n: "n \<noteq> 0"
    and r: "range_ok S (S + bytes n - 1)" "\<not> S > S + bytes n" and one: "in_one (T, A) S (S + bytes n - 1) (gMemoryMap s)"
    and T: "T \<noteq> EfiConventionalMemory"
  shows "\<exists>s'. CoreInternalFreePages env S n s = ret (EFI_SUCCESS, s') \<and>
    exactly_idle (EfiConventionalMemory, A) S (S + bytes n - 1) s s'"
proof -
  let ?s = "s\<lparr>gMemoryLock := True\<rparr>"
  have lock: "CoreAcquireMemoryLock s = ret ?s" using s by (simp add: CoreAcquireMemoryLock_def page_idle_def)
  have al: "S AND EFI_PAGE_MASK = 0" using r by (intro page_mask_0 [THEN iffD2]) (simp add: range_ok_def)
  obtain e where e: "e \<in> set (gMemoryMap s)" "Start e \<le> S" "S < End e"
    using one range_ok_less [OF r(1)] by (auto simp: in_one_def intro: less_le_trans)
  obtain ps x qs where fc: "find_covering S (gMemoryMap s) = Some (ps, x, qs)"
    using find_covering_None [of S "gMemoryMap s" e] e by (cases "find_covering S (gMemoryMap s)") auto
  have "\<not> (True \<and> incompatible_types EfiConventionalMemory (fst (T, A)))" using T by (simp add: incompatible_types_def)
  from CoreConvertPagesEx_exact [OF lock_idle(1) [OF s] _ n r _ this, of False env 0] list one
  obtain s' where c: "CoreConvertPages env (CoreFreeMemoryMapStack env) S n EfiConventionalMemory ?s = ret (EFI_SUCCESS, s')"
      "exactly (EfiConventionalMemory, A) S (S + bytes n - 1) ?s s'"
    unfolding CoreConvertPages_def by auto
  have "CoreInternalFreePages env S n s = ret (EFI_SUCCESS, s'\<lparr>gMemoryLock := False\<rparr>)"
    using lock fc al c(1) exactly_unlock [OF c(2)] by (simp add: CoreInternalFreePages_def Let_def)
  with exactly_idle_intro(2) [OF c(2)] show ?thesis by blast
qed

section \<open>The theorems\<close>

lemma profile_fields [simp]:
  "mFreeMemoryMapEntryList (update_profile env act T n b s) = mFreeMemoryMapEntryList s"
  by (simp add: update_profile_def)

lemma CoreAllocatePages_exact:
  assumes "page_idle s" "2 \<le> mFreeMemoryMapEntryList s" "valid_type T" "serviceable AT n m s"
  shows "\<exists>S A s'. CoreAllocatePages env AT T n (Some m) s = ret (EFI_SUCCESS, Some S, s') \<and>
    (AT = AllocateAddress \<longrightarrow> S = m) \<and> fits (upper_bound AT m) 0 (unat (bytes n)) (gMemoryMap s) S \<and>
    in_one (EfiConventionalMemory, A) S (S + bytes n - 1) (gMemoryMap s) \<and>
    exactly_idle (T, A) S (S + bytes n - 1) s s'"
proof -
  obtain S A s' where "CoreInternalAllocatePages env AT T n (Some m) s = ret (EFI_SUCCESS, Some S, s')"
      "(AT = AllocateAddress \<longrightarrow> S = m) \<and> fits (upper_bound AT m) 0 (unat (bytes n)) (gMemoryMap s) S \<and>
       in_one (EfiConventionalMemory, A) S (S + bytes n - 1) (gMemoryMap s) \<and>
       exactly_idle (T, A) S (S + bytes n - 1) s s'"
    using CoreInternalAllocatePages_exact [OF assms, of env] by blast
  then show ?thesis
    by (intro exI [of _ S] exI [of _ A] exI) (auto simp: CoreAllocatePages_def)
qed

text \<open>C32: (liveness) A request that fits succeeds.  Let the allocator be between two services with at least two free descriptors,
  the type be one that may be allocated, and the number of pages be from 1 to below 2^52.  For AllocateAddress, let the pages
  from the address on lie in one descriptor of free memory; for the other two kinds of request let there be some such range that does not start at
  address 0 (which the search takes for a failure), for AllocateMaxAddress one that ends at or below the address.  Then CoreAllocatePages returns EFI_SUCCESS with such a
  range (the one asked for with AllocateAddress), and has changed the owner of exactly its addresses.\<close>

theorem fitting_request_succeeds:
  assumes "page_idle s" and "2 \<le> mFreeMemoryMapEntryList s" and "valid_type T" and "serviceable AllocateType n Memory s"
  shows "\<exists>S A s'. CoreAllocatePages env AllocateType T n (Some Memory) s = ret (EFI_SUCCESS, Some S, s') \<and>
    (AllocateType = AllocateAddress \<longrightarrow> S = Memory) \<and>
    (AllocateType = AllocateMaxAddress \<longrightarrow> unat S + 4096 * unat n \<le> unat Memory + 1) \<and>
    (\<forall>a. owner s' a = (if S \<le> a \<and> a \<le> S + bytes n - 1 then {#(T, A)#} else owner s a)) \<and> page_idle s'"
proof -
  have "unat n < 2 ^ 52" using assms(4) by (simp add: serviceable_def)
  then have b: "unat (bytes n) = 4096 * unat n" by (rule unat_bytes)
  obtain S A s' where run: "CoreAllocatePages env AllocateType T n (Some Memory) s = ret (EFI_SUCCESS, Some S, s')"
      "AllocateType = AllocateAddress \<longrightarrow> S = Memory" "fits (upper_bound AllocateType Memory) 0 (unat (bytes n)) (gMemoryMap s) S"
      "exactly_idle (T, A) S (S + bytes n - 1) s s'"
    using CoreAllocatePages_exact [OF assms] by blast
  have "AllocateType = AllocateMaxAddress \<longrightarrow> unat S + 4096 * unat n \<le> unat Memory + 1"
    using run(3) by (auto simp: fits_def upper_bound_def b)
  then show ?thesis using run(1,2,4) unfolding exactly_idle_def by blast
qed

lemma sample_fits: "fits Mx 0 12288 (gMemoryMap sample_pages) 0x103000" if "0x106000 \<le> unat Mx + 1"
  using that by (auto simp: fits_def sample_pages_def)

lemma fitting_request_succeeds_witness:
  "\<exists>A s'. CoreAllocatePages quiet_env AllocateAddress EfiRuntimeServicesCode 3 (Some 0x103000) sample_pages =
      ret (EFI_SUCCESS, Some 0x103000, s') \<and> owner s' 0x104FFF = {#(EfiRuntimeServicesCode, A)#}"
proof -
  have "serviceable AllocateAddress 3 0x103000 sample_pages"
    using sample_fits [of MAX_ADDRESS] by (simp add: serviceable_def unat_bytes)
  moreover have "2 \<le> mFreeMemoryMapEntryList sample_pages" by (simp add: sample_pages_def)
  moreover have "valid_type EfiRuntimeServicesCode" by (simp add: valid_type_def)
  ultimately show ?thesis
    using fitting_request_succeeds [OF sample_pages_idle, of EfiRuntimeServicesCode AllocateAddress 3 "0x103000" quiet_env] by fastforce
qed

lemma in_one_owner:
  assumes inv: "page_inv s" and one: "in_one k S E (gMemoryMap s)" and a: "S \<le> a" "a \<le> E"
  shows "owner s a = {#k#}"
proof -
  obtain e where e: "e \<in> set (gMemoryMap s)" "kind e = k" "covers a e"
    using one a by (auto simp: in_one_def covers_def intro: order_trans)
  then have "k \<in># owner s a" by (force simp: owners_def)
  moreover have "size (owner s a) + untested a (memory_space s) \<le> 1" using inv by (simp add: page_inv_def)
  ultimately show ?thesis by (auto dest!: multi_member_split)
qed

text \<open>C3: (roundtrip) What CoreAllocatePages takes, CoreFreePages gives back.  With at least four free descriptors, for a
  request that fits (a type that may be allocated, from 1 to below 2^52 pages, and so many free pages in one descriptor: at the
  address asked for or, where the allocator chooses, anywhere in its bound but at address 0): the allocation returns EFI_SUCCESS and an address; freeing the same number of pages there returns
  EFI_SUCCESS too, and after that every address of the machine has exactly the owners that it had before the
  allocation, with the type and the attributes.\<close>

theorem pages_allocate_then_free:
  assumes "page_idle s" and "4 \<le> mFreeMemoryMapEntryList s" and "valid_type T" and "serviceable AllocateType n Memory s"
  shows "\<exists>S s1 s2. CoreAllocatePages env AllocateType T n (Some Memory) s = ret (EFI_SUCCESS, Some S, s1) \<and>
    CoreFreePages env S n s1 = ret (EFI_SUCCESS, s2) \<and> (\<forall>a. owner s2 a = owner s a) \<and> page_idle s2"
proof -
  have n: "n \<noteq> 0" "unat n < 2 ^ 52" using assms(4) by (auto simp: serviceable_def)
  have bz: "bytes n \<noteq> 0" using unat_bytes [OF n(2)] n by (metis mult_eq_0_iff unat_0 unat_eq_zero zero_neq_numeral)
  have inv: "page_inv s" using assms(1) by (simp add: page_idle_def)
  have T: "T \<noteq> EfiConventionalMemory" using assms(3) by (simp add: valid_type_def)
  have list: "2 \<le> mFreeMemoryMapEntryList s" using assms(2) by simp
  obtain S A s1 where al: "CoreAllocatePages env AllocateType T n (Some Memory) s = ret (EFI_SUCCESS, Some S, s1)"
      "fits (upper_bound AllocateType Memory) 0 (unat (bytes n)) (gMemoryMap s) S"
      "in_one (EfiConventionalMemory, A) S (S + bytes n - 1) (gMemoryMap s)" "exactly_idle (T, A) S (S + bytes n - 1) s s1"
    using CoreAllocatePages_exact [OF assms(1) list assms(3,4)] by blast
  note r = fits_range [OF inv al(2) bz]
  have s1: "page_idle s1" "2 \<le> mFreeMemoryMapEntryList s1" "in_one (T, A) S (S + bytes n - 1) (gMemoryMap s1)"
    using al(4) assms(2) by (auto simp: exactly_idle_def)
  obtain s2 where fr: "CoreInternalFreePages env S n s1 = ret (EFI_SUCCESS, s2)"
      "exactly_idle (EfiConventionalMemory, A) S (S + bytes n - 1) s1 s2"
    using CoreInternalFreePages_exact [OF s1(1,2) n(1) r(1,2) s1(3) T] by blast
  have "owner s2 a = owner s a" for a
    using fr(2) al(4) in_one_owner [OF inv al(3), of a] by (simp add: exactly_idle_def)
  then show ?thesis
    using al(1) fr by (auto simp: CoreFreePages_def exactly_idle_def)
qed

lemma pages_allocate_then_free_witness:
  "\<exists>S s1 s2. CoreAllocatePages quiet_env AllocateAnyPages EfiBootServicesCode 3 (Some 0) sample_pages = ret (EFI_SUCCESS, Some S, s1) \<and>
     CoreFreePages quiet_env S 3 s1 = ret (EFI_SUCCESS, s2) \<and> owner s2 = owner sample_pages"
proof -
  have "serviceable AllocateAnyPages 3 0 sample_pages"
    using sample_fits [of MAX_ADDRESS]
    by (auto simp: serviceable_def unat_bytes upper_bound_def intro!: exI [of _ "0x103000 :: u64"])
  moreover have "4 \<le> mFreeMemoryMapEntryList sample_pages" by (simp add: sample_pages_def)
  moreover have "valid_type EfiBootServicesCode" by (simp add: valid_type_def)
  ultimately show ?thesis
    using pages_allocate_then_free [OF sample_pages_idle, of EfiBootServicesCode AllocateAnyPages 3 0 quiet_env]
    by (auto simp: fun_eq_iff)
qed

section \<open>Where the page services do something else\<close>

text \<open>
  The number of bytes is the number of pages shifted by 12 bits in 64 bits.  A request for 2^52 + 1 pages, 16 exabytes and a
  page, returns EFI_SUCCESS with one page.
\<close>

lemma page_count_wraps:
  "case CoreAllocatePages quiet_env AllocateAnyPages EfiBootServicesData (2 ^ 52 + 1) (Some 0) sample_pages of
     Some (Inr (Status, m, s')) \<Rightarrow> Status = EFI_SUCCESS \<and> m = Some 0x10F000 \<and>
       map (\<lambda>e. (Type e, Start e, End e)) (gMemoryMap s') =
         [(EfiConventionalMemory, 0x100000, 0x10EFFF), (EfiBootServicesData, 0x10F000, 0x11FFFF)]
   | _ \<Rightarrow> False"
  by code_simp

text \<open>
  A conversion that meets memory in use half way returns EFI_NOT_FOUND and leaves what it has converted: here the free page in
  front of memory in use has become loader data (type 2), and the caller does not know.
\<close>

lemma failed_allocation_keeps_pages:
  "case CoreAllocatePages quiet_env AllocateAddress 2 2 (Some 0x10F000) sample_pages of
     Some (Inr (Status, m, s')) \<Rightarrow> Status = EFI_NOT_FOUND \<and>
       map (\<lambda>e. (Type e, Start e, End e)) (gMemoryMap s') =
         [(EfiConventionalMemory, 0x100000, 0x10EFFF), (2, 0x10F000, 0x10FFFF), (EfiBootServicesData, 0x110000, 0x11FFFF)]
   | _ \<Rightarrow> False"
  by code_simp

text \<open>
  The counters of a type are changed by the whole number of pages for each descriptor that the range crosses: freeing two
  pages, one of each of two descriptors of boot services data, takes four off the counter.
\<close>

lemma counter_counts_range_for_each_piece:
  "case CoreFreePages quiet_env 0x111000 2
      (sample_pages\<lparr>gMemoryMap :=
         [\<lparr>Slot = None, Type = EfiBootServicesData, Start = 0x110000, End = 0x111FFF, Attribute = 0xF\<rparr>,
          \<lparr>Slot = None, Type = EfiBootServicesData, Start = 0x112000, End = 0x113FFF, Attribute = 0x8\<rparr>],
         mMemoryTypeStatistics := initial_statistics[4 := (initial_statistics ! 4)\<lparr>CurrentNumberOfPages := 8\<rparr>]\<rparr>) of
     Some (Inr (Status, s')) \<Rightarrow> Status = EFI_SUCCESS \<and> CurrentNumberOfPages (mMemoryTypeStatistics s' ! 4) = 4
   | _ \<Rightarrow> False"
  by code_simp

text \<open>
  The stack of descriptors overflows when the list of free descriptors runs out while there is no free memory and much untested
  memory: each untested range takes a slot of mMapStack, and the calls of CoreFreeMemoryMapStack in between return at once.
\<close>

definition untested_ranges :: gcd_map where
  "untested_ranges = map (\<lambda>i.
     \<lparr>BaseAddress = 0x1000000 * word_of_nat i, EndAddress = 0x1000000 * word_of_nat i + 0xFFF,
      Capabilities = EFI_MEMORY_PRESENT OR EFI_MEMORY_INITIALIZED OR 0xF, Attributes = 0,
      GcdMemoryType = EfiGcdMemoryTypeReserved, GcdIoType = 0, ImageHandle = NULL, DeviceHandle = NULL\<rparr>) [1..<6]"

lemma stack_of_descriptors_overflows:
  "CoreUpdateMemoryAttributes quiet_env 0x111000 1 0x8000F
     (sample_pages\<lparr>gMemoryMap := [\<lparr>Slot = None, Type = EfiBootServicesData, Start = 0x110000, End = 0x11FFFF, Attribute = 0xF\<rparr>],
        mFreeMemoryMapEntryList := 0, memory_space := untested_ranges\<rparr>) = Some (Inl AssertFailed)"
  by code_simp

end
