(* ===== verification/Pools.thy ===== *)
theory Pools
  imports PageRoundTrip
begin

text \<open>
  The pool allocator of the DXE core (MdeModulePkg/Core/Dxe/Mem/Pool.c) on top of the page allocator: blocks of the sizes of
  a table, in a list of free blocks for each memory type and size, carved out of pages; bigger requests get pages of their own.
  The memory that holds the headers is a store: \<open>objects\<close> gives what was last written at an address, a \<open>POOL_FREE\<close> or a
  \<open>POOL_HEAD\<close>, and \<open>tails\<close> the size in a \<open>POOL_TAIL\<close>; nothing there stands for memory without the signature.  What
  the owner of a buffer writes, and the clearing of memory, touches no header.  The lists of free blocks are lists of
  addresses.
\<close>

section \<open>Sizes\<close>

abbreviation SIZE_OF_POOL_HEAD :: u64 where "SIZE_OF_POOL_HEAD \<equiv> 24"
abbreviation sizeof_POOL_TAIL :: u64 where "sizeof_POOL_TAIL \<equiv> 16"
abbreviation POOL_OVERHEAD :: u64 where "POOL_OVERHEAD \<equiv> SIZE_OF_POOL_HEAD + sizeof_POOL_TAIL"
abbreviation sizeof_POOL :: u64 where "sizeof_POOL \<equiv> 248"
abbreviation MAX_POOL_SIZE :: u64 where "MAX_POOL_SIZE \<equiv> MAX_ADDRESS - POOL_OVERHEAD"
abbreviation MAX_POOL_LIST :: nat where "MAX_POOL_LIST \<equiv> 13"

definition mPoolSizeTable :: "u64 list" where
  "mPoolSizeTable = [64, 128, 192, 320, 512, 832, 1344, 2176, 3520, 5696, 9216, 14912, 24128]"

primrec size_index :: "u64 \<Rightarrow> u64 list \<Rightarrow> nat \<Rightarrow> nat" where
  "size_index Size [] Index = Index"
| "size_index Size (x # xs) Index = (if x \<ge> Size then Index else size_index Size xs (Suc Index))"

definition GetPoolIndexFromSize :: "u64 \<Rightarrow> nat" where
  "GetPoolIndexFromSize Size = size_index Size mPoolSizeTable 0"

definition LIST_TO_SIZE :: "nat \<Rightarrow> u64" where
  "LIST_TO_SIZE Index = mPoolSizeTable ! Index"

definition ALIGN_VARIABLE :: "u64 \<Rightarrow> u64" where
  "ALIGN_VARIABLE Value = Value + ((8 - Value) AND 7)"

definition pool_granularity :: "u32 \<Rightarrow> u64" where
  "pool_granularity T =
     (if T = EfiACPIReclaimMemory \<or> T = EfiACPIMemoryNVS \<or> T = EfiRuntimeServicesCode \<or> T = EfiRuntimeServicesData
      then EFI_ACPI_RUNTIME_PAGE_ALLOCATION_ALIGNMENT else DEFAULT_PAGE_ALLOCATION)"

section \<open>State\<close>

datatype pool_object = POOL_FREE u32 | POOL_HEAD u32 u64

record POOL =
  Used :: u64
  MemoryType :: u32
  FreeList :: "u64 list list"

definition new_pool :: "u32 \<Rightarrow> POOL" where
  "new_pool T = \<lparr>Used = 0, MemoryType = T, FreeList = replicate MAX_POOL_LIST []\<rparr>"

text \<open>A pointer to a \<open>POOL\<close>: an entry of \<open>mPoolHead\<close>, or the address of one on \<open>mPoolHeadList\<close>.\<close>

datatype pool_ref = PoolHead nat | PoolOnList u64

record 'w pool_state =
  page_part :: "'w page_state"
  objects :: "u64 \<Rightarrow> pool_object option"
  tails :: "u64 \<Rightarrow> u64 option"
  mPoolHead :: "POOL list"
  mPoolHeadList :: "(u64 \<times> POOL) list"

definition CoreInitializePool :: "'w pool_state \<Rightarrow> 'w pool_state" where
  "CoreInitializePool s = s\<lparr>mPoolHead := map (\<lambda>T. new_pool (word_of_nat T)) [0..<15]\<rparr>"

definition get_pool :: "pool_ref \<Rightarrow> 'w pool_state \<Rightarrow> POOL" where
  "get_pool r s =
     (case r of
        PoolHead i \<Rightarrow> mPoolHead s ! i
      | PoolOnList a \<Rightarrow> (case map_of (mPoolHeadList s) a of Some P \<Rightarrow> P | None \<Rightarrow> new_pool 0))"

definition update_pool :: "pool_ref \<Rightarrow> (POOL \<Rightarrow> POOL) \<Rightarrow> 'w pool_state \<Rightarrow> 'w pool_state" where
  "update_pool r f s =
     (case r of
        PoolHead i \<Rightarrow> s\<lparr>mPoolHead := (mPoolHead s)[i := f (mPoolHead s ! i)]\<rparr>
      | PoolOnList a \<Rightarrow> s\<lparr>mPoolHeadList := map (\<lambda>(b, P). (b, if b = a then f P else P)) (mPoolHeadList s)\<rparr>)"

definition set_free_list :: "pool_ref \<Rightarrow> nat \<Rightarrow> u64 list \<Rightarrow> 'w pool_state \<Rightarrow> 'w pool_state" where
  "set_free_list r Index as = update_pool r (\<lambda>P. P\<lparr>FreeList := (FreeList P)[Index := as]\<rparr>)"

definition free_list :: "pool_ref \<Rightarrow> nat \<Rightarrow> 'w pool_state \<Rightarrow> u64 list" where
  "free_list r Index s = FreeList (get_pool r s) ! Index"

definition insert_free :: "pool_ref \<Rightarrow> nat \<Rightarrow> u64 \<Rightarrow> 'w pool_state \<Rightarrow> 'w pool_state" where
  "insert_free r Index a s =
     set_free_list r Index (a # free_list r Index s) (s\<lparr>objects := (objects s)(a \<mapsto> POOL_FREE (word_of_nat Index))\<rparr>)"

fun is_pool_free :: "pool_object option \<Rightarrow> bool" where
  "is_pool_free (Some (POOL_FREE i)) = True"
| "is_pool_free _ = False"

text \<open>An operation of the page allocator.\<close>

definition with_pages :: "('w page_state \<Rightarrow> ('a \<times> 'w page_state) run) \<Rightarrow> 'w pool_state \<Rightarrow> ('a \<times> 'w pool_state) run" where
  "with_pages f s = bind_run (f (page_part s)) (\<lambda>(x, p). ret (x, s\<lparr>page_part := p\<rparr>))"

definition clear_memory :: "'w page_env \<Rightarrow> u64 \<Rightarrow> u64 \<Rightarrow> 'w pool_state \<Rightarrow> 'w pool_state" where
  "clear_memory env a n s =
     s\<lparr>page_part := (page_part s)\<lparr>pworld := DEBUG_CLEAR_MEMORY env a n (pworld (page_part s))\<rparr>\<rparr>"

section \<open>Carving\<close>

text \<open>The inner loop: free blocks of one size, as many as fit.  (No size of the table is 0.)\<close>

function fill_block :: "pool_ref \<Rightarrow> u64 \<Rightarrow> nat \<Rightarrow> nat \<Rightarrow> nat \<Rightarrow> 'w pool_state \<Rightarrow> nat \<times> 'w pool_state" where
  "fill_block r NewPage MaxOffset Index Offset s =
     (let FSize = unat (LIST_TO_SIZE Index) in
      if FSize \<noteq> 0 \<and> Offset + FSize \<le> MaxOffset
      then fill_block r NewPage MaxOffset Index (Offset + FSize) (insert_free r Index (NewPage + word_of_nat Offset) s)
      else (Offset, s))"
  by pat_completeness auto
termination by (relation "measure (\<lambda>(_, _, MaxOffset, _, Offset, _). MaxOffset - Offset)") auto

declare fill_block.simps [simp del]

text \<open>The outer loop, over the sizes downwards; the third number is \<open>Index + 1\<close>, and 0 when \<open>Index\<close> has wrapped.\<close>

primrec carve_loop :: "pool_ref \<Rightarrow> u64 \<Rightarrow> nat \<Rightarrow> nat \<Rightarrow> nat \<Rightarrow> 'w pool_state \<Rightarrow> (nat \<times> 'w pool_state) run" where
  "carve_loop r NewPage MaxOffset 0 Offset s = (if Offset < MaxOffset then Some (Inl AssertFailed) else ret (Offset, s))"
| "carve_loop r NewPage MaxOffset (Suc Index) Offset s =
     (if Offset < MaxOffset then
        assert_if True (Index < MAX_POOL_LIST)
          (let (Offset', s') = fill_block r NewPage MaxOffset Index Offset s
           in carve_loop r NewPage MaxOffset Index Offset' s')
      else ret (Offset, s))"

definition carve :: "pool_ref \<Rightarrow> u64 \<Rightarrow> u64 \<Rightarrow> u64 \<Rightarrow> nat \<Rightarrow> 'w pool_state \<Rightarrow> (u64 \<times> 'w pool_state) run" where
  "carve r NewPage Offset MaxOffset Index s =
     bind_run (carve_loop r NewPage (unat MaxOffset) Index (unat Offset) s)
       (\<lambda>(Offset', s'). assert_if True (Offset' = unat MaxOffset) (ret (NewPage, s')))"

section \<open>Allocation\<close>

definition pool_block ::
  "'w page_env \<Rightarrow> pool_ref \<Rightarrow> u32 \<Rightarrow> u64 \<Rightarrow> nat \<Rightarrow> 'w pool_state \<Rightarrow> (u64 \<times> 'w pool_state) run" where
  "pool_block env r T Size Index s =
     (let Granularity = pool_granularity T; Lists = GetPoolIndexFromSize Granularity;
          new_pages = (\<lambda>n. with_pages (CoreAllocatePoolPages env (CoreFreeMemoryMapStack env) T n Granularity)) in
      if Index \<ge> Lists then
        new_pages
          ((EFI_SIZE_TO_PAGES Size + EFI_SIZE_TO_PAGES Granularity - 1) AND NOT (EFI_SIZE_TO_PAGES Granularity - 1)) s
      else (case free_list r Index s of
        a # as \<Rightarrow> assert_if True (is_pool_free (objects s a)) (ret (a, set_free_list r Index as s))
      | [] \<Rightarrow>
          (case find (\<lambda>i. free_list r i s \<noteq> []) [Suc Index..<Lists] of
            Some i \<Rightarrow>
              let a = hd (free_list r i s) in
              assert_if True (is_pool_free (objects s a))
                (carve r a (LIST_TO_SIZE Index) (LIST_TO_SIZE i) i (set_free_list r i (tl (free_list r i s)) s))
          | None \<Rightarrow>
              bind_run (new_pages (EFI_SIZE_TO_PAGES Granularity) s) (\<lambda>(NewPage, s1).
                if NewPage = NULL then ret (NULL, s1)
                else carve r NewPage (LIST_TO_SIZE Index) Granularity Lists s1))))"

definition pool_header :: "'w page_env \<Rightarrow> pool_ref \<Rightarrow> u64 \<Rightarrow> u32 \<Rightarrow> u64 \<Rightarrow> 'w pool_state \<Rightarrow> 'w pool_state" where
  "pool_header env r Head T Size s =
     update_pool r (\<lambda>P. P\<lparr>Used := Used P + Size\<rparr>)
       (clear_memory env (Head + SIZE_OF_POOL_HEAD) (Size - POOL_OVERHEAD)
         (s\<lparr>objects := (objects s)(Head \<mapsto> POOL_HEAD T Size),
            tails := (tails s)(Head + Size - sizeof_POOL_TAIL \<mapsto> Size)\<rparr>))"

text \<open>The body of \<open>CoreAllocatePoolI\<close>, with the function that finds the pool of the type.\<close>

definition allocate_pool_with ::
  "'w page_env \<Rightarrow> (u32 \<Rightarrow> 'w pool_state \<Rightarrow> (pool_ref option \<times> 'w pool_state) run) \<Rightarrow> u32 \<Rightarrow> u64 \<Rightarrow> 'w pool_state \<Rightarrow>
     (u64 \<times> 'w pool_state) run" where
  "allocate_pool_with env lookup T Size0 s =
     assert_if True (gMemoryLock (page_part s))
       (let Size = ALIGN_VARIABLE Size0 + POOL_OVERHEAD; Index = GetPoolIndexFromSize Size in
        bind_run (lookup T s) (\<lambda>(Pool, s1).
          case Pool of None \<Rightarrow> ret (NULL, s1)
          | Some r \<Rightarrow>
              bind_run (pool_block env r T Size Index s1) (\<lambda>(Head, s2).
                if Head \<noteq> NULL then ret (Head + SIZE_OF_POOL_HEAD, pool_header env r Head T Size s2) else ret (NULL, s2))))"

text \<open>The body of \<open>LookupPoolHead\<close>, with the function that allocates the \<open>POOL\<close> of a new type.\<close>

definition lookup_pool_with ::
  "(u32 \<Rightarrow> u64 \<Rightarrow> 'w pool_state \<Rightarrow> (u64 \<times> 'w pool_state) run) \<Rightarrow> u32 \<Rightarrow> 'w pool_state \<Rightarrow>
     (pool_ref option \<times> 'w pool_state) run" where
  "lookup_pool_with alloc T s =
     (if T < EfiMaxMemoryType then ret (Some (PoolHead (unat T)), s)
      else if T \<ge> MEMORY_TYPE_OEM_RESERVED_MIN then
        (case find (\<lambda>(a, P). MemoryType P = T) (mPoolHeadList s) of
          Some (a, P) \<Rightarrow> ret (Some (PoolOnList a), s)
        | None \<Rightarrow>
            bind_run (alloc EfiBootServicesData sizeof_POOL s) (\<lambda>(Pool, s1).
              if Pool = NULL then ret (None, s1)
              else ret (Some (PoolOnList Pool), s1\<lparr>mPoolHeadList := (Pool, new_pool T) # mPoolHeadList s1\<rparr>)))
      else ret (None, s))"

text \<open>
  \<open>CoreAllocatePoolI\<close> and \<open>LookupPoolHead\<close> call each other; the inner call is for boot services data, whose pool is found
  without an allocation.  \<open>allocate_pool_recursive\<close> below is the equation of the code.
\<close>

definition CoreAllocatePoolI :: "'w page_env \<Rightarrow> u32 \<Rightarrow> u64 \<Rightarrow> 'w pool_state \<Rightarrow> (u64 \<times> 'w pool_state) run" where
  "CoreAllocatePoolI env =
     allocate_pool_with env (lookup_pool_with (allocate_pool_with env (lookup_pool_with (\<lambda>_ _ _. None))))"

definition LookupPoolHead :: "'w page_env \<Rightarrow> u32 \<Rightarrow> 'w pool_state \<Rightarrow> (pool_ref option \<times> 'w pool_state) run" where
  "LookupPoolHead env = lookup_pool_with (CoreAllocatePoolI env)"

text \<open>CoreAllocatePoolI and LookupPoolHead call each other: a pool of a new type is itself allocated from the pool.
  The model cuts this off at the second level.  The result satisfies the equation of the code, with
  LookupPoolHead calling CoreAllocatePoolI itself.\<close>

lemma allocate_pool_recursive:
  "CoreAllocatePoolI env T Size s = allocate_pool_with env (lookup_pool_with (CoreAllocatePoolI env)) T Size s"
proof -
  have "lookup_pool_with (allocate_pool_with env (lookup_pool_with (\<lambda>_ _ _. None))) T s = LookupPoolHead env T s" for T and s :: "'a pool_state"
    unfolding LookupPoolHead_def
    unfolding CoreAllocatePoolI_def
    by (auto simp: lookup_pool_with_def allocate_pool_with_def split: option.split)
  then have "lookup_pool_with (allocate_pool_with env (lookup_pool_with (\<lambda>_ _ _. None))) = LookupPoolHead env" by (intro ext)
  then have "CoreAllocatePoolI env = allocate_pool_with env (LookupPoolHead env)" by (simp only: CoreAllocatePoolI_def)
  then show ?thesis unfolding LookupPoolHead_def [symmetric] by simp
qed

section \<open>Freeing\<close>

lemma LIST_TO_SIZE_pos: "i < MAX_POOL_LIST \<Longrightarrow> 0 < unat (LIST_TO_SIZE i)"
proof -
  have "\<forall>x\<in>set mPoolSizeTable. 0 < unat x" "length mPoolSizeTable = 13" by (simp_all add: mPoolSizeTable_def)
  then show "i < MAX_POOL_LIST \<Longrightarrow> 0 < unat (LIST_TO_SIZE i)" by (simp add: LIST_TO_SIZE_def)
qed

text \<open>
  The walk over the blocks of a page, as long as they are free.  (The code reads the \<open>Index\<close> of the block that is not free,
  too, to add its size to an offset that it no longer needs.)
\<close>

function all_free :: "(u64 \<Rightarrow> pool_object option) \<Rightarrow> u64 \<Rightarrow> nat \<Rightarrow> nat \<Rightarrow> bool run" where
  "all_free obs NewPage Granularity Offset =
     (if Offset < Granularity then
        (case obs (NewPage + word_of_nat Offset) of
          Some (POOL_FREE i) \<Rightarrow>
            if unat i < MAX_POOL_LIST then all_free obs NewPage Granularity (Offset + unat (LIST_TO_SIZE (unat i)))
            else Some (Inl OutOfBounds)
        | _ \<Rightarrow> ret False)
      else ret True)"
  by pat_completeness auto
termination
  by (relation "measure (\<lambda>(_, _, Granularity, Offset). Granularity - Offset)") (auto dest: LIST_TO_SIZE_pos)

declare all_free.simps [simp del]

text \<open>The second walk, over a page of free blocks only, takes them out of their lists.\<close>

function unlink_page :: "pool_ref \<Rightarrow> u64 \<Rightarrow> nat \<Rightarrow> nat \<Rightarrow> 'w pool_state \<Rightarrow> 'w pool_state run" where
  "unlink_page r NewPage Granularity Offset s =
     (if Offset < Granularity then
        (case objects s (NewPage + word_of_nat Offset) of
          Some (POOL_FREE i) \<Rightarrow>
            if unat i < MAX_POOL_LIST then
              unlink_page r NewPage Granularity (Offset + unat (LIST_TO_SIZE (unat i)))
                (set_free_list r (unat i) (remove1 (NewPage + word_of_nat Offset) (free_list r (unat i) s)) s)
            else Some (Inl OutOfBounds)
        | _ \<Rightarrow> Some (Inl UseAfterFree))
      else ret s)"
  by pat_completeness auto
termination
  by (relation "measure (\<lambda>(_, _, Granularity, Offset, _). Granularity - Offset)") (auto dest: LIST_TO_SIZE_pos)

declare unlink_page.simps [simp del]

definition free_pages :: "'w page_env \<Rightarrow> u64 \<Rightarrow> u64 \<Rightarrow> 'w pool_state \<Rightarrow> 'w pool_state run" where
  "free_pages env a n s =
     bind_run (CoreFreePoolPages env (CoreFreeMemoryMapStack env) a n (page_part s)) (\<lambda>p. ret (s\<lparr>page_part := p\<rparr>))"

definition free_block :: "'w page_env \<Rightarrow> pool_ref \<Rightarrow> u32 \<Rightarrow> u64 \<Rightarrow> u64 \<Rightarrow> 'w pool_state \<Rightarrow> 'w pool_state run" where
  "free_block env r T Size Head s =
     (let Granularity = pool_granularity T; Index = GetPoolIndexFromSize Size in
      if Index \<ge> GetPoolIndexFromSize Granularity then
        free_pages env Head
          ((EFI_SIZE_TO_PAGES Size + EFI_SIZE_TO_PAGES Granularity - 1) AND NOT (EFI_SIZE_TO_PAGES Granularity - 1)) s
      else
        let s1 = insert_free r Index Head s; NewPage = Head AND NOT (Granularity - 1) in
        if is_pool_free (objects s1 NewPage) then
          bind_run (all_free (objects s1) NewPage (unat Granularity) 0) (\<lambda>AllFree.
            if AllFree then
              bind_run (unlink_page r NewPage (unat Granularity) 0 s1) (free_pages env NewPage (EFI_SIZE_TO_PAGES Granularity))
            else ret s1)
        else ret s1)"

partial_function (option) CoreFreePoolI :: "'w page_env \<Rightarrow> u64 \<Rightarrow> 'w pool_state \<Rightarrow> (efi_status \<times> 'w pool_state) run" where
  "CoreFreePoolI env Buffer s =
     (if Buffer = NULL then Some (Inl AssertFailed)
      else
        let Head = Buffer - SIZE_OF_POOL_HEAD in
        case objects s Head of
          Some (POOL_HEAD T Size) \<Rightarrow>
            if tails s (Head + Size - sizeof_POOL_TAIL) \<noteq> Some Size \<or> \<not> gMemoryLock (page_part s) then Some (Inl AssertFailed)
            else
              bind_run (LookupPoolHead env T s) (\<lambda>(Pool, s1).
                case Pool of None \<Rightarrow> ret (EFI_INVALID_PARAMETER, s1)
                | Some r \<Rightarrow>
                    bind_run
                      (free_block env r T Size Head
                        (clear_memory env Head Size (update_pool r (\<lambda>P. P\<lparr>Used := Used P - Size\<rparr>) s1))) (\<lambda>s2.
                      case r of
                        PoolOnList a \<Rightarrow>
                          if MemoryType (get_pool r s2) \<ge> 0x80000000 \<and> Used (get_pool r s2) = 0 then
                            bind_run
                              (CoreFreePoolI env a (s2\<lparr>mPoolHeadList := filter (\<lambda>(b, P). b \<noteq> a) (mPoolHeadList s2)\<rparr>))
                              (\<lambda>(Status, s3). ret (EFI_SUCCESS, s3))
                          else ret (EFI_SUCCESS, s2)
                      | PoolHead i \<Rightarrow> ret (EFI_SUCCESS, s2)))
        | _ \<Rightarrow> Some (Inl AssertFailed))"

declare CoreFreePoolI.simps [code]

section \<open>The services\<close>

definition lock_pages :: "('w page_state \<Rightarrow> 'w page_state run) \<Rightarrow> 'w pool_state \<Rightarrow> 'w pool_state run" where
  "lock_pages f s = bind_run (f (page_part s)) (\<lambda>p. ret (s\<lparr>page_part := p\<rparr>))"

text \<open>\<open>BufferIsNull\<close>: the pointer \<open>Buffer\<close> is NULL.  The address in the result is what \<open>*Buffer\<close> is set to.\<close>

definition CoreInternalAllocatePool ::
  "'w page_env \<Rightarrow> u32 \<Rightarrow> u64 \<Rightarrow> bool \<Rightarrow> 'w pool_state \<Rightarrow> (efi_status \<times> u64 option \<times> 'w pool_state) run" where
  "CoreInternalAllocatePool env PoolType Size BufferIsNull s =
     (if (PoolType \<ge> EfiMaxMemoryType \<and> PoolType < MEMORY_TYPE_OEM_RESERVED_MIN) \<or>
         PoolType = EfiConventionalMemory \<or> PoolType = EfiPersistentMemory
      then ret (EFI_INVALID_PARAMETER, None, s)
      else if BufferIsNull then ret (EFI_INVALID_PARAMETER, None, s)
      else if Size > MAX_POOL_SIZE then ret (EFI_OUT_OF_RESOURCES, Some NULL, s)
      else if gMemoryLock (page_part s) then ret (EFI_OUT_OF_RESOURCES, Some NULL, s)
      else
        bind_run (lock_pages CoreAcquireMemoryLock s) (\<lambda>s1.
        bind_run (CoreAllocatePoolI env PoolType Size s1) (\<lambda>(Buffer, s2).
        bind_run (lock_pages CoreReleaseMemoryLock s2) (\<lambda>s3.
          ret (if Buffer \<noteq> NULL then EFI_SUCCESS else EFI_OUT_OF_RESOURCES, Some Buffer, s3)))))"

definition pool_profile :: "'w page_env \<Rightarrow> string \<Rightarrow> u32 \<Rightarrow> u64 \<Rightarrow> u64 \<Rightarrow> 'w pool_state \<Rightarrow> 'w pool_state" where
  "pool_profile env Action T Size Buffer s = s\<lparr>page_part := update_profile env Action T Size Buffer (page_part s)\<rparr>"

definition CoreAllocatePool ::
  "'w page_env \<Rightarrow> u32 \<Rightarrow> u64 \<Rightarrow> bool \<Rightarrow> 'w pool_state \<Rightarrow> (efi_status \<times> u64 option \<times> 'w pool_state) run" where
  "CoreAllocatePool env PoolType Size BufferIsNull s =
     bind_run (CoreInternalAllocatePool env PoolType Size BufferIsNull s) (\<lambda>(Status, Buffer, s1).
       ret (Status, Buffer,
         if \<not> EFI_ERROR Status
         then pool_profile env ''MemoryProfileActionAllocatePool'' PoolType Size (case Buffer of None \<Rightarrow> NULL | Some b \<Rightarrow> b) s1
         else s1))"

definition CoreInternalFreePool :: "'w page_env \<Rightarrow> u64 \<Rightarrow> 'w pool_state \<Rightarrow> (efi_status \<times> 'w pool_state) run" where
  "CoreInternalFreePool env Buffer s =
     (if Buffer = NULL then ret (EFI_INVALID_PARAMETER, s)
      else
        bind_run (lock_pages CoreAcquireMemoryLock s) (\<lambda>s1.
        bind_run (CoreFreePoolI env Buffer s1) (\<lambda>(Status, s2).
        bind_run (lock_pages CoreReleaseMemoryLock s2) (\<lambda>s3. ret (Status, s3)))))"

definition CoreFreePool :: "'w page_env \<Rightarrow> u64 \<Rightarrow> 'w pool_state \<Rightarrow> (efi_status \<times> 'w pool_state) run" where
  "CoreFreePool env Buffer s =
     bind_run (CoreInternalFreePool env Buffer s) (\<lambda>(Status, s1).
       ret (Status, if \<not> EFI_ERROR Status then pool_profile env ''MemoryProfileActionFreePool'' 0 0 Buffer s1 else s1))"

section \<open>A size that wraps\<close>

definition sample_pool :: "unit pool_state" where
  "sample_pool = CoreInitializePool
     \<lparr>page_part = sample_pages, objects = (\<lambda>_. None), tails = (\<lambda>_. None), mPoolHead = [], mPoolHeadList = []\<rparr>"

text \<open>
  The largest size that passes the test, rounded up to a multiple of 8 and with the overhead added, is 2^64.  The pool takes it
  for 0: CoreAllocatePool returns EFI_SUCCESS and a block of 64 bytes, and writes the tail in front of it.
\<close>

lemma pool_size_wraps:
  "case CoreAllocatePool quiet_env EfiBootServicesData 0xFFFFFFFFFFFFFFD7 False sample_pool of
     Some (Inr (Status, Buffer, s)) \<Rightarrow> Status = EFI_SUCCESS \<and> Buffer = Some 0x10F018 \<and>
       objects s 0x10F000 = Some (POOL_HEAD EfiBootServicesData 0) \<and> tails s 0x10EFF0 = Some 0 \<and>
       objects s 0x10F040 = Some (POOL_FREE 8)
   | _ \<Rightarrow> False"
  by code_simp

end
