(* ===== verification/PoolMap.thy ===== *)
theory PoolMap
  imports Pools
begin

text \<open>
  The blocks of the pool: carving leaves nothing over, and the blocks in use are kept apart by every operation.
\<close>

section \<open>The sizes\<close>

definition sz :: "nat \<Rightarrow> nat" where "sz i = unat (LIST_TO_SIZE i)"

lemma sz_table: "map unat mPoolSizeTable = [64, 128, 192, 320, 512, 832, 1344, 2176, 3520, 5696, 9216, 14912, 24128]"
  by (simp add: mPoolSizeTable_def)

lemma sz_nth: "i < 13 \<Longrightarrow> sz i = [64, 128, 192, 320, 512, 832, 1344, 2176, 3520, 5696, 9216, 14912, 24128] ! i"
proof -
  have "length mPoolSizeTable = 13" by (simp add: mPoolSizeTable_def)
  then show "i < 13 \<Longrightarrow> ?thesis" unfolding sz_table [symmetric] by (simp add: sz_def LIST_TO_SIZE_def)
qed

lemma sz_cases:
  assumes "\<forall>x\<in>set [64, 128, 192, 320, 512, 832, 1344, 2176, 3520, 5696, 9216, 14912, 24128]. P x" and "i < 13" shows "P (sz i)"
proof -
  have "sz i \<in> set [64, 128, 192, 320, 512, 832, 1344, 2176, 3520, 5696, 9216, 14912, 24128]"
    unfolding sz_nth [OF assms(2)] by (rule nth_mem) (use assms(2) in simp)
  then show ?thesis using assms(1) by blast
qed

lemma sz_64: "i < 13 \<Longrightarrow> 64 dvd sz i"
  by (rule sz_cases [where P = "\<lambda>x. 64 dvd x"]) auto

lemma sz_pos: "i < 13 \<Longrightarrow> 64 \<le> sz i"
  by (rule sz_cases) auto

lemma sz_small: "i < 9 \<Longrightarrow> sz i \<le> 3520"
proof -
  assume i: "i < 9"
  have "sz i = ([64, 128, 192, 320, 512, 832, 1344, 2176, 3520] @ [5696, 9216, 14912, 24128]) ! i"
    using i sz_nth [of i] by simp
  then have "sz i = [64, 128, 192, 320, 512, 832, 1344, 2176, 3520] ! i" using i by (simp only: nth_append) simp
  then have "sz i \<in> set [64, 128, 192, 320, 512, 832, 1344, 2176, 3520]" using i by (simp only:) (rule nth_mem, simp)
  then show ?thesis by auto
qed

lemma index_page: "GetPoolIndexFromSize (pool_granularity T) = 9" "pool_granularity T = EFI_PAGE_SIZE"
  by (simp_all add: pool_granularity_def GetPoolIndexFromSize_def mPoolSizeTable_def)

text \<open>The index of a size is that of the first size of the table that is not smaller.\<close>

lemma size_index_spec:
  "size_index S xs k = k + length (takeWhile (\<lambda>x. x < S) xs)"
  by (induction xs arbitrary: k) (auto simp: not_less)

lemma index_fits:
  assumes "GetPoolIndexFromSize S = i" "i < 13" shows "unat S \<le> sz i"
proof -
  have "i = length (takeWhile (\<lambda>x. x < S) mPoolSizeTable)" using assms by (simp add: GetPoolIndexFromSize_def size_index_spec)
  moreover have "length mPoolSizeTable = 13" by (simp add: mPoolSizeTable_def)
  ultimately have "\<not> mPoolSizeTable ! i < S" using nth_length_takeWhile [of "\<lambda>x. x < S" mPoolSizeTable] assms(2) by simp
  then show ?thesis by (simp add: sz_def LIST_TO_SIZE_def not_less word_le_nat_alt)
qed

section \<open>Carving leaves nothing over\<close>

text \<open>The blocks that the carving makes of a range: pairs of an offset and an index, in the order of insertion.\<close>

fun block_tiles :: "nat \<Rightarrow> nat \<Rightarrow> (nat \<times> nat) list \<Rightarrow> bool" where
  "block_tiles from to [] = (from = to)"
| "block_tiles from to ((offset, i) # bs) = (offset = from \<and> block_tiles (from + sz i) to bs)"

definition insert_blocks :: "pool_ref \<Rightarrow> u64 \<Rightarrow> (nat \<times> nat) list \<Rightarrow> 'w pool_state \<Rightarrow> 'w pool_state" where
  "insert_blocks r P = fold (\<lambda>(offset, i). insert_free r i (P + word_of_nat offset))"

lemma block_tiles_append: "block_tiles a b xs \<Longrightarrow> block_tiles b c ys \<Longrightarrow> block_tiles a c (xs @ ys)"
  by (induction xs arbitrary: a) auto

lemma fill_block_blocks:
  assumes "i < 13" "off \<le> M"
  shows "\<exists>bs off'. fill_block r P M i off s = (off', insert_blocks r P bs s) \<and> block_tiles off off' bs \<and> (\<forall>(x, j)\<in>set bs. j = i) \<and>
    off' \<le> M \<and> M < off' + sz i \<and> sz i dvd (off' - off) \<and> off \<le> off'"
  using assms
proof (induction "M - off" arbitrary: off s rule: less_induct)
  case less
  have sz: "unat (LIST_TO_SIZE i) = sz i" "0 < sz i" using sz_pos [OF less.prems(1)] by (simp_all add: sz_def)
  show ?case
  proof (cases "off + sz i \<le> M")
    case True
    let ?s = "insert_free r i (P + word_of_nat off) s"
    obtain bs off' where b: "fill_block r P M i (off + sz i) ?s = (off', insert_blocks r P bs ?s)" "block_tiles (off + sz i) off' bs"
        "\<forall>(x, j)\<in>set bs. j = i" "off' \<le> M" "M < off' + sz i" "sz i dvd (off' - (off + sz i))" "off + sz i \<le> off'"
    proof -
      have "M - (off + sz i) < M - off" using True sz(2) by linarith
      from less.hyps [OF this less.prems(1) True, of ?s] show thesis using that by blast
    qed
    have "fill_block r P M i off s = (off', insert_blocks r P ((off, i) # bs) s)"
      using b(1) True sz by (subst fill_block.simps) (simp add: insert_blocks_def)
    moreover have "off' - off = (off' - (off + sz i)) + sz i" using b(7) by simp
    then have "sz i dvd (off' - off)" using b(6) by (metis dvd_add dvd_refl)
    ultimately show ?thesis using b by (intro exI [of _ "(off, i) # bs"] exI [of _ off']) auto
  next
    case False
    then have "fill_block r P M i off s = (off, insert_blocks r P [] s)"
      using sz by (subst fill_block.simps) (simp add: insert_blocks_def)
    then show ?thesis using False less.prems by (intro exI [of _ "[]"] exI [of _ off]) auto
  qed
qed

lemma carve_loop_blocks:
  assumes "k \<le> 13" "off \<le> M" "64 dvd off" "64 dvd M" "k = 0 \<Longrightarrow> off = M"
  shows "\<exists>bs. carve_loop r P M k off s = ret (M, insert_blocks r P bs s) \<and> block_tiles off M bs \<and> (\<forall>(x, j)\<in>set bs. j < k)"
  using assms
proof (induction k arbitrary: off s)
  case 0
  then show ?case by (intro exI [of _ "[]"]) (auto simp: insert_blocks_def)
next
  case (Suc i)
  show ?case
  proof (cases "off < M")
    case False
    then show ?thesis using Suc.prems by (intro exI [of _ "[]"]) (auto simp: insert_blocks_def)
  next
    case True
    obtain bs off' where b: "fill_block r P M i off s = (off', insert_blocks r P bs s)" "block_tiles off off' bs" "\<forall>(x, j)\<in>set bs. j = i"
        "off' \<le> M" "M < off' + sz i" "sz i dvd (off' - off)" "off \<le> off'"
      using fill_block_blocks [of i off M r P s] Suc.prems by auto
    have d: "64 dvd off'"
    proof -
      have "64 dvd off' - off" using b(6) sz_64 [of i] Suc.prems(1) dvd_trans by (metis Suc_le_lessD)
      then show ?thesis using Suc.prems(3) b(7) by (metis dvd_diffD)
    qed
    have e: "off' = M" if "i = 0"
    proof -
      have "sz 0 = 64" using sz_nth [of 0] by simp
      moreover have "64 dvd M - off'" using d Suc.prems(4) by (metis dvd_diff_nat)
      ultimately show ?thesis using b(4,5) that by (auto dest!: dvd_imp_le)
    qed
    obtain cs where c: "carve_loop r P M i off' (insert_blocks r P bs s) = ret (M, insert_blocks r P cs (insert_blocks r P bs s))"
        "block_tiles off' M cs" "\<forall>(x, j)\<in>set cs. j < i"
      using Suc.IH [of off' "insert_blocks r P bs s"] Suc.prems b(4) d e by auto
    have "carve_loop r P M (Suc i) off s = ret (M, insert_blocks r P (bs @ cs) s)"
      using True Suc.prems(1) b(1) c(1) by (simp add: insert_blocks_def)
    then show ?thesis using block_tiles_append [OF b(2) c(2)] b(3) c(3) by (intro exI [of _ "bs @ cs"]) auto
  qed
qed

text \<open>So the ASSERTs of the carving never fail, and the blocks it inserts tile what is left of the range.\<close>

lemma carve_blocks:
  assumes "k \<le> 13" "k \<noteq> 0" "Offset \<le> MaxOffset" "64 dvd unat Offset" "64 dvd unat MaxOffset"
  shows "\<exists>bs. carve r P Offset MaxOffset k s = ret (P, insert_blocks r P bs s) \<and>
    block_tiles (unat Offset) (unat MaxOffset) bs \<and> (\<forall>(x, j)\<in>set bs. j < k)"
  using carve_loop_blocks [of k "unat Offset" "unat MaxOffset" r P s] assms
  by (auto simp: carve_def word_le_nat_alt)

section \<open>The lists of free blocks\<close>

definition pool_of :: "'w pool_state \<Rightarrow> u32 \<Rightarrow> pool_ref option" where
  "pool_of s T =
     (if T < EfiMaxMemoryType then Some (PoolHead (unat T))
      else if T \<ge> MEMORY_TYPE_OEM_RESERVED_MIN then
        map_option (\<lambda>(a, P). PoolOnList a) (find (\<lambda>(a, P). MemoryType P = T) (mPoolHeadList s))
      else None)"

definition pools_ok :: "'w pool_state \<Rightarrow> bool" where
  "pools_ok s \<longleftrightarrow>
     length (mPoolHead s) = 15 \<and> (\<forall>P\<in>set (mPoolHead s). length (FreeList P) = MAX_POOL_LIST) \<and>
     distinct (map fst (mPoolHeadList s)) \<and>
     (\<forall>(a, P)\<in>set (mPoolHeadList s). length (FreeList P) = MAX_POOL_LIST \<and> MemoryType P \<ge> MEMORY_TYPE_OEM_RESERVED_MIN)"

text \<open>The free blocks of a type and size.\<close>

definition fl :: "'w pool_state \<Rightarrow> u32 \<Rightarrow> nat \<Rightarrow> u64 list" where
  "fl s T i = (case pool_of s T of None \<Rightarrow> [] | Some r \<Rightarrow> free_list r i s)"

lemma lookup_found: "pool_of s T = Some r \<Longrightarrow> lookup_pool_with alloc T s = ret (Some r, s)"
  by (auto simp: pool_of_def lookup_pool_with_def split: if_splits)

lemma find_snd:
  "find (\<lambda>(a, P). Q P) (map (\<lambda>(b, P). (b, if b = a then f P else P)) xs) =
     map_option (\<lambda>(b, P). (b, if b = a then f P else P)) (find (\<lambda>(a, P). Q P) xs)"
  if "\<And>P. Q (f P) = Q P"
  by (induction xs) (simp_all add: that split_beta)

lemma find_mem: "find p xs = Some x \<Longrightarrow> x \<in> set xs \<and> p x"
  by (induction xs) (auto split: if_splits)

lemma map_of_update: "map_of (map (\<lambda>(b, P). (b, if b = a then f P else P)) xs) c =
    (if c = a then map_option f (map_of xs a) else map_of xs c)"
  by (induction xs) auto

text \<open>A change of one pool.\<close>

lemma update_pool_of:
  assumes f: "\<And>P. MemoryType (f P) = MemoryType P"
  shows "pool_of (update_pool r f s) = pool_of s"
proof (rule ext)
  fix T
  show "pool_of (update_pool r f s) T = pool_of s T"
  proof (cases r)
    case (PoolOnList a)
    have "map_option (\<lambda>(a, P). PoolOnList a) (find (\<lambda>(a, P). MemoryType P = T) (mPoolHeadList (update_pool r f s))) =
        map_option (\<lambda>(a, P). PoolOnList a) (find (\<lambda>(a, P). MemoryType P = T) (mPoolHeadList s))"
      using find_snd [of "\<lambda>P. MemoryType P = T" f a "mPoolHeadList s"] f
      by (cases "find (\<lambda>(a, P). MemoryType P = T) (mPoolHeadList s)") (auto simp: update_pool_def PoolOnList split_beta)
    then show ?thesis by (simp add: pool_of_def)
  qed (simp add: pool_of_def update_pool_def)
qed

lemma update_pool_ok:
  assumes f: "\<And>P. MemoryType (f P) = MemoryType P" "\<And>P. length (FreeList (f P)) = length (FreeList P)" and ok: "pools_ok s"
  shows "pools_ok (update_pool r f s)"
proof (cases r)
  case (PoolHead i)
  then show ?thesis
    using ok f by (auto simp: pools_ok_def update_pool_def all_set_conv_all_nth nth_update_if)
next
  case (PoolOnList a)
  have "fst \<circ> (\<lambda>(b, P). (b, if b = a then f P else P)) = fst" by (auto simp: fun_eq_iff)
  then show ?thesis using ok f unfolding pools_ok_def by (auto simp: update_pool_def PoolOnList split: if_splits)
qed

lemma get_update_pool:
  assumes "pool_of s T = Some r" "pools_ok s"
  shows "get_pool r' (update_pool r f s) = (if r' = r then f (get_pool r s) else get_pool r' s)"
proof (cases r)
  case (PoolHead i)
  then have "i < length (mPoolHead s)" using assms
    by (auto simp: pool_of_def pools_ok_def word_less_nat_alt split: if_splits)
  then show ?thesis by (cases r') (auto simp: PoolHead get_pool_def update_pool_def nth_list_update)
next
  case (PoolOnList a)
  then obtain P where "(a, P) \<in> set (mPoolHeadList s)"
    using assms(1) by (auto simp: pool_of_def split: if_splits dest!: find_mem)
  then obtain P' where "map_of (mPoolHeadList s) a = Some P'" by (metis weak_map_of_SomeI)
  then show ?thesis
    by (cases r') (auto simp: PoolOnList get_pool_def update_pool_def map_of_update split: option.split)
qed

lemma pool_of_inj: "pools_ok s \<Longrightarrow> pool_of s T = Some r \<Longrightarrow> pool_of s T' = Some r \<Longrightarrow> T = T'"
proof -
  assume ok: "pools_ok s" and T: "pool_of s T = Some r" "pool_of s T' = Some r"
  show "T = T'"
  proof (cases r)
    case (PoolHead i)
    then have "unat T = unat T'" using T by (auto simp: pool_of_def split: if_splits)
    then show ?thesis by (rule unsigned_word_eqI)
  next
    case (PoolOnList a)
    then obtain P P' where "(a, P) \<in> set (mPoolHeadList s)" "MemoryType P = T" "(a, P') \<in> set (mPoolHeadList s)" "MemoryType P' = T'"
      using T by (auto simp: pool_of_def split: if_splits dest!: find_mem)
    then show ?thesis using ok eq_key_imp_eq_value by (fastforce simp: pools_ok_def)
  qed
qed

lemma get_pool_lists:
  assumes "pools_ok s" "pool_of s T = Some r" shows "length (FreeList (get_pool r s)) = MAX_POOL_LIST"
proof (cases r)
  case (PoolHead i)
  then have "i < length (mPoolHead s)" using assms by (auto simp: pool_of_def pools_ok_def word_less_nat_alt split: if_splits)
  then show ?thesis using assms(1) by (auto simp: PoolHead get_pool_def pools_ok_def)
next
  case (PoolOnList a)
  then obtain P where "(a, P) \<in> set (mPoolHeadList s)"
    using assms(2) by (auto simp: pool_of_def split: if_splits dest!: find_mem)
  then obtain P' where "map_of (mPoolHeadList s) a = Some P'" by (metis weak_map_of_SomeI)
  then show ?thesis using assms(1) map_of_SomeD [of "mPoolHeadList s" a P']
    by (auto simp: PoolOnList get_pool_def pools_ok_def)
qed

text \<open>The two changes that the code makes.\<close>

definition pool_names :: "'w pool_state \<Rightarrow> (u64 \<times> u32) list" where
  "pool_names s = map (\<lambda>(a, P). (a, MemoryType P)) (mPoolHeadList s)"

definition same_blocks :: "'w pool_state \<Rightarrow> 'w pool_state \<Rightarrow> bool" where
  "same_blocks s s' \<longleftrightarrow>
     page_part s' = page_part s \<and> objects s' = objects s \<and> tails s' = tails s \<and> pool_of s' = pool_of s \<and> (pools_ok s \<longrightarrow> pools_ok s') \<and>
     pool_names s' = pool_names s"

lemma update_names:
  assumes "\<And>P. MemoryType (f P) = MemoryType P" shows "pool_names (update_pool r f s) = pool_names s"
  using assms by (auto simp: pool_names_def update_pool_def split: pool_ref.split)

lemma update_pool_same:
  assumes "\<And>P. MemoryType (f P) = MemoryType P" "\<And>P. length (FreeList (f P)) = length (FreeList P)"
  shows "same_blocks s (update_pool r f s)"
proof -
  have "page_part (update_pool r f s) = page_part s" "objects (update_pool r f s) = objects s" "tails (update_pool r f s) = tails s"
    by (auto simp: update_pool_def split: pool_ref.split)
  then show ?thesis
    using update_pool_of [of f r s] update_pool_ok [of f s r] update_names [of f r s] assms unfolding same_blocks_def by blast
qed

lemma set_free_list_fl:
  assumes "pools_ok s" "pool_of s T = Some r" "i < MAX_POOL_LIST"
  shows "same_blocks s (set_free_list r i as s)"
    and "fl (set_free_list r i as s) T' j = (if T' = T \<and> j = i then as else fl s T' j)"
proof -
  show same: "same_blocks s (set_free_list r i as s)"
    unfolding set_free_list_def by (rule update_pool_same) simp_all
  have po: "pool_of (set_free_list r i as s) = pool_of s" using same by (simp add: same_blocks_def)
  have gl: "length (FreeList (get_pool r s)) = MAX_POOL_LIST" using get_pool_lists [OF assms(1,2)] .
  show "fl (set_free_list r i as s) T' j = (if T' = T \<and> j = i then as else fl s T' j)"
  proof (cases "pool_of s T'")
    case None
    then show ?thesis using assms(2) by (auto simp: fl_def po)
  next
    case (Some r')
    have eq: "get_pool r' (set_free_list r i as s) =
        (if r' = r then (get_pool r s)\<lparr>FreeList := (FreeList (get_pool r s))[i := as]\<rparr> else get_pool r' s)"
      unfolding set_free_list_def by (rule get_update_pool [OF assms(2,1)])
    have "r' = r \<longleftrightarrow> T' = T" using pool_of_inj [OF assms(1,2), of T'] Some assms(2) by auto
    then show ?thesis using gl assms(3) unfolding fl_def po Some option.case free_list_def eq
      by (cases "r' = r"; cases "j = i") (simp_all add: assms(2))
  qed
qed

lemma used_fl:
  assumes "pools_ok s" "pool_of s T = Some r"
  shows "same_blocks s (update_pool r (\<lambda>P. P\<lparr>Used := g P\<rparr>) s)"
    and "fl (update_pool r (\<lambda>P. P\<lparr>Used := g P\<rparr>) s) = fl s"
proof -
  show same: "same_blocks s (update_pool r (\<lambda>P. P\<lparr>Used := g P\<rparr>) s)" by (rule update_pool_same) simp_all
  have po: "pool_of (update_pool r (\<lambda>P. P\<lparr>Used := g P\<rparr>) s) = pool_of s" using same by (simp add: same_blocks_def)
  show "fl (update_pool r (\<lambda>P. P\<lparr>Used := g P\<rparr>) s) = fl s"
    unfolding fl_def po by (auto simp: fun_eq_iff free_list_def get_update_pool [OF assms(2,1)] split: option.split)
qed

lemma free_list_fl: "pool_of s T = Some r \<Longrightarrow> free_list r i s = fl s T i"
  by (simp add: fl_def)

end
