(* ===== verification/PoolLayout.thy ===== *)
theory PoolLayout
  imports PoolMap
begin

text \<open>
  The layout of the pools' blocks in memory: blocks lie apart, those of less than a page tile their page.  Cutting a block,
  adding the pages that the page allocator gives, and removing a block or a page of blocks lead from layout to layout.
\<close>

section \<open>The layout of the blocks\<close>

text \<open>The blocks of the pools: the length and the memory type of the block at an address.\<close>

type_synonym layout = "u64 \<Rightarrow> (nat \<times> u32) option"

definition inside :: "u64 \<Rightarrow> nat \<Rightarrow> u64 \<Rightarrow> bool" where
  "inside a n x \<longleftrightarrow> unat a \<le> unat x \<and> unat x < unat a + n"

definition apart :: "u64 \<Rightarrow> nat \<Rightarrow> u64 \<Rightarrow> nat \<Rightarrow> bool" where
  "apart a n b m \<longleftrightarrow> unat a + n \<le> unat b \<or> unat b + m \<le> unat a"

definition page_of :: "u64 \<Rightarrow> u64" where
  "page_of a = a AND NOT EFI_PAGE_MASK"

text \<open>
  A block of less than a page has a size of the table and lies in one page, which it shares with blocks of its type: there is
  one at the start of the page, and one next to it unless it ends the page.
\<close>

definition small :: "layout \<Rightarrow> u64 \<Rightarrow> u32 \<Rightarrow> bool" where
  "small L a T \<longleftrightarrow> (\<exists>i<9. L a = Some (sz i, T))"

definition block_ok :: "layout \<Rightarrow> u64 \<Rightarrow> nat \<Rightarrow> u32 \<Rightarrow> bool" where
  "block_ok L a n T \<longleftrightarrow>
     a \<noteq> 0 \<and> unat a + n \<le> 2 ^ 64 \<and> T \<noteq> EfiConventionalMemory \<and>
     (if n < 4096 then
        (\<exists>i<9. n = sz i) \<and> unat a mod 4096 + n \<le> 4096 \<and> small L (page_of a) T \<and>
        (unat a mod 4096 + n < 4096 \<longrightarrow> small L (a + word_of_nat n) T)
      else unat a mod 4096 = 0)"

definition layout_ok :: "layout \<Rightarrow> bool" where
  "layout_ok L \<longleftrightarrow>
     (\<forall>a n T. L a = Some (n, T) \<longrightarrow> block_ok L a n T) \<and>
     (\<forall>a n T b m U. L a = Some (n, T) \<and> L b = Some (m, U) \<and> a \<noteq> b \<longrightarrow> apart a n b m)"

lemma layout_block: "layout_ok L \<Longrightarrow> L a = Some (n, T) \<Longrightarrow> block_ok L a n T"
  by (simp add: layout_ok_def)

lemma layout_apart: "layout_ok L \<Longrightarrow> L a = Some (n, T) \<Longrightarrow> L b = Some (m, U) \<Longrightarrow> a \<noteq> b \<Longrightarrow> apart a n b m"
  by (simp add: layout_ok_def)

lemma apart_sym: "apart a n b m \<longleftrightarrow> apart b m a n"
  by (auto simp: apart_def)

lemma apart_inside: "apart a n b m \<Longrightarrow> inside a n x \<Longrightarrow> \<not> inside b m x"
  by (auto simp: apart_def inside_def)

lemma apartI: "(\<And>x. inside a n x \<Longrightarrow> \<not> inside b m x) \<Longrightarrow> 0 < n \<Longrightarrow> 0 < m \<Longrightarrow> apart a n b m"
proof -
  assume d: "\<And>x. inside a n x \<Longrightarrow> \<not> inside b m x" and n: "0 < n" "0 < m"
  show "apart a n b m"
    using d [of a] d [of b] n unfolding apart_def inside_def by linarith
qed

lemma small_lt: "i < 9 \<Longrightarrow> sz i < 4096"
  using sz_small [of i] by simp

lemma block_pos: "block_ok L a n T \<Longrightarrow> 0 < n"
proof -
  assume b: "block_ok L a n T"
  show "0 < n"
  proof (cases "n < 4096")
    case True
    then obtain i where "i < 9" "n = sz i" using b by (auto simp: block_ok_def)
    then show ?thesis using sz_pos [of i] by simp
  qed simp
qed

lemma unat_offset: "unat a + n < 2 ^ 64 \<Longrightarrow> unat (a + word_of_nat n :: u64) = unat a + n"
  by (simp add: unat_word_ariths unsigned_of_nat take_bit_nat_eq_self)

lemma unat_page_of: "unat (page_of a) = unat a div 4096 * 4096"
  using and_not_mask [of a 12] by (simp add: page_of_def)

lemma page_of_eq: "unat (page_of a) + unat a mod 4096 = unat a"
  by (simp add: unat_page_of)

lemma page_of_offset:
  assumes "unat a mod 4096 + n < 4096" "unat a + n < 2 ^ 64" shows "page_of (a + word_of_nat n) = page_of a"
proof (rule unsigned_word_eqI)
  have "unat a + n = unat a mod 4096 + n + unat a div 4096 * 4096" by simp
  also have "\<dots> div 4096 = unat a div 4096" using assms(1) by (subst div_mult_self1) auto
  finally have "(unat a + n) div 4096 = unat a div 4096" .
  then show "unat (page_of (a + word_of_nat n)) = unat (page_of a)" by (simp add: unat_page_of unat_offset [OF assms(2)])
qed

lemma offset_mod:
  assumes "unat a mod 4096 + n < 4096" "unat a + n < 2 ^ 64" shows "unat (a + word_of_nat n :: u64) mod 4096 = unat a mod 4096 + n"
  using page_of_offset [OF assms] page_of_eq [of a] page_of_eq [of "a + word_of_nat n"] unat_offset [OF assms(2)] by simp

lemma page_of_self: "unat a mod 4096 = 0 \<Longrightarrow> page_of a = a"
  by (rule unsigned_word_eqI) (use page_of_eq [of a] in simp)

section \<open>Tiles\<close>

lemma tiles_within: "block_tiles lo hi bs \<Longrightarrow> (off, j) \<in> set bs \<Longrightarrow> lo \<le> off \<and> off + sz j \<le> hi"
proof (induction lo hi bs rule: block_tiles.induct)
  case (2 lo hi offset i bs)
  have "lo' \<le> hi'" if "block_tiles lo' hi' bs'" for lo' hi' bs' using that by (induction lo' hi' bs' rule: block_tiles.induct) auto
  with 2 show ?case by fastforce
qed simp

lemma tiles_apart:
  "block_tiles lo hi bs \<Longrightarrow> \<forall>(x, k)\<in>set bs. k < 13 \<Longrightarrow> (off, j) \<in> set bs \<Longrightarrow> (off', j') \<in> set bs \<Longrightarrow>
     off = off' \<and> j = j' \<or> off + sz j \<le> off' \<or> off' + sz j' \<le> off"
proof (induction lo hi bs rule: block_tiles.induct)
  case (2 lo hi offset i bs)
  then show ?case using tiles_within [of "lo + sz i" hi bs] by fastforce
qed simp

lemma tiles_start: "block_tiles lo hi bs \<Longrightarrow> lo < hi \<Longrightarrow> \<exists>j. (lo, j) \<in> set bs"
  by (induction lo hi bs rule: block_tiles.induct) auto

lemma tiles_next: "block_tiles lo hi bs \<Longrightarrow> (off, j) \<in> set bs \<Longrightarrow> off + sz j < hi \<Longrightarrow> \<exists>k. (off + sz j, k) \<in> set bs"
proof (induction lo hi bs rule: block_tiles.induct)
  case (2 lo hi offset i bs)
  then show ?case using tiles_start [of "lo + sz i" hi bs] by auto
qed simp

text \<open>The layout with the block at \<open>a\<close> cut into tiles.\<close>

definition lay :: "u64 \<Rightarrow> u32 \<Rightarrow> (nat \<times> nat) list \<Rightarrow> layout \<Rightarrow> layout" where
  "lay a T bs L x = (case find (\<lambda>(off, j). x = a + word_of_nat off) bs of Some (off, j) \<Rightarrow> Some (sz j, T) | None \<Rightarrow> L x)"

lemma find_some: "find P xs = Some x \<Longrightarrow> x \<in> set xs \<and> P x"
  by (auto simp: find_Some_iff)

text \<open>Which blocks there are after the cut.\<close>

definition cut_of :: "u64 \<Rightarrow> nat \<Rightarrow> (nat \<times> nat) list \<Rightarrow> bool" where
  "cut_of a M bs \<longleftrightarrow> block_tiles 0 M bs \<and> (\<forall>(x, j)\<in>set bs. j < 9) \<and> 0 < M \<and> unat a mod 4096 + M \<le> 4096 \<and> unat a + M \<le> 2 ^ 64"

lemma cut_of_tile:
  assumes "cut_of a M bs" "(off, j) \<in> set bs"
  shows "off + sz j \<le> M" "j < 9" "0 < sz j" "unat (a + word_of_nat off) = unat a + off"
proof -
  show t: "off + sz j \<le> M" "j < 9" using assms tiles_within [of 0 M bs off j] by (auto simp: cut_of_def)
  show p: "0 < sz j" using sz_pos [of j] t by simp
  show "unat (a + word_of_nat off) = unat a + off"
    by (rule unat_offset) (use assms(1) t p in \<open>simp add: cut_of_def\<close>)
qed

lemma cut_of_unique:
  assumes c: "cut_of a M bs" "(off, j) \<in> set bs" "(off', j') \<in> set bs" and eq: "a + word_of_nat off = a + word_of_nat off'"
  shows "off = off'" "j = j'"
proof -
  have "\<forall>(x, k)\<in>set bs. k < 13" using c(1) by (auto simp: cut_of_def)
  moreover show "off = off'" using cut_of_tile(4) [OF c(1,2)] cut_of_tile(4) [OF c(1,3)] unfolding eq by linarith
  ultimately show "j = j'"
    using tiles_apart [of 0 M bs off j off' j'] cut_of_tile(3) [OF c(1,2)] cut_of_tile(3) [OF c(1,3)] c by (auto simp: cut_of_def)
qed

lemma lay_at:
  assumes c: "cut_of a M bs" and t: "(off, j) \<in> set bs" shows "lay a T bs L (a + word_of_nat off) = Some (sz j, T)"
proof (cases "find (\<lambda>(off', j). a + word_of_nat off = a + word_of_nat off') bs")
  case None
  then show ?thesis using t by (auto simp: find_None_iff)
next
  case (Some x)
  obtain off' j' where x: "x = (off', j')" by (cases x)
  have "(off', j') \<in> set bs" "a + word_of_nat off = a + word_of_nat off'" using find_some [OF Some] by (auto simp: x)
  then show ?thesis using cut_of_unique [OF c t] Some by (auto simp: lay_def x)
qed

lemma lay_other:
  "(\<And>off j. (off, j) \<in> set bs \<Longrightarrow> x \<noteq> a + word_of_nat off) \<Longrightarrow> lay a T bs L x = L x"
  by (auto simp: lay_def split: option.split dest!: find_some)

lemma lay_cases:
  assumes c: "cut_of a M bs" and x: "lay a T bs L x = Some (n, U)"
  shows "(\<exists>off j. (off, j) \<in> set bs \<and> x = a + word_of_nat off \<and> n = sz j \<and> U = T) \<or> x \<noteq> a \<and> L x = Some (n, U)"
proof (cases "\<exists>off j. (off, j) \<in> set bs \<and> x = a + word_of_nat off")
  case True
  then show ?thesis using lay_at [OF c] x by fastforce
next
  case False
  obtain j where "(0, j) \<in> set bs" using tiles_start [of 0 M bs] c by (auto simp: cut_of_def)
  then have "x \<noteq> a" using False by auto
  moreover have "lay a T bs L x = L x" by (rule lay_other) (use False in blast)
  ultimately show ?thesis using x by simp
qed

text \<open>Cutting a block of the layout into tiles gives a layout.\<close>

lemma lay_small:
  assumes L: "layout_ok L" "L a = Some (M, T)" and c: "cut_of a M bs" and s: "small L x U"
  shows "small (lay a T bs L) x U"
proof (cases "\<exists>off j. (off, j) \<in> set bs \<and> x = a + word_of_nat off")
  case True
  then obtain off j where o: "(off, j) \<in> set bs" "x = a + word_of_nat off" by blast
  note t = cut_of_tile [OF c o(1)]
  obtain i where i: "i < 9" "L x = Some (sz i, U)" using s by (auto simp: small_def)
  have "x = a"
  proof (rule ccontr)
    assume "x \<noteq> a"
    then have "apart x (sz i) a M" by (rule layout_apart [OF L(1) i(2) L(2)])
    then show False using t sz_pos [of i] i(1) by (auto simp: apart_def o(2))
  qed
  then show ?thesis using i L(2) lay_at [OF c o(1), of T L] t(2) by (auto simp: small_def o(2))
next
  case False
  have "lay a T bs L x = L x" by (rule lay_other) (use False in blast)
  then show ?thesis using s by (simp add: small_def)
qed

lemma tile_page_start:
  assumes L: "layout_ok L" "L a = Some (M, T)" and c: "cut_of a M bs"
  shows "small (lay a T bs L) (page_of a) T"
proof -
  obtain j0 where j0: "(0, j0) \<in> set bs" using tiles_start [of 0 M bs] c by (auto simp: cut_of_def)
  show ?thesis
  proof (cases "M < 4096")
    case True
    then show ?thesis using layout_block [OF L] lay_small [OF L c] by (simp add: block_ok_def)
  next
    case False
    then have "page_of a = a" using c by (intro page_of_self) (simp add: cut_of_def)
    then show ?thesis using lay_at [OF c j0, of T L] cut_of_tile(2) [OF c j0] by (auto simp: small_def)
  qed
qed

lemma tile_next_block:
  assumes L: "layout_ok L" "L a = Some (M, T)" and c: "cut_of a M bs" and o: "(off, j) \<in> set bs" "x = a + word_of_nat off"
    and nn: "unat a mod 4096 + off + sz j < 4096"
  shows "small (lay a T bs L) (x + word_of_nat (sz j)) T"
proof -
  note t = cut_of_tile [OF c o(1)]
  have e: "x + word_of_nat (sz j) = a + word_of_nat (off + sz j)" by (simp add: o(2) add.assoc)
  show ?thesis
  proof (cases "off + sz j = M")
    case True
    then have "M < 4096" "unat a mod 4096 + M < 4096" using nn by auto
    then have "small L (a + word_of_nat M) T" using layout_block [OF L] by (simp add: block_ok_def)
    then show ?thesis unfolding e True by (rule lay_small [OF L c])
  next
    case False
    then obtain k where k: "(off + sz j, k) \<in> set bs" using tiles_next [of 0 M bs off j] c o(1) t(1) by (auto simp: cut_of_def)
    show ?thesis unfolding e small_def using lay_at [OF c k, of T L] cut_of_tile(2) [OF c k] by blast
  qed
qed

lemma lay_block_ok:
  assumes L: "layout_ok L" "L a = Some (M, T)" and c: "cut_of a M bs" and x: "lay a T bs L x = Some (n, U)"
  shows "block_ok (lay a T bs L) x n U"
  using lay_cases [OF c x]
proof (elim disjE exE conjE)
  fix off j assume o: "(off, j) \<in> set bs" "x = a + word_of_nat off" "n = sz j" "U = T"
  note t = cut_of_tile [OF c o(1)]
  have lim: "unat a mod 4096 + M \<le> 4096" "unat a + M \<le> 2 ^ 64" using c by (auto simp: cut_of_def)
  have om: "unat x mod 4096 = unat a mod 4096 + off" "page_of x = page_of a"
    unfolding o(2) by (rule offset_mod page_of_offset; use t lim in linarith)+
  show ?thesis
    using t om tile_next_block [OF L c o(1,2)] tile_page_start [OF L c] lim layout_block [OF L] unat_gt_0 [of a] unat_gt_0 [of x] small_lt [of j]
    by (auto simp: block_ok_def o(3,4)) (auto simp: o(2))
next
  assume x': "x \<noteq> a" "L x = Some (n, U)"
  then show ?thesis using layout_block [OF L(1) x'(2)] lay_small [OF L c] by (auto simp: block_ok_def)
qed

lemma lay_apart:
  assumes L: "layout_ok L" "L a = Some (M, T)" and c: "cut_of a M bs"
    and x: "lay a T bs L x = Some (n, U)" and y: "lay a T bs L y = Some (m, V)" "x \<noteq> y"
  shows "apart x n y m"
proof -
  have tile: "apart p n q m" if p: "(off, j) \<in> set bs" "p = a + word_of_nat off" "n = sz j" and q: "q \<noteq> a" "L q = Some (m, V)"
    for p q off j n m V
    using layout_apart [OF L q(2)] q(1) cut_of_tile [OF c p(1)] by (auto simp: apart_def p(2,3))
  have two: "apart x n y m" if p: "(off, j) \<in> set bs" "x = a + word_of_nat off" "n = sz j"
      and q: "(off', j') \<in> set bs" "y = a + word_of_nat off'" "m = sz j'" and xy: "x \<noteq> y" for x y n m off j off' j'
  proof -
    have "\<forall>(x, k)\<in>set bs. k < 13" using c by (auto simp: cut_of_def)
    then have "off + sz j \<le> off' \<or> off' + sz j' \<le> off"
      using tiles_apart [of 0 M bs off j off' j'] c p q xy by (auto simp: cut_of_def)
    then show ?thesis using cut_of_tile(4) [OF c p(1)] cut_of_tile(4) [OF c q(1)] by (auto simp: apart_def p(2,3) q(2,3))
  qed
  show ?thesis
    using lay_cases [OF c x] lay_cases [OF c y(1)]
  proof (elim disjE exE conjE)
    assume "x \<noteq> a" "L x = Some (n, U)" "y \<noteq> a" "L y = Some (m, V)"
    then show ?thesis using layout_apart [OF L(1)] y(2) by blast
  next
    fix off j off' j'
    assume "(off, j) \<in> set bs" "x = a + word_of_nat off" "n = sz j" "(off', j') \<in> set bs" "y = a + word_of_nat off'" "m = sz j'"
    then show ?thesis by (rule two) (rule y(2))
  next
    fix off j assume "(off, j) \<in> set bs" "x = a + word_of_nat off" "n = sz j" "y \<noteq> a" "L y = Some (m, V)"
    then show ?thesis by (rule tile)
  next
    fix off j assume o: "x \<noteq> a" "L x = Some (n, U)" "(off, j) \<in> set bs" "y = a + word_of_nat off" "m = sz j"
    show ?thesis unfolding apart_sym [of x] by (rule tile [OF o(3-5,1,2)])
  qed
qed

lemma layout_cut:
  assumes L: "layout_ok L" "L a = Some (M, T)" and c: "cut_of a M bs"
  shows "layout_ok (lay a T bs L)"
  unfolding layout_ok_def using lay_block_ok [OF L c] lay_apart [OF L c] by blast

section \<open>Adding and removing blocks\<close>

definition covered :: "layout \<Rightarrow> u64 \<Rightarrow> bool" where
  "covered L x \<longleftrightarrow> (\<exists>a n T. L a = Some (n, T) \<and> inside a n x)"

lemma covered_self: "layout_ok L \<Longrightarrow> L a = Some (n, T) \<Longrightarrow> covered L a"
  using block_pos [OF layout_block] by (fastforce simp: covered_def inside_def)

lemma layout_add:
  assumes L: "layout_ok L" and S: "S \<noteq> 0" "unat S mod 4096 = 0" "4096 \<le> n" "unat S + n \<le> 2 ^ 64" and T: "T \<noteq> EfiConventionalMemory"
    and new: "\<And>x. inside S n x \<Longrightarrow> \<not> covered L x"
  shows "layout_ok (L(S \<mapsto> (n, T)))"
proof -
  have none: "L S = None"
    using covered_self [OF L] new [of S] S(3) by (cases "L S") (auto simp: inside_def)
  then have sm: "small L x U \<Longrightarrow> small (L(S \<mapsto> (n, T))) x U" for x U by (auto simp: small_def)
  have blk: "block_ok (L(S \<mapsto> (n, T))) a m U" if "(L(S \<mapsto> (n, T))) a = Some (m, U)" for a m U
  proof (cases "a = S")
    case True
    then show ?thesis using that S T by (simp add: block_ok_def)
  next
    case False
    then have "block_ok L a m U" using that layout_block [OF L] by simp
    then show ?thesis using sm by (auto simp: block_ok_def)
  qed
  have S': "apart S n b m" if "L b = Some (m, U)" for b m U
    using new block_pos [OF layout_block [OF L that]] S(3) that by (intro apartI) (auto simp: covered_def)
  have "apart a m b k" if ab: "(L(S \<mapsto> (n, T))) a = Some (m, U)" "(L(S \<mapsto> (n, T))) b = Some (k, V)" "a \<noteq> b" for a m U b k V
  proof -
    consider "a = S" "m = n" "L b = Some (k, V)" | "b = S" "k = n" "L a = Some (m, U)" | "L a = Some (m, U)" "L b = Some (k, V)"
      using ab by (cases "a = S"; cases "b = S") auto
    then show ?thesis
    proof cases
      case 1
      then show ?thesis using S' [OF 1(3)] by simp
    next
      case 2
      then show ?thesis using S' [OF 2(3)] apart_sym [of a m b k] by simp
    qed (rule layout_apart [OF L _ _ ab(3)])
  qed
  then show ?thesis unfolding layout_ok_def using blk by blast
qed

lemma layout_without:
  assumes L: "layout_ok L"
    and D: "\<And>b n T. L b = Some (n, T) \<Longrightarrow> n < 4096 \<Longrightarrow> b \<notin> D \<Longrightarrow>
      page_of b \<notin> D \<and> (unat b mod 4096 + n < 4096 \<longrightarrow> b + word_of_nat n \<notin> D)"
  shows "layout_ok (\<lambda>x. if x \<in> D then None else L x)"
proof -
  have "block_ok (\<lambda>x. if x \<in> D then None else L x) a n T" if a: "L a = Some (n, T)" "a \<notin> D" for a n T
    using layout_block [OF L a(1)] D [OF a(1) _ a(2)] by (auto simp: block_ok_def small_def)
  then show ?thesis using layout_apart [OF L] unfolding layout_ok_def by (auto split: if_splits)
qed

lemma layout_remove:
  assumes L: "layout_ok L" "L a = Some (n, T)" "4096 \<le> n"
  shows "layout_ok (L(a := None))"
proof -
  have "layout_ok (\<lambda>x. if x \<in> {a} then None else L x)"
  proof (rule layout_without [OF L(1)])
    fix b m U assume "L b = Some (m, U)" "m < 4096" "b \<notin> {a}"
    then have "block_ok L b m U" by (simp add: layout_block [OF L(1)])
    moreover have "\<not> small L a U" using L(2,3) small_lt by (fastforce simp: small_def)
    ultimately show "page_of b \<notin> {a} \<and> (unat b mod 4096 + m < 4096 \<longrightarrow> b + word_of_nat m \<notin> {a})"
      using \<open>m < 4096\<close> by (auto simp: block_ok_def)
  qed
  moreover have "(\<lambda>x. if x \<in> {a} then None else L x) = L(a := None)" by auto
  ultimately show ?thesis by simp
qed

text \<open>A page of small blocks.\<close>

lemma layout_remove_page:
  assumes L: "layout_ok L"
  shows "layout_ok (\<lambda>x. if page_of x = P then None else L x)"
proof -
  have "layout_ok (\<lambda>x. if x \<in> {x. page_of x = P} then None else L x)"
  proof (rule layout_without [OF L])
    fix b n T assume b: "L b = Some (n, T)" "n < 4096" "b \<notin> {x. page_of x = P}"
    then have ok: "block_ok L b n T" by (simp add: layout_block [OF L])
    have "page_of (page_of b) = page_of b" by (rule page_of_self) (simp add: unat_page_of)
    moreover have "page_of (b + word_of_nat n) = page_of b" if "unat b mod 4096 + n < 4096"
    proof (rule page_of_offset [OF that])
      have "unat b div 4096 * 4096 + 4096 \<le> (2 :: nat) ^ 64"
      proof -
        have "unat b div 4096 < 2 ^ 52" using unsigned_less [of b] by (intro div_less_iff_less_mult [THEN iffD2]) simp_all
        then show ?thesis by simp
      qed
      then show "unat b + n < 2 ^ 64" using that div_mult_mod_eq [of "unat b" 4096] by linarith
    qed
    ultimately show "page_of b \<notin> {x. page_of x = P} \<and> (unat b mod 4096 + n < 4096 \<longrightarrow> b + word_of_nat n \<notin> {x. page_of x = P})"
      using b(3) by simp
  qed
  then show ?thesis by simp
qed

text \<open>The blocks of a page of small blocks are what lies in the page.\<close>

lemma page_block:
  assumes L: "layout_ok L" "small L P T" "page_of P = P" and a: "L a = Some (n, U)" "page_of a = P"
  shows "n < 4096 \<and> inside P 4096 a"
proof
  obtain i where i: "i < 9" "L P = Some (sz i, T)" using L(2) by (auto simp: small_def)
  show "n < 4096"
  proof (rule ccontr)
    assume "\<not> n < 4096"
    then have "unat a mod 4096 = 0" using layout_block [OF L(1) a(1)] by (simp add: block_ok_def)
    then have "a = P" using page_of_self a(2) by simp
    then show False using a(1) i small_lt [OF i(1)] \<open>\<not> n < 4096\<close> by auto
  qed
  show "inside P 4096 a" using page_of_eq [of a] mod_less_divisor [of 4096 "unat a"] unfolding a(2) inside_def by linarith
qed

end
