(* ===== verification/PoolInvariant.thy ===== *)
theory PoolInvariant
  imports PoolLayout
begin

text \<open>
  The invariant of the pools: the blocks of a layout lie in memory of their type, each is marked as free or in use, and the
  lists hold exactly the free ones.  Taking new pages and cutting a block keep it.
\<close>

section \<open>The pages of the pools\<close>

lemma CoreAllocatePoolPages_service:
  assumes s: "fully_idle s" and T: "T \<noteq> EfiConventionalMemory"
  shows "holds {AssertFailed} (CoreAllocatePoolPages env (CoreFreeMemoryMapStack env) T n EFI_PAGE_SIZE s) (\<lambda>(S, s').
    fully_idle s' \<and> (if S = 0 then keeps s s'
      else bytes n \<noteq> 0 \<and> whole_pages S (S + bytes n - 1) \<and> taken T S (S + bytes n - 1) s s'))"
  unfolding CoreAllocatePoolPages_def
proof (rule holds_bind [OF FindFreePages_service [OF s]], goal_cases)
  case (1 x)
  obtain S s1 where x: "x = (S, s1)" by (cases x)
  have k: "keeps s s1" "found_at MAX_ADDRESS n S s1" and s1: "fully_idle s1" "page_inv s1" using 1 by (auto simp: x fully_idle_def)
  have inv: "page_inv s" using s by (simp add: fully_idle_def)
  show ?case
  proof (cases "S = 0")
    case False
    have "holds {AssertFailed} (CoreConvertPages env (CoreFreeMemoryMapStack env) S n T s1) (\<lambda>r.
        (case r of (Status, s') \<Rightarrow> Status = EFI_SUCCESS \<and> bytes n \<noteq> 0 \<and> taken T S (S + bytes n - 1) s1 s') \<and>
        whole_pages S (S + bytes n - 1) \<and> fully_idle (snd r))"
      by (rule holds_weaken [OF holds_conj [OF CoreConvertPages_found [OF good_free_stack s1(2) T False k(2)]
            CoreConvertPagesEx_service [OF s1(1), of env S n True T False 0, folded CoreConvertPages_def]]])
        auto
    then show ?thesis
      unfolding x prod.case if_not_P [OF False]
      by (rule holds_bind) (use False taken_after_keeps [OF inv k(1)] in auto)
  qed (simp add: x k s1)
qed

lemma CoreFreePoolPages_service:
  assumes s: "fully_idle s"
  shows "holds {AssertFailed} (CoreFreePoolPages env (CoreFreeMemoryMapStack env) S n s) (\<lambda>s'.
    fully_idle s' \<and> keeps_in_use (\<lambda>a. \<not> (S \<le> a \<and> a \<le> S + bytes n - 1)) s s')"
  unfolding CoreFreePoolPages_def CoreConvertPages_def
proof (rule holds_bind [OF CoreConvertPagesEx_service [OF s]], goal_cases)
  case (1 x)
  obtain Status s2 where x: "x = (Status, s2)" by (cases x)
  have inv: "page_inv s" using s by (simp add: fully_idle_def)
  have "owner s2 a = {#(T, A)#}"
    if "\<not> (S \<le> a \<and> a \<le> S + bytes n - 1)" "T \<noteq> EfiConventionalMemory" "owner s a = {#(T, A)#}" for a T A
    using 1 that grows_in_use [OF inv, of s2 a T A] by (auto simp: x converted_def)
  then show ?case using 1 by (auto simp: x keeps_in_use_def converted_def same_context_def)
qed

lemma keeps_available: "keeps s s' \<Longrightarrow> available s' x \<Longrightarrow> available s x"
  using grows_available by (auto simp: keeps_def grows_def)

lemma taken_available:
  assumes t: "taken T S E s s'" and T: "T \<noteq> EfiConventionalMemory" and x: "available s' x" shows "available s x"
proof (cases "S \<le> x \<and> x \<le> E")
  case False
  then have "grows_at s s' x" using t by (auto simp: taken_def)
  then show ?thesis using grows_available x by blast
qed (use t in \<open>auto simp: taken_def\<close>)

lemma taken_keeps_in_use:
  assumes inv: "page_inv s" and t: "taken T S E s s'" and T: "T \<noteq> EfiConventionalMemory"
  shows "keeps_in_use (\<lambda>_. True) s s'"
  unfolding keeps_in_use_def
proof (intro conjI allI impI)
  show "mMemoryTypeInformationInitialized s' = mMemoryTypeInformationInitialized s" using t by (simp add: taken_def same_context_def)
  fix a U A assume "True \<and> U \<noteq> EfiConventionalMemory \<and> owner s a = {#(U, A)#}"
  then have u: "U \<noteq> EfiConventionalMemory" "owner s a = {#(U, A)#}" by auto
  then have "\<not> (S \<le> a \<and> a \<le> E)" using in_use_not_available [OF inv u(2,1)] t by (auto simp: taken_def)
  then show "owner s' a = {#(U, A)#}" using t grows_in_use [OF inv _ u(2,1)] by (auto simp: taken_def)
qed

text \<open>The number of bytes of a range of whole pages.\<close>

lemma whole_pages_bytes:
  assumes w: "whole_pages S (S + B - 1)" and B: "B \<noteq> 0"
  shows "unat S mod 4096 = 0" "unat S + unat B \<le> 2 ^ 64" "4096 \<le> unat B" "inside S (unat B) x \<longleftrightarrow> S \<le> x \<and> x \<le> S + B - 1"
proof -
  have b1: "unat (B - 1) = unat B - 1" "0 < unat B" using B by (simp_all add: unat_minus_one unat_gt_0)
  have e: "S + B - 1 = S + (B - 1)" by simp
  have "S < S + (B - 1)" using w unfolding whole_pages_def e by blast
  then have "S \<le> S + (B - 1)" by simp
  then have u: "unat (S + (B - 1)) = unat S + unat (B - 1)" by (simp add: no_olen_add_nat unat_word_ariths)
  show s: "unat S mod 4096 = 0" using w by (simp add: whole_pages_def)
  show le: "unat S + unat B \<le> 2 ^ 64" 
  proof -
    have "unat (S + (B - 1)) < 2 ^ LENGTH(64)" by (rule unsigned_less)
    then show ?thesis using u b1 by simp
  qed
  show "inside S (unat B) x \<longleftrightarrow> S \<le> x \<and> x \<le> S + B - 1"
    unfolding e inside_def word_le_nat_alt u b1(1) using b1(2) by auto
  have "(unat S + unat B) mod 4096 = 0" using w u b1 unfolding whole_pages_def e by simp
  then have "unat B mod 4096 = 0" using s by (metis add_0 mod_add_left_eq)
  then show "4096 \<le> unat B" using b1(2) by (metis mod_less not_le not_gr_zero)
qed

section \<open>The invariant\<close>

text \<open>The length of the block for a \<open>POOL_HEAD\<close> with this \<open>Size\<close>.\<close>

definition pool_bytes :: "u64 \<Rightarrow> nat" where
  "pool_bytes m =
     (let i = GetPoolIndexFromSize m in if i < 9 then sz i else unat (push_bit EFI_PAGE_SHIFT (EFI_SIZE_TO_PAGES m) :: u64))"

text \<open>The blocks in use, with type and size.  The addresses of \<open>X\<close> are blocks on their way between two uses.\<close>

definition heads :: "u64 set \<Rightarrow> layout \<Rightarrow> 'w pool_state \<Rightarrow> (u64 \<times> u32 \<times> u64) set" where
  "heads X L s = {(a, T, m). a \<notin> X \<and> L a = Some (pool_bytes m, T) \<and> objects s a = Some (POOL_HEAD T m)}"

definition in_memory :: "layout \<Rightarrow> 'w page_state \<Rightarrow> bool" where
  "in_memory L p \<longleftrightarrow> (\<forall>a n T x. L a = Some (n, T) \<and> inside a n x \<longrightarrow> (\<exists>A. owner p x = {#(T, A)#}))"

definition marked :: "(u64 \<Rightarrow> pool_object option) \<Rightarrow> (u64 \<Rightarrow> u64 option) \<Rightarrow> u64 \<Rightarrow> nat \<Rightarrow> u32 \<Rightarrow> bool" where
  "marked obs tls a n T \<longleftrightarrow>
     (\<exists>i<9. n = sz i \<and> obs a = Some (POOL_FREE (word_of_nat i))) \<or>
     (\<exists>m. obs a = Some (POOL_HEAD T m) \<and> n = pool_bytes m \<and> 40 \<le> unat m \<and> unat m \<le> n \<and> tls (a + m - sizeof_POOL_TAIL) = Some m)"

definition labelled :: "u64 set \<Rightarrow> layout \<Rightarrow> 'w pool_state \<Rightarrow> bool" where
  "labelled X L s \<longleftrightarrow> (\<forall>a n T. L a = Some (n, T) \<and> a \<notin> X \<longrightarrow> marked (objects s) (tails s) a n T)"

definition free_blocks :: "u64 set \<Rightarrow> layout \<Rightarrow> (u64 \<Rightarrow> pool_object option) \<Rightarrow> u32 \<Rightarrow> nat \<Rightarrow> u64 set" where
  "free_blocks X L obs T i = {a. a \<notin> X \<and> L a = Some (sz i, T) \<and> obs a = Some (POOL_FREE (word_of_nat i))}"

definition listed :: "u64 set \<Rightarrow> layout \<Rightarrow> 'w pool_state \<Rightarrow> bool" where
  "listed X L s \<longleftrightarrow> (\<forall>T. \<forall>i<9. distinct (fl s T i) \<and> set (fl s T i) = free_blocks X L (objects s) T i)"

definition own_pools :: "u64 set \<Rightarrow> layout \<Rightarrow> 'w pool_state \<Rightarrow> bool" where
  "own_pools X L s \<longleftrightarrow> (\<forall>(a, U)\<in>set (pool_names s). U < 0x80000000 \<and> a - SIZE_OF_POOL_HEAD \<in> fst ` heads X L s)"

definition pooled :: "layout \<Rightarrow> 'w pool_state \<Rightarrow> bool" where
  "pooled L s \<longleftrightarrow> (\<forall>a n T. L a = Some (n, T) \<longrightarrow> pool_of s T \<noteq> None)"

definition pool_inv :: "u64 set \<Rightarrow> layout \<Rightarrow> 'w pool_state \<Rightarrow> bool" where
  "pool_inv X L s \<longleftrightarrow>
     pools_ok s \<and> layout_ok L \<and> in_memory L (page_part s) \<and> pooled L s \<and> labelled X L s \<and> listed X L s \<and> own_pools X L s"

text \<open>What an allocation changes.\<close>

definition advances :: "layout \<Rightarrow> 'w page_state \<Rightarrow> layout \<Rightarrow> 'w page_state \<Rightarrow> bool" where
  "advances L p L' p' \<longleftrightarrow>
     fully_idle p' \<and> keeps_in_use (\<lambda>_. True) p p' \<and> (\<forall>x. available p' x \<longrightarrow> available p x) \<and>
     (\<forall>x. covered L' x \<longrightarrow> covered L x \<or> available p x)"

lemma advances_trans: "advances L p L1 p1 \<Longrightarrow> advances L1 p1 L' p' \<Longrightarrow> advances L p L' p'"
  unfolding advances_def using keeps_in_use_trans by blast

lemma advances_refl: "fully_idle p \<Longrightarrow> advances L p L p"
  by (simp add: advances_def keeps_in_use_def)

lemma in_memory_keeps:
  assumes "in_memory L p" "layout_ok L" "keeps_in_use P p p'" "\<And>x. covered L x \<Longrightarrow> P x" shows "in_memory L p'"
  unfolding in_memory_def
proof (intro allI impI)
  fix a n T x assume a: "L a = Some (n, T) \<and> inside a n x"
  then have "T \<noteq> EfiConventionalMemory" using layout_block [OF assms(2)] by (auto simp: block_ok_def)
  moreover have "P x" using assms(4) a by (auto simp: covered_def)
  ultimately show "\<exists>A. owner p' x = {#(T, A)#}" using assms(1,3) a unfolding in_memory_def keeps_in_use_def by blast
qed

lemma covered_in_use:
  assumes "in_memory L p" "layout_ok L" "page_inv p" "covered L x" shows "\<not> available p x"
proof -
  obtain a n T where a: "L a = Some (n, T)" "inside a n x" using assms(4) by (auto simp: covered_def)
  then have "T \<noteq> EfiConventionalMemory" using layout_block [OF assms(2)] by (auto simp: block_ok_def)
  then show ?thesis using in_use_not_available [OF assms(3)] assms(1) a unfolding in_memory_def by blast
qed

text \<open>What the lists of the pools do not depend on.\<close>

lemma pool_of_store [simp]:
  "pool_of (s\<lparr>page_part := p\<rparr>) = pool_of s" "pool_of (s\<lparr>objects := obs\<rparr>) = pool_of s" "pool_of (s\<lparr>tails := tls\<rparr>) = pool_of s"
  by (simp_all add: pool_of_def fun_eq_iff)

lemma get_pool_store [simp]:
  "get_pool r (s\<lparr>page_part := p\<rparr>) = get_pool r s" "get_pool r (s\<lparr>objects := obs\<rparr>) = get_pool r s"
  "get_pool r (s\<lparr>tails := tls\<rparr>) = get_pool r s"
  by (simp_all add: get_pool_def split: pool_ref.split)

lemma fl_store [simp]:
  "fl (s\<lparr>page_part := p\<rparr>) = fl s" "fl (s\<lparr>objects := obs\<rparr>) = fl s" "fl (s\<lparr>tails := tls\<rparr>) = fl s"
  by (simp_all add: fl_def fun_eq_iff free_list_def split: option.split)

lemma pools_ok_store [simp]:
  "pools_ok (s\<lparr>page_part := p\<rparr>) = pools_ok s" "pools_ok (s\<lparr>objects := obs\<rparr>) = pools_ok s" "pools_ok (s\<lparr>tails := tls\<rparr>) = pools_ok s"
  by (simp_all add: pools_ok_def)

lemma pool_names_store [simp]:
  "pool_names (s\<lparr>page_part := p\<rparr>) = pool_names s" "pool_names (s\<lparr>objects := obs\<rparr>) = pool_names s"
  "pool_names (s\<lparr>tails := tls\<rparr>) = pool_names s"
  by (simp_all add: pool_names_def)

lemma page_part_irrelevant [simp]:
  "heads X L (s\<lparr>page_part := p\<rparr>) = heads X L s" "labelled X L (s\<lparr>page_part := p\<rparr>) = labelled X L s"
  "pooled L (s\<lparr>page_part := p\<rparr>) = pooled L s"
  "listed X L (s\<lparr>page_part := p\<rparr>) = listed X L s" "own_pools X L (s\<lparr>page_part := p\<rparr>) = own_pools X L s"
  by (simp_all add: labelled_def listed_def own_pools_def heads_def pooled_def)

text \<open>New pages for a pool are a block on its way.\<close>

lemma with_pages_keeps:
  assumes s: "pool_inv X L s" and p: "fully_idle (page_part s)" and k: "keeps (page_part s) p'" and i: "fully_idle p'"
  shows "pool_inv X L (s\<lparr>page_part := p'\<rparr>)" "advances L (page_part s) L p'"
proof -
  have inv: "page_inv (page_part s)" using p by (simp add: fully_idle_def)
  have in_use: "keeps_in_use (\<lambda>_. True) (page_part s) p'" using keeps_keeps_in_use [OF inv k] .
  have "in_memory L p'" using s by (intro in_memory_keeps [OF _ _ in_use]) (auto simp: pool_inv_def)
  then show "pool_inv X L (s\<lparr>page_part := p'\<rparr>)" using s by (simp add: pool_inv_def)
  show "advances L (page_part s) L p'" using in_use i keeps_available [OF k] by (simp add: advances_def)
qed

lemma new_block:
  assumes s: "pool_inv {} L s" and p: "fully_idle (page_part s)" and T: "T \<noteq> EfiConventionalMemory" and r: "pool_of s T = Some r"
    and S: "S \<noteq> 0" and i: "fully_idle p'" and B: "B \<noteq> 0" and w: "whole_pages S (S + B - 1)" and t: "taken T S (S + B - 1) (page_part s) p'"
  defines "L' \<equiv> L(S \<mapsto> (unat B, T))"
  shows "pool_inv {S} L' (s\<lparr>page_part := p'\<rparr>)" "advances L (page_part s) L' p'" "heads {S} L' s = heads {} L s" "L S = None"
proof -
  have inv: "page_inv (page_part s)" using p by (simp add: fully_idle_def)
  have L: "layout_ok L" "in_memory L (page_part s)" using s by (auto simp: pool_inv_def)
  note b = whole_pages_bytes [OF w B]
  have new: "\<not> covered L x" if "inside S (unat B) x" for x
    using covered_in_use [OF L(2,1) inv] t that b(4) by (auto simp: taken_def)
  have L': "layout_ok L'" unfolding L'_def using layout_add [OF L(1) S b(1,3,2) T new] by simp
  have in_use: "keeps_in_use (\<lambda>_. True) (page_part s) p'" by (rule taken_keeps_in_use [OF inv t T])
  have "in_memory L p'" by (rule in_memory_keeps [OF L(2,1) in_use]) simp
  moreover have "\<exists>A. owner p' x = {#(T, A)#}" if "inside S (unat B) x" for x using t that b(4) by (auto simp: taken_def)
  ultimately have m: "in_memory L' p'" unfolding in_memory_def L'_def by auto
  show none: "L S = None"
    using covered_self [OF L(1)] new [of S] b(3) by (cases "L S") (auto simp: inside_def)
  show h: "heads {S} L' s = heads {} L s" using none by (auto simp: heads_def L'_def)
  have "pooled L' s" using s r by (auto simp: pool_inv_def pooled_def L'_def)
  moreover have "labelled {S} L' s" "\<And>obs T i. free_blocks {S} L' obs T i = free_blocks {} L obs T i"
    using s none by (auto simp: pool_inv_def labelled_def free_blocks_def L'_def)
  ultimately show "pool_inv {S} L' (s\<lparr>page_part := p'\<rparr>)"
    using s m L' h by (simp add: pool_inv_def listed_def own_pools_def)
  have "available (page_part s) x" if "inside S (unat B) x" for x using t that b(4) by (auto simp: taken_def)
  then have "\<forall>x. covered L' x \<longrightarrow> covered L x \<or> available (page_part s) x"
    unfolding covered_def L'_def by (auto split: if_splits)
  then show "advances L (page_part s) L' p'" using in_use i taken_available [OF t T] by (simp add: advances_def)
qed

section \<open>Free blocks\<close>

lemma insert_free_effect:
  assumes ok: "pools_ok s" "pool_of s T = Some r" and i: "i < 13" and s': "s' = insert_free r i a s"
  shows "page_part s' = page_part s" "tails s' = tails s" "pool_of s' = pool_of s" "pools_ok s'" "pool_names s' = pool_names s"
    "objects s' = (objects s)(a \<mapsto> POOL_FREE (word_of_nat i))"
    "fl s' U j = (if U = T \<and> j = i then a # fl s T i else fl s U j)"
proof -
  let ?s = "s\<lparr>objects := (objects s)(a \<mapsto> POOL_FREE (word_of_nat i))\<rparr>"
  have ok': "pools_ok ?s" "pool_of ?s T = Some r" using ok by simp_all
  have same: "same_blocks ?s s'" and f: "\<And>U j. fl s' U j = (if U = T \<and> j = i then a # free_list r i s else fl ?s U j)"
    unfolding s' insert_free_def by (rule set_free_list_fl(1) [OF ok' i]) (rule set_free_list_fl(2) [OF ok' i])
  show "page_part s' = page_part s" "tails s' = tails s" "pool_of s' = pool_of s" "pools_ok s'" "pool_names s' = pool_names s"
    "objects s' = (objects s)(a \<mapsto> POOL_FREE (word_of_nat i))"
    using same ok by (simp_all add: same_blocks_def)
  show "fl s' U j = (if U = T \<and> j = i then a # fl s T i else fl s U j)"
    using f free_list_fl [OF ok(2)] by simp
qed

definition tiles_of :: "u64 \<Rightarrow> (nat \<times> nat) list \<Rightarrow> nat \<Rightarrow> u64 list" where
  "tiles_of a bs j = rev (map (\<lambda>(off, _). a + word_of_nat off) (filter (\<lambda>(_, i). i = j) bs))"

lemma insert_blocks_effect:
  assumes "pools_ok s" "pool_of s T = Some r" "\<forall>(x, j)\<in>set bs. j < 9" and s': "s' = insert_blocks r a bs s"
  shows "page_part s' = page_part s" "tails s' = tails s" "pool_of s' = pool_of s" "pools_ok s'" "pool_names s' = pool_names s"
    "fl s' U j = (if U = T then tiles_of a bs j else []) @ fl s U j"
    "(\<And>off j. (off, j) \<in> set bs \<Longrightarrow> x \<noteq> a + word_of_nat off) \<Longrightarrow> objects s' x = objects s x"
    "(off, i) \<in> set bs \<Longrightarrow> (\<And>off' k. (off', k) \<in> set bs \<Longrightarrow> a + word_of_nat off = a + word_of_nat off' \<Longrightarrow> k = i) \<Longrightarrow>
       objects s' (a + word_of_nat off) = Some (POOL_FREE (word_of_nat i))"
proof -
  have "page_part s' = page_part s \<and> tails s' = tails s \<and> pool_of s' = pool_of s \<and> pools_ok s' \<and> pool_names s' = pool_names s \<and>
    (\<forall>U j. fl s' U j = (if U = T then tiles_of a bs j else []) @ fl s U j) \<and>
    (\<forall>x. (\<forall>(off, j)\<in>set bs. x \<noteq> a + word_of_nat off) \<longrightarrow> objects s' x = objects s x) \<and>
    (\<forall>(off, i)\<in>set bs. (\<forall>(off', k)\<in>set bs. a + word_of_nat off = a + word_of_nat off' \<longrightarrow> k = i) \<longrightarrow>
       objects s' (a + word_of_nat off) = Some (POOL_FREE (word_of_nat i)))"
    using assms
  proof (induction bs arbitrary: s)
    case Nil
    then show ?case by (simp add: insert_blocks_def tiles_of_def)
  next
    case (Cons b bs)
    obtain o0 i0 where b: "b = (o0, i0)" by (cases b)
    define s1 where "s1 = insert_free r i0 (a + word_of_nat o0) s"
    have i0: "i0 < 13" using Cons.prems(3) by (simp add: b)
    note e = insert_free_effect [OF Cons.prems(1,2) i0 s1_def]
    have s': "s' = insert_blocks r a bs s1" using Cons.prems(4) by (simp add: insert_blocks_def b s1_def)
    have ih: "page_part s' = page_part s1 \<and> tails s' = tails s1 \<and> pool_of s' = pool_of s1 \<and> pools_ok s' \<and>
      pool_names s' = pool_names s1 \<and> (\<forall>U j. fl s' U j = (if U = T then tiles_of a bs j else []) @ fl s1 U j) \<and>
      (\<forall>x. (\<forall>(off, j)\<in>set bs. x \<noteq> a + word_of_nat off) \<longrightarrow> objects s' x = objects s1 x) \<and>
      (\<forall>(off, i)\<in>set bs. (\<forall>(off', k)\<in>set bs. a + word_of_nat off = a + word_of_nat off' \<longrightarrow> k = i) \<longrightarrow>
         objects s' (a + word_of_nat off) = Some (POOL_FREE (word_of_nat i)))"
      using e Cons.prems by (intro Cons.IH s') auto
    have f: "fl s' U j = (if U = T then tiles_of a (b # bs) j else []) @ fl s U j" for U j
      using ih e(7) by (simp add: b tiles_of_def)
    have other: "objects s' x = objects s x" if "\<forall>(off, j)\<in>set (b # bs). x \<noteq> a + word_of_nat off" for x
      using ih e(6) that by (simp add: b)
    have at: "objects s' (a + word_of_nat off) = Some (POOL_FREE (word_of_nat i))"
      if o: "(off, i) \<in> set (b # bs)" and u: "\<forall>(off', k)\<in>set (b # bs). a + word_of_nat off = a + word_of_nat off' \<longrightarrow> k = i" for off i
    proof (cases "\<exists>off' k. (off', k) \<in> set bs \<and> a + word_of_nat off = a + word_of_nat off'")
      case True
      then obtain off' k where o': "(off', k) \<in> set bs" "a + word_of_nat off = a + word_of_nat off'" by blast
      have k: "k = i" using u o' by fastforce
      have "\<forall>(off'', k')\<in>set bs. a + word_of_nat off' = a + word_of_nat off'' \<longrightarrow> k' = k" unfolding k o'(2) [symmetric] using u by auto
      then have "objects s' (a + word_of_nat off') = Some (POOL_FREE (word_of_nat k))" using ih o'(1) by blast
      then show ?thesis by (simp only: o'(2) k)
    next
      case False
      then have "(off, i) = (o0, i0)" using o by (auto simp: b)
      moreover have "objects s' (a + word_of_nat off) = objects s1 (a + word_of_nat off)" using ih False by blast
      ultimately show ?thesis using e(6) by simp
    qed
    show ?case using ih e(1-5) f other at by auto
  qed
  then show "page_part s' = page_part s" "tails s' = tails s" "pool_of s' = pool_of s" "pools_ok s'" "pool_names s' = pool_names s"
    "fl s' U j = (if U = T then tiles_of a bs j else []) @ fl s U j"
    "(\<And>off j. (off, j) \<in> set bs \<Longrightarrow> x \<noteq> a + word_of_nat off) \<Longrightarrow> objects s' x = objects s x"
    "(off, i) \<in> set bs \<Longrightarrow> (\<And>off' k. (off', k) \<in> set bs \<Longrightarrow> a + word_of_nat off = a + word_of_nat off' \<Longrightarrow> k = i) \<Longrightarrow>
       objects s' (a + word_of_nat off) = Some (POOL_FREE (word_of_nat i))"
    by blast+
qed

section \<open>Cutting a block\<close>

lemma index_word_eq: "i < 13 \<Longrightarrow> j < 13 \<Longrightarrow> word_of_nat i = (word_of_nat j :: u32) \<longleftrightarrow> i = j"
  by (simp add: word_of_nat_eq_iff take_bit_nat_eq_self)

lemma tiles_distinct: "block_tiles lo hi bs \<Longrightarrow> \<forall>(x, j)\<in>set bs. j < 13 \<Longrightarrow> distinct (map fst bs)"
proof (induction lo hi bs rule: block_tiles.induct)
  case (2 lo hi offset i bs)
  then show ?case using tiles_within [of "lo + sz i" hi bs] sz_pos [of i] by fastforce
qed simp

text \<open>The tiles behind the first one are at addresses where there was no block.\<close>

lemma tile_fresh:
  assumes L: "layout_ok L" "L a = Some (M, T)" and c: "cut_of a M ((0, I) # bs)" and o: "(off, j) \<in> set bs"
  shows "a + word_of_nat off \<noteq> a" "L (a + word_of_nat off) = None"
proof -
  let ?x = "a + word_of_nat off"
  have o': "(off, j) \<in> set ((0, I) # bs)" using o by simp
  note u = cut_of_tile [OF c o']
  have t: "block_tiles (sz I) M bs" "0 < sz I" using c sz_pos [of I] by (auto simp: cut_of_def)
  have "sz I \<le> off" using tiles_within [OF t(1) o] by simp
  then have u': "unat ?x = unat a + off" "0 < off" using u(4) t(2) by auto
  then show ne: "?x \<noteq> a" by auto
  show "L ?x = None"
  proof (rule ccontr)
    assume "L ?x \<noteq> None"
    then obtain m U where m: "L ?x = Some (m, U)" by auto
    have "apart ?x m a M" by (rule layout_apart [OF L(1) m L(2) ne])
    then show False using block_pos [OF layout_block [OF L(1) m]] u u' by (auto simp: apart_def)
  qed
qed

lemma tiles_of_distinct:
  assumes c: "cut_of a M ((0, I) # bs)" shows "distinct (tiles_of a bs i)"
proof -
  have t: "block_tiles (sz I) M bs" "\<forall>(x, j)\<in>set bs. j < 13" using c by (auto simp: cut_of_def)
  have "distinct bs" using tiles_distinct [OF t] by (simp add: distinct_map)
  moreover have "inj_on (\<lambda>(off, _). a + word_of_nat off) (set (filter (\<lambda>(_, k). k = i) bs))"
  proof (rule inj_onI, clarify)
    fix off off' k k'
    assume o: "(off, k) \<in> set (filter (\<lambda>(_, k). k = i) bs)" "(off', k') \<in> set (filter (\<lambda>(_, k). k = i) bs)"
      and eq: "a + word_of_nat off = a + word_of_nat off'"
    have "off = off'" by (rule cut_of_unique(1) [OF c _ _ eq, of k k']) (use o in auto)
    then show "off = off' \<and> k = k'" using o by simp
  qed
  ultimately show ?thesis by (simp add: tiles_of_def distinct_map)
qed

text \<open>What the cut changes: the tiles behind the first one are new free blocks, everything else stays.\<close>

definition block_cut :: "u64 \<Rightarrow> u32 \<Rightarrow> (nat \<times> nat) list \<Rightarrow> layout \<Rightarrow> 'w pool_state \<Rightarrow> layout \<Rightarrow> 'w pool_state \<Rightarrow> bool" where
  "block_cut a T bs L s L' s' \<longleftrightarrow>
     (\<forall>(off, j)\<in>set bs. let x = a + word_of_nat off in
        x \<noteq> a \<and> L x = None \<and> L' x = Some (sz j, T) \<and> objects s' x = Some (POOL_FREE (word_of_nat j)) \<and> j < 9) \<and>
     (\<forall>x. x \<noteq> a \<and> (\<forall>(off, j)\<in>set bs. x \<noteq> a + word_of_nat off) \<longrightarrow> L' x = L x \<and> objects s' x = objects s x) \<and>
     tails s' = tails s \<and> (\<forall>i. distinct (tiles_of a bs i)) \<and>
     (\<forall>U i. fl s' U i = (if U = T then tiles_of a bs i else []) @ fl s U i)"

lemma block_cut_tile:
  "block_cut a T bs L s L' s' \<Longrightarrow> (off, j) \<in> set bs \<Longrightarrow> x = a + word_of_nat off \<Longrightarrow>
     x \<noteq> a \<and> L x = None \<and> L' x = Some (sz j, T) \<and> objects s' x = Some (POOL_FREE (word_of_nat j)) \<and> j < 9"
  unfolding block_cut_def Let_def by (elim conjE) (drule (1) bspec, simp)

lemma block_cut_other:
  "block_cut a T bs L s L' s' \<Longrightarrow> x \<noteq> a \<Longrightarrow> \<forall>(off, j)\<in>set bs. x \<noteq> a + word_of_nat off \<Longrightarrow> L' x = L x \<and> objects s' x = objects s x"
  unfolding block_cut_def by blast

lemma block_cut_cases:
  assumes "block_cut a T bs L s L' s'" "x \<noteq> a"
  obtains off j where "(off, j) \<in> set bs" "x = a + word_of_nat off" "L x = None" "L' x = Some (sz j, T)"
    "objects s' x = Some (POOL_FREE (word_of_nat j))" "j < 9"
  | "\<forall>(off, j)\<in>set bs. x \<noteq> a + word_of_nat off" "L' x = L x" "objects s' x = objects s x"
proof (cases "\<forall>(off, j)\<in>set bs. x \<noteq> a + word_of_nat off")
  case True
  then show thesis using block_cut_other [OF assms True] that(2) by blast
next
  case False
  then obtain off j where o: "(off, j) \<in> set bs" "x = a + word_of_nat off" by blast
  then show thesis using block_cut_tile [OF assms(1) o] that(1) [OF o] by blast
qed

lemma insert_blocks_cut:
  assumes L: "layout_ok L" "L a = Some (M, T)" and ok: "pools_ok s" "pool_of s T = Some r" and c: "cut_of a M ((0, I) # bs)"
  shows "block_cut a T bs L s (lay a T ((0, I) # bs) L) (insert_blocks r a bs s)"
proof -
  let ?bs = "(0, I) # bs"
  have b9: "\<forall>(x, j)\<in>set bs. j < 9" using c by (auto simp: cut_of_def)
  note e = insert_blocks_effect [OF ok b9 refl]
  have at: "lay a T ?bs L (a + word_of_nat off) = Some (sz j, T)"
    "objects (insert_blocks r a bs s) (a + word_of_nat off) = Some (POOL_FREE (word_of_nat j))" if o: "(off, j) \<in> set bs" for off j
  proof -
    have uniq: "k = j" if "(off', k) \<in> set bs" "a + word_of_nat off = a + word_of_nat off'" for off' k
      using cut_of_unique(2) [OF c _ _ that(2), of j k] that(1) o by simp
    show "lay a T ?bs L (a + word_of_nat off) = Some (sz j, T)" by (rule lay_at [OF c]) (use o in simp)
    show "objects (insert_blocks r a bs s) (a + word_of_nat off) = Some (POOL_FREE (word_of_nat j))" by (rule e(8) [OF o uniq])
  qed
  have other: "lay a T ?bs L x = L x" "objects (insert_blocks r a bs s) x = objects s x"
    if x: "x \<noteq> a" "\<forall>(off, j)\<in>set bs. x \<noteq> a + word_of_nat off" for x
  proof -
    have "x \<noteq> a + word_of_nat off" if "(off, j) \<in> set ?bs" for off j using that x by auto
    then show "lay a T ?bs L x = L x" by (rule lay_other)
    show "objects (insert_blocks r a bs s) x = objects s x" by (rule e(7)) (use x(2) in blast)
  qed
  show ?thesis
    unfolding block_cut_def Let_def
    using at other tile_fresh [OF L c] tiles_of_distinct [OF c] e(2,6) b9 by auto
qed

lemma block_cut_heads:
  assumes b: "block_cut a T bs L s L' s'" shows "heads {a} L' s' = heads {a} L s"
proof -
  have "(x, U, m) \<in> heads {a} L' s' \<longleftrightarrow> (x, U, m) \<in> heads {a} L s" for x U m
  proof (cases "x = a")
    case False
    then show ?thesis by (rule block_cut_cases [OF b]) (auto simp: heads_def)
  qed (simp add: heads_def)
  then show ?thesis by auto
qed

lemma block_cut_labelled:
  assumes b: "block_cut a T bs L s L' s'" and s: "labelled {a} L s" shows "labelled {a} L' s'"
  unfolding labelled_def
proof (intro allI impI)
  fix x n U assume x: "L' x = Some (n, U) \<and> x \<notin> {a}"
  then have "x \<noteq> a" by simp
  then show "marked (objects s') (tails s') x n U"
  proof (rule block_cut_cases [OF b], goal_cases)
    case (1 off j)
    then show ?case using x by (auto simp: marked_def)
  next
    case 2
    then have "marked (objects s) (tails s) x n U" using s x by (simp add: labelled_def)
    then show ?case using 2 b by (simp add: marked_def block_cut_def)
  qed
qed

lemma block_cut_listed:
  assumes b: "block_cut a T bs L s L' s'" and s: "listed {a} L s" shows "listed {a} L' s'"
  unfolding listed_def
proof (intro allI impI)
  fix U i assume i: "i < (9 :: nat)"
  have l: "distinct (fl s U i)" "set (fl s U i) = free_blocks {a} L (objects s) U i" using s i by (auto simp: listed_def)
  have f: "fl s' U i = (if U = T then tiles_of a bs i else []) @ fl s U i" "distinct (tiles_of a bs i)"
    using b by (auto simp: block_cut_def)
  have ts: "set (tiles_of a bs i) = {x. \<exists>off. (off, i) \<in> set bs \<and> x = a + word_of_nat off}" by (auto simp: tiles_of_def)
  have t: "x \<noteq> a \<and> L x = None \<and> objects s' x = Some (POOL_FREE (word_of_nat i))" if x: "x \<in> set (tiles_of a bs i)" for x
  proof -
    obtain off where o: "(off, i) \<in> set bs" "x = a + word_of_nat off" using x unfolding ts by blast
    show ?thesis using block_cut_tile [OF b o] by blast
  qed
  have "x \<in> set (fl s' U i) \<longleftrightarrow> x \<in> free_blocks {a} L' (objects s') U i" for x
  proof (cases "x = a")
    case True
    then show ?thesis using t l(2) f(1) by (auto simp: free_blocks_def)
  next
    case False
    then show ?thesis
    proof (rule block_cut_cases [OF b], goal_cases)
      case (1 off j)
      have "i = j" if "x \<in> set (tiles_of a bs i)" using t [OF that] 1 index_word_eq [of i j] i by simp
      then have "x \<in> set (tiles_of a bs i) \<longleftrightarrow> i = j" using 1(1,2) unfolding ts by blast
      then show ?case using 1 False f(1) l(2) index_word_eq [of j i] i by (auto simp: free_blocks_def)
    next
      case 2
      then have "x \<notin> set (tiles_of a bs i)" unfolding ts by blast
      then show ?case using 2 f(1) l(2) by (auto simp: free_blocks_def)
    qed
  qed
  moreover have "set (tiles_of a bs i) \<inter> set (fl s U i) = {}" using t l(2) by (fastforce simp: free_blocks_def)
  ultimately show "distinct (fl s' U i) \<and> set (fl s' U i) = free_blocks {a} L' (objects s') U i" using f l(1) by auto
qed

text \<open>A tile lies in the block that was cut.\<close>

lemma lay_inside:
  assumes c: "cut_of a M bs" and a: "L a = Some (M, T)" and y: "lay a T bs L y = Some (n, U)" "inside y n x"
  shows "\<exists>b m. L b = Some (m, U) \<and> inside b m x"
  using lay_cases [OF c y(1)]
proof (elim disjE exE conjE)
  fix off j assume "(off, j) \<in> set bs" "y = a + word_of_nat off" "n = sz j" "U = T"
  then show ?thesis using cut_of_tile [OF c, of off j] a y(2) by (intro exI [of _ a]) (auto simp: inside_def)
qed (use y(2) in blast)

lemma cut_block:
  assumes s: "pool_inv {a} L s" and a: "L a = Some (M, T)" and r: "pool_of s T = Some r" and c: "cut_of a M ((0, I) # bs)"
    and s': "s' = insert_blocks r a bs s"
  defines "L' \<equiv> lay a T ((0, I) # bs) L"
  shows "pool_inv {a} L' s'" "heads {a} L' s' = heads {a} L s" "page_part s' = page_part s" "L' a = Some (sz I, T)"
    "covered L' x \<Longrightarrow> covered L x"
proof -
  have ok: "pools_ok s" and L: "layout_ok L" using s by (auto simp: pool_inv_def)
  have b9: "\<forall>(x, j)\<in>set bs. j < 9" using c by (auto simp: cut_of_def)
  note e = insert_blocks_effect [OF ok r b9 s']
  have b: "block_cut a T bs L s L' s'" unfolding L'_def s' by (rule insert_blocks_cut [OF L a ok r c])
  show "L' a = Some (sz I, T)" using lay_at [OF c, of 0 I T L] by (simp add: L'_def)
  show pg: "page_part s' = page_part s" by (rule e(1))
  show h: "heads {a} L' s' = heads {a} L s" by (rule block_cut_heads [OF b])
  have ins: "\<exists>b m. L b = Some (m, U) \<and> inside b m x" if "L' y = Some (n, U)" "inside y n x" for y n U x
    by (rule lay_inside [OF c _ that(1) [unfolded L'_def] that(2)]) (rule a)
  then show "covered L' x \<Longrightarrow> covered L x" unfolding covered_def by blast
  have "in_memory L' (page_part s')" using s ins unfolding pg pool_inv_def in_memory_def by blast
  moreover have "pooled L' s'"
    unfolding pooled_def e(3)
  proof (intro allI impI)
    fix x n U assume "L' x = Some (n, U)"
    then have "U = T \<or> L x = Some (n, U)" using lay_cases [OF c, of T L x n U] unfolding L'_def by blast
    then show "pool_of s U \<noteq> None" using s r by (auto simp: pool_inv_def pooled_def)
  qed
  moreover have "layout_ok L'" unfolding L'_def by (rule layout_cut [OF L a c])
  ultimately show "pool_inv {a} L' s'"
    using e(4,5) h s block_cut_labelled [OF b] block_cut_listed [OF b] unfolding pool_inv_def own_pools_def by simp
qed

section \<open>Taking a free block\<close>

lemma take_free:
  assumes s: "pool_inv X L s" and r: "pool_of s T = Some r" and a: "a \<in> set (fl s T i)" and i: "i < 9"
    and s': "s' = set_free_list r i (remove1 a (free_list r i s)) s"
  shows "pool_inv (insert a X) L s'" "heads (insert a X) L s' = heads X L s" "same_blocks s s'"
    "L a = Some (sz i, T)" "objects s a = Some (POOL_FREE (word_of_nat i))" "a \<notin> X"
proof -
  have ok: "pools_ok s" using s by (simp add: pool_inv_def)
  have i': "i < MAX_POOL_LIST" using i by simp
  note e = set_free_list_fl [OF ok r i', of "remove1 a (free_list r i s)", folded s']
  show same: "same_blocks s s'" by (rule e(1))
  have l: "distinct (fl s U j) \<and> set (fl s U j) = free_blocks X L (objects s) U j" if "j < 9" for U j
    using s that by (auto simp: pool_inv_def listed_def)
  have "a \<in> free_blocks X L (objects s) T i" using a l [OF i] by simp
  then show La: "L a = Some (sz i, T)" "objects s a = Some (POOL_FREE (word_of_nat i))" and "a \<notin> X"
    by (auto simp: free_blocks_def)
  have f: "fl s' U j = (if U = T \<and> j = i then remove1 a (fl s T i) else fl s U j)" for U j
    using e(2) free_list_fl [OF r] by simp
  have "listed (insert a X) L s'"
    unfolding listed_def
  proof (intro allI impI)
    fix U j assume j: "j < (9 :: nat)"
    have "free_blocks (insert a X) L (objects s') U j = free_blocks X L (objects s) U j - {a}"
      using same by (auto simp: free_blocks_def same_blocks_def)
    moreover have "a \<notin> free_blocks X L (objects s) U j" if "\<not> (U = T \<and> j = i)"
      using La that i j index_word_eq [of i j] by (auto simp: free_blocks_def)
    ultimately show "distinct (fl s' U j) \<and> set (fl s' U j) = free_blocks (insert a X) L (objects s') U j"
      using l [OF j, of U] f by (auto simp: set_remove1_eq distinct_remove1)
  qed
  moreover show h: "heads (insert a X) L s' = heads X L s"
    using La same by (auto simp: heads_def same_blocks_def)
  ultimately show "pool_inv (insert a X) L s'"
    using s same unfolding pool_inv_def own_pools_def same_blocks_def by (auto simp: labelled_def pooled_def)
qed

section \<open>Carving\<close>

lemma carve_inv:
  assumes s: "pool_inv {a} L s" and a: "L a = Some (unat MaxOffset, T)" and r: "pool_of s T = Some r"
    and k: "k \<le> 9" "k \<noteq> 0" and I: "I < 9" "sz I \<le> unat MaxOffset" and M: "64 dvd unat MaxOffset" "unat a mod 4096 + unat MaxOffset \<le> 4096"
  shows "holds {} (carve r a (LIST_TO_SIZE I) MaxOffset k s) (\<lambda>(b, s'). b = a \<and>
    (\<exists>L'. pool_inv {a} L' s' \<and> heads {a} L' s' = heads {a} L s \<and> page_part s' = page_part s \<and> pool_names s' = pool_names s \<and>
       pool_of s' = pool_of s \<and> L' a = Some (sz I, T) \<and> (\<forall>x. covered L' x \<longrightarrow> covered L x)))"
proof -
  have o: "LIST_TO_SIZE I \<le> MaxOffset" "64 dvd unat (LIST_TO_SIZE I)" using I sz_64 [of I] by (auto simp: sz_def word_le_nat_alt)
  obtain bs where bs: "carve r a (LIST_TO_SIZE I) MaxOffset k s = ret (a, insert_blocks r a bs s)"
      "block_tiles (sz I) (unat MaxOffset) bs" "\<forall>(x, j)\<in>set bs. j < k"
    using carve_blocks [OF _ k(2) o M(1), of r a s] k(1) by (auto simp: sz_def)
  have L: "layout_ok L" using s by (simp add: pool_inv_def)
  have "unat a + unat MaxOffset \<le> 2 ^ 64" using layout_block [OF L a] by (simp add: block_ok_def)
  then have c: "cut_of a (unat MaxOffset) ((0, I) # bs)"
  proof -
    have "\<forall>(x, j)\<in>set ((0, I) # bs). j < 9" using bs(3) k(1) I(1) by auto
    moreover have "0 < unat MaxOffset" using I sz_pos [of I] by simp
    ultimately show ?thesis using bs(2) M(2) \<open>unat a + unat MaxOffset \<le> 2 ^ 64\<close> by (simp add: cut_of_def)
  qed
  have b9: "\<forall>(x, j)\<in>set bs. j < 9" using c by (auto simp: cut_of_def)
  have ok: "pools_ok s" using s by (simp add: pool_inv_def)
  show ?thesis
    unfolding bs(1) holds_simps prod.case
    by (intro conjI refl exI [of _ "lay a T ((0, I) # bs) L"] allI impI cut_block [OF s a r c refl]
        insert_blocks_effect(3,5) [OF ok r b9 refl])
qed

section \<open>A block for a request\<close>

definition placed :: "layout \<Rightarrow> 'w pool_state \<Rightarrow> u32 \<Rightarrow> nat \<Rightarrow> u64 \<times> 'w pool_state \<Rightarrow> bool" where
  "placed L s T n r \<longleftrightarrow>
     (case r of (a, s') \<Rightarrow>
        pool_names s' = pool_names s \<and> pool_of s' = pool_of s \<and>
        (\<exists>L'. advances L (page_part s) L' (page_part s') \<and>
           (if a = NULL then pool_inv {} L' s' \<and> heads {} L' s' = heads {} L s
            else pool_inv {a} L' s' \<and> heads {a} L' s' = heads {} L s \<and> L' a = Some (n, T))))"

lemma pages_of_size:
  "(EFI_SIZE_TO_PAGES m + EFI_SIZE_TO_PAGES EFI_PAGE_SIZE - 1) AND NOT (EFI_SIZE_TO_PAGES EFI_PAGE_SIZE - 1) = EFI_SIZE_TO_PAGES m"
  "EFI_SIZE_TO_PAGES EFI_PAGE_SIZE = 1"
  by (simp_all add: EFI_SIZE_TO_PAGES_def)

lemma lists_of_page: "GetPoolIndexFromSize EFI_PAGE_SIZE = 9"
  using index_page [of 0] by simp

lemma new_pages_placed:
  assumes s: "pool_inv {} L s" and p: "fully_idle (page_part s)" and T: "T \<noteq> EfiConventionalMemory"
    and r: "pool_of s T = Some r"
  shows "holds {AssertFailed} (with_pages (CoreAllocatePoolPages env (CoreFreeMemoryMapStack env) T n EFI_PAGE_SIZE) s)
    (\<lambda>(a, s'). placed L s T (unat (push_bit EFI_PAGE_SHIFT n :: u64)) (a, s') \<and> unat a mod 4096 = 0)"
  unfolding with_pages_def
proof (rule holds_bind [OF CoreAllocatePoolPages_service [OF p T]], goal_cases)
  case (1 x)
  obtain S p' where x: "x = (S, p')" by (cases x)
  show ?case
  proof (cases "S = 0")
    case True
    then have k: "keeps (page_part s) p'" "fully_idle p'" using 1 by (auto simp: x)
    show ?thesis
      using with_pages_keeps [OF s p k] by (auto simp: x True placed_def pool_names_def)
  next
    case False
    then have k: "fully_idle p'" "(push_bit EFI_PAGE_SHIFT n :: u64) \<noteq> 0" "whole_pages S (S + push_bit EFI_PAGE_SHIFT n - 1)"
        "taken T S (S + push_bit EFI_PAGE_SHIFT n - 1) (page_part s) p'" using 1 by (auto simp: x)
    note b = new_block [OF s p T r False k]
    show ?thesis
      using b whole_pages_bytes(1) [OF k(3,2)] False by (auto simp: x placed_def intro!: exI [of _ "L(S \<mapsto> (unat (push_bit EFI_PAGE_SHIFT n :: u64), T))"])
  qed
qed

lemma free_block_facts:
  assumes s: "pool_inv {} L s" and r: "pool_of s T = Some r" and i: "i < 9" and l: "free_list r i s = a # as"
  shows "is_pool_free (objects s a)" "pool_inv {a} L (set_free_list r i as s)" "heads {a} L (set_free_list r i as s) = heads {} L s"
    "same_blocks s (set_free_list r i as s)" "L a = Some (sz i, T)" "a \<noteq> NULL"
    "unat a mod 4096 + sz i \<le> 4096"
proof -
  have a: "a \<in> set (fl s T i)" using l free_list_fl [OF r, of i] by simp
  note t = take_free [OF s r a i refl]
  have e: "remove1 a (free_list r i s) = as" by (simp add: l)
  show "is_pool_free (objects s a)" using t(5) by simp
  show "pool_inv {a} L (set_free_list r i as s)" "heads {a} L (set_free_list r i as s) = heads {} L s"
    "same_blocks s (set_free_list r i as s)" "L a = Some (sz i, T)" using t(1-4) by (simp_all add: e)
  have "block_ok L a (sz i) T" using s t(4) layout_block by (auto simp: pool_inv_def)
  then show "a \<noteq> NULL" "unat a mod 4096 + sz i \<le> 4096" using small_lt [OF i] by (auto simp: block_ok_def)
qed

lemma advances_covered:
  "advances L p L1 p' \<Longrightarrow> (\<forall>x. covered L' x \<longrightarrow> covered L1 x) \<Longrightarrow> advances L p L' p'"
  by (auto simp: advances_def)

lemma sz_mono:
  assumes "i \<le> j" "j < 13" shows "sz i \<le> sz j"
proof -
  have "sorted [64, 128, 192, 320, 512, 832, 1344, 2176, 3520, 5696, 9216, 14912, 24128 :: nat]" by simp
  then show ?thesis using sorted_nth_mono [of _ i j] assms sz_nth [of i] sz_nth [of j] by fastforce
qed

text \<open>The head of a block that is carved up serves the request.\<close>

lemma carve_placed:
  assumes r: "pool_of s T = Some r"
    and s1: "pool_inv {a} L1 s1" "heads {a} L1 s1 = heads {} L s" "pool_names s1 = pool_names s" "pool_of s1 = pool_of s"
      "advances L (page_part s) L1 (page_part s1)"
    and a: "L1 a = Some (unat MaxOffset, T)" "a \<noteq> NULL" and k: "k \<le> 9" "k \<noteq> 0"
    and I: "GetPoolIndexFromSize m < 9" "sz (GetPoolIndexFromSize m) \<le> unat MaxOffset"
    and M: "64 dvd unat MaxOffset" "unat a mod 4096 + unat MaxOffset \<le> 4096"
  shows "holds {AssertFailed} (carve r a (LIST_TO_SIZE (GetPoolIndexFromSize m)) MaxOffset k s1) (placed L s T (pool_bytes m))"
proof -
  have r1: "pool_of s1 T = Some r" using r s1(4) by simp
  have "holds {AssertFailed} (carve r a (LIST_TO_SIZE (GetPoolIndexFromSize m)) MaxOffset k s1) (\<lambda>(b, s'). b = a \<and>
    (\<exists>L'. pool_inv {a} L' s' \<and> heads {a} L' s' = heads {a} L1 s1 \<and> page_part s' = page_part s1 \<and> pool_names s' = pool_names s1 \<and>
       pool_of s' = pool_of s1 \<and> L' a = Some (sz (GetPoolIndexFromSize m), T) \<and> (\<forall>x. covered L' x \<longrightarrow> covered L1 x)))"
    using carve_inv [OF s1(1) a(1) r1 k I M]
    by (auto simp: holds_def split: option.splits sum.splits)
  then show ?thesis
  proof (rule holds_weaken, goal_cases)
    case (1 x)
    then obtain s' L' where x: "x = (a, s')" "pool_inv {a} L' s'" "heads {a} L' s' = heads {a} L1 s1" "page_part s' = page_part s1"
        "pool_names s' = pool_names s1" "pool_of s' = pool_of s1" "L' a = Some (sz (GetPoolIndexFromSize m), T)" "\<forall>x. covered L' x \<longrightarrow> covered L1 x"
      by (cases x) auto
    have "advances L (page_part s) L' (page_part s')" unfolding x(4) by (rule advances_covered [OF s1(5) x(8)])
    then show ?case
      using x s1 a(2) I unfolding x(1) placed_def prod.case by (intro conjI exI [of _ L']) (auto simp: pool_bytes_def)
  qed
qed

lemma pool_block_placed:
  assumes s: "pool_inv {} L s" and p: "fully_idle (page_part s)" and T: "T \<noteq> EfiConventionalMemory" and r: "pool_of s T = Some r"
  shows "holds {AssertFailed} (pool_block env r T m (GetPoolIndexFromSize m) s) (placed L s T (pool_bytes m))"
proof -
  let ?I = "GetPoolIndexFromSize m"
  note unfolds = pool_block_def Let_def index_page(2) lists_of_page pages_of_size
  consider (pages) "\<not> ?I < 9" | (listed) a as where "?I < 9" "free_list r ?I s = a # as"
    | (bigger) i where "?I < 9" "free_list r ?I s = []" "find (\<lambda>i. free_list r i s \<noteq> []) [Suc ?I..<9] = Some i"
    | (none) "?I < 9" "free_list r ?I s = []" "find (\<lambda>i. free_list r i s \<noteq> []) [Suc ?I..<9] = None"
    by (cases "?I < 9"; cases "free_list r ?I s"; cases "find (\<lambda>i. free_list r i s \<noteq> []) [Suc ?I..<9]") auto
  then show ?thesis
  proof cases
    case pages
    then show ?thesis
      unfolding unfolds
      using holds_weaken [OF new_pages_placed [OF s p T r, of env "EFI_SIZE_TO_PAGES m"], of "placed L s T (pool_bytes m)"]
      by (auto simp: pool_bytes_def)
  next
    case (listed a as)
    note f = free_block_facts [OF s r listed]
    show ?thesis
      unfolding unfolds listed(2) list.case
      using listed(1) f advances_refl [OF p, of L] by (auto simp: placed_def pool_bytes_def same_blocks_def)
  next
    case (bigger i)
    then have i: "?I < i" "i < 9" "free_list r i s \<noteq> []" using find_some [OF bigger(3)] by auto
    then obtain a as where a: "free_list r i s = a # as" by (cases "free_list r i s") auto
    note f = free_block_facts [OF s r i(2) a]
    have "sz ?I \<le> sz i" "64 dvd sz i" using sz_mono [of ?I i] sz_64 [of i] i by simp_all
    then have "holds {AssertFailed} (carve r a (LIST_TO_SIZE ?I) (LIST_TO_SIZE i) i (set_free_list r i as s))
        (placed L s T (pool_bytes m))"
      using f i bigger(1) advances_refl [OF p, of L] by (intro carve_placed [OF r f(2,3)]) (auto simp: same_blocks_def sz_def)
    then show ?thesis
      unfolding unfolds bigger(2,3) list.case option.case a list.sel using bigger(1) f(1) by simp
  next
    case none
    show ?thesis
      unfolding unfolds none(2,3) list.case option.case
    proof (subst if_not_P, use none(1) in simp, rule holds_bind [OF new_pages_placed [OF s p T r]], goal_cases)
      case (1 x)
      obtain a s1 where x: "x = (a, s1)" by (cases x)
      show ?case
      proof (cases "a = NULL")
        case False
        then obtain L1 where L1: "pool_inv {a} L1 s1" "heads {a} L1 s1 = heads {} L s" "pool_names s1 = pool_names s"
            "pool_of s1 = pool_of s" "advances L (page_part s) L1 (page_part s1)" "L1 a = Some (4096, T)" "unat a mod 4096 = 0"
          using 1 by (auto simp: x placed_def)
        show ?thesis
          unfolding x prod.case if_not_P [OF False]
          by (rule carve_placed [OF r L1(1-5)]) (use L1(6,7) False none(1) small_lt [OF none(1)] in auto)
      qed (use 1 in \<open>simp add: x placed_def\<close>)
    qed
  qed
qed

section \<open>The header of a block\<close>

lemma tail_pos:
  assumes "unat a + n \<le> 2 ^ 64" "unat m \<le> n" "40 \<le> unat m"
  shows "unat (a + m - sizeof_POOL_TAIL) = unat a + unat m - 16" "inside a n (a + m - sizeof_POOL_TAIL)"
proof -
  have "unat (m - 16) = unat m - unat (16 :: u64)" by (rule unat_sub) (use assms(3) in \<open>simp add: word_le_nat_alt\<close>)
  then have "unat (m - 16) = unat m - 16" by simp
  moreover have "unat a + unat (m - 16) < 2 ^ 64" using assms calculation by simp
  then have "unat (a + (m - 16)) = unat a + unat (m - 16)" by (simp add: unat_word_ariths)
  moreover have e: "a + m - 16 = a + (m - 16)" by simp
  ultimately show "unat (a + m - 16) = unat a + unat m - 16" "inside a n (a + m - 16)"
    using assms unfolding e inside_def by linarith+
qed

lemma world_irrelevant [simp]:
  "fully_idle (p\<lparr>pworld := w\<rparr>) = fully_idle p" "keeps_in_use P q (p\<lparr>pworld := w\<rparr>) = keeps_in_use P q p"
  "available (p\<lparr>pworld := w\<rparr>) = available p" "in_memory L (p\<lparr>pworld := w\<rparr>) = in_memory L p"
  "advances L q L' (p\<lparr>pworld := w\<rparr>) = advances L q L' p"
  by (auto simp: fully_idle_def page_inv_def tables_ok_def keeps_in_use_def available_def in_memory_def advances_def fun_eq_iff)

lemma same_blocks_heads: "same_blocks s s' \<Longrightarrow> heads X L s' = heads X L s"
  by (auto simp: same_blocks_def heads_def)

lemma pool_inv_same:
  "same_blocks s s' \<Longrightarrow> fl s' = fl s \<Longrightarrow> pool_inv X L s \<Longrightarrow> pool_inv X L s'"
  using same_blocks_heads [of s s' X L]
  by (simp add: pool_inv_def same_blocks_def labelled_def listed_def own_pools_def pooled_def)

lemma marked_elsewhere:
  assumes L: "layout_ok L" "L a = Some (n, T)" "L x = Some (k, U)" "x \<noteq> a" and m: "unat m \<le> n" "40 \<le> unat m"
    and x: "marked obs tls x k U"
  shows "marked (obs(a \<mapsto> ob)) (tls(a + m - sizeof_POOL_TAIL \<mapsto> v)) x k U"
proof -
  have "x + j - sizeof_POOL_TAIL \<noteq> a + m - sizeof_POOL_TAIL" if "unat j \<le> k" "40 \<le> unat j" for j
  proof -
    have "inside x k (x + j - sizeof_POOL_TAIL)" "inside a n (a + m - sizeof_POOL_TAIL)"
      using layout_block [OF L(1,3)] layout_block [OF L(1,2)] that m by (auto intro: tail_pos(2) simp: block_ok_def)
    then show ?thesis using apart_inside [OF layout_apart [OF L(1,3,2,4)]] by metis
  qed
  then show ?thesis using x L(4) by (auto simp: marked_def)
qed

lemma pool_header_inv:
  assumes s: "pool_inv {a} L s" and a: "L a = Some (pool_bytes m, T)" and m: "40 \<le> unat m" "unat m \<le> pool_bytes m"
    and r: "pool_of s T = Some r" and s': "s' = pool_header env r a T m s"
  shows "pool_inv {} L s'" "heads {} L s' = insert (a, T, m) (heads {a} L s)" "pool_names s' = pool_names s" "pool_of s' = pool_of s"
    "advances L0 p0 L (page_part s') = advances L0 p0 L (page_part s)"
proof -
  define s1 where "s1 = clear_memory env (a + SIZE_OF_POOL_HEAD) (m - POOL_OVERHEAD)
    (s\<lparr>objects := (objects s)(a \<mapsto> POOL_HEAD T m), tails := (tails s)(a + m - sizeof_POOL_TAIL \<mapsto> m)\<rparr>)"
  have s1: "objects s1 = (objects s)(a \<mapsto> POOL_HEAD T m)" "tails s1 = (tails s)(a + m - sizeof_POOL_TAIL \<mapsto> m)"
    "pool_names s1 = pool_names s" "pool_of s1 = pool_of s" "fl s1 = fl s" "pools_ok s1 = pools_ok s"
    "in_memory L (page_part s1) = in_memory L (page_part s)" "advances L0 p0 L (page_part s1) = advances L0 p0 L (page_part s)"
    by (simp_all add: s1_def clear_memory_def)
  have L: "layout_ok L" using s by (simp add: pool_inv_def)
  have ok1: "pools_ok s1" "pool_of s1 T = Some r" using s s1 r by (auto simp: pool_inv_def)
  have h1: "heads {} L s1 = insert (a, T, m) (heads {a} L s)" using a by (auto simp: heads_def s1(1) split: if_splits)
  have "labelled {} L s1"
    unfolding labelled_def
  proof (intro allI impI)
    fix x n U assume x: "L x = Some (n, U) \<and> x \<notin> {}"
    show "marked (objects s1) (tails s1) x n U"
    proof (cases "x = a")
      case True
      then show ?thesis using x a m s1(1,2) by (auto simp: marked_def)
    next
      case False
      then have "marked (objects s) (tails s) x n U" using s x by (auto simp: pool_inv_def labelled_def)
      then show ?thesis unfolding s1(1,2) using marked_elsewhere [OF L a _ False m(2,1)] x by blast
    qed
  qed
  moreover have "free_blocks {} L (objects s1) U i = free_blocks {a} L (objects s) U i" for U i
    by (auto simp: free_blocks_def s1(1))
  then have "listed {} L s1" using s s1(5) by (simp add: pool_inv_def listed_def)
  moreover have "own_pools {} L s1" using s h1 s1(3) by (auto simp: pool_inv_def own_pools_def)
  moreover have "pooled L s1" using s s1(4) by (simp add: pool_inv_def pooled_def)
  ultimately have i1: "pool_inv {} L s1" using s s1(6,7) by (simp add: pool_inv_def)
  have u: "s' = update_pool r (\<lambda>P. P\<lparr>Used := Used P + m\<rparr>) s1" by (simp add: s' pool_header_def s1_def)
  have same: "same_blocks s1 s'" "fl s' = fl s1" unfolding u by (rule used_fl [OF ok1])+
  show "pool_inv {} L s'" by (rule pool_inv_same [OF same i1])
  show "heads {} L s' = insert (a, T, m) (heads {a} L s)" using same_blocks_heads [OF same(1)] h1 by simp
  show "pool_names s' = pool_names s" "pool_of s' = pool_of s" "advances L0 p0 L (page_part s') = advances L0 p0 L (page_part s)"
    using same(1) s1 by (simp_all add: same_blocks_def)
qed

section \<open>Sizes of requests\<close>

lemma unat_EFI_SIZE_TO_PAGES: "unat (EFI_SIZE_TO_PAGES m) = (unat m + 4095) div 4096"
proof -
  have d: "unat (drop_bit 12 m) = unat m div 4096" by (simp add: drop_bit_eq_div unat_div_distrib)
  have "unat m < 2 ^ LENGTH(64)" by (rule unsigned_less)
  then have "unat m div 4096 + 1 < 2 ^ 64" by (simp add: div_less_iff_less_mult)
  then have p: "unat (drop_bit 12 m + 1) = unat m div 4096 + 1" using d by (simp add: unat_word_ariths)
  have "(unat m + 4095) div 4096 = (if unat m mod 4096 = 0 then unat m div 4096 else unat m div 4096 + 1)"
  proof (cases "unat m mod 4096")
    case 0
    then obtain q where "unat m = 4096 * q" by (metis dvd_def mod_0_imp_dvd)
    then show ?thesis using 0 by simp
  next
    case (Suc k)
    then have "unat m + 4095 = k + (unat m div 4096 + 1) * 4096" using div_mult_mod_eq [of "unat m" 4096] by simp
    moreover have "k < 4096" using Suc mod_less_divisor [of 4096 "unat m"] by simp
    ultimately show ?thesis using Suc by (simp only: div_mult_self1) simp
  qed
  then show ?thesis using d p page_mask_0 [of m] by (simp add: EFI_SIZE_TO_PAGES_def)
qed

lemma pool_bytes_fits:
  assumes "pool_bytes m \<noteq> 0" shows "unat m \<le> pool_bytes m"
proof (cases "GetPoolIndexFromSize m < 9")
  case True
  then show ?thesis using index_fits [of m] by (simp add: pool_bytes_def)
next
  case False
  let ?n = "EFI_SIZE_TO_PAGES m"
  have "unat m < 2 ^ LENGTH(64)" by (rule unsigned_less)
  then have le: "unat ?n \<le> 2 ^ 52" unfolding unat_EFI_SIZE_TO_PAGES by (simp add: div_le_mono)
  have "unat ?n \<noteq> 2 ^ 52"
  proof
    assume "unat ?n = 2 ^ 52"
    then have "?n = 2 ^ 52" by (intro unsigned_word_eqI) simp
    then show False using assms False by (simp add: pool_bytes_def)
  qed
  then have "unat (push_bit EFI_PAGE_SHIFT ?n :: u64) = 4096 * unat ?n" using le by (intro unat_bytes) simp
  moreover have "unat m \<le> 4096 * ((unat m + 4095) div 4096)"
    using div_mult_mod_eq [of "unat m + 4095" 4096] mod_less_divisor [of 4096 "unat m + 4095"] by linarith
  ultimately show ?thesis using False unfolding unat_EFI_SIZE_TO_PAGES by (simp add: pool_bytes_def)
qed

lemma aligned_size:
  assumes "Size \<le> 0xFFFFFFFFFFFFFFD0"
  shows "unat Size + 40 \<le> unat (ALIGN_VARIABLE Size + POOL_OVERHEAD)"
proof -
  let ?r = "(8 - Size) AND 7"
  have "7 = (mask 3 :: u64)" by (simp add: mask_eq_exp_minus_1)
  then have "?r = take_bit 3 (8 - Size)" by (simp only: take_bit_eq_mask)
  then have r: "unat ?r \<le> 7" using take_bit_nat_less_exp [of 3 "unat (8 - Size)"] by (simp add: unsigned_take_bit_eq)
  have "unat Size \<le> 0xFFFFFFFFFFFFFFD0" using assms by (simp add: word_le_nat_alt)
  then have "unat (Size + ?r) = unat Size + unat ?r" using r by (simp add: unat_word_ariths)
  moreover from this have "unat (Size + ?r + 40) = unat (Size + ?r) + 40"
    using r \<open>unat Size \<le> 0xFFFFFFFFFFFFFFD0\<close> by (simp add: unat_word_ariths)
  ultimately show ?thesis by (simp add: ALIGN_VARIABLE_def)
qed

end
