(* ===== verification/PoolServices.thy ===== *)
theory PoolServices
  imports PoolInvariant
begin

text \<open>
  What the pool services do to the blocks: an allocation adds a block in use that was not in use before, freeing takes one
  away, and no other block in use is touched.
\<close>

section \<open>Allocation\<close>

text \<open>The blocks that hold the \<open>POOL\<close>s of the list.\<close>

definition own_heads :: "'w pool_state \<Rightarrow> u64 set" where
  "own_heads s = (\<lambda>(a, U). a - SIZE_OF_POOL_HEAD) ` set (pool_names s)"

text \<open>The blocks in use stay in use, and none of them becomes one for a \<open>POOL\<close>.\<close>

definition pool_safe :: "layout \<Rightarrow> 'w pool_state \<Rightarrow> layout \<Rightarrow> 'w pool_state \<Rightarrow> bool" where
  "pool_safe L s L' s' \<longleftrightarrow>
     pool_inv {} L' s' \<and> advances L (page_part s) L' (page_part s') \<and> heads {} L s \<subseteq> heads {} L' s' \<and>
     own_heads s' \<inter> fst ` heads {} L s \<subseteq> own_heads s"

lemma pool_safe_trans: "pool_safe L s L1 s1 \<Longrightarrow> pool_safe L1 s1 L' s' \<Longrightarrow> pool_safe L s L' s'"
proof -
  assume a: "pool_safe L s L1 s1" and b: "pool_safe L1 s1 L' s'"
  have "advances L (page_part s) L' (page_part s')" 
    by (rule advances_trans [of L "page_part s" L1 "page_part s1"]) (use a b in \<open>simp_all add: pool_safe_def\<close>)
  moreover have h: "heads {} L s \<subseteq> heads {} L1 s1" "heads {} L1 s1 \<subseteq> heads {} L' s'" "pool_inv {} L' s'"
    "own_heads s' \<inter> fst ` heads {} L1 s1 \<subseteq> own_heads s1" "own_heads s1 \<inter> fst ` heads {} L s \<subseteq> own_heads s"
    using a b by (simp_all add: pool_safe_def)
  moreover have "own_heads s' \<inter> fst ` heads {} L s \<subseteq> own_heads s" using h(4,5) image_mono [OF h(1), of fst] by blast
  ultimately show ?thesis unfolding pool_safe_def by blast
qed

lemma pool_safe_refl: "pool_inv {} L s \<Longrightarrow> fully_idle (page_part s) \<Longrightarrow> pool_safe L s L s"
  by (simp add: pool_safe_def advances_refl)

lemma own_in_use: "pool_inv {} L s \<Longrightarrow> own_heads s \<subseteq> fst ` heads {} L s"
  by (auto simp: pool_inv_def own_pools_def own_heads_def)

text \<open>A new buffer for a request, or none.\<close>

definition given :: "layout \<Rightarrow> 'w pool_state \<Rightarrow> u32 \<Rightarrow> u64 \<Rightarrow> u64 \<times> 'w pool_state \<Rightarrow> bool" where
  "given L s T Size r \<longleftrightarrow>
     (case r of (b, s') \<Rightarrow> \<exists>L'. pool_safe L s L' s' \<and>
        (b \<noteq> NULL \<longrightarrow> (\<exists>m. (b - SIZE_OF_POOL_HEAD, T, m) \<in> heads {} L' s' \<and> unat Size + 40 \<le> unat m) \<and>
           b - SIZE_OF_POOL_HEAD \<notin> fst ` heads {} L s \<and> b - SIZE_OF_POOL_HEAD \<notin> own_heads s'))"

lemma given_after: "pool_safe L s L1 s1 \<Longrightarrow> given L1 s1 T Size r \<Longrightarrow> given L s T Size r"
proof -
  assume a: "pool_safe L s L1 s1" and g: "given L1 s1 T Size r"
  obtain b s' where r: "r = (b, s')" by (cases r)
  obtain L' where L': "pool_safe L1 s1 L' s'" and
      b: "b \<noteq> NULL \<longrightarrow> (\<exists>m. (b - SIZE_OF_POOL_HEAD, T, m) \<in> heads {} L' s' \<and> unat Size + 40 \<le> unat m) \<and>
           b - SIZE_OF_POOL_HEAD \<notin> fst ` heads {} L1 s1 \<and> b - SIZE_OF_POOL_HEAD \<notin> own_heads s'"
    using g unfolding given_def r prod.case by blast
  have "fst ` heads {} L s \<subseteq> fst ` heads {} L1 s1" by (rule image_mono) (use a in \<open>simp add: pool_safe_def\<close>)
  then show ?thesis using pool_safe_trans [OF a L'] b unfolding given_def r prod.case by blast
qed

lemma block_given:
  assumes s: "pool_inv {} L s" and p: "fully_idle (page_part s)" and T: "T \<noteq> EfiConventionalMemory" and r: "pool_of s T = Some r"
    and m: "unat Size + 40 \<le> unat m"
  shows "holds {AssertFailed} (bind_run (pool_block env r T m (GetPoolIndexFromSize m) s) (\<lambda>(Head, s2).
      if Head \<noteq> NULL then ret (Head + SIZE_OF_POOL_HEAD, pool_header env r Head T m s2) else ret (NULL, s2)))
    (\<lambda>(b, s'). given L s T Size (b, s') \<and> pool_names s' = pool_names s)"
proof (rule holds_bind [OF pool_block_placed [OF s p T r]], goal_cases)
  case (1 x)
  obtain a s2 where x: "x = (a, s2)" by (cases x)
  obtain L' where L': "pool_names s2 = pool_names s" "pool_of s2 = pool_of s" "advances L (page_part s) L' (page_part s2)"
      "a = NULL \<Longrightarrow> pool_inv {} L' s2 \<and> heads {} L' s2 = heads {} L s"
      "a \<noteq> NULL \<Longrightarrow> pool_inv {a} L' s2 \<and> heads {a} L' s2 = heads {} L s \<and> L' a = Some (pool_bytes m, T)"
    using 1 by (auto simp: x placed_def split: if_splits)
  have names: "own_heads s2 = own_heads s" using L'(1) by (simp add: own_heads_def)
  show ?case
  proof (cases "a = NULL")
    case True
    then show ?thesis using L'(1,3) L'(4) [OF True] names by (auto simp: x given_def pool_safe_def)
  next
    case False
    note a = L'(5) [OF False, THEN conjunct1] L'(5) [OF False, THEN conjunct2, THEN conjunct1] L'(5) [OF False, THEN conjunct2, THEN conjunct2]
    have "0 < pool_bytes m" using a(1,3) block_pos layout_block unfolding pool_inv_def by blast
    then have fit: "unat m \<le> pool_bytes m" by (intro pool_bytes_fits) simp
    have r2: "pool_of s2 T = Some r" using r L'(2) by simp
    have m40: "40 \<le> unat m" using m by simp
    note h = pool_header_inv [OF a(1,3) m40 fit r2 refl, where env = env]
    have new: "a \<notin> fst ` heads {} L s" unfolding a(2) [symmetric] by (auto simp: heads_def)
    have o: "own_heads (pool_header env r a T m s2) = own_heads s" using names h(3) by (simp add: own_heads_def)
    have "pool_safe L s L' (pool_header env r a T m s2)"
      using h(1,2) h(5) [of L "page_part s"] L'(3) a(2) o by (auto simp: pool_safe_def)
    moreover have "a \<notin> own_heads s" using own_in_use [OF s] new by blast
    ultimately show ?thesis
      unfolding x using False h(2,3) L'(1) o new m by (auto simp: given_def intro!: exI [of _ L'])
  qed
qed

section \<open>The pool of a type\<close>

definition found_pool :: "layout \<Rightarrow> 'w pool_state \<Rightarrow> u32 \<Rightarrow> pool_ref option \<times> 'w pool_state \<Rightarrow> bool" where
  "found_pool L s T r \<longleftrightarrow>
     (case r of (Pool, s') \<Rightarrow> (\<exists>L'. pool_safe L s L' s') \<and> (case Pool of None \<Rightarrow> True | Some r \<Rightarrow> pool_of s' T = Some r))"

lemma pool_state_locked: "fully_idle (page_part s) \<Longrightarrow> gMemoryLock (page_part s)"
  by (simp add: fully_idle_def)

lemma allocate_given:
  assumes s: "pool_inv {} L s" and p: "fully_idle (page_part s)" and T: "T \<noteq> EfiConventionalMemory"
    and look: "holds {AssertFailed} (lookup T s) (found_pool L s T)" and Size: "Size \<le> 0xFFFFFFFFFFFFFFD0"
  shows "holds {AssertFailed} (allocate_pool_with env lookup T Size s) (given L s T Size)"
  unfolding allocate_pool_with_def Let_def
proof (rule holds_assert_if, simp, rule holds_bind [OF look], goal_cases)
  case (1 x)
  obtain Pool s1 where x: "x = (Pool, s1)" by (cases x)
  obtain L1 where L1: "pool_safe L s L1 s1" using 1 by (auto simp: x found_pool_def)
  show ?case
  proof (cases Pool)
    case None
    then show ?thesis using L1 by (auto simp: x given_def)
  next
    case (Some r)
    have r: "pool_of s1 T = Some r" using 1 by (simp add: x Some found_pool_def)
    have "pool_inv {} L1 s1" "fully_idle (page_part s1)" using L1 by (auto simp: pool_safe_def advances_def)
    note b = block_given [OF this T r aligned_size [OF Size], of env]
    show ?thesis
      unfolding x Some prod.case option.case
      by (rule holds_weaken [OF b]) (use given_after [OF L1] in \<open>auto\<close>)
  qed
qed

text \<open>For a type of the table the pool is found at once, and the list of pools stays as it is.\<close>

lemma table_type_given:
  assumes s: "pool_inv {} L s" and p: "fully_idle (page_part s)" and T: "T \<noteq> EfiConventionalMemory" "T < EfiMaxMemoryType"
    and Size: "Size \<le> 0xFFFFFFFFFFFFFFD0"
  shows "holds {AssertFailed} (allocate_pool_with env (lookup_pool_with alloc) T Size s)
    (\<lambda>(b, s'). given L s T Size (b, s') \<and> pool_names s' = pool_names s)"
proof -
  have r: "pool_of s T = Some (PoolHead (unat T))" using T(2) by (simp add: pool_of_def)
  show ?thesis
    unfolding allocate_pool_with_def Let_def lookup_found [OF r] bind_run_simps prod.case option.case
    by (intro holds_assert_if singletonI block_given [OF s p T(1) r aligned_size [OF Size]])
qed

text \<open>A pool for a type that has none yet.\<close>

lemma pool_of_names: "pool_names s' = pool_names s \<Longrightarrow> pool_of s' = pool_of s"
proof -
  assume n: "pool_names s' = pool_names s"
  have e: "map_option (\<lambda>(a, P). PoolOnList a) (find (\<lambda>(a, P). MemoryType P = T) xs) =
      map_option (\<lambda>(a, U). PoolOnList a) (find (\<lambda>(a, U). U = T) (map (\<lambda>(a, P). (a, MemoryType P)) xs))" for T xs
    by (induction xs) (auto split: if_splits)
  have "map_option (\<lambda>(a, P). PoolOnList a) (find (\<lambda>(a, P). MemoryType P = T) (mPoolHeadList s')) =
      map_option (\<lambda>(a, P). PoolOnList a) (find (\<lambda>(a, P). MemoryType P = T) (mPoolHeadList s))" for T
    unfolding e using n by (simp add: pool_names_def)
  then show ?thesis by (simp add: pool_of_def fun_eq_iff)
qed

lemma new_pool_inv:
  assumes s: "pool_inv {} L s" and none: "pool_of s T = None" and T: "MEMORY_TYPE_OEM_RESERVED_MIN \<le> T" "T < 0x80000000"
    and head: "b - SIZE_OF_POOL_HEAD \<in> fst ` heads {} L s" "b - SIZE_OF_POOL_HEAD \<notin> own_heads s"
    and s': "s' = s\<lparr>mPoolHeadList := (b, new_pool T) # mPoolHeadList s\<rparr>"
  shows "pool_inv {} L s'" "heads {} L s' = heads {} L s" "pool_of s' T = Some (PoolOnList b)" "page_part s' = page_part s"
    "own_heads s' = insert (b - SIZE_OF_POOL_HEAD) (own_heads s)"
proof -
  have fresh: "b \<notin> fst ` set (mPoolHeadList s)" using head(2) by (force simp: own_heads_def pool_names_def)
  have nT: "\<not> T < EfiMaxMemoryType" using T(1) by (auto simp: not_less intro: order_trans [rotated])
  have T_new: "MemoryType (new_pool T) = T" "length (FreeList (new_pool T)) = MAX_POOL_LIST" by (simp_all add: new_pool_def)
  have po: "pool_of s' U = (if U = T then Some (PoolOnList b) else pool_of s U)" for U
    using nT T(1) by (auto simp: pool_of_def s' T_new)
  then show "pool_of s' T = Some (PoolOnList b)" by simp
  have gp: "get_pool r s' = get_pool r s" if U: "pool_of s U = Some r" for r U
  proof (cases r)
    case (PoolOnList a)
    then obtain P where "(a, P) \<in> set (mPoolHeadList s)" using U by (auto simp: pool_of_def split: if_splits dest!: find_mem)
    then have "a \<noteq> b" using fresh by force
    then show ?thesis by (simp add: get_pool_def PoolOnList s')
  qed (simp add: get_pool_def s')
  have gn: "get_pool (PoolOnList b) s' = new_pool T" by (simp add: get_pool_def s')
  have f: "fl s' U i = fl s U i" if "i < 9" for U i
  proof (cases "U = T")
    case True
    then show ?thesis using none that by (simp add: fl_def po free_list_def gn new_pool_def)
  next
    case False
    then show ?thesis using gp by (simp add: fl_def po free_list_def split: option.split)
  qed
  have same: "objects s' = objects s" "tails s' = tails s" "page_part s' = page_part s" by (simp_all add: s')
  show h: "heads {} L s' = heads {} L s" using same by (simp add: heads_def)
  show "page_part s' = page_part s" by (rule same(3))
  have names: "pool_names s' = (b, T) # pool_names s" by (simp add: pool_names_def s' T_new)
  show "own_heads s' = insert (b - SIZE_OF_POOL_HEAD) (own_heads s)" by (simp add: own_heads_def names)
  have "own_pools {} L s'" using s T(2) head(1) unfolding pool_inv_def own_pools_def names h by simp
  moreover have "pools_ok s'" using s fresh T(1) T_new by (auto simp: pool_inv_def pools_ok_def s')
  moreover have "pooled L s'" using s by (auto simp: pool_inv_def pooled_def po)
  ultimately show "pool_inv {} L s'"
    using s same f by (simp add: pool_inv_def labelled_def listed_def)
qed

lemma lookup_found_pool:
  assumes s: "pool_inv {} L s" and p: "fully_idle (page_part s)" and T: "T < 0x80000000"
  shows "holds {AssertFailed} (lookup_pool_with (allocate_pool_with env (lookup_pool_with alloc)) T s) (found_pool L s T)"
proof (cases "pool_of s T")
  case (Some r)
  then show ?thesis using pool_safe_refl [OF s p] by (auto simp: lookup_found found_pool_def)
next
  case None
  show ?thesis
  proof (cases "T \<ge> MEMORY_TYPE_OEM_RESERVED_MIN")
    case False
    then show ?thesis using None pool_safe_refl [OF s p] by (auto simp: lookup_pool_with_def found_pool_def pool_of_def split: if_splits)
  next
    case True
    have nT: "\<not> T < EfiMaxMemoryType" using True by (auto simp: not_less intro: order_trans [rotated])
    have none: "find (\<lambda>(a, P). MemoryType P = T) (mPoolHeadList s) = None" using None True nT by (simp add: pool_of_def)
    have data: "EfiBootServicesData \<noteq> EfiConventionalMemory" "EfiBootServicesData < EfiMaxMemoryType" "sizeof_POOL \<le> 0xFFFFFFFFFFFFFFD0"
      by simp_all
    show ?thesis
      unfolding lookup_pool_with_def [of "allocate_pool_with env (lookup_pool_with alloc)"] none option.case
        if_not_P [OF nT] if_P [OF True]
    proof (rule holds_bind [OF table_type_given [OF s p data]], goal_cases)
      case (1 x)
      obtain b s1 where x: "x = (b, s1)" by (cases x)
      have g: "given L s EfiBootServicesData sizeof_POOL (b, s1)" and n: "pool_names s1 = pool_names s" using 1 by (auto simp: x)
      show ?case
      proof (cases "b = NULL")
        case True
        then show ?thesis using g by (auto simp: x given_def found_pool_def)
      next
        case False
        obtain L1 m where L1: "pool_safe L s L1 s1" "(b - SIZE_OF_POOL_HEAD, EfiBootServicesData, m) \<in> heads {} L1 s1"
            "b - SIZE_OF_POOL_HEAD \<notin> fst ` heads {} L s" "b - SIZE_OF_POOL_HEAD \<notin> own_heads s1"
          using g False by (auto simp: given_def)
        have head: "b - SIZE_OF_POOL_HEAD \<in> fst ` heads {} L1 s1" using L1(2) by force
        have i1: "pool_inv {} L1 s1" using L1(1) by (simp add: pool_safe_def)
        have none1: "pool_of s1 T = None" using pool_of_names [OF n] None by simp
        note i = new_pool_inv [OF i1 none1 True T head L1(4) refl]
        have "pool_safe L s L1 (s1\<lparr>mPoolHeadList := (b, new_pool T) # mPoolHeadList s1\<rparr>)"
          using L1(1,3) i unfolding pool_safe_def by auto
        then show ?thesis using False i(3) by (auto simp: x found_pool_def)
      qed
    qed
  qed
qed

lemma CoreAllocatePoolI_given:
  assumes "pool_inv {} L s" "fully_idle (page_part s)" "T \<noteq> EfiConventionalMemory" "T < 0x80000000" "Size \<le> 0xFFFFFFFFFFFFFFD0"
  shows "holds {AssertFailed} (CoreAllocatePoolI env T Size s) (given L s T Size)"
  unfolding CoreAllocatePoolI_def
  by (rule allocate_given [OF assms(1-3) _ assms(5)]) (rule lookup_found_pool [OF assms(1,2,4)])

end
