(* ===== verification/PoolFree.thy ===== *)
theory PoolFree
  imports PoolServices
begin

text \<open>
  Freeing a block of the pool: the walk over the page of a small block finds all of its blocks, and the pages that are given
  back are covered by blocks that nobody uses.
\<close>

section \<open>Walking over a page\<close>

lemma page_end: "page_of P = P \<Longrightarrow> unat P + 4096 \<le> 2 ^ 64"
proof -
  assume "page_of P = P"
  then have e: "unat P = unat P div 4096 * 4096" using unat_page_of [of P] by simp
  have "unat P < 2 ^ LENGTH(64)" by (rule unsigned_less)
  then have "unat P div 4096 < 2 ^ 52" by (simp add: div_less_iff_less_mult)
  then show ?thesis using e by simp
qed

lemma page_step:
  assumes L: "layout_ok L" and P: "page_of P = P" and off: "off < 4096" "small L (P + word_of_nat off) T"
  obtains j where "j < 9" "L (P + word_of_nat off) = Some (sz j, T)" "unat (P + word_of_nat off) = unat P + off"
    "page_of (P + word_of_nat off) = P" "off + sz j \<le> 4096"
    "off + sz j < 4096 \<Longrightarrow> small L (P + word_of_nat (off + sz j)) T"
proof -
  let ?x = "P + word_of_nat off"
  obtain j where j: "j < 9" "L ?x = Some (sz j, T)" using off(2) by (auto simp: small_def)
  have P0: "unat P mod 4096 = 0" using page_of_eq [of P] P by simp
  have lt: "unat P mod 4096 + off < 4096" "unat P + off < 2 ^ 64" using P0 off(1) page_end [OF P] by simp_all
  have m: "unat ?x mod 4096 = off" using offset_mod [OF lt] P0 by simp
  have b: "block_ok L ?x (sz j) T" by (rule layout_block [OF L j(2)])
  have e: "?x + word_of_nat (sz j) = P + word_of_nat (off + sz j)" by (simp add: add.assoc)
  show thesis
  proof (rule that [OF j unat_offset [OF lt(2)]])
    show "page_of ?x = P" using page_of_offset [OF lt] P by simp
    show "off + sz j \<le> 4096" using b small_lt [OF j(1)] m by (simp add: block_ok_def)
    show "small L (P + word_of_nat (off + sz j)) T" if "off + sz j < 4096"
      using b small_lt [OF j(1)] m that unfolding e [symmetric] by (simp add: block_ok_def)
  qed
qed

text \<open>Every address of a page of small blocks is in one of them.\<close>

lemma page_covered:
  assumes L: "layout_ok L" and P: "page_of P = P"
  shows "off \<le> 4096 \<Longrightarrow> (off < 4096 \<Longrightarrow> small L (P + word_of_nat off) T) \<Longrightarrow>
    unat P + off \<le> unat x \<Longrightarrow> unat x < unat P + 4096 \<Longrightarrow> covered L x"
proof (induction "4096 - off" arbitrary: off rule: less_induct)
  case less
  have o: "off < 4096" using less.prems(3,4) by simp
  obtain j where j: "j < 9" "L (P + word_of_nat off) = Some (sz j, T)" "unat (P + word_of_nat off) = unat P + off"
      "off + sz j \<le> 4096" "off + sz j < 4096 \<Longrightarrow> small L (P + word_of_nat (off + sz j)) T"
    using page_step [OF L P o less.prems(2) [OF o]] by metis
  show ?case
  proof (cases "unat x < unat P + (off + sz j)")
    case True
    then show ?thesis using j(2,3) less.prems(3) unfolding covered_def inside_def by (intro exI conjI) (assumption | simp)+
  next
    case False
    have "0 < sz j" using sz_pos [of j] j(1) by simp
    then have "4096 - (off + sz j) < 4096 - off" using o by linarith
    then show ?thesis using False less.prems(4) j(4,5) by (intro less.hyps [of "off + sz j"]) simp_all
  qed
qed

text \<open>What the walk finds at a block.\<close>

lemma marked_small:
  assumes "marked obs tls x (sz j) T" "j < 9"
  obtains i where "i < 9" "obs x = Some (POOL_FREE (word_of_nat i))" "sz i = sz j" "unat (word_of_nat i :: u32) = i"
  | m where "obs x = Some (POOL_HEAD T m)"
proof -
  have "unat (word_of_nat i :: u32) = i" if "i < 9" for i using that by (simp add: unsigned_of_nat take_bit_nat_eq_self)
  then show ?thesis using assms that by (auto simp: marked_def)
qed

lemma all_free_returns:
  assumes L: "layout_ok L" and P: "page_of P = P" and lab: "labelled {} L s"
  shows "off \<le> 4096 \<Longrightarrow> (off < 4096 \<Longrightarrow> small L (P + word_of_nat off) T) \<Longrightarrow> \<exists>b. all_free (objects s) P 4096 off = ret b"
proof (induction "4096 - off" arbitrary: off rule: less_induct)
  case less
  show ?case
  proof (cases "off < 4096")
    case False
    then show ?thesis by (intro exI [of _ True]) (subst all_free.simps, simp)
  next
    case o: True
    obtain j where j: "j < 9" "L (P + word_of_nat off) = Some (sz j, T)" "off + sz j \<le> 4096"
        "off + sz j < 4096 \<Longrightarrow> small L (P + word_of_nat (off + sz j)) T"
      using page_step [OF L P o less.prems(2) [OF o]] by metis
    have mk: "marked (objects s) (tails s) (P + word_of_nat off) (sz j) T" using lab j(2) by (simp add: labelled_def)
    show ?thesis
    proof (rule marked_small [OF mk j(1)], goal_cases)
      case (1 i)
      have "0 < sz j" using sz_pos [of j] j(1) by simp
      then have "4096 - (off + sz j) < 4096 - off" using o by linarith
      then obtain b where "all_free (objects s) P 4096 (off + sz j) = ret b" using less.hyps [of "off + sz j"] j(3,4) by auto
      moreover have "unat (LIST_TO_SIZE i) = sz j" using 1(3) by (simp add: sz_def)
      ultimately show ?thesis using o 1 by (subst all_free.simps) simp
    next
      case (2 m)
      then show ?thesis using o by (intro exI [of _ False]) (subst all_free.simps, simp)
    qed
  qed
qed

text \<open>The blocks of a page before an offset.\<close>

definition page_blocks :: "layout \<Rightarrow> u64 \<Rightarrow> nat \<Rightarrow> u64 set" where
  "page_blocks L P off = {x. page_of x = P \<and> L x \<noteq> None \<and> unat x < unat P + off}"

lemma page_blocks_step:
  assumes L: "layout_ok L" and x: "L x = Some (n, T)" "unat x = unat P + off" "page_of x = P"
  shows "page_blocks L P (off + n) = insert x (page_blocks L P off)" "x \<notin> page_blocks L P off"
proof -
  have n: "0 < n" using block_pos [OF layout_block [OF L x(1)]] .
  have "y = x" if y: "L y = Some (m, U)" "unat P + off \<le> unat y" "unat y < unat P + (off + n)" for y m U
  proof (rule ccontr)
    assume "y \<noteq> x"
    then have "apart y m x n" by (rule layout_apart [OF L y(1) x(1)])
    then show False using y x(2) block_pos [OF layout_block [OF L y(1)]] by (auto simp: apart_def)
  qed
  then have "y \<in> page_blocks L P (off + n) \<Longrightarrow> y = x \<or> y \<in> page_blocks L P off" for y
    unfolding page_blocks_def by (cases "unat y < unat P + off") auto
  moreover have "page_blocks L P off \<subseteq> page_blocks L P (off + n)" "x \<in> page_blocks L P (off + n)"
    using x n by (auto simp: page_blocks_def)
  ultimately show "page_blocks L P (off + n) = insert x (page_blocks L P off)" by blast
  show "x \<notin> page_blocks L P off" using x by (simp add: page_blocks_def)
qed

lemma unlink_page_inv:
  assumes P: "page_of P = P" and r: "pool_of s0 T = Some r"
  shows "off \<le> 4096 \<Longrightarrow> (off < 4096 \<Longrightarrow> small L (P + word_of_nat off) T) \<Longrightarrow> all_free (objects s) P 4096 off = ret True \<Longrightarrow>
    pool_inv (page_blocks L P off) L s \<Longrightarrow> same_blocks s0 s \<Longrightarrow>
    \<exists>s'. unlink_page r P 4096 off s = ret s' \<and> pool_inv (page_blocks L P 4096) L s' \<and> same_blocks s0 s' \<and>
      heads (page_blocks L P 4096) L s' = heads (page_blocks L P off) L s"
proof (induction "4096 - off" arbitrary: off s rule: less_induct)
  case less
  have L: "layout_ok L" using less.prems(4) by (simp add: pool_inv_def)
  show ?case
  proof (cases "off < 4096")
    case False
    then have "off = 4096" using less.prems(1) by simp
    then show ?thesis using less.prems(4,5) by (subst unlink_page.simps) simp
  next
    case o: True
    obtain j where j: "j < 9" "L (P + word_of_nat off) = Some (sz j, T)" "unat (P + word_of_nat off) = unat P + off"
        "page_of (P + word_of_nat off) = P" "off + sz j \<le> 4096" "off + sz j < 4096 \<Longrightarrow> small L (P + word_of_nat (off + sz j)) T"
      using page_step [OF L P o less.prems(2) [OF o]] by metis
    let ?x = "P + word_of_nat off"
    note st = page_blocks_step [OF L j(2,3,4)]
    have mk: "marked (objects s) (tails s) ?x (sz j) T" using less.prems(4) j(2) st(2) by (auto simp: pool_inv_def labelled_def)
    show ?thesis
    proof (rule marked_small [OF mk j(1)], goal_cases)
      case (1 i)
      have size: "unat (LIST_TO_SIZE i) = sz j" using 1(3) by (simp add: sz_def)
      define s1 where "s1 = set_free_list r i (remove1 ?x (free_list r i s)) s"
      have r1: "pool_of s T = Some r" using r less.prems(5) by (simp add: same_blocks_def)
      have "?x \<in> free_blocks (page_blocks L P off) L (objects s) T i" using 1 j(2) st(2) by (simp add: free_blocks_def)
      then have "?x \<in> set (fl s T i)" using less.prems(4) 1(1) by (simp add: pool_inv_def listed_def)
      note t = take_free [OF less.prems(4) r1 this 1(1) s1_def]
      have af: "all_free (objects s1) P 4096 (off + sz j) = ret True"
        using less.prems(3) o 1 size t(3) by (subst (asm) all_free.simps) (simp add: same_blocks_def)
      have "0 < sz j" using sz_pos [of j] j(1) by simp
      then have "4096 - (off + sz j) < 4096 - off" using o by linarith
      moreover have "same_blocks s0 s1" using less.prems(5) t(3) by (auto simp: same_blocks_def)
      ultimately obtain s' where "unlink_page r P 4096 (off + sz j) s1 = ret s'" "pool_inv (page_blocks L P 4096) L s'" "same_blocks s0 s'"
          "heads (page_blocks L P 4096) L s' = heads (page_blocks L P (off + sz j)) L s1"
        using less.hyps [of "off + sz j" s1] j(5,6) af t(1) unfolding st(1) by auto
      then show ?thesis using o 1 size t(2) unfolding st(1) s1_def by (subst unlink_page.simps) simp
    next
      case (2 m)
      then show ?thesis using less.prems(3) o by (subst (asm) all_free.simps) simp
    qed
  qed
qed

section \<open>Freeing a block\<close>

text \<open>Blocks that no list holds are dropped from the layout, and their memory is given back.\<close>

lemma drop_blocks:
  assumes s: "pool_inv X L s" and L': "layout_ok L'" "L' = (\<lambda>x. if x \<in> X then None else L x)"
    and k: "keeps_in_use (\<lambda>x. x \<notin> R) (page_part s) p'" and R: "\<And>x. covered L' x \<Longrightarrow> x \<notin> R"
  shows "pool_inv {} L' (s\<lparr>page_part := p'\<rparr>)" "heads {} L' s = heads X L s" "covered L' x \<Longrightarrow> covered L x"
proof -
  show h: "heads {} L' s = heads X L s" by (auto simp: heads_def L'(2) split: if_splits)
  show "covered L' x \<Longrightarrow> covered L x" for x by (auto simp: covered_def L'(2) split: if_splits)
  have "in_memory L' (page_part s)" using s unfolding pool_inv_def in_memory_def L'(2) by (auto split: if_splits)
  then have m: "in_memory L' p'" by (rule in_memory_keeps [OF _ L'(1) k]) (rule R)
  have "labelled {} L' s" using s by (auto simp: pool_inv_def labelled_def L'(2) split: if_splits)
  moreover have "free_blocks {} L' (objects s) T i = free_blocks X L (objects s) T i" for T i by (auto simp: free_blocks_def L'(2))
  then have "listed {} L' s" using s by (simp add: pool_inv_def listed_def)
  moreover have "pooled L' s" using s by (auto simp: pool_inv_def pooled_def L'(2))
  ultimately show "pool_inv {} L' (s\<lparr>page_part := p'\<rparr>)" using s m h L'(1) by (simp add: pool_inv_def own_pools_def)
qed

lemma inside_range:
  assumes "unat a + unat B \<le> 2 ^ 64" "B \<noteq> 0"
  shows "inside a (unat B) x \<longleftrightarrow> a \<le> x \<and> x \<le> a + B - 1"
proof -
  have b1: "unat (B - 1) = unat B - 1" "0 < unat B" using assms(2) by (simp_all add: unat_minus_one unat_gt_0)
  have e: "a + B - 1 = a + (B - 1)" by simp
  have "unat a + unat (B - 1) < 2 ^ 64" using assms(1) b1 by simp
  then have "unat (a + (B - 1)) = unat a + unat (B - 1)" by (simp add: unat_word_ariths)
  then show ?thesis unfolding e inside_def word_le_nat_alt b1(1) using b1(2) by auto
qed

text \<open>What freeing the block at \<open>a\<close> leads to.\<close>

definition let_go :: "layout \<Rightarrow> u64 \<Rightarrow> 'w pool_state \<Rightarrow> 'w pool_state \<Rightarrow> bool" where
  "let_go L a s s' \<longleftrightarrow>
     (\<exists>L'. pool_inv {} L' s' \<and> heads {} L' s' = heads {} L s - {h. fst h = a} \<and> (\<forall>x. covered L' x \<longrightarrow> covered L x)) \<and>
     fully_idle (page_part s') \<and> pool_names s' = pool_names s \<and> keeps_in_use (\<lambda>x. \<not> covered L x) (page_part s) (page_part s')"

lemma head_aside:
  assumes s: "pool_inv {} L s" and a: "(a, T, m) \<in> heads {} L s" "a \<notin> own_heads s"
  shows "pool_inv {a} L s" "heads {a} L s = heads {} L s - {h. fst h = a}"
proof -
  show h: "heads {a} L s = heads {} L s - {h. fst h = a}" by (auto simp: heads_def)
  have "free_blocks {a} L (objects s) U i = free_blocks {} L (objects s) U i" for U i
    using a(1) by (auto simp: free_blocks_def heads_def)
  moreover have "own_pools {a} L s" using s a(2) unfolding pool_inv_def own_pools_def own_heads_def h by force
  ultimately show "pool_inv {a} L s" using s by (auto simp: pool_inv_def labelled_def listed_def)
qed

lemma free_pages_inv:
  assumes s: "pool_inv X L s" and p: "fully_idle (page_part s)" and L': "layout_ok (\<lambda>x. if x \<in> X then None else L x)"
    and R: "\<And>x. a \<le> x \<Longrightarrow> x \<le> a + push_bit EFI_PAGE_SHIFT n - 1 \<Longrightarrow>
      covered L x \<and> \<not> covered (\<lambda>x. if x \<in> X then None else L x) x"
  shows "holds {AssertFailed} (free_pages env a n s) (\<lambda>s'. (\<exists>L'. pool_inv {} L' s' \<and> heads {} L' s' = heads X L s \<and>
      (\<forall>x. covered L' x \<longrightarrow> covered L x)) \<and>
    fully_idle (page_part s') \<and> pool_names s' = pool_names s \<and> keeps_in_use (\<lambda>x. \<not> covered L x) (page_part s) (page_part s'))"
  unfolding free_pages_def
proof (rule holds_bind [OF CoreFreePoolPages_service [OF p]], goal_cases)
  case (1 p')
  let ?R = "{x. a \<le> x \<and> x \<le> a + push_bit EFI_PAGE_SHIFT n - 1}" and ?L = "\<lambda>x. if x \<in> X then None else L x"
  have k: "keeps_in_use (\<lambda>x. x \<notin> ?R) (page_part s) p'" using 1 by simp
  have c: "covered ?L x \<Longrightarrow> x \<notin> ?R" for x using R by blast
  note d = drop_blocks [OF s L' refl k c]
  have "keeps_in_use (\<lambda>x. \<not> covered L x) (page_part s) p'" using k R unfolding keeps_in_use_def by blast
  then show ?case using d 1 by (auto intro!: exI [of _ ?L])
qed

lemma head_to_list:
  assumes s: "pool_inv {} L s" and a: "(a, T, m) \<in> heads {} L s" "a \<notin> own_heads s" and r: "pool_of s T = Some r"
    and i: "GetPoolIndexFromSize m = i" "i < 9" and s': "s' = insert_free r i a s"
  shows "pool_inv {} L s'" "heads {} L s' = heads {} L s - {h. fst h = a}" "page_part s' = page_part s" "pool_names s' = pool_names s"
    "pool_of s' = pool_of s"
proof -
  have ok: "pools_ok s" "i < 13" using s i by (auto simp: pool_inv_def)
  note e = insert_free_effect [OF ok(1) r ok(2) s']
  have La: "L a = Some (sz i, T)" "objects s a = Some (POOL_HEAD T m)" using a(1) i by (auto simp: heads_def pool_bytes_def)
  show h: "heads {} L s' = heads {} L s - {h. fst h = a}" by (auto simp: heads_def e(6) split: if_splits)
  show "page_part s' = page_part s" "pool_names s' = pool_names s" "pool_of s' = pool_of s" by (rule e)+
  have lab: "labelled {} L s'"
    unfolding labelled_def
  proof (intro allI impI)
    fix x n U assume x: "L x = Some (n, U) \<and> x \<notin> {}"
    show "marked (objects s') (tails s') x n U"
    proof (cases "x = a")
      case True
      then show ?thesis using x La i(2) by (auto simp: marked_def e(6))
    next
      case False
      then show ?thesis using s x by (simp add: pool_inv_def labelled_def marked_def e(2,6))
    qed
  qed
  have "listed {} L s'"
    unfolding listed_def
  proof (intro allI impI)
    fix U j assume j: "j < (9 :: nat)"
    have l: "distinct (fl s U j)" "set (fl s U j) = free_blocks {} L (objects s) U j" using s j by (auto simp: pool_inv_def listed_def)
    have "free_blocks {} L (objects s') U j = (if U = T \<and> j = i then insert a (free_blocks {} L (objects s) U j) else free_blocks {} L (objects s) U j)"
      using La i(2) j index_word_eq [of i j] by (auto simp: free_blocks_def e(6))
    moreover have "a \<notin> set (fl s U j)" using La(2) l(2) by (auto simp: free_blocks_def)
    ultimately show "distinct (fl s' U j) \<and> set (fl s' U j) = free_blocks {} L (objects s') U j" using l e(7) by auto
  qed
  moreover have "own_pools {} L s'" using s a(2) e(5) unfolding pool_inv_def own_pools_def own_heads_def h by force
  ultimately show "pool_inv {} L s'" using s e(1,3,4) lab by (simp add: pool_inv_def pooled_def)
qed

lemma big_block_bytes:
  assumes "\<not> GetPoolIndexFromSize m < 9" "pool_bytes m \<noteq> 0" shows "4096 \<le> pool_bytes m"
proof -
  have "unat (push_bit EFI_PAGE_SHIFT n :: u64) mod 4096 = 0" for n
    by (simp add: push_bit_eq_mult unat_word_ariths mod_mod_cancel)
  then have "pool_bytes m mod 4096 = 0" using assms(1) by (simp add: pool_bytes_def)
  then show ?thesis using assms(2) by (metis mod_less not_le)
qed

lemma block_in_page:
  assumes L: "layout_ok L" "small L P T" "page_of P = P" and y: "L y = Some (n, U)" "inside y n x" "page_of x = P"
  shows "page_of y = P"
proof (cases "n < 4096")
  case True
  have d: "unat y + (unat x - unat y) = unat x" "unat x - unat y < n" using y(2) by (auto simp: inside_def)
  have "unat y mod 4096 + n \<le> 4096" using layout_block [OF L(1) y(1)] True by (simp add: block_ok_def)
  then have "unat y mod 4096 + (unat x - unat y) < 4096" using d(2) by linarith
  moreover have lt: "unat y + (unat x - unat y) < 2 ^ 64"
  proof -
    have "unat x < 2 ^ LENGTH(64)" by (rule unsigned_less)
    then show ?thesis using d(1) by simp
  qed
  moreover have "y + word_of_nat (unat x - unat y) = x" 
  proof (rule unsigned_word_eqI)
    show "unat (y + word_of_nat (unat x - unat y)) = unat x" by (simp only: unat_offset [OF lt] d(1))
  qed
  ultimately show ?thesis using page_of_offset y(3) by metis
next
  case False
  show ?thesis
  proof (rule ccontr)
    assume ne: "page_of y \<noteq> P"
    have y0: "unat y mod 4096 = 0" using layout_block [OF L(1) y(1)] False by (simp add: block_ok_def)
    then have "y \<noteq> P" using ne L(3) by auto
    moreover obtain i where i: "i < 9" "L P = Some (sz i, T)" using L(2) by (auto simp: small_def)
    ultimately have "apart y n P (sz i)" by (intro layout_apart [OF L(1) y(1)]) auto
    moreover have "unat P = unat x div 4096 * 4096" using y(3) unat_page_of [of x] by simp
    moreover have "unat y \<le> unat x" "unat x < unat y + n" using y(2) by (auto simp: inside_def)
    moreover have "unat y \<le> unat x div 4096 * 4096"
      using y0 \<open>unat y \<le> unat x\<close> div_le_mono [of "unat y" "unat x" 4096] div_mult_mod_eq [of "unat y" 4096] by linarith
    moreover have "unat x div 4096 * 4096 \<le> unat x" by simp
    moreover have "0 < sz i" using sz_pos [of i] i(1) by simp
    ultimately show False by (auto simp: apart_def)
  qed
qed

text \<open>A page of free blocks goes back to the page allocator.\<close>

lemma free_page_let_go:
  assumes s: "pool_inv {} L s" and p: "fully_idle (page_part s)" and P: "page_of P = P" "small L P T" and r: "pool_of s T = Some r"
    and b: "all_free (objects s) P 4096 0 = ret True"
  shows "holds {AssertFailed} (bind_run (unlink_page r P 4096 0 s) (free_pages env P 1)) (\<lambda>s'.
    (\<exists>L'. pool_inv {} L' s' \<and> heads {} L' s' = heads {} L s \<and> (\<forall>x. covered L' x \<longrightarrow> covered L x)) \<and>
    fully_idle (page_part s') \<and> pool_names s' = pool_names s \<and> keeps_in_use (\<lambda>x. \<not> covered L x) (page_part s) (page_part s'))"
proof -
  have L: "layout_ok L" using s by (simp add: pool_inv_def)
  let ?X = "page_blocks L P 4096"
  have X0: "page_blocks L P 0 = {}"
    using page_of_eq by (auto simp: page_blocks_def) (metis le_add1 not_le)
  obtain s2 where s2: "unlink_page r P 4096 0 s = ret s2" "pool_inv ?X L s2" "same_blocks s s2" "heads ?X L s2 = heads {} L s"
    using unlink_page_inv [OF P(1) r, of 0 L s] P(2) b s unfolding X0 by (auto simp: same_blocks_def)
  have "unat x < unat P + 4096" if "page_of x = P" for x
    using page_of_eq [of x] mod_less_divisor [of 4096 "unat x"] unfolding that by linarith
  then have "(if x \<in> ?X then None else L x) = (if page_of x = P then None else L x)" for x
    by (cases "L x = None") (simp_all add: page_blocks_def)
  then have e: "(\<lambda>x. if x \<in> ?X then None else L x) = (\<lambda>x. if page_of x = P then None else L x)" by (rule ext)
  have L': "layout_ok (\<lambda>x. if x \<in> ?X then None else L x)" unfolding e by (rule layout_remove_page [OF L])
  have B: "unat (push_bit EFI_PAGE_SHIFT 1 :: u64) = 4096" "(push_bit EFI_PAGE_SHIFT 1 :: u64) \<noteq> 0" by simp_all
  have R: "covered L x \<and> \<not> covered (\<lambda>x. if x \<in> ?X then None else L x) x"
    if "P \<le> x" "x \<le> P + push_bit EFI_PAGE_SHIFT 1 - 1" for x
  proof -
    have x: "inside P 4096 x" using inside_range [of P "push_bit EFI_PAGE_SHIFT 1" x] page_end [OF P(1)] B that by simp
    then have c: "covered L x" using page_covered [OF L P(1), of 0 T x] P(2) by (simp add: inside_def)
    have P0: "unat P mod 4096 = 0" using page_of_eq [of P] P(1) by simp
    then have "unat x div 4096 * 4096 = unat P"
      using x div_mult_mod_eq [of "unat P" 4096] unfolding inside_def by (auto simp: unat_page_of div_nat_eqI)
    then have "unat (page_of x) = unat P" by (simp only: unat_page_of)
    then have "page_of x = P" by (rule unsigned_word_eqI)
    then have "\<not> covered (\<lambda>x. if page_of x = P then None else L x) x"
      using block_in_page [OF L P(2,1)] unfolding covered_def by (metis option.distinct(1))
    then show ?thesis unfolding e using c by simp
  qed
  have p2: "fully_idle (page_part s2)" using p s2(3) by (simp add: same_blocks_def)
  show ?thesis
    unfolding s2(1) bind_run_simps
    by (rule holds_weaken [OF free_pages_inv [OF s2(2) p2 L' R]])
      (use s2 in \<open>auto simp: same_blocks_def\<close>)
qed

lemma free_big_block:
  assumes s: "pool_inv {} L s" and p: "fully_idle (page_part s)" and a: "(a, T, m) \<in> heads {} L s" "a \<notin> own_heads s"
    and big: "\<not> GetPoolIndexFromSize m < 9"
  shows "holds {AssertFailed} (free_block env r T m a s) (let_go L a s)"
proof -
  let ?B = "push_bit EFI_PAGE_SHIFT (EFI_SIZE_TO_PAGES m) :: u64"
  have L: "layout_ok L" using s by (simp add: pool_inv_def)
  have La: "L a = Some (unat ?B, T)" using a(1) big by (simp add: heads_def pool_bytes_def)
  have b: "0 < unat ?B" "unat a + unat ?B \<le> 2 ^ 64" using layout_block [OF L La] block_pos by (auto simp: block_ok_def)
  then have B0: "?B \<noteq> 0" by (auto simp: unat_gt_0)
  have le: "4096 \<le> unat ?B" using big_block_bytes [OF big] b(1) big by (simp add: pool_bytes_def)
  have e: "(\<lambda>x. if x \<in> {a} then None else L x) = L(a := None)" by auto
  have L': "layout_ok (\<lambda>x. if x \<in> {a} then None else L x)" unfolding e by (rule layout_remove [OF L La le])
  have R: "covered L x \<and> \<not> covered (\<lambda>x. if x \<in> {a} then None else L x) x" if "a \<le> x" "x \<le> a + ?B - 1" for x
  proof -
    have x: "inside a (unat ?B) x" using inside_range [OF b(2) B0] that by simp
    moreover have "\<not> covered (L(a := None)) x"
      using apart_inside [OF layout_apart [OF L La]] x unfolding covered_def by (metis fun_upd_apply option.distinct(1))
    ultimately show ?thesis unfolding e using La by (auto simp: covered_def)
  qed
  note h = head_aside [OF s a]
  show ?thesis
    unfolding free_block_def Let_def index_page(2) lists_of_page pages_of_size
    unfolding if_P [OF big [unfolded not_less]]
    by (rule holds_weaken [OF free_pages_inv [OF h(1) p L' R]]) (use h(2) in \<open>auto simp: let_go_def\<close>)
qed

lemma free_block_let_go:
  assumes s: "pool_inv {} L s" and p: "fully_idle (page_part s)" and a: "(a, T, m) \<in> heads {} L s" "a \<notin> own_heads s"
    and r: "pool_of s T = Some r"
  shows "holds {AssertFailed} (free_block env r T m a s) (let_go L a s)"
proof (cases "GetPoolIndexFromSize m < 9")
  case False
  then show ?thesis by (rule free_big_block [OF s p a])
next
  case I: True
  let ?P = "page_of a" and ?s = "insert_free r (GetPoolIndexFromSize m) a s"
  have L: "layout_ok L" using s by (simp add: pool_inv_def)
  have P: "page_of ?P = ?P" by (rule page_of_self) (simp add: unat_page_of)
  have La: "L a = Some (sz (GetPoolIndexFromSize m), T)" using a(1) I by (simp add: heads_def pool_bytes_def)
  then have sP: "small L ?P T" using layout_block [OF L La] small_lt [OF I] by (simp add: block_ok_def)
  note i = head_to_list [OF s a r refl I refl]
  have lab: "labelled {} L ?s" using i(1) by (simp add: pool_inv_def)
  have p1: "fully_idle (page_part ?s)" using p i(3) by simp
  have done1: "let_go L a s ?s" using i p unfolding let_go_def by (auto simp: keeps_in_use_def)
  obtain b where b: "all_free (objects ?s) ?P 4096 0 = ret b" using all_free_returns [OF L P lab, of 0 T] sP by auto
  have r1: "pool_of ?s T = Some r" using r i(5) by simp
  have step: "holds {AssertFailed} (bind_run (unlink_page r ?P 4096 0 ?s) (free_pages env ?P 1)) (let_go L a s)" if "b"
    by (rule holds_weaken [OF free_page_let_go [OF i(1) p1 P sP r1]]) (use b that i in \<open>auto simp: let_go_def\<close>)
  have g: "unat EFI_PAGE_SIZE = 4096" "a AND NOT (EFI_PAGE_SIZE - 1) = ?P" by (simp_all add: page_of_def)
  show ?thesis
    unfolding free_block_def Let_def index_page(2) lists_of_page pages_of_size g
    using I done1 step by (auto simp: b)
qed

end
