(* ===== verification/PoolRuns.thy ===== *)
theory PoolRuns
  imports PoolFree
begin

text \<open>
  The pool and the page services together: programs that allocate and free buffers and pages, what they hold, and that no
  memory is given out twice.
\<close>

section \<open>CoreFreePoolI\<close>

lemma pool_type_of:
  assumes "pools_ok s" "pool_of s T = Some (PoolOnList a)"
  shows "MemoryType (get_pool (PoolOnList a) s) = T" "(a, T) \<in> set (pool_names s)"
proof -
  obtain P where P: "(a, P) \<in> set (mPoolHeadList s)" "MemoryType P = T"
    using assms(2) by (auto simp: pool_of_def split: if_splits dest!: find_mem)
  then have "map_of (mPoolHeadList s) a = Some P" using assms(1) by (simp add: pools_ok_def)
  then show "MemoryType (get_pool (PoolOnList a) s) = T" using P by (simp add: get_pool_def)
  show "(a, T) \<in> set (pool_names s)" using P by (force simp: pool_names_def)
qed

lemma world_before [simp]: "keeps_in_use P (p\<lparr>pworld := w\<rparr>) q = keeps_in_use P p q"
  by (simp add: keeps_in_use_def)

lemma head_facts:
  assumes s: "pool_inv {} L s" and a: "(a, T, m) \<in> heads {} L s"
  obtains r where "objects s a = Some (POOL_HEAD T m)" "tails s (a + m - sizeof_POOL_TAIL) = Some m" "pool_of s T = Some r"
    "40 \<le> unat m" "unat m \<le> pool_bytes m" "L a = Some (pool_bytes m, T)" "unat a + pool_bytes m \<le> 2 ^ 64" "a \<noteq> 0"
proof -
  have La: "L a = Some (pool_bytes m, T)" "objects s a = Some (POOL_HEAD T m)" using a by (auto simp: heads_def)
  then have mk: "marked (objects s) (tails s) a (pool_bytes m) T" "pool_of s T \<noteq> None" and b: "block_ok L a (pool_bytes m) T"
    using s layout_block by (auto simp: pool_inv_def labelled_def pooled_def)
  then show thesis using that La by (auto simp: marked_def block_ok_def)
qed

lemma used_and_cleared:
  assumes s: "pool_inv {} L s" and r: "pool_of s T = Some r"
    and s0: "s0 = clear_memory env a n (update_pool r (\<lambda>P. P\<lparr>Used := g P\<rparr>) s)"
  shows "pool_inv {} L s0" "heads {} L s0 = heads {} L s" "pool_names s0 = pool_names s" "pool_of s0 = pool_of s"
    "\<exists>w. page_part s0 = (page_part s)\<lparr>pworld := w\<rparr>"
proof -
  have ok: "pools_ok s" using s by (simp add: pool_inv_def)
  note u = used_fl [OF ok r, of g]
  let ?s = "update_pool r (\<lambda>P. P\<lparr>Used := g P\<rparr>) s"
  have i: "pool_inv {} L ?s" by (rule pool_inv_same [OF u s])
  have "in_memory L ((page_part ?s)\<lparr>pworld := w\<rparr>)" for w using i by (simp add: pool_inv_def)
  then show "pool_inv {} L s0" using i by (simp add: s0 clear_memory_def pool_inv_def)
  show "heads {} L s0 = heads {} L s" using same_blocks_heads [OF u(1), of "{}" L] by (simp add: s0 clear_memory_def)
  show "pool_names s0 = pool_names s" "pool_of s0 = pool_of s" "\<exists>w. page_part s0 = (page_part s)\<lparr>pworld := w\<rparr>"
    using u(1) by (auto simp: s0 clear_memory_def same_blocks_def)
qed

lemma CoreFreePoolI_run:
  assumes s: "pool_inv {} L s" and p: "fully_idle (page_part s)" and a: "(a, T, m) \<in> heads {} L s" "a \<notin> own_heads s"
  obtains r s0 k where "CoreFreePoolI env (a + SIZE_OF_POOL_HEAD) s = bind_run (free_block env r T m a s0) k"
    and "holds {AssertFailed} (free_block env r T m a s0) (let_go L a s)" and "page_inv (page_part s0)"
    and "\<forall>s2. let_go L a s s2 \<longrightarrow> k s2 = ret (EFI_SUCCESS, s2)"
proof -
  obtain r where h: "objects s a = Some (POOL_HEAD T m)" "tails s (a + m - sizeof_POOL_TAIL) = Some m" "pool_of s T = Some r"
      "40 \<le> unat m" "unat m \<le> pool_bytes m" "L a = Some (pool_bytes m, T)" "unat a + pool_bytes m \<le> 2 ^ 64" "a \<noteq> 0"
    using head_facts [OF s a(1)] by metis
  have u: "unat (a + SIZE_OF_POOL_HEAD) = unat a + 24" using h(4,5,7) by (simp add: unat_word_ariths)
  then have nz: "a + SIZE_OF_POOL_HEAD \<noteq> NULL" by (metis unat_0 add_eq_0_iff_both_eq_0 zero_neq_numeral)
  define s0 where "s0 = clear_memory env a m (update_pool r (\<lambda>P. P\<lparr>Used := Used P - m\<rparr>) s)"
  note c = used_and_cleared [OF s h(3) s0_def]
  obtain w where w: "page_part s0 = (page_part s)\<lparr>pworld := w\<rparr>" using c(5) by blast
  have "holds {AssertFailed} (free_block env r T m a s0) (let_go L a s0)"
    by (rule free_block_let_go [OF c(1)]) (use p a h(3) c(2-4) w in \<open>auto simp: own_heads_def\<close>)
  then have f: "holds {AssertFailed} (free_block env r T m a s0) (let_go L a s)"
    by (rule holds_weaken) (simp add: let_go_def c(2,3) w)
  have stay: "MemoryType (get_pool r s2) < 0x80000000" if g: "let_go L a s s2" "r = PoolOnList b" for s2 b
  proof -
    obtain L' where L': "pool_inv {} L' s2" and n: "pool_names s2 = pool_names s" using g(1) by (auto simp: let_go_def)
    then have "pools_ok s2" "pool_of s2 T = Some (PoolOnList b)" using h(3) g(2) pool_of_names [OF n] by (auto simp: pool_inv_def)
    note t = pool_type_of [OF this]
    then show ?thesis using L' g(2) by (auto simp: pool_inv_def own_pools_def)
  qed
  have lock: "gMemoryLock (page_part s)" using p by (simp add: fully_idle_def)
  have run: "CoreFreePoolI env (a + SIZE_OF_POOL_HEAD) s =
      bind_run (free_block env r T m a s0) (\<lambda>s2. case r of
        PoolOnList b \<Rightarrow>
          if MemoryType (get_pool r s2) \<ge> 0x80000000 \<and> Used (get_pool r s2) = 0 then
            bind_run (CoreFreePoolI env b (s2\<lparr>mPoolHeadList := filter (\<lambda>(c, P). c \<noteq> b) (mPoolHeadList s2)\<rparr>))
              (\<lambda>(Status, s3). ret (EFI_SUCCESS, s3))
          else ret (EFI_SUCCESS, s2)
      | PoolHead i \<Rightarrow> ret (EFI_SUCCESS, s2))"
    by (subst CoreFreePoolI.simps) (use nz h lock in \<open>simp add: Let_def LookupPoolHead_def lookup_found s0_def\<close>)
  have inv0: "page_inv (page_part s0)" using p w world_irrelevant(1) [of w "page_part s"] by (simp add: fully_idle_def)
  show thesis
    by (rule that [OF run f inv0]) (use stay in \<open>auto split: pool_ref.split simp: not_le [symmetric]\<close>)
qed

lemma CoreFreePoolI_let_go:
  assumes s: "pool_inv {} L s" and p: "fully_idle (page_part s)" and a: "(a, T, m) \<in> heads {} L s" "a \<notin> own_heads s"
  shows "holds {AssertFailed} (CoreFreePoolI env (a + SIZE_OF_POOL_HEAD) s) (\<lambda>(Status, s'). Status = EFI_SUCCESS \<and> let_go L a s s')"
proof (rule CoreFreePoolI_run [OF s p a, of env])
  fix r s0 k
  assume r: "CoreFreePoolI env (a + SIZE_OF_POOL_HEAD) s = bind_run (free_block env r T m a s0) k"
    and f: "holds {AssertFailed} (free_block env r T m a s0) (let_go L a s)"
    and k: "\<forall>s2. let_go L a s s2 \<longrightarrow> k s2 = ret (EFI_SUCCESS, s2)"
  show ?thesis unfolding r by (rule holds_bind [OF f]) (use k in simp)
qed

section \<open>The services\<close>

lemma lock_in_use [simp]:
  "keeps_in_use P (p\<lparr>gMemoryLock := b\<rparr>) q = keeps_in_use P p q" "keeps_in_use P p (q\<lparr>gMemoryLock := b\<rparr>) = keeps_in_use P p q"
  "in_memory L (p\<lparr>gMemoryLock := b\<rparr>) = in_memory L p"
  by (simp_all add: keeps_in_use_def in_memory_def)

lemma pool_inv_lock [simp]:
  "pool_inv X L (s\<lparr>page_part := (page_part s)\<lparr>gMemoryLock := b\<rparr>\<rparr>) = pool_inv X L s"
  by (simp add: pool_inv_def)

text \<open>What an allocation leaves behind, between two services.\<close>

definition pool_given :: "layout \<Rightarrow> 'w pool_state \<Rightarrow> u32 \<Rightarrow> u64 \<Rightarrow> efi_status \<times> u64 option \<times> 'w pool_state \<Rightarrow> bool" where
  "pool_given L s T Size r \<longleftrightarrow>
     (case r of (Status, B, s') \<Rightarrow>
        page_idle (page_part s') \<and> keeps_in_use (\<lambda>_. True) (page_part s) (page_part s') \<and>
        (\<exists>L'. pool_inv {} L' s' \<and> heads {} L s \<subseteq> heads {} L' s' \<and> own_heads s' \<inter> fst ` heads {} L s \<subseteq> own_heads s \<and>
          (\<forall>x. covered L' x \<longrightarrow> covered L x \<or> available (page_part s) x) \<and>
          (Status = EFI_SUCCESS \<longrightarrow> (\<exists>b m. B = Some b \<and> (b - SIZE_OF_POOL_HEAD, T, m) \<in> heads {} L' s' \<and> unat Size + 40 \<le> unat m \<and>
             b - SIZE_OF_POOL_HEAD \<notin> fst ` heads {} L s \<and> b - SIZE_OF_POOL_HEAD \<notin> own_heads s'))))"

lemma own_heads_page [simp]: "own_heads (s\<lparr>page_part := p\<rparr>) = own_heads s"
  by (simp add: own_heads_def)

lemma acquire_pool: "page_idle (page_part s) \<Longrightarrow> lock_pages CoreAcquireMemoryLock s = ret (s\<lparr>page_part := (page_part s)\<lparr>gMemoryLock := True\<rparr>\<rparr>)"
  by (simp add: lock_pages_def CoreAcquireMemoryLock_def page_idle_def)

lemma release_pool: "fully_idle (page_part s) \<Longrightarrow> lock_pages CoreReleaseMemoryLock s = ret (s\<lparr>page_part := (page_part s)\<lparr>gMemoryLock := False\<rparr>\<rparr>)"
  by (simp add: lock_pages_def CoreReleaseMemoryLock_def fully_idle_def)

lemma CoreInternalAllocatePool_given:
  assumes s: "pool_inv {} L s" and p: "page_idle (page_part s)" and T: "T < 0x80000000" and Size: "Size \<le> 0xFFFFFFFFFFFFFFD0"
  shows "holds {AssertFailed} (CoreInternalAllocatePool env T Size null s) (pool_given L s T Size)"
proof -
  have none: "pool_given L s T Size (Status, B, s)" if "Status \<noteq> EFI_SUCCESS" for Status B
    using that s p by (auto simp: pool_given_def keeps_in_use_def)
  let ?s = "s\<lparr>page_part := (page_part s)\<lparr>gMemoryLock := True\<rparr>\<rparr>"
  have s1: "pool_inv {} L ?s" "fully_idle (page_part ?s)" using s lock_idle(1) [OF p] by simp_all
  have "holds {AssertFailed} (bind_run (CoreAllocatePoolI env T Size ?s) (\<lambda>(Buffer, s2).
      bind_run (lock_pages CoreReleaseMemoryLock s2) (\<lambda>s3.
        ret (if Buffer \<noteq> NULL then EFI_SUCCESS else EFI_OUT_OF_RESOURCES, Some Buffer, s3)))) (pool_given L s T Size)"
    if c: "T \<noteq> EfiConventionalMemory"
  proof (rule holds_bind [OF CoreAllocatePoolI_given [OF s1 c T Size]], goal_cases)
    case (1 x)
    obtain b s2 where x: "x = (b, s2)" by (cases x)
    obtain L' where L': "pool_inv {} L' s2" "advances L (page_part ?s) L' (page_part s2)" "heads {} L ?s \<subseteq> heads {} L' s2"
        "own_heads s2 \<inter> fst ` heads {} L ?s \<subseteq> own_heads ?s"
        "b \<noteq> NULL \<longrightarrow> (\<exists>m. (b - SIZE_OF_POOL_HEAD, T, m) \<in> heads {} L' s2 \<and> unat Size + 40 \<le> unat m) \<and>
           b - SIZE_OF_POOL_HEAD \<notin> fst ` heads {} L ?s \<and> b - SIZE_OF_POOL_HEAD \<notin> own_heads s2"
      using 1 unfolding x given_def pool_safe_def prod.case by blast
    have f: "fully_idle (page_part s2)" using L'(2) by (simp add: advances_def)
    show ?case
      unfolding x prod.case release_pool [OF f] bind_run_simps holds_simps pool_given_def
      using L' lock_idle(2) [OF f] by (auto simp: advances_def intro!: exI [of _ L'])
  qed
  then show ?thesis
    unfolding CoreInternalAllocatePool_def acquire_pool [OF p] bind_run_simps
    by (intro holds_if) (use none in auto)
qed

lemma profile_in_memory [simp]: "in_memory L (update_profile env act T n b p) = in_memory L p"
  by (simp add: in_memory_def)

lemma pool_profile_irrelevant [simp]:
  "pool_inv X L (pool_profile env act T n b s) = pool_inv X L s" "heads X L (pool_profile env act T n b s) = heads X L s"
  "own_heads (pool_profile env act T n b s) = own_heads s" "page_idle (page_part (pool_profile env act T n b s)) = page_idle (page_part s)"
  "keeps_in_use P p (page_part (pool_profile env act T n b s)) = keeps_in_use P p (page_part s)"
  "pool_names (pool_profile env act T n b s) = pool_names s"
  by (simp_all add: pool_profile_def pool_inv_def)

lemma CoreAllocatePool_given:
  assumes "pool_inv {} L s" "page_idle (page_part s)" "T < 0x80000000" "Size \<le> 0xFFFFFFFFFFFFFFD0"
  shows "holds {AssertFailed} (CoreAllocatePool env T Size null s) (pool_given L s T Size)"
  unfolding CoreAllocatePool_def
  by (rule holds_bind [OF CoreInternalAllocatePool_given [OF assms]]) (auto simp: pool_given_def split_beta)

text \<open>What freeing leaves behind.\<close>

definition pool_freed :: "layout \<Rightarrow> u64 \<Rightarrow> 'w pool_state \<Rightarrow> efi_status \<times> 'w pool_state \<Rightarrow> bool" where
  "pool_freed L a s r \<longleftrightarrow>
     (case r of (Status, s') \<Rightarrow>
        Status = EFI_SUCCESS \<and> page_idle (page_part s') \<and> own_heads s' = own_heads s \<and>
        keeps_in_use (\<lambda>x. \<not> covered L x) (page_part s) (page_part s') \<and>
        (\<exists>L'. pool_inv {} L' s' \<and> heads {} L' s' = heads {} L s - {h. fst h = a} \<and> (\<forall>x. covered L' x \<longrightarrow> covered L x)))"

lemma CoreInternalFreePool_freed:
  assumes s: "pool_inv {} L s" and p: "page_idle (page_part s)"
    and b: "(b - SIZE_OF_POOL_HEAD, T, m) \<in> heads {} L s" "b - SIZE_OF_POOL_HEAD \<notin> own_heads s"
  shows "holds {AssertFailed} (CoreInternalFreePool env b s) (pool_freed L (b - SIZE_OF_POOL_HEAD) s)"
proof -
  let ?s = "s\<lparr>page_part := (page_part s)\<lparr>gMemoryLock := True\<rparr>\<rparr>" and ?a = "b - SIZE_OF_POOL_HEAD"
  have s1: "pool_inv {} L ?s" "fully_idle (page_part ?s)" using s lock_idle(1) [OF p] by simp_all
  have h: "(?a, T, m) \<in> heads {} L ?s" "?a \<notin> own_heads ?s" using b by simp_all
  obtain r where f: "40 \<le> unat m" "unat m \<le> pool_bytes m" "unat ?a + pool_bytes m \<le> 2 ^ 64"
    using head_facts [OF s b(1)] by metis
  have e: "unat (x + 24 :: u64) = unat x + 24" if "unat x + 24 < 2 ^ 64" for x using that by (simp add: unat_word_ariths)
  have "unat ?a + 24 < 2 ^ 64" using f by linarith
  from e [OF this] have "unat b = unat ?a + 24" by simp
  then have nz: "b \<noteq> NULL" by (metis unat_0 add_eq_0_iff_both_eq_0 zero_neq_numeral)
  note F = CoreFreePoolI_let_go [OF s1 h, of env]
  have F': "holds {AssertFailed} (CoreFreePoolI env b ?s) (\<lambda>(Status, s'). Status = EFI_SUCCESS \<and> let_go L ?a ?s s')"
    using F by simp
  show ?thesis
    unfolding CoreInternalFreePool_def if_not_P [OF nz] acquire_pool [OF p] bind_run_simps
  proof (rule holds_bind [OF F'], goal_cases)
    case (1 x)
    obtain st s2 where x: "x = (st, s2)" by (cases x)
    have g: "st = EFI_SUCCESS" "let_go L ?a ?s s2" using 1 by (auto simp: x)
    then have i: "fully_idle (page_part s2)" by (simp add: let_go_def)
    show ?case
      unfolding x prod.case release_pool [OF i] bind_run_simps holds_simps pool_freed_def
      using g lock_idle(2) [OF i] by (auto simp: let_go_def own_heads_def)
  qed
qed

lemma CoreFreePool_freed:
  assumes "pool_inv {} L s" "page_idle (page_part s)"
    "(b - SIZE_OF_POOL_HEAD, T, m) \<in> heads {} L s" "b - SIZE_OF_POOL_HEAD \<notin> own_heads s"
  shows "holds {AssertFailed} (CoreFreePool env b s) (pool_freed L (b - SIZE_OF_POOL_HEAD) s)"
  unfolding CoreFreePool_def
  by (rule holds_bind [OF CoreInternalFreePool_freed [OF assms]]) (auto simp: pool_freed_def split_beta)

section \<open>Programs over the memory services\<close>

text \<open>
  What a program holds: buffers of the pool, with type and size, and the addresses of pages.  It frees what it holds, and nothing
  else.  (A request of more than 0xFFFFFFFFFFFFFFD0 bytes, whose size would wrap around, is left out, and so are the types
  of operating systems, whose pools are taken off the list again.)
\<close>

record 'w memory_program =
  held :: "u64 \<Rightarrow> (u32 \<times> u64) option"
  pages_held :: "u64 set"
  memory :: "'w pool_state"

abbreviation page_range :: "u64 \<Rightarrow> u64 \<Rightarrow> u64 set" where
  "page_range S n \<equiv> {x. S \<le> x \<and> x \<le> S + push_bit EFI_PAGE_SHIFT n - 1}"

inductive memory_step :: "'w page_env \<Rightarrow> 'w memory_program \<Rightarrow> 'w memory_program \<Rightarrow> bool" for env where
  pool_allocated: "T < 0x80000000 \<Longrightarrow> Size \<le> 0xFFFFFFFFFFFFFFD0 \<Longrightarrow>
    CoreAllocatePool env T Size null (memory c) = ret (EFI_SUCCESS, Some b, s') \<Longrightarrow>
    memory_step env c (c\<lparr>held := (held c)(b \<mapsto> (T, Size)), memory := s'\<rparr>)"
| pool_refused: "T < 0x80000000 \<Longrightarrow> Size \<le> 0xFFFFFFFFFFFFFFD0 \<Longrightarrow>
    CoreAllocatePool env T Size null (memory c) = ret (Status, B, s') \<Longrightarrow> Status \<noteq> EFI_SUCCESS \<Longrightarrow>
    memory_step env c (c\<lparr>memory := s'\<rparr>)"
| pool_given_back: "held c b \<noteq> None \<Longrightarrow> CoreFreePool env b (memory c) = ret (Status, s') \<Longrightarrow>
    memory_step env c (c\<lparr>held := (held c)(b := None), memory := s'\<rparr>)"
| pages_allocated: "CoreAllocatePages env AT T n Mem (page_part (memory c)) = ret (EFI_SUCCESS, Some S, p') \<Longrightarrow>
    memory_step env c (c\<lparr>pages_held := pages_held c \<union> page_range S n, memory := (memory c)\<lparr>page_part := p'\<rparr>\<rparr>)"
| pages_refused: "CoreAllocatePages env AT T n Mem (page_part (memory c)) = ret (Status, B, p') \<Longrightarrow> Status \<noteq> EFI_SUCCESS \<Longrightarrow>
    memory_step env c (c\<lparr>memory := (memory c)\<lparr>page_part := p'\<rparr>\<rparr>)"
| pages_given_back: "page_range S n \<subseteq> pages_held c \<Longrightarrow> CoreFreePages env S n (page_part (memory c)) = ret (Status, p') \<Longrightarrow>
    memory_step env c (c\<lparr>pages_held := pages_held c - page_range S n, memory := (memory c)\<lparr>page_part := p'\<rparr>\<rparr>)"

inductive memory_reach :: "'w page_env \<Rightarrow> 'w pool_state \<Rightarrow> 'w memory_program \<Rightarrow> bool" for env s0 where
  at_start: "memory_reach env s0 \<lparr>held = Map.empty, pages_held = {}, memory = s0\<rparr>"
| one_more: "memory_reach env s0 c \<Longrightarrow> memory_step env c c' \<Longrightarrow> memory_reach env s0 c'"

text \<open>The invariant of a program.\<close>

definition buffers_ok :: "layout \<Rightarrow> 'w memory_program \<Rightarrow> bool" where
  "buffers_ok L c \<longleftrightarrow>
     (\<forall>b T n. held c b = Some (T, n) \<longrightarrow>
        b - SIZE_OF_POOL_HEAD \<notin> own_heads (memory c) \<and>
        (\<exists>m. (b - SIZE_OF_POOL_HEAD, T, m) \<in> heads {} L (memory c) \<and> unat n + 40 \<le> unat m))"

definition pages_ok :: "layout \<Rightarrow> 'w memory_program \<Rightarrow> bool" where
  "pages_ok L c \<longleftrightarrow>
     (\<forall>x\<in>pages_held c. \<not> covered L x \<and> (\<exists>T A. T \<noteq> EfiConventionalMemory \<and> owner (page_part (memory c)) x = {#(T, A)#}))"

definition program_ok :: "'w memory_program \<Rightarrow> bool" where
  "program_ok c \<longleftrightarrow>
     page_idle (page_part (memory c)) \<and> (\<exists>L. pool_inv {} L (memory c) \<and> buffers_ok L c \<and> pages_ok L c)"

lemma idle_inv: "page_idle p \<Longrightarrow> page_inv p"
  by (simp add: page_idle_def)

text \<open>An allocation from the pool, granted or not.\<close>

lemma pool_step_ok:
  assumes c: "page_idle (page_part (memory c))" "pool_inv {} L (memory c)" "buffers_ok L c" "pages_ok L c"
    and g: "pool_given L (memory c) T Size (Status, B, s')"
    and h: "h = held c \<and> Status \<noteq> EFI_SUCCESS \<or> Status = EFI_SUCCESS \<and> (\<exists>b. B = Some b \<and> h = (held c)(b \<mapsto> (T, Size)))"
  shows "program_ok (c\<lparr>held := h, memory := s'\<rparr>)"
proof -
  obtain L' where L': "page_idle (page_part s')" "keeps_in_use (\<lambda>_. True) (page_part (memory c)) (page_part s')" "pool_inv {} L' s'"
      "heads {} L (memory c) \<subseteq> heads {} L' s'" "own_heads s' \<inter> fst ` heads {} L (memory c) \<subseteq> own_heads (memory c)"
      "\<forall>x. covered L' x \<longrightarrow> covered L x \<or> available (page_part (memory c)) x"
      "Status = EFI_SUCCESS \<longrightarrow> (\<exists>b m. B = Some b \<and> (b - SIZE_OF_POOL_HEAD, T, m) \<in> heads {} L' s' \<and> unat Size + 40 \<le> unat m \<and>
         b - SIZE_OF_POOL_HEAD \<notin> fst ` heads {} L (memory c) \<and> b - SIZE_OF_POOL_HEAD \<notin> own_heads s')"
    using g unfolding pool_given_def prod.case by blast
  have old: "b - SIZE_OF_POOL_HEAD \<notin> own_heads s' \<and>
      (\<exists>m. (b - SIZE_OF_POOL_HEAD, U, m) \<in> heads {} L' s' \<and> unat n + 40 \<le> unat m)" if "held c b = Some (U, n)" for b U n
  proof -
    obtain m where m: "b - SIZE_OF_POOL_HEAD \<notin> own_heads (memory c)" "(b - SIZE_OF_POOL_HEAD, U, m) \<in> heads {} L (memory c)"
        "unat n + 40 \<le> unat m" using c(3) \<open>held c b = Some (U, n)\<close> unfolding buffers_ok_def by blast
    have "b - SIZE_OF_POOL_HEAD \<in> fst ` heads {} L (memory c)" using m(2) by force
    then show ?thesis using m L'(4,5) by blast
  qed
  have "buffers_ok L' (c\<lparr>held := h, memory := s'\<rparr>)"
    using h
  proof (elim disjE conjE exE)
    assume "h = held c"
    then show ?thesis using old by (simp add: buffers_ok_def)
  next
    fix b assume "Status = EFI_SUCCESS" "B = Some b" "h = (held c)(b \<mapsto> (T, Size))"
    then show ?thesis using old L'(7) by (auto simp: buffers_ok_def split: if_splits)
  qed
  moreover have "pages_ok L' (c\<lparr>held := h, memory := s'\<rparr>)"
    unfolding pages_ok_def
  proof
    fix x assume "x \<in> pages_held (c\<lparr>held := h, memory := s'\<rparr>)"
    then obtain U A where o: "\<not> covered L x" "U \<noteq> EfiConventionalMemory" "owner (page_part (memory c)) x = {#(U, A)#}"
      using c(4) by (auto simp: pages_ok_def)
    then have "\<not> available (page_part (memory c)) x" using in_use_not_available [OF idle_inv [OF c(1)]] by blast
    then have "\<not> covered L' x" using L'(6) o(1) by blast
    moreover have "owner (page_part s') x = {#(U, A)#}" using L'(2) o(2,3) unfolding keeps_in_use_def by blast
    ultimately show "\<not> covered L' x \<and> (\<exists>T A. T \<noteq> EfiConventionalMemory \<and>
        owner (page_part (memory (c\<lparr>held := h, memory := s'\<rparr>))) x = {#(T, A)#})" using o(2) by auto
  qed
  ultimately show ?thesis using L'(1,3) by (auto simp: program_ok_def)
qed

lemma free_step_ok:
  assumes c: "page_idle (page_part (memory c))" "pool_inv {} L (memory c)" "buffers_ok L c" "pages_ok L c"
    and f: "pool_freed L (b - SIZE_OF_POOL_HEAD) (memory c) (Status, s')"
  shows "program_ok (c\<lparr>held := (held c)(b := None), memory := s'\<rparr>)"
proof -
  obtain L' where L': "page_idle (page_part s')" "own_heads s' = own_heads (memory c)"
      "keeps_in_use (\<lambda>x. \<not> covered L x) (page_part (memory c)) (page_part s')" "pool_inv {} L' s'"
      "heads {} L' s' = heads {} L (memory c) - {h. fst h = b - SIZE_OF_POOL_HEAD}" "\<forall>x. covered L' x \<longrightarrow> covered L x"
    using f unfolding pool_freed_def prod.case by blast
  have "buffers_ok L' (c\<lparr>held := (held c)(b := None), memory := s'\<rparr>)"
    using c(3) by (auto simp: buffers_ok_def L'(2,5))
  moreover have "pages_ok L' (c\<lparr>held := (held c)(b := None), memory := s'\<rparr>)"
    using c(4) L'(3,6) by (fastforce simp: pages_ok_def keeps_in_use_def)
  ultimately show ?thesis using L'(1,4) by (auto simp: program_ok_def)
qed

text \<open>A page service that leaves what is in use outside \<open>R\<close> as it was.\<close>

lemma page_service_ok:
  assumes c: "page_idle (page_part (memory c))" "pool_inv {} L (memory c)" "buffers_ok L c" "pages_ok L c"
    and k: "keeps_in_use (\<lambda>x. x \<notin> R) (page_part (memory c)) p'" "page_idle p'" and R: "R \<subseteq> pages_held c"
    and G: "G \<subseteq> pages_held c - R \<or> R = {} \<and> G \<subseteq> pages_held c \<union> N \<and>
      (\<forall>x\<in>N. available (page_part (memory c)) x \<and> (\<exists>T A. T \<noteq> EfiConventionalMemory \<and> owner p' x = {#(T, A)#}))"
  shows "program_ok (c\<lparr>pages_held := G, memory := (memory c)\<lparr>page_part := p'\<rparr>\<rparr>)"
proof -
  have L: "layout_ok L" "in_memory L (page_part (memory c))" using c(2) by (auto simp: pool_inv_def)
  have "x \<notin> R" if "covered L x" for x using R c(4) that by (auto simp: pages_ok_def)
  then have "in_memory L p'" by (rule in_memory_keeps [OF L(2,1) k(1)])
  then have "pool_inv {} L ((memory c)\<lparr>page_part := p'\<rparr>)" using c(2) by (simp add: pool_inv_def)
  moreover have "buffers_ok L (c\<lparr>pages_held := G, memory := (memory c)\<lparr>page_part := p'\<rparr>\<rparr>)" using c(3) by (simp add: buffers_ok_def)
  moreover have "pages_ok L (c\<lparr>pages_held := G, memory := (memory c)\<lparr>page_part := p'\<rparr>\<rparr>)"
    unfolding pages_ok_def
  proof
    fix x assume "x \<in> pages_held (c\<lparr>pages_held := G, memory := (memory c)\<lparr>page_part := p'\<rparr>\<rparr>)"
    then consider "x \<in> pages_held c" "x \<notin> R" | "R = {}" "x \<in> N" "available (page_part (memory c)) x"
        "\<exists>T A. T \<noteq> EfiConventionalMemory \<and> owner p' x = {#(T, A)#}" using G by auto
    then show "\<not> covered L x \<and> (\<exists>T A. T \<noteq> EfiConventionalMemory \<and>
        owner (page_part (memory (c\<lparr>pages_held := G, memory := (memory c)\<lparr>page_part := p'\<rparr>\<rparr>))) x = {#(T, A)#})"
    proof cases
      case 1
      then show ?thesis using c(4) k(1) by (fastforce simp: pages_ok_def keeps_in_use_def)
    next
      case 2
      then show ?thesis using covered_in_use [OF L(2,1) idle_inv [OF c(1)]] by auto
    qed
  qed
  ultimately show ?thesis using k(2) by (auto simp: program_ok_def)
qed

lemma memory_step_ok: "memory_step env c c' \<Longrightarrow> program_ok c \<Longrightarrow> program_ok c'"
proof (induction rule: memory_step.induct)
  case (pool_allocated T Size null c b s')
  then obtain L where c: "page_idle (page_part (memory c))" "pool_inv {} L (memory c)" "buffers_ok L c" "pages_ok L c"
    by (auto simp: program_ok_def)
  have "pool_given L (memory c) T Size (EFI_SUCCESS, Some b, s')"
    using CoreAllocatePool_given [OF c(2,1) pool_allocated.hyps(1,2), of env null] pool_allocated.hyps(3) by simp
  then show ?case by (rule pool_step_ok [OF c]) simp
next
  case (pool_refused T Size null c Status B s')
  then obtain L where c: "page_idle (page_part (memory c))" "pool_inv {} L (memory c)" "buffers_ok L c" "pages_ok L c"
    by (auto simp: program_ok_def)
  have "pool_given L (memory c) T Size (Status, B, s')"
    using CoreAllocatePool_given [OF c(2,1) pool_refused.hyps(1,2), of env null] pool_refused.hyps(3) by simp
  from pool_step_ok [OF c this, of "held c"] show ?case using pool_refused.hyps(4) by simp
next
  case (pool_given_back c b Status s')
  then obtain L where c: "page_idle (page_part (memory c))" "pool_inv {} L (memory c)" "buffers_ok L c" "pages_ok L c"
    by (auto simp: program_ok_def)
  obtain T n where "held c b = Some (T, n)" using pool_given_back.hyps(1) by auto
  then obtain m where h: "b - SIZE_OF_POOL_HEAD \<notin> own_heads (memory c)" "(b - SIZE_OF_POOL_HEAD, T, m) \<in> heads {} L (memory c)"
    using c(3) unfolding buffers_ok_def by blast
  have "pool_freed L (b - SIZE_OF_POOL_HEAD) (memory c) (Status, s')"
    using CoreFreePool_freed [OF c(2,1) h(2,1), of env] pool_given_back.hyps(2) by simp
  then show ?case by (rule free_step_ok [OF c])
next
  case (pages_allocated AT T n Mem c S p')
  then obtain L where c: "page_idle (page_part (memory c))" "pool_inv {} L (memory c)" "buffers_ok L c" "pages_ok L c"
    by (auto simp: program_ok_def)
  have a: "allocated T n (page_part (memory c)) (EFI_SUCCESS, Some S, p')"
    using CoreAllocatePages_allocated [OF c(1), of env AT T n Mem] pages_allocated.hyps by simp
  have T: "T \<noteq> EfiConventionalMemory"
  proof
    assume "T = EfiConventionalMemory"
    then show False using pages_allocated.hyps by (auto simp: CoreAllocatePages_def CoreInternalAllocatePages_def split: if_splits)
  qed
  show ?case
    by (rule page_service_ok [OF c, of "{}" _ _ "page_range S n"]) (use a T in \<open>auto simp: allocated_def\<close>)
next
  case (pages_refused AT T n Mem c Status B p')
  then obtain L where c: "page_idle (page_part (memory c))" "pool_inv {} L (memory c)" "buffers_ok L c" "pages_ok L c"
    by (auto simp: program_ok_def)
  have a: "allocated T n (page_part (memory c)) (Status, B, p')"
    using CoreAllocatePages_allocated [OF c(1), of env AT T n Mem] pages_refused.hyps(1) by simp
  have "program_ok (c\<lparr>pages_held := pages_held c, memory := (memory c)\<lparr>page_part := p'\<rparr>\<rparr>)"
    by (rule page_service_ok [OF c, of "{}"]) (use a in \<open>auto simp: allocated_def\<close>)
  then show ?case by simp
next
  case (pages_given_back S n c Status p')
  then obtain L where c: "page_idle (page_part (memory c))" "pool_inv {} L (memory c)" "buffers_ok L c" "pages_ok L c"
    by (auto simp: program_ok_def)
  have f: "freed S n (page_part (memory c)) (Status, p')"
    using CoreFreePages_freed [OF c(1), of env S n] pages_given_back.hyps(2) by simp
  show ?case
    by (rule page_service_ok [OF c, of "page_range S n"]) (use f pages_given_back.hyps(1) in \<open>auto simp: freed_def\<close>)
qed

lemma start_ok:
  assumes "page_idle (page_part s)" "mPoolHeadList s = []"
  shows "program_ok \<lparr>held = Map.empty, pages_held = {}, memory = CoreInitializePool s\<rparr>"
proof -
  let ?s = "CoreInitializePool s"
  have l: "free_list (PoolHead i) j ?s = []" if "i < 15" "j < 9" for i j
    using that by (simp add: free_list_def get_pool_def CoreInitializePool_def new_pool_def)
  have po: "pool_of ?s T = (if T < EfiMaxMemoryType then Some (PoolHead (unat T)) else None)" for T
    using assms(2) by (simp add: pool_of_def CoreInitializePool_def)
  have "fl ?s T j = []" if "j < 9" for T j using l that by (simp add: fl_def po word_less_nat_alt)
  then have "listed {} Map.empty ?s" by (simp add: listed_def free_blocks_def)
  moreover have "pools_ok ?s" using assms(2) by (auto simp: pools_ok_def CoreInitializePool_def new_pool_def)
  moreover have "pool_names ?s = []" "page_part ?s = page_part s" using assms(2) by (simp_all add: pool_names_def CoreInitializePool_def)
  ultimately have "pool_inv {} Map.empty ?s"
    by (simp add: pool_inv_def layout_ok_def in_memory_def pooled_def labelled_def own_pools_def)
  then show ?thesis using assms(1) \<open>page_part ?s = page_part s\<close>
    by (auto simp: program_ok_def buffers_ok_def pages_ok_def intro!: exI [of _ Map.empty])
qed

lemma memory_reach_ok:
  assumes "memory_reach env (CoreInitializePool s) c" "page_idle (page_part s)" "mPoolHeadList s = []" shows "program_ok c"
  using assms(1) by induction (auto intro: start_ok [OF assms(2,3)] memory_step_ok)

text \<open>A buffer lies in its block, behind the header.\<close>

lemma buffer_in_block:
  assumes s: "pool_inv {} L s" and m: "(b - SIZE_OF_POOL_HEAD, T, m) \<in> heads {} L s" "unat n + 40 \<le> unat m"
  shows "inside b (unat n) x \<Longrightarrow> inside (b - SIZE_OF_POOL_HEAD) (pool_bytes m) x" "unat b = unat (b - SIZE_OF_POOL_HEAD) + 24"
    "unat b + unat n \<le> unat (b - SIZE_OF_POOL_HEAD) + pool_bytes m"
proof -
  obtain r where f: "40 \<le> unat m" "unat m \<le> pool_bytes m" "unat (b - SIZE_OF_POOL_HEAD) + pool_bytes m \<le> 2 ^ 64"
    using head_facts [OF s m(1)] by metis
  have e: "unat (x + 24 :: u64) = unat x + 24" if "unat x + 24 < 2 ^ 64" for x using that by (simp add: unat_word_ariths)
  have "unat (b - SIZE_OF_POOL_HEAD) + 24 < 2 ^ 64" using f by linarith
  from e [OF this] show b: "unat b = unat (b - SIZE_OF_POOL_HEAD) + 24" by simp
  show "unat b + unat n \<le> unat (b - SIZE_OF_POOL_HEAD) + pool_bytes m" using b f m(2) by linarith
  then show "inside b (unat n) x \<Longrightarrow> inside (b - SIZE_OF_POOL_HEAD) (pool_bytes m) x" using b by (auto simp: inside_def)
qed

text \<open>C1: (safety) No memory is given out twice.  Whatever a program allocates and frees with CoreAllocatePool, CoreFreePool,
  CoreAllocatePages and CoreFreePages, in any order, as long as it frees only what it holds (no request of more than
  0xFFFFFFFFFFFFFFD0 bytes, no operating system's type): two buffers that it holds lie apart, and every byte of a buffer is in memory
  of the type of the buffer and in no page that the program holds.\<close>

theorem memory_is_given_out_once:
  assumes "memory_reach env (CoreInitializePool s) c" "page_idle (page_part s)" "mPoolHeadList s = []"
    and "held c b = Some (T, n)"
  shows "(\<forall>x. inside b (unat n) x \<longrightarrow> (\<exists>A. owner (page_part (memory c)) x = {#(T, A)#}) \<and> x \<notin> pages_held c) \<and>
    (\<forall>b' T' n'. held c b' = Some (T', n') \<and> b' \<noteq> b \<longrightarrow> apart b (unat n) b' (unat n'))"
proof
  have ok: "program_ok c" using memory_reach_ok [OF assms(1-3)] .
  then obtain L where L: "pool_inv {} L (memory c)" "buffers_ok L c" "pages_ok L c" by (auto simp: program_ok_def)
  obtain m where m: "(b - SIZE_OF_POOL_HEAD, T, m) \<in> heads {} L (memory c)" "unat n + 40 \<le> unat m"
    using L(2) assms(4) unfolding buffers_ok_def by blast
  have La: "L (b - SIZE_OF_POOL_HEAD) = Some (pool_bytes m, T)" using m(1) by (simp add: heads_def)
  note B = buffer_in_block [OF L(1) m]
  show "\<forall>x. inside b (unat n) x \<longrightarrow> (\<exists>A. owner (page_part (memory c)) x = {#(T, A)#}) \<and> x \<notin> pages_held c"
    using B(1) La L(1,3) unfolding pool_inv_def in_memory_def pages_ok_def covered_def by blast
  show "\<forall>b' T' n'. held c b' = Some (T', n') \<and> b' \<noteq> b \<longrightarrow> apart b (unat n) b' (unat n')"
  proof (intro allI impI)
    fix b' T' n' assume b': "held c b' = Some (T', n') \<and> b' \<noteq> b"
    then obtain m' where m': "(b' - SIZE_OF_POOL_HEAD, T', m') \<in> heads {} L (memory c)" "unat n' + 40 \<le> unat m'"
      using L(2) unfolding buffers_ok_def by blast
    have Lb: "L (b' - SIZE_OF_POOL_HEAD) = Some (pool_bytes m', T')" using m'(1) by (simp add: heads_def)
    have "b - SIZE_OF_POOL_HEAD \<noteq> b' - SIZE_OF_POOL_HEAD" using b' by auto
    then have "apart (b - SIZE_OF_POOL_HEAD) (pool_bytes m) (b' - SIZE_OF_POOL_HEAD) (pool_bytes m')"
      using L(1) La Lb by (intro layout_apart [of L]) (auto simp: pool_inv_def)
    then show "apart b (unat n) b' (unat n')" using B(2,3) buffer_in_block(2,3) [OF L(1) m'] by (auto simp: apart_def)
  qed
qed

lemma two_buffers_sample:
  "case CoreAllocatePool quiet_env EfiBootServicesData 5000 False sample_pool of
     Some (Inr (St1, B1, s1)) \<Rightarrow>
       (case CoreAllocatePool quiet_env EfiRuntimeServicesData 4096 False s1 of
         Some (Inr (St2, B2, s2)) \<Rightarrow> (St1, B1) = (EFI_SUCCESS, Some 0x10E018) \<and> (St2, B2) = (EFI_SUCCESS, Some 0x10C018)
       | _ \<Rightarrow> False)
   | _ \<Rightarrow> False"
  by code_simp

theorem memory_is_given_out_once_witness:
  "\<exists>s1 s2 c. CoreAllocatePool quiet_env EfiBootServicesData 5000 False sample_pool = ret (EFI_SUCCESS, Some 0x10E018, s1) \<and>
    CoreAllocatePool quiet_env EfiRuntimeServicesData 4096 False s1 = ret (EFI_SUCCESS, Some 0x10C018, s2) \<and>
    memory_reach quiet_env sample_pool c \<and> memory c = s2 \<and>
    held c 0x10E018 = Some (EfiBootServicesData, 5000) \<and> held c 0x10C018 = Some (EfiRuntimeServicesData, 4096) \<and>
    apart 0x10E018 5000 0x10C018 4096 \<and> (\<exists>A. owner (page_part s2) 0x10E018 = {#(EfiBootServicesData, A)#})"
proof -
  obtain s1 s2 where s1: "CoreAllocatePool quiet_env EfiBootServicesData 5000 False sample_pool = ret (EFI_SUCCESS, Some 0x10E018, s1)"
    and s2: "CoreAllocatePool quiet_env EfiRuntimeServicesData 4096 False s1 = ret (EFI_SUCCESS, Some 0x10C018, s2)"
    using two_buffers_sample unfolding case_run_ret by auto
  let ?s = "\<lparr>page_part = sample_pages, objects = (\<lambda>_. None), tails = (\<lambda>_. None), mPoolHead = [], mPoolHeadList = []\<rparr>"
  define c0 where "c0 = \<lparr>held = Map.empty, pages_held = {}, memory = CoreInitializePool ?s\<rparr>"
  define c1 where "c1 = c0\<lparr>held := (held c0)(0x10E018 \<mapsto> (EfiBootServicesData, 5000)), memory := s1\<rparr>"
  define c where "c = c1\<lparr>held := (held c1)(0x10C018 \<mapsto> (EfiRuntimeServicesData, 4096)), memory := s2\<rparr>"
  have "memory_step quiet_env c0 c1"
    unfolding c1_def by (rule pool_allocated [where null = False]) (use s1 in \<open>simp_all add: c0_def sample_pool_def\<close>)
  moreover have "memory_step quiet_env c1 c"
    unfolding c_def by (rule pool_allocated [where null = False]) (use s2 in \<open>simp_all add: c1_def\<close>)
  ultimately have r: "memory_reach quiet_env (CoreInitializePool ?s) c" by (metis c0_def memory_reach.intros)
  have h: "held c 0x10E018 = Some (EfiBootServicesData, 5000)" "held c 0x10C018 = Some (EfiRuntimeServicesData, 4096)" "memory c = s2"
    by (simp_all add: c_def c1_def)
  have "page_idle (page_part ?s)" "mPoolHeadList ?s = []" using sample_pages_idle by simp_all
  note g = memory_is_given_out_once [OF r this h(1)]
  have "apart 0x10E018 (unat (5000 :: u64)) 0x10C018 (unat (4096 :: u64))"
    using g [THEN conjunct2, rule_format, of "0x10C018" EfiRuntimeServicesData 4096] h(2) by simp
  moreover have "\<exists>A. owner (page_part s2) 0x10E018 = {#(EfiBootServicesData, A)#}"
    using g [THEN conjunct1, rule_format, of "0x10E018"] by (simp add: inside_def h(3))
  ultimately show ?thesis using r h s1 s2 unfolding sample_pool_def by (intro exI [of _ s1] exI [of _ s2] exI [of _ c]) simp
qed

section \<open>The pool services come to an end\<close>

lemma carve_ends: "ends_if True (carve r P Offset MaxOffset k s)"
proof -
  have "ends_if True (carve_loop r P M k off s)" for M off and s :: "'a pool_state"
    by (induction k arbitrary: off s) (auto simp: assert_if_def split_beta intro: ends_fault)
  then show ?thesis unfolding carve_def by (rule ends_bind) (auto simp: assert_if_def split_beta intro: ends_fault)
qed

lemma pool_block_ends:
  assumes "page_inv (page_part s)" shows "ends_if True (pool_block env r T m I s)"
proof -
  have "ends_if True (CoreAllocatePoolPages env (CoreFreeMemoryMapStack env) T n EFI_PAGE_SIZE (page_part s))" for n
    by (rule CoreAllocatePoolPages_ends [OF ending_stack assms]) simp
  then have w: "ends_if True (with_pages (CoreAllocatePoolPages env (CoreFreeMemoryMapStack env) T n EFI_PAGE_SIZE) s)" for n
    unfolding with_pages_def by (rule ends_bind) (simp add: split_beta)
  show ?thesis
    unfolding pool_block_def Let_def index_page(2)
    by (auto simp: assert_if_def split_beta split: list.split option.split intro: ends_fault carve_ends w intro!: ends_bind [OF w])
qed

lemma allocate_ends:
  assumes look: "ends_if True (lookup T s)" "holds {AssertFailed} (lookup T s) (found_pool L s T)"
  shows "ends_if True (allocate_pool_with env lookup T Size s)"
proof -
  have "ends_if True (case x of (Pool, s1) \<Rightarrow> (case Pool of None \<Rightarrow> ret (NULL, s1) | Some r \<Rightarrow>
      bind_run (pool_block env r T m I s1) (\<lambda>(Head, s2).
        if Head \<noteq> NULL then ret (Head + SIZE_OF_POOL_HEAD, pool_header env r Head T m s2) else ret (NULL, s2))))"
    if "found_pool L s T x" for x m I
  proof -
    obtain Pool s1 where x: "x = (Pool, s1)" by (cases x)
    have "page_inv (page_part s1)" using that by (auto simp: x found_pool_def pool_safe_def advances_def fully_idle_def)
    then show ?thesis
      by (auto simp: x split: option.split intro!: ends_bind [OF pool_block_ends])
  qed
  then show ?thesis
    unfolding allocate_pool_with_def Let_def
    by (auto simp: assert_if_def intro: ends_fault intro!: ends_holds [OF look])
qed

lemma lookup_ends:
  assumes s: "pool_inv {} L s" and p: "fully_idle (page_part s)"
  shows "ends_if True (lookup_pool_with (allocate_pool_with env (lookup_pool_with alloc)) T s)"
proof -
  have r: "pool_of s EfiBootServicesData = Some (PoolHead (unat EfiBootServicesData))" by (simp add: pool_of_def)
  have "ends_if True (allocate_pool_with env (lookup_pool_with alloc) EfiBootServicesData sizeof_POOL s)"
  proof (rule allocate_ends)
    show "ends_if True (lookup_pool_with alloc EfiBootServicesData s)" unfolding lookup_found [OF r] by simp
    show "holds {AssertFailed} (lookup_pool_with alloc EfiBootServicesData s) (found_pool L s EfiBootServicesData)"
      unfolding lookup_found [OF r] using pool_safe_refl [OF s p] r by (auto simp: found_pool_def)
  qed
  then show ?thesis
    unfolding lookup_pool_with_def [of "allocate_pool_with env (lookup_pool_with alloc)"]
    by (auto split: option.split intro!: ends_bind simp: split_beta)
qed

lemma CoreAllocatePoolI_ends:
  assumes "pool_inv {} L s" "fully_idle (page_part s)" "T < 0x80000000"
  shows "ends_if True (CoreAllocatePoolI env T Size s)"
  unfolding CoreAllocatePoolI_def
  by (rule allocate_ends) (rule lookup_ends [OF assms(1,2)], rule lookup_found_pool [OF assms])

lemma CoreAllocatePool_ends:
  assumes s: "pool_inv {} L s" and p: "page_idle (page_part s)" and T: "T < 0x80000000"
  shows "ends_if True (CoreAllocatePool env T Size null s)"
proof -
  let ?s = "s\<lparr>page_part := (page_part s)\<lparr>gMemoryLock := True\<rparr>\<rparr>"
  have s1: "pool_inv {} L ?s" "fully_idle (page_part ?s)" using s lock_idle(1) [OF p] by simp_all
  have r: "ends_if True (lock_pages CoreReleaseMemoryLock s2)" for s2 :: "'a pool_state"
    unfolding lock_pages_def by (rule ends_bind [OF ends_lock(2)]) simp
  have "ends_if True (CoreInternalAllocatePool env T Size null s)"
    unfolding CoreInternalAllocatePool_def acquire_pool [OF p] bind_run_simps
    by (intro ends_ite ends_ret ends_bind [OF CoreAllocatePoolI_ends [OF s1 T]]) (auto simp: split_beta intro!: ends_bind [OF r])
  then show ?thesis unfolding CoreAllocatePool_def by (rule ends_bind) (simp add: split_beta)
qed

lemma all_free_ends: "ends_if True (all_free obs P G off)"
proof (induction obs P G off rule: all_free.induct)
  case (1 obs P G off)
  then show ?case
    by (subst all_free.simps) (auto split: option.split pool_object.split intro: ends_fault)
qed

lemma unlink_page_ends: "ends_if True (unlink_page r P G off s) \<and> holds UNIV (unlink_page r P G off s) (\<lambda>s'. page_part s' = page_part s)"
proof (induction r P G off s rule: unlink_page.induct)
  case (1 r P G off s)
  have "page_part (set_free_list r i as s) = page_part s" for i as by (simp add: set_free_list_def update_pool_def split: pool_ref.split)
  then show ?case using 1
    by (subst unlink_page.simps, subst (2) unlink_page.simps) (auto split: option.split pool_object.split intro: ends_fault)
qed

lemma free_pages_ends: "page_inv (page_part s) \<Longrightarrow> ends_if True (free_pages env a n s)"
  unfolding free_pages_def CoreFreePoolPages_def CoreConvertPages_def
  by (intro ends_bind [OF ends_bind [OF CoreConvertPagesEx_stops]]) (auto simp: split_beta)

lemma free_block_ends:
  assumes "page_inv (page_part s)" shows "ends_if True (free_block env r T m a s)"
proof -
  have i: "page_part (insert_free r i a s) = page_part s" for i
    by (simp add: insert_free_def set_free_list_def update_pool_def split: pool_ref.split)
  have u: "ends_if True (bind_run (unlink_page r P G 0 (insert_free r i a s)) (free_pages env P n))" for P G i n
  proof (rule ends_holds [of _ UNIV "\<lambda>s'. page_part s' = page_part s"])
    show "ends_if True (unlink_page r P G 0 (insert_free r i a s))"
      "holds UNIV (unlink_page r P G 0 (insert_free r i a s)) (\<lambda>s'. page_part s' = page_part s)"
      using unlink_page_ends [of r P G 0 "insert_free r i a s"] i by simp_all
    show "ends_if True (free_pages env P n s')" if "page_part s' = page_part s" for s'
      by (rule free_pages_ends) (use assms that in simp)
  qed
  show ?thesis
    unfolding free_block_def Let_def
    by (auto intro: free_pages_ends [OF assms] u intro!: ends_bind [OF all_free_ends])
qed

lemma CoreFreePool_ends:
  assumes s: "pool_inv {} L s" and p: "page_idle (page_part s)"
    and b: "(b - SIZE_OF_POOL_HEAD, T, m) \<in> heads {} L s" "b - SIZE_OF_POOL_HEAD \<notin> own_heads s"
  shows "ends_if True (CoreFreePool env b s)"
proof -
  let ?s = "s\<lparr>page_part := (page_part s)\<lparr>gMemoryLock := True\<rparr>\<rparr>" and ?a = "b - SIZE_OF_POOL_HEAD"
  have s1: "pool_inv {} L ?s" "fully_idle (page_part ?s)" using s lock_idle(1) [OF p] by simp_all
  have h: "(?a, T, m) \<in> heads {} L ?s" "?a \<notin> own_heads ?s" using b by simp_all
  obtain r s0 k where e: "CoreFreePoolI env (?a + SIZE_OF_POOL_HEAD) ?s = bind_run (free_block env r T m ?a s0) k"
      "holds {AssertFailed} (free_block env r T m ?a s0) (let_go L ?a ?s)" "page_inv (page_part s0)"
      "\<forall>s2. let_go L ?a ?s s2 \<longrightarrow> k s2 = ret (EFI_SUCCESS, s2)"
    using CoreFreePoolI_run [OF s1 h, of env] by blast
  have f: "ends_if True (CoreFreePoolI env b ?s)"
    using ends_holds [OF free_block_ends [OF e(3)] e(2), of k] e(1,4) by simp
  have r: "ends_if True (lock_pages CoreReleaseMemoryLock s2)" for s2 :: "'a pool_state"
    unfolding lock_pages_def by (rule ends_bind [OF ends_lock(2)]) simp
  have "ends_if True (CoreInternalFreePool env b s)"
    unfolding CoreInternalFreePool_def acquire_pool [OF p] bind_run_simps
    by (intro ends_ite ends_ret ends_bind [OF f]) (auto simp: split_beta intro!: ends_bind [OF r])
  then show ?thesis unfolding CoreFreePool_def by (rule ends_bind) (simp add: split_beta)
qed

text \<open>C40: (termination) The pool services come to an end.  In whatever state a program over both allocators has brought the
  memory, the start and states in which it holds no buffer included: CoreAllocatePool
  does not run for ever, for no size and no type below 0x80000000, and CoreFreePool of any buffer that the program holds does not run
  for ever either and answers EFI_SUCCESS, if no ASSERT fails on the way (in the pages that are given back).  The walks over
  the page and the recursion of CoreFreePoolI, a partial function of the model, all end.\<close>

theorem pool_services_end:
  assumes "memory_reach env (CoreInitializePool s) c" "page_idle (page_part s)" "mPoolHeadList s = []"
    and "T < 0x80000000"
  shows "CoreAllocatePool env T n null (memory c) \<noteq> None \<and>
    (\<forall>b U k. held c b = Some (U, k) \<longrightarrow>
      CoreFreePool env b (memory c) = Some (Inl AssertFailed) \<or> (\<exists>s'. CoreFreePool env b (memory c) = ret (EFI_SUCCESS, s')))"
proof (intro conjI allI impI)
  obtain L where L: "page_idle (page_part (memory c))" "pool_inv {} L (memory c)" "buffers_ok L c"
    using memory_reach_ok [OF assms(1-3)] by (auto simp: program_ok_def)
  show "CoreAllocatePool env T n null (memory c) \<noteq> None"
    using CoreAllocatePool_ends [OF L(2,1) assms(4), of env n null] by (simp add: ends_if_def)
  fix b U k assume h: "held c b = Some (U, k)"
  obtain m where m: "b - SIZE_OF_POOL_HEAD \<notin> own_heads (memory c)" "(b - SIZE_OF_POOL_HEAD, U, m) \<in> heads {} L (memory c)"
    using L(3) h unfolding buffers_ok_def by blast
  have "ends_if True (CoreFreePool env b (memory c))" by (rule CoreFreePool_ends [OF L(2,1) m(2,1)])
  then show "CoreFreePool env b (memory c) = Some (Inl AssertFailed) \<or> (\<exists>s'. CoreFreePool env b (memory c) = ret (EFI_SUCCESS, s'))"
    using CoreFreePool_freed [OF L(2,1) m(2,1), of env]
    by (auto simp: ends_if_def holds_def pool_freed_def ret_def split: option.splits sum.splits)
qed

lemma free_buffer_sample:
  "case CoreAllocatePool quiet_env EfiBootServicesData 5000 False sample_pool of
     Some (Inr (St1, B1, s1)) \<Rightarrow>
       (case CoreFreePool quiet_env 0x10E018 s1 of
         Some (Inr (St2, s2)) \<Rightarrow> (St1, B1) = (EFI_SUCCESS, Some 0x10E018) \<and> St2 = EFI_SUCCESS
       | _ \<Rightarrow> False)
   | _ \<Rightarrow> False"
  by code_simp

theorem pool_services_end_witness:
  "\<exists>s1 s2. CoreAllocatePool quiet_env EfiBootServicesData 5000 False sample_pool = ret (EFI_SUCCESS, Some 0x10E018, s1) \<and>
    CoreFreePool quiet_env 0x10E018 s1 = ret (EFI_SUCCESS, s2) \<and>
    CoreAllocatePool quiet_env EfiRuntimeServicesCode 7 False s1 \<noteq> None"
proof -
  obtain s1 s2 where s1: "CoreAllocatePool quiet_env EfiBootServicesData 5000 False sample_pool = ret (EFI_SUCCESS, Some 0x10E018, s1)"
    and s2: "CoreFreePool quiet_env 0x10E018 s1 = ret (EFI_SUCCESS, s2)"
    using free_buffer_sample unfolding case_run_ret by auto
  let ?s = "\<lparr>page_part = sample_pages, objects = (\<lambda>_. None), tails = (\<lambda>_. None), mPoolHead = [], mPoolHeadList = []\<rparr>"
  define c0 where "c0 = \<lparr>held = Map.empty, pages_held = {}, memory = CoreInitializePool ?s\<rparr>"
  define c where "c = c0\<lparr>held := (held c0)(0x10E018 \<mapsto> (EfiBootServicesData, 5000)), memory := s1\<rparr>"
  have "memory_step quiet_env c0 c"
    unfolding c_def by (rule pool_allocated [where null = False]) (use s1 in \<open>simp_all add: c0_def sample_pool_def\<close>)
  then have r: "memory_reach quiet_env (CoreInitializePool ?s) c" by (metis c0_def memory_reach.intros)
  have h: "held c 0x10E018 = Some (EfiBootServicesData, 5000)" "memory c = s1" by (simp_all add: c_def)
  have "page_idle (page_part ?s)" "mPoolHeadList ?s = []" using sample_pages_idle by simp_all
  note e = pool_services_end [OF r this, of EfiRuntimeServicesCode 7 False]
  have "CoreAllocatePool quiet_env EfiRuntimeServicesCode 7 False s1 \<noteq> None" using e h(2) by simp
  then show ?thesis using s1 s2 by blast
qed

end
