(* ===== verification/Spec2Isabelle.thy ===== *)
theory Spec2Isabelle
  imports Prelude LinkedList Depex Dispatcher Bits EventRuns GcdAllocate HandleServices PoolRuns
begin

text \<open>
  A verification library for the DXE Foundation of UDK2015, the UEFI boot kernel of EDK II
  (src/MdeModulePkg/Core/Dxe), with the parts of BaseLib (src/MdePkg/Library/BaseLib) it rests on.

  The program.  The DXE core is the C program that a platform's firmware runs between the first memory
  initialization and the operating system.  It keeps: the maps of the memory and I/O space (Gcd); the map of the pages of memory
  and the pools of buffers on top of it (Mem); the events,
  timers and task priority levels (Event); the database of handles and protocols, through which all
  drivers find each other (Hand); and the dispatcher, which loads drivers in the order that their
  dependency expressions allow (Dispatcher).  The dispatcher asks the handle database whether protocols
  are installed; the installation of a protocol signals events; events run notification functions, which call the services
  again; drivers are called back by the handle database when a protocol is opened exclusively or taken away.

  Theories, in the order they build on each other:

  Prelude: integer types (pointers and UINTN have 64 bits: an X64 build), \<open>efi_status\<close>, and the type \<open>'a run\<close> of
  code that may stop in a fault (an ASSERT that fails, a NULL or freed pointer) or not return, with its bind.

  LinkedList (BaseLib/LinkedList.c): rings of \<open>LIST_ENTRY\<close> in a heap of link fields.  Each function is the sequence of
  field writes of the code.  \<open>dlist h L xs\<close> abstracts a ring to a list; locale \<open>entry_queue\<close> is the
  contract of a queue, interpreted on the ring.  The other theories use lists where the code has
  rings; these lemmas are the reason why.

  Depex (Dispatcher/Dependency.c, Pei/Dependency/Dependency.c): the two evaluators of dependency
  expressions, over the bytes of the expression, against a semantics of Boolean expressions.

  Dispatcher (Dispatcher/Dispatcher.c): the driver list, scheduling with Before and After, the dispatch loop, Schedule and Trust.
  The scheduled queue is a list of positions of the discovered list.  The loader, started images and firmware volume images are services of the model.

  Bits (BaseLib/HighBitSet32.c, HighBitSet64.c): the scan for the highest bit.

  Events, EventInvariant, EventBuilds, EventRuns (Event/Event.c, Timer.c, Tpl.c, locks of Library/Library.c): Events holds the model,
  EventInvariant the invariant of the event database, kept by every program over the services (locale \<open>restore_service\<close>),
  EventBuilds that a run which returns with assertions compiled in returns the same without (locale \<open>two_builds\<close>),
  EventRuns the runs that return (locale \<open>idle_service\<close>) and the properties.  CoreCloseEvent frees an event without clearing its
  signature: the state keeps the set \<open>closed_events\<close>, and the signature check of one of them is a use of freed memory.

  Gcd, GcdSpace, GcdServices, GcdAllocate (Gcd/Gcd.c): Gcd holds the model of both maps and all services, GcdSpace the abstraction
  of a map to a function from addresses to attributes (locale \<open>space_map\<close>), GcdServices the properties of the conversion of a range,
  GcdAllocate those of the search for free ranges, against free places defined by the attributes of each address (\<open>free_place\<close>), and of
  the descriptors handed out.

  HandleDb, HandleInvariant, HandleServices (Hand/Handle.c, Notify.c, Locate.c): HandleDb holds the model, HandleInvariant the
  invariant between handles, interfaces, protocol entries and registrations (locale \<open>driver_services\<close>: what the database needs of
  the two functions that run drivers), HandleServices the properties against an abstract database of protocols.

  Pages (Mem/Page.c) holds the model of the page allocator: the memory map as a list of descriptors, some of them on the stack
  mMapStack, the conversion of ranges, the search for free pages, promotion of untested memory from the GCD map, the bins of the
  memory types, the page services and the memory map for the caller.  PageMap has the invariant \<open>page_inv\<close> (each address belongs to at
  most one descriptor or one range of untested memory) and what each operation does to the owner of an address, PageStack
  the stack of descriptors and termination, PageServices the effect of the services (what a range freed with success still holds is bounded by the descriptors made for it) and \<open>page_step\<close>, a call of a service as a step
  relation, PageRuns sequences of calls, the search and the size of the memory map, PageRoundTrip the exact effect of
  requests that fit, and runs that show defects.

  Pools (Mem/Pool.c) holds the model of the pool allocator over a store of headers.  PoolMap has the carving of a page and the lists of
  free blocks, PoolLayout the geometry of the blocks (\<open>layout_ok\<close>), PoolInvariant the invariant \<open>pool_inv\<close> that ties layout, headers,
  lists and the owners of the page map together, PoolServices allocation, PoolFree freeing and the walks over a page, PoolRuns
  programs that use both allocators (\<open>memory_step\<close>): the properties of Pool.c and Page.c together.

  This theory: what the dispatcher and the handle database do together.

  Fuel.  \<open>CoreRestoreTpl k\<close> bounds the nesting of RestoreTPL in notification functions and the loops they cause: \<open>None\<close>
  is a run that needs more.  Statements that a run returns give the depth, or hold for any depth from two on (one for the service, one
  for the restore it ends in).  \<open>driver_calls k\<close> is the nesting of drivers that connect drivers.  The dispatcher's recursion over
  Before and After and the loop that disconnects drivers are \<open>partial_function (option)\<close>: \<open>None\<close> is non-termination, and termination is a
  property where it holds; so is \<open>CoreFreePoolI\<close>, which frees the pool of a type with itself.  All other loops are structural or have a measure.
  The mutual recursion of Page.c (freeing the stack of descriptors may need a page for descriptors, which may promote memory, which frees the
  stack) is cut off where the busy counter mFreeMapStack makes the inner call return at once (\<open>free_when_busy\<close>); \<open>free_map_stack_recursive\<close> is the
  equation of the code.  That of Pool.c (the pool of a new type is allocated from the pool) is cut off at the second level;
  \<open>allocate_pool_recursive\<close> is the equation of the code.

  Conventions.  \<open>LIST_ENTRY\<close> rings are lists; an object is its address, freed memory an address with nothing at it, so that a use of freed
  memory is a fault.  Status codes are a datatype; arguments that may be NULL are options or flags.  Enumerations are unsigned 32-bit words,
  so that values outside the enumeration are covered.  Interrupts only switch the interrupt state; locks of components other than
  the event services are left out, as one service runs at a time.  DEBUG output and dumps are left out, except
  for what their arguments dereference in Gcd.

  Not modelled, and why: the memory profile (Mem/MemoryProfileRecord.c, a log behind a PCD, here a parameter), the image loader (Image), firmware volumes and section extraction
  (FwVol, FwVolBlock, SectionExtraction) and the start of the core from the HOB list (DxeMain, the end of Gcd.c) are parsers of
  binary formats, parts of their own; connecting drivers (Hand/DriverSupport.c) is represented by driver programs over the services; device
  paths (CoreLocateDevicePath, the install and uninstall of several protocols, which checks device paths) need the device path
  library.  The rest of the repository (PEI and SMM cores, network, shell, cryptography, build tools, bus and
  platform drivers) is outside this library.
\<close>

text \<open>The protocol database as the dependency evaluator sees it: whether \<open>CoreLocateProtocol\<close> succeeds.\<close>

definition located :: "'w hdb \<Rightarrow> EFI_GUID \<Rightarrow> bool" where
  "located s g = (case CoreLocateProtocol (Some g) NULL False s of Some (Inr (st, _)) \<Rightarrow> \<not> EFI_ERROR st | _ \<Rightarrow> False)"

lemma located_installed:
  assumes "hdb_ok s" "requests_past s" "unat (mEfiLocateHandleRequest s) + 1 < 2 ^ 64"
  shows "located s g \<longleftrightarrow> (\<exists>h. has_protocol s h g)"
  using locate_protocol_first [OF assms, of g] by (auto simp: located_def ret_def split: if_splits)

text \<open>C16: (safety) The dispatcher and the handle database together.  A driver with a well-formed dependency
  expression, freshly read, is evaluated, with memory for the evaluation stack, against a good handle database whose request number has not wrapped; then a protocol \<open>g\<close> that the handle does not have is installed with success, and the
  driver is evaluated again, with the opcodes that the first evaluation patched.  The first answer is the value of the expression over the
  protocols that are installed on some handle, the second its value over those and \<open>g\<close>.\<close>

theorem installation_feeds_dispatch:
  assumes "hdb_ok s" "requests_past s" "unat (mEfiLocateHandleRequest s) + 1 < 2 ^ 64"
    and "\<not> has_protocol s h g"
    and "CoreInstallProtocolInterface dc henv (Some h) (Some g) EFI_NATIVE_INTERFACE i s = ret (EFI_SUCCESS, Some h1, s1)"
    and "Depex d = Some mem" "\<not> Before d" "\<not> After d" "well_formed_depex mem j e (DepexSize d)" "unpatched mem j e"
    and "\<And>n. pool_ok env n"
  shows "\<exists>d1 st1 d2 st2.
    CoreIsSchedulable (env\<lparr>locate := located s\<rparr>) st d = ret (dep_val (\<lambda>k. \<exists>x. has_protocol s x k) e, d1, st1) \<and>
    CoreIsSchedulable (env\<lparr>locate := located s1\<rparr>) st1 d1 = ret (dep_val (\<lambda>k. k = g \<or> (\<exists>x. has_protocol s x k)) e, d2, st2)"
proof -
  let ?e = "env\<lparr>locate := located s\<rparr>" and ?e1 = "env\<lparr>locate := located s1\<rparr>"
  note i = install_success [OF assms(1,4,5)]
  have l: "locate ?e = (\<lambda>k. \<exists>x. has_protocol s x k)" using located_installed [OF assms(1-3)] by (auto intro!: ext)
  have l1: "locate ?e1 = (\<lambda>k. k = g \<or> (\<exists>x. has_protocol s x k))"
    using located_installed [OF i(1) i(5) [OF assms(2)]] i(4) assms(3) install_adds_protocol [OF assms(1,4,5)] by (auto intro!: ext)
  let ?m = "patch (locate ?e) mem j e" and ?d = "d\<lparr>Depex := Some (patch (locate ?e) mem j e)\<rparr>"
  obtain st1 where a: "CoreIsSchedulable ?e st d = ret (mem_val (locate ?e) mem j e, ?d, st1)"
    using CoreIsSchedulable_wf [OF assms(6-9), of ?e st] assms(11) by auto
  have "well_formed_depex ?m j e (DepexSize ?d)"
    using assms(9) by (auto simp: well_formed_depex_def encodes_patch patch_outside)
  then obtain st2 d2 where b: "CoreIsSchedulable ?e1 st1 ?d = ret (mem_val (locate ?e1) ?m j e, d2, st2)"
    using CoreIsSchedulable_wf [of ?d ?m j e ?e1 st1] assms(7,8,11) by auto
  have m1: "mem_val (locate ?e) mem j e = dep_val (\<lambda>k. \<exists>x. has_protocol s x k) e" using mem_val_unpatched [OF assms(10)] l by simp
  have "(\<lambda>k. locate ?e k \<or> locate ?e1 k) = (\<lambda>k. k = g \<or> (\<exists>x. has_protocol s x k))" unfolding l l1 by auto
  then have m2: "mem_val (locate ?e1) ?m j e = dep_val (\<lambda>k. k = g \<or> (\<exists>x. has_protocol s x k)) e"
    using mem_val_unpatched [OF assms(10)] by (simp add: mem_val_patch)
  show ?thesis using a b unfolding m1 m2 by blast
qed

theorem installation_feeds_dispatch_witness:
  "\<exists>s1 d1 st1 d2 st2. CoreInstallProtocolInterface example_dc example_env (Some NULL) (Some (replicate 16 0)) EFI_NATIVE_INTERFACE 7 (start_hdb 0x4FD0) =
      ret (EFI_SUCCESS, Some 0x4FF0, s1) \<and>
    CoreIsSchedulable (demo_env\<lparr>locate := located (start_hdb (0x4FD0 :: u64))\<rparr>) \<lparr>Cells = [], StackPointer = 0\<rparr> demo_driver = ret (False, d1, st1) \<and>
    CoreIsSchedulable (demo_env\<lparr>locate := located s1\<rparr>) st1 d1 = ret (True, d2, st2)"
proof -
  have "case CoreInstallProtocolInterface example_dc example_env (Some NULL) (Some (replicate 16 0)) EFI_NATIVE_INTERFACE 7 (start_hdb 0x4FD0) of
     Some (Inr (st, h, s)) \<Rightarrow> st = EFI_SUCCESS \<and> h = Some 0x4FF0 | _ \<Rightarrow> False" by code_simp
  then obtain s1 where s1: "CoreInstallProtocolInterface example_dc example_env (Some NULL) (Some (replicate 16 0)) EFI_NATIVE_INTERFACE 7 (start_hdb 0x4FD0) =
      ret (EFI_SUCCESS, Some 0x4FF0, s1)" by (auto simp: ret_def split: option.splits sum.splits prod.splits)
  have "requests_past (start_hdb (0x4FD0 :: u64))" "unat (mEfiLocateHandleRequest (start_hdb (0x4FD0 :: u64))) + 1 < 2 ^ 64"
    by (simp_all add: requests_past_def start_hdb_def)
  moreover have "Depex demo_driver = Some demo_mem" "\<not> Before demo_driver" "\<not> After demo_driver"
    "well_formed_depex demo_mem 0 (DProt (replicate 16 0)) (DepexSize demo_driver)" "unpatched demo_mem 0 (DProt (replicate 16 0))"
    "\<And>n. pool_ok demo_env n"
    using demo_encodes by (simp_all add: demo_driver_def demo_env_def well_formed_depex_def demo_mem_def)
  ultimately show ?thesis
    using installation_feeds_dispatch [OF start_hdb_ok _ _ no_protocol_at_start s1, of demo_driver demo_mem 0 "DProt (replicate 16 0)" demo_env
      "\<lparr>Cells = [], StackPointer = 0\<rparr>"] s1 by (simp add: no_protocol_at_start)
qed

end
